(* ===== verification/Prelude.thy ===== *)
theory Prelude
  imports Complex_Main "HOL-Library.AList"
begin

text \<open>
  Shared vocabulary of the development.  A Python dictionary keeps its keys in insertion
  order, so it is an association list with distinct keys: \<open>AList.update\<close> overwrites in
  place or appends at the end, exactly as \<open>d[k] = v\<close> does, \<open>AList.delete\<close> is
  \<open>d.pop(k, None)\<close> and \<open>map_of\<close> is \<open>d.get(k)\<close>.  Times read from
  \<open>time.monotonic()\<close> are rational numbers of seconds.
\<close>

named_theorems dict_simps \<open>reading a dictionary after it was written\<close>

type_synonym ('k, 'v) dict = "('k \<times> 'v) list"
type_synonym seconds = rat

definition dset :: "'k \<Rightarrow> 'v \<Rightarrow> ('k, 'v) dict \<Rightarrow> ('k, 'v) dict" where
  "dset k v d = AList.update k v d"

definition dpop :: "'k \<Rightarrow> ('k, 'v) dict \<Rightarrow> ('k, 'v) dict" where
  "dpop k d = AList.delete k d"

definition dget_default :: "('k, 'v) dict \<Rightarrow> 'k \<Rightarrow> 'v \<Rightarrow> 'v" where
  "dget_default d k v = (case map_of d k of None \<Rightarrow> v | Some w \<Rightarrow> w)"

definition dkeys :: "('k, 'v) dict \<Rightarrow> 'k list" where
  "dkeys d = map fst d"

text \<open>\<open>d.update(e)\<close>.\<close>

definition dupdate :: "('k, 'v) dict \<Rightarrow> ('k, 'v) dict \<Rightarrow> ('k, 'v) dict" where
  "dupdate d e = foldl (\<lambda>d p. dset (fst p) (snd p) d) d e"

text \<open>\<open>OrderedDict.move_to_end\<close> on a present key, after its value became \<open>v\<close>.\<close>

definition dset_last :: "'k \<Rightarrow> 'v \<Rightarrow> ('k, 'v) dict \<Rightarrow> ('k, 'v) dict" where
  "dset_last k v d = dpop k d @ [(k, v)]"

lemma dget_dset [simp, dict_simps]: "map_of (dset k v d) = (map_of d)(k \<mapsto> v)"
  by (simp add: dset_def update_conv')

lemma dget_dpop [simp, dict_simps]: "map_of (dpop k d) = (map_of d)(k := None)"
  by (simp add: dpop_def delete_conv')

lemma dget_dset_last [simp, dict_simps]: "map_of (dset_last k v d) = (map_of d)(k \<mapsto> v)"
  by (rule ext) (simp add: dset_last_def map_of_append map_add_def split: option.splits)

lemma dget_default_simps [simp, dict_simps]:
  "dget_default (dset k v d) k' w = (if k' = k then v else dget_default d k' w)"
  "dget_default (dpop k d) k' w = (if k' = k then w else dget_default d k' w)"
  "dget_default (dset_last k v d) k' w = (if k' = k then v else dget_default d k' w)"
  by (simp_all add: dget_default_def)

lemma dset_dset [simp]: "dset k v (dset k w d) = dset k v d"
  by (induction d) (auto simp: dset_def)

lemma dget_default_Nil [simp]: "dget_default [] k w = w"
  by (simp add: dget_default_def)

lemma set_dkeys [simp]: "set (dkeys d) = dom (map_of d)"
  by (simp add: dkeys_def dom_map_of_conv_image_fst)

lemma set_dkeys_fst: "set (dkeys d) = fst ` set d"
  by (simp add: dkeys_def)

lemma length_dkeys [simp]: "length (dkeys d) = length d"
  by (simp add: dkeys_def)

lemma distinct_dset [simp, intro]: "distinct (dkeys d) \<Longrightarrow> distinct (dkeys (dset k v d))"
  by (simp add: dset_def dkeys_def distinct_update)

lemma distinct_dpop [simp, intro]: "distinct (dkeys d) \<Longrightarrow> distinct (dkeys (dpop k d))"
  by (simp add: dpop_def dkeys_def distinct_delete)

lemma distinct_dset_last [simp, intro]:
  assumes "distinct (dkeys d)"
  shows "distinct (dkeys (dset_last k v d))"
proof -
  have "k \<notin> set (dkeys (dpop k d))" by simp
  moreover have "distinct (dkeys (dpop k d))" using assms by simp
  ultimately show ?thesis
    by (simp add: dset_last_def dkeys_def)
qed

lemma length_dict_card: "distinct (dkeys d) \<Longrightarrow> length d = card (dom (map_of d))"
  by (metis distinct_card length_dkeys set_dkeys)

lemma dict_card_bound:
  assumes "distinct (dkeys d)" "set (dkeys d) \<subseteq> U" "finite U"
  shows "length d \<le> card U"
  using assms by (metis card_mono length_dict_card set_dkeys)

lemma distinct_dkeys_tl: "distinct (dkeys (p # d)) \<Longrightarrow> distinct (dkeys d)"
  by (simp add: dkeys_def)

lemma distinct_dkeys_filter: "distinct (dkeys d) \<Longrightarrow> distinct (dkeys (filter P d))"
  by (simp add: dkeys_def distinct_map_filter)

lemma distinct_dkeys_drop: "distinct (dkeys d) \<Longrightarrow> distinct (dkeys (drop n d))"
  by (simp add: dkeys_def drop_map [symmetric])

lemma in_dict_map_of: "distinct (dkeys d) \<Longrightarrow> (k, v) \<in> set d \<longleftrightarrow> map_of d k = Some v"
  by (auto simp: dkeys_def dest: map_of_SomeD)

lemma dset_all:
  assumes "distinct (dkeys d)" "P v" "\<forall>p \<in> set d. P (snd p)"
  shows "\<forall>p \<in> set (dset k v d). P (snd p)"
proof
  fix p assume "p \<in> set (dset k v d)"
  then have "map_of (dset k v d) (fst p) = Some (snd p)"
    using in_dict_map_of [OF distinct_dset [OF assms(1)]] by (metis prod.collapse)
  then have "snd p = v \<or> p \<in> set d"
    using in_dict_map_of [OF assms(1), of "fst p" "snd p"] by (auto split: if_splits)
  then show "P (snd p)" using assms by auto
qed

lemma map_of_filter_keys:
  "map_of (filter (\<lambda>p. P (fst p)) d) k = (if P k then map_of d k else None)"
  by (induction d) auto

lemma map_of_filter_distinct:
  assumes "distinct (dkeys d)"
  shows "map_of (filter P d) k =
    (case map_of d k of None \<Rightarrow> None | Some v \<Rightarrow> if P (k, v) then Some v else None)"
  using assms
proof (induction d)
  case (Cons p d)
  obtain a b where p: "p = (a, b)" by (cases p)
  have "a \<notin> fst ` set d" using Cons.prems p by (simp add: dkeys_def)
  then have "map_of d a = None" by (simp add: map_of_eq_None_iff)
  with Cons p show ?case by (auto simp: dkeys_def split: option.splits)
qed simp

subsection \<open>Sorted histories of instants\<close>

text \<open>
  A sliding window keeps the instants of past events in a deque, oldest first, and drops from
  the left what has left the window.  On a sorted deque that is a filter.
\<close>

lemma dropWhile_le_filter:
  fixes xs :: "'a::linorder list"
  assumes "sorted xs"
  shows "dropWhile (\<lambda>t. t \<le> c) xs = filter (\<lambda>t. c < t) xs"
  using assms
proof (induction xs)
  case (Cons x xs)
  show ?case
  proof (cases "x \<le> c")
    case True
    with Cons show ?thesis by simp
  next
    case False
    with Cons.prems have "\<forall>t \<in> set xs. c < t" by auto
    with False show ?thesis by (simp add: filter_id_conv)
  qed
qed simp

lemma filter_gt_filter_gt:
  fixes c c' :: "'a::linorder"
  shows "c' \<le> c \<Longrightarrow> filter (\<lambda>t. c < t) (filter (\<lambda>t. c' < t) xs) = filter (\<lambda>t. c < t) xs"
  by (induction xs) auto

lemma filter_gt_empty_last:
  fixes xs :: "'a::linorder list"
  assumes "sorted xs" "xs \<noteq> [] \<Longrightarrow> last xs \<le> c"
  shows "filter (\<lambda>t. c < t) xs = []"
proof (cases "xs = []")
  case False
  have "xs = butlast xs @ [last xs]" using False by simp
  with assms(1) have "sorted (butlast xs @ [last xs])" by simp
  then have "\<forall>x \<in> set (butlast xs @ [last xs]). x \<le> last xs"
    by (simp add: sorted_append)
  then have "\<forall>x \<in> set xs. x \<le> last xs" using False by simp
  with False assms(2) have "\<forall>x \<in> set xs. x \<le> c" by force
  then show ?thesis by (auto simp: filter_empty_conv)
qed simp

lemma sorted_snoc_bound:
  fixes xs :: "'a::linorder list"
  shows "sorted xs \<Longrightarrow> (\<forall>x \<in> set xs. x \<le> t) \<Longrightarrow> sorted (xs @ [t])"
  by (simp add: sorted_append)

lemma length_filter_mono:
  "(\<And>x. P x \<Longrightarrow> Q x) \<Longrightarrow> length (filter P xs) \<le> length (filter Q xs)"
  by (induction xs) auto

text \<open>A stable sort by descending key: \<open>sort(key=..., reverse=True)\<close> keeps equal elements in order.\<close>

definition sort_desc :: "('a \<Rightarrow> 'b::linorder) \<Rightarrow> 'a list \<Rightarrow> 'a list" where
  "sort_desc f xs = rev (sort_key f (rev xs))"

lemma set_sort_desc [simp]: "set (sort_desc f xs) = set xs" "length (sort_desc f xs) = length xs"
  by (simp_all add: sort_desc_def)

lemma sort_desc_sorted: "sorted (rev (map f (sort_desc f xs)))"
  by (simp add: sort_desc_def rev_map)

fun update_first :: "('a \<Rightarrow> bool) \<Rightarrow> ('a \<Rightarrow> 'a) \<Rightarrow> 'a list \<Rightarrow> 'a list" where
  "update_first P f [] = []"
| "update_first P f (x # xs) = (if P x then f x # xs else x # update_first P f xs)"

lemma update_first_set: "set (update_first P f xs) \<subseteq> set xs \<union> f ` {x \<in> set xs. P x}"
  by (induction xs) auto

lemma length_update_first [simp]: "length (update_first P f xs) = length xs"
  by (induction xs) auto

lemma dupdate_Cons [simp]: "dupdate d (p # e) = dupdate (dset (fst p) (snd p) d) e"
  by (simp add: dupdate_def)

lemma dupdate_Nil [simp]: "dupdate d [] = d"
  by (simp add: dupdate_def)

subsection \<open>Errors as values\<close>

text \<open>
  A Python exception is the left side of a sum.  The constructors name the exception class and
  carry its message; built-in conversions carry a fixed text.
\<close>

datatype exn =
    ValueError string
  | TypeError string
  | OverflowError string
  | RuntimeError string
  | AttributeError string
  | KeyError string

primrec is_ValueError :: "exn \<Rightarrow> bool" where
  "is_ValueError (ValueError m) = True"
| "is_ValueError (TypeError m) = False"
| "is_ValueError (OverflowError m) = False"
| "is_ValueError (RuntimeError m) = False"
| "is_ValueError (AttributeError m) = False"
| "is_ValueError (KeyError m) = False"

primrec is_TypeError :: "exn \<Rightarrow> bool" where
  "is_TypeError (ValueError m) = False"
| "is_TypeError (TypeError m) = True"
| "is_TypeError (OverflowError m) = False"
| "is_TypeError (RuntimeError m) = False"
| "is_TypeError (AttributeError m) = False"
| "is_TypeError (KeyError m) = False"

fun result_bind :: "'e + 'a \<Rightarrow> ('a \<Rightarrow> 'e + 'b) \<Rightarrow> 'e + 'b" where
  "result_bind (Inl e) f = Inl e"
| "result_bind (Inr x) f = f x"

lemma result_bind_Inr_iff:
  "result_bind r f = Inr y \<longleftrightarrow> (\<exists>x. r = Inr x \<and> f x = Inr y)"
  by (cases r) auto

lemma result_bind_Inl_iff:
  "result_bind r f = Inl e \<longleftrightarrow> r = Inl e \<or> (\<exists>x. r = Inr x \<and> f x = Inl e)"
  by (cases r) auto

lemma result_bind_cong [fundef_cong]:
  "r = r' \<Longrightarrow> (\<And>x. r' = Inr x \<Longrightarrow> f x = g x) \<Longrightarrow> result_bind r f = result_bind r' g"
  by (cases r') auto

end
