(* ===== verification/Py_Strings.thy ===== *)
theory Py_Strings
  imports Prelude
begin

text \<open>
  The string methods of Python that the modelled code calls.  A character is the Unicode code
  point of a Latin-1 character (0 to 255): \<open>lower\<close>, \<open>isspace\<close>, \<open>isalnum\<close>, \<open>isdigit\<close> for
  decimal digits and the UTF-8 length are those of CPython 3.11 on that range, which
  \<open>lower\<close> does not leave.  Code points above 255 are outside the model.
\<close>

definition code :: "char \<Rightarrow> nat" where
  "code c = of_char c"

lemma code_less [simp]: "code c < 256"
  by (simp add: code_def)

lemma code_char_of [simp]: "n < 256 \<Longrightarrow> code (char_of n) = n"
  by (simp add: code_def)

lemma char_of_code [simp]: "char_of (code c) = c"
  by (simp add: code_def)

definition lower_char :: "char \<Rightarrow> char" where
  "lower_char c =
     (let n = code c
      in if (65 \<le> n \<and> n \<le> 90) \<or> (192 \<le> n \<and> n \<le> 222 \<and> n \<noteq> 215) then char_of (n + 32) else c)"

definition lower :: "string \<Rightarrow> string" where
  "lower s = map lower_char s"

text \<open>
  \<open>casefold\<close> differs from \<open>lower\<close> on Latin-1 only at the sharp s, which becomes two letters,
  and at the micro sign, whose image lies above 255: it is kept, which merges no two strings
  of the model.
\<close>

definition casefold :: "string \<Rightarrow> string" where
  "casefold s = concat (map (\<lambda>c. if code c = 223 then ''ss'' else [lower_char c]) s)"

definition is_space :: "char \<Rightarrow> bool" where
  "is_space c =
     (let n = code c in (9 \<le> n \<and> n \<le> 13) \<or> (28 \<le> n \<and> n \<le> 32) \<or> n = 133 \<or> n = 160)"

definition is_digit :: "char \<Rightarrow> bool" where
  "is_digit c = (48 \<le> code c \<and> code c \<le> 57)"

definition is_alnum :: "char \<Rightarrow> bool" where
  "is_alnum c =
     (let n = code c
      in (48 \<le> n \<and> n \<le> 57) \<or> (65 \<le> n \<and> n \<le> 90) \<or> (97 \<le> n \<and> n \<le> 122)
         \<or> n \<in> {170, 178, 179, 181, 185, 186, 188, 189, 190}
         \<or> (192 \<le> n \<and> n \<noteq> 215 \<and> n \<noteq> 247))"

definition lstrip :: "string \<Rightarrow> string" where
  "lstrip s = dropWhile is_space s"

definition rstrip :: "string \<Rightarrow> string" where
  "rstrip s = rev (dropWhile is_space (rev s))"

definition strip :: "string \<Rightarrow> string" where
  "strip s = rstrip (lstrip s)"

text \<open>\<open>s.split(sep)\<close> for a one-character separator: never an empty list.\<close>

fun split_char :: "char \<Rightarrow> string \<Rightarrow> string list" where
  "split_char c [] = [[]]"
| "split_char c (x # xs) =
     (if x = c then [] # split_char c xs
      else (case split_char c xs of [] \<Rightarrow> [[x]] | y # ys \<Rightarrow> (x # y) # ys))"

text \<open>\<open>s.split()\<close>: maximal runs of non-space characters.\<close>

fun split_ws_acc :: "string \<Rightarrow> string \<Rightarrow> string list" where
  "split_ws_acc acc [] = (if acc = [] then [] else [rev acc])"
| "split_ws_acc acc (x # xs) =
     (if is_space x then (if acc = [] then split_ws_acc [] xs else rev acc # split_ws_acc [] xs)
      else split_ws_acc (x # acc) xs)"

definition split_ws :: "string \<Rightarrow> string list" where
  "split_ws s = split_ws_acc [] s"

fun join :: "string \<Rightarrow> string list \<Rightarrow> string" where
  "join sep [] = []"
| "join sep [x] = x"
| "join sep (x # y # ys) = x @ sep @ join sep (y # ys)"

text \<open>\<open>s.replace(c, r)\<close> for a one-character \<open>c\<close>; \<open>sub in s\<close>; prefixes and suffixes.\<close>

definition replace_char :: "char \<Rightarrow> string \<Rightarrow> string \<Rightarrow> string" where
  "replace_char c r s = concat (map (\<lambda>x. if x = c then r else [x]) s)"

definition startswith :: "string \<Rightarrow> string \<Rightarrow> bool" where
  "startswith p s = (take (length p) s = p)"

definition endswith :: "string \<Rightarrow> string \<Rightarrow> bool" where
  "endswith p s = (length p \<le> length s \<and> drop (length s - length p) s = p)"

fun contains :: "string \<Rightarrow> string \<Rightarrow> bool" where
  "contains p [] = (p = [])"
| "contains p (x # xs) = (startswith p (x # xs) \<or> contains p xs)"

definition contains_any :: "string list \<Rightarrow> string \<Rightarrow> bool" where
  "contains_any ps s = list_ex (\<lambda>p. contains p s) ps"

text \<open>\<open>len(s.encode("utf-8"))\<close>: two bytes from code point 128 on.\<close>

definition utf8_len :: "string \<Rightarrow> nat" where
  "utf8_len s = sum_list (map (\<lambda>c. if code c < 128 then 1 else 2) s)"

text \<open>\<open>s.encode("utf-8")\<close>, a byte string as the characters of its bytes.\<close>

definition utf8_encode :: "string \<Rightarrow> string" where
  "utf8_encode s =
     concat (map (\<lambda>c. let n = code c
       in if n < 128 then [c] else [char_of (192 + n div 64), char_of (128 + n mod 64)]) s)"

lemma length_utf8_encode [simp]: "length (utf8_encode s) = utf8_len s"
  by (induction s) (simp_all add: utf8_encode_def utf8_len_def Let_def)

subsection \<open>Numbers in decimal\<close>

fun str_nat :: "nat \<Rightarrow> string" where
  "str_nat n = (if n < 10 then [char_of (48 + n)] else str_nat (n div 10) @ [char_of (48 + n mod 10)])"

declare str_nat.simps [simp del]

definition str_int :: "int \<Rightarrow> string" where
  "str_int i = (if i < 0 then CHR ''-'' # str_nat (nat (- i)) else str_nat (nat i))"

definition digit_val :: "char \<Rightarrow> nat" where
  "digit_val c = code c - 48"

definition digits_val :: "string \<Rightarrow> nat" where
  "digits_val s = foldl (\<lambda>a c. 10 * a + digit_val c) 0 s"

definition pad0 :: "nat \<Rightarrow> string \<Rightarrow> string" where
  "pad0 w s = replicate (w - length s) (CHR ''0'') @ s"

text \<open>
  \<open>int(s)\<close> on a string: surrounding white space, a sign, digits with single underscores between
  digits, at most 4300 digits (\<open>sys.int_info.default_max_str_digits\<close>).
\<close>

definition parse_digits :: "string \<Rightarrow> nat option" where
  "parse_digits s =
     (let parts = split_char (CHR ''_'') s; ds = concat parts
      in if list_all (\<lambda>p. p \<noteq> [] \<and> list_all is_digit p) parts \<and> length ds \<le> 4300
         then Some (digits_val ds) else None)"

definition parse_int :: "string \<Rightarrow> int option" where
  "parse_int s =
     (case strip s of
        [] \<Rightarrow> None
      | c # cs \<Rightarrow>
          (if c = CHR ''-'' then map_option (\<lambda>n. - int n) (parse_digits cs)
           else if c = CHR ''+'' then map_option int (parse_digits cs)
           else map_option int (parse_digits (c # cs))))"

subsection \<open>Facts\<close>

lemma lower_char_idem [simp]: "lower_char (lower_char c) = lower_char c"
  by (auto simp: lower_char_def Let_def)

lemma lower_idem [simp]: "lower (lower s) = lower s"
  by (simp add: lower_def)

lemma length_lower [simp]: "length (lower s) = length s"
  by (simp add: lower_def)

lemma lower_append [simp]: "lower (s @ t) = lower s @ lower t"
  by (simp add: lower_def)

lemma lower_Nil [simp]: "lower [] = []" "lower s = [] \<longleftrightarrow> s = []"
  by (simp_all add: lower_def)

lemma is_space_lower_char [simp]: "is_space (lower_char c) = is_space c"
  by (auto simp: is_space_def lower_char_def Let_def)

lemma is_alnum_lower_char [simp]: "is_alnum (lower_char c) = is_alnum c"
  using code_less [of c] by (auto simp: is_alnum_def lower_char_def Let_def)

lemma dropWhile_lower: "dropWhile is_space (lower s) = lower (dropWhile is_space s)"
  by (induction s) (auto simp: lower_def)

lemma rev_lower: "rev (lower s) = lower (rev s)"
  by (simp add: lower_def rev_map)

lemma strip_lower [simp]: "strip (lower s) = lower (strip s)"
  by (simp add: strip_def rstrip_def lstrip_def dropWhile_lower rev_lower)

lemma dropWhile_full: "length s \<le> length (dropWhile P s) \<Longrightarrow> dropWhile P s = s"
  using takeWhile_dropWhile_id [of P s]
  by (metis add_le_same_cancel2 append_Nil le_zero_eq length_0_conv length_append)

lemma dropWhile_idem_iff: "dropWhile P xs = xs \<longleftrightarrow> (xs = [] \<or> \<not> P (hd xs))"
proof (cases xs)
  case (Cons a as)
  have "length (dropWhile P as) \<le> length as" by (rule length_dropWhile_le)
  then have "dropWhile P as \<noteq> a # as" by (metis Suc_n_not_le_n length_Cons)
  with Cons show ?thesis by auto
qed simp

lemma strip_fixed_iff:
  "strip s = s \<longleftrightarrow> (s = [] \<or> (\<not> is_space (hd s) \<and> \<not> is_space (last s)))"
proof
  assume h: "strip s = s"
  have "length s \<le> length (dropWhile is_space s)"
    using h length_dropWhile_le [of is_space "rev (dropWhile is_space s)"]
    by (simp add: strip_def rstrip_def lstrip_def) (metis length_rev)
  then have d: "dropWhile is_space s = s" by (rule dropWhile_full)
  then have r: "dropWhile is_space (rev s) = rev s"
    using h by (metis strip_def rstrip_def lstrip_def rev_rev_ident)
  show "s = [] \<or> (\<not> is_space (hd s) \<and> \<not> is_space (last s))"
    using d r by (auto simp: dropWhile_idem_iff hd_rev)
next
  assume "s = [] \<or> (\<not> is_space (hd s) \<and> \<not> is_space (last s))"
  then have "dropWhile is_space s = s" "dropWhile is_space (rev s) = rev s"
    by (auto simp: dropWhile_idem_iff hd_rev)
  then show "strip s = s" by (simp add: strip_def rstrip_def lstrip_def)
qed

lemma dropWhile_hd: "dropWhile P xs \<noteq> [] \<Longrightarrow> \<not> P (hd (dropWhile P xs))"
  by (rule hd_dropWhile)

lemma strip_Nil [simp]: "strip [] = []"
  by (simp add: strip_def rstrip_def lstrip_def)

lemma strip_strip [simp]: "strip (strip s) = strip s"
proof -
  define t where "t = dropWhile is_space s"
  define u where "u = dropWhile is_space (rev t)"
  have s: "strip s = rev u" by (simp add: strip_def rstrip_def lstrip_def t_def u_def)
  show ?thesis
  proof (cases "u = []")
    case False
    have "\<not> is_space (hd u)" using False u_def dropWhile_hd by metis
    moreover have "\<not> is_space (last u)"
    proof -
      have "last u = last (rev t)" using False u_def by (metis last_append takeWhile_dropWhile_id)
      moreover have "t \<noteq> []" using False u_def by auto
      ultimately show ?thesis using t_def dropWhile_hd by (metis last_rev)
    qed
    ultimately show ?thesis using s False by (auto simp: strip_fixed_iff hd_rev last_rev)
  qed (simp add: s)
qed

lemma length_strip: "length (strip s) \<le> length s"
  unfolding strip_def rstrip_def lstrip_def
  by (metis length_dropWhile_le length_rev order_trans)

lemma set_strip: "set (strip s) \<subseteq> set s"
  unfolding strip_def rstrip_def lstrip_def
  by (auto dest!: set_dropWhileD)

lemma split_char_not_Nil [simp]: "split_char c s \<noteq> []"
  by (cases s) (auto split: list.splits)

lemma split_char_no_sep: "p \<in> set (split_char c s) \<Longrightarrow> c \<notin> set p"
  by (induction s arbitrary: p) (auto split: list.splits if_splits)

lemma join_split_char: "join [c] (split_char c s) = s"
proof (induction s)
  case (Cons x xs)
  obtain y ys where y: "split_char c xs = y # ys"
    by (metis list.exhaust split_char_not_Nil)
  with Cons show ?case by (cases ys) auto
qed simp

lemma split_char_join:
  assumes "ps \<noteq> []" "\<forall>p \<in> set ps. c \<notin> set p"
  shows "split_char c (join [c] ps) = ps"
proof -
  have single: "c \<notin> set p \<Longrightarrow> split_char c p = [p]" for p
    by (induction p) auto
  have app: "c \<notin> set p \<Longrightarrow> split_char c (p @ c # q) = p # split_char c q" for p q
    by (induction p) auto
  show ?thesis using assms
    by (induction "[c]" ps rule: join.induct) (auto simp: single app)
qed

lemma length_split_char: "length (split_char c s) = Suc (length (filter (\<lambda>x. x = c) s))"
proof (induction s)
  case (Cons x xs)
  obtain y ys where "split_char c xs = y # ys"
    by (metis list.exhaust split_char_not_Nil)
  with Cons show ?case by auto
qed simp

lemma utf8_len_ge: "length s \<le> utf8_len s"
  by (induction s) (auto simp: utf8_len_def)

lemma utf8_len_append [simp]: "utf8_len (s @ t) = utf8_len s + utf8_len t"
  by (simp add: utf8_len_def)

lemma utf8_len_Nil [simp]: "utf8_len [] = 0"
  by (simp add: utf8_len_def)

subsection \<open>Decimal round trips\<close>

lemma digits_val_snoc: "digits_val (s @ [c]) = 10 * digits_val s + digit_val c"
  by (simp add: digits_val_def)

lemma is_digit_char_of [simp]: "n < 10 \<Longrightarrow> is_digit (char_of (48 + n :: nat))"
  by (simp add: is_digit_def)

lemma digit_val_char_of [simp]: "n < 10 \<Longrightarrow> digit_val (char_of (48 + n :: nat)) = n"
  by (simp add: digit_val_def)

lemma str_nat_digits: "list_all is_digit (str_nat n)"
proof (induction n rule: str_nat.induct)
  case (1 n)
  then show ?case by (cases "n < 10") (simp_all add: str_nat.simps [of n])
qed

lemma str_nat_not_Nil [simp]: "str_nat n \<noteq> []"
  by (simp add: str_nat.simps [of n])

lemma digits_val_str_nat [simp]: "digits_val (str_nat n) = n"
proof (induction n rule: str_nat.induct)
  case (1 n)
  show ?case
  proof (cases "n < 10")
    case True
    then show ?thesis by (simp add: str_nat.simps [of n] digits_val_def)
  next
    case False
    with 1 have "digits_val (str_nat (n div 10)) = n div 10" by simp
    with False show ?thesis by (simp add: str_nat.simps [of n] digits_val_snoc)
  qed
qed

lemma digits_val_replicate0: "digits_val (replicate k (CHR ''0'') @ s) = digits_val s"
proof -
  have "foldl (\<lambda>a c. 10 * a + digit_val c) 0 (replicate k (CHR ''0'')) = 0"
    by (induction k) (simp_all add: digit_val_def code_def)
  then show ?thesis by (simp add: digits_val_def)
qed

lemma digits_val_pad0 [simp]: "digits_val (pad0 w (str_nat n)) = n"
  by (simp add: pad0_def digits_val_replicate0)

lemma pad0_digits: "list_all is_digit (pad0 w (str_nat n))"
  using str_nat_digits [of n] by (auto simp: pad0_def list_all_iff is_digit_def code_def)

lemma length_str_nat_less: "n < 10 ^ k \<Longrightarrow> 0 < k \<Longrightarrow> length (str_nat n) \<le> k"
proof (induction n arbitrary: k rule: str_nat.induct)
  case (1 n)
  show ?case
  proof (cases "n < 10")
    case True
    with 1 show ?thesis by (simp add: str_nat.simps [of n])
  next
    case False
    then obtain j where k: "k = Suc j" using 1 by (cases k) auto
    have "n div 10 < 10 ^ j" using 1(2) k by (auto simp: less_mult_imp_div_less mult.commute)
    moreover have "0 < j" using False 1(2) k by (cases j) auto
    ultimately have "length (str_nat (n div 10)) \<le> j" using 1 False by simp
    with False k show ?thesis by (simp add: str_nat.simps [of n])
  qed
qed

lemma length_pad0: "length s \<le> w \<Longrightarrow> length (pad0 w s) = w"
  by (simp add: pad0_def)

lemma str_nat_inject [simp]: "str_nat m = str_nat n \<longleftrightarrow> m = n"
  by (metis digits_val_str_nat)

lemma str_nat_no_minus: "CHR ''-'' \<notin> set (str_nat n)"
  using str_nat_digits [of n] by (auto simp: list_all_iff is_digit_def code_def)

lemma str_int_inject [simp]: "str_int a = str_int b \<longleftrightarrow> a = b"
proof -
  have "str_nat n \<noteq> CHR ''-'' # s" for n s
    using str_nat_no_minus [of n] by auto
  then have n: "\<not> (CHR ''-'' # s = str_nat n)" "\<not> (str_nat n = CHR ''-'' # s)" for n s
    by metis+
  show ?thesis by (auto simp: str_int_def n)
qed

lemma str_int_no_colon: "CHR '':'' \<notin> set (str_int i)"
  using str_nat_digits by (auto simp: str_int_def list_all_iff is_digit_def code_def) force+

end
