(* ===== verification/Py_Values.thy ===== *)
theory Py_Values
  imports Py_Strings
begin

text \<open>
  Dynamically typed values: what \<open>json.loads\<close> and the key-value storage hand to the code.  A
  float carries its value and its \<open>repr\<close> text (the shortest decimal that reads back), so that
  \<open>str(x)\<close> is defined without a floating-point printer; the infinities and NaN are values,
  because \<open>json.loads\<close> accepts them.  \<open>truthy\<close> is \<open>bool(x)\<close>, \<open>py_or\<close> the operator
  \<open>or\<close>, \<open>py_str\<close> is \<open>str(x)\<close>, \<open>py_int\<close> is \<open>int(x)\<close> with its exceptions.
\<close>

datatype pyfloat = Fin rat | PosInf | NegInf | NaN

datatype py =
    PNone
  | PBool bool
  | PInt int
  | PFloat pyfloat string
  | PStr string
  | PList "py list"
  | PDict "(string \<times> py) list"

type_synonym pdict = "(string, py) dict"

fun truthy :: "py \<Rightarrow> bool" where
  "truthy PNone = False"
| "truthy (PBool b) = b"
| "truthy (PInt i) = (i \<noteq> 0)"
| "truthy (PFloat f r) = (f \<noteq> Fin 0)"
| "truthy (PStr s) = (s \<noteq> [])"
| "truthy (PList xs) = (xs \<noteq> [])"
| "truthy (PDict d) = (d \<noteq> [])"

definition py_or :: "py \<Rightarrow> py \<Rightarrow> py" where
  "py_or a b = (if truthy a then a else b)"

definition pget :: "pdict \<Rightarrow> string \<Rightarrow> py" where
  "pget d k = dget_default d k PNone"

definition has_key :: "string \<Rightarrow> pdict \<Rightarrow> bool" where
  "has_key k d = (map_of d k \<noteq> None)"

subsection \<open>Text of a value\<close>

definition hex_digit :: "nat \<Rightarrow> char" where
  "hex_digit n = (if n < 10 then char_of (48 + n) else char_of (87 + n))"

definition escape_char :: "char \<Rightarrow> char \<Rightarrow> string" where
  "escape_char q c =
     (let n = code c
      in if c = q \<or> n = 92 then [CHR 0x5C, c]
         else if n = 9 then [CHR 0x5C, CHR ''t'']
         else if n = 10 then [CHR 0x5C, CHR ''n'']
         else if n = 13 then [CHR 0x5C, CHR ''r'']
         else if n < 32 \<or> (127 \<le> n \<and> n \<le> 160) \<or> n = 173
         then [CHR 0x5C, CHR ''x'', hex_digit (n div 16), hex_digit (n mod 16)]
         else [c])"

definition repr_str :: "string \<Rightarrow> string" where
  "repr_str s =
     (let q = (if CHR 0x27 \<in> set s \<and> CHR 0x22 \<notin> set s then CHR 0x22 else CHR 0x27)
      in [q] @ concat (map (escape_char q) s) @ [q])"

fun py_repr :: "py \<Rightarrow> string" where
  "py_repr PNone = ''None''"
| "py_repr (PBool b) = (if b then ''True'' else ''False'')"
| "py_repr (PInt i) = str_int i"
| "py_repr (PFloat f r) = r"
| "py_repr (PStr s) = repr_str s"
| "py_repr (PList xs) = ''['' @ join '', '' (map py_repr xs) @ '']''"
| "py_repr (PDict d) =
     ''{'' @ join '', '' (map (\<lambda>p. repr_str (fst p) @ '': '' @ py_repr (snd p)) d) @ ''}''"

definition py_str :: "py \<Rightarrow> string" where
  "py_str v = (case v of PStr s \<Rightarrow> s | _ \<Rightarrow> py_repr v)"

text \<open>\<open>str(v or "")\<close> and \<open>str(v or d)\<close>.\<close>

definition text_or_empty :: "py \<Rightarrow> string" where
  "text_or_empty v = (if truthy v then py_str v else [])"

definition text_or :: "py \<Rightarrow> string \<Rightarrow> string" where
  "text_or v d = (if truthy v then py_str v else d)"

subsection \<open>Integers of a value\<close>

definition py_trunc :: "rat \<Rightarrow> int" where
  "py_trunc q = (if 0 \<le> q then \<lfloor>q\<rfloor> else \<lceil>q\<rceil>)"

fun py_int :: "py \<Rightarrow> exn + int" where
  "py_int PNone = Inl (TypeError ''int() argument'')"
| "py_int (PBool b) = Inr (if b then 1 else 0)"
| "py_int (PInt i) = Inr i"
| "py_int (PFloat f r) =
     (case f of
        Fin q \<Rightarrow> Inr (py_trunc q)
      | NaN \<Rightarrow> Inl (ValueError ''cannot convert float NaN to integer'')
      | _ \<Rightarrow> Inl (OverflowError ''cannot convert float infinity to integer''))"
| "py_int (PStr s) =
     (case parse_int s of
        None \<Rightarrow> Inl (ValueError ''invalid literal for int()'')
      | Some i \<Rightarrow> Inr i)"
| "py_int (PList xs) = Inl (TypeError ''int() argument'')"
| "py_int (PDict d) = Inl (TypeError ''int() argument'')"

text \<open>
  \<open>try: int(v) except (TypeError, ValueError): ...\<close> leaves \<open>OverflowError\<close> uncaught:
  \<open>Inr None\<close> is the handler, \<open>Inl e\<close> the exception that goes on.
\<close>

definition try_int :: "py \<Rightarrow> exn + int option" where
  "try_int v =
     (case py_int v of
        Inr i \<Rightarrow> Inr (Some i)
      | Inl (OverflowError m) \<Rightarrow> Inl (OverflowError m)
      | Inl (RuntimeError m) \<Rightarrow> Inl (RuntimeError m)
      | Inl _ \<Rightarrow> Inr None)"

text \<open>Python's \<open>round\<close> to an integer: halves go to the even neighbour.\<close>

definition py_round :: "rat \<Rightarrow> int" where
  "py_round q =
     (let f = \<lfloor>q\<rfloor>; d = q - of_int f
      in if d < 1 / 2 then f else if d > 1 / 2 then f + 1 else if even f then f else f + 1)"

subsection \<open>Facts\<close>

lemma pget_dset [simp, dict_simps]: "pget (dset k v d) k' = (if k' = k then v else pget d k')"
  by (simp add: pget_def)

lemma pget_dpop [simp, dict_simps]: "pget (dpop k d) k' = (if k' = k then PNone else pget d k')"
  by (simp add: pget_def)

lemma pget_Nil [simp]: "pget [] k = PNone"
  by (simp add: pget_def)

lemma pget_Cons [simp, dict_simps]:
  "pget ((k, v) # d) k' = (if k' = k then v else pget d k')"
  by (simp add: pget_def dget_default_def)

lemma has_key_simps [simp, dict_simps]:
  "has_key k [] = False"
  "has_key k ((k', v) # d) = (k = k' \<or> has_key k d)"
  "has_key k (dset k' v d) = (k = k' \<or> has_key k d)"
  "has_key k (dpop k' d) = (k \<noteq> k' \<and> has_key k d)"
  by (auto simp: has_key_def)

lemma py_str_PStr [simp]: "py_str (PStr s) = s"
  by (simp add: py_str_def)

lemma text_or_empty_simps [simp]:
  "text_or_empty PNone = []"
  "text_or_empty (PStr s) = s"
  by (simp_all add: text_or_empty_def)

lemma text_or_simps [simp]:
  "text_or PNone d = d"
  "text_or (PStr s) d = (if s = [] then d else s)"
  by (simp_all add: text_or_def)

lemma try_int_simps [simp]:
  "try_int PNone = Inr None"
  "try_int (PInt i) = Inr (Some i)"
  "try_int (PBool b) = Inr (Some (if b then 1 else 0))"
  "try_int (PStr s) = Inr (parse_int s)"
  "try_int (PList xs) = Inr None"
  "try_int (PDict d) = Inr None"
  by (simp_all add: try_int_def split: option.splits)

lemma try_int_raises:
  "try_int v = Inl e \<longleftrightarrow>
    (\<exists>f r. v = PFloat f r \<and> (f = PosInf \<or> f = NegInf)
       \<and> e = OverflowError ''cannot convert float infinity to integer'')"
  by (cases v) (auto simp: try_int_def split: pyfloat.splits option.splits)

lemma py_round_bounds: "of_int (py_round q) - 1 / 2 \<le> q \<and> q \<le> of_int (py_round q) + 1 / 2"
proof -
  have f: "of_int \<lfloor>q\<rfloor> \<le> q" "q < of_int \<lfloor>q\<rfloor> + 1" by linarith+
  show ?thesis
    using f by (auto simp: py_round_def Let_def) linarith+
qed

end
