(* ===== verification/Py_Time.thy ===== *)
theory Py_Time
  imports Py_Values
begin

text \<open>
  The part of Python's \<open>datetime\<close> the code uses.  An aware instant is an \<open>int\<close>: microseconds of
  UTC since 0001-01-01T00:00:00, the least \<open>datetime\<close>; \<open>max_instant\<close> is the greatest.
  \<open>iso_utc\<close> is \<open>isoformat()\<close> of a UTC instant.  \<open>from_iso\<close> is \<open>datetime.fromisoformat\<close> of
  CPython 3.11 on the ISO 8601 forms it documents: calendar and week dates, extended and
  basic, any one-character separator, fractions after a point or a comma, \<open>Z\<close> or a numeric
  offset.  \<open>parse_utc\<close> reads a text as an instant of UTC, taking a text without offset as UTC;
  conversion to UTC raises \<open>OverflowError\<close> outside the range of \<open>datetime\<close>.
\<close>

subsection \<open>The calendar\<close>

definition is_leap :: "nat \<Rightarrow> bool" where
  "is_leap y \<longleftrightarrow> y mod 4 = 0 \<and> (y mod 100 \<noteq> 0 \<or> y mod 400 = 0)"

definition days_before_year :: "nat \<Rightarrow> nat" where
  "days_before_year y = (let k = y - 1 in k * 365 + k div 4 - k div 100 + k div 400)"

definition days_in_month :: "bool \<Rightarrow> nat \<Rightarrow> nat" where
  "days_in_month leap m =
     (if m = 2 then (if leap then 29 else 28) else if m \<in> {4, 6, 9, 11} then 30 else 31)"

fun days_before_month :: "bool \<Rightarrow> nat \<Rightarrow> nat" where
  "days_before_month leap 0 = 0"
| "days_before_month leap (Suc m) =
     (if m = 0 then 0 else days_before_month leap m + days_in_month leap m)"

definition ymd_to_ord :: "nat \<Rightarrow> nat \<Rightarrow> nat \<Rightarrow> nat" where
  "ymd_to_ord y m d = days_before_year y + days_before_month (is_leap y) m + d"

text \<open>The month of a day number within its year, counted from 0.\<close>

definition month_of :: "bool \<Rightarrow> nat \<Rightarrow> nat" where
  "month_of leap r =
     (let l = (if leap then 1 else 0)
      in if r < 31 then 1 else if r < 59 + l then 2 else if r < 90 + l then 3
         else if r < 120 + l then 4 else if r < 151 + l then 5 else if r < 181 + l then 6
         else if r < 212 + l then 7 else if r < 243 + l then 8 else if r < 273 + l then 9
         else if r < 304 + l then 10 else if r < 334 + l then 11 else 12)"

definition ord_to_ymd :: "nat \<Rightarrow> nat \<times> nat \<times> nat" where
  "ord_to_ymd ord =
     (let n = ord - 1;
          n400 = n div 146097; r400 = n mod 146097;
          n100 = r400 div 36524; r100 = r400 mod 36524;
          n4 = r100 div 1461; r4 = r100 mod 1461;
          n1 = r4 div 365; r1 = r4 mod 365;
          year = n400 * 400 + n100 * 100 + n4 * 4 + n1 + 1
      in if n1 = 4 \<or> n100 = 4 then (year - 1, 12, 31)
         else let leap = (n1 = 3 \<and> (n4 \<noteq> 24 \<or> n100 = 3));
                  m = month_of leap r1
              in (year, m, r1 - days_before_month leap m + 1))"

definition max_instant :: int where
  "max_instant = 3652059 * 86400000000 - 1"

text \<open>\<open>datetime(1970, 1, 1)\<close>, the origin of \<open>timestamp()\<close>.\<close>

definition unix_epoch :: int where
  "unix_epoch = 719162 * 86400000000"

definition instant_of :: "nat \<Rightarrow> nat \<Rightarrow> nat \<Rightarrow> nat \<Rightarrow> nat \<Rightarrow> nat \<Rightarrow> nat \<Rightarrow> int" where
  "instant_of y mo d h mi s us =
     ((((int (ymd_to_ord y mo d) - 1) * 24 + int h) * 60 + int mi) * 60 + int s) * 1000000 + int us"

definition valid_fields :: "nat \<Rightarrow> nat \<Rightarrow> nat \<Rightarrow> nat \<Rightarrow> nat \<Rightarrow> nat \<Rightarrow> nat \<Rightarrow> bool" where
  "valid_fields y mo d h mi s us \<longleftrightarrow>
     1 \<le> y \<and> y \<le> 9999 \<and> 1 \<le> mo \<and> mo \<le> 12 \<and> 1 \<le> d \<and> d \<le> days_in_month (is_leap y) mo
     \<and> h < 24 \<and> mi < 60 \<and> s < 60 \<and> us < 1000000"

subsection \<open>Printing\<close>

definition date_text :: "nat \<times> nat \<times> nat \<Rightarrow> string" where
  "date_text f =
     (case f of (y, m, d) \<Rightarrow>
        pad0 4 (str_nat y) @ ''-'' @ pad0 2 (str_nat m) @ ''-'' @ pad0 2 (str_nat d))"

definition clock_text :: "nat \<Rightarrow> nat \<Rightarrow> nat \<Rightarrow> nat \<Rightarrow> string" where
  "clock_text h mi s us =
     pad0 2 (str_nat h) @ '':'' @ pad0 2 (str_nat mi) @ '':'' @ pad0 2 (str_nat s)
     @ (if us = 0 then [] else ''.'' @ pad0 6 (str_nat us))"

definition iso_utc :: "int \<Rightarrow> string" where
  "iso_utc t =
     (let us = nat (t mod 1000000); sec = t div 1000000;
          s = nat (sec mod 60); mi = nat (sec div 60 mod 60); h = nat (sec div 3600 mod 24);
          ord = nat (sec div 86400) + 1
      in date_text (ord_to_ymd ord) @ ''T'' @ clock_text h mi s us @ ''+00:00'')"

subsection \<open>Parsing\<close>

definition take_digits :: "nat \<Rightarrow> string \<Rightarrow> (nat \<times> string) option" where
  "take_digits n s =
     (if n \<le> length s \<and> list_all is_digit (take n s)
      then Some (digits_val (take n s), drop n s) else None)"

definition micros_of_fraction :: "string \<Rightarrow> nat" where
  "micros_of_fraction ds = digits_val (take 6 (ds @ replicate 6 (CHR ''0'')))"

text \<open>\<open>HH[:MM[:SS[.f]]]\<close>, or the same without colons.\<close>

definition parse_clock :: "string \<Rightarrow> (nat \<times> nat \<times> nat \<times> nat) option" where
  "parse_clock t =
     (case take_digits 2 t of None \<Rightarrow> None | Some (h, r) \<Rightarrow>
      if r = [] then Some (h, 0, 0, 0) else
      let sep = (hd r = CHR '':'') in
      (case take_digits 2 (if sep then tl r else r) of None \<Rightarrow> None | Some (mi, r) \<Rightarrow>
       if r = [] then Some (h, mi, 0, 0)
       else if sep \<noteq> (hd r = CHR '':'') then None else
       (case take_digits 2 (if sep then tl r else r) of None \<Rightarrow> None | Some (s, r) \<Rightarrow>
        if r = [] then Some (h, mi, s, 0)
        else if hd r \<in> {CHR ''.'', CHR '',''} \<and> tl r \<noteq> [] \<and> list_all is_digit (tl r)
        then Some (h, mi, s, micros_of_fraction (tl r)) else None)))"

definition is_offset_start :: "char \<Rightarrow> bool" where
  "is_offset_start c = (c \<in> {CHR ''+'', CHR ''-'', CHR ''Z''})"

text \<open>The offset in microseconds: \<open>Some None\<close> for a naive time, \<open>None\<close> for a malformed one.\<close>

definition parse_offset :: "string \<Rightarrow> int option option" where
  "parse_offset z =
     (case z of
        [] \<Rightarrow> Some None
      | c # r \<Rightarrow>
          (if c = CHR ''Z'' then (if r = [] then Some (Some 0) else None)
           else (case parse_clock r of
                   None \<Rightarrow> None
                 | Some (h, mi, s, us) \<Rightarrow>
                     (let sec = (int h * 60 + int mi) * 60 + int s;
                          off = (if sec = 0 then 0 else sec * 1000000 + int us)
                      in if off < 86400000000
                         then Some (Some (if c = CHR ''-'' then - off else off)) else None))))"

definition week_one_monday :: "nat \<Rightarrow> nat" where
  "week_one_monday y =
     (let first = ymd_to_ord y 1 1; wd = (first + 6) mod 7; monday = int first - int wd
      in nat (if wd > 3 then monday + 7 else monday))"

definition week_to_ymd :: "nat \<Rightarrow> nat \<Rightarrow> nat \<Rightarrow> (nat \<times> nat \<times> nat) option" where
  "week_to_ymd y w d =
     (let fw = ymd_to_ord y 1 1 mod 7;
          ok = (0 < w \<and> w < 53) \<or> (w = 53 \<and> (fw = 4 \<or> (fw = 3 \<and> is_leap y)))
      in if 1 \<le> y \<and> ok \<and> 0 < d \<and> d < 8
         then Some (ord_to_ymd (week_one_monday y + (w - 1) * 7 + (d - 1))) else None)"

definition parse_date :: "string \<Rightarrow> (nat \<times> nat \<times> nat) option" where
  "parse_date s =
     (case take_digits 4 s of None \<Rightarrow> None | Some (y, r) \<Rightarrow>
      let sep = (take 1 r = ''-''); r = (if sep then tl r else r) in
      if take 1 r = ''W'' then
        (case take_digits 2 (tl r) of None \<Rightarrow> None | Some (w, r) \<Rightarrow>
         if r = [] then week_to_ymd y w 1
         else if sep \<noteq> (hd r = CHR ''-'') then None
         else (case take_digits 1 (if sep then tl r else r) of
                 Some (d, []) \<Rightarrow> week_to_ymd y w d
               | _ \<Rightarrow> None))
      else
        (case take_digits 2 r of None \<Rightarrow> None | Some (m, r) \<Rightarrow>
         if sep \<noteq> (take 1 r = ''-'') then None
         else (case take_digits 2 (if sep then tl r else r) of
                 Some (d, []) \<Rightarrow> Some (y, m, d)
               | _ \<Rightarrow> None)))"

text \<open>Where the date ends, for a text of at least seven characters.\<close>

definition date_length :: "string \<Rightarrow> nat option" where
  "date_length s =
     (let n = length s in
      if n < 7 then None
      else if n = 7 then Some 7
      else if s ! 4 = CHR ''-'' then
        (if s ! 5 = CHR ''W'' then
           (if n > 8 \<and> s ! 8 = CHR ''-'' then
              (if n = 9 then None
               else if n > 10 \<and> is_digit (s ! 10) then Some 8 else Some 10)
            else Some 8)
         else Some 10)
      else if s ! 4 = CHR ''W'' then
        (let idx = 7 + length (takeWhile is_digit (drop 7 s))
         in if idx < 9 then Some idx else if even idx then Some 7 else Some 8)
      else Some 8)"

definition from_iso :: "string \<Rightarrow> (int \<times> int option) option" where
  "from_iso s =
     (case date_length s of None \<Rightarrow> None | Some k \<Rightarrow>
      (case parse_date (take k s) of None \<Rightarrow> None | Some (y, mo, d) \<Rightarrow>
       let build = (\<lambda>(h, mi, sec, us) off.
             if valid_fields y mo d h mi sec us
             then Some (instant_of y mo d h mi sec us, off) else None) in
       if length s \<le> k then build (0, 0, 0, 0) None
       else
         let t = drop (k + 1) s in
         (case parse_clock (takeWhile (\<lambda>c. \<not> is_offset_start c) t) of None \<Rightarrow> None | Some c \<Rightarrow>
          (case parse_offset (dropWhile (\<lambda>c. \<not> is_offset_start c) t) of None \<Rightarrow> None
           | Some off \<Rightarrow> build c off))))"

definition to_utc :: "int \<times> int option \<Rightarrow> exn + int" where
  "to_utc p =
     (case p of (local, off) \<Rightarrow>
        (let t = local - (case off of None \<Rightarrow> 0 | Some z \<Rightarrow> z)
         in if 0 \<le> t \<and> t \<le> max_instant then Inr t
            else Inl (OverflowError ''date value out of range'')))"

definition parse_utc :: "string \<Rightarrow> exn + int option" where
  "parse_utc s =
     (case from_iso s of
        None \<Rightarrow> Inr None
      | Some p \<Rightarrow> result_bind (to_utc p) (\<lambda>t. Inr (Some t)))"

subsection \<open>The calendar is a bijection\<close>

lemma days_before_month_table:
  "days_before_month leap 1 = 0" "days_before_month leap 2 = 31"
  "days_before_month leap 3 = (if leap then 60 else 59)"
  "days_before_month leap 4 = (if leap then 91 else 90)"
  "days_before_month leap 5 = (if leap then 121 else 120)"
  "days_before_month leap 6 = (if leap then 152 else 151)"
  "days_before_month leap 7 = (if leap then 182 else 181)"
  "days_before_month leap 8 = (if leap then 213 else 212)"
  "days_before_month leap 9 = (if leap then 244 else 243)"
  "days_before_month leap 10 = (if leap then 274 else 273)"
  "days_before_month leap 11 = (if leap then 305 else 304)"
  "days_before_month leap 12 = (if leap then 335 else 334)"
  by (simp_all add: eval_nat_numeral days_in_month_def)

lemma month_of_correct:
  assumes "r < (if leap then 366 else 365)"
  defines "m \<equiv> month_of leap r"
  shows "1 \<le> m \<and> m \<le> 12 \<and> days_before_month leap m \<le> r
    \<and> r - days_before_month leap m + 1 \<le> days_in_month leap m"
  using assms(1) unfolding m_def month_of_def Let_def
  by (cases leap) (auto simp: days_before_month_table days_in_month_def)

lemma days_before_year_cycles:
  assumes "b \<le> 3" "c \<le> 24" "d \<le> 3"
  shows "days_before_year (400 * a + 100 * b + 4 * c + d + 1) =
    146097 * a + 36524 * b + 1461 * c + 365 * d"
proof -
  let ?k = "400 * a + 100 * b + 4 * c + d"
  have "?k = 4 * (100 * a + 25 * b + c) + d" "?k = 100 * (4 * a + b) + (4 * c + d)"
    "?k = 400 * a + (100 * b + 4 * c + d)"
    by simp_all
  moreover have "d < 4" "4 * c + d < 100" "100 * b + 4 * c + d < 400"
    using assms by linarith+
  ultimately have "?k div 4 = 100 * a + 25 * b + c" "?k div 100 = 4 * a + b" "?k div 400 = a"
    by (metis add.right_neutral div_less div_mult_self4 zero_neq_numeral)+
  then show ?thesis by (simp add: days_before_year_def Let_def)
qed

lemma is_leap_cycles:
  assumes "b \<le> 3" "c \<le> 24" "d \<le> 3"
  shows "is_leap (400 * a + 100 * b + 4 * c + d + 1) \<longleftrightarrow> d = 3 \<and> (c \<noteq> 24 \<or> b = 3)"
proof -
  let ?y = "400 * a + 100 * b + 4 * c + d + 1"
  have "?y = 4 * (100 * a + 25 * b + c) + (d + 1)" "?y = 100 * (4 * a + b) + (4 * c + d + 1)"
    "?y = 400 * a + (100 * b + 4 * c + d + 1)"
    by simp_all
  then have "?y mod 4 = (d + 1) mod 4" "?y mod 100 = (4 * c + d + 1) mod 100"
    "?y mod 400 = (100 * b + 4 * c + d + 1) mod 400"
    by (metis mod_mult_self4)+
  moreover have "(d + 1) mod 4 = 0 \<longleftrightarrow> d = 3"
    using assms(3) by (cases "d = 3") auto
  moreover have "(4 * c + 3 + 1) mod 100 = 0 \<longleftrightarrow> c = 24"
    using assms(2) by (cases "c = 24") auto
  moreover have "(100 * b + 4 * 24 + 3 + 1) mod 400 = 0 \<longleftrightarrow> b = 3"
    using assms(1) by (cases "b = 3") auto
  ultimately show ?thesis unfolding is_leap_def by auto
qed

lemma ord_to_ymd_correct:
  assumes "1 \<le> ord" "ord \<le> 3652059"
  obtains y m d where "ord_to_ymd ord = (y, m, d)" "ymd_to_ord y m d = ord"
    "1 \<le> y" "y \<le> 9999" "1 \<le> m" "m \<le> 12" "1 \<le> d" "d \<le> days_in_month (is_leap y) m"
proof -
  define n where "n = ord - 1"
  define a where "a = n div 146097"
  define r400 where "r400 = n mod 146097"
  define b where "b = r400 div 36524"
  define r100 where "r100 = r400 mod 36524"
  define c where "c = r100 div 1461"
  define r4 where "r4 = r100 mod 1461"
  define d where "d = r4 div 365"
  define r where "r = r4 mod 365"
  have n: "n = 146097 * a + r400" "r400 < 146097" "n < 3652059" "ord = n + 1"
    using assms by (simp_all add: a_def r400_def n_def)
  have r400: "r400 = 36524 * b + r100" "r100 < 36524"
    by (simp_all add: b_def r100_def)
  have r100: "r100 = 1461 * c + r4" "r4 < 1461"
    by (simp_all add: c_def r4_def)
  have r4: "r4 = 365 * d + r" "r < 365"
    by (simp_all add: d_def r_def)
  have a: "a \<le> 24" using n by linarith
  have c: "c \<le> 24" using r400 r100 by linarith
  have b: "b \<le> 4" and d: "d \<le> 4" using n r400 r100 r4 by linarith+
  have expand: "ord_to_ymd ord =
     (if d = 4 \<or> b = 4 then (400 * a + 100 * b + 4 * c + d, 12, 31)
      else let leap = (d = 3 \<and> (c \<noteq> 24 \<or> b = 3)); m = month_of leap r
           in (400 * a + 100 * b + 4 * c + d + 1, m, r - days_before_month leap m + 1))"
    unfolding ord_to_ymd_def Let_def n_def [symmetric] a_def [symmetric] r400_def [symmetric]
      b_def [symmetric] r100_def [symmetric] c_def [symmetric] r4_def [symmetric]
      d_def [symmetric] r_def [symmetric]
    by (simp add: mult.commute)
  consider (century) "b = 4" | (leap_day) "b \<noteq> 4" "d = 4" | (plain) "b \<le> 3" "d \<le> 3"
    using b d by linarith
  then show thesis
  proof cases
    case century
    then have z: "c = 0" "d = 0" "r = 0" using n r400 r100 r4 by auto
    let ?y = "400 * a + 100 * 3 + 4 * 24 + 3 + 1 :: nat"
    have y: "400 * a + 100 * b + 4 * c + d = ?y" using century z by simp
    have "is_leap ?y" by (subst is_leap_cycles) auto
    moreover have "days_before_year ?y = 146097 * a + 36524 * 3 + 1461 * 24 + 365 * 3"
      by (rule days_before_year_cycles) auto
    moreover have "?y \<le> 9999" using n a century r400 by linarith
    ultimately show thesis
      using expand century n r400 r100 r4 z y
      by (intro that [of ?y 12 31]) (auto simp: ymd_to_ord_def days_before_month_table days_in_month_def)
  next
    case leap_day
    then have z: "c \<le> 23" "r = 0" "b \<le> 3" using n r400 r100 r4 b by auto
    let ?y = "400 * a + 100 * b + 4 * c + 3 + 1 :: nat"
    have "is_leap ?y" using z by (subst is_leap_cycles) auto
    moreover have "days_before_year ?y = 146097 * a + 36524 * b + 1461 * c + 365 * 3"
      using z by (intro days_before_year_cycles) auto
    moreover have "?y \<le> 9999" using a z by linarith
    ultimately show thesis
      using expand leap_day n r400 r100 r4 z
      by (intro that [of ?y 12 31]) (auto simp: ymd_to_ord_def days_before_month_table days_in_month_def)
  next
    case plain
    let ?y = "400 * a + 100 * b + 4 * c + d + 1"
    define leap where "leap = is_leap ?y"
    have leap: "leap \<longleftrightarrow> d = 3 \<and> (c \<noteq> 24 \<or> b = 3)"
      unfolding leap_def using plain c by (intro is_leap_cycles) auto
    have dby: "days_before_year ?y = 146097 * a + 36524 * b + 1461 * c + 365 * d"
      using plain c by (intro days_before_year_cycles) auto
    define m where "m = month_of leap r"
    have m: "1 \<le> m \<and> m \<le> 12 \<and> days_before_month leap m \<le> r
        \<and> r - days_before_month leap m + 1 \<le> days_in_month leap m"
      unfolding m_def using r4 by (intro month_of_correct) auto
    have y: "?y \<le> 9999" using a plain c n r400 r100 r4 by linarith
    have e: "ord_to_ymd ord = (?y, m, r - days_before_month leap m + 1)"
      using expand plain leap by (simp add: m_def Let_def)
    have o: "ymd_to_ord ?y m (r - days_before_month leap m + 1) = ord"
      using dby m n r400 r100 r4 unfolding ymd_to_ord_def leap_def [symmetric] by linarith
    have dim: "r - days_before_month leap m + 1 \<le> days_in_month (is_leap ?y) m"
      using m unfolding leap_def by blast
    show thesis
      by (rule that [OF e o _ y _ _ _ dim]) (use m in simp_all)
  qed
qed

subsection \<open>Printing then parsing\<close>

lemma take_digits_append:
  assumes "list_all is_digit ds" "length ds = n"
  shows "take_digits n (ds @ r) = Some (digits_val ds, r)"
  using assms by (simp add: take_digits_def)

lemma take_digits_pad0:
  assumes "n < 10 ^ w" "0 < w"
  shows "take_digits w (pad0 w (str_nat n) @ r) = Some (n, r)"
proof -
  have "length (pad0 w (str_nat n)) = w"
    using assms by (intro length_pad0 length_str_nat_less)
  then show ?thesis using pad0_digits by (simp add: take_digits_append)
qed

lemma take_digits_2: "n < 100 \<Longrightarrow> take_digits 2 (pad0 2 (str_nat n) @ r) = Some (n, r)"
  by (rule take_digits_pad0) simp_all

lemma take_digits_2_Nil: "n < 100 \<Longrightarrow> take_digits 2 (pad0 2 (str_nat n)) = Some (n, [])"
  using take_digits_2 [of n "[]"] by simp

lemma take_digits_4: "n < 10000 \<Longrightarrow> take_digits 4 (pad0 4 (str_nat n) @ r) = Some (n, r)"
  by (rule take_digits_pad0) simp_all

lemma length_pad0_str_nat: "n < 10 ^ w \<Longrightarrow> 0 < w \<Longrightarrow> length (pad0 w (str_nat n)) = w"
  by (intro length_pad0 length_str_nat_less)

lemma length_pad0_2: "n < 100 \<Longrightarrow> length (pad0 2 (str_nat n)) = 2"
  by (rule length_pad0_str_nat) simp_all

lemma length_pad0_4: "n < 10000 \<Longrightarrow> length (pad0 4 (str_nat n)) = 4"
  by (rule length_pad0_str_nat) simp_all

lemma length_pad0_6: "n < 1000000 \<Longrightarrow> length (pad0 6 (str_nat n)) = 6"
  by (rule length_pad0_str_nat) simp_all

lemma parse_clock_text:
  assumes "h < 24" "mi < 60" "s < 60" "us < 1000000"
  shows "parse_clock (clock_text h mi s us) = Some (h, mi, s, us)"
proof -
  have f: "list_all is_digit (pad0 6 (str_nat us))" by (rule pad0_digits)
  have l: "length (pad0 6 (str_nat us)) = 6" using assms(4) by (rule length_pad0_6)
  have ne: "pad0 6 (str_nat us) \<noteq> []" using l by auto
  have m: "micros_of_fraction (pad0 6 (str_nat us)) = us"
    using l by (simp add: micros_of_fraction_def)
  show ?thesis
    using assms f ne m
    by (simp add: parse_clock_def clock_text_def take_digits_2 take_digits_2_Nil Let_def)
qed

lemma digit_not_offset: "is_digit c \<Longrightarrow> \<not> is_offset_start c"
  by (auto simp: is_digit_def is_offset_start_def code_def)

lemma clock_text_no_offset: "c \<in> set (clock_text h mi s us) \<Longrightarrow> \<not> is_offset_start c"
proof -
  assume c: "c \<in> set (clock_text h mi s us)"
  have "is_digit c" if "c \<in> set (pad0 w (str_nat n))" for w n
    using that pad0_digits [of w n] by (simp add: list_all_iff)
  moreover have "\<not> is_offset_start (CHR '':'')" "\<not> is_offset_start (CHR ''.'')"
    by (simp_all add: is_offset_start_def)
  ultimately show ?thesis using c digit_not_offset by (auto simp: clock_text_def split: if_splits)
qed

lemma offset_split:
  "takeWhile (\<lambda>c. \<not> is_offset_start c) (clock_text h mi s us @ ''+00:00'') = clock_text h mi s us"
  "dropWhile (\<lambda>c. \<not> is_offset_start c) (clock_text h mi s us @ ''+00:00'') = ''+00:00''"
proof -
  have "\<forall>c \<in> set (clock_text h mi s us). \<not> is_offset_start c"
    using clock_text_no_offset by blast
  then show
    "takeWhile (\<lambda>c. \<not> is_offset_start c) (clock_text h mi s us @ ''+00:00'') = clock_text h mi s us"
    "dropWhile (\<lambda>c. \<not> is_offset_start c) (clock_text h mi s us @ ''+00:00'') = ''+00:00''"
    by (simp_all add: takeWhile_append2 dropWhile_append2 is_offset_start_def)
qed

lemma parse_offset_utc: "parse_offset ''+00:00'' = Some (Some 0)"
  by (simp add: parse_offset_def parse_clock_def take_digits_def is_digit_def code_def
      digits_val_def digit_val_def Let_def)

lemma length_date_text:
  "y < 10000 \<Longrightarrow> m < 100 \<Longrightarrow> d < 100 \<Longrightarrow> length (date_text (y, m, d)) = 10"
  by (simp add: date_text_def length_pad0_2 length_pad0_4)

lemma parse_date_text:
  assumes "y < 10000" "m < 100" "d < 100"
  shows "parse_date (date_text (y, m, d)) = Some (y, m, d)"
proof -
  have "take 1 (pad0 2 (str_nat m) @ r) \<noteq> ''W''" for r
  proof -
    have l: "length (pad0 2 (str_nat m)) = 2" using assms(2) by (rule length_pad0_2)
    then obtain c cs where c: "pad0 2 (str_nat m) = c # cs" by (cases "pad0 2 (str_nat m)") auto
    have "is_digit c" using pad0_digits [of 2 m] c by simp
    then have "c \<noteq> CHR ''W''" by (auto simp: is_digit_def code_def)
    then show ?thesis using c by simp
  qed
  then show ?thesis
    using assms
    by (simp add: parse_date_def date_text_def take_digits_2 take_digits_2_Nil take_digits_4 Let_def)
qed

lemma date_length_text:
  assumes "y < 10000" "m < 100" "d < 100" "length r > 0"
  shows "date_length (date_text (y, m, d) @ r) = Some 10"
proof -
  have l4: "length (pad0 4 (str_nat y)) = 4" using assms(1) by (rule length_pad0_4)
  have l2: "length (pad0 2 (str_nat m)) = 2" using assms(2) by (rule length_pad0_2)
  then obtain c cs where c: "pad0 2 (str_nat m) = c # cs" by (cases "pad0 2 (str_nat m)") auto
  have "is_digit c" using pad0_digits [of 2 m] c by simp
  then have "c \<noteq> CHR ''W''" by (auto simp: is_digit_def code_def)
  then show ?thesis
    using l4 l2 c assms length_date_text [OF assms(1-3)]
    by (auto simp: date_length_def date_text_def nth_append Let_def)
qed

lemma parse_iso_utc:
  assumes "0 \<le> t" "t \<le> max_instant"
  shows "parse_utc (iso_utc t) = Inr (Some t)"
proof -
  define us where "us = nat (t mod 1000000)"
  define sec where "sec = t div 1000000"
  define s where "s = nat (sec mod 60)"
  define mi where "mi = nat (sec div 60 mod 60)"
  define h where "h = nat (sec div 3600 mod 24)"
  define ord where "ord = nat (sec div 86400) + 1"
  have b: "us < 1000000" "s < 60" "mi < 60" "h < 24"
    by (simp_all add: us_def s_def mi_def h_def nat_less_iff)
  have sec: "0 \<le> sec" "sec < 3652059 * 86400"
    using assms by (simp_all add: sec_def max_instant_def)
  then have "sec div 86400 < 3652059" "0 \<le> sec div 86400" by (simp_all add: pos_imp_zdiv_nonneg_iff)
  then have "1 \<le> ord" "ord \<le> 3652059" by (simp_all add: ord_def)
  then obtain y m d where f: "ord_to_ymd ord = (y, m, d)" "ymd_to_ord y m d = ord"
    "1 \<le> y" "y \<le> 9999" "1 \<le> m" "m \<le> 12" "1 \<le> d" "d \<le> days_in_month (is_leap y) m"
    by (rule ord_to_ymd_correct)
  have d: "d < 100" using f(8) by (auto simp: days_in_month_def split: if_splits)
  have v: "valid_fields y m d h mi s us" using f b by (simp add: valid_fields_def)
  have "sec = ((sec div 86400 * 24 + sec div 3600 mod 24) * 60 + sec div 60 mod 60) * 60 + sec mod 60"
  proof -
    have e: "sec div 3600 = sec div 60 div 60" "sec div 86400 = sec div 60 div 60 div 24"
      by (simp_all add: zdiv_zmult2_eq [symmetric])
    have g: "x = 60 * a + ma \<Longrightarrow> a = 60 * b + mb \<Longrightarrow> b = 24 * c + mc \<Longrightarrow>
        x = ((c * 24 + mc) * 60 + mb) * 60 + ma" for x a ma b mb c mc :: int
      by simp
    show ?thesis
      unfolding e
      by (rule g [OF mult_div_mod_eq [symmetric] mult_div_mod_eq [symmetric]
            mult_div_mod_eq [symmetric]])
  qed
  moreover have "int ord - 1 = sec div 86400" "int h = sec div 3600 mod 24"
    "int mi = sec div 60 mod 60" "int s = sec mod 60"
    using sec(1) by (simp_all add: ord_def h_def mi_def s_def pos_imp_zdiv_nonneg_iff)
  ultimately have sec_eq: "sec = (((int ord - 1) * 24 + int h) * 60 + int mi) * 60 + int s"
    by metis
  have "t = sec * 1000000 + int us" by (simp add: sec_def us_def)
  then have t: "instant_of y m d h mi s us = t" using f(2) sec_eq by (simp add: instant_of_def)
  have iso: "iso_utc t = date_text (y, m, d) @ ''T'' @ clock_text h mi s us @ ''+00:00''"
    unfolding iso_utc_def Let_def us_def [symmetric] sec_def [symmetric]
      s_def [symmetric] mi_def [symmetric] h_def [symmetric] ord_def [symmetric] f(1) by simp
  have len: "length (date_text (y, m, d)) = 10" using f d by (intro length_date_text) auto
  have "from_iso (iso_utc t) = Some (t, Some 0)"
    using f d v t len b
    by (simp add: iso from_iso_def date_length_text parse_date_text parse_clock_text
        offset_split parse_offset_utc Let_def)
  then show ?thesis using assms by (simp add: parse_utc_def to_utc_def)
qed

lemma replace_char_absent: "c \<notin> set s \<Longrightarrow> replace_char c r s = s"
  by (induction s) (auto simp: replace_char_def)

lemma no_Z_in_digits: "list_all is_digit ds \<Longrightarrow> CHR ''Z'' \<notin> set ds"
  by (auto simp: list_all_iff is_digit_def code_def)

lemma iso_utc_no_Z: "CHR ''Z'' \<notin> set (iso_utc t)"
  using no_Z_in_digits [OF pad0_digits]
  by (auto simp: iso_utc_def date_text_def clock_text_def Let_def split: prod.splits if_splits)

lemma iso_utc_not_Nil [simp]: "iso_utc t \<noteq> []"
  by (simp add: iso_utc_def Let_def)

lemma no_space_in_digits: "list_all is_digit ds \<Longrightarrow> \<forall>c \<in> set ds. \<not> is_space c"
  by (auto simp: list_all_iff is_digit_def is_space_def Let_def)

lemma iso_utc_no_space: "\<forall>c \<in> set (iso_utc t). \<not> is_space c"
proof -
  have "\<not> is_space (CHR ''-'')" "\<not> is_space (CHR ''T'')" "\<not> is_space (CHR '':'')" "\<not> is_space (CHR ''.'')"
    "\<not> is_space (CHR ''+'')" "\<not> is_space (CHR ''0'')"
    by code_simp+
  then show ?thesis
    using no_space_in_digits [OF pad0_digits]
    by (auto simp: iso_utc_def date_text_def clock_text_def Let_def split: prod.splits if_splits)
qed

lemma strip_iso_utc [simp]: "strip (iso_utc t) = iso_utc t"
  unfolding strip_fixed_iff using iso_utc_no_space [of t] by (auto simp: hd_in_set last_in_set)

end
