(* ===== verification/Key_Value.thy ===== *)
theory Key_Value
  imports Py_Values
begin

text \<open>
  The generic key-value table of \<open>core/storage/storage_collections.py\<close> (table
  \<open>KeyValueEntry\<close>, primary key \<open>key\<close>), a dictionary from keys to JSON values.  Each
  operation of the code runs in one transaction under an advisory lock of its key, so it is one
  step of the model; failures of the database itself (\<open>SQLAlchemyError\<close>, re-raised as
  \<open>StorageError\<close> after a rollback) are not modelled.  The locale \<open>atomic_store\<close> is what its clients
  (\<open>OperationTracker\<close>, \<open>SchedulerOccurrenceCoordinator\<close>) rely on: an updater sees the current
  value, its result replaces exactly that key, and an updater that raises changes nothing.
\<close>

type_synonym kv_store = "(string, py) dict"

text \<open>\<open>require_key_value_key\<close> for a text key; a NUL character is code point 0.\<close>

definition require_key_value_key :: "string \<Rightarrow> exn + string" where
  "require_key_value_key k =
     (if k = [] then Inl (ValueError ''key is required'')
      else if CHR 0x00 \<in> set k then Inl (ValueError ''key contains a NUL character'')
      else if length k > 512 then Inl (ValueError ''key exceeds 512 characters'')
      else Inr k)"

definition get_key_value :: "kv_store \<Rightarrow> string \<Rightarrow> exn + py" where
  "get_key_value s key = result_bind (require_key_value_key key) (\<lambda>k. Inr (dget_default s k PNone))"

definition set_key_value :: "kv_store \<Rightarrow> string \<Rightarrow> py \<Rightarrow> (exn + unit) \<times> kv_store" where
  "set_key_value s key v =
     (case require_key_value_key key of
        Inl e \<Rightarrow> (Inl e, s)
      | Inr k \<Rightarrow> (Inr (), dset k v s))"

text \<open>
  \<open>update_key_value\<close>.  The updater is a closure that also leaves a result for its caller (the
  code appends it to a list): \<open>updater current\<close> is \<open>Inr (stored, result)\<close> or an exception.
\<close>

definition update_key_value ::
    "kv_store \<Rightarrow> string \<Rightarrow> (py \<Rightarrow> exn + py \<times> 'a) \<Rightarrow> (exn + py \<times> 'a) \<times> kv_store" where
  "update_key_value s key updater =
     (case require_key_value_key key of
        Inl e \<Rightarrow> (Inl e, s)
      | Inr k \<Rightarrow>
          (case updater (dget_default s k PNone) of
             Inl e \<Rightarrow> (Inl e, s)
           | Inr (updated, a) \<Rightarrow> (Inr (updated, a), dset k updated s)))"

fun cas_conflict :: "kv_store \<Rightarrow> (string \<times> string option \<times> py) list \<Rightarrow> bool" where
  "cas_conflict s [] = False"
| "cas_conflict s ((k, expected, v) # us) =
     ((case map_of s k of Some (PDict d) \<Rightarrow> pget d ''hash'' | _ \<Rightarrow> PNone)
        \<noteq> (case expected of None \<Rightarrow> PNone | Some h \<Rightarrow> PStr h)
      \<or> cas_conflict s us)"

fun cas_write :: "kv_store \<Rightarrow> (string \<times> string option \<times> py) list \<Rightarrow> kv_store" where
  "cas_write s [] = s"
| "cas_write s ((k, _, v) # us) = cas_write (dset k v s) us"

text \<open>The first invalid key raises before anything is read or written.\<close>

fun check_keys :: "string list \<Rightarrow> exn option" where
  "check_keys [] = None"
| "check_keys (k # ks) =
     (case require_key_value_key k of Inl e \<Rightarrow> Some e | Inr _ \<Rightarrow> check_keys ks)"

definition compare_and_set_key_values ::
    "kv_store \<Rightarrow> (string \<times> string option \<times> py) list \<Rightarrow> (exn + bool) \<times> kv_store" where
  "compare_and_set_key_values s updates =
     (if updates = [] then (Inr True, s)
      else case check_keys (map fst updates) of
        Some e \<Rightarrow> (Inl e, s)
      | None \<Rightarrow> if cas_conflict s updates then (Inr False, s)
             else (Inr True, cas_write s updates))"

definition delete_key :: "kv_store \<Rightarrow> string \<Rightarrow> (exn + unit) \<times> kv_store" where
  "delete_key s key =
     (case require_key_value_key key of
        Inl e \<Rightarrow> (Inl e, s)
      | Inr k \<Rightarrow> (Inr (), dpop k s))"

definition valid_key :: "string \<Rightarrow> bool" where
  "valid_key k \<longleftrightarrow> k \<noteq> [] \<and> CHR 0x00 \<notin> set k \<and> length k \<le> 512"

definition kv_read :: "kv_store \<Rightarrow> string \<Rightarrow> py" where
  "kv_read s k = dget_default s k PNone"

lemma require_key_value_key_valid [simp]: "valid_key k \<Longrightarrow> require_key_value_key k = Inr k"
  by (simp add: valid_key_def require_key_value_key_def)

lemma require_key_value_key_Inr: "require_key_value_key k = Inr k' \<longleftrightarrow> valid_key k \<and> k' = k"
  by (auto simp: valid_key_def require_key_value_key_def split: if_splits)

subsection \<open>The interface the clients use\<close>

locale atomic_store =
  fixes read :: "'s \<Rightarrow> string \<Rightarrow> py"
    and update :: "'s \<Rightarrow> string \<Rightarrow> (py \<Rightarrow> exn + py \<times> 'a) \<Rightarrow> (exn + py \<times> 'a) \<times> 's"
  assumes update_raises: "valid_key k \<Longrightarrow> f (read s k) = Inl e \<Longrightarrow> update s k f = (Inl e, s)"
    and update_result: "valid_key k \<Longrightarrow> f (read s k) = Inr (v, a) \<Longrightarrow>
          fst (update s k f) = Inr (v, a)"
    and update_reads: "valid_key k \<Longrightarrow> f (read s k) = Inr (v, a) \<Longrightarrow>
          read (snd (update s k f)) k' = (if k' = k then v else read s k')"
begin

lemma update_preserves:
  assumes "valid_key k" and "P (read s k)"
    and "\<And>v a. f (read s k) = Inr (v, a) \<Longrightarrow> P v"
  shows "P (read (snd (update s k f)) k)"
proof (cases "f (read s k)")
  case (Inl e)
  then show ?thesis using assms(1,2) by (simp add: update_raises)
next
  case (Inr p)
  then obtain v a where "f (read s k) = Inr (v, a)" by (cases p) auto
  then show ?thesis using assms(1,3) by (simp add: update_reads)
qed

lemma update_frame:
  assumes "valid_key k" "k' \<noteq> k"
  shows "read (snd (update s k f)) k' = read s k'"
proof (cases "f (read s k)")
  case (Inr p)
  then obtain v a where "f (read s k) = Inr (v, a)" by (cases p) auto
  then show ?thesis using assms by (simp add: update_reads)
qed (simp add: update_raises assms(1))

text \<open>
  Serialised updates of one key compute the fold of their updaters over its value: whatever
  other keys hold, the final value depends on the initial one only.
\<close>

fun value_after :: "py \<Rightarrow> (py \<Rightarrow> exn + py \<times> 'a) list \<Rightarrow> py" where
  "value_after v [] = v"
| "value_after v (f # fs) = value_after (case f v of Inl e \<Rightarrow> v | Inr (w, a) \<Rightarrow> w) fs"

fun store_after :: "'s \<Rightarrow> string \<Rightarrow> (py \<Rightarrow> exn + py \<times> 'a) list \<Rightarrow> 's" where
  "store_after s k [] = s"
| "store_after s k (f # fs) = store_after (snd (update s k f)) k fs"

lemma update_value:
  assumes "valid_key k"
  shows "read (snd (update s k f)) k = (case f (read s k) of Inl e \<Rightarrow> read s k | Inr (w, a) \<Rightarrow> w)"
  using assms by (auto simp: update_raises update_reads split: sum.splits)

lemma read_store_after:
  "valid_key k \<Longrightarrow> read (store_after s k fs) k = value_after (read s k) fs"
  by (induction fs arbitrary: s) (simp_all add: update_value)

end

interpretation kv: atomic_store kv_read update_key_value
proof
  fix k s e and f :: "py \<Rightarrow> exn + py \<times> 'a"
  assume "valid_key k" "f (kv_read s k) = Inl e"
  then show "update_key_value s k f = (Inl e, s)"
    by (simp add: update_key_value_def kv_read_def)
next
  fix k s v a and f :: "py \<Rightarrow> exn + py \<times> 'a"
  assume "valid_key k" "f (kv_read s k) = Inr (v, a)"
  then show "fst (update_key_value s k f) = Inr (v, a)"
    by (simp add: update_key_value_def kv_read_def)
next
  fix k k' s v a and f :: "py \<Rightarrow> exn + py \<times> 'a"
  assume "valid_key k" "f (kv_read s k) = Inr (v, a)"
  then show "kv_read (snd (update_key_value s k f)) k' = (if k' = k then v else kv_read s k')"
    by (simp add: update_key_value_def kv_read_def)
qed

subsection \<open>Compare and set\<close>

lemma cas_conflict_iff:
  "cas_conflict s us \<longleftrightarrow>
    (\<exists>(k, expected, v) \<in> set us.
       (case map_of s k of Some (PDict d) \<Rightarrow> pget d ''hash'' | _ \<Rightarrow> PNone)
         \<noteq> (case expected of None \<Rightarrow> PNone | Some h \<Rightarrow> PStr h))"
  by (induction us) auto

lemma check_keys_valid: "check_keys ks = None \<longleftrightarrow> list_all valid_key ks"
proof (induction ks)
  case (Cons k ks)
  then show ?case
    by (cases "require_key_value_key k")
      (auto simp: require_key_value_key_def valid_key_def split: if_splits)
qed simp

lemma map_of_cas_write:
  assumes "distinct (map fst us)"
  shows "map_of (cas_write s us) k =
    (case map_of us k of None \<Rightarrow> map_of s k | Some (e, v) \<Rightarrow> Some v)"
  using assms
proof (induction us arbitrary: s)
  case (Cons u us)
  obtain k' e v where u: "u = (k', e, v)" by (cases u)
  have "map_of us k' = None" using Cons.prems u by (simp add: map_of_eq_None_iff)
  then show ?case using Cons u by (auto split: option.splits)
qed simp

end
