(* ===== verification/Occurrences.thy ===== *)
theory Occurrences
  imports Py_Time Key_Value
begin

text \<open>
  \<open>services/scheduler_occurrences.py\<close>: claims of automatic task occurrences.  Several
  processes compete for one occurrence of a schedule; the key-value row of the task kind holds
  the current claim.  \<open>claim_with_status\<close>, \<open>complete\<close>, \<open>renew\<close> and \<open>release\<close> are the four
  transactions of \<open>SchedulerOccurrenceCoordinator\<close>, each a closure (\<open>..._update\<close>) given to
  \<open>update_key_value\<close>; \<open>lease_finish\<close> and \<open>lease_tick\<close> are the heartbeat of
  \<open>SchedulerOccurrenceLease\<close>.  Instants are aware datetimes in UTC; \<open>now\<close> is the value the
  coordinator's clock returned for the call.
\<close>

subsection \<open>The code\<close>

definition claim_ttl_seconds :: int where
  "claim_ttl_seconds = 120"

definition key_prefix :: string where
  "key_prefix = ''auto_scheduler_occurrence:v1''"

text \<open>
  \<open>_parse_timestamp\<close>: \<open>None\<close> for what \<open>fromisoformat\<close> rejects; \<open>astimezone\<close> runs outside the
  handler, so its \<open>OverflowError\<close> escapes.
\<close>

definition parse_timestamp :: "py \<Rightarrow> exn + int option" where
  "parse_timestamp v = parse_utc (replace_char (CHR ''Z'') ''+00:00'' (text_or_empty v))"

record occurrence_claim =
  claim_kind :: string
  claim_token :: string
  claim_owner :: string
  claim_scheduled_for :: string

definition occurrence_key :: "string \<Rightarrow> string" where
  "occurrence_key kind = key_prefix @ '':'' @ kind"

definition owns :: "pdict \<Rightarrow> occurrence_claim \<Rightarrow> bool" where
  "owns state c \<longleftrightarrow>
     pget state ''token'' = PStr (claim_token c)
     \<and> pget state ''owner_id'' = PStr (claim_owner c)
     \<and> pget state ''status'' = PStr ''claimed''"

definition as_dict :: "py \<Rightarrow> pdict" where
  "as_dict v = (case v of PDict d \<Rightarrow> d | _ \<Rightarrow> [])"

text \<open>\<open>int(scheduled_for.timestamp())\<close>: whole seconds since 1970, towards zero.\<close>

definition unix_seconds :: "int \<Rightarrow> int" where
  "unix_seconds t = py_trunc (rat_of_int (t - unix_epoch) / 1000000)"

definition occurrence_token :: "pdict \<Rightarrow> int \<Rightarrow> exn + string" where
  "occurrence_token settings scheduled =
     (let mode = text_or (pget settings ''mode'') ''interval'' in
      if mode = ''fixed''
      then Inr (''fixed:'' @ iso_utc (scheduled - scheduled mod 60000000))
      else result_bind (try_int (py_or (pget settings ''interval_minutes'') (PInt 60)))
        (\<lambda>r. let interval_minutes = (case r of None \<Rightarrow> 60 | Some i \<Rightarrow> max 1 i);
                 bucket = unix_seconds scheduled div (interval_minutes * 60)
             in Inr (''interval:'' @ str_int interval_minutes @ '':'' @ str_int bucket)))"

definition claimed_state :: "string \<Rightarrow> string \<Rightarrow> string \<Rightarrow> int \<Rightarrow> int \<Rightarrow> pdict" where
  "claimed_state kind token owner scheduled now =
     [(''version'', PInt 1),
      (''kind'', PStr kind),
      (''token'', PStr token),
      (''owner_id'', PStr owner),
      (''status'', PStr ''claimed''),
      (''scheduled_for'', PStr (iso_utc scheduled)),
      (''claimed_at'', PStr (iso_utc now)),
      (''expires_at'', PStr (iso_utc (now + claim_ttl_seconds * 1000000)))]"

text \<open>The closure of \<open>claim_with_status\<close>: its result is the status text it reports.\<close>

definition claim_update ::
    "string \<Rightarrow> string \<Rightarrow> string \<Rightarrow> int \<Rightarrow> int \<Rightarrow> py \<Rightarrow> exn + py \<times> string" where
  "claim_update kind token owner scheduled now current =
     (let state = as_dict current;
          current_token = text_or_empty (pget state ''token'');
          current_status = text_or_empty (pget state ''status'')
      in result_bind (parse_timestamp (pget state ''expires_at'')) (\<lambda>expires_at.
         result_bind (parse_timestamp (pget state ''scheduled_for'')) (\<lambda>current_scheduled.
         let is_current_or_newer =
               (case current_scheduled of None \<Rightarrow> False | Some c \<Rightarrow> c \<ge> scheduled);
             duplicate = (current_token = token \<or> is_current_or_newer);
             active = (current_status = ''claimed''
               \<and> (case expires_at of None \<Rightarrow> False | Some e \<Rightarrow> e > now))
         in if duplicate \<and> (current_status = ''completed'' \<or> active)
            then Inr (PDict state,
                      if current_status = ''completed'' then ''completed'' else ''active'')
            else Inr (PDict (claimed_state kind token owner scheduled now), ''claimed''))))"

definition claim_with_status ::
    "string \<Rightarrow> int \<Rightarrow> string \<Rightarrow> pdict \<Rightarrow> int \<Rightarrow> kv_store
       \<Rightarrow> (exn + occurrence_claim option \<times> string) \<times> kv_store" where
  "claim_with_status owner now kind settings scheduled s =
     (let normalized_kind = (if kind = [] then ''task'' else kind) in
      case occurrence_token settings scheduled of
        Inl e \<Rightarrow> (Inl e, s)
      | Inr token \<Rightarrow>
         (let c = \<lparr>claim_kind = normalized_kind, claim_token = token, claim_owner = owner,
                   claim_scheduled_for = iso_utc scheduled\<rparr>
          in case update_key_value s (occurrence_key normalized_kind)
                    (claim_update normalized_kind token owner scheduled now) of
               (Inl e, s') \<Rightarrow> (Inl e, s')
             | (Inr (_, status), s') \<Rightarrow>
                 (Inr (if status = ''claimed'' then (Some c, status) else (None, status)), s')))"

definition complete_update :: "occurrence_claim \<Rightarrow> int \<Rightarrow> py \<Rightarrow> exn + py \<times> bool" where
  "complete_update c now current =
     (let state = as_dict current in
      if \<not> owns state c then Inr (PDict state, False)
      else Inr (PDict (dset ''expires_at'' PNone
                  (dset ''completed_at'' (PStr (iso_utc now))
                    (dset ''status'' (PStr ''completed'') state))), True))"

definition renew_update :: "occurrence_claim \<Rightarrow> int \<Rightarrow> py \<Rightarrow> exn + py \<times> bool" where
  "renew_update c now current =
     (let state = as_dict current in
      if owns state c
      then Inr (PDict (dset ''expires_at'' (PStr (iso_utc (now + claim_ttl_seconds * 1000000))) state),
                True)
      else Inr (PDict state, False))"

definition release_update :: "occurrence_claim \<Rightarrow> int \<Rightarrow> py \<Rightarrow> exn + py \<times> bool" where
  "release_update c now current =
     (let state = as_dict current in
      if \<not> owns state c then Inr (PDict state, False)
      else Inr (PDict (dset ''expires_at'' PNone
                  (dset ''released_at'' (PStr (iso_utc now))
                    (dset ''status'' (PStr ''released'') state))), True))"

definition run_claim_update ::
    "occurrence_claim \<Rightarrow> (py \<Rightarrow> exn + py \<times> bool) \<Rightarrow> kv_store \<Rightarrow> (exn + bool) \<times> kv_store" where
  "run_claim_update c f s =
     (case update_key_value s (occurrence_key (claim_kind c)) f of
        (Inl e, s') \<Rightarrow> (Inl e, s')
      | (Inr (_, b), s') \<Rightarrow> (Inr b, s'))"

definition complete_claim :: "occurrence_claim \<Rightarrow> int \<Rightarrow> kv_store \<Rightarrow> (exn + bool) \<times> kv_store" where
  "complete_claim c now s = run_claim_update c (complete_update c now) s"

definition renew_claim :: "occurrence_claim \<Rightarrow> int \<Rightarrow> kv_store \<Rightarrow> (exn + bool) \<times> kv_store" where
  "renew_claim c now s = run_claim_update c (renew_update c now) s"

definition release_claim :: "occurrence_claim \<Rightarrow> int \<Rightarrow> kv_store \<Rightarrow> (exn + bool) \<times> kv_store" where
  "release_claim c now s = run_claim_update c (release_update c now) s"

text \<open>
  The heartbeat.  \<open>lease_finished\<close> and \<open>lease_lost\<close> are the two flags under the lease's lock and
  \<open>lease_stop\<close> its stop event.  \<open>joined\<close> says whether the renewal thread ended within a second.
\<close>

record lease =
  lease_claim :: occurrence_claim
  lease_stop :: bool
  lease_finished :: bool
  lease_lost :: bool

definition lease_finish ::
    "lease \<Rightarrow> bool \<Rightarrow> bool \<Rightarrow> int \<Rightarrow> kv_store \<Rightarrow> (exn + bool) \<times> lease \<times> kv_store" where
  "lease_finish l joined succeeded now s =
     (if lease_finished l then (Inr False, l, s)
      else let l' = l\<lparr>lease_finished := True, lease_stop := True\<rparr> in
        if \<not> joined then (Inl (RuntimeError ''Rinnovo occurrence ancora attivo''), l', s)
        else if lease_lost l then (Inr False, l', s)
        else (let r = (if succeeded then complete_claim (lease_claim l) now s
                       else release_claim (lease_claim l) now s)
              in (fst r, l', snd r)))"

text \<open>
  One round of \<open>_renew_until_stopped\<close>: whether the loop goes on, whether \<open>on_lost\<close> is called, and
  the new state.  A renewal that raises counts as not renewed.
\<close>

definition lease_tick :: "lease \<Rightarrow> int \<Rightarrow> kv_store \<Rightarrow> (bool \<times> bool) \<times> lease \<times> kv_store" where
  "lease_tick l now s =
     (if lease_stop l then ((False, False), l, s)
      else case renew_claim (lease_claim l) now s of
        (r, s') \<Rightarrow>
          if r = Inr True then ((True, False), l, s')
          else if lease_finished l then ((False, False), l, s')
          else ((False, True), l\<lparr>lease_lost := True\<rparr>, s'))"

subsection \<open>Timestamps survive storage\<close>

lemma parse_timestamp_iso:
  assumes "0 \<le> t" "t \<le> max_instant"
  shows "parse_timestamp (PStr (iso_utc t)) = Inr (Some t)"
  using assms iso_utc_no_Z by (simp add: parse_timestamp_def replace_char_absent parse_iso_utc)

lemma parse_timestamp_none [simp]: "parse_timestamp PNone = Inr None"
  by (simp add: parse_timestamp_def replace_char_def parse_utc_def from_iso_def date_length_def)

subsection \<open>Operations of competing coordinators\<close>

datatype occurrence_op =
    Claim_Op string int string pdict int
  | Complete_Op occurrence_claim int
  | Renew_Op occurrence_claim int
  | Release_Op occurrence_claim int

fun occurrence_step :: "kv_store \<Rightarrow> occurrence_op \<Rightarrow> kv_store" where
  "occurrence_step s (Claim_Op owner now kind settings scheduled) =
     snd (claim_with_status owner now kind settings scheduled s)"
| "occurrence_step s (Complete_Op c now) = snd (complete_claim c now s)"
| "occurrence_step s (Renew_Op c now) = snd (renew_claim c now s)"
| "occurrence_step s (Release_Op c now) = snd (release_claim c now s)"

definition occurrence_run :: "kv_store \<Rightarrow> occurrence_op list \<Rightarrow> kv_store" where
  "occurrence_run s ops = foldl occurrence_step s ops"

text \<open>The row of kind \<open>k\<close>: claimed by \<open>c\<close> for instant \<open>sched\<close> until \<open>expires\<close>, or completed.\<close>

definition row_claimed :: "occurrence_claim \<Rightarrow> int \<Rightarrow> int \<Rightarrow> py \<Rightarrow> bool" where
  "row_claimed c sched expires v \<longleftrightarrow>
     (\<exists>d. v = PDict d \<and> owns d c
        \<and> pget d ''scheduled_for'' = PStr (iso_utc sched)
        \<and> pget d ''expires_at'' = PStr (iso_utc expires))"

definition row_completed :: "int \<Rightarrow> py \<Rightarrow> bool" where
  "row_completed sched v \<longleftrightarrow>
     (\<exists>d. v = PDict d \<and> pget d ''status'' = PStr ''completed''
        \<and> pget d ''scheduled_for'' = PStr (iso_utc sched) \<and> pget d ''expires_at'' = PNone)"

definition in_range :: "int \<Rightarrow> bool" where
  "in_range t \<longleftrightarrow> 0 \<le> t \<and> t \<le> max_instant"

text \<open>
  An operation that cannot disturb the claim \<open>c\<close> before \<open>expires\<close>: it works on another kind, or
  claims the same or an older occurrence before the expiry, or acts for another claim.
\<close>

definition norm_kind :: "string \<Rightarrow> string" where
  "norm_kind kind = (if kind = [] then ''task'' else kind)"

fun rival :: "occurrence_claim \<Rightarrow> int \<Rightarrow> int \<Rightarrow> occurrence_op \<Rightarrow> bool" where
  "rival c sched expires (Claim_Op owner now kind settings sched') =
     (norm_kind kind = claim_kind c \<longrightarrow> sched' \<le> sched \<and> now < expires)"
| "rival c sched expires (Complete_Op c' now) =
     (claim_kind c' = claim_kind c \<longrightarrow> (claim_token c', claim_owner c') \<noteq> (claim_token c, claim_owner c))"
| "rival c sched expires (Renew_Op c' now) =
     (claim_kind c' = claim_kind c \<longrightarrow> (claim_token c', claim_owner c') \<noteq> (claim_token c, claim_owner c))"
| "rival c sched expires (Release_Op c' now) =
     (claim_kind c' = claim_kind c \<longrightarrow> (claim_token c', claim_owner c') \<noteq> (claim_token c, claim_owner c))"

fun not_newer :: "string \<Rightarrow> int \<Rightarrow> occurrence_op \<Rightarrow> bool" where
  "not_newer kind sched (Claim_Op owner now kind' settings sched') =
     (norm_kind kind' = kind \<longrightarrow> sched' \<le> sched)"
| "not_newer kind sched _ = True"

subsection \<open>Steps of the coordinator\<close>

lemma as_dict_PDict [simp]: "as_dict (PDict d) = d"
  by (simp add: as_dict_def)

lemma occurrence_key_inject [simp]: "occurrence_key k = occurrence_key k' \<longleftrightarrow> k = k'"
  by (simp add: occurrence_key_def)

lemma update_other_key:
  "k' \<noteq> k \<Longrightarrow> kv_read (snd (update_key_value s k f)) k' = kv_read s k'"
  by (auto simp: update_key_value_def kv_read_def require_key_value_key_def split: sum.splits)

lemma claim_update_blocked:
  assumes "row_claimed c sched expires v" "in_range sched" "in_range expires"
    and "sched' \<le> sched" "now < expires"
  shows "claim_update kind token owner sched' now v = Inr (v, ''active'')"
  using assms
  by (auto simp: row_claimed_def claim_update_def owns_def in_range_def parse_timestamp_iso)

lemma claim_update_completed:
  assumes "row_completed sched v" "in_range sched" "sched' \<le> sched"
  shows "claim_update kind token owner sched' now v = Inr (v, ''completed'')"
  using assms
  by (auto simp: row_completed_def claim_update_def in_range_def parse_timestamp_iso)

lemma not_owner_updates:
  assumes "\<not> owns d c"
  shows "complete_update c now (PDict d) = Inr (PDict d, False)"
    "renew_update c now (PDict d) = Inr (PDict d, False)"
    "release_update c now (PDict d) = Inr (PDict d, False)"
  using assms by (simp_all add: complete_update_def renew_update_def release_update_def)

lemma snd_claim_with_status:
  "snd (claim_with_status owner now kind settings sched s) =
    (case occurrence_token settings sched of
       Inl e \<Rightarrow> s
     | Inr token \<Rightarrow> snd (update_key_value s (occurrence_key (norm_kind kind))
         (claim_update (norm_kind kind) token owner sched now)))"
  by (auto simp: claim_with_status_def norm_kind_def Let_def split: sum.splits prod.splits)

lemma snd_run_claim_update:
  "snd (run_claim_update c f s) = snd (update_key_value s (occurrence_key (claim_kind c)) f)"
  by (auto simp: run_claim_update_def split: sum.splits prod.splits)

lemmas claim_steps = complete_claim_def renew_claim_def release_claim_def
lemmas row_defs = row_claimed_def row_completed_def owns_def

lemma update_same_value:
  assumes "valid_key k" "f (kv_read s k) = Inr (kv_read s k, a)"
  shows "kv_read (snd (update_key_value s k f)) k = kv_read s k"
  using assms kv.update_value [of k s f] by simp

text \<open>The row is unchanged when every updater the step can run leaves it unchanged.\<close>

lemma occurrence_step_keeps:
  assumes key: "valid_key (occurrence_key k)"
    and claim: "\<And>owner now kind settings sched token. op = Claim_Op owner now kind settings sched \<Longrightarrow>
        norm_kind kind = k \<Longrightarrow>
        \<exists>a. claim_update k token owner sched now (kv_read s (occurrence_key k)) =
          Inr (kv_read s (occurrence_key k), a)"
    and other: "\<And>c now. op \<in> {Complete_Op c now, Renew_Op c now, Release_Op c now} \<Longrightarrow>
        claim_kind c = k \<Longrightarrow>
        \<exists>d. kv_read s (occurrence_key k) = PDict d \<and> \<not> owns d c"
  shows "kv_read (occurrence_step s op) (occurrence_key k) = kv_read s (occurrence_key k)"
proof (cases op)
    case (Claim_Op owner now kind settings sched)
    show ?thesis
    proof (cases "norm_kind kind = k")
      case True
      show ?thesis
        using claim [OF Claim_Op True] key True
        by (auto simp: Claim_Op snd_claim_with_status update_same_value split: sum.splits)
          (metis update_same_value)
    next
      case False
      then show ?thesis
        by (auto simp: Claim_Op snd_claim_with_status update_other_key split: sum.splits)
    qed
  next
    case (Complete_Op c now)
    then show ?thesis
      using other [of c now] key
      by (cases "claim_kind c = k")
        (auto simp: claim_steps snd_run_claim_update update_other_key not_owner_updates
          intro!: update_same_value)
  next
    case (Renew_Op c now)
    then show ?thesis
      using other [of c now] key
      by (cases "claim_kind c = k")
        (auto simp: claim_steps snd_run_claim_update update_other_key not_owner_updates
          intro!: update_same_value)
  next
    case (Release_Op c now)
    then show ?thesis
      using other [of c now] key
      by (cases "claim_kind c = k")
        (auto simp: claim_steps snd_run_claim_update update_other_key not_owner_updates
          intro!: update_same_value)
qed

lemma rival_step:
  assumes "valid_key (occurrence_key (claim_kind c))"
    and row: "row_claimed c sched expires (kv_read s (occurrence_key (claim_kind c)))"
    and "in_range sched" "in_range expires" "rival c sched expires op"
  shows "kv_read (occurrence_step s op) (occurrence_key (claim_kind c)) =
    kv_read s (occurrence_key (claim_kind c))"
proof (rule occurrence_step_keeps)
  fix owner now kind settings sched' token
  assume "op = Claim_Op owner now kind settings sched'" "norm_kind kind = claim_kind c"
  then show "\<exists>a. claim_update (claim_kind c) token owner sched' now
      (kv_read s (occurrence_key (claim_kind c))) =
      Inr (kv_read s (occurrence_key (claim_kind c)), a)"
    using assms claim_update_blocked [OF row] by auto
next
  fix c' now
  assume "op \<in> {Complete_Op c' now, Renew_Op c' now, Release_Op c' now}" "claim_kind c' = claim_kind c"
  then show "\<exists>d. kv_read s (occurrence_key (claim_kind c)) = PDict d \<and> \<not> owns d c'"
    using row assms(5) by (auto simp: row_claimed_def owns_def)
qed (fact assms(1))

lemma rival_run:
  assumes "valid_key (occurrence_key (claim_kind c))"
    and "row_claimed c sched expires (kv_read s (occurrence_key (claim_kind c)))"
    and "in_range sched" "in_range expires" "list_all (rival c sched expires) ops"
  shows "kv_read (occurrence_run s ops) (occurrence_key (claim_kind c)) =
    kv_read s (occurrence_key (claim_kind c))"
  using assms
proof (induction ops arbitrary: s)
  case (Cons op ops)
  then have "kv_read (occurrence_step s op) (occurrence_key (claim_kind c)) =
      kv_read s (occurrence_key (claim_kind c))"
    by (intro rival_step [where sched = sched and expires = expires]) auto
  with Cons show ?case by (simp add: occurrence_run_def)
qed (simp add: occurrence_run_def)

lemma completed_step:
  assumes "valid_key (occurrence_key k)" "in_range sched"
    and row: "row_completed sched (kv_read s (occurrence_key k))"
    and "not_newer k sched op"
  shows "kv_read (occurrence_step s op) (occurrence_key k) = kv_read s (occurrence_key k)"
proof (rule occurrence_step_keeps)
  fix owner now kind settings sched' token
  assume "op = Claim_Op owner now kind settings sched'" "norm_kind kind = k"
  then show "\<exists>a. claim_update k token owner sched' now (kv_read s (occurrence_key k)) =
      Inr (kv_read s (occurrence_key k), a)"
    using assms claim_update_completed [OF row] by auto
next
  fix c now
  show "\<exists>d. kv_read s (occurrence_key k) = PDict d \<and> \<not> owns d c"
    using row by (auto simp: row_completed_def owns_def)
qed (fact assms(1))

lemma completed_run:
  assumes "valid_key (occurrence_key k)" "in_range sched"
    and "row_completed sched (kv_read s (occurrence_key k))"
    and "list_all (not_newer k sched) ops"
  shows "kv_read (occurrence_run s ops) (occurrence_key k) = kv_read s (occurrence_key k)"
  using assms
proof (induction ops arbitrary: s)
  case (Cons op ops)
  then have "kv_read (occurrence_step s op) (occurrence_key k) = kv_read s (occurrence_key k)"
    by (intro completed_step) auto
  with Cons show ?case by (simp add: occurrence_run_def)
qed (simp add: occurrence_run_def)

text \<open>A granted claim is the row's claim until the time-to-live ends.\<close>

lemma claim_granted_row:
  assumes "claim_with_status owner now kind settings sched s = (Inr (Some c, status), s')"
    and "valid_key (occurrence_key (norm_kind kind))"
  shows "row_claimed c sched (now + 120000000) (kv_read s' (occurrence_key (claim_kind c)))
    \<and> claim_kind c = norm_kind kind \<and> claim_owner c = owner \<and> status = ''claimed''"
proof -
  let ?k = "norm_kind kind"
  obtain token where token: "occurrence_token settings sched = Inr token"
    using assms(1) by (cases "occurrence_token settings sched") (auto simp: claim_with_status_def Let_def)
  let ?f = "claim_update ?k token owner sched now"
  obtain p s'' where u: "update_key_value s (occurrence_key ?k) ?f = (p, s'')" by force
  have c: "c = \<lparr>claim_kind = ?k, claim_token = token, claim_owner = owner,
      claim_scheduled_for = iso_utc sched\<rparr>" and status: "status = ''claimed''" and s': "s'' = s'"
    and p: "\<exists>v. p = Inr (v, ''claimed'')"
    using assms(1) token u
    by (auto simp: claim_with_status_def norm_kind_def [symmetric] Let_def
        split: sum.splits prod.splits if_splits)
  then obtain v where v: "p = Inr (v, ''claimed'')" by blast
  then have "?f (kv_read s (occurrence_key ?k)) = Inr (v, ''claimed'')"
    using u assms(2) by (auto simp: update_key_value_def kv_read_def split: sum.splits)
  moreover from this have "v = PDict (claimed_state ?k token owner sched now)"
    by (auto simp: claim_update_def Let_def result_bind_Inr_iff split: if_splits)
  ultimately have "kv_read s' (occurrence_key ?k) = PDict (claimed_state ?k token owner sched now)"
    using u s' assms(2) kv.update_value [of "occurrence_key ?k" s ?f] by simp
  then show ?thesis
    by (simp add: c status row_claimed_def owns_def claimed_state_def claim_ttl_seconds_def)
qed

lemma run_claim_update_result:
  assumes "valid_key (occurrence_key (claim_kind c))"
    and "f (kv_read s (occurrence_key (claim_kind c))) = Inr (v, b)"
  shows "fst (run_claim_update c f s) = Inr b"
    and "kv_read (snd (run_claim_update c f s)) (occurrence_key (claim_kind c)) = v"
proof -
  have "fst (update_key_value s (occurrence_key (claim_kind c)) f) = Inr (v, b)"
    using assms by (rule kv.update_result)
  then show "fst (run_claim_update c f s) = Inr b"
    by (cases "update_key_value s (occurrence_key (claim_kind c)) f")
      (simp add: run_claim_update_def)
  show "kv_read (snd (run_claim_update c f s)) (occurrence_key (claim_kind c)) = v"
    using assms by (simp add: snd_run_claim_update kv.update_value)
qed

lemma claim_with_status_result:
  assumes "valid_key (occurrence_key (norm_kind kind))"
    and "occurrence_token settings sched = Inr token"
    and "claim_update (norm_kind kind) token owner sched now (kv_read s (occurrence_key (norm_kind kind)))
           = Inr (v, status)"
  shows "fst (claim_with_status owner now kind settings sched s) =
    Inr (if status = ''claimed''
         then (Some \<lparr>claim_kind = norm_kind kind, claim_token = token, claim_owner = owner,
                     claim_scheduled_for = iso_utc sched\<rparr>, status)
         else (None, status))"
proof -
  have "fst (update_key_value s (occurrence_key (norm_kind kind))
      (claim_update (norm_kind kind) token owner sched now)) = Inr (v, status)"
    using assms(1,3) by (rule kv.update_result)
  then show ?thesis
    using assms(2)
    by (cases "update_key_value s (occurrence_key (norm_kind kind))
      (claim_update (norm_kind kind) token owner sched now)")
      (simp add: claim_with_status_def norm_kind_def [symmetric])
qed

subsection \<open>Properties\<close>

text \<open>
  C30: mutual exclusion of occurrence claims.  Once a coordinator is granted a claim, then
  whatever other coordinators do (claims of the same or an older occurrence, completions,
  renewals and releases of other claims, anything on other task kinds), before the claim expires
  no claim of the same or an older occurrence is granted, and the holder can still complete.
\<close>

theorem claim_exclusive:
  assumes granted: "claim_with_status owner now kind settings sched s = (Inr (Some c, status), s')"
    and key: "valid_key (occurrence_key (norm_kind kind))"
    and range: "in_range sched" "in_range (now + 120000000)"
    and rivals: "list_all (rival c sched (now + 120000000)) ops"
    and later: "sched' \<le> sched" "now' < now + 120000000" "norm_kind kind' = norm_kind kind"
      "occurrence_token settings' sched' = Inr token'"
  shows "fst (claim_with_status owner' now' kind' settings' sched' (occurrence_run s' ops))
           = Inr (None, ''active'')
    \<and> fst (complete_claim c now'' (occurrence_run s' ops)) = Inr True"
proof -
  have c: "row_claimed c sched (now + 120000000) (kv_read s' (occurrence_key (claim_kind c)))"
    "claim_kind c = norm_kind kind"
    using claim_granted_row [OF granted key] by auto
  let ?s = "occurrence_run s' ops"
  have row: "row_claimed c sched (now + 120000000) (kv_read ?s (occurrence_key (norm_kind kind)))"
    using rival_run [OF _ c(1) range rivals] c key by simp
  then obtain d where d: "kv_read ?s (occurrence_key (norm_kind kind)) = PDict d" "owns d c"
    by (auto simp: row_claimed_def)
  have "claim_update (norm_kind kind') token' owner' sched' now'
      (kv_read ?s (occurrence_key (norm_kind kind'))) =
      Inr (kv_read ?s (occurrence_key (norm_kind kind)), ''active'')"
    using claim_update_blocked [OF row range later(1,2)] later(3) by simp
  then have "fst (claim_with_status owner' now' kind' settings' sched' ?s) = Inr (None, ''active'')"
    using claim_with_status_result [OF _ later(4)] key later(3) by simp
  moreover have "fst (complete_claim c now'' ?s) = Inr True"
    using key c d unfolding complete_claim_def
    by (intro run_claim_update_result(1)) (auto simp: complete_update_def)
  ultimately show ?thesis ..
qed

lemma fixed_token: "occurrence_token [(''mode'', PStr ''fixed'')] t = Inr (''fixed:'' @ iso_utc (t - t mod 60000000))"
  by (simp add: occurrence_token_def)

lemma first_claim:
  "\<exists>c s'. claim_with_status ''a'' 1 ''scan'' [(''mode'', PStr ''fixed'')] 0 [] =
     (Inr (Some c, ''claimed''), s') \<and> claim_kind c = ''scan'' \<and> claim_owner c = ''a''"
  by (simp add: claim_with_status_def fixed_token update_key_value_def require_key_value_key_def
      occurrence_key_def key_prefix_def claim_update_def as_dict_def Let_def)

theorem claim_exclusive_witness:
  "\<exists>c s'. claim_with_status ''a'' 1 ''scan'' [(''mode'', PStr ''fixed'')] 0 [] =
       (Inr (Some c, ''claimed''), s')
     \<and> fst (claim_with_status ''b'' 3 ''scan'' [(''mode'', PStr ''fixed'')] 0
          (occurrence_run s' [Claim_Op ''b'' 2 ''scan'' [] 0, Release_Op (c\<lparr>claim_owner := ''b''\<rparr>) 2]))
        = Inr (None, ''active'')"
proof -
  obtain c s' where g:
    "claim_with_status ''a'' 1 ''scan'' [(''mode'', PStr ''fixed'')] 0 [] = (Inr (Some c, ''claimed''), s')"
    and c: "claim_kind c = ''scan''" "claim_owner c = ''a''"
    using first_claim by blast
  have "fst (claim_with_status ''b'' 3 ''scan'' [(''mode'', PStr ''fixed'')] 0
          (occurrence_run s' [Claim_Op ''b'' 2 ''scan'' [] 0, Release_Op (c\<lparr>claim_owner := ''b''\<rparr>) 2]))
        = Inr (None, ''active'')"
    by (rule claim_exclusive [OF g, THEN conjunct1, OF _ _ _ _ _ _ _ fixed_token])
      (simp_all add: valid_key_def occurrence_key_def key_prefix_def norm_kind_def in_range_def
        max_instant_def c)
  with g show ?thesis by blast
qed

text \<open>
  a completed occurrence is never run again.  After the holder completes its claim, no
  sequence of operations that claims no newer occurrence of that kind brings it back: every
  claim of the same or an older occurrence is answered \<open>completed\<close>, and every completion, renewal
  and release on that kind is refused.
\<close>

theorem completed_is_final:
  assumes granted: "claim_with_status owner now kind settings sched s = (Inr (Some c, status), s1)"
    and key: "valid_key (occurrence_key (norm_kind kind))"
    and range: "in_range sched" "in_range (now + 120000000)"
    and rivals: "list_all (rival c sched (now + 120000000)) ops"
    and completed: "complete_claim c t (occurrence_run s1 ops) = (r, s2)"
    and after: "list_all (not_newer (norm_kind kind) sched) ops'"
    and again: "sched' \<le> sched" "norm_kind kind' = norm_kind kind"
      "occurrence_token settings' sched' = Inr token'"
    and other: "claim_kind c' = norm_kind kind"
  shows "fst (claim_with_status owner' now' kind' settings' sched' (occurrence_run s2 ops'))
           = Inr (None, ''completed'')
    \<and> fst (complete_claim c' t' (occurrence_run s2 ops')) = Inr False
    \<and> fst (renew_claim c' t' (occurrence_run s2 ops')) = Inr False
    \<and> fst (release_claim c' t' (occurrence_run s2 ops')) = Inr False"
proof -
  let ?k = "occurrence_key (norm_kind kind)" and ?s = "occurrence_run s2 ops'"
  have c: "row_claimed c sched (now + 120000000) (kv_read s1 ?k)" "claim_kind c = norm_kind kind"
    using claim_granted_row [OF granted key] by auto
  have "row_claimed c sched (now + 120000000) (kv_read (occurrence_run s1 ops) ?k)"
    using rival_run [OF _ _ range rivals] c key by simp
  then obtain d where d: "kv_read (occurrence_run s1 ops) ?k = PDict d" "owns d c"
    "pget d ''scheduled_for'' = PStr (iso_utc sched)"
    by (auto simp: row_claimed_def)
  have "kv_read s2 ?k = PDict (dset ''expires_at'' PNone (dset ''completed_at'' (PStr (iso_utc t))
      (dset ''status'' (PStr ''completed'') d)))"
    using run_claim_update_result(2) [of c "complete_update c t" "occurrence_run s1 ops"]
      key c d completed
    by (simp add: complete_claim_def complete_update_def)
  then have "row_completed sched (kv_read s2 ?k)" using d by (simp add: row_completed_def)
  then have row: "row_completed sched (kv_read ?s ?k)"
    using completed_run [OF key range(1) _ after] by simp
  then obtain e where e: "kv_read ?s ?k = PDict e" "\<not> owns e c'"
    by (auto simp: row_completed_def owns_def)
  have "claim_update (norm_kind kind') token' owner' sched' now' (kv_read ?s (occurrence_key (norm_kind kind')))
      = Inr (kv_read ?s ?k, ''completed'')"
    using claim_update_completed [OF row range(1) again(1)] again(2) by simp
  then have "fst (claim_with_status owner' now' kind' settings' sched' ?s) = Inr (None, ''completed'')"
    using claim_with_status_result [OF _ again(3)] key again(2) by simp
  moreover have "fst (complete_claim c' t' ?s) = Inr False" "fst (renew_claim c' t' ?s) = Inr False"
    "fst (release_claim c' t' ?s) = Inr False"
    unfolding claim_steps using key other e
    by (auto intro!: run_claim_update_result(1) simp: not_owner_updates)
  ultimately show ?thesis by simp
qed

theorem completed_is_final_witness:
  "\<exists>c s1. claim_with_status ''a'' 1 ''scan'' [(''mode'', PStr ''fixed'')] 0 [] =
       (Inr (Some c, ''claimed''), s1)
     \<and> fst (claim_with_status ''b'' 900000000 ''scan'' [(''mode'', PStr ''fixed'')] 0
          (occurrence_run (snd (complete_claim c 5 (occurrence_run s1 []))) [Release_Op c 7]))
        = Inr (None, ''completed'')"
proof -
  obtain c s1 where g:
    "claim_with_status ''a'' 1 ''scan'' [(''mode'', PStr ''fixed'')] 0 [] = (Inr (Some c, ''claimed''), s1)"
    and c: "claim_kind c = ''scan''"
    using first_claim by blast
  have "fst (claim_with_status ''b'' 900000000 ''scan'' [(''mode'', PStr ''fixed'')] 0
          (occurrence_run (snd (complete_claim c 5 (occurrence_run s1 []))) [Release_Op c 7]))
        = Inr (None, ''completed'')"
    by (rule completed_is_final [where c' = c, OF g _ _ _ _ surjective_pairing _ _ _ fixed_token,
          THEN conjunct1])
      (simp_all add: valid_key_def occurrence_key_def key_prefix_def norm_kind_def in_range_def
        max_instant_def c)
  with g show ?thesis by blast
qed

text \<open>
  an expired claim is recovered and its former holder is fenced.  From its expiry on, any
  coordinator is granted the occurrence (or any other of that kind), and from then on the former
  holder can neither complete nor renew nor release it.
\<close>

theorem expired_claim_fenced:
  assumes row: "row_claimed c sched expires (kv_read s (occurrence_key (norm_kind kind)))"
    and c: "claim_kind c = norm_kind kind"
    and key: "valid_key (occurrence_key (norm_kind kind))"
    and range: "in_range sched" "in_range expires" and expired: "expires \<le> now"
    and token: "occurrence_token settings sched' = Inr token"
    and differs: "token \<noteq> claim_token c \<or> owner \<noteq> claim_owner c"
  shows "\<exists>c' s'. claim_with_status owner now kind settings sched' s = (Inr (Some c', ''claimed''), s')
    \<and> fst (complete_claim c t s') = Inr False \<and> fst (renew_claim c t s') = Inr False
    \<and> fst (release_claim c t s') = Inr False"
proof -
  let ?k = "occurrence_key (norm_kind kind)"
  obtain v where u: "claim_update (norm_kind kind) token owner sched' now (kv_read s ?k) = Inr (v, ''claimed'')"
    using row range expired
    by (auto simp: row_claimed_def claim_update_def owns_def in_range_def parse_timestamp_iso)
  obtain c' s' where g: "claim_with_status owner now kind settings sched' s = (Inr (Some c', ''claimed''), s')"
    and c': "claim_token c' = token"
    using claim_with_status_result [OF key token u]
    by (cases "claim_with_status owner now kind settings sched' s") auto
  from claim_granted_row [OF g key] obtain d where
    d: "kv_read s' ?k = PDict d" "owns d c'" "claim_owner c' = owner"
    by (auto simp: row_claimed_def)
  then have "\<not> owns d c" using differs c' by (auto simp: owns_def)
  then have "fst (complete_claim c t s') = Inr False" "fst (renew_claim c t s') = Inr False"
    "fst (release_claim c t s') = Inr False"
    unfolding claim_steps using key c d
    by (auto intro!: run_claim_update_result(1) simp: not_owner_updates)
  then show ?thesis using g by blast
qed

theorem expired_claim_fenced_witness:
  "\<exists>c s. row_claimed c 0 120000001 (kv_read s (occurrence_key ''scan''))
     \<and> (\<exists>c' s'. claim_with_status ''b'' 120000001 ''scan'' [(''mode'', PStr ''fixed'')] 0 s
            = (Inr (Some c', ''claimed''), s')
          \<and> fst (complete_claim c 120000002 s') = Inr False
          \<and> fst (renew_claim c 120000002 s') = Inr False
          \<and> fst (release_claim c 120000002 s') = Inr False)"
proof -
  obtain c s1 where g:
    "claim_with_status ''a'' 1 ''scan'' [(''mode'', PStr ''fixed'')] 0 [] = (Inr (Some c, ''claimed''), s1)"
    and c: "claim_kind c = ''scan''" "claim_owner c = ''a''"
    using first_claim by blast
  have k: "norm_kind ''scan'' = ''scan''" "valid_key (occurrence_key ''scan'')"
    by (simp_all add: norm_kind_def valid_key_def occurrence_key_def key_prefix_def)
  have row: "row_claimed c 0 120000001 (kv_read s1 (occurrence_key (norm_kind ''scan'')))"
    using claim_granted_row [OF g] k c by simp
  have "\<exists>c' s'. claim_with_status ''b'' 120000001 ''scan'' [(''mode'', PStr ''fixed'')] 0 s1
            = (Inr (Some c', ''claimed''), s')
          \<and> fst (complete_claim c 120000002 s') = Inr False
          \<and> fst (renew_claim c 120000002 s') = Inr False
          \<and> fst (release_claim c 120000002 s') = Inr False"
    by (rule expired_claim_fenced [OF row _ _ _ _ _ fixed_token])
      (simp_all add: c k in_range_def max_instant_def)
  with row k show ?thesis by auto
qed

text \<open>
  a renewal by the holder succeeds while the row is still its claim and moves the expiry to
  the full time-to-live after the renewal, keeping the occurrence; a refused one changes nothing.
\<close>

theorem renew_extends_claim:
  assumes key: "valid_key (occurrence_key (claim_kind c))"
    and row: "kv_read s (occurrence_key (claim_kind c)) = PDict d"
  shows "fst (renew_claim c t s) = Inr (owns d c)
    \<and> (owns d c \<and> pget d ''scheduled_for'' = PStr (iso_utc sched) \<longrightarrow>
         row_claimed c sched (t + 120000000)
           (kv_read (snd (renew_claim c t s)) (occurrence_key (claim_kind c))))
    \<and> (\<not> owns d c \<longrightarrow> kv_read (snd (renew_claim c t s)) (occurrence_key (claim_kind c)) = PDict d)"
proof (cases "owns d c")
  case True
  let ?d = "dset ''expires_at'' (PStr (iso_utc (t + claim_ttl_seconds * 1000000))) d"
  have f: "renew_update c t (kv_read s (occurrence_key (claim_kind c))) = Inr (PDict ?d, True)"
    using row True by (simp add: renew_update_def)
  have o: "owns ?d c" using True by (simp add: owns_def)
  have "fst (renew_claim c t s) = Inr True"
    "kv_read (snd (renew_claim c t s)) (occurrence_key (claim_kind c)) = PDict ?d"
    unfolding renew_claim_def
    using run_claim_update_result [where f = "renew_update c t", OF key f] by auto
  with True o show ?thesis by (simp add: row_claimed_def claim_ttl_seconds_def)
next
  case False
  have f: "renew_update c t (kv_read s (occurrence_key (claim_kind c))) = Inr (PDict d, False)"
    using row False by (simp add: not_owner_updates)
  show ?thesis
    unfolding renew_claim_def
    using run_claim_update_result [where f = "renew_update c t", OF key f] False by auto
qed

theorem renew_extends_claim_witness:
  "\<exists>c s d. kv_read s (occurrence_key (claim_kind c)) = PDict d \<and> owns d c
     \<and> fst (renew_claim c 60000000 s) = Inr (owns d c)"
proof -
  obtain c s1 where g:
    "claim_with_status ''a'' 1 ''scan'' [(''mode'', PStr ''fixed'')] 0 [] = (Inr (Some c, ''claimed''), s1)"
    and c: "claim_kind c = ''scan''"
    using first_claim by blast
  have k: "norm_kind ''scan'' = ''scan''" "valid_key (occurrence_key ''scan'')"
    by (simp_all add: norm_kind_def valid_key_def occurrence_key_def key_prefix_def)
  then obtain d where d: "kv_read s1 (occurrence_key (claim_kind c)) = PDict d" "owns d c"
    using claim_granted_row [OF g] c by (auto simp: row_claimed_def)
  then have "fst (renew_claim c 60000000 s1) = Inr (owns d c)"
    using renew_extends_claim [OF _ d(1)] k c by simp
  with d show ?thesis by blast
qed

text \<open>
  in interval mode two instants since 1970 belong to the same occurrence exactly when they
  fall into the same interval since 1970; the interval is at least one minute.
\<close>

theorem interval_tokens:
  assumes "pget settings ''mode'' = PStr ''interval''"
    and "pget settings ''interval_minutes'' = PInt i" "i \<noteq> 0"
    and "unix_epoch \<le> t" "unix_epoch \<le> t'"
  shows "occurrence_token settings t = occurrence_token settings t' \<longleftrightarrow>
    (t - unix_epoch) div (max 1 i * 60000000) = (t' - unix_epoch) div (max 1 i * 60000000)"
proof -
  have sec: "unix_seconds u div (max 1 i * 60) = (u - unix_epoch) div (max 1 i * 60000000)"
    if "unix_epoch \<le> u" for u
  proof -
    have "unix_seconds u = (u - unix_epoch) div 1000000"
      using that floor_divide_of_int_eq [of "u - unix_epoch" 1000000, where 'a = rat]
      by (simp add: unix_seconds_def py_trunc_def)
    then have "unix_seconds u div (max 1 i * 60) = (u - unix_epoch) div (1000000 * (max 1 i * 60))"
      by (simp only: zdiv_zmult2_eq)
    then show ?thesis by (simp add: mult.commute mult.left_commute)
  qed
  have inj: "str_int a = str_int b \<longleftrightarrow> a = b" for a b by (rule str_int_inject)
  show ?thesis
    using assms sec by (simp add: occurrence_token_def py_or_def inj Let_def)
qed

theorem interval_tokens_witness:
  "occurrence_token [(''mode'', PStr ''interval''), (''interval_minutes'', PInt 15)]
       (unix_epoch + 1000000) =
     occurrence_token [(''mode'', PStr ''interval''), (''interval_minutes'', PInt 15)]
       (unix_epoch + 899000000)
   \<and> occurrence_token [(''mode'', PStr ''interval''), (''interval_minutes'', PInt 15)]
       (unix_epoch + 1000000) \<noteq>
     occurrence_token [(''mode'', PStr ''interval''), (''interval_minutes'', PInt 15)]
       (unix_epoch + 900000000)"
  using interval_tokens [of "[(''mode'', PStr ''interval''), (''interval_minutes'', PInt 15)]" 15
      "unix_epoch + 1000000" "unix_epoch + 899000000"]
    interval_tokens [of "[(''mode'', PStr ''interval''), (''interval_minutes'', PInt 15)]" 15
      "unix_epoch + 1000000" "unix_epoch + 900000000"]
  by simp

text \<open>
  a lease writes its outcome at most once and never after it was lost.  After a first
  \<open>finish\<close> (in whatever way it ended) any further one is refused and touches nothing; a lease whose
  renewal was refused leaves the row alone when it is finished.
\<close>

theorem lease_finishes_once:
  "(case lease_finish l joined ok now s of (r, l', s') \<Rightarrow>
      lease_finish l' joined' ok' now' s'' = (Inr False, l', s'')
      \<and> (lease_lost l \<longrightarrow> s' = s \<and> r \<noteq> Inr True))
   \<and> (case lease_tick l now s of ((continues, on_lost), l', s') \<Rightarrow>
        on_lost \<longrightarrow> snd (snd (lease_finish l' joined' ok' now' s'')) = s'')"
  by (auto simp: lease_finish_def lease_tick_def Let_def split: prod.splits if_splits)

theorem lease_finishes_once_witness:
  "let c = \<lparr>claim_kind = ''scan'', claim_token = ''t'', claim_owner = ''a'', claim_scheduled_for = []\<rparr>;
       l = \<lparr>lease_claim = c, lease_stop = False, lease_finished = False, lease_lost = False\<rparr>
   in fst (fst (lease_tick l 0 [])) = False
      \<and> snd (snd (lease_finish (fst (snd (lease_tick l 0 []))) True True 1 [])) = []"
  using lease_finishes_once [where l = "\<lparr>lease_claim = \<lparr>claim_kind = ''scan'', claim_token = ''t'',
      claim_owner = ''a'', claim_scheduled_for = []\<rparr>, lease_stop = False, lease_finished = False,
      lease_lost = False\<rparr>" and now = 0 and s = "[]" and joined' = True and ok' = True
      and now' = 1 and s'' = "[]"]
  by (auto simp: lease_tick_def renew_claim_def run_claim_update_def update_key_value_def
      renew_update_def owns_def as_dict_def occurrence_key_def key_prefix_def
      require_key_value_key_def Let_def split: prod.splits if_splits sum.splits)

end
