(* ===== verification/Window_Limiter.thy ===== *)
theory Window_Limiter
  imports Prelude
begin

text \<open>
  The contract of a sliding-window limiter, shared by the login limiter and the two API-token
  limiters.  \<open>attempt s now r\<close> is one call at time \<open>now\<close>; \<open>recent s k c\<close> are the admitted calls
  the state still remembers for the bucket \<open>k\<close> after instant \<open>c\<close>; a request is charged to the
  buckets \<open>charged r\<close>.  From the laws of one call the locale proves that no bucket admits more
  than its limit in any window, over any sequence of calls.
\<close>

text \<open>The admitted calls of a sequence of timed requests.\<close>

fun admissions :: "('s \<Rightarrow> seconds \<Rightarrow> 'r \<Rightarrow> bool \<times> 's) \<Rightarrow> 's \<Rightarrow> (seconds \<times> 'r) list \<Rightarrow> (seconds \<times> 'r) list"
  where
  "admissions attempt s [] = []"
| "admissions attempt s ((now, r) # tr) =
     (let res = attempt s now r
      in (if fst res then [(now, r)] else []) @ admissions attempt (snd res) tr)"

definition admitted_in ::
    "('r \<Rightarrow> 'k list) \<Rightarrow> 'k \<Rightarrow> seconds \<Rightarrow> seconds \<Rightarrow> (seconds \<times> 'r) list \<Rightarrow> nat" where
  "admitted_in charged k c w adm =
     length (filter (\<lambda>p. c < fst p \<and> fst p \<le> c + w \<and> k \<in> set (charged (snd p))) adm)"

lemma admitted_in_simps [simp]:
  "admitted_in charged k c w [] = 0"
  "admitted_in charged k c w (p # adm) =
     (if c < fst p \<and> fst p \<le> c + w \<and> k \<in> set (charged (snd p)) then 1 else 0)
       + admitted_in charged k c w adm"
  by (simp_all add: admitted_in_def)

lemma admissions_times: "set (map fst (admissions attempt s tr)) \<subseteq> set (map fst tr)"
  by (induction attempt s tr rule: admissions.induct) (auto simp: Let_def)

lemma admitted_in_late:
  assumes "\<forall>p \<in> set adm. c + w < fst p"
  shows "admitted_in charged k c w adm = 0"
  using assms by (auto simp: admitted_in_def filter_empty_conv)

locale window_log =
  fixes attempt :: "'s \<Rightarrow> seconds \<Rightarrow> 'r \<Rightarrow> bool \<times> 's"
    and recent :: "'s \<Rightarrow> 'k \<Rightarrow> seconds \<Rightarrow> seconds list"
    and charged :: "'r \<Rightarrow> 'k list"
    and limit :: "'k \<Rightarrow> nat"
    and window :: seconds
    and legal :: "'r \<Rightarrow> bool"
    and ok :: "'s \<Rightarrow> seconds \<Rightarrow> bool"
  assumes ok_later: "ok s t \<Longrightarrow> t \<le> t' \<Longrightarrow> ok s t'"
    and ok_attempt: "ok s now \<Longrightarrow> legal r \<Longrightarrow> ok (snd (attempt s now r)) now"
    and admitted_below: "ok s now \<Longrightarrow> legal r \<Longrightarrow> fst (attempt s now r) \<Longrightarrow> k \<in> set (charged r) \<Longrightarrow>
          length (recent s k (now - window)) < limit k"
    and recent_after: "ok s now \<Longrightarrow> legal r \<Longrightarrow> now - window \<le> c \<Longrightarrow> c < now \<Longrightarrow>
          recent (snd (attempt s now r)) k c =
          recent s k c @ (if fst (attempt s now r) \<and> k \<in> set (charged r) then [now] else [])"
    and recent_shrinks: "c \<le> c' \<Longrightarrow> length (recent s k c') \<le> length (recent s k c)"
    and recent_past: "ok s now \<Longrightarrow> now \<le> c \<Longrightarrow> recent s k c = []"
begin

lemma window_bound_from:
  assumes "ok s t" "sorted (t # map fst tr)" "\<forall>p \<in> set tr. legal (snd p)"
    and "length (recent s k c) \<le> limit k"
  shows "length (recent s k c) + admitted_in charged k c window (admissions attempt s tr) \<le> limit k"
  using assms
proof (induction tr arbitrary: s t)
  case (Cons p tr)
  obtain now r where p: "p = (now, r)" by (cases p)
  define a where "a = fst (attempt s now r)"
  define s' where "s' = snd (attempt s now r)"
  have now: "t \<le> now" "legal r" and srt: "sorted (now # map fst tr)"
    using Cons.prems p by auto
  have ok: "ok s now" using Cons.prems(1) now(1) by (rule ok_later)
  then have ok': "ok s' now" unfolding s'_def using now(2) by (rule ok_attempt)
  have legal: "\<forall>p \<in> set tr. legal (snd p)" using Cons.prems p by simp
  note IH = Cons.IH [OF ok' srt legal]
  have adm: "admissions attempt s (p # tr) = (if a then [(now, r)] else []) @ admissions attempt s' tr"
    by (simp add: p a_def s'_def Let_def)
  consider "c + window < now" | "now \<le> c" | "c < now" "now \<le> c + window" by linarith
  then show ?case
  proof cases
    case 1
    have "\<forall>x \<in> set (admissions attempt s (p # tr)). c + window < fst x"
    proof
      fix x assume "x \<in> set (admissions attempt s (p # tr))"
      then have "fst x \<in> set (map fst (p # tr))" using admissions_times [of attempt s "p # tr"] by auto
      then have "now \<le> fst x" using srt p by auto
      with 1 show "c + window < fst x" by simp
    qed
    then show ?thesis using Cons.prems(4) by (simp add: admitted_in_late)
  next
    case 2
    then have "recent s k c = []" "recent s' k c = []"
      using recent_past [OF ok] recent_past [OF ok'] by auto
    then show ?thesis using IH 2 adm by auto
  next
    case 3
    have after: "recent s' k c = recent s k c @ (if a \<and> k \<in> set (charged r) then [now] else [])"
      unfolding s'_def a_def using ok now(2) 3 by (intro recent_after) auto
    have "length (recent s' k c) \<le> limit k"
    proof (cases "a \<and> k \<in> set (charged r)")
      case True
      then have "length (recent s k (now - window)) < limit k"
        using ok now(2) unfolding a_def by (intro admitted_below) auto
      moreover have "length (recent s k c) \<le> length (recent s k (now - window))"
        using 3 by (intro recent_shrinks) simp
      ultimately show ?thesis using after True by simp
    next
      case False
      then show ?thesis using after Cons.prems(4) by auto
    qed
    from IH [OF this] show ?thesis using after adm 3 by auto
  qed
qed simp

text \<open>The bound for a state that remembers nothing of the bucket.\<close>

lemma window_bound:
  assumes "ok s t" "sorted (t # map fst tr)" "\<forall>p \<in> set tr. legal (snd p)"
    and "\<And>c. recent s k c = []"
  shows "admitted_in charged k c window (admissions attempt s tr) \<le> limit k"
  using window_bound_from [OF assms(1-3), of k c] assms(4) by simp

end

subsection \<open>Event tables\<close>

text \<open>
  Each limiter keeps a dictionary from a bucket to the deque of its admitted instants, oldest
  first.  \<open>purge_left\<close> is \<open>while events and events[0] <= cutoff: events.popleft()\<close>.
\<close>

type_synonym 'k event_table = "('k, seconds list) dict"

fun purge_left :: "seconds \<Rightarrow> seconds list \<Rightarrow> seconds list" where
  "purge_left cutoff [] = []"
| "purge_left cutoff (e # events) = (if e \<le> cutoff then purge_left cutoff events else e # events)"

text \<open>\<open>while len(d) > m: d.popitem(last=False)\<close>\<close>

fun pop_oldest :: "nat \<Rightarrow> ('k, 'v) dict \<Rightarrow> ('k, 'v) dict" where
  "pop_oldest m [] = []"
| "pop_oldest m (p # d) = (if m < length (p # d) then pop_oldest m d else p # d)"

definition bucket_events :: "'k event_table \<Rightarrow> 'k \<Rightarrow> seconds list" where
  "bucket_events d k = dget_default d k []"

definition recent_events :: "'k event_table \<Rightarrow> 'k \<Rightarrow> seconds \<Rightarrow> seconds list" where
  "recent_events d k c = filter (\<lambda>t. c < t) (bucket_events d k)"

text \<open>A well-formed table at an instant: one deque per bucket, sorted, with no future event.\<close>

definition table_ok :: "'k event_table \<Rightarrow> seconds \<Rightarrow> bool" where
  "table_ok d now =
     (distinct (dkeys d) \<and>
      list_all (\<lambda>p. sorted (snd p) \<and> list_all (\<lambda>e. e \<le> now) (snd p)) d)"

lemma purge_left_filter: "sorted xs \<Longrightarrow> purge_left c xs = filter (\<lambda>t. c < t) xs"
proof -
  have "purge_left c xs = dropWhile (\<lambda>t. t \<le> c) xs" by (induction xs) auto
  then show "sorted xs \<Longrightarrow> ?thesis" by (simp add: dropWhile_le_filter)
qed

lemma pop_oldest_drop: "pop_oldest m d = drop (length d - m) d"
  by (induction d) (auto simp: Suc_diff_le)

lemma length_pop_oldest: "length (pop_oldest m d) \<le> m"
  by (simp add: pop_oldest_drop)

lemma pop_oldest_small [simp]: "length d \<le> m \<Longrightarrow> pop_oldest m d = d"
  by (simp add: pop_oldest_drop)

lemma bucket_events_simps [simp]:
  "bucket_events [] k = []"
  "bucket_events (dset k v d) k' = (if k' = k then v else bucket_events d k')"
  "bucket_events (dset_last k v d) k' = (if k' = k then v else bucket_events d k')"
  "bucket_events (dpop k d) k' = (if k' = k then [] else bucket_events d k')"
  by (simp_all add: bucket_events_def)

lemma recent_events_simps [simp]:
  "recent_events [] k c = []"
  "recent_events (dset k v d) k' c = (if k' = k then filter (\<lambda>t. c < t) v else recent_events d k' c)"
  "recent_events (dset_last k v d) k' c =
     (if k' = k then filter (\<lambda>t. c < t) v else recent_events d k' c)"
  "recent_events (dpop k d) k' c = (if k' = k then [] else recent_events d k' c)"
  by (simp_all add: recent_events_def)

lemma table_ok_Nil [simp]: "table_ok [] now"
  by (simp add: table_ok_def dkeys_def)

lemma table_ok_distinct: "table_ok d now \<Longrightarrow> distinct (dkeys d)"
  by (simp add: table_ok_def)

lemma table_ok_bucket:
  assumes "table_ok d now"
  shows "sorted (bucket_events d k)" "x \<in> set (bucket_events d k) \<Longrightarrow> x \<le> now"
proof -
  have "bucket_events d k = [] \<or> (k, bucket_events d k) \<in> set d"
    by (auto simp: bucket_events_def dget_default_def split: option.splits intro: map_of_SomeD)
  then show "sorted (bucket_events d k)" "x \<in> set (bucket_events d k) \<Longrightarrow> x \<le> now"
    using assms by (auto simp: table_ok_def list_all_iff)
qed

lemma table_okI:
  assumes "distinct (dkeys d)"
    and "\<And>k. sorted (bucket_events d k) \<and> (\<forall>x \<in> set (bucket_events d k). x \<le> now)"
  shows "table_ok d now"
  unfolding table_ok_def list_all_iff
proof (intro conjI ballI)
  fix p assume "p \<in> set d"
  then have "map_of d (fst p) = Some (snd p)" using in_dict_map_of [OF assms(1), of "fst p" "snd p"] by simp
  then have "bucket_events d (fst p) = snd p" by (simp add: bucket_events_def dget_default_def)
  then show "sorted (snd p)" "\<And>x. x \<in> set (snd p) \<Longrightarrow> x \<le> now"
    using assms(2) [of "fst p"] by auto
qed (rule assms(1))

lemma table_ok_later: "table_ok d t \<Longrightarrow> t \<le> t' \<Longrightarrow> table_ok d t'"
  by (force simp: table_ok_def list_all_iff)

lemma table_ok_dset [intro]:
  "table_ok d now \<Longrightarrow> sorted v \<Longrightarrow> \<forall>x \<in> set v. x \<le> now \<Longrightarrow> table_ok (dset k v d) now"
  by (rule table_okI) (auto simp: table_ok_bucket dest: table_ok_distinct)

lemma table_ok_dset_last [intro]:
  "table_ok d now \<Longrightarrow> sorted v \<Longrightarrow> \<forall>x \<in> set v. x \<le> now \<Longrightarrow> table_ok (dset_last k v d) now"
  by (rule table_okI) (auto simp: table_ok_bucket dest: table_ok_distinct)

lemma table_ok_dpop [intro]: "table_ok d now \<Longrightarrow> table_ok (dpop k d) now"
  by (rule table_okI) (auto simp: table_ok_bucket dest: table_ok_distinct)

lemma table_ok_filter [intro]: "table_ok d now \<Longrightarrow> table_ok (filter P d) now"
  by (auto simp: table_ok_def distinct_dkeys_filter list_all_iff)

lemma table_ok_drop [intro]: "table_ok d now \<Longrightarrow> table_ok (drop n d) now"
  by (auto simp: table_ok_def distinct_dkeys_drop list_all_iff dest: in_set_dropD)

lemma table_ok_pop_oldest [intro]: "table_ok d now \<Longrightarrow> table_ok (pop_oldest m d) now"
  by (simp add: pop_oldest_drop table_ok_drop)

lemma table_ok_purge:
  assumes "table_ok d now"
  shows "table_ok (dset_last k (purge_left c (bucket_events d k)) d) now"
    and "table_ok (dset k (purge_left c (bucket_events d k)) d) now"
proof -
  have "sorted (bucket_events d k)" "\<forall>x \<in> set (bucket_events d k). x \<le> now"
    using table_ok_bucket [OF assms] by auto
  then have "sorted (purge_left c (bucket_events d k))"
    "\<forall>x \<in> set (purge_left c (bucket_events d k)). x \<le> now"
    by (auto simp: purge_left_filter intro: sorted_wrt_filter)
  then show "table_ok (dset_last k (purge_left c (bucket_events d k)) d) now"
    "table_ok (dset k (purge_left c (bucket_events d k)) d) now"
    using assms by (auto intro: table_ok_dset table_ok_dset_last)
qed

lemma table_ok_append:
  assumes "table_ok d now"
  shows "table_ok (dset k (bucket_events d k @ [now]) d) now"
  using assms by (intro table_ok_dset) (auto simp: sorted_append table_ok_bucket)

lemma recent_events_past: "table_ok d now \<Longrightarrow> now \<le> c \<Longrightarrow> recent_events d k c = []"
  by (force simp: recent_events_def filter_empty_conv dest: table_ok_bucket(2))

lemma recent_events_shrinks:
  "c \<le> c' \<Longrightarrow> length (recent_events d k c') \<le> length (recent_events d k c)"
  unfolding recent_events_def by (rule length_filter_mono) simp

text \<open>Dropping buckets whose events have all left the window changes nothing inside it.\<close>

lemma recent_events_filter:
  assumes "distinct (dkeys d)"
    and "\<And>p. p \<in> set d \<Longrightarrow> \<not> P p \<Longrightarrow> filter (\<lambda>t. c < t) (snd p) = []"
  shows "recent_events (filter P d) k c = recent_events d k c"
proof (cases "map_of d k")
  case (Some v)
  then have "(k, v) \<in> set d" by (rule map_of_SomeD)
  then have "\<not> P (k, v) \<Longrightarrow> filter (\<lambda>t. c < t) v = []" using assms(2) by fastforce
  then show ?thesis using Some assms(1)
    by (simp add: recent_events_def bucket_events_def dget_default_def map_of_filter_distinct)
qed (simp add: assms recent_events_def bucket_events_def dget_default_def map_of_filter_distinct)

end
