(* ===== verification/Login_Limiter.thy ===== *)
theory Login_Limiter
  imports Py_Values Window_Limiter
begin

text \<open>
  Login throttling and password checks: \<open>web/login_security.py\<close> and
  \<open>core/password_policy.py\<close>.  An attempt is charged to the bucket of its address and to the
  bucket of its address and user name.  \<open>hashlib.sha256(...).hexdigest()\<close> is the parameter
  \<open>sha\<close>, \<open>bcrypt.checkpw\<close> the parameter \<open>checkpw\<close>; the clock is an argument.  Every operation
  runs under the limiter's lock, so it is one function of the state.
\<close>

subsection \<open>The limiter\<close>

datatype login_decision = LoginRateLimitDecision bool int

primrec login_allowed :: "login_decision \<Rightarrow> bool" where
  "login_allowed (LoginRateLimitDecision a r) = a"

primrec login_retry_after :: "login_decision \<Rightarrow> int" where
  "login_retry_after (LoginRateLimitDecision a r) = r"

record login_limiter =
  window_seconds :: int
  per_ip_attempts :: int
  per_identity_attempts :: int
  max_buckets :: int
  login_events :: "string event_table"

definition login_limiter_init :: "int \<Rightarrow> int \<Rightarrow> int \<Rightarrow> int \<Rightarrow> login_limiter" where
  "login_limiter_init window per_ip per_identity buckets =
     \<lparr> window_seconds = max 1 window, per_ip_attempts = max 1 per_ip,
       per_identity_attempts = max 1 per_identity, max_buckets = max 2 buckets,
       login_events = [] \<rparr>"

definition identity_key :: "(string \<Rightarrow> string) \<Rightarrow> string \<Rightarrow> string \<Rightarrow> string" where
  "identity_key sha address username =
     (let normalized = take 80 (casefold (strip username));
          digest = sha (utf8_encode normalized)
      in ''identity:'' @ address @ '':'' @ digest)"

definition ip_key :: "string \<Rightarrow> string" where
  "ip_key address = ''ip:'' @ address"

definition login_cutoff :: "login_limiter \<Rightarrow> seconds \<Rightarrow> seconds" where
  "login_cutoff s now = now - of_int (window_seconds s)"

definition active_events :: "string \<Rightarrow> seconds \<Rightarrow> login_limiter \<Rightarrow> login_limiter" where
  "active_events key now s =
     s\<lparr>login_events :=
       dset_last key (purge_left (login_cutoff s now) (bucket_events (login_events s) key))
         (login_events s)\<rparr>"

fun evict_front :: "seconds \<Rightarrow> string event_table \<Rightarrow> string event_table" where
  "evict_front cutoff [] = []"
| "evict_front cutoff ((key, events) # d) =
     (if events \<noteq> [] \<and> cutoff < last events then (key, events) # d else evict_front cutoff d)"

definition evict_expired :: "seconds \<Rightarrow> login_limiter \<Rightarrow> login_limiter" where
  "evict_expired now s = s\<lparr>login_events := evict_front (login_cutoff s now) (login_events s)\<rparr>"

definition login_append :: "seconds \<Rightarrow> string \<Rightarrow> login_limiter \<Rightarrow> login_limiter" where
  "login_append now key s =
     s\<lparr>login_events := dset key (bucket_events (login_events s) key @ [now]) (login_events s)\<rparr>"

definition trim_buckets :: "login_limiter \<Rightarrow> login_limiter" where
  "trim_buckets s = s\<lparr>login_events := pop_oldest (nat (max_buckets s)) (login_events s)\<rparr>"

definition consume ::
    "(string \<Rightarrow> string) \<Rightarrow> login_limiter \<Rightarrow> seconds \<Rightarrow> string \<Rightarrow> string \<Rightarrow> login_decision \<times> login_limiter"
  where
  "consume sha s now address username =
     (let keys_and_limits =
            [(ip_key address, per_ip_attempts s),
             (identity_key sha address username, per_identity_attempts s)];
          s1 = fold (\<lambda>kl. active_events (fst kl) now) keys_and_limits (evict_expired now s);
          buckets = map (\<lambda>kl. (bucket_events (login_events s1) (fst kl), snd kl)) keys_and_limits;
          blocked_until =
            map (\<lambda>b. hd (fst b) + of_int (window_seconds s))
              (filter (\<lambda>b. snd b \<le> int (length (fst b))) buckets)
      in if blocked_until \<noteq> []
         then (LoginRateLimitDecision False (max 1 \<lceil>Max (set blocked_until) - now\<rceil>), trim_buckets s1)
         else (LoginRateLimitDecision True 0,
               trim_buckets (fold (\<lambda>kl. login_append now (fst kl)) keys_and_limits s1)))"

definition clear_identity ::
    "(string \<Rightarrow> string) \<Rightarrow> login_limiter \<Rightarrow> string \<Rightarrow> string \<Rightarrow> login_limiter" where
  "clear_identity sha s address username =
     s\<lparr>login_events := dpop (identity_key sha address username) (login_events s)\<rparr>"

subsection \<open>Configuration from the environment\<close>

definition environment_int :: "string option \<Rightarrow> int \<Rightarrow> int \<Rightarrow> int \<Rightarrow> int" where
  "environment_int env dflt minimum maximum =
     (let value = (case env of
                     None \<Rightarrow> dflt
                   | Some s \<Rightarrow> (case parse_int (strip s) of None \<Rightarrow> dflt | Some i \<Rightarrow> i))
      in min (max value minimum) maximum)"

definition get_login_attempt_limiter ::
    "(string \<Rightarrow> string option) \<Rightarrow> login_limiter option \<Rightarrow> login_limiter" where
  "get_login_attempt_limiter environ current =
     (case current of
        Some limiter \<Rightarrow> limiter
      | None \<Rightarrow> login_limiter_init
          (environment_int (environ ''LOGIN_RATE_LIMIT_WINDOW_SECONDS'') 300 10 3600)
          (environment_int (environ ''LOGIN_RATE_LIMIT_IP_ATTEMPTS'') 20 1 1000)
          (environment_int (environ ''LOGIN_RATE_LIMIT_USERNAME_ATTEMPTS'') 5 1 1000)
          10000)"

subsection \<open>Passwords\<close>

definition bcrypt_password_bytes :: "string \<Rightarrow> exn + string" where
  "bcrypt_password_bytes password =
     (let encoded = utf8_encode password
      in if 72 < length encoded
         then Inl (ValueError (''La password non pu'' @ [CHR 0xF2] @ '' superare 72 byte UTF-8.''))
         else Inr encoded)"

definition password_fits_bcrypt :: "string \<Rightarrow> bool" where
  "password_fits_bcrypt password =
     (case bcrypt_password_bytes password of Inl _ \<Rightarrow> False | Inr _ \<Rightarrow> True)"

definition is_public_admin_bootstrap_password :: "string \<Rightarrow> bool" where
  "is_public_admin_bootstrap_password password =
     (casefold (strip password) \<in>
        {''change-this-admin-password'', ''strongpassword'', ''passwordforte'',
         ''inserisci_password_admin_reale''})"

record login_user =
  user_is_active :: bool
  user_password_hash :: "string option"

definition dummy_password :: string where
  "dummy_password = ''octohubs-login-dummy-password''"

definition dummy_password_hash :: string where
  "dummy_password_hash = ''$2b$12$oyRhoXUPOLd3r40DAx0Tg.qTxruvtdsIv17rrsU/Ourr0MnoWBPX2''"

definition active_hash :: "login_user option \<Rightarrow> string option" where
  "active_hash user =
     (case user of
        None \<Rightarrow> None
      | Some u \<Rightarrow>
          if user_is_active u
          then Some (case user_password_hash u of None \<Rightarrow> [] | Some h \<Rightarrow> h)
          else None)"

definition bcrypt_form :: "string \<Rightarrow> bool" where
  "bcrypt_form h =
     (length h = 60 \<and> (startswith ''$2a$'' h \<or> startswith ''$2b$'' h \<or> startswith ''$2y$'' h))"

text \<open>
  The result comes with the list of \<open>bcrypt.checkpw\<close> calls made, oldest first.  A
  \<open>TypeError\<close> or \<open>ValueError\<close> of the first call is answered by a second call on the dummy
  hash, outside any handler.
\<close>

definition login_password_matches ::
    "(string \<Rightarrow> string \<Rightarrow> exn + bool) \<Rightarrow> login_user option \<Rightarrow> string
       \<Rightarrow> (exn + bool) \<times> (string \<times> string) list" where
  "login_password_matches checkpw user password =
     (let (candidate, invalid_length) =
            (case bcrypt_password_bytes password of
               Inr b \<Rightarrow> (b, False) | Inl _ \<Rightarrow> (dummy_password, True));
          active_user = (active_hash user \<noteq> None);
          encoded = utf8_encode (case active_hash user of None \<Rightarrow> [] | Some h \<Rightarrow> h);
          encoded_hash = (if bcrypt_form encoded then encoded else dummy_password_hash);
          active_user = (if bcrypt_form encoded then active_user else False)
      in case checkpw candidate encoded_hash of
           Inr matches \<Rightarrow> (Inr (active_user \<and> \<not> invalid_length \<and> matches), [(candidate, encoded_hash)])
         | Inl e \<Rightarrow>
             if is_TypeError e \<or> is_ValueError e
             then ((case checkpw candidate dummy_password_hash of Inl e' \<Rightarrow> Inl e' | Inr _ \<Rightarrow> Inr False),
                   [(candidate, encoded_hash), (candidate, dummy_password_hash)])
             else (Inl e, [(candidate, encoded_hash)]))"

subsection \<open>One attempt on the table\<close>

lemma keys_differ [simp]: "ip_key a \<noteq> identity_key sha b u"
  by (simp add: ip_key_def identity_key_def Let_def)

lemmas keys_differ' [simp] = keys_differ [symmetric]

definition login_limit :: "login_limiter \<Rightarrow> string \<Rightarrow> int" where
  "login_limit s k = (if startswith ''ip:'' k then per_ip_attempts s else per_identity_attempts s)"

lemma login_limit_keys [simp]:
  "login_limit s (ip_key a) = per_ip_attempts s"
  "login_limit s (identity_key sha a u) = per_identity_attempts s"
  by (simp_all add: login_limit_def ip_key_def identity_key_def startswith_def Let_def)

text \<open>The table after eviction and after both buckets were brought up to date.\<close>

definition begin_table ::
    "seconds \<Rightarrow> string \<Rightarrow> string \<Rightarrow> string event_table \<Rightarrow> string event_table" where
  "begin_table cutoff k1 k2 d =
     (let d1 = evict_front cutoff d;
          d2 = dset_last k1 (purge_left cutoff (bucket_events d1 k1)) d1
      in dset_last k2 (purge_left cutoff (bucket_events d2 k2)) d2)"

definition append_table :: "seconds \<Rightarrow> string \<Rightarrow> string \<Rightarrow> string event_table \<Rightarrow> string event_table" where
  "append_table now k1 k2 d =
     (let d1 = dset k1 (bucket_events d k1 @ [now]) d
      in dset k2 (bucket_events d1 k2 @ [now]) d1)"

lemma evict_front_drop: "\<exists>n. evict_front c d = drop n d"
proof (induction c d rule: evict_front.induct)
  case (2 c key events d)
  show ?case
  proof (cases "events \<noteq> [] \<and> c < last events")
    case False
    with 2 obtain n where "evict_front c d = drop n d" by blast
    with False have "evict_front c ((key, events) # d) = drop (Suc n) ((key, events) # d)"
      by (cases "events = []") auto
    then show ?thesis by blast
  qed (auto intro: exI [of _ 0])
qed simp

lemma table_ok_evict_front [intro]: "table_ok d now \<Longrightarrow> table_ok (evict_front c d) now"
  using evict_front_drop [of c d] by auto

lemma recent_evict_front:
  assumes "table_ok d now" "cutoff \<le> c"
  shows "recent_events (evict_front cutoff d) k c = recent_events d k c"
  using assms
proof (induction cutoff d rule: evict_front.induct)
  case (2 cutoff key events d)
  show ?case
  proof (cases "events \<noteq> [] \<and> cutoff < last events")
    case False
    have ok: "table_ok d now" "sorted events" "key \<notin> fst ` set d"
      using "2.prems"(1) by (auto simp: table_ok_def dkeys_def)
    have old: "filter (\<lambda>t. c < t) events = []"
      using ok(2) False "2.prems"(2) by (intro filter_gt_empty_last) auto
    have none: "map_of d key = None" using ok(3) by (simp add: map_of_eq_None_iff)
    have "recent_events ((key, events) # d) k c = recent_events d k c"
      using old none by (simp add: recent_events_def bucket_events_def dget_default_def)
    then show ?thesis using "2.IH" False ok(1) "2.prems"(2) by simp
  qed simp
qed simp

lemma begin_table_ok:
  assumes "table_ok d now"
  shows "table_ok (begin_table cutoff k1 k2 d) now"
  unfolding begin_table_def Let_def
  by (intro table_ok_purge table_ok_evict_front assms)

lemma begin_table_bucket:
  assumes "table_ok d now" "k1 \<noteq> k2"
  shows "bucket_events (begin_table cutoff k1 k2 d) k =
    (if k = k1 \<or> k = k2 then recent_events d k cutoff
     else bucket_events (evict_front cutoff d) k)"
proof -
  have ok: "table_ok (evict_front cutoff d) now" using assms(1) by (rule table_ok_evict_front)
  have "purge_left cutoff (bucket_events (evict_front cutoff d) j) = recent_events d j cutoff" for j
    using recent_evict_front [OF assms(1) order_refl, of cutoff j]
      purge_left_filter [OF table_ok_bucket(1) [OF ok]] by (simp add: recent_events_def)
  then show ?thesis using assms(2) by (auto simp: begin_table_def Let_def)
qed

lemma begin_table_recent:
  assumes "table_ok d now" "k1 \<noteq> k2" "cutoff \<le> c"
  shows "recent_events (begin_table cutoff k1 k2 d) k c = recent_events d k c"
proof -
  have "recent_events (begin_table cutoff k1 k2 d) k c =
      filter (\<lambda>t. c < t) (if k = k1 \<or> k = k2 then recent_events d k cutoff
        else bucket_events (evict_front cutoff d) k)"
    by (simp add: recent_events_def [of "begin_table cutoff k1 k2 d"] begin_table_bucket [OF assms(1,2)])
  then show ?thesis
    using recent_evict_front [OF assms(1,3), of k] assms(3)
    by (auto simp: recent_events_def filter_gt_filter_gt simp del: filter_filter)
qed

lemma append_table_bucket [simp]:
  "k1 \<noteq> k2 \<Longrightarrow> bucket_events (append_table now k1 k2 d) k =
     bucket_events d k @ (if k = k1 \<or> k = k2 then [now] else [])"
  by (simp add: append_table_def Let_def)

lemma append_table_ok:
  assumes "table_ok d now"
  shows "table_ok (append_table now k1 k2 d) now"
  unfolding append_table_def Let_def by (intro table_ok_append assms)

lemma consume_unfold:
  fixes s :: login_limiter and address username :: string and sha :: "string \<Rightarrow> string" and now :: seconds
  assumes "table_ok (login_events s) now"
  defines "k1 \<equiv> ip_key address" and "k2 \<equiv> identity_key sha address username"
  defines "d \<equiv> begin_table (login_cutoff s now) k1 k2 (login_events s)"
  shows "login_allowed (fst (consume sha s now address username)) \<longleftrightarrow>
      int (length (recent_events (login_events s) k1 (login_cutoff s now))) < per_ip_attempts s \<and>
      int (length (recent_events (login_events s) k2 (login_cutoff s now))) < per_identity_attempts s"
    and "snd (consume sha s now address username) =
      s\<lparr>login_events := pop_oldest (nat (max_buckets s))
         (if login_allowed (fst (consume sha s now address username))
          then append_table now k1 k2 d else d)\<rparr>"
proof -
  have k: "k1 \<noteq> k2" by (simp add: k1_def k2_def)
  note b = begin_table_bucket [OF assms(1) k, of "login_cutoff s now"]
  have s1: "active_events k2 now (active_events k1 now (evict_expired now s)) = s\<lparr>login_events := d\<rparr>"
    by (simp add: d_def begin_table_def active_events_def evict_expired_def login_cutoff_def Let_def)
  have s2: "login_append now k2 (login_append now k1 (s\<lparr>login_events := d\<rparr>))
      = s\<lparr>login_events := append_table now k1 k2 d\<rparr>"
    by (simp add: append_table_def login_append_def Let_def)
  have bk: "bucket_events d k1 = recent_events (login_events s) k1 (login_cutoff s now)"
    "bucket_events d k2 = recent_events (login_events s) k2 (login_cutoff s now)"
    using b by (simp_all add: d_def)
  show "login_allowed (fst (consume sha s now address username)) \<longleftrightarrow>
      int (length (recent_events (login_events s) k1 (login_cutoff s now))) < per_ip_attempts s \<and>
      int (length (recent_events (login_events s) k2 (login_cutoff s now))) < per_identity_attempts s"
    unfolding consume_def Let_def k1_def [symmetric] k2_def [symmetric] by (auto simp: s1 bk)
  show "snd (consume sha s now address username) =
      s\<lparr>login_events := pop_oldest (nat (max_buckets s))
         (if login_allowed (fst (consume sha s now address username))
          then append_table now k1 k2 d else d)\<rparr>"
    unfolding consume_def Let_def k1_def [symmetric] k2_def [symmetric]
    by (auto simp: s1 s2 bk trim_buckets_def)
qed

subsection \<open>Well-formed limiters\<close>

definition login_wf :: "login_limiter \<Rightarrow> seconds \<Rightarrow> bool" where
  "login_wf s now =
     (0 < window_seconds s \<and> 0 < per_ip_attempts s \<and> 0 < per_identity_attempts s \<and>
      2 \<le> max_buckets s \<and> table_ok (login_events s) now \<and>
      list_all (\<lambda>p. int (length (snd p)) \<le> login_limit s (fst p)) (login_events s))"

lemma login_limit_update [simp]: "login_limit (s\<lparr>login_events := d\<rparr>) = login_limit s"
  by (rule ext) (simp add: login_limit_def)

lemma login_wf_init: "login_wf (login_limiter_init w a i m) now"
  by (simp add: login_wf_def login_limiter_init_def less_max_iff_disj)

lemma login_wf_later: "login_wf s t \<Longrightarrow> t \<le> t' \<Longrightarrow> login_wf s t'"
  by (auto simp: login_wf_def intro: table_ok_later)

lemma bucket_limit:
  assumes "login_wf s now"
  shows "int (length (bucket_events (login_events s) k)) \<le> login_limit s k"
proof (cases "map_of (login_events s) k")
  case None
  then have "0 < login_limit s k" using assms by (auto simp: login_wf_def login_limit_def)
  with None show ?thesis by (simp add: bucket_events_def dget_default_def)
next
  case (Some v)
  then have "(k, v) \<in> set (login_events s)" by (rule map_of_SomeD)
  with assms Some show ?thesis
    by (auto simp: login_wf_def list_all_iff bucket_events_def dget_default_def)
qed

lemma bucket_limitI:
  assumes "distinct (dkeys d)" "\<And>k. int (length (bucket_events d k)) \<le> f k"
  shows "list_all (\<lambda>p. int (length (snd p)) \<le> f (fst p)) d"
  unfolding list_all_iff
proof
  fix p assume "p \<in> set d"
  then have "map_of d (fst p) = Some (snd p)"
    using in_dict_map_of [OF assms(1), of "fst p" "snd p"] by simp
  then show "int (length (snd p)) \<le> f (fst p)"
    using assms(2) [of "fst p"] by (simp add: bucket_events_def dget_default_def)
qed

lemma bucket_events_drop:
  assumes "distinct (dkeys d)"
  shows "bucket_events (drop n d) k = bucket_events d k \<or> bucket_events (drop n d) k = []"
proof (cases "map_of (drop n d) k")
  case (Some v)
  then have "(k, v) \<in> set (drop n d)" by (rule map_of_SomeD)
  then have "(k, v) \<in> set d" by (rule in_set_dropD)
  then have "map_of d k = Some v" using in_dict_map_of [OF assms] by simp
  with Some show ?thesis by (simp add: bucket_events_def dget_default_def)
qed (simp add: bucket_events_def dget_default_def)

lemma recent_events_drop_le:
  "distinct (dkeys d) \<Longrightarrow> length (recent_events (drop n d) k c) \<le> length (recent_events d k c)"
  using bucket_events_drop [of d n k] by (auto simp: recent_events_def)

lemma recent_le_bucket: "length (recent_events d k c) \<le> length (bucket_events d k)"
  by (simp add: recent_events_def)

lemma login_wf_consume:
  assumes wf: "login_wf s now"
  shows "login_wf (snd (consume sha s now address username)) now"
proof -
  define k1 k2 where "k1 = ip_key address" and "k2 = identity_key sha address username"
  define d where "d = begin_table (login_cutoff s now) k1 k2 (login_events s)"
  define a where "a = login_allowed (fst (consume sha s now address username))"
  define e where "e = (if a then append_table now k1 k2 d else d)"
  have ok: "table_ok (login_events s) now" using wf by (simp add: login_wf_def)
  have k: "k1 \<noteq> k2" by (simp add: k1_def k2_def)
  note cu = consume_unfold [OF ok, of sha address username, folded k1_def k2_def a_def,
      folded d_def, folded e_def]
  have dok: "table_ok d now" unfolding d_def by (rule begin_table_ok [OF ok])
  then have eok: "table_ok e now" unfolding e_def by (simp add: append_table_ok)
  have dk: "int (length (bucket_events d j)) \<le> login_limit s j" for j
  proof -
    obtain n where n: "evict_front (login_cutoff s now) (login_events s) = drop n (login_events s)"
      using evict_front_drop by blast
    have "length (bucket_events d j) \<le> length (bucket_events (login_events s) j)"
      using begin_table_bucket [OF ok k, of "login_cutoff s now" j] recent_le_bucket
        bucket_events_drop [OF table_ok_distinct [OF ok], of n j] by (auto simp: d_def n)
    then show ?thesis using bucket_limit [OF wf, of j] by linarith
  qed
  have ek: "int (length (bucket_events e j)) \<le> login_limit s j" for j
  proof (cases "a \<and> (j = k1 \<or> j = k2)")
    case True
    then have "bucket_events d j = recent_events (login_events s) j (login_cutoff s now)"
      using begin_table_bucket [OF ok k, of "login_cutoff s now" j] by (simp add: d_def)
    then have "int (length (bucket_events d j)) < login_limit s j"
      using True cu(1) by (auto simp: k1_def k2_def)
    then show ?thesis using True k by (simp add: e_def)
  next
    case False
    then show ?thesis using dk [of j] k by (auto simp: e_def)
  qed
  define f where "f = pop_oldest (nat (max_buckets s)) e"
  have fok: "table_ok f now" unfolding f_def using eok by (rule table_ok_pop_oldest)
  have "int (length (bucket_events f j)) \<le> login_limit s j" for j
    using bucket_events_drop [OF table_ok_distinct [OF eok], of "length e - nat (max_buckets s)" j]
      ek [of j] by (auto simp: f_def pop_oldest_drop)
  then show ?thesis
    using wf fok bucket_limitI [OF table_ok_distinct [OF fok], of "login_limit s"]
    unfolding cu(2) f_def [symmetric] by (simp add: login_wf_def)
qed

lemma login_wf_clear: "login_wf s now \<Longrightarrow> login_wf (clear_identity sha s a u) now"
proof -
  assume wf: "login_wf s now"
  then have ok: "table_ok (dpop (identity_key sha a u) (login_events s)) now"
    by (auto simp: login_wf_def)
  have "int (length (bucket_events (dpop (identity_key sha a u) (login_events s)) k)) \<le> login_limit s k" for k
    using bucket_limit [OF wf, of k] wf by (auto simp: login_wf_def)
  then show ?thesis
    using wf ok bucket_limitI [OF table_ok_distinct [OF ok], of "login_limit s"]
    by (simp add: login_wf_def clear_identity_def)
qed

subsection \<open>The window contract\<close>

definition login_attempt ::
    "(string \<Rightarrow> string) \<Rightarrow> login_limiter \<Rightarrow> seconds \<Rightarrow> string \<times> string \<Rightarrow> bool \<times> login_limiter" where
  "login_attempt sha s now r =
     (login_allowed (fst (consume sha s now (fst r) (snd r))), snd (consume sha s now (fst r) (snd r)))"

definition login_charged :: "(string \<Rightarrow> string) \<Rightarrow> string \<times> string \<Rightarrow> string list" where
  "login_charged sha r = [ip_key (fst r), identity_key sha (fst r) (snd r)]"

text \<open>
  \<open>U\<close> is the set of buckets a run touches: while it has at most \<open>max_buckets\<close> elements no
  bucket with a live event is dropped.
\<close>

definition login_ok :: "string set \<Rightarrow> int \<Rightarrow> (string \<Rightarrow> nat) \<Rightarrow> login_limiter \<Rightarrow> seconds \<Rightarrow> bool" where
  "login_ok U w lims s now =
     (login_wf s now \<and> set (dkeys (login_events s)) \<subseteq> U \<and> finite U \<and> int (card U) \<le> max_buckets s \<and>
      window_seconds s = w \<and> (\<lambda>k. nat (login_limit s k)) = lims)"

lemma dkeys_drop: "set (dkeys (drop n d)) \<subseteq> set (dkeys d)"
  using set_drop_subset [of n d] by (auto simp: set_dkeys_fst simp del: set_dkeys)

lemma dkeys_begin_table: "set (dkeys (begin_table c k1 k2 d)) \<subseteq> insert k1 (insert k2 (set (dkeys d)))"
  using evict_front_drop [of c d] dkeys_drop [of _ d]
  by (auto simp: begin_table_def Let_def simp flip: set_dkeys) (auto split: if_splits)

lemma dkeys_append_table: "set (dkeys (append_table now k1 k2 d)) \<subseteq> insert k1 (insert k2 (set (dkeys d)))"
  by (auto simp: append_table_def Let_def)

lemma login_attempt_fits:
  assumes ok: "login_ok U w lims s now" and legal: "set (login_charged sha r) \<subseteq> U"
  defines "k1 \<equiv> ip_key (fst r)" and "k2 \<equiv> identity_key sha (fst r) (snd r)"
  defines "d \<equiv> begin_table (login_cutoff s now) k1 k2 (login_events s)"
  shows "login_events (snd (login_attempt sha s now r)) =
      (if fst (login_attempt sha s now r) then append_table now k1 k2 d else d)"
    and "login_ok U w lims (snd (login_attempt sha s now r)) now"
proof -
  have wf: "login_wf s now" using ok by (simp add: login_ok_def)
  then have tok: "table_ok (login_events s) now" by (simp add: login_wf_def)
  note cu = consume_unfold [OF tok, of sha "fst r" "snd r", folded k1_def k2_def, folded d_def]
  define e where "e = (if fst (login_attempt sha s now r) then append_table now k1 k2 d else d)"
  have "k1 \<in> U" "k2 \<in> U" "set (dkeys (login_events s)) \<subseteq> U"
    using ok legal by (simp_all add: k1_def k2_def login_ok_def login_charged_def)
  then have "set (dkeys d) \<subseteq> U" "set (dkeys (append_table now k1 k2 d)) \<subseteq> U"
    using dkeys_append_table [of now k1 k2 d] dkeys_begin_table [of "login_cutoff s now" k1 k2 "login_events s"]
    unfolding d_def by blast+
  then have sub: "set (dkeys e) \<subseteq> U" by (simp add: e_def)
  have "table_ok e now"
    using begin_table_ok [OF tok] append_table_ok [OF begin_table_ok [OF tok]] by (simp add: e_def d_def)
  then have "distinct (dkeys e)" by (rule table_ok_distinct)
  then have "length e \<le> card U" using sub ok by (intro dict_card_bound) (auto simp: login_ok_def)
  then have "length e \<le> nat (max_buckets s)" using ok by (auto simp: login_ok_def)
  then have e: "snd (login_attempt sha s now r) = s\<lparr>login_events := e\<rparr>"
    using cu(2) by (simp add: login_attempt_def e_def)
  then show "login_events (snd (login_attempt sha s now r)) =
      (if fst (login_attempt sha s now r) then append_table now k1 k2 d else d)"
    by (simp add: e_def)
  have "login_wf (snd (login_attempt sha s now r)) now"
    unfolding login_attempt_def using login_wf_consume [OF wf] by simp
  then show "login_ok U w lims (snd (login_attempt sha s now r)) now"
    using e sub ok by (auto simp: login_ok_def)
qed

text \<open>
  What \<open>POST /login\<close> does to the limiter: an attempt, and after a right password the
  clearing of its identity.  Other requests may come between the two.
\<close>

datatype login_call = Login_Attempt string string | Login_Accepted string string

primrec login_call_step ::
    "(string \<Rightarrow> string) \<Rightarrow> login_limiter \<Rightarrow> seconds \<Rightarrow> login_call \<Rightarrow> bool \<times> login_limiter" where
  "login_call_step sha s now (Login_Attempt a u) = login_attempt sha s now (a, u)"
| "login_call_step sha s now (Login_Accepted a u) = (False, clear_identity sha s a u)"

primrec call_charged :: "(string \<Rightarrow> string) \<Rightarrow> login_call \<Rightarrow> string list" where
  "call_charged sha (Login_Attempt a u) = login_charged sha (a, u)"
| "call_charged sha (Login_Accepted a u) = []"

primrec clears_key :: "(string \<Rightarrow> string) \<Rightarrow> string \<Rightarrow> login_call \<Rightarrow> bool" where
  "clears_key sha k (Login_Attempt a u) = False"
| "clears_key sha k (Login_Accepted a u) = (identity_key sha a u = k)"

definition after_calls :: "(string \<Rightarrow> string) \<Rightarrow> login_limiter \<Rightarrow> (seconds \<times> login_call) list \<Rightarrow> login_limiter" where
  "after_calls sha s tr = foldl (\<lambda>s p. snd (login_call_step sha s (fst p) (snd p))) s tr"

lemma login_clear_fits: "login_ok U w lims s now \<Longrightarrow> login_ok U w lims (clear_identity sha s a u) now"
proof -
  assume ok: "login_ok U w lims s now"
  have "login_limit (clear_identity sha s a u) = login_limit s" by (simp add: clear_identity_def)
  moreover have "set (dkeys (login_events (clear_identity sha s a u))) \<subseteq> set (dkeys (login_events s))"
    by (auto simp: clear_identity_def)
  ultimately show ?thesis
    using ok login_wf_clear [of s now sha a u] by (auto simp: login_ok_def) (auto simp: clear_identity_def)
qed

lemma login_call_fits:
  assumes "login_ok U w lims s now" "set (call_charged sha r) \<subseteq> U"
  shows "login_ok U w lims (snd (login_call_step sha s now r)) now"
  using assms login_attempt_fits(2) login_clear_fits by (cases r) simp_all

text \<open>The contract of one bucket \<open>b\<close>, over calls that do not clear it.\<close>

interpretation login: window_log "login_call_step sha"
    "\<lambda>s k c. if k = b then recent_events (login_events s) k c else []"
    "\<lambda>r. filter (\<lambda>k. k = b) (call_charged sha r)" lims "of_int w"
    "\<lambda>r. set (call_charged sha r) \<subseteq> U \<and> \<not> clears_key sha b r" "login_ok U w lims"
  for sha lims w U b
proof (unfold_locales, goal_cases)
  case (1 s t t')
  then show ?case by (auto simp: login_ok_def intro: login_wf_later)
next
  case (2 s now r)
  then show ?case by (simp add: login_call_fits)
next
  case (3 s now r k)
  then obtain a u where r: "r = Login_Attempt a u" by (cases r) auto
  from 3 have tok: "table_ok (login_events s) now" and w: "window_seconds s = w"
    and lims: "lims = (\<lambda>k. nat (login_limit s k))"
    by (auto simp: login_ok_def login_wf_def)
  have lims': "lims (ip_key a) = nat (per_ip_attempts s)"
    "lims (identity_key sha a u) = nat (per_identity_attempts s)"
    using lims by simp_all
  from 3(4) have k: "k = b" "k = ip_key a \<or> k = identity_key sha a u"
    by (auto simp: r login_charged_def split: if_splits)
  with 3(3) consume_unfold(1) [OF tok, of sha a u] show ?case
    by (auto simp: r login_attempt_def login_cutoff_def w lims')
next
  case (4 s now r c k)
  then have tok: "table_ok (login_events s) now" and w: "window_seconds s = w"
    by (auto simp: login_ok_def login_wf_def)
  have c: "login_cutoff s now \<le> c" using 4(3) w by (simp add: login_cutoff_def)
  show ?case
  proof (cases r)
    case (Login_Accepted a u)
    then show ?thesis using 4(2) by (auto simp: clear_identity_def recent_events_def)
  next
    case (Login_Attempt a u)
    define d where "d = begin_table (login_cutoff s now) (ip_key a) (identity_key sha a u) (login_events s)"
    have "recent_events d k c = recent_events (login_events s) k c"
      unfolding d_def using begin_table_recent [OF tok _ c] by simp
    moreover have "recent_events (append_table now (ip_key a) (identity_key sha a u) d) k c =
        recent_events d k c @ (if k \<in> set (login_charged sha (a, u)) then [now] else [])"
      using 4(4) by (simp add: recent_events_def login_charged_def)
    moreover have "login_events (snd (login_attempt sha s now (a, u))) =
        (if fst (login_attempt sha s now (a, u)) then append_table now (ip_key a) (identity_key sha a u) d else d)"
      using login_attempt_fits(1) [OF 4(1), of sha "(a, u)"] 4(2) by (simp add: Login_Attempt d_def)
    ultimately show ?thesis by (cases "k = b") (simp_all add: Login_Attempt)
  qed
next
  case (5 c c' s k)
  then show ?case by (simp add: recent_events_shrinks)
next
  case (6 s now c k)
  then show ?case by (auto simp: login_ok_def login_wf_def intro: recent_events_past)
qed

lemma after_calls_ok:
  assumes "login_ok U w lims s t" "sorted (t # map fst tr)" "\<forall>p \<in> set tr. set (call_charged sha (snd p)) \<subseteq> U"
  shows "login_ok U w lims (after_calls sha s tr) (last (t # map fst tr))"
  using assms
proof (induction tr arbitrary: s t)
  case (Cons p tr)
  have "login_ok U w lims s (fst p)"
    using Cons.prems(1,2) by (auto simp: login_ok_def intro: login_wf_later)
  then have "login_ok U w lims (snd (login_call_step sha s (fst p) (snd p))) (fst p)"
    using Cons.prems(3) by (intro login_call_fits) auto
  from Cons.IH [OF this] Cons.prems show ?case by (simp add: after_calls_def)
qed (simp add: after_calls_def)

subsection \<open>Properties\<close>

lemma login_ok_init:
  "finite U \<Longrightarrow> int (card U) \<le> max 2 m \<Longrightarrow>
   login_ok U (max 1 w) (\<lambda>k. nat (login_limit (login_limiter_init w a i m) k)) (login_limiter_init w a i m) t"
  using login_wf_init [of w a i m t]
  by (simp add: login_ok_def login_limiter_init_def)

lemma admitted_in_one_bucket:
  "k = b \<Longrightarrow> admitted_in (\<lambda>r. filter (\<lambda>k. k = b) (charged r)) k c w adm = admitted_in charged k c w adm"
  by (simp add: admitted_in_def conj_commute)

lemma login_bucket_bound:
  assumes srt: "sorted (map fst (pre @ post))"
    and small: "int (card (\<Union>p \<in> set (pre @ post). set (call_charged sha (snd p)))) \<le> max 2 m"
    and kept: "\<forall>p \<in> set post. \<not> clears_key sha b (snd p)"
  shows "admitted_in (call_charged sha) b c (of_int (max 1 w))
           (admissions (login_call_step sha) (after_calls sha (login_limiter_init w a i m) pre) post)
         \<le> nat (login_limit (login_limiter_init w a i m) b)"
proof -
  define U where "U = (\<Union>p \<in> set (pre @ post). set (call_charged sha (snd p)))"
  define s where "s = login_limiter_init w a i m"
  define s' where "s' = after_calls sha s pre"
  define t where "t = (case pre @ post of [] \<Rightarrow> 0 | p # _ \<Rightarrow> fst p)"
  define lims where "lims = (\<lambda>k. nat (login_limit s k))"
  have ok: "login_ok U (max 1 w) lims s t"
    unfolding s_def lims_def using small by (intro login_ok_init) (auto simp only: U_def finite_UN finite_set List.finite_set ball_triv)
  have srt': "sorted (t # map fst (pre @ post))" using srt by (cases "pre @ post") (auto simp: t_def)
  have legal: "\<forall>p \<in> set (pre @ post). set (call_charged sha (snd p)) \<subseteq> U" by (auto simp: U_def)
  have ok': "login_ok U (max 1 w) lims s' (last (t # map fst pre))"
    unfolding s'_def using ok srt' legal by (intro after_calls_ok) (auto simp: sorted_append)
  have srt_post: "sorted (last (t # map fst pre) # map fst post)"
    using srt' by (cases pre rule: rev_cases) (auto simp: sorted_append)
  have "length (recent_events (login_events s') b c) \<le> lims b"
  proof -
    have "int (length (bucket_events (login_events s') b)) \<le> login_limit s' b"
      using bucket_limit ok' by (auto simp: login_ok_def)
    moreover have "lims b = nat (login_limit s' b)" using ok' by (auto simp: login_ok_def)
    ultimately show ?thesis using recent_le_bucket [of "login_events s'" b c] by linarith
  qed
  then show ?thesis
    using login.window_bound_from [OF ok' srt_post, of sha b b c] legal kept
    by (simp add: admitted_in_one_bucket s'_def lims_def s_def)
qed

text \<open>
  C31: No client address is admitted more than \<open>per_ip_attempts\<close> times in any window of
  \<open>window_seconds\<close>, whatever the sequence of attempts and of successful logins, as long as the
  run touches at most \<open>max_buckets\<close> buckets.
\<close>

theorem login_window_bound:
  assumes "sorted (map fst tr)"
    and "int (card (\<Union>p \<in> set tr. set (call_charged sha (snd p)))) \<le> max 2 m"
  shows "admitted_in (call_charged sha) (ip_key address) c (of_int (max 1 w))
           (admissions (login_call_step sha) (login_limiter_init w a i m) tr) \<le> nat (max 1 a)"
proof -
  have "\<not> clears_key sha (ip_key address) r" for r by (cases r) simp_all
  then show ?thesis
    using login_bucket_bound [of "[]" tr sha m "ip_key address" c w a i] assms
    by (simp add: after_calls_def login_limiter_init_def)
qed

text \<open>
  C32: No user name is admitted more than \<open>per_identity_attempts\<close> times from one client address in any
  window of \<open>window_seconds\<close>, counted since the last successful login of that name from that address.  A
  login clears the bucket, so that the name has its attempts again; another address has a bucket of
  its own.
\<close>

theorem login_identity_bound:
  assumes "sorted (map fst (pre @ post))"
    and "int (card (\<Union>p \<in> set (pre @ post). set (call_charged sha (snd p)))) \<le> max 2 m"
    and "\<forall>p \<in> set post. \<not> clears_key sha (identity_key sha address username) (snd p)"
  shows "admitted_in (call_charged sha) (identity_key sha address username) c (of_int (max 1 w))
           (admissions (login_call_step sha) (after_calls sha (login_limiter_init w a i m) pre) post) \<le> nat (max 1 i)"
  using login_bucket_bound [OF assms, of c w a i] by (simp add: login_limiter_init_def)

definition sample_calls :: "(seconds \<times> login_call) list" where
  "sample_calls = [(0, Login_Attempt ''10.0.0.1'' ''bob''), (0, Login_Accepted ''10.0.0.1'' ''bob''),
     (1, Login_Attempt ''10.0.0.1'' ''eve''), (2, Login_Attempt ''10.0.0.1'' ''bob'')]"

lemma sample_calls_small: "card (\<Union>p \<in> set sample_calls. set (call_charged id (snd p))) \<le> 3"
  by (simp add: sample_calls_def login_charged_def card_insert_if)

theorem login_window_bound_witness:
  "admitted_in (call_charged id) (ip_key ''10.0.0.1'') (- 1) 300
     (admissions (login_call_step id) (login_limiter_init 300 2 1 10) sample_calls) \<le> 2"
proof -
  have "sorted (map fst sample_calls)" by (simp add: sample_calls_def)
  then show ?thesis
    using login_window_bound [of sample_calls id 10 "''10.0.0.1''" "- 1" 300 2 1] sample_calls_small by simp
qed

theorem login_identity_bound_witness:
  "admitted_in (call_charged id) (identity_key id ''10.0.0.1'' ''bob'') (- 1) 300
     (admissions (login_call_step id) (after_calls id (login_limiter_init 300 20 1 10) (take 2 sample_calls)) (drop 2 sample_calls)) \<le> 1"
proof -
  have "sorted (map fst (take 2 sample_calls @ drop 2 sample_calls))"
    "\<forall>p \<in> set (drop 2 sample_calls). \<not> clears_key id (identity_key id ''10.0.0.1'' ''bob'') (snd p)"
    by (simp_all add: sample_calls_def)
  then show ?thesis
    using login_identity_bound [of "take 2 sample_calls" "drop 2 sample_calls" id 10 "''10.0.0.1''" "''bob''" "- 1" 300 20 1]
      sample_calls_small by simp
qed

text \<open>
  After any attempt the table has at most \<open>max_buckets\<close> buckets: the memory the limiter uses
  for unauthenticated traffic is bounded.
\<close>

theorem login_table_bounded:
  "int (length (login_events (snd (consume sha s now address username)))) \<le> max 0 (max_buckets s)"
proof -
  have "\<exists>e. login_events (snd (consume sha s now address username)) = pop_oldest (nat (max_buckets s)) e"
    by (auto simp: consume_def Let_def trim_buckets_def login_append_def active_events_def evict_expired_def)
  then obtain e where
    "login_events (snd (consume sha s now address username)) = pop_oldest (nat (max_buckets s)) e" by blast
  then show ?thesis using length_pop_oldest [of "nat (max_buckets s)" e] by simp
qed

text \<open>The two buckets of an attempt are the newest ones, so trimming keeps them.\<close>

lemma begin_table_tail:
  assumes "table_ok d now" "k1 \<noteq> k2"
  obtains y where "begin_table cutoff k1 k2 d =
      y @ [(k1, recent_events d k1 cutoff), (k2, recent_events d k2 cutoff)]"
    "k1 \<notin> fst ` set y" "k2 \<notin> fst ` set y"
proof -
  define d1 where "d1 = evict_front cutoff d"
  define a where "a = purge_left cutoff (bucket_events d1 k1)"
  define b where "b = purge_left cutoff (bucket_events (dset_last k1 a d1) k2)"
  define y where "y = dpop k2 (dpop k1 d1)"
  have "begin_table cutoff k1 k2 d = dset_last k2 b (dset_last k1 a d1)"
    by (simp add: begin_table_def Let_def d1_def a_def b_def)
  also have "\<dots> = y @ [(k1, a), (k2, b)]"
    using assms(2) by (simp add: dset_last_def dpop_def y_def AList.delete_eq)
  finally have tab: "begin_table cutoff k1 k2 d = y @ [(k1, a), (k2, b)]" .
  have y: "k1 \<notin> fst ` set y" "k2 \<notin> fst ` set y"
    by (auto simp: y_def dpop_def AList.delete_eq)
  have none: "map_of y k1 = None" "map_of y k2 = None" using y by (simp_all add: map_of_eq_None_iff)
  have "bucket_events (y @ [(k1, a), (k2, b)]) k1 = a" "bucket_events (y @ [(k1, a), (k2, b)]) k2 = b"
    using none assms(2)
    by (simp_all add: bucket_events_def dget_default_def map_of_append map_add_def)
  then have "a = recent_events d k1 cutoff" "b = recent_events d k2 cutoff"
    using begin_table_bucket [OF assms, of cutoff k1] begin_table_bucket [OF assms, of cutoff k2] tab
    by simp_all
  with tab y show ?thesis by (intro that [of y]) auto
qed

lemma trim_keeps_attempt:
  assumes "table_ok d now" "k1 \<noteq> k2" "2 \<le> m" "k = k1 \<or> k = k2"
  shows "bucket_events (pop_oldest m (begin_table cutoff k1 k2 d)) k = recent_events d k cutoff"
proof -
  obtain y where y: "begin_table cutoff k1 k2 d =
      y @ [(k1, recent_events d k1 cutoff), (k2, recent_events d k2 cutoff)]"
    "k1 \<notin> fst ` set y" "k2 \<notin> fst ` set y"
    using begin_table_tail [OF assms(1,2)] .
  obtain n where n: "pop_oldest m (begin_table cutoff k1 k2 d) =
      drop n y @ [(k1, recent_events d k1 cutoff), (k2, recent_events d k2 cutoff)]"
    using assms(3) by (intro that [of "Suc (Suc (length y)) - m"]) (simp add: pop_oldest_drop y(1))
  have "map_of (drop n y) k1 = None" "map_of (drop n y) k2 = None"
    using y(2,3) by (auto simp: map_of_eq_None_iff dest: in_set_dropD)
  then show ?thesis using assms(2,4)
    by (auto simp: n bucket_events_def dget_default_def map_of_append map_add_def)
qed

text \<open>A refused attempt leaves the two buckets as they are inside the window.\<close>

lemma refused_state:
  assumes wf: "login_wf s now" and "\<not> login_allowed (fst (consume sha s now address username))"
    and "k = ip_key address \<or> k = identity_key sha address username" "login_cutoff s now \<le> c"
  shows "recent_events (login_events (snd (consume sha s now address username))) k c =
      recent_events (login_events s) k c"
proof -
  have tok: "table_ok (login_events s) now" "2 \<le> nat (max_buckets s)"
    using wf by (auto simp: login_wf_def)
  show ?thesis
    using trim_keeps_attempt [OF tok(1) keys_differ tok(2) assms(3), of "login_cutoff s now"] assms(2,4)
    by (simp add: consume_unfold(2) [OF tok(1)] recent_events_def filter_gt_filter_gt del: filter_filter)
qed

lemma consume_fields [simp]:
  "window_seconds (snd (consume sha s now a u)) = window_seconds s"
  "per_ip_attempts (snd (consume sha s now a u)) = per_ip_attempts s"
  "per_identity_attempts (snd (consume sha s now a u)) = per_identity_attempts s"
  by (simp_all add: consume_def Let_def trim_buckets_def login_append_def active_events_def evict_expired_def)

lemma hd_filter_gt_drops:
  fixes xs :: "seconds list"
  assumes "xs \<noteq> []" "hd xs \<le> c"
  shows "length (filter (\<lambda>t. c < t) xs) < length xs"
  using assms by (cases xs) (auto simp: le_imp_less_Suc)

lemma sorted_filter_all:
  fixes xs :: "seconds list"
  assumes "sorted xs" "xs \<noteq> []" "c < hd xs"
  shows "filter (\<lambda>t. c < t) xs = xs"
  using assms by (cases xs) (auto simp: filter_id_conv)

text \<open>The instant from which the refused attempt can succeed.\<close>

definition blocked_until ::
    "(string \<Rightarrow> string) \<Rightarrow> login_limiter \<Rightarrow> seconds \<Rightarrow> string \<Rightarrow> string \<Rightarrow> seconds list" where
  "blocked_until sha s now address username =
     map (\<lambda>k. hd (recent_events (login_events s) k (login_cutoff s now)) + of_int (window_seconds s))
       (filter (\<lambda>k. login_limit s k \<le> int (length (recent_events (login_events s) k (login_cutoff s now))))
          [ip_key address, identity_key sha address username])"

lemma consume_refused:
  assumes "table_ok (login_events s) now"
  shows "fst (consume sha s now address username) =
    (if blocked_until sha s now address username = [] then LoginRateLimitDecision True 0
     else LoginRateLimitDecision False
       (max 1 \<lceil>Max (set (blocked_until sha s now address username)) - now\<rceil>))"
proof -
  define k1 k2 where "k1 = ip_key address" and "k2 = identity_key sha address username"
  have k: "k1 \<noteq> k2" by (simp add: k1_def k2_def)
  have s1: "active_events k2 now (active_events k1 now (evict_expired now s)) =
      s\<lparr>login_events := begin_table (login_cutoff s now) k1 k2 (login_events s)\<rparr>"
    by (simp add: begin_table_def active_events_def evict_expired_def login_cutoff_def Let_def)
  have lims: "login_limit s k1 = per_ip_attempts s" "login_limit s k2 = per_identity_attempts s"
    by (simp_all add: k1_def k2_def)
  have "fst (consume sha s now address username) =
    (let b = map (\<lambda>k. hd (recent_events (login_events s) k (login_cutoff s now)) + of_int (window_seconds s))
       (filter (\<lambda>k. login_limit s k \<le> int (length (recent_events (login_events s) k (login_cutoff s now))))
          [k1, k2])
     in if b \<noteq> [] then LoginRateLimitDecision False (max 1 \<lceil>Max (set b) - now\<rceil>)
        else LoginRateLimitDecision True 0)"
    unfolding consume_def Let_def k1_def [symmetric] k2_def [symmetric]
    by (simp add: s1 lims begin_table_bucket [OF assms k])
  then show ?thesis by (auto simp: blocked_until_def k1_def k2_def Let_def)
qed

lemma allowed_iff_unblocked:
  assumes "table_ok (login_events s) now"
  shows "login_allowed (fst (consume sha s now address username)) \<longleftrightarrow>
    blocked_until sha s now address username = []"
  using consume_refused [OF assms] by simp

text \<open>
  Within a bucket that is full at \<open>now\<close>: from the end of the block on it has room, before it
  has none.
\<close>

lemma full_bucket_later:
  assumes wf: "login_wf s now" and "now \<le> t"
    and full: "login_limit s k \<le> int (length (recent_events (login_events s) k (login_cutoff s now)))"
  shows "login_limit s k \<le> int (length (recent_events (login_events s) k (login_cutoff s t))) \<longleftrightarrow>
    t < hd (recent_events (login_events s) k (login_cutoff s now)) + of_int (window_seconds s)"
proof -
  define r where "r = recent_events (login_events s) k (login_cutoff s now)"
  have pos: "0 < login_limit s k" using wf by (auto simp: login_wf_def login_limit_def)
  then have r: "r \<noteq> []" using full by (auto simp: r_def)
  have len: "int (length r) \<le> login_limit s k"
    using bucket_limit [OF wf, of k] recent_le_bucket [of "login_events s" k "login_cutoff s now"]
    by (simp add: r_def)
  have le: "login_cutoff s now \<le> login_cutoff s t" using assms(2) by (simp add: login_cutoff_def)
  have later: "recent_events (login_events s) k (login_cutoff s t) = filter (\<lambda>x. login_cutoff s t < x) r"
    using le by (simp add: r_def recent_events_def filter_gt_filter_gt del: filter_filter)
  have srt: "sorted r"
    using wf by (auto simp: r_def recent_events_def login_wf_def intro: sorted_wrt_filter table_ok_bucket(1))
  show ?thesis
  proof (cases "hd r \<le> login_cutoff s t")
    case True
    then show ?thesis
      using hd_filter_gt_drops [OF r True] len unfolding later r_def [symmetric]
      by (auto simp: login_cutoff_def)
  next
    case False
    then show ?thesis
      using sorted_filter_all [OF srt r, of "login_cutoff s t"] full unfolding later r_def [symmetric]
      by (auto simp: login_cutoff_def)
  qed
qed

lemma refused_until:
  assumes wf: "login_wf s now" and "now \<le> t"
    and refused: "blocked_until sha s now address username \<noteq> []"
  defines "s' \<equiv> snd (consume sha s now address username)"
  shows "login_allowed (fst (consume sha s' t address username)) \<longleftrightarrow>
    Max (set (blocked_until sha s now address username)) \<le> t"
proof -
  have tok: "table_ok (login_events s) now" using wf by (simp add: login_wf_def)
  have no: "\<not> login_allowed (fst (consume sha s now address username))"
    using refused allowed_iff_unblocked [OF tok] by blast
  have wf': "login_wf s' t" using login_wf_later [OF login_wf_consume [OF wf] assms(2)] by (simp add: s'_def)
  then have tok': "table_ok (login_events s') t" by (simp add: login_wf_def)
  have cut: "login_cutoff s' t = login_cutoff s t" "login_limit s' = login_limit s"
    by (auto simp: login_cutoff_def s'_def login_limit_def)
  have le: "login_cutoff s now \<le> login_cutoff s t" using assms(2) by (simp add: login_cutoff_def)
  have rec: "recent_events (login_events s') k (login_cutoff s t) = recent_events (login_events s) k (login_cutoff s t)"
    if "k = ip_key address \<or> k = identity_key sha address username" for k
    unfolding s'_def by (rule refused_state [OF wf no that le])
  let ?full = "\<lambda>u k. login_limit s k \<le> int (length (recent_events (login_events s) k (login_cutoff s u)))"
  let ?expiry = "\<lambda>k. hd (recent_events (login_events s) k (login_cutoff s now)) + of_int (window_seconds s)"
  have full: "?full t k \<longleftrightarrow> ?full now k \<and> t < ?expiry k" for k
  proof (cases "?full now k")
    case False
    have "length (recent_events (login_events s) k (login_cutoff s t)) \<le>
        length (recent_events (login_events s) k (login_cutoff s now))"
      by (rule recent_events_shrinks [OF le])
    with False show ?thesis by auto
  qed (simp add: full_bucket_later [OF wf assms(2)])
  have "login_allowed (fst (consume sha s' t address username)) \<longleftrightarrow>
      \<not> ?full t (ip_key address) \<and> \<not> ?full t (identity_key sha address username)"
    unfolding allowed_iff_unblocked [OF tok'] by (simp add: blocked_until_def cut rec)
  also have "\<dots> \<longleftrightarrow> (\<forall>b \<in> set (blocked_until sha s now address username). b \<le> t)"
    unfolding full by (auto simp: blocked_until_def not_less)
  also have "\<dots> \<longleftrightarrow> Max (set (blocked_until sha s now address username)) \<le> t"
    using refused by simp
  finally show ?thesis .
qed

text \<open>The states a process can bring its limiter to, with the instant of the last operation.\<close>

inductive login_reachable :: "(string \<Rightarrow> string) \<Rightarrow> login_limiter \<Rightarrow> seconds \<Rightarrow> bool" for sha where
  created: "login_reachable sha (login_limiter_init w a i m) now"
| attempted: "login_reachable sha s t \<Longrightarrow> t \<le> now \<Longrightarrow>
    login_reachable sha (snd (consume sha s now address username)) now"
| cleared: "login_reachable sha s t \<Longrightarrow> t \<le> now \<Longrightarrow>
    login_reachable sha (clear_identity sha s address username) now"

lemma login_reachable_wf: "login_reachable sha s now \<Longrightarrow> login_wf s now"
  by (induction rule: login_reachable.induct)
    (auto intro: login_wf_init login_wf_consume login_wf_clear login_wf_later)

lemma blocked_until_future:
  assumes "table_ok (login_events s) now" "0 < per_ip_attempts s" "0 < per_identity_attempts s"
    and "b \<in> set (blocked_until sha s now address username)"
  shows "now < b"
proof -
  obtain k where k: "b = hd (recent_events (login_events s) k (login_cutoff s now)) + of_int (window_seconds s)"
    "login_limit s k \<le> int (length (recent_events (login_events s) k (login_cutoff s now)))"
    using assms(4) unfolding blocked_until_def set_map set_filter by blast
  have "0 < login_limit s k" using assms(2,3) by (auto simp: login_limit_def)
  then have "recent_events (login_events s) k (login_cutoff s now) \<noteq> []" using k(2) by auto
  then have "hd (recent_events (login_events s) k (login_cutoff s now)) \<in>
      set (recent_events (login_events s) k (login_cutoff s now))" by simp
  then have "login_cutoff s now < hd (recent_events (login_events s) k (login_cutoff s now))"
    by (simp add: recent_events_def)
  then show ?thesis by (simp add: k(1) login_cutoff_def)
qed

text \<open>
  A refused attempt is told how many whole seconds to wait: with no other attempt in between,
  the same attempt is admitted from \<open>retry_after_seconds\<close> later on, and it is still refused up
  to one second earlier, so the wait is neither too short nor more than a second too long.
\<close>

theorem login_retry_after:
  assumes "login_reachable sha s t0" "t0 \<le> now"
    and "consume sha s now address username = (LoginRateLimitDecision False r, s')"
  shows "1 \<le> r \<and>
    (now + of_int r \<le> t \<longrightarrow> login_allowed (fst (consume sha s' t address username))) \<and>
    (now \<le> t \<and> t \<le> now + of_int r - 1 \<longrightarrow> \<not> login_allowed (fst (consume sha s' t address username)))"
proof -
  have wf: "login_wf s now" using login_wf_later [OF login_reachable_wf] assms(1,2) by blast
  then have tok: "table_ok (login_events s) now"
    and pos: "0 < per_ip_attempts s" "0 < per_identity_attempts s" by (auto simp: login_wf_def)
  define b where "b = blocked_until sha s now address username"
  have b: "b \<noteq> []" and r: "r = max 1 \<lceil>Max (set b) - now\<rceil>"
    using consume_refused [OF tok, of sha address username] assms(3) by (auto simp: b_def split: if_splits)
  have "Max (set b) \<in> set b" using b by simp
  then have "now < Max (set b)" unfolding b_def by (rule blocked_until_future [OF tok pos])
  then have "r = \<lceil>Max (set b) - now\<rceil>" unfolding r by simp
  then have bounds: "of_int r - 1 < Max (set b) - now" "Max (set b) - now \<le> of_int r" by linarith+
  have allowed: "login_allowed (fst (consume sha s' t address username)) \<longleftrightarrow> Max (set b) \<le> t" if "now \<le> t"
    using refused_until [OF wf that b [unfolded b_def]] assms(3) by (simp add: b_def)
  have "1 \<le> r" unfolding r by simp
  then have "(1 :: rat) \<le> of_int r" by simp
  then show ?thesis using allowed bounds \<open>1 \<le> r\<close> by auto
qed

theorem login_retry_after_witness:
  "let s = snd (consume (\<lambda>_. []) (login_limiter_init 10 1 1 2) 0 ''a'' []);
       s' = snd (consume (\<lambda>_. []) s 4 ''a'' [])
   in login_allowed (fst (consume (\<lambda>_. []) s' 10 ''a'' [])) \<and>
      \<not> login_allowed (fst (consume (\<lambda>_. []) s' 9 ''a'' []))"
proof -
  define s where "s = snd (consume (\<lambda>_. []) (login_limiter_init 10 1 1 2) 0 ''a'' [])"
  define s' where "s' = snd (consume (\<lambda>_. []) s 4 ''a'' [])"
  have reach: "login_reachable (\<lambda>_. []) s 0"
    unfolding s_def by (rule login_reachable.attempted [OF login_reachable.created order_refl])
  have refused: "consume (\<lambda>_. []) s 4 ''a'' [] = (LoginRateLimitDecision False 6, s')"
    unfolding s_def s'_def by code_simp
  show ?thesis
    using login_retry_after [OF reach _ refused, of 10] login_retry_after [OF reach _ refused, of 9]
    by (simp add: s_def s'_def Let_def)
qed

text \<open>
  Clearing a user name after a successful login forgets that bucket and nothing else: the
  events of the address, and of every other user name with another digest, keep counting.
\<close>

theorem clear_identity_narrow:
  "bucket_events (login_events (clear_identity sha s address username)) k =
     (if k = identity_key sha address username then [] else bucket_events (login_events s) k) \<and>
   bucket_events (login_events (clear_identity sha s address username)) (ip_key other) =
     bucket_events (login_events s) (ip_key other)"
  by (simp add: clear_identity_def)

text \<open>
  A login succeeds exactly for an active account whose stored hash is a well-formed bcrypt
  hash that the backend accepts for the whole password.
\<close>

theorem login_accepts_iff:
  "fst (login_password_matches checkpw user password) = Inr True \<longleftrightarrow>
     (\<exists>u h. user = Some u \<and> user_is_active u \<and> user_password_hash u = Some h \<and>
        bcrypt_form (utf8_encode h) \<and> utf8_len password \<le> 72 \<and>
        checkpw (utf8_encode password) (utf8_encode h) = Inr True)"
proof -
  define h where "h = utf8_encode (case active_hash user of None \<Rightarrow> [] | Some h \<Rightarrow> h)"
  have "fst (login_password_matches checkpw user password) = Inr True \<longleftrightarrow>
      bcrypt_form h \<and> active_hash user \<noteq> None \<and> utf8_len password \<le> 72 \<and>
      checkpw (utf8_encode password) h = Inr True"
    by (cases "bcrypt_form h"; cases "utf8_len password \<le> 72")
      (auto simp: login_password_matches_def h_def [symmetric] bcrypt_password_bytes_def Let_def
        split: sum.splits)
  moreover have "bcrypt_form [] = False" by (simp add: bcrypt_form_def)
  ultimately show ?thesis
    by (auto simp: h_def active_hash_def utf8_encode_def [of "[]"] split: option.splits if_splits)
qed

text \<open>
  Whatever the account, a login performs exactly one bcrypt check, on a hash of bcrypt form,
  when the backend raises nothing: unknown, inactive and malformed accounts cost the same call.
\<close>

theorem login_constant_work:
  assumes "\<And>c h. \<exists>b. checkpw c h = Inr b"
  shows "\<exists>c h. snd (login_password_matches checkpw user password) = [(c, h)] \<and> bcrypt_form h \<and>
    c = (if utf8_len password \<le> 72 then utf8_encode password else dummy_password)"
proof -
  have dummy: "bcrypt_form dummy_password_hash"
    by (simp add: bcrypt_form_def dummy_password_hash_def startswith_def)
  obtain f where f: "checkpw c h = Inr (f c h)" for c h using assms by metis
  show ?thesis
    using dummy
    by (simp add: login_password_matches_def bcrypt_password_bytes_def f Let_def)
qed

theorem login_constant_work_witness:
  "\<exists>c h. snd (login_password_matches (\<lambda>c h. Inr (c = h)) None ''secret'') = [(c, h)] \<and> bcrypt_form h"
  using login_constant_work [of "\<lambda>c h. Inr (c = h)" None "''secret''"] by auto

end
