(* ===== verification/Api_Token_Limiter.thy ===== *)
theory Api_Token_Limiter
  imports Py_Values Window_Limiter "HOL-Library.Multiset"
begin

text \<open>
  The in-process quotas of \<open>web/api_token_rate_limit.py\<close>: one for authenticated API tokens,
  keyed by token id, one for Bearer verification attempts, keyed by client address.  The state
  is the event table; the environment variable, read at every call, and the clock are arguments.
\<close>

subsection \<open>Operations\<close>

definition configured_limit :: "string option \<Rightarrow> int \<Rightarrow> int \<Rightarrow> int \<Rightarrow> int" where
  "configured_limit env dflt minimum maximum =
     (let limit = (case env of
                     None \<Rightarrow> dflt
                   | Some s \<Rightarrow> (case parse_int s of None \<Rightarrow> dflt | Some i \<Rightarrow> i))
      in max minimum (min limit maximum))"

definition token_limit :: "string option \<Rightarrow> int" where
  "token_limit env = configured_limit env 600 60 10000"

definition pre_auth_limit :: "string option \<Rightarrow> int" where
  "pre_auth_limit env = configured_limit env 120 10 2000"

definition retry_seconds :: "seconds \<Rightarrow> seconds list \<Rightarrow> int" where
  "retry_seconds now events = max 1 (py_trunc (60 - (now - hd events)))"

definition pop_all :: "'k list \<Rightarrow> ('k, 'v) dict \<Rightarrow> ('k, 'v) dict" where
  "pop_all ks d = fold dpop ks d"

definition stale_keys :: "seconds \<Rightarrow> 'k event_table \<Rightarrow> 'k list" where
  "stale_keys cutoff d = map fst (filter (\<lambda>p. snd p = [] \<or> last (snd p) \<le> cutoff) d)"

definition prune_tokens :: "seconds \<Rightarrow> int event_table \<Rightarrow> int event_table" where
  "prune_tokens cutoff d =
     (if 10000 < length d
      then let d1 = pop_all (stale_keys cutoff d) d;
               overflow = length d1 - 10000;
               oldest_ids = take overflow (sort_key (\<lambda>k. last (bucket_events d1 k)) (dkeys d1))
           in if 0 < overflow then pop_all oldest_ids d1 else d1
      else d)"

definition token_consume ::
    "string option \<Rightarrow> int event_table \<Rightarrow> seconds \<Rightarrow> int \<Rightarrow> (bool \<times> int) \<times> int event_table" where
  "token_consume env d now token_id =
     (let limit = token_limit env;
          cutoff = now - 60;
          events = purge_left cutoff (bucket_events d token_id);
          d1 = dset token_id events d
      in if limit \<le> int (length events) then ((False, retry_seconds now events), d1)
         else ((True, 0), prune_tokens cutoff (dset token_id (events @ [now]) d1)))"

definition prune_addresses :: "seconds \<Rightarrow> string event_table \<Rightarrow> string event_table" where
  "prune_addresses cutoff d =
     (if 10000 < length d then pop_oldest 10000 (pop_all (stale_keys cutoff d) d) else d)"

definition pre_auth_consume ::
    "string option \<Rightarrow> string event_table \<Rightarrow> seconds \<Rightarrow> string \<Rightarrow> (bool \<times> int) \<times> string event_table" where
  "pre_auth_consume env d now client_address =
     (let limit = pre_auth_limit env;
          cutoff = now - 60;
          key = (if client_address = [] then ''unknown'' else client_address);
          events = purge_left cutoff (bucket_events d key);
          d1 = dset_last key events d
      in if limit \<le> int (length events) then ((False, retry_seconds now events), d1)
         else ((True, 0), prune_addresses cutoff (dset key (events @ [now]) d1)))"

subsection \<open>Limits and pruning\<close>

lemma configured_limit_bounds:
  "minimum \<le> maximum \<Longrightarrow> minimum \<le> configured_limit env dflt minimum maximum"
  "minimum \<le> maximum \<Longrightarrow> configured_limit env dflt minimum maximum \<le> maximum"
  by (auto simp: configured_limit_def Let_def)

lemma limit_positive: "60 \<le> token_limit env" "10 \<le> pre_auth_limit env"
  by (auto simp: token_limit_def pre_auth_limit_def configured_limit_bounds)

lemma pop_all_filter: "pop_all ks d = filter (\<lambda>p. fst p \<notin> set ks) d"
proof (induction ks arbitrary: d)
  case (Cons k ks)
  have "dpop k d = filter (\<lambda>p. fst p \<noteq> k) d"
    by (simp add: dpop_def AList.delete_eq split_def eq_commute)
  then show ?case using Cons by (simp add: pop_all_def)
qed (simp add: pop_all_def)

lemma length_pop_all_take:
  assumes "distinct (dkeys d)" "mset ks = mset (dkeys d)"
  shows "length (pop_all (take n ks) d) = length d - n"
proof -
  have "distinct ks" using assms mset_eq_imp_distinct_iff by metis
  have sub: "set (take n ks) \<subseteq> set (dkeys d)"
    using assms(2) set_take_subset [of n ks] by (metis mset_eq_setD)
  have "length (filter (\<lambda>p. fst p \<in> set (take n ks)) d) = length (filter (\<lambda>k. k \<in> set (take n ks)) (dkeys d))"
    by (simp add: dkeys_def filter_map comp_def)
  also have "\<dots> = card (set (take n ks))"
    using assms(1) sub distinct_card [of "filter (\<lambda>k. k \<in> set (take n ks)) (dkeys d)"]
    by (simp del: set_dkeys) (metis Collect_conj_eq Collect_mem_eq inf.absorb2)
  also have "\<dots> = min n (length d)"
    using \<open>distinct ks\<close> assms(2) by (simp add: distinct_card) (metis length_dkeys min.commute size_mset)
  finally have "length (filter (\<lambda>p. fst p \<in> set (take n ks)) d) = min n (length d)" .
  then show ?thesis
    using sum_length_filter_compl [of "\<lambda>p. fst p \<in> set (take n ks)" d] by (simp add: pop_all_filter)
qed

lemma length_prune_tokens:
  assumes "distinct (dkeys d)"
  shows "length (prune_tokens cutoff d) \<le> 10000"
proof -
  have "distinct (dkeys (pop_all (stale_keys cutoff d) d))"
    by (simp add: pop_all_filter distinct_dkeys_filter assms)
  from length_pop_all_take [OF this] show ?thesis
    by (auto simp: prune_tokens_def Let_def)
qed

lemma length_prune_addresses: "length (prune_addresses cutoff d) \<le> 10000"
  by (simp add: prune_addresses_def length_pop_oldest)

lemma table_ok_pop_all [intro]: "table_ok d now \<Longrightarrow> table_ok (pop_all ks d) now"
  by (auto simp: pop_all_filter)

lemma table_ok_prune [intro]:
  "table_ok d now \<Longrightarrow> table_ok (prune_tokens cutoff d) now"
  "table_ok e now \<Longrightarrow> table_ok (prune_addresses cutoff e) now"
  by (auto simp: prune_tokens_def prune_addresses_def Let_def)

text \<open>One call against a bucket, for both tables: admission by the number of recent events.\<close>

lemma purge_recent: "table_ok d now \<Longrightarrow> purge_left c (bucket_events d k) = recent_events d k c"
  by (simp add: purge_left_filter table_ok_bucket recent_events_def)

lemma token_consume_cases:
  assumes "table_ok d now"
  shows "token_consume env d now k =
    (if token_limit env \<le> int (length (recent_events d k (now - 60)))
     then ((False, retry_seconds now (recent_events d k (now - 60))), dset k (recent_events d k (now - 60)) d)
     else ((True, 0), prune_tokens (now - 60) (dset k (recent_events d k (now - 60) @ [now]) d)))"
  by (simp add: token_consume_def Let_def purge_recent [OF assms] dset_def)

definition address_key :: "string \<Rightarrow> string" where
  "address_key a = (if a = [] then ''unknown'' else a)"

lemma pre_auth_consume_cases:
  assumes "table_ok d now"
  shows "pre_auth_consume env d now a =
    (let r = recent_events d (address_key a) (now - 60)
     in if pre_auth_limit env \<le> int (length r)
     then ((False, retry_seconds now r), dset_last (address_key a) r d)
     else ((True, 0), prune_addresses (now - 60) (dset_last (address_key a) (r @ [now]) d)))"
proof -
  have "dset k v' (dset_last k v e) = dset_last k v' e" for k :: string and v v' :: "seconds list" and e
  proof -
    have "k \<notin> fst ` set e' \<Longrightarrow> AList.update k v' (e' @ [(k, v)]) = e' @ [(k, v')]"
      for e' :: "string event_table"
      by (induction e') auto
    moreover have "k \<notin> fst ` set (dpop k e)" by (auto simp: dpop_def AList.delete_eq)
    ultimately show ?thesis by (simp add: dset_def dset_last_def)
  qed
  then show ?thesis
    by (simp add: pre_auth_consume_def Let_def address_key_def [symmetric] purge_recent [OF assms])
qed

subsection \<open>The window contract\<close>

text \<open>A request is the value of the environment variable at the call with the token or address.\<close>

definition token_attempt ::
    "int event_table \<Rightarrow> seconds \<Rightarrow> string option \<times> int \<Rightarrow> bool \<times> int event_table" where
  "token_attempt d now r = (let res = token_consume (fst r) d now (snd r) in (fst (fst res), snd res))"

definition pre_auth_attempt ::
    "string event_table \<Rightarrow> seconds \<Rightarrow> string option \<times> string \<Rightarrow> bool \<times> string event_table" where
  "pre_auth_attempt d now r =
     (let res = pre_auth_consume (fst r) d now (snd r) in (fst (fst res), snd res))"

definition fits_in :: "'k set \<Rightarrow> 'k event_table \<Rightarrow> seconds \<Rightarrow> bool" where
  "fits_in U d now = (table_ok d now \<and> set (dkeys d) \<subseteq> U \<and> finite U \<and> card U \<le> 10000)"

lemma fits_in_length:
  assumes "fits_in U d now" "k \<in> U"
  shows "length (dset k v d) \<le> 10000" "length (dset_last k v d) \<le> 10000"
proof -
  have "distinct (dkeys d)" "set (dkeys d) \<subseteq> U" "finite U" "card U \<le> 10000"
    using assms(1) by (auto simp: fits_in_def dest: table_ok_distinct)
  then show "length (dset k v d) \<le> 10000" "length (dset_last k v d) \<le> 10000"
    using dict_card_bound [of "dset k v d" U] dict_card_bound [of "dset_last k v d" U] assms(2)
    by auto
qed

lemma fits_in_later: "fits_in U d t \<Longrightarrow> t \<le> t' \<Longrightarrow> fits_in U d t'"
  by (auto simp: fits_in_def intro: table_ok_later)

lemma fits_in_dset:
  "fits_in U d now \<Longrightarrow> k \<in> U \<Longrightarrow> sorted v \<Longrightarrow> \<forall>x \<in> set v. x \<le> now \<Longrightarrow> fits_in U (dset k v d) now"
  "fits_in U d now \<Longrightarrow> k \<in> U \<Longrightarrow> sorted v \<Longrightarrow> \<forall>x \<in> set v. x \<le> now \<Longrightarrow> fits_in U (dset_last k v d) now"
  by (auto simp: fits_in_def)

lemma recent_sorted:
  assumes "table_ok d now"
  shows "sorted (recent_events d k c)" "\<forall>x \<in> set (recent_events d k c). x \<le> now"
    "sorted (recent_events d k c @ [now])" "\<forall>x \<in> set (recent_events d k c @ [now]). x \<le> now"
  using table_ok_bucket [OF assms]
  by (auto simp: recent_events_def sorted_append intro: sorted_wrt_filter)

lemma prune_small [simp]:
  "length d \<le> 10000 \<Longrightarrow> prune_tokens c d = d"
  "length e \<le> 10000 \<Longrightarrow> prune_addresses c e = e"
  by (simp_all add: prune_tokens_def prune_addresses_def)

lemma token_attempt_fits:
  assumes "fits_in U d now" "snd r \<in> U"
  shows "token_attempt d now r =
    (let old = recent_events d (snd r) (now - 60);
         allowed = (int (length old) < token_limit (fst r))
     in (allowed, dset (snd r) (old @ (if allowed then [now] else [])) d))"
proof -
  have tok: "table_ok d now" using assms(1) by (simp add: fits_in_def)
  show ?thesis
    using fits_in_length [OF assms]
    by (simp add: token_attempt_def token_consume_cases [OF tok] Let_def)
qed

lemma pre_auth_attempt_fits:
  assumes "fits_in U d now" "address_key (snd r) \<in> U"
  shows "pre_auth_attempt d now r =
    (let old = recent_events d (address_key (snd r)) (now - 60);
         allowed = (int (length old) < pre_auth_limit (fst r))
     in (allowed, dset_last (address_key (snd r)) (old @ (if allowed then [now] else [])) d))"
proof -
  have tok: "table_ok d now" using assms(1) by (simp add: fits_in_def)
  show ?thesis
    using fits_in_length [OF assms]
    by (simp add: pre_auth_attempt_def pre_auth_consume_cases [OF tok] Let_def)
qed

interpretation token: window_log token_attempt recent_events "\<lambda>r. [snd r]" "\<lambda>k. l" 60
    "\<lambda>r. token_limit (fst r) \<le> int l \<and> snd r \<in> U" "fits_in U" for l U
proof (unfold_locales, goal_cases)
  case (1 s t t')
  then show ?case by (rule fits_in_later)
next
  case (2 s now r)
  then have "table_ok s now" by (simp add: fits_in_def)
  then show ?case
    using 2 by (auto simp: token_attempt_fits [of U] Let_def intro!: fits_in_dset recent_sorted)
next
  case (3 s now r k)
  then show ?case by (auto simp: token_attempt_fits [of U] Let_def)
next
  case (4 s now r c k)
  then show ?case
    by (auto simp: token_attempt_fits [of U] Let_def)
      (auto simp: recent_events_def filter_gt_filter_gt simp del: filter_filter)
next
  case (5 c c' s k)
  then show ?case by (rule recent_events_shrinks)
next
  case (6 s now c k)
  then show ?case by (auto simp: fits_in_def intro: recent_events_past)
qed

interpretation pre_auth: window_log pre_auth_attempt recent_events "\<lambda>r. [address_key (snd r)]" "\<lambda>k. l" 60
    "\<lambda>r. pre_auth_limit (fst r) \<le> int l \<and> address_key (snd r) \<in> U" "fits_in U" for l U
proof (unfold_locales, goal_cases)
  case (1 s t t')
  then show ?case by (rule fits_in_later)
next
  case (2 s now r)
  then have "table_ok s now" by (simp add: fits_in_def)
  then show ?case
    using 2 by (auto simp: pre_auth_attempt_fits [of U] Let_def intro!: fits_in_dset recent_sorted)
next
  case (3 s now r k)
  then show ?case by (auto simp: pre_auth_attempt_fits [of U] Let_def)
next
  case (4 s now r c k)
  then show ?case
    by (auto simp: pre_auth_attempt_fits [of U] Let_def)
      (auto simp: recent_events_def filter_gt_filter_gt simp del: filter_filter)
next
  case (5 c c' s k)
  then show ?case by (rule recent_events_shrinks)
next
  case (6 s now c k)
  then show ?case by (auto simp: fits_in_def intro: recent_events_past)
qed

subsection \<open>Properties\<close>

lemma fits_in_Nil: "finite U \<Longrightarrow> card U \<le> 10000 \<Longrightarrow> fits_in U [] t"
  by (simp add: fits_in_def dkeys_def)

lemma trace_start: "sorted (map fst tr) \<Longrightarrow> \<exists>t. sorted (t # map fst tr)"
  by (cases tr) auto

text \<open>
  As long as at most 10000 tokens call, no token is admitted more than \<open>l\<close> times in any 60
  seconds, for every \<open>l\<close> the configured limit never exceeds during the run.
\<close>

theorem token_window_bound:
  assumes "sorted (map fst tr)"
    and "\<forall>p \<in> set tr. token_limit (fst (snd p)) \<le> int l"
    and "card ((\<lambda>p. snd (snd p)) ` set tr) \<le> 10000"
  shows "admitted_in (\<lambda>r. [snd r]) token_id c 60 (admissions token_attempt [] tr) \<le> l"
proof -
  define U where "U = (\<lambda>p. snd (snd p)) ` set tr"
  obtain t where t: "sorted (t # map fst tr)" using trace_start [OF assms(1)] by blast
  have "fits_in U [] t" using assms(3) by (intro fits_in_Nil) (auto simp: U_def)
  then show ?thesis
    using assms(2) by (intro token.window_bound [where U = U and l = l, OF _ t]) (auto simp: U_def)
qed

theorem token_window_bound_witness:
  "admitted_in (\<lambda>r. [snd r]) 7 0 60
     (admissions token_attempt [] [(1, Some ''5'', 7), (2, Some ''60'', 7), (30, Some ''1'', 8)]) \<le> 60"
proof -
  have "token_limit (Some ''5'') = 60" "token_limit (Some ''60'') = 60" "token_limit (Some ''1'') = 60"
    by code_simp+
  then show ?thesis
    using token_window_bound [of "[(1, Some ''5'', 7), (2, Some ''60'', 7), (30, Some ''1'', 8)]" 60 7 0]
    by (simp add: card_insert_if)
qed

text \<open>
  As long as at most 10000 addresses call, no client address passes the check that precedes
  token verification more than \<open>l\<close> times in any 60 seconds; an absent address counts as
  \<open>unknown\<close>.
\<close>

theorem pre_auth_window_bound:
  assumes "sorted (map fst tr)"
    and "\<forall>p \<in> set tr. pre_auth_limit (fst (snd p)) \<le> int l"
    and "card ((\<lambda>p. address_key (snd (snd p))) ` set tr) \<le> 10000"
  shows "admitted_in (\<lambda>r. [address_key (snd r)]) key c 60 (admissions pre_auth_attempt [] tr) \<le> l"
proof -
  define U where "U = (\<lambda>p. address_key (snd (snd p))) ` set tr"
  obtain t where t: "sorted (t # map fst tr)" using trace_start [OF assms(1)] by blast
  have "fits_in U [] t" using assms(3) by (intro fits_in_Nil) (auto simp: U_def)
  then show ?thesis
    using assms(2) by (intro pre_auth.window_bound [where U = U and l = l, OF _ t]) (auto simp: U_def)
qed

theorem pre_auth_window_bound_witness:
  "admitted_in (\<lambda>r. [address_key (snd r)]) ''unknown'' 0 60
     (admissions pre_auth_attempt [] [(1, Some ''x'', []), (2, None, ''unknown'')]) \<le> 120"
proof -
  have "pre_auth_limit (Some ''x'') = 120" "pre_auth_limit None = 120" by code_simp+
  then show ?thesis
    using pre_auth_window_bound [of "[(1, Some ''x'', []), (2, None, ''unknown'')]" 120 "''unknown''" 0]
    by (simp add: card_insert_if)
qed

text \<open>
  Both tables keep at most 10000 buckets after an admitted call, whatever they held before.
\<close>

theorem quota_tables_bounded:
  assumes "distinct (dkeys d)"
  shows "(fst (fst (token_consume env d now token_id)) \<longrightarrow>
      length (snd (token_consume env d now token_id)) \<le> 10000) \<and>
    (fst (fst (pre_auth_consume env e now address)) \<longrightarrow>
      length (snd (pre_auth_consume env e now address)) \<le> 10000)"
  using assms
  by (simp add: token_consume_def pre_auth_consume_def Let_def length_prune_tokens length_prune_addresses)

theorem quota_tables_bounded_witness:
  "length (snd (token_consume None [(1, [0])] 1 2)) \<le> 10000"
proof -
  have "fst (fst (token_consume None [(1, [0])] 1 2))" by code_simp
  then show ?thesis using quota_tables_bounded [of "[(1, [0])]" None 1 2] by (simp add: dkeys_def)
qed

lemma full_recent:
  fixes d :: "'k event_table"
  assumes ok: "table_ok d now" and le: "int (length (recent_events d k (now - 60))) \<le> limit"
    and full: "limit \<le> int (length (recent_events d k (now - 60)))" "0 < limit"
    and r: "r = retry_seconds now (recent_events d k (now - 60))" and t: "now + of_int r + 1 \<le> t"
  shows "1 \<le> r \<and> r \<le> 60 \<and> int (length (recent_events d k (t - 60))) < limit"
proof -
  define ev where "ev = recent_events d k (now - 60)"
  have ev: "ev \<noteq> []" using full by (auto simp: ev_def)
  have hd: "now - 60 < hd ev" "hd ev \<le> now"
    using hd_in_set [OF ev] recent_sorted(2) [OF ok, of k "now - 60"]
    by (auto simp: ev_def recent_events_def)
  have "r = max 1 \<lfloor>60 - (now - hd ev)\<rfloor>"
    using hd by (simp add: r retry_seconds_def py_trunc_def ev_def [symmetric])
  moreover have "\<lfloor>60 - (now - hd ev)\<rfloor> \<le> 60" using hd by linarith
  moreover have "60 - (now - hd ev) < of_int \<lfloor>60 - (now - hd ev)\<rfloor> + 1" by linarith
  ultimately have r: "1 \<le> r" "r \<le> 60" "60 - (now - hd ev) < of_int r + 1" by linarith+
  then have "hd ev \<le> t - 60" using t by linarith
  then have "length (filter (\<lambda>x. t - 60 < x) ev) < length ev"
    using ev by (cases ev) (auto simp: le_imp_less_Suc)
  moreover have "filter (\<lambda>x. t - 60 < x) ev = recent_events d k (t - 60)"
  proof -
    have "now - 60 \<le> t - 60" using r(1) t by (simp add: order_trans [OF _ t])
    then show ?thesis by (simp add: ev_def recent_events_def filter_gt_filter_gt del: filter_filter)
  qed
  ultimately show ?thesis using le r by (simp add: ev_def)
qed

text \<open>
  A refused token learns a wait of 1 to 60 seconds; one second after it, with no call in
  between and the limit not lowered, the token is admitted.
\<close>

theorem token_retry_after:
  assumes "table_ok d now" "int (length (recent_events d token_id (now - 60))) \<le> token_limit env"
    and "token_consume env d now token_id = ((False, r), d')" and "now + of_int r + 1 \<le> t"
  shows "1 \<le> r \<and> r \<le> 60 \<and> fst (fst (token_consume env d' t token_id))"
proof -
  have full: "token_limit env \<le> int (length (recent_events d token_id (now - 60)))"
    and r: "r = retry_seconds now (recent_events d token_id (now - 60))"
    and d': "d' = dset token_id (recent_events d token_id (now - 60)) d"
    using assms(3) by (auto simp: token_consume_cases [OF assms(1)] split: if_splits)
  have *: "1 \<le> r \<and> r \<le> 60 \<and> int (length (recent_events d token_id (t - 60))) < token_limit env"
    using full_recent [OF assms(1,2) full _ r assms(4)] limit_positive(1) [of env] by linarith
  then have "(1 :: rat) \<le> of_int r" by simp
  then have "now \<le> t" using assms(4) by linarith
  have ok: "table_ok d' t"
    unfolding d' using \<open>now \<le> t\<close> recent_sorted [OF assms(1)]
    by (intro table_ok_later [OF table_ok_dset [OF assms(1)]]) auto
  have "recent_events d' token_id (t - 60) = recent_events d token_id (t - 60)"
    using \<open>now \<le> t\<close> by (simp add: d' recent_events_def filter_gt_filter_gt del: filter_filter)
  with * show ?thesis by (simp add: token_consume_cases [OF ok])
qed

theorem token_retry_after_witness:
  "fst (fst (token_consume None [(7, replicate 600 0)] 61 7))"
proof -
  define d where "d = [(7::int, replicate 600 (0::seconds))]"
  have l: "token_limit None = 600" by code_simp
  have ok: "table_ok d (1 / 2)"
    by (simp add: d_def table_ok_def dkeys_def list_all_iff sorted_replicate)
  have rec: "recent_events d 7 (1 / 2 - 60) = replicate 600 0"
    by (simp add: d_def recent_events_def bucket_events_def dget_default_def)
  have "retry_seconds (1 / 2) (replicate 600 0) = 59"
    by (simp add: retry_seconds_def py_trunc_def floor_eq_iff)
  then have "token_consume None d (1 / 2) 7 = ((False, 59), d)"
    using rec by (simp add: token_consume_cases [OF ok] l) (simp add: d_def dset_def)
  moreover have "int (length (recent_events d 7 (1 / 2 - 60))) \<le> token_limit None"
    unfolding rec l by simp
  ultimately show ?thesis
    using token_retry_after [OF ok, of 7 None 59 d 61] by (simp add: d_def)
qed

lemma sixty_calls:
  "n \<le> 60 \<Longrightarrow> 0 < n \<Longrightarrow> ((\<lambda>d. snd (token_consume (Some ''60'') d 0 7)) ^^ n) [] = [(7, replicate n 0)]"
proof (induction n)
  case (Suc n)
  have l: "token_limit (Some ''60'') = 60" by code_simp
  have ok: "table_ok [(7::int, replicate n (0::seconds))] 0"
    by (simp add: table_ok_def dkeys_def list_all_iff sorted_replicate)
  have rec: "recent_events [(7::int, replicate n (0::seconds))] 7 (- 60) = replicate n 0"
    by (simp add: recent_events_def bucket_events_def dget_default_def)
  show ?case
  proof (cases "n = 0")
    case True
    then show ?thesis by (simp add: token_consume_cases l dset_def prune_tokens_def)
  next
    case False
    then have "((\<lambda>d. snd (token_consume (Some ''60'') d 0 7)) ^^ n) [] = [(7, replicate n 0)]"
      using Suc by simp
    then show ?thesis
      using Suc.prems
      by (simp add: token_consume_cases [OF ok] rec l dset_def prune_tokens_def replicate_append_same)
  qed
qed simp

text \<open>
  The wait a token is told can be too short by a fraction of a second, because the remaining
  time is truncated: after 60 calls at instant 0 a call at 0.5 is told to wait 59 seconds, and a
  call made exactly then is refused again.
\<close>

theorem token_retry_truncated:
  "let d = ((\<lambda>d. snd (token_consume (Some ''60'') d 0 7)) ^^ 60) [];
       first = token_consume (Some ''60'') d (1 / 2) 7
   in fst first = (False, 59) \<and>
      fst (token_consume (Some ''60'') (snd first) (1 / 2 + 59) 7) = (False, 1)"
proof -
  define d where "d = [(7::int, replicate 60 (0::seconds))]"
  have l: "token_limit (Some ''60'') = 60" by code_simp
  have ok: "table_ok d t" if "0 \<le> t" for t
    using that by (simp add: d_def table_ok_def dkeys_def list_all_iff sorted_replicate)
  have rec: "recent_events d 7 c = replicate 60 0" if "c < 0" for c
    using that by (simp add: d_def recent_events_def bucket_events_def dget_default_def)
  have retry: "retry_seconds (1 / 2) (replicate 60 0) = 59" "retry_seconds (1 / 2 + 59) (replicate 60 0) = 1"
    by (simp_all add: retry_seconds_def py_trunc_def floor_eq_iff)
  have same: "dset 7 (replicate 60 (0::seconds)) d = d" by (simp add: d_def dset_def)
  have "token_consume (Some ''60'') d (1 / 2) 7 = ((False, 59), d)"
    using retry(1) by (simp add: token_consume_cases [OF ok] rec l same)
  moreover have "fst (token_consume (Some ''60'') d (1 / 2 + 59) 7) = (False, 1)"
    using retry(2) by (simp add: token_consume_cases [OF ok] rec l)
  ultimately show ?thesis using sixty_calls [of 60] by (simp add: d_def Let_def)
qed

end
