(* ===== verification/Token_Bucket.thy ===== *)
theory Token_Bucket
  imports Window_Limiter
begin

text \<open>
  The contract of a token bucket.  \<open>level s k t\<close> is what bucket \<open>k\<close> would hold at instant \<open>t\<close> if
  nothing happened until then; \<open>cost r k\<close> is what request \<open>r\<close> takes from it.  From the laws of
  one call the locale proves the conformance bound: what is admitted between two instants costs
  at most the burst plus the rate times the elapsed time.
\<close>

fun state_after :: "('s \<Rightarrow> seconds \<Rightarrow> 'r \<Rightarrow> bool \<times> 's) \<Rightarrow> 's \<Rightarrow> (seconds \<times> 'r) list \<Rightarrow> 's" where
  "state_after attempt s [] = s"
| "state_after attempt s ((now, r) # tr) = state_after attempt (snd (attempt s now r)) tr"

definition admitted_cost :: "('r \<Rightarrow> 'k \<Rightarrow> rat) \<Rightarrow> 'k \<Rightarrow> (seconds \<times> 'r) list \<Rightarrow> rat" where
  "admitted_cost cost k adm = sum_list (map (\<lambda>p. cost (snd p) k) adm)"

lemma admitted_cost_simps [simp]:
  "admitted_cost cost k [] = 0"
  "admitted_cost cost k (p # adm) = cost (snd p) k + admitted_cost cost k adm"
  by (simp_all add: admitted_cost_def)

locale token_bucket =
  fixes attempt :: "'s \<Rightarrow> seconds \<Rightarrow> 'r \<Rightarrow> bool \<times> 's"
    and level :: "'s \<Rightarrow> 'k \<Rightarrow> seconds \<Rightarrow> rat"
    and cost :: "'r \<Rightarrow> 'k \<Rightarrow> rat"
    and burst rate :: "'k \<Rightarrow> rat"
    and legal :: "'r \<Rightarrow> bool"
    and ok :: "'s \<Rightarrow> seconds \<Rightarrow> bool"
  assumes ok_later: "ok s t \<Longrightarrow> t \<le> t' \<Longrightarrow> ok s t'"
    and ok_attempt: "ok s now \<Longrightarrow> legal r \<Longrightarrow> ok (snd (attempt s now r)) now"
    and level_nonneg: "ok s now \<Longrightarrow> 0 \<le> level s k now"
    and level_burst: "ok s now \<Longrightarrow> level s k now \<le> burst k"
    and level_grows: "ok s now \<Longrightarrow> now \<le> t \<Longrightarrow> level s k t \<le> level s k now + rate k * (t - now)"
    and level_attempt: "ok s now \<Longrightarrow> legal r \<Longrightarrow>
          level (snd (attempt s now r)) k now = level s k now - (if fst (attempt s now r) then cost r k else 0)"
begin

lemma ok_after:
  assumes "ok s t" "sorted (t # map fst tr)" "\<forall>p \<in> set tr. legal (snd p)"
    and "t \<le> t'" "\<forall>p \<in> set tr. fst p \<le> t'"
  shows "ok (state_after attempt s tr) t'"
  using assms
proof (induction tr arbitrary: s t)
  case (Cons p tr)
  obtain now r where p: "p = (now, r)" by (cases p)
  have "ok s now" using Cons.prems p by (auto intro: ok_later)
  then have "ok (snd (attempt s now r)) now" using Cons.prems p by (auto intro: ok_attempt)
  then show ?case using Cons.IH [of "snd (attempt s now r)" now] Cons.prems p by auto
qed (auto intro: ok_later)

lemma conformance_from:
  assumes "ok s t" "sorted (t # map fst tr)" "\<forall>p \<in> set tr. legal (snd p)"
    and "t \<le> t'" "\<forall>p \<in> set tr. fst p \<le> t'"
  shows "admitted_cost cost k (admissions attempt s tr) \<le> level s k t + rate k * (t' - t)"
  using assms
proof (induction tr arbitrary: s t)
  case Nil
  then have "level s k t' \<le> level s k t + rate k * (t' - t)" "0 \<le> level s k t'"
    using level_grows level_nonneg ok_later by blast+
  then show ?case by simp
next
  case (Cons p tr)
  obtain now r where p: "p = (now, r)" by (cases p)
  define s' where "s' = snd (attempt s now r)"
  define c where "c = (if fst (attempt s now r) then cost r k else 0)"
  have now: "t \<le> now" "legal r" "now \<le> t'" and srt: "sorted (now # map fst tr)"
    using Cons.prems p by auto
  have ok: "ok s now" using Cons.prems(1) now(1) by (rule ok_later)
  then have ok': "ok s' now" unfolding s'_def using now(2) by (rule ok_attempt)
  have IH: "admitted_cost cost k (admissions attempt s' tr) \<le> level s' k now + rate k * (t' - now)"
    using Cons.IH [OF ok' srt _ now(3)] Cons.prems by auto
  have "level s' k now = level s k now - c"
    unfolding s'_def c_def using ok now(2) by (rule level_attempt)
  moreover have "level s k now \<le> level s k t + rate k * (now - t)"
    using Cons.prems(1) now(1) by (rule level_grows)
  moreover have "admitted_cost cost k (admissions attempt s (p # tr)) =
      c + admitted_cost cost k (admissions attempt s' tr)"
    by (simp add: p s'_def c_def Let_def)
  moreover have "rate k * (t' - now) + rate k * (now - t) = rate k * (t' - t)"
    by (simp add: algebra_simps)
  ultimately show ?case using IH by linarith
qed

lemma conformance:
  assumes "ok s t0" "sorted (t0 # map fst before)" "\<forall>p \<in> set before. legal (snd p) \<and> fst p \<le> t"
    and "t0 \<le> t" "sorted (t # map fst tr)" "\<forall>p \<in> set tr. legal (snd p) \<and> fst p \<le> t'" "t \<le> t'"
  shows "admitted_cost cost k (admissions attempt (state_after attempt s before) tr)
    \<le> burst k + rate k * (t' - t)"
proof -
  have ok: "ok (state_after attempt s before) t" using ok_after assms(1-4) by blast
  have "admitted_cost cost k (admissions attempt (state_after attempt s before) tr)
      \<le> level (state_after attempt s before) k t + rate k * (t' - t)"
    using conformance_from [OF ok assms(5)] assms(6,7) by blast
  then show ?thesis using level_burst [OF ok, of k] by linarith
qed

end

end
