(* ===== verification/Bridge_Ingress.thy ===== *)
theory Bridge_Ingress
  imports Py_Values Token_Bucket
begin

text \<open>
  The ingress quotas of \<open>emby_runtime/event_bridge_limits.py\<close>: \<open>EventBridgeIngressLimiter\<close> with a
  message bucket and an event bucket per server, \<open>EventBridgeByteLimiter\<close> with one bucket.  The
  clock is an argument, float arithmetic is exact on rationals, and every \<open>consume\<close> is one step
  because it runs under the limiter's lock.
\<close>

subsection \<open>Shared steps\<close>

text \<open>\<open>min(d, key=...)\<close>: the first key, in insertion order, with the least value.\<close>

fun min_key :: "('k \<Rightarrow> seconds) \<Rightarrow> 'k \<Rightarrow> 'k list \<Rightarrow> 'k" where
  "min_key f m [] = m"
| "min_key f m (k # ks) = min_key f (if f k < f m then k else m) ks"

definition pop_least_recent :: "('v \<Rightarrow> seconds) \<Rightarrow> ('k, 'v) dict \<Rightarrow> ('k, 'v) dict" where
  "pop_least_recent updated d =
     (case d of
        [] \<Rightarrow> d
      | p # rest \<Rightarrow>
          dpop (min_key (\<lambda>k. case map_of d k of None \<Rightarrow> 0 | Some v \<Rightarrow> updated v) (fst p) (dkeys rest)) d)"

definition evict_stale :: "rat \<Rightarrow> ('v \<Rightarrow> seconds) \<Rightarrow> seconds \<Rightarrow> ('k, 'v) dict \<Rightarrow> ('k, 'v) dict" where
  "evict_stale ttl updated now d =
     (if ttl \<le> 0 then d
      else fold dpop (map fst (filter (\<lambda>p. ttl \<le> now - updated (snd p)) d)) d)"

text \<open>\<open>min(burst, tokens + max(0.0, now - updated_at) * rate)\<close>\<close>

definition refill :: "rat \<Rightarrow> rat \<Rightarrow> rat \<Rightarrow> seconds \<Rightarrow> seconds \<Rightarrow> rat" where
  "refill burst rate tokens updated now = min burst (tokens + max 0 (now - updated) * rate)"

subsection \<open>Messages and events\<close>

record ingress_state =
  message_tokens :: rat
  event_tokens :: rat
  updated_at :: seconds

record ingress_limiter =
  messages_per_second :: rat
  message_burst :: rat
  events_per_second :: rat
  event_burst :: rat
  max_states :: int
  state_ttl_seconds :: rat
  ingress_states :: "(string, ingress_state) dict"

definition ingress_init :: "rat \<Rightarrow> rat \<Rightarrow> rat \<Rightarrow> rat \<Rightarrow> int \<Rightarrow> rat \<Rightarrow> ingress_limiter" where
  "ingress_init mps mb eps eb states ttl =
     \<lparr> messages_per_second = max 0 mps, message_burst = max 1 mb,
       events_per_second = max 0 eps, event_burst = max 1 eb,
       max_states = max 1 states, state_ttl_seconds = max 0 ttl, ingress_states = [] \<rparr>"

definition refill_state :: "ingress_limiter \<Rightarrow> seconds \<Rightarrow> ingress_state option \<Rightarrow> ingress_state" where
  "refill_state l now st =
     (case st of
        None \<Rightarrow> \<lparr> message_tokens = message_burst l, event_tokens = event_burst l, updated_at = now \<rparr>
      | Some s \<Rightarrow>
          \<lparr> message_tokens =
              refill (message_burst l) (messages_per_second l) (message_tokens s) (updated_at s) now,
            event_tokens =
              refill (event_burst l) (events_per_second l) (event_tokens s) (updated_at s) now,
            updated_at = now \<rparr>)"

definition ingress_consume :: "ingress_limiter \<Rightarrow> seconds \<Rightarrow> string \<Rightarrow> int \<Rightarrow> bool \<times> ingress_limiter" where
  "ingress_consume l now server_id event_cost =
     (let clean = strip server_id; cost = max 0 event_cost
      in if clean = [] \<or> event_burst l < of_int cost then (False, l)
         else
           let d = evict_stale (state_ttl_seconds l) updated_at now (ingress_states l);
               found = map_of d clean;
               d1 = (if found = None \<and> max_states l \<le> int (length d)
                     then pop_least_recent updated_at d else d);
               state = refill_state l now found
           in if message_tokens state < 1 \<or> event_tokens state < of_int cost
              then (False, l\<lparr>ingress_states := dset clean state d1\<rparr>)
              else (True, l\<lparr>ingress_states :=
                dset clean (state\<lparr>message_tokens := message_tokens state - 1,
                                  event_tokens := event_tokens state - of_int cost\<rparr>) d1\<rparr>))"

definition ingress_reset :: "ingress_limiter \<Rightarrow> ingress_limiter" where
  "ingress_reset l = l\<lparr>ingress_states := []\<rparr>"

subsection \<open>Bytes\<close>

record byte_state =
  byte_tokens :: rat
  byte_updated_at :: seconds

record byte_limiter =
  bytes_per_second :: rat
  byte_burst :: rat
  byte_max_states :: int
  byte_ttl_seconds :: rat
  byte_states :: "(string, byte_state) dict"

definition byte_init :: "rat \<Rightarrow> rat \<Rightarrow> int \<Rightarrow> rat \<Rightarrow> byte_limiter" where
  "byte_init bps bb states ttl =
     \<lparr> bytes_per_second = max 0 bps, byte_burst = max 1 bb, byte_max_states = max 1 states,
       byte_ttl_seconds = max 0 ttl, byte_states = [] \<rparr>"

definition byte_refill_state :: "byte_limiter \<Rightarrow> seconds \<Rightarrow> byte_state option \<Rightarrow> byte_state" where
  "byte_refill_state l now st =
     (case st of
        None \<Rightarrow> \<lparr> byte_tokens = byte_burst l, byte_updated_at = now \<rparr>
      | Some s \<Rightarrow>
          \<lparr> byte_tokens = refill (byte_burst l) (bytes_per_second l) (byte_tokens s) (byte_updated_at s) now,
            byte_updated_at = now \<rparr>)"

definition byte_consume :: "byte_limiter \<Rightarrow> seconds \<Rightarrow> string \<Rightarrow> int \<Rightarrow> bool \<times> byte_limiter" where
  "byte_consume l now server_id byte_cost =
     (let clean = strip server_id; cost = max 0 byte_cost
      in if clean = [] \<or> byte_burst l < of_int cost then (False, l)
         else
           let d = evict_stale (byte_ttl_seconds l) byte_updated_at now (byte_states l);
               found = map_of d clean;
               d1 = (if found = None \<and> byte_max_states l \<le> int (length d)
                     then pop_least_recent byte_updated_at d else d);
               state = byte_refill_state l now found
           in if byte_tokens state < of_int cost
              then (False, l\<lparr>byte_states := dset clean state d1\<rparr>)
              else (True, l\<lparr>byte_states :=
                dset clean (state\<lparr>byte_tokens := byte_tokens state - of_int cost\<rparr>) d1\<rparr>))"

definition byte_reset :: "byte_limiter \<Rightarrow> byte_limiter" where
  "byte_reset l = l\<lparr>byte_states := []\<rparr>"

subsection \<open>The process-wide limiters\<close>

definition default_ingress :: ingress_limiter where
  "default_ingress = ingress_init 20 40 200 500 10000 3600"

definition default_bytes :: byte_limiter where
  "default_bytes = byte_init (2 * 1024 * 1024) (4 * 1024 * 1024) 10000 3600"

definition default_pre_auth :: ingress_limiter where
  "default_pre_auth = ingress_init 5 20 5 20 2048 600"

definition consume_auth_attempt :: "ingress_limiter \<Rightarrow> seconds \<Rightarrow> string \<Rightarrow> bool \<times> ingress_limiter" where
  "consume_auth_attempt l now peer_key =
     ingress_consume l now (if peer_key = [] then ''unknown'' else peer_key) 1"

subsection \<open>Facts on the shared steps\<close>

lemma fold_dpop_filter: "fold dpop ks d = filter (\<lambda>p. fst p \<notin> set ks) d"
proof (induction ks arbitrary: d)
  case (Cons k ks)
  have "dpop k d = filter (\<lambda>p. fst p \<noteq> k) d"
    by (simp add: dpop_def AList.delete_eq split_def eq_commute)
  then show ?case using Cons by simp
qed simp

lemma evict_stale_filter:
  assumes "distinct (dkeys d)"
  shows "evict_stale ttl updated now d =
    (if ttl \<le> 0 then d else filter (\<lambda>p. \<not> ttl \<le> now - updated (snd p)) d)"
proof -
  have "fst p \<in> fst ` {q \<in> set d. ttl \<le> now - updated (snd q)} \<longleftrightarrow> ttl \<le> now - updated (snd p)"
    if "p \<in> set d" for p
  proof
    assume "fst p \<in> fst ` {q \<in> set d. ttl \<le> now - updated (snd q)}"
    then obtain q where q: "q \<in> set d" "fst q = fst p" "ttl \<le> now - updated (snd q)" by force
    then have "snd q = snd p" using that in_dict_map_of [OF assms] by (metis option.inject prod.collapse)
    with q(3) show "ttl \<le> now - updated (snd p)" by simp
  qed (use that in auto)
  then have "filter (\<lambda>p. fst p \<notin> fst ` {q \<in> set d. ttl \<le> now - updated (snd q)}) d =
      filter (\<lambda>p. \<not> ttl \<le> now - updated (snd p)) d"
    by (intro filter_cong) auto
  then show ?thesis by (simp add: evict_stale_def fold_dpop_filter)
qed

lemma map_of_evict_stale:
  assumes "distinct (dkeys d)"
  shows "map_of (evict_stale ttl updated now d) k =
    (case map_of d k of None \<Rightarrow> None
     | Some v \<Rightarrow> if 0 < ttl \<and> ttl \<le> now - updated v then None else Some v)"
  using assms by (auto simp: evict_stale_filter map_of_filter_distinct split: option.splits)

lemma evict_stale_subset:
  assumes "distinct (dkeys d)"
  shows "set (evict_stale ttl updated now d) \<subseteq> set d" "distinct (dkeys (evict_stale ttl updated now d))"
    "set (dkeys (evict_stale ttl updated now d)) \<subseteq> set (dkeys d)"
  using assms by (auto simp: evict_stale_filter distinct_dkeys_filter set_dkeys_fst simp del: set_dkeys)

lemma min_key_in: "min_key f m ks \<in> set (m # ks)"
  by (induction f m ks rule: min_key.induct) auto

lemma length_pop_least_recent:
  assumes "distinct (dkeys d)" "d \<noteq> []"
  shows "Suc (length (pop_least_recent updated d)) = length d"
    and "distinct (dkeys (pop_least_recent updated d))"
    and "set (pop_least_recent updated d) \<subseteq> set d"
proof -
  obtain p rest where d: "d = p # rest" using assms(2) by (cases d) auto
  define f where "f k = (case map_of d k of None \<Rightarrow> 0 | Some v \<Rightarrow> updated v)" for k
  define k where "k = min_key f (fst p) (dkeys rest)"
  have eq: "pop_least_recent updated d = dpop k d" 
    unfolding pop_least_recent_def k_def f_def [abs_def] by (simp add: d)
  have "k \<in> set (fst p # dkeys rest)" unfolding k_def by (rule min_key_in)
  then have k: "k \<in> set (dkeys d)" by (simp add: d dkeys_def)
  have keys: "dkeys (dpop k d) = removeAll k (dkeys d)"
    by (simp add: dkeys_def dpop_def AList.delete_keys)
  have "length (dkeys (dpop k d)) = length (dkeys d) - 1"
    using k assms(1) unfolding keys by (simp add: distinct_remove1_removeAll [symmetric] length_remove1 del: set_dkeys)
  then show "Suc (length (pop_least_recent updated d)) = length d"
    unfolding eq by (simp add: d)
  show "distinct (dkeys (pop_least_recent updated d))" using assms(1) by (simp add: eq)
  show "set (pop_least_recent updated d) \<subseteq> set d" by (auto simp: eq dpop_def AList.delete_eq)
qed

lemma length_dset: "length (dset k v d) = (if map_of d k = None then Suc (length d) else length d)"
proof -
  have "length (AList.update k v d) = (if k \<in> fst ` set d then length d else Suc (length d))"
    by (induction d) auto
  then show ?thesis by (simp add: dset_def map_of_eq_None_iff)
qed

text \<open>A dictionary over fewer keys than the limit never loses its least recent entry.\<close>

lemma room_left:
  assumes "distinct (dkeys d)" "set (dkeys d) \<subseteq> U" "finite U" "int (card U) \<le> m" "k \<in> U" "map_of d k = None"
  shows "int (length d) < m"
proof -
  have "k \<notin> set (dkeys d)" using assms(6) by (auto simp: map_of_eq_None_iff set_dkeys_fst simp del: set_dkeys)
  then have "set (dkeys d) \<subset> U" using assms(2,5) by blast
  then have "card (set (dkeys d)) < card U" using assms(3) by (rule psubset_card_mono [rotated])
  then show ?thesis using assms(1,4) by (simp add: distinct_card del: set_dkeys)
qed

lemma refill_bounds:
  assumes "0 \<le> tokens" "0 \<le> rate" "0 \<le> burst"
  shows "0 \<le> refill burst rate tokens u t" "refill burst rate tokens u t \<le> burst"
  using assms by (auto simp: refill_def)

lemma refill_grows:
  assumes "0 \<le> rate" "u \<le> t" "t \<le> t'"
  shows "refill burst rate tokens u t' \<le> refill burst rate tokens u t + rate * (t' - t)"
proof -
  have "(t' - u) * rate = (t - u) * rate + rate * (t' - t)" "0 \<le> rate * (t' - t)"
    using assms by (auto simp: algebra_simps intro: mult_left_mono)
  moreover have "min b (x + y) \<le> min b x + y" if "0 \<le> y" for b x y :: rat
    using that by (auto simp: min_def)
  ultimately show ?thesis using assms by (simp add: refill_def add.assoc [symmetric])
qed

lemma refill_now: "tokens \<le> burst \<Longrightarrow> refill burst rate tokens u u = tokens"
  by (simp add: refill_def)

lemma refill_stale:
  assumes "0 \<le> tokens" "0 \<le> rate" "burst \<le> rate * ttl" "ttl \<le> t - u" "0 < ttl"
  shows "refill burst rate tokens u t = burst"
proof -
  have "rate * ttl \<le> (t - u) * rate" using assms(2,4) by (simp add: mult.commute mult_left_mono)
  then show ?thesis using assms by (simp add: refill_def)
qed

subsection \<open>The ingress limiter as a token bucket\<close>

datatype quota = Messages | Events

primrec quota_burst :: "ingress_limiter \<Rightarrow> quota \<Rightarrow> rat" where
  "quota_burst l Messages = message_burst l"
| "quota_burst l Events = event_burst l"

primrec quota_rate :: "ingress_limiter \<Rightarrow> quota \<Rightarrow> rat" where
  "quota_rate l Messages = messages_per_second l"
| "quota_rate l Events = events_per_second l"

primrec quota_tokens :: "ingress_state \<Rightarrow> quota \<Rightarrow> rat" where
  "quota_tokens s Messages = message_tokens s"
| "quota_tokens s Events = event_tokens s"

text \<open>The tokens a server could use at an instant.\<close>

definition ingress_level :: "ingress_limiter \<Rightarrow> string \<times> quota \<Rightarrow> seconds \<Rightarrow> rat" where
  "ingress_level l k t =
     (case map_of (ingress_states l) (fst k) of
        None \<Rightarrow> quota_burst l (snd k)
      | Some s \<Rightarrow> refill (quota_burst l (snd k)) (quota_rate l (snd k)) (quota_tokens s (snd k)) (updated_at s) t)"

definition ingress_attempt ::
    "ingress_limiter \<Rightarrow> seconds \<Rightarrow> string \<times> int \<Rightarrow> bool \<times> ingress_limiter" where
  "ingress_attempt l now r = ingress_consume l now (fst r) (snd r)"

definition ingress_cost :: "string \<times> int \<Rightarrow> string \<times> quota \<Rightarrow> rat" where
  "ingress_cost r k =
     (if strip (fst r) = fst k
      then (case snd k of Messages \<Rightarrow> 1 | Events \<Rightarrow> of_int (max 0 (snd r))) else 0)"

text \<open>
  The configurations for which forgetting an idle server loses nothing: a full time-to-live
  refills both buckets.
\<close>

definition sound_config :: "ingress_limiter \<Rightarrow> bool" where
  "sound_config l =
     (1 \<le> message_burst l \<and> 1 \<le> event_burst l \<and> 0 \<le> messages_per_second l \<and> 0 \<le> events_per_second l \<and>
      (state_ttl_seconds l \<le> 0 \<or>
       message_burst l \<le> messages_per_second l * state_ttl_seconds l \<and>
       event_burst l \<le> events_per_second l * state_ttl_seconds l))"

definition state_ok :: "ingress_limiter \<Rightarrow> seconds \<Rightarrow> ingress_state \<Rightarrow> bool" where
  "state_ok l now s =
     (0 \<le> message_tokens s \<and> message_tokens s \<le> message_burst l \<and>
      0 \<le> event_tokens s \<and> event_tokens s \<le> event_burst l \<and> updated_at s \<le> now)"

definition ingress_ok :: "string set \<Rightarrow> ingress_limiter \<Rightarrow> ingress_limiter \<Rightarrow> seconds \<Rightarrow> bool" where
  "ingress_ok U l0 l now =
     (l\<lparr>ingress_states := []\<rparr> = l0\<lparr>ingress_states := []\<rparr> \<and> sound_config l \<and> distinct (dkeys (ingress_states l)) \<and>
      (\<forall>p \<in> set (ingress_states l). state_ok l now (snd p)) \<and>
      set (dkeys (ingress_states l)) \<subseteq> U \<and> finite U \<and> int (card U) \<le> max_states l)"

lemma state_ok_tokens:
  "state_ok l now s \<longleftrightarrow>
    (\<forall>q. 0 \<le> quota_tokens s q \<and> quota_tokens s q \<le> quota_burst l q) \<and> updated_at s \<le> now"
  by (auto simp: state_ok_def) (metis quota.exhaust quota_tokens.simps quota_burst.simps)+

lemma sound_configD:
  assumes "sound_config l"
  shows "0 \<le> quota_burst l q" "0 \<le> quota_rate l q"
    "0 < state_ttl_seconds l \<Longrightarrow> quota_burst l q \<le> quota_rate l q * state_ttl_seconds l"
  using assms by (cases q; auto simp: sound_config_def)+

lemma ingress_ok_state:
  assumes "ingress_ok U l0 l now" "map_of (ingress_states l) k = Some s"
  shows "state_ok l now s"
  using assms map_of_SomeD [OF assms(2)] by (auto simp: ingress_ok_def)

lemma ingress_ok_later: "ingress_ok U l0 l t \<Longrightarrow> t \<le> t' \<Longrightarrow> ingress_ok U l0 l t'"
  by (force simp: ingress_ok_def state_ok_def)

lemma ingress_level_bounds:
  assumes "ingress_ok U l0 l now"
  shows "0 \<le> ingress_level l k t" "ingress_level l k t \<le> quota_burst l (snd k)"
proof -
  have c: "sound_config l" using assms by (simp add: ingress_ok_def)
  have "0 \<le> ingress_level l k t \<and> ingress_level l k t \<le> quota_burst l (snd k)"
  proof (cases "map_of (ingress_states l) (fst k)")
    case (Some s)
    then have "0 \<le> quota_tokens s (snd k)" using ingress_ok_state [OF assms] by (simp add: state_ok_tokens)
    then show ?thesis using Some refill_bounds sound_configD [OF c] by (simp add: ingress_level_def)
  qed (simp add: ingress_level_def sound_configD [OF c])
  then show "0 \<le> ingress_level l k t" "ingress_level l k t \<le> quota_burst l (snd k)" by auto
qed

lemma ingress_level_grows:
  assumes "ingress_ok U l0 l now" "now \<le> t"
  shows "ingress_level l k t \<le> ingress_level l k now + quota_rate l (snd k) * (t - now)"
proof -
  have c: "sound_config l" using assms by (simp add: ingress_ok_def)
  show ?thesis
  proof (cases "map_of (ingress_states l) (fst k)")
    case (Some s)
    then have "updated_at s \<le> now" using ingress_ok_state [OF assms(1)] by (simp add: state_ok_def)
    then show ?thesis
      using Some refill_grows [OF sound_configD(2) [OF c]] assms(2) by (simp add: ingress_level_def)
  qed (use sound_configD(2) [OF c] assms(2) in \<open>simp add: ingress_level_def\<close>)
qed

text \<open>Evicting idle servers changes no level.\<close>

lemma evicted_level:
  assumes "ingress_ok U l0 l now"
  shows "ingress_level (l\<lparr>ingress_states := evict_stale (state_ttl_seconds l) updated_at now (ingress_states l)\<rparr>) k now
    = ingress_level l k now"
proof -
  have c: "sound_config l" and d: "distinct (dkeys (ingress_states l))"
    using assms by (simp_all add: ingress_ok_def)
  show ?thesis
  proof (cases "map_of (ingress_states l) (fst k)")
    case (Some s)
    have "0 \<le> quota_tokens s (snd k)" using ingress_ok_state [OF assms Some] by (simp add: state_ok_tokens)
    then have "refill (quota_burst l (snd k)) (quota_rate l (snd k)) (quota_tokens s (snd k)) (updated_at s) now
        = quota_burst l (snd k)"
      if "0 < state_ttl_seconds l" "state_ttl_seconds l \<le> now - updated_at s"
      using refill_stale sound_configD [OF c] that by blast
    moreover have "quota_burst (l\<lparr>ingress_states := e\<rparr>) q = quota_burst l q"
      "quota_rate (l\<lparr>ingress_states := e\<rparr>) q = quota_rate l q" for e q by (cases q; simp)+
    ultimately show ?thesis using Some by (simp add: ingress_level_def map_of_evict_stale [OF d])
  next
    case None
    moreover have "quota_burst (l\<lparr>ingress_states := e\<rparr>) q = quota_burst l q" for e q by (cases q) simp_all
    ultimately show ?thesis by (simp add: ingress_level_def map_of_evict_stale [OF d])
  qed
qed

lemma quota_same [simp]:
  "quota_burst (l\<lparr>ingress_states := e\<rparr>) q = quota_burst l q"
  "quota_rate (l\<lparr>ingress_states := e\<rparr>) q = quota_rate l q"
  for l :: ingress_limiter
  by (cases q; simp)+

lemma refill_state_tokens:
  assumes "ingress_ok U l0 l now"
    and "d = evict_stale (state_ttl_seconds l) updated_at now (ingress_states l)"
  shows "quota_tokens (refill_state l now (map_of d k)) q = ingress_level l (k, q) now"
    and "updated_at (refill_state l now (map_of d k)) = now"
proof -
  have "ingress_level l (k, q) now = ingress_level (l\<lparr>ingress_states := d\<rparr>) (k, q) now"
    unfolding assms(2) by (rule evicted_level [OF assms(1), symmetric])
  then show "quota_tokens (refill_state l now (map_of d k)) q = ingress_level l (k, q) now"
    by (cases q) (simp_all add: ingress_level_def refill_state_def split: option.splits)
  show "updated_at (refill_state l now (map_of d k)) = now"
    by (simp add: refill_state_def split: option.split)
qed

text \<open>
  One attempt of a run that stays within the table: nothing is dropped but idle servers, and the
  server is admitted exactly when both its levels suffice.
\<close>

lemma ingress_attempt_shape:
  assumes ok: "ingress_ok U l0 l now" and U: "strip (fst r) \<in> U"
  defines "k \<equiv> strip (fst r)" and "c \<equiv> of_int (max 0 (snd r)) :: rat"
    and "d \<equiv> evict_stale (state_ttl_seconds l) updated_at now (ingress_states l)"
  shows "fst (ingress_attempt l now r) \<longleftrightarrow> k \<noteq> [] \<and> c \<le> event_burst l \<and>
      1 \<le> ingress_level l (k, Messages) now \<and> c \<le> ingress_level l (k, Events) now"
    and "\<not> fst (ingress_attempt l now r) \<and> snd (ingress_attempt l now r) = l \<or>
      (\<exists>st. snd (ingress_attempt l now r) = l\<lparr>ingress_states := dset k st d\<rparr> \<and> updated_at st = now \<and>
        (\<forall>q. quota_tokens st q = ingress_level l (k, q) now
           - (if fst (ingress_attempt l now r) then ingress_cost r (k, q) else 0)))"
proof -
  have dist: "distinct (dkeys (ingress_states l))" using ok by (simp add: ingress_ok_def)
  have room: "int (length d) < max_states l" if "map_of d k = None"
  proof (rule room_left [of _ U])
    show "set (dkeys d) \<subseteq> U"
      unfolding d_def using ok
      by (intro subset_trans [OF evict_stale_subset(3) [OF dist]]) (simp add: ingress_ok_def)
  qed (use that ok U evict_stale_subset(2) [OF dist] in \<open>simp_all add: d_def k_def ingress_ok_def\<close>)
  then have d1: "(if map_of d k = None \<and> max_states l \<le> int (length d)
      then pop_least_recent updated_at d else d) = d" by auto
  note tok = refill_state_tokens [OF ok d_def [THEN meta_eq_to_obj_eq]]
  define st where "st = refill_state l now (map_of d k)"
  have lev: "message_tokens st = ingress_level l (k, Messages) now"
    "event_tokens st = ingress_level l (k, Events) now" "updated_at st = now"
    using tok(1) [of k Messages] tok(1) [of k Events] tok(2) by (simp_all add: st_def)
  have eq: "ingress_attempt l now r =
    (if k = [] \<or> event_burst l < c then (False, l)
     else if message_tokens st < 1 \<or> event_tokens st < c then (False, l\<lparr>ingress_states := dset k st d\<rparr>)
     else (True, l\<lparr>ingress_states :=
       dset k (st\<lparr>message_tokens := message_tokens st - 1, event_tokens := event_tokens st - c\<rparr>) d\<rparr>))"
    unfolding ingress_attempt_def ingress_consume_def Let_def k_def [symmetric] d_def [symmetric] d1
      st_def [symmetric] c_def by simp
  show "fst (ingress_attempt l now r) \<longleftrightarrow> k \<noteq> [] \<and> c \<le> event_burst l \<and>
      1 \<le> ingress_level l (k, Messages) now \<and> c \<le> ingress_level l (k, Events) now"
    unfolding eq by (auto simp: lev)
  have split: "(\<forall>q. quota_tokens s q = f q) \<longleftrightarrow> message_tokens s = f Messages \<and> event_tokens s = f Events"
    for s f by (metis quota.exhaust quota_tokens.simps)
  have cost: "ingress_cost r (k, Messages) = 1" "ingress_cost r (k, Events) = c"
    by (simp_all add: ingress_cost_def k_def c_def)
  show "\<not> fst (ingress_attempt l now r) \<and> snd (ingress_attempt l now r) = l \<or>
      (\<exists>st. snd (ingress_attempt l now r) = l\<lparr>ingress_states := dset k st d\<rparr> \<and> updated_at st = now \<and>
        (\<forall>q. quota_tokens st q = ingress_level l (k, q) now
           - (if fst (ingress_attempt l now r) then ingress_cost r (k, q) else 0)))"
  proof (cases "k = [] \<or> event_burst l < c")
    case False
    then have "snd (ingress_attempt l now r) = l\<lparr>ingress_states :=
        dset k (if fst (ingress_attempt l now r)
          then st\<lparr>message_tokens := message_tokens st - 1, event_tokens := event_tokens st - c\<rparr> else st) d\<rparr>"
      by (auto simp: eq)
    then show ?thesis unfolding split by (intro disjI2 exI conjI) (auto simp: lev cost)
  qed (simp add: eq)
qed

lemma ingress_attempt_ok:
  assumes ok: "ingress_ok U l0 l now" and U: "strip (fst r) \<in> U"
  shows "ingress_ok U l0 (snd (ingress_attempt l now r)) now"
proof -
  define d where "d = evict_stale (state_ttl_seconds l) updated_at now (ingress_states l)"
  have dist: "distinct (dkeys (ingress_states l))" using ok by (simp add: ingress_ok_def)
  note shape = ingress_attempt_shape [OF ok U]
  consider "snd (ingress_attempt l now r) = l"
    | st where "snd (ingress_attempt l now r) = l\<lparr>ingress_states := dset (strip (fst r)) st d\<rparr>"
      "updated_at st = now"
      "\<And>q. quota_tokens st q = ingress_level l (strip (fst r), q) now
         - (if fst (ingress_attempt l now r) then ingress_cost r (strip (fst r), q) else 0)"
    using shape(2) unfolding d_def by blast
  then show ?thesis
  proof cases
    case 2
    have cost: "0 \<le> ingress_cost r (strip (fst r), q)" for q by (cases q) (simp_all add: ingress_cost_def)
    have le: "ingress_cost r (strip (fst r), q) \<le> ingress_level l (strip (fst r), q) now"
      if "fst (ingress_attempt l now r)" for q
      using shape(1) that by (cases q) (simp_all add: ingress_cost_def)
    have "0 \<le> quota_tokens st q \<and> quota_tokens st q \<le> quota_burst l q" for q
    proof -
      define v where "v = ingress_level l (strip (fst r), q) now"
      define x where "x = ingress_cost r (strip (fst r), q)"
      have "0 \<le> v" "v \<le> quota_burst l q"
        using ingress_level_bounds [OF ok, of "(strip (fst r), q)" now] by (simp_all add: v_def)
      moreover have "0 \<le> x" "fst (ingress_attempt l now r) \<Longrightarrow> x \<le> v"
        using cost le by (simp_all add: v_def x_def)
      ultimately show ?thesis unfolding 2(3) v_def [symmetric] x_def [symmetric] by auto
    qed
    then have st: "state_ok l now st" using 2(2) by (simp add: state_ok_tokens)
    have d: "set d \<subseteq> set (ingress_states l)" "distinct (dkeys d)" "set (dkeys d) \<subseteq> set (dkeys (ingress_states l))"
      unfolding d_def using evict_stale_subset [OF dist] by blast+
    have "\<forall>p \<in> set (dset (strip (fst r)) st d). state_ok l now (snd p)"
      using d(1) ok by (intro dset_all [where P = "state_ok l now", OF d(2) st]) (auto simp: ingress_ok_def)
    moreover have "set (dkeys (dset (strip (fst r)) st d)) \<subseteq> U"
      using d(3) ok U by (auto simp: ingress_ok_def)
    ultimately show ?thesis
      using ok d(2) unfolding 2(1) by (simp add: ingress_ok_def sound_config_def state_ok_def)
  qed (simp add: ok)
qed

lemma ingress_attempt_level:
  assumes ok: "ingress_ok U l0 l now" and U: "strip (fst r) \<in> U"
  shows "ingress_level (snd (ingress_attempt l now r)) k now =
    ingress_level l k now - (if fst (ingress_attempt l now r) then ingress_cost r k else 0)"
proof -
  define d where "d = evict_stale (state_ttl_seconds l) updated_at now (ingress_states l)"
  note shape = ingress_attempt_shape [OF ok U]
  note ok' = ingress_attempt_ok [OF ok U]
  consider "snd (ingress_attempt l now r) = l" "\<not> fst (ingress_attempt l now r)"
    | st where "snd (ingress_attempt l now r) = l\<lparr>ingress_states := dset (strip (fst r)) st d\<rparr>"
      "updated_at st = now"
      "\<And>q. quota_tokens st q = ingress_level l (strip (fst r), q) now
         - (if fst (ingress_attempt l now r) then ingress_cost r (strip (fst r), q) else 0)"
    using shape(2) unfolding d_def by blast
  then show ?thesis
  proof cases
    case 2
    show ?thesis
    proof (cases "fst k = strip (fst r)")
      case True
      have "state_ok (snd (ingress_attempt l now r)) now st"
        by (rule ingress_ok_state [OF ok', of "strip (fst r)"]) (simp add: 2)
      then have "quota_tokens st (snd k) \<le> quota_burst l (snd k)" by (simp add: 2 state_ok_tokens)
      then have "ingress_level (snd (ingress_attempt l now r)) k now = quota_tokens st (snd k)"
        using 2(2) True by (simp add: 2(1) ingress_level_def refill_now)
      then show ?thesis using 2(3) [of "snd k"] True by (cases k) simp
    next
      case False
      then have "ingress_level (snd (ingress_attempt l now r)) k now = ingress_level (l\<lparr>ingress_states := d\<rparr>) k now"
        by (simp add: 2(1) ingress_level_def split: option.split)
      also have "\<dots> = ingress_level l k now" unfolding d_def by (rule evicted_level [OF ok])
      finally show ?thesis using False by (simp add: ingress_cost_def)
    qed
  qed simp
qed

interpretation ingress: token_bucket ingress_attempt ingress_level ingress_cost
    "\<lambda>k. quota_burst l0 (snd k)" "\<lambda>k. quota_rate l0 (snd k)" "\<lambda>r. strip (fst r) \<in> U" "ingress_ok U l0"
  for U l0
proof (unfold_locales, goal_cases)
  case (1 s t t')
  then show ?case by (rule ingress_ok_later)
next
  case (2 s now r)
  then show ?case by (rule ingress_attempt_ok)
next
  case (3 s now k)
  then show ?case by (rule ingress_level_bounds(1))
next
  case (4 s now k)
  moreover have "quota_burst s (snd k) = quota_burst l0 (snd k)"
    using 4 by (metis ingress_ok_def quota_same(1))
  ultimately show ?case using ingress_level_bounds(2) by metis
next
  case (5 s now t k)
  moreover have "quota_rate s (snd k) = quota_rate l0 (snd k)"
    using 5 by (metis ingress_ok_def quota_same(2))
  ultimately show ?case using ingress_level_grows by metis
next
  case (6 s now r k)
  then show ?case by (rule ingress_attempt_level)
qed

subsection \<open>The byte limiter as a token bucket\<close>

definition byte_level :: "byte_limiter \<Rightarrow> string \<Rightarrow> seconds \<Rightarrow> rat" where
  "byte_level l k t =
     (case map_of (byte_states l) k of
        None \<Rightarrow> byte_burst l
      | Some s \<Rightarrow> refill (byte_burst l) (bytes_per_second l) (byte_tokens s) (byte_updated_at s) t)"

definition byte_attempt :: "byte_limiter \<Rightarrow> seconds \<Rightarrow> string \<times> int \<Rightarrow> bool \<times> byte_limiter" where
  "byte_attempt l now r = byte_consume l now (fst r) (snd r)"

definition byte_cost_of :: "string \<times> int \<Rightarrow> string \<Rightarrow> rat" where
  "byte_cost_of r k = (if strip (fst r) = k then of_int (max 0 (snd r)) else 0)"

definition byte_sound_config :: "byte_limiter \<Rightarrow> bool" where
  "byte_sound_config l =
     (1 \<le> byte_burst l \<and> 0 \<le> bytes_per_second l \<and>
      (byte_ttl_seconds l \<le> 0 \<or> byte_burst l \<le> bytes_per_second l * byte_ttl_seconds l))"

definition byte_state_ok :: "byte_limiter \<Rightarrow> seconds \<Rightarrow> byte_state \<Rightarrow> bool" where
  "byte_state_ok l now s = (0 \<le> byte_tokens s \<and> byte_tokens s \<le> byte_burst l \<and> byte_updated_at s \<le> now)"

definition byte_ok :: "string set \<Rightarrow> byte_limiter \<Rightarrow> byte_limiter \<Rightarrow> seconds \<Rightarrow> bool" where
  "byte_ok U l0 l now =
     (l\<lparr>byte_states := []\<rparr> = l0\<lparr>byte_states := []\<rparr> \<and> byte_sound_config l \<and> distinct (dkeys (byte_states l)) \<and>
      (\<forall>p \<in> set (byte_states l). byte_state_ok l now (snd p)) \<and>
      set (dkeys (byte_states l)) \<subseteq> U \<and> finite U \<and> int (card U) \<le> byte_max_states l)"

lemma byte_ok_state:
  assumes "byte_ok U l0 l now" "map_of (byte_states l) k = Some s"
  shows "byte_state_ok l now s"
  using assms map_of_SomeD [OF assms(2)] by (auto simp: byte_ok_def)

lemma byte_ok_later: "byte_ok U l0 l t \<Longrightarrow> t \<le> t' \<Longrightarrow> byte_ok U l0 l t'"
  by (force simp: byte_ok_def byte_state_ok_def)

lemma byte_level_bounds:
  assumes "byte_ok U l0 l now"
  shows "0 \<le> byte_level l k t" "byte_level l k t \<le> byte_burst l"
proof -
  have c: "1 \<le> byte_burst l" "0 \<le> bytes_per_second l"
    using assms by (simp_all add: byte_ok_def byte_sound_config_def)
  then show "0 \<le> byte_level l k t" "byte_level l k t \<le> byte_burst l"
    using byte_ok_state [OF assms, of k] refill_bounds [of _ "bytes_per_second l" "byte_burst l"]
    by (auto simp: byte_level_def byte_state_ok_def split: option.split)
qed

lemma byte_level_grows:
  assumes "byte_ok U l0 l now" "now \<le> t"
  shows "byte_level l k t \<le> byte_level l k now + bytes_per_second l * (t - now)"
proof -
  have c: "0 \<le> bytes_per_second l" using assms by (simp add: byte_ok_def byte_sound_config_def)
  then show ?thesis
    using byte_ok_state [OF assms(1), of k] refill_grows [OF c _ assms(2)] assms(2)
    by (auto simp: byte_level_def byte_state_ok_def split: option.split)
qed

lemma byte_evicted_level:
  assumes "byte_ok U l0 l now"
  shows "byte_level (l\<lparr>byte_states := evict_stale (byte_ttl_seconds l) byte_updated_at now (byte_states l)\<rparr>) k now
    = byte_level l k now"
proof -
  have d: "distinct (dkeys (byte_states l))" using assms by (simp add: byte_ok_def)
  show ?thesis
  proof (cases "map_of (byte_states l) k")
    case (Some s)
    have "0 \<le> byte_tokens s" using byte_ok_state [OF assms Some] by (simp add: byte_state_ok_def)
    then have "refill (byte_burst l) (bytes_per_second l) (byte_tokens s) (byte_updated_at s) now = byte_burst l"
      if "0 < byte_ttl_seconds l" "byte_ttl_seconds l \<le> now - byte_updated_at s"
      using refill_stale that assms by (auto simp: byte_ok_def byte_sound_config_def)
    then show ?thesis using Some by (simp add: byte_level_def map_of_evict_stale [OF d])
  qed (simp add: byte_level_def map_of_evict_stale [OF d])
qed

lemma byte_attempt_shape:
  assumes ok: "byte_ok U l0 l now" and U: "strip (fst r) \<in> U"
  defines "k \<equiv> strip (fst r)" and "c \<equiv> of_int (max 0 (snd r)) :: rat"
    and "d \<equiv> evict_stale (byte_ttl_seconds l) byte_updated_at now (byte_states l)"
  shows "fst (byte_attempt l now r) \<longleftrightarrow> k \<noteq> [] \<and> c \<le> byte_burst l \<and> c \<le> byte_level l k now"
    and "\<not> fst (byte_attempt l now r) \<and> snd (byte_attempt l now r) = l \<or>
      (\<exists>st. snd (byte_attempt l now r) = l\<lparr>byte_states := dset k st d\<rparr> \<and> byte_updated_at st = now \<and>
        byte_tokens st = byte_level l k now - (if fst (byte_attempt l now r) then c else 0))"
proof -
  have dist: "distinct (dkeys (byte_states l))" using ok by (simp add: byte_ok_def)
  have room: "int (length d) < byte_max_states l" if "map_of d k = None"
  proof (rule room_left [of _ U])
    show "set (dkeys d) \<subseteq> U"
      unfolding d_def using ok
      by (intro subset_trans [OF evict_stale_subset(3) [OF dist]]) (simp add: byte_ok_def)
  qed (use that ok U evict_stale_subset(2) [OF dist] in \<open>simp_all add: d_def k_def byte_ok_def\<close>)
  then have d1: "(if map_of d k = None \<and> byte_max_states l \<le> int (length d)
      then pop_least_recent byte_updated_at d else d) = d" by auto
  define st where "st = byte_refill_state l now (map_of d k)"
  have "byte_level l k now = byte_level (l\<lparr>byte_states := d\<rparr>) k now"
    unfolding d_def by (rule byte_evicted_level [OF ok, symmetric])
  then have lev: "byte_tokens st = byte_level l k now" "byte_updated_at st = now"
    by (simp_all add: st_def byte_level_def byte_refill_state_def split: option.splits)
  have eq: "byte_attempt l now r =
    (if k = [] \<or> byte_burst l < c then (False, l)
     else if byte_tokens st < c then (False, l\<lparr>byte_states := dset k st d\<rparr>)
     else (True, l\<lparr>byte_states := dset k (st\<lparr>byte_tokens := byte_tokens st - c\<rparr>) d\<rparr>))"
    unfolding byte_attempt_def byte_consume_def Let_def k_def [symmetric] d_def [symmetric] d1
      st_def [symmetric] c_def by simp
  show "fst (byte_attempt l now r) \<longleftrightarrow> k \<noteq> [] \<and> c \<le> byte_burst l \<and> c \<le> byte_level l k now"
    unfolding eq by (auto simp: lev)
  show "\<not> fst (byte_attempt l now r) \<and> snd (byte_attempt l now r) = l \<or>
      (\<exists>st. snd (byte_attempt l now r) = l\<lparr>byte_states := dset k st d\<rparr> \<and> byte_updated_at st = now \<and>
        byte_tokens st = byte_level l k now - (if fst (byte_attempt l now r) then c else 0))"
  proof (cases "k = [] \<or> byte_burst l < c")
    case False
    then have "snd (byte_attempt l now r) = l\<lparr>byte_states :=
        dset k (if fst (byte_attempt l now r) then st\<lparr>byte_tokens := byte_tokens st - c\<rparr> else st) d\<rparr>"
      by (auto simp: eq)
    then show ?thesis by (intro disjI2 exI conjI) (auto simp: lev)
  qed (simp add: eq)
qed

lemma byte_attempt_ok:
  assumes ok: "byte_ok U l0 l now" and U: "strip (fst r) \<in> U"
  shows "byte_ok U l0 (snd (byte_attempt l now r)) now"
proof -
  define d where "d = evict_stale (byte_ttl_seconds l) byte_updated_at now (byte_states l)"
  have dist: "distinct (dkeys (byte_states l))" using ok by (simp add: byte_ok_def)
  note shape = byte_attempt_shape [OF ok U]
  consider "snd (byte_attempt l now r) = l"
    | st where "snd (byte_attempt l now r) = l\<lparr>byte_states := dset (strip (fst r)) st d\<rparr>" "byte_updated_at st = now"
      "byte_tokens st = byte_level l (strip (fst r)) now
         - (if fst (byte_attempt l now r) then of_int (max 0 (snd r)) else 0)"
    using shape(2) unfolding d_def by blast
  then show ?thesis
  proof cases
    case 2
    have "(0 :: rat) \<le> of_int (max 0 (snd r))" by simp
    then have st: "byte_state_ok l now st"
      using 2(2,3) shape(1) byte_level_bounds [OF ok, of "strip (fst r)" now]
      by (cases "fst (byte_attempt l now r)") (auto simp: byte_state_ok_def)
    have d: "set d \<subseteq> set (byte_states l)" "distinct (dkeys d)" "set (dkeys d) \<subseteq> set (dkeys (byte_states l))"
      unfolding d_def using evict_stale_subset [OF dist] by blast+
    have "\<forall>p \<in> set (dset (strip (fst r)) st d). byte_state_ok l now (snd p)"
      using d(1) ok by (intro dset_all [where P = "byte_state_ok l now", OF d(2) st]) (auto simp: byte_ok_def)
    moreover have "set (dkeys (dset (strip (fst r)) st d)) \<subseteq> U"
      using d(3) ok U by (auto simp: byte_ok_def)
    ultimately show ?thesis
      using ok d(2) unfolding 2(1) by (simp add: byte_ok_def byte_sound_config_def byte_state_ok_def)
  qed (simp add: ok)
qed

lemma byte_attempt_level:
  assumes ok: "byte_ok U l0 l now" and U: "strip (fst r) \<in> U"
  shows "byte_level (snd (byte_attempt l now r)) k now =
    byte_level l k now - (if fst (byte_attempt l now r) then byte_cost_of r k else 0)"
proof -
  define d where "d = evict_stale (byte_ttl_seconds l) byte_updated_at now (byte_states l)"
  note ok' = byte_attempt_ok [OF ok U]
  consider "snd (byte_attempt l now r) = l" "\<not> fst (byte_attempt l now r)"
    | st where "snd (byte_attempt l now r) = l\<lparr>byte_states := dset (strip (fst r)) st d\<rparr>" "byte_updated_at st = now"
      "byte_tokens st = byte_level l (strip (fst r)) now
         - (if fst (byte_attempt l now r) then of_int (max 0 (snd r)) else 0)"
    using byte_attempt_shape(2) [OF ok U] unfolding d_def by blast
  then show ?thesis
  proof cases
    case 2
    show ?thesis
    proof (cases "k = strip (fst r)")
      case True
      have "byte_state_ok (snd (byte_attempt l now r)) now st"
        by (rule byte_ok_state [OF ok', of "strip (fst r)"]) (simp add: 2)
      then have "byte_tokens st \<le> byte_burst l" by (simp add: 2 byte_state_ok_def)
      then have "byte_level (snd (byte_attempt l now r)) k now = byte_tokens st"
        using 2(2) True by (simp add: 2(1) byte_level_def refill_now)
      then show ?thesis using 2(3) True by (simp add: byte_cost_of_def)
    next
      case False
      then have "byte_level (snd (byte_attempt l now r)) k now = byte_level (l\<lparr>byte_states := d\<rparr>) k now"
        by (simp add: 2(1) byte_level_def split: option.split)
      also have "\<dots> = byte_level l k now" unfolding d_def by (rule byte_evicted_level [OF ok])
      finally show ?thesis using False by (simp add: byte_cost_of_def)
    qed
  qed simp
qed

interpretation bytes: token_bucket byte_attempt byte_level byte_cost_of
    "\<lambda>k. byte_burst l0" "\<lambda>k. bytes_per_second l0" "\<lambda>r. strip (fst r) \<in> U" "byte_ok U l0"
  for U l0
proof (unfold_locales, goal_cases)
  case (1 s t t')
  then show ?case by (rule byte_ok_later)
next
  case (2 s now r)
  then show ?case by (rule byte_attempt_ok)
next
  case (3 s now k)
  then show ?case by (rule byte_level_bounds(1))
next
  case (4 s now k)
  moreover have "byte_burst s = byte_burst l0"
    using 4 unfolding byte_ok_def by (metis byte_limiter.select_convs(2) byte_limiter.surjective byte_limiter.update_convs(5))
  ultimately show ?case using byte_level_bounds(2) by metis
next
  case (5 s now t k)
  moreover have "bytes_per_second s = bytes_per_second l0"
    using 5 unfolding byte_ok_def by (metis byte_limiter.select_convs(1) byte_limiter.surjective byte_limiter.update_convs(5))
  ultimately show ?case using byte_level_grows by metis
next
  case (6 s now r k)
  then show ?case by (rule byte_attempt_level)
qed

subsection \<open>Properties\<close>

lemma ingress_ok_init:
  "sound_config (ingress_init mps mb eps eb states ttl) \<Longrightarrow> finite U \<Longrightarrow>
   int (card U) \<le> max_states (ingress_init mps mb eps eb states ttl) \<Longrightarrow>
   ingress_ok U (ingress_init mps mb eps eb states ttl) (ingress_init mps mb eps eb states ttl) t"
  by (simp add: ingress_ok_def ingress_init_def dkeys_def)

lemma byte_ok_init:
  "byte_sound_config (byte_init bps bb states ttl) \<Longrightarrow> finite U \<Longrightarrow>
   int (card U) \<le> byte_max_states (byte_init bps bb states ttl) \<Longrightarrow>
   byte_ok U (byte_init bps bb states ttl) (byte_init bps bb states ttl) t"
  by (simp add: byte_ok_def byte_init_def dkeys_def)

lemma default_configs_sound:
  "sound_config default_ingress" "sound_config default_pre_auth" "byte_sound_config default_bytes"
  by (simp_all add: sound_config_def byte_sound_config_def default_ingress_def default_pre_auth_def
      default_bytes_def ingress_init_def byte_init_def)

definition run_times :: "(seconds \<times> 'r) list \<Rightarrow> seconds \<Rightarrow> (seconds \<times> 'r) list \<Rightarrow> seconds \<Rightarrow> bool" where
  "run_times before t tr t' =
     (sorted (map fst before @ [t] @ map fst tr @ [t']))"

lemma run_timesD:
  assumes "run_times before t tr t'"
  shows "\<exists>t0. t0 \<le> t \<and> sorted (t0 # map fst before)" "\<forall>p \<in> set before. fst p \<le> t"
    "sorted (t # map fst tr)" "\<forall>p \<in> set tr. fst p \<le> t'" "t \<le> t'"
  using assms by (cases before; auto simp: run_times_def sorted_append)+

text \<open>
  C33: With the limits the service runs with, and at most 10000 servers, what one server gets
  through between two instants is at most 40 messages plus 20 a second and 500 events plus 200 a
  second, whatever happened before and whichever other servers send in between; forgetting idle
  servers gives nothing away.
\<close>

theorem ingress_conformance:
  assumes "run_times before t tr t'"
    and "card ((\<lambda>p. strip (fst (snd p))) ` (set before \<union> set tr)) \<le> 10000"
  shows "admitted_cost ingress_cost (server, q)
      (admissions ingress_attempt (state_after ingress_attempt default_ingress before) tr)
    \<le> quota_burst default_ingress q + quota_rate default_ingress q * (t' - t)"
proof -
  define U where "U = (\<lambda>p. strip (fst (snd p))) ` (set before \<union> set tr)"
  obtain t0 where t0: "t0 \<le> t" "sorted (t0 # map fst before)" using run_timesD(1) [OF assms(1)] by blast
  have "ingress_ok U default_ingress default_ingress t0"
    using assms(2) default_configs_sound(1) unfolding default_ingress_def
    by (intro ingress_ok_init) (auto simp: U_def ingress_init_def)
  from ingress.conformance [OF this t0(2) _ t0(1) run_timesD(3) [OF assms(1)] _ run_timesD(5) [OF assms(1)],
      of "(server, q)"] show ?thesis
    using run_timesD(2,4) [OF assms(1)] by (auto simp: U_def)
qed

theorem ingress_conformance_witness:
  "admitted_cost ingress_cost (''srv'', Events)
     (admissions ingress_attempt (state_after ingress_attempt default_ingress [(0, ''srv'', 400)])
        [(1, '' srv '', 300), (2, ''srv'', 500)]) \<le> 500 + 200 * 2"
proof -
  define before tr :: "(seconds \<times> string \<times> int) list"
    where "before = [(0, ''srv'', 400)]" and "tr = [(1, '' srv '', 300), (2, ''srv'', 500)]"
  have "run_times before 1 tr 3" by (simp add: run_times_def before_def tr_def)
  moreover have "card ((\<lambda>p. strip (fst (snd p))) ` (set before \<union> set tr)) \<le> 10000"
    by (simp add: before_def tr_def card_insert_if)
  moreover have "quota_burst default_ingress Events = 500" "quota_rate default_ingress Events = 200"
    by (simp_all add: default_ingress_def ingress_init_def)
  ultimately show ?thesis
    using ingress_conformance [of before 1 tr 3 "''srv''" Events]
    unfolding before_def [symmetric] tr_def [symmetric] by simp
qed

text \<open>
  The same bound for bytes: at most 4 MiB plus 2 MiB a second per server.
\<close>

theorem byte_conformance:
  assumes "run_times before t tr t'"
    and "card ((\<lambda>p. strip (fst (snd p))) ` (set before \<union> set tr)) \<le> 10000"
  shows "admitted_cost byte_cost_of server
      (admissions byte_attempt (state_after byte_attempt default_bytes before) tr)
    \<le> 4 * 1024 * 1024 + 2 * 1024 * 1024 * (t' - t)"
proof -
  define U where "U = (\<lambda>p. strip (fst (snd p))) ` (set before \<union> set tr)"
  obtain t0 where t0: "t0 \<le> t" "sorted (t0 # map fst before)" using run_timesD(1) [OF assms(1)] by blast
  have "byte_ok U default_bytes default_bytes t0"
    using assms(2) default_configs_sound(3) unfolding default_bytes_def
    by (intro byte_ok_init) (auto simp: U_def byte_init_def)
  from bytes.conformance [OF this t0(2) _ t0(1) run_timesD(3) [OF assms(1)] _ run_timesD(5) [OF assms(1)],
      of server] show ?thesis
    using run_timesD(2,4) [OF assms(1)] by (auto simp: U_def default_bytes_def byte_init_def)
qed

theorem byte_conformance_witness:
  "admitted_cost byte_cost_of ''s''
     (admissions byte_attempt (state_after byte_attempt default_bytes []) [(0, ''s'', 4000000), (1, ''s'', 4000000)])
   \<le> 4 * 1024 * 1024 + 2 * 1024 * 1024 * 1"
proof -
  define tr :: "(seconds \<times> string \<times> int) list"
    where "tr = [(0, ''s'', 4000000), (1, ''s'', 4000000)]"
  have "run_times [] 0 tr 1" by (simp add: run_times_def tr_def)
  moreover have "card ((\<lambda>p. strip (fst (snd p))) ` (set [] \<union> set tr)) \<le> 10000"
    by (simp add: tr_def card_insert_if)
  ultimately show ?thesis
    using byte_conformance [of "[]" 0 tr 1 "''s''"] unfolding tr_def [symmetric] by simp
qed

text \<open>
  Admission is exact: after any run with at most 10000 servers a message is admitted exactly
  when the server is named, its cost fits the event burst, and both buckets of the server,
  refilled up to now, can pay for it.
\<close>

theorem ingress_admits_iff:
  assumes "run_times before now [] now"
    and "card (insert (strip server) ((\<lambda>p. strip (fst (snd p))) ` set before)) \<le> 10000"
  shows "let l = state_after ingress_attempt default_ingress before
    in fst (ingress_consume l now server event_cost) \<longleftrightarrow>
      strip server \<noteq> [] \<and> of_int (max 0 event_cost) \<le> event_burst l \<and>
      1 \<le> ingress_level l (strip server, Messages) now \<and>
      of_int (max 0 event_cost) \<le> ingress_level l (strip server, Events) now"
proof -
  define U where "U = insert (strip server) ((\<lambda>p. strip (fst (snd p))) ` set before)"
  obtain t0 where t0: "t0 \<le> now" "sorted (t0 # map fst before)" using run_timesD(1) [OF assms(1)] by blast
  have "ingress_ok U default_ingress default_ingress t0"
    using assms(2) default_configs_sound(1) unfolding default_ingress_def
    by (intro ingress_ok_init) (auto simp: U_def ingress_init_def)
  then have "ingress_ok U default_ingress (state_after ingress_attempt default_ingress before) now"
    by (rule ingress.ok_after [OF _ t0(2) _ t0(1) run_timesD(2) [OF assms(1)]]) (auto simp: U_def)
  from ingress_attempt_shape(1) [OF this, of "(server, event_cost)"] show ?thesis
    by (simp add: U_def ingress_attempt_def Let_def)
qed

theorem ingress_admits_iff_witness:
  "fst (ingress_consume (state_after ingress_attempt default_ingress []) 5 ''srv'' 500) \<and>
   \<not> fst (ingress_consume (state_after ingress_attempt default_ingress []) 5 ''srv'' 501)"
proof -
  have "run_times [] 5 [] (5::seconds)" by (simp add: run_times_def)
  from ingress_admits_iff [OF this, of "''srv''" 500] ingress_admits_iff [OF this, of "''srv''" 501]
  show ?thesis
    by (simp add: ingress_level_def default_ingress_def ingress_init_def strip_def rstrip_def lstrip_def
        is_space_def code_def Let_def)
qed

text \<open>
  The table of servers never grows beyond \<open>max_states\<close>: each message that would add a server
  first drops the server updated least recently.
\<close>

theorem ingress_table_bounded:
  assumes "distinct (dkeys (ingress_states l))" "int (length (ingress_states l)) \<le> max_states l" "1 \<le> max_states l"
  shows "int (length (ingress_states (snd (ingress_consume l now server event_cost)))) \<le> max_states l \<and>
    distinct (dkeys (ingress_states (snd (ingress_consume l now server event_cost))))"
proof -
  define d where "d = evict_stale (state_ttl_seconds l) updated_at now (ingress_states l)"
  define d1 where "d1 = (if map_of d (strip server) = None \<and> max_states l \<le> int (length d)
    then pop_least_recent updated_at d else d)"
  have d: "distinct (dkeys d)" "length d \<le> length (ingress_states l)"
    using evict_stale_subset(2) [OF assms(1)] assms(1)
    by (auto simp: d_def evict_stale_filter)
  have d1: "distinct (dkeys d1)" "int (length (dset (strip server) st d1)) \<le> max_states l" for st
  proof -
    show "distinct (dkeys d1)"
      using d(1) length_pop_least_recent(2) [OF d(1)] assms(3) by (cases "d = []") (auto simp: d1_def)
    show "int (length (dset (strip server) st d1)) \<le> max_states l"
    proof (cases "map_of d (strip server) = None \<and> max_states l \<le> int (length d)")
      case True
      then have "d \<noteq> []" using assms(3) by auto
      from length_pop_least_recent(1) [OF d(1) this, of updated_at] True d(2) assms(2)
      show ?thesis by (simp add: d1_def length_dset)
    next
      case False
      then have "d1 = d" by (auto simp: d1_def)
      then show ?thesis using False d(2) assms(2) by (auto simp: length_dset)
    qed
  qed
  have "\<exists>st. ingress_states (snd (ingress_consume l now server event_cost)) = ingress_states l \<or>
      ingress_states (snd (ingress_consume l now server event_cost)) = dset (strip server) st d1"
    unfolding ingress_consume_def Let_def d_def [symmetric] d1_def [symmetric] by auto
  then show ?thesis using assms(1,2) d1 by auto
qed

theorem ingress_table_bounded_witness:
  "int (length (ingress_states (snd (ingress_consume (ingress_init 1 1 1 1 1 0) 0 ''s'' 1)))) \<le> 1"
  using ingress_table_bounded [of "ingress_init 1 1 1 1 1 0" 0 "''s''" 1]
  by (simp add: ingress_init_def dkeys_def)

end
