(* ===== verification/Bridge_Payload.thy ===== *)
theory Bridge_Payload
  imports Py_Values Bridge_Ingress
begin

text \<open>
  Bounded reading and validation of Event Bridge messages: the payload half of
  \<open>emby_runtime/event_bridge_limits.py\<close> and \<open>emby_runtime/event_bridge_payloads.py\<close>.  The JSON
  parser (\<open>json.loads\<close>) is the parameter \<open>decode\<close>; a decoded document is a value of \<open>py\<close>.
  Exceptions are the constructors of \<open>bridge_error\<close>; \<open>Uncaught\<close> marks one the code does not
  raise on purpose.
\<close>

datatype bridge_error =
    PayloadTooLarge string
  | InvalidJson string
  | PayloadShapeError string
  | IngressRateExceeded string
  | WebSocketDisconnect int
  | Uncaught exn

subsection \<open>Shape\<close>

definition semantic_string_fields :: "string list" where
  "semantic_string_fields =
     [''eventname'', ''eventtype'', ''messagetype'', ''name'', ''serverid'', ''servername'', ''type'']"

definition string_limit :: "string \<Rightarrow> nat" where
  "string_limit field =
     (if lower (replace_char (CHR ''_'') [] field) \<in> set semantic_string_fields then 256 else 4096)"

definition validate_string :: "string \<Rightarrow> string \<Rightarrow> bridge_error option" where
  "validate_string field s =
     (if string_limit field < length s
      then Some (PayloadShapeError (''Campo Event Bridge troppo lungo: '' @
        (if field = [] then ''valore'' else field)))
      else None)"

fun first_error :: "bridge_error option list \<Rightarrow> bridge_error option" where
  "first_error [] = None"
| "first_error (e # es) = (case e of None \<Rightarrow> first_error es | Some x \<Rightarrow> Some x)"

fun validate_value :: "string \<Rightarrow> nat \<Rightarrow> py \<Rightarrow> bridge_error option" where
  "validate_value field depth v =
     (if 12 < depth then Some (PayloadShapeError ''Payload Event Bridge troppo annidato'')
      else (case v of
        PStr s \<Rightarrow> validate_string field s
      | PDict d \<Rightarrow>
          (if 128 < length d then Some (PayloadShapeError ''Oggetto Event Bridge con troppi campi'')
           else first_error (map (\<lambda>p.
             if 256 < length (fst p)
             then Some (PayloadShapeError ''Nome campo Event Bridge troppo lungo'')
             else validate_value (fst p) (depth + 1) (snd p)) d))
      | PList xs \<Rightarrow>
          (if 500 < length xs then Some (PayloadShapeError ''Lista Event Bridge troppo lunga'')
           else first_error (map (validate_value field (depth + 1)) xs))
      | _ \<Rightarrow> None))"

declare validate_value.simps [simp del]

definition event_schemas :: "string list" where
  "event_schemas = [''octohubs.emby.event.v1'']"

definition batch_schemas :: "string list" where
  "batch_schemas = [''octohubs.emby.event_batch.v1'']"

text \<open>\<open>v in {strings}\<close>: a list or a dictionary is not hashable, so the test raises.\<close>

definition in_strings :: "py \<Rightarrow> string list \<Rightarrow> exn + bool" where
  "in_strings v names =
     (case v of
        PStr s \<Rightarrow> Inr (s \<in> set names)
      | PList xs \<Rightarrow> Inl (TypeError ''unhashable type: list'')
      | PDict d \<Rightarrow> Inl (TypeError ''unhashable type: dict'')
      | _ \<Rightarrow> Inr False)"

definition is_dict :: "py \<Rightarrow> bool" where
  "is_dict v = (case v of PDict d \<Rightarrow> True | _ \<Rightarrow> False)"

definition validate_batch :: "pdict \<Rightarrow> bridge_error + pdict" where
  "validate_batch payload =
     (case pget payload ''events'' of
        PList events \<Rightarrow>
          if events = []
          then Inl (PayloadShapeError (''Il batch Event Bridge non pu'' @ [CHR 0xF2] @ '' essere vuoto''))
          else if 500 < length events
          then Inl (PayloadShapeError ''Il batch Event Bridge supera il limite di 500 eventi'')
          else if list_ex (\<lambda>e. \<not> is_dict e) events
          then Inl (PayloadShapeError ''Ogni evento del batch Event Bridge deve essere un oggetto JSON'')
          else Inr payload
      | _ \<Rightarrow> Inl (PayloadShapeError ''Il batch Event Bridge richiede una lista events''))"

definition validate_payload_shape :: "py \<Rightarrow> bridge_error + pdict" where
  "validate_payload_shape v =
     (case v of
        PDict payload \<Rightarrow>
          (case validate_value [] 0 v of
             Some e \<Rightarrow> Inl e
           | None \<Rightarrow>
               let schema = pget payload ''schema''
               in if schema = PNone then Inr payload
                  else (case in_strings schema (event_schemas @ batch_schemas) of
                    Inl e \<Rightarrow> Inl (Uncaught e)
                  | Inr known \<Rightarrow>
                      if \<not> known then Inl (PayloadShapeError ''Schema Event Bridge non supportato'')
                      else (case in_strings schema batch_schemas of
                         Inl e \<Rightarrow> Inl (Uncaught e)
                       | Inr batch \<Rightarrow> if \<not> batch then Inr payload else validate_batch payload)))
      | _ \<Rightarrow> Inl (PayloadShapeError ''Il payload Event Bridge deve essere un oggetto JSON''))"

definition payload_cost :: "pdict \<Rightarrow> exn + int" where
  "payload_cost payload =
     result_bind (in_strings (pget payload ''schema'') batch_schemas) (\<lambda>batch.
       let other =
         (if lower (strip (text_or_empty (pget payload ''type''))) \<in> {''hello'', ''configure_ack''}
          then 0 else 1)
       in case pget payload ''events'' of
            PList events \<Rightarrow> Inr (if batch then max 1 (int (length events)) else other)
          | _ \<Rightarrow> Inr other)"

definition bounded_text :: "py \<Rightarrow> nat \<Rightarrow> string" where
  "bounded_text v max_chars = take max_chars (strip (text_or_empty v))"

subsection \<open>Reading\<close>

text \<open>The integer hook given to \<open>json.loads\<close>: at most 100 digits, any number of leading signs.\<close>

definition parse_bounded_json_integer :: "string \<Rightarrow> exn + int" where
  "parse_bounded_json_integer s =
     (if 100 < length (dropWhile (\<lambda>c. c = CHR ''-'') s) then Inl (ValueError ''Intero JSON troppo lungo'')
      else py_int (PStr s))"

definition declared_content_length :: "(string \<Rightarrow> string option) \<Rightarrow> nat option" where
  "declared_content_length header =
     (let raw = (case header ''content-length'' of
                   Some v \<Rightarrow> if v \<noteq> [] then Some v else header ''Content-Length''
                 | None \<Rightarrow> header ''Content-Length'')
      in case raw of
           None \<Rightarrow> None
         | Some v \<Rightarrow>
             (case parse_int (strip v) of
                None \<Rightarrow> None
              | Some i \<Rightarrow> if 0 \<le> i then Some (nat i) else None))"

text \<open>
  A byte consumer is a stateful predicate on a number of bytes; \<open>None\<close> is an absent one.  A chunk
  that is not \<open>bytes\<close> is \<open>None\<close>.
\<close>

type_synonym 'c byte_consumer = "('c \<Rightarrow> nat \<Rightarrow> bool \<times> 'c) option"

definition charge :: "'c byte_consumer \<Rightarrow> 'c \<Rightarrow> nat \<Rightarrow> bool \<times> 'c" where
  "charge consumer c n =
     (case consumer of None \<Rightarrow> (True, c) | Some f \<Rightarrow> if n = 0 then (True, c) else f c n)"

definition body_too_large :: "nat \<Rightarrow> bridge_error" where
  "body_too_large max_bytes =
     PayloadTooLarge (''Il payload Event Bridge supera '' @ str_nat max_bytes @ '' byte'')"

fun read_chunks ::
    "nat \<Rightarrow> nat \<Rightarrow> 'c byte_consumer \<Rightarrow> 'c \<Rightarrow> string \<Rightarrow> string option list \<Rightarrow> (bridge_error + string) \<times> 'c"
  where
  "read_chunks max_bytes reserved consumer c body [] = (Inr body, c)"
| "read_chunks max_bytes reserved consumer c body (None # chunks) =
     (Inl (InvalidJson ''Corpo richiesta Event Bridge non valido''), c)"
| "read_chunks max_bytes reserved consumer c body (Some chunk # chunks) =
     (let previous = length body; total = previous + length chunk
      in if max_bytes < total then (Inl (body_too_large max_bytes), c)
         else let (ok, c') = charge consumer c (total - max previous reserved)
              in if ok then read_chunks max_bytes reserved consumer c' (body @ chunk) chunks
                 else (Inl (IngressRateExceeded ''Quota byte Event Bridge temporaneamente superata''), c'))"

text \<open>
  \<open>except (ValueError, UnicodeDecodeError, RecursionError)\<close>: the second is a \<open>ValueError\<close>, the
  third the only \<open>RuntimeError\<close> the parser raises.
\<close>

definition decode_json :: "(string \<Rightarrow> exn + py) \<Rightarrow> string \<Rightarrow> string \<Rightarrow> bridge_error + py" where
  "decode_json decode message raw =
     (case decode raw of
        Inr v \<Rightarrow> Inr v
      | Inl (ValueError m) \<Rightarrow> Inl (InvalidJson message)
      | Inl (RuntimeError m) \<Rightarrow> Inl (InvalidJson message)
      | Inl e \<Rightarrow> Inl (Uncaught e))"

definition read_http_json ::
    "(string \<Rightarrow> exn + py) \<Rightarrow> nat \<Rightarrow> 'c byte_consumer \<Rightarrow> 'c \<Rightarrow> (string \<Rightarrow> string option)
      \<Rightarrow> string option list option \<Rightarrow> (bridge_error + py) \<times> 'c" where
  "read_http_json decode max_bytes consumer c header stream =
     (let declared = declared_content_length header;
          reserved = (case declared of None \<Rightarrow> 0 | Some n \<Rightarrow> n)
      in if max_bytes < reserved then (Inl (body_too_large max_bytes), c)
         else let (ok, c') = charge consumer c reserved
              in if \<not> ok then (Inl (IngressRateExceeded ''Quota byte Event Bridge temporaneamente superata''), c')
                 else (case stream of
                   None \<Rightarrow> (Inl (InvalidJson ''Corpo richiesta Event Bridge non disponibile''), c')
                 | Some chunks \<Rightarrow>
                     (case read_chunks max_bytes reserved consumer c' [] chunks of
                        (Inl e, c'') \<Rightarrow> (Inl e, c'')
                      | (Inr body, c'') \<Rightarrow> (decode_json decode ''JSON Event Bridge non valido'' body, c''))))"

text \<open>A WebSocket message of the ASGI server: the fields the code reads.\<close>

datatype frame = Absent | TextFrame string | BytesFrame string | OtherFrame

record ws_message =
  ws_type :: py
  ws_code :: py
  ws_text :: frame
  ws_bytes :: frame

definition frame_bytes :: "ws_message \<Rightarrow> bridge_error + string \<times> nat" where
  "frame_bytes m =
     (case ws_text m of
        TextFrame t \<Rightarrow> Inr (t, length (utf8_encode t))
      | Absent \<Rightarrow>
          (case ws_bytes m of
             BytesFrame b \<Rightarrow> Inr (b, length b)
           | Absent \<Rightarrow> Inl (InvalidJson ''Frame WebSocket Event Bridge vuoto'')
           | _ \<Rightarrow> Inl (InvalidJson ''Frame WebSocket Event Bridge non valido''))
      | _ \<Rightarrow> Inl (InvalidJson ''Frame WebSocket Event Bridge non valido''))"

definition receive_websocket_json ::
    "(string \<Rightarrow> exn + py) \<Rightarrow> nat \<Rightarrow> 'c byte_consumer \<Rightarrow> 'c \<Rightarrow> ws_message option \<Rightarrow> (bridge_error + py) \<times> 'c"
  where
  "receive_websocket_json decode max_bytes consumer c message =
     (case message of
        None \<Rightarrow> (Inl (InvalidJson ''Frame WebSocket Event Bridge non valido''), c)
      | Some m \<Rightarrow>
          if text_or_empty (ws_type m) = ''websocket.disconnect''
          then (Inl (case py_int (py_or (ws_code m) (PInt 1000)) of
                       Inr n \<Rightarrow> WebSocketDisconnect n | Inl e \<Rightarrow> Uncaught e), c)
          else if text_or_empty (ws_type m) \<noteq> ''websocket.receive''
          then (Inl (InvalidJson ''Frame WebSocket Event Bridge non valido''), c)
          else (case frame_bytes m of
              Inl e \<Rightarrow> (Inl e, c)
            | Inr (raw, n) \<Rightarrow>
                if max_bytes < n then (Inl (PayloadTooLarge (''Il frame Event Bridge supera '' @ str_nat max_bytes @ '' byte'')), c)
                else let (ok, c') = charge consumer c n
                     in if \<not> ok
                        then (Inl (IngressRateExceeded ''Quota byte Event Bridge temporaneamente superata''), c')
                        else (decode_json decode ''JSON WebSocket Event Bridge non valido'' raw, c')))"

subsection \<open>Expansion and transport mark\<close>

definition event_bridge_payloads :: "pdict \<Rightarrow> exn + pdict list" where
  "event_bridge_payloads payload =
     result_bind (in_strings (pget payload ''schema'') batch_schemas) (\<lambda>batch.
       if \<not> batch then Inr [payload]
       else (case pget payload ''events'' of
               PList events \<Rightarrow>
                 Inr (concat (map (\<lambda>e. case e of PDict d \<Rightarrow> [d] | _ \<Rightarrow> []) events))
             | _ \<Rightarrow> Inr []))"

definition transport_key :: string where
  "transport_key = ''_eventBridgeTransport''"

definition mark_event :: "string \<Rightarrow> py \<Rightarrow> py" where
  "mark_event transport e =
     (case e of PDict d \<Rightarrow> PDict (dset transport_key (PStr transport) d) | _ \<Rightarrow> e)"

definition mark_event_bridge_transport :: "pdict \<Rightarrow> string \<Rightarrow> exn + pdict" where
  "mark_event_bridge_transport payload transport =
     (let clean = strip transport
      in result_bind (in_strings (pget payload ''schema'') batch_schemas) (\<lambda>batch.
           if \<not> batch then Inr (dset transport_key (PStr clean) payload)
           else (case pget payload ''events'' of
                   PList events \<Rightarrow>
                     Inr (dset transport_key (PStr clean)
                       (dset ''events'' (PList (map (mark_event clean) events)) payload))
                 | _ \<Rightarrow> Inr (dset transport_key (PStr clean) payload))))"

definition consume_event_bridge_ingress ::
    "ingress_limiter \<Rightarrow> seconds \<Rightarrow> string \<Rightarrow> pdict \<Rightarrow> (exn + bool) \<times> ingress_limiter" where
  "consume_event_bridge_ingress l now server_id payload =
     (case payload_cost payload of
        Inl e \<Rightarrow> (Inl e, l)
      | Inr cost \<Rightarrow> (let (ok, l') = ingress_consume l now server_id cost in (Inr ok, l')))"

subsection \<open>What a valid payload is\<close>

text \<open>Every value inside a document, with the field it is read under and its depth.\<close>

fun subvalues :: "string \<Rightarrow> nat \<Rightarrow> py \<Rightarrow> (string \<times> nat \<times> py) list" where
  "subvalues field depth v = (field, depth, v) #
     (case v of
        PDict d \<Rightarrow> concat (map (\<lambda>p. subvalues (fst p) (depth + 1) (snd p)) d)
      | PList xs \<Rightarrow> concat (map (subvalues field (depth + 1)) xs)
      | _ \<Rightarrow> [])"

declare subvalues.simps [simp del]

definition within_limits :: "string \<times> nat \<times> py \<Rightarrow> bool" where
  "within_limits x =
     (case x of (field, depth, v) \<Rightarrow>
        depth \<le> 12 \<and>
        (case v of
           PStr s \<Rightarrow> length s \<le> string_limit field
         | PDict d \<Rightarrow> length d \<le> 128 \<and> list_all (\<lambda>p. length (fst p) \<le> 256) d
         | PList xs \<Rightarrow> length xs \<le> 500
         | _ \<Rightarrow> True))"

lemma first_error_None: "first_error es = None \<longleftrightarrow> list_all (\<lambda>e. e = None) es"
  by (induction es) (auto split: option.splits)

lemma validate_value_iff: "validate_value field depth v = None \<longleftrightarrow> list_all within_limits (subvalues field depth v)"
proof (induction field depth v rule: validate_value.induct)
  case (1 field depth v)
  show ?case
  proof (cases "12 < depth")
    case True
    then show ?thesis
      by (simp add: validate_value.simps [of field depth] subvalues.simps [of field depth] within_limits_def)
  next
    case False
    show ?thesis
    proof (cases v)
        case (PDict d)
      have IH: "validate_value (fst p) (depth + 1) (snd p) = None \<longleftrightarrow>
          list_all within_limits (subvalues (fst p) (depth + 1) (snd p))"
        if "p \<in> set d" "length d \<le> 128" "length (fst p) \<le> 256" for p
        using "1.IH"(2) [OF False PDict] that by auto
      have sub: "list_all within_limits (subvalues field depth v) \<longleftrightarrow>
          length d \<le> 128 \<and> (\<forall>p \<in> set d. length (fst p) \<le> 256 \<and>
            list_all within_limits (subvalues (fst p) (depth + 1) (snd p)))"
        using False unfolding PDict subvalues.simps [of field depth]
        by (simp add: within_limits_def [of "(field, depth, PDict d)"]) (auto simp: list_all_iff)
      have "validate_value field depth v = None \<longleftrightarrow>
          length d \<le> 128 \<and> (\<forall>p \<in> set d. length (fst p) \<le> 256 \<and>
            validate_value (fst p) (depth + 1) (snd p) = None)"
        using False unfolding PDict validate_value.simps [of field depth]
        by (simp add: first_error_None list.pred_map comp_def) (auto simp: list_all_iff not_less)
      then show ?thesis unfolding sub using IH by blast
    next
      case (PList xs)
      have IH: "validate_value field (depth + 1) x = None \<longleftrightarrow>
          list_all within_limits (subvalues field (depth + 1) x)" if "x \<in> set xs" "length xs \<le> 500" for x
        using "1.IH"(1) [OF False PList] that by auto
      have sub: "list_all within_limits (subvalues field depth v) \<longleftrightarrow>
          length xs \<le> 500 \<and> (\<forall>x \<in> set xs. list_all within_limits (subvalues field (depth + 1) x))"
        using False unfolding PList subvalues.simps [of field depth]
        by (simp add: within_limits_def [of "(field, depth, PList xs)"]) (auto simp: list_all_iff)
      have "validate_value field depth v = None \<longleftrightarrow>
          length xs \<le> 500 \<and> (\<forall>x \<in> set xs. validate_value field (depth + 1) x = None)"
        using False unfolding PList validate_value.simps [of field depth]
        by (simp add: first_error_None list_all_iff not_less)
      then show ?thesis unfolding sub using IH by blast
    qed (use False in \<open>simp_all add: validate_value.simps [of field depth] subvalues.simps [of field depth]
      within_limits_def validate_string_def not_less\<close>)
  qed
qed

definition supported_schema :: "py \<Rightarrow> bool" where
  "supported_schema v =
     (v = PNone \<or> v = PStr ''octohubs.emby.event.v1'' \<or> v = PStr ''octohubs.emby.event_batch.v1'')"

definition proper_batch :: "pdict \<Rightarrow> bool" where
  "proper_batch payload =
     (case pget payload ''events'' of
        PList events \<Rightarrow> events \<noteq> [] \<and> length events \<le> 500 \<and> list_all is_dict events
      | _ \<Rightarrow> False)"

lemma validate_batch_iff: "validate_batch payload = Inr p \<longleftrightarrow> p = payload \<and> proper_batch payload"
  by (auto simp: validate_batch_def proper_batch_def list_ex_iff list_all_iff not_less split: py.splits)

lemma accepted_payload:
  "validate_payload_shape v = Inr p \<longleftrightarrow>
     v = PDict p \<and> list_all within_limits (subvalues [] 0 v) \<and> supported_schema (pget p ''schema'') \<and>
     (pget p ''schema'' = PStr ''octohubs.emby.event_batch.v1'' \<longrightarrow> proper_batch p)"
proof (cases v)
  case (PDict d)
  show ?thesis
  proof (cases "validate_value [] 0 v")
    case None
    then have ok: "list_all within_limits (subvalues [] 0 v)" by (simp add: validate_value_iff)
    show ?thesis
      using None ok unfolding PDict
      by (cases "pget d ''schema''")
        (auto simp: validate_payload_shape_def Let_def in_strings_def event_schemas_def batch_schemas_def
          supported_schema_def validate_batch_iff split: if_splits)
  next
    case (Some e)
    then have bad: "\<not> list_all within_limits (subvalues [] 0 v)"
      using validate_value_iff [of "[]" 0 v] by simp
    show ?thesis using Some bad by (simp add: PDict validate_payload_shape_def)
  qed
qed (simp_all add: validate_payload_shape_def)

text \<open>
  A message is accepted exactly when it is a dictionary all of whose nested values respect
  the limits on depth (12), string length (4096, or 256 for names and types), fields (128), field
  names (256) and array items (500), its schema is absent or supported, and a batch holds 1 to 500
  event objects; an accepted message is passed on unchanged.
\<close>

theorem validate_payload_iff:
  "validate_payload_shape v = Inr p \<longleftrightarrow>
     v = PDict p \<and> list_all within_limits (subvalues [] 0 v) \<and> supported_schema (pget p ''schema'') \<and>
     (if pget p ''schema'' = PStr ''octohubs.emby.event_batch.v1'' then proper_batch p else True)"
  by (auto simp: accepted_payload)

text \<open>
  Every accepted message costs between 0 and 500 events, and a batch costs its number of
  events, so no accepted message exceeds the event burst of the running ingress limiter.
\<close>

theorem payload_cost_bounds:
  assumes "validate_payload_shape v = Inr p"
  shows "\<exists>c. payload_cost p = Inr c \<and> 0 \<le> c \<and> of_int c \<le> event_burst default_ingress \<and>
    (\<forall>events. pget p ''schema'' = PStr ''octohubs.emby.event_batch.v1'' \<and> pget p ''events'' = PList events
       \<longrightarrow> c = int (length events))"
proof -
  have ok: "supported_schema (pget p ''schema'')"
    "pget p ''schema'' = PStr ''octohubs.emby.event_batch.v1'' \<longrightarrow> proper_batch p"
    using assms unfolding accepted_payload by blast+
  have burst: "event_burst default_ingress = 500" by (simp add: default_ingress_def ingress_init_def)
  show ?thesis
  proof (cases "pget p ''schema'' = PStr ''octohubs.emby.event_batch.v1''")
    case True
    then obtain events where e: "pget p ''events'' = PList events" "events \<noteq> []" "length events \<le> 500"
      using ok(2) by (auto simp: proper_batch_def split: py.splits)
    then have "payload_cost p = Inr (int (length events))"
      by (cases events) (simp_all add: payload_cost_def True in_strings_def batch_schemas_def Let_def)
    then show ?thesis using e burst by auto
  next
    case False
    then have "in_strings (pget p ''schema'') batch_schemas = Inr False"
      using ok(1) by (auto simp: supported_schema_def in_strings_def batch_schemas_def)
    then have "payload_cost p \<in> {Inr 0, Inr 1}"
      by (auto simp: payload_cost_def Let_def split: py.splits)
    then show ?thesis using burst False by auto
  qed
qed

theorem payload_cost_bounds_witness:
  "\<exists>c. payload_cost [(''schema'', PStr ''octohubs.emby.event_batch.v1''), (''events'', PList [PDict [], PDict []])]
     = Inr c \<and> 0 \<le> c \<and> of_int c \<le> event_burst default_ingress"
proof -
  define p where "p = [(''schema'', PStr ''octohubs.emby.event_batch.v1''), (''events'', PList [PDict [], PDict []])]"
  have "validate_payload_shape (PDict p) = Inr p" unfolding p_def by code_simp
  from payload_cost_bounds [OF this] show ?thesis unfolding p_def by blast
qed

text \<open>
  A message whose schema is a list or an object is not refused with a shape error: the
  membership test raises \<open>TypeError\<close>, which is not one of the errors the transports turn into a
  refusal.
\<close>

theorem unhashable_schema_uncaught:
  "validate_payload_shape (PDict [(''schema'', PList [])]) = Inl (Uncaught (TypeError ''unhashable type: list''))"
  by code_simp

subsection \<open>What reading a body costs\<close>

text \<open>A consumer with a meter of the bytes it granted.\<close>

definition metered :: "('c \<Rightarrow> nat \<Rightarrow> bool \<times> 'c) \<Rightarrow> 'c \<times> nat \<Rightarrow> nat \<Rightarrow> bool \<times> ('c \<times> nat)" where
  "metered f s n = (let (ok, c') = f (fst s) n in (ok, (c', if ok then snd s + n else snd s)))"

lemma charge_metered:
  "charge (Some (metered f)) s n = (True, s') \<Longrightarrow> snd s' = snd s + n"
  by (auto simp: charge_def metered_def split: if_splits prod.splits)

lemma read_chunks_pays:
  assumes "read_chunks m reserved (Some (metered f)) s body chunks = (Inr out, s')" "length body \<le> m"
  shows "\<exists>bs. chunks = map Some bs \<and> out = body @ concat bs \<and> length out \<le> m \<and>
    snd s' + max (length body) reserved = snd s + max (length out) reserved"
  using assms
proof (induction m reserved "Some (metered f)" s body chunks rule: read_chunks.induct)
  case (3 m reserved c body chunk chunks)
  define n where "n = length body + length chunk - max (length body) reserved"
  have fit: "length (body @ chunk) \<le> m" using "3.prems"(1) by (auto simp: Let_def split: if_splits)
  obtain c1 where c1: "charge (Some (metered f)) c n = (True, c1)"
    and rest: "read_chunks m reserved (Some (metered f)) c1 (body @ chunk) chunks = (Inr out, s')"
    using "3.prems"(1) fit by (auto simp: Let_def n_def split: prod.splits if_splits)
  have "\<exists>bs. chunks = map Some bs \<and> out = (body @ chunk) @ concat bs \<and> length out \<le> m \<and>
      snd s' + max (length (body @ chunk)) reserved = snd c1 + max (length out) reserved"
    using "3.hyps" [OF refl refl _ refl, of True c1] c1 fit rest by (simp add: n_def)
  then obtain bs where bs: "chunks = map Some bs" "out = (body @ chunk) @ concat bs" "length out \<le> m"
    "snd s' + max (length (body @ chunk)) reserved = snd c1 + max (length out) reserved" by blast
  moreover have "snd c1 = snd c + n" using c1 by (rule charge_metered)
  ultimately show ?case by (intro exI [of _ "chunk # bs"]) (auto simp: n_def max_def split: if_splits)
qed auto

text \<open>
  A body that is decoded is exactly the concatenation of the received chunks, has at most
  \<open>max_bytes\<close> bytes, and was paid for in full from the byte quota: the larger of the declared
  and the received length, no byte twice.
\<close>

theorem read_http_pays:
  assumes "read_http_json decode m (Some (metered f)) (c, 0) header (Some chunks) = (Inr v, s')"
  shows "\<exists>bs. chunks = map Some bs \<and> length (concat bs) \<le> m \<and> decode (concat bs) = Inr v \<and>
    snd s' = max (length (concat bs)) (case declared_content_length header of None \<Rightarrow> 0 | Some n \<Rightarrow> n)"
proof -
  define reserved where "reserved = (case declared_content_length header of None \<Rightarrow> 0 | Some n \<Rightarrow> n)"
  obtain c1 body c2 where c1: "charge (Some (metered f)) (c, 0) reserved = (True, c1)"
    and body: "read_chunks m reserved (Some (metered f)) c1 [] chunks = (Inr body, c2)"
    and dec: "decode_json decode ''JSON Event Bridge non valido'' body = Inr v" "s' = c2"
    using assms
    by (auto simp: read_http_json_def Let_def reserved_def [symmetric] split: if_splits prod.splits sum.splits)
  have "decode body = Inr v" using dec(1) by (auto simp: decode_json_def split: sum.splits exn.splits)
  moreover have "snd c1 = reserved" using charge_metered [OF c1] by simp
  moreover obtain bs where "chunks = map Some bs" "body = concat bs" "length body \<le> m"
    "snd c2 + max 0 reserved = snd c1 + max (length body) reserved"
    using read_chunks_pays [OF body] by auto
  ultimately show ?thesis using dec(2) unfolding reserved_def [symmetric] by auto
qed

theorem read_http_pays_witness:
  "\<exists>bs. [Some ''ab'', Some ''c''] = map Some bs \<and> length (concat bs) \<le> 10"
proof -
  have "read_http_json (\<lambda>s. Inr (PStr s)) 10 (Some (metered (\<lambda>c n. (True, c)))) (c, 0)
      (\<lambda>h. if h = ''content-length'' then Some ''2'' else None) (Some [Some ''ab'', Some ''c''])
    = (Inr (PStr ''abc''), (c, 3))" for c :: unit
    by (simp add: read_http_json_def declared_content_length_def charge_def metered_def decode_json_def
        parse_int_def strip_def rstrip_def lstrip_def is_space_def code_def parse_digits_def is_digit_def
        digits_val_def digit_val_def Let_def)
  from read_http_pays [OF this [of "()"]] show ?thesis by (elim exE conjE) (intro exI conjI)
qed

text \<open>
  Marking a message with its transport and then splitting it into events gives the events of
  the unmarked message, each with the transport added and nothing else changed; it fails exactly
  when splitting fails.
\<close>

theorem mark_then_split:
  "result_bind (mark_event_bridge_transport payload transport) event_bridge_payloads =
   result_bind (event_bridge_payloads payload)
     (\<lambda>events. Inr (map (dset transport_key (PStr (strip transport))) events))"
proof -
  have mark: "concat (map (\<lambda>e. case e of PDict d \<Rightarrow> [d] | _ \<Rightarrow> []) (map (mark_event t) es)) =
      map (dset transport_key (PStr t)) (concat (map (\<lambda>e. case e of PDict d \<Rightarrow> [d] | _ \<Rightarrow> []) es))" for t es
    by (induction es) (auto simp: mark_event_def split: py.splits)
  have keys: "transport_key \<noteq> ''schema''" "transport_key \<noteq> ''events''" "''schema'' \<noteq> ''events''"
    by (simp_all add: transport_key_def)
  show ?thesis
  proof (cases "in_strings (pget payload ''schema'') batch_schemas")
    case (Inr batch)
    then show ?thesis
      using keys
      by (cases "pget payload ''events''")
        (auto simp: mark_event_bridge_transport_def event_bridge_payloads_def Let_def mark [simplified])
  qed (simp add: mark_event_bridge_transport_def event_bridge_payloads_def)
qed

end
