(* ===== verification/Leases.thy ===== *)
theory Leases
  imports Py_Values
begin

text \<open>
  Connection quotas by leases: \<open>emby_runtime/event_bridge_connection_limits.py\<close> (a global and a
  per-server count) and \<open>realtime/connection_limits.py\<close> (a count per subject and channel).  The
  module globals are the state; a lease object is a record with its \<open>released\<close> flag; the
  environment is an argument.  The locale \<open>lease_pool\<close> is the contract of both.
\<close>

record 'k lease =
  lease_key :: 'k
  released :: bool

text \<open>\<open>max(1, min(int(environ.get(name, "") or default), maximum))\<close>, \<open>default\<close> on a bad text.\<close>

definition bounded_limit :: "string option \<Rightarrow> int \<Rightarrow> int \<Rightarrow> int" where
  "bounded_limit env dflt maximum =
     (let raw = (case env of None \<Rightarrow> [] | Some s \<Rightarrow> s)
      in if raw = [] then max 1 (min dflt maximum)
         else (case parse_int raw of None \<Rightarrow> dflt | Some i \<Rightarrow> max 1 (min i maximum)))"

text \<open>\<open>count <= 1\<close> forgets the key, otherwise the count goes down.\<close>

definition release_count :: "'k \<Rightarrow> ('k, int) dict \<Rightarrow> ('k, int) dict" where
  "release_count k counts =
     (let count = dget_default counts k 0
      in if count \<le> 1 then dpop k counts else dset k (count - 1) counts)"

subsection \<open>Event Bridge connections\<close>

record bridge_connections =
  global_count :: int
  server_counts :: "(string, int) dict"

definition bridge_release_locked :: "string \<Rightarrow> bridge_connections \<Rightarrow> bridge_connections" where
  "bridge_release_locked server_id s =
     s\<lparr>global_count := max 0 (global_count s - 1), server_counts := release_count server_id (server_counts s)\<rparr>"

definition bridge_release :: "bridge_connections \<Rightarrow> string lease \<Rightarrow> bridge_connections \<times> string lease" where
  "bridge_release s l =
     (if released l then (s, l)
      else (bridge_release_locked (lease_key l) s, l\<lparr>released := True\<rparr>))"

definition acquire_bridge_connection ::
    "(string \<Rightarrow> string option) \<Rightarrow> bridge_connections \<Rightarrow> string \<Rightarrow> string lease option \<times> bridge_connections"
  where
  "acquire_bridge_connection environ s server_id =
     (let clean = strip server_id;
          global_limit = bounded_limit (environ ''OCTOHUBS_EVENT_BRIDGE_CONNECTIONS_GLOBAL'') 64 1024;
          server_limit = bounded_limit (environ ''OCTOHUBS_EVENT_BRIDGE_CONNECTIONS_PER_SERVER'') 3 20;
          current = dget_default (server_counts s) clean 0
      in if clean = [] then (None, s)
         else if global_limit \<le> global_count s then (None, s)
         else if server_limit \<le> current then (None, s)
         else (Some \<lparr>lease_key = clean, released = False\<rparr>,
               s\<lparr>global_count := global_count s + 1, server_counts := dset clean (current + 1) (server_counts s)\<rparr>))"

definition reset_bridge_connections :: "bridge_connections \<Rightarrow> bridge_connections" where
  "reset_bridge_connections s = \<lparr>global_count = 0, server_counts = []\<rparr>"

subsection \<open>Realtime connections\<close>

text \<open>
  A subject is an object with an \<open>id\<close>, a dictionary or another value; its identity is
  \<open>str(value)\<close>.
\<close>

datatype auth_subject = SubjectObject py | SubjectValue py

definition auth_subject_id :: "auth_subject \<Rightarrow> string" where
  "auth_subject_id subject =
     (let value =
        (case subject of
           SubjectObject i \<Rightarrow> i
         | SubjectValue (PDict d) \<Rightarrow> py_or (pget d ''id'') (pget d ''user_id'')
         | SubjectValue v \<Rightarrow> PNone)
      in if value = PNone
         then (case subject of SubjectObject i \<Rightarrow> ''object'' | SubjectValue v \<Rightarrow> py_str v)
         else py_str value)"

type_synonym realtime_counts = "(string \<times> string, int) dict"

definition realtime_release ::
    "realtime_counts \<Rightarrow> (string \<times> string) lease \<Rightarrow> realtime_counts \<times> (string \<times> string) lease" where
  "realtime_release counts l =
     (if released l then (counts, l) else (release_count (lease_key l) counts, l\<lparr>released := True\<rparr>))"

definition acquire_connection ::
    "string option \<Rightarrow> realtime_counts \<Rightarrow> auth_subject \<times> string \<Rightarrow> (string \<times> string) lease option \<times> realtime_counts"
  where
  "acquire_connection env counts request =
     (let limit = bounded_limit env 3 20;
          key = (auth_subject_id (fst request), snd request);
          current = dget_default counts key 0
      in if limit \<le> current then (None, counts)
         else (Some \<lparr>lease_key = key, released = False\<rparr>, dset key (current + 1) counts))"

definition reset_connection_limits :: "realtime_counts \<Rightarrow> realtime_counts" where
  "reset_connection_limits counts = []"

subsection \<open>The contract of a lease pool\<close>

text \<open>
  The runs of a pool: leases are granted one after the other and kept in a list, and any lease of
  the list may be released, any number of times.
\<close>

inductive lease_run ::
    "('s \<Rightarrow> 'r \<Rightarrow> 'k lease option \<times> 's) \<Rightarrow> ('s \<Rightarrow> 'k lease \<Rightarrow> 's \<times> 'k lease) \<Rightarrow> 's \<Rightarrow> 's \<Rightarrow> 'k lease list \<Rightarrow> bool"
  for acquire release s0 where
  started: "lease_run acquire release s0 s0 []"
| granted: "lease_run acquire release s0 s ls \<Longrightarrow> acquire s r = (Some l, s') \<Longrightarrow>
    lease_run acquire release s0 s' (ls @ [l])"
| refused: "lease_run acquire release s0 s ls \<Longrightarrow> acquire s r = (None, s') \<Longrightarrow>
    lease_run acquire release s0 s' ls"
| let_go: "lease_run acquire release s0 s ls \<Longrightarrow> i < length ls \<Longrightarrow> release s (ls ! i) = (s', l') \<Longrightarrow>
    lease_run acquire release s0 s' (ls[i := l'])"

definition live_leases :: "('k \<Rightarrow> bool) \<Rightarrow> 'k lease list \<Rightarrow> nat" where
  "live_leases P ls = length (filter (\<lambda>l. \<not> released l \<and> P (lease_key l)) ls)"

lemma live_leases_snoc [simp]:
  "live_leases P (ls @ [l]) = live_leases P ls + (if \<not> released l \<and> P (lease_key l) then 1 else 0)"
  by (simp add: live_leases_def)

lemma live_leases_Nil [simp]: "live_leases P [] = 0"
  by (simp add: live_leases_def)

lemma live_leases_update:
  "i < length ls \<Longrightarrow> live_leases P (ls[i := l]) + (if \<not> released (ls ! i) \<and> P (lease_key (ls ! i)) then 1 else 0)
     = live_leases P ls + (if \<not> released l \<and> P (lease_key l) then 1 else 0)"
proof -
  assume i: "i < length ls"
  have "ls = take i ls @ ls ! i # drop (Suc i) ls" using i by (rule id_take_nth_drop)
  then have "live_leases P ls = live_leases P (take i ls @ ls ! i # drop (Suc i) ls)" by simp
  then show ?thesis by (simp add: upd_conv_take_nth_drop [OF i] live_leases_def)
qed

locale lease_pool =
  fixes acquire :: "'s \<Rightarrow> 'r \<Rightarrow> 'k lease option \<times> 's"
    and release :: "'s \<Rightarrow> 'k lease \<Rightarrow> 's \<times> 'k lease"
    and used :: "'s \<Rightarrow> 'g \<Rightarrow> int"
    and member :: "'g \<Rightarrow> 'k \<Rightarrow> bool"
    and limit :: "'g \<Rightarrow> int"
  assumes acquire_new: "acquire s r = (Some l, s') \<Longrightarrow> \<not> released l"
    and acquire_used: "acquire s r = (Some l, s') \<Longrightarrow>
          used s' g = used s g + (if member g (lease_key l) then 1 else 0)"
    and acquire_limit: "acquire s r = (Some l, s') \<Longrightarrow> member g (lease_key l) \<Longrightarrow> used s g < limit g"
    and acquire_refused: "acquire s r = (None, s') \<Longrightarrow> s' = s"
    and release_again: "released l \<Longrightarrow> release s l = (s, l)"
    and release_lease: "\<not> released l \<Longrightarrow> snd (release s l) = l\<lparr>released := True\<rparr>"
    and release_used: "\<not> released l \<Longrightarrow> (\<And>h. member h (lease_key l) \<Longrightarrow> 0 < used s h) \<Longrightarrow>
          used (fst (release s l)) g = used s g - (if member g (lease_key l) then 1 else 0)"
begin

lemma run_counts:
  assumes "lease_run acquire release s0 s ls" "\<And>g. used s0 g = 0"
  shows "used s g = int (live_leases (member g) ls)"
  using assms(1)
proof (induction arbitrary: g rule: lease_run.induct)
  case started
  then show ?case using assms by simp
next
  case (granted s ls r l s')
  then show ?case using acquire_new acquire_used by auto
next
  case (refused s ls r s')
  then show ?case using acquire_refused by metis
next
  case (let_go s ls i s' l')
  define l where "l = ls ! i"
  note counts = let_go.IH
  show ?case
  proof (cases "released l")
    case True
    then have "s' = s" "l' = ls ! i" using let_go.hyps(3) release_again [of l s] by (auto simp: l_def)
    then show ?thesis using counts by simp
  next
    case False
    have l': "l' = l\<lparr>released := True\<rparr>" using release_lease [OF False, of s] let_go.hyps(3) by (simp add: l_def)
    have live: "live_leases (member h) ls =
        live_leases (member h) (ls[i := l']) + (if member h (lease_key l) then 1 else 0)" for h
      using live_leases_update [OF let_go.hyps(2), of "member h" l'] False by (simp add: l' l_def [symmetric])
    have "0 < used s h" if "member h (lease_key l)" for h using live [of h] that counts by simp
    from release_used [OF False this] have "used s' g = used s g - (if member g (lease_key l) then 1 else 0)"
      using let_go.hyps(3) by (simp add: l_def)
    then show ?thesis using live [of g] counts [of g] by simp
  qed
qed

lemma run_limit:
  assumes "lease_run acquire release s0 s ls" "\<And>g. used s0 g = 0" "\<And>g. 0 \<le> limit g"
  shows "int (live_leases (member g) ls) \<le> limit g"
  using assms(1)
proof (induction rule: lease_run.induct)
  case (granted s ls r l s')
  have run: "lease_run acquire release s0 s ls" by (rule granted.hyps(1))
  from run_counts [OF this assms(2)] have "used s g = int (live_leases (member g) ls)" by simp
  then show ?case using granted acquire_limit [of s r l s' g] by auto
next
  case (let_go s ls i s' l')
  have "live_leases (member g) (ls[i := l']) \<le> live_leases (member g) ls"
  proof (cases "released (ls ! i)")
    case True
    then show ?thesis using release_again [of "ls ! i" s] let_go.hyps(3) by simp
  next
    case False
    then have "released l'" using release_lease [OF False, of s] let_go.hyps(3) by simp
    then show ?thesis using live_leases_update [OF let_go.hyps(2), of "member g" l'] by simp
  qed
  then show ?case using let_go.IH by linarith
qed (use assms(3) in auto)

end

subsection \<open>Both modules keep the contract\<close>

lemma release_count_get:
  "dget_default (release_count k counts) j 0 =
    (if j = k then (if dget_default counts k 0 \<le> 1 then 0 else dget_default counts k 0 - 1)
     else dget_default counts j 0)"
  by (simp add: release_count_def Let_def)

definition connections_of :: "bridge_connections \<Rightarrow> string option \<Rightarrow> int" where
  "connections_of s g = (case g of None \<Rightarrow> global_count s | Some k \<Rightarrow> dget_default (server_counts s) k 0)"

definition in_group :: "'k option \<Rightarrow> 'k \<Rightarrow> bool" where
  "in_group g k = (case g of None \<Rightarrow> True | Some j \<Rightarrow> j = k)"

definition bridge_limit :: "(string \<Rightarrow> string option) \<Rightarrow> string option \<Rightarrow> int" where
  "bridge_limit environ g =
     (case g of
        None \<Rightarrow> bounded_limit (environ ''OCTOHUBS_EVENT_BRIDGE_CONNECTIONS_GLOBAL'') 64 1024
      | Some k \<Rightarrow> bounded_limit (environ ''OCTOHUBS_EVENT_BRIDGE_CONNECTIONS_PER_SERVER'') 3 20)"

lemma in_group_simps [simp]: "in_group None k" "in_group (Some j) k \<longleftrightarrow> j = k"
  by (simp_all add: in_group_def)

lemma connections_of_simps [simp]:
  "connections_of s None = global_count s"
  "connections_of s (Some k) = dget_default (server_counts s) k 0"
  by (simp_all add: connections_of_def)

interpretation bridge_pool: lease_pool "acquire_bridge_connection environ" bridge_release connections_of
    in_group "bridge_limit environ"
  for environ
proof (unfold_locales, goal_cases)
  case (1 s r l s')
  then show ?case by (auto simp: acquire_bridge_connection_def Let_def split: if_splits)
next
  case (2 s r l s' g)
  then show ?case by (cases g) (auto simp: acquire_bridge_connection_def Let_def split: if_splits)
next
  case (3 s r l s' g)
  then show ?case by (cases g) (auto simp: acquire_bridge_connection_def bridge_limit_def Let_def split: if_splits)
next
  case (4 s r s')
  then show ?case by (auto simp: acquire_bridge_connection_def Let_def split: if_splits)
next
  case (5 l s)
  then show ?case by (simp add: bridge_release_def)
next
  case (6 l s)
  then show ?case by (simp add: bridge_release_def)
next
  case (7 l s g)
  have "0 < global_count s" "0 < dget_default (server_counts s) (lease_key l) 0"
    using 7(2) [of None] 7(2) [of "Some (lease_key l)"] by simp_all
  then show ?case using 7(1)
    by (cases g) (auto simp: bridge_release_def bridge_release_locked_def release_count_get)
qed

interpretation realtime_pool: lease_pool "acquire_connection env" realtime_release
    "\<lambda>counts k. dget_default counts k 0" "\<lambda>g k. g = k" "\<lambda>k. bounded_limit env 3 20"
  for env
proof (unfold_locales, goal_cases)
  case (7 l s g)
  then have "0 < dget_default s (lease_key l) 0" by simp
  then show ?case using 7(1) by (auto simp: realtime_release_def release_count_get)
qed (auto simp: acquire_connection_def realtime_release_def Let_def split: if_splits)

subsection \<open>Properties\<close>

lemma bounded_limit_bounds:
  "1 \<le> dflt \<Longrightarrow> dflt \<le> maximum \<Longrightarrow> 1 \<le> bounded_limit env dflt maximum \<and> bounded_limit env dflt maximum \<le> maximum"
  by (auto simp: bounded_limit_def Let_def split: option.splits)

lemma bridge_limit_bounds: "1 \<le> bridge_limit environ g"
  using bounded_limit_bounds [of 64 1024] bounded_limit_bounds [of 3 20]
  by (simp add: bridge_limit_def split: option.split)

definition no_connections :: bridge_connections where
  "no_connections = \<lparr>global_count = 0, server_counts = []\<rparr>"

text \<open>
  In every run of grants and releases, in any order and with any lease released any number of
  times, the counters are the numbers of live leases, which never exceed the global limit (at most
  1024) nor the limit of a server (at most 20).
\<close>

theorem bridge_leases_counted:
  assumes "lease_run (acquire_bridge_connection environ) bridge_release no_connections s ls"
  shows "global_count s = int (live_leases (\<lambda>k. True) ls) \<and>
    dget_default (server_counts s) server 0 = int (live_leases (\<lambda>k. k = server) ls) \<and>
    global_count s \<le> bridge_limit environ None \<and>
    dget_default (server_counts s) server 0 \<le> bridge_limit environ (Some server)"
proof -
  have zero: "connections_of no_connections g = 0" for g by (cases g) (simp_all add: no_connections_def)
  have member: "in_group None = (\<lambda>k. True)" "in_group (Some server) = (\<lambda>k. k = server)" by auto
  show ?thesis
    using bridge_pool.run_counts [OF assms zero, of None] bridge_pool.run_counts [OF assms zero, of "Some server"]
      bridge_pool.run_limit [OF assms zero, of None] bridge_pool.run_limit [OF assms zero, of "Some server"]
      bridge_limit_bounds [of environ]
    unfolding member by (fastforce intro: order_trans [OF zero_le_one])
qed

theorem bridge_leases_counted_witness:
  "global_count \<lparr>global_count = 1, server_counts = [(''a'', 1)]\<rparr> = int (live_leases (\<lambda>k. True)
     [\<lparr>lease_key = ''a'', released = False\<rparr>])"
proof -
  have "acquire_bridge_connection (\<lambda>_. None) no_connections ''a'' =
      (Some \<lparr>lease_key = ''a'', released = False\<rparr>, \<lparr>global_count = 1, server_counts = [(''a'', 1)]\<rparr>)"
    by code_simp
  from lease_run.granted [where acquire = "acquire_bridge_connection (\<lambda>_. None)" and release = bridge_release
      and r = "''a''", OF lease_run.started this]
  have "lease_run (acquire_bridge_connection (\<lambda>_. None)) bridge_release no_connections
      \<lparr>global_count = 1, server_counts = [(''a'', 1)]\<rparr> [\<lparr>lease_key = ''a'', released = False\<rparr>]" by simp
  from bridge_leases_counted [OF this] show ?thesis by blast
qed

text \<open>
  In every run a connection is granted exactly when the server is named and both it and the
  service have fewer live leases than their limits: released leases never block a new one.
\<close>

theorem bridge_grants_iff:
  assumes "lease_run (acquire_bridge_connection environ) bridge_release no_connections s ls"
  shows "fst (acquire_bridge_connection environ s server) \<noteq> None \<longleftrightarrow>
    strip server \<noteq> [] \<and> int (live_leases (\<lambda>k. True) ls) < bridge_limit environ None \<and>
    int (live_leases (\<lambda>k. k = strip server) ls) < bridge_limit environ (Some (strip server))"
proof -
  have zero: "connections_of no_connections g = 0" for g by (cases g) (simp_all add: no_connections_def)
  have member: "in_group None = (\<lambda>k. True)" "in_group (Some k) = (\<lambda>j. j = k)" for k by auto
  have "global_count s = int (live_leases (\<lambda>k. True) ls)"
    "dget_default (server_counts s) (strip server) 0 = int (live_leases (\<lambda>k. k = strip server) ls)"
    using bridge_pool.run_counts [OF assms zero, of None]
      bridge_pool.run_counts [OF assms zero, of "Some (strip server)"] unfolding member by simp_all
  then show ?thesis by (auto simp: acquire_bridge_connection_def bridge_limit_def Let_def)
qed

theorem bridge_grants_iff_witness:
  "fst (acquire_bridge_connection (\<lambda>_. None) no_connections ''a'') \<noteq> None"
proof -
  have "bridge_limit (\<lambda>_. None) None = 64" "bridge_limit (\<lambda>_. None) (Some ''a'') = 3" "strip ''a'' = ''a''"
    by code_simp+
  then show ?thesis
    using bridge_grants_iff [OF lease_run.started, of "\<lambda>_. None" "''a''"] by simp
qed

text \<open>
  For every subject and channel the counter is the number of live leases of that pair and never
  exceeds the configured limit, at most 20.
\<close>

theorem realtime_leases_counted:
  assumes "lease_run (acquire_connection env) realtime_release [] counts ls"
  shows "dget_default counts key 0 = int (live_leases (\<lambda>k. k = key) ls) \<and>
    int (live_leases (\<lambda>k. k = key) ls) \<le> bounded_limit env 3 20 \<and> bounded_limit env 3 20 \<le> 20"
proof -
  have pos: "0 \<le> bounded_limit env 3 20" "bounded_limit env 3 20 \<le> 20"
    using bounded_limit_bounds [of 3 20 env] by auto
  have eq: "(=) key = (\<lambda>k. k = key)" by auto
  show ?thesis
    using realtime_pool.run_counts [OF assms, of key] realtime_pool.run_limit [OF assms _ pos(1), of key] pos(2)
    unfolding eq by simp
qed

theorem realtime_leases_counted_witness:
  "dget_default ([] :: realtime_counts) (''7'', ''ws'') 0 = int (live_leases (\<lambda>k. k = (''7'', ''ws'')) [])"
  using realtime_leases_counted [OF lease_run.started, of "(''7'', ''ws'')" None] by blast

text \<open>
  Two threads releasing one lease can free two slots: the flag is read before the lock is
  taken, so both may pass the test; the second connection of the server then counts for nothing.
\<close>

theorem double_release_interleaving:
  "let environ = (\<lambda>_. None);
       (l1, s1) = acquire_bridge_connection environ no_connections ''a'';
       (l2, s2) = acquire_bridge_connection environ s1 ''a'';
       s3 = bridge_release_locked ''a'' (bridge_release_locked ''a'' s2)
   in (case l1 of None \<Rightarrow> False | Some l \<Rightarrow> \<not> released l) \<and> l2 \<noteq> None \<and> global_count s3 = 0 \<and> server_counts s3 = []"
  by code_simp

end
