(* ===== verification/Subscribers.thy ===== *)
theory Subscribers
  imports Prelude
begin

text \<open>
  Delivery to realtime subscribers: \<open>realtime/subscribers.py\<close>.  A subscriber owns a bounded
  \<open>asyncio.Queue\<close> on an event loop; \<open>publish\<close>, from any thread, schedules \<open>_enqueue\<close> on that loop
  (\<open>scheduled\<close> holds the callbacks not run yet, oldest first), and fails when the loop is closed.
  The registry keeps its subscribers by identity: \<open>registered\<close> lists them in order, \<open>store\<close> gives
  their state.
\<close>

record 'e subscriber =
  queue :: "'e list"
  maxsize :: int
  active :: bool
  scheduled :: "'e list"
  loop_closed :: bool

definition new_subscriber :: "int \<Rightarrow> 'e subscriber" where
  "new_subscriber n = \<lparr>queue = [], maxsize = n, active = True, scheduled = [], loop_closed = False\<rparr>"

text \<open>\<open>asyncio.Queue.full\<close>: a queue without positive size is unbounded.\<close>

definition queue_full :: "'e subscriber \<Rightarrow> bool" where
  "queue_full s = (0 < maxsize s \<and> maxsize s \<le> int (length (queue s)))"

definition publish_to :: "'e \<Rightarrow> 'e subscriber \<Rightarrow> bool \<times> 'e subscriber" where
  "publish_to e s =
     (if \<not> active s then (False, s)
      else if loop_closed s then (False, s\<lparr>active := False\<rparr>)
      else (True, s\<lparr>scheduled := scheduled s @ [e]\<rparr>))"

definition close_subscriber :: "'e subscriber \<Rightarrow> 'e subscriber" where
  "close_subscriber s = s\<lparr>active := False\<rparr>"

definition enqueue :: "'e \<Rightarrow> 'e subscriber \<Rightarrow> 'e subscriber" where
  "enqueue e s =
     (if \<not> active s then s
      else if \<not> queue_full s then s\<lparr>queue := queue s @ [e]\<rparr>
      else (case queue s of
              [] \<Rightarrow> s
            | _ # rest \<Rightarrow>
                (let s' = s\<lparr>queue := rest\<rparr>
                 in if queue_full s' then s' else s'\<lparr>queue := rest @ [e]\<rparr>)))"

text \<open>The loop runs the oldest scheduled callback; the consumer takes the oldest event.\<close>

definition run_callback :: "'e subscriber \<Rightarrow> 'e subscriber" where
  "run_callback s =
     (case scheduled s of [] \<Rightarrow> s | e # rest \<Rightarrow> enqueue e (s\<lparr>scheduled := rest\<rparr>))"

definition get_event :: "'e subscriber \<Rightarrow> 'e option \<times> 'e subscriber" where
  "get_event s = (case queue s of [] \<Rightarrow> (None, s) | e # rest \<Rightarrow> (Some e, s\<lparr>queue := rest\<rparr>))"

subsection \<open>The registry\<close>

record 'e registry =
  registered :: "nat list"
  store :: "nat \<Rightarrow> 'e subscriber"

definition subscribe :: "nat \<Rightarrow> int \<Rightarrow> 'e registry \<Rightarrow> 'e registry" where
  "subscribe i n r = r\<lparr>registered := registered r @ [i], store := (store r)(i := new_subscriber n)\<rparr>"

definition unsubscribe :: "nat \<Rightarrow> 'e registry \<Rightarrow> 'e registry" where
  "unsubscribe i r =
     r\<lparr>registered := remove1 i (registered r), store := (store r)(i := close_subscriber (store r i))\<rparr>"

definition publish :: "'e \<Rightarrow> 'e registry \<Rightarrow> 'e registry" where
  "publish e r =
     (let subscribers = registered r;
          disconnected = filter (\<lambda>i. \<not> fst (publish_to e (store r i))) subscribers
      in \<lparr>registered = fold remove1 disconnected (registered r),
          store = fold (\<lambda>i st. st(i := snd (publish_to e (st i)))) subscribers (store r)\<rparr>)"

definition close_all :: "'e registry \<Rightarrow> 'e registry" where
  "close_all r =
     \<lparr>registered = [],
      store = fold (\<lambda>i st. st(i := close_subscriber (st i))) (registered r) (store r)\<rparr>"

subsection \<open>A bounded queue keeps the newest events\<close>

definition newest :: "int \<Rightarrow> 'e list \<Rightarrow> 'e list" where
  "newest n es = (if 0 < n then drop (length es - nat n) es else es)"

lemma newest_snoc:
  assumes "0 < n \<Longrightarrow> int (length q) \<le> n"
  shows "newest n (q @ [e]) = (if 0 < n \<and> n \<le> int (length q) then tl q @ [e] else q @ [e])"
proof (cases "0 < n \<and> n \<le> int (length q)")
  case True
  then have "n = int (length q)" using assms by simp
  moreover from this True have "length q = Suc (length q - 1)" by simp
  ultimately show ?thesis using True by (cases q) (simp_all add: newest_def nat_add_distrib)
qed (auto simp: newest_def)

lemma length_newest: "0 < n \<Longrightarrow> int (length (newest n es)) \<le> n"
  by (auto simp: newest_def)

lemma newest_newest: "newest n (newest n a @ b) = newest n (a @ b)"
proof (cases "0 < n \<and> nat n < length a")
  case True
  then have "length (newest n a) = nat n" by (auto simp: newest_def)
  then show ?thesis using True by (auto simp: newest_def add.commute)
qed (auto simp: newest_def not_less)

lemma enqueue_newest:
  assumes "active s" "0 < maxsize s \<Longrightarrow> int (length (queue s)) \<le> maxsize s"
  shows "queue (enqueue e s) = newest (maxsize s) (queue s @ [e])"
    and "maxsize (enqueue e s) = maxsize s" "active (enqueue e s)"
    and "scheduled (enqueue e s) = scheduled s"
proof -
  have "queue (enqueue e s) = newest (maxsize s) (queue s @ [e]) \<and> maxsize (enqueue e s) = maxsize s \<and>
    active (enqueue e s) \<and> scheduled (enqueue e s) = scheduled s"
    using assms newest_snoc [OF assms(2), where e = e]
    by (cases "queue s") (auto simp: enqueue_def queue_full_def Let_def)
  then show "queue (enqueue e s) = newest (maxsize s) (queue s @ [e])"
    "maxsize (enqueue e s) = maxsize s" "active (enqueue e s)" "scheduled (enqueue e s) = scheduled s"
    by auto
qed

text \<open>
  A slow consumer keeps the newest events: when the loop has run all the callbacks of a
  sequence of publications, the queue holds exactly the last \<open>maxsize\<close> of the old content followed
  by the published events, in order; so the last event published, the terminal one of an operation,
  is never lost behind older ones.
\<close>

theorem slow_subscriber_keeps_newest:
  fixes s :: "'e subscriber"
  assumes "active s" "\<not> loop_closed s" "scheduled s = []"
    and "0 < maxsize s \<Longrightarrow> int (length (queue s)) \<le> maxsize s"
  shows "queue ((run_callback ^^ length es) (fold (\<lambda>e s. snd (publish_to e s)) es s)) =
    newest (maxsize s) (queue s @ es)"
proof -
  have pub: "fold (\<lambda>e s. snd (publish_to e s)) es s = s\<lparr>scheduled := scheduled s @ es\<rparr>"
    if "active s" "\<not> loop_closed s" for es and s :: "'e subscriber"
    using that
  proof (induction es arbitrary: s)
    case (Cons e es)
    then show ?case by (simp add: publish_to_def)
  qed simp
  have run: "queue ((run_callback ^^ length es) s) = newest (maxsize s) (queue s @ es)"
    if "active s" "scheduled s = es" "0 < maxsize s \<Longrightarrow> int (length (queue s)) \<le> maxsize s"
    for es and s :: "'e subscriber"
    using that
  proof (induction es arbitrary: s)
    case Nil
    then have "length (queue s) - nat (maxsize s) = 0" if "0 < maxsize s" using that by simp
    then show ?case by (auto simp: newest_def)
  next
    case (Cons e es)
    define s' where "s' = run_callback s"
    have s': "s' = enqueue e (s\<lparr>scheduled := es\<rparr>)" using Cons.prems(2) by (simp add: s'_def run_callback_def)
    have props: "queue s' = newest (maxsize s) (queue s @ [e])" "maxsize s' = maxsize s" "active s'" "scheduled s' = es"
      using enqueue_newest [of "s\<lparr>scheduled := es\<rparr>" e] Cons.prems by (simp_all add: s')
    have "queue ((run_callback ^^ length es) s') = newest (maxsize s') (queue s' @ es)"
      using props by (intro Cons.IH) (auto simp: length_newest)
    moreover have "(run_callback ^^ length (e # es)) s = (run_callback ^^ length es) s'"
      by (simp add: s'_def funpow_swap1)
    moreover have "newest (maxsize s) (newest (maxsize s) (queue s @ [e]) @ es) = newest (maxsize s) (queue s @ e # es)"
      using newest_newest [of "maxsize s" "queue s @ [e]" es] by simp
    ultimately show ?case using props by simp
  qed
  show ?thesis using run [of "s\<lparr>scheduled := es\<rparr>" es] pub [OF assms(1,2), of es] assms by simp
qed

theorem slow_subscriber_keeps_newest_witness:
  "queue ((run_callback ^^ 3) (fold (\<lambda>e s. snd (publish_to e s)) [1, 2, 3 :: nat] (new_subscriber 2))) = [2, 3]"
  using slow_subscriber_keeps_newest [of "new_subscriber 2" "[1, 2, 3 :: nat]"]
  unfolding new_subscriber_def newest_def by (simp add: eval_nat_numeral del: funpow.simps)

lemma fold_update:
  "distinct ks \<Longrightarrow> fold (\<lambda>k st. st(k := f (st k))) ks st i = (if i \<in> set ks then f (st i) else st i)"
  by (induction ks arbitrary: st) auto

text \<open>
  Publishing reaches every registered subscriber that is active on an open loop exactly once,
  touches nobody else, and unregisters exactly the subscribers it could not reach.
\<close>

theorem publish_delivers:
  assumes "distinct (registered r)"
  shows "set (registered (publish e r)) =
      {i \<in> set (registered r). active (store r i) \<and> \<not> loop_closed (store r i)} \<and>
    (\<forall>i. scheduled (store (publish e r) i) =
      scheduled (store r i) @ (if i \<in> set (registered (publish e r)) then [e] else []))"
proof -
  have reach: "fst (publish_to e s) \<longleftrightarrow> active s \<and> \<not> loop_closed s" for s :: "'a subscriber"
    by (simp add: publish_to_def)
  have rem: "set (fold remove1 xs ys) = set ys - set xs" if "distinct ys" for xs ys :: "nat list"
    using that by (induction xs arbitrary: ys) auto
  show ?thesis
    using assms
    by (auto simp: publish_def Let_def rem reach fold_update [where f = "\<lambda>s. snd (publish_to e s)"])
      (auto simp: publish_to_def)
qed

theorem publish_delivers_witness:
  "set (registered (publish (5 :: nat) \<lparr>registered = [0, 1], store = (\<lambda>_. new_subscriber 1)\<rparr>)) = {0, 1}"
proof -
  have "distinct (registered \<lparr>registered = [0, 1], store = (\<lambda>_. new_subscriber 1) :: nat \<Rightarrow> nat subscriber\<rparr>)"
    by simp
  from publish_delivers [OF this, of 5] show ?thesis by (auto simp: new_subscriber_def)
qed

end
