(* ===== verification/Operations.thy ===== *)
theory Operations
  imports Py_Time Key_Value "HOL-Library.List_Lexorder" "HOL-Library.Char_ord"
begin

text \<open>
  The persistent operation registry of \<open>core/operations.py\<close> (\<open>OperationTracker\<close>).  Several processes
  share one key-value row; each holds a tracker with its owner id.  A method of the tracker is a
  mutator of the registry, run by \<open>_mutate_registry\<close> inside \<open>update_key_value\<close>, with its effect on
  the tracker itself.  \<open>now\<close> is the instant a mutator writes, \<open>stamp\<close> the one of the row;
  \<open>percent a b\<close> stands for the floating-point value \<open>(a / b) * 100\<close>.  A status is a text, as every
  mutator writes it.
\<close>

subsection \<open>Records\<close>

definition active_statuses :: "string list" where
  "active_statuses = [''queued'', ''running'']"

definition terminal_statuses :: "string list" where
  "terminal_statuses = [''success'', ''error'', ''skipped'', ''interrupted'']"

type_synonym operation = pdict
type_synonym op_registry = "(string, operation) dict"

definition status_in :: "operation \<Rightarrow> string list \<Rightarrow> bool" where
  "status_in op names = (case pget op ''status'' of PStr s \<Rightarrow> s \<in> set names | _ \<Rightarrow> False)"

abbreviation is_active :: "operation \<Rightarrow> bool" where
  "is_active op \<equiv> status_in op active_statuses"

definition owned_by :: "string \<Rightarrow> operation \<Rightarrow> bool" where
  "owned_by owner op = (text_or_empty (pget op ''_owner_id'') = owner)"

definition public_operation :: "operation \<Rightarrow> operation" where
  "public_operation op = filter (\<lambda>p. fst p \<notin> {''_owner_id'', ''_heartbeat_at''}) op"

definition positive_int :: "py \<Rightarrow> exn + py" where
  "positive_int v =
     result_bind (try_int v) (\<lambda>r.
       case r of None \<Rightarrow> Inr PNone | Some i \<Rightarrow> Inr (if 0 < i then PInt i else PNone))"

text \<open>\<open>int(round(float(value)))\<close> clamped; an infinity raises \<open>OverflowError\<close>, which is not caught.\<close>

definition normalize_progress :: "pyfloat \<Rightarrow> exn + int" where
  "normalize_progress f =
     (case f of
        Fin q \<Rightarrow> Inr (max 0 (min 100 (py_round q)))
      | NaN \<Rightarrow> Inr 0
      | _ \<Rightarrow> Inl (OverflowError ''cannot convert float infinity to integer''))"

definition progress_from_counts :: "(int \<Rightarrow> int \<Rightarrow> exn + pyfloat) \<Rightarrow> py \<Rightarrow> py \<Rightarrow> exn + int option" where
  "progress_from_counts percent current tot =
     result_bind (try_int current) (\<lambda>c.
       case c of None \<Rightarrow> Inr None
       | Some c' \<Rightarrow> result_bind (try_int tot) (\<lambda>t.
           case t of None \<Rightarrow> Inr None
           | Some t' \<Rightarrow>
               if t' \<le> 0 then Inr None
               else result_bind (percent c' t') (\<lambda>f. result_bind (normalize_progress f) (\<lambda>p. Inr (Some p)))))"

definition op_parse_timestamp :: "py \<Rightarrow> exn + int option" where
  "op_parse_timestamp v =
     (let normalized = replace_char (CHR ''Z'') ''+00:00'' (strip (text_or_empty v))
      in if normalized = [] then Inr None else parse_utc normalized)"

subsection \<open>The stored row\<close>

definition dict_items :: "py \<Rightarrow> op_registry" where
  "dict_items v =
     (case v of
        PDict d \<Rightarrow> concat (map (\<lambda>p. case snd p of PDict op \<Rightarrow> [(fst p, op)] | _ \<Rightarrow> []) d)
      | _ \<Rightarrow> [])"

definition registry_from_raw :: "py \<Rightarrow> op_registry" where
  "registry_from_raw raw =
     (case raw of PDict d \<Rightarrow> dict_items (pget d ''operations'') | _ \<Rightarrow> [])"

definition updated_text :: "operation \<Rightarrow> string" where
  "updated_text op = text_or_empty (pget op ''updated_at'')"

definition prune :: "nat \<Rightarrow> op_registry \<Rightarrow> op_registry" where
  "prune max_recent reg =
     (let act = filter (\<lambda>p. is_active (snd p)) reg;
          completed = filter (\<lambda>p. fst p \<notin> set (dkeys act)) reg
      in fold (\<lambda>p d. dset (fst p) (snd p) d)
           (take max_recent (sort_desc (\<lambda>p. updated_text (snd p)) completed)) act)"

definition op_payload :: "nat \<Rightarrow> int \<Rightarrow> op_registry \<Rightarrow> py" where
  "op_payload max_recent stamp reg =
     PDict [(''version'', PInt 2), (''updated_at'', PStr (iso_utc stamp)),
            (''operations'', PDict (map (\<lambda>p. (fst p, PDict (snd p))) (prune max_recent reg)))]"

subsection \<open>Mutators\<close>

type_synonym 'a mutator = "op_registry \<Rightarrow> exn + op_registry \<times> 'a"

definition new_operation ::
    "string \<Rightarrow> string \<Rightarrow> int \<Rightarrow> string \<Rightarrow> string \<Rightarrow> string \<Rightarrow> pdict \<Rightarrow> py \<Rightarrow> operation" where
  "new_operation owner op_id now kind title summary details tot =
     [(''id'', PStr op_id),
      (''kind'', PStr (if kind = [] then ''operation'' else kind)),
      (''title'', PStr (if title = [] then ''Operazione'' else title)),
      (''summary'', PStr summary), (''status'', PStr ''running''), (''message'', PStr ''Avvio operazione''),
      (''progress'', PInt 0), (''current'', PInt 0), (''total'', tot), (''details'', PDict details),
      (''result'', PNone), (''error'', PNone),
      (''started_at'', PStr (iso_utc now)), (''updated_at'', PStr (iso_utc now)), (''finished_at'', PNone),
      (''_owner_id'', PStr owner), (''_heartbeat_at'', PStr (iso_utc now))]"

definition add_operation :: "string \<Rightarrow> operation \<Rightarrow> operation mutator" where
  "add_operation op_id op reg = Inr (dset op_id op reg, public_operation op)"

definition mine_and_active :: "string \<Rightarrow> op_registry \<Rightarrow> string \<Rightarrow> operation option" where
  "mine_and_active owner reg op_id =
     (case map_of reg op_id of
        None \<Rightarrow> None
      | Some op \<Rightarrow> if op \<noteq> [] \<and> owned_by owner op \<and> is_active op then Some op else None)"

record op_change =
  ch_message :: "string option"
  ch_progress :: "pyfloat option"
  ch_current :: py
  ch_total :: py
  ch_status :: string
  ch_details :: pdict

definition set_status :: "string \<Rightarrow> operation \<Rightarrow> operation" where
  "set_status s op =
     (if s \<noteq> [] then dset ''status'' (PStr s) op
      else if \<not> status_in op terminal_statuses then dset ''status'' (PStr ''running'') op
      else op)"

definition set_total :: "py \<Rightarrow> operation \<Rightarrow> exn + operation" where
  "set_total v op =
     (if v = PNone then Inr op else result_bind (positive_int v) (\<lambda>t. Inr (dset ''total'' t op)))"

definition set_current :: "py \<Rightarrow> operation \<Rightarrow> exn + operation" where
  "set_current v op =
     (if v = PNone then Inr op else result_bind (py_int v) (\<lambda>c. Inr (dset ''current'' (PInt (max 0 c)) op)))"

definition set_progress ::
    "(int \<Rightarrow> int \<Rightarrow> exn + pyfloat) \<Rightarrow> pyfloat option \<Rightarrow> operation \<Rightarrow> exn + operation" where
  "set_progress percent progress op =
     result_bind
       (case progress of
          Some f \<Rightarrow> result_bind (normalize_progress f) (\<lambda>p. Inr (Some p))
        | None \<Rightarrow> progress_from_counts percent (pget op ''current'') (pget op ''total''))
       (\<lambda>r. Inr (case r of None \<Rightarrow> op | Some p \<Rightarrow> dset ''progress'' (PInt p) op))"

definition merge_details :: "pdict \<Rightarrow> operation \<Rightarrow> exn + operation" where
  "merge_details details op =
     (if details = [] then Inr op
      else (case py_or (pget op ''details'') (PDict []) of
              PDict old \<Rightarrow> Inr (dset ''details'' (PDict (fold (\<lambda>p d. dset (fst p) (snd p) d) details old)) op)
            | _ \<Rightarrow> Inl (TypeError ''cannot convert to a dictionary'')))"

definition update_operation ::
    "(int \<Rightarrow> int \<Rightarrow> exn + pyfloat) \<Rightarrow> string \<Rightarrow> int \<Rightarrow> string \<Rightarrow> op_change \<Rightarrow> operation option mutator" where
  "update_operation percent owner now op_id ch reg =
     (case mine_and_active owner reg op_id of
        None \<Rightarrow> Inr (reg, None)
      | Some op \<Rightarrow>
          (let op1 = set_status (ch_status ch) op;
               op2 = (case ch_message ch of None \<Rightarrow> op1 | Some m \<Rightarrow> dset ''message'' (PStr m) op1)
           in result_bind (set_total (ch_total ch) op2) (\<lambda>op3.
              result_bind (set_current (ch_current ch) op3) (\<lambda>op4.
              result_bind (set_progress percent (ch_progress ch) op4) (\<lambda>op5.
              result_bind (merge_details (ch_details ch) op5) (\<lambda>op6.
                let op7 = dset ''_heartbeat_at'' (PStr (iso_utc now)) (dset ''updated_at'' (PStr (iso_utc now)) op6)
                in Inr (dset op_id op7 reg, Some (public_operation op7))))))))"

definition renew_heartbeat :: "string \<Rightarrow> int \<Rightarrow> string \<Rightarrow> bool mutator" where
  "renew_heartbeat owner now op_id reg =
     (case mine_and_active owner reg op_id of
        None \<Rightarrow> Inr (reg, False)
      | Some op \<Rightarrow> Inr (dset op_id (dset ''_heartbeat_at'' (PStr (iso_utc now)) op) reg, True))"

definition completed_operation :: "int \<Rightarrow> string \<Rightarrow> string \<Rightarrow> pdict \<Rightarrow> py \<Rightarrow> operation \<Rightarrow> operation" where
  "completed_operation now status message result error op =
     dset ''finished_at'' (PStr (iso_utc now)) (dset ''updated_at'' (PStr (iso_utc now))
       (dset ''error'' error (dset ''result'' (PDict result)
         (dset ''progress'' (if status = ''success'' then PInt 100 else dget_default op ''progress'' (PInt 0))
           (dset ''message'' (PStr message) (dset ''status'' (PStr status) op))))))"

definition complete ::
    "string \<Rightarrow> int \<Rightarrow> string \<Rightarrow> string \<Rightarrow> string \<Rightarrow> pdict \<Rightarrow> py \<Rightarrow> operation option mutator" where
  "complete owner now op_id status message result error reg =
     (case mine_and_active owner reg op_id of
        None \<Rightarrow> Inr (reg, None)
      | Some op \<Rightarrow>
          (let op' = completed_operation now status message result error op
           in Inr (dset op_id op' reg, Some (public_operation op'))))"

definition clear_completed :: "nat mutator" where
  "clear_completed reg =
     (let kept = filter (\<lambda>p. is_active (snd p)) reg in Inr (kept, length reg - length kept))"

text \<open>
  The three interruption sweeps: the same writes on the operations a test selects; the result is
  the list of the interrupted ids.
\<close>

definition interrupted_operation :: "int \<Rightarrow> string \<Rightarrow> operation \<Rightarrow> operation" where
  "interrupted_operation now message op =
     dset ''finished_at'' (PStr (iso_utc now)) (dset ''updated_at'' (PStr (iso_utc now))
       (dset ''error'' PNone (dset ''message'' (PStr message) (dset ''status'' (PStr ''interrupted'') op))))"

definition sweep :: "(operation \<Rightarrow> bool) \<Rightarrow> int \<Rightarrow> string \<Rightarrow> op_registry \<Rightarrow> op_registry \<times> string list" where
  "sweep select now message reg =
     (map (\<lambda>p. (fst p, if select (snd p) then interrupted_operation now message (snd p) else snd p)) reg,
      map (\<lambda>p. text_or_empty (pget (snd p) ''id'')) (filter (\<lambda>p. select (snd p)) reg))"

definition interrupt_active :: "string \<Rightarrow> int \<Rightarrow> string \<Rightarrow> string list mutator" where
  "interrupt_active owner now message reg =
     Inr (sweep (\<lambda>op. is_active op \<and> owned_by owner op) now
       (if message = [] then ''Operazione interrotta'' else message) reg)"

definition interrupt_orphaned :: "string \<Rightarrow> int \<Rightarrow> string \<Rightarrow> string list mutator" where
  "interrupt_orphaned owner now message reg =
     Inr (sweep (\<lambda>op. is_active op \<and> \<not> owned_by owner op) now message reg)"

definition heartbeat_of :: "operation \<Rightarrow> exn + int option" where
  "heartbeat_of op = op_parse_timestamp (py_or (pget op ''_heartbeat_at'') (pget op ''updated_at''))"

definition stale_at :: "int \<Rightarrow> operation \<Rightarrow> bool" where
  "stale_at cutoff op =
     (case heartbeat_of op of Inr (Some t) \<Rightarrow> t \<le> cutoff | _ \<Rightarrow> True)"

text \<open>A time stamp outside the range of \<open>datetime\<close> raises before anything is saved.\<close>

fun first_heartbeat_error :: "op_registry \<Rightarrow> exn option" where
  "first_heartbeat_error [] = None"
| "first_heartbeat_error (p # reg) =
     (if is_active (snd p)
      then (case heartbeat_of (snd p) of Inl e \<Rightarrow> Some e | Inr _ \<Rightarrow> first_heartbeat_error reg)
      else first_heartbeat_error reg)"

definition stale_cutoff :: "int \<Rightarrow> int \<Rightarrow> int" where
  "stale_cutoff now stale_after_seconds = now - max 60 stale_after_seconds * 1000000"

definition interrupt_stale :: "int \<Rightarrow> int \<Rightarrow> string \<Rightarrow> string list mutator" where
  "interrupt_stale cutoff now message reg =
     (case first_heartbeat_error reg of
        Some e \<Rightarrow> Inl e
      | None \<Rightarrow> Inr (sweep (\<lambda>op. is_active op \<and> stale_at cutoff op) now message reg))"

definition public_failure :: string where
  "public_failure = ''Operazione non riuscita''"

definition fail_start :: "string \<Rightarrow> int \<Rightarrow> string \<Rightarrow> unit mutator" where
  "fail_start owner now op_id reg =
     (case map_of reg op_id of
        None \<Rightarrow> Inr (reg, ())
      | Some op \<Rightarrow>
          if op = [] \<or> \<not> owned_by owner op then Inr (reg, ())
          else Inr (dset op_id
            (fold (\<lambda>p d. dset (fst p) (snd p) d)
              [(''status'', PStr ''error''), (''message'', PStr public_failure), (''result'', PDict []),
               (''error'', PStr public_failure), (''updated_at'', PStr (iso_utc now)),
               (''finished_at'', PStr (iso_utc now))] op) reg, ()))"

definition renew_owned :: "string \<Rightarrow> int \<Rightarrow> string list \<Rightarrow> (int \<times> string list) mutator" where
  "renew_owned owner now ids reg =
     Inr (foldl (\<lambda>(r, n, invalid) op_id.
            (case mine_and_active owner r op_id of
               None \<Rightarrow> (r, n, invalid @ [op_id])
             | Some op \<Rightarrow> (dset op_id (dset ''_heartbeat_at'' (PStr (iso_utc now)) op) r, n + 1, invalid)))
          (reg, 0, []) ids)"

subsection \<open>The tracker\<close>

record op_tracker =
  tr_owner :: string
  tr_key :: string
  tr_max_recent :: nat
  tr_heartbeats :: "string list"
  tr_accepting :: bool
  tr_interval_positive :: bool
  tr_thread :: "bool option"

definition tracker_init :: "string \<Rightarrow> string \<Rightarrow> int \<Rightarrow> bool \<Rightarrow> op_tracker" where
  "tracker_init owner key max_recent interval_positive =
     \<lparr>tr_owner = owner, tr_key = key,
      tr_max_recent = nat (max 1 (if max_recent = 0 then 40 else max_recent)),
      tr_heartbeats = [], tr_accepting = True, tr_interval_positive = interval_positive, tr_thread = None\<rparr>"

definition load_registry :: "kv_store \<Rightarrow> string \<Rightarrow> op_registry" where
  "load_registry s key = registry_from_raw (kv_read s key)"

definition mutate_registry ::
    "op_tracker \<Rightarrow> int \<Rightarrow> 'a mutator \<Rightarrow> kv_store \<Rightarrow> (exn + 'a) \<times> kv_store" where
  "mutate_registry t stamp mut s =
     (let (r, s') = update_key_value s (tr_key t) (\<lambda>raw.
            result_bind (mut (registry_from_raw raw))
              (\<lambda>ra. Inr (op_payload (tr_max_recent t) stamp (fst ra), snd ra)))
      in (result_bind r (\<lambda>va. Inr (snd va)), s'))"

definition untrack :: "string list \<Rightarrow> op_tracker \<Rightarrow> op_tracker" where
  "untrack ids t = t\<lparr>tr_heartbeats := filter (\<lambda>i. i \<notin> set (filter (\<lambda>j. j \<noteq> []) ids)) (tr_heartbeats t)\<rparr>"

text \<open>
  \<open>_ensure_heartbeat_sweeper_locked\<close>: \<open>starts\<close> tells whether the thread could be started; a failed
  start rolls the reference back and raises.
\<close>

definition ensure_sweeper :: "bool \<Rightarrow> op_tracker \<Rightarrow> (exn + unit) \<times> op_tracker" where
  "ensure_sweeper starts t =
     (if \<not> tr_interval_positive t \<or> \<not> tr_accepting t then (Inr (), t)
      else if tr_thread t = Some True then (Inr (), t)
      else if starts then (Inr (), t\<lparr>tr_thread := Some True\<rparr>)
      else (Inl (RuntimeError ''can't start new thread''), t\<lparr>tr_thread := None\<rparr>))"

definition start_operation ::
    "bool \<Rightarrow> string \<Rightarrow> int \<Rightarrow> int \<Rightarrow> string \<Rightarrow> string \<Rightarrow> string \<Rightarrow> pdict \<Rightarrow> py \<Rightarrow> op_tracker \<Rightarrow> kv_store
      \<Rightarrow> (exn + operation) \<times> op_tracker \<times> kv_store" where
  "start_operation starts op_id now stamp kind title summary details tot t s =
     (case positive_int tot of
        Inl e \<Rightarrow> (Inl e, t, s)
      | Inr tot' \<Rightarrow>
          if \<not> tr_accepting t
          then (Inl (RuntimeError ''Avvio operazione rifiutato durante lo shutdown''), t, s)
          else
            (let op = new_operation (tr_owner t) op_id now kind title summary details tot'
             in case mutate_registry t stamp (add_operation op_id op) s of
                  (Inl e, s1) \<Rightarrow> (Inl e, t, s1)
                | (Inr created, s1) \<Rightarrow>
                    (case ensure_sweeper starts (t\<lparr>tr_heartbeats := List.insert op_id (tr_heartbeats t)\<rparr>) of
                       (Inr u, t1) \<Rightarrow> (Inr created, t1, s1)
                     | (Inl e, t1) \<Rightarrow>
                         (Inl e, t1\<lparr>tr_heartbeats := remove1 op_id (tr_heartbeats t1)\<rparr>,
                          snd (mutate_registry t stamp (fail_start (tr_owner t) now op_id) s1)))))"

definition complete_operation ::
    "int \<Rightarrow> int \<Rightarrow> string \<Rightarrow> string \<Rightarrow> string \<Rightarrow> pdict \<Rightarrow> py \<Rightarrow> op_tracker \<Rightarrow> kv_store
      \<Rightarrow> (exn + operation option) \<times> op_tracker \<times> kv_store" where
  "complete_operation now stamp op_id status message result error t s =
     (case mutate_registry t stamp (complete (tr_owner t) now op_id status message result error) s of
        (Inl e, s1) \<Rightarrow> (Inl e, t, s1)
      | (Inr r, s1) \<Rightarrow> (Inr r, untrack [op_id] t, s1))"

definition finish_operation ::
    "int \<Rightarrow> int \<Rightarrow> string \<Rightarrow> string \<Rightarrow> pdict \<Rightarrow> op_tracker \<Rightarrow> kv_store
      \<Rightarrow> (exn + operation option) \<times> op_tracker \<times> kv_store" where
  "finish_operation now stamp op_id message result =
     complete_operation now stamp op_id ''success'' message result PNone"

definition fail_operation ::
    "int \<Rightarrow> int \<Rightarrow> string \<Rightarrow> op_tracker \<Rightarrow> kv_store \<Rightarrow> (exn + operation option) \<times> op_tracker \<times> kv_store" where
  "fail_operation now stamp op_id =
     complete_operation now stamp op_id ''error'' public_failure [] (PStr public_failure)"

definition skip_operation ::
    "int \<Rightarrow> int \<Rightarrow> string \<Rightarrow> string \<Rightarrow> pdict \<Rightarrow> op_tracker \<Rightarrow> kv_store
      \<Rightarrow> (exn + operation option) \<times> op_tracker \<times> kv_store" where
  "skip_operation now stamp op_id message result =
     complete_operation now stamp op_id ''skipped'' message result PNone"

definition interrupt_operation ::
    "int \<Rightarrow> int \<Rightarrow> string \<Rightarrow> string \<Rightarrow> pdict \<Rightarrow> op_tracker \<Rightarrow> kv_store
      \<Rightarrow> (exn + operation option) \<times> op_tracker \<times> kv_store" where
  "interrupt_operation now stamp op_id message result =
     complete_operation now stamp op_id ''interrupted'' message result PNone"

definition sweep_operations ::
    "int \<Rightarrow> string list mutator \<Rightarrow> op_tracker \<Rightarrow> kv_store \<Rightarrow> (exn + nat) \<times> op_tracker \<times> kv_store" where
  "sweep_operations stamp mut t s =
     (case mutate_registry t stamp mut s of
        (Inl e, s1) \<Rightarrow> (Inl e, t, s1)
      | (Inr ids, s1) \<Rightarrow> (Inr (length ids), untrack ids t, s1))"

definition heartbeat_owned :: "int \<Rightarrow> int \<Rightarrow> op_tracker \<Rightarrow> kv_store \<Rightarrow> (exn + int) \<times> op_tracker \<times> kv_store" where
  "heartbeat_owned now stamp t s =
     (if tr_heartbeats t = [] then (Inr 0, t, s)
      else (case mutate_registry t stamp (renew_owned (tr_owner t) now (tr_heartbeats t)) s of
        (Inl e, s1) \<Rightarrow> (Inl e, t, s1)
      | (Inr (n, invalid), s1) \<Rightarrow> (Inr n, untrack invalid t, s1)))"

definition has_stale_active :: "int \<Rightarrow> int \<Rightarrow> op_tracker \<Rightarrow> kv_store \<Rightarrow> bool" where
  "has_stale_active now stale_after t s =
     list_ex (\<lambda>p. is_active (snd p) \<and> stale_at (stale_cutoff now stale_after) (snd p))
       (load_registry s (tr_key t))"

definition list_operations :: "op_tracker \<Rightarrow> kv_store \<Rightarrow> operation list" where
  "list_operations t s =
     sort_key (\<lambda>op. if is_active op then 0 else (1 :: nat))
       (sort_desc updated_text (map (\<lambda>p. public_operation (snd p)) (load_registry s (tr_key t))))"

definition active_count :: "op_tracker \<Rightarrow> kv_store \<Rightarrow> nat" where
  "active_count t s = length (filter is_active (list_operations t s))"

text \<open>\<open>stopped\<close> tells whether the sweeper thread was joined before the timeout.\<close>

definition shutdown_tracker ::
    "int \<Rightarrow> int \<Rightarrow> bool \<Rightarrow> bool \<Rightarrow> op_tracker \<Rightarrow> kv_store \<Rightarrow> bool \<times> op_tracker \<times> kv_store" where
  "shutdown_tracker now stamp stopped interrupt t s =
     (let t1 = t\<lparr>tr_accepting := False\<rparr>;
          (t2, s2) = (if interrupt
            then snd (sweep_operations stamp
              (interrupt_active (tr_owner t) now ''Operazione interrotta durante lo shutdown'') t1 s)
            else (t1, s));
          done = (tr_thread t = None \<or> stopped)
      in (done, (if done then t2\<lparr>tr_thread := None, tr_heartbeats := []\<rparr> else t2), s2))"

definition initialize_tracker :: "bool \<Rightarrow> op_tracker \<Rightarrow> (exn + unit) \<times> op_tracker" where
  "initialize_tracker starts t =
     (if \<not> tr_accepting t \<and> tr_thread t = Some True
      then (Inl (RuntimeError ''Impossibile riaprire il tracker con heartbeat attivo''), t)
      else ensure_sweeper starts
        (if tr_accepting t then t else t\<lparr>tr_thread := None, tr_heartbeats := [], tr_accepting := True\<rparr>))"

subsection \<open>Reading back what was stored\<close>

lemma status_in_dset [simp]:
  "status_in (dset k v op) names =
    (if k = ''status'' then (case v of PStr s \<Rightarrow> s \<in> set names | _ \<Rightarrow> False) else status_in op names)"
  by (simp add: status_in_def)

lemma owned_by_dset [simp]:
  "k \<noteq> ''_owner_id'' \<Longrightarrow> owned_by owner (dset k v op) = owned_by owner op"
  by (simp add: owned_by_def)

lemma dict_items_payload: "dict_items (PDict (map (\<lambda>p. (fst p, PDict (snd p))) reg)) = reg"
  by (induction reg) (auto simp: dict_items_def)

lemma registry_payload: "registry_from_raw (op_payload m stamp reg) = prune m reg"
  by (simp add: registry_from_raw_def op_payload_def dict_items_payload)

lemma load_mutate:
  assumes "valid_key (tr_key t)"
  shows "load_registry (snd (mutate_registry t stamp mut s)) (tr_key t) =
    (case mut (load_registry s (tr_key t)) of
       Inl e \<Rightarrow> load_registry s (tr_key t) | Inr (reg, a) \<Rightarrow> prune (tr_max_recent t) reg)"
    and "fst (mutate_registry t stamp mut s) = result_bind (mut (load_registry s (tr_key t))) (\<lambda>ra. Inr (snd ra))"
proof -
  define f where "f = (\<lambda>raw. result_bind (mut (registry_from_raw raw))
    (\<lambda>ra. Inr (op_payload (tr_max_recent t) stamp (fst ra), snd ra)))"
  have eq: "mutate_registry t stamp mut s =
      (result_bind (fst (update_key_value s (tr_key t) f)) (\<lambda>va. Inr (snd va)), snd (update_key_value s (tr_key t) f))"
    by (simp add: mutate_registry_def f_def split_def Let_def)
  have f: "f (kv_read s (tr_key t)) = (case mut (load_registry s (tr_key t)) of
      Inl e \<Rightarrow> Inl e | Inr ra \<Rightarrow> Inr (op_payload (tr_max_recent t) stamp (fst ra), snd ra))"
    by (simp add: f_def load_registry_def split: sum.split)
  show "load_registry (snd (mutate_registry t stamp mut s)) (tr_key t) =
    (case mut (load_registry s (tr_key t)) of
       Inl e \<Rightarrow> load_registry s (tr_key t) | Inr (reg, a) \<Rightarrow> prune (tr_max_recent t) reg)"
    using f kv.update_raises [OF assms, of f s] kv.update_reads [OF assms, of f s]
    by (auto simp: eq load_registry_def registry_payload split: sum.splits)
  show "fst (mutate_registry t stamp mut s) = result_bind (mut (load_registry s (tr_key t))) (\<lambda>ra. Inr (snd ra))"
    using f kv.update_raises [OF assms, of f s] kv.update_result [OF assms, of f s]
    by (auto simp: eq split: sum.splits)
qed

lemma load_mutate_frame:
  assumes "valid_key (tr_key t)" "k \<noteq> tr_key t"
  shows "kv_read (snd (mutate_registry t stamp mut s)) k = kv_read s k"
  using kv.update_frame [OF assms] by (simp add: mutate_registry_def split_def Let_def)

subsection \<open>Pruning\<close>

lemma distinct_sort_desc_keys: "distinct (dkeys xs) \<Longrightarrow> distinct (dkeys (sort_desc f xs))"
proof -
  assume "distinct (dkeys xs)"
  then have d: "distinct xs" "inj_on fst (set xs)" by (simp_all add: dkeys_def distinct_map)
  then have "distinct (sort_desc f xs)" by (simp add: sort_desc_def)
  with d(2) show ?thesis by (simp add: dkeys_def distinct_map)
qed

lemma fold_dset_props:
  fixes ps d :: "('k, 'v) dict"
  assumes "distinct (dkeys ps)" "distinct (dkeys d)"
  shows "map_of (fold (\<lambda>p d. dset (fst p) (snd p) d) ps d) k =
      (case map_of ps k of None \<Rightarrow> map_of d k | Some v \<Rightarrow> Some v)"
    and "distinct (dkeys (fold (\<lambda>p d. dset (fst p) (snd p) d) ps d))"
proof -
  have "map_of (fold (\<lambda>p d. dset (fst p) (snd p) d) ps d) k =
      (case map_of ps k of None \<Rightarrow> map_of d k | Some v \<Rightarrow> Some v) \<and>
    distinct (dkeys (fold (\<lambda>p d. dset (fst p) (snd p) d) ps d))"
    using assms
  proof (induction ps arbitrary: d)
    case (Cons p ps)
    obtain a b where p: "p = (a, b)" by (cases p)
    have "map_of ps a = None" using Cons.prems(1) p by (auto simp: dkeys_def map_of_eq_None_iff)
    moreover have d: "distinct (dkeys ps)" "distinct (dkeys (dset a b d))"
      using Cons.prems distinct_dset [OF Cons.prems(2)] distinct_dkeys_tl by (blast, blast)
    ultimately show ?case using Cons.IH [OF d] p by (auto split: option.splits)
  qed simp
  then show "map_of (fold (\<lambda>p d. dset (fst p) (snd p) d) ps d) k =
      (case map_of ps k of None \<Rightarrow> map_of d k | Some v \<Rightarrow> Some v)"
    "distinct (dkeys (fold (\<lambda>p d. dset (fst p) (snd p) d) ps d))" by auto
qed

definition kept_completed :: "nat \<Rightarrow> op_registry \<Rightarrow> op_registry" where
  "kept_completed m reg =
     take m (sort_desc (\<lambda>p. updated_text (snd p)) (filter (\<lambda>p. \<not> is_active (snd p)) reg))"

lemma prune_alt:
  assumes "distinct (dkeys reg)"
  shows "prune m reg = fold (\<lambda>p d. dset (fst p) (snd p) d) (kept_completed m reg)
    (filter (\<lambda>p. is_active (snd p)) reg)"
proof -
  have "filter (\<lambda>p. fst p \<notin> set (dkeys (filter (\<lambda>p. is_active (snd p)) reg))) reg =
      filter (\<lambda>p. \<not> is_active (snd p)) reg"
  proof (rule filter_cong [OF refl])
    fix p assume p: "p \<in> set reg"
    have "map_of reg (fst p) = Some (snd p)" using in_dict_map_of [OF assms, of "fst p" "snd p"] p by simp
    then show "(fst p \<notin> set (dkeys (filter (\<lambda>p. is_active (snd p)) reg))) = (\<not> is_active (snd p))"
      by (simp add: map_of_filter_distinct [OF assms] domIff)
  qed
  then show ?thesis by (simp add: prune_def kept_completed_def Let_def)
qed

lemma kept_completed_props:
  assumes "distinct (dkeys reg)"
  shows "distinct (dkeys (kept_completed m reg))" "set (kept_completed m reg) \<subseteq> {p \<in> set reg. \<not> is_active (snd p)}"
    "length (kept_completed m reg) \<le> m"
proof -
  have "distinct (dkeys (sort_desc (\<lambda>p. updated_text (snd p)) (filter (\<lambda>p. \<not> is_active (snd p)) reg)))"
    using assms by (intro distinct_sort_desc_keys distinct_dkeys_filter)
  then show "distinct (dkeys (kept_completed m reg))"
    by (simp add: kept_completed_def dkeys_def take_map [symmetric] distinct_take)
  show "set (kept_completed m reg) \<subseteq> {p \<in> set reg. \<not> is_active (snd p)}"
    using set_take_subset by (fastforce simp: kept_completed_def)
qed (simp add: kept_completed_def)

lemma prune_props:
  assumes "distinct (dkeys reg)"
  shows "map_of (prune m reg) k =
      (case map_of reg k of None \<Rightarrow> None
       | Some op \<Rightarrow> if is_active op \<or> (k, op) \<in> set (kept_completed m reg) then Some op else None)"
    and "distinct (dkeys (prune m reg))"
proof -
  note kc = kept_completed_props [OF assms, of m]
  note fp = fold_dset_props [OF kc(1) distinct_dkeys_filter [OF assms], of "\<lambda>p. is_active (snd p)"]
  show "distinct (dkeys (prune m reg))" unfolding prune_alt [OF assms] by (rule fp(2))
  have "map_of (kept_completed m reg) k = (case map_of reg k of None \<Rightarrow> None
      | Some op \<Rightarrow> if (k, op) \<in> set (kept_completed m reg) then Some op else None)"
  proof (cases "map_of (kept_completed m reg) k")
    case None
    then show ?thesis using in_dict_map_of [OF kc(1), of k] by (auto split: option.split)
  next
    case (Some op)
    then have "(k, op) \<in> set (kept_completed m reg)" by (rule map_of_SomeD)
    moreover from this have "map_of reg k = Some op" using kc(2) in_dict_map_of [OF assms, of k op] by auto
    ultimately show ?thesis using Some by simp
  qed
  then show "map_of (prune m reg) k =
      (case map_of reg k of None \<Rightarrow> None
       | Some op \<Rightarrow> if is_active op \<or> (k, op) \<in> set (kept_completed m reg) then Some op else None)"
    unfolding prune_alt [OF assms] fp(1) map_of_filter_distinct [OF assms] by (auto split: option.splits)
qed

lemma prune_mem:
  assumes "distinct (dkeys reg)"
  shows "p \<in> set (prune m reg) \<longleftrightarrow> p \<in> set reg \<and> (is_active (snd p) \<or> p \<in> set (kept_completed m reg))"
  using in_dict_map_of [OF prune_props(2) [OF assms], of "fst p" "snd p" m]
    in_dict_map_of [OF assms, of "fst p" "snd p"] prune_props(1) [OF assms, of m "fst p"]
  by (auto split: option.splits if_splits)

text \<open>
  Pruning keeps every active operation and at most \<open>max_recent\<close> finished ones, unchanged, and
  no finished operation it drops was updated after one it keeps.
\<close>

theorem prune_keeps_newest:
  assumes "distinct (dkeys reg)"
  shows "(\<forall>k op. map_of reg k = Some op \<and> is_active op \<longrightarrow> map_of (prune m reg) k = Some op) \<and>
    length (filter (\<lambda>p. \<not> is_active (snd p)) (prune m reg)) \<le> m \<and>
    set (prune m reg) \<subseteq> set reg \<and>
    (\<forall>p \<in> set reg - set (prune m reg). \<forall>q \<in> set (prune m reg). \<not> is_active (snd q) \<longrightarrow>
       updated_text (snd p) \<le> updated_text (snd q))"
proof -
  note pp = prune_props [OF assms, of m]
  note kc = kept_completed_props [OF assms, of m]
  note mem = prune_mem [OF assms, of _ m]
  have "set (filter (\<lambda>p. \<not> is_active (snd p)) (prune m reg)) \<subseteq> set (kept_completed m reg)" using mem by auto
  moreover have "distinct (filter (\<lambda>p. \<not> is_active (snd p)) (prune m reg))"
    using pp(2) by (simp add: dkeys_def distinct_map)
  ultimately have "length (filter (\<lambda>p. \<not> is_active (snd p)) (prune m reg)) \<le> length (kept_completed m reg)"
    by (metis (no_types) card_length card_mono distinct_card finite_set order_trans)
  then have len: "length (filter (\<lambda>p. \<not> is_active (snd p)) (prune m reg)) \<le> m" using kc(3) by simp
  define xs where "xs = sort_desc (\<lambda>p. updated_text (snd p)) (filter (\<lambda>p. \<not> is_active (snd p)) reg)"
  have order: "updated_text (snd p) \<le> updated_text (snd q)"
    if "p \<in> set reg" "p \<notin> set (prune m reg)" "q \<in> set (prune m reg)" "\<not> is_active (snd q)" for p q
  proof -
    have "p \<in> set xs" "p \<notin> set (take m xs)" "q \<in> set (take m xs)"
      using that mem by (auto simp: xs_def kept_completed_def)
    then have "p \<in> set (drop m xs)" by (metis Un_iff append_take_drop_id set_append)
    moreover have "sorted (rev (map (\<lambda>p. updated_text (snd p)) (drop m xs)) @
        rev (map (\<lambda>p. updated_text (snd p)) (take m xs)))"
      using sort_desc_sorted [of "\<lambda>p. updated_text (snd p)"] unfolding xs_def
      by (metis append_take_drop_id map_append rev_append)
    ultimately show ?thesis using \<open>q \<in> set (take m xs)\<close> by (auto simp: sorted_append)
  qed
  have act: "map_of (prune m reg) k = Some op" if "map_of reg k = Some op" "is_active op" for k op
    using pp(1) [of k] that by simp
  show ?thesis using act len order mem by blast
qed

theorem prune_keeps_newest_witness:
  "length (filter (\<lambda>p. \<not> is_active (snd p)) (prune 1 [(''a'', [(''status'', PStr ''error'')]), (''b'', [])])) \<le> 1"
proof -
  have "distinct (dkeys [(''a'', [(''status'', PStr ''error'')]), (''b'', [])])" by (simp add: dkeys_def)
  from prune_keeps_newest [OF this, of 1] show ?thesis by blast
qed

text \<open>A row with one running operation of the tracker \<open>w\<close>, for the applications below.\<close>

definition sample_operation :: operation where
  "sample_operation = new_operation ''w'' ''a'' 0 [] [] [] [] PNone"

definition sample_store :: kv_store where
  "sample_store = [(''k'', op_payload 40 0 [(''a'', sample_operation)])]"

definition sample_tracker :: "string \<Rightarrow> op_tracker" where
  "sample_tracker owner = tracker_init owner ''k'' 40 True"

lemma sample_facts:
  "load_registry sample_store ''k'' = [(''a'', sample_operation)]" "valid_key ''k''"
  "is_active sample_operation" "owned_by ''w'' sample_operation" "sample_operation \<noteq> []"
  "tr_key (sample_tracker owner) = ''k''" "tr_owner (sample_tracker owner) = owner"
  by (simp_all add: load_registry_def kv_read_def sample_store_def registry_payload prune_def Let_def
      sort_desc_def sample_operation_def new_operation_def active_statuses_def status_in_def owned_by_def
      valid_key_def sample_tracker_def tracker_init_def dkeys_def dget_default_def pget_def)

subsection \<open>Runs of commands by several trackers\<close>

datatype op_command =
    StartOp string operation
  | UpdateOp string op_change
  | HeartbeatOp string
  | CompleteOp string string string pdict py
  | ClearOp
  | InterruptActiveOp string
  | InterruptOrphanedOp string
  | InterruptStaleOp int string
  | FailStartOp string
  | RenewOp "string list"

definition forget :: "exn + op_registry \<times> 'a \<Rightarrow> exn + op_registry \<times> unit" where
  "forget r = result_bind r (\<lambda>ra. Inr (fst ra, ()))"

primrec command_mutator ::
    "(int \<Rightarrow> int \<Rightarrow> exn + pyfloat) \<Rightarrow> string \<Rightarrow> int \<Rightarrow> op_command \<Rightarrow> unit mutator" where
  "command_mutator pc owner now (StartOp i op) = (\<lambda>reg. forget (add_operation i op reg))"
| "command_mutator pc owner now (UpdateOp i ch) = (\<lambda>reg. forget (update_operation pc owner now i ch reg))"
| "command_mutator pc owner now (HeartbeatOp i) = (\<lambda>reg. forget (renew_heartbeat owner now i reg))"
| "command_mutator pc owner now (CompleteOp i st m r e) = (\<lambda>reg. forget (complete owner now i st m r e reg))"
| "command_mutator pc owner now ClearOp = (\<lambda>reg. forget (clear_completed reg))"
| "command_mutator pc owner now (InterruptActiveOp m) = (\<lambda>reg. forget (interrupt_active owner now m reg))"
| "command_mutator pc owner now (InterruptOrphanedOp m) = (\<lambda>reg. forget (interrupt_orphaned owner now m reg))"
| "command_mutator pc owner now (InterruptStaleOp c m) = (\<lambda>reg. forget (interrupt_stale c now m reg))"
| "command_mutator pc owner now (FailStartOp i) = (\<lambda>reg. forget (fail_start owner now i reg))"
| "command_mutator pc owner now (RenewOp is) = (\<lambda>reg. forget (renew_owned owner now is reg))"

text \<open>An event of a run: which tracker (all on the same row), when, and what.\<close>

type_synonym op_event = "op_tracker \<times> int \<times> int \<times> op_command"

fun run_commands :: "(int \<Rightarrow> int \<Rightarrow> exn + pyfloat) \<Rightarrow> op_event list \<Rightarrow> kv_store \<Rightarrow> kv_store" where
  "run_commands pc [] s = s"
| "run_commands pc ((t, now, stamp, cmd) # es) s =
     run_commands pc es (snd (mutate_registry t stamp (command_mutator pc (tr_owner t) now cmd) s))"

primrec creates :: "op_command \<Rightarrow> string set" where
  "creates (StartOp i op) = {i}"
| "creates (UpdateOp i ch) = {}"
| "creates (HeartbeatOp i) = {}"
| "creates (CompleteOp i st m r e) = {}"
| "creates ClearOp = {}"
| "creates (InterruptActiveOp m) = {}"
| "creates (InterruptOrphanedOp m) = {}"
| "creates (InterruptStaleOp c m) = {}"
| "creates (FailStartOp i) = {i}"
| "creates (RenewOp is) = {}"

lemma forget_Inr: "forget r = Inr (reg, u) \<longleftrightarrow> (\<exists>b. r = Inr (reg, b))"
  by (cases r) (auto simp: forget_def)

lemma mine_and_active_Some:
  "mine_and_active owner reg i = Some op \<longleftrightarrow>
    map_of reg i = Some op \<and> op \<noteq> [] \<and> owned_by owner op \<and> is_active op"
  by (auto simp: mine_and_active_def split: option.splits)

lemma map_of_sweep:
  "map_of (fst (sweep P now m reg)) k =
    map_option (\<lambda>op. if P op then interrupted_operation now m op else op) (map_of reg k)"
  by (induction reg) (auto simp: sweep_def)

lemma dkeys_sweep: "dkeys (fst (sweep P now m reg)) = dkeys reg"
  by (simp add: sweep_def dkeys_def comp_def)

lemma renew_owned_fold:
  assumes "renew_owned owner now is reg = Inr (reg', a)" "distinct (dkeys reg)"
  shows "distinct (dkeys reg') \<and> (\<forall>k. map_of reg' k =
    (if k \<in> set is then map_option (\<lambda>op. if op \<noteq> [] \<and> owned_by owner op \<and> is_active op
        then dset ''_heartbeat_at'' (PStr (iso_utc now)) op else op) (map_of reg k)
     else map_of reg k))"
proof -
  define f where "f = (\<lambda>(r, n :: int, invalid) op_id.
      (case mine_and_active owner r op_id of
         None \<Rightarrow> (r, n, invalid @ [op_id])
       | Some op \<Rightarrow> (dset op_id (dset ''_heartbeat_at'' (PStr (iso_utc now)) op) r, n + 1, invalid)))"
  define g where "g op = (if op \<noteq> [] \<and> owned_by owner op \<and> is_active op
      then dset ''_heartbeat_at'' (PStr (iso_utc now)) op else op)" for op
  have gg: "g (g op) = g op" for op
    by (simp add: g_def)
  have "distinct (dkeys (fst (foldl f (r, n, inv) is))) \<and>
      (\<forall>k. map_of (fst (foldl f (r, n, inv) is)) k = (if k \<in> set is then map_option g (map_of r k) else map_of r k))"
    if "distinct (dkeys r)" for r n inv
    using that
  proof (induction "is" arbitrary: r n inv)
    case (Cons i "is")
    obtain r' n' inv' where f: "f (r, n, inv) i = (r', n', inv')" by (cases "f (r, n, inv) i") auto
    have r': "distinct (dkeys r')" "\<And>k. map_of r' k = (if k = i then map_option g (map_of r k) else map_of r k)"
      using f Cons.prems
      by (auto simp: f_def g_def mine_and_active_def split: option.splits if_splits)
    show ?case using Cons.IH [OF r'(1), of n' inv'] r'(2) gg f
      by (auto simp: option.map_comp comp_def)
  qed simp
  moreover have "reg' = fst (foldl f (reg, 0, []) is)"
    using assms(1) by (simp add: renew_owned_def f_def split: prod.splits)
  ultimately show ?thesis using assms(2) by (simp add: g_def [abs_def])
qed

text \<open>A mutator keeps the keys distinct and never touches a finished operation it did not create.\<close>

lemma command_frame:
  assumes "command_mutator pc owner now cmd reg = Inr (reg', a)" "distinct (dkeys reg)"
  shows "distinct (dkeys reg')"
    and "k \<notin> creates cmd \<Longrightarrow> map_of reg k = None \<Longrightarrow> map_of reg' k = None"
    and "k \<notin> creates cmd \<Longrightarrow> map_of reg k = Some op \<Longrightarrow> \<not> is_active op \<Longrightarrow>
      map_of reg' k = Some op \<or> map_of reg' k = None"
proof -
  have "distinct (dkeys reg') \<and> (k \<notin> creates cmd \<longrightarrow> map_of reg k = None \<longrightarrow> map_of reg' k = None) \<and>
    (k \<notin> creates cmd \<longrightarrow> map_of reg k = Some op \<longrightarrow> \<not> is_active op \<longrightarrow>
      map_of reg' k = Some op \<or> map_of reg' k = None)"
  proof (cases cmd)
    case (StartOp i new)
    then show ?thesis using assms by (auto simp: forget_def add_operation_def)
  next
    case (UpdateOp i ch)
    then show ?thesis using assms
      by (auto simp: forget_def update_operation_def mine_and_active_Some Let_def result_bind_Inr_iff
          split: option.splits if_splits)
  next
    case (HeartbeatOp i)
    then show ?thesis using assms
      by (auto simp: forget_def renew_heartbeat_def mine_and_active_Some split: option.splits if_splits)
  next
    case (CompleteOp i st m r e)
    then show ?thesis using assms
      by (auto simp: forget_def complete_def mine_and_active_Some Let_def split: option.splits if_splits)
  next
    case ClearOp
    then show ?thesis using assms
      by (auto simp: forget_def clear_completed_def Let_def distinct_dkeys_filter map_of_filter_distinct
          split: option.splits)
  next
    case (InterruptActiveOp m)
    then show ?thesis using assms
      by (auto simp: forget_def interrupt_active_def map_of_sweep dkeys_sweep)
  next
    case (InterruptOrphanedOp m)
    then show ?thesis using assms
      by (auto simp: forget_def interrupt_orphaned_def map_of_sweep dkeys_sweep)
  next
    case (InterruptStaleOp c m)
    then show ?thesis using assms
      by (auto simp: forget_def interrupt_stale_def map_of_sweep dkeys_sweep split: option.splits)
  next
    case (FailStartOp i)
    then show ?thesis using assms
      by (auto simp: forget_def fail_start_def split: option.splits if_splits)
  next
    case (RenewOp "is")
    then obtain b where b: "renew_owned owner now is reg = Inr (reg', b)"
      using assms(1) by (auto simp: forget_Inr)
    from renew_owned_fold [OF this assms(2)] show ?thesis by auto
  qed
  then show "distinct (dkeys reg')"
    "k \<notin> creates cmd \<Longrightarrow> map_of reg k = None \<Longrightarrow> map_of reg' k = None"
    "k \<notin> creates cmd \<Longrightarrow> map_of reg k = Some op \<Longrightarrow> \<not> is_active op \<Longrightarrow>
      map_of reg' k = Some op \<or> map_of reg' k = None" by simp_all
qed

lemma run_commands_frame:
  assumes "\<forall>e \<in> set es. tr_key (fst e) = key" "valid_key key" "distinct (dkeys (load_registry s key))"
    and "\<forall>e \<in> set es. k \<notin> creates (snd (snd (snd e)))"
  shows "distinct (dkeys (load_registry (run_commands pc es s) key)) \<and>
    (map_of (load_registry s key) k = None \<longrightarrow> map_of (load_registry (run_commands pc es s) key) k = None) \<and>
    (\<forall>op. map_of (load_registry s key) k = Some op \<and> \<not> is_active op \<longrightarrow>
       map_of (load_registry (run_commands pc es s) key) k = Some op \<or>
       map_of (load_registry (run_commands pc es s) key) k = None)"
  using assms
proof (induction es arbitrary: s)
  case (Cons e es)
  obtain t now stamp cmd where e: "e = (t, now, stamp, cmd)" by (cases e)
  define s' where "s' = snd (mutate_registry t stamp (command_mutator pc (tr_owner t) now cmd) s)"
  define reg where "reg = load_registry s key"
  define reg' where "reg' = load_registry s' key"
  have key: "tr_key t = key" and cr: "k \<notin> creates cmd" using Cons.prems e by auto
  have load: "reg' = (case command_mutator pc (tr_owner t) now cmd reg of
      Inl x \<Rightarrow> reg | Inr (r, a) \<Rightarrow> prune (tr_max_recent t) r)"
    using load_mutate(1) [of t stamp "command_mutator pc (tr_owner t) now cmd" s] Cons.prems(2)
    unfolding key reg_def reg'_def s'_def by simp
  have step: "distinct (dkeys reg') \<and> (map_of reg k = None \<longrightarrow> map_of reg' k = None) \<and>
      (\<forall>op. map_of reg k = Some op \<and> \<not> is_active op \<longrightarrow> map_of reg' k = Some op \<or> map_of reg' k = None)"
  proof (cases "command_mutator pc (tr_owner t) now cmd reg")
    case (Inl x)
    then show ?thesis using load Cons.prems(3) by (simp add: reg_def)
  next
    case (Inr ra)
    then obtain r where r: "command_mutator pc (tr_owner t) now cmd reg = Inr (r, ())" by (cases ra) auto
    have d: "distinct (dkeys reg)" using Cons.prems(3) by (simp add: reg_def)
    note cf = command_frame [OF r d]
    have "reg' = prune (tr_max_recent t) r" using load r by simp
    then show ?thesis using prune_props [OF cf(1), of "tr_max_recent t"] cf(2,3) [OF cr]
      by (auto split: option.splits)
  qed
  have "distinct (dkeys reg')" using step by blast
  then have IH: "distinct (dkeys (load_registry (run_commands pc es s') key)) \<and>
    (map_of reg' k = None \<longrightarrow> map_of (load_registry (run_commands pc es s') key) k = None) \<and>
    (\<forall>op. map_of reg' k = Some op \<and> \<not> is_active op \<longrightarrow>
       map_of (load_registry (run_commands pc es s') key) k = Some op \<or>
       map_of (load_registry (run_commands pc es s') key) k = None)"
    using Cons.IH [of s'] Cons.prems unfolding reg'_def by simp
  have "run_commands pc (e # es) s = run_commands pc es s'" by (simp add: e s'_def)
  then show ?case using IH step unfolding reg_def [symmetric] by metis
qed simp

text \<open>
  A finished operation is final.  Whatever any number of trackers do to the row afterwards, in
  any order and at any time, the record is either exactly as it was finished or gone; it never
  becomes active again and no field of it changes.
\<close>

theorem finished_is_final:
  assumes "valid_key key" "distinct (dkeys (load_registry s key))"
    and "map_of (load_registry s key) op_id = Some op" "\<not> is_active op"
    and "\<forall>e \<in> set es. tr_key (fst e) = key \<and> op_id \<notin> creates (snd (snd (snd e)))"
  shows "map_of (load_registry (run_commands pc es s) key) op_id \<in> {Some op, None}"
  using run_commands_frame [of es key s op_id pc] assms by auto

theorem finished_is_final_witness:
  "map_of (load_registry (run_commands (\<lambda>a b. Inr (Fin 0))
     [(sample_tracker ''v'', 9, 9, InterruptStaleOp 5 ''x''), (sample_tracker ''w'', 9, 9, ClearOp)]
     [(''k'', PDict [(''operations'', PDict [(''a'', PDict [(''status'', PStr ''success'')])])])]) ''k'') ''a''
   \<in> {Some [(''status'', PStr ''success'')], None}"
proof -
  define s :: kv_store where
    "s = [(''k'', PDict [(''operations'', PDict [(''a'', PDict [(''status'', PStr ''success'')])])])]"
  have load: "load_registry s ''k'' = [(''a'', [(''status'', PStr ''success'')])]"
    by (simp add: s_def load_registry_def kv_read_def registry_from_raw_def dict_items_def dget_default_def)
  show ?thesis
    unfolding s_def [symmetric]
    by (rule finished_is_final)
      (simp_all add: load sample_facts dkeys_def status_in_def active_statuses_def)
qed

text \<open>
  An active operation belongs to the process that started it: no command of other trackers
  changes it, except the two recovery sweeps for lost processes; in particular a foreign tracker
  cannot update, renew, finish, clear or prune it.
\<close>

theorem foreign_commands_keep_active:
  assumes "valid_key key" "distinct (dkeys (load_registry s key))"
    and "map_of (load_registry s key) op_id = Some op" "is_active op" "owned_by owner op"
    and "\<forall>e \<in> set es. tr_key (fst e) = key \<and> tr_owner (fst e) \<noteq> owner \<and>
      (\<forall>new. snd (snd (snd e)) \<noteq> StartOp op_id new) \<and>
      (\<forall>m. snd (snd (snd e)) \<noteq> InterruptOrphanedOp m) \<and>
      (\<forall>c m. snd (snd (snd e)) \<noteq> InterruptStaleOp c m)"
  shows "map_of (load_registry (run_commands pc es s) key) op_id = Some op"
  using assms(2,3,6)
proof (induction es arbitrary: s)
  case (Cons e es)
  obtain t now stamp cmd where e: "e = (t, now, stamp, cmd)" by (cases e)
  define s' where "s' = snd (mutate_registry t stamp (command_mutator pc (tr_owner t) now cmd) s)"
  define reg where "reg = load_registry s key"
  define reg' where "reg' = load_registry s' key"
  have key: "tr_key t = key" and other: "tr_owner t \<noteq> owner"
    and cmd: "\<And>new. cmd \<noteq> StartOp op_id new" "\<And>m. cmd \<noteq> InterruptOrphanedOp m"
      "\<And>c m. cmd \<noteq> InterruptStaleOp c m"
    using Cons.prems e by auto
  have foreign: "\<not> owned_by (tr_owner t) op" using other assms(5) by (simp add: owned_by_def)
  have d: "distinct (dkeys reg)" and here: "map_of reg op_id = Some op"
    using Cons.prems by (simp_all add: reg_def)
  have load: "reg' = (case command_mutator pc (tr_owner t) now cmd reg of
      Inl x \<Rightarrow> reg | Inr (r, a) \<Rightarrow> prune (tr_max_recent t) r)"
    using load_mutate(1) [of t stamp "command_mutator pc (tr_owner t) now cmd" s] assms(1)
    unfolding key reg_def reg'_def s'_def by simp
  have "distinct (dkeys reg') \<and> map_of reg' op_id = Some op"
  proof (cases "command_mutator pc (tr_owner t) now cmd reg")
    case (Inl x)
    then show ?thesis using load d here by simp
  next
    case (Inr ra)
    then obtain r where r: "command_mutator pc (tr_owner t) now cmd reg = Inr (r, ())" by (cases ra) auto
    have "map_of r op_id = Some op"
    proof (cases cmd)
      case (StartOp i new)
      then have "i \<noteq> op_id" using cmd(1) by auto
      then show ?thesis using StartOp r here by (auto simp: forget_def add_operation_def)
    next
      case (UpdateOp i ch)
      then show ?thesis using r here foreign
        by (auto simp: forget_def update_operation_def mine_and_active_Some Let_def result_bind_Inr_iff
            split: option.splits if_splits)
    next
      case ClearOp
      then show ?thesis using r here d assms(4)
        by (auto simp: forget_def clear_completed_def Let_def map_of_filter_distinct)
    next
      case (RenewOp "is")
      then obtain b where b: "renew_owned (tr_owner t) now is reg = Inr (r, b)"
        using r by (auto simp: forget_Inr)
      from renew_owned_fold [OF this d] show ?thesis using here foreign by auto
    qed (use r here foreign cmd in \<open>auto simp: forget_def renew_heartbeat_def complete_def
        interrupt_active_def fail_start_def map_of_sweep mine_and_active_Some Let_def
        split: option.splits if_splits\<close>)
    moreover have "distinct (dkeys r)" by (rule command_frame(1) [OF r d])
    moreover have "reg' = prune (tr_max_recent t) r" using load r by simp
    ultimately show ?thesis using prune_props [of r "tr_max_recent t"] assms(4) by simp
  qed
  then have "map_of (load_registry (run_commands pc es s') key) op_id = Some op"
    using Cons.IH [of s'] Cons.prems(3) unfolding reg'_def by simp
  then show ?case by (simp add: e s'_def)
qed simp

theorem foreign_commands_keep_active_witness:
  "map_of (load_registry (run_commands (\<lambda>a b. Inr (Fin 0))
     [(sample_tracker ''v'', 9, 9, CompleteOp ''a'' ''success'' [] [] PNone),
      (sample_tracker ''v'', 9, 9, ClearOp), (sample_tracker ''v'', 9, 9, InterruptActiveOp [])]
     sample_store) ''k'') ''a'' = Some sample_operation"
  by (rule foreign_commands_keep_active [where owner = "''w''"])
    (simp_all add: sample_facts dkeys_def)

definition progress_ok :: "operation \<Rightarrow> bool" where
  "progress_ok op = (case pget op ''progress'' of PInt p \<Rightarrow> 0 \<le> p \<and> p \<le> 100 | _ \<Rightarrow> False)"

lemma progress_ok_dset [simp]:
  "progress_ok (dset k v op) =
    (if k = ''progress'' then (case v of PInt p \<Rightarrow> 0 \<le> p \<and> p \<le> 100 | _ \<Rightarrow> False) else progress_ok op)"
  by (simp add: progress_ok_def)

lemma normalize_progress_range: "normalize_progress f = Inr p \<Longrightarrow> 0 \<le> p \<and> p \<le> 100"
  by (auto simp: normalize_progress_def split: pyfloat.splits)

lemma set_progress_ok:
  assumes "set_progress pc progress op = Inr op'" "progress_ok op"
  shows "progress_ok op'"
  using assms normalize_progress_range
  by (fastforce simp: set_progress_def progress_from_counts_def result_bind_Inr_iff
      split: option.splits if_splits)

lemma update_fields_ok:
  "set_total v op = Inr op' \<Longrightarrow> progress_ok op \<Longrightarrow> progress_ok op'"
  "set_current v op = Inr op' \<Longrightarrow> progress_ok op \<Longrightarrow> progress_ok op'"
  "merge_details d op = Inr op' \<Longrightarrow> progress_ok op \<Longrightarrow> progress_ok op'"
  "progress_ok (set_status s op) = progress_ok op"
  by (auto simp: set_total_def set_current_def merge_details_def set_status_def result_bind_Inr_iff
      split: if_splits py.splits)

lemma update_operation_ok:
  assumes "update_operation pc owner now i ch reg = Inr (reg', r)"
    and "distinct (dkeys reg)" "\<forall>p \<in> set reg. progress_ok (snd p)"
  shows "\<forall>p \<in> set reg'. progress_ok (snd p)"
proof (cases "mine_and_active owner reg i")
  case None
  then show ?thesis using assms by (simp add: update_operation_def)
next
  case (Some op)
  then have op: "progress_ok op" using assms(3) map_of_SomeD by (fastforce simp: mine_and_active_Some)
  obtain op3 op4 op5 op6 where steps:
    "set_total (ch_total ch) (case ch_message ch of None \<Rightarrow> set_status (ch_status ch) op
       | Some m \<Rightarrow> dset ''message'' (PStr m) (set_status (ch_status ch) op)) = Inr op3"
    "set_current (ch_current ch) op3 = Inr op4" "set_progress pc (ch_progress ch) op4 = Inr op5"
    "merge_details (ch_details ch) op5 = Inr op6"
    and reg': "reg' = dset i (dset ''_heartbeat_at'' (PStr (iso_utc now)) (dset ''updated_at'' (PStr (iso_utc now)) op6)) reg"
    using assms(1) Some by (auto simp: update_operation_def Let_def result_bind_Inr_iff)
  have "progress_ok op3" using update_fields_ok(1) [OF steps(1)] op
    by (simp add: update_fields_ok(4) split: option.splits)
  then have "progress_ok op4" by (rule update_fields_ok(2) [OF steps(2)])
  then have "progress_ok op5" by (rule set_progress_ok [OF steps(3)])
  then have "progress_ok op6" by (rule update_fields_ok(3) [OF steps(4)])
  then show ?thesis unfolding reg' using assms(2,3) by (intro dset_all) auto
qed

primrec starts_ok :: "op_command \<Rightarrow> bool" where
  "starts_ok (StartOp i op) = progress_ok op"
| "starts_ok (UpdateOp i ch) = True"
| "starts_ok (HeartbeatOp i) = True"
| "starts_ok (CompleteOp i st m r e) = True"
| "starts_ok ClearOp = True"
| "starts_ok (InterruptActiveOp m) = True"
| "starts_ok (InterruptOrphanedOp m) = True"
| "starts_ok (InterruptStaleOp c m) = True"
| "starts_ok (FailStartOp i) = True"
| "starts_ok (RenewOp is) = True"

lemma interrupted_ok: "progress_ok (interrupted_operation now m op) = progress_ok op"
  by (simp add: interrupted_operation_def)

lemma completed_ok: "progress_ok op \<Longrightarrow> progress_ok (completed_operation now st m r e op)"
  by (auto simp: completed_operation_def progress_ok_def pget_def dget_default_def split: option.splits)

lemma command_progress:
  assumes "command_mutator pc owner now cmd reg = Inr (reg', a)" "distinct (dkeys reg)" "starts_ok cmd"
    and ok: "\<forall>p \<in> set reg. progress_ok (snd p)"
  shows "\<forall>p \<in> set reg'. progress_ok (snd p)"
proof -
  have here: "progress_ok op" if "map_of reg i = Some op" for i op
    using ok map_of_SomeD [OF that] by fastforce
  have put: "\<forall>p \<in> set (dset i op reg). progress_ok (snd p)" if "progress_ok op" for i op
    using assms(2) that ok by (intro dset_all) auto
  have swept: "\<forall>p \<in> set (fst (sweep P now m reg)). progress_ok (snd p)" for P m
    using ok by (auto simp: sweep_def interrupted_ok)
  show ?thesis
  proof (cases cmd)
    case (UpdateOp i ch)
    then show ?thesis using assms(1,2) ok by (auto simp: forget_Inr dest: update_operation_ok)
  next
    case (RenewOp "is")
    then obtain b where "renew_owned owner now is reg = Inr (reg', b)"
      using assms(1) by (auto simp: forget_Inr)
    from renew_owned_fold [OF this assms(2)] have d: "distinct (dkeys reg')"
      and eq: "\<And>k. map_of reg' k = (if k \<in> set is then map_option (\<lambda>op. if op \<noteq> [] \<and> owned_by owner op \<and> is_active op
        then dset ''_heartbeat_at'' (PStr (iso_utc now)) op else op) (map_of reg k) else map_of reg k)" by auto
    show ?thesis
    proof
      fix p assume "p \<in> set reg'"
      then have "map_of reg' (fst p) = Some (snd p)" using in_dict_map_of [OF d, of "fst p" "snd p"] by simp
      then show "progress_ok (snd p)" using here unfolding eq by (cases p) (auto split: if_splits)
    qed
  next
    case (CompleteOp i st m r e)
    show ?thesis
    proof (cases "mine_and_active owner reg i")
      case None
      then show ?thesis using assms(1) ok CompleteOp by (simp add: forget_def complete_def)
    next
      case (Some op)
      then have "progress_ok (completed_operation now st m r e op)"
        using here by (auto simp: mine_and_active_Some intro: completed_ok)
      from put [OF this, of i] show ?thesis
        using assms(1) CompleteOp Some by (simp add: forget_def complete_def Let_def)
    qed
  next
    case (FailStartOp i)
    show ?thesis
    proof (cases "map_of reg i")
      case None
      then show ?thesis using assms(1) ok FailStartOp by (simp add: forget_def fail_start_def)
    next
      case (Some op)
      then have op: "progress_ok op" by (rule here)
      obtain op' where eq: "fail_start owner now i reg =
          (if op = [] \<or> \<not> owned_by owner op then Inr (reg, ()) else Inr (dset i op' reg, ()))"
        and "progress_ok op'"
        using op by (simp add: fail_start_def Some)
      then show ?thesis using assms(1) FailStartOp ok put [of op' i] by (auto simp: forget_def split: if_splits)
    qed
  next
    case (HeartbeatOp i)
    show ?thesis
    proof (cases "mine_and_active owner reg i")
      case None
      then show ?thesis using assms(1) ok HeartbeatOp by (simp add: forget_def renew_heartbeat_def)
    next
      case (Some op)
      then have "progress_ok (dset ''_heartbeat_at'' (PStr (iso_utc now)) op)"
        using here by (auto simp: mine_and_active_Some)
      from put [OF this, of i] show ?thesis
        using assms(1) HeartbeatOp Some by (simp add: forget_def renew_heartbeat_def)
    qed
  next
    case (StartOp i new)
    then show ?thesis using assms(1,3) put by (auto simp: forget_def add_operation_def)
  next
    case ClearOp
    then show ?thesis using assms(1) ok by (auto simp: forget_def clear_completed_def Let_def)
  next
    case (InterruptActiveOp m)
    then show ?thesis using assms(1) swept by (auto simp: forget_def interrupt_active_def)
  next
    case (InterruptOrphanedOp m)
    then show ?thesis using assms(1) swept by (auto simp: forget_def interrupt_orphaned_def)
  next
    case (InterruptStaleOp c m)
    then show ?thesis using assms(1) swept by (auto simp: forget_def interrupt_stale_def split: option.splits)
  qed
qed

lemma prune_subset: "distinct (dkeys reg) \<Longrightarrow> set (prune m reg) \<subseteq> set reg"
  by (auto simp: prune_mem)

text \<open>
  Progress stays between 0 and 100: after any run of commands the progress of every stored
  operation is an integer in that range, if it was one before and new operations start with one.
\<close>

theorem progress_in_range:
  assumes "valid_key key" "distinct (dkeys (load_registry s key))"
    and "\<forall>p \<in> set (load_registry s key). progress_ok (snd p)"
    and "\<forall>e \<in> set es. tr_key (fst e) = key \<and> starts_ok (snd (snd (snd e)))"
  shows "\<forall>p \<in> set (load_registry (run_commands pc es s) key). progress_ok (snd p)"
  using assms(2-4)
proof (induction es arbitrary: s)
  case (Cons e es)
  obtain t now stamp cmd where e: "e = (t, now, stamp, cmd)" by (cases e)
  define s' where "s' = snd (mutate_registry t stamp (command_mutator pc (tr_owner t) now cmd) s)"
  define reg where "reg = load_registry s key"
  have key: "tr_key t = key" and st: "starts_ok cmd" using Cons.prems e by auto
  have load: "load_registry s' key = (case command_mutator pc (tr_owner t) now cmd reg of
      Inl x \<Rightarrow> reg | Inr (r, a) \<Rightarrow> prune (tr_max_recent t) r)"
    using load_mutate(1) [of t stamp "command_mutator pc (tr_owner t) now cmd" s] assms(1)
    unfolding key reg_def s'_def by simp
  have "distinct (dkeys (load_registry s' key)) \<and> (\<forall>p \<in> set (load_registry s' key). progress_ok (snd p))"
  proof (cases "command_mutator pc (tr_owner t) now cmd reg")
    case (Inl x)
    then show ?thesis using load Cons.prems(1,2) by (simp add: reg_def)
  next
    case (Inr ra)
    then obtain r where r: "command_mutator pc (tr_owner t) now cmd reg = Inr (r, ())" by (cases ra) auto
    have d: "distinct (dkeys reg)" using Cons.prems(1) by (simp add: reg_def)
    have "\<forall>p \<in> set r. progress_ok (snd p)"
      using command_progress [OF r d st] Cons.prems(2) by (simp add: reg_def)
    moreover have dr: "distinct (dkeys r)" by (rule command_frame(1) [OF r d])
    ultimately show ?thesis using load r prune_subset [OF dr] prune_props(2) [OF dr] by auto
  qed
  then show ?case using Cons.IH [of s'] Cons.prems(3) by (simp add: e s'_def)
qed simp

theorem progress_in_range_witness:
  "list_all (\<lambda>p. progress_ok (snd p)) (load_registry (run_commands (\<lambda>a b. Inr (Fin 200))
     [(sample_tracker ''w'', 9, 9, UpdateOp ''a'' \<lparr>ch_message = None, ch_progress = Some (Fin 250),
        ch_current = PNone, ch_total = PNone, ch_status = [], ch_details = []\<rparr>)] sample_store) ''k'')"
  unfolding list_all_iff
proof (rule progress_in_range)
  show "\<forall>p \<in> set (load_registry sample_store ''k''). progress_ok (snd p)"
    by (simp add: sample_facts) (simp add: sample_operation_def new_operation_def progress_ok_def pget_def dget_default_def)
qed (simp_all add: sample_facts dkeys_def)

text \<open>
  A heartbeat fences the recovery sweep: an active operation its owner renewed at \<open>t0\<close>
  survives every stale sweep, of any tracker, whose cutoff lies before \<open>t0\<close>.
\<close>

theorem heartbeat_fences_stale_sweep:
  assumes "valid_key (tr_key t)" "distinct (dkeys (load_registry s (tr_key t)))"
    and "map_of (load_registry s (tr_key t)) op_id = Some op" "op \<noteq> []" "is_active op" "owned_by (tr_owner t) op"
    and "0 \<le> t0" "t0 \<le> max_instant" "tr_key other = tr_key t" "stale_cutoff now stale_after < t0"
  shows "map_of (load_registry (run_commands pc
      [(t, t0, stamp, HeartbeatOp op_id),
       (other, now, stamp', InterruptStaleOp (stale_cutoff now stale_after) message)] s) (tr_key t)) op_id
    = Some (dset ''_heartbeat_at'' (PStr (iso_utc t0)) op)"
proof -
  define op' where "op' = dset ''_heartbeat_at'' (PStr (iso_utc t0)) op"
  define s1 where "s1 = snd (mutate_registry t stamp (\<lambda>reg. forget (renew_heartbeat (tr_owner t) t0 op_id reg)) s)"
  define reg where "reg = load_registry s1 (tr_key t)"
  have mine: "mine_and_active (tr_owner t) (load_registry s (tr_key t)) op_id = Some op"
    using assms(3-6) by (simp add: mine_and_active_Some)
  have "reg = prune (tr_max_recent t) (dset op_id op' (load_registry s (tr_key t)))"
    using load_mutate(1) [OF assms(1), of stamp "\<lambda>reg. forget (renew_heartbeat (tr_owner t) t0 op_id reg)" s] mine
    by (simp add: reg_def s1_def op'_def) (simp add: forget_def renew_heartbeat_def)
  then have reg: "distinct (dkeys reg)" "map_of reg op_id = Some op'"
    using prune_props [OF distinct_dset [OF assms(2)]] assms(5) by (simp_all add: op'_def)
  have ne: "op' \<noteq> []" by (cases op) (auto simp: op'_def dset_def)
  have "py_or (pget op' ''_heartbeat_at'') v = PStr (iso_utc t0)" for v by (simp add: op'_def py_or_def)
  then have hb: "heartbeat_of op' = Inr (Some t0)"
    using parse_iso_utc [OF assms(7,8)] replace_char_absent [OF iso_utc_no_Z]
    by (simp add: heartbeat_of_def op_parse_timestamp_def)
  then have safe: "\<not> stale_at (stale_cutoff now stale_after) op'" using assms(10) by (simp add: stale_at_def)
  define sw where "sw = (\<lambda>reg. forget (interrupt_stale (stale_cutoff now stale_after) now message reg))"
  have "load_registry (snd (mutate_registry other stamp' sw s1)) (tr_key t) =
    (case first_heartbeat_error reg of None \<Rightarrow>
       prune (tr_max_recent other) (fst (sweep (\<lambda>op. is_active op \<and> stale_at (stale_cutoff now stale_after) op) now message reg))
     | Some e \<Rightarrow> reg)"
    using load_mutate(1) [of other stamp' sw s1] assms(1,9)
    by (simp add: reg_def) (simp add: reg_def sw_def forget_def interrupt_stale_def split: option.split)
  moreover have "map_of (prune (tr_max_recent other)
      (fst (sweep (\<lambda>op. is_active op \<and> stale_at (stale_cutoff now stale_after) op) now message reg))) op_id = Some op'"
    using reg safe assms(5) by (subst prune_props(1)) (simp_all add: dkeys_sweep map_of_sweep op'_def)
  ultimately show ?thesis using reg(2) by (simp add: s1_def op'_def sw_def split: option.splits)
qed

theorem heartbeat_fences_stale_sweep_witness:
  "map_of (load_registry (run_commands (\<lambda>a b. Inr (Fin 0))
     [(sample_tracker ''w'', 2000000, 0, HeartbeatOp ''a''),
      (sample_tracker ''v'', 61000000, 0, InterruptStaleOp (stale_cutoff 61000000 60) ''lost'')]
     sample_store) ''k'') ''a'' = Some (dset ''_heartbeat_at'' (PStr (iso_utc 2000000)) sample_operation)"
  using heartbeat_fences_stale_sweep [of "sample_tracker ''w''" sample_store "''a''" sample_operation 2000000
      "sample_tracker ''v''" 61000000 60 "\<lambda>a b. Inr (Fin 0)" 0 0 "''lost''"]
  by (simp add: sample_facts dkeys_def stale_cutoff_def max_instant_def)

text \<open>
  A shutdown fences its process: afterwards no operation of this tracker is active in the row,
  and the tracker refuses to start new ones without writing anything.
\<close>

theorem shutdown_fences_tracker:
  assumes "valid_key (tr_key t)" "distinct (dkeys (load_registry s (tr_key t)))"
    and "shutdown_tracker now stamp stopped True t s = (done, t', s')"
  shows "(\<forall>p \<in> set (load_registry s' (tr_key t)). \<not> (is_active (snd p) \<and> owned_by (tr_owner t) (snd p))) \<and>
    \<not> tr_accepting t' \<and>
    (positive_int tot = Inr tot' \<longrightarrow>
      start_operation starts op_id now2 stamp2 kind title summary details tot t' s' =
        (Inl (RuntimeError ''Avvio operazione rifiutato durante lo shutdown''), t', s'))"
proof -
  define reg where "reg = load_registry s (tr_key t)"
  define P where "P op = (is_active op \<and> owned_by (tr_owner t) op)" for op
  define m where "m = ''Operazione interrotta durante lo shutdown''"
  have load: "load_registry (snd (mutate_registry (t\<lparr>tr_accepting := False\<rparr>) stamp (interrupt_active (tr_owner t) now m) s))
      (tr_key t) = prune (tr_max_recent t) (fst (sweep P now m reg))"
    using load_mutate(1) [of "t\<lparr>tr_accepting := False\<rparr>" stamp "interrupt_active (tr_owner t) now m" s] assms(1)
    by (simp add: reg_def interrupt_active_def P_def [abs_def] m_def split: prod.splits)
  have s': "s' = snd (mutate_registry (t\<lparr>tr_accepting := False\<rparr>) stamp (interrupt_active (tr_owner t) now m) s)"
    and acc: "\<not> tr_accepting t'"
    using assms(3)
    by (auto simp: shutdown_tracker_def sweep_operations_def Let_def m_def untrack_def
        split: prod.splits sum.splits if_splits)
  have d: "distinct (dkeys (fst (sweep P now m reg)))" using assms(2) by (simp add: dkeys_sweep reg_def)
  have "\<not> P (snd p)" if "p \<in> set (fst (sweep P now m reg))" for p
    using that
    by (auto simp: sweep_def P_def interrupted_operation_def active_statuses_def split: if_splits)
  then have "\<forall>p \<in> set (load_registry s' (tr_key t)). \<not> P (snd p)"
    unfolding s' load using prune_subset [OF d] by blast
  then show ?thesis using acc by (simp add: P_def start_operation_def)
qed

theorem shutdown_fences_tracker_witness:
  "list_all (\<lambda>p. \<not> (is_active (snd p) \<and> owned_by ''w'' (snd p)))
     (load_registry (snd (snd (shutdown_tracker 5 5 True True (sample_tracker ''w'') sample_store))) ''k'')"
proof -
  obtain ok t' s' where eq: "shutdown_tracker 5 5 True True (sample_tracker ''w'') sample_store = (ok, t', s')"
    by (metis prod_cases3)
  have "valid_key (tr_key (sample_tracker ''w''))"
    "distinct (dkeys (load_registry sample_store (tr_key (sample_tracker ''w''))))"
    by (simp_all add: sample_facts dkeys_def)
  from shutdown_fences_tracker [OF this eq, where tot = PNone and tot' = PNone] show ?thesis
    by (simp add: eq sample_facts list_all_iff)
qed

end
