(* ===== verification/Guard_Values.thy ===== *)
theory Guard_Values
  imports Py_Values
begin

text \<open>
  Value parsing shared by the Transcode Guard (\<open>emby_runtime/transcode_guard_rules.py\<close>, with
  the same helpers in \<open>transcode_guard_values.py\<close>): booleans, bounded integers, string lists,
  identifiers and text of JSON values, the readings of a stream's height, width and quality,
  direct play, remux, and the matching of excluded users, clients, devices and addresses.
  \<open>ipaddress.ip_address\<close> and the membership of an address in a network are read through the
  two functions of \<open>ip_lib\<close>.  Conversions that may raise return \<open>exn + 'a\<close>.
\<close>

subsection \<open>Scalars\<close>

definition true_words :: "string list" where
  "true_words = [''1'', ''true'', ''yes'', ''on'', ''si'', [CHR ''s'', CHR 0xEC]]"

definition false_words :: "string list" where
  "false_words = [''0'', ''false'', ''no'', ''off'']"

definition to_bool :: "py \<Rightarrow> bool \<Rightarrow> bool" where
  "to_bool v d =
     (case v of
        PBool b \<Rightarrow> b
      | PNone \<Rightarrow> d
      | _ \<Rightarrow> (let text = lower (strip (py_str v))
              in if text \<in> set true_words then True else if text \<in> set false_words then False else d))"

definition bounded_int :: "py \<Rightarrow> int \<Rightarrow> int \<Rightarrow> int \<Rightarrow> exn + int" where
  "bounded_int v minimum maximum d =
     (case try_int v of
        Inl e \<Rightarrow> Inl e
      | Inr None \<Rightarrow> Inr d
      | Inr (Some i) \<Rightarrow> Inr (max minimum (min maximum i)))"

definition clean_text :: "py \<Rightarrow> string \<Rightarrow> string" where
  "clean_text v fallback = (let text = strip (text_or_empty v) in if text \<noteq> [] then text else fallback)"

definition ident_char :: "char \<Rightarrow> char" where
  "ident_char c = (if is_alnum c \<or> c = CHR ''-'' \<or> c = CHR ''_'' then c else CHR ''-'')"

definition clean_identifier :: "py \<Rightarrow> string \<Rightarrow> string" where
  "clean_identifier v fallback =
     (let text = strip (text_or_empty v);
          text = (if text = [] then fallback else text);
          clean = map ident_char (lower text);
          clean = join ''-'' (filter (\<lambda>p. p \<noteq> []) (split_char (CHR ''-'') clean))
      in if clean \<noteq> [] then clean else fallback)"

subsection \<open>Lists of strings\<close>

definition add_text :: "string list \<Rightarrow> string \<Rightarrow> string list" where
  "add_text result text = (if text \<noteq> [] \<and> text \<notin> set result then result @ [text] else result)"

definition list_parts :: "py \<Rightarrow> string list" where
  "list_parts v =
     (case v of
        PNone \<Rightarrow> []
      | PStr s \<Rightarrow> split_char (CHR '','') s
      | PList xs \<Rightarrow> map text_or_empty xs
      | _ \<Rightarrow> [text_or_empty v])"

definition normalize_string_list :: "py \<Rightarrow> string list" where
  "normalize_string_list v = foldl add_text [] (map strip (list_parts v))"

definition texts :: "string list \<Rightarrow> py" where
  "texts ss = PList (map PStr ss)"

subsection \<open>Reading a stream\<close>

text \<open>
  \<open>for key in keys: try int(stream.get(key)) except (TypeError, ValueError): continue\<close>: the
  first key whose value is an integer decides, also when it is not positive.
\<close>

fun first_int :: "string list \<Rightarrow> pdict \<Rightarrow> exn + int option" where
  "first_int [] d = Inr None"
| "first_int (k # ks) d =
     (case try_int (pget d k) of
        Inl e \<Rightarrow> Inl e
      | Inr None \<Rightarrow> first_int ks d
      | Inr (Some i) \<Rightarrow> Inr (Some i))"

definition positive_or_none :: "int \<Rightarrow> int option" where
  "positive_or_none i = (if 0 < i then Some i else None)"

fun height_in_parts :: "string list \<Rightarrow> int option" where
  "height_in_parts [] = None"
| "height_in_parts (p # ps) =
     (let cleaned = strip (lower p);
          cleaned = (if endswith ''p'' cleaned then butlast cleaned else cleaned)
      in case parse_int cleaned of
           Some h \<Rightarrow> if 240 \<le> h \<and> h \<le> 4320 then Some h else height_in_parts ps
         | None \<Rightarrow> height_in_parts ps)"

definition extract_video_height :: "pdict \<Rightarrow> exn + int option" where
  "extract_video_height d =
     result_bind (first_int [''video_height'', ''height'', ''source_height''] d) (\<lambda>r.
       case r of
         Some h \<Rightarrow> Inr (positive_or_none h)
       | None \<Rightarrow> Inr (height_in_parts
           (split_ws (replace_char (CHR ''/'') '' '' (replace_char (CHR ''x'') '' ''
             (text_or_empty (pget d ''video_label'')))))))"

fun width_in_parts :: "string list \<Rightarrow> int option" where
  "width_in_parts [] = None"
| "width_in_parts (p # ps) =
     (if \<not> contains ''x'' (lower p) then width_in_parts ps
      else case parse_int (hd (split_char (CHR ''x'') (lower p))) of
             Some w \<Rightarrow> if 240 \<le> w \<and> w \<le> 8192 then Some w else width_in_parts ps
           | None \<Rightarrow> width_in_parts ps)"

definition extract_video_width :: "pdict \<Rightarrow> exn + int option" where
  "extract_video_width d =
     result_bind (first_int [''video_width'', ''width'', ''source_width''] d) (\<lambda>r.
       case r of
         Some w \<Rightarrow> Inr (positive_or_none w)
       | None \<Rightarrow> Inr (width_in_parts
           (split_ws (replace_char (CHR ''/'') '' '' (text_or_empty (pget d ''video_label''))))))"

text \<open>The quality named in a label, else the tier of the width, else the tier of the height.\<close>

definition label_tier :: "string \<Rightarrow> int option" where
  "label_tier label =
     (if contains_any [''2160'', ''4k'', ''uhd''] label then Some 2160
      else if contains ''1440'' label then Some 1440
      else if contains ''1080'' label then Some 1080
      else if contains ''720'' label then Some 720
      else if contains ''576'' label then Some 576
      else if contains ''480'' label then Some 480
      else None)"

definition width_tier :: "int \<Rightarrow> int option" where
  "width_tier w =
     (if 3000 \<le> w then Some 2160 else if 2200 \<le> w then Some 1440
      else if 1600 \<le> w then Some 1080 else if 1100 \<le> w then Some 720 else None)"

definition height_tier :: "int \<Rightarrow> int" where
  "height_tier h =
     (if 1600 \<le> h then 2160 else if 1200 \<le> h then 1440 else if 900 \<le> h then 1080
      else if 650 \<le> h then 720 else if 540 \<le> h then 576 else if 430 \<le> h then 480 else h)"

definition source_quality_tier :: "pdict \<Rightarrow> int option \<Rightarrow> int option \<Rightarrow> int option" where
  "source_quality_tier d width height =
     (case label_tier (lower (text_or_empty (py_or (pget d ''video_label'') (pget d ''quality'')))) of
        Some t \<Rightarrow> Some t
      | None \<Rightarrow>
          (case Option.bind width width_tier of
             Some t \<Rightarrow> Some t
           | None \<Rightarrow> map_option height_tier height))"

definition direct_modes :: "string list" where
  "direct_modes = [''diretta'', ''direct'', ''directplay'', ''directstream'', ''direct play'', ''direct stream'']"

definition is_direct_mode :: "py \<Rightarrow> bool" where
  "is_direct_mode v = (lower (strip (text_or_empty v)) \<in> set direct_modes)"

definition container_aliases :: "(string, string) dict" where
  "container_aliases = [(''matroska'', ''mkv''), (''mpegts'', ''ts''), (''mpeg-ts'', ''ts''), (''m3u8'', ''hls'')]"

definition normalize_container_name :: "py \<Rightarrow> string" where
  "normalize_container_name v =
     (let text = lower (strip (text_or_empty v)) in dget_default container_aliases text text)"

definition looks_like_remux :: "pdict \<Rightarrow> bool" where
  "looks_like_remux d =
     (let source = normalize_container_name (py_or (pget d ''container'') (pget d ''stream_container''));
          output = normalize_container_name (pget d ''transcode_container'');
          stream = normalize_container_name (pget d ''stream_container'')
      in if output \<noteq> [] \<and> source \<noteq> [] then output \<noteq> source
         else if stream \<noteq> [] \<and> source \<noteq> [] then stream \<noteq> source
         else False)"

definition has_subtitle_burn_reason :: "string list \<Rightarrow> bool" where
  "has_subtitle_burn_reason reasons = list_ex (\<lambda>r. contains ''subtitle'' (lower r) \<or> contains ''burn'' (lower r)) reasons"

definition looks_like_browser :: "string \<Rightarrow> string \<Rightarrow> bool" where
  "looks_like_browser client device =
     contains_any [''browser'', ''web'', ''chrome'', ''safari'', ''firefox'', ''edge'', ''opera'']
       (lower (client @ '' '' @ device))"

subsection \<open>Exclusion lists\<close>

definition matches_any :: "string \<Rightarrow> string list \<Rightarrow> bool" where
  "matches_any value patterns =
     (let norm = lower (strip value)
      in norm \<noteq> [] \<and> list_ex (\<lambda>p. norm = lower (strip p)) patterns)"

text \<open>
  \<open>ip_parse s\<close> is \<open>ip_address(s)\<close>, an address or a \<open>ValueError\<close> (\<open>None\<close>); \<open>net_has s a\<close> is
  \<open>a in ip_network(s, strict=False)\<close>, \<open>None\<close> when \<open>s\<close> is no network.
\<close>

record 'a ip_lib =
  ip_parse :: "string \<Rightarrow> 'a option"
  net_has :: "string \<Rightarrow> 'a \<Rightarrow> bool option"

text \<open>\<open>host.rsplit(":", 1)[0]\<close>.\<close>

definition before_last_colon :: "string \<Rightarrow> string" where
  "before_last_colon s =
     (if CHR '':'' \<in> set s then rev (tl (dropWhile (\<lambda>c. c \<noteq> CHR '':'') (rev s))) else s)"

definition client_host :: "string \<Rightarrow> string" where
  "client_host text =
     (if length (filter (\<lambda>c. c = CHR '':'') text) = 1 \<and> CHR ''.'' \<in> set text
      then before_last_colon text else text)"

definition ip_pattern_matches :: "'a ip_lib \<Rightarrow> string \<Rightarrow> 'a \<Rightarrow> string \<Rightarrow> bool" where
  "ip_pattern_matches ips text address pattern =
     (let item = strip pattern
      in if item = [] then False
         else if CHR ''/'' \<in> set item
         then (case net_has ips item address of Some b \<Rightarrow> b | None \<Rightarrow> matches_any text [item])
         else (case ip_parse ips item of Some a \<Rightarrow> address = a | None \<Rightarrow> matches_any text [item]))"

definition ip_matches_any :: "'a ip_lib \<Rightarrow> string \<Rightarrow> string list \<Rightarrow> bool" where
  "ip_matches_any ips value patterns =
     (let text = strip value
      in if text = [] then False
         else (case ip_parse ips (client_host text) of
                 None \<Rightarrow> matches_any text patterns
               | Some address \<Rightarrow> list_ex (ip_pattern_matches ips text address) patterns))"

subsection \<open>Facts\<close>

lemma to_bool_simps [simp]:
  "to_bool (PBool b) d = b"
  "to_bool PNone d = d"
  by (simp_all add: to_bool_def)

lemma bounded_int_bounds:
  assumes "bounded_int v lo hi d = Inr i" "lo \<le> hi" "lo \<le> d" "d \<le> hi"
  shows "lo \<le> i \<and> i \<le> hi"
  using assms by (auto simp: bounded_int_def split: sum.splits option.splits)

lemma bounded_int_fixed [simp]:
  "lo \<le> i \<Longrightarrow> i \<le> hi \<Longrightarrow> bounded_int (PInt i) lo hi d = Inr i"
  by (simp add: bounded_int_def)

lemma bounded_int_raises:
  "bounded_int v lo hi d = Inl e \<Longrightarrow> try_int v = Inl e"
  by (auto simp: bounded_int_def split: sum.splits option.splits)

lemma clean_text_props:
  "strip fallback = fallback \<Longrightarrow> strip (clean_text v fallback) = clean_text v fallback"
  "fallback \<noteq> [] \<Longrightarrow> clean_text v fallback \<noteq> []"
  by (simp_all add: clean_text_def Let_def)

lemma clean_text_fixed: "strip s = s \<Longrightarrow> s \<noteq> [] \<Longrightarrow> clean_text (PStr s) fallback = s"
  by (simp add: clean_text_def)

text \<open>The lists the guard keeps: stripped, non-empty, without repetitions.\<close>

definition clean_texts :: "string list \<Rightarrow> bool" where
  "clean_texts ss \<longleftrightarrow> distinct ss \<and> (\<forall>s \<in> set ss. s \<noteq> [] \<and> strip s = s)"

lemma foldl_add_text:
  assumes "clean_texts acc" "\<forall>s \<in> set ss. strip s = s"
  shows "clean_texts (foldl add_text acc ss)"
  using assms
proof (induction ss arbitrary: acc)
  case (Cons s ss)
  have "clean_texts (add_text acc s)" using Cons.prems by (auto simp: clean_texts_def add_text_def)
  with Cons show ?case by simp
qed simp

lemma clean_normalize_string_list [simp, intro]: "clean_texts (normalize_string_list v)"
  unfolding normalize_string_list_def
  by (rule foldl_add_text) (auto simp: clean_texts_def)

lemma foldl_add_text_distinct:
  assumes "distinct (acc @ ss)" "\<forall>s \<in> set ss. s \<noteq> []"
  shows "foldl add_text acc ss = acc @ ss"
  using assms
proof (induction ss arbitrary: acc)
  case (Cons s ss)
  have "add_text acc s = acc @ [s]" using Cons.prems by (simp add: add_text_def)
  then show ?case using Cons.IH [of "acc @ [s]"] Cons.prems by simp
qed simp

lemma normalize_string_list_fixed:
  assumes "clean_texts ss"
  shows "normalize_string_list (texts ss) = ss"
proof -
  have "map text_or_empty (map PStr ss) = ss" by (induction ss) simp_all
  moreover have "map strip ss = ss" using assms by (auto simp: clean_texts_def intro!: map_idI)
  ultimately have "map strip (list_parts (texts ss)) = ss"
    unfolding list_parts_def texts_def by simp
  then show ?thesis
    using foldl_add_text_distinct [of "[]" ss] assms
    by (simp only: normalize_string_list_def) (simp add: clean_texts_def)
qed

lemma normalize_string_list_texts [simp]:
  "normalize_string_list (texts (normalize_string_list v)) = normalize_string_list v"
  by (rule normalize_string_list_fixed) simp

end
