(* ===== verification/Guard_Validation.thy ===== *)
theory Guard_Validation
  imports Py_Values
begin

text \<open>
  Resource bounds for the Transcode Guard settings
  (\<open>emby_runtime/transcode_guard_validation.py\<close>): the iterative check that rejects settings
  that are too large, before normalisation recurses over the rule tree, and the bound on the
  JSON that is stored.  A check returns \<open>Inr\<close> or the \<open>ValueError\<close> it raises.
\<close>

definition max_rules :: nat where "max_rules = 100"
definition max_rule_depth :: nat where "max_rule_depth = 4"
definition max_group_children :: nat where "max_group_children = 50"
definition max_list_items :: nat where "max_list_items = 50"
definition max_identifier_length :: nat where "max_identifier_length = 128"
definition max_name_length :: nat where "max_name_length = 160"
definition max_message_length :: nat where "max_message_length = 2048"
definition max_text_bytes :: nat where "max_text_bytes = 128 * 1024"
definition max_persisted_bytes :: nat where "max_persisted_bytes = 256 * 1024"

definition scope_fields :: "string list" where
  "scope_fields = [''server_ids'', ''excluded_users'', ''excluded_clients'', ''excluded_devices'', ''excluded_ips'']"

definition short_text_fields :: "string list" where
  "short_text_fields = [''id'', ''profile'', ''mode'', ''video_state'', ''audio_state'', ''remux_state'',
     ''transformation_state'', ''message_display_mode'']"

definition text_bytes :: "nat \<Rightarrow> string \<Rightarrow> py \<Rightarrow> exn + nat" where
  "text_bytes maximum field v =
     (case v of
        PStr s \<Rightarrow>
          (if maximum < utf8_len s
           then Inl (ValueError (''Il campo Transcode Guard \"'' @ field @ ''\" supera il limite consentito.''))
           else Inr (utf8_len s))
      | _ \<Rightarrow> Inr 0)"

text \<open>\<open>for x in xs: total += f(x)\<close> where \<open>f\<close> may raise.\<close>

fun total_bytes :: "('a \<Rightarrow> exn + nat) \<Rightarrow> 'a list \<Rightarrow> exn + nat" where
  "total_bytes f [] = Inr 0"
| "total_bytes f (x # xs) =
     result_bind (f x) (\<lambda>n. result_bind (total_bytes f xs) (\<lambda>m. Inr (n + m)))"

definition sequence_text_bytes :: "string \<Rightarrow> py \<Rightarrow> exn + nat" where
  "sequence_text_bytes field v =
     (let count_items = (\<lambda>items.
        if max_list_items < length items
        then Inl (ValueError (''Il campo Transcode Guard \"'' @ field @ ''\" contiene troppi elementi.''))
        else total_bytes (text_bytes max_identifier_length field) items)
      in case v of
           PStr s \<Rightarrow>
             result_bind (text_bytes ((max_identifier_length + 1) * max_list_items) field v)
               (\<lambda>_. count_items (map PStr (split_char (CHR '','') s)))
         | PList xs \<Rightarrow> count_items xs
         | _ \<Rightarrow> Inr 0)"

definition node_text_bytes :: "pdict \<Rightarrow> exn + nat" where
  "node_text_bytes node =
     result_bind (total_bytes (\<lambda>f. text_bytes max_identifier_length f (pget node f)) short_text_fields) (\<lambda>a.
     result_bind (text_bytes max_name_length ''name'' (pget node ''name'')) (\<lambda>b.
     result_bind (total_bytes (\<lambda>f. text_bytes max_message_length f (pget node f))
       [''message_header'', ''message_text'']) (\<lambda>c.
     result_bind (total_bytes (\<lambda>f. sequence_text_bytes f (pget node f)) scope_fields) (\<lambda>d.
     Inr (a + b + c + d)))))"

subsection \<open>The walk over the rule tree\<close>

definition dicts_of :: "py list \<Rightarrow> pdict list" where
  "dicts_of vs = concat (map (\<lambda>v. case v of PDict d \<Rightarrow> [d] | _ \<Rightarrow> []) vs)"

definition is_group :: "pdict \<Rightarrow> bool" where
  "is_group rule = (lower (strip (text_or (pget rule ''type'') ''rule'')) = ''group'')"

text \<open>The children the walk descends into: none unless a group has a non-empty list.\<close>

definition group_children :: "pdict \<Rightarrow> py list option" where
  "group_children rule =
     (if is_group rule
      then (case pget rule ''children'' of PList (c # cs) \<Rightarrow> Some (c # cs) | _ \<Rightarrow> None)
      else None)"

lemma size_pget: "size_list size (case pget d k of PList vs \<Rightarrow> vs | _ \<Rightarrow> []) < size (PDict d)"
proof (induction d)
  case Nil
  then show ?case by simp
next
  case (Cons p d)
  then show ?case by (cases p, cases "snd p") (auto simp: pget_Cons)
qed

lemma dicts_of_size: "sum_list (map (\<lambda>d. size (PDict d)) (dicts_of vs)) \<le> size_list size vs"
  by (induction vs) (auto simp: dicts_of_def split: py.splits)

text \<open>
  The stack is a list whose head is the top; \<open>stack.extend(reversed(children))\<close> puts the first
  child on top.
\<close>

fun stack_size :: "(pdict \<times> nat) list \<Rightarrow> nat" where
  "stack_size [] = 0"
| "stack_size ((d, k) # st) = size (PDict d) + stack_size st"

lemma stack_size_append: "stack_size (st @ st') = stack_size st + stack_size st'"
  by (induction st rule: stack_size.induct) auto

lemma stack_size_map: "stack_size (map (\<lambda>d. (d, k)) ds) = sum_list (map (\<lambda>d. size (PDict d)) ds)"
  by (induction ds) auto

lemma stack_size_children:
  assumes "group_children rule = Some cs"
  shows "stack_size (map (\<lambda>d. (d, k)) (dicts_of cs)) < size (PDict rule)"
proof -
  have "pget rule ''children'' = PList cs"
    using assms by (auto simp: group_children_def split: if_splits py.splits list.splits)
  then have "size_list size cs < size (PDict rule)" using size_pget [of rule "''children''"] by simp
  then show ?thesis using dicts_of_size [of cs] by (simp add: stack_size_map)
qed

function walk_rules :: "(pdict \<times> nat) list \<Rightarrow> nat \<Rightarrow> nat \<Rightarrow> nat \<Rightarrow> exn + unit" where
  "walk_rules [] rule_count leaf_count bytes = Inr ()"
| "walk_rules ((rule, depth) # stack) rule_count leaf_count bytes =
     (if max_rules < rule_count + 1
      then Inl (ValueError ''La configurazione Transcode Guard contiene troppe regole.'')
      else if max_rule_depth < depth
      then Inl (ValueError ''La configurazione Transcode Guard contiene gruppi troppo profondi.'')
      else result_bind (node_text_bytes rule) (\<lambda>n.
        if max_text_bytes < bytes + n
        then Inl (ValueError ''La configurazione Transcode Guard contiene troppo testo.'')
        else (case group_children rule of
          None \<Rightarrow>
            (if max_rules < leaf_count + 1
             then Inl (ValueError ''La configurazione Transcode Guard contiene troppe regole finali.'')
             else walk_rules stack (rule_count + 1) (leaf_count + 1) (bytes + n))
        | Some children \<Rightarrow>
            (if max_group_children < length children
             then Inl (ValueError ''Un gruppo Transcode Guard contiene troppi elementi.'')
             else walk_rules (map (\<lambda>c. (c, depth + 1)) (dicts_of children) @ stack)
                    (rule_count + 1) leaf_count (bytes + n)))))"
  by pat_completeness auto

termination
  by (relation "measure (\<lambda>(st, _). stack_size st)")
    (auto simp: stack_size_append dest: stack_size_children)

definition validate_guard_payload :: "py \<Rightarrow> exn + unit" where
  "validate_guard_payload raw =
     (case raw of
        PDict d \<Rightarrow>
          result_bind (node_text_bytes d) (\<lambda>bytes.
            case pget d ''rules'' of
              PList rules \<Rightarrow>
                (if max_rules < length rules
                 then Inl (ValueError ''La configurazione Transcode Guard contiene troppe regole.'')
                 else walk_rules (map (\<lambda>r. (r, 1)) (dicts_of rules)) 0 0 bytes)
            | _ \<Rightarrow> Inr ())
      | _ \<Rightarrow> Inr ())"

subsection \<open>What is stored\<close>

text \<open>\<open>json.dumps(v, ensure_ascii=False, separators=(",", ":"))\<close>.\<close>

definition json_char :: "char \<Rightarrow> string" where
  "json_char c =
     (let n = code c
      in if n = 34 \<or> n = 92 then [CHR 0x5C, c]
         else if n = 8 then [CHR 0x5C, CHR ''b'']
         else if n = 9 then [CHR 0x5C, CHR ''t'']
         else if n = 10 then [CHR 0x5C, CHR ''n'']
         else if n = 12 then [CHR 0x5C, CHR ''f'']
         else if n = 13 then [CHR 0x5C, CHR ''r'']
         else if n < 32 then [CHR 0x5C] @ ''u00'' @ [hex_digit (n div 16), hex_digit (n mod 16)]
         else [c])"

definition json_string :: "string \<Rightarrow> string" where
  "json_string s = [CHR 0x22] @ concat (map json_char s) @ [CHR 0x22]"

fun json_text :: "py \<Rightarrow> string" where
  "json_text PNone = ''null''"
| "json_text (PBool b) = (if b then ''true'' else ''false'')"
| "json_text (PInt i) = str_int i"
| "json_text (PFloat f r) =
     (case f of Fin q \<Rightarrow> r | PosInf \<Rightarrow> ''Infinity'' | NegInf \<Rightarrow> ''-Infinity'' | NaN \<Rightarrow> ''NaN'')"
| "json_text (PStr s) = json_string s"
| "json_text (PList xs) = ''['' @ join '','' (map json_text xs) @ '']''"
| "json_text (PDict d) = ''{'' @ join '','' (map (\<lambda>p. json_string (fst p) @ '':'' @ json_text (snd p)) d) @ ''}''"

definition validate_persisted_size :: "pdict \<Rightarrow> exn + unit" where
  "validate_persisted_size settings =
     (if max_persisted_bytes < utf8_len (json_text (PDict settings))
      then Inl (ValueError ''La configurazione Transcode Guard supera la dimensione consentita.'')
      else Inr ())"

subsection \<open>What the walk accepts\<close>

text \<open>The nodes of the tree in the order of the walk, each with its depth.\<close>

function walk_nodes :: "(pdict \<times> nat) list \<Rightarrow> (pdict \<times> nat) list" where
  "walk_nodes [] = []"
| "walk_nodes ((rule, depth) # stack) =
     (rule, depth) #
       (case group_children rule of
          None \<Rightarrow> walk_nodes stack
        | Some children \<Rightarrow> walk_nodes (map (\<lambda>c. (c, depth + 1)) (dicts_of children) @ stack))"
  by pat_completeness auto

termination
  by (relation "measure stack_size") (auto simp: stack_size_append dest: stack_size_children)

definition node_bytes :: "pdict \<Rightarrow> nat" where
  "node_bytes d = (case node_text_bytes d of Inl e \<Rightarrow> 0 | Inr n \<Rightarrow> n)"

definition node_within :: "pdict \<times> nat \<Rightarrow> bool" where
  "node_within n \<longleftrightarrow>
     snd n \<le> max_rule_depth \<and> (\<exists>b. node_text_bytes (fst n) = Inr b) \<and>
     (case group_children (fst n) of None \<Rightarrow> True | Some cs \<Rightarrow> length cs \<le> max_group_children)"

definition leaf_number :: "(pdict \<times> nat) list \<Rightarrow> nat" where
  "leaf_number st = length (filter (\<lambda>n. group_children (fst n) = None) (walk_nodes st))"

lemma walk_rules_iff:
  "lc \<le> rc \<Longrightarrow> walk_rules st rc lc b = Inr () \<longleftrightarrow>
     (st = [] \<or> rc + length (walk_nodes st) \<le> max_rules) \<and> list_all node_within (walk_nodes st) \<and>
     (st = [] \<or> b + sum_list (map (node_bytes \<circ> fst) (walk_nodes st)) \<le> max_text_bytes)"
proof (induction st rc lc b rule: walk_rules.induct)
  case (2 rule depth stack rc lc b)
  show ?case
  proof (cases "rc + 1 \<le> max_rules \<and> depth \<le> max_rule_depth \<and> (\<exists>n. node_text_bytes rule = Inr n)")
    case False
    then show ?thesis
      by (cases "node_text_bytes rule") (auto simp: node_within_def)
  next
    case True
    then obtain n where n: "node_text_bytes rule = Inr n" by blast
    note ih = 2(1) [OF _ _ n] 2(2) [OF _ _ n]
    show ?thesis
    proof (cases "group_children rule")
      case None
      show ?thesis
        using True n None 2(3) ih(1)
        by (cases stack) (auto simp: node_within_def node_bytes_def)
    next
      case (Some cs)
      show ?thesis
        using True n Some 2(3) ih(2) [OF _ _ _ Some]
        by (auto simp: node_within_def node_bytes_def)
    qed
  qed
qed simp

lemma walk_nodes_append [simp]: "walk_nodes (st @ st') = walk_nodes st @ walk_nodes st'"
  by (induction st rule: walk_nodes.induct) (auto split: option.splits)

lemma leaf_number_simps:
  "leaf_number [] = 0"
  "leaf_number (st @ st') = leaf_number st + leaf_number st'"
  by (simp_all add: leaf_number_def)

lemma leaf_number_Cons:
  "leaf_number ((rule, depth) # st) =
     (case group_children rule of
        None \<Rightarrow> 1
      | Some cs \<Rightarrow> leaf_number (map (\<lambda>c. (c, depth + 1)) (dicts_of cs))) + leaf_number st"
  by (simp add: leaf_number_def split: option.split)

lemma leaf_number_le: "leaf_number st \<le> length (walk_nodes st)"
  by (simp add: leaf_number_def)

lemma leaf_number_depth: "leaf_number (map (\<lambda>c. (c, k)) ds) = leaf_number (map (\<lambda>c. (c, k')) ds)"
proof -
  have "leaf_number st = leaf_number st'" if "map fst st = map fst st'" for st st'
    using that
  proof (induction st arbitrary: st' rule: walk_nodes.induct)
    case 1
    then show ?case by simp
  next
    case (2 rule depth stack)
    from 2(3) obtain depth' stack' where st': "st' = (rule, depth') # stack'" "map fst stack = map fst stack'"
      by (cases st') auto
    show ?case
    proof (cases "group_children rule")
      case None
      then show ?thesis using 2(1) [OF None st'(2)] by (simp add: st' leaf_number_Cons)
    next
      case (Some cs)
      have "map fst (map (\<lambda>c. (c, depth + 1)) (dicts_of cs) @ stack) =
          map fst (map (\<lambda>c. (c, depth' + 1)) (dicts_of cs) @ stack')"
        using st'(2) by (simp add: comp_def)
      from 2(2) [OF Some this] Some show ?thesis by (simp add: st' leaf_number_Cons leaf_number_simps)
    qed
  qed
  then show ?thesis by (simp add: comp_def)
qed

lemma walk_nodes_stack: "set st \<subseteq> set (walk_nodes st)"
proof (induction st)
  case (Cons n st)
  have "walk_nodes (n # st) = walk_nodes [n] @ walk_nodes st"
    using walk_nodes_append [of "[n]" st] by simp
  moreover have "n \<in> set (walk_nodes [n])" by (cases n) simp
  ultimately show ?case using Cons by (auto simp del: walk_nodes.simps)
qed simp

lemma stack_bytes_le: "sum_list (map (f \<circ> fst) st) \<le> (sum_list (map (f \<circ> fst) (walk_nodes st)) :: nat)"
proof (induction st)
  case (Cons n st)
  have "walk_nodes (n # st) = walk_nodes [n] @ walk_nodes st"
    using walk_nodes_append [of "[n]" st] by simp
  moreover have "f (fst n) \<le> sum_list (map (f \<circ> fst) (walk_nodes [n]))" by (cases n) simp
  ultimately show ?case using Cons by (simp add: comp_def del: walk_nodes.simps)
qed simp

text \<open>The nodes of the rule tree of a settings payload.\<close>

definition rule_nodes :: "pdict \<Rightarrow> (pdict \<times> nat) list" where
  "rule_nodes d =
     (case pget d ''rules'' of PList items \<Rightarrow> walk_nodes (map (\<lambda>r. (r, 1)) (dicts_of items)) | _ \<Rightarrow> [])"

definition rule_list_length :: "pdict \<Rightarrow> nat" where
  "rule_list_length d = (case pget d ''rules'' of PList items \<Rightarrow> length items | _ \<Rightarrow> 0)"

lemma walk_nodes_Nil [simp]: "walk_nodes st = [] \<longleftrightarrow> st = []"
  by (cases st) auto

text \<open>
  The iterative walk accepts a settings object exactly when the whole rule tree respects the
  limits: at most 100 entries at the top and 100 nodes, depth 4, 50 children per group, every
  text of every node within its own limit, and 128 KiB of text altogether.
\<close>

theorem validate_settings_iff:
  "validate_guard_payload (PDict d) = Inr () \<longleftrightarrow>
     (\<exists>b. node_text_bytes d = Inr b \<and>
        rule_list_length d \<le> 100 \<and> length (rule_nodes d) \<le> 100 \<and> list_all node_within (rule_nodes d) \<and>
        (rule_nodes d = [] \<or> b + sum_list (map (node_bytes \<circ> fst) (rule_nodes d)) \<le> 128 * 1024))"
proof (cases "pget d ''rules''")
  case (PList items)
  define st where "st = map (\<lambda>r. (r, 1 :: nat)) (dicts_of items)"
  have nodes: "rule_nodes d = walk_nodes st" "rule_list_length d = length items"
    unfolding rule_nodes_def rule_list_length_def PList st_def by simp_all
  have walk: "walk_rules st 0 0 b = Inr () \<longleftrightarrow>
      length (walk_nodes st) \<le> 100 \<and> list_all node_within (walk_nodes st) \<and>
      (walk_nodes st = [] \<or> b + sum_list (map (node_bytes \<circ> fst) (walk_nodes st)) \<le> 128 * 1024)" for b
    using walk_rules_iff [of 0 0 st b] by (cases "st = []") (simp_all add: max_rules_def max_text_bytes_def)
  have "validate_guard_payload (PDict d) = Inr () \<longleftrightarrow>
      (\<exists>b. node_text_bytes d = Inr b \<and> length items \<le> 100 \<and> walk_rules st 0 0 b = Inr ())"
    unfolding validate_guard_payload_def st_def max_rules_def
    by (auto simp: PList result_bind_Inr_iff split: if_splits)
  then show ?thesis unfolding nodes walk by blast
qed (auto simp: validate_guard_payload_def result_bind_Inr_iff rule_nodes_def rule_list_length_def)

end
