(* ===== verification/Guard_Rules.thy ===== *)
theory Guard_Rules
  imports Guard_Values Guard_Validation
begin

text \<open>
  One rule of the Transcode Guard (\<open>emby_runtime/transcode_guard_rules.py\<close>): the vocabulary,
  the defaults of each profile and \<open>normalize_transcode_guard_rule\<close>, which completes a rule
  read from the API or the storage.  The lemmas characterise its results by \<open>rule_ok\<close> and show
  that well-formed rules are exactly its fixed points.  The only exception that leaves it is the
  \<open>OverflowError\<close> of \<open>int(float("inf"))\<close>.
\<close>

subsection \<open>Vocabulary and defaults\<close>

definition guard_modes :: "string list" where
  "guard_modes = [''monitor'', ''warn'', ''stop'', ''warn_then_stop'']"

definition guard_profiles :: "string list" where
  "guard_profiles = [''video_transcode_threshold'', ''any_video_transcode'', ''any_transcode'',
     ''video_audio_transcode'', ''audio_transcode'', ''browser_playback'', ''remux'']"

definition stream_states :: "string list" where
  "stream_states = [''any'', ''transcode'', ''direct'']"

definition presence_states :: "string list" where
  "presence_states = [''any'', ''present'', ''absent'']"

definition quality_thresholds :: "int list" where
  "quality_thresholds = [0, 480, 576, 720, 1080, 1440, 2160]"

record criteria =
  cr_video :: string
  cr_audio :: string
  cr_remux :: string
  cr_transformation :: string
  cr_min_height :: int

definition threshold_criteria :: criteria where
  "threshold_criteria = \<lparr>cr_video = ''transcode'', cr_audio = ''any'', cr_remux = ''any'',
     cr_transformation = ''any'', cr_min_height = 2160\<rparr>"

definition profile_table :: "(string, criteria) dict" where
  "profile_table =
    [(''video_transcode_threshold'', threshold_criteria),
     (''any_video_transcode'', \<lparr>cr_video = ''transcode'', cr_audio = ''any'', cr_remux = ''any'',
        cr_transformation = ''any'', cr_min_height = 0\<rparr>),
     (''any_transcode'', \<lparr>cr_video = ''any'', cr_audio = ''any'', cr_remux = ''any'',
        cr_transformation = ''present'', cr_min_height = 0\<rparr>),
     (''video_audio_transcode'', \<lparr>cr_video = ''transcode'', cr_audio = ''transcode'', cr_remux = ''any'',
        cr_transformation = ''any'', cr_min_height = 0\<rparr>),
     (''audio_transcode'', \<lparr>cr_video = ''direct'', cr_audio = ''transcode'', cr_remux = ''any'',
        cr_transformation = ''any'', cr_min_height = 0\<rparr>),
     (''browser_playback'', \<lparr>cr_video = ''any'', cr_audio = ''any'', cr_remux = ''any'',
        cr_transformation = ''any'', cr_min_height = 0\<rparr>),
     (''remux'', \<lparr>cr_video = ''direct'', cr_audio = ''direct'', cr_remux = ''present'',
        cr_transformation = ''any'', cr_min_height = 0\<rparr>)]"

definition profile_default_criteria :: "string \<Rightarrow> criteria" where
  "profile_default_criteria profile = dget_default profile_table profile threshold_criteria"

definition default_message_header :: string where
  "default_message_header = ''OctoHubs Transcode Guard''"

definition default_message_text :: string where
  "default_message_text =
     ''{title} '' @ [CHR 0xE8] @ '' in transcodifica video su {server}. '' @
     ''Controlla qualit'' @ [CHR 0xE0] @
     '' di riproduzione, versione o client per evitare perdita di qualit'' @ [CHR 0xE0] @ ''.''"

definition default_guard_rule :: pdict where
  "default_guard_rule =
    [(''id'', PStr ''default-video-transcode''),
     (''name'', PStr ''Transcode video sopra soglia''),
     (''type'', PStr ''rule''),
     (''enabled'', PBool True),
     (''profile'', PStr ''video_transcode_threshold''),
     (''mode'', PStr ''monitor''),
     (''video_state'', PStr ''transcode''),
     (''audio_state'', PStr ''any''),
     (''remux_state'', PStr ''any''),
     (''transformation_state'', PStr ''any''),
     (''min_source_height'', PInt 2160),
     (''correction_window_seconds'', PInt 60),
     (''message_display_mode'', PStr ''toast''),
     (''warning_timeout_ms'', PInt 45000),
     (''max_warnings'', PInt 3),
     (''message_cooldown_seconds'', PInt 30),
     (''allow_audio_only_transcode'', PBool True),
     (''allow_container_remux'', PBool True),
     (''ignore_paused'', PBool True),
     (''server_ids'', PList []),
     (''excluded_users'', PList []),
     (''excluded_clients'', PList []),
     (''excluded_devices'', PList []),
     (''excluded_ips'', PList []),
     (''message_header'', PStr default_message_header),
     (''message_text'', PStr default_message_text),
     (''stop_processing'', PBool True),
     (''children'', PList [])]"

subsection \<open>Fields of a rule\<close>

definition normalize_mode :: "py \<Rightarrow> string \<Rightarrow> string" where
  "normalize_mode v d = (let mode = strip (text_or v d) in if mode \<in> set guard_modes then mode else d)"

definition normalize_stream_state :: "py \<Rightarrow> string \<Rightarrow> string" where
  "normalize_stream_state v d =
     (let state = lower (strip (text_or v d)) in if state \<in> set stream_states then state else d)"

text \<open>\<open>_normalize_remux_state\<close> and \<open>_normalize_transformation_state\<close> have the same body.\<close>

definition normalize_presence_state :: "py \<Rightarrow> string \<Rightarrow> string" where
  "normalize_presence_state v d =
     (let state = lower (strip (text_or v d)) in if state \<in> set presence_states then state else d)"

definition normalize_quality_threshold :: "py \<Rightarrow> int \<Rightarrow> exn + int" where
  "normalize_quality_threshold v d =
     result_bind (try_int v) (\<lambda>r.
       let threshold = (case r of Some i \<Rightarrow> i | None \<Rightarrow> d)
       in if threshold \<le> 0 then Inr 0
          else if threshold \<in> set quality_thresholds then Inr threshold
          else bounded_int (PInt threshold) 360 4320 d)"

definition normalize_profile :: "py \<Rightarrow> string" where
  "normalize_profile v =
     (let profile = strip (text_or v ''video_transcode_threshold'')
      in if profile \<in> set guard_profiles then profile else ''video_transcode_threshold'')"

definition normalize_display_mode :: "py \<Rightarrow> string" where
  "normalize_display_mode v =
     (let m = strip (text_or v ''toast'') in if m = ''toast'' \<or> m = ''confirmation'' then m else ''toast'')"

definition message_or_default :: "py \<Rightarrow> string \<Rightarrow> string" where
  "message_or_default v d = (case v of PStr s \<Rightarrow> if strip s \<noteq> [] then strip s else d | _ \<Rightarrow> d)"

text \<open>
  One rule.  \<open>dict(DEFAULT_TRANSCODE_GUARD_RULE)\<close> fixes the keys and their order, and every key
  is then written.
\<close>

definition normalize_guard_rule :: "pdict \<Rightarrow> string \<Rightarrow> exn + pdict" where
  "normalize_guard_rule raw fallback_id =
     (let profile = normalize_profile (pget raw ''profile'');
          crit = profile_default_criteria profile
      in result_bind (normalize_quality_threshold (pget raw ''min_source_height'') (cr_min_height crit)) (\<lambda>height.
         result_bind (bounded_int (pget raw ''correction_window_seconds'') 0 1800 60) (\<lambda>window.
         result_bind (bounded_int (pget raw ''warning_timeout_ms'') 1000 300000 45000) (\<lambda>timeout.
         result_bind (bounded_int (pget raw ''max_warnings'') 1 10 3) (\<lambda>warnings.
         result_bind (bounded_int (pget raw ''message_cooldown_seconds'') 0 3600 30) (\<lambda>cooldown.
         Inr
          [(''id'', PStr (clean_identifier (pget raw ''id'') fallback_id)),
           (''name'', PStr (clean_text (pget raw ''name'') ''Regola Transcode Guard'')),
           (''type'', PStr ''rule''),
           (''enabled'', PBool (to_bool (pget raw ''enabled'') True)),
           (''profile'', PStr profile),
           (''mode'', PStr (normalize_mode (pget raw ''mode'') ''monitor'')),
           (''video_state'', PStr (normalize_stream_state (pget raw ''video_state'') (cr_video crit))),
           (''audio_state'', PStr (normalize_stream_state (pget raw ''audio_state'') (cr_audio crit))),
           (''remux_state'', PStr (normalize_presence_state (pget raw ''remux_state'') (cr_remux crit))),
           (''transformation_state'',
              PStr (normalize_presence_state (pget raw ''transformation_state'') (cr_transformation crit))),
           (''min_source_height'', PInt height),
           (''correction_window_seconds'', PInt window),
           (''message_display_mode'', PStr (normalize_display_mode (pget raw ''message_display_mode''))),
           (''warning_timeout_ms'', PInt timeout),
           (''max_warnings'', PInt warnings),
           (''message_cooldown_seconds'', PInt cooldown),
           (''allow_audio_only_transcode'', PBool (to_bool (pget raw ''allow_audio_only_transcode'') True)),
           (''allow_container_remux'', PBool (to_bool (pget raw ''allow_container_remux'') True)),
           (''ignore_paused'', PBool (to_bool (pget raw ''ignore_paused'') True)),
           (''server_ids'', texts (normalize_string_list (pget raw ''server_ids''))),
           (''excluded_users'', texts (normalize_string_list (pget raw ''excluded_users''))),
           (''excluded_clients'', texts (normalize_string_list (pget raw ''excluded_clients''))),
           (''excluded_devices'', texts (normalize_string_list (pget raw ''excluded_devices''))),
           (''excluded_ips'', texts (normalize_string_list (pget raw ''excluded_ips''))),
           (''message_header'', PStr (message_or_default (pget raw ''message_header'') default_message_header)),
           (''message_text'', PStr (message_or_default (pget raw ''message_text'') default_message_text)),
           (''stop_processing'', PBool (to_bool (pget raw ''stop_processing'') True)),
           (''children'', PList [])]))))))"

subsection \<open>Identifiers\<close>

text \<open>Identifiers that \<open>_clean_identifier\<close> leaves alone.\<close>

definition clean_id :: "string \<Rightarrow> bool" where
  "clean_id s \<longleftrightarrow> s \<noteq> [] \<and> (\<forall>c \<in> set s. ident_char c = c \<and> lower_char c = c) \<and>
     [] \<notin> set (split_char (CHR ''-'') s)"

lemma ident_char_no_space: "ident_char c = c \<Longrightarrow> \<not> is_space c"
  by (auto simp: ident_char_def is_alnum_def is_space_def Let_def split: if_splits) (auto simp: code_def)

lemma ident_char_idem: "ident_char (ident_char c) = ident_char c"
  by (simp add: ident_char_def)

lemma dash_kept [simp]: "lower_char (CHR ''-'') = CHR ''-''" "ident_char (CHR ''-'') = CHR ''-''"
  by (simp_all add: lower_char_def code_def ident_char_def)

lemma lower_ident: "lower_char c = c \<Longrightarrow> lower_char (ident_char c) = ident_char c"
  by (simp add: ident_char_def)

lemma clean_id_strip: "clean_id s \<Longrightarrow> strip s = s"
  unfolding strip_fixed_iff clean_id_def by (metis hd_in_set last_in_set ident_char_no_space)

lemma clean_identifier_fixed:
  assumes "clean_id s"
  shows "clean_identifier (PStr s) fallback = s"
proof -
  have low: "lower s = s" using assms by (auto simp: clean_id_def lower_def intro!: map_idI)
  have id: "map ident_char s = s" using assms by (auto simp: clean_id_def intro!: map_idI)
  have parts: "filter (\<lambda>p. p \<noteq> []) (split_char (CHR ''-'') s) = split_char (CHR ''-'') s"
    using assms by (auto simp: clean_id_def filter_id_conv)
  have ne: "s \<noteq> []" using assms by (simp add: clean_id_def)
  show ?thesis
    by (simp add: clean_identifier_def clean_id_strip [OF assms] low id parts join_split_char ne)
qed

lemma set_join: "set (join sep ps) \<subseteq> set sep \<union> \<Union> (set ` set ps)"
  by (induction sep ps rule: join.induct) auto

lemma set_split_char: "p \<in> set (split_char c s) \<Longrightarrow> set p \<subseteq> set s"
proof (induction s arbitrary: p)
  case (Cons x xs)
  then show ?case by (cases "split_char c xs") (fastforce split: if_splits)+
qed simp

lemma join_eq_Nil: "join ''-'' ps = [] \<longleftrightarrow> ps = [] \<or> ps = [[]]"
  by (cases "(''-'', ps)" rule: join.cases) auto

lemma clean_clean_identifier:
  assumes "clean_id fallback"
  shows "clean_id (clean_identifier v fallback)"
proof -
  define t where "t = (if strip (text_or_empty v) = [] then fallback else strip (text_or_empty v))"
  define m where "m = map ident_char (lower t)"
  define ps where "ps = filter (\<lambda>p. p \<noteq> []) (split_char (CHR ''-'') m)"
  have eq: "clean_identifier v fallback = (if join ''-'' ps \<noteq> [] then join ''-'' ps else fallback)"
    by (simp add: clean_identifier_def Let_def ps_def m_def t_def)
  have "clean_id (join ''-'' ps)" if ne: "join ''-'' ps \<noteq> []"
    unfolding clean_id_def
  proof (intro conjI ballI)
    have m: "ident_char c = c" "lower_char c = c" if "c \<in> set m" for c
      using that by (auto simp: m_def lower_def ident_char_idem lower_ident)
    fix c assume "c \<in> set (join ''-'' ps)"
    then have "c = CHR ''-'' \<or> c \<in> set m"
      using set_join [of "''-''" ps] set_split_char [of _ "CHR ''-''" m] by (auto simp: ps_def)
    then show "ident_char c = c" "lower_char c = c" using m by auto
  next
    have "ps \<noteq> []" using ne by (auto simp: join_eq_Nil)
    then have "split_char (CHR ''-'') (join ''-'' ps) = ps"
      by (rule split_char_join) (auto simp: ps_def dest: split_char_no_sep)
    then show "[] \<notin> set (split_char (CHR ''-'') (join ''-'' ps))" by (simp add: ps_def)
  qed (use ne in simp)
  with assms show ?thesis by (simp add: eq)
qed

lemma split_char_prefix:
  "CHR ''-'' \<notin> set p \<Longrightarrow> split_char (CHR ''-'') (p @ CHR ''-'' # s) = p # split_char (CHR ''-'') s"
  by (induction p) auto

lemma split_char_absent: "c \<notin> set s \<Longrightarrow> split_char c s = [s]"
  by (induction s) auto

lemma split_char_append:
  "split_char c (s @ c # t) = split_char c s @ split_char c t"
  by (induction s) (auto split: list.split)

lemma clean_id_append: "clean_id s \<Longrightarrow> clean_id t \<Longrightarrow> clean_id (s @ CHR ''-'' # t)"
  by (auto simp: clean_id_def split_char_append ident_char_def)

lemma clean_id_str_nat: "clean_id (str_nat n)"
proof -
  have d: "is_digit c" if "c \<in> set (str_nat n)" for c
    using that str_nat_digits [of n] by (simp add: list_all_iff)
  have "ident_char c = c \<and> lower_char c = c" if "c \<in> set (str_nat n)" for c
    using d [OF that] by (simp add: is_digit_def ident_char_def is_alnum_def lower_char_def Let_def)
  then show ?thesis using str_nat_not_Nil [of n]
    by (simp add: clean_id_def split_char_absent [OF str_nat_no_minus] del: str_nat_not_Nil)
qed

lemma clean_id_words: "clean_id ''rule''" "clean_id ''child''" "clean_id ''rule-1''"
  by (simp_all add: clean_id_def ident_char_def is_alnum_def lower_char_def code_def)

lemma clean_id_rule: "clean_id (''rule-'' @ str_nat n)"
  using clean_id_append [OF clean_id_words(1) clean_id_str_nat [of n]] by simp

lemma clean_id_child: "clean_id s \<Longrightarrow> clean_id (s @ ''-child-'' @ str_nat n)"
  using clean_id_append [OF clean_id_append [OF _ clean_id_words(2)] clean_id_str_nat [of n], of s] by simp

subsection \<open>Well-formed rules\<close>

definition has_text_in :: "string list \<Rightarrow> py \<Rightarrow> bool" where
  "has_text_in ss v = list_ex (\<lambda>s. v = PStr s) ss"

definition has_int_in :: "int \<Rightarrow> int \<Rightarrow> py \<Rightarrow> bool" where
  "has_int_in lo hi v = (case v of PInt i \<Rightarrow> lo \<le> i \<and> i \<le> hi | _ \<Rightarrow> False)"

definition is_flag :: "py \<Rightarrow> bool" where
  "is_flag v = (case v of PBool b \<Rightarrow> True | _ \<Rightarrow> False)"

definition has_clean_texts :: "py \<Rightarrow> bool" where
  "has_clean_texts v \<longleftrightarrow> v = texts (normalize_string_list v)"

definition has_message :: "py \<Rightarrow> bool" where
  "has_message v = (case v of PStr s \<Rightarrow> s \<noteq> [] \<and> strip s = s | _ \<Rightarrow> False)"

definition has_clean_id :: "py \<Rightarrow> bool" where
  "has_clean_id v = (case v of PStr s \<Rightarrow> clean_id s | _ \<Rightarrow> False)"

definition has_height :: "py \<Rightarrow> bool" where
  "has_height v = (case v of PInt h \<Rightarrow> h = 0 \<or> (360 \<le> h \<and> h \<le> 4320) | _ \<Rightarrow> False)"

definition rule_ok :: "pdict \<Rightarrow> bool" where
  "rule_ok r \<longleftrightarrow>
     dkeys r = dkeys default_guard_rule \<and>
     has_clean_id (pget r ''id'') \<and> has_message (pget r ''name'') \<and>
     pget r ''type'' = PStr ''rule'' \<and> pget r ''children'' = PList [] \<and>
     has_text_in guard_profiles (pget r ''profile'') \<and> has_text_in guard_modes (pget r ''mode'') \<and>
     has_text_in stream_states (pget r ''video_state'') \<and> has_text_in stream_states (pget r ''audio_state'') \<and>
     has_text_in presence_states (pget r ''remux_state'') \<and>
     has_text_in presence_states (pget r ''transformation_state'') \<and>
     has_height (pget r ''min_source_height'') \<and>
     has_int_in 0 1800 (pget r ''correction_window_seconds'') \<and>
     has_text_in [''toast'', ''confirmation''] (pget r ''message_display_mode'') \<and>
     has_int_in 1000 300000 (pget r ''warning_timeout_ms'') \<and>
     has_int_in 1 10 (pget r ''max_warnings'') \<and>
     has_int_in 0 3600 (pget r ''message_cooldown_seconds'') \<and>
     list_all (\<lambda>k. is_flag (pget r k)) [''enabled'', ''allow_audio_only_transcode'',
       ''allow_container_remux'', ''ignore_paused'', ''stop_processing''] \<and>
     list_all (\<lambda>k. has_clean_texts (pget r k)) scope_fields \<and>
     has_message (pget r ''message_header'') \<and> has_message (pget r ''message_text'')"

lemma criteria_ok:
  "cr_video (profile_default_criteria p) \<in> set stream_states"
  "cr_audio (profile_default_criteria p) \<in> set stream_states"
  "cr_remux (profile_default_criteria p) \<in> set presence_states"
  "cr_transformation (profile_default_criteria p) \<in> set presence_states"
  "cr_min_height (profile_default_criteria p) \<in> {0, 2160}"
  by (simp_all add: profile_default_criteria_def dget_default_def profile_table_def threshold_criteria_def
      stream_states_def presence_states_def)

lemma normalize_mode_in: "d \<in> set guard_modes \<Longrightarrow> normalize_mode v d \<in> set guard_modes"
  by (simp add: normalize_mode_def Let_def)

lemma normalize_stream_state_in: "d \<in> set stream_states \<Longrightarrow> normalize_stream_state v d \<in> set stream_states"
  by (simp add: normalize_stream_state_def Let_def)

lemma normalize_presence_state_in:
  "d \<in> set presence_states \<Longrightarrow> normalize_presence_state v d \<in> set presence_states"
  by (simp add: normalize_presence_state_def Let_def)

lemma normalize_profile_in: "normalize_profile v \<in> set guard_profiles"
  by (simp add: normalize_profile_def Let_def) (simp add: guard_profiles_def)

lemma normalize_display_mode_in: "normalize_display_mode v \<in> {''toast'', ''confirmation''}"
  by (simp add: normalize_display_mode_def Let_def)

lemma quality_threshold_range:
  assumes "normalize_quality_threshold v d = Inr h" "d \<in> {0, 2160}"
  shows "h = 0 \<or> 360 \<le> h \<and> h \<le> 4320"
  using assms
  by (auto simp: normalize_quality_threshold_def result_bind_Inr_iff Let_def bounded_int_def quality_thresholds_def
      split: if_splits option.splits)

lemma message_or_default_props:
  "strip d = d \<Longrightarrow> d \<noteq> [] \<Longrightarrow> has_message (PStr (message_or_default v d))"
  by (auto simp: has_message_def message_or_default_def split: py.split)

lemma has_text_inI: "s \<in> set ss \<Longrightarrow> has_text_in ss (PStr s)"
  by (simp add: has_text_in_def list_ex_iff)

lemma has_clean_texts_norm: "has_clean_texts (texts (normalize_string_list v))"
  by (simp add: has_clean_texts_def)

lemma default_messages_ok:
  "strip default_message_header = default_message_header" "default_message_header \<noteq> []"
  "strip default_message_text = default_message_text" "default_message_text \<noteq> []"
  by (simp_all add: default_message_header_def default_message_text_def strip_fixed_iff is_space_def code_def Let_def)

lemma clean_name_ok: "has_message (PStr (clean_text v ''Regola Transcode Guard''))"
proof -
  have "strip ''Regola Transcode Guard'' = ''Regola Transcode Guard''"
    by (simp add: strip_fixed_iff is_space_def code_def)
  then show ?thesis by (simp add: has_message_def clean_text_def Let_def)
qed

lemma bounded_int_in:
  "bounded_int v lo hi d = Inr i \<Longrightarrow> lo \<le> hi \<Longrightarrow> lo \<le> d \<Longrightarrow> d \<le> hi \<Longrightarrow> has_int_in lo hi (PInt i)"
  by (drule bounded_int_bounds) (simp_all add: has_int_in_def)

lemma is_flag_PBool [simp]: "is_flag (PBool b)"
  by (simp add: is_flag_def)

lemmas field_facts = has_text_inI [OF normalize_profile_in] has_text_inI [OF normalize_mode_in]
  has_text_inI [OF normalize_stream_state_in] has_text_inI [OF normalize_presence_state_in]
  has_clean_texts_norm message_or_default_props clean_name_ok default_messages_ok criteria_ok

lemma normalize_guard_rule_ok:
  assumes "normalize_guard_rule raw fid = Inr r" "clean_id fid"
  shows "rule_ok r"
proof -
  define p where "p = normalize_profile (pget raw ''profile'')"
  obtain h w t m c where h: "normalize_quality_threshold (pget raw ''min_source_height'')
        (cr_min_height (profile_default_criteria p)) = Inr h"
    and w: "bounded_int (pget raw ''correction_window_seconds'') 0 1800 60 = Inr w"
    and t: "bounded_int (pget raw ''warning_timeout_ms'') 1000 300000 45000 = Inr t"
    and m: "bounded_int (pget raw ''max_warnings'') 1 10 3 = Inr m"
    and c: "bounded_int (pget raw ''message_cooldown_seconds'') 0 3600 30 = Inr c"
    using assms(1) by (auto simp: normalize_guard_rule_def result_bind_Inr_iff Let_def p_def)
  have height: "has_height (PInt h)"
    using quality_threshold_range [OF h] criteria_ok(5) [of p] by (simp add: has_height_def)
  have ints: "has_int_in 0 1800 (PInt w)" "has_int_in 1000 300000 (PInt t)" "has_int_in 1 10 (PInt m)"
    "has_int_in 0 3600 (PInt c)"
    using bounded_int_in [OF w] bounded_int_in [OF t] bounded_int_in [OF m] bounded_int_in [OF c] by simp_all
  have id: "has_clean_id (PStr (clean_identifier (pget raw ''id'') fid))"
    using clean_clean_identifier [OF assms(2)] by (simp add: has_clean_id_def)
  have mon: "''monitor'' \<in> set guard_modes" by (simp add: guard_modes_def)
  have disp: "has_text_in [''toast'', ''confirmation''] (PStr (normalize_display_mode v))" for v
    using normalize_display_mode_in [of v] by (intro has_text_inI) auto
  have prof: "has_text_in guard_profiles (PStr p)" unfolding p_def by (rule field_facts)
  have mode: "has_text_in guard_modes (PStr (normalize_mode v ''monitor''))" for v by (rule field_facts mon)+
  have r: "normalize_guard_rule raw fid = Inr r" by (rule assms)
  show ?thesis
    using r
    apply (simp only: normalize_guard_rule_def Let_def p_def [symmetric] h w t m c result_bind.simps)
    apply (drule Inr_inject)
    apply (erule subst)
    unfolding rule_ok_def
    apply (intro conjI)
    apply (simp_all add: prof mode height ints id disp field_facts scope_fields_def)
    apply (simp_all add: dkeys_def default_guard_rule_def)
    done
qed

lemma has_text_in_cases: "has_text_in ss v \<Longrightarrow> \<exists>s \<in> set ss. v = PStr s"
  by (auto simp: has_text_in_def list_ex_iff)

lemma fixed_mode: "has_text_in guard_modes v \<Longrightarrow> PStr (normalize_mode v d) = v"
  by (auto simp: normalize_mode_def guard_modes_def strip_fixed_iff is_space_def code_def dest!: has_text_in_cases)

lemma fixed_profile: "has_text_in guard_profiles v \<Longrightarrow> PStr (normalize_profile v) = v"
  by (auto simp: normalize_profile_def guard_profiles_def strip_fixed_iff is_space_def code_def dest!: has_text_in_cases)

lemma state_words_kept: "list_all (\<lambda>s. strip s = s \<and> lower s = s \<and> s \<noteq> []) (stream_states @ presence_states)"
  by code_simp

lemma fixed_stream_state: "has_text_in stream_states v \<Longrightarrow> PStr (normalize_stream_state v d) = v"
  using state_words_kept by (auto simp: normalize_stream_state_def Let_def list_all_iff dest!: has_text_in_cases)

lemma fixed_presence_state: "has_text_in presence_states v \<Longrightarrow> PStr (normalize_presence_state v d) = v"
  using state_words_kept by (auto simp: normalize_presence_state_def Let_def list_all_iff dest!: has_text_in_cases)

lemma fixed_display_mode:
  "has_text_in [''toast'', ''confirmation''] v \<Longrightarrow> PStr (normalize_display_mode v) = v"
  by (auto simp: normalize_display_mode_def strip_fixed_iff is_space_def code_def dest!: has_text_in_cases)

lemma fixed_int: "has_int_in lo hi v \<Longrightarrow> \<exists>i. v = PInt i \<and> (\<forall>d. bounded_int (PInt i) lo hi d = Inr i)"
  by (auto simp: has_int_in_def split: py.splits)

lemma fixed_height: "has_height v \<Longrightarrow> \<exists>h. v = PInt h \<and> (\<forall>d. normalize_quality_threshold (PInt h) d = Inr h)"
  by (auto simp: has_height_def normalize_quality_threshold_def split: py.splits)

lemma fixed_flag: "is_flag v \<Longrightarrow> PBool (to_bool v d) = v"
  by (auto simp: is_flag_def split: py.splits)

lemma fixed_texts: "has_clean_texts v \<Longrightarrow> texts (normalize_string_list v) = v"
  by (simp add: has_clean_texts_def)

lemma fixed_message: "has_message v \<Longrightarrow> PStr (message_or_default v d) = v"
  by (auto simp: has_message_def message_or_default_def split: py.splits)

lemma fixed_name: "has_message v \<Longrightarrow> PStr (clean_text v d) = v"
  by (auto simp: has_message_def clean_text_fixed split: py.splits)

lemma fixed_id: "has_clean_id v \<Longrightarrow> PStr (clean_identifier v d) = v"
  by (auto simp: has_clean_id_def clean_identifier_fixed split: py.splits)

lemmas fixed_fields = fixed_mode fixed_profile fixed_stream_state fixed_presence_state fixed_display_mode
  fixed_flag fixed_texts fixed_message fixed_name fixed_id

lemma dict_of_keys: "distinct (dkeys d) \<Longrightarrow> map (\<lambda>k. (k, pget d k)) (dkeys d) = d"
proof (induction d)
  case (Cons p d)
  obtain a b where p: "p = (a, b)" by (cases p)
  have "map (\<lambda>k. (k, pget (p # d) k)) (dkeys d) = map (\<lambda>k. (k, pget d k)) (dkeys d)"
    using Cons.prems by (intro map_cong) (auto simp: p dkeys_def)
  moreover have "dkeys (p # d) = a # dkeys d" by (simp add: dkeys_def p)
  ultimately show ?case using Cons.IH distinct_dkeys_tl [OF Cons.prems] by (simp add: p)
qed (simp add: dkeys_def)

lemma default_rule_keys_distinct: "distinct (dkeys default_guard_rule)"
  by (simp add: dkeys_def default_guard_rule_def)

text \<open>A well-formed rule is a fixed point of normalisation, whatever the fallback identifier.\<close>

lemma normalize_guard_rule_fixed:
  assumes "rule_ok r"
  shows "normalize_guard_rule r fid = Inr r"
proof -
  note ok = assms [unfolded rule_ok_def scope_fields_def list.pred_inject]
  have keys: "dkeys r = dkeys default_guard_rule" using ok by blast
  have r: "map (\<lambda>k. (k, pget r k)) (dkeys default_guard_rule) = r"
    by (rule dict_of_keys [of r, unfolded keys, OF default_rule_keys_distinct])
  have prof: "has_text_in guard_profiles (pget r ''profile'')" and height: "has_height (pget r ''min_source_height'')"
    and ints: "has_int_in 0 1800 (pget r ''correction_window_seconds'')"
    "has_int_in 1000 300000 (pget r ''warning_timeout_ms'')" "has_int_in 1 10 (pget r ''max_warnings'')"
    "has_int_in 0 3600 (pget r ''message_cooldown_seconds'')"
    using ok by blast+
  from has_text_in_cases [OF prof] fixed_profile [OF prof]
  obtain p where p: "pget r ''profile'' = PStr p" "normalize_profile (PStr p) = p" by auto
  from fixed_height [OF height] obtain h where
    h: "pget r ''min_source_height'' = PInt h" "\<And>d. normalize_quality_threshold (PInt h) d = Inr h" by blast
  from fixed_int [OF ints(1)] obtain w where
    w: "pget r ''correction_window_seconds'' = PInt w" "\<And>d. bounded_int (PInt w) 0 1800 d = Inr w" by blast
  from fixed_int [OF ints(2)] obtain t where
    t: "pget r ''warning_timeout_ms'' = PInt t" "\<And>d. bounded_int (PInt t) 1000 300000 d = Inr t" by blast
  from fixed_int [OF ints(3)] obtain m where
    m: "pget r ''max_warnings'' = PInt m" "\<And>d. bounded_int (PInt m) 1 10 d = Inr m" by blast
  from fixed_int [OF ints(4)] obtain c where
    c: "pget r ''message_cooldown_seconds'' = PInt c" "\<And>d. bounded_int (PInt c) 0 3600 d = Inr c" by blast
  have "normalize_guard_rule r fid = Inr (map (\<lambda>k. (k, pget r k)) (dkeys default_guard_rule))"
    unfolding normalize_guard_rule_def Let_def
    apply (simp only: p h w t m c result_bind.simps)
    using ok
    apply (simp add: fixed_fields)
    apply (simp add: dkeys_def default_guard_rule_def p h w t m c)
    done
  then show ?thesis by (simp only: r)
qed

end
