(* ===== verification/Guard_Settings.thy ===== *)
theory Guard_Settings
  imports Guard_Rules
begin

text \<open>
  The Transcode Guard settings (\<open>emby_runtime/transcode_guard_rules.py\<close>,
  \<open>normalize_transcode_guard_settings\<close>): a rule tree becomes a flat list of complete rules; a
  group passes its fields on to the children that lack them, and the first rule is copied into
  the top level of the settings.
\<close>

subsection \<open>Groups\<close>

definition inherited_fields :: "string list" where
  "inherited_fields = [''profile'', ''video_state'', ''audio_state'', ''remux_state'', ''transformation_state'',
     ''min_source_height'', ''mode'', ''correction_window_seconds'', ''message_display_mode'',
     ''warning_timeout_ms'', ''max_warnings'', ''message_cooldown_seconds'', ''allow_audio_only_transcode'',
     ''allow_container_remux'', ''ignore_paused'', ''message_header'', ''message_text'', ''stop_processing'']"

definition has_rule_value :: "py \<Rightarrow> bool" where
  "has_rule_value v =
     (case v of
        PStr s \<Rightarrow> strip s \<noteq> []
      | PList xs \<Rightarrow> normalize_string_list v \<noteq> []
      | _ \<Rightarrow> v \<noteq> PNone)"

definition inherit_field :: "pdict \<Rightarrow> pdict \<Rightarrow> string \<Rightarrow> pdict" where
  "inherit_field grp merged k =
     (if \<not> has_key k grp then merged
      else if has_rule_value (pget merged k) then merged
      else dset k (pget grp k) merged)"

definition inherit_group_fields :: "pdict \<Rightarrow> pdict \<Rightarrow> pdict" where
  "inherit_group_fields grp child =
     (let merged =
        (if pget grp ''enabled'' = PBool False then dset ''enabled'' (PBool False) child
         else if \<not> has_key ''enabled'' child \<and> has_key ''enabled'' grp
         then dset ''enabled'' (pget grp ''enabled'') child
         else child)
      in foldl (inherit_field grp) merged inherited_fields)"

lemma pget_inherit_field: "pget (inherit_field grp m k) k' =
    (if k' = k \<and> has_key k grp \<and> \<not> has_rule_value (pget m k) then pget grp k else pget m k')"
  by (simp add: inherit_field_def)

lemma pget_foldl_inherit:
  "distinct ks \<Longrightarrow> pget (foldl (inherit_field grp) m ks) k =
     (if k \<in> set ks \<and> has_key k grp \<and> \<not> has_rule_value (pget m k) then pget grp k else pget m k)"
  by (induction ks arbitrary: m) (auto simp: pget_inherit_field)

lemma inherited_fields_distinct: "distinct inherited_fields"
  by (simp add: inherited_fields_def)

lemma pget_inherit:
  "k \<noteq> ''enabled'' \<Longrightarrow> pget (inherit_group_fields grp c) k =
     (if k \<in> set inherited_fields \<and> has_key k grp \<and> \<not> has_rule_value (pget c k) then pget grp k else pget c k)"
  by (auto simp: inherit_group_fields_def Let_def pget_foldl_inherit [OF inherited_fields_distinct])

lemma pget_inherit_enabled:
  "pget (inherit_group_fields grp c) ''enabled'' =
     (if pget grp ''enabled'' = PBool False then PBool False
      else if \<not> has_key ''enabled'' c \<and> has_key ''enabled'' grp then pget grp ''enabled'' else pget c ''enabled'')"
  by (simp add: inherit_group_fields_def Let_def pget_foldl_inherit [OF inherited_fields_distinct])
    (simp add: inherited_fields_def)

lemma inherit_tree [simp]:
  "pget (inherit_group_fields grp c) ''children'' = pget c ''children''"
  "pget (inherit_group_fields grp c) ''type'' = pget c ''type''"
  by (simp_all add: pget_inherit inherited_fields_def)

lemma group_children_inherit [simp]: "group_children (inherit_group_fields grp c) = group_children c"
  by (simp add: group_children_def is_group_def)

subsection \<open>From the tree to the list of rules\<close>

text \<open>
  \<open>for index, child in enumerate(children): if isinstance(child, dict): rules.extend(...)\<close>.
\<close>

fun collect_rules :: "(nat \<Rightarrow> pdict \<Rightarrow> exn + pdict list) \<Rightarrow> nat \<Rightarrow> py list \<Rightarrow> exn + pdict list" where
  "collect_rules f i [] = Inr []"
| "collect_rules f i (PDict c # cs) =
     result_bind (f i c) (\<lambda>rs. result_bind (collect_rules f (i + 1) cs) (\<lambda>rest. Inr (rs @ rest)))"
| "collect_rules f i (_ # cs) = collect_rules f (i + 1) cs"

lemma collect_rules_cong [fundef_cong]:
  "i = i' \<Longrightarrow> cs = cs' \<Longrightarrow> (\<And>j c. PDict c \<in> set cs' \<Longrightarrow> f j c = g j c) \<Longrightarrow>
     collect_rules f i cs = collect_rules g i' cs'"
proof (induction g i' cs' arbitrary: i cs rule: collect_rules.induct)
  case (2 g i' c cs')
  then show ?case by (auto intro!: result_bind_cong)
qed auto

lemma size_pget_le: "size (pget d k) \<le> size (PDict d)"
proof (induction d)
  case (Cons p d)
  then show ?case by (cases p) (auto simp: pget_Cons)
qed simp

lemma size_child:
  assumes "group_children raw = Some cs" "PDict c \<in> set cs"
  shows "size (pget c ''children'') < size (pget raw ''children'')"
proof -
  have "pget raw ''children'' = PList cs"
    using assms(1) by (auto simp: group_children_def split: if_splits py.splits list.splits)
  then show ?thesis
    using size_list_estimation' [OF assms(2), of "size (PDict c)" size] size_pget_le [of c "''children''"] by simp
qed

function normalize_rule_entries :: "pdict \<Rightarrow> string \<Rightarrow> exn + pdict list" where
  "normalize_rule_entries raw fallback_id =
     (case group_children raw of
        None \<Rightarrow>
          result_bind
            (normalize_guard_rule (dset ''children'' (PList []) (dset ''type'' (PStr ''rule'') raw)) fallback_id)
            (\<lambda>rule. Inr [rule])
      | Some children \<Rightarrow>
          collect_rules
            (\<lambda>index child. normalize_rule_entries (inherit_group_fields raw child)
               (fallback_id @ ''-child-'' @ str_nat (index + 1)))
            0 children)"
  by pat_completeness auto

termination
  by (relation "measure (\<lambda>(raw, _). size (pget raw ''children''))") (auto intro: size_child)

declare normalize_rule_entries.simps [simp del]

definition primary_fields :: "string list" where
  "primary_fields = [''mode'', ''video_state'', ''audio_state'', ''remux_state'', ''transformation_state'',
     ''min_source_height'', ''correction_window_seconds'', ''message_display_mode'', ''warning_timeout_ms'',
     ''max_warnings'', ''message_cooldown_seconds'', ''allow_audio_only_transcode'', ''allow_container_remux'',
     ''ignore_paused'', ''server_ids'', ''excluded_users'', ''excluded_clients'', ''excluded_devices'',
     ''excluded_ips'', ''message_header'', ''message_text'']"

definition default_guard_settings :: pdict where
  "default_guard_settings =
    [(''enabled'', PBool False),
     (''mode'', PStr ''monitor''),
     (''video_state'', PStr ''transcode''),
     (''audio_state'', PStr ''any''),
     (''remux_state'', PStr ''any''),
     (''transformation_state'', PStr ''any''),
     (''min_source_height'', PInt 2160),
     (''correction_window_seconds'', PInt 60),
     (''poll_interval_seconds'', PInt 5),
     (''stream_history_retention_days'', PInt 0),
     (''message_display_mode'', PStr ''toast''),
     (''warning_timeout_ms'', PInt 45000),
     (''max_warnings'', PInt 3),
     (''message_cooldown_seconds'', PInt 30),
     (''allow_audio_only_transcode'', PBool True),
     (''allow_container_remux'', PBool True),
     (''ignore_paused'', PBool True),
     (''server_ids'', PList []),
     (''excluded_users'', PList []),
     (''excluded_clients'', PList []),
     (''excluded_devices'', PList []),
     (''excluded_ips'', PList []),
     (''message_header'', PStr default_message_header),
     (''message_text'', PStr default_message_text),
     (''rules'', PList [])]"

definition first_rule :: "py \<Rightarrow> pdict option" where
  "first_rule rules =
     (case rules of PList vs \<Rightarrow> (case dicts_of vs of [] \<Rightarrow> None | r # _ \<Rightarrow> Some r) | _ \<Rightarrow> None)"

definition copy_primary_rule_fields :: "pdict \<Rightarrow> pdict" where
  "copy_primary_rule_fields settings =
     (let primary = (case first_rule (pget settings ''rules'') of Some r \<Rightarrow> r | None \<Rightarrow> default_guard_rule)
      in foldl (\<lambda>s k. dset k (dget_default primary k (pget default_guard_settings k)) s) settings primary_fields)"

definition settings_rules :: "pdict \<Rightarrow> exn + pdict list" where
  "settings_rules raw =
     result_bind
       (case pget raw ''rules'' of
          PList items \<Rightarrow>
            collect_rules (\<lambda>index item. normalize_rule_entries item (''rule-'' @ str_nat (index + 1))) 0 items
        | _ \<Rightarrow> Inr [])
       (\<lambda>rules. if rules = []
          then result_bind (normalize_guard_rule default_guard_rule ''rule-1'') (\<lambda>r. Inr [r])
          else Inr rules)"

definition write_scope :: "pdict \<Rightarrow> pdict \<Rightarrow> pdict" where
  "write_scope raw settings =
     foldl (\<lambda>s k. dset k (texts (normalize_string_list (pget raw k))) s) settings scope_fields"

definition complete_settings :: "pdict \<Rightarrow> int \<Rightarrow> int \<Rightarrow> pdict list \<Rightarrow> pdict" where
  "complete_settings raw poll retention rules =
     copy_primary_rule_fields
       (dset ''rules'' (PList (map PDict rules))
       (write_scope raw
       (dset ''stream_history_retention_days'' (PInt retention)
       (dset ''poll_interval_seconds'' (PInt poll)
       (dset ''enabled'' (PBool (to_bool (pget raw ''enabled'') False))
          default_guard_settings)))))"

definition normalize_guard_settings :: "py \<Rightarrow> exn + pdict" where
  "normalize_guard_settings arg =
     result_bind (validate_guard_payload arg) (\<lambda>_.
       let raw = (case arg of PDict d \<Rightarrow> d | _ \<Rightarrow> [])
       in result_bind (bounded_int (pget raw ''poll_interval_seconds'') 2 120 5) (\<lambda>poll.
          result_bind (bounded_int (pget raw ''stream_history_retention_days'') 0 3650 0) (\<lambda>retention.
          result_bind (settings_rules raw) (\<lambda>rules.
            Inr (complete_settings raw poll retention rules)))))"

subsection \<open>The number of rules\<close>

lemma collect_rules_length:
  assumes "\<And>j c rs. PDict c \<in> set cs \<Longrightarrow> f j c = Inr rs \<Longrightarrow> length rs = leaf_number [(c, k)]"
    and "collect_rules f i cs = Inr rs"
  shows "length rs = leaf_number (map (\<lambda>c. (c, k)) (dicts_of cs))"
  using assms
proof (induction f i cs arbitrary: rs rule: collect_rules.induct)
  case (2 f i c cs)
  from 2(3) obtain rs1 rs2 where
    rs: "f i c = Inr rs1" "collect_rules f (i + 1) cs = Inr rs2" "rs = rs1 @ rs2"
    by (auto simp: result_bind_Inr_iff)
  have l1: "length rs1 = leaf_number [(c, k)]" by (rule 2(2) [OF _ rs(1)]) simp
  have l2: "length rs2 = leaf_number (map (\<lambda>c. (c, k)) (dicts_of cs))"
    by (rule 2(1) [OF rs(1) _ rs(2)]) (auto intro: 2(2))
  have "dicts_of (PDict c # cs) = c # dicts_of cs" by (simp add: dicts_of_def)
  then show ?case
    using l1 l2 rs(3) leaf_number_simps(2) [of "[(c, k)]" "map (\<lambda>c. (c, k)) (dicts_of cs)"] by simp
qed (auto simp: dicts_of_def leaf_number_simps)

lemma leaf_number_inherit: "leaf_number [(inherit_group_fields grp c, k)] = leaf_number [(c, k)]"
  by (simp add: leaf_number_Cons)

lemma normalize_rule_entries_length:
  "normalize_rule_entries raw fid = Inr rs \<Longrightarrow> length rs = leaf_number [(raw, k)]"
proof (induction raw fid arbitrary: rs k rule: normalize_rule_entries.induct)
  case (1 raw fid)
  show ?case
  proof (cases "group_children raw")
    case None
    then show ?thesis
      using 1(2) by (subst (asm) normalize_rule_entries.simps) (auto simp: result_bind_Inr_iff leaf_number_Cons leaf_number_simps)
  next
    case (Some cs)
    have eq: "collect_rules (\<lambda>index child. normalize_rule_entries (inherit_group_fields raw child)
        (fid @ ''-child-'' @ str_nat (index + 1))) 0 cs = Inr rs"
      using 1(2) Some by (subst (asm) normalize_rule_entries.simps) simp
    have "length rs = leaf_number (map (\<lambda>c. (c, k + 1)) (dicts_of cs))"
      by (rule collect_rules_length [OF _ eq]) (metis 1(1) [OF Some] leaf_number_inherit)
    then show ?thesis using Some by (simp add: leaf_number_Cons leaf_number_simps)
  qed
qed

subsection \<open>The rules of normalised settings\<close>

lemma collect_rules_all:
  assumes "\<And>j c rs. PDict c \<in> set cs \<Longrightarrow> f j c = Inr rs \<Longrightarrow> list_all P rs"
    and "collect_rules f i cs = Inr rs"
  shows "list_all P rs"
  using assms
proof (induction f i cs arbitrary: rs rule: collect_rules.induct)
  case (2 f i c cs)
  from 2(3) obtain rs1 rs2 where
    rs: "f i c = Inr rs1" "collect_rules f (i + 1) cs = Inr rs2" "rs = rs1 @ rs2"
    by (auto simp: result_bind_Inr_iff)
  have "list_all P rs1" by (rule 2(2) [OF _ rs(1)]) simp
  moreover have "list_all P rs2" by (rule 2(1) [OF rs(1) _ rs(2)]) (auto intro: 2(2))
  ultimately show ?case by (simp add: rs(3))
qed auto

lemma normalize_rule_entries_ok:
  "normalize_rule_entries raw fid = Inr rs \<Longrightarrow> clean_id fid \<Longrightarrow> list_all rule_ok rs"
proof (induction raw fid arbitrary: rs rule: normalize_rule_entries.induct)
  case (1 raw fid)
  show ?case
  proof (cases "group_children raw")
    case None
    then show ?thesis
      using 1(2,3) by (subst (asm) normalize_rule_entries.simps)
        (auto simp: result_bind_Inr_iff intro: normalize_guard_rule_ok)
  next
    case (Some cs)
    have eq: "collect_rules (\<lambda>index child. normalize_rule_entries (inherit_group_fields raw child)
        (fid @ ''-child-'' @ str_nat (index + 1))) 0 cs = Inr rs"
      using 1(2) Some by (subst (asm) normalize_rule_entries.simps) simp
    show ?thesis
      by (rule collect_rules_all [OF _ eq]) (metis 1(1) [OF Some] 1(3) clean_id_child)
  qed
qed

lemma normalized_enabled:
  "normalize_guard_rule raw fid = Inr r \<Longrightarrow> pget r ''enabled'' = PBool (to_bool (pget raw ''enabled'') True)"
  by (auto simp: normalize_guard_rule_def Let_def result_bind_Inr_iff)

lemma disabled_entries:
  "normalize_rule_entries raw fid = Inr rs \<Longrightarrow> pget raw ''enabled'' = PBool False \<Longrightarrow>
     list_all (\<lambda>r. pget r ''enabled'' = PBool False) rs"
proof (induction raw fid arbitrary: rs rule: normalize_rule_entries.induct)
  case (1 raw fid)
  show ?case
  proof (cases "group_children raw")
    case None
    then show ?thesis
      using 1(2,3) by (subst (asm) normalize_rule_entries.simps)
        (auto simp: result_bind_Inr_iff dest!: normalized_enabled)
  next
    case (Some cs)
    have eq: "collect_rules (\<lambda>index child. normalize_rule_entries (inherit_group_fields raw child)
        (fid @ ''-child-'' @ str_nat (index + 1))) 0 cs = Inr rs"
      using 1(2) Some by (subst (asm) normalize_rule_entries.simps) simp
    have off: "pget (inherit_group_fields raw c) ''enabled'' = PBool False" for c
      using 1(3) by (simp add: pget_inherit_enabled)
    show ?thesis
      by (rule collect_rules_all [OF _ eq]) (metis 1(1) [OF Some] off)
  qed
qed

lemma dset_same: "map_of d k = Some v \<Longrightarrow> dset k v d = d"
  by (induction d) (auto simp: dset_def split: if_splits)

lemma dset_pget: "pget d k = v \<Longrightarrow> v \<noteq> PNone \<Longrightarrow> dset k v d = d"
  by (rule dset_same) (auto simp: pget_def dget_default_def split: option.splits)

lemma normalize_rule_entries_fixed:
  assumes "rule_ok r"
  shows "normalize_rule_entries r fid = Inr [r]"
proof -
  have t: "pget r ''type'' = PStr ''rule''" "pget r ''children'' = PList []"
    using assms by (simp_all add: rule_ok_def)
  have "group_children r = None"
    by (simp add: group_children_def t)
  moreover have "dset ''children'' (PList []) (dset ''type'' (PStr ''rule'') r) = r"
    using t by (simp add: dset_pget)
  ultimately show ?thesis
    by (subst normalize_rule_entries.simps) (simp add: normalize_guard_rule_fixed [OF assms])
qed

lemma collect_rules_fixed:
  "list_all rule_ok rs \<Longrightarrow> collect_rules (\<lambda>i c. normalize_rule_entries c (g i)) i (map PDict rs) = Inr rs"
  by (induction rs arbitrary: i) (simp_all add: normalize_rule_entries_fixed)

lemma default_rule_fixed: "\<exists>r. normalize_guard_rule default_guard_rule ''rule-1'' = Inr r \<and> rule_ok r"
proof -
  obtain r where r: "normalize_guard_rule default_guard_rule ''rule-1'' = Inr r"
    by (simp add: normalize_guard_rule_def Let_def default_guard_rule_def
        normalize_quality_threshold_def quality_thresholds_def)
  with normalize_guard_rule_ok [OF r clean_id_words(3)] show ?thesis by blast
qed

lemma settings_rules_ok:
  assumes "settings_rules raw = Inr rules"
  shows "rules \<noteq> [] \<and> list_all rule_ok rules"
proof -
  have all: "list_all rule_ok rs"
    if "collect_rules (\<lambda>index item. normalize_rule_entries item (''rule-'' @ str_nat (index + 1))) 0 items = Inr rs"
    for items rs
    by (rule collect_rules_all [OF _ that]) (metis normalize_rule_entries_ok clean_id_rule)
  from assms show ?thesis
    using default_rule_fixed
    by (auto simp: settings_rules_def result_bind_Inr_iff dest: all [simplified] split: py.splits if_splits)
qed

subsection \<open>The settings\<close>

lemma pget_foldl_dset:
  "pget (foldl (\<lambda>s k. dset k (g k) s) s ks) k = (if k \<in> set ks then g k else pget s k)"
  by (induction ks arbitrary: s) auto

lemma dkeys_dset_in: "k \<in> set (dkeys d) \<Longrightarrow> dkeys (dset k v d) = dkeys d"
  unfolding dkeys_def dset_def by (simp only: update_keys if_True)

lemma dkeys_foldl_dset:
  "set ks \<subseteq> set (dkeys s) \<Longrightarrow> dkeys (foldl (\<lambda>s k. dset k (g k) s) s ks) = dkeys s"
proof (induction ks arbitrary: s)
  case (Cons k ks)
  then have "dkeys (dset k (g k) s) = dkeys s" by (intro dkeys_dset_in) simp
  with Cons show ?case by (simp del: set_dkeys)
qed simp

lemma dict_eqI:
  assumes "dkeys d = dkeys e" "distinct (dkeys d)" "\<And>k. pget d k = pget e k"
  shows "d = e"
proof -
  have "d = map (\<lambda>k. (k, pget d k)) (dkeys d)" by (rule dict_of_keys [OF assms(2), symmetric])
  also have "\<dots> = map (\<lambda>k. (k, pget e k)) (dkeys e)" by (simp only: assms(1,3))
  also have "\<dots> = e" by (rule dict_of_keys) (use assms in simp)
  finally show ?thesis .
qed

lemma settings_keys:
  "distinct (dkeys default_guard_settings)"
  "set primary_fields \<subseteq> set (dkeys default_guard_settings)"
  "set scope_fields \<subseteq> set primary_fields"
  "{''rules'', ''enabled'', ''poll_interval_seconds'', ''stream_history_retention_days''}
     \<subseteq> set (dkeys default_guard_settings)"
  unfolding dkeys_def default_guard_settings_def primary_fields_def scope_fields_def by simp_all

lemma settings_keys_apart:
  "''rules'' \<notin> set primary_fields" "''enabled'' \<notin> set primary_fields"
  "''poll_interval_seconds'' \<notin> set primary_fields" "''stream_history_retention_days'' \<notin> set primary_fields"
  by (simp_all add: primary_fields_def)

lemma dkeys_write_scope:
  "dkeys s = dkeys default_guard_settings \<Longrightarrow> dkeys (write_scope raw s) = dkeys default_guard_settings"
  unfolding write_scope_def using settings_keys(2,3) by (simp add: dkeys_foldl_dset del: set_dkeys)

lemma dkeys_complete_settings [simp]:
  "dkeys (complete_settings raw poll retention rules) = dkeys default_guard_settings"
proof -
  have k: "dkeys (dset k v d) = dkeys default_guard_settings"
    if "dkeys d = dkeys default_guard_settings" "k \<in> set (dkeys default_guard_settings)" for k v and d :: pdict
    using that by (simp add: dkeys_dset_in del: set_dkeys)
  have m: "k \<in> set (dkeys default_guard_settings)"
    if "k \<in> {''rules'', ''enabled'', ''poll_interval_seconds'', ''stream_history_retention_days''}" for k
    using settings_keys(4) that by blast
  define base where "base = dset ''rules'' (PList (map PDict rules))
       (write_scope raw
       (dset ''stream_history_retention_days'' (PInt retention)
       (dset ''poll_interval_seconds'' (PInt poll)
       (dset ''enabled'' (PBool (to_bool (pget raw ''enabled'') False))
          default_guard_settings))))"
  have "dkeys base = dkeys default_guard_settings"
    unfolding base_def by (intro k dkeys_write_scope refl m) simp_all
  then show ?thesis
    unfolding complete_settings_def base_def [symmetric] copy_primary_rule_fields_def Let_def
    using settings_keys(2) by (simp add: dkeys_foldl_dset del: set_dkeys)
qed

lemma first_rule_Cons: "first_rule (PList (map PDict (r # rs))) = Some r"
  by (simp add: first_rule_def dicts_of_def)

lemma pget_write_scope:
  "pget (write_scope raw s) k =
     (if k \<in> set scope_fields then texts (normalize_string_list (pget raw k)) else pget s k)"
  by (simp add: write_scope_def pget_foldl_dset)

lemma pget_complete_settings:
  "pget (complete_settings raw poll retention (r # rs)) k =
     (if k \<in> set primary_fields then dget_default r k (pget default_guard_settings k)
      else if k = ''rules'' then PList (map PDict (r # rs))
      else if k = ''stream_history_retention_days'' then PInt retention
      else if k = ''poll_interval_seconds'' then PInt poll
      else if k = ''enabled'' then PBool (to_bool (pget raw ''enabled'') False)
      else pget default_guard_settings k)"
proof -
  have rules: "''rules'' \<notin> set scope_fields" using settings_keys(3) settings_keys_apart by blast
  define base where "base = dset ''rules'' (PList (map PDict (r # rs)))
       (write_scope raw
       (dset ''stream_history_retention_days'' (PInt retention)
       (dset ''poll_interval_seconds'' (PInt poll)
       (dset ''enabled'' (PBool (to_bool (pget raw ''enabled'') False))
          default_guard_settings))))"
  have first: "first_rule (pget base ''rules'') = Some r"
    using first_rule_Cons [of r rs] by (simp add: base_def)
  have eq: "pget (complete_settings raw poll retention (r # rs)) k =
      (if k \<in> set primary_fields then dget_default r k (pget default_guard_settings k) else pget base k)"
    unfolding complete_settings_def base_def [symmetric] copy_primary_rule_fields_def Let_def first
    by (simp add: pget_foldl_dset)
  show ?thesis
  proof (cases "k \<in> set primary_fields")
    case False
    then have "k \<notin> set scope_fields" using settings_keys(3) by blast
    then have "pget base k = (if k = ''rules'' then PList (map PDict (r # rs))
      else if k = ''stream_history_retention_days'' then PInt retention
      else if k = ''poll_interval_seconds'' then PInt poll
      else if k = ''enabled'' then PBool (to_bool (pget raw ''enabled'') False)
      else pget default_guard_settings k)"
      unfolding base_def pget_dset pget_write_scope by (simp only: if_False)
    with False show ?thesis unfolding eq by (simp only: if_False)
  qed (simp add: eq)
qed

lemma complete_settings_again:
  assumes "rules \<noteq> []" "rules' \<noteq> []"
  shows "complete_settings (complete_settings raw poll retention rules) poll' retention' rules' =
    complete_settings raw poll' retention' rules'"
proof (rule dict_eqI)
  obtain r rs r' rs' where "rules = r # rs" "rules' = r' # rs'"
    using assms by (meson neq_Nil_conv)
  then show "pget (complete_settings (complete_settings raw poll retention rules) poll' retention' rules') k =
      pget (complete_settings raw poll' retention' rules') k" for k
    by (simp add: pget_complete_settings settings_keys_apart del: list.map)
qed (simp_all add: settings_keys del: set_dkeys)

lemma normalize_guard_settings_Inr:
  "normalize_guard_settings arg = Inr s \<longleftrightarrow>
     validate_guard_payload arg = Inr () \<and>
     (\<exists>poll retention rules.
        bounded_int (pget (case arg of PDict d \<Rightarrow> d | _ \<Rightarrow> []) ''poll_interval_seconds'') 2 120 5 = Inr poll \<and>
        bounded_int (pget (case arg of PDict d \<Rightarrow> d | _ \<Rightarrow> []) ''stream_history_retention_days'') 0 3650 0
          = Inr retention \<and>
        settings_rules (case arg of PDict d \<Rightarrow> d | _ \<Rightarrow> []) = Inr rules \<and>
        s = complete_settings (case arg of PDict d \<Rightarrow> d | _ \<Rightarrow> []) poll retention rules)"
  unfolding normalize_guard_settings_def by (auto simp: result_bind_Inr_iff Let_def)

lemma rule_ok_has_key:
  assumes "rule_ok r" "k \<in> set primary_fields"
  shows "dget_default r k v = pget r k"
proof -
  have "set primary_fields \<subseteq> set (dkeys default_guard_rule)"
    unfolding dkeys_def primary_fields_def default_guard_rule_def by simp
  then have "k \<in> set (dkeys r)" using assms by (auto simp: rule_ok_def simp del: set_dkeys)
  then show ?thesis by (auto simp: dget_default_def pget_def)
qed

lemma settings_rules_length:
  assumes "validate_guard_payload (PDict d) = Inr ()" "settings_rules d = Inr rules"
  shows "length rules \<le> max_rules"
proof -
  have "length rs \<le> max_rules"
    if "pget d ''rules'' = PList items"
      "collect_rules (\<lambda>index item. normalize_rule_entries item (''rule-'' @ str_nat (index + 1))) 0 items = Inr rs"
    for items rs
  proof -
    define st where "st = map (\<lambda>c. (c, 1 :: nat)) (dicts_of items)"
    from assms(1) obtain b where "(case pget d ''rules'' of
        PList rules \<Rightarrow>
          (if max_rules < length rules
           then Inl (ValueError ''La configurazione Transcode Guard contiene troppe regole.'')
           else walk_rules (map (\<lambda>r. (r, 1)) (dicts_of rules)) 0 0 b)
      | _ \<Rightarrow> Inr ()) = Inr ()"
      unfolding validate_guard_payload_def by (auto simp: result_bind_Inr_iff)
    then have "walk_rules st 0 0 b = Inr ()"
      unfolding that(1) st_def by (simp split: if_splits)
    then have "length (walk_nodes st) \<le> max_rules" by (auto simp: walk_rules_iff)
    moreover have "length rs = leaf_number st"
      unfolding st_def by (rule collect_rules_length [OF normalize_rule_entries_length that(2)])
    ultimately show ?thesis using leaf_number_le [of st] by simp
  qed
  then show ?thesis
    using assms(2) by (auto simp: settings_rules_def result_bind_Inr_iff max_rules_def split: py.splits if_splits)
qed

lemma empty_settings_accepted: "\<exists>s. normalize_guard_settings (PDict []) = Inr s"
  using default_rule_fixed
  by (auto simp: normalize_guard_settings_def validate_guard_payload_def node_text_bytes_def short_text_fields_def
      scope_fields_def text_bytes_def sequence_text_bytes_def settings_rules_def bounded_int_def)

lemma normalized_settings:
  assumes "normalize_guard_settings arg = Inr s"
  shows "\<exists>rules. pget s ''rules'' = PList (map PDict rules) \<and> 1 \<le> length rules \<and> length rules \<le> 100 \<and>
    list_all rule_ok rules \<and>
    has_int_in 2 120 (pget s ''poll_interval_seconds'') \<and>
    has_int_in 0 3650 (pget s ''stream_history_retention_days'') \<and>
    list_all (\<lambda>k. pget s k = pget (hd rules) k) primary_fields"
proof -
  define d where "d = (case arg of PDict d \<Rightarrow> d | _ \<Rightarrow> [])"
  obtain poll retention rules where
    valid: "validate_guard_payload arg = Inr ()" and
    p: "bounded_int (pget d ''poll_interval_seconds'') 2 120 5 = Inr poll" and
    t: "bounded_int (pget d ''stream_history_retention_days'') 0 3650 0 = Inr retention" and
    rules: "settings_rules d = Inr rules" and s: "s = complete_settings d poll retention rules"
    using assms unfolding normalize_guard_settings_Inr d_def by blast
  have ok: "rules \<noteq> []" "list_all rule_ok rules" using settings_rules_ok [OF rules] by auto
  then obtain r rs where rs: "rules = r # rs" by (cases rules) auto
  have get: "pget s k = (if k \<in> set primary_fields then pget r k
      else if k = ''rules'' then PList (map PDict rules)
      else if k = ''stream_history_retention_days'' then PInt retention
      else if k = ''poll_interval_seconds'' then PInt poll
      else if k = ''enabled'' then PBool (to_bool (pget d ''enabled'') False)
      else pget default_guard_settings k)" for k
    using rule_ok_has_key [of r] ok(2) unfolding s rs pget_complete_settings by (simp del: list.map)
  have "validate_guard_payload (PDict d) = Inr ()"
    using valid by (cases arg) (simp_all add: d_def validate_guard_payload_def result_bind_Inr_iff
        node_text_bytes_def short_text_fields_def scope_fields_def text_bytes_def sequence_text_bytes_def Let_def)
  then have "length rules \<le> 100" using settings_rules_length [OF _ rules] by (simp add: max_rules_def)
  moreover have "has_int_in 2 120 (pget s ''poll_interval_seconds'')"
    using bounded_int_in [OF p] by (simp add: get settings_keys_apart)
  moreover have "has_int_in 0 3650 (pget s ''stream_history_retention_days'')"
    using bounded_int_in [OF t] by (simp add: get settings_keys_apart)
  moreover have "list_all (\<lambda>k. pget s k = pget (hd rules) k) primary_fields"
    unfolding list_all_iff by (simp add: get rs)
  moreover have "pget s ''rules'' = PList (map PDict rules)" by (simp add: get settings_keys_apart del: list.map)
  ultimately show ?thesis using ok by (intro exI [of _ rules] conjI) (simp_all add: Suc_le_eq)
qed

text \<open>
  C34: Normalised settings hold 1 to 100 complete rules, each with every field in its declared
  range, a polling interval of 2 to 120 seconds and a retention of 0 to 3650 days, and their top
  level repeats the fields of the first rule.
\<close>

theorem settings_well_formed:
  assumes "normalize_guard_settings arg = Inr s"
  shows "\<exists>rules. pget s ''rules'' = PList (map PDict rules) \<and> 1 \<le> length rules \<and> length rules \<le> 100 \<and>
    list_all rule_ok rules \<and>
    has_int_in 2 120 (pget s ''poll_interval_seconds'') \<and>
    has_int_in 0 3650 (pget s ''stream_history_retention_days'') \<and>
    list_all (\<lambda>k. pget s k = pget (hd rules) k) primary_fields"
  using normalized_settings [OF assms] .

theorem settings_well_formed_witness:
  "\<exists>s rules. normalize_guard_settings (PDict []) = Inr s \<and> pget s ''rules'' = PList (map PDict rules) \<and>
     1 \<le> length rules \<and> list_all rule_ok rules"
proof -
  obtain s where s: "normalize_guard_settings (PDict []) = Inr s" using empty_settings_accepted by blast
  from settings_well_formed [OF this] s show ?thesis by blast
qed

text \<open>
  Normalisation is idempotent up to the size check: normalised settings that are normalised
  again either fail the validation or come back unchanged.
\<close>

theorem normalize_settings_idempotent:
  assumes "normalize_guard_settings arg = Inr s"
  shows "normalize_guard_settings (PDict s) =
    (case validate_guard_payload (PDict s) of Inl e \<Rightarrow> Inl e | Inr _ \<Rightarrow> Inr s)"
proof (cases "validate_guard_payload (PDict s)")
  case (Inr u)
  define d where "d = (case arg of PDict d \<Rightarrow> d | _ \<Rightarrow> [])"
  obtain poll retention rules where
    p: "bounded_int (pget d ''poll_interval_seconds'') 2 120 5 = Inr poll" and
    t: "bounded_int (pget d ''stream_history_retention_days'') 0 3650 0 = Inr retention" and
    rules: "settings_rules d = Inr rules" and s: "s = complete_settings d poll retention rules"
    using assms unfolding normalize_guard_settings_Inr d_def by blast
  have ok: "rules \<noteq> []" "list_all rule_ok rules" using settings_rules_ok [OF rules] by auto
  then obtain r rs where rs: "rules = r # rs" by (cases rules) auto
  have get: "pget s ''rules'' = PList (map PDict rules)" "pget s ''poll_interval_seconds'' = PInt poll"
    "pget s ''stream_history_retention_days'' = PInt retention"
    unfolding s rs pget_complete_settings by (simp_all add: settings_keys_apart del: list.map)
  have "settings_rules s = Inr rules"
    using ok by (simp add: settings_rules_def get collect_rules_fixed)
  moreover have "bounded_int (PInt poll) 2 120 5 = Inr poll" "bounded_int (PInt retention) 0 3650 0 = Inr retention"
    using bounded_int_bounds [OF p] bounded_int_bounds [OF t] by simp_all
  moreover have "complete_settings s poll retention rules = s"
    unfolding s by (rule complete_settings_again [OF ok(1) ok(1)])
  ultimately have "normalize_guard_settings (PDict s) = Inr s"
    unfolding normalize_guard_settings_Inr using Inr by (simp add: get)
  then show ?thesis using Inr by simp
qed (simp add: normalize_guard_settings_def)

theorem normalize_settings_idempotent_witness:
  "\<exists>s. normalize_guard_settings (PDict []) = Inr s \<and> normalize_guard_settings (PDict s) =
     (case validate_guard_payload (PDict s) of Inl e \<Rightarrow> Inl e | Inr _ \<Rightarrow> Inr s)"
  using empty_settings_accepted normalize_settings_idempotent by blast

subsection \<open>Settings that grow\<close>

text \<open>
  The validation counts the text of the tree, in which a group holds its message once;
  normalisation copies the message into every child.
\<close>

definition long_message :: string where
  "long_message = replicate 2000 (CHR ''x'')"

definition long_child :: pdict where
  "long_child = [(''server_ids'', PList [PStr ''s''])]"

definition long_group :: pdict where
  "long_group = [(''type'', PStr ''group''), (''message_text'', PStr long_message),
     (''children'', PList (replicate 40 (PDict long_child)))]"

definition long_settings :: py where
  "long_settings = PDict [(''rules'', PList [PDict long_group, PDict long_group])]"

lemma utf8_len_replicate: "utf8_len (replicate n (CHR ''x'')) = n"
  by (induction n) (simp_all add: utf8_len_def code_def)

lemma long_message_facts:
  "strip long_message = long_message" "long_message \<noteq> []" "utf8_len long_message = 2000"
  by (simp_all add: long_message_def utf8_len_replicate strip_fixed_iff is_space_def code_def Let_def)

lemma long_children:
  "group_children long_group = Some (replicate 40 (PDict long_child))"
  "group_children long_child = None" "\<not> is_group long_child"
proof -
  have "lower (strip ''group'') = ''group''" "lower (strip ''rule'') = ''rule''" by code_simp+
  then show "group_children long_group = Some (replicate 40 (PDict long_child))"
    "group_children long_child = None" "\<not> is_group long_child"
    by (simp_all add: group_children_def is_group_def long_group_def long_child_def text_or_def
        numeral_eq_Suc split: list.split)
qed

lemma long_bytes:
  "node_text_bytes long_child = Inr 1" "node_text_bytes long_group = Inr 2000"
proof -
  have s: "utf8_len ''s'' = 1" "utf8_len ''rule'' = 4" by code_simp+
  then show "node_text_bytes long_child = Inr 1" "node_text_bytes long_group = Inr 2000"
    by (simp_all add: node_text_bytes_def short_text_fields_def scope_fields_def text_bytes_def
      sequence_text_bytes_def long_child_def long_group_def long_message_facts max_identifier_length_def
      max_message_length_def max_list_items_def Let_def)
qed

lemma dicts_of_replicate: "dicts_of (replicate n (PDict d)) = replicate n d"
  by (induction n) (simp_all add: dicts_of_def)

lemma walk_nodes_leaves: "group_children d = None \<Longrightarrow> walk_nodes (replicate n (d, k)) = replicate n (d, k)"
  by (induction n) simp_all

lemma walk_long_group:
  "walk_nodes [(long_group, 1)] = (long_group, 1) # replicate 40 (long_child, 2)"
  by (simp add: long_children dicts_of_replicate walk_nodes_leaves map_replicate)

lemma long_settings_valid: "validate_guard_payload long_settings = Inr ()"
proof -
  let ?st = "[(long_group, 1 :: nat), (long_group, 1)]"
  have "walk_nodes ?st = walk_nodes [(long_group, 1)] @ walk_nodes [(long_group, 1)]"
    by (metis append_Cons append_Nil walk_nodes_append)
  then have w: "walk_nodes ?st = ((long_group, 1) # replicate 40 (long_child, 2)) @
      ((long_group, 1) # replicate 40 (long_child, 2))"
    by (simp only: walk_long_group)
  have "list_all node_within (walk_nodes ?st)"
    unfolding w by (simp add: node_within_def long_children long_bytes list_all_iff max_rule_depth_def max_group_children_def)
  moreover have "sum_list (map (node_bytes \<circ> fst) (walk_nodes ?st)) \<le> max_text_bytes"
    unfolding w by (simp add: node_bytes_def long_bytes map_replicate sum_list_replicate max_text_bytes_def)
  moreover have "length (walk_nodes ?st) \<le> max_rules" unfolding w by (simp add: max_rules_def)
  ultimately have "walk_rules ?st 0 0 0 = Inr ()" by (simp only: walk_rules_iff) simp
  moreover have "node_text_bytes [(''rules'', PList [PDict long_group, PDict long_group])] = Inr 0"
    by (simp add: node_text_bytes_def short_text_fields_def scope_fields_def text_bytes_def sequence_text_bytes_def Let_def)
  ultimately show ?thesis
    by (simp add: validate_guard_payload_def long_settings_def dicts_of_def max_rules_def)
qed

lemma collect_rules_total:
  "(\<And>j c. PDict c \<in> set cs \<Longrightarrow> \<exists>rs. f j c = Inr rs) \<Longrightarrow> \<exists>rs. collect_rules f i cs = Inr rs"
proof (induction f i cs rule: collect_rules.induct)
  case (2 f i c cs)
  then obtain rs where "f i c = Inr rs" by (metis list.set_intros(1))
  moreover obtain rest where "collect_rules f (i + 1) cs = Inr rest"
    using 2(1) [OF calculation] 2(2) by (metis list.set_intros(2))
  ultimately show ?case by simp
qed auto

lemma leaf_entries:
  assumes "group_children c = None" "\<forall>k \<in> set inherited_fields. k \<noteq> ''message_text'' \<longrightarrow> pget c k = PNone"
    "pget c ''message_text'' = PStr m" "strip m = m" "m \<noteq> []"
  shows "\<exists>r. normalize_rule_entries c fid = Inr [r] \<and> pget r ''message_text'' = PStr m"
proof -
  define c' where "c' = dset ''children'' (PList []) (dset ''type'' (PStr ''rule'') c)"
  have none: "pget c' ''min_source_height'' = PNone" "pget c' ''correction_window_seconds'' = PNone"
    "pget c' ''warning_timeout_ms'' = PNone" "pget c' ''max_warnings'' = PNone"
    "pget c' ''message_cooldown_seconds'' = PNone" "pget c' ''message_text'' = PStr m"
    using assms(2,3) by (simp_all add: c'_def inherited_fields_def)
  have height: "\<exists>h. normalize_quality_threshold PNone d = Inr h" for d
    by (simp add: normalize_quality_threshold_def bounded_int_def)
  obtain h where h: "normalize_quality_threshold PNone
      (cr_min_height (profile_default_criteria (normalize_profile (pget c' ''profile'')))) = Inr h"
    using height by blast
  have "\<exists>r. normalize_guard_rule c' fid = Inr r \<and> pget r ''message_text'' = PStr m"
    using assms(4,5) h
    by (simp add: normalize_guard_rule_def Let_def none bounded_int_def message_or_default_def)
  then show ?thesis
    using assms(1) by (subst normalize_rule_entries.simps) (auto simp: c'_def)
qed

lemma long_child_entries:
  "\<exists>r. normalize_rule_entries (inherit_group_fields long_group long_child) fid = Inr [r] \<and>
     pget r ''message_text'' = PStr long_message"
proof (rule leaf_entries)
  have get: "pget (inherit_group_fields long_group long_child) k =
      (if k = ''message_text'' then PStr long_message else PNone)" if "k \<in> set inherited_fields" for k
  proof -
    have k: "k \<noteq> ''enabled''" "k \<noteq> ''server_ids''" "k \<noteq> ''type''" "k \<noteq> ''children''"
      using that unfolding inherited_fields_def by auto
    have "pget long_child k = PNone" using k(2) by (simp add: long_child_def)
    moreover have "has_key k long_group \<longleftrightarrow> k = ''message_text''"
      using k(3,4) by (simp add: long_group_def)
    ultimately show ?thesis
      using that by (simp add: pget_inherit [OF k(1)] has_rule_value_def) (simp add: long_group_def)
  qed
  have "''message_text'' \<in> set inherited_fields" by (simp add: inherited_fields_def)
  from get [OF this]
  show "pget (inherit_group_fields long_group long_child) ''message_text'' = PStr long_message" by simp
  show "\<forall>k \<in> set inherited_fields. k \<noteq> ''message_text'' \<longrightarrow>
      pget (inherit_group_fields long_group long_child) k = PNone"
    using get by simp
qed (simp_all add: long_children long_message_facts)

lemma long_group_entries:
  "\<exists>rs. normalize_rule_entries long_group fid = Inr rs \<and> length rs = 40 \<and>
     list_all (\<lambda>r. pget r ''message_text'' = PStr long_message) rs"
proof -
  let ?f = "\<lambda>index child. normalize_rule_entries (inherit_group_fields long_group child)
      (fid @ ''-child-'' @ str_nat (index + 1))"
  have child: "\<exists>r. ?f j c = Inr [r] \<and> pget r ''message_text'' = PStr long_message"
    if "PDict c \<in> set (replicate 40 (PDict long_child))" for j c
    using that long_child_entries by simp
  obtain rs where rs: "collect_rules ?f 0 (replicate 40 (PDict long_child)) = Inr rs"
    using collect_rules_total [of "replicate 40 (PDict long_child)" ?f 0] child by metis
  have all: "list_all (\<lambda>r. pget r ''message_text'' = PStr long_message) rs"
  proof (rule collect_rules_all [OF _ rs])
    fix j c rs' assume h: "PDict c \<in> set (replicate 40 (PDict long_child))" "?f j c = Inr rs'"
    from child [OF h(1), of j] h(2) show "list_all (\<lambda>r. pget r ''message_text'' = PStr long_message) rs'" by auto
  qed
  have eq: "normalize_rule_entries long_group fid = Inr rs"
    by (subst normalize_rule_entries.simps) (simp only: long_children option.case rs)
  have "length rs = leaf_number [(long_group, 1)]" by (rule normalize_rule_entries_length [OF eq])
  also have "\<dots> = 40" unfolding leaf_number_def walk_long_group by (simp add: long_children)
  finally show ?thesis using eq all by blast
qed

lemma message_counted:
  assumes "node_text_bytes d = Inr n" "pget d ''message_text'' = PStr m"
  shows "utf8_len m \<le> n"
  using assms
  by (auto simp: node_text_bytes_def result_bind_Inr_iff text_bytes_def split: if_splits)

text \<open>
  Accepted settings need not survive their own normalisation: two groups of 40 rules and one
  message of 2000 bytes each are accepted, but the 80 rules they become hold 160000 bytes of
  text and are rejected when they are normalised again, as on the next load.
\<close>

theorem accepted_settings_may_be_rejected_again:
  "\<exists>s. normalize_guard_settings long_settings = Inr s \<and> isl (normalize_guard_settings (PDict s))"
proof -
  define d where "d = [(''rules'', PList [PDict long_group, PDict long_group])]"
  obtain rs1 rs2 where
    rs1: "normalize_rule_entries long_group (''rule-'' @ str_nat 1) = Inr rs1" "length rs1 = 40"
      "list_all (\<lambda>r. pget r ''message_text'' = PStr long_message) rs1" and
    rs2: "normalize_rule_entries long_group (''rule-'' @ str_nat 2) = Inr rs2" "length rs2 = 40"
      "list_all (\<lambda>r. pget r ''message_text'' = PStr long_message) rs2"
    using long_group_entries by metis
  define rules where "rules = rs1 @ rs2"
  have "settings_rules d = Inr rules"
    using rs1(1,2) rs2(1) by (auto simp: settings_rules_def d_def rules_def numeral_2_eq_2)
  then have s: "normalize_guard_settings long_settings = Inr (complete_settings d 5 0 rules)"
    unfolding normalize_guard_settings_Inr using long_settings_valid
    by (simp add: long_settings_def d_def bounded_int_def)
  have rules: "length rules = 80" "list_all (\<lambda>r. pget r ''message_text'' = PStr long_message) rules"
    using rs1 rs2 by (simp_all add: rules_def)
  obtain r rest where cons: "rules = r # rest" using rules(1) by (cases rules) auto
  have get: "pget (complete_settings d 5 0 rules) ''rules'' = PList (map PDict rules)"
    unfolding cons pget_complete_settings by (simp add: settings_keys_apart del: list.map)
  define st where "st = map (\<lambda>r. (r, 1 :: nat)) rules"
  have ne: "st \<noteq> []" by (simp add: st_def cons)
  have "walk_rules st 0 0 b \<noteq> Inr ()" for b
  proof
    assume "walk_rules st 0 0 b = Inr ()"
    then have ok: "list_all node_within (walk_nodes st)"
      and sum: "sum_list (map (node_bytes \<circ> fst) (walk_nodes st)) \<le> max_text_bytes"
      using walk_rules_iff [of 0 0 st b] ne by simp_all
    have "sum_list (map (node_bytes \<circ> fst) st) \<le> sum_list (map (node_bytes \<circ> fst) (walk_nodes st))"
      by (rule stack_bytes_le)
    moreover have "2000 * length rules \<le> sum_list (map (node_bytes \<circ> fst) st)"
    proof -
      have "2000 \<le> node_bytes r" if "r \<in> set rules" for r
      proof -
        have "(r, 1) \<in> set (walk_nodes st)" using that walk_nodes_stack [of st] by (auto simp: st_def)
        then obtain n where n: "node_text_bytes r = Inr n" using ok by (auto simp: list_all_iff node_within_def)
        with message_counted [OF n] rules(2) that show ?thesis
          by (simp add: node_bytes_def list_all_iff long_message_facts)
      qed
      then show ?thesis unfolding st_def by (induction rules) (auto simp: comp_def intro!: add_mono)
    qed
    ultimately show False using sum rules(1) by (simp add: max_text_bytes_def)
  qed
  then have "isl (walk_rules st 0 0 b)" for b by (cases "walk_rules st 0 0 b") auto
  moreover have "dicts_of (map PDict rules) = rules" by (induction rules) (simp_all add: dicts_of_def)
  ultimately have "isl (validate_guard_payload (PDict (complete_settings d 5 0 rules)))"
    using rules(1) unfolding validate_guard_payload_def st_def
    by (cases "node_text_bytes (complete_settings d 5 0 rules)") (auto simp: get split: sum.split)
  then have "isl (normalize_guard_settings (PDict (complete_settings d 5 0 rules)))"
    unfolding normalize_guard_settings_def
    by (cases "validate_guard_payload (PDict (complete_settings d 5 0 rules))") auto
  with s show ?thesis by blast
qed

text \<open>
  Whatever its children say, no rule that comes from a disabled group is enabled.
\<close>

theorem disabled_group_disables:
  assumes "pget grp ''enabled'' = PBool False" "normalize_rule_entries grp fid = Inr rules"
  shows "list_all (\<lambda>r. pget r ''enabled'' = PBool False) rules"
  by (rule disabled_entries [OF assms(2,1)])

lemma rule_total:
  assumes "list_all (\<lambda>k. pget d k = PNone) [''min_source_height'', ''correction_window_seconds'',
    ''warning_timeout_ms'', ''max_warnings'', ''message_cooldown_seconds'']"
  shows "\<exists>r. normalize_guard_rule d fid = Inr r"
  using assms
  by (simp add: normalize_guard_rule_def Let_def normalize_quality_threshold_def bounded_int_def)

theorem disabled_group_disables_witness:
  "\<exists>rules. normalize_rule_entries
       [(''type'', PStr ''group''), (''enabled'', PBool False),
        (''children'', PList [PDict [(''enabled'', PBool True)]])] ''rule-1'' = Inr rules \<and>
     list_all (\<lambda>r. pget r ''enabled'' = PBool False) rules"
proof -
  define child :: pdict where "child = [(''enabled'', PBool True)]"
  define grp :: pdict where "grp = [(''type'', PStr ''group''), (''enabled'', PBool False),
    (''children'', PList [PDict child])]"
  have "lower (strip ''group'') = ''group''" "lower (strip ''rule'') \<noteq> ''group''" by code_simp+
  then have tree: "group_children grp = Some [PDict child]" "group_children child = None"
    by (simp_all add: group_children_def is_group_def grp_def child_def text_or_def)
  have "\<exists>rs. normalize_rule_entries (inherit_group_fields grp child) fid = Inr rs" for fid
  proof -
    have "\<exists>r. normalize_guard_rule (dset ''children'' (PList []) (dset ''type'' (PStr ''rule'')
        (inherit_group_fields grp child))) fid = Inr r"
      by (rule rule_total) (simp add: pget_inherit grp_def child_def)
    then show ?thesis by (subst normalize_rule_entries.simps) (auto simp: tree)
  qed
  then obtain rs where "normalize_rule_entries (inherit_group_fields grp child)
      (''rule-1'' @ ''-child-'' @ str_nat (0 + 1)) = Inr rs" by blast
  then have "normalize_rule_entries grp ''rule-1'' = Inr rs"
    by (subst normalize_rule_entries.simps) (simp only: tree option.case collect_rules.simps result_bind.simps append_Nil2)
  with disabled_group_disables [OF _ this] show ?thesis
    unfolding grp_def child_def by simp
qed

end
