(* ===== verification/Guard_Classify.thy ===== *)
theory Guard_Classify
  imports Guard_Settings
begin

text \<open>
  Classification of a playing stream by the Transcode Guard
  (\<open>emby_runtime/transcode_guard_rules.py\<close>, \<open>classify_stream\<close>): the features of the stream, the
  evaluation of the rules in order (a rule that is muted for a pause or an exclusion lets later
  rules decide) and the fallback when no rule says anything.  Decisions are the dictionaries the
  code builds; \<open>_continue\<close> is the key by which \<open>_evaluate_rule\<close> marks a muted decision.
\<close>

subsection \<open>Features\<close>

record features =
  f_title :: string
  f_server_id :: string
  f_user :: string
  f_client :: string
  f_device :: string
  f_ip :: string
  f_video_direct :: bool
  f_audio_direct :: bool
  f_height :: "int option"
  f_width :: "int option"
  f_tier :: "int option"
  f_reasons :: "string list"
  f_paused :: bool
  f_remux :: bool

definition stream_features :: "pdict \<Rightarrow> exn + features" where
  "stream_features d =
     result_bind (extract_video_height d) (\<lambda>height.
     result_bind (extract_video_width d) (\<lambda>width.
     Inr \<lparr>f_title = text_or (pget d ''title'') ''Stream'',
          f_server_id = text_or_empty (pget d ''server_id''),
          f_user = text_or_empty (pget d ''user''),
          f_client = text_or_empty (pget d ''client''),
          f_device = text_or_empty (pget d ''device''),
          f_ip = text_or_empty (pget d ''ip''),
          f_video_direct = is_direct_mode (pget d ''video_mode''),
          f_audio_direct = is_direct_mode (pget d ''audio_mode''),
          f_height = height,
          f_width = width,
          f_tier = source_quality_tier d width height,
          f_reasons = normalize_string_list (pget d ''transcode_reasons''),
          f_paused = truthy (pget d ''paused''),
          f_remux = looks_like_remux d\<rparr>))"

subsection \<open>Decisions\<close>

definition opt_int :: "int option \<Rightarrow> py" where
  "opt_int i = (case i of None \<Rightarrow> PNone | Some n \<Rightarrow> PInt n)"

definition guard_decision ::
  "string \<Rightarrow> string \<Rightarrow> string \<Rightarrow> bool \<Rightarrow> pdict \<Rightarrow> pdict \<Rightarrow> int option \<Rightarrow> int option \<Rightarrow>
   pdict option \<Rightarrow> string list \<Rightarrow> pdict" where
  "guard_decision category reason severity should_enforce stream settings height tier rule path =
     (let rule_id = (case rule of Some r \<Rightarrow> text_or_empty (pget r ''id'') | None \<Rightarrow> []);
          rule_name = (case rule of Some r \<Rightarrow> text_or_empty (pget r ''name'') | None \<Rightarrow> [])
      in [(''category'', PStr category),
          (''label'', PStr reason),
          (''reason'', PStr reason),
          (''severity'', PStr severity),
          (''should_enforce'', PBool should_enforce),
          (''source_height'', opt_int height),
          (''source_quality_tier'', opt_int tier),
          (''threshold'', pget settings ''min_source_height''),
          (''mode'', pget settings ''mode''),
          (''session_id'', py_or (pget stream ''session_id'') (PStr [])),
          (''rule_id'', PStr rule_id),
          (''rule_name'', PStr rule_name),
          (''rule_path'', texts (if path \<noteq> [] then path else if rule_name \<noteq> [] then [rule_name] else [])),
          (''profile'', (case rule of Some r \<Rightarrow> pget r ''profile'' | None \<Rightarrow> PStr [])),
          (''message_display_mode'', pget settings ''message_display_mode''),
          (''warning_timeout_ms'', pget settings ''warning_timeout_ms''),
          (''max_warnings'', pget settings ''max_warnings''),
          (''message_cooldown_seconds'', pget settings ''message_cooldown_seconds''),
          (''correction_window_seconds'', pget settings ''correction_window_seconds''),
          (''message_header'', pget settings ''message_header''),
          (''message_text'', pget settings ''message_text'')])"

definition effective_setting :: "pdict \<Rightarrow> string \<Rightarrow> py \<Rightarrow> py" where
  "effective_setting settings k d = (let v = pget settings k in if v = PNone then d else v)"

definition rule_settings :: "pdict \<Rightarrow> pdict \<Rightarrow> pdict" where
  "rule_settings settings rule =
     foldl (\<lambda>m k. if has_key k rule then dset k (pget rule k) m else m) settings primary_fields"

subsection \<open>Does a rule match\<close>

definition stream_state_matches :: "py \<Rightarrow> bool \<Rightarrow> bool" where
  "stream_state_matches state is_transcoding =
     (let n = normalize_stream_state state ''any''
      in if n = ''any'' then True else if n = ''transcode'' then is_transcoding else \<not> is_transcoding)"

text \<open>\<open>_remux_state_matches\<close> and \<open>_transformation_state_matches\<close> have the same body.\<close>

definition presence_state_matches :: "py \<Rightarrow> bool \<Rightarrow> bool" where
  "presence_state_matches state present =
     (let n = normalize_presence_state state ''any''
      in if n = ''any'' then True else if n = ''present'' then present else \<not> present)"

definition rule_applies_to_server :: "pdict \<Rightarrow> features \<Rightarrow> bool" where
  "rule_applies_to_server rule f =
     (let server_id = strip (f_server_id f)
      in if server_id = [] then True else server_id \<in> set (normalize_string_list (pget rule ''server_ids'')))"

text \<open>The patterns of an exclusion list of a normalised rule, \<open>str(pattern or "")\<close> each.\<close>

definition pattern_texts :: "py \<Rightarrow> string list" where
  "pattern_texts v = (case v of PList ps \<Rightarrow> map text_or_empty ps | _ \<Rightarrow> [])"

definition rule_exclusion_reason :: "'a ip_lib \<Rightarrow> pdict \<Rightarrow> features \<Rightarrow> string" where
  "rule_exclusion_reason ips rule f =
     (if matches_any (f_user f) (pattern_texts (pget rule ''excluded_users'')) then ''Utente escluso''
      else if matches_any (f_client f) (pattern_texts (pget rule ''excluded_clients'')) then ''Client escluso''
      else if matches_any (f_device f) (pattern_texts (pget rule ''excluded_devices'')) then ''Device escluso''
      else if ip_matches_any ips (f_ip f) (pattern_texts (pget rule ''excluded_ips'')) then ''IP escluso''
      else [])"

text \<open>
  \<open>_rule_matches\<close>: whether the rule matches, with the category, the label and the severity.
  \<open>int(rule.get("min_source_height") or 0)\<close> may raise on a rule that was not normalised.
\<close>

definition rule_matches :: "pdict \<Rightarrow> features \<Rightarrow> exn + bool \<times> string \<times> string \<times> string" where
  "rule_matches rule f =
     (let profile = text_or (pget rule ''profile'') ''video_transcode_threshold'';
          video_transcode = (\<not> f_video_direct f);
          audio_transcode = (\<not> f_audio_direct f);
          no_match = (False, [], [], ''ok'');
          verdict =
           (if profile = ''browser_playback'' then (True, ''browser_playback'', ''Riproduzione da browser'', ''warning'')
            else if video_transcode \<and> audio_transcode
            then (True, ''video_audio_transcode'', ''Transcodifica video e audio'', ''danger'')
            else if video_transcode
            then (if has_subtitle_burn_reason (f_reasons f)
                  then (True, ''subtitle_burnin'', ''Sottotitoli impressi'', ''danger'')
                  else (True, ''video_transcode'', ''Transcodifica video'', ''danger''))
            else if audio_transcode then (True, ''audio_transcode'', ''Solo audio transcode'', ''warning'')
            else if f_remux f then (True, ''container_remux'', ''Remux contenitore'', ''warning'')
            else (True, ''stream_match'', ''Regola stream'', ''warning''))
      in if profile = ''browser_playback'' \<and> \<not> looks_like_browser (f_client f) (f_device f) then Inr no_match
         else if \<not> stream_state_matches (pget rule ''video_state'') video_transcode then Inr no_match
         else if \<not> stream_state_matches (pget rule ''audio_state'') audio_transcode then Inr no_match
         else if \<not> presence_state_matches (pget rule ''remux_state'') (f_remux f) then Inr no_match
         else if \<not> presence_state_matches (pget rule ''transformation_state'')
                   (video_transcode \<or> audio_transcode \<or> f_remux f) then Inr no_match
         else result_bind (py_int (py_or (pget rule ''min_source_height'') (PInt 0))) (\<lambda>threshold.
           if 0 < threshold
           then (case f_tier f of
                   None \<Rightarrow> Inr (False, ''unknown'', ''Altezza video sorgente non disponibile'', ''warning'')
                 | Some tier \<Rightarrow> if tier < threshold then Inr no_match else Inr verdict)
           else Inr verdict))"

text \<open>\<open>_rule_enforces\<close> is constantly true.\<close>

definition rule_enforces :: "pdict \<Rightarrow> bool" where
  "rule_enforces rule = True"

subsection \<open>Evaluation\<close>

definition evaluate_rule ::
  "'a ip_lib \<Rightarrow> pdict \<Rightarrow> pdict \<Rightarrow> pdict \<Rightarrow> features \<Rightarrow> string list \<Rightarrow> exn + pdict option" where
  "evaluate_rule ips rule stream settings f path =
     (if \<not> truthy (dget_default rule ''enabled'' (PBool True)) then Inr None
      else
        let current_path = path @ [text_or (py_or (pget rule ''name'') (pget rule ''id'')) ''Regola''];
            decide = (\<lambda>category label severity enforce.
              guard_decision category label severity enforce stream (rule_settings settings rule)
                (f_height f) (f_tier f) (Some rule) current_path)
        in if \<not> rule_applies_to_server rule f then Inr None
           else if f_paused f \<and> truthy (effective_setting rule ''ignore_paused'' (PBool True))
           then Inr (Some (dset ''_continue'' (PBool True) (decide ''paused'' ''In pausa'' ''muted'' False)))
           else if rule_exclusion_reason ips rule f \<noteq> []
           then Inr (Some (dset ''_continue'' (PBool True)
                  (decide ''excluded'' (rule_exclusion_reason ips rule f) ''muted'' False)))
           else result_bind (rule_matches rule f) (\<lambda>(matched, category, label, severity).
             if \<not> matched then Inr None
             else Inr (Some (decide category label severity (rule_enforces rule)))))"

fun evaluate_rule_list ::
  "'a ip_lib \<Rightarrow> pdict \<Rightarrow> pdict \<Rightarrow> features \<Rightarrow> pdict option \<Rightarrow> pdict list \<Rightarrow> exn + pdict option" where
  "evaluate_rule_list ips stream settings f skipped [] = Inr skipped"
| "evaluate_rule_list ips stream settings f skipped (rule # rules) =
     result_bind (evaluate_rule ips rule stream settings f []) (\<lambda>decision.
       case decision of
         None \<Rightarrow> evaluate_rule_list ips stream settings f skipped rules
       | Some d \<Rightarrow>
           (if truthy (dget_default d ''_continue'' (PBool False))
            then evaluate_rule_list ips stream settings f (Some (dpop ''_continue'' d)) rules
            else Inr (Some (dpop ''_continue'' d))))"

definition evaluate_rules :: "'a ip_lib \<Rightarrow> pdict \<Rightarrow> pdict \<Rightarrow> features \<Rightarrow> exn + pdict option" where
  "evaluate_rules ips stream settings f =
     evaluate_rule_list ips stream settings f None
       (case pget settings ''rules'' of PList vs \<Rightarrow> dicts_of vs | _ \<Rightarrow> [])"

definition fallback_decision :: "pdict \<Rightarrow> pdict \<Rightarrow> features \<Rightarrow> pdict" where
  "fallback_decision stream settings f =
     (let decide = (\<lambda>category reason severity enforce.
        guard_decision category reason severity enforce stream settings (f_height f) (f_tier f) None [])
      in if f_height f = None \<and> \<not> f_video_direct f
         then decide ''unknown'' ''Altezza video sorgente non disponibile'' ''warning'' False
         else if \<not> f_video_direct f then decide ''video_transcode'' ''Transcodifica video'' ''warning'' False
         else if f_video_direct f \<and> \<not> f_audio_direct f
         then (let allow = truthy (effective_setting settings ''allow_audio_only_transcode'' (PBool True))
               in decide ''audio_transcode'' ''Solo audio transcode'' (if allow then ''ok'' else ''warning'') (\<not> allow))
         else if f_video_direct f \<and> f_audio_direct f \<and> f_remux f
         then (let allow = truthy (effective_setting settings ''allow_container_remux'' (PBool True))
               in decide ''container_remux'' ''Remux contenitore'' (if allow then ''ok'' else ''warning'') (\<not> allow))
         else decide ''direct'' ''Direct Play'' ''ok'' False)"

definition classify_stream :: "'a ip_lib \<Rightarrow> pdict \<Rightarrow> pdict \<Rightarrow> exn + pdict" where
  "classify_stream ips stream settings =
     result_bind (normalize_guard_settings (PDict settings)) (\<lambda>resolved.
     result_bind (stream_features stream) (\<lambda>f.
     result_bind (evaluate_rules ips stream resolved f) (\<lambda>decision.
       case decision of
         Some d \<Rightarrow> Inr d
       | None \<Rightarrow> Inr (fallback_decision stream resolved f))))"

subsection \<open>What the evaluation computes\<close>

definition rule_enabled :: "pdict \<Rightarrow> bool" where
  "rule_enabled rule = truthy (dget_default rule ''enabled'' (PBool True))"

definition rule_waits :: "pdict \<Rightarrow> features \<Rightarrow> bool" where
  "rule_waits rule f = (f_paused f \<and> truthy (effective_setting rule ''ignore_paused'' (PBool True)))"

text \<open>A rule mutes a stream, or it decides it, or it says nothing.\<close>

definition rule_mutes :: "'a ip_lib \<Rightarrow> features \<Rightarrow> pdict \<Rightarrow> bool" where
  "rule_mutes ips f rule \<longleftrightarrow> rule_enabled rule \<and> rule_applies_to_server rule f \<and>
     (rule_waits rule f \<or> rule_exclusion_reason ips rule f \<noteq> [])"

definition rule_decides :: "'a ip_lib \<Rightarrow> features \<Rightarrow> pdict \<Rightarrow> bool" where
  "rule_decides ips f rule \<longleftrightarrow> rule_enabled rule \<and> rule_applies_to_server rule f \<and>
     \<not> rule_waits rule f \<and> rule_exclusion_reason ips rule f = [] \<and>
     (case rule_matches rule f of Inr (matched, _) \<Rightarrow> matched | Inl _ \<Rightarrow> False)"

definition rule_label :: "pdict \<Rightarrow> string" where
  "rule_label rule = text_or (py_or (pget rule ''name'') (pget rule ''id'')) ''Regola''"

definition muted_decision :: "'a ip_lib \<Rightarrow> pdict \<Rightarrow> pdict \<Rightarrow> features \<Rightarrow> pdict \<Rightarrow> pdict" where
  "muted_decision ips stream settings f rule =
     guard_decision (if rule_waits rule f then ''paused'' else ''excluded'')
       (if rule_waits rule f then ''In pausa'' else rule_exclusion_reason ips rule f) ''muted'' False
       stream (rule_settings settings rule) (f_height f) (f_tier f) (Some rule) [rule_label rule]"

definition matched_decision :: "pdict \<Rightarrow> pdict \<Rightarrow> features \<Rightarrow> pdict \<Rightarrow> pdict" where
  "matched_decision stream settings f rule =
     (case rule_matches rule f of
        Inr (_, category, label, severity) \<Rightarrow>
          guard_decision category label severity True stream (rule_settings settings rule)
            (f_height f) (f_tier f) (Some rule) [rule_label rule]
      | Inl _ \<Rightarrow> [])"

lemma no_continue: "has_key ''_continue'' (guard_decision c r s e st se h t ru p) = False"
  by (simp add: guard_decision_def Let_def)

lemma dset_new: "k \<notin> fst ` set d \<Longrightarrow> dset k v d = d @ [(k, v)]"
  by (induction d) (auto simp: dset_def)

lemma continue_flag:
  "dpop ''_continue'' (guard_decision c r s e st se h t ru p) = guard_decision c r s e st se h t ru p"
  "dget_default (guard_decision c r s e st se h t ru p) ''_continue'' (PBool False) = PBool False"
  "dpop ''_continue'' (dset ''_continue'' v (guard_decision c r s e st se h t ru p))
     = guard_decision c r s e st se h t ru p"
proof -
  let ?d = "guard_decision c r s e st se h t ru p"
  have absent: "''_continue'' \<notin> fst ` set ?d" "map_of ?d ''_continue'' = None"
    using no_continue [of c r s e st se h t ru p] by (auto simp: has_key_def map_of_eq_None_iff)
  show "dpop ''_continue'' ?d = ?d" using absent by (simp add: dpop_def delete_id)
  show "dget_default ?d ''_continue'' (PBool False) = PBool False" using absent by (simp add: dget_default_def)
  have "dset ''_continue'' v ?d = ?d @ [(''_continue'', v)]" by (rule dset_new [OF absent(1)])
  then show "dpop ''_continue'' (dset ''_continue'' v ?d) = ?d"
    using absent(1) by (auto simp: dpop_def AList.delete_eq filter_id_conv image_iff)
qed

lemma rule_ok_matches: "rule_ok rule \<Longrightarrow> \<exists>m c l s. rule_matches rule f = Inr (m, c, l, s)"
proof -
  assume "rule_ok rule"
  then have "has_height (pget rule ''min_source_height'')" by (simp add: rule_ok_def)
  then obtain h where "pget rule ''min_source_height'' = PInt h" by (auto simp: has_height_def split: py.splits)
  then have "\<exists>t. py_int (py_or (pget rule ''min_source_height'') (PInt 0)) = Inr t" by (simp add: py_or_def)
  then obtain t where t: "py_int (py_or (pget rule ''min_source_height'') (PInt 0)) = Inr t" by blast
  have "\<not> isl (rule_matches rule f)"
    unfolding rule_matches_def Let_def t result_bind.simps
    by (cases "f_tier f") (simp_all only: option.case if_distrib [of isl] sum.disc if_cancel not_False_eq_True)
  then show ?thesis by (cases "rule_matches rule f") auto
qed

lemma evaluate_rule_outcome:
  assumes "rule_ok rule"
  shows "evaluate_rule ips rule stream settings f [] = Inr
    (if rule_mutes ips f rule then Some (dset ''_continue'' (PBool True) (muted_decision ips stream settings f rule))
     else if rule_decides ips f rule then Some (matched_decision stream settings f rule)
     else None)"
proof -
  obtain m c l s where "rule_matches rule f = Inr (m, c, l, s)" using rule_ok_matches [OF assms] by blast
  then show ?thesis
    by (simp add: evaluate_rule_def rule_mutes_def rule_decides_def rule_enabled_def rule_waits_def Let_def
        muted_decision_def matched_decision_def rule_label_def rule_enforces_def)
qed

lemma evaluate_rule_list_outcome:
  "list_all rule_ok rules \<Longrightarrow> evaluate_rule_list ips stream settings f skipped rules = Inr
    (case find (rule_decides ips f) rules of
       Some r \<Rightarrow> Some (matched_decision stream settings f r)
     | None \<Rightarrow>
         (case find (rule_mutes ips f) (rev rules) of
            Some r \<Rightarrow> Some (muted_decision ips stream settings f r)
          | None \<Rightarrow> skipped))"
proof (induction rules arbitrary: skipped)
  case (Cons rule rules)
  have m: "truthy (dget_default (dset ''_continue'' (PBool True) d) ''_continue'' (PBool False))" for d
    by simp
  have muted: "dpop ''_continue'' (dset ''_continue'' (PBool True) (muted_decision ips stream settings f rule))
      = muted_decision ips stream settings f rule"
    by (simp add: muted_decision_def continue_flag)
  obtain b c l s where rm: "rule_matches rule f = Inr (b, c, l, s)" using rule_ok_matches Cons.prems by fastforce
  have matched: "dpop ''_continue'' (matched_decision stream settings f rule) = matched_decision stream settings f rule"
    "\<not> truthy (dget_default (matched_decision stream settings f rule) ''_continue'' (PBool False))"
    by (simp_all add: matched_decision_def rm continue_flag)
  have excl: "\<not> (rule_mutes ips f rule \<and> rule_decides ips f rule)"
    by (auto simp: rule_mutes_def rule_decides_def)
  have snoc: "find P (xs @ [x]) = (case find P xs of Some y \<Rightarrow> Some y | None \<Rightarrow> if P x then Some x else None)"
    for P :: "pdict \<Rightarrow> bool" and xs x
    by (induction xs) auto
  show ?case
    using Cons excl
    by (auto simp: evaluate_rule_outcome m muted matched snoc split: option.split)
qed simp

lemma classify_outcome:
  assumes "normalize_guard_settings (PDict settings) = Inr s" "stream_features stream = Inr f"
    and "pget s ''rules'' = PList (map PDict rules)"
  shows "classify_stream ips stream settings = Inr
    (case find (rule_decides ips f) rules of
       Some r \<Rightarrow> matched_decision stream s f r
     | None \<Rightarrow>
         (case find (rule_mutes ips f) (rev rules) of
            Some r \<Rightarrow> muted_decision ips stream s f r
          | None \<Rightarrow> fallback_decision stream s f))"
proof -
  obtain rs where "pget s ''rules'' = PList (map PDict rs)" "list_all rule_ok rs"
    using normalized_settings [OF assms(1)] by blast
  moreover from this(1) assms(3) have "rs = rules" by (simp add: inj_map_eq_map inj_def)
  ultimately have ok: "list_all rule_ok rules" by simp
  have "dicts_of (map PDict rules) = rules" by (induction rules) (simp_all add: dicts_of_def)
  then have "evaluate_rules ips stream s f = evaluate_rule_list ips stream s f None rules"
    by (simp add: evaluate_rules_def assms(3))
  then show ?thesis
    by (simp add: classify_stream_def assms(1,2) evaluate_rule_list_outcome [OF ok] split: option.split)
qed

text \<open>
  The first rule that decides a stream settles it; when none decides, the last rule that mutes
  it (a pause the rule ignores, an excluded user, client, device or address) does, and only when
  no rule says anything the fallback answers.
\<close>

theorem classify_first_deciding_rule:
  assumes "normalize_guard_settings (PDict settings) = Inr s" "stream_features stream = Inr f"
    and "pget s ''rules'' = PList (map PDict rules)"
  shows "classify_stream ips stream settings = Inr
    (case find (rule_decides ips f) rules of
       Some r \<Rightarrow> matched_decision stream s f r
     | None \<Rightarrow>
         (case find (rule_mutes ips f) (rev rules) of
            Some r \<Rightarrow> muted_decision ips stream s f r
          | None \<Rightarrow> fallback_decision stream s f))"
  by (rule classify_outcome [OF assms])

definition no_ips :: "unit ip_lib" where
  "no_ips = \<lparr>ip_parse = (\<lambda>_. None), net_has = (\<lambda>_ _. None)\<rparr>"

definition sample_rule :: pdict where
  "sample_rule = dset ''server_ids'' (PList [PStr ''s'']) default_guard_rule"

definition sample_settings :: pdict where
  "sample_settings = [(''rules'', PList [PDict sample_rule])]"

definition sample_stream :: pdict where
  "sample_stream = [(''server_id'', PStr ''s''), (''session_id'', PStr ''7''), (''video_mode'', PStr ''transcode''),
     (''audio_mode'', PStr ''direct''), (''video_height'', PInt 2160)]"

lemma sample_normalized:
  "normalize_guard_settings (PDict sample_settings) = Inr (complete_settings sample_settings 5 0 [sample_rule])"
proof -
  have ok: "rule_ok sample_rule" by code_simp
  have leaf: "group_children sample_rule = None" by code_simp
  obtain n where n: "node_text_bytes sample_rule = Inr n" "n \<le> 1000"
  proof -
    have "case node_text_bytes sample_rule of Inr n \<Rightarrow> n \<le> 1000 | Inl _ \<Rightarrow> False" by code_simp
    then show ?thesis using that by (auto split: sum.splits)
  qed
  have "node_text_bytes sample_settings = Inr 0"
    by (simp add: sample_settings_def node_text_bytes_def short_text_fields_def scope_fields_def text_bytes_def
        sequence_text_bytes_def Let_def)
  then have "validate_guard_payload (PDict sample_settings) = Inr ()"
    using n leaf
    by (simp add: validate_guard_payload_def sample_settings_def dicts_of_def max_rules_def max_rule_depth_def
        max_text_bytes_def)
  moreover have "settings_rules sample_settings = Inr [sample_rule]"
    using normalize_rule_entries_fixed [OF ok] by (simp add: settings_rules_def sample_settings_def)
  ultimately show ?thesis
    unfolding normalize_guard_settings_Inr by (simp add: bounded_int_def) (simp add: sample_settings_def)
qed

lemma sample_decided:
  "case stream_features sample_stream of Inr f \<Rightarrow> rule_decides no_ips f sample_rule \<and>
     rule_matches sample_rule f = Inr (True, ''video_transcode'', ''Transcodifica video'', ''danger'') | Inl _ \<Rightarrow> False"
  by code_simp

theorem classify_first_deciding_rule_witness:
  "\<exists>d. classify_stream no_ips sample_stream sample_settings = Inr d \<and>
     pget d ''category'' = PStr ''video_transcode'' \<and> pget d ''should_enforce'' = PBool True"
proof -
  obtain f where f: "stream_features sample_stream = Inr f" "rule_decides no_ips f sample_rule"
    "rule_matches sample_rule f = Inr (True, ''video_transcode'', ''Transcodifica video'', ''danger'')"
    using sample_decided by (auto split: sum.splits)
  have "pget (complete_settings sample_settings 5 0 [sample_rule]) ''rules'' = PList (map PDict [sample_rule])"
    unfolding pget_complete_settings by (simp add: settings_keys_apart)
  from classify_first_deciding_rule [OF sample_normalized f(1) this, of no_ips] f(2,3) show ?thesis
    by (simp add: matched_decision_def guard_decision_def Let_def)
qed

text \<open>
  A stream is enforced only for cause: by an enabled rule selected for its server that it
  matches, that excludes neither its user, client, device nor address and does not wait for a
  pause, or, when no rule mutes or decides it, because its audio transcoding or its remux is
  disallowed while the video plays directly.
\<close>

theorem enforcement_sound:
  assumes "classify_stream ips stream settings = Inr d" "pget d ''should_enforce'' = PBool True"
  shows "\<exists>s f rules. normalize_guard_settings (PDict settings) = Inr s \<and> stream_features stream = Inr f \<and>
    pget s ''rules'' = PList (map PDict rules) \<and>
    (list_ex (\<lambda>r. rule_decides ips f r \<and> pget d ''rule_id'' = pget r ''id'') rules \<or>
     (list_all (\<lambda>r. \<not> rule_decides ips f r \<and> \<not> rule_mutes ips f r) rules \<and>
      f_video_direct f \<and>
      (if f_audio_direct f
       then f_remux f \<and> \<not> truthy (effective_setting s ''allow_container_remux'' (PBool True))
       else \<not> truthy (effective_setting s ''allow_audio_only_transcode'' (PBool True)))))"
proof -
  obtain s f where s: "normalize_guard_settings (PDict settings) = Inr s" and f: "stream_features stream = Inr f"
    using assms(1) by (auto simp: classify_stream_def result_bind_Inr_iff)
  obtain rules where rules: "pget s ''rules'' = PList (map PDict rules)" "list_all rule_ok rules"
    using normalized_settings [OF s] by blast
  have none: "list_all (\<lambda>r. \<not> P r) xs" if "find P xs = None" for P :: "pdict \<Rightarrow> bool" and xs
    using that by (simp add: find_None_iff list_all_iff)
  consider (decides) r where "find (rule_decides ips f) rules = Some r" "d = matched_decision stream s f r"
    | (mutes) r where "d = muted_decision ips stream s f r"
    | (fallback) "find (rule_decides ips f) rules = None" "find (rule_mutes ips f) (rev rules) = None"
        "d = fallback_decision stream s f"
    using classify_outcome [OF s f rules(1), of ips] assms(1) by (auto split: option.splits)
  then show ?thesis
  proof cases
    case decides
    then have r: "r \<in> set rules" "rule_decides ips f r" by (auto simp: find_Some_iff)
    obtain m c l v where m: "rule_matches r f = Inr (m, c, l, v)"
      using rule_ok_matches rules(2) r(1) by (metis list_all_iff)
    have "has_clean_id (pget r ''id'')" using rules(2) r(1) by (auto simp: list_all_iff rule_ok_def)
    then have "pget d ''rule_id'' = pget r ''id''"
      unfolding decides(2) by (auto simp: matched_decision_def m guard_decision_def Let_def has_clean_id_def split: py.splits)
    with s f rules(1) r show ?thesis by (auto simp: list_ex_iff)
  next
    case mutes
    with assms(2) show ?thesis by (simp add: muted_decision_def guard_decision_def Let_def)
  next
    case fallback
    have "list_all (\<lambda>r. \<not> rule_decides ips f r \<and> \<not> rule_mutes ips f r) rules"
      using none [OF fallback(1)] none [OF fallback(2)] by (simp add: list_all_iff)
    moreover have "f_video_direct f \<and>
      (if f_audio_direct f
       then f_remux f \<and> \<not> truthy (effective_setting s ''allow_container_remux'' (PBool True))
       else \<not> truthy (effective_setting s ''allow_audio_only_transcode'' (PBool True)))"
      using assms(2) unfolding fallback(3) fallback_decision_def
      by (simp add: guard_decision_def Let_def split: if_splits)
    ultimately show ?thesis using s f rules(1) by blast
  qed
qed

theorem enforcement_sound_witness:
  "\<exists>d s f. classify_stream no_ips sample_stream sample_settings = Inr d \<and>
     normalize_guard_settings (PDict sample_settings) = Inr s \<and> stream_features sample_stream = Inr f \<and>
     pget d ''should_enforce'' = PBool True"
proof -
  obtain f where f: "stream_features sample_stream = Inr f" "rule_decides no_ips f sample_rule"
    "rule_matches sample_rule f = Inr (True, ''video_transcode'', ''Transcodifica video'', ''danger'')"
    using sample_decided by (auto split: sum.splits)
  have "pget (complete_settings sample_settings 5 0 [sample_rule]) ''rules'' = PList (map PDict [sample_rule])"
    unfolding pget_complete_settings by (simp add: settings_keys_apart)
  from classify_outcome [OF sample_normalized f(1) this, of no_ips] f(2,3)
  obtain d where d: "classify_stream no_ips sample_stream sample_settings = Inr d" "pget d ''should_enforce'' = PBool True"
    by (simp add: matched_decision_def guard_decision_def Let_def)
  from enforcement_sound [OF d] d show ?thesis by blast
qed

end
