(* ===== verification/Guard_Streams.thy ===== *)
theory Guard_Streams
  imports Guard_Values Py_Time
begin

text \<open>
  Stream semantics of the Transcode Guard (\<open>emby_runtime/transcode_guard_streams.py\<close> and
  \<open>transcode_guard_events.py\<close>): the keys that identify a playback across sessions, the tags and
  violations of a stream, the actions of a history row, and the comparison of a stream with what
  was seen before.  Rows, streams and decisions are dictionaries.  \<open>fl\<close> writes a float (its value
  with its \<open>repr\<close>); float arithmetic is exact on rationals.  A height or a count that is an
  infinite float, whose conversion raises, is read as absent here: classification has already
  refused such a stream.
\<close>

subsection \<open>Numbers\<close>

definition stream_height :: "pdict \<Rightarrow> int option" where
  "stream_height d = (case extract_video_height d of Inr h \<Rightarrow> h | Inl _ \<Rightarrow> None)"

definition to_int :: "py \<Rightarrow> int \<Rightarrow> int" where
  "to_int v fallback = (case try_int v of Inr (Some i) \<Rightarrow> i | _ \<Rightarrow> fallback)"

definition to_int_or_none :: "py \<Rightarrow> int option" where
  "to_int_or_none v = (case try_int v of Inr (Some i) \<Rightarrow> if 0 < i then Some i else None | _ \<Rightarrow> None)"

definition py_round_to :: "rat \<Rightarrow> nat \<Rightarrow> rat" where
  "py_round_to q n = of_int (py_round (q * 10 ^ n)) / 10 ^ n"

definition ticks_to_seconds :: "py \<Rightarrow> rat option" where
  "ticks_to_seconds v =
     (case try_int v of
        Inr (Some ticks) \<Rightarrow> if ticks \<le> 0 then None else Some (py_round_to (of_int ticks / 10000000) 3)
      | _ \<Rightarrow> None)"

definition parse_guard_datetime :: "py \<Rightarrow> exn + int option" where
  "parse_guard_datetime v =
     (case v of
        PStr s \<Rightarrow>
          (let text = strip s;
               text = (if length text = 10 \<and> length (filter (\<lambda>c. c = CHR ''-'') text) = 2
                       then text @ ''T00:00:00'' else text)
           in if text = [] then Inr None else parse_utc (replace_char (CHR ''Z'') ''+00:00'' text))
      | _ \<Rightarrow> Inr None)"

subsection \<open>Lists of texts\<close>

definition unique_ordered :: "string list \<Rightarrow> string list" where
  "unique_ordered values = foldl add_text [] (map strip values)"

definition normalize_reason_list :: "py \<Rightarrow> string list" where
  "normalize_reason_list v =
     unique_ordered (map strip
       (case v of
          PNone \<Rightarrow> []
        | PStr s \<Rightarrow> if CHR '','' \<notin> set s then [s] else split_char (CHR '','') s
        | PList xs \<Rightarrow> map text_or_empty xs
        | _ \<Rightarrow> [text_or_empty v]))"

subsection \<open>Identity of a playback\<close>

definition slug_part :: "py \<Rightarrow> string" where
  "slug_part v = replace_char (CHR '':'') '' '' (replace_char (CHR ''|'') '' '' (lower (strip (text_or_empty v))))"

text \<open>\<open>now\<close> is \<open>time.time()\<close>.\<close>

definition make_event_id :: "py \<Rightarrow> py \<Rightarrow> rat \<Rightarrow> string" where
  "make_event_id server_id session_id now =
     slug_part (py_or server_id (PStr ''server'')) @ '':'' @ slug_part (py_or session_id (PStr ''session''))
       @ '':'' @ str_int (py_trunc (now * 1000))"

definition content_key :: "pdict \<Rightarrow> string" where
  "content_key d =
     (let media_type = lower (strip (text_or_empty (pget d ''media_type'')));
          series = strip (text_or_empty (pget d ''series_name''));
          season = pget d ''season_number'';
          episode = pget d ''episode_number'';
          item_id = strip (text_or_empty (pget d ''item_id''));
          title = strip (text_or_empty (pget d ''title''));
          year = strip (text_or_empty (pget d ''year''))
      in if (media_type = ''episode'' \<or> series \<noteq> []) \<and> season \<noteq> PNone \<and> episode \<noteq> PNone
         then ''episode:'' @ join ''|''
           [slug_part (py_or (PStr series) (py_or (pget d ''title'') (PStr ''series''))),
            slug_part season, slug_part episode]
         else if item_id \<noteq> [] then ''item:'' @ item_id
         else if title = [] then []
         else ''title:'' @ join ''|'' [slug_part (PStr title), slug_part (PStr year)])"

definition playback_key :: "string \<Rightarrow> pdict \<Rightarrow> string" where
  "playback_key server_id d =
     (let user = slug_part (py_or (pget d ''user'') (PStr ''user''));
          device = slug_part (py_or (pget d ''device_id'') (py_or (pget d ''device'')
            (py_or (pget d ''client'') (PStr ''device''))));
          content = content_key d
      in if content = [] then [] else join ''|'' [server_id, user, device, content])"

definition server_label :: "pdict \<Rightarrow> string" where
  "server_label server =
     (let a = strip (text_or_empty (pget server ''alias''));
          orig = strip (text_or_empty (pget server ''original_name''));
          n = strip (text_or_empty (pget server ''name''));
          i = strip (text_or_empty (pget server ''id''))
      in if a \<noteq> [] then a else if orig \<noteq> [] then orig else if n \<noteq> [] then n else if i \<noteq> [] then i
         else ''Server Emby'')"

subsection \<open>Actions\<close>

definition action_labels :: "(string, string) dict" where
  "action_labels =
    [(''play'', ''riproduzione''), (''time_update'', ''aggiornamento posizione''), (''warn'', ''avviso''),
     (''warning_error'', ''errore avviso''), (''stop'', ''stop''), (''pause'', ''pausa''), (''unpause'', ''ripresa''),
     (''volume_change'', ''cambio volume''), (''repeat_mode_change'', ''cambio ripetizione''),
     (''resolved'', ''risolto''), (''partial_resolved'', ''Risolto Parz.''), (''resolution_change'', ''Cambio Ris.''),
     (''quality_change'', ''cambio qualit'' @ [CHR 0xE0]), (''audio_change'', ''cambio audio''),
     (''subtitle_change'', ''cambio sottotitoli''), (''playlist_item_move'', ''playlist: spostamento''),
     (''playlist_item_remove'', ''playlist: rimozione''), (''playlist_item_add'', ''playlist: aggiunta''),
     (''state_change'', ''cambio stato''), (''subtitle_offset_change'', ''cambio offset sottotitoli''),
     (''playback_rate_change'', ''cambio velocit'' @ [CHR 0xE0]), (''shuffle_change'', ''cambio shuffle''),
     (''sleep_timer_change'', ''cambio sleep timer''), (''player_event'', ''evento player''), (''exit'', ''uscito''),
     (''resolved_later'', ''risolto in seguito''), (''relapse'', ''ricaduta'')]"

definition action_name :: "pdict \<Rightarrow> string" where
  "action_name action = text_or_empty (pget action ''action'')"

definition stream_action_tags :: "pdict option \<Rightarrow> string list" where
  "stream_action_tags action =
     (case action of
        None \<Rightarrow> []
      | Some a \<Rightarrow> (let label = dget_default action_labels (action_name a) (action_name a)
                  in if label \<noteq> [] then [label] else []))"

definition add_label :: "string list \<Rightarrow> pdict \<Rightarrow> string list" where
  "add_label labels action =
     (let k = action_name action;
          label = dget_default action_labels k (if k \<noteq> [] then k else ''evento'')
      in if label \<noteq> [] \<and> (labels = [] \<or> last labels \<noteq> label) then labels @ [label] else labels)"

definition action_label :: "pdict list \<Rightarrow> string" where
  "action_label actions = join '' - '' (foldl add_label [] actions)"

text \<open>The actions of a row: \<open>row.get("actions")\<close> when it is a list.\<close>

definition row_actions :: "pdict \<Rightarrow> py list" where
  "row_actions row = (case pget row ''actions'' of PList xs \<Rightarrow> xs | _ \<Rightarrow> [])"

definition last_action_entry :: "pdict \<Rightarrow> pdict option" where
  "last_action_entry row =
     (case rev (row_actions row) of PDict a # _ \<Rightarrow> Some a | _ \<Rightarrow> None)"

definition last_action :: "pdict \<Rightarrow> string" where
  "last_action row =
     (case last_action_entry row of Some a \<Rightarrow> action_name a | None \<Rightarrow> text_or_empty (pget row ''action''))"

definition is_player_playback_action :: "pdict \<Rightarrow> bool" where
  "is_player_playback_action action =
     (lower (strip (text_or (pget action ''source'') ''guard'')) \<in> {''player'', ''plugin'', ''proxy''})"

definition is_terminal_action :: "pdict option \<Rightarrow> bool" where
  "is_terminal_action action =
     (case action of
        None \<Rightarrow> False
      | Some a \<Rightarrow> action_name a \<in> {''exit'', ''stop''} \<or>
          (action_name a = ''pause'' \<and> \<not> is_player_playback_action a))"

text \<open>The loop over \<open>reversed(actions[:-1])\<close>: the last action that is not terminal.\<close>

fun open_before :: "py list \<Rightarrow> bool" where
  "open_before [] = False"
| "open_before (PDict a # as) =
     (if is_terminal_action (Some a) then open_before as
      else action_name a \<in> {''warn'', ''warning_error'', ''relapse'', ''partial_resolved''})"
| "open_before (_ # as) = open_before as"

definition terminal_row_has_open_problem :: "pdict \<Rightarrow> bool" where
  "terminal_row_has_open_problem row =
     (case last_action_entry row of
        None \<Rightarrow> False
      | Some a \<Rightarrow>
          if \<not> is_terminal_action (Some a) then False
          else if action_name a = ''stop'' then True
          else open_before (rev (butlast (row_actions row))))"

definition append_stream_action :: "pdict \<Rightarrow> pdict \<Rightarrow> pdict" where
  "append_stream_action row entry =
     (let actions = row_actions row;
          joined = (case rev actions of
            PDict a # before \<Rightarrow>
              (if pget a ''action'' = PStr (action_name entry)
               then rev before @ [PDict (dupdate a entry)]
               else actions @ [PDict entry])
          | _ \<Rightarrow> actions @ [PDict entry])
      in dset ''actions'' (PList joined) row)"

subsection \<open>Tags of a stream\<close>

definition looks_like_browser_playback :: "pdict \<Rightarrow> bool" where
  "looks_like_browser_playback d =
     contains_any [''web'', ''browser'', ''chrome'', ''safari'', ''firefox'', ''edge'']
       (lower (text_or_empty (pget d ''client'')))"

definition stream_technical_violations :: "pdict \<Rightarrow> pdict \<Rightarrow> string list" where
  "stream_technical_violations d decision =
     (let category = text_or_empty (pget decision ''category'');
          video_mode = lower (strip (text_or_empty (pget d ''video_mode'')));
          audio_mode = lower (strip (text_or_empty (pget d ''audio_mode'')));
          reasons = normalize_reason_list (py_or (pget d ''transcode_reasons'') (pget d ''reasons''))
      in unique_ordered
        ((if category \<in> {''video_transcode'', ''video_audio_transcode'', ''subtitle_burnin''}
             \<or> video_mode \<in> {''transcodifica'', ''transcode''} then [''video_transcode''] else []) @
         (if category \<in> {''audio_transcode'', ''video_audio_transcode''}
             \<or> audio_mode \<in> {''transcodifica'', ''transcode''} then [''audio_transcode''] else []) @
         (if category = ''subtitle_burnin'' \<or> has_subtitle_burn_reason reasons then [''subtitle_burnin''] else []) @
         (if category = ''remux'' then [''remux''] else []) @
         (if category = ''browser_playback'' \<or> looks_like_browser_playback d then [''browser_playback''] else []) @
         (if category = ''unknown'' then [''unknown_height''] else [])))"

definition stream_observation_tags :: "pdict \<Rightarrow> pdict \<Rightarrow> string list" where
  "stream_observation_tags d decision =
     (let category = text_or_empty (pget decision ''category'');
          technical = stream_technical_violations d decision;
          enforce = truthy (pget decision ''should_enforce'')
      in unique_ordered
        ((if category \<in> {''container_remux'', ''remux''} \<and> technical = []
          then [''container remux'', ''direct stream''] @ (if \<not> enforce then [''corretta''] else [])
          else if category = ''direct'' \<and> technical = [] \<and> \<not> enforce then [''corretta'', ''direct play'']
          else []) @
         (if ''video_transcode'' \<in> set technical then [''transcode video''] else []) @
         (if ''audio_transcode'' \<in> set technical then [''transcode audio''] else []) @
         (if ''subtitle_burnin'' \<in> set technical then [''sottotitoli burn-in''] else []) @
         (if ''remux'' \<in> set technical then [''remux''] else []) @
         (if ''browser_playback'' \<in> set technical then [''browser''] else []) @
         (if category = ''unknown'' then [''metadati incompleti''] else []) @
         (if truthy (py_or (pget d ''paused'') (pget d ''is_paused'')) then [''pausa''] else []) @
         (if enforce then [''violazione''] else if technical \<noteq> [] then [''non monitorata''] else [])))"

definition py_texts :: "py \<Rightarrow> string list" where
  "py_texts v = (case v of PList xs \<Rightarrow> map text_or_empty xs | _ \<Rightarrow> [])"

definition stream_row_is_correct :: "pdict \<Rightarrow> bool" where
  "stream_row_is_correct row \<longleftrightarrow>
     ''corretta'' \<in> set (py_texts (pget row ''tags'')) \<and> \<not> truthy (pget row ''violations_committed'')"

subsection \<open>Fields of a history row\<close>

text \<open>
  \<open>_stream_identity_fields\<close>: what a stream says about itself, written into its history row on
  every observation.
\<close>

definition playback_percent :: "rat option \<Rightarrow> rat option \<Rightarrow> rat option" where
  "playback_percent position duration =
     (case (position, duration) of
        (Some p, Some d) \<Rightarrow>
          if d \<noteq> 0 then Some (py_round_to (min 100 (max 0 (p / d * 100))) 2) else None
      | _ \<Rightarrow> None)"

definition opt_float :: "(rat \<Rightarrow> py) \<Rightarrow> rat option \<Rightarrow> py" where
  "opt_float fl q = (case q of None \<Rightarrow> PNone | Some x \<Rightarrow> fl x)"

definition opt_height :: "int option \<Rightarrow> py" where
  "opt_height h = (case h of None \<Rightarrow> PNone | Some i \<Rightarrow> PInt i)"

definition or_blank :: "pdict \<Rightarrow> string \<Rightarrow> py" where
  "or_blank d k = py_or (pget d k) (PStr [])"

definition source_height_of :: "pdict \<Rightarrow> pdict \<Rightarrow> py" where
  "source_height_of decision d = py_or (pget decision ''source_height'') (opt_height (stream_height d))"

definition stream_identity_fields :: "(rat \<Rightarrow> py) \<Rightarrow> pdict \<Rightarrow> pdict \<Rightarrow> pdict \<Rightarrow> pdict" where
  "stream_identity_fields fl server d decision =
     (let server_id = text_or_empty (py_or (pget server ''id'') (pget d ''server_id''));
          session_id = text_or_empty (pget d ''session_id'');
          position = ticks_to_seconds (py_or (pget d ''position_ticks'') (pget d ''playback_position_ticks''));
          duration = ticks_to_seconds (py_or (pget d ''runtime_ticks'') (pget d ''duration_ticks''));
          source_height = source_height_of decision d
      in [(''server_id'', PStr server_id),
          (''server_name'', PStr (server_label server)),
          (''session_id'', PStr session_id),
          (''session_key'',
             PStr (if session_id = [] then []
                   else text_or (pget d ''session_key'') (server_id @ '':'' @ session_id))),
          (''play_session_id'', or_blank d ''play_session_id''),
          (''media_source_id'', or_blank d ''media_source_id''),
          (''audio_stream_index'', pget d ''audio_stream_index''),
          (''subtitle_stream_index'', pget d ''subtitle_stream_index''),
          (''media_source_id_known'', PBool (strip (text_or_empty (pget d ''media_source_id'')) \<noteq> [])),
          (''audio_stream_index_known'', PBool (has_key ''audio_stream_index'' d)),
          (''subtitle_stream_index_known'', PBool (has_key ''subtitle_stream_index'' d)),
          (''video_height_known'', PBool (stream_height d \<noteq> None)),
          (''playback_event_name'', or_blank d ''playback_event_name''),
          (''item_id'', or_blank d ''item_id''),
          (''title'', py_or (pget d ''title'') (PStr ''Stream'')),
          (''user'', or_blank d ''user''),
          (''client'', or_blank d ''client''),
          (''device'', or_blank d ''device''),
          (''device_id'', or_blank d ''device_id''),
          (''ip'', py_or (pget d ''ip'') (or_blank d ''remote_address'')),
          (''media_type'', or_blank d ''media_type''),
          (''series_name'', or_blank d ''series_name''),
          (''season_number'', pget d ''season_number''),
          (''episode_number'', pget d ''episode_number''),
          (''year'', or_blank d ''year''),
          (''source_height'', source_height),
          (''video_height'', opt_height (stream_height d)),
          (''video_width'', opt_height (to_int_or_none (py_or (pget d ''video_width'') (pget d ''width'')))),
          (''source_quality_tier'', or_blank decision ''source_quality_tier''),
          (''quality'', PStr (if truthy source_height then py_str source_height @ ''p'' else [])),
          (''video_mode'', or_blank d ''video_mode''),
          (''audio_mode'', or_blank d ''audio_mode''),
          (''play_method'', or_blank d ''play_method''),
          (''container'', or_blank d ''container''),
          (''stream_container'', or_blank d ''stream_container''),
          (''transcode_container'', or_blank d ''transcode_container''),
          (''video_codec'', or_blank d ''video_codec''),
          (''audio_codec'', or_blank d ''audio_codec''),
          (''video_label'', or_blank d ''video_label''),
          (''audio_label'', or_blank d ''audio_label''),
          (''bitrate'', py_or (pget d ''bitrate'') (or_blank d ''media_bitrate'')),
          (''transcode_bitrate'', or_blank d ''transcode_bitrate''),
          (''position_seconds'', opt_float fl position),
          (''duration_seconds'', opt_float fl duration),
          (''playback_percent'', opt_float fl (playback_percent position duration)),
          (''paused'', PBool (truthy (py_or (pget d ''paused'') (pget d ''is_paused'')))),
          (''transcode_reasons'', texts (normalize_reason_list (py_or (pget d ''transcode_reasons'') (pget d ''reasons''))))])"

subsection \<open>Comparing with what was seen before\<close>

definition same_source_resolution :: "pdict \<Rightarrow> pdict \<Rightarrow> bool" where
  "same_source_resolution previous current =
     (case (stream_height previous, stream_height current) of
        (Some p, Some c) \<Rightarrow> \<bar>p - c\<bar> \<le> 80
      | _ \<Rightarrow> True)"

definition resolved_action_for_stream :: "pdict \<Rightarrow> pdict \<Rightarrow> string \<times> string" where
  "resolved_action_for_stream previous d =
     (if same_source_resolution previous d then (''resolved'', ''Risolta'')
      else (''resolution_change'', ''Cambio risoluzione''))"

definition later_success_action_for_stream :: "pdict \<Rightarrow> pdict \<Rightarrow> string \<times> string" where
  "later_success_action_for_stream previous d =
     (if same_source_resolution previous d then (''resolved_later'', ''Risolto in seguito'')
      else (''resolution_change'', ''Cambio risoluzione''))"

definition stream_value_changed :: "py \<Rightarrow> py \<Rightarrow> bool" where
  "stream_value_changed previous current =
     ((if previous = PNone then [] else py_str previous) \<noteq> (if current = PNone then [] else py_str current))"

definition observed_stream_change_actions :: "pdict \<Rightarrow> pdict \<Rightarrow> pdict \<Rightarrow> (string \<times> string) list" where
  "observed_stream_change_actions previous d decision =
     (let previous_source = strip (text_or_empty (pget previous ''media_source_id''));
          current_source = strip (text_or_empty (pget d ''media_source_id''));
          current_height = source_height_of decision d;
          source_changed = (truthy (pget previous ''media_source_id_known'') \<and> previous_source \<noteq> []
            \<and> current_source \<noteq> [] \<and> previous_source \<noteq> current_source);
          height_changed = (truthy (pget previous ''video_height_known'') \<and> stream_height previous \<noteq> None
            \<and> current_height \<noteq> PNone \<and> \<not> same_source_resolution previous [(''video_height'', current_height)]);
          index_changed = (\<lambda>k. truthy (pget previous (k @ ''_known'')) \<and> has_key k d
            \<and> stream_value_changed (pget previous k) (pget d k))
      in (if source_changed \<or> height_changed then [(''quality_change'', ''Cambio qualit'' @ [CHR 0xE0])] else []) @
         (if index_changed ''audio_stream_index'' then [(''audio_change'', ''Cambio audio'')] else []) @
         (if index_changed ''subtitle_stream_index'' then [(''subtitle_change'', ''Cambio sottotitoli'')] else []))"

definition duplicate_event_keys :: "string list" where
  "duplicate_event_keys = [''server_id'', ''session_id'', ''play_session_id'', ''media_source_id'', ''event_name'',
     ''message_type'', ''action'', ''audio_stream_index'', ''subtitle_stream_index'']"

definition is_duplicate_playback_event :: "pdict \<Rightarrow> pdict \<Rightarrow> exn + bool" where
  "is_duplicate_playback_event previous current =
     (if list_ex (\<lambda>k. text_or_empty (pget previous k) \<noteq> text_or_empty (pget current k)) duplicate_event_keys
      then Inr False
      else result_bind (parse_guard_datetime (pget previous ''at'')) (\<lambda>p.
           result_bind (parse_guard_datetime (pget current ''at'')) (\<lambda>c.
           case (p, c) of
             (Some x, Some y) \<Rightarrow> Inr (\<bar>y - x\<bar> \<le> 2 * 1000000)
           | _ \<Rightarrow> Inr True)))"

definition is_corrected_playback :: "pdict \<Rightarrow> bool" where
  "is_corrected_playback decision \<longleftrightarrow> \<not> truthy (pget decision ''should_enforce'') \<and>
     text_or_empty (pget decision ''category'') \<in> {''direct'', ''container_remux'', ''remux'', ''audio_transcode''}"

text \<open>The entries of \<open>check_once\<close>: the key of a violation, its stream and its decision.\<close>

definition matching_other_violation :: "(string \<times> pdict \<times> pdict) list \<Rightarrow> string \<Rightarrow> (string \<times> pdict \<times> pdict) option" where
  "matching_other_violation matches current_key = find (\<lambda>m. fst m \<noteq> current_key) matches"

definition matching_other_rule_violation ::
  "(string \<times> pdict \<times> pdict) option \<Rightarrow> string \<Rightarrow> (string \<times> pdict \<times> pdict) option" where
  "matching_other_rule_violation m current_rule_id =
     (case m of
        None \<Rightarrow> None
      | Some (k, d, decision) \<Rightarrow>
          if text_or_empty (pget decision ''rule_id'') = current_rule_id then None else Some (k, d, decision))"

end
