(* ===== verification/Guard_Rows.thy ===== *)
theory Guard_Rows
  imports Guard_Streams "HOL-Library.List_Lexorder" "HOL-Library.Char_ord"
begin

text \<open>
  The rows of the Transcode Guard logs as they are read from and written to the storage
  (\<open>emby_runtime/transcode_guard_rows.py\<close>): every load and every save normalises a log and sorts
  it, newest first.  \<open>ts\<close> is \<open>_utc_timestamp()\<close>, the text of the current instant.
\<close>

definition raw_rows :: "py \<Rightarrow> py list" where
  "raw_rows raw =
     (case raw of
        PList xs \<Rightarrow> xs
      | PDict d \<Rightarrow> (case pget d ''rows'' of PList xs \<Rightarrow> xs | _ \<Rightarrow> [])
      | _ \<Rightarrow> [])"

definition dict_rows :: "py list \<Rightarrow> pdict list" where
  "dict_rows vs = concat (map (\<lambda>v. case v of PDict d \<Rightarrow> [d] | _ \<Rightarrow> []) vs)"

definition default_true :: "pdict \<Rightarrow> string \<Rightarrow> bool" where
  "default_true d k = truthy (dget_default d k (PBool True))"

definition normal_action :: "py \<Rightarrow> pdict \<Rightarrow> pdict" where
  "normal_action stamp action =
     [(''action'', PStr (text_or (pget action ''action'') ''event'')),
      (''outcome'', PStr (text_or_empty (pget action ''outcome''))),
      (''success'', PBool (default_true action ''success'')),
      (''at'', PStr (text_or_empty (py_or (pget action ''at'') stamp))),
      (''source'', PStr (text_or (pget action ''source'') ''guard''))]"

subsection \<open>Events of the guard\<close>

text \<open>The actions of an event row, or the single action an older row stands for.\<close>

definition event_actions :: "string \<Rightarrow> pdict \<Rightarrow> py list" where
  "event_actions ts row =
     (case pget row ''actions'' of
        PList (a # as) \<Rightarrow> a # as
      | _ \<Rightarrow>
          [PDict [(''action'', PStr (text_or (pget row ''action'') ''event'')),
                  (''outcome'', or_blank row ''outcome''),
                  (''success'', PBool (default_true row ''success'')),
                  (''at'', py_or (pget row ''at'') (py_or (pget row ''started_at'') (PStr ts)))]])"

definition normal_event_row :: "string \<Rightarrow> pdict \<Rightarrow> pdict option" where
  "normal_event_row ts row =
     (let actions = map (normal_action (py_or (pget row ''updated_at'') (py_or (pget row ''at'') (PStr ts))))
            (dict_rows (event_actions ts row))
      in if actions = [] then None
         else
           let final = last actions;
               row1 = dset ''actions'' (PList (map PDict actions)) row;
               row2 = dset ''action'' (pget final ''action'') row1;
               row3 = dset ''outcome'' (pget final ''outcome'') row2;
               row4 = dset ''success'' (pget final ''success'') row3;
               started = PStr (text_or_empty (py_or (pget row4 ''started_at'') (pget (hd actions) ''at'')));
               row5 = dset ''at'' started (dset ''started_at'' started row4);
               row6 = dset ''updated_at''
                 (PStr (text_or_empty (py_or (pget row5 ''updated_at'') (pget final ''at'')))) row5;
               row7 = dset ''action_label'' (PStr (action_label actions)) row6
           in Some (dset ''id''
                (PStr (text_or (pget row7 ''id'')
                  (make_event_id (or_blank row7 ''server_id'') (or_blank row7 ''session_id'') 0))) row7))"

definition event_time :: "pdict \<Rightarrow> string" where
  "event_time row = text_or_empty (py_or (pget row ''updated_at'') (pget row ''at''))"

definition sort_event_rows :: "pdict list \<Rightarrow> pdict list" where
  "sort_event_rows rows = sort_desc event_time rows"

definition normalize_event_rows :: "string \<Rightarrow> py \<Rightarrow> pdict list" where
  "normalize_event_rows ts raw =
     sort_event_rows (List.map_filter (normal_event_row ts) (dict_rows (raw_rows raw)))"

subsection \<open>Streams\<close>

definition normal_stream_row :: "string \<Rightarrow> pdict \<Rightarrow> pdict" where
  "normal_stream_row ts row =
     (let text = (\<lambda>k d. dset k (PStr (text_or_empty (pget d k))) d);
          row1 = dset ''id''
            (PStr (text_or (pget row ''id'')
              (make_event_id (or_blank row ''server_id'') (or_blank row ''session_id'') 0))) row;
          row2 = text ''session_key'' (text ''session_id'' (text ''content_key'' (text ''playback_key''
            (text ''event_id'' row1))));
          row3 = dset ''started_at''
            (PStr (text_or_empty (py_or (pget row2 ''started_at'') (py_or (pget row2 ''updated_at'') (PStr ts))))) row2;
          row4 = dset ''updated_at''
            (PStr (text_or_empty (py_or (pget row3 ''updated_at'')
              (py_or (pget row3 ''last_seen_at'') (pget row3 ''started_at''))))) row3;
          row5 = dset ''last_seen_at''
            (PStr (text_or_empty (py_or (pget row4 ''last_seen_at'') (pget row4 ''updated_at'')))) row4;
          row6 = (if truthy (pget row5 ''ended_at'')
                  then dset ''ended_at'' (PStr (py_str (pget row5 ''ended_at''))) row5 else row5);
          row7 = dset ''tags'' (texts (unique_ordered (py_texts (pget row6 ''tags'')))) row6;
          row8 = dset ''violations_committed'' (texts (unique_ordered (py_texts (pget row7 ''violations_committed'')))) row7;
          row9 = dset ''transcode_reasons'' (texts (normalize_reason_list (pget row8 ''transcode_reasons''))) row8;
          actions = map (normal_action (pget row9 ''updated_at'')) (dict_rows (row_actions row9));
          row10 = dset ''actions'' (PList (map PDict actions)) row9;
          row11 = dset ''action_label''
            (PStr (if actions \<noteq> [] then action_label actions else text_or_empty (pget row10 ''action_label''))) row10;
          row12 = dset ''observations'' (PInt (max 0 (to_int (pget row11 ''observations'') 0))) row11
      in dset ''violation_count'' (PInt (max 0 (to_int (pget row12 ''violation_count'') 0))) row12)"

definition stream_time :: "pdict \<Rightarrow> string" where
  "stream_time row =
     text_or_empty (py_or (pget row ''updated_at'') (py_or (pget row ''last_seen_at'') (pget row ''started_at'')))"

definition sort_stream_rows :: "pdict list \<Rightarrow> pdict list" where
  "sort_stream_rows rows = sort_desc stream_time rows"

definition normalize_stream_rows :: "string \<Rightarrow> py \<Rightarrow> pdict list" where
  "normalize_stream_rows ts raw = sort_stream_rows (map (normal_stream_row ts) (dict_rows (raw_rows raw)))"

subsection \<open>Playback events\<close>

definition plugin_aliases :: "string list" where
  "plugin_aliases = [''plugin'', ''emby_plugin'', ''octohubs_plugin'', ''octohubs_event_bridge'',
     ''octohubs.eventbridge'', ''event_bridge'']"

definition proxy_aliases :: "string list" where
  "proxy_aliases = [''proxy'', ''reverse_proxy'', ''octohubs_proxy'']"

definition normalize_playback_event_source :: "py \<Rightarrow> string" where
  "normalize_playback_event_source source =
     (let value = lower (strip (text_or source ''player''))
      in if value \<in> set plugin_aliases then ''plugin''
         else if value \<in> set proxy_aliases then ''proxy''
         else if value \<in> {''player'', ''websocket'', ''emby_websocket''} then ''player''
         else value)"

definition normalize_playback_event_transport :: "py \<Rightarrow> string" where
  "normalize_playback_event_transport transport =
     (let value = lower (strip (text_or_empty transport))
      in if value \<in> {''websocket'', ''ws''} then ''websocket''
         else if value \<in> {''http'', ''http_fallback'', ''fallback_http''} then ''http_fallback''
         else [])"

text \<open>\<open>bounded_event_bridge_text\<close>, from \<open>event_bridge_limits.py\<close>, is also used for incoming payloads.\<close>

definition bounded :: "py \<Rightarrow> nat \<Rightarrow> py" where
  "bounded v max_chars = PStr (take max_chars (strip (text_or_empty v)))"

definition normal_playback_row :: "string \<Rightarrow> pdict \<Rightarrow> pdict option" where
  "normal_playback_row ts item =
     (let source = normalize_playback_event_source (pget item ''source'');
          server_id = bounded (pget item ''server_id'') 512;
          session_id = bounded (pget item ''session_id'') 512
      in if source \<notin> {''player'', ''plugin'', ''proxy''} then None
         else Some
          [(''id'', bounded (py_or (pget item ''id'') (PStr (make_event_id server_id session_id 0))) 256),
           (''server_id'', server_id),
           (''session_id'', session_id),
           (''play_session_id'', bounded (pget item ''play_session_id'') 512),
           (''media_source_id'', bounded (pget item ''media_source_id'') 512),
           (''event_name'', bounded (pget item ''event_name'') 256),
           (''message_type'', bounded (pget item ''message_type'') 256),
           (''action'', bounded (pget item ''action'') 256),
           (''outcome'', bounded (pget item ''outcome'') 512),
           (''audio_stream_index'', pget item ''audio_stream_index''),
           (''subtitle_stream_index'', pget item ''subtitle_stream_index''),
           (''source'', PStr source),
           (''transport'', PStr (normalize_playback_event_transport (pget item ''transport''))),
           (''at'', bounded (py_or (pget item ''at'') (PStr ts)) 64)])"

definition normalize_playback_event_rows :: "string \<Rightarrow> py \<Rightarrow> pdict list" where
  "normalize_playback_event_rows ts raw =
     sort_desc (\<lambda>row. text_or_empty (pget row ''at''))
       (List.map_filter (normal_playback_row ts) (dict_rows (raw_rows raw)))"

end
