(* ===== verification/Guard_History.thy ===== *)
theory Guard_History
  imports Guard_Rows Guard_Validation
begin

text \<open>
  The history of the Transcode Guard (\<open>emby_runtime/transcode_guard_history.py\<close> and
  \<open>_record_event_action\<close> of \<open>transcode_guard_enforcement.py\<close>): the event log of the guard, the log
  of streams and the log of playback events, three values of the key-value storage.  The state
  \<open>guard_world\<close> also holds the stored settings and, in memory, the open violations, the
  generations of the servers, the last result of a scan and the calls made to Emby.  A method is
  a state transformer; the methods run one at a time, under the guard's lock and the storage
  mutation guard (\<open>synchronized_history\<close>).  \<open>guard_env\<close> is what a method reads from outside:
  the clock (one instant per operation), the answers of Emby, \<open>repr\<close> of a float and
  \<open>str.format\<close> on a message template (\<open>None\<close> when it raises).
\<close>

datatype guard_call =
    SendMessage string string string string "int option"
  | StopSession string string
  | PauseSession string string

record guard_env =
  e_now :: rat
  e_instant :: int
  e_repr :: "rat \<Rightarrow> string"
  e_answer :: "guard_call \<Rightarrow> bool"
  e_format :: "string \<Rightarrow> pdict \<Rightarrow> string option"

record guard_world =
  w_violations :: "(string, pdict) dict"
  w_events :: py
  w_streams :: py
  w_playback :: py
  w_generations :: "(string, int) dict"
  w_forgotten :: "string list"
  w_settings :: py
  w_result :: pdict
  w_calls :: "guard_call list"

definition e_ts :: "guard_env \<Rightarrow> string" where
  "e_ts env = iso_utc (e_instant env)"

definition e_float :: "guard_env \<Rightarrow> rat \<Rightarrow> py" where
  "e_float env q = PFloat (Fin q) (e_repr env q)"

definition exit_settle_seconds :: rat where "exit_settle_seconds = 4"
definition stream_log_limit :: nat where "stream_log_limit = 1000"
definition playback_log_limit :: nat where "playback_log_limit = 1000"
definition playback_log_max_bytes :: nat where "playback_log_max_bytes = 1024 * 1024"
definition stream_status_limit :: nat where "stream_status_limit = 160"

subsection \<open>Loading and saving\<close>

definition load_event_rows :: "guard_env \<Rightarrow> guard_world \<Rightarrow> pdict list" where
  "load_event_rows env w = normalize_event_rows (e_ts env) (w_events w)"

definition rows_value :: "pdict list \<Rightarrow> py" where
  "rows_value rows = PList (map PDict rows)"

definition save_event_rows :: "guard_env \<Rightarrow> pdict list \<Rightarrow> guard_world \<Rightarrow> guard_world" where
  "save_event_rows env rows w =
     w\<lparr>w_events := rows_value (normalize_event_rows (e_ts env) (rows_value rows))\<rparr>"

definition load_stream_rows :: "guard_env \<Rightarrow> guard_world \<Rightarrow> pdict list" where
  "load_stream_rows env w = normalize_stream_rows (e_ts env) (w_streams w)"

definition save_stream_rows :: "guard_env \<Rightarrow> pdict list \<Rightarrow> guard_world \<Rightarrow> guard_world" where
  "save_stream_rows env rows w =
     w\<lparr>w_streams := rows_value (take stream_log_limit (normalize_stream_rows (e_ts env) (rows_value rows)))\<rparr>"

text \<open>
  The newest rows whose JSON fits the budget: the loop stops at the first row that does not fit.
\<close>

fun within_budget :: "nat \<Rightarrow> nat \<Rightarrow> pdict list \<Rightarrow> pdict list \<Rightarrow> pdict list" where
  "within_budget max_bytes used kept [] = kept"
| "within_budget max_bytes used kept (row # rows) =
     (let required = utf8_len (json_text (PDict row)) + (if kept \<noteq> [] then 1 else 0)
      in if max_bytes < used + required then kept
         else within_budget max_bytes (used + required) (kept @ [row]) rows)"

definition rows_within_json_budget :: "pdict list \<Rightarrow> nat \<Rightarrow> pdict list" where
  "rows_within_json_budget rows max_bytes = within_budget max_bytes 2 [] rows"

definition load_playback_event_rows :: "guard_env \<Rightarrow> guard_world \<Rightarrow> pdict list" where
  "load_playback_event_rows env w = normalize_playback_event_rows (e_ts env) (w_playback w)"

definition save_playback_event_rows :: "guard_env \<Rightarrow> pdict list \<Rightarrow> guard_world \<Rightarrow> guard_world" where
  "save_playback_event_rows env rows w =
     w\<lparr>w_playback := rows_value (rows_within_json_budget
        (take playback_log_limit (normalize_playback_event_rows (e_ts env) (rows_value rows)))
        playback_log_max_bytes)\<rparr>"

subsection \<open>Observing a stream\<close>

definition session_key :: "string \<Rightarrow> string \<Rightarrow> string" where
  "session_key server_id session_id = server_id @ '':'' @ session_id"

definition violation_key :: "string \<Rightarrow> string \<Rightarrow> string \<Rightarrow> string" where
  "violation_key server_id session_id rule_id =
     server_id @ '':'' @ session_id @ '':'' @ (if rule_id \<noteq> [] then rule_id else ''default'')"

definition stream_playback_key :: "string \<Rightarrow> pdict \<Rightarrow> string" where
  "stream_playback_key server_id d = text_or (pget d ''playback_key'') (playback_key server_id d)"

definition stream_server_id :: "pdict \<Rightarrow> pdict \<Rightarrow> string" where
  "stream_server_id server d = text_or_empty (py_or (pget server ''id'') (pget d ''server_id''))"

record event_action =
  ea_event_id :: string
  ea_action :: string
  ea_outcome :: string
  ea_success :: bool
  ea_source :: string

definition no_action :: event_action where
  "no_action = \<lparr>ea_event_id = [], ea_action = [], ea_outcome = [], ea_success = True, ea_source = ''guard''\<rparr>"

definition action_entry :: "guard_env \<Rightarrow> event_action \<Rightarrow> pdict" where
  "action_entry env a =
     [(''action'', PStr (ea_action a)), (''outcome'', PStr (ea_outcome a)), (''success'', PBool (ea_success a)),
      (''at'', PStr (e_ts env)), (''source'', PStr (ea_source a))]"

definition record_observed_stream_changes ::
  "guard_env \<Rightarrow> pdict \<Rightarrow> pdict \<Rightarrow> pdict \<Rightarrow> pdict \<Rightarrow> pdict" where
  "record_observed_stream_changes env row server d decision =
     (if to_int (pget row ''observations'') 0 \<le> 0 then row
      else if stream_server_id server d = [] \<or> text_or_empty (pget d ''session_id'') = [] then row
      else foldl (\<lambda>r (action, outcome). append_stream_action r
             (action_entry env \<lparr>ea_event_id = [], ea_action = action, ea_outcome = outcome,
                ea_success = True, ea_source = ''observed''\<rparr>))
             row (observed_stream_change_actions row d decision))"

definition new_stream_row :: "guard_env \<Rightarrow> string \<Rightarrow> string \<Rightarrow> string \<Rightarrow> string \<Rightarrow> pdict \<Rightarrow> pdict" where
  "new_stream_row env server_id session_id pk event_id d =
     [(''id'', PStr (make_event_id (PStr server_id) (PStr (if session_id \<noteq> [] then session_id else pk)) (e_now env))),
      (''event_id'', PStr event_id),
      (''playback_key'', PStr pk),
      (''content_key'', PStr (content_key d)),
      (''session_key'', PStr (if session_id \<noteq> [] then session_key server_id session_id else [])),
      (''session_id'', PStr session_id),
      (''started_at'', PStr (e_ts env)),
      (''updated_at'', PStr (e_ts env)),
      (''last_seen_at'', PStr (e_ts env)),
      (''observations'', PInt 0),
      (''violation_count'', PInt 0),
      (''actions'', PList []),
      (''tags'', PList []),
      (''violations_committed'', PList [])]"

text \<open>The row an observation belongs to, as a test: the event's row, else the open row of the playback.\<close>

definition is_event_row :: "string \<Rightarrow> pdict \<Rightarrow> bool" where
  "is_event_row event_id row \<longleftrightarrow> event_id \<noteq> [] \<and> text_or_empty (py_or (pget row ''event_id'') (pget row ''id'')) = event_id"

definition is_open_playback_row :: "string \<Rightarrow> pdict \<Rightarrow> bool" where
  "is_open_playback_row pk row \<longleftrightarrow> pget row ''playback_key'' = PStr pk \<and> \<not> truthy (pget row ''ended_at'')"

definition observe_row :: "guard_env \<Rightarrow> pdict \<Rightarrow> pdict \<Rightarrow> pdict \<Rightarrow> event_action \<Rightarrow> pdict \<Rightarrow> pdict" where
  "observe_row env server d decision a row =
     (let enforce = truthy (pget decision ''should_enforce'');
          row1 = (if enforce \<and> \<not> truthy (pget row ''last_should_enforce'')
                  then dset ''violation_count'' (PInt (to_int (pget row ''violation_count'') 0 + 1)) row else row);
          row2 = record_observed_stream_changes env row1 server d decision;
          row3 = (if ea_event_id a \<noteq> [] then dset ''event_id'' (PStr (ea_event_id a)) row2 else row2);
          row4 = (if ea_action a = [] then row3
                  else
                    let r = append_stream_action row3 (action_entry env a)
                    in if ea_action a \<in> {''exit'', ''stop'', ''pause''} then dset ''ended_at'' (PStr (e_ts env)) r
                       else if ea_action a \<in> {''relapse'', ''resolved'', ''partial_resolved'', ''resolution_change'',
                                              ''resolved_later''}
                       then dpop ''ended_at'' r else r);
          row5 = dupdate row4 (stream_identity_fields (e_float env) server d decision);
          row6 = dupdate row5
            [(''last_should_enforce'', PBool enforce),
             (''last_decision_category'', or_blank decision ''category''),
             (''last_decision_reason'', py_or (pget decision ''reason'') (or_blank decision ''label'')),
             (''last_rule_id'', or_blank decision ''rule_id''),
             (''last_rule_name'', or_blank decision ''rule_name''),
             (''last_rule_path'', py_or (pget decision ''rule_path'') (PList [])),
             (''observations'', PInt (to_int (pget row5 ''observations'') 0 + 1)),
             (''last_seen_at'', PStr (e_ts env)),
             (''updated_at'', PStr (e_ts env)),
             (''tags'', texts (unique_ordered (py_texts (pget row5 ''tags'') @ stream_observation_tags d decision @
                stream_action_tags (if ea_action a = [] then None else Some (action_entry env a))))),
             (''violations_committed'', texts (unique_ordered (py_texts (pget row5 ''violations_committed'') @
                stream_technical_violations d decision)))]
      in dset ''action_label'' (PStr (action_label (dict_rows (row_actions row6)))) row6)"

definition record_stream_observation ::
  "guard_env \<Rightarrow> pdict \<Rightarrow> pdict \<Rightarrow> pdict \<Rightarrow> event_action \<Rightarrow> guard_world \<Rightarrow> guard_world" where
  "record_stream_observation env server d decision a w =
     (let server_id = stream_server_id server d;
          session_id = text_or_empty (pget d ''session_id'');
          pk = stream_playback_key server_id d;
          rows = load_stream_rows env w;
          observe = observe_row env server d decision a
      in if pk = [] then w
         else if list_ex (is_event_row (ea_event_id a)) rows
         then save_stream_rows env (update_first (is_event_row (ea_event_id a)) observe rows) w
         else if list_ex (is_open_playback_row pk) rows
         then save_stream_rows env (update_first (is_open_playback_row pk) observe rows) w
         else save_stream_rows env
           (observe (new_stream_row env server_id session_id pk (ea_event_id a) d) # rows) w)"

subsection \<open>The event log\<close>

definition content_key_of :: "pdict \<Rightarrow> py" where
  "content_key_of d = py_or (pget d ''content_key'') (PStr (content_key d))"

definition new_event_row :: "guard_env \<Rightarrow> string \<Rightarrow> string \<Rightarrow> string \<Rightarrow> string \<Rightarrow> pdict \<Rightarrow> pdict \<Rightarrow> pdict \<Rightarrow> pdict" where
  "new_event_row env event_id pk server_id session_id server d decision =
     [(''id'', PStr event_id),
      (''playback_key'', PStr pk),
      (''content_key'', content_key_of d),
      (''session_id'', PStr session_id),
      (''item_id'', or_blank d ''item_id''),
      (''title'', py_or (pget d ''title'') (PStr ''Stream'')),
      (''user'', or_blank d ''user''),
      (''client'', or_blank d ''client''),
      (''device'', or_blank d ''device''),
      (''device_id'', or_blank d ''device_id''),
      (''server_id'', PStr server_id),
      (''server_name'', PStr (server_label server)),
      (''source_height'', source_height_of decision d),
      (''category'', pget decision ''category''),
      (''rule_id'', or_blank decision ''rule_id''),
      (''rule_name'', or_blank decision ''rule_name''),
      (''rule_path'', py_or (pget decision ''rule_path'') (PList [])),
      (''started_at'', PStr (e_ts env)),
      (''actions'', PList [])]"

definition add_event_action :: "guard_env \<Rightarrow> string \<Rightarrow> string \<Rightarrow> pdict \<Rightarrow> pdict \<Rightarrow> event_action \<Rightarrow> pdict \<Rightarrow> pdict" where
  "add_event_action env pk session_id d decision a row =
     (let row1 = append_stream_action row (action_entry env a)
      in dupdate row1
        [(''action'', PStr (ea_action a)),
         (''outcome'', PStr (ea_outcome a)),
         (''success'', PBool (ea_success a)),
         (''at'', py_or (pget row1 ''started_at'') (PStr (e_ts env))),
         (''updated_at'', PStr (e_ts env)),
         (''action_label'', PStr (action_label (dict_rows (row_actions row1)))),
         (''playback_key'', py_or (pget row1 ''playback_key'') (PStr pk)),
         (''content_key'', py_or (pget row1 ''content_key'') (content_key_of d)),
         (''session_id'', py_or (pget row1 ''session_id'') (PStr session_id)),
         (''item_id'', py_or (pget row1 ''item_id'') (or_blank d ''item_id'')),
         (''device_id'', py_or (pget row1 ''device_id'') (or_blank d ''device_id'')),
         (''source_height'', py_or (pget row1 ''source_height'') (source_height_of decision d)),
         (''category'', py_or (pget row1 ''category'') (pget decision ''category'')),
         (''rule_id'', py_or (pget row1 ''rule_id'') (or_blank decision ''rule_id'')),
         (''rule_name'', py_or (pget row1 ''rule_name'') (or_blank decision ''rule_name'')),
         (''rule_path'', py_or (pget row1 ''rule_path'') (py_or (pget decision ''rule_path'') (PList [])))])"

definition record_event_action ::
  "guard_env \<Rightarrow> pdict \<Rightarrow> pdict \<Rightarrow> pdict \<Rightarrow> event_action \<Rightarrow> guard_world \<Rightarrow> guard_world" where
  "record_event_action env server d decision a w =
     (let server_id = stream_server_id server d;
          session_id = text_or_empty (pget d ''session_id'');
          pk = stream_playback_key server_id d;
          event_id = (if ea_event_id a \<noteq> [] then ea_event_id a
            else make_event_id (PStr server_id) (PStr (if session_id \<noteq> [] then session_id else pk)) (e_now env));
          rows = load_event_rows env w;
          mine = (\<lambda>row. pget row ''id'' = PStr event_id);
          rows = (if list_ex mine rows then rows
                  else new_event_row env event_id pk server_id session_id server d decision # rows);
          rows = update_first mine (add_event_action env pk session_id d decision a) rows
      in record_stream_observation env server d decision (a\<lparr>ea_event_id := event_id\<rparr>)
           (save_event_rows env (sort_event_rows rows) w))"

subsection \<open>Streams that disappeared\<close>

definition simple_server :: "pdict \<Rightarrow> pdict" where
  "simple_server row = [(''id'', or_blank row ''server_id''), (''name'', or_blank row ''server_name'')]"

definition exit_action :: "string \<Rightarrow> string \<Rightarrow> event_action" where
  "exit_action event_id source =
     \<lparr>ea_event_id = event_id, ea_action = ''exit'', ea_outcome = ''Uscita riproduzione'', ea_success = True, ea_source = source\<rparr>"

definition record_exit_for_stream_row :: "guard_env \<Rightarrow> pdict \<Rightarrow> guard_world \<Rightarrow> guard_world" where
  "record_exit_for_stream_row env row w =
     (let event_id = text_or_empty (pget row ''event_id'')
      in if event_id = [] then w
         else (case find (\<lambda>r. pget r ''id'' = PStr event_id) (load_event_rows env w) of
           None \<Rightarrow> w
         | Some event_row \<Rightarrow>
             if is_terminal_action (last_action_entry event_row) then w
             else record_event_action env (simple_server row) row
               [(''category'', py_or (pget row ''last_decision_category'') (pget row ''category'')),
                (''source_height'', pget row ''source_height''),
                (''rule_id'', py_or (pget row ''last_rule_id'') (or_blank row ''rule_id'')),
                (''rule_name'', py_or (pget row ''last_rule_name'') (or_blank row ''rule_name'')),
                (''rule_path'', py_or (pget row ''last_rule_path'') (py_or (pget row ''rule_path'') (PList [])))]
               (exit_action event_id ''guard'') w))"

text \<open>\<open>float(v)\<close> of a number the guard wrote; a text is not a number here.\<close>

definition number_of :: "py \<Rightarrow> rat option" where
  "number_of v =
     (case v of PInt i \<Rightarrow> Some (of_int i) | PFloat (Fin q) _ \<Rightarrow> Some q | PBool b \<Rightarrow> Some (if b then 1 else 0) | _ \<Rightarrow> None)"

definition settled :: "guard_env \<Rightarrow> py \<Rightarrow> bool" where
  "settled env missing_since =
     (case number_of missing_since of
        None \<Rightarrow> True
      | Some q \<Rightarrow> exit_settle_seconds \<le> e_now env - q)"

text \<open>
  The loop of \<open>_close_missing_stream_rows\<close> works on the rows loaded before it, while
  \<open>_record_exit_for_stream_row\<close> loads and saves the stream log itself.
\<close>

fun close_rows :: "guard_env \<Rightarrow> string list \<Rightarrow> string list \<Rightarrow> pdict list \<Rightarrow> bool \<times> guard_world \<Rightarrow>
    pdict list \<times> bool \<times> guard_world" where
  "close_rows env scanned present [] (changed, w) = ([], changed, w)"
| "close_rows env scanned present (row # rows) (changed, w) =
     (let keep = (\<lambda>r c v. case close_rows env scanned present rows (c, v) of (rs, c', v') \<Rightarrow> (r # rs, c', v'))
      in if truthy (pget row ''ended_at'') then keep row changed w
         else if text_or_empty (pget row ''server_id'') \<notin> set scanned then keep row changed w
         else if text_or_empty (pget row ''playback_key'') \<in> set present
         then (if has_key ''missing_since'' row \<or> has_key ''missing_since_at'' row
               then keep (dpop ''missing_since_at'' (dpop ''missing_since'' row)) True w
               else keep row changed w)
         else if pget row ''missing_since'' = PNone
         then keep (dupdate row [(''missing_since'', e_float env (e_now env)), (''missing_since_at'', PStr (e_ts env)),
                (''updated_at'', PStr (e_ts env))]) True w
         else if \<not> settled env (pget row ''missing_since'') then keep row changed w
         else keep (dupdate row [(''ended_at'', PStr (e_ts env)), (''updated_at'', PStr (e_ts env))]) True
                (record_exit_for_stream_row env row w))"

definition close_missing_stream_rows ::
  "guard_env \<Rightarrow> string list \<Rightarrow> string list \<Rightarrow> guard_world \<Rightarrow> guard_world" where
  "close_missing_stream_rows env scanned present w =
     (if scanned = [] then w
      else (case close_rows env scanned present (load_stream_rows env w) (False, w) of
        (rows, changed, w') \<Rightarrow> if changed then save_stream_rows env rows w' else w'))"

subsection \<open>Playback events\<close>

definition is_open_session_row :: "string \<Rightarrow> string \<Rightarrow> pdict \<Rightarrow> bool" where
  "is_open_session_row server_id session_id row \<longleftrightarrow>
     text_or_empty (pget row ''server_id'') = server_id \<and> text_or_empty (pget row ''session_id'') = session_id \<and>
     \<not> truthy (pget row ''ended_at'')"

definition set_unless_none :: "string \<Rightarrow> pdict \<Rightarrow> pdict \<Rightarrow> pdict" where
  "set_unless_none k event row = (if pget event k \<noteq> PNone then dset k (pget event k) row else row)"

definition play_row :: "guard_env \<Rightarrow> pdict \<Rightarrow> pdict \<Rightarrow> pdict" where
  "play_row env event row =
     (let action = text_or_empty (pget event ''action'');
          entry = action_entry env \<lparr>ea_event_id = [], ea_action = action,
            ea_outcome = text_or_empty (pget event ''outcome''), ea_success = True,
            ea_source = text_or (pget event ''source'') ''player''\<rparr>;
          row1 = append_stream_action row entry;
          row2 = (if action = ''exit'' then dset ''ended_at'' (PStr (e_ts env)) row1 else row1);
          row3 = dupdate row2
            [(''last_playback_event'', PStr (text_or_empty (pget event ''event_name''))),
             (''last_playback_event_at'', PStr (e_ts env)),
             (''play_session_id'', py_or (pget row2 ''play_session_id'') (or_blank event ''play_session_id'')),
             (''media_source_id'', py_or (pget row2 ''media_source_id'') (or_blank event ''media_source_id''))];
          row4 = set_unless_none ''subtitle_stream_index'' event (set_unless_none ''audio_stream_index'' event row3)
      in dupdate row4
        [(''updated_at'', PStr (e_ts env)),
         (''tags'', texts (unique_ordered (py_texts (pget row4 ''tags'') @ stream_action_tags (Some entry)))),
         (''action_label'', PStr (action_label (dict_rows (row_actions row4))))])"

definition record_stream_playback_event :: "guard_env \<Rightarrow> pdict \<Rightarrow> guard_world \<Rightarrow> bool \<times> guard_world" where
  "record_stream_playback_event env event w =
     (let server_id = text_or_empty (pget event ''server_id'');
          session_id = text_or_empty (pget event ''session_id'');
          rows = load_stream_rows env w;
          mine = is_open_session_row server_id session_id
      in if server_id = [] \<or> session_id = [] \<or> text_or_empty (pget event ''action'') = [] then (False, w)
         else if \<not> list_ex mine rows then (False, w)
         else (True, save_stream_rows env (update_first mine (play_row env event) rows) w))"

definition new_playback_row :: "guard_env \<Rightarrow> pdict \<Rightarrow> pdict" where
  "new_playback_row env event =
     (let text = (\<lambda>k. PStr (text_or_empty (pget event k)))
      in [(''id'', PStr (make_event_id (text ''server_id'')
             (PStr (text_or_empty (pget event ''session_id'') @ '':'' @ text_or_empty (pget event ''action''))) (e_now env))),
          (''server_id'', text ''server_id''),
          (''session_id'', text ''session_id''),
          (''play_session_id'', text ''play_session_id''),
          (''media_source_id'', text ''media_source_id''),
          (''event_name'', text ''event_name''),
          (''message_type'', text ''message_type''),
          (''action'', text ''action''),
          (''outcome'', text ''outcome''),
          (''audio_stream_index'', pget event ''audio_stream_index''),
          (''subtitle_stream_index'', pget event ''subtitle_stream_index''),
          (''at'', PStr (e_ts env)),
          (''source'', PStr (text_or (pget event ''source'') ''player'')),
          (''transport'', text ''transport'')])"

definition record_playback_event_row :: "guard_env \<Rightarrow> pdict \<Rightarrow> guard_world \<Rightarrow> exn + guard_world" where
  "record_playback_event_row env event w =
     (let row = new_playback_row env event
      in case load_playback_event_rows env w of
           [] \<Rightarrow> Inr (save_playback_event_rows env [row] w)
         | newest # rows \<Rightarrow>
             result_bind (is_duplicate_playback_event newest row) (\<lambda>duplicate.
               if duplicate
               then Inr (save_playback_event_rows env (dset ''at'' (pget row ''at'') newest # rows) w)
               else Inr (save_playback_event_rows env (row # newest # rows) w)))"

subsection \<open>Retention and clearing\<close>

text \<open>The rows kept and how many are deleted: those whose instant is known and before the threshold.\<close>

fun drop_before :: "(pdict \<Rightarrow> py) \<Rightarrow> int \<Rightarrow> pdict list \<Rightarrow> exn + pdict list \<times> nat" where
  "drop_before time_of threshold [] = Inr ([], 0)"
| "drop_before time_of threshold (row # rows) =
     result_bind (parse_guard_datetime (time_of row)) (\<lambda>t.
     result_bind (drop_before time_of threshold rows) (\<lambda>(kept, deleted).
       case t of
         Some x \<Rightarrow> if x < threshold then Inr (kept, deleted + 1) else Inr (row # kept, deleted)
       | None \<Rightarrow> Inr (row # kept, deleted)))"

definition stream_start :: "pdict \<Rightarrow> py" where
  "stream_start row = py_or (pget row ''started_at'') (pget row ''updated_at'')"

definition event_start :: "pdict \<Rightarrow> py" where
  "event_start row = py_or (pget row ''started_at'') (py_or (pget row ''at'') (pget row ''updated_at''))"

definition day_micros :: int where "day_micros = 86400 * 1000000"

definition apply_stream_history_retention :: "guard_env \<Rightarrow> pdict \<Rightarrow> guard_world \<Rightarrow> exn + nat \<times> guard_world" where
  "apply_stream_history_retention env settings w =
     (let days = to_int (py_or (pget settings ''stream_history_retention_days'') (PInt 0)) 0
      in if days \<le> 0 then Inr (0, w)
         else result_bind (drop_before stream_start (e_instant env - days * day_micros) (load_stream_rows env w))
           (\<lambda>(kept, deleted). Inr (deleted, if 0 < deleted then save_stream_rows env kept w else w)))"

definition clear_stream_history :: "guard_env \<Rightarrow> py \<Rightarrow> guard_world \<Rightarrow> exn + nat \<times> guard_world" where
  "clear_stream_history env before w =
     (let rows = load_stream_rows env w
      in if \<not> truthy before then Inr (length rows, save_stream_rows env [] w)
         else result_bind (parse_guard_datetime before) (\<lambda>t. case t of
           None \<Rightarrow> Inr (0, w)
         | Some threshold \<Rightarrow> result_bind (drop_before stream_start threshold rows)
             (\<lambda>(kept, deleted). Inr (deleted, if 0 < deleted then save_stream_rows env kept w else w))))"

definition clear_events :: "guard_env \<Rightarrow> py \<Rightarrow> guard_world \<Rightarrow> exn + nat \<times> guard_world" where
  "clear_events env before w =
     (let rows = load_event_rows env w
      in if \<not> truthy before then Inr (length rows, save_event_rows env [] w)
         else result_bind (parse_guard_datetime before) (\<lambda>t. case t of
           None \<Rightarrow> Inr (0, w)
         | Some threshold \<Rightarrow> result_bind (drop_before event_start threshold rows)
             (\<lambda>(kept, deleted). Inr (deleted, if 0 < deleted then save_event_rows env kept w else w))))"

subsection \<open>What the status page shows\<close>

definition stream_history_payload :: "guard_env \<Rightarrow> guard_world \<Rightarrow> pdict" where
  "stream_history_payload env w =
     (let rows = load_stream_rows env w
      in [(''rows'', rows_value (take stream_status_limit rows)),
          (''total'', PInt (int (length rows))),
          (''correct'', PInt (int (length (filter stream_row_is_correct rows)))),
          (''violations'', PInt (int (length (filter (\<lambda>row. truthy (pget row ''violations_committed'')) rows)))),
          (''active'', PInt (int (length (filter (\<lambda>row. \<not> truthy (pget row ''ended_at'')) rows))))])"

definition playback_events_payload :: "guard_env \<Rightarrow> guard_world \<Rightarrow> pdict" where
  "playback_events_payload env w =
     (let rows = load_playback_event_rows env w
      in [(''rows'', rows_value (take stream_status_limit rows)), (''total'', PInt (int (length rows)))])"

subsection \<open>The size of the playback log\<close>

lemma utf8_len_join_snoc:
  "utf8_len (join s (xs @ [x])) = utf8_len (join s xs) + (if xs = [] then 0 else utf8_len s) + utf8_len x"
  by (induction s xs rule: join.induct) (auto simp: Cons_eq_append_conv neq_Nil_conv)

lemma utf8_len_marks: "utf8_len ''['' = 1" "utf8_len '']'' = 1" "utf8_len '','' = 1"
  by code_simp+

definition rows_bytes :: "pdict list \<Rightarrow> nat" where
  "rows_bytes rows = utf8_len (json_text (rows_value rows))"

lemma rows_bytes_join: "rows_bytes rows = 2 + utf8_len (join '','' (map (\<lambda>row. json_text (PDict row)) rows))"
  unfolding rows_bytes_def rows_value_def json_text.simps utf8_len_append utf8_len_marks map_map comp_def by simp

lemma rows_bytes_Nil [simp]: "rows_bytes [] = 2"
  unfolding rows_bytes_join by (simp add: utf8_len_def)

lemma rows_bytes_snoc:
  "rows_bytes (rows @ [row]) = rows_bytes rows + (utf8_len (json_text (PDict row)) + (if rows \<noteq> [] then 1 else 0))"
  unfolding rows_bytes_join map_append list.map utf8_len_join_snoc utf8_len_marks by simp

lemma within_budget_longest:
  assumes "used = rows_bytes kept" "used \<le> max_bytes"
  shows "\<exists>n. within_budget max_bytes used kept rows = kept @ take n rows \<and> rows_bytes (kept @ take n rows) \<le> max_bytes \<and>
    (n < length rows \<longrightarrow> max_bytes < rows_bytes (kept @ take (Suc n) rows)) \<and> n \<le> length rows"
  using assms
proof (induction max_bytes used kept rows rule: within_budget.induct)
  case (2 max_bytes used kept row rows)
  define required where "required = utf8_len (json_text (PDict row)) + (if kept \<noteq> [] then 1 else 0)"
  have next_bytes: "used + required = rows_bytes (kept @ [row])"
    using 2(2) by (simp add: rows_bytes_snoc required_def)
  show ?case
  proof (cases "max_bytes < used + required")
    case True
    then have "within_budget max_bytes used kept (row # rows) = kept"
      by (simp add: required_def)
    then show ?thesis
      using 2(2,3) True next_bytes by (intro exI [of _ 0]) simp
  next
    case False
    obtain n where "within_budget max_bytes (used + required) (kept @ [row]) rows = (kept @ [row]) @ take n rows"
      "rows_bytes ((kept @ [row]) @ take n rows) \<le> max_bytes"
      "n < length rows \<longrightarrow> max_bytes < rows_bytes ((kept @ [row]) @ take (Suc n) rows)" "n \<le> length rows"
      using 2(1) [OF required_def False next_bytes] False by auto
    moreover have "within_budget max_bytes used kept (row # rows) = within_budget max_bytes (used + required) (kept @ [row]) rows"
      using False by (simp add: required_def)
    ultimately show ?thesis
      by (intro exI [of _ "Suc n"]) simp
  qed
qed simp

text \<open>
  The playback log keeps the longest run of its newest rows whose JSON fits the budget.
\<close>

theorem playback_log_longest:
  assumes "2 \<le> max_bytes"
  shows "rows_within_json_budget rows max_bytes = take (length (rows_within_json_budget rows max_bytes)) rows \<and>
    utf8_len (json_text (rows_value (rows_within_json_budget rows max_bytes))) \<le> max_bytes \<and>
    (length (rows_within_json_budget rows max_bytes) < length rows \<longrightarrow>
      max_bytes < utf8_len (json_text (rows_value (take (Suc (length (rows_within_json_budget rows max_bytes))) rows))))"
proof -
  obtain n where "within_budget max_bytes 2 [] rows = take n rows" "rows_bytes (take n rows) \<le> max_bytes"
    "n < length rows \<longrightarrow> max_bytes < rows_bytes (take (Suc n) rows)" "n \<le> length rows"
    using within_budget_longest [of 2 "[]" max_bytes rows] assms by auto
  then show ?thesis
    by (simp add: rows_within_json_budget_def rows_bytes_def min_def)
qed

theorem playback_log_longest_witness:
  "utf8_len (json_text (rows_value (rows_within_json_budget [[], [(''at'', PStr ''x'')]] 4))) \<le> 4"
  using playback_log_longest [of 4 "[[], [(''at'', PStr ''x'')]]"] by simp

subsection \<open>The exit of a stream that disappeared\<close>

lemma close_rows_actions:
  "map (\<lambda>row. pget row ''actions'') (fst (close_rows env scanned present rows (changed, w)))
     = map (\<lambda>row. pget row ''actions'') rows"
proof (induction rows arbitrary: changed w)
  case (Cons row rows)
  have fields: "pget (dupdate row [(''missing_since'', a), (''missing_since_at'', b), (''updated_at'', c)]) ''actions'' = pget row ''actions''"
    "pget (dupdate row [(''ended_at'', a), (''updated_at'', b)]) ''actions'' = pget row ''actions''" for a b c
    by simp_all
  show ?case
    by (simp add: Let_def split_beta Cons.IH del: dupdate_Cons add: fields)
qed simp

lemma close_rows_unchanged:
  "\<not> fst (snd (close_rows env scanned present rows (changed, w))) \<Longrightarrow>
     \<not> changed \<and> snd (snd (close_rows env scanned present rows (changed, w))) = w"
  by (induction rows arbitrary: changed w) (auto simp: Let_def split_beta split: if_splits)

text \<open>
  Closing the streams that disappeared never adds an action to the stream log: the exit that
  is recorded on the stream row of a violation is overwritten by the rows loaded before it.
\<close>

theorem exit_action_lost:
  "\<exists>rows. map (\<lambda>row. pget row ''actions'') rows = map (\<lambda>row. pget row ''actions'') (load_stream_rows env w) \<and>
     w_streams (close_missing_stream_rows env scanned present w) \<in> {w_streams w, w_streams (save_stream_rows env rows w)}"
proof -
  obtain rows changed w1 where w1: "close_rows env scanned present (load_stream_rows env w) (False, w) = (rows, changed, w1)"
    by (metis prod_cases3)
  have "map (\<lambda>row. pget row ''actions'') rows = map (\<lambda>row. pget row ''actions'') (load_stream_rows env w)"
    using close_rows_actions [of env scanned present "load_stream_rows env w" False w] w1 by simp
  moreover have "\<not> changed \<longrightarrow> w1 = w"
    using close_rows_unchanged [of env scanned present "load_stream_rows env w" False w] w1 by simp
  ultimately show ?thesis
    by (intro exI [of _ rows]) (simp add: close_missing_stream_rows_def w1 save_stream_rows_def)
qed

end
