(* ===== verification/Guard_Enforcement.thy ===== *)
theory Guard_Enforcement
  imports Guard_History Guard_Rules
begin

text \<open>
  Enforcement of the Transcode Guard (\<open>emby_runtime/transcode_guard_enforcement.py\<close>): the state of
  an open violation, when a warning may be sent, when a stream is stopped, and how a violation is
  joined with what the event log and the other violations say of the same playback.  A violation
  state is a dictionary kept in \<open>w_violations\<close>; the code mutates it in place, the model writes it
  back.  The settings are those of the deciding rule, whose counts and times are integers
  (\<open>rule_ok\<close>).
\<close>

subsection \<open>Reading a violation state\<close>

text \<open>\<open>int(settings.get(k) or d)\<close> on an integer setting.\<close>

definition int_setting :: "pdict \<Rightarrow> string \<Rightarrow> int \<Rightarrow> int" where
  "int_setting d k default_value =
     (case py_or (pget d k) (PInt default_value) of PInt i \<Rightarrow> i | PBool b \<Rightarrow> (if b then 1 else 0) | _ \<Rightarrow> default_value)"

text \<open>\<open>state.get(k)\<close> as an instant that is used only when it is true.\<close>

definition instant_at :: "pdict \<Rightarrow> string \<Rightarrow> rat option" where
  "instant_at state k = (if truthy (pget state k) then number_of (pget state k) else None)"

definition can_send_warning :: "pdict \<Rightarrow> pdict \<Rightarrow> rat \<Rightarrow> bool" where
  "can_send_warning state settings now =
     (let count = int_setting state ''warning_count'' 0;
          max_warnings = int_setting settings ''max_warnings'' 1;
          cooldown = int_setting settings ''message_cooldown_seconds'' 0
      in if max_warnings \<le> count then False
         else (case instant_at state ''warned'' of
           None \<Rightarrow> True
         | Some t \<Rightarrow> cooldown \<le> 0 \<or> of_int cooldown \<le> now - t))"

subsection \<open>Messages\<close>

definition message_replacements :: "pdict \<Rightarrow> pdict \<Rightarrow> pdict \<Rightarrow> pdict" where
  "message_replacements settings server d =
     (let reasons = normalize_string_list (pget d ''transcode_reasons'');
          delay = (if pget settings ''mode'' = PStr ''warn_then_stop''
                   then pget settings ''correction_window_seconds'' else PInt 0)
      in [(''title'', py_or (pget d ''title'') (PStr ''Stream'')),
          (''server'', PStr (server_label server)),
          (''user'', py_or (pget d ''user'') (PStr ''Utente'')),
          (''client'', py_or (pget d ''client'') (PStr ''Client'')),
          (''device'', py_or (pget d ''device'') (PStr ''Device'')),
          (''reasons'', PStr (if reasons \<noteq> [] then join '', '' reasons else ''Transcode video'')),
          (''quality'', PStr ((case stream_height d of Some h \<Rightarrow> str_int h | None \<Rightarrow> ''?'') @ ''p'')),
          (''seconds'', py_or delay (PInt 0))])"

text \<open>
  The template with its placeholders filled, or the fallback filled when the template does not
  format; the fallbacks are the default texts, which do.
\<close>

definition format_message_value ::
  "guard_env \<Rightarrow> py \<Rightarrow> pdict \<Rightarrow> pdict \<Rightarrow> pdict \<Rightarrow> string \<Rightarrow> string" where
  "format_message_value env template settings server d fallback =
     (let replacements = message_replacements settings server d;
          text = text_or template fallback
      in case e_format env text replacements of
           Some s \<Rightarrow> s
         | None \<Rightarrow> (case e_format env fallback replacements of Some s \<Rightarrow> s | None \<Rightarrow> fallback))"

definition message_call :: "guard_env \<Rightarrow> pdict \<Rightarrow> pdict \<Rightarrow> pdict \<Rightarrow> guard_call" where
  "message_call env server d settings =
     SendMessage (text_or_empty (pget server ''id'')) (text_or_empty (pget d ''session_id''))
       (format_message_value env (pget settings ''message_header'') settings server d default_message_header)
       (format_message_value env (pget settings ''message_text'') settings server d default_message_text)
       (if pget settings ''message_display_mode'' = PStr ''confirmation'' then None
        else Some (int_setting settings ''warning_timeout_ms'' 45000))"

definition make_call :: "guard_env \<Rightarrow> guard_call \<Rightarrow> guard_world \<Rightarrow> bool \<times> guard_world" where
  "make_call env c w = (e_answer env c, w\<lparr>w_calls := w_calls w @ [c]\<rparr>)"

definition guard_action :: "pdict \<Rightarrow> string \<Rightarrow> string \<Rightarrow> bool \<Rightarrow> event_action" where
  "guard_action state action outcome success =
     \<lparr>ea_event_id = text_or_empty (pget state ''event_id''), ea_action = action, ea_outcome = outcome,
      ea_success = success, ea_source = ''guard''\<rparr>"

definition send_warning ::
  "guard_env \<Rightarrow> pdict \<Rightarrow> pdict \<Rightarrow> pdict \<Rightarrow> pdict \<Rightarrow> pdict \<Rightarrow> guard_world \<Rightarrow> bool \<times> guard_world" where
  "send_warning env server d decision settings state w =
     (case make_call env (message_call env server d settings) w of
        (success, w1) \<Rightarrow>
          (success, record_event_action env server d decision
             (guard_action state (if success then ''warn'' else ''warning_error'')
               (if success then ''Avviso inviato'' else ''Errore avviso'') success) w1))"

definition set_state :: "string \<Rightarrow> pdict \<Rightarrow> guard_world \<Rightarrow> guard_world" where
  "set_state k state w = w\<lparr>w_violations := dset k state (w_violations w)\<rparr>"

definition stop_stream ::
  "guard_env \<Rightarrow> string \<Rightarrow> pdict \<Rightarrow> pdict \<Rightarrow> pdict \<Rightarrow> pdict \<Rightarrow> guard_world \<Rightarrow> string \<times> guard_world" where
  "stop_stream env k server d decision state w =
     (case make_call env (StopSession (text_or_empty (pget server ''id'')) (text_or_empty (pget d ''session_id''))) w of
        (success, w1) \<Rightarrow>
          let state' = dupdate state
            [(''stopped'', if success then e_float env (e_now env) else PNone),
             (''stopped_at'', if success then PStr (e_ts env) else PNone),
             (''state'', PStr (if success then ''stopped'' else ''error''))]
          in (if success then ''stopped'' else ''error'',
              record_event_action env server d decision
                (guard_action state' ''stop'' (if success then ''Sessione fermata'' else ''Errore stop'') success)
                (set_state k state' w1)))"

definition pause_stream ::
  "guard_env \<Rightarrow> string \<Rightarrow> pdict \<Rightarrow> pdict \<Rightarrow> pdict \<Rightarrow> pdict \<Rightarrow> guard_world \<Rightarrow> string \<times> guard_world" where
  "pause_stream env k server d decision state w =
     (case make_call env (PauseSession (text_or_empty (pget server ''id'')) (text_or_empty (pget d ''session_id''))) w of
        (success, w1) \<Rightarrow>
          let state' = dupdate state
            [(''paused'', if success then e_float env (e_now env) else PNone),
             (''paused_at'', if success then PStr (e_ts env) else PNone),
             (''state'', PStr (if success then ''paused'' else ''error''))]
          in (if success then ''paused'' else ''error'',
              record_event_action env server d decision
                (guard_action state' ''pause'' (if success then ''Sessione in pausa'' else ''Errore pausa'') success)
                (set_state k state' w1)))"

subsection \<open>What the log says of a playback\<close>

text \<open>The loop of \<open>_find_previous_open_problem_event\<close> over the rows, newest first.\<close>

fun previous_open_problem :: "string \<Rightarrow> pdict \<Rightarrow> bool \<Rightarrow> bool \<Rightarrow> pdict list \<Rightarrow> pdict option" where
  "previous_open_problem pk d different stop_at_newer [] = None"
| "previous_open_problem pk d different stop_at_newer (row # rows) =
     (let same = same_source_resolution row d;
          go = previous_open_problem pk d different stop_at_newer rows
      in if pget row ''playback_key'' \<noteq> PStr pk then go
         else if \<not> is_terminal_action (last_action_entry row)
         then (if stop_at_newer \<and> same \<and> last_action row \<in> {''resolved'', ''resolved_later'', ''resolution_change''}
               then None else go)
         else if \<not> terminal_row_has_open_problem row then (if stop_at_newer \<and> same then None else go)
         else if different \<and> same then go
         else Some row)"

definition find_previous_open_problem_event ::
  "guard_env \<Rightarrow> string \<Rightarrow> pdict \<Rightarrow> bool \<Rightarrow> bool \<Rightarrow> guard_world \<Rightarrow> pdict option" where
  "find_previous_open_problem_event env pk d different stop_at_newer w =
     (if pk = [] then None else previous_open_problem pk d different stop_at_newer (load_event_rows env w))"

definition find_reopenable_event_id :: "guard_env \<Rightarrow> string \<Rightarrow> string \<Rightarrow> pdict \<Rightarrow> guard_world \<Rightarrow> string" where
  "find_reopenable_event_id env pk session_id d w =
     (if pk = [] \<or> session_id = [] then []
      else (case find (\<lambda>row. pget row ''playback_key'' = PStr pk
               \<and> text_or_empty (pget row ''session_id'') = session_id \<and> same_source_resolution row d
               \<and> last_action row \<in> {''resolved'', ''resolution_change'', ''partial_resolved''})
              (load_event_rows env w) of
        Some row \<Rightarrow> text_or_empty (pget row ''id'')
      | None \<Rightarrow> []))"

text \<open>An open violation of the playback that waits for its exit.\<close>

definition is_pending :: "string \<Rightarrow> pdict \<Rightarrow> bool" where
  "is_pending pk state \<longleftrightarrow> text_or_empty (pget state ''playback_key'') = pk \<and>
     text_or_empty (pget state ''state'') = ''pending_exit'' \<and>
     \<not> (truthy (pget state ''stopped'') \<or> truthy (pget state ''paused''))"

definition take_pending_exit_event_id :: "string \<Rightarrow> pdict \<Rightarrow> guard_world \<Rightarrow> string \<times> guard_world" where
  "take_pending_exit_event_id pk d w =
     (if pk = [] then ([], w)
      else (case find (\<lambda>p. is_pending pk (snd p) \<and> same_source_resolution (snd p) d) (w_violations w) of
        Some (k, state) \<Rightarrow>
          (text_or_empty (pget state ''event_id''), w\<lparr>w_violations := dpop k (w_violations w)\<rparr>)
      | None \<Rightarrow> ([], w)))"

definition state_server :: "pdict \<Rightarrow> pdict" where
  "state_server state = [(''id'', pget state ''server_id''), (''name'', pget state ''server_name'')]"

definition state_decision :: "pdict \<Rightarrow> py \<Rightarrow> pdict" where
  "state_decision state category =
     [(''category'', category), (''source_height'', pget state ''source_height''), (''rule_id'', pget state ''rule_id''),
      (''rule_name'', pget state ''rule_name''), (''rule_path'', pget state ''rule_path'')]"

definition record_exit_for_violation_state :: "guard_env \<Rightarrow> string \<Rightarrow> pdict \<Rightarrow> guard_world \<Rightarrow> guard_world" where
  "record_exit_for_violation_state env source state w =
     record_event_action env (state_server state) state (state_decision state (pget state ''category''))
       (exit_action (text_or_empty (pget state ''event_id'')) source) w"

definition close_pending_different_resolution_event ::
  "guard_env \<Rightarrow> string \<Rightarrow> pdict \<Rightarrow> guard_world \<Rightarrow> bool \<times> guard_world" where
  "close_pending_different_resolution_event env pk d w =
     (if pk = [] then (False, w)
      else (case find (\<lambda>p. is_pending pk (snd p) \<and> \<not> same_source_resolution (snd p) d) (w_violations w) of
        Some (k, state) \<Rightarrow>
          (True, record_exit_for_violation_state env ''observed'' state (w\<lparr>w_violations := dpop k (w_violations w)\<rparr>))
      | None \<Rightarrow> (False, w)))"

definition find_pending_open_problem_event :: "string \<Rightarrow> pdict \<Rightarrow> bool \<Rightarrow> guard_world \<Rightarrow> pdict option" where
  "find_pending_open_problem_event pk d different w =
     (if pk = [] then None
      else map_option snd
        (find (\<lambda>p. is_pending pk (snd p) \<and> \<not> (different \<and> same_source_resolution (snd p) d)) (w_violations w)))"

subsection \<open>Handling a violation\<close>

definition new_violation_state ::
  "guard_env \<Rightarrow> string \<Rightarrow> string \<Rightarrow> pdict \<Rightarrow> pdict \<Rightarrow> pdict \<Rightarrow> pdict" where
  "new_violation_state env k event_id server d decision =
     (let server_id = text_or_empty (pget server ''id'');
          session_id = text_or_empty (pget d ''session_id'')
      in [(''key'', PStr k),
          (''event_id'', PStr (if event_id \<noteq> [] then event_id
             else make_event_id (PStr server_id) (PStr session_id) (e_now env))),
          (''session_key'', PStr (session_key server_id session_id)),
          (''playback_key'', PStr (playback_key server_id d)),
          (''content_key'', PStr (content_key d)),
          (''server_id'', PStr server_id),
          (''server_name'', PStr (server_label server)),
          (''session_id'', PStr session_id),
          (''item_id'', or_blank d ''item_id''),
          (''title'', py_or (pget d ''title'') (PStr ''Stream'')),
          (''user'', or_blank d ''user''),
          (''client'', or_blank d ''client''),
          (''device'', or_blank d ''device''),
          (''device_id'', or_blank d ''device_id''),
          (''category'', pget decision ''category''),
          (''source_height'', pget decision ''source_height''),
          (''rule_id'', or_blank decision ''rule_id''),
          (''rule_name'', or_blank decision ''rule_name''),
          (''rule_path'', py_or (pget decision ''rule_path'') (PList [])),
          (''first_seen'', e_float env (e_now env)),
          (''first_seen_at'', PStr (e_ts env)),
          (''warned_at'', PNone),
          (''first_warned'', PNone),
          (''first_warned_at'', PNone),
          (''warning_count'', PInt 0),
          (''stopped_at'', PNone),
          (''paused_at'', PNone),
          (''state'', PStr ''detected'')])"

text \<open>The state of the violation refreshed by the stream that is seen now.\<close>

definition refresh_state :: "guard_env \<Rightarrow> string \<Rightarrow> pdict \<Rightarrow> pdict \<Rightarrow> pdict \<Rightarrow> pdict" where
  "refresh_state env server_id d decision state =
     (let pk = playback_key server_id d; ck = content_key d;
          state1 = dupdate state
            [(''playback_key'', py_or (PStr pk) (or_blank state ''playback_key'')),
             (''content_key'', py_or (PStr ck) (or_blank state ''content_key'')),
             (''device_id'', py_or (pget d ''device_id'') (or_blank state ''device_id'')),
             (''last_seen'', e_float env (e_now env)),
             (''last_seen_at'', PStr (e_ts env))];
          state2 = dpop ''missing_since_at'' (dpop ''missing_since'' state1)
      in dupdate state2
        [(''category'', pget decision ''category''),
         (''source_height'', pget decision ''source_height''),
         (''rule_id'', py_or (pget decision ''rule_id'') (or_blank state2 ''rule_id'')),
         (''rule_name'', py_or (pget decision ''rule_name'') (or_blank state2 ''rule_name'')),
         (''rule_path'', py_or (pget decision ''rule_path'') (py_or (pget state2 ''rule_path'') (PList [])))])"

text \<open>
  Opening a violation: whether it is a relapse (it takes over the event of a pending exit or of a
  resolved row) or follows a change of resolution.
\<close>

definition open_violation ::
  "guard_env \<Rightarrow> string \<Rightarrow> pdict \<Rightarrow> pdict \<Rightarrow> pdict \<Rightarrow> guard_world \<Rightarrow> (bool \<times> bool \<times> pdict) \<times> guard_world" where
  "open_violation env k server d decision w =
     (let server_id = text_or_empty (pget server ''id'');
          session_id = text_or_empty (pget d ''session_id'');
          pk = playback_key server_id d;
          (pending_change, w1) = close_pending_different_resolution_event env pk d w;
          (taken, w2) = take_pending_exit_event_id pk d w1;
          event_id = (if taken \<noteq> [] then taken else find_reopenable_event_id env pk session_id d w2);
          change = (event_id = [] \<and>
            (pending_change \<or> find_previous_open_problem_event env pk d True False w2 \<noteq> None
              \<or> find_pending_open_problem_event pk d True w2 \<noteq> None));
          state = new_violation_state env k event_id server d decision;
          state = (if change then dset ''resolution_change_prefix_pending'' (PBool True) state else state)
      in ((event_id \<noteq> [], change, state), set_state k state w2))"

definition note_warning :: "guard_env \<Rightarrow> bool \<Rightarrow> bool \<Rightarrow> pdict \<Rightarrow> pdict" where
  "note_warning env first success state =
     (if \<not> success then dset ''state'' (PStr ''error'') state
      else
        let state1 = (if first \<and> \<not> truthy (pget state ''first_warned'')
              then dupdate state [(''first_warned'', e_float env (e_now env)), (''first_warned_at'', PStr (e_ts env))]
              else state)
        in dupdate state1
          [(''warned'', e_float env (e_now env)),
           (''warned_at'', PStr (e_ts env)),
           (''warning_count'', PInt (int_setting state1 ''warning_count'' 0 + 1)),
           (''state'', PStr ''warned'')])"

definition warn_stream ::
  "guard_env \<Rightarrow> bool \<Rightarrow> string \<Rightarrow> pdict \<Rightarrow> pdict \<Rightarrow> pdict \<Rightarrow> pdict \<Rightarrow> pdict \<Rightarrow> guard_world \<Rightarrow> string \<times> guard_world" where
  "warn_stream env first k server d decision settings state w =
     (case send_warning env server d decision settings state w of
        (success, w1) \<Rightarrow>
          (if success then ''warned'' else ''error'', set_state k (note_warning env first success state) w1))"

text \<open>The part of \<open>_handle_violation\<close> after the state is known: what the mode of the rule asks for.\<close>

definition apply_mode ::
  "guard_env \<Rightarrow> string \<Rightarrow> pdict \<Rightarrow> pdict \<Rightarrow> pdict \<Rightarrow> pdict \<Rightarrow> pdict \<Rightarrow> guard_world \<Rightarrow> string \<times> guard_world" where
  "apply_mode env k server d decision settings state w =
     (let mode = text_or (pget settings ''mode'') ''monitor''
      in if truthy (pget state ''stopped'') \<or> truthy (pget state ''paused'') then (''waiting'', w)
         else if mode = ''monitor'' then (''monitored'', set_state k (dset ''state'' (PStr ''monitor'') state) w)
         else if mode = ''warn'' then
           (if can_send_warning state settings (e_now env)
            then warn_stream env False k server d decision settings state w else (''waiting'', w))
         else if mode = ''stop'' then stop_stream env k server d decision state w
         else if mode = ''warn_then_stop'' then
           (let first_warned = (case instant_at state ''first_warned'' of
                  Some t \<Rightarrow> Some t | None \<Rightarrow> instant_at state ''warned'')
            in if (case first_warned of
                     Some t \<Rightarrow> of_int (int_setting settings ''correction_window_seconds'' 0) \<le> e_now env - t
                   | None \<Rightarrow> False)
               then stop_stream env k server d decision state w
               else if can_send_warning state settings (e_now env)
               then warn_stream env True k server d decision settings state w
               else (''waiting'', w))
         else (''waiting'', w))"

definition handle_violation ::
  "guard_env \<Rightarrow> string \<Rightarrow> pdict \<Rightarrow> pdict \<Rightarrow> pdict \<Rightarrow> pdict \<Rightarrow> guard_world \<Rightarrow> string \<times> guard_world" where
  "handle_violation env k server d decision settings w =
     (let server_id = text_or_empty (pget server ''id'');
          ((relapse, change, state0), w1) = (case map_of (w_violations w) k of
              Some state \<Rightarrow> ((False, False, state), w)
            | None \<Rightarrow> open_violation env k server d decision w);
          state1 = refresh_state env server_id d decision state0;
          w2 = set_state k state1 w1;
          w3 = (if change then record_event_action env server d decision
                  (guard_action state1 ''resolution_change'' ''Cambio risoluzione'' True) w2 else w2);
          state2 = (if change then dupdate state1 [(''resolution_change_prefix_pending'', PBool False),
                     (''resolution_change_recorded'', PBool True)] else state1);
          w4 = (if change then set_state k state2 w3 else w3);
          w5 = (if relapse then record_event_action env server d decision
                  (guard_action state2 ''relapse'' ''Ricaduta'' True) w4 else w4)
      in apply_mode env k server d decision settings state2 w5)"

subsection \<open>A success after the violation was closed\<close>

definition first_of_key :: "string \<Rightarrow> string" where
  "first_of_key pk = hd (split_char (CHR ''|'') pk)"

definition record_later_success :: "guard_env \<Rightarrow> string \<Rightarrow> pdict \<Rightarrow> string list \<Rightarrow> guard_world \<Rightarrow> guard_world" where
  "record_later_success env pk d scanned w =
     (let given = strip (text_or_empty (pget d ''server_id''));
          server_id = (if given \<noteq> [] then given else first_of_key pk);
          session_id = text_or_empty (pget d ''session_id'')
      in if server_id \<noteq> [] \<and> server_id \<notin> set scanned then w
         else if pk = [] \<or> session_id = [] then w
         else (case find_previous_open_problem_event env pk d False True w of
           None \<Rightarrow> w
         | Some previous \<Rightarrow>
             let (action, outcome) = later_success_action_for_stream previous d;
                 known = list_ex (\<lambda>row. pget row ''playback_key'' = PStr pk \<and> pget row ''session_id'' = PStr session_id
                   \<and> list_ex (\<lambda>a. pget a ''action'' = PStr action) (dict_rows (row_actions row)))
                   (load_event_rows env w)
             in if known then w
                else record_event_action env
                  [(''id'', py_or (pget previous ''server_id'') (PStr server_id)),
                   (''name'', or_blank previous ''server_name'')] d
                  [(''category'', PStr ''direct''),
                   (''source_height'', opt_height (stream_height d)),
                   (''rule_id'', or_blank previous ''rule_id''),
                   (''rule_name'', or_blank previous ''rule_name''),
                   (''rule_path'', py_or (pget previous ''rule_path'') (PList []))]
                  \<lparr>ea_event_id = [], ea_action = action, ea_outcome = outcome, ea_success = True,
                   ea_source = ''guard''\<rparr> w))"

subsection \<open>The policy behind the states\<close>

text \<open>
  An abstract violation: how many warnings were sent, when the first and the last one, and
  whether the guard closed the stream.  \<open>policy_step\<close> is what the settings of the rule promise.
\<close>

record violation =
  vi_count :: int
  vi_first :: "rat option"
  vi_last :: "rat option"
  vi_closed :: bool

definition fresh_violation :: violation where
  "fresh_violation = \<lparr>vi_count = 0, vi_first = None, vi_last = None, vi_closed = False\<rparr>"

definition may_warn :: "pdict \<Rightarrow> rat \<Rightarrow> violation \<Rightarrow> bool" where
  "may_warn settings now v \<longleftrightarrow>
     vi_count v < int_setting settings ''max_warnings'' 1 \<and>
     (case vi_last v of
        None \<Rightarrow> True
      | Some t \<Rightarrow> int_setting settings ''message_cooldown_seconds'' 0 \<le> 0 \<or>
          of_int (int_setting settings ''message_cooldown_seconds'' 0) \<le> now - t)"

definition must_stop :: "pdict \<Rightarrow> rat \<Rightarrow> violation \<Rightarrow> bool" where
  "must_stop settings now v \<longleftrightarrow>
     (case (if vi_first v \<noteq> None then vi_first v else vi_last v) of
        None \<Rightarrow> False
      | Some t \<Rightarrow> of_int (int_setting settings ''correction_window_seconds'' 0) \<le> now - t)"

definition warned_violation :: "bool \<Rightarrow> rat \<Rightarrow> violation \<Rightarrow> violation" where
  "warned_violation first now v =
     v\<lparr>vi_count := vi_count v + 1, vi_last := Some now,
       vi_first := (if first \<and> vi_first v = None then Some now else vi_first v)\<rparr>"

definition policy_step :: "pdict \<Rightarrow> rat \<Rightarrow> bool \<Rightarrow> bool \<Rightarrow> violation \<Rightarrow> string \<times> violation" where
  "policy_step settings now sent stopped v =
     (let mode = text_or (pget settings ''mode'') ''monitor'';
          warn = (\<lambda>first. if sent then (''warned'', warned_violation first now v) else (''error'', v));
          stop = (if stopped then (''stopped'', v\<lparr>vi_closed := True\<rparr>) else (''error'', v))
      in if vi_closed v then (''waiting'', v)
         else if mode = ''monitor'' then (''monitored'', v)
         else if mode = ''warn'' then (if may_warn settings now v then warn False else (''waiting'', v))
         else if mode = ''stop'' then stop
         else if mode = ''warn_then_stop''
         then (if must_stop settings now v then stop
               else if may_warn settings now v then warn True else (''waiting'', v))
         else (''waiting'', v))"

text \<open>The abstraction, and the states it is faithful on: instants are floats.\<close>

definition abs_violation :: "pdict \<Rightarrow> violation" where
  "abs_violation state =
     \<lparr>vi_count = int_setting state ''warning_count'' 0, vi_first = instant_at state ''first_warned'',
      vi_last = instant_at state ''warned'',
      vi_closed = (truthy (pget state ''stopped'') \<or> truthy (pget state ''paused''))\<rparr>"

definition instant_ok :: "py \<Rightarrow> bool" where
  "instant_ok v = (case v of PNone \<Rightarrow> True | PFloat (Fin q) _ \<Rightarrow> True | _ \<Rightarrow> False)"

definition violation_ok :: "pdict \<Rightarrow> bool" where
  "violation_ok state \<longleftrightarrow> instant_ok (pget state ''first_warned'') \<and> instant_ok (pget state ''warned'')"

definition abs_at :: "string \<Rightarrow> guard_world \<Rightarrow> violation" where
  "abs_at k w = (case map_of (w_violations w) k of None \<Rightarrow> fresh_violation | Some state \<Rightarrow> abs_violation state)"

definition key_ok :: "string \<Rightarrow> guard_world \<Rightarrow> bool" where
  "key_ok k w = (case map_of (w_violations w) k of None \<Rightarrow> True | Some state \<Rightarrow> violation_ok state)"

subsection \<open>What the log operations leave alone\<close>

lemma save_rows_frame [simp]:
  "w_violations (save_stream_rows env rows w) = w_violations w"
  "w_violations (save_event_rows env rows w) = w_violations w"
  "w_calls (save_stream_rows env rows w) = w_calls w"
  "w_calls (save_event_rows env rows w) = w_calls w"
  by (simp_all add: save_stream_rows_def save_event_rows_def)

lemma record_stream_observation_frame [simp]:
  "w_violations (record_stream_observation env server d decision a w) = w_violations w"
  "w_calls (record_stream_observation env server d decision a w) = w_calls w"
  by (simp_all add: record_stream_observation_def Let_def)

lemma record_event_action_frame [simp]:
  "w_violations (record_event_action env server d decision a w) = w_violations w"
  "w_calls (record_event_action env server d decision a w) = w_calls w"
  by (simp_all add: record_event_action_def Let_def)

lemma set_state_simps [simp]:
  "w_violations (set_state k state w) = dset k state (w_violations w)"
  "w_calls (set_state k state w) = w_calls w"
  by (simp_all add: set_state_def)

lemma make_call_simps [simp]:
  "fst (make_call env c w) = e_answer env c"
  "w_violations (snd (make_call env c w)) = w_violations w"
  "w_calls (snd (make_call env c w)) = w_calls w @ [c]"
  by (simp_all add: make_call_def)

subsection \<open>The states refine the policy\<close>

lemma pget_dupdate_other: "k \<notin> fst ` set e \<Longrightarrow> pget (dupdate d e) k = pget d k"
  by (induction e arbitrary: d) auto

definition policy_keys :: "string list" where
  "policy_keys = [''warned'', ''first_warned'', ''warning_count'', ''stopped'', ''paused'']"

lemma refresh_state_gets:
  assumes "k \<in> set policy_keys"
  shows "pget (refresh_state env sid d decision state) k = pget state k"
proof -
  have "k \<notin> {''playback_key'', ''content_key'', ''device_id'', ''last_seen'', ''last_seen_at'', ''missing_since'',
      ''missing_since_at'', ''category'', ''source_height'', ''rule_id'', ''rule_name'', ''rule_path''}"
    using assms unfolding policy_keys_def by auto
  then show ?thesis
    unfolding refresh_state_def Let_def
    by (subst pget_dupdate_other, simp, simp only: pget_dpop, simp add: pget_dupdate_other del: dupdate_Cons)
qed

lemma abs_cong:
  assumes "\<And>k. k \<in> set policy_keys \<Longrightarrow> pget state' k = pget state k"
  shows "abs_violation state' = abs_violation state" "violation_ok state' = violation_ok state"
proof -
  have "pget state' ''warned'' = pget state ''warned''" "pget state' ''first_warned'' = pget state ''first_warned''"
    "pget state' ''warning_count'' = pget state ''warning_count''" "pget state' ''stopped'' = pget state ''stopped''"
    "pget state' ''paused'' = pget state ''paused''"
    by (rule assms, simp add: policy_keys_def)+
  then show "abs_violation state' = abs_violation state" "violation_ok state' = violation_ok state"
    by (simp_all add: abs_violation_def violation_ok_def int_setting_def instant_at_def)
qed

lemmas refresh_state_abs = abs_cong [OF refresh_state_gets]

lemma set_other_abs:
  assumes "j \<notin> set policy_keys"
  shows "abs_violation (dset j v state) = abs_violation state" "violation_ok (dset j v state) = violation_ok state"
proof -
  have "pget (dset j v state) k = pget state k" if "k \<in> set policy_keys" for k
    using that assms by auto
  then show "abs_violation (dset j v state) = abs_violation state" "violation_ok (dset j v state) = violation_ok state"
    using abs_cong [of "dset j v state" state] by blast+
qed

lemma set_state_abs:
  "abs_violation (dset ''state'' v state) = abs_violation state"
  "violation_ok (dset ''state'' v state) = violation_ok state"
  by (rule set_other_abs, simp add: policy_keys_def)+

lemma change_flag_abs:
  "abs_violation (dset ''resolution_change_prefix_pending'' v state) = abs_violation state"
  "violation_ok (dset ''resolution_change_prefix_pending'' v state) = violation_ok state"
  "abs_violation (dset ''resolution_change_recorded'' v state) = abs_violation state"
  "violation_ok (dset ''resolution_change_recorded'' v state) = violation_ok state"
  by (rule set_other_abs, simp add: policy_keys_def)+

lemma new_state_abs:
  "abs_violation (new_violation_state env k event_id server d decision) = fresh_violation"
  "violation_ok (new_violation_state env k event_id server d decision)"
  by (simp_all add: abs_violation_def violation_ok_def int_setting_def instant_at_def fresh_violation_def
      new_violation_state_def Let_def py_or_def instant_ok_def)

lemma instant_ok_at:
  assumes "instant_ok (pget state k)"
  shows "truthy (pget state k) \<longleftrightarrow> instant_at state k \<noteq> None"
  using assms by (auto simp: instant_ok_def instant_at_def number_of_def split: py.splits pyfloat.splits)

lemma note_warning_abs:
  assumes "0 < e_now env" "violation_ok state"
  shows "abs_violation (note_warning env first True state) = warned_violation first (e_now env) (abs_violation state)"
    and "violation_ok (note_warning env first True state)"
proof -
  have now: "truthy (e_float env (e_now env))" "number_of (e_float env (e_now env)) = Some (e_now env)"
    "instant_ok (e_float env (e_now env))"
    using assms(1) by (simp_all add: e_float_def number_of_def instant_ok_def)
  have first: "truthy (pget state ''first_warned'') \<longleftrightarrow> instant_at state ''first_warned'' \<noteq> None"
    by (rule instant_ok_at) (use assms(2) in \<open>simp add: violation_ok_def\<close>)
  show "abs_violation (note_warning env first True state) = warned_violation first (e_now env) (abs_violation state)"
    "violation_ok (note_warning env first True state)"
    using assms(2) now first
    by (auto simp: note_warning_def Let_def abs_violation_def warned_violation_def violation_ok_def instant_at_def
        int_setting_def py_or_def)
qed

lemma note_error_abs:
  "abs_violation (note_warning env first False state) = abs_violation state"
  "violation_ok (note_warning env first False state) = violation_ok state"
  by (simp_all add: note_warning_def set_state_abs)

definition stop_call :: "pdict \<Rightarrow> pdict \<Rightarrow> guard_call" where
  "stop_call server d = StopSession (text_or_empty (pget server ''id'')) (text_or_empty (pget d ''session_id''))"

lemma stop_stream_refines:
  assumes "0 < e_now env" "violation_ok state" "\<not> vi_closed (abs_violation state)"
  shows "fst (stop_stream env k server d decision state w) = (if e_answer env (stop_call server d) then ''stopped'' else ''error'')"
    and "abs_at k (snd (stop_stream env k server d decision state w)) =
      (if e_answer env (stop_call server d) then (abs_violation state)\<lparr>vi_closed := True\<rparr> else abs_violation state)"
    and "key_ok k (snd (stop_stream env k server d decision state w))"
  using assms
  by (auto simp: stop_stream_def stop_call_def make_call_def Let_def abs_at_def key_ok_def abs_violation_def
      violation_ok_def int_setting_def instant_at_def e_float_def)

lemma warn_stream_refines:
  assumes "0 < e_now env" "violation_ok state"
  shows "fst (warn_stream env first k server d decision settings state w) =
      (if e_answer env (message_call env server d settings) then ''warned'' else ''error'')"
    and "abs_at k (snd (warn_stream env first k server d decision settings state w)) =
      (if e_answer env (message_call env server d settings)
       then warned_violation first (e_now env) (abs_violation state) else abs_violation state)"
    and "key_ok k (snd (warn_stream env first k server d decision settings state w))"
  using assms note_warning_abs [OF assms, of first] note_error_abs [of env first state]
  by (cases "e_answer env (message_call env server d settings)";
      simp add: warn_stream_def send_warning_def make_call_def abs_at_def key_ok_def)+

lemma can_send_warning_abs: "can_send_warning state settings now \<longleftrightarrow> may_warn settings now (abs_violation state)"
  by (auto simp: can_send_warning_def may_warn_def abs_violation_def Let_def split: option.splits)

lemma apply_mode_refines:
  assumes "0 < e_now env" "violation_ok state" "map_of (w_violations w) k = Some state"
  shows "(fst (apply_mode env k server d decision settings state w),
      abs_at k (snd (apply_mode env k server d decision settings state w))) =
    policy_step settings (e_now env) (e_answer env (message_call env server d settings))
      (e_answer env (stop_call server d)) (abs_violation state)"
    and "key_ok k (snd (apply_mode env k server d decision settings state w))"
proof -
  have here: "abs_at k w = abs_violation state" "key_ok k w"
    using assms(2,3) by (simp_all add: abs_at_def key_ok_def)
  have monitor: "abs_at k (set_state k (dset ''state'' v state) w) = abs_violation state"
    "key_ok k (set_state k (dset ''state'' v state) w)" for v
    using assms(2) by (simp_all add: abs_at_def key_ok_def set_state_abs)
  have closed: "vi_closed (abs_violation state) \<longleftrightarrow> truthy (pget state ''stopped'') \<or> truthy (pget state ''paused'')"
    by (simp add: abs_violation_def)
  have stop: "(case (case instant_at state ''first_warned'' of Some t \<Rightarrow> Some t | None \<Rightarrow> instant_at state ''warned'') of
        Some t \<Rightarrow> of_int (int_setting settings ''correction_window_seconds'' 0) \<le> e_now env - t | None \<Rightarrow> False)
      \<longleftrightarrow> must_stop settings (e_now env) (abs_violation state)"
    by (simp add: must_stop_def abs_violation_def split: option.split)
  note steps = stop_stream_refines [OF assms(1,2)] warn_stream_refines [OF assms(1,2)]
  show "(fst (apply_mode env k server d decision settings state w),
      abs_at k (snd (apply_mode env k server d decision settings state w))) =
    policy_step settings (e_now env) (e_answer env (message_call env server d settings))
      (e_answer env (stop_call server d)) (abs_violation state)"
    unfolding apply_mode_def policy_step_def Let_def stop can_send_warning_abs closed [symmetric]
    by (simp add: here monitor steps)
  show "key_ok k (snd (apply_mode env k server d decision settings state w))"
    unfolding apply_mode_def Let_def stop can_send_warning_abs closed [symmetric]
    by (simp add: here monitor steps)
qed

lemma close_pending_keeps:
  "map_of (w_violations w) k = None \<Longrightarrow>
     map_of (w_violations (snd (close_pending_different_resolution_event env pk d w))) k = None"
  "map_of (w_violations w) k = None \<Longrightarrow> map_of (w_violations (snd (take_pending_exit_event_id pk d w))) k = None"
  by (auto simp: close_pending_different_resolution_event_def record_exit_for_violation_state_def
      take_pending_exit_event_id_def split: option.split)

lemma open_violation_state:
  assumes "open_violation env k server d decision w = ((relapse, change, state), w')"
  shows "abs_violation state = fresh_violation" "violation_ok state" "map_of (w_violations w') k = Some state"
proof -
  obtain event_id where st: "state = new_violation_state env k event_id server d decision \<or>
      state = dset ''resolution_change_prefix_pending'' (PBool True) (new_violation_state env k event_id server d decision)"
    using assms by (auto simp: open_violation_def Let_def split: prod.splits if_splits)
  show "abs_violation state = fresh_violation" "violation_ok state"
    using st new_state_abs [of env k event_id server d decision] by (auto simp: change_flag_abs)
  show "map_of (w_violations w') k = Some state"
    using assms by (auto simp: open_violation_def Let_def split: prod.splits)
qed

lemma change_flags_abs:
  "abs_violation (dupdate state [(''resolution_change_prefix_pending'', u), (''resolution_change_recorded'', v)])
     = abs_violation state"
  "violation_ok (dupdate state [(''resolution_change_prefix_pending'', u), (''resolution_change_recorded'', v)])
     = violation_ok state"
  by (simp_all add: change_flag_abs)

lemma handle_violation_steps:
  assumes "0 < e_now env" "key_ok k w"
  shows "(fst (handle_violation env k server d decision settings w),
      abs_at k (snd (handle_violation env k server d decision settings w))) =
    policy_step settings (e_now env) (e_answer env (message_call env server d settings))
      (e_answer env (stop_call server d)) (abs_at k w)"
    and "key_ok k (snd (handle_violation env k server d decision settings w))"
proof -
  obtain relapse change state0 w1 where eq: "(case map_of (w_violations w) k of
        Some state \<Rightarrow> ((False, False, state), w)
      | None \<Rightarrow> open_violation env k server d decision w) = ((relapse, change, state0), w1)"
    by (metis prod_cases3 surj_pair)
  have state0: "abs_violation state0 = abs_at k w" "violation_ok state0"
    using eq assms(2) open_violation_state [of env k server d decision w relapse change state0 w1]
    by (auto simp: abs_at_def key_ok_def split: option.splits)
  define sid where "sid = text_or_empty (pget server ''id'')"
  define state1 where "state1 = refresh_state env sid d decision state0"
  define state2 where "state2 = (if change then dupdate state1 [(''resolution_change_prefix_pending'', PBool False),
      (''resolution_change_recorded'', PBool True)] else state1)"
  have state2: "abs_violation state2 = abs_at k w" "violation_ok state2"
    using state0 refresh_state_abs [of env sid d decision state0]
    unfolding state2_def state1_def by (simp_all only: change_flags_abs if_split split: if_split) auto
  define w3 where "w3 = (if change then record_event_action env server d decision
      (guard_action state1 ''resolution_change'' ''Cambio risoluzione'' True) (set_state k state1 w1)
      else set_state k state1 w1)"
  define w5 where "w5 = (if relapse then record_event_action env server d decision
      (guard_action state2 ''relapse'' ''Ricaduta'' True) (if change then set_state k state2 w3 else w3)
      else if change then set_state k state2 w3 else w3)"
  have at: "map_of (w_violations w5) k = Some state2"
    by (simp add: w5_def w3_def state2_def)
  have handle: "handle_violation env k server d decision settings w =
      apply_mode env k server d decision settings state2 w5"
    unfolding handle_violation_def Let_def eq split_conv sid_def [symmetric] state1_def [symmetric]
      state2_def [symmetric] w3_def [symmetric] w5_def
    by (cases change; cases relapse) (simp_all add: w3_def state2_def)
  note apply_mode_refines [OF assms(1) state2(2) at, of server d decision settings]
  then show "(fst (handle_violation env k server d decision settings w),
      abs_at k (snd (handle_violation env k server d decision settings w))) =
    policy_step settings (e_now env) (e_answer env (message_call env server d settings))
      (e_answer env (stop_call server d)) (abs_at k w)"
    "key_ok k (snd (handle_violation env k server d decision settings w))"
    by (simp_all only: handle state2(1))
qed

subsection \<open>Handling a violation again and again\<close>

text \<open>
  The scans of one violation: each brings its own instant and answers of Emby, its server, stream
  and decision; the settings are those of the rule.  \<open>policy_run\<close> is the same of the policy.
\<close>

type_synonym sighting = "guard_env \<times> pdict \<times> pdict \<times> pdict"

fun handle_run :: "string \<Rightarrow> pdict \<Rightarrow> sighting list \<Rightarrow> guard_world \<Rightarrow> string list \<times> guard_world" where
  "handle_run k settings [] w = ([], w)"
| "handle_run k settings ((env, server, d, decision) # seen) w =
     (case handle_violation env k server d decision settings w of
        (answer, w1) \<Rightarrow> (case handle_run k settings seen w1 of (answers, w2) \<Rightarrow> (answer # answers, w2)))"

definition sighting_now :: "sighting \<Rightarrow> rat" where
  "sighting_now s = e_now (fst s)"

fun policy_run :: "pdict \<Rightarrow> (rat \<times> bool \<times> bool) list \<Rightarrow> violation \<Rightarrow> string list" where
  "policy_run settings [] v = []"
| "policy_run settings ((now, sent, stopped) # seen) v =
     (case policy_step settings now sent stopped v of (answer, v1) \<Rightarrow> answer # policy_run settings seen v1)"

definition policy_view :: "pdict \<Rightarrow> sighting \<Rightarrow> rat \<times> bool \<times> bool" where
  "policy_view settings s = (case s of (env, server, d, decision) \<Rightarrow>
     (e_now env, e_answer env (message_call env server d settings), e_answer env (stop_call server d)))"

lemma handle_run_refines:
  assumes "list_all (\<lambda>s. 0 < sighting_now s) seen" "key_ok k w"
  shows "fst (handle_run k settings seen w) = policy_run settings (map (policy_view settings) seen) (abs_at k w)"
  using assms
proof (induction seen arbitrary: w)
  case (Cons s seen)
  obtain env server d decision where s: "s = (env, server, d, decision)"
    by (metis prod_cases4)
  have now: "0 < e_now env"
    using Cons.prems(1) by (simp add: s sighting_now_def)
  obtain answer w1 where w1: "handle_violation env k server d decision settings w = (answer, w1)"
    by (metis surj_pair)
  note steps = handle_violation_steps [OF now Cons.prems(2), of server d decision settings, unfolded w1 fst_conv snd_conv]
  show ?case
    using Cons.IH [OF _ steps(2)] Cons.prems(1) steps(1) [symmetric]
    by (cases "handle_run k settings seen w1") (simp add: s w1 policy_view_def)
qed simp

lemma policy_run_length [simp]: "length (policy_run settings seen v) = length seen"
  by (induction settings seen v rule: policy_run.induct) (auto split: prod.split)

lemma policy_step_warned:
  assumes "policy_step settings now sent stopped v = (answer, v')"
  shows "answer = ''warned'' \<Longrightarrow> vi_count v < int_setting settings ''max_warnings'' 1 \<and> vi_count v' = vi_count v + 1"
    and "answer \<noteq> ''warned'' \<Longrightarrow> vi_count v' = vi_count v"
  using assms by (auto simp: policy_step_def Let_def may_warn_def warned_violation_def split: if_splits)

lemma policy_run_warnings:
  assumes "vi_count v \<le> max 0 (int_setting settings ''max_warnings'' 1)"
  shows "vi_count v + int (length (filter (\<lambda>a. a = ''warned'') (policy_run settings seen v)))
    \<le> max 0 (int_setting settings ''max_warnings'' 1)"
  using assms
proof (induction settings seen v rule: policy_run.induct)
  case (2 settings now sent stopped seen v)
  obtain answer v1 where v1: "policy_step settings now sent stopped v = (answer, v1)"
    by (metis surj_pair)
  note step = policy_step_warned [OF v1]
  have "vi_count v1 \<le> max 0 (int_setting settings ''max_warnings'' 1)"
    using step 2(2) by (cases "answer = ''warned''") auto
  from 2(1) [OF v1 [symmetric] this] show ?case
    using step v1 by (cases "answer = ''warned''") simp_all
qed simp

text \<open>
  In the mode that warns before it stops, the first warning is remembered: the history of the
  instants at which a warning was sent explains the state.
\<close>

definition warned_history :: "rat list \<Rightarrow> violation \<Rightarrow> bool" where
  "warned_history ts v \<longleftrightarrow>
     (case vi_first v of Some t \<Rightarrow> t \<in> set ts | None \<Rightarrow> vi_last v = None)"

lemma policy_step_history:
  assumes "policy_step settings now sent stopped v = (answer, v')" "pget settings ''mode'' = PStr ''warn_then_stop''"
    "warned_history ts v"
  shows "answer = ''stopped'' \<Longrightarrow> \<exists>t \<in> set ts. of_int (int_setting settings ''correction_window_seconds'' 0) \<le> now - t"
    and "warned_history (if answer = ''warned'' then now # ts else ts) v'"
  using assms
  by (auto simp: policy_step_def Let_def must_stop_def warned_violation_def warned_history_def text_or_def py_or_def
      split: if_splits option.splits)

lemma policy_run_stop:
  assumes "pget settings ''mode'' = PStr ''warn_then_stop''" "warned_history ts v"
    "i < length seen" "policy_run settings seen v ! i = ''stopped''"
  shows "(\<exists>t \<in> set ts. of_int (int_setting settings ''correction_window_seconds'' 0) \<le> fst (seen ! i) - t) \<or>
    (\<exists>j < i. policy_run settings seen v ! j = ''warned'' \<and>
       of_int (int_setting settings ''correction_window_seconds'' 0) \<le> fst (seen ! i) - fst (seen ! j))"
  using assms
proof (induction settings seen v arbitrary: i ts rule: policy_run.induct)
  case (2 settings now sent stopped seen v)
  obtain answer v1 where v1: "policy_step settings now sent stopped v = (answer, v1)"
    by (metis surj_pair)
  note step = policy_step_history [OF v1 2(2,3)]
  show ?case
  proof (cases i)
    case 0
    then show ?thesis
      using step(1) 2(5) v1 by simp
  next
    case (Suc n)
    have n: "n < length seen" "policy_run settings seen v1 ! n = ''stopped''"
      using 2(4,5) Suc v1 by simp_all
    from 2(1) [OF v1 [symmetric] 2(2) step(2) n]
    show ?thesis
    proof
      assume "\<exists>t \<in> set (if answer = ''warned'' then now # ts else ts).
        of_int (int_setting settings ''correction_window_seconds'' 0) \<le> fst (seen ! n) - t"
      then show ?thesis
        using v1 Suc by (auto split: if_splits)
    next
      assume "\<exists>j < n. policy_run settings seen v1 ! j = ''warned'' \<and>
        of_int (int_setting settings ''correction_window_seconds'' 0) \<le> fst (seen ! n) - fst (seen ! j)"
      then obtain j where "j < n" "policy_run settings seen v1 ! j = ''warned''"
        "of_int (int_setting settings ''correction_window_seconds'' 0) \<le> fst (seen ! n) - fst (seen ! j)"
        by blast
      then have "\<exists>j < i. policy_run settings ((now, sent, stopped) # seen) v ! j = ''warned'' \<and>
        of_int (int_setting settings ''correction_window_seconds'' 0)
          \<le> fst (((now, sent, stopped) # seen) ! i) - fst (((now, sent, stopped) # seen) ! j)"
        using v1 Suc by (intro exI [of _ "Suc j"]) simp
      then show ?thesis ..
    qed
  qed
qed simp

text \<open>
  C24: Handling a violation implements the policy of its rule: the answer and the new state of the
  violation are those of the abstract step, whatever the event log and the other violations hold.
\<close>

theorem handle_violation_refines_policy:
  assumes "0 < e_now env" "key_ok k w"
  shows "(fst (handle_violation env k server d decision settings w),
      abs_at k (snd (handle_violation env k server d decision settings w))) =
    policy_step settings (e_now env) (e_answer env (message_call env server d settings))
      (e_answer env (stop_call server d)) (abs_at k w)"
  by (rule handle_violation_steps(1) [OF assms])


text \<open>A guard whose calls succeed, at an instant; a rule that warns first and stops after ten seconds.\<close>

definition sample_env :: "rat \<Rightarrow> guard_env" where
  "sample_env t = \<lparr>e_now = t, e_instant = 0, e_repr = (\<lambda>_. ''''), e_answer = (\<lambda>_. True), e_format = (\<lambda>s _. Some s)\<rparr>"

definition empty_world :: guard_world where
  "empty_world = \<lparr>w_violations = [], w_events = PNone, w_streams = PNone, w_playback = PNone,
     w_generations = [], w_forgotten = [], w_settings = PNone, w_result = [], w_calls = []\<rparr>"

definition warn_then_stop_rule :: pdict where
  "warn_then_stop_rule = [(''mode'', PStr ''warn_then_stop''), (''correction_window_seconds'', PInt 10)]"

definition sample_sightings :: "sighting list" where
  "sample_sightings = [(sample_env 1, [], [], []), (sample_env 20, [], [], [])]"

lemma sample_run:
  "list_all (\<lambda>s. 0 < sighting_now s) sample_sightings" "map_of (w_violations empty_world) ''k'' = None"
  "fst (handle_run ''k'' warn_then_stop_rule sample_sightings empty_world) = [''warned'', ''stopped'']"
proof -
  show pos: "list_all (\<lambda>s. 0 < sighting_now s) sample_sightings" and none: "map_of (w_violations empty_world) ''k'' = None"
    by (simp_all add: sample_sightings_def sighting_now_def sample_env_def empty_world_def)
  have "key_ok ''k'' empty_world" "abs_at ''k'' empty_world = fresh_violation"
    using none by (simp_all add: key_ok_def abs_at_def)
  then have "fst (handle_run ''k'' warn_then_stop_rule sample_sightings empty_world) =
      policy_run warn_then_stop_rule (map (policy_view warn_then_stop_rule) sample_sightings) fresh_violation"
    using handle_run_refines [OF pos, of "''k''" empty_world warn_then_stop_rule] by simp
  also have "\<dots> = [''warned'', ''stopped'']"
    by (simp add: sample_sightings_def policy_view_def sample_env_def policy_step_def
        fresh_violation_def text_or_def py_or_def warn_then_stop_rule_def may_warn_def must_stop_def int_setting_def
        warned_violation_def)
  finally show "fst (handle_run ''k'' warn_then_stop_rule sample_sightings empty_world) = [''warned'', ''stopped'']" .
qed

theorem handle_violation_refines_policy_witness:
  "fst (handle_violation (sample_env 1) ''k'' [] [] [] warn_then_stop_rule empty_world) = ''warned''"
  using handle_violation_refines_policy [of "sample_env 1" "''k''" empty_world "[]" "[]" "[]" warn_then_stop_rule]
  by (simp add: sample_env_def policy_step_def empty_world_def key_ok_def abs_at_def
      fresh_violation_def text_or_def py_or_def warn_then_stop_rule_def may_warn_def must_stop_def int_setting_def)

text \<open>
  A violation is warned at most \<open>max_warnings\<close> times, however often it is seen and whatever
  the log and the other violations hold.
\<close>

theorem warnings_bounded:
  assumes "list_all (\<lambda>s. 0 < sighting_now s) seen" "map_of (w_violations w) k = None"
  shows "int (length (filter (\<lambda>a. a = ''warned'') (fst (handle_run k settings seen w))))
    \<le> max 0 (int_setting settings ''max_warnings'' 1)"
proof -
  have "key_ok k w" "abs_at k w = fresh_violation"
    using assms(2) by (simp_all add: key_ok_def abs_at_def)
  then show ?thesis
    using policy_run_warnings [of fresh_violation settings "map (policy_view settings) seen"]
    by (simp add: handle_run_refines [OF assms(1)] fresh_violation_def)
qed

theorem warnings_bounded_witness:
  "int (length (filter (\<lambda>a. a = ''warned'') (fst (handle_run ''k'' warn_then_stop_rule sample_sightings empty_world))))
    \<le> max 0 (int_setting warn_then_stop_rule ''max_warnings'' 1)"
  by (rule warnings_bounded [OF sample_run(1,2)])

text \<open>
  C27: Under a rule that warns before it stops, a stream is stopped only after one of its earlier
  sightings sent a warning, and not before the correction window of the rule has passed since.
\<close>

theorem stop_only_after_warning:
  assumes "list_all (\<lambda>s. 0 < sighting_now s) seen" "map_of (w_violations w) k = None"
    "pget settings ''mode'' = PStr ''warn_then_stop''"
    "i < length seen" "fst (handle_run k settings seen w) ! i = ''stopped''"
  shows "\<exists>j. j < i \<and> fst (handle_run k settings seen w) ! j = ''warned'' \<and>
    of_int (int_setting settings ''correction_window_seconds'' 0) \<le> sighting_now (seen ! i) - sighting_now (seen ! j)"
proof -
  have key: "key_ok k w" "abs_at k w = fresh_violation" "warned_history [] fresh_violation"
    using assms(2) by (simp_all add: key_ok_def abs_at_def warned_history_def fresh_violation_def)
  have view: "fst (policy_view settings s) = sighting_now s" for s
    by (simp add: policy_view_def sighting_now_def split: prod.split)
  show ?thesis
    using policy_run_stop [OF assms(3) key(3), of i "map (policy_view settings) seen"] assms(4,5)
    by (auto simp: handle_run_refines [OF assms(1) key(1)] key(2) view)
qed

theorem stop_only_after_warning_witness:
  "\<exists>j. j < 1 \<and> fst (handle_run ''k'' warn_then_stop_rule sample_sightings empty_world) ! j = ''warned'' \<and>
    of_int (int_setting warn_then_stop_rule ''correction_window_seconds'' 0)
      \<le> sighting_now (sample_sightings ! 1) - sighting_now (sample_sightings ! j)"
  by (rule stop_only_after_warning [OF sample_run(1,2)])
    (simp_all add: sample_run(3), simp_all add: warn_then_stop_rule_def sample_sightings_def)

subsection \<open>The calls to Emby\<close>

lemma send_warning_calls:
  "w_calls (snd (send_warning env server d decision settings state w)) = w_calls w @ [message_call env server d settings]"
  by (simp add: send_warning_def make_call_def)

lemma open_violation_calls: "w_calls (snd (open_violation env k server d decision w)) = w_calls w"
  by (auto simp: open_violation_def close_pending_different_resolution_event_def record_exit_for_violation_state_def
      take_pending_exit_event_id_def Let_def split: prod.splits option.splits if_splits)

lemma monitor_calls:
  assumes "text_or (pget settings ''mode'') ''monitor'' = ''monitor''"
  shows "w_calls (snd (handle_violation env k server d decision settings w)) = w_calls w"
proof -
  obtain opened w1 where eq: "(case map_of (w_violations w) k of
        Some state \<Rightarrow> ((False, False, state), w)
      | None \<Rightarrow> open_violation env k server d decision w) = (opened, w1)"
    by (metis surj_pair)
  have "w_calls w1 = w_calls w"
    using eq open_violation_calls [of env k server d decision w] by (cases "map_of (w_violations w) k") simp_all
  then show ?thesis
    by (cases opened) (simp add: handle_violation_def eq apply_mode_def assms Let_def)
qed

text \<open>
  A rule in monitor mode never acts: over any sightings of a violation the guard sends no
  message and closes no session.
\<close>

theorem monitor_never_acts:
  assumes "text_or (pget settings ''mode'') ''monitor'' = ''monitor''"
  shows "w_calls (snd (handle_run k settings seen w)) = w_calls w"
proof (induction seen arbitrary: w)
  case (Cons s seen)
  obtain env server d decision where s: "s = (env, server, d, decision)"
    by (metis prod_cases4)
  obtain answer w1 where w1: "handle_violation env k server d decision settings w = (answer, w1)"
    by (metis surj_pair)
  have "w_calls w1 = w_calls w"
    using monitor_calls [OF assms, of env k server d decision w] w1 by simp
  then show ?case
    using Cons.IH [of w1] by (cases "handle_run k settings seen w1") (simp add: s w1)
qed simp

theorem monitor_never_acts_witness:
  "w_calls (snd (handle_run ''k'' [] sample_sightings empty_world)) = []"
  using monitor_never_acts [of "[]" "''k''" sample_sightings empty_world]
  by (simp add: text_or_def py_or_def empty_world_def)

end
