(* ===== verification/Guard_Playback.thy ===== *)
theory Guard_Playback
  imports Guard_Streams
begin

text \<open>
  Playback events that Emby or the Event Bridge plugin sends (\<open>emby_runtime/playback_events.py\<close> and
  \<open>_flatten_event_bridge_payload\<close> of \<open>transcode_guard_events.py\<close>): the names under which a field may
  arrive, the action an event name stands for, and the event the Transcode Guard records.  A
  payload is a dictionary; every function is total on any decoded JSON.
\<close>

definition playback_event_outcomes :: "(string, string) dict" where
  "playback_event_outcomes =
    [(''time_update'', ''aggiornamento posizione''), (''exit'', ''uscito''), (''play'', ''riproduzione''),
     (''pause'', ''pausa''), (''unpause'', ''ripresa''), (''volume_change'', ''cambio volume''),
     (''repeat_mode_change'', ''cambio ripetizione''), (''quality_change'', ''cambio qualit'' @ [CHR 0xE0]),
     (''audio_change'', ''cambio audio''), (''subtitle_change'', ''cambio sottotitoli''),
     (''playlist_item_move'', ''playlist: spostamento''), (''playlist_item_remove'', ''playlist: rimozione''),
     (''playlist_item_add'', ''playlist: aggiunta''), (''state_change'', ''cambio stato''),
     (''subtitle_offset_change'', ''cambio offset sottotitoli''),
     (''playback_rate_change'', ''cambio velocit'' @ [CHR 0xE0]), (''shuffle_change'', ''cambio shuffle''),
     (''sleep_timer_change'', ''cambio sleep timer''), (''player_event'', ''evento player''),
     (''plugin_event'', ''evento plugin'')]"

definition plugin_source_aliases :: "string list" where
  "plugin_source_aliases = [''plugin'', ''emby_plugin'', ''octohubs_plugin'', ''octohubs_event_bridge'',
     ''octohubs.eventbridge'', ''event_bridge'']"

subsection \<open>Reading a field under several names\<close>

fun first_value :: "pdict \<Rightarrow> string list \<Rightarrow> py" where
  "first_value source [] = PNone"
| "first_value source (k # ks) = (if has_key k source then pget source k else first_value source ks)"

fun first_present :: "pdict list \<Rightarrow> string list \<Rightarrow> py" where
  "first_present [] ks = PNone"
| "first_present (source # sources) ks =
     (if list_ex (\<lambda>k. has_key k source) ks then first_value source ks else first_present sources ks)"

text \<open>\<open>str(a or b or .. or "").strip()\<close>.\<close>

definition first_text :: "py list \<Rightarrow> string" where
  "first_text vs = strip (py_str (foldr py_or vs (PStr [])))"

definition sub_dict :: "pdict \<Rightarrow> string \<Rightarrow> pdict" where
  "sub_dict d k = (case pget d k of PDict x \<Rightarrow> x | _ \<Rightarrow> [])"

definition json_objects :: "py list \<Rightarrow> pdict list" where
  "json_objects vs = concat (map (\<lambda>v. case v of PDict d \<Rightarrow> [d] | _ \<Rightarrow> []) vs)"

subsection \<open>Actions\<close>

definition action_names :: "(string list \<times> string) list" where
  "action_names =
    [([''stopped'', ''stop'', ''playbackstopped'', ''playbackstop''], ''exit''),
     ([''play'', ''playing'', ''playbackstart'', ''playbackstarted''], ''play''),
     ([''timeupdate'', ''progress''], ''time_update''),
     ([''pause'', ''paused''], ''pause''),
     ([''unpause'', ''unpaused'', ''resume'', ''resumed''], ''unpause''),
     ([''volumechange'', ''volumechanged''], ''volume_change''),
     ([''repeatmodechange'', ''repeatmodechanged''], ''repeat_mode_change''),
     ([''qualitychange'', ''qualitychanged''], ''quality_change''),
     ([''audiotrackchange'', ''audiotrackchanged'', ''audiochange''], ''audio_change''),
     ([''subtitletrackchange'', ''subtitletrackchanged'', ''subtitlechange''], ''subtitle_change''),
     ([''playlistitemmove'', ''playlistitemmoved''], ''playlist_item_move''),
     ([''playlistitemremove'', ''playlistitemremoved''], ''playlist_item_remove''),
     ([''playlistitemadd'', ''playlistitemadded''], ''playlist_item_add''),
     ([''statechange'', ''statechanged''], ''state_change''),
     ([''subtitleoffsetchange'', ''subtitleoffsetchanged''], ''subtitle_offset_change''),
     ([''playbackratechange'', ''playbackratechanged''], ''playback_rate_change''),
     ([''shufflechange'', ''shufflechanged''], ''shuffle_change''),
     ([''sleeptimerchange'', ''sleeptimerchanged''], ''sleep_timer_change'')]"

definition playback_event_action :: "string \<Rightarrow> string \<Rightarrow> string" where
  "playback_event_action event_name message_type =
     (let k = lower (strip event_name);
          message = lower (strip message_type);
          combined = (if k \<noteq> [] then k else message)
      in case find (\<lambda>p. combined \<in> set (fst p)) action_names of
           Some (_, action) \<Rightarrow> action
         | None \<Rightarrow> if message \<in> {''playbackstopped'', ''playbackstop''} then ''exit'' else [])"

subsection \<open>Sessions\<close>

definition extract_session_payloads :: "pdict \<Rightarrow> pdict list" where
  "extract_session_payloads event_data =
     (case pget event_data ''Data'' of
        PList xs \<Rightarrow> json_objects xs
      | PDict data \<Rightarrow>
          (case find (\<lambda>v. case v of PList _ \<Rightarrow> True | _ \<Rightarrow> False)
              (map (pget data) [''Sessions'', ''Items'', ''SessionsInfo'']) of
             Some (PList xs) \<Rightarrow> json_objects xs
           | _ \<Rightarrow> [data])
      | _ \<Rightarrow> [])"

definition session_id_keys :: "string list" where
  "session_id_keys = [''SessionId'', ''SessionID'', ''sessionId'', ''session_id'', ''Id'', ''id'']"

definition candidate_session :: "py \<Rightarrow> string" where
  "candidate_session v =
     (case v of PDict d \<Rightarrow> first_text [pget d ''Id'', pget d ''SessionId''] | _ \<Rightarrow> [])"

definition extract_session_id :: "pdict \<Rightarrow> pdict \<Rightarrow> pdict \<Rightarrow> string" where
  "extract_session_id event_data data play_state =
     (let session_id = first_text [first_value play_state session_id_keys, first_value data session_id_keys,
            first_value event_data session_id_keys]
      in if session_id \<noteq> [] then session_id
         else if candidate_session (pget data ''Session'') \<noteq> [] then candidate_session (pget data ''Session'')
         else candidate_session (pget event_data ''Session''))"

definition event_source :: "pdict \<Rightarrow> pdict \<Rightarrow> string" where
  "event_source event_data data =
     (if lower (first_text [first_value data [''source'', ''Source''], first_value event_data [''source'', ''Source'']])
         \<in> set plugin_source_aliases
      then ''plugin'' else ''player'')"

definition transport_keys :: "string list" where
  "transport_keys = [''eventBridgeTransport'', ''_eventBridgeTransport'', ''transport'', ''Transport'']"

definition event_transport :: "pdict \<Rightarrow> pdict \<Rightarrow> string" where
  "event_transport event_data data =
     (let transport = lower (first_text [first_value data transport_keys, first_value event_data transport_keys])
      in if transport \<in> {''websocket'', ''ws''} then ''websocket''
         else if transport \<in> {''http'', ''http_fallback'', ''fallback_http''} then ''http_fallback''
         else [])"

subsection \<open>One event\<close>

definition event_name_values :: "pdict \<Rightarrow> pdict \<Rightarrow> pdict \<Rightarrow> py list" where
  "event_name_values play_state data event_data =
     (let names = [''EventName'', ''eventName'', ''event_name'']
      in [first_value play_state names, first_value data names, first_value event_data names,
          first_value play_state [''Name'', ''name''], first_value data [''Name'', ''name''],
          first_value event_data [''Name'', ''name''],
          first_value play_state [''Command'', ''command''], first_value data [''Command'', ''command''],
          first_value event_data [''Command'', ''command'']])"

definition normalize_single_event :: "string \<Rightarrow> pdict \<Rightarrow> pdict \<Rightarrow> string \<Rightarrow> pdict option" where
  "normalize_single_event server_id event_data data message_type =
     (let play_state = sub_dict data ''PlayState'';
          explicit = first_text (event_name_values play_state data event_data);
          event_name = strip (if explicit \<noteq> [] then explicit else message_type);
          session_id = extract_session_id event_data data play_state;
          known = playback_event_action event_name message_type;
          action = (if known = [] \<and> explicit \<noteq> [] then ''player_event'' else known);
          three = (\<lambda>ks. first_text [first_value play_state ks, first_value data ks, first_value event_data ks])
      in if action = [] \<or> session_id = [] then None
         else Some
          [(''server_id'', PStr (text_or_empty (py_or (PStr server_id)
              (py_or (pget event_data ''server_id'') (pget data ''server_id''))))),
           (''session_id'', PStr session_id),
           (''event_name'', PStr event_name),
           (''message_type'', PStr message_type),
           (''action'', PStr action),
           (''outcome'', PStr (dget_default playback_event_outcomes action action)),
           (''play_session_id'', PStr (three [''PlaySessionId'', ''playSessionId'', ''play_session_id''])),
           (''media_source_id'', PStr (three [''MediaSourceId'', ''mediaSourceId'', ''media_source_id''])),
           (''audio_stream_index'', first_present [play_state, data, event_data]
              [''AudioStreamIndex'', ''audioStreamIndex'', ''audio_stream_index'']),
           (''subtitle_stream_index'', first_present [play_state, data, event_data]
              [''SubtitleStreamIndex'', ''subtitleStreamIndex'', ''subtitle_stream_index'']),
           (''source'', PStr (event_source event_data data)),
           (''transport'', PStr (event_transport event_data data)),
           (''raw'', PDict event_data)])"

definition normalize_emby_playback_events :: "string \<Rightarrow> py \<Rightarrow> pdict list" where
  "normalize_emby_playback_events server_id payload =
     (case payload of
        PDict event_data \<Rightarrow>
          (let message_type = first_text [first_value event_data [''MessageType'', ''messageType'', ''message_type'']]
           in if message_type = ''Sessions''
              then List.map_filter (\<lambda>session. normalize_single_event server_id event_data session message_type)
                (extract_session_payloads event_data)
              else (case normalize_single_event server_id event_data (sub_dict event_data ''Data'') message_type of
                Some event \<Rightarrow> [event]
              | None \<Rightarrow> []))
      | _ \<Rightarrow> [])"

subsection \<open>Payloads of the Event Bridge plugin\<close>

definition or_values :: "py list \<Rightarrow> string \<Rightarrow> py" where
  "or_values vs fallback = foldr py_or vs (PStr fallback)"

definition flatten_event_bridge_payload :: "pdict \<Rightarrow> pdict" where
  "flatten_event_bridge_payload payload =
     (let event = sub_dict payload ''event''; server = sub_dict payload ''server'';
          session = sub_dict payload ''session''; media = sub_dict payload ''media'';
          item = sub_dict payload ''item'';
          indexed = (\<lambda>k. if has_key k media then pget media k else pget payload k)
      in dupdate payload
        [(''source'', PStr ''octohubs_event_bridge''),
         (''eventBridgeTransport'', or_values [pget payload ''_eventBridgeTransport'', pget payload ''eventBridgeTransport''] []),
         (''serverId'', or_values [pget server ''id'', pget payload ''serverId'', pget payload ''server_id''] []),
         (''messageType'', or_values [pget event ''type'', pget payload ''messageType'', pget payload ''message_type'']
            ''PluginPlaybackEvent''),
         (''eventName'', or_values [pget event ''name'', pget payload ''eventName'', pget payload ''event_name''] []),
         (''sessionId'', or_values [pget session ''id'', pget payload ''sessionId'', pget payload ''session_id''] []),
         (''playSessionId'', or_values [pget session ''playSessionId'', pget payload ''playSessionId'',
            pget payload ''play_session_id''] []),
         (''mediaSourceId'', or_values [pget media ''mediaSourceId'', pget payload ''mediaSourceId'',
            pget payload ''media_source_id''] []),
         (''audioStreamIndex'', indexed ''audioStreamIndex''),
         (''subtitleStreamIndex'', indexed ''subtitleStreamIndex''),
         (''itemId'', or_values [pget item ''id'', pget payload ''itemId'', pget payload ''item_id''] [])])"

subsection \<open>What a recorded event is\<close>

text \<open>
  Whatever a payload holds, every event that is kept names a session and an action with a known
  outcome, so that the log never holds an event it cannot attribute.
\<close>

lemma action_names_known:
  "list_all (\<lambda>p. snd p \<in> set (dkeys playback_event_outcomes)) action_names"
  by (simp add: action_names_def playback_event_outcomes_def dkeys_def)

lemma playback_event_action_known:
  "playback_event_action event_name message_type = [] \<or>
   playback_event_action event_name message_type \<in> set (dkeys playback_event_outcomes)"
proof -
  have exit: "''exit'' \<in> set (dkeys playback_event_outcomes)"
    by (simp add: playback_event_outcomes_def dkeys_def)
  have known: "snd p \<in> set (dkeys playback_event_outcomes)" if "find P action_names = Some p" for P p
    using that action_names_known by (auto simp: find_Some_iff list_all_iff)
  define combined where
    "combined = (if lower (strip event_name) \<noteq> [] then lower (strip event_name) else lower (strip message_type))"
  show ?thesis
  proof (cases "find (\<lambda>p. combined \<in> set (fst p)) action_names")
    case None
    then show ?thesis
      using exit unfolding playback_event_action_def Let_def combined_def [symmetric] by simp
  next
    case (Some p)
    then show ?thesis
      using known [OF Some] unfolding playback_event_action_def Let_def combined_def [symmetric]
      by (cases p) simp
  qed
qed

definition event_ok :: "pdict \<Rightarrow> bool" where
  "event_ok event \<longleftrightarrow>
     (case pget event ''session_id'' of PStr s \<Rightarrow> s \<noteq> [] | _ \<Rightarrow> False) \<and>
     (case pget event ''action'' of PStr a \<Rightarrow> a \<in> set (dkeys playback_event_outcomes) | _ \<Rightarrow> False) \<and>
     pget event ''outcome'' = PStr (dget_default playback_event_outcomes (text_or_empty (pget event ''action'')) [])"

lemma single_event_ok:
  assumes "normalize_single_event server_id event_data data message_type = Some event"
  shows "event_ok event"
proof -
  have player: "''player_event'' \<in> set (dkeys playback_event_outcomes)"
    by (simp add: playback_event_outcomes_def dkeys_def)
  have outcome: "dget_default playback_event_outcomes a v = dget_default playback_event_outcomes a v'"
    if "a \<in> set (dkeys playback_event_outcomes)" for a v v'
    using that by (auto simp: dget_default_def dkeys_def split: option.split dest: map_of_eq_None_iff [THEN iffD1])
  define play_state where "play_state = sub_dict data ''PlayState''"
  define explicit where "explicit = first_text (event_name_values play_state data event_data)"
  define event_name where "event_name = strip (if explicit \<noteq> [] then explicit else message_type)"
  define session_id where "session_id = extract_session_id event_data data play_state"
  define action where "action = (if playback_event_action event_name message_type = [] \<and> explicit \<noteq> []
    then ''player_event'' else playback_event_action event_name message_type)"
  note unfolded = assms [unfolded normalize_single_event_def Let_def, folded play_state_def, folded explicit_def session_id_def,
      folded event_name_def, folded action_def]
  have kept: "action \<noteq> []" "session_id \<noteq> []"
    using unfolded by (auto split: if_splits)
  then have action: "action \<in> set (dkeys playback_event_outcomes)"
    using player playback_event_action_known [of event_name message_type] by (auto simp: action_def)
  have fields: "pget event ''session_id'' = PStr session_id" "pget event ''action'' = PStr action"
    "pget event ''outcome'' = PStr (dget_default playback_event_outcomes action action)"
    using unfolded kept by auto
  show ?thesis
    using kept action outcome [OF action, of action "[]"] by (simp add: event_ok_def fields text_or_empty_def)
qed

end
