(* ===== verification/Guard_Control.thy ===== *)
theory Guard_Control
  imports Guard_Enforcement Guard_Playback Guard_Classify
begin

text \<open>
  Control of the Transcode Guard (\<open>emby_runtime/transcode_guard_control.py\<close> and the playback event
  handlers of \<open>transcode_guard_scan.py\<close>): the servers it may act for, its stored settings, the
  playback events it records and what it shows.  An operation that may raise returns its exception
  beside the state it left, since what was written before stays written.  The thread, its start
  and its stop, and the event that wakes it are not modelled.
\<close>

type_synonym 'a guard_run = "(exn + 'a) \<times> guard_world"

definition bind_run :: "'a guard_run \<Rightarrow> ('a \<Rightarrow> guard_world \<Rightarrow> 'b guard_run) \<Rightarrow> 'b guard_run" where
  "bind_run r f = (case r of (Inl e, w) \<Rightarrow> (Inl e, w) | (Inr x, w) \<Rightarrow> f x w)"

definition lift_run :: "exn + 'a \<Rightarrow> guard_world \<Rightarrow> 'a guard_run" where
  "lift_run r w = (r, w)"

lemma bind_run_simps [simp]:
  "bind_run (Inl e, w) f = (Inl e, w)"
  "bind_run (Inr x, w) f = f x w"
  by (simp_all add: bind_run_def)

lemma snd_lift_run [simp]: "snd (lift_run r w) = w"
  by (simp add: lift_run_def)

subsection \<open>Servers\<close>

text \<open>
  A deleted server is forgotten; its generation moves on at each change, so that a scan that
  began before it can be told from one that began after.
\<close>

definition generation :: "string \<Rightarrow> guard_world \<Rightarrow> int" where
  "generation s w = dget_default (w_generations w) s 0"

definition allow_server :: "string \<Rightarrow> guard_world \<Rightarrow> guard_world" where
  "allow_server server_id w =
     (let s = strip server_id
      in if s = [] then w
         else w\<lparr>w_generations := dset s (generation s w + 1) (w_generations w),
                w_forgotten := removeAll s (w_forgotten w)\<rparr>)"

definition forget_server :: "string \<Rightarrow> guard_world \<Rightarrow> guard_world" where
  "forget_server server_id w =
     (let s = strip server_id
      in if s = [] then w
         else w\<lparr>w_generations := dset s (generation s w + 1) (w_generations w),
                w_forgotten := (if s \<in> set (w_forgotten w) then w_forgotten w else s # w_forgotten w),
                w_violations := filter (\<lambda>(k, state). text_or_empty (pget state ''server_id'') \<noteq> s) (w_violations w)\<rparr>)"

definition capture_server_generation :: "string \<Rightarrow> guard_world \<Rightarrow> int \<times> guard_world" where
  "capture_server_generation s w =
     (if s \<in> set (w_forgotten w) then (-1, w)
      else (generation s w, w\<lparr>w_generations := dset s (generation s w) (w_generations w)\<rparr>))"

definition server_generation_is_current :: "string \<Rightarrow> int \<Rightarrow> guard_world \<Rightarrow> bool" where
  "server_generation_is_current s g w \<longleftrightarrow> s \<notin> set (w_forgotten w) \<and> generation s w = g"

subsection \<open>Settings\<close>

definition load_settings :: "guard_world \<Rightarrow> exn + pdict" where
  "load_settings w = normalize_guard_settings (case w_settings w of PDict d \<Rightarrow> PDict d | _ \<Rightarrow> PDict [])"

definition allowed_fields :: "string list" where
  "allowed_fields = [''enabled'', ''poll_interval_seconds'', ''stream_history_retention_days'', ''rules'']"

definition unscoped_rule :: "py \<Rightarrow> bool" where
  "unscoped_rule v =
     (case v of PDict rule \<Rightarrow> pget rule ''enabled'' \<noteq> PBool False \<and> \<not> truthy (pget rule ''server_ids'') | _ \<Rightarrow> False)"

definition rule_name_text :: "py \<Rightarrow> string" where
  "rule_name_text v =
     (case v of
        PDict rule \<Rightarrow> (let name = strip (text_or (pget rule ''name'') ''Regola'') in if name \<noteq> [] then name else ''Regola'')
      | _ \<Rightarrow> [])"

definition validate_transcode_guard_settings :: "pdict \<Rightarrow> exn + unit" where
  "validate_transcode_guard_settings settings =
     (case find unscoped_rule (case pget settings ''rules'' of PList rs \<Rightarrow> rs | _ \<Rightarrow> []) of
        Some rule \<Rightarrow> Inl (ValueError (''Seleziona almeno un server per '' @ [CHR 0x22] @ rule_name_text rule @ [CHR 0x22] @
          '' o disattiva la regola.''))
      | None \<Rightarrow> Inr ())"

definition merge_settings :: "pdict \<Rightarrow> py \<Rightarrow> py \<Rightarrow> exn + pdict" where
  "merge_settings settings_base raw current_raw =
     result_bind (normalize_guard_settings (case current_raw of PDict d \<Rightarrow> PDict d | _ \<Rightarrow> PDict settings_base)) (\<lambda>current.
     result_bind
       (case raw of
          PDict new \<Rightarrow>
            (let unsupported = sort (filter (\<lambda>k. k \<notin> set allowed_fields) (dkeys new))
             in if unsupported \<noteq> []
                then Inl (ValueError (''Campi Transcode Guard non supportati: '' @ join '', '' unsupported))
                else Inr (dupdate current (map (\<lambda>k. (k, pget new k)) (filter (\<lambda>k. has_key k new) allowed_fields))))
        | _ \<Rightarrow> Inr current) (\<lambda>merged.
     result_bind (normalize_guard_settings (PDict merged)) (\<lambda>settings.
     result_bind (validate_transcode_guard_settings settings) (\<lambda>_.
     result_bind (validate_persisted_size settings) (\<lambda>_. Inr settings)))))"

text \<open>The merge runs inside the atomic update of the stored value.\<close>

definition save_settings :: "py \<Rightarrow> guard_world \<Rightarrow> pdict guard_run" where
  "save_settings raw w =
     bind_run (lift_run (load_settings w) w) (\<lambda>base w.
     bind_run (lift_run (merge_settings base raw (w_settings w)) w) (\<lambda>settings w.
       (Inr settings, w\<lparr>w_settings := PDict settings\<rparr>)))"

subsection \<open>Playback events\<close>

definition is_session_violation :: "string \<Rightarrow> pdict \<Rightarrow> bool" where
  "is_session_violation k state \<longleftrightarrow> text_or_empty (pget state ''session_key'') = k"

definition closed_by_guard :: "pdict \<Rightarrow> bool" where
  "closed_by_guard state \<longleftrightarrow> truthy (pget state ''stopped'') \<or> truthy (pget state ''paused'')"

definition exit_recent_session :: "guard_env \<Rightarrow> string \<Rightarrow> string \<Rightarrow> guard_world \<Rightarrow> nat \<times> guard_world" where
  "exit_recent_session env server_id session_id w =
     (if server_id = [] \<or> session_id = [] then (0, w)
      else (case find (\<lambda>row. text_or_empty (pget row ''server_id'') = server_id
               \<and> text_or_empty (pget row ''session_id'') = session_id
               \<and> \<not> is_terminal_action (last_action_entry row)) (load_event_rows env w) of
        None \<Rightarrow> (0, w)
      | Some row \<Rightarrow>
          (1, record_event_action env
             [(''id'', py_or (pget row ''server_id'') (PStr server_id)), (''name'', or_blank row ''server_name'')] row
             [(''category'', pget row ''category''), (''source_height'', pget row ''source_height''),
              (''rule_id'', or_blank row ''rule_id''), (''rule_name'', or_blank row ''rule_name''),
              (''rule_path'', py_or (pget row ''rule_path'') (PList []))]
             (exit_action (text_or_empty (pget row ''id'')) ''player'') w)))"

definition record_playback_stopped_event :: "guard_env \<Rightarrow> pdict \<Rightarrow> guard_world \<Rightarrow> py \<times> guard_world" where
  "record_playback_stopped_event env event w =
     (let server_id = text_or_empty (pget event ''server_id'');
          session_id = text_or_empty (pget event ''session_id'');
          mine = is_session_violation (session_key server_id session_id);
          popped = filter mine (map snd (w_violations w));
          closed = filter (\<lambda>state. \<not> closed_by_guard state) popped;
          ignored = length popped - length closed;
          w1 = w\<lparr>w_violations := filter (\<lambda>p. \<not> mine (snd p)) (w_violations w)\<rparr>;
          w2 = foldl (\<lambda>v state. record_exit_for_violation_state env ''player'' state v) w1 closed;
          w3 = (if ignored = 0 then snd (record_stream_playback_event env event w2) else w2);
          (more, w4) = (if ignored = 0 \<and> closed = [] then exit_recent_session env server_id session_id w3 else (0, w3))
      in (PDict [(''ok'', PBool True), (''action'', PStr ''exit''), (''closed'', PInt (int (length closed + more))),
            (''ignored'', PInt (int ignored))], w4))"

definition record_playback_change_event :: "guard_env \<Rightarrow> pdict \<Rightarrow> guard_world \<Rightarrow> py \<times> guard_world" where
  "record_playback_change_event env event w =
     (let k = session_key (text_or_empty (pget event ''server_id'')) (text_or_empty (pget event ''session_id''));
          matched = filter (is_session_violation k) (map snd (w_violations w));
          w1 = foldl (\<lambda>v state. record_event_action env (state_server state) state (state_decision state (pget state ''category''))
                 \<lparr>ea_event_id = text_or_empty (pget state ''event_id''), ea_action = text_or_empty (pget event ''action''),
                  ea_outcome = text_or_empty (pget event ''outcome''), ea_success = True, ea_source = ''player''\<rparr> v) w matched
      in (PDict [(''ok'', PBool True), (''action'', pget event ''action''), (''matched'', PInt (int (length matched)))],
          snd (record_stream_playback_event env event w1)))"

definition record_one_event :: "guard_env \<Rightarrow> py \<Rightarrow> pdict \<Rightarrow> guard_world \<Rightarrow> py guard_run" where
  "record_one_event env result event w =
     (case record_playback_event_row env event w of
        Inl e \<Rightarrow> (Inl e, w)
      | Inr w1 \<Rightarrow>
          (let action = pget event ''action''
           in if text_or_empty (pget event ''session_id'') = [] then (Inr result, w1)
              else if action = PStr ''exit''
              then (case record_playback_stopped_event env event w1 of (r, v) \<Rightarrow> (Inr r, v))
              else if action \<in> {PStr ''quality_change'', PStr ''audio_change'', PStr ''subtitle_change''}
              then (case record_playback_change_event env event w1 of (r, v) \<Rightarrow> (Inr r, v))
              else (case record_stream_playback_event env event w1 of
                (recorded, v) \<Rightarrow>
                  (Inr (PDict [(''ok'', PBool True), (''action'', action), (''recorded'', PBool recorded)]), v))))"

fun record_events :: "guard_env \<Rightarrow> py \<Rightarrow> pdict list \<Rightarrow> guard_world \<Rightarrow> py guard_run" where
  "record_events env result [] w = (Inr result, w)"
| "record_events env result (event # events) w =
     bind_run (record_one_event env result event w) (\<lambda>r v. record_events env r events v)"

definition record_playback_event :: "guard_env \<Rightarrow> string \<Rightarrow> py \<Rightarrow> guard_world \<Rightarrow> py guard_run" where
  "record_playback_event env server_id payload w =
     (if strip server_id \<in> set (w_forgotten w) then (Inr PNone, w)
      else record_events env PNone (normalize_emby_playback_events server_id payload) w)"

definition record_plugin_playback_event :: "guard_env \<Rightarrow> py \<Rightarrow> guard_world \<Rightarrow> py guard_run" where
  "record_plugin_playback_event env payload w =
     (case payload of
        PDict d \<Rightarrow>
          (let server_id = first_text [pget d ''serverId'', pget d ''server_id'', pget d ''server''];
               event_data = dset ''source'' (PStr ''octohubs_event_bridge'') d;
               typed = truthy (pget event_data ''MessageType'') \<or> truthy (pget event_data ''messageType'')
                 \<or> truthy (pget event_data ''message_type'');
               event_data = (if typed then event_data
                 else dset ''messageType'' (PStr (py_str (or_values [pget d ''eventType'', pget d ''event_type''] ''PluginPlaybackEvent'')))
                   event_data)
           in if server_id = [] then (Inr PNone, w)
              else record_playback_event env server_id (PDict event_data) w)
      | _ \<Rightarrow> (Inr PNone, w))"

definition plugin_event_answer :: "string \<Rightarrow> bool \<Rightarrow> string \<Rightarrow> py" where
  "plugin_event_answer action recorded event_type =
     PDict [(''ok'', PBool True), (''action'', PStr action), (''recorded'', PBool recorded), (''event_type'', PStr event_type)]"

definition record_plugin_diagnostic :: "guard_env \<Rightarrow> pdict \<Rightarrow> string \<Rightarrow> guard_world \<Rightarrow> py guard_run" where
  "record_plugin_diagnostic env payload event_type w =
     (let event = sub_dict payload ''event''; server = sub_dict payload ''server'';
          server_id = first_text [pget server ''id'', pget payload ''serverId'', pget payload ''server_id''];
          event_name = first_text [pget event ''name'', pget payload ''eventName'', pget payload ''event_name'', PStr event_type];
          row = [(''server_id'', PStr server_id), (''session_id'', PStr (server_id @ '':plugin'')),
            (''event_name'', PStr event_name), (''message_type'', PStr event_type), (''action'', PStr ''plugin_event''),
            (''outcome'', PStr ''evento plugin''), (''source'', PStr ''plugin''),
            (''transport'', PStr (py_str (or_values [pget payload ''_eventBridgeTransport'', pget payload ''eventBridgeTransport''] []))),
            (''raw'', PDict payload)]
      in if server_id = [] then (Inr (plugin_event_answer ''plugin_event'' False event_type), w)
         else (case record_playback_event_row env row w of
           Inl e \<Rightarrow> (Inl e, w)
         | Inr v \<Rightarrow> (Inr (plugin_event_answer ''plugin_event'' True event_type), v)))"

definition record_event_bridge_event :: "guard_env \<Rightarrow> py \<Rightarrow> guard_world \<Rightarrow> py guard_run" where
  "record_event_bridge_event env payload w =
     (case payload of
        PDict d \<Rightarrow>
          (let event_type = lower (first_text [pget (sub_dict d ''event'') ''type'', pget d ''eventType'', pget d ''event_type''])
           in if event_type = [] \<or> startswith ''playback.'' event_type \<or> startswith ''session.'' event_type
              then record_plugin_playback_event env (PDict (flatten_event_bridge_payload d)) w
              else if startswith ''plugin.'' event_type then record_plugin_diagnostic env d event_type w
              else (Inr (plugin_event_answer ''ignored'' False event_type), w))
      | _ \<Rightarrow> (Inr PNone, w))"

subsection \<open>What is shown\<close>

definition get_status :: "guard_env \<Rightarrow> bool \<Rightarrow> guard_world \<Rightarrow> exn + pdict" where
  "get_status env running w =
     result_bind (load_settings w) (\<lambda>settings. Inr
       [(''ok'', PBool True), (''running'', PBool running), (''settings'', PDict settings),
        (''active_violations'', rows_value (map snd (w_violations w))),
        (''recent_events'', rows_value (load_event_rows env w)),
        (''stream_history'', PDict (stream_history_payload env w)),
        (''playback_events'', PDict (playback_events_payload env w)),
        (''last_result'', PDict (w_result w))])"

definition decorate_stream :: "'a ip_lib \<Rightarrow> pdict \<Rightarrow> string \<Rightarrow> (string, pdict) dict \<Rightarrow> pdict \<Rightarrow> exn + pdict" where
  "decorate_stream ips settings server_id violations d =
     (let item = dset ''server_id'' (PStr server_id) d
      in result_bind (classify_stream ips item settings) (\<lambda>decision0.
        let decision1 = dset ''enabled'' (PBool (truthy (pget settings ''enabled''))) decision0;
            state = map_of violations (violation_key server_id (text_or_empty (pget item ''session_id''))
              (text_or (pget decision1 ''rule_id'') ''default''));
            decision2 = (case state of
                Some st \<Rightarrow>
                  (if st \<noteq> [] \<and> truthy (pget decision1 ''should_enforce'')
                   then dupdate decision1
                     [(''state'', py_or (pget st ''state'') (PStr ''active'')), (''first_seen_at'', pget st ''first_seen_at''),
                      (''warned_at'', pget st ''warned_at''), (''stopped_at'', pget st ''stopped_at'')]
                   else decision1)
              | None \<Rightarrow> decision1)
        in Inr (dset ''transcode_guard'' (PDict decision2) item)))"

fun decorate_all :: "'a ip_lib \<Rightarrow> pdict \<Rightarrow> string \<Rightarrow> (string, pdict) dict \<Rightarrow> pdict list \<Rightarrow> exn + pdict list" where
  "decorate_all ips settings server_id violations [] = Inr []"
| "decorate_all ips settings server_id violations (d # ds) =
     result_bind (decorate_stream ips settings server_id violations d) (\<lambda>item.
     result_bind (decorate_all ips settings server_id violations ds) (\<lambda>items. Inr (item # items)))"

definition decorate_streams :: "'a ip_lib \<Rightarrow> string \<Rightarrow> pdict list \<Rightarrow> guard_world \<Rightarrow> exn + pdict list" where
  "decorate_streams ips server_id ds w =
     result_bind (load_settings w) (\<lambda>settings. decorate_all ips settings server_id (w_violations w) ds)"

end
