(* ===== verification/Guard_Scan.thy ===== *)
theory Guard_Scan
  imports Guard_Control
begin

text \<open>
  The scan of the Transcode Guard (\<open>emby_runtime/transcode_guard_scan.py\<close>): it reads the sessions of
  every server, records and enforces each stream, and settles the violations and the stream rows
  that are no longer seen.  The sessions are fetched without the lock: \<open>guard_fetch\<close> gives the
  instant at which the lock is taken again, the answer of the server, and the state that the other
  threads left meanwhile.
\<close>

record scan =
  sc_seen :: "string list"
  sc_sessions :: "string list"
  sc_playbacks :: "string list"
  sc_direct :: "(string, pdict) dict"
  sc_violating :: "(string, (string \<times> pdict \<times> pdict) list) dict"
  sc_scanned :: "string list"
  sc_checked :: nat
  sc_violations :: nat
  sc_warned :: nat
  sc_paused :: nat
  sc_stopped :: nat
  sc_errors :: "string list"

definition empty_scan :: scan where
  "empty_scan = \<lparr>sc_seen = [], sc_sessions = [], sc_playbacks = [], sc_direct = [], sc_violating = [], sc_scanned = [],
     sc_checked = 0, sc_violations = 0, sc_warned = 0, sc_paused = 0, sc_stopped = 0, sc_errors = []\<rparr>"

definition scan_result :: "scan \<Rightarrow> pdict" where
  "scan_result sc =
     [(''checked'', PInt (int (sc_checked sc))), (''violations'', PInt (int (sc_violations sc))),
      (''warned'', PInt (int (sc_warned sc))), (''paused'', PInt (int (sc_paused sc))),
      (''stopped'', PInt (int (sc_stopped sc))), (''errors'', texts (sc_errors sc))]"

subsection \<open>One stream\<close>

definition server_stream :: "pdict \<Rightarrow> pdict \<Rightarrow> pdict" where
  "server_stream server d =
     dset ''server_name'' (PStr (server_label server)) (dset ''server_id'' (PStr (text_or_empty (pget server ''id''))) d)"

definition note_direct :: "string \<Rightarrow> pdict \<Rightarrow> pdict \<Rightarrow> scan \<Rightarrow> scan" where
  "note_direct pk stream decision sc =
     (if is_corrected_playback decision \<and> pk \<noteq> [] \<and> map_of (sc_direct sc) pk = None
      then sc\<lparr>sc_direct := dset pk stream (sc_direct sc)\<rparr> else sc)"

definition note_violation :: "string \<Rightarrow> string \<Rightarrow> pdict \<Rightarrow> pdict \<Rightarrow> scan \<Rightarrow> scan" where
  "note_violation k pk stream decision sc =
     sc\<lparr>sc_seen := k # sc_seen sc,
        sc_violating := (if pk = [] then sc_violating sc
          else dset pk (dget_default (sc_violating sc) pk [] @ [(k, stream, decision)]) (sc_violating sc)),
        sc_violations := sc_violations sc + 1\<rparr>"

definition note_answer :: "string \<Rightarrow> scan \<Rightarrow> scan" where
  "note_answer answer sc =
     sc\<lparr>sc_warned := sc_warned sc + (if answer = ''warned'' then 1 else 0),
        sc_paused := sc_paused sc + (if answer = ''paused'' then 1 else 0),
        sc_stopped := sc_stopped sc + (if answer = ''stopped'' then 1 else 0)\<rparr>"

definition scan_stream ::
  "guard_env \<Rightarrow> 'a ip_lib \<Rightarrow> pdict \<Rightarrow> pdict \<Rightarrow> py \<Rightarrow> scan \<Rightarrow> guard_world \<Rightarrow> scan guard_run" where
  "scan_stream env ips settings server v sc w =
     (case v of
        PDict d \<Rightarrow>
          (let server_id = text_or_empty (pget server ''id'');
               stream = server_stream server d;
               sc1 = sc\<lparr>sc_checked := sc_checked sc + 1\<rparr>;
               session_id = text_or_empty (pget stream ''session_id'');
               sc2 = sc1\<lparr>sc_sessions := session_key server_id session_id # sc_sessions sc1\<rparr>;
               pk = playback_key server_id stream;
               sc3 = (if pk \<noteq> [] then sc2\<lparr>sc_playbacks := pk # sc_playbacks sc2\<rparr> else sc2)
           in if session_id = [] then (Inr sc1, w)
              else bind_run (lift_run (classify_stream ips stream settings) w) (\<lambda>decision w.
                let w1 = record_stream_observation env server stream decision no_action w;
                    k = violation_key server_id session_id (text_or (pget decision ''rule_id'') ''default'')
                in if \<not> truthy (pget decision ''should_enforce'') then (Inr (note_direct pk stream decision sc3), w1)
                   else (case handle_violation env k server stream decision decision w1 of
                     (answer, w2) \<Rightarrow> (Inr (note_answer answer (note_violation k pk stream decision sc3)), w2))))
      | _ \<Rightarrow> (Inr sc, w))"

fun scan_streams ::
  "guard_env \<Rightarrow> 'a ip_lib \<Rightarrow> pdict \<Rightarrow> pdict \<Rightarrow> py list \<Rightarrow> scan \<Rightarrow> guard_world \<Rightarrow> scan guard_run" where
  "scan_streams env ips settings server [] sc w = (Inr sc, w)"
| "scan_streams env ips settings server (v # vs) sc w =
     bind_run (scan_stream env ips settings server v sc w)
       (\<lambda>sc1 w1. scan_streams env ips settings server vs sc1 w1)"

subsection \<open>One server\<close>

type_synonym guard_fetch = "pdict \<Rightarrow> guard_world \<Rightarrow> guard_env \<times> (string + py list) \<times> guard_world"

text \<open>What happens under the lock once the sessions of a server have arrived.\<close>

definition finish_server ::
  "guard_env \<Rightarrow> 'a ip_lib \<Rightarrow> pdict \<Rightarrow> pdict \<Rightarrow> int \<Rightarrow> string + py list \<Rightarrow> scan \<Rightarrow> guard_world \<Rightarrow> scan guard_run" where
  "finish_server env ips settings server g answer sc w =
     (case answer of
        Inl error \<Rightarrow> (Inr (sc\<lparr>sc_errors := sc_errors sc @ [server_label server @ '': '' @ error]\<rparr>), w)
      | Inr vs \<Rightarrow>
          (let server_id = text_or_empty (pget server ''id'')
           in if \<not> server_generation_is_current server_id g w then (Inr sc, w)
              else scan_streams env ips settings server vs (sc\<lparr>sc_scanned := server_id # sc_scanned sc\<rparr>) w))"

definition scan_server ::
  "'a ip_lib \<Rightarrow> guard_fetch \<Rightarrow> pdict \<Rightarrow> pdict \<Rightarrow> scan \<Rightarrow> guard_world \<Rightarrow> scan guard_run" where
  "scan_server ips fetch settings server sc w =
     (let server_id = text_or_empty (pget server ''id'')
      in if server_id = [] \<or> \<not> default_true server ''enabled'' then (Inr sc, w)
         else (case capture_server_generation server_id w of
           (g, w1) \<Rightarrow> (case fetch server w1 of
             (env, answer, w2) \<Rightarrow> finish_server env ips settings server g answer sc w2)))"

fun scan_servers ::
  "'a ip_lib \<Rightarrow> guard_fetch \<Rightarrow> pdict \<Rightarrow> pdict list \<Rightarrow> scan \<Rightarrow> guard_world \<Rightarrow> scan guard_run" where
  "scan_servers ips fetch settings [] sc w = (Inr sc, w)"
| "scan_servers ips fetch settings (server # servers) sc w =
     bind_run (scan_server ips fetch settings server sc w)
       (\<lambda>sc1 w1. scan_servers ips fetch settings servers sc1 w1)"

subsection \<open>Violations that were not seen\<close>

definition is_stale :: "scan \<Rightarrow> string \<times> pdict \<Rightarrow> bool" where
  "is_stale sc p \<longleftrightarrow> list_ex (\<lambda>s. pget (snd p) ''server_id'' = PStr s) (sc_scanned sc) \<and> fst p \<notin> set (sc_seen sc)"

definition drop_violation :: "string \<Rightarrow> guard_world \<Rightarrow> guard_world" where
  "drop_violation k w = w\<lparr>w_violations := dpop k (w_violations w)\<rparr>"

definition close_violation :: "guard_env \<Rightarrow> string \<Rightarrow> pdict \<Rightarrow> string \<Rightarrow> string \<Rightarrow> py \<Rightarrow> guard_world \<Rightarrow> guard_world" where
  "close_violation env k state action outcome category w =
     record_event_action env (state_server state) state (state_decision state category)
       (guard_action state action outcome True) (drop_violation k w)"

definition exit_violation :: "guard_env \<Rightarrow> string \<Rightarrow> pdict \<Rightarrow> guard_world \<Rightarrow> guard_world" where
  "exit_violation env k state w = record_exit_for_violation_state env ''observed'' state (drop_violation k w)"

text \<open>A violation whose session is gone is closed after the settle time only.\<close>

definition settle_missing :: "guard_env \<Rightarrow> scan \<Rightarrow> string \<Rightarrow> pdict \<Rightarrow> guard_world \<Rightarrow> guard_world" where
  "settle_missing env sc k state w =
     (if list_ex (\<lambda>s. pget state ''session_key'' = PStr s) (sc_sessions sc) then w
      else if pget state ''missing_since'' = PNone
      then set_state k (dupdate state
        [(''missing_since'', e_float env (e_now env)), (''missing_since_at'', PStr (e_ts env)),
         (''state'', PStr ''pending_exit'')]) w
      else if \<not> settled env (pget state ''missing_since'') then w
      else exit_violation env k state w)"

text \<open>A violation whose playback is not direct now: another violation of it may take over.\<close>

definition settle_unmatched :: "guard_env \<Rightarrow> scan \<Rightarrow> string \<Rightarrow> pdict \<Rightarrow> guard_world \<Rightarrow> guard_world" where
  "settle_unmatched env sc k state w =
     (let other = matching_other_violation (dget_default (sc_violating sc) (text_or_empty (pget state ''playback_key'')) []) k
      in if (case other of Some (_, d, _) \<Rightarrow> \<not> same_source_resolution state d | None \<Rightarrow> False)
         then exit_violation env k state w
         else (case matching_other_rule_violation other (text_or_empty (pget state ''rule_id'')) of
           Some (_, _, decision) \<Rightarrow>
             close_violation env k state ''partial_resolved'' ''Risolto parzialmente''
               (py_or (pget decision ''category'') (pget state ''category'')) w
         | None \<Rightarrow> settle_missing env sc k state w))"

definition direct_stream :: "scan \<Rightarrow> string \<Rightarrow> pdict option" where
  "direct_stream sc pk = (if pk = [] then None else map_of (sc_direct sc) pk)"

text \<open>One stale key: the playback keys resolved so far, and the state.\<close>

definition settle_violation ::
  "guard_env \<Rightarrow> scan \<Rightarrow> string \<Rightarrow> string list \<times> guard_world \<Rightarrow> string list \<times> guard_world" where
  "settle_violation env sc k r =
     (let (resolved, w) = r; state = dget_default (w_violations w) k []; pk = text_or_empty (pget state ''playback_key'')
      in if state = [] then (resolved, w)
         else if closed_by_guard state then (resolved, drop_violation k w)
         else
           (case direct_stream sc pk of
              Some direct \<Rightarrow>
                (if \<not> same_source_resolution state direct then (resolved, exit_violation env k state w)
                 else (case resolved_action_for_stream state direct of
                   (action, outcome) \<Rightarrow>
                     (pk # resolved, close_violation env k state action outcome (PStr ''direct'') w)))
            | None \<Rightarrow> (resolved, settle_unmatched env sc k state w)))"

definition settle_violations :: "guard_env \<Rightarrow> scan \<Rightarrow> guard_world \<Rightarrow> string list \<times> guard_world" where
  "settle_violations env sc w =
     foldl (\<lambda>r k. settle_violation env sc k r) ([], w) (map fst (filter (is_stale sc) (w_violations w)))"

definition record_later_successes :: "guard_env \<Rightarrow> scan \<Rightarrow> string list \<Rightarrow> guard_world \<Rightarrow> guard_world" where
  "record_later_successes env sc resolved w =
     foldl (\<lambda>v (pk, stream). if pk \<in> set resolved then v else record_later_success env pk stream (sc_scanned sc) v)
       w (sc_direct sc)"

definition finish_scan :: "guard_env \<Rightarrow> pdict \<Rightarrow> scan \<Rightarrow> guard_world \<Rightarrow> pdict guard_run" where
  "finish_scan env settings sc w =
     (let (resolved, w1) = settle_violations env sc w;
          w2 = record_later_successes env sc resolved w1;
          w3 = close_missing_stream_rows env (sc_scanned sc) (sc_playbacks sc) w2
      in case apply_stream_history_retention env settings w3 of
           Inl e \<Rightarrow> (Inl e, w3)
         | Inr (_, w4) \<Rightarrow> (Inr (scan_result sc), w4\<lparr>w_result := scan_result sc\<rparr>))"

text \<open>
  \<open>check_once\<close>: \<open>servers\<close> is the servers of the configuration, \<open>None\<close> when it is not valid;
  \<open>env\<close> is the clock of the final phase.
\<close>

definition check_once ::
  "'a ip_lib \<Rightarrow> guard_fetch \<Rightarrow> pdict list option \<Rightarrow> guard_env \<Rightarrow> guard_world \<Rightarrow> pdict guard_run" where
  "check_once ips fetch servers env w =
     bind_run (lift_run (load_settings w) w) (\<lambda>settings w.
       if \<not> truthy (pget settings ''enabled'')
       then (Inr (scan_result empty_scan), w\<lparr>w_result := scan_result empty_scan\<rparr>)
       else (case servers of
         None \<Rightarrow>
           (let r = scan_result (empty_scan\<lparr>sc_errors := [''Config non valida'']\<rparr>) in (Inr r, w\<lparr>w_result := r\<rparr>))
       | Some ss \<Rightarrow>
           bind_run (scan_servers ips fetch settings ss empty_scan w) (\<lambda>sc w. finish_scan env settings sc w)))"

subsection \<open>What the operations leave alone\<close>

text \<open>The servers of the violations in memory.\<close>

definition violation_servers :: "guard_world \<Rightarrow> string set" where
  "violation_servers w = (\<lambda>p. text_or_empty (pget (snd p) ''server_id'')) ` set (w_violations w)"

lemma dset_subset: "set (dset k v d) \<subseteq> insert (k, v) (set d)"
  unfolding dset_def by (induction d) auto

lemma dpop_subset: "set (dpop k d) \<subseteq> set d"
  unfolding dpop_def by (auto simp: AList.delete_eq)

lemma violation_servers_set_state:
  "violation_servers (set_state k state w) \<subseteq> insert (text_or_empty (pget state ''server_id'')) (violation_servers w)"
  using dset_subset [of k state "w_violations w"] by (auto simp: violation_servers_def)

lemma violation_servers_cong: "w_violations w' = w_violations w \<Longrightarrow> violation_servers w' = violation_servers w"
  by (simp add: violation_servers_def)

lemma violation_servers_drop:
  "violation_servers (w\<lparr>w_violations := dpop k (w_violations w)\<rparr>) \<subseteq> violation_servers w"
  using dpop_subset [of k "w_violations w"] by (auto simp: violation_servers_def)

lemma save_rows_control [simp]:
  "w_forgotten (save_stream_rows env rows w) = w_forgotten w" "w_generations (save_stream_rows env rows w) = w_generations w"
  "w_forgotten (save_event_rows env rows w) = w_forgotten w" "w_generations (save_event_rows env rows w) = w_generations w"
  "w_forgotten (save_playback_event_rows env rows w) = w_forgotten w"
  "w_generations (save_playback_event_rows env rows w) = w_generations w"
  "w_violations (save_playback_event_rows env rows w) = w_violations w"
  by (simp_all add: save_stream_rows_def save_event_rows_def save_playback_event_rows_def)

lemma record_stream_observation_control [simp]:
  "w_forgotten (record_stream_observation env server d decision a w) = w_forgotten w"
  "w_generations (record_stream_observation env server d decision a w) = w_generations w"
  by (simp_all add: record_stream_observation_def Let_def)

lemma record_event_action_control [simp]:
  "w_forgotten (record_event_action env server d decision a w) = w_forgotten w"
  "w_generations (record_event_action env server d decision a w) = w_generations w"
  by (simp_all add: record_event_action_def Let_def)

lemma set_state_control [simp]:
  "w_forgotten (set_state k state w) = w_forgotten w" "w_generations (set_state k state w) = w_generations w"
  by (simp_all add: set_state_def)

lemma make_call_control [simp]:
  "w_forgotten (snd (make_call env c w)) = w_forgotten w" "w_generations (snd (make_call env c w)) = w_generations w"
  by (simp_all add: make_call_def)

lemma record_exit_control [simp]:
  "w_forgotten (record_exit_for_violation_state env source state w) = w_forgotten w"
  "w_generations (record_exit_for_violation_state env source state w) = w_generations w"
  "w_violations (record_exit_for_violation_state env source state w) = w_violations w"
  by (simp_all add: record_exit_for_violation_state_def)

lemma drop_violation_simps [simp]:
  "w_forgotten (drop_violation k w) = w_forgotten w" "w_generations (drop_violation k w) = w_generations w"
  "w_violations (drop_violation k w) = dpop k (w_violations w)"
  by (simp_all add: drop_violation_def)

text \<open>
  \<open>keeps\<close>: an operation leaves the forgotten servers and the generations alone, and adds no
  violation but of the servers \<open>S\<close>.
\<close>

definition keeps :: "string set \<Rightarrow> guard_world \<Rightarrow> guard_world \<Rightarrow> bool" where
  "keeps S w w' \<longleftrightarrow> w_forgotten w' = w_forgotten w \<and> w_generations w' = w_generations w \<and>
     violation_servers w' \<subseteq> S \<union> violation_servers w"

lemma keeps_refl [simp, intro]: "keeps S w w"
  by (simp add: keeps_def)

lemma keeps_trans [trans]: "keeps S w w1 \<Longrightarrow> keeps S w1 w2 \<Longrightarrow> keeps S w w2"
  by (auto simp: keeps_def)

lemma keeps_mono: "keeps {} w w' \<Longrightarrow> keeps S w w'"
  by (auto simp: keeps_def)

lemma keeps_frame:
  assumes "w_forgotten w' = w_forgotten w" "w_generations w' = w_generations w"
    "set (w_violations w') \<subseteq> set (w_violations w)"
  shows "keeps S w w'"
  using assms by (auto simp: keeps_def violation_servers_def)

lemma keeps_set_state: "text_or_empty (pget state ''server_id'') \<in> S \<union> violation_servers w \<Longrightarrow> keeps S w (set_state k state w)"
  using violation_servers_set_state [of k state w] by (auto simp: keeps_def)

lemma keeps_foldl: "(\<And>x v. keeps S v (f v x)) \<Longrightarrow> keeps S w (foldl f w xs)"
  by (induction xs arbitrary: w) (auto intro: keeps_trans)

lemma keeps_record_event_action: "keeps S w (record_event_action env server d decision a w)"
  by (rule keeps_frame) simp_all

lemma keeps_drop: "keeps S w (drop_violation k w)"
  by (rule keeps_frame) (simp_all add: dpop_subset)

lemma keeps_exit: "keeps S w (exit_violation env k state w)" "keeps S w (close_violation env k state action outcome category w)"
  by (rule keeps_frame; simp add: exit_violation_def close_violation_def dpop_subset)+

lemma violation_server_of: "map_of (w_violations w) k = Some state \<Longrightarrow> text_or_empty (pget state ''server_id'') \<in> violation_servers w"
  using map_of_SomeD [of "w_violations w" k state] unfolding violation_servers_def by force

lemma keeps_change: "set (w_violations w') = set (w_violations w) \<Longrightarrow> w_forgotten w' = w_forgotten w \<Longrightarrow>
    w_generations w' = w_generations w \<Longrightarrow> keeps S w w'"
  by (rule keeps_frame) simp_all

subsection \<open>Enforcement keeps the servers\<close>

lemma open_violation_keeps:
  assumes "open_violation env k server d decision w = ((relapse, change, state), w')"
  shows "keeps {text_or_empty (pget server ''id'')} w w'"
    and "pget state ''server_id'' = PStr (text_or_empty (pget server ''id''))"
proof -
  obtain p w1 where w1: "close_pending_different_resolution_event env (playback_key (text_or_empty (pget server ''id'')) d) d w = (p, w1)"
    by (metis surj_pair)
  obtain t w2 where w2: "take_pending_exit_event_id (playback_key (text_or_empty (pget server ''id'')) d) d w1 = (t, w2)"
    by (metis surj_pair)
  have "keeps {text_or_empty (pget server ''id'')} w w1"
    using w1 by (intro keeps_frame)
      (auto simp: close_pending_different_resolution_event_def split: if_splits option.splits dest: subsetD [OF dpop_subset])
  moreover have "keeps {text_or_empty (pget server ''id'')} w1 w2"
    using w2 by (intro keeps_frame)
      (auto simp: take_pending_exit_event_id_def split: if_splits option.splits dest: subsetD [OF dpop_subset])
  ultimately have w: "keeps {text_or_empty (pget server ''id'')} w w2"
    by (rule keeps_trans)
  show server: "pget state ''server_id'' = PStr (text_or_empty (pget server ''id''))"
    using assms by (auto simp: open_violation_def Let_def w1 w2 new_violation_state_def split: if_splits)
  have "w' = set_state k state w2"
    using assms by (auto simp: open_violation_def Let_def w1 w2 split: if_splits)
  then show "keeps {text_or_empty (pget server ''id'')} w w'"
    using keeps_trans [OF w keeps_set_state [of state _ w2 k]] server by (simp add: text_or_empty_def)
qed

lemma refresh_state_server [simp]: "pget (refresh_state env sid d decision state) ''server_id'' = pget state ''server_id''"
  by (simp add: refresh_state_def Let_def)

lemma note_warning_server [simp]: "pget (note_warning env first success state) ''server_id'' = pget state ''server_id''"
  by (simp add: note_warning_def Let_def)

lemma send_warning_keeps: "keeps S w (snd (send_warning env server d decision settings state w))"
  by (rule keeps_frame) (simp_all add: send_warning_def make_call_def)

lemma apply_mode_keeps:
  assumes "text_or_empty (pget state ''server_id'') \<in> S \<union> violation_servers w"
  shows "keeps S w (snd (apply_mode env k server d decision settings state w))"
proof -
  have warn: "keeps S w (snd (warn_stream env first k server d decision settings state w))" for first
  proof -
    obtain ok w1 where w1: "send_warning env server d decision settings state w = (ok, w1)"
      by (metis surj_pair)
    have "keeps S w w1"
      using send_warning_keeps [of S w env server d decision settings state] w1 by simp
    moreover have "violation_servers w1 = violation_servers w"
      using w1 by (intro violation_servers_cong) (auto simp: send_warning_def make_call_def)
    ultimately have "keeps S w (set_state k (note_warning env first ok state) w1)"
      using assms by (intro keeps_trans [OF _ keeps_set_state]) auto
    then show ?thesis
      by (simp add: warn_stream_def w1)
  qed
  have stop: "keeps S w (snd (stop_stream env k server d decision state w))"
  proof -
    obtain ok w1 where w1: "make_call env (StopSession (text_or_empty (pget server ''id''))
        (text_or_empty (pget d ''session_id''))) w = (ok, w1)"
      by (metis surj_pair)
    have w1_frame: "w_forgotten w1 = w_forgotten w" "w_generations w1 = w_generations w" "w_violations w1 = w_violations w"
      using w1 by (auto simp: make_call_def)
    have "keeps S w w1" "violation_servers w1 = violation_servers w"
      by (rule keeps_frame, simp_all add: w1_frame) (rule violation_servers_cong, rule w1_frame)
    then have "keeps S w (record_event_action env server d decision a (set_state k state' w1))"
      if "pget state' ''server_id'' = pget state ''server_id''" for state' a
      using assms that by (intro keeps_trans [OF keeps_trans [OF _ keeps_set_state] keeps_record_event_action]) auto
    then show ?thesis
      by (simp add: stop_stream_def w1 Let_def)
  qed
  show ?thesis
    unfolding apply_mode_def Let_def using warn stop assms
    by (simp add: keeps_set_state split: option.split)
qed

lemma flags_server [simp]:
  "pget (dupdate state [(''resolution_change_prefix_pending'', u), (''resolution_change_recorded'', v)]) ''server_id''
     = pget state ''server_id''"
  by simp

text \<open>The violation set \<open>T\<close> holds the server of the state that is handled.\<close>

lemma keeps_then_state:
  assumes "keeps S w w1" "text_or_empty (pget state ''server_id'') \<in> S \<union> violation_servers w1"
  shows "keeps S w (set_state k state w1)"
  using keeps_trans [OF assms(1) keeps_set_state [OF assms(2)]] .

lemma set_state_servers: "text_or_empty (pget state ''server_id'') \<in> violation_servers (set_state k state w)"
  by (rule violation_server_of [of _ k]) simp

lemma handle_violation_keeps:
  "keeps {text_or_empty (pget server ''id'')} w (snd (handle_violation env k server d decision settings w))"
proof -
  let ?sid = "text_or_empty (pget server ''id'')"
  obtain relapse change state0 w1 where eq: "(case map_of (w_violations w) k of
        Some state \<Rightarrow> ((False, False, state), w)
      | None \<Rightarrow> open_violation env k server d decision w) = ((relapse, change, state0), w1)"
    by (metis prod_cases3 surj_pair)
  have opened: "keeps {?sid} w w1" "text_or_empty (pget state0 ''server_id'') \<in> {?sid} \<union> violation_servers w1"
    using eq open_violation_keeps [of env k server d decision w relapse change state0 w1]
      violation_server_of [of w k state0]
    by (auto split: option.splits simp: text_or_empty_def)
  define state1 where "state1 = refresh_state env ?sid d decision state0"
  define state2 where "state2 = (if change then dupdate state1 [(''resolution_change_prefix_pending'', PBool False),
      (''resolution_change_recorded'', PBool True)] else state1)"
  define w2 where "w2 = set_state k state1 w1"
  define w3 where "w3 = (if change then record_event_action env server d decision
      (guard_action state1 ''resolution_change'' ''Cambio risoluzione'' True) w2 else w2)"
  define w4 where "w4 = (if change then set_state k state2 w3 else w3)"
  define w5 where "w5 = (if relapse then record_event_action env server d decision
      (guard_action state2 ''relapse'' ''Ricaduta'' True) w4 else w4)"
  have server: "pget state1 ''server_id'' = pget state0 ''server_id''" "pget state2 ''server_id'' = pget state0 ''server_id''"
    by (simp_all add: state1_def state2_def)
  have w2: "keeps {?sid} w w2" "text_or_empty (pget state0 ''server_id'') \<in> violation_servers w2"
    using keeps_then_state [OF opened(1), of state1 k] opened(2) set_state_servers [of state1 k w1] server
    by (simp_all add: w2_def)
  have w3: "keeps {?sid} w w3"
    using keeps_trans [OF w2(1) keeps_record_event_action] w2(1) by (simp add: w3_def)
  have w3_servers: "violation_servers w3 = violation_servers w2"
    by (rule violation_servers_cong) (simp add: w3_def)
  have w4: "keeps {?sid} w w4" "text_or_empty (pget state0 ''server_id'') \<in> violation_servers w4"
    using keeps_then_state [OF w3, of state2 k] w3 w3_servers w2(2) server set_state_servers [of state2 k w3]
    by (simp_all add: w4_def)
  have w5: "keeps {?sid} w w5"
    using keeps_trans [OF w4(1) keeps_record_event_action] w4(1) by (simp add: w5_def)
  have w5_servers: "violation_servers w5 = violation_servers w4"
    by (rule violation_servers_cong) (simp add: w5_def)
  have "handle_violation env k server d decision settings w = apply_mode env k server d decision settings state2 w5"
    unfolding handle_violation_def Let_def eq split_conv state1_def [symmetric] state2_def [symmetric]
      w2_def [symmetric] w3_def [symmetric] w4_def [symmetric] w5_def [symmetric] ..
  moreover have "keeps {?sid} w5 (snd (apply_mode env k server d decision settings state2 w5))"
    by (rule apply_mode_keeps) (simp add: server w5_servers w4(2))
  ultimately show ?thesis
    using keeps_trans [OF w5] by simp
qed

subsection \<open>The scan keeps the servers\<close>

lemma keeps_record_stream_observation: "keeps S w (record_stream_observation env server d decision a w)"
  by (rule keeps_frame) simp_all

lemma keeps_bind_run:
  assumes "keeps S w (snd r)" "\<And>x v. keeps S v (snd (f x v))"
  shows "keeps S w (snd (bind_run r f))"
  using assms by (auto simp: bind_run_def split: prod.splits sum.splits intro: keeps_trans)

lemma scan_stream_keeps:
  "keeps {text_or_empty (pget server ''id'')} w (snd (scan_stream env ips settings server v sc w))"
proof (cases v)
  case (PDict d)
  have handled: "keeps {text_or_empty (pget server ''id'')} v (snd (handle_violation env k server d1 c c
      (record_stream_observation env server d1 c no_action v)))" for v k d1 c
    by (rule keeps_trans [OF keeps_record_stream_observation handle_violation_keeps])
  show ?thesis
  proof (cases "text_or_empty (pget (server_stream server d) ''session_id'') = []")
    case False
    then show ?thesis
      by (cases "classify_stream ips (server_stream server d) settings")
        (simp_all add: scan_stream_def PDict Let_def lift_run_def split_beta handled keeps_record_stream_observation)
  qed (simp add: scan_stream_def PDict Let_def)
qed (simp_all add: scan_stream_def)

lemma scan_streams_keeps:
  "keeps {text_or_empty (pget server ''id'')} w (snd (scan_streams env ips settings server vs sc w))"
  by (induction vs arbitrary: sc w) (auto intro!: keeps_bind_run scan_stream_keeps)

lemma finish_server_keeps:
  "keeps {text_or_empty (pget server ''id'')} w (snd (finish_server env ips settings server g answer sc w))"
  by (auto simp: finish_server_def Let_def scan_streams_keeps split: sum.split)

lemma settle_missing_keeps:
  assumes "text_or_empty (pget state ''server_id'') \<in> violation_servers w"
  shows "keeps {} w (settle_missing env sc k state w)"
  using assms by (auto simp: settle_missing_def keeps_exit intro!: keeps_set_state)

lemma settle_unmatched_keeps:
  assumes "text_or_empty (pget state ''server_id'') \<in> violation_servers w"
  shows "keeps {} w (settle_unmatched env sc k state w)"
  unfolding settle_unmatched_def Let_def
  by (cases "matching_other_rule_violation
      (matching_other_violation (dget_default (sc_violating sc) (text_or_empty (pget state ''playback_key'')) []) k)
      (text_or_empty (pget state ''rule_id''))") (simp_all add: keeps_exit settle_missing_keeps [OF assms] split_beta)

lemma settle_violation_keeps: "keeps {} w (snd (settle_violation env sc k (resolved, w)))"
proof (cases "map_of (w_violations w) k")
  case (Some state)
  have state: "dget_default (w_violations w) k [] = state"
    by (simp add: dget_default_def Some)
  show ?thesis
    by (cases "direct_stream sc (text_or_empty (pget state ''playback_key''))")
      (simp_all add: settle_violation_def Let_def state keeps_drop keeps_exit
        settle_unmatched_keeps [OF violation_server_of [OF Some]] split_beta)
qed (simp add: settle_violation_def dget_default_def)

lemma settle_violations_keeps: "keeps {} w (snd (settle_violations env sc w))"
proof -
  have "keeps {} v (snd (foldl (\<lambda>r k. settle_violation env sc k r) (resolved, v) ks))" for ks resolved v
  proof (induction ks arbitrary: resolved v)
    case (Cons k ks)
    obtain resolved1 v1 where v1: "settle_violation env sc k (resolved, v) = (resolved1, v1)"
      by (metis surj_pair)
    have "keeps {} v v1"
      using settle_violation_keeps [of v env sc k resolved] v1 by simp
    then show ?case
      using keeps_trans [OF _ Cons.IH [of v1 resolved1]] by (simp add: v1)
  qed simp
  then show ?thesis
    by (simp add: settle_violations_def)
qed

lemma record_later_success_keeps: "keeps S w (record_later_success env pk d scanned w)"
  unfolding record_later_success_def Let_def
  by (simp add: keeps_record_event_action split: option.split prod.split)

lemma record_later_successes_keeps: "keeps S w (record_later_successes env sc resolved w)"
  unfolding record_later_successes_def
  by (rule keeps_foldl) (simp add: record_later_success_keeps split: prod.split)

lemma record_exit_for_stream_row_keeps: "keeps S w (record_exit_for_stream_row env row w)"
  unfolding record_exit_for_stream_row_def Let_def
  by (simp add: keeps_record_event_action split: option.split)

lemma close_rows_keeps: "keeps S w (snd (snd (close_rows env scanned present rows (changed, w))))"
proof (induction rows arbitrary: changed w)
  case (Cons row rows)
  have after: "keeps S w (snd (snd (close_rows env scanned present rows (c, v))))" if "keeps S w v" for c v
    by (rule keeps_trans [OF that Cons.IH])
  show ?case
    by (simp add: Let_def after record_exit_for_stream_row_keeps split_beta)
qed simp

lemma keeps_save_stream_rows: "keeps S w (save_stream_rows env rows w)"
  by (rule keeps_frame) simp_all

lemma close_missing_stream_rows_keeps: "keeps S w (close_missing_stream_rows env scanned present w)"
proof -
  obtain rows changed w1 where w1: "close_rows env scanned present (load_stream_rows env w) (False, w) = (rows, changed, w1)"
    by (metis prod_cases3)
  have "keeps S w w1"
    using close_rows_keeps [of S w env scanned present "load_stream_rows env w" False] w1 by simp
  then show ?thesis
    using keeps_trans [OF _ keeps_save_stream_rows] by (simp add: close_missing_stream_rows_def w1)
qed

lemma retention_keeps:
  "apply_stream_history_retention env settings w = Inr (n, w') \<Longrightarrow> keeps S w w'"
  by (auto simp: apply_stream_history_retention_def Let_def result_bind_Inr_iff keeps_save_stream_rows
      split: if_splits prod.splits)

lemma finish_scan_keeps: "keeps {} w (snd (finish_scan env settings sc w))"
proof -
  obtain resolved w1 where w1: "settle_violations env sc w = (resolved, w1)"
    by (metis surj_pair)
  define w3 where "w3 = close_missing_stream_rows env (sc_scanned sc) (sc_playbacks sc)
    (record_later_successes env sc resolved w1)"
  have "keeps {} w w1"
    using settle_violations_keeps [of w env sc] w1 by simp
  then have w3: "keeps {} w w3"
    unfolding w3_def by (intro keeps_trans [OF keeps_trans [OF _ record_later_successes_keeps] close_missing_stream_rows_keeps])
  have result: "keeps {} w (v\<lparr>w_result := r\<rparr>)" if "keeps {} w v" for v r
    using that by (simp add: keeps_def violation_servers_def)
  show ?thesis
    using w3 keeps_trans [OF w3 retention_keeps]
    by (auto simp: finish_scan_def w1 Let_def w3_def [symmetric] split: sum.split intro!: result)
qed

subsection \<open>Steps of the guard\<close>

text \<open>
  What a thread can do under the lock: the requests of the administration, the playback events
  that arrive, and the three parts of a scan.  A scan of one thread is a sequence of such steps
  with the steps of the others in between.
\<close>

inductive guard_step :: "'a ip_lib \<Rightarrow> guard_world \<Rightarrow> guard_world \<Rightarrow> bool" for ips where
  allow: "guard_step ips w (allow_server s w)"
| forget: "guard_step ips w (forget_server s w)"
| save: "guard_step ips w (snd (save_settings raw w))"
| playback: "guard_step ips w (snd (record_playback_event env s payload w))"
| bridge: "guard_step ips w (snd (record_event_bridge_event env payload w))"
| clear_log: "clear_events env before w = Inr (n, w') \<Longrightarrow> guard_step ips w w'"
| clear_streams: "clear_stream_history env before w = Inr (n, w') \<Longrightarrow> guard_step ips w w'"
| capture: "guard_step ips w (snd (capture_server_generation s w))"
| finish: "guard_step ips w (snd (finish_server env ips settings server g answer sc w))"
| settle: "guard_step ips w (snd (finish_scan env settings sc w))"

inductive_cases guard_stepE: "guard_step ips w w'"

lemma record_playback_event_row_keeps:
  "record_playback_event_row env event w = Inr w' \<Longrightarrow> keeps S w w'"
  by (auto simp: record_playback_event_row_def Let_def result_bind_Inr_iff split: list.splits if_splits
      intro!: keeps_frame)

lemma record_stream_playback_event_keeps: "keeps S w (snd (record_stream_playback_event env event w))"
  by (auto simp: record_stream_playback_event_def Let_def keeps_save_stream_rows)

lemma keeps_record_exit: "keeps S w (record_exit_for_violation_state env source state w)"
  by (rule keeps_frame) simp_all

lemma record_playback_stopped_event_keeps: "keeps {} w (snd (record_playback_stopped_event env event w))"
proof -
  have recent: "keeps {} v (snd (exit_recent_session env s i v))" for v s i
    by (auto simp: exit_recent_session_def keeps_record_event_action split: option.split)
  define w1 where "w1 = w\<lparr>w_violations := filter (\<lambda>p. \<not> is_session_violation (session_key (text_or_empty (pget event ''server_id''))
     (text_or_empty (pget event ''session_id''))) (snd p)) (w_violations w)\<rparr>"
  have w1: "keeps {} w w1"
    by (rule keeps_frame) (auto simp: w1_def)
  have w2: "keeps {} w (foldl (\<lambda>v state. record_exit_for_violation_state env ''player'' state v) w1 closed)" for closed
    by (rule keeps_trans [OF w1 keeps_foldl]) (rule keeps_record_exit)
  have w3: "keeps {} w (if b then snd (record_stream_playback_event env event
      (foldl (\<lambda>v state. record_exit_for_violation_state env ''player'' state v) w1 closed))
    else foldl (\<lambda>v state. record_exit_for_violation_state env ''player'' state v) w1 closed)" for b closed
    using w2 keeps_trans [OF w2 record_stream_playback_event_keeps] by simp
  have w4: "keeps {} w (snd (if b then exit_recent_session env s i v else (0, v)))" if "keeps {} w v" for b s i v
    using that keeps_trans [OF that recent] by simp
  show ?thesis
    unfolding record_playback_stopped_event_def Let_def w1_def [symmetric] case_prod_beta snd_conv
    by (rule w4, rule w3)
qed

lemma record_playback_change_event_keeps: "keeps {} w (snd (record_playback_change_event env event w))"
  unfolding record_playback_change_event_def Let_def snd_conv
  by (rule keeps_trans [OF keeps_foldl record_stream_playback_event_keeps]) (rule keeps_record_event_action)

lemma record_one_event_keeps: "keeps {} w (snd (record_one_event env result event w))"
proof (cases "record_playback_event_row env event w")
  case (Inr w1)
  note w1 = record_playback_event_row_keeps [OF Inr, of "{}"]
  show ?thesis
    using w1 keeps_trans [OF w1 record_playback_stopped_event_keeps] keeps_trans [OF w1 record_playback_change_event_keeps]
      keeps_trans [OF w1 record_stream_playback_event_keeps]
    by (simp add: record_one_event_def Inr Let_def split_beta)
qed (simp add: record_one_event_def)

lemma record_events_keeps: "keeps {} w (snd (record_events env result events w))"
  by (induction events arbitrary: result w) (auto intro!: keeps_bind_run record_one_event_keeps)

lemma record_playback_event_keeps: "keeps {} w (snd (record_playback_event env s payload w))"
  by (simp add: record_playback_event_def record_events_keeps)

lemma record_event_bridge_event_keeps: "keeps {} w (snd (record_event_bridge_event env payload w))"
proof -
  have plugin: "keeps {} w (snd (record_plugin_playback_event env p w))" for p
    by (simp add: record_plugin_playback_event_def Let_def record_playback_event_keeps split: py.split)
  have diagnostic: "keeps {} w (snd (record_plugin_diagnostic env d t w))" for d t
    by (auto simp: record_plugin_diagnostic_def Let_def split: sum.split intro: record_playback_event_row_keeps)
  show ?thesis
    by (simp add: record_event_bridge_event_def Let_def plugin diagnostic split: py.split)
qed

lemma clear_keeps:
  "clear_events env before w = Inr (n, w') \<Longrightarrow> keeps S w w'"
  "clear_stream_history env before w = Inr (n, w') \<Longrightarrow> keeps S w w'"
  by (auto simp: clear_events_def clear_stream_history_def Let_def result_bind_Inr_iff
      split: if_splits option.splits prod.splits intro!: keeps_frame)

lemma save_settings_keeps: "keeps S w (snd (save_settings raw w))"
  by (auto simp: save_settings_def keeps_def violation_servers_def lift_run_def bind_run_def split: sum.split prod.split)

subsection \<open>Deleted servers\<close>

definition forgotten_clear :: "guard_world \<Rightarrow> bool" where
  "forgotten_clear w \<longleftrightarrow> list_all (\<lambda>p. text_or_empty (pget (snd p) ''server_id'') \<notin> set (w_forgotten w)) (w_violations w)"

lemma forgotten_clear_servers: "forgotten_clear w \<longleftrightarrow> violation_servers w \<inter> set (w_forgotten w) = {}"
  by (auto simp: forgotten_clear_def violation_servers_def list_all_iff)

lemma keeps_clear: "keeps S w w' \<Longrightarrow> forgotten_clear w \<Longrightarrow> S \<inter> set (w_forgotten w) = {} \<Longrightarrow> forgotten_clear w'"
  by (auto simp: keeps_def forgotten_clear_servers)

lemma keeps_generation: "keeps S w w' \<Longrightarrow> generation s w' = generation s w"
  by (simp add: keeps_def generation_def)

lemma finish_server_fenced:
  "\<not> server_generation_is_current (text_or_empty (pget server ''id'')) g w \<Longrightarrow>
     snd (finish_server env ips settings server g answer sc w) = w"
  by (simp add: finish_server_def split: sum.split)

lemma finish_server_clear:
  assumes "forgotten_clear w"
  shows "forgotten_clear (snd (finish_server env ips settings server g answer sc w))"
proof (cases "server_generation_is_current (text_or_empty (pget server ''id'')) g w")
  case True
  then show ?thesis
    by (intro keeps_clear [OF finish_server_keeps assms]) (simp add: server_generation_is_current_def)
qed (simp add: finish_server_fenced assms)

lemmas step_keeps = save_settings_keeps record_playback_event_keeps record_event_bridge_event_keeps clear_keeps finish_scan_keeps

lemma guard_step_clear:
  assumes "guard_step ips w w'" "forgotten_clear w"
  shows "forgotten_clear w'"
  using assms
proof (induction rule: guard_step.induct)
  case (allow w s)
  then show ?case
    by (auto simp: allow_server_def Let_def forgotten_clear_def list_all_iff)
next
  case (forget w s)
  then show ?case
    by (auto simp: forget_server_def Let_def forgotten_clear_def list_all_iff)
next
  case (capture w s)
  then show ?case
    by (auto simp: capture_server_generation_def forgotten_clear_def)
qed (auto intro: keeps_clear [OF step_keeps(1)] keeps_clear [OF step_keeps(2)] keeps_clear [OF step_keeps(3)]
    keeps_clear [OF step_keeps(4) [of _ _ _ _ _ "{}"]] keeps_clear [OF step_keeps(5) [of _ _ _ _ _ "{}"]]
    keeps_clear [OF step_keeps(6)] finish_server_clear)

lemma guard_step_generation:
  assumes "guard_step ips w w'"
  shows "generation s w \<le> generation s w'"
  using assms
proof (induction rule: guard_step.induct)
  case (finish w env settings server g answer sc)
  show ?case
    by (rule eq_refl [OF keeps_generation [OF finish_server_keeps, symmetric]])
next
  case (save w raw)
  show ?case by (rule eq_refl [OF keeps_generation [OF save_settings_keeps, symmetric]])
next
  case (playback w env i payload)
  show ?case by (rule eq_refl [OF keeps_generation [OF record_playback_event_keeps, symmetric]])
next
  case (bridge w env payload)
  show ?case by (rule eq_refl [OF keeps_generation [OF record_event_bridge_event_keeps, symmetric]])
next
  case (clear_log env before w n w')
  show ?case by (rule eq_refl [OF keeps_generation [OF clear_keeps(1) [OF clear_log], symmetric]])
next
  case (clear_streams env before w n w')
  show ?case by (rule eq_refl [OF keeps_generation [OF clear_keeps(2) [OF clear_streams], symmetric]])
next
  case (settle w env settings sc)
  show ?case by (rule eq_refl [OF keeps_generation [OF finish_scan_keeps, symmetric]])
qed (auto simp: allow_server_def forget_server_def capture_server_generation_def generation_def dget_default_def Let_def
    split: option.split)

lemma steps_generation: "(guard_step ips)\<^sup>*\<^sup>* w w' \<Longrightarrow> generation s w \<le> generation s w'"
  by (induction rule: rtranclp_induct) (auto dest: guard_step_generation [of ips _ _ s])

lemma forget_generation: "strip s = s \<Longrightarrow> s \<noteq> [] \<Longrightarrow> generation s (forget_server s w) = generation s w + 1"
  by (simp add: forget_server_def generation_def dget_default_def)

text \<open>
  C25: While a server is deleted the guard holds no violation of it, whatever requests, playback
  events and scans have run, in any interleaving.
\<close>

theorem deleted_servers_clear:
  assumes "(guard_step ips)\<^sup>*\<^sup>* w w'" "w_violations w = []"
  shows "list_all (\<lambda>(k, state). text_or_empty (pget state ''server_id'') \<notin> set (w_forgotten w')) (w_violations w')"
proof -
  have "forgotten_clear w"
    using assms(2) by (simp add: forgotten_clear_def)
  with assms(1) have "forgotten_clear w'"
    by (induction rule: rtranclp_induct) (auto intro: guard_step_clear)
  then show ?thesis
    by (auto simp: forgotten_clear_def list_all_iff)
qed

theorem deleted_servers_clear_witness:
  "list_all (\<lambda>(k, state). text_or_empty (pget state ''server_id'') \<notin> set (w_forgotten (forget_server ''s'' empty_world)))
     (w_violations (forget_server ''s'' empty_world))"
  by (rule deleted_servers_clear [of no_ips empty_world])
    (auto simp: empty_world_def intro: guard_step.forget r_into_rtranclp)

text \<open>
  C26: A fetch that was under way when its server was deleted is dropped, even when a server of
  the same id was admitted again meanwhile: the streams it brings change nothing.
\<close>

theorem deletion_fences_scan:
  assumes "capture_server_generation s w = (g, w1)" "0 \<le> generation s w"
    "(guard_step ips)\<^sup>*\<^sup>* w1 w2" "(guard_step ips)\<^sup>*\<^sup>* (forget_server s w2) w3"
    "strip s = s" "s \<noteq> []" "text_or_empty (pget server ''id'') = s"
  shows "finish_server env ips settings server g (Inr vs) sc w3 = (Inr sc, w3)"
proof -
  have w1: "generation s w1 = generation s w" "g \<le> generation s w1"
    using assms(1,2) by (auto simp: capture_server_generation_def generation_def dget_default_def split: if_splits option.splits)
  have "g < generation s w3"
    using w1 steps_generation [OF assms(3), of s] steps_generation [OF assms(4), of s] forget_generation [OF assms(5,6), of w2]
    by linarith
  then show ?thesis
    using assms(7) by (simp add: finish_server_def server_generation_is_current_def)
qed

theorem deletion_fences_scan_witness:
  "finish_server (sample_env 1) no_ips [] [(''id'', PStr ''s'')] 0 (Inr [PDict sample_stream]) empty_scan
     (allow_server ''s'' (forget_server ''s'' (snd (capture_server_generation ''s'' empty_world)))) =
   (Inr empty_scan, allow_server ''s'' (forget_server ''s'' (snd (capture_server_generation ''s'' empty_world))))"
proof (rule deletion_fences_scan)
  show "capture_server_generation ''s'' empty_world = (0, snd (capture_server_generation ''s'' empty_world))"
    by code_simp
  show "0 \<le> generation ''s'' empty_world" by code_simp
  show "(guard_step no_ips)\<^sup>*\<^sup>* (forget_server ''s'' (snd (capture_server_generation ''s'' empty_world)))
      (allow_server ''s'' (forget_server ''s'' (snd (capture_server_generation ''s'' empty_world))))"
    by (rule r_into_rtranclp) (rule guard_step.allow)
qed (auto simp: text_or_empty_def, code_simp)

subsection \<open>Leaving a violation\<close>

text \<open>A pass over a violation that neither a stream nor another violation explains.\<close>

definition unexplained :: "string \<Rightarrow> pdict \<Rightarrow> scan \<Rightarrow> bool" where
  "unexplained k state sc \<longleftrightarrow>
     direct_stream sc (text_or_empty (pget state ''playback_key'')) = None
     \<and> matching_other_violation (dget_default (sc_violating sc) (text_or_empty (pget state ''playback_key'')) []) k = None
     \<and> \<not> list_ex (\<lambda>s. pget state ''session_key'' = PStr s) (sc_sessions sc)"

definition settle_passes ::
  "string \<Rightarrow> (guard_env \<times> scan) list \<Rightarrow> string list \<times> guard_world \<Rightarrow> string list \<times> guard_world" where
  "settle_passes k passes r = foldl (\<lambda>r (env, sc). settle_violation env sc k r) r passes"

lemma settle_passes_Cons: "settle_passes k ((env, sc) # passes) r = settle_passes k passes (settle_violation env sc k r)"
  by (simp add: settle_passes_def)

definition pending_exit :: "guard_env \<Rightarrow> pdict \<Rightarrow> pdict" where
  "pending_exit env state = dupdate state
     [(''missing_since'', e_float env (e_now env)), (''missing_since_at'', PStr (e_ts env)), (''state'', PStr ''pending_exit'')]"

lemma pget_pending_exit:
  "k \<notin> {''missing_since'', ''missing_since_at'', ''state''} \<Longrightarrow> pget (pending_exit env state) k = pget state k"
  "pget (pending_exit env state) ''missing_since'' = e_float env (e_now env)"
  by (simp_all add: pending_exit_def)

lemma pending_exit_not_empty: "pending_exit env state \<noteq> []"
proof
  assume "pending_exit env state = []"
  then show False using pget_pending_exit(2) [of env state] by (simp add: e_float_def)
qed

lemma unexplained_pending: "unexplained k (pending_exit env state) sc \<longleftrightarrow> unexplained k state sc"
  by (simp add: unexplained_def pget_pending_exit)

lemma settle_unexplained:
  assumes "map_of (w_violations w) k = Some state" "state \<noteq> []" "\<not> closed_by_guard state" "unexplained k state sc"
  shows "settle_violation env sc k (resolved, w) = (resolved,
    if pget state ''missing_since'' = PNone then set_state k (pending_exit env state) w
    else if settled env (pget state ''missing_since'') then exit_violation env k state w else w)"
proof -
  have state: "dget_default (w_violations w) k [] = state"
    by (simp add: dget_default_def assms(1))
  show ?thesis
    using assms by (simp add: settle_violation_def Let_def state settle_unmatched_def matching_other_rule_violation_def
        settle_missing_def pending_exit_def unexplained_def)
qed

lemma settle_gone:
  assumes "map_of (w_violations w) k = None"
  shows "settle_passes k passes (resolved, w) = (resolved, w)"
  using assms by (induction passes)
    (auto simp: settle_passes_def settle_violation_def dget_default_def Let_def)

lemma settle_pending_passes:
  assumes "map_of (w_violations w) k = Some (pending_exit env state)" "\<not> closed_by_guard state"
    "\<forall>(env', sc) \<in> set passes. unexplained k state sc"
  shows "if \<exists>(env', sc) \<in> set passes. 4 \<le> e_now env' - e_now env
    then map_of (w_violations (snd (settle_passes k passes (resolved, w)))) k = None
    else settle_passes k passes (resolved, w) = (resolved, w)"
  using assms(3)
proof (induction passes)
  case (Cons p passes)
  obtain env' sc where p: "p = (env', sc)" by fastforce
  have since: "pget (pending_exit env state) ''missing_since'' = e_float env (e_now env)" by (rule pget_pending_exit)
  have "settle_violation env' sc k (resolved, w) = (resolved,
      if 4 \<le> e_now env' - e_now env then exit_violation env' k (pending_exit env state) w else w)"
    using settle_unexplained [OF assms(1) pending_exit_not_empty _ Cons.prems [unfolded p, simplified, THEN conjunct1, folded unexplained_pending [of k env state]]]
      pget_pending_exit(2) [of env state] assms(2)
    by (auto simp: settled_def e_float_def number_of_def exit_settle_seconds_def closed_by_guard_def pget_pending_exit)
  moreover have "map_of (w_violations (exit_violation env' k (pending_exit env state) w)) k = None"
    by (simp add: exit_violation_def)
  ultimately show ?case
    using Cons settle_gone [of "exit_violation env' k (pending_exit env state) w" k passes resolved]
    by (cases "4 \<le> e_now env' - e_now env") (simp_all add: p settle_passes_Cons)
qed (simp add: settle_passes_def)

text \<open>
  C35: A violation that nothing explains any more is marked as a pending exit at the first pass that misses
  it, and is closed by the first later pass that runs four seconds or more after that one.  Until then
  no pass changes anything, in particular not the time of the first one.
\<close>

theorem missing_violation_settles:
  assumes "map_of (w_violations w) k = Some state" "state \<noteq> []" "\<not> closed_by_guard state" "pget state ''missing_since'' = PNone"
    "\<forall>(env', sc') \<in> set ((env, sc) # passes). unexplained k state sc'"
  shows "if \<exists>(env', sc') \<in> set passes. 4 \<le> e_now env' - e_now env
    then map_of (w_violations (snd (settle_passes k ((env, sc) # passes) (resolved, w)))) k = None
    else settle_passes k ((env, sc) # passes) (resolved, w) = (resolved, set_state k (pending_exit env state) w)"
proof -
  have "settle_passes k ((env, sc) # passes) (resolved, w) = settle_passes k passes (resolved, set_state k (pending_exit env state) w)"
    using assms by (simp add: settle_passes_def settle_unexplained)
  moreover have "map_of (w_violations (set_state k (pending_exit env state) w)) k = Some (pending_exit env state)"
    by (simp add: set_state_def)
  ultimately show ?thesis using settle_pending_passes [OF _ assms(3), of "set_state k (pending_exit env state) w" k env passes resolved] assms(5)
    by simp
qed

definition lost_state :: pdict where
  "lost_state = [(''server_id'', PStr ''s''), (''session_key'', PStr ''s:7'')]"

theorem missing_violation_settles_witness:
  "map_of (w_violations (snd (settle_passes ''k'' [(sample_env 1, empty_scan), (sample_env 4, empty_scan), (sample_env 5, empty_scan)]
     ([], empty_world\<lparr>w_violations := [(''k'', lost_state)]\<rparr>)))) ''k'' = None
   \<and> settle_passes ''k'' [(sample_env 1, empty_scan), (sample_env 4, empty_scan)] ([], empty_world\<lparr>w_violations := [(''k'', lost_state)]\<rparr>)
     = ([], set_state ''k'' (pending_exit (sample_env 1) lost_state) (empty_world\<lparr>w_violations := [(''k'', lost_state)]\<rparr>))"
proof -
  let ?w = "empty_world\<lparr>w_violations := [(''k'', lost_state)]\<rparr>"
  have "map_of (w_violations ?w) ''k'' = Some lost_state" "lost_state \<noteq> []" "\<not> closed_by_guard lost_state"
    "pget lost_state ''missing_since'' = PNone" "unexplained ''k'' lost_state empty_scan"
    by (simp_all add: lost_state_def closed_by_guard_def unexplained_def empty_scan_def direct_stream_def
        matching_other_violation_def text_or_empty_def dget_default_def)
  with missing_violation_settles [of ?w "''k''" lost_state "sample_env 1" empty_scan "[(sample_env 4, empty_scan), (sample_env 5, empty_scan)]" "[]"]
    missing_violation_settles [of ?w "''k''" lost_state "sample_env 1" empty_scan "[(sample_env 4, empty_scan)]" "[]"]
  show ?thesis by (auto simp: sample_env_def)
qed

end
