(* ===== verification/Guard_Stats.thy ===== *)
theory Guard_Stats
  imports Guard_Rows "HOL-Library.Product_Lexorder" "HOL-Library.Multiset"
begin

text \<open>
  Statistics over the stream history (\<open>emby_runtime/transcode_guard_stats.py\<close>): the rows a filter
  selects, what they say of each user, the totals, and the facets of the filter form.  \<open>now\<close> is an
  instant in microseconds; a rate and a number are rationals that \<open>fl\<close> writes as floats;
  \<open>read_float\<close> is \<open>float\<close> on a text.  The lists of a row are lists, as the normalisation of the
  stream log leaves them.
\<close>

definition hour_micros :: int where "hour_micros = 3600 * 1000000"

definition periods :: "(string, int) dict" where
  "periods = [(''24h'', 24 * hour_micros), (''7d'', 7 * 24 * hour_micros), (''30d'', 30 * 24 * hour_micros)]"

definition issue_actions :: "string list" where
  "issue_actions = [''warn'', ''warning_error'', ''stop'', ''partial_resolved'', ''relapse'']"

definition interesting_actions :: "string list" where
  "interesting_actions = [''resolved'', ''resolved_later'', ''resolution_change'']"

subsection \<open>One row\<close>

definition py_items :: "py \<Rightarrow> py list" where
  "py_items v = (case v of PList xs \<Rightarrow> xs | _ \<Rightarrow> [])"

text \<open>\<open>_actions\<close>: the names of the actions of a row.\<close>

definition stats_actions :: "pdict \<Rightarrow> string list" where
  "stats_actions row =
     filter (\<lambda>t. t \<noteq> []) (map (\<lambda>a. strip (text_or_empty (pget a ''action''))) (dict_rows (py_items (pget row ''actions''))))"

definition has_action :: "pdict \<Rightarrow> string list \<Rightarrow> bool" where
  "has_action row wanted = list_ex (\<lambda>a. a \<in> set wanted) (stats_actions row)"

definition row_is_correct :: "pdict \<Rightarrow> bool" where
  "row_is_correct row \<longleftrightarrow>
     ''corretta'' \<in> set (map (\<lambda>t. lower (text_or_empty t)) (py_items (pget row ''tags''))) \<and>
     \<not> truthy (pget row ''violations_committed'')"

definition row_is_issue :: "pdict \<Rightarrow> bool" where
  "row_is_issue row \<longleftrightarrow> truthy (pget row ''violations_committed'') \<or> has_action row issue_actions"

definition row_is_interesting :: "pdict \<Rightarrow> bool" where
  "row_is_interesting row \<longleftrightarrow> row_is_issue row \<or> has_action row interesting_actions"

definition row_sort_key :: "pdict \<Rightarrow> string" where
  "row_sort_key row =
     text_or_empty (py_or (pget row ''updated_at'') (py_or (pget row ''last_seen_at'') (pget row ''started_at'')))"

definition user_label :: "pdict \<Rightarrow> string" where
  "user_label row =
     (let label = strip (text_or (pget row ''user'') ''Utente sconosciuto'')
      in if label \<noteq> [] then label else ''Utente sconosciuto'')"

definition row_quality :: "pdict \<Rightarrow> string" where
  "row_quality row =
     (if truthy (pget row ''quality'') then py_str (pget row ''quality'')
      else
        let height = to_int (py_or (pget row ''source_height'') (py_or (pget row ''video_height'') (PInt 0))) 0
        in if 0 < height then str_int height @ ''p'' else [])"

definition row_outcome :: "pdict \<Rightarrow> string" where
  "row_outcome row =
     (let actions = stats_actions row
      in if ''stop'' \<in> set actions then ''stop''
         else if ''warning_error'' \<in> set actions then ''error''
         else if ''relapse'' \<in> set actions then ''relapse''
         else if ''partial_resolved'' \<in> set actions then ''partial''
         else if ''resolution_change'' \<in> set actions then ''resolution_change''
         else if ''resolved'' \<in> set actions \<or> ''resolved_later'' \<in> set actions then ''resolved''
         else if ''warn'' \<in> set actions then ''warning''
         else if truthy (pget row ''violations_committed'') then ''issue''
         else if row_is_correct row then ''correct''
         else if ''exit'' \<in> set actions then ''exit''
         else ''observed'')"

definition outcome_labels :: "(string, string) dict" where
  "outcome_labels =
    [(''correct'', ''Corretto''), (''warning'', ''Avviso''), (''stop'', ''Stop del Guard''), (''resolved'', ''Risolto''),
     (''resolution_change'', ''Cambio risoluzione''), (''partial'', ''Risolto parzialmente''), (''exit'', ''Uscito''),
     (''relapse'', ''Ricaduta''), (''error'', ''Errore''), (''issue'', ''Problema rilevato''), (''observed'', ''Osservato'')]"

definition outcome_label :: "string \<Rightarrow> string" where
  "outcome_label outcome = dget_default outcome_labels outcome (if outcome \<noteq> [] then outcome else ''Osservato'')"

text \<open>\<open>_parse_datetime\<close> of this module, and \<open>float\<close> of a value.\<close>

definition parse_stats_datetime :: "py \<Rightarrow> exn + int option" where
  "parse_stats_datetime v =
     (case v of
        PStr s \<Rightarrow> if strip s = [] then Inr None else parse_utc (replace_char (CHR ''Z'') ''+00:00'' (strip s))
      | _ \<Rightarrow> Inr None)"

definition to_number :: "(rat \<Rightarrow> py) \<Rightarrow> (string \<Rightarrow> py option) \<Rightarrow> py \<Rightarrow> py" where
  "to_number fl read_float v =
     (case v of
        PInt i \<Rightarrow> fl (of_int i)
      | PBool b \<Rightarrow> fl (if b then 1 else 0)
      | PFloat f r \<Rightarrow> PFloat f r
      | PStr s \<Rightarrow> (case read_float s of Some x \<Rightarrow> x | None \<Rightarrow> PNone)
      | _ \<Rightarrow> PNone)"

subsection \<open>Selecting rows\<close>

definition stats_threshold :: "pdict \<Rightarrow> int \<Rightarrow> int option" where
  "stats_threshold filters now =
     (let period = text_or (pget filters ''period'') ''7d''
      in if period = ''all'' then None
         else Some (now - dget_default periods period (dget_default periods ''7d'' 0)))"

definition too_old :: "int option \<Rightarrow> int option \<Rightarrow> bool" where
  "too_old threshold row_time =
     (case (threshold, row_time) of (Some t, Some x) \<Rightarrow> x < t | _ \<Rightarrow> False)"

definition row_selected :: "pdict \<Rightarrow> pdict \<Rightarrow> bool" where
  "row_selected filters row \<longleftrightarrow>
     (let server_id = strip (text_or_empty (pget filters ''server_id''));
          user = lower (strip (text_or_empty (pget filters ''user'')));
          client = lower (strip (text_or_empty (pget filters ''client'')))
      in (server_id = [] \<or> text_or_empty (pget row ''server_id'') = server_id) \<and>
         (user = [] \<or> contains user (lower (text_or_empty (pget row ''user'')))) \<and>
         (client = [] \<or> contains client (lower (text_or_empty (pget row ''client'')))) \<and>
         (to_bool (pget filters ''issues_only'') False \<longrightarrow> row_is_interesting row))"

fun filter_rows :: "pdict list \<Rightarrow> pdict \<Rightarrow> int \<Rightarrow> exn + pdict list" where
  "filter_rows [] filters now = Inr []"
| "filter_rows (row # rows) filters now =
     result_bind (parse_stats_datetime (py_or (pget row ''updated_at'') (py_or (pget row ''last_seen_at'') (pget row ''started_at''))))
       (\<lambda>row_time. result_bind (filter_rows rows filters now) (\<lambda>kept.
         Inr (if too_old (stats_threshold filters now) row_time \<or> \<not> row_selected filters row then kept else row # kept)))"

subsection \<open>Counting\<close>

definition count_rows :: "(pdict \<Rightarrow> bool) \<Rightarrow> pdict list \<Rightarrow> nat" where
  "count_rows P rows = length (filter P rows)"

definition technical_issues :: "pdict list \<Rightarrow> nat" where
  "technical_issues rows = sum_list (map (\<lambda>row. length (py_items (pget row ''violations_committed''))) rows)"

definition problem_rate :: "(rat \<Rightarrow> py) \<Rightarrow> nat \<Rightarrow> nat \<Rightarrow> py" where
  "problem_rate fl issue_streams streams =
     (if streams \<noteq> 0 then fl (py_round_to (of_nat issue_streams / of_nat streams * 100) 1) else fl 0)"

definition py_count :: "nat \<Rightarrow> py" where
  "py_count n = PInt (int n)"

definition stats_summary :: "(rat \<Rightarrow> py) \<Rightarrow> pdict list \<Rightarrow> pdict list \<Rightarrow> pdict" where
  "stats_summary fl rows users =
     [(''users'', py_count (length users)),
      (''streams'', py_count (length rows)),
      (''correct'', py_count (count_rows row_is_correct rows)),
      (''issue_streams'', py_count (count_rows row_is_issue rows)),
      (''technical_issues'', py_count (technical_issues rows)),
      (''warnings'', py_count (count_rows (\<lambda>row. has_action row [''warn'', ''warning_error'']) rows)),
      (''stops'', py_count (count_rows (\<lambda>row. has_action row [''stop'']) rows)),
      (''resolved'', py_count (count_rows (\<lambda>row. has_action row [''resolved'', ''resolved_later'']) rows)),
      (''exits'', py_count (count_rows (\<lambda>row. has_action row [''exit'']) rows)),
      (''resolution_changes'', py_count (count_rows (\<lambda>row. has_action row [''resolution_change'']) rows)),
      (''relapses'', py_count (count_rows (\<lambda>row. has_action row [''relapse'']) rows)),
      (''active'', py_count (count_rows (\<lambda>row. \<not> truthy (pget row ''ended_at'')) rows)),
      (''problem_rate'', problem_rate fl (count_rows row_is_issue rows) (length rows))]"

subsection \<open>Facets\<close>

text \<open>\<open>Counter\<close>: counts in the order of first appearance.\<close>

definition count_texts :: "string list \<Rightarrow> (string, nat) dict" where
  "count_texts ts = foldl (\<lambda>d t. dset t (dget_default d t 0 + 1) d) [] ts"

definition facet :: "string \<Rightarrow> string \<Rightarrow> nat \<Rightarrow> py" where
  "facet i n c = PDict [(''id'', PStr i), (''name'', PStr n), (''count'', py_count c)]"

definition facet_simple :: "pdict list \<Rightarrow> string \<Rightarrow> py list" where
  "facet_simple rows k =
     (let counts = dpop [] (count_texts (map (\<lambda>row. strip (text_or_empty (pget row k))) rows))
      in map (\<lambda>(v, c). facet v v c) (sort_key (\<lambda>(v, c). (- int c, lower v)) counts))"

definition facet_names :: "string \<Rightarrow> string \<Rightarrow> pdict list \<Rightarrow> (string, string) dict" where
  "facet_names id_key name_key rows =
     foldl (\<lambda>d row. let i = strip (text_or_empty (pget row id_key))
        in if i = [] \<or> map_of d i \<noteq> None then d else dset i (text_or (pget row name_key) i) d) [] rows"

definition facet_named :: "pdict list \<Rightarrow> string \<Rightarrow> string \<Rightarrow> py list" where
  "facet_named rows id_key name_key =
     (let counts = count_texts (filter (\<lambda>i. i \<noteq> []) (map (\<lambda>row. strip (text_or_empty (pget row id_key))) rows));
          names = facet_names id_key name_key rows
      in map (\<lambda>(i, c). facet i (dget_default names i i) c)
           (sort_key (\<lambda>(i, c). (- int c, lower (dget_default names i i))) counts))"

definition stats_facets :: "pdict list \<Rightarrow> pdict" where
  "stats_facets rows =
     [(''servers'', PList (facet_named rows ''server_id'' ''server_name'')),
      (''users'', PList (facet_simple rows ''user'')),
      (''clients'', PList (facet_simple rows ''client''))]"

subsection \<open>Users\<close>

definition trend_item :: "pdict \<Rightarrow> py" where
  "trend_item row =
     (let text = (\<lambda>k. PStr (text_or_empty (pget row k)))
      in PDict
        [(''id'', text ''id''),
         (''status'', PStr (row_outcome row)),
         (''label'', PStr (outcome_label (row_outcome row))),
         (''at'', PStr (text_or_empty (py_or (pget row ''updated_at'') (pget row ''started_at'')))),
         (''title'', PStr (text_or (pget row ''title'') ''Stream'')),
         (''server'', PStr (text_or_empty (py_or (pget row ''server_name'') (pget row ''server_id'')))),
         (''client'', text ''client''),
         (''device'', text ''device''),
         (''quality'', PStr (row_quality row))])"

definition group_rows :: "pdict list \<Rightarrow> (string, pdict list) dict" where
  "group_rows rows =
     foldl (\<lambda>g row. dset (user_label row) (dget_default g (user_label row) [] @ [row]) g) [] rows"

definition user_stats :: "(rat \<Rightarrow> py) \<Rightarrow> string \<Rightarrow> pdict list \<Rightarrow> pdict" where
  "user_stats fl user rows =
     (let items = sort_desc row_sort_key rows;
          streams = length items;
          issue_streams = count_rows row_is_issue items;
          stops = count_rows (\<lambda>row. has_action row [''stop'']) items;
          exits = count_rows (\<lambda>row. has_action row [''exit'']) items;
          relapses = count_rows (\<lambda>row. has_action row [''relapse'']) items;
          warning_errors = count_rows (\<lambda>row. has_action row [''warning_error'']) items
      in [(''user'', PStr user),
          (''streams'', py_count streams),
          (''correct'', py_count (count_rows row_is_correct items)),
          (''issue_streams'', py_count issue_streams),
          (''technical_issues'', py_count (technical_issues items)),
          (''warnings'', py_count (count_rows (\<lambda>row. has_action row [''warn'', ''warning_error'']) items)),
          (''stops'', py_count stops),
          (''resolved'', py_count (count_rows (\<lambda>row. has_action row [''resolved'', ''resolved_later'']) items)),
          (''exits'', py_count exits),
          (''resolution_changes'', py_count (count_rows (\<lambda>row. has_action row [''resolution_change'']) items)),
          (''relapses'', py_count relapses),
          (''active'', py_count (count_rows (\<lambda>row. \<not> truthy (pget row ''ended_at'')) items)),
          (''problem_rate'', problem_rate fl issue_streams streams),
          (''risk_score'', py_count (issue_streams * 2 + stops * 4 + relapses * 3 + warning_errors * 2)),
          (''last_seen_at'', PStr (case items of [] \<Rightarrow> [] | newest # _ \<Rightarrow> row_sort_key newest)),
          (''clients'', PList (take 4 (facet_simple items ''client''))),
          (''servers'', PList (take 4 (facet_named items ''server_id'' ''server_name''))),
          (''trend'', PList (map trend_item (take 12 items)))])"

definition aggregate_users :: "(rat \<Rightarrow> py) \<Rightarrow> pdict list \<Rightarrow> pdict list" where
  "aggregate_users fl rows = map (\<lambda>(user, items). user_stats fl user items) (group_rows rows)"

definition stat_int :: "pdict \<Rightarrow> string \<Rightarrow> int" where
  "stat_int user k = to_int (py_or (pget user k) (PInt 0)) 0"

definition sort_users :: "pdict list \<Rightarrow> string \<Rightarrow> pdict list" where
  "sort_users users mode =
     (let recent = (\<lambda>u. text_or_empty (pget u ''last_seen_at''))
      in if mode = ''streams_desc'' then sort_desc (\<lambda>u. (stat_int u ''streams'', recent u)) users
         else if mode = ''recent_desc'' then sort_desc recent users
         else if mode = ''user_asc'' then sort_key (\<lambda>u. lower (text_or_empty (pget u ''user''))) users
         else sort_desc (\<lambda>u. (stat_int u ''risk_score'', stat_int u ''issue_streams'', stat_int u ''streams'', recent u)) users)"

subsection \<open>History\<close>

definition action_records :: "pdict \<Rightarrow> pdict list" where
  "action_records row =
     map (\<lambda>a. [(''action'', PStr (text_or_empty (pget a ''action''))), (''source'', PStr (text_or_empty (pget a ''source''))),
        (''at'', PStr (text_or_empty (pget a ''at'')))])
       (filter (\<lambda>a. strip (text_or_empty (pget a ''action'')) \<noteq> []) (dict_rows (py_items (pget row ''actions''))))"

definition history_row :: "(rat \<Rightarrow> py) \<Rightarrow> (string \<Rightarrow> py option) \<Rightarrow> pdict \<Rightarrow> pdict" where
  "history_row fl read_float row =
     (let text = (\<lambda>k. PStr (text_or_empty (pget row k))); records = action_records row
      in [(''id'', text ''id''),
          (''at'', PStr (row_sort_key row)),
          (''started_at'', text ''started_at''),
          (''ended_at'', text ''ended_at''),
          (''user'', PStr (user_label row)),
          (''title'', PStr (text_or (pget row ''title'') ''Stream'')),
          (''server_id'', text ''server_id''),
          (''server_name'', PStr (text_or (py_or (pget row ''server_name'') (pget row ''server_id'')) ''Server'')),
          (''client'', text ''client''),
          (''device'', text ''device''),
          (''quality'', PStr (row_quality row)),
          (''outcome'', PStr (row_outcome row)),
          (''tags'', PList (py_items (pget row ''tags''))),
          (''violations_committed'', PList (py_items (pget row ''violations_committed''))),
          (''actions'', PList (map (\<lambda>r. pget r ''action'') records)),
          (''action_records'', PList (map PDict records)),
          (''duration_seconds'', to_number fl read_float (pget row ''duration_seconds'')),
          (''playback_percent'', to_number fl read_float (pget row ''playback_percent'')),
          (''rule_name'', text ''last_rule_name''),
          (''reason'', text ''last_decision_reason'')])"

definition stream_history_detail ::
  "(rat \<Rightarrow> py) \<Rightarrow> (string \<Rightarrow> py option) \<Rightarrow> pdict list \<Rightarrow> py \<Rightarrow> pdict option" where
  "stream_history_detail fl read_float rows stream_id =
     (let wanted = strip (text_or_empty stream_id)
      in if wanted = [] then None
         else map_option (history_row fl read_float) (find (\<lambda>row. text_or_empty (pget row ''id'') = wanted) rows))"

subsection \<open>The statistics\<close>

definition build_user_stream_stats ::
  "(rat \<Rightarrow> py) \<Rightarrow> (string \<Rightarrow> py option) \<Rightarrow> pdict list \<Rightarrow> pdict \<Rightarrow> int \<Rightarrow> exn + pdict" where
  "build_user_stream_stats fl read_float rows filters now =
     result_bind (bounded_int (pget filters ''limit'') 1 500 160) (\<lambda>n.
     result_bind (filter_rows rows filters now) (\<lambda>selected.
     result_bind (filter_rows rows [(''period'', pget filters ''period''), (''issues_only'', pget filters ''issues_only'')] now) (\<lambda>facet_rows.
       let filtered = sort_desc row_sort_key selected;
           history = map (history_row fl read_float) (take (nat n) filtered);
           users = sort_users (aggregate_users fl filtered) (text_or (pget filters ''sort'') ''issues_desc'')
       in Inr
         [(''ok'', PBool True),
          (''filters'', PDict
            [(''period'', PStr (text_or (pget filters ''period'') ''7d'')),
             (''server_id'', PStr (text_or_empty (pget filters ''server_id''))),
             (''user'', PStr (text_or_empty (pget filters ''user''))),
             (''client'', PStr (text_or_empty (pget filters ''client''))),
             (''issues_only'', PBool (to_bool (pget filters ''issues_only'') False)),
             (''sort'', PStr (text_or (pget filters ''sort'') ''issues_desc'')),
             (''limit'', PInt n)]),
          (''summary'', PDict (stats_summary fl filtered users)),
          (''users'', PList (map PDict users)),
          (''history'', PList (map PDict history)),
          (''facets'', PDict (stats_facets facet_rows))])))"

subsection \<open>The totals\<close>

text \<open>
  A count over rows is the sum of a weight of each row, so it does not depend on their order and
  is the sum of the counts of the groups.
\<close>

definition weight :: "(pdict \<Rightarrow> nat) \<Rightarrow> pdict list \<Rightarrow> nat" where
  "weight h rows = sum_list (map h rows)"

lemma weight_mset: "mset rows = mset rows' \<Longrightarrow> weight h rows = weight h rows'"
  unfolding weight_def by (metis mset_map sum_mset_sum_list)

lemma mset_sort_desc [simp]: "mset (sort_desc f xs) = mset xs"
  by (simp add: sort_desc_def)

lemma weight_sort_desc [simp]: "weight h (sort_desc f rows) = weight h rows"
  by (rule weight_mset) simp

lemma counts_are_weights:
  "length rows = weight (\<lambda>_. 1) rows"
  "count_rows P rows = weight (\<lambda>row. if P row then 1 else 0) rows"
  "technical_issues rows = weight (\<lambda>row. length (py_items (pget row ''violations_committed''))) rows"
  by (induction rows) (simp_all add: weight_def count_rows_def technical_issues_def)

lemma group_dset:
  "mset (concat (map snd (dset u (dget_default g u [] @ [row]) g))) = add_mset row (mset (concat (map snd g)))"
  unfolding dset_def dget_default_def by (induction g) auto

lemma group_rows_mset: "mset (concat (map snd (group_rows rows))) = mset rows"
proof -
  have "mset (concat (map snd (foldl (\<lambda>g row. dset (user_label row) (dget_default g (user_label row) [] @ [row]) g) g rows)))
      = mset rows + mset (concat (map snd g))" for g
    by (induction rows arbitrary: g) (simp_all add: group_dset)
  from this [of "[]"] show ?thesis
    by (simp add: group_rows_def)
qed

lemma weight_concat: "weight h (concat rss) = sum_list (map (weight h) rss)"
  by (induction rss) (simp_all add: weight_def)

lemma weight_groups: "sum_list (map (\<lambda>(user, items). weight h items) (group_rows rows)) = weight h rows"
proof -
  have "weight h rows = weight h (concat (map snd (group_rows rows)))"
    by (rule weight_mset) (simp only: group_rows_mset)
  then show ?thesis
    by (simp add: weight_concat comp_def case_prod_unfold)
qed

lemma stat_int_count: "stat_int u k = int n" if "pget u k = py_count n"
  using that by (simp add: stat_int_def py_count_def py_or_def to_int_def try_int_def)

lemma mset_sort_users: "mset (sort_users users mode) = mset users"
  by (simp add: sort_users_def Let_def)

lemma int_sum_list: "(\<Sum>x \<leftarrow> xs. int (f x)) = int (\<Sum>x \<leftarrow> xs. f x)"
  by (induction xs) simp_all

lemma user_total:
  assumes "\<And>user items. pget (user_stats fl user items) k = py_count (weight h items)"
  shows "(\<Sum>u \<leftarrow> sort_users (aggregate_users fl rows) mode. stat_int u k) = int (weight h rows)"
proof -
  have "(\<Sum>u \<leftarrow> sort_users (aggregate_users fl rows) mode. stat_int u k) = (\<Sum>u \<leftarrow> aggregate_users fl rows. stat_int u k)"
    using mset_sort_users by (metis mset_map sum_mset_sum_list)
  also have "\<dots> = (\<Sum>(user, items) \<leftarrow> group_rows rows. int (weight h items))"
    by (simp add: aggregate_users_def comp_def case_prod_unfold stat_int_count [OF assms])
  also have "\<dots> = int (\<Sum>(user, items) \<leftarrow> group_rows rows. weight h items)"
    using int_sum_list [of "\<lambda>(user, items). weight h items"] by (simp add: case_prod_unfold)
  finally show ?thesis
    by (simp only: weight_groups)
qed

text \<open>The weight each total counts by.\<close>

definition field_weights :: "(string \<times> (pdict \<Rightarrow> nat)) list" where
  "field_weights =
    [(''streams'', \<lambda>_. 1),
     (''correct'', \<lambda>row. if row_is_correct row then 1 else 0),
     (''issue_streams'', \<lambda>row. if row_is_issue row then 1 else 0),
     (''technical_issues'', \<lambda>row. length (py_items (pget row ''violations_committed''))),
     (''warnings'', \<lambda>row. if has_action row [''warn'', ''warning_error''] then 1 else 0),
     (''stops'', \<lambda>row. if has_action row [''stop''] then 1 else 0),
     (''resolved'', \<lambda>row. if has_action row [''resolved'', ''resolved_later''] then 1 else 0),
     (''exits'', \<lambda>row. if has_action row [''exit''] then 1 else 0),
     (''resolution_changes'', \<lambda>row. if has_action row [''resolution_change''] then 1 else 0),
     (''relapses'', \<lambda>row. if has_action row [''relapse''] then 1 else 0),
     (''active'', \<lambda>row. if truthy (pget row ''ended_at'') then 0 else 1)]"

definition total_fields :: "string list" where
  "total_fields = [''streams'', ''correct'', ''issue_streams'', ''technical_issues'', ''warnings'', ''stops'', ''resolved'',
     ''exits'', ''resolution_changes'', ''relapses'', ''active'']"

lemma total_fields_weights: "total_fields = map fst field_weights"
  by (simp add: total_fields_def field_weights_def)

lemma negated_weight: "weight (\<lambda>row. if \<not> P row then 1 else 0) rows = weight (\<lambda>row. if P row then 0 else 1) rows"
  by (rule arg_cong [of _ _ "\<lambda>h. weight h rows"]) auto

lemma user_fields:
  "list_all (\<lambda>p. pget (user_stats fl user items) (fst p) = py_count (weight (snd p) items)) field_weights"
  by (simp add: field_weights_def user_stats_def Let_def counts_are_weights negated_weight)

lemma summary_fields:
  "list_all (\<lambda>p. pget (stats_summary fl rows users) (fst p) = py_count (weight (snd p) rows)) field_weights"
  by (simp add: field_weights_def stats_summary_def counts_are_weights negated_weight)

text \<open>
  The totals of the statistics are the sums over the users that are listed: every stream that
  the filter selects is counted for exactly one user, in every order of the list.
\<close>

theorem stats_totals:
  "list_all (\<lambda>k. pget (stats_summary fl rows (sort_users (aggregate_users fl rows) mode)) k
      = PInt (\<Sum>u \<leftarrow> sort_users (aggregate_users fl rows) mode. stat_int u k)) total_fields"
proof -
  have "pget (stats_summary fl rows users) (fst p) = PInt (\<Sum>u \<leftarrow> sort_users (aggregate_users fl rows) mode. stat_int u (fst p))"
    if "p \<in> set field_weights" for p users
  proof -
    have "pget (user_stats fl user items) (fst p) = py_count (weight (snd p) items)" for user items
      using user_fields [of fl user items] that by (simp add: list_all_iff)
    from user_total [of fl "fst p" "snd p", OF this] show ?thesis
      using summary_fields [of fl rows users] that by (simp add: list_all_iff py_count_def)
  qed
  then show ?thesis
    by (simp add: list_all_iff total_fields_weights)
qed

end
