(* ===== verification/Item_Matching.thy ===== *)
theory Item_Matching
  imports Py_Values
begin

text \<open>
  Matching the same film or episode across Emby servers (\<open>emby_users/item_matching.py\<close>): the sync
  keys of an item, made from provider ids where it has them and from title, year, season and
  episode where it has none, and the title/year/runtime signature of the last resort.  With them
  go the functions that take a key apart again: \<open>_parse_series_provider_key\<close> and
  \<open>_format_provider_token\<close> of \<open>emby_users/api_client_items.py\<close>, \<open>_parse_fallback_episode_key\<close> and
  \<open>_parse_fallback_movie_key\<close> of \<open>emby_users/playstate_support.py\<close>.  An item is the JSON object
  Emby sends.  The lemmas say that a key read back gives what it was made of.
\<close>

subsection \<open>Splitting once\<close>

text \<open>\<open>s.split(sep, 1)\<close> and \<open>s.rsplit(sep, 1)\<close> unpacked into two names: \<open>None\<close> is the
  \<open>ValueError\<close> of the unpacking.\<close>

fun split_once :: "string \<Rightarrow> string \<Rightarrow> (string \<times> string) option" where
  "split_once sep [] = None"
| "split_once sep (x # xs) =
     (if startswith sep (x # xs) then Some ([], drop (length sep) (x # xs))
      else map_option (\<lambda>(a, b). (x # a, b)) (split_once sep xs))"

fun rsplit_once :: "string \<Rightarrow> string \<Rightarrow> (string \<times> string) option" where
  "rsplit_once sep [] = None"
| "rsplit_once sep (x # xs) =
     (case rsplit_once sep xs of
        Some (a, b) \<Rightarrow> Some (x # a, b)
      | None \<Rightarrow> if startswith sep (x # xs) then Some ([], drop (length sep) (x # xs)) else None)"

subsection \<open>Keys\<close>

text \<open>\<open>normalize_string\<close> of \<open>core/utils.py\<close> with its default arguments.\<close>

definition normalize_string :: "py \<Rightarrow> string" where
  "normalize_string v = lower (strip (text_or_empty v))"

definition runtime_tolerance_ticks :: int where
  "runtime_tolerance_ticks = 3 * 60 * 10000000"

definition provider_priority :: "string list" where
  "provider_priority = [''tmdb'', ''tvdb'', ''imdb'']"

definition provider_aliases :: "(string, string) dict" where
  "provider_aliases =
     [(''themoviedb'', ''tmdb''), (''tmdb'', ''tmdb''), (''imdb'', ''imdb''),
      (''thetvdb'', ''tvdb''), (''tvdb'', ''tvdb'')]"

definition provider_ids :: "pdict \<Rightarrow> string \<Rightarrow> pdict" where
  "provider_ids item field =
     (case pget item field of
        PDict ids \<Rightarrow>
          foldl (\<lambda>normalized (raw_key, value).
            if truthy value
            then dset (dget_default provider_aliases (lower raw_key) (lower raw_key)) value normalized
            else normalized) [] ids
      | _ \<Rightarrow> [])"

definition episode_position :: "pdict \<Rightarrow> (string \<times> string) option" where
  "episode_position item =
     (let season = pget item ''ParentIndexNumber''; episode = pget item ''IndexNumber''
      in if season = PNone \<or> episode = PNone then None else Some (py_str season, py_str episode))"

definition first_provider_id :: "pdict \<Rightarrow> (string \<times> py) option" where
  "first_provider_id ids =
     (case filter (\<lambda>p. truthy (pget ids p)) provider_priority of
        [] \<Rightarrow> None
      | p # _ \<Rightarrow> Some (p, pget ids p))"

definition item_type :: "pdict \<Rightarrow> py" where
  "item_type item = py_or (pget item ''Type'') (pget item ''ItemType'')"

definition series_key :: "string \<Rightarrow> string \<Rightarrow> string \<Rightarrow> string \<Rightarrow> string" where
  "series_key provider provider_id season episode =
     ''series-'' @ provider @ '':'' @ provider_id @ '':s'' @ season @ '':e'' @ episode"

definition fallback_key_part :: "py \<Rightarrow> string" where
  "fallback_key_part v = strip (replace_char (CHR ''|'') '' '' (normalize_string v))"

definition fallback_episode_key :: "string \<Rightarrow> string \<Rightarrow> string \<Rightarrow> string" where
  "fallback_episode_key series season episode =
     ''fallback-episode:'' @ series @ ''|s'' @ season @ ''|e'' @ episode"

definition fallback_movie_key :: "string \<Rightarrow> string \<Rightarrow> string" where
  "fallback_movie_key title year = ''fallback-movie:'' @ title @ ''|y'' @ year"

subsection \<open>Signatures\<close>

datatype fallback_signature =
    MovieSignature (sig_title: string) (sig_original_title: string) (sig_year: string) (sig_runtime: int)
  | EpisodeSignature (sig_series: string) (sig_season: string) (sig_episode: string) (sig_runtime: int)

text \<open>\<open>try: int(item.get("RunTimeTicks") or 0)\<close>.\<close>

definition runtime_ticks :: "pdict \<Rightarrow> exn + int" where
  "runtime_ticks item =
     result_bind (try_int (py_or (pget item ''RunTimeTicks'') (PInt 0)))
       (\<lambda>r. Inr (case r of None \<Rightarrow> 0 | Some i \<Rightarrow> i))"

definition movie_signature :: "pdict \<Rightarrow> int \<Rightarrow> fallback_signature option" where
  "movie_signature item runtime =
     (let title = normalize_string (pget item ''Name''); year = pget item ''ProductionYear''
      in if title = [] \<or> \<not> truthy year then None
         else Some (MovieSignature title (normalize_string (pget item ''OriginalTitle'')) (py_str year) runtime))"

definition episode_signature :: "pdict \<Rightarrow> int \<Rightarrow> fallback_signature option" where
  "episode_signature item runtime =
     (let series = normalize_string (pget item ''SeriesName'');
          season = pget item ''ParentIndexNumber''; episode = pget item ''IndexNumber''
      in if series = [] \<or> season = PNone \<or> episode = PNone then None
         else Some (EpisodeSignature series (py_str season) (py_str episode) runtime))"

definition get_safe_fallback_signature :: "pdict \<Rightarrow> exn + fallback_signature option" where
  "get_safe_fallback_signature item =
     result_bind (runtime_ticks item) (\<lambda>runtime. Inr (
       if runtime = 0 then None
       else if item_type item = PStr ''Movie'' then movie_signature item runtime
       else if item_type item = PStr ''Episode'' then episode_signature item runtime
       else None))"

definition matches_movie :: "pdict \<Rightarrow> string \<Rightarrow> string \<Rightarrow> string \<Rightarrow> bool" where
  "matches_movie candidate title original year \<longleftrightarrow>
     text_or_empty (pget candidate ''ProductionYear'') = year
     \<and> list_ex (\<lambda>t. t \<noteq> [] \<and> t \<in> {title, original})
         [normalize_string (pget candidate ''Name''), normalize_string (pget candidate ''OriginalTitle'')]"

definition matches_episode :: "pdict \<Rightarrow> string \<Rightarrow> string \<Rightarrow> string \<Rightarrow> bool" where
  "matches_episode candidate series season episode \<longleftrightarrow>
     normalize_string (pget candidate ''SeriesName'') = series
     \<and> text_or_empty (pget candidate ''ParentIndexNumber'') = season
     \<and> text_or_empty (pget candidate ''IndexNumber'') = episode"

definition signature_type :: "fallback_signature \<Rightarrow> py" where
  "signature_type g = (case g of MovieSignature _ _ _ _ \<Rightarrow> PStr ''Movie'' | EpisodeSignature _ _ _ _ \<Rightarrow> PStr ''Episode'')"

definition matches_safe_fallback_signature :: "pdict \<Rightarrow> fallback_signature \<Rightarrow> exn + bool" where
  "matches_safe_fallback_signature candidate g =
     (if item_type candidate \<noteq> signature_type g then Inr False
      else result_bind (runtime_ticks candidate) (\<lambda>runtime. Inr (
        runtime \<noteq> 0 \<and> \<bar>runtime - sig_runtime g\<bar> \<le> runtime_tolerance_ticks \<and>
        (case g of
           MovieSignature title original year _ \<Rightarrow> matches_movie candidate title original year
         | EpisodeSignature series season episode _ \<Rightarrow> matches_episode candidate series season episode))))"

text \<open>\<open>get_safe_fallback_keys\<close>: the runtime decides only whether a film has a key at all.\<close>

definition movie_fallback_keys :: "fallback_signature \<Rightarrow> string list" where
  "movie_fallback_keys g =
     (case g of
        MovieSignature title original year _ \<Rightarrow>
          (let y = fallback_key_part (PStr year);
               keys = map (\<lambda>t. fallback_movie_key t y)
                 (filter (\<lambda>t. t \<noteq> [] \<and> y \<noteq> []) [fallback_key_part (PStr title), fallback_key_part (PStr original)])
           in foldl (\<lambda>output key. if key \<in> set output then output else output @ [key]) [] keys)
      | _ \<Rightarrow> [])"

definition episode_fallback_keys :: "pdict \<Rightarrow> string list" where
  "episode_fallback_keys item =
     (let series = fallback_key_part (pget item ''SeriesName'');
          season = fallback_key_part (pget item ''ParentIndexNumber'');
          episode = fallback_key_part (pget item ''IndexNumber'')
      in if series \<noteq> [] \<and> season \<noteq> [] \<and> episode \<noteq> []
         then [fallback_episode_key series season episode] else [])"

definition get_safe_fallback_keys :: "pdict \<Rightarrow> exn + string list" where
  "get_safe_fallback_keys item =
     (if item_type item = PStr ''Episode'' then Inr (episode_fallback_keys item)
      else result_bind (get_safe_fallback_signature item) (\<lambda>s. Inr (
        case s of None \<Rightarrow> [] | Some g \<Rightarrow> movie_fallback_keys g)))"

definition series_sync_key :: "pdict \<Rightarrow> string option" where
  "series_sync_key item =
     (case episode_position item of
        None \<Rightarrow> None
      | Some (season, episode) \<Rightarrow>
          map_option (\<lambda>(provider, provider_id). series_key provider (py_str provider_id) season episode)
            (first_provider_id (provider_ids item ''SeriesProviderIds'')))"

definition get_item_sync_keys :: "pdict \<Rightarrow> exn + string list" where
  "get_item_sync_keys item =
     (case (if item_type item = PStr ''Episode'' then series_sync_key item else None) of
        Some key \<Rightarrow> Inr [key]
      | None \<Rightarrow>
          (case first_provider_id (provider_ids item ''ProviderIds'') of
             Some (provider, provider_id) \<Rightarrow> Inr [provider @ '':'' @ py_str provider_id]
           | None \<Rightarrow> get_safe_fallback_keys item))"

definition series_prefixes :: "(string \<times> string) list" where
  "series_prefixes = [(''series-tmdb:'', ''tmdb''), (''series-imdb:'', ''imdb''), (''series-tvdb:'', ''tvdb'')]"

definition is_provider_key :: "string \<Rightarrow> bool" where
  "is_provider_key key =
     list_ex (\<lambda>p. startswith p key)
       [''tmdb:'', ''imdb:'', ''tvdb:'', ''series-tmdb:'', ''series-imdb:'', ''series-tvdb:'']"

subsection \<open>Taking keys apart\<close>

text \<open>Provider, provider id, season and episode of a series key.\<close>

definition parse_series_provider_key :: "string \<Rightarrow> (string \<times> string \<times> string \<times> string) option" where
  "parse_series_provider_key key =
     (case filter (\<lambda>p. startswith (fst p) key) series_prefixes of
        [] \<Rightarrow> None
      | (prefix, provider) # _ \<Rightarrow>
          (case split_once '':s'' (drop (length prefix) key) of
             None \<Rightarrow> None
           | Some (series_id, rest) \<Rightarrow>
               (case split_once '':e'' rest of
                  None \<Rightarrow> None
                | Some (season, episode) \<Rightarrow>
                    if series_id = [] \<or> season = [] \<or> episode = [] then None
                    else Some (provider, series_id, season, episode))))"

definition format_provider_token :: "string \<Rightarrow> string option" where
  "format_provider_token key =
     (if key = [] then None
      else if list_ex (\<lambda>p. startswith (fst p) key) series_prefixes then None
      else case split_once '':'' key of
        None \<Rightarrow> if contains ''.'' key then Some key else None
      | Some (raw_provider, raw_id) \<Rightarrow>
          (let provider = lower (strip raw_provider); pid = strip raw_id
           in if provider = [] \<or> pid = [] then None else Some (provider @ ''.'' @ pid)))"

definition parse_fallback_episode_key :: "string \<Rightarrow> (string \<times> string \<times> string) option" where
  "parse_fallback_episode_key key =
     (if \<not> startswith ''fallback-episode:'' key then None
      else case rsplit_once ''|s'' (drop 17 key) of
        None \<Rightarrow> None
      | Some (series, rest) \<Rightarrow>
          (case split_once ''|e'' rest of
             None \<Rightarrow> None
           | Some (season, episode) \<Rightarrow>
               if series = [] \<or> season = [] \<or> episode = [] then None
               else Some (series, season, episode)))"

definition parse_fallback_movie_key :: "string \<Rightarrow> (string \<times> string) option" where
  "parse_fallback_movie_key key =
     (if \<not> startswith ''fallback-movie:'' key then None
      else case rsplit_once ''|y'' (drop 15 key) of
        None \<Rightarrow> None
      | Some (title, year) \<Rightarrow> if title = [] \<or> year = [] then None else Some (title, year))"

subsection \<open>Facts about splitting\<close>

lemma startswith_append [simp]: "startswith p (p @ s)"
  by (simp add: startswith_def)

lemma startswith_Nil [simp]: "startswith p [] \<longleftrightarrow> p = []" "startswith [] s"
  by (auto simp: startswith_def)

lemma startswith_Cons [simp]: "startswith (a # p) (b # s) \<longleftrightarrow> a = b \<and> startswith p s"
  by (auto simp: startswith_def)

lemma drop_prefix: "startswith p s \<Longrightarrow> p @ drop (length p) s = s"
  by (metis append_take_drop_id startswith_def)

text \<open>A separator of two different characters occurs in \<open>a @ sep @ b\<close> no earlier than where it
  was put, if \<open>a\<close> does not hold it.\<close>

lemma split_once_append:
  assumes "\<not> contains [c, d] a" "c \<noteq> d"
  shows "split_once [c, d] (a @ [c, d] @ b) = Some (a, b)"
  using assms
proof (induction a)
  case (Cons x a)
  have "\<not> startswith [c, d] (x # a @ [c, d] @ b)"
    using Cons.prems by (cases a) (auto simp: startswith_def)
  with Cons show ?case by simp
qed simp

lemma split_once_single:
  "c \<notin> set a \<Longrightarrow> split_once [c] (a @ c # b) = Some (a, b)"
  "c \<notin> set s \<Longrightarrow> split_once [c] s = None"
  by (induction a, simp_all) (induction s, auto)

lemma rsplit_once_None: "sep \<noteq> [] \<Longrightarrow> rsplit_once sep s = None \<longleftrightarrow> \<not> contains sep s"
  by (induction s) (auto split: option.splits)

lemma rsplit_once_append:
  assumes "\<not> contains [c, d] b" "c \<noteq> d"
  shows "rsplit_once [c, d] (a @ [c, d] @ b) = Some (a, b)"
proof -
  have "rsplit_once [c, d] b = None" using assms(1) by (simp add: rsplit_once_None)
  with assms(2) show ?thesis by (induction a) auto
qed

lemma contains_single: "contains [c, d] s \<Longrightarrow> c \<in> set s"
  by (induction s) auto

lemma contains_after:
  assumes "c \<notin> set a" "c \<notin> set b" "d \<noteq> e" "c \<noteq> e"
  shows "\<not> contains [c, d] (a @ [c, e] @ b)"
proof -
  have "\<not> contains [c, d] b" using assms(2) contains_single by blast
  with assms show ?thesis by (induction a) auto
qed

subsection \<open>Keys read back\<close>

lemma parse_series_key:
  assumes "provider \<in> {''tmdb'', ''imdb'', ''tvdb''}" "\<not> contains '':s'' provider_id" "\<not> contains '':e'' season"
    "provider_id \<noteq> []" "season \<noteq> []" "episode \<noteq> []"
  shows "parse_series_provider_key (series_key provider provider_id season episode)
    = Some (provider, provider_id, season, episode)"
proof -
  have "split_once '':s'' (provider_id @ '':s'' @ season @ '':e'' @ episode) = Some (provider_id, season @ '':e'' @ episode)"
    using assms by (intro split_once_append) auto
  moreover have "split_once '':e'' (season @ '':e'' @ episode) = Some (season, episode)"
    using assms by (intro split_once_append) auto
  ultimately show ?thesis
    using assms(1,4-6)
    by (auto simp: parse_series_provider_key_def series_key_def series_prefixes_def)
qed

lemma fallback_key_part_no_bar: "CHR ''|'' \<notin> set (fallback_key_part v)"
proof -
  have "CHR ''|'' \<notin> set (replace_char (CHR ''|'') '' '' s)" for s
    by (auto simp: replace_char_def)
  then show ?thesis
    unfolding fallback_key_part_def using set_strip by blast
qed

lemma parse_fallback_episode:
  assumes "CHR ''|'' \<notin> set season" "CHR ''|'' \<notin> set episode" "series \<noteq> []" "season \<noteq> []" "episode \<noteq> []"
  shows "parse_fallback_episode_key (fallback_episode_key series season episode) = Some (series, season, episode)"
proof -
  have e: "split_once ''|e'' (season @ ''|e'' @ episode) = Some (season, episode)"
    using assms(1) contains_single [of "CHR ''|''" "CHR ''e''" season] by (intro split_once_append) auto
  have "\<not> contains ''|s'' (season @ ''|e'' @ episode)"
    using assms(1,2) by (intro contains_after) auto
  then have "rsplit_once ''|s'' (series @ ''|s'' @ season @ ''|e'' @ episode) = Some (series, season @ ''|e'' @ episode)"
    by (intro rsplit_once_append) auto
  then show ?thesis
    using assms e
    by (simp add: parse_fallback_episode_key_def fallback_episode_key_def)
qed

lemma parse_fallback_movie:
  assumes "CHR ''|'' \<notin> set year" "title \<noteq> []" "year \<noteq> []"
  shows "parse_fallback_movie_key (fallback_movie_key title year) = Some (title, year)"
proof -
  have "rsplit_once ''|y'' (title @ ''|y'' @ year) = Some (title, year)"
    using assms(1) contains_single [of "CHR ''|''" "CHR ''y''" year] by (intro rsplit_once_append) auto
  then show ?thesis
    using assms by (simp add: parse_fallback_movie_key_def fallback_movie_key_def)
qed

lemma first_provider_in:
  "first_provider_id ids = Some (p, v) \<Longrightarrow> p \<in> {''tmdb'', ''tvdb'', ''imdb''} \<and> v = pget ids p \<and> truthy v"
  by (auto simp: first_provider_id_def provider_priority_def split: if_splits)

lemma str_int_no_contains: "\<not> contains (CHR '':'' # sep) (str_int i)"
proof -
  have "contains (CHR '':'' # sep) s \<Longrightarrow> CHR '':'' \<in> set s" for s
    by (induction s) auto
  then show ?thesis using str_int_no_colon by blast
qed

lemma str_int_not_Nil [simp]: "str_int i \<noteq> []"
  by (simp add: str_int_def)

text \<open>
  C36: the sync key of an episode with a season and an episode number, whose series has a provider id,
  is one provider key, and reads back as that provider, its id, the season and the episode: the
  lookup on another server asks for exactly this episode.  The hypothesis is that the id does not
  hold the text that ends it in the key.
\<close>

theorem series_key_roundtrip:
  assumes "item_type item = PStr ''Episode''"
    and "pget item ''ParentIndexNumber'' = PInt season" "pget item ''IndexNumber'' = PInt episode"
    and "first_provider_id (provider_ids item ''SeriesProviderIds'') = Some (provider, PStr series_id)"
    and "\<not> contains '':s'' series_id"
  shows "\<exists>key. get_item_sync_keys item = Inr [key] \<and> is_provider_key key
    \<and> parse_series_provider_key key = Some (provider, series_id, str_int season, str_int episode)"
proof (intro exI conjI)
  let ?key = "series_key provider series_id (str_int season) (str_int episode)"
  have p: "provider \<in> {''tmdb'', ''imdb'', ''tvdb''}" "series_id \<noteq> []"
    using first_provider_in [OF assms(4)] by auto
  show "get_item_sync_keys item = Inr [?key]"
    using assms by (simp add: get_item_sync_keys_def series_sync_key_def episode_position_def py_str_def)
  show "is_provider_key ?key"
    using p by (auto simp: is_provider_key_def series_key_def)
  show "parse_series_provider_key ?key = Some (provider, series_id, str_int season, str_int episode)"
    using p assms(5) str_int_no_contains [of "''e''" season] by (intro parse_series_key) auto
qed

definition sample_special :: pdict where
  "sample_special =
     [(''Id'', PStr ''17''), (''Type'', PStr ''Episode''), (''SeriesName'', PStr ''Sherlock''),
      (''ParentIndexNumber'', PInt 0), (''IndexNumber'', PInt 1), (''RunTimeTicks'', PInt 54000000000),
      (''SeriesProviderIds'', PDict [(''Tvdb'', PStr ''176941'')])]"

theorem series_key_roundtrip_witness:
  "\<exists>key. get_item_sync_keys sample_special = Inr [key] \<and> is_provider_key key
    \<and> parse_series_provider_key key = Some (''tvdb'', ''176941'', str_int 0, str_int 1)"
proof (rule series_key_roundtrip)
  show "item_type sample_special = PStr ''Episode''" by code_simp
  show "pget sample_special ''ParentIndexNumber'' = PInt 0" by code_simp
  show "pget sample_special ''IndexNumber'' = PInt 1" by code_simp
  show "first_provider_id (provider_ids sample_special ''SeriesProviderIds'') = Some (''tvdb'', PStr ''176941'')"
    by code_simp
  show "\<not> contains '':s'' ''176941''" by code_simp
qed

end
