(* ===== verification/Emby_Calls.thy ===== *)
theory Emby_Calls
  imports Py_Values
begin

text \<open>
  Calls to an Emby server.  An action runs on the list of the requests sent so far, oldest first,
  and ends with a value or with the exception that leaves it; what it sent is what it appended.
  \<open>call_emby_api\<close> is \<open>_call_emby_api\<close> of \<open>emby_runtime/api_clients_emby.py\<close>: it turns what the
  HTTP library reports into a flag and a payload.  What a server answers is a parameter
  (\<open>n_reply\<close>), and may depend on everything that was sent before.  The paging loops run under
  the \<open>PaginationGuard\<close> of \<open>core/pagination.py\<close>, whose page fingerprint (a SHA-256 of the page's
  JSON text) is a parameter too, as is the order in which Python walks a set of strings
  (\<open>n_order\<close>, applied to the members in the order they were added).
\<close>

subsection \<open>Actions\<close>

text \<open>What the HTTP library reports: a redirect status, an HTTP error status, no usable response,
  a response whose body is not acceptable JSON, or a decoded body.\<close>

datatype http_reply = Redirected | HttpStatus nat | NoResponse | BadBody | Body py

record emby_request =
  rq_method :: string
  rq_target :: string
  rq_token :: string
  rq_params :: pdict
  rq_json :: "pdict option"

record emby_net =
  n_reply :: "emby_request list \<Rightarrow> emby_request \<Rightarrow> http_reply"
  n_fingerprint :: "pdict list \<Rightarrow> string"
  n_order :: "string list \<Rightarrow> string list"

type_synonym 'a act = "emby_request list \<Rightarrow> (exn + 'a) \<times> emby_request list"

definition ret :: "'a \<Rightarrow> 'a act" where
  "ret x = (\<lambda>sent. (Inr x, sent))"

definition lift :: "exn + 'a \<Rightarrow> 'a act" where
  "lift r = (\<lambda>sent. (r, sent))"

definition andthen :: "'a act \<Rightarrow> ('a \<Rightarrow> 'b act) \<Rightarrow> 'b act" where
  "andthen m f = (\<lambda>sent. case m sent of (Inl e, sent') \<Rightarrow> (Inl e, sent') | (Inr x, sent') \<Rightarrow> f x sent')"

text \<open>\<open>for x in xs\<close> with the loop's variables as a state; the second form may return early
  (\<open>Inl\<close>), the third rebuilds the list it walks.\<close>

primrec for_each :: "('a \<Rightarrow> 's \<Rightarrow> 's act) \<Rightarrow> 'a list \<Rightarrow> 's \<Rightarrow> 's act" where
  "for_each f [] s = ret s"
| "for_each f (x # xs) s = andthen (f x s) (for_each f xs)"

primrec for_until :: "('a \<Rightarrow> 's \<Rightarrow> ('r + 's) act) \<Rightarrow> 'a list \<Rightarrow> 's \<Rightarrow> ('r + 's) act" where
  "for_until f [] s = ret (Inr s)"
| "for_until f (x # xs) s =
     andthen (f x s) (\<lambda>r. case r of Inl b \<Rightarrow> ret (Inl b) | Inr s' \<Rightarrow> for_until f xs s')"

primrec for_map :: "('a \<Rightarrow> 's \<Rightarrow> ('b \<times> 's) act) \<Rightarrow> 'a list \<Rightarrow> 's \<Rightarrow> ('b list \<times> 's) act" where
  "for_map f [] s = ret ([], s)"
| "for_map f (x # xs) s =
     andthen (f x s) (\<lambda>(y, s'). andthen (for_map f xs s') (\<lambda>(ys, s''). ret (y # ys, s'')))"

subsection \<open>One call\<close>

definition lstrip_char :: "char \<Rightarrow> string \<Rightarrow> string" where
  "lstrip_char c s = dropWhile (\<lambda>x. x = c) s"

definition rstrip_char :: "char \<Rightarrow> string \<Rightarrow> string" where
  "rstrip_char c s = rev (dropWhile (\<lambda>x. x = c) (rev s))"

text \<open>The server's address and key are texts of its stored configuration.\<close>

definition emby_base_url :: "pdict \<Rightarrow> string option" where
  "emby_base_url server =
     (if server = [] then None
      else let url = strip (text_or_empty (pget server ''url''))
           in if url = [] then None else Some (rstrip_char (CHR ''/'') url))"

definition answer_of :: "http_reply \<Rightarrow> bool \<times> py" where
  "answer_of r =
     (case r of
        Redirected \<Rightarrow> (False, PStr ''Redirect Emby rifiutato'')
      | HttpStatus n \<Rightarrow> (False, PStr (''Errore Emby HTTP '' @ str_nat n))
      | NoResponse \<Rightarrow> (False, PStr ''Errore richiesta Emby'')
      | BadBody \<Rightarrow> (False, PStr ''Risposta Emby non valida'')
      | Body v \<Rightarrow> (True, v))"

definition send :: "emby_net \<Rightarrow> emby_request \<Rightarrow> (bool \<times> py) act" where
  "send net r = (\<lambda>sent. (Inr (answer_of (n_reply net sent r)), sent @ [r]))"

definition call_emby_api ::
  "emby_net \<Rightarrow> pdict \<Rightarrow> string \<Rightarrow> string \<Rightarrow> pdict \<Rightarrow> pdict option \<Rightarrow> (bool \<times> py) act" where
  "call_emby_api net server path http_method params json =
     (let token = strip (text_or_empty (pget server ''api_key'')) in
      case emby_base_url server of
        None \<Rightarrow> ret (False, PStr ''Credenziali Emby mancanti'')
      | Some base \<Rightarrow>
          if base = [] \<or> token = [] then ret (False, PStr ''Credenziali Emby mancanti'')
          else send net
            \<lparr>rq_method = http_method, rq_target = base @ ''/'' @ lstrip_char (CHR ''/'') path,
             rq_token = token, rq_params = params,
             rq_json = (if http_method = ''GET'' then None else json)\<rparr>)"

abbreviation emby_get :: "emby_net \<Rightarrow> pdict \<Rightarrow> string \<Rightarrow> pdict \<Rightarrow> (bool \<times> py) act" where
  "emby_get net server path params \<equiv> call_emby_api net server path ''GET'' params None"

subsection \<open>The pagination guard\<close>

definition max_emby_pages :: nat where
  "max_emby_pages = 10000"

definition max_emby_items :: nat where
  "max_emby_items = 2000000"

record page_guard =
  pg_max_pages :: nat
  pg_max_items :: nat
  pg_pages :: nat
  pg_items :: nat
  pg_previous :: "string option"

definition new_guard :: "nat \<Rightarrow> nat \<Rightarrow> page_guard" where
  "new_guard pages items =
     \<lparr>pg_max_pages = pages, pg_max_items = items, pg_pages = 0, pg_items = 0, pg_previous = None\<rparr>"

definition observe_page :: "(pdict list \<Rightarrow> string) \<Rightarrow> pdict list \<Rightarrow> page_guard \<Rightarrow> string + page_guard" where
  "observe_page fingerprint_of page g =
     (let next_pages = pg_pages g + 1; next_items = pg_items g + length page in
      if next_pages > pg_max_pages g \<or> next_items > pg_max_items g
      then Inl ''Risposta paginata oltre i limiti applicativi''
      else
        let fingerprint = (if page = [] then None else Some (fingerprint_of page)) in
        if fingerprint \<noteq> None \<and> fingerprint = pg_previous g
        then Inl ''Il provider ha restituito una pagina ripetuta''
        else Inr (g\<lparr>pg_pages := next_pages, pg_items := next_items, pg_previous := fingerprint\<rparr>))"

subsection \<open>The paging loop\<close>

text \<open>A list of JSON objects; anything else makes the code that reads it raise.\<close>

definition is_object :: "py \<Rightarrow> bool" where
  "is_object v = (case v of PDict d \<Rightarrow> True | _ \<Rightarrow> False)"

definition object_of :: "py \<Rightarrow> pdict" where
  "object_of v = (case v of PDict d \<Rightarrow> d | _ \<Rightarrow> [])"

definition object_list :: "py \<Rightarrow> exn + pdict list" where
  "object_list v =
     (case v of
        PList xs \<Rightarrow> (if list_all is_object xs then Inr (map object_of xs) else Inl (AttributeError ''get''))
      | _ \<Rightarrow> Inl (TypeError ''items''))"

definition items_of :: "pdict \<Rightarrow> exn + pdict list" where
  "items_of payload = object_list (py_or (pget payload ''Items'') (PList []))"

text \<open>\<open>n >= total\<close>.\<close>

definition at_least :: "nat \<Rightarrow> py \<Rightarrow> exn + bool" where
  "at_least n count =
     (case count of
        PInt i \<Rightarrow> Inr (i \<le> int n)
      | PBool b \<Rightarrow> Inr ((if b then 1 else 0) \<le> n)
      | PFloat f r \<Rightarrow>
          Inr (case f of Fin q \<Rightarrow> q \<le> of_nat n | PosInf \<Rightarrow> False | NegInf \<Rightarrow> True | NaN \<Rightarrow> False)
      | _ \<Rightarrow> Inl (TypeError ''not comparable''))"

definition emby_items_page_complete :: "nat \<Rightarrow> pdict list \<Rightarrow> py \<Rightarrow> nat \<Rightarrow> exn + bool" where
  "emby_items_page_complete page_size page count start_index =
     (if page = [] then Inr True
      else if count = PNone then Inr (length page < page_size)
      else at_least (start_index + length page) count)"

text \<open>One round of the loop: the page with its count, or the error text to return.\<close>

definition fetch_page ::
  "emby_net \<Rightarrow> pdict \<Rightarrow> string \<Rightarrow> pdict \<Rightarrow> page_guard \<Rightarrow> (py + pdict list \<times> py \<times> page_guard) act" where
  "fetch_page net server path params g =
     andthen (emby_get net server path params) (\<lambda>(success, payload).
       if \<not> success then ret (Inl payload)
       else case payload of
         PDict d \<Rightarrow>
           andthen (lift (items_of d)) (\<lambda>page.
             case observe_page (n_fingerprint net) page g of
               Inl e \<Rightarrow> ret (Inl (PStr e))
             | Inr g' \<Rightarrow> ret (Inr (page, pget d ''TotalRecordCount'', g')))
       | _ \<Rightarrow> ret (Inl (PStr ''Risposta Emby inattesa'')))"

subsection \<open>What an action sends\<close>

definition emits :: "(emby_request \<Rightarrow> bool) \<Rightarrow> 'a act \<Rightarrow> bool" where
  "emits P m = (\<forall>sent. \<exists>rs. snd (m sent) = sent @ rs \<and> list_all P rs)"

text \<open>How many requests an action sends at most.\<close>

definition sends_at_most :: "nat \<Rightarrow> 'a act \<Rightarrow> bool" where
  "sends_at_most n m = (\<forall>sent. length (snd (m sent)) \<le> length sent + n)"

named_theorems emits_rules \<open>one rule per way of composing actions\<close>

lemma ret_simps [simp]: "ret x sent = (Inr x, sent)"
  by (simp add: ret_def)

lemma lift_simps [simp]: "lift r sent = (r, sent)"
  by (simp add: lift_def)

lemma andthen_simps [simp]:
  "m sent = (Inl e, sent') \<Longrightarrow> andthen m f sent = (Inl e, sent')"
  "m sent = (Inr x, sent') \<Longrightarrow> andthen m f sent = f x sent'"
  by (simp_all add: andthen_def)

lemma andthen_ret [simp]: "andthen (ret x) f = f x"
  by (rule ext) simp

lemma andthen_lift [simp]:
  "andthen (lift (Inr x)) f = f x"
  "andthen (lift (Inl e)) f = lift (Inl e)"
  by (rule ext, simp)+

lemma andthen_Inr_iff:
  "andthen m f sent = (Inr y, sent') \<longleftrightarrow> (\<exists>x l. m sent = (Inr x, l) \<and> f x l = (Inr y, sent'))"
  by (auto simp: andthen_def split: prod.splits sum.splits)

lemma emitsI: "(\<And>sent. \<exists>rs. snd (m sent) = sent @ rs \<and> list_all P rs) \<Longrightarrow> emits P m"
  by (simp add: emits_def)

lemma emits_weaken: "emits P m \<Longrightarrow> (\<And>r. P r \<Longrightarrow> Q r) \<Longrightarrow> emits Q m"
  unfolding emits_def by (metis list.pred_mono_strong)

lemma emits_ret [emits_rules]: "emits P (ret x)"
  by (simp add: emits_def)

lemma emits_lift [emits_rules]: "emits P (lift r)"
  by (simp add: emits_def)

lemma emits_andthen [emits_rules]:
  assumes "emits P m" "\<And>x. emits P (f x)"
  shows "emits P (andthen m f)"
proof (rule emitsI)
  fix sent
  obtain rs where rs: "snd (m sent) = sent @ rs" "list_all P rs"
    using assms(1) unfolding emits_def by blast
  show "\<exists>rs. snd (andthen m f sent) = sent @ rs \<and> list_all P rs"
  proof (cases "m sent")
    case (Pair r sent')
    show ?thesis
    proof (cases r)
      case (Inl e)
      with Pair rs show ?thesis by simp
    next
      case (Inr x)
      obtain rs' where "snd (f x sent') = sent' @ rs'" "list_all P rs'"
        using assms(2) [of x] unfolding emits_def by blast
      with Pair Inr rs show ?thesis by simp
    qed
  qed
qed

lemma emits_for_each [emits_rules]:
  "(\<And>x s. emits P (f x s)) \<Longrightarrow> emits P (for_each f xs s)"
  by (induction xs arbitrary: s) (auto intro!: emits_rules)

lemma emits_for_until [emits_rules]:
  "(\<And>x s. emits P (f x s)) \<Longrightarrow> emits P (for_until f xs s)"
  by (induction xs arbitrary: s) (auto intro!: emits_rules split: sum.splits)

lemma emits_for_map [emits_rules]:
  "(\<And>x s. emits P (f x s)) \<Longrightarrow> emits P (for_map f xs s)"
  by (induction xs arbitrary: s) (auto intro!: emits_rules split: prod.splits)

lemma emits_if [emits_rules]: "(c \<Longrightarrow> emits P m) \<Longrightarrow> (\<not> c \<Longrightarrow> emits P n) \<Longrightarrow> emits P (if c then m else n)"
  by simp

lemma emits_case_prod [emits_rules]: "(\<And>a b. p = (a, b) \<Longrightarrow> emits P (f a b)) \<Longrightarrow> emits P (case p of (a, b) \<Rightarrow> f a b)"
  by (cases p) simp

lemma emits_case_prod_app [emits_rules]:
  "(\<And>a b. emits P (f a b c)) \<Longrightarrow> emits P ((case p of (a, b) \<Rightarrow> f a b) c)"
  by (cases p) simp

lemma emits_case_sum [emits_rules]:
  "(\<And>a. emits P (f a)) \<Longrightarrow> (\<And>b. emits P (g b)) \<Longrightarrow> emits P (case r of Inl a \<Rightarrow> f a | Inr b \<Rightarrow> g b)"
  by (cases r) simp_all

lemma emits_case_option [emits_rules]:
  "emits P m \<Longrightarrow> (\<And>b. emits P (g b)) \<Longrightarrow> emits P (case r of None \<Rightarrow> m | Some b \<Rightarrow> g b)"
  by (cases r) simp_all

lemma emits_case_py [emits_rules]:
  "emits P a \<Longrightarrow> (\<And>x. emits P (b x)) \<Longrightarrow> (\<And>x. emits P (c x)) \<Longrightarrow> (\<And>x y. emits P (d x y))
    \<Longrightarrow> (\<And>x. emits P (e x)) \<Longrightarrow> (\<And>x. emits P (f x)) \<Longrightarrow> (\<And>x. emits P (g x))
    \<Longrightarrow> emits P (case v of PNone \<Rightarrow> a | PBool x \<Rightarrow> b x | PInt x \<Rightarrow> c x | PFloat x y \<Rightarrow> d x y
         | PStr x \<Rightarrow> e x | PList x \<Rightarrow> f x | PDict x \<Rightarrow> g x)"
  by (cases v) simp_all

lemma emits_Let [emits_rules]: "(\<And>x. emits P (f x)) \<Longrightarrow> emits P (Let v f)"
  by simp

lemma emits_call [emits_rules]:
  assumes "\<And>r. rq_method r = m \<Longrightarrow> rq_params r = params \<Longrightarrow> P r"
  shows "emits P (call_emby_api net server path m params json)"
  by (rule emitsI) (auto simp: call_emby_api_def send_def Let_def assms split: option.splits)

abbreviation reads_only :: "'a act \<Rightarrow> bool" where
  "reads_only \<equiv> emits (\<lambda>r. rq_method r = ''GET'')"

lemma reads_only_get [emits_rules]: "reads_only (emby_get net server path params)"
  by (rule emits_call) simp

lemma reads_only_fetch_page [emits_rules]: "reads_only (fetch_page net server path params g)"
  unfolding fetch_page_def
  by (auto intro!: emits_rules split: prod.splits py.splits sum.splits)

lemma observe_page_props:
  assumes "observe_page fp page g = Inr g'"
  shows "pg_pages g' = pg_pages g + 1" "pg_pages g' \<le> pg_max_pages g"
    "pg_items g' = pg_items g + length page" "pg_items g' \<le> pg_max_items g"
    "pg_max_pages g' = pg_max_pages g" "pg_max_items g' = pg_max_items g"
  using assms by (auto simp: observe_page_def Let_def split: if_splits)

lemma fetch_page_guard:
  assumes "fetch_page net server path params g sent = (Inr (Inr (page, count, g')), sent')"
  shows "observe_page (n_fingerprint net) page g = Inr g'"
  using assms
  apply (auto simp: fetch_page_def andthen_Inr_iff split: if_split_asm py.split_asm)
  subgoal for success d l page' by (cases "observe_page (n_fingerprint net) page' g") auto
  done

lemma observe_page_progress:
  "observe_page fp page g = Inr g' \<Longrightarrow> pg_max_pages g' - pg_pages g' < pg_max_pages g - pg_pages g"
  by (frule observe_page_props(1), frule observe_page_props(2), drule observe_page_props(5)) simp

text \<open>
  \<open>while True\<close> over the pages: \<open>finished page count start\<close> is the loop's break condition.  The
  page guard ends the loop: it refuses the page after its last one.
\<close>

function fetch_pages ::
  "emby_net \<Rightarrow> pdict \<Rightarrow> string \<Rightarrow> (nat \<Rightarrow> pdict) \<Rightarrow> (pdict list \<Rightarrow> py \<Rightarrow> nat \<Rightarrow> exn + bool)
    \<Rightarrow> nat \<Rightarrow> page_guard \<Rightarrow> pdict list \<Rightarrow> (pdict list \<times> py) act" where
  "fetch_pages net server path params_at finished start g items sent =
     (case fetch_page net server path (params_at start) g sent of
        (Inl e, sent') \<Rightarrow> (Inl e, sent')
      | (Inr (Inl err), sent') \<Rightarrow> (Inr ([], err), sent')
      | (Inr (Inr (page, count, g')), sent') \<Rightarrow>
          (case finished page count start of
             Inl e \<Rightarrow> (Inl e, sent')
           | Inr True \<Rightarrow> (Inr (items @ page, PNone), sent')
           | Inr False \<Rightarrow>
               fetch_pages net server path params_at finished (start + length page) g' (items @ page) sent'))"
  by pat_completeness auto
termination
  by (relation "measure (\<lambda>(net, server, path, params_at, finished, start, g, items, sent).
        pg_max_pages g - pg_pages g)")
     (auto dest!: fetch_page_guard [OF sym] dest: observe_page_progress)

declare fetch_pages.simps [simp del]

lemma reads_only_fetch_pages [emits_rules]:
  "reads_only (fetch_pages net server path params_at finished start g items)"
proof (rule emitsI)
  fix sent
  show "\<exists>rs. snd (fetch_pages net server path params_at finished start g items sent) = sent @ rs
      \<and> list_all (\<lambda>r. rq_method r = ''GET'') rs"
  proof (induction net server path params_at finished start g items sent rule: fetch_pages.induct)
    case (1 net server path params_at finished start g items sent)
    obtain r sent' where p: "fetch_page net server path (params_at start) g sent = (r, sent')"
      by (cases "fetch_page net server path (params_at start) g sent")
    obtain rs where rs: "sent' = sent @ rs" "list_all (\<lambda>r. rq_method r = ''GET'') rs"
      using reads_only_fetch_page [of net server path "params_at start" g] p
      unfolding emits_def by (metis snd_conv)
    show ?case
      using 1 p rs
      by (subst fetch_pages.simps)
         (fastforce split: sum.splits bool.splits prod.splits simp: list_all_append)
  qed
qed

lemma call_sends_one: "length (snd (call_emby_api net server path m params json sent)) \<le> length sent + 1"
  by (simp add: call_emby_api_def send_def Let_def split: option.splits)

lemma page_sends_one: "length (snd (fetch_page net server path params g sent)) \<le> length sent + 1"
proof (cases "emby_get net server path params sent")
  case (Pair r sent')
  then have "length sent' \<le> length sent + 1"
    using call_sends_one [of net server path "''GET''" params None sent] by simp
  with Pair show ?thesis
    by (cases r)
       (auto simp: fetch_page_def andthen_def lift_def ret_def split: prod.splits py.splits sum.splits)
qed

lemma sends_fetch_pages:
  "pg_pages g \<le> pg_max_pages g \<Longrightarrow>
    length (snd (fetch_pages net server path params_at finished start g items sent))
      \<le> length sent + (pg_max_pages g - pg_pages g) + 1"
proof (induction net server path params_at finished start g items sent rule: fetch_pages.induct)
  case (1 net server path params_at finished start g items sent)
  obtain r l where p: "fetch_page net server path (params_at start) g sent = (r, l)"
    by (cases "fetch_page net server path (params_at start) g sent")
  have l: "length l \<le> length sent + 1"
    using page_sends_one [of net server path "params_at start" g sent] p by simp
  show ?case
  proof (cases "\<exists>page count g'. r = Inr (Inr (page, count, g'))")
    case False
    then show ?thesis using p l
      by (subst fetch_pages.simps) (auto split: sum.splits)
  next
    case True
    then obtain page count g' where r: "r = Inr (Inr (page, count, g'))" by blast
    note o = observe_page_props [OF fetch_page_guard [OF p [unfolded r]]]
    show ?thesis
      using p r l o "1.IH" [OF p [symmetric] r refl refl refl]
      by (subst fetch_pages.simps) (fastforce split: sum.splits bool.splits)
  qed
qed

lemma length_fetch_pages:
  "fetch_pages net server path params_at finished start g items sent = (Inr (found, err), sent')
    \<Longrightarrow> length items = pg_items g \<Longrightarrow> length found \<le> pg_max_items g"
proof (induction net server path params_at finished start g items sent rule: fetch_pages.induct)
  case (1 net server path params_at finished start g items sent)
  obtain r l where p: "fetch_page net server path (params_at start) g sent = (r, l)"
    by (cases "fetch_page net server path (params_at start) g sent")
  show ?case
  proof (cases "\<exists>page count g'. r = Inr (Inr (page, count, g'))")
    case False
    then show ?thesis using p 1(2)
      by (subst (asm) fetch_pages.simps) (auto split: sum.splits)
  next
    case True
    then obtain page count g' where r: "r = Inr (Inr (page, count, g'))" by blast
    note o = observe_page_props [OF fetch_page_guard [OF p [unfolded r]]]
    show ?thesis
      using p r o 1(2,3) "1.IH" [OF p [symmetric] r refl refl refl]
      by (subst (asm) fetch_pages.simps) (fastforce split: sum.splits bool.splits)
  qed
qed

subsection \<open>What an action returns\<close>

definition yields :: "('a \<Rightarrow> bool) \<Rightarrow> 'a act \<Rightarrow> bool" where
  "yields Q m = (\<forall>sent x sent'. m sent = (Inr x, sent') \<longrightarrow> Q x)"

named_theorems yields_rules \<open>one rule per way of composing actions\<close>

lemma yieldsD: "yields Q m \<Longrightarrow> m sent = (Inr x, sent') \<Longrightarrow> Q x"
  by (auto simp: yields_def)

lemma yields_True: "yields (\<lambda>x. True) m"
  by (simp add: yields_def)

lemma yields_ret [yields_rules]: "Q x \<Longrightarrow> yields Q (ret x)"
  by (simp add: yields_def)

lemma yields_lift [yields_rules]: "(\<And>x. r = Inr x \<Longrightarrow> Q x) \<Longrightarrow> yields Q (lift r)"
  by (simp add: yields_def)

lemma yields_andthen:
  "yields R m \<Longrightarrow> (\<And>x. R x \<Longrightarrow> yields Q (f x)) \<Longrightarrow> yields Q (andthen m f)"
  unfolding yields_def andthen_Inr_iff by blast

lemma yields_andthen_any [yields_rules]: "(\<And>x. yields Q (f x)) \<Longrightarrow> yields Q (andthen m f)"
  by (rule yields_andthen [OF yields_True])

lemma yields_andthen_lift: "(\<And>x. r = Inr x \<Longrightarrow> yields Q (f x)) \<Longrightarrow> yields Q (andthen (lift r) f)"
  by (cases r) (auto intro: yields_rules)

lemma yields_for_each:
  "(\<And>x s. x \<in> set xs \<Longrightarrow> I s \<Longrightarrow> yields I (f x s)) \<Longrightarrow> I s \<Longrightarrow> yields I (for_each f xs s)"
  by (induction xs arbitrary: s) (auto intro!: yields_ret yields_andthen [of I])

lemma yields_for_until:
  "(\<And>x s. x \<in> set xs \<Longrightarrow> I s \<Longrightarrow> yields (case_sum E I) (f x s)) \<Longrightarrow> I s \<Longrightarrow>
    yields (case_sum E I) (for_until f xs s)"
proof (induction xs arbitrary: s)
  case (Cons x xs)
  show ?case
    unfolding for_until.simps
  proof (rule yields_andthen)
    show "yields (case_sum E I) (f x s)" using Cons.prems by simp
    show "yields (case_sum E I) (case r of Inl b \<Rightarrow> ret (Inl b) | Inr s' \<Rightarrow> for_until f xs s')"
      if "case_sum E I r" for r
      using that Cons by (cases r) (auto intro: yields_ret)
  qed
qed (simp add: yields_def)

lemma yields_if [yields_rules]: "(c \<Longrightarrow> yields Q m) \<Longrightarrow> (\<not> c \<Longrightarrow> yields Q n) \<Longrightarrow> yields Q (if c then m else n)"
  by simp

lemma yields_case_prod [yields_rules]:
  "(\<And>a b. p = (a, b) \<Longrightarrow> yields Q (f a b)) \<Longrightarrow> yields Q (case p of (a, b) \<Rightarrow> f a b)"
  by (cases p) simp

lemma yields_case_sum [yields_rules]:
  "(\<And>a. r = Inl a \<Longrightarrow> yields Q (f a)) \<Longrightarrow> (\<And>b. r = Inr b \<Longrightarrow> yields Q (g b))
    \<Longrightarrow> yields Q (case r of Inl a \<Rightarrow> f a | Inr b \<Rightarrow> g b)"
  by (cases r) simp_all

lemma yields_case_option [yields_rules]:
  "(r = None \<Longrightarrow> yields Q m) \<Longrightarrow> (\<And>b. r = Some b \<Longrightarrow> yields Q (g b))
    \<Longrightarrow> yields Q (case r of None \<Rightarrow> m | Some b \<Rightarrow> g b)"
  by (cases r) simp_all

subsection \<open>A union of several sources\<close>

text \<open>
  What a bootstrap relies on when it collects the state of several users: each source is only read,
  and a source that is not known or cannot be read leaves a failure behind.
\<close>

locale source_union =
  fixes collect :: "'t \<Rightarrow> 'u \<times> string list \<Rightarrow> ('u \<times> string list) act"
    and known :: "'t \<Rightarrow> bool"
  assumes collect_reads: "reads_only (collect source acc)"
    and collect_fails: "collect source (u, failures) sent = (Inr (u', []), sent') \<Longrightarrow> failures = [] \<and> known source"
begin

lemma collected_all:
  "for_each collect sources (u, failures) sent = (Inr (u', []), sent') \<Longrightarrow> failures = [] \<and> (\<forall>source \<in> set sources. known source)"
proof (induction sources arbitrary: u failures sent)
  case (Cons source sources)
  then obtain u1 f1 mid where first: "collect source (u, failures) sent = (Inr (u1, f1), mid)"
    and last: "for_each collect sources (u1, f1) mid = (Inr (u', []), sent')"
    by (auto simp: andthen_Inr_iff)
  from Cons.IH [OF last] have "f1 = []" "\<forall>source \<in> set sources. known source" by auto
  with collect_fails first show ?case by auto
qed simp

lemma collected_reads: "reads_only (for_each collect sources acc)"
  by (intro emits_for_each collect_reads)

text \<open>What is applied was collected from all sources, and a run that stops has sent reads only.\<close>

lemma all_or_nothing:
  assumes "for_each collect sources (u0, []) sent = (Inr (u, failures), sent')"
  shows "(failures = [] \<longrightarrow> (\<forall>source \<in> set sources. known source))
    \<and> (\<exists>rs. sent' = sent @ rs \<and> list_all (\<lambda>r. rq_method r = ''GET'') rs)"
proof
  show "failures = [] \<longrightarrow> (\<forall>source \<in> set sources. known source)"
    using collected_all assms by blast
  show "\<exists>rs. sent' = sent @ rs \<and> list_all (\<lambda>r. rq_method r = ''GET'') rs"
    using collected_reads [of sources "(u0, [])"] assms unfolding emits_def by (metis snd_conv)
qed

end

subsection \<open>Actions that reach the server\<close>

text \<open>A server with an address and a key, so that a call is sent.\<close>

definition reachable :: "pdict \<Rightarrow> bool" where
  "reachable server \<longleftrightarrow>
     emby_base_url server \<noteq> None \<and> emby_base_url server \<noteq> Some []
     \<and> strip (text_or_empty (pget server ''api_key'')) \<noteq> []"

text \<open>An action that, when it returns, has sent something.\<close>

definition sends :: "'a act \<Rightarrow> bool" where
  "sends m = (\<forall>sent x sent'. m sent = (Inr x, sent') \<longrightarrow> length sent < length sent')"

lemma emits_length: "emits P m \<Longrightarrow> m sent = (r, sent') \<Longrightarrow> length sent \<le> length sent'"
  unfolding emits_def by (metis le_add1 length_append snd_conv)

lemma sends_first: "sends m \<Longrightarrow> (\<And>x. emits P (f x)) \<Longrightarrow> sends (andthen m f)"
  unfolding sends_def andthen_Inr_iff by (meson emits_length less_le_trans)

lemma sends_then: "emits P m \<Longrightarrow> (\<And>x. sends (f x)) \<Longrightarrow> sends (andthen m f)"
  unfolding sends_def andthen_Inr_iff by (meson emits_length le_less_trans)

lemma sends_lift: "(\<And>x. r = Inr x \<Longrightarrow> sends (f x)) \<Longrightarrow> sends (andthen (lift r) f)"
  by (cases r) (auto simp: sends_def)

lemma sendsD: "sends m \<Longrightarrow> m sent = (Inr x, sent') \<Longrightarrow> sent' \<noteq> sent"
  unfolding sends_def by blast

lemma sends_irrefl: "sends m \<Longrightarrow> m sent \<noteq> (Inr x, sent)"
  unfolding sends_def by blast

lemma sends_call: "reachable server \<Longrightarrow> sends (call_emby_api net server path m params json)"
  by (auto simp: sends_def reachable_def call_emby_api_def send_def Let_def split: option.splits)

text \<open>
  C29: whatever the server answers, a paging loop that starts afresh ends: it sends at most one
  request more than its page limit, and what it returns has at most as many items as its limit.
\<close>

theorem paging_ends:
  "length (snd (fetch_pages net server path params_at finished 0 (new_guard pages items) [] sent))
     \<le> length sent + pages + 1
   \<and> (case fst (fetch_pages net server path params_at finished 0 (new_guard pages items) [] sent) of
        Inl e \<Rightarrow> True
      | Inr (found, err) \<Rightarrow> length found \<le> items)"
proof
  let ?run = "fetch_pages net server path params_at finished 0 (new_guard pages items) [] sent"
  show "length (snd ?run) \<le> length sent + pages + 1"
    using sends_fetch_pages [of "new_guard pages items"] by (simp add: new_guard_def)
  show "case fst ?run of Inl e \<Rightarrow> True | Inr (found, err) \<Rightarrow> length found \<le> items"
  proof (cases ?run)
    case (Pair r sent')
    with length_fetch_pages [of net server path params_at finished 0 "new_guard pages items" "[]" sent]
    show ?thesis by (auto simp: new_guard_def split: sum.splits)
  qed
qed

end
