(* ===== verification/Emby_Dates.thy ===== *)
theory Emby_Dates
  imports Py_Time Item_Matching
begin

text \<open>
  Emby's dates.  Emby prints an instant with seven fractional digits and a \<open>Z\<close>; the code cuts the
  fraction to six digits before \<open>datetime.fromisoformat\<close> reads it
  (\<open>_parse_emby_datetime\<close> of \<open>emby_users/playstate_support.py\<close>), and sends a date as
  \<open>yyyyMMddHHmmss\<close> (\<open>_format_emby_date_played\<close> of \<open>emby_users/api_client_items.py\<close>).
  \<open>last_played_differs\<close> and \<open>last_played_is_older\<close> compare dates as instants when both can be
  read, and as texts otherwise.
\<close>

text \<open>\<open>s.find(c)\<close> for one character, \<open>None\<close> for -1.\<close>

definition find_char :: "char \<Rightarrow> string \<Rightarrow> nat option" where
  "find_char c s = (if c \<in> set s then Some (length (takeWhile (\<lambda>x. x \<noteq> c) s)) else None)"

definition timezone_pos :: "string \<Rightarrow> nat option" where
  "timezone_pos suffix =
     (case find_char (CHR ''+'') suffix of
        Some (Suc p) \<Rightarrow> Some (Suc p)
      | _ \<Rightarrow> (case find_char (CHR ''-'') suffix of Some (Suc p) \<Rightarrow> Some (Suc p) | _ \<Rightarrow> None))"

definition six_digits :: "string \<Rightarrow> string" where
  "six_digits fraction = (let s = take 6 fraction in s @ replicate (6 - length s) (CHR ''0''))"

definition iso_form :: "string \<Rightarrow> string" where
  "iso_form text =
     (let text = (if endswith ''Z'' text then butlast text @ ''+00:00'' else text) in
      case split_once ''.'' text of
        None \<Rightarrow> text
      | Some (prefix, suffix) \<Rightarrow>
          (case timezone_pos suffix of
             None \<Rightarrow> prefix @ ''.'' @ six_digits suffix
           | Some p \<Rightarrow> prefix @ ''.'' @ six_digits (take p suffix) @ drop p suffix))"

definition parse_emby_datetime :: "py \<Rightarrow> exn + int option" where
  "parse_emby_datetime value =
     (let text = strip (text_or_empty value) in if text = [] then Inr None else parse_utc (iso_form text))"

text \<open>\<open>str.isdigit\<close>: on Latin-1 the superscript digits count.\<close>

definition py_isdigit :: "string \<Rightarrow> bool" where
  "py_isdigit s = (s \<noteq> [] \<and> list_all (\<lambda>c. is_digit c \<or> code c \<in> {178, 179, 185}) s)"

text \<open>\<open>strftime("%Y%m%d%H%M%S")\<close>: the C library pads the year to no width.\<close>

definition compact_utc :: "int \<Rightarrow> string" where
  "compact_utc t =
     (let sec = t div 1000000 in
      case ord_to_ymd (nat (sec div 86400) + 1) of
        (y, m, d) \<Rightarrow>
          str_nat y @ pad0 2 (str_nat m) @ pad0 2 (str_nat d) @ pad0 2 (str_nat (nat (sec div 3600 mod 24)))
          @ pad0 2 (str_nat (nat (sec div 60 mod 60))) @ pad0 2 (str_nat (nat (sec mod 60))))"

definition format_emby_date_played :: "py \<Rightarrow> exn + string option" where
  "format_emby_date_played value =
     (let text = strip (text_or_empty value) in
      if text = [] then Inr None
      else if py_isdigit text \<and> length text = 14 then Inr (Some text)
      else result_bind (parse_utc (iso_form text)) (\<lambda>r. Inr (map_option compact_utc r)))"

text \<open>Python compares strings by code points.\<close>

fun text_less :: "string \<Rightarrow> string \<Rightarrow> bool" where
  "text_less _ [] = False"
| "text_less [] (_ # _) = True"
| "text_less (a # s) (b # t) = (code a < code b \<or> (a = b \<and> text_less s t))"

definition both_instants :: "py \<Rightarrow> py \<Rightarrow> exn + (int \<times> int) option" where
  "both_instants a b =
     result_bind (parse_emby_datetime a) (\<lambda>x.
     result_bind (parse_emby_datetime b) (\<lambda>y. Inr (
       case (x, y) of (Some s, Some t) \<Rightarrow> Some (s, t) | _ \<Rightarrow> None)))"

definition last_played_differs :: "py \<Rightarrow> py \<Rightarrow> exn + bool" where
  "last_played_differs source_date target_date =
     (if \<not> truthy source_date then Inr False
      else if \<not> truthy target_date then Inr True
      else result_bind (both_instants source_date target_date) (\<lambda>r. Inr (
        case r of
          Some (s, t) \<Rightarrow> s \<noteq> t
        | None \<Rightarrow> strip (py_str source_date) \<noteq> strip (py_str target_date))))"

definition last_played_is_older :: "py \<Rightarrow> py \<Rightarrow> exn + bool" where
  "last_played_is_older candidate current =
     (if \<not> truthy candidate then Inr False
      else if \<not> truthy current then Inr True
      else result_bind (both_instants candidate current) (\<lambda>r. Inr (
        case r of
          Some (s, t) \<Rightarrow> s < t
        | None \<Rightarrow> text_less (strip (py_str candidate)) (strip (py_str current)))))"

subsection \<open>Facts\<close>

text \<open>The date of an item as an instant, where it has one that can be read.\<close>

definition dated :: "py \<Rightarrow> int \<Rightarrow> bool" where
  "dated v t \<longleftrightarrow> truthy v \<and> parse_emby_datetime v = Inr (Some t)"

lemma differs_dated: "dated a s \<Longrightarrow> dated b t \<Longrightarrow> last_played_differs a b = Inr (s \<noteq> t)"
  by (simp add: dated_def last_played_differs_def both_instants_def)

lemma older_dated: "dated a s \<Longrightarrow> dated b t \<Longrightarrow> last_played_is_older a b = Inr (s < t)"
  by (simp add: dated_def last_played_is_older_def both_instants_def)

lemma differs_None [simp]: "last_played_differs PNone b = Inr False"
  by (simp add: last_played_differs_def)

lemma older_None [simp]: "last_played_is_older PNone b = Inr False"
  by (simp add: last_played_is_older_def)

lemma older_than_None: "dated a s \<Longrightarrow> last_played_is_older a PNone = Inr True"
  by (simp add: dated_def last_played_is_older_def)

lemma differs_from_None: "dated a s \<Longrightarrow> last_played_differs a PNone = Inr True"
  by (simp add: dated_def last_played_differs_def)

lemma parse_utc_range: "parse_utc s = Inr (Some t) \<Longrightarrow> 0 \<le> t \<and> t \<le> max_instant"
  by (auto simp: parse_utc_def to_utc_def Let_def split: option.splits if_splits prod.splits)

lemma dated_range: "dated v t \<Longrightarrow> 0 \<le> t \<and> t \<le> max_instant"
  unfolding dated_def parse_emby_datetime_def Let_def
  using parse_utc_range by (auto split: if_splits)

text \<open>What is sent for a date is the instant's text to the second, unless the value already is
  such a text.\<close>

lemma format_dated:
  assumes "dated v t"
  shows "format_emby_date_played v = Inr (Some (if py_isdigit (strip (py_str v)) \<and> length (strip (py_str v)) = 14
    then strip (py_str v) else compact_utc t))"
  using assms
  by (auto simp: dated_def format_emby_date_played_def parse_emby_datetime_def text_or_empty_def Let_def
      split: if_splits)

lemma compact_utc_seconds: "compact_utc (t - t mod 1000000) = compact_utc t"
proof -
  have "(t - t mod 1000000) div 1000000 = t div 1000000"
    by (simp add: minus_mod_eq_mult_div)
  then show ?thesis unfolding compact_utc_def by (simp only:)
qed

lemma iso_form_iso_utc: "iso_form (iso_utc t) = iso_utc t"
proof -
  have "\<not> endswith ''Z'' (iso_utc t)"
  proof
    assume "endswith ''Z'' (iso_utc t)"
    then have "CHR ''Z'' \<in> set (drop (length (iso_utc t) - length ''Z'') (iso_utc t))"
      by (simp add: endswith_def)
    then have "CHR ''Z'' \<in> set (iso_utc t)" by (rule in_set_dropD)
    then show False using iso_utc_no_Z by blast
  qed
  moreover have "(case split_once ''.'' (iso_utc t) of None \<Rightarrow> iso_utc t
      | Some (prefix, suffix) \<Rightarrow>
          (case timezone_pos suffix of
             None \<Rightarrow> prefix @ ''.'' @ six_digits suffix
           | Some p \<Rightarrow> prefix @ ''.'' @ six_digits (take p suffix) @ drop p suffix)) = iso_utc t"
  proof -
    obtain d h mi s us where iso: "iso_utc t = date_text d @ ''T'' @ clock_text h mi s us @ ''+00:00''" "us < 1000000"
      by (simp add: iso_utc_def Let_def)
    have digits: "CHR ''.'' \<notin> set (pad0 w (str_nat n))" "CHR ''+'' \<notin> set (pad0 w (str_nat n))" for w n
      using pad0_digits [of w n] by (auto simp: list_all_iff is_digit_def code_def)
    let ?a = "date_text d @ ''T'' @ pad0 2 (str_nat h) @ '':'' @ pad0 2 (str_nat mi) @ '':'' @ pad0 2 (str_nat s)"
    have a: "CHR ''.'' \<notin> set ?a" using digits by (auto simp: date_text_def split: prod.splits)
    show ?thesis
    proof (cases "us = 0")
      case True
      then have i: "iso_utc t = ?a @ ''+00:00''" using iso(1) by (simp add: clock_text_def)
      have "split_once ''.'' (?a @ ''+00:00'') = None" using a by (intro split_once_single(2)) auto
      then show ?thesis unfolding i by simp
    next
      case False
      let ?f = "pad0 6 (str_nat us)"
      have i: "iso_utc t = ?a @ CHR ''.'' # (?f @ ''+00:00'')" using False iso(1) by (simp add: clock_text_def)
      have f: "length ?f = 6" using iso(2) by (intro length_pad0_str_nat) auto
      have "takeWhile (\<lambda>x. x \<noteq> CHR ''+'') (?f @ ''+00:00'') = ?f"
        using digits(2) [of 6 us] by (subst takeWhile_append2) auto
      then have "timezone_pos (?f @ ''+00:00'') = Some 6"
        using f by (simp add: timezone_pos_def find_char_def eval_nat_numeral)
      then show ?thesis
        unfolding i split_once_single(1) [OF a] using f by (simp add: six_digits_def)
    qed
  qed
  ultimately show ?thesis by (simp add: iso_form_def Let_def)
qed

lemma dated_iso: "0 \<le> t \<Longrightarrow> t \<le> max_instant \<Longrightarrow> dated (PStr (iso_utc t)) t"
  by (simp add: dated_def parse_emby_datetime_def iso_form_iso_utc parse_iso_utc Let_def)

end
