(* ===== verification/Emby_Items.thy ===== *)
theory Emby_Items
  imports Emby_Calls Emby_Dates
begin

text \<open>
  The item and playback calls of \<open>emby_users/api_client_items.py\<close>: paged reads, the reads that
  complete what Emby left out (series provider ids, last played dates, visibility in the resume
  list), the lookups by provider id and by signature, and the writes.  A read returns its items
  with an error value, \<open>PNone\<close> when there is none, as the code's pairs do.  Ids of items, series,
  users and playlists are texts.  Log lines are not modelled.
\<close>

subsection \<open>Reading an item\<close>

definition item_id :: "pdict \<Rightarrow> string" where
  "item_id item = text_or_empty (pget item ''Id'')"

definition as_object :: "py \<Rightarrow> exn + pdict" where
  "as_object v = (case v of PDict d \<Rightarrow> Inr d | _ \<Rightarrow> Inl (AttributeError ''get''))"

text \<open>\<open>item.get("UserData") or {}\<close> and \<open>item.get("UserData", {})\<close>, read with \<open>.get\<close>.\<close>

definition user_data_or :: "pdict \<Rightarrow> exn + pdict" where
  "user_data_or item = as_object (py_or (pget item ''UserData'') (PDict []))"

definition user_data_get :: "pdict \<Rightarrow> exn + pdict" where
  "user_data_get item = as_object (dget_default item ''UserData'' (PDict []))"

definition position_ticks :: "pdict \<Rightarrow> exn + int" where
  "position_ticks ud = py_int (py_or (pget ud ''PlaybackPositionTicks'') (PInt 0))"

definition user_item_fields :: string where
  "user_item_fields =
     ''ProviderIds,SeriesProviderIds,SeriesId,UserData,SeriesName,ParentIndexNumber,IndexNumber,''
     @ ''ProductionYear,Name,OriginalTitle,RunTimeTicks,Type''"

definition id_path :: "string \<Rightarrow> string \<Rightarrow> string" where
  "id_path user_id rest = ''Users/'' @ user_id @ ''/'' @ rest"

type_synonym items_result = "pdict list \<times> py"

definition failed_read :: "string \<Rightarrow> items_result act" where
  "failed_read message = ret ([], PStr message)"

subsection \<open>Provider ids of the series\<close>

definition fetch_series_provider_ids ::
  "emby_net \<Rightarrow> pdict \<Rightarrow> string \<Rightarrow> string \<Rightarrow> py act" where
  "fetch_series_provider_ids net server user_id series_id =
     andthen (emby_get net server (id_path user_id (''Items/'' @ series_id)) [(''Fields'', PStr ''ProviderIds'')])
       (\<lambda>first. andthen
          (if fst first then ret first
           else emby_get net server (''Items/'' @ series_id) [(''Fields'', PStr ''ProviderIds'')])
          (\<lambda>(success, payload). ret (
             case payload of
               PDict d \<Rightarrow> if success then py_or (pget d ''ProviderIds'') (PDict []) else PDict []
             | _ \<Rightarrow> PDict [])))"

definition attach_series_ids ::
  "emby_net \<Rightarrow> pdict \<Rightarrow> string \<Rightarrow> pdict \<Rightarrow> pdict \<Rightarrow> (pdict \<times> pdict) act" where
  "attach_series_ids net server user_id item cache =
     (let series_id = text_or_empty (pget item ''SeriesId'') in
      if item_type item \<noteq> PStr ''Episode'' \<or> truthy (pget item ''SeriesProviderIds'') \<or> series_id = []
      then ret (item, cache)
      else andthen
        (if has_key series_id cache then ret cache
         else andthen (fetch_series_provider_ids net server user_id series_id)
           (\<lambda>ids. ret (dset series_id ids cache)))
        (\<lambda>cache.
           if truthy (pget cache series_id)
           then andthen (lift (as_object (pget cache series_id)))
             (\<lambda>ids. ret (dset ''SeriesProviderIds'' (PDict ids) item, cache))
           else ret (item, cache)))"

definition attach_series_provider_ids ::
  "emby_net \<Rightarrow> pdict \<Rightarrow> string \<Rightarrow> pdict list \<Rightarrow> pdict list act" where
  "attach_series_provider_ids net server user_id items =
     andthen (for_map (attach_series_ids net server user_id) items []) (\<lambda>(items, cache). ret items)"

subsection \<open>Paged reads\<close>

definition page_params :: "nat \<Rightarrow> pdict \<Rightarrow> nat \<Rightarrow> pdict" where
  "page_params page_size params start_index =
     dset ''Limit'' (PInt (int page_size)) (dset ''StartIndex'' (PInt (int start_index)) params)"

definition fetch_items_paged ::
  "emby_net \<Rightarrow> pdict \<Rightarrow> string \<Rightarrow> string \<Rightarrow> pdict \<Rightarrow> nat \<Rightarrow> items_result act" where
  "fetch_items_paged net server user_id path params page_size =
     (if user_id = [] then failed_read ''User ID mancante''
      else andthen
        (fetch_pages net server path (page_params page_size params) (emby_items_page_complete page_size)
           0 (new_guard max_emby_pages max_emby_items) [])
        (\<lambda>(items, err).
           if err \<noteq> PNone then ret ([], err)
           else andthen (attach_series_provider_ids net server user_id items) (\<lambda>items. ret (items, PNone))))"

definition user_items_path :: "string \<Rightarrow> string" where
  "user_items_path user_id = id_path user_id ''Items''"

definition item_query :: "string \<Rightarrow> pdict" where
  "item_query types =
     [(''Recursive'', PStr ''true''), (''Fields'', PStr user_item_fields), (''IncludeItemTypes'', PStr types)]"

definition fetch_user_items ::
  "emby_net \<Rightarrow> pdict \<Rightarrow> string \<Rightarrow> pdict \<Rightarrow> items_result act" where
  "fetch_user_items net server user_id params =
     fetch_items_paged net server user_id (user_items_path user_id) params 200"

definition fetch_user_favorite_items :: "emby_net \<Rightarrow> pdict \<Rightarrow> string \<Rightarrow> items_result act" where
  "fetch_user_favorite_items net server user_id =
     fetch_user_items net server user_id (item_query ''Movie,Episode,Series'' @ [(''Filters'', PStr ''IsFavorite'')])"

definition fetch_user_media_items :: "emby_net \<Rightarrow> pdict \<Rightarrow> string \<Rightarrow> items_result act" where
  "fetch_user_media_items net server user_id = fetch_user_items net server user_id (item_query ''Movie,Episode'')"

definition fetch_user_playlists :: "emby_net \<Rightarrow> pdict \<Rightarrow> string \<Rightarrow> items_result act" where
  "fetch_user_playlists net server user_id =
     fetch_user_items net server user_id
       [(''Recursive'', PStr ''true''), (''IncludeItemTypes'', PStr ''Playlist''),
        (''Fields'', PStr ''ProviderIds,UserData,Name,SortName'')]"

definition fetch_playlist_items :: "emby_net \<Rightarrow> pdict \<Rightarrow> string \<Rightarrow> string \<Rightarrow> items_result act" where
  "fetch_playlist_items net server user_id playlist_id =
     (if user_id = [] \<or> playlist_id = [] then failed_read ''ID mancanti''
      else fetch_user_items net server user_id
        [(''ParentId'', PStr playlist_id), (''Fields'', PStr user_item_fields),
         (''IncludeItemTypes'', PStr ''Movie,Episode'')])"

text \<open>\<open>_fetch_emby_user_last_playback\<close>.\<close>

definition first_of :: "py \<Rightarrow> exn + py" where
  "first_of v =
     (if \<not> truthy v then Inr PNone
      else case v of
        PList (x # _) \<Rightarrow> Inr x
      | PStr (c # _) \<Rightarrow> Inr (PStr [c])
      | PDict _ \<Rightarrow> Inl (KeyError ''0'')
      | _ \<Rightarrow> Inl (TypeError ''not subscriptable''))"

definition fetch_user_last_playback :: "emby_net \<Rightarrow> pdict \<Rightarrow> string \<Rightarrow> py act" where
  "fetch_user_last_playback net server user_id =
     (if user_id = [] then ret PNone
      else andthen (emby_get net server (user_items_path user_id)
        [(''Recursive'', PStr ''true''), (''Limit'', PInt 1), (''SortBy'', PStr ''DatePlayed''),
         (''SortOrder'', PStr ''Descending''), (''Filters'', PStr ''IsPlayed''),
         (''IncludeItemTypes'', PStr ''Movie,Episode''), (''Fields'', PStr ''UserData,SeriesName'')])
        (\<lambda>(success, payload).
           case payload of
             PDict d \<Rightarrow> if success then lift (first_of (pget d ''Items'')) else ret PNone
           | _ \<Rightarrow> ret PNone))"

subsection \<open>Reading a user's playback state\<close>

text \<open>\<open>_merge_user_item_data\<close>, given the source's user data.\<close>

definition merge_user_item_data :: "pdict \<Rightarrow> pdict \<Rightarrow> pdict" where
  "merge_user_item_data target source_ud =
     (if source_ud = [] then target
      else dset ''UserData''
        (PDict (dupdate (case pget target ''UserData'' of PDict d \<Rightarrow> d | _ \<Rightarrow> []) source_ud)) target)"

definition has_playstate :: "pdict \<Rightarrow> exn + bool" where
  "has_playstate ud =
     (if truthy (pget ud ''Played'') then Inr True
      else result_bind (position_ticks ud) (\<lambda>p. Inr (p > 0)))"

definition attach_last_played :: "emby_net \<Rightarrow> pdict \<Rightarrow> string \<Rightarrow> pdict \<Rightarrow> pdict act" where
  "attach_last_played net server user_id item =
     (if item_id item = [] then ret item
      else andthen (lift (user_data_or item)) (\<lambda>ud.
        andthen (lift (has_playstate ud)) (\<lambda>has.
          if \<not> has \<or> truthy (pget ud ''LastPlayedDate'') then ret item
          else andthen
            (emby_get net server (id_path user_id (''Items/'' @ item_id item)) [(''Fields'', PStr user_item_fields)])
            (\<lambda>(success, payload).
               case payload of
                 PDict d \<Rightarrow>
                   if \<not> success then ret item
                   else andthen (lift (user_data_or d)) (\<lambda>detail.
                     ret (if truthy (pget detail ''LastPlayedDate'') then merge_user_item_data item detail else item))
               | _ \<Rightarrow> ret item))))"

definition attach_missing_playstate_last_played_dates ::
  "emby_net \<Rightarrow> pdict \<Rightarrow> string \<Rightarrow> pdict list \<Rightarrow> pdict list act" where
  "attach_missing_playstate_last_played_dates net server user_id items =
     andthen (for_map (\<lambda>item u. andthen (attach_last_played net server user_id item) (\<lambda>i. ret (i, u))) items ())
       (\<lambda>(items, u). ret items)"

text \<open>\<open>_fetch_emby_visible_resume_item_ids\<close>: the ids, or an error.\<close>

definition fetch_visible_resume_item_ids ::
  "emby_net \<Rightarrow> pdict \<Rightarrow> string \<Rightarrow> (string list \<times> py) act" where
  "fetch_visible_resume_item_ids net server user_id =
     andthen (fetch_items_paged net server user_id (id_path user_id ''Items/Resume'') (item_query ''Movie,Episode'') 200)
       (\<lambda>(items, err).
          ret (if truthy err then ([], err)
               else (filter (\<lambda>i. i \<noteq> []) (map item_id items), PNone)))"

definition annotate_hide_from_resume :: "string list \<Rightarrow> pdict \<Rightarrow> exn + pdict" where
  "annotate_hide_from_resume visible item =
     (if item_id item = [] then Inr item
      else
        let ud = (case pget item ''UserData'' of PDict d \<Rightarrow> d | _ \<Rightarrow> []) in
        result_bind (position_ticks ud) (\<lambda>p. Inr (
          dset ''UserData''
            (PDict (if p \<le> 0 then ud
              else dset ''HideFromResume'' (PBool (item_id item \<notin> set visible)) ud)) item)))"

fun annotate_all :: "string list \<Rightarrow> pdict list \<Rightarrow> exn + pdict list" where
  "annotate_all visible [] = Inr []"
| "annotate_all visible (item # items) =
     result_bind (annotate_hide_from_resume visible item) (\<lambda>i.
     result_bind (annotate_all visible items) (\<lambda>is. Inr (i # is)))"

text \<open>
  The played items with the resumable ones merged in by id: the index maps an id to the last
  played item with it; a resumable item without a played one is appended, and not indexed.
\<close>

fun update_last :: "('a \<Rightarrow> bool) \<Rightarrow> ('a \<Rightarrow> 'a) \<Rightarrow> 'a list \<Rightarrow> 'a list" where
  "update_last P f [] = []"
| "update_last P f (x # xs) =
     (if P x \<and> \<not> list_ex P xs then f x # xs else x # update_last P f xs)"

fun merge_resumable :: "pdict list \<Rightarrow> pdict list \<Rightarrow> pdict list \<Rightarrow> exn + pdict list" where
  "merge_resumable played appended [] = Inr (played @ appended)"
| "merge_resumable played appended (it # its) =
     (if item_id it = [] then merge_resumable played appended its
      else if list_ex (\<lambda>i. item_id i = item_id it) played
      then result_bind (user_data_or it) (\<lambda>ud.
        merge_resumable (update_last (\<lambda>i. item_id i = item_id it) (\<lambda>i. merge_user_item_data i ud) played)
          appended its)
      else merge_resumable played (appended @ [it]) its)"

definition fetch_resumable ::
  "emby_net \<Rightarrow> pdict \<Rightarrow> string \<Rightarrow> pdict list \<Rightarrow> pdict list act" where
  "fetch_resumable net server user_id items =
     andthen (fetch_user_items net server user_id (item_query ''Movie,Episode'' @ [(''Filters'', PStr ''IsResumable'')]))
       (\<lambda>(items_res, err_res).
          if truthy err_res then ret items
          else andthen (fetch_visible_resume_item_ids net server user_id) (\<lambda>(visible, visible_err).
            andthen (lift (if truthy visible_err then Inr items_res else annotate_all visible items_res)) (\<lambda>items_res.
            andthen (attach_missing_playstate_last_played_dates net server user_id items_res) (\<lambda>items_res.
              lift (merge_resumable items [] items_res)))))"

definition fetch_user_items_for_sync ::
  "emby_net \<Rightarrow> pdict \<Rightarrow> string \<Rightarrow> bool \<Rightarrow> items_result act" where
  "fetch_user_items_for_sync net server user_id include_resume =
     (if user_id = [] then failed_read ''User ID mancante''
      else andthen
        (fetch_user_items net server user_id (item_query ''Movie,Episode'' @ [(''Filters'', PStr ''IsPlayed'')]))
        (\<lambda>(items, err).
           if truthy err then ret ([], err)
           else andthen (attach_missing_playstate_last_played_dates net server user_id items) (\<lambda>items.
             andthen (if include_resume then fetch_resumable net server user_id items else ret items)
               (\<lambda>items. ret (items, PNone)))))"

subsection \<open>All of this reads\<close>

lemma reads_only_failed [emits_rules]: "reads_only (failed_read message)"
  unfolding failed_read_def by (intro emits_rules)

lemma reads_only_attach_series [emits_rules]: "reads_only (attach_series_provider_ids net server user_id items)"
  unfolding attach_series_provider_ids_def attach_series_ids_def fetch_series_provider_ids_def
  by (intro emits_rules)

lemma reads_only_paged [emits_rules]: "reads_only (fetch_items_paged net server user_id path params page_size)"
  unfolding fetch_items_paged_def by (intro emits_rules)

lemma reads_only_user_items [emits_rules]: "reads_only (fetch_user_items net server user_id params)"
  unfolding fetch_user_items_def by (intro emits_rules)

lemma reads_only_attach_dates [emits_rules]:
  "reads_only (attach_missing_playstate_last_played_dates net server user_id items)"
  unfolding attach_missing_playstate_last_played_dates_def attach_last_played_def by (intro emits_rules)

lemma reads_only_for_sync [emits_rules]:
  "reads_only (fetch_user_items_for_sync net server user_id include_resume)"
  unfolding fetch_user_items_for_sync_def fetch_resumable_def fetch_visible_resume_item_ids_def
  by (intro emits_rules)

end
