(* ===== verification/Emby_Lookup.thy ===== *)
theory Emby_Lookup
  imports Emby_Items
begin

text \<open>
  Finding an item on a target server and writing to it (the second half of
  \<open>emby_users/api_client_items.py\<close>): lookups by provider id and by series provider key, the
  signature search of last resort, the writes of the played flag, the resume position, the hidden
  flag and the favourite flag, and the playlist calls.
\<close>

subsection \<open>Lookup by provider ids\<close>

fun chunk_list :: "nat \<Rightarrow> 'a list \<Rightarrow> 'a list list" where
  "chunk_list n [] = []"
| "chunk_list n (x # xs) = (if n = 0 then [] else take n (x # xs) # chunk_list n (drop n (x # xs)))"

definition parsed_provider_token :: "string \<times> string \<times> string \<times> string \<Rightarrow> string" where
  "parsed_provider_token parsed = (case parsed of (provider, series_id, season, episode) \<Rightarrow> provider @ ''.'' @ series_id)"

text \<open>What the loop over the keys carries: the items found, their ids, and the two caches.\<close>

record series_lookup =
  sl_items :: "pdict list"
  sl_seen :: "string list"
  sl_series :: "(string, pdict list) dict"
  sl_seasons :: "(string \<times> string, pdict list) dict"

definition lookup_series ::
  "emby_net \<Rightarrow> pdict \<Rightarrow> string \<Rightarrow> nat \<Rightarrow> string \<Rightarrow> items_result act" where
  "lookup_series net server user_id page_size token =
     fetch_items_paged net server user_id (user_items_path user_id)
       [(''Recursive'', PStr ''true''), (''Fields'', PStr ''ProviderIds,Name,SortName''),
        (''IncludeItemTypes'', PStr ''Series''), (''AnyProviderIdEquals'', PStr token)] page_size"

text \<open>\<open>Shows/{series_id}/Episodes\<close> of one season, or the error to return.\<close>

definition lookup_episodes ::
  "emby_net \<Rightarrow> pdict \<Rightarrow> string \<Rightarrow> string \<Rightarrow> string \<Rightarrow> (py + pdict list) act" where
  "lookup_episodes net server user_id series_id season =
     andthen (emby_get net server (''Shows/'' @ series_id @ ''/Episodes'')
       [(''UserId'', PStr user_id), (''Season'', PStr season), (''Fields'', PStr user_item_fields)])
       (\<lambda>(success, payload).
          if \<not> success then ret (Inl payload)
          else case payload of
            PDict d \<Rightarrow>
              (case py_or (pget d ''Items'') (PList []) of
                 PList xs \<Rightarrow> andthen (lift (object_list (PList xs))) (\<lambda>episodes. ret (Inr episodes))
               | _ \<Rightarrow> ret (Inl (PStr ''Risposta Episodes inattesa'')))
          | _ \<Rightarrow> ret (Inl (PStr ''Risposta Episodes inattesa'')))"

definition is_wanted_episode :: "string \<Rightarrow> string \<Rightarrow> bool \<Rightarrow> pdict \<Rightarrow> exn + bool" where
  "is_wanted_episode season episode include_played item =
     (if text_or_empty (pget item ''IndexNumber'') \<noteq> episode
         \<or> text_or_empty (pget item ''ParentIndexNumber'') \<noteq> season then Inr False
      else if include_played then Inr True
      else result_bind (user_data_or item) (\<lambda>ud. Inr (\<not> truthy (pget ud ''Played''))))"

definition note_series_id :: "string \<Rightarrow> string \<Rightarrow> pdict \<Rightarrow> exn + pdict" where
  "note_series_id provider series_id item =
     (case dget_default item ''SeriesProviderIds'' (PDict []) of
        PDict ids \<Rightarrow> Inr (dset ''SeriesProviderIds'' (PDict (dset provider (PStr series_id) ids)) item)
      | _ \<Rightarrow> Inl (TypeError ''item assignment''))"

definition take_episode ::
  "string \<times> string \<times> string \<times> string \<Rightarrow> bool \<Rightarrow> pdict \<Rightarrow> series_lookup \<Rightarrow> series_lookup act" where
  "take_episode parsed include_played item s =
     (case parsed of (provider, series_id, season, episode) \<Rightarrow>
        andthen (lift (is_wanted_episode season episode include_played item)) (\<lambda>wanted.
          if \<not> wanted \<or> item_id item = [] \<or> item_id item \<in> set (sl_seen s) then ret s
          else andthen (lift (note_series_id provider series_id item)) (\<lambda>item'.
            ret (s\<lparr>sl_items := sl_items s @ [item'], sl_seen := sl_seen s @ [item_id item]\<rparr>))))"

definition take_series ::
  "emby_net \<Rightarrow> pdict \<Rightarrow> string \<Rightarrow> bool \<Rightarrow> string \<times> string \<times> string \<times> string \<Rightarrow> pdict
    \<Rightarrow> series_lookup \<Rightarrow> (items_result + series_lookup) act" where
  "take_series net server user_id include_played parsed series s =
     (case parsed of (provider, series_id, season, episode) \<Rightarrow>
        if item_id series = [] then ret (Inr s)
        else andthen
          (case map_of (sl_seasons s) (item_id series, season) of
             Some episodes \<Rightarrow> ret (Inr episodes)
           | None \<Rightarrow> lookup_episodes net server user_id (item_id series) season)
          (\<lambda>r. case r of
             Inl err \<Rightarrow> ret (Inl ([], err))
           | Inr episodes \<Rightarrow>
               andthen (for_each (take_episode parsed include_played) episodes
                 (s\<lparr>sl_seasons := dset (item_id series, season) episodes (sl_seasons s)\<rparr>))
                 (\<lambda>s. ret (Inr s))))"

definition take_series_key ::
  "emby_net \<Rightarrow> pdict \<Rightarrow> string \<Rightarrow> bool \<Rightarrow> nat \<Rightarrow> string \<times> string \<times> string \<times> string
    \<Rightarrow> series_lookup \<Rightarrow> (items_result + series_lookup) act" where
  "take_series_key net server user_id include_played page_size parsed s =
     (let token = parsed_provider_token parsed in
      andthen
        (case map_of (sl_series s) token of
           Some series \<Rightarrow> ret (series, PNone)
         | None \<Rightarrow> lookup_series net server user_id page_size token)
        (\<lambda>(series, err).
           if truthy err then ret (Inl ([], err))
           else for_until (take_series net server user_id include_played parsed) series
             (s\<lparr>sl_series := dset token series (sl_series s)\<rparr>)))"

definition fetch_items_by_series_provider_keys ::
  "emby_net \<Rightarrow> pdict \<Rightarrow> string \<Rightarrow> string list \<Rightarrow> bool \<Rightarrow> nat \<Rightarrow> items_result act" where
  "fetch_items_by_series_provider_keys net server user_id provider_keys include_played page_size =
     (let parsed = List.map_filter parse_series_provider_key provider_keys in
      if parsed = [] then ret ([], PNone)
      else andthen
        (for_until (take_series_key net server user_id include_played page_size) parsed
           \<lparr>sl_items = [], sl_seen = [], sl_series = [], sl_seasons = []\<rparr>)
        (\<lambda>r. ret (case r of Inl failed \<Rightarrow> failed | Inr s \<Rightarrow> (sl_items s, PNone))))"

text \<open>Items with an id that was not seen yet, in order.\<close>

definition add_unseen :: "pdict list \<Rightarrow> pdict list \<times> string list \<Rightarrow> pdict list \<times> string list" where
  "add_unseen found acc =
     foldl (\<lambda>(items, seen) it.
       if item_id it \<noteq> [] \<and> item_id it \<notin> set seen then (items @ [it], seen @ [item_id it]) else (items, seen))
       acc found"

definition lookup_tokens ::
  "emby_net \<Rightarrow> pdict \<Rightarrow> string \<Rightarrow> bool \<Rightarrow> string \<Rightarrow> string list \<Rightarrow> pdict list \<times> string list
    \<Rightarrow> (items_result + pdict list \<times> string list) act" where
  "lookup_tokens net server user_id include_played types chunk acc =
     andthen
       (fetch_user_items net server user_id
          (item_query types @ [(''AnyProviderIdEquals'', PStr (join '','' chunk))]
           @ (if include_played then [] else [(''IsPlayed'', PStr ''false'')])))
       (\<lambda>(items, err). ret (if truthy err then Inl ([], err) else Inr (add_unseen items acc)))"

text \<open>\<open>_fetch_emby_items_by_provider_ids\<close> with its default page size; \<open>default_item_types\<close> are its
  default item types.\<close>

definition default_item_types :: string where
  "default_item_types = ''Movie,Episode''"

definition fetch_items_by_provider_ids ::
  "emby_net \<Rightarrow> pdict \<Rightarrow> string \<Rightarrow> string list \<Rightarrow> bool \<Rightarrow> string \<Rightarrow> items_result act" where
  "fetch_items_by_provider_ids net server user_id provider_keys include_played types =
     (if user_id = [] then failed_read ''User ID mancante''
      else if provider_keys = [] then ret ([], PNone)
      else andthen
        (for_until (lookup_tokens net server user_id include_played types)
           (chunk_list 100 (List.map_filter format_provider_token provider_keys)) ([], []))
        (\<lambda>r. case r of
           Inl failed \<Rightarrow> ret failed
         | Inr acc \<Rightarrow>
             andthen (fetch_items_by_series_provider_keys net server user_id
               (filter (\<lambda>k. parse_series_provider_key k \<noteq> None) provider_keys) include_played 200)
               (\<lambda>(items, err). ret (if truthy err then ([], err) else (fst (add_unseen items acc), PNone)))))"

subsection \<open>Lookup by signature\<close>

definition search_terms :: "pdict \<Rightarrow> fallback_signature \<Rightarrow> py list" where
  "search_terms source_item g =
     (case g of
        MovieSignature _ _ _ _ \<Rightarrow> [pget source_item ''Name'', pget source_item ''OriginalTitle'']
      | EpisodeSignature _ _ _ _ \<Rightarrow> [pget source_item ''SeriesName'', pget source_item ''Name''])"

definition take_match :: "fallback_signature \<Rightarrow> pdict \<Rightarrow> pdict list \<Rightarrow> pdict list act" where
  "take_match g candidate matches =
     (if item_id candidate = [] \<or> item_id candidate \<in> set (map item_id matches) then ret matches
      else andthen (lift (matches_safe_fallback_signature candidate g)) (\<lambda>ok.
        ret (if ok then matches @ [candidate] else matches)))"

definition search_term ::
  "emby_net \<Rightarrow> pdict \<Rightarrow> string \<Rightarrow> fallback_signature \<Rightarrow> py \<Rightarrow> pdict list
    \<Rightarrow> (items_result + pdict list) act" where
  "search_term net server user_id g raw_term matches =
     (let term = strip (text_or_empty raw_term) in
      if term = [] then ret (Inr matches)
      else andthen
        (fetch_items_paged net server user_id (user_items_path user_id)
           [(''Recursive'', PStr ''true''), (''SearchTerm'', PStr term), (''Fields'', PStr user_item_fields),
            (''IncludeItemTypes'', signature_type g)] 100)
        (\<lambda>(candidates, err).
           if truthy err then ret (Inl ([], err))
           else andthen (for_each (take_match g) candidates matches) (\<lambda>m. ret (Inr m))))"

definition accept_single :: "pdict list \<Rightarrow> items_result" where
  "accept_single matches =
     (if length matches > 1
      then ([], PStr (''Match fallback ambiguo: '' @ str_nat (length matches) @ '' risultati''))
      else (matches, PNone))"

definition search_result :: "items_result + pdict list \<Rightarrow> items_result" where
  "search_result r = (case r of Inl failed \<Rightarrow> failed | Inr matches \<Rightarrow> accept_single matches)"

definition fetch_items_by_safe_fallback ::
  "emby_net \<Rightarrow> pdict \<Rightarrow> string \<Rightarrow> pdict \<Rightarrow> items_result act" where
  "fetch_items_by_safe_fallback net server user_id source_item =
     (if user_id = [] then failed_read ''User ID mancante''
      else andthen (lift (get_safe_fallback_signature source_item)) (\<lambda>s.
        case s of
          None \<Rightarrow> ret ([], PNone)
        | Some g \<Rightarrow>
            andthen (for_until (search_term net server user_id g) (search_terms source_item g) []) (\<lambda>r.
              ret (search_result r))))"

subsection \<open>Writes\<close>

type_synonym write_result = "bool \<times> py"

definition missing_ids :: "write_result act" where
  "missing_ids = ret (False, PStr ''ID mancanti'')"

definition mark_item_played ::
  "emby_net \<Rightarrow> pdict \<Rightarrow> string \<Rightarrow> string \<Rightarrow> py \<Rightarrow> write_result act" where
  "mark_item_played net server user_id item date_played =
     (if user_id = [] \<or> item = [] then missing_ids
      else andthen (lift (if truthy date_played then format_emby_date_played date_played else Inr None)) (\<lambda>d.
        call_emby_api net server (id_path user_id (''PlayedItems/'' @ item)) ''POST''
          (case d of None \<Rightarrow> [] | Some text \<Rightarrow> if text = [] then [] else [(''DatePlayed'', PStr text)]) None))"

definition mark_item_unplayed :: "emby_net \<Rightarrow> pdict \<Rightarrow> string \<Rightarrow> string \<Rightarrow> write_result act" where
  "mark_item_unplayed net server user_id item =
     (if user_id = [] \<or> item = [] then missing_ids
      else call_emby_api net server (id_path user_id (''PlayedItems/'' @ item)) ''DELETE'' [] None)"

definition set_item_resume ::
  "emby_net \<Rightarrow> pdict \<Rightarrow> string \<Rightarrow> string \<Rightarrow> py \<Rightarrow> py \<Rightarrow> bool \<Rightarrow> write_result act" where
  "set_item_resume net server user_id item position last_played preserve_played =
     (if user_id = [] \<or> item = [] then missing_ids
      else if position = PNone then ret (False, PStr ''Resume position mancante'')
      else andthen (lift (py_int position)) (\<lambda>ticks.
        call_emby_api net server (id_path user_id (''Items/'' @ item @ ''/UserData'')) ''POST'' []
          (Some ([(''PlaybackPositionTicks'', PInt ticks)]
            @ (if truthy last_played then [(''LastPlayedDate'', last_played)] else [])
            @ (if preserve_played then [(''Played'', PBool True)] else [])))))"

definition set_item_hide_from_resume ::
  "emby_net \<Rightarrow> pdict \<Rightarrow> string \<Rightarrow> string \<Rightarrow> bool \<Rightarrow> write_result act" where
  "set_item_hide_from_resume net server user_id item hide =
     (if user_id = [] \<or> item = [] then missing_ids
      else call_emby_api net server (id_path user_id (''Items/'' @ item @ ''/HideFromResume'')) ''POST''
        [(''Hide'', PStr (if hide then ''true'' else ''false''))] None)"

definition set_item_favorite ::
  "emby_net \<Rightarrow> pdict \<Rightarrow> string \<Rightarrow> string \<Rightarrow> bool \<Rightarrow> write_result act" where
  "set_item_favorite net server user_id item is_favorite =
     (if user_id = [] \<or> item = [] then missing_ids
      else call_emby_api net server (id_path user_id (''FavoriteItems/'' @ item))
        (if is_favorite then ''POST'' else ''DELETE'') [] None)"

subsection \<open>Playlist writes\<close>

text \<open>A write that is tried a second way when it failed.\<close>

definition or_retry :: "write_result act \<Rightarrow> write_result act \<Rightarrow> write_result act" where
  "or_retry first second = andthen first (\<lambda>r. if fst r then ret r else second)"

definition nonempty_ids :: "string list \<Rightarrow> string list" where
  "nonempty_ids ids = filter (\<lambda>i. i \<noteq> []) ids"

definition create_playlist ::
  "emby_net \<Rightarrow> pdict \<Rightarrow> string \<Rightarrow> string \<Rightarrow> string list \<Rightarrow> write_result act" where
  "create_playlist net server user_id name item_ids =
     (if user_id = [] \<or> name = [] then ret (False, PStr ''Dati playlist mancanti'')
      else or_retry
        (call_emby_api net server ''Playlists'' ''POST''
          ([(''Name'', PStr name), (''UserId'', PStr user_id)]
           @ (if item_ids = [] then [] else [(''Ids'', PStr (join '','' (nonempty_ids item_ids)))])) None)
        (call_emby_api net server ''Playlists'' ''POST'' []
          (Some [(''Name'', PStr name), (''UserId'', PStr user_id),
                 (''Ids'', PList (map PStr (nonempty_ids item_ids)))])))"

definition playlist_items_write ::
  "string \<Rightarrow> string \<Rightarrow> emby_net \<Rightarrow> pdict \<Rightarrow> string \<Rightarrow> string \<Rightarrow> string list \<Rightarrow> write_result act" where
  "playlist_items_write http_method field net server user_id playlist_id ids =
     (if user_id = [] \<or> playlist_id = [] then missing_ids
      else if nonempty_ids ids = [] then ret (True, PDict [])
      else let path = ''Playlists/'' @ playlist_id @ ''/Items'' in
        or_retry
          (call_emby_api net server path http_method
            [(''UserId'', PStr user_id), (field, PStr (join '','' (nonempty_ids ids)))] None)
          (call_emby_api net server path http_method []
            (Some [(''UserId'', PStr user_id), (field, PList (map PStr (nonempty_ids ids)))])))"

definition add_playlist_items ::
  "emby_net \<Rightarrow> pdict \<Rightarrow> string \<Rightarrow> string \<Rightarrow> string list \<Rightarrow> write_result act" where
  "add_playlist_items = playlist_items_write ''POST'' ''Ids''"

definition remove_playlist_entries ::
  "emby_net \<Rightarrow> pdict \<Rightarrow> string \<Rightarrow> string \<Rightarrow> string list \<Rightarrow> write_result act" where
  "remove_playlist_entries = playlist_items_write ''DELETE'' ''EntryIds''"

definition delete_playlist :: "emby_net \<Rightarrow> pdict \<Rightarrow> string \<Rightarrow> string \<Rightarrow> write_result act" where
  "delete_playlist net server user_id playlist_id =
     (if user_id = [] \<or> playlist_id = [] then missing_ids
      else or_retry
        (call_emby_api net server (''Items/'' @ playlist_id) ''DELETE'' [(''UserId'', PStr user_id)] None)
        (call_emby_api net server (''Items/'' @ playlist_id) ''DELETE'' [] None))"

subsection \<open>Facts\<close>

lemma reads_only_series_keys [emits_rules]:
  "reads_only (fetch_items_by_series_provider_keys net server user_id keys include_played page_size)"
  unfolding fetch_items_by_series_provider_keys_def take_series_key_def take_series_def take_episode_def
    lookup_series_def lookup_episodes_def
  by (intro emits_rules)

lemma reads_only_provider_ids [emits_rules]:
  "reads_only (fetch_items_by_provider_ids net server user_id keys include_played types)"
  unfolding fetch_items_by_provider_ids_def lookup_tokens_def by (intro emits_rules)

lemma reads_only_safe_fallback [emits_rules]:
  "reads_only (fetch_items_by_safe_fallback net server user_id source_item)"
  unfolding fetch_items_by_safe_fallback_def search_term_def take_match_def by (intro emits_rules)

lemma parse_series_key_season:
  "parse_series_provider_key key = Some (provider, series_id, season, episode) \<Longrightarrow> season \<noteq> [] \<and> episode \<noteq> []"
  by (auto simp: parse_series_provider_key_def split: list.splits option.splits if_splits)

lemma note_series_id_other:
  "note_series_id provider series_id item = Inr item' \<Longrightarrow> k \<noteq> ''SeriesProviderIds'' \<Longrightarrow> pget item' k = pget item k"
  by (auto simp: note_series_id_def split: py.splits)

definition numbered :: "pdict list \<Rightarrow> bool" where
  "numbered items \<longleftrightarrow> list_all (\<lambda>it. truthy (pget it ''ParentIndexNumber'') \<and> truthy (pget it ''IndexNumber'')) items"

lemma is_wanted_numbered:
  assumes "is_wanted_episode season episode include_played item = Inr True" "season \<noteq> []" "episode \<noteq> []"
  shows "truthy (pget item ''ParentIndexNumber'') \<and> truthy (pget item ''IndexNumber'')"
  using assms by (auto simp: is_wanted_episode_def text_or_empty_def split: if_splits)

lemma take_episode_numbered:
  assumes "parsed = (provider, series_id, season, episode)" "season \<noteq> []" "episode \<noteq> []" "numbered (sl_items s)"
  shows "yields (\<lambda>s. numbered (sl_items s)) (take_episode parsed include_played item s)"
  unfolding take_episode_def assms(1) prod.case
proof (intro yields_andthen_lift yields_if yields_ret)
  fix wanted item'
  assume "is_wanted_episode season episode include_played item = Inr wanted"
    "\<not> (\<not> wanted \<or> item_id item = [] \<or> item_id item \<in> set (sl_seen s))"
    "note_series_id provider series_id item = Inr item'"
  then show "numbered (sl_items (s\<lparr>sl_items := sl_items s @ [item'], sl_seen := sl_seen s @ [item_id item]\<rparr>))"
    using assms is_wanted_numbered note_series_id_other by (simp add: numbered_def)
qed (use assms in simp)

abbreviation numbered_result :: "items_result + series_lookup \<Rightarrow> bool" where
  "numbered_result \<equiv> case_sum (\<lambda>failed. numbered (fst failed)) (\<lambda>s. numbered (sl_items s))"

lemma take_series_numbered:
  assumes "parsed = (provider, series_id, season, episode)" "season \<noteq> []" "episode \<noteq> []" "numbered (sl_items s)"
  shows "yields numbered_result (take_series net server user_id include_played parsed series s)"
proof (cases "item_id series = []")
  case True
  with assms show ?thesis by (simp add: take_series_def yields_ret)
next
  case False
  have inner: "yields numbered_result
      (andthen (for_each (take_episode (provider, series_id, season, episode) include_played) episodes
        (s\<lparr>sl_seasons := dset (item_id series, season) episodes (sl_seasons s)\<rparr>)) (\<lambda>s. ret (Inr s)))" for episodes
  proof (rule yields_andthen)
    show "yields (\<lambda>s. numbered (sl_items s))
        (for_each (take_episode (provider, series_id, season, episode) include_played) episodes
          (s\<lparr>sl_seasons := dset (item_id series, season) episodes (sl_seasons s)\<rparr>))"
      using assms by (intro yields_for_each take_episode_numbered [OF refl]) auto
  qed (simp add: yields_ret)
  show ?thesis
    unfolding take_series_def assms(1) prod.case if_not_P [OF False]
  proof (rule yields_andthen_any)
    fix r :: "py + pdict list"
    show "yields numbered_result (case r of
        Inl err \<Rightarrow> ret (Inl ([], err))
      | Inr episodes \<Rightarrow> andthen (for_each (take_episode (provider, series_id, season, episode) include_played) episodes
          (s\<lparr>sl_seasons := dset (item_id series, season) episodes (sl_seasons s)\<rparr>)) (\<lambda>s. ret (Inr s)))"
      using inner by (cases r) (auto intro: yields_ret simp: numbered_def)
  qed
qed

lemma in_map_filter: "y \<in> set (List.map_filter f xs) \<Longrightarrow> \<exists>x \<in> set xs. f x = Some y"
  by (auto simp: List.map_filter_def)

lemma series_keys_numbered:
  "yields (\<lambda>r. numbered (fst r))
     (fetch_items_by_series_provider_keys net server user_id keys include_played page_size)"
  unfolding fetch_items_by_series_provider_keys_def Let_def
proof (intro yields_if yields_andthen [where R = numbered_result] yields_ret)
  let ?parsed = "List.map_filter parse_series_provider_key keys"
  show "yields numbered_result (for_until (take_series_key net server user_id include_played page_size) ?parsed
      \<lparr>sl_items = [], sl_seen = [], sl_series = [], sl_seasons = []\<rparr>)"
  proof (rule yields_for_until)
    fix parsed and s :: series_lookup
    assume "parsed \<in> set ?parsed" and s: "numbered (sl_items s)"
    then obtain provider series_id season episode where p: "parsed = (provider, series_id, season, episode)"
      "season \<noteq> []" "episode \<noteq> []"
      by (metis in_map_filter parse_series_key_season prod_cases4)
    show "yields numbered_result (take_series_key net server user_id include_played page_size parsed s)"
      unfolding take_series_key_def Let_def
    proof (intro yields_andthen_any yields_case_prod yields_if yields_ret)
      fix series :: "pdict list"
      show "yields numbered_result (for_until (take_series net server user_id include_played parsed) series
          (s\<lparr>sl_series := dset (parsed_provider_token parsed) series (sl_series s)\<rparr>))"
        using p s by (intro yields_for_until take_series_numbered [OF p(1)]) auto
    qed (simp add: numbered_def)
  qed (simp add: numbered_def)
qed (auto simp: numbered_def split: sum.splits)

lemma fallback_part_zero [simp]: "fallback_key_part (PInt 0) = []"
  by (simp add: fallback_key_part_def normalize_string_def text_or_empty_def lower_def replace_char_def)

lemma special_signature:
  assumes "get_safe_fallback_signature source = Inr (Some g)"
    and "item_type source = PStr ''Episode''" "pget source ''ParentIndexNumber'' = PInt 0"
  shows "\<exists>series episode runtime. g = EpisodeSignature series ''0'' episode runtime"
proof -
  have "str_int 0 = ''0''" by code_simp
  with assms show ?thesis
    by (auto simp: get_safe_fallback_signature_def result_bind_Inr_iff episode_signature_def Let_def py_str_def
        split: if_splits)
qed

text \<open>
  an episode of season 0 (a special) is not matched across servers by any route: without provider
  ids it has no fallback key; its signature matches no special, not even itself; and the lookup by
  series keys, which asks the server for season 0 when the key says so, returns no special.
\<close>

theorem specials_unmatched:
  assumes "item_type item = PStr ''Episode''" "pget item ''ParentIndexNumber'' = PInt 0"
  shows "get_safe_fallback_keys item = Inr []
    \<and> (\<forall>g. get_safe_fallback_signature item = Inr (Some g) \<longrightarrow> matches_safe_fallback_signature item g = Inr False
            \<or> (\<exists>e. matches_safe_fallback_signature item g = Inl e))
    \<and> (\<forall>net server user_id keys include_played page_size sent items err sent'.
         fetch_items_by_series_provider_keys net server user_id keys include_played page_size sent
           = (Inr (items, err), sent') \<longrightarrow> item \<notin> set items)"
proof (intro conjI allI impI)
  show "get_safe_fallback_keys item = Inr []"
    using assms by (simp add: get_safe_fallback_keys_def episode_fallback_keys_def)
next
  fix g assume "get_safe_fallback_signature item = Inr (Some g)"
  from special_signature [OF this assms] obtain series episode runtime
    where g: "g = EpisodeSignature series ''0'' episode runtime" by blast
  have "\<not> matches_episode item series ''0'' episode"
    using assms(2) by (simp add: matches_episode_def text_or_empty_def)
  then show "matches_safe_fallback_signature item g = Inr False
      \<or> (\<exists>e. matches_safe_fallback_signature item g = Inl e)"
    by (cases "runtime_ticks item") (simp_all add: g matches_safe_fallback_signature_def)
next
  fix net server user_id keys include_played page_size sent items err sent'
  assume "fetch_items_by_series_provider_keys net server user_id keys include_played page_size sent
    = (Inr (items, err), sent')"
  from yieldsD [OF series_keys_numbered this] have "numbered items" by simp
  then show "item \<notin> set items"
    using assms(2) by (auto simp: numbered_def list_all_iff)
qed

theorem specials_unmatched_witness: "get_safe_fallback_keys sample_special = Inr []"
proof -
  have "item_type sample_special = PStr ''Episode''" "pget sample_special ''ParentIndexNumber'' = PInt 0"
    by code_simp+
  then show ?thesis using specials_unmatched by blast
qed

subsection \<open>The signature search finds at most one item\<close>

lemma take_match_signed:
  assumes "list_all (\<lambda>m. matches_safe_fallback_signature m g = Inr True) matches"
  shows "yields (list_all (\<lambda>m. matches_safe_fallback_signature m g = Inr True)) (take_match g candidate matches)"
  unfolding take_match_def
  by (intro yields_if yields_andthen_lift yields_ret) (use assms in auto)

lemma search_term_signed:
  assumes "list_all (\<lambda>m. matches_safe_fallback_signature m g = Inr True) matches"
  shows "yields (case_sum (\<lambda>failed. fst failed = []) (list_all (\<lambda>m. matches_safe_fallback_signature m g = Inr True)))
    (search_term net server user_id g raw matches)"
proof (cases "strip (text_or_empty raw) = []")
  case True
  with assms show ?thesis by (simp add: search_term_def yields_ret)
next
  case False
  have inner: "yields (case_sum (\<lambda>failed. fst failed = []) (list_all (\<lambda>m. matches_safe_fallback_signature m g = Inr True)))
      (andthen (for_each (take_match g) candidates matches) (\<lambda>m. ret (Inr m)))" for candidates
  proof (rule yields_andthen)
    show "yields (list_all (\<lambda>m. matches_safe_fallback_signature m g = Inr True)) (for_each (take_match g) candidates matches)"
      using assms by (intro yields_for_each take_match_signed)
  qed (simp add: yields_ret)
  show ?thesis
    unfolding search_term_def Let_def if_not_P [OF False]
  proof (rule yields_andthen_any)
    fix r :: items_result
    show "yields (case_sum (\<lambda>failed. fst failed = []) (list_all (\<lambda>m. matches_safe_fallback_signature m g = Inr True)))
        (case r of (candidates, err) \<Rightarrow>
          if truthy err then ret (Inl ([], err))
          else andthen (for_each (take_match g) candidates matches) (\<lambda>m. ret (Inr m)))"
      using inner by (cases r) (auto intro: yields_ret)
  qed
qed

text \<open>
  the search of last resort never guesses: it returns at most one item, and that item matches the
  signature of the source item in type, runtime, title and year or episode.
\<close>

theorem safe_fallback_unambiguous:
  assumes "fetch_items_by_safe_fallback net server user_id source_item sent = (Inr (items, err), sent')"
  shows "items = [] \<or> (\<exists>found g. items = [found] \<and> get_safe_fallback_signature source_item = Inr (Some g)
    \<and> matches_safe_fallback_signature found g = Inr True)"
proof -
  let ?ok = "\<lambda>r. fst r = [] \<or> (\<exists>found g. fst r = [found] \<and> get_safe_fallback_signature source_item = Inr (Some g)
    \<and> matches_safe_fallback_signature found g = Inr True)"
  let ?search = "\<lambda>g. andthen (for_until (search_term net server user_id g) (search_terms source_item g) [])
    (\<lambda>r. ret (search_result r))"
  have last: "yields ?ok (?search g)" if g: "get_safe_fallback_signature source_item = Inr (Some g)" for g
  proof (rule yields_andthen, rule yields_for_until, rule search_term_signed, assumption, simp, rule yields_ret)
    fix r :: "items_result + pdict list"
    assume r: "case_sum (\<lambda>failed. fst failed = []) (list_all (\<lambda>m. matches_safe_fallback_signature m g = Inr True)) r"
    show "?ok (search_result r)"
    proof (cases r)
      case (Inr matches)
      then show ?thesis using r g by (cases matches) (auto simp: search_result_def accept_single_def)
    qed (use r in \<open>simp add: search_result_def\<close>)
  qed
  have "yields ?ok (fetch_items_by_safe_fallback net server user_id source_item)"
    unfolding fetch_items_by_safe_fallback_def failed_read_def
  proof (intro yields_if yields_andthen_lift)
    fix s assume s: "get_safe_fallback_signature source_item = Inr s"
    show "yields ?ok (case s of None \<Rightarrow> ret ([], PNone) | Some g \<Rightarrow> ?search g)"
      using s last by (cases s) (simp_all add: yields_ret)
  qed (simp add: yields_ret)
  from yieldsD [OF this assms] show ?thesis by simp
qed

subsection \<open>A sample library\<close>

text \<open>Servers that answer every request with the items a function gives for it, on one page.\<close>

definition library_net :: "(emby_request \<Rightarrow> pdict list) \<Rightarrow> emby_net" where
  "library_net lib =
     \<lparr>n_reply = (\<lambda>sent r. Body (PDict [(''Items'', PList (map PDict (lib r))), (''TotalRecordCount'', PInt (int (length (lib r))))])),
      n_fingerprint = (\<lambda>page. str_nat (length page)), n_order = (\<lambda>keys. keys)\<rparr>"

definition sample_server :: "string \<Rightarrow> pdict" where
  "sample_server k = [(''id'', PStr k), (''name'', PStr k), (''url'', PStr ''http://emby/''), (''api_key'', PStr k)]"

definition sample_request :: "string \<Rightarrow> string \<Rightarrow> pdict \<Rightarrow> emby_request" where
  "sample_request k path params =
     \<lparr>rq_method = ''GET'', rq_target = ''http://emby/'' @ lstrip_char (CHR ''/'') path, rq_token = strip k,
      rq_params = params, rq_json = None\<rparr>"

lemma object_list_dicts [simp]: "object_list (PList (map PDict items)) = Inr items"
  by (simp add: object_list_def is_object_def object_of_def list_all_iff map_idI)

lemma sample_get:
  assumes "strip k \<noteq> []"
  shows "emby_get (library_net lib) (sample_server k) path params sent =
    (Inr (True, PDict [(''Items'', PList (map PDict (lib (sample_request k path params)))),
        (''TotalRecordCount'', PInt (int (length (lib (sample_request k path params)))))]),
     sent @ [sample_request k path params])"
proof -
  have u: "emby_base_url (sample_server k) = Some ''http://emby''"
    by (simp add: emby_base_url_def sample_server_def) (code_simp)
  have "pget (sample_server k) ''api_key'' = PStr k" by (simp add: sample_server_def)
  with u assms show ?thesis
    by (simp add: call_emby_api_def send_def library_net_def answer_of_def sample_request_def Let_def)
qed

text \<open>A paged read of a library of films, which need no series ids.\<close>

lemma sample_read:
  assumes "strip k \<noteq> []" "user_id \<noteq> []"
    and "items = lib (sample_request k path (page_params page_size params 0))"
    and "length items \<le> 100" "list_all (\<lambda>it. item_type it \<noteq> PStr ''Episode'') items"
  shows "fetch_items_paged (library_net lib) (sample_server k) user_id path params page_size sent =
    (Inr (items, PNone), sent @ [sample_request k path (page_params page_size params 0)])"
proof -
  have page: "\<exists>g'. observe_page fp items (new_guard max_emby_pages max_emby_items) = Inr g'" for fp
    using assms(4) by (simp add: observe_page_def new_guard_def max_emby_pages_def max_emby_items_def Let_def)
  have items: "items_of [(''Items'', PList (map PDict items)), (''TotalRecordCount'', v)] = Inr items" for v
    using object_list_dicts [of items] by (cases "items = []") (simp_all add: items_of_def py_or_def object_list_def)
  have complete: "emby_items_page_complete page_size items (PInt (int (length items))) 0 = Inr True"
    by (simp add: emby_items_page_complete_def at_least_def)
  have read: "fetch_pages (library_net lib) (sample_server k) path (page_params page_size params)
      (emby_items_page_complete page_size) 0 (new_guard max_emby_pages max_emby_items) [] sent
    = (Inr (items, PNone), sent @ [sample_request k path (page_params page_size params 0)])"
    using page [of "n_fingerprint (library_net lib)"] items complete assms(3)
    by (subst fetch_pages.simps)
       (auto simp: fetch_page_def sample_get [OF assms(1)] andthen_def lift_def ret_def)
  have "for_map (attach_series_ids (library_net lib) (sample_server k) user_id) items c = ret (items, c)" for c
    using assms(5) by (induction items) (auto simp: attach_series_ids_def Let_def intro!: ext)
  then have "attach_series_provider_ids (library_net lib) (sample_server k) user_id items = ret items"
    by (intro ext) (simp add: attach_series_provider_ids_def)
  with read assms(2) show ?thesis
    by (simp add: fetch_items_paged_def andthen_def)
qed

definition sample_film :: pdict where
  "sample_film =
     [(''Id'', PStr ''5''), (''Type'', PStr ''Movie''), (''Name'', PStr ''Stalker''),
      (''ProductionYear'', PInt 1979), (''RunTimeTicks'', PInt 96600000000)]"

definition sample_search :: "(exn + items_result) \<times> emby_request list" where
  "sample_search = fetch_items_by_safe_fallback (library_net (\<lambda>r. [sample_film])) (sample_server ''a'') ''u'' sample_film []"

theorem safe_fallback_unambiguous_witness:
  "fst sample_search = Inr ([sample_film], PNone)
   \<and> ([sample_film] = [] \<or> (\<exists>found g. [sample_film] = [found] \<and> get_safe_fallback_signature sample_film = Inr (Some g)
        \<and> matches_safe_fallback_signature found g = Inr True))"
proof -
  have n: "normalize_string (PStr ''Stalker'') = ''stalker''" "strip ''Stalker'' = ''Stalker''" "strip ''a'' = ''a''"
    by code_simp+
  have f: "pget sample_film ''Name'' = PStr ''Stalker''" "pget sample_film ''OriginalTitle'' = PNone"
    "pget sample_film ''ProductionYear'' = PInt 1979" "item_type sample_film = PStr ''Movie''" "item_id sample_film = ''5''"
    "runtime_ticks sample_film = Inr 96600000000"
    by (simp_all add: sample_film_def item_type_def item_id_def py_or_def runtime_ticks_def)
  have g: "get_safe_fallback_signature sample_film = Inr (Some (MovieSignature ''stalker'' [] (str_int 1979) 96600000000))"
    using f n by (simp add: get_safe_fallback_signature_def movie_signature_def normalize_string_def py_str_def)
  have m: "matches_safe_fallback_signature sample_film (MovieSignature ''stalker'' [] (str_int 1979) 96600000000) = Inr True"
    using f n by (simp add: matches_safe_fallback_signature_def signature_type_def matches_movie_def text_or_empty_def
        py_str_def runtime_tolerance_ticks_def)
  have run: "fst sample_search = Inr ([sample_film], PNone)"
    by (simp add: sample_search_def fetch_items_by_safe_fallback_def g m f n search_terms_def search_term_def
        sample_read andthen_def take_match_def search_result_def accept_single_def)
  have "fetch_items_by_safe_fallback (library_net (\<lambda>r. [sample_film])) (sample_server ''a'') ''u'' sample_film []
      = (Inr ([sample_film], PNone), snd sample_search)"
    using run prod.collapse [of sample_search] by (simp only: sample_search_def)
  from conjI [OF run safe_fallback_unambiguous [OF this]] show ?thesis .
qed

end
