(* ===== verification/Play_State.thy ===== *)
theory Play_State
  imports Emby_Lookup
begin

text \<open>
  The helpers of the playback synchronisation (\<open>emby_users/playstate_support.py\<close>): the state a user
  has of an item, the union of two resume states, the items of a target looked up by fallback
  key, and the scan of a user's unplayed media.  A state is the dictionary the code builds
  (\<open>played\<close>, \<open>last_played\<close>, \<open>position\<close>, and \<open>hide_from_resume\<close> when Emby said so).
\<close>

subsection \<open>States\<close>

definition hide_from_resume_of :: "pdict \<Rightarrow> bool option" where
  "hide_from_resume_of ud =
     (if has_key ''HideFromResume'' ud then Some (truthy (pget ud ''HideFromResume'')) else None)"

definition with_hidden :: "pdict \<Rightarrow> pdict \<Rightarrow> pdict" where
  "with_hidden ud state =
     (case hide_from_resume_of ud of None \<Rightarrow> state | Some h \<Rightarrow> dset ''hide_from_resume'' (PBool h) state)"

definition resume_state_from_user_data :: "pdict \<Rightarrow> pdict" where
  "resume_state_from_user_data ud =
     with_hidden ud [(''position'', pget ud ''PlaybackPositionTicks''), (''last_played'', pget ud ''LastPlayedDate'')]"

definition playstate_state_from_user_data :: "pdict \<Rightarrow> exn + pdict" where
  "playstate_state_from_user_data ud =
     result_bind (position_ticks ud) (\<lambda>p. Inr (with_hidden ud
       [(''played'', PBool (truthy (pget ud ''Played''))), (''last_played'', pget ud ''LastPlayedDate''),
        (''position'', PInt p)]))"

text \<open>\<open>int(state.get("position") or 0)\<close>.\<close>

definition state_position :: "pdict \<Rightarrow> exn + int" where
  "state_position state = py_int (py_or (pget state ''position'') (PInt 0))"

definition should_replace_resume_state :: "pdict \<Rightarrow> pdict \<Rightarrow> exn + bool" where
  "should_replace_resume_state existing current =
     (if existing = [] then Inr True
      else result_bind (state_position current) (\<lambda>cp.
        result_bind (state_position existing) (\<lambda>ep. Inr (
          (cp \<noteq> 0 \<and> (ep = 0 \<or> cp > ep))
          \<or> (cp = ep \<and> truthy (pget current ''hide_from_resume'') \<and> \<not> truthy (pget existing ''hide_from_resume''))))))"

text \<open>The later of two differing dates, when both can be read, for states at the same position.\<close>

definition newer_date :: "pdict \<Rightarrow> pdict \<Rightarrow> exn + pdict" where
  "newer_date existing current =
     result_bind (last_played_differs (pget current ''last_played'') (pget existing ''last_played'')) (\<lambda>differs.
       if \<not> differs then Inr existing
       else result_bind (both_instants (pget current ''last_played'') (pget existing ''last_played'')) (\<lambda>r. Inr (
         case r of
           Some (c, e) \<Rightarrow> if c > e then dset ''last_played'' (pget current ''last_played'') existing else existing
         | None \<Rightarrow> existing)))"

definition merge_hidden :: "pdict \<Rightarrow> pdict \<Rightarrow> pdict \<Rightarrow> pdict" where
  "merge_hidden existing current merged =
     (if truthy (pget existing ''hide_from_resume'') \<or> truthy (pget current ''hide_from_resume'')
      then dset ''hide_from_resume'' (PBool True) merged
      else if has_key ''hide_from_resume'' existing \<or> has_key ''hide_from_resume'' current
      then dset ''hide_from_resume'' (PBool False) merged
      else merged)"

definition merge_bootstrap_resume_state :: "pdict option \<Rightarrow> pdict \<Rightarrow> exn + pdict" where
  "merge_bootstrap_resume_state existing current =
     (case existing of
        None \<Rightarrow> Inr current
      | Some e \<Rightarrow>
          if e = [] then Inr current
          else result_bind (state_position e) (\<lambda>ep. result_bind (state_position current) (\<lambda>cp.
            result_bind
              (if cp > ep then Inr current else if cp = ep then newer_date e current else Inr e)
              (\<lambda>merged. Inr (merge_hidden e current merged)))))"

subsection \<open>The items of a target, by id\<close>

type_synonym items_by_id = "(string, pdict) dict"

definition fill_missing :: "pdict \<Rightarrow> pdict \<Rightarrow> pdict" where
  "fill_missing existing_ud ud =
     foldl (\<lambda>ud (k, v). if pget ud k = PNone \<or> pget ud k = PStr [] then dset k v ud else ud) ud existing_ud"

definition upsert_preserving_user_data :: "items_by_id \<Rightarrow> pdict \<Rightarrow> items_by_id" where
  "upsert_preserving_user_data by_id item =
     (if item_id item = [] then by_id
      else
        let item' =
          (case map_of by_id (item_id item) of
             None \<Rightarrow> item
           | Some existing \<Rightarrow>
               (case (py_or (pget existing ''UserData'') (PDict []), dget_default item ''UserData'' (PDict [])) of
                  (PDict eud, PDict iud) \<Rightarrow> dset ''UserData'' (PDict (fill_missing eud iud)) item
                | (_, iud) \<Rightarrow> dset ''UserData'' iud item))
        in dset (item_id item) item' by_id)"

definition index_items :: "pdict list \<Rightarrow> items_by_id" where
  "index_items items = foldl (\<lambda>d it. if item_id it = [] then d else dset (item_id it) it d) [] items"

subsection \<open>Items by fallback key\<close>

record fallback_caches =
  fc_series :: "(string, pdict list) dict"
  fc_seasons :: "(string \<times> string, pdict list) dict"

definition is_named_series :: "string \<Rightarrow> pdict \<Rightarrow> bool" where
  "is_named_series series_name item \<longleftrightarrow>
     normalize_string (py_or (pget item ''Name'') (pget item ''SortName'')) = series_name
     \<or> normalize_string (pget item ''OriginalTitle'') = series_name"

text \<open>The items of one unpaged read, or its error.\<close>

definition read_items ::
  "string \<Rightarrow> emby_net \<Rightarrow> pdict \<Rightarrow> string \<Rightarrow> pdict \<Rightarrow> (py + pdict list) act" where
  "read_items unexpected net server path params =
     andthen (emby_get net server path params) (\<lambda>(success, payload).
       if \<not> success then ret (Inl payload)
       else case payload of
         PDict d \<Rightarrow> andthen (lift (items_of d)) (\<lambda>items. ret (Inr items))
       | _ \<Rightarrow> ret (Inl (PStr unexpected)))"

definition keep_matching :: "string \<Rightarrow> pdict \<Rightarrow> pdict list \<Rightarrow> exn + pdict list" where
  "keep_matching key item matches =
     result_bind (get_item_sync_keys item) (\<lambda>keys. Inr (if key \<in> set keys then matches @ [item] else matches))"

definition keep_episode :: "string \<Rightarrow> string \<Rightarrow> string \<Rightarrow> pdict \<Rightarrow> pdict list \<Rightarrow> exn + pdict list" where
  "keep_episode key season episode item matches =
     (if text_or_empty (pget item ''ParentIndexNumber'') \<noteq> season
         \<or> text_or_empty (pget item ''IndexNumber'') \<noteq> episode then Inr matches
      else keep_matching key item matches)"

type_synonym fallback_result = "items_result \<times> fallback_caches"

definition match_in_series ::
  "emby_net \<Rightarrow> pdict \<Rightarrow> string \<Rightarrow> string \<Rightarrow> string \<Rightarrow> string \<Rightarrow> pdict \<Rightarrow> pdict list \<times> fallback_caches
    \<Rightarrow> (fallback_result + pdict list \<times> fallback_caches) act" where
  "match_in_series net server user_id key season episode series acc =
     (case acc of (matches, caches) \<Rightarrow>
        if item_id series = [] then ret (Inr (matches, caches))
        else andthen
          (case map_of (fc_seasons caches) (item_id series, season) of
             Some episodes \<Rightarrow> ret (Inr episodes)
           | None \<Rightarrow> read_items ''Risposta Episodes inattesa'' net server (''Shows/'' @ item_id series @ ''/Episodes'')
               [(''UserId'', PStr user_id), (''Season'', PStr season), (''Fields'', PStr user_item_fields)])
          (\<lambda>r. case r of
             Inl err \<Rightarrow> ret (Inl (([], err), caches))
           | Inr episodes \<Rightarrow>
               andthen (for_each (\<lambda>e m. lift (keep_episode key season episode e m)) episodes matches) (\<lambda>matches.
                 ret (Inr (matches,
                   caches\<lparr>fc_seasons := dset (item_id series, season) episodes (fc_seasons caches)\<rparr>)))))"

definition fetch_episode_items_by_fallback_key ::
  "emby_net \<Rightarrow> pdict \<Rightarrow> string \<Rightarrow> string \<Rightarrow> string \<times> string \<times> string \<Rightarrow> fallback_caches \<Rightarrow> fallback_result act" where
  "fetch_episode_items_by_fallback_key net server user_id key parsed caches =
     (case parsed of (series_name, season, episode) \<Rightarrow>
        andthen
          (case map_of (fc_series caches) series_name of
             Some series \<Rightarrow> ret (Inr series)
           | None \<Rightarrow> andthen
               (read_items ''Risposta Series inattesa'' net server (user_items_path user_id)
                  [(''Recursive'', PStr ''true''), (''IncludeItemTypes'', PStr ''Series''),
                   (''SearchTerm'', PStr series_name),
                   (''Fields'', PStr ''ProviderIds,UserData,Name,SortName,OriginalTitle''), (''Limit'', PInt 100)])
               (\<lambda>r. ret (map_sum id (filter (is_named_series series_name)) r)))
          (\<lambda>r. case r of
             Inl err \<Rightarrow> ret (([], err), caches)
           | Inr series \<Rightarrow>
               andthen (for_until (match_in_series net server user_id key season episode) series
                   ([], caches\<lparr>fc_series := dset series_name series (fc_series caches)\<rparr>))
                 (\<lambda>r. ret (case r of Inl failed \<Rightarrow> failed | Inr (matches, caches) \<Rightarrow> ((matches, PNone), caches)))))"

definition fetch_movie_items_by_fallback_key ::
  "emby_net \<Rightarrow> pdict \<Rightarrow> string \<Rightarrow> string \<Rightarrow> string \<times> string \<Rightarrow> items_result act" where
  "fetch_movie_items_by_fallback_key net server user_id key parsed =
     andthen
       (read_items ''Risposta Movie inattesa'' net server (user_items_path user_id)
          [(''Recursive'', PStr ''true''), (''IncludeItemTypes'', PStr ''Movie''),
           (''SearchTerm'', PStr (fst parsed)), (''Fields'', PStr user_item_fields), (''Limit'', PInt 50)])
       (\<lambda>r. case r of
          Inl err \<Rightarrow> ret ([], err)
        | Inr items \<Rightarrow> andthen (for_each (\<lambda>i m. lift (keep_matching key i m)) items []) (\<lambda>m. ret (m, PNone)))"

definition fetch_items_by_fallback_key ::
  "emby_net \<Rightarrow> pdict \<Rightarrow> string \<Rightarrow> string \<Rightarrow> fallback_caches \<Rightarrow> fallback_result act" where
  "fetch_items_by_fallback_key net server user_id key caches =
     (case parse_fallback_episode_key key of
        Some parsed \<Rightarrow> fetch_episode_items_by_fallback_key net server user_id key parsed caches
      | None \<Rightarrow>
          (case parse_fallback_movie_key key of
             Some parsed \<Rightarrow>
               andthen (fetch_movie_items_by_fallback_key net server user_id key parsed) (\<lambda>r. ret (r, caches))
           | None \<Rightarrow> ret (([], PNone), caches)))"

definition add_new_items :: "pdict list \<Rightarrow> items_by_id \<Rightarrow> items_by_id" where
  "add_new_items items by_id =
     foldl (\<lambda>d it. if item_id it = [] \<or> map_of d (item_id it) \<noteq> None then d else dset (item_id it) it d) by_id items"

text \<open>The items of the target with those of the fallback keys added, or the error.\<close>

definition add_items_matching_fallback_keys ::
  "emby_net \<Rightarrow> pdict \<Rightarrow> string \<Rightarrow> items_by_id \<Rightarrow> string list \<Rightarrow> (py + items_by_id) act" where
  "add_items_matching_fallback_keys net server user_id by_id keys =
     andthen
       (for_until
          (\<lambda>key (by_id, caches).
             andthen (fetch_items_by_fallback_key net server user_id key caches) (\<lambda>((matches, err), caches).
               ret (if truthy err then Inl err else Inr (add_new_items matches by_id, caches))))
          (n_order net keys) (by_id, \<lparr>fc_series = [], fc_seasons = []\<rparr>))
       (\<lambda>r. ret (map_sum id fst r))"

subsection \<open>The scan of unplayed media\<close>

definition scan_complete :: "pdict list \<Rightarrow> py \<Rightarrow> nat \<Rightarrow> exn + bool" where
  "scan_complete page count start_index =
     (if count = PNone then Inr (length page < 200)
      else result_bind (at_least (start_index + length page) count) (\<lambda>b. Inr (b \<or> page = [])))"

definition fetch_all_media_for_user :: "emby_net \<Rightarrow> pdict \<Rightarrow> string \<Rightarrow> items_result act" where
  "fetch_all_media_for_user net server user_id =
     fetch_pages net server (user_items_path user_id)
       (\<lambda>start. [(''Recursive'', PStr ''true''), (''Fields'', PStr user_item_fields),
                 (''IncludeItemTypes'', PStr ''Movie,Episode''), (''IsPlayed'', PStr ''false''),
                 (''StartIndex'', PStr (str_nat start)), (''Limit'', PStr ''200'')])
       scan_complete 0 (new_guard max_emby_pages max_emby_items) []"

definition max_playstate_fallback_lookups :: nat where
  "max_playstate_fallback_lookups = 50"

definition limit_fallback_items :: "'a list \<Rightarrow> 'a list" where
  "limit_fallback_items items = take max_playstate_fallback_lookups items"

subsection \<open>Writing the hidden flag\<close>

definition write_error :: "string \<Rightarrow> py \<Rightarrow> string \<Rightarrow> string" where
  "write_error item err default_text = item @ '': '' @ text_or err default_text"

text \<open>Whether the flag was changed, and the errors with the one this write gave.\<close>

definition apply_hide_from_resume ::
  "emby_net \<Rightarrow> pdict \<Rightarrow> string \<Rightarrow> string \<Rightarrow> pdict \<Rightarrow> pdict \<Rightarrow> string list \<Rightarrow> (bool \<times> string list) act" where
  "apply_hide_from_resume net server user_id item desired current_ud errors =
     (let hidden = truthy (pget desired ''hide_from_resume'') in
      if \<not> has_key ''hide_from_resume'' desired \<or> hide_from_resume_of current_ud = Some hidden
      then ret (False, errors)
      else andthen (set_item_hide_from_resume net server user_id item hidden) (\<lambda>(success, err). ret (
        if success then (True, errors)
        else (False, errors @ [write_error item err ''HideFromResume update failed'']))))"

lemma reads_only_fallback_keys [emits_rules]:
  "reads_only (add_items_matching_fallback_keys net server user_id by_id keys)"
  unfolding add_items_matching_fallback_keys_def fetch_items_by_fallback_key_def
    fetch_episode_items_by_fallback_key_def fetch_movie_items_by_fallback_key_def
    match_in_series_def read_items_def
  by (intro emits_rules)

lemma reads_only_all_media [emits_rules]: "reads_only (fetch_all_media_for_user net server user_id)"
  unfolding fetch_all_media_for_user_def by (intro emits_rules)

end
