(* ===== verification/Play_Sync.thy ===== *)
theory Play_Sync
  imports Play_State
begin

text \<open>
  Bringing a target user to a wanted playback state: the exact copy of a source user
  (\<open>emby_users/playstate_exact.py\<close>) and the application of a resolved state map
  (\<open>emby_users/playstate_state.py\<close>).  Both read the target, complete it with the items the wanted
  keys find there, and walk its items; \<open>reconcile_item\<close> is the body the two loops share.  An absent
  match is the empty dictionary, which is false in Python as \<open>None\<close> is.  The clock and the log
  are not modelled.
\<close>

subsection \<open>Results\<close>

record apply_counts =
  ac_updated :: nat
  ac_resume :: nat
  ac_cleared :: nat
  ac_errors :: "string list"

record sync_result =
  sr_success :: "string list"
  sr_failed :: "string list"
  sr_counts :: "(string, nat) dict"
  sr_resume_counts :: "(string, nat) dict"
  sr_cleared_counts :: "(string, nat) dict"
  sr_error :: "string option"

definition empty_result :: sync_result where
  "empty_result = \<lparr>sr_success = [], sr_failed = [], sr_counts = [], sr_resume_counts = [],
     sr_cleared_counts = [], sr_error = None\<rparr>"

definition error_result :: "string \<Rightarrow> sync_result" where
  "error_result message = empty_result\<lparr>sr_error := Some message\<rparr>"

definition note_failed :: "string \<Rightarrow> sync_result \<Rightarrow> sync_result" where
  "note_failed text r = r\<lparr>sr_failed := sr_failed r @ [text]\<rparr>"

definition record_target_write_result :: "string \<Rightarrow> string list \<Rightarrow> sync_result \<Rightarrow> sync_result" where
  "record_target_write_result label write_errors r =
     (if write_errors \<noteq> []
      then note_failed (label @ '': '' @ str_nat (length write_errors) @ '' update(s) failed'') r
      else r\<lparr>sr_success := sr_success r @ [label]\<rparr>)"

text \<open>\<open>_get_server_by_id\<close>, false when the server is unknown or empty, and the label of a server.\<close>

type_synonym servers = "string \<Rightarrow> pdict"

definition target_label :: "pdict \<Rightarrow> string" where
  "target_label server = py_str (py_or (py_or (pget server ''alias'') (pget server ''name'')) (pget server ''id''))"

subsection \<open>One item\<close>

definition no_counts :: apply_counts where
  "no_counts = \<lparr>ac_updated = 0, ac_resume = 0, ac_cleared = 0, ac_errors = []\<rparr>"

definition note_error :: "string \<Rightarrow> apply_counts \<Rightarrow> apply_counts" where
  "note_error e c = c\<lparr>ac_errors := ac_errors c @ [e]\<rparr>"

definition unplay_item ::
  "emby_net \<Rightarrow> pdict \<Rightarrow> string \<Rightarrow> string \<Rightarrow> apply_counts \<Rightarrow> apply_counts act" where
  "unplay_item net server user_id item c =
     andthen (mark_item_unplayed net server user_id item) (\<lambda>(success, err). ret (
       if success then c\<lparr>ac_updated := ac_updated c + 1, ac_cleared := ac_cleared c + 1\<rparr>
       else note_error (write_error item err ''unplayed write failed'') c))"

definition play_item ::
  "emby_net \<Rightarrow> pdict \<Rightarrow> string \<Rightarrow> string \<Rightarrow> py \<Rightarrow> apply_counts \<Rightarrow> apply_counts act" where
  "play_item net server user_id item date c =
     andthen (mark_item_played net server user_id item date) (\<lambda>(success, err). ret (
       if success then c\<lparr>ac_updated := ac_updated c + 1\<rparr>
       else note_error (write_error item err ''played write failed'') c))"

text \<open>The resume write: whether it changed the position, and the errors.\<close>

definition resume_item ::
  "emby_net \<Rightarrow> pdict \<Rightarrow> string \<Rightarrow> string \<Rightarrow> py \<Rightarrow> py \<Rightarrow> bool \<Rightarrow> apply_counts \<Rightarrow> (bool \<times> apply_counts) act" where
  "resume_item net server user_id item position date preserve_played c =
     andthen (set_item_resume net server user_id item position date preserve_played) (\<lambda>(success, err). ret (
       if success then (True, c) else (False, note_error (write_error item err ''resume write failed'') c)))"

definition hide_item ::
  "emby_net \<Rightarrow> pdict \<Rightarrow> string \<Rightarrow> string \<Rightarrow> pdict \<Rightarrow> pdict \<Rightarrow> bool \<times> apply_counts \<Rightarrow> (bool \<times> apply_counts) act" where
  "hide_item net server user_id item desired ud acc =
     (case acc of (changed, c) \<Rightarrow>
        andthen (apply_hide_from_resume net server user_id item desired ud (ac_errors c)) (\<lambda>(hidden, errors).
          ret (hidden \<or> changed, c\<lparr>ac_errors := errors\<rparr>)))"

definition count_resume :: "bool \<times> apply_counts \<Rightarrow> apply_counts" where
  "count_resume acc =
     (case acc of (changed, c) \<Rightarrow>
        if changed then c\<lparr>ac_updated := ac_updated c + 1, ac_resume := ac_resume c + 1\<rparr> else c)"

text \<open>An item of the target that the wanted state does not have.\<close>

definition clear_item ::
  "emby_net \<Rightarrow> pdict \<Rightarrow> string \<Rightarrow> bool \<Rightarrow> string \<Rightarrow> string list \<Rightarrow> pdict \<Rightarrow> int \<Rightarrow> apply_counts \<Rightarrow> apply_counts act" where
  "clear_item net server user_id include_resume item keys ud position c =
     andthen
       (if truthy (pget ud ''Played'') \<and> keys \<noteq> [] then unplay_item net server user_id item c else ret c)
       (\<lambda>c. if \<not> include_resume then ret c
            else andthen
              (if position \<noteq> 0 then resume_item net server user_id item (PInt 0) PNone False c else ret (False, c))
              (\<lambda>acc. andthen (hide_item net server user_id item [(''hide_from_resume'', PBool True)] ud acc)
                (\<lambda>acc. ret (count_resume acc))))"

definition apply_played ::
  "emby_net \<Rightarrow> pdict \<Rightarrow> string \<Rightarrow> string \<Rightarrow> pdict \<Rightarrow> pdict \<Rightarrow> apply_counts \<Rightarrow> apply_counts act" where
  "apply_played net server user_id item m ud c =
     (let target_played = truthy (pget ud ''Played'') in
      if truthy (pget m ''played'')
      then andthen
        (lift (if \<not> target_played then Inr True
               else last_played_differs (pget m ''last_played'') (pget ud ''LastPlayedDate'')))
        (\<lambda>needed. if needed then play_item net server user_id item (pget m ''last_played'') c else ret c)
      else if target_played then unplay_item net server user_id item c
      else ret c)"

definition resume_needed :: "bool \<Rightarrow> int \<Rightarrow> int \<Rightarrow> bool \<Rightarrow> bool" where
  "resume_needed preserve_played current_position desired_position date_changed \<longleftrightarrow>
     current_position \<noteq> desired_position
     \<or> (if preserve_played then desired_position > 0 \<and> date_changed else date_changed)"

definition apply_resume ::
  "emby_net \<Rightarrow> pdict \<Rightarrow> string \<Rightarrow> string \<Rightarrow> pdict \<Rightarrow> pdict \<Rightarrow> int \<Rightarrow> apply_counts \<Rightarrow> apply_counts act" where
  "apply_resume net server user_id item m ud position c =
     andthen (lift (state_position m)) (\<lambda>desired.
     andthen (lift (last_played_differs (pget m ''last_played'') (pget ud ''LastPlayedDate''))) (\<lambda>date_changed.
       let preserve_played = truthy (pget m ''played'') in
       andthen
         (if resume_needed preserve_played position desired date_changed
          then resume_item net server user_id item (PInt desired) (pget m ''last_played'') preserve_played c
          else ret (False, c))
         (\<lambda>acc. andthen
            (if \<not> preserve_played \<or> desired > 0 \<or> position > 0
             then hide_item net server user_id item m ud acc else ret acc)
            (\<lambda>acc. ret (count_resume acc)))))"

definition reconcile_item ::
  "emby_net \<Rightarrow> pdict \<Rightarrow> string \<Rightarrow> bool \<Rightarrow> string \<Rightarrow> string list \<Rightarrow> pdict \<Rightarrow> pdict \<Rightarrow> apply_counts \<Rightarrow> apply_counts act" where
  "reconcile_item net server user_id include_resume item keys m ud c =
     andthen (lift (position_ticks ud)) (\<lambda>position.
       if m = [] then clear_item net server user_id include_resume item keys ud position c
       else andthen (apply_played net server user_id item m ud c) (\<lambda>c.
         if include_resume then apply_resume net server user_id item m ud position c else ret c))"

text \<open>The first of the item's keys that the wanted state has.\<close>

definition first_match :: "(string, pdict) dict \<Rightarrow> string list \<Rightarrow> pdict \<Rightarrow> pdict" where
  "first_match wanted keys otherwise =
     (case filter (\<lambda>k. map_of wanted k \<noteq> None) keys of
        [] \<Rightarrow> otherwise
      | k # _ \<Rightarrow> dget_default wanted k otherwise)"

definition reconcile_with ::
  "emby_net \<Rightarrow> pdict \<Rightarrow> string \<Rightarrow> bool \<Rightarrow> (string, pdict) dict \<Rightarrow> pdict \<Rightarrow> pdict \<Rightarrow> apply_counts \<Rightarrow> apply_counts act" where
  "reconcile_with net server user_id include_resume wanted otherwise item c =
     andthen (lift (get_item_sync_keys item)) (\<lambda>keys.
     andthen (lift (user_data_or item)) (\<lambda>ud.
       reconcile_item net server user_id include_resume (item_id item) keys (first_match wanted keys otherwise) ud c))"

subsection \<open>One target\<close>

definition add_to_set :: "string \<Rightarrow> string list \<Rightarrow> string list" where
  "add_to_set k s = (if k \<in> set s then s else s @ [k])"

definition read_target ::
  "emby_net \<Rightarrow> pdict \<Rightarrow> string \<Rightarrow> bool \<Rightarrow> string list \<Rightarrow> string list \<Rightarrow> (string + items_by_id) act" where
  "read_target net server user_id include_resume provider_keys fallback_keys =
     andthen (fetch_user_items_for_sync net server user_id include_resume) (\<lambda>(items, err).
       if truthy err then ret (Inl ''Fetch error'')
       else andthen
         (if provider_keys = [] then ret (Inr (index_items items))
          else andthen (fetch_items_by_provider_ids net server user_id (n_order net provider_keys) True default_item_types)
            (\<lambda>(found, err). ret (
               if truthy err then Inl ''Provider lookup error''
               else Inr (foldl upsert_preserving_user_data (index_items items) found))))
         (\<lambda>r. case r of
            Inl e \<Rightarrow> ret (Inl e)
          | Inr by_id \<Rightarrow>
              andthen
                (if fallback_keys = [] then ret (Inr by_id)
                 else add_items_matching_fallback_keys net server user_id by_id fallback_keys)
                (\<lambda>r. ret (map_sum (\<lambda>e. ''Fallback scan error'') id r))))"

definition record_target :: "string \<Rightarrow> apply_counts \<Rightarrow> sync_result \<Rightarrow> sync_result" where
  "record_target label c r =
     (let r = record_target_write_result label (ac_errors c) r
      in r\<lparr>sr_counts := dset label (ac_updated c) (sr_counts r),
           sr_resume_counts := dset label (ac_resume c) (sr_resume_counts r),
           sr_cleared_counts := dset label (ac_cleared c) (sr_cleared_counts r)\<rparr>)"

subsection \<open>Applying a state map\<close>

definition state_items ::
  "emby_net \<Rightarrow> pdict \<Rightarrow> string \<Rightarrow> bool \<Rightarrow> (string, pdict) dict \<Rightarrow> items_by_id \<Rightarrow> apply_counts act" where
  "state_items net server user_id include_resume desired_state by_id =
     for_each (\<lambda>item c. if item_id item = [] then ret c
         else reconcile_with net server user_id include_resume desired_state [] item c)
       (map snd by_id) no_counts"

definition state_target ::
  "emby_net \<Rightarrow> servers \<Rightarrow> bool \<Rightarrow> (string, pdict) dict \<Rightarrow> string \<times> string \<Rightarrow> sync_result \<Rightarrow> sync_result act" where
  "state_target net servers include_resume desired_state target r =
     (case target of (server_id, user_id) \<Rightarrow>
        let server = servers server_id; label = target_label server in
        if server = [] then ret (note_failed (''Server '' @ server_id @ '' not found'') r)
        else andthen
          (read_target net server user_id include_resume
             (filter is_provider_key (dkeys desired_state)) (filter (\<lambda>k. \<not> is_provider_key k) (dkeys desired_state)))
          (\<lambda>read. case read of
             Inl e \<Rightarrow> ret (note_failed (label @ '': '' @ e) r)
           | Inr by_id \<Rightarrow>
               andthen (state_items net server user_id include_resume desired_state by_id) (\<lambda>c.
                 ret (record_target label c r))))"

definition sync_user_playstate_to_state ::
  "emby_net \<Rightarrow> servers \<Rightarrow> (string, pdict) dict \<Rightarrow> (string \<times> string) list \<Rightarrow> bool \<Rightarrow> sync_result act" where
  "sync_user_playstate_to_state net servers desired_state targets include_resume =
     for_each (state_target net servers include_resume desired_state) targets empty_result"

subsection \<open>The exact copy\<close>

text \<open>What is collected from the source: the state by key, the provider keys and the fallback keys,
  and the items without a key with their state.\<close>

record exact_source =
  es_state :: "(string, pdict) dict"
  es_provider :: "string list"
  es_fallback :: "string list"
  es_unkeyed :: "(pdict \<times> pdict) list"

definition add_exact_key :: "pdict \<Rightarrow> string \<Rightarrow> exact_source \<Rightarrow> exact_source" where
  "add_exact_key state key s =
     (let s = s\<lparr>es_state := dset key state (es_state s)\<rparr>
      in if is_provider_key key then s\<lparr>es_provider := add_to_set key (es_provider s)\<rparr>
         else s\<lparr>es_fallback := add_to_set key (es_fallback s)\<rparr>)"

definition add_exact_item :: "bool \<Rightarrow> pdict \<Rightarrow> exact_source \<Rightarrow> exn + exact_source" where
  "add_exact_item include_resume item s =
     result_bind (get_item_sync_keys item) (\<lambda>keys.
     result_bind (user_data_or item) (\<lambda>ud.
     result_bind (playstate_state_from_user_data ud) (\<lambda>state. Inr (
       if keys = [] then
         if item_type item \<noteq> PStr ''Episode''
            \<and> (truthy (pget state ''played'') \<or> include_resume \<and> truthy (pget state ''position''))
         then s\<lparr>es_unkeyed := es_unkeyed s @ [(item, state)]\<rparr> else s
       else foldl (\<lambda>s k. add_exact_key state k s) s keys))))"

text \<open>The lookups of the items without a key: the items found, and the state each is to get.\<close>

definition add_fallback_found :: "pdict \<Rightarrow> pdict list \<Rightarrow> items_by_id \<times> items_by_id \<Rightarrow> items_by_id \<times> items_by_id" where
  "add_fallback_found state found acc =
     foldl (\<lambda>(by_id, states) it. if item_id it = [] then (by_id, states)
       else (dset (item_id it) it by_id, dset (item_id it) state states)) acc found"

definition exact_fallbacks ::
  "emby_net \<Rightarrow> pdict \<Rightarrow> string \<Rightarrow> (pdict \<times> pdict) list \<Rightarrow> items_by_id \<Rightarrow> (unit + items_by_id \<times> items_by_id) act" where
  "exact_fallbacks net server user_id unkeyed by_id =
     for_until (\<lambda>(source_item, state) acc.
         andthen (fetch_items_by_safe_fallback net server user_id source_item) (\<lambda>(found, err). ret (
           if truthy err then Inl () else Inr (add_fallback_found state found acc))))
       (limit_fallback_items unkeyed) (by_id, [])"

definition exact_items ::
  "emby_net \<Rightarrow> pdict \<Rightarrow> string \<Rightarrow> bool \<Rightarrow> (string, pdict) dict \<Rightarrow> items_by_id \<Rightarrow> items_by_id \<Rightarrow> apply_counts act" where
  "exact_items net server user_id include_resume source_state states by_id =
     for_each (\<lambda>item c. if item_id item = [] then ret c
         else reconcile_with net server user_id include_resume source_state
           (dget_default states (item_id item) []) item c)
       (map snd by_id) no_counts"

definition exact_target ::
  "emby_net \<Rightarrow> servers \<Rightarrow> bool \<Rightarrow> exact_source \<Rightarrow> string \<times> string \<Rightarrow> sync_result \<Rightarrow> sync_result act" where
  "exact_target net servers include_resume src target r =
     (case target of (server_id, user_id) \<Rightarrow>
        let server = servers server_id; label = target_label server in
        if server = [] then ret (note_failed (''Server '' @ server_id @ '' not found'') r)
        else andthen (read_target net server user_id include_resume (es_provider src) (es_fallback src))
          (\<lambda>read. case read of
             Inl e \<Rightarrow> ret (note_failed (label @ '': '' @ e) r)
           | Inr by_id \<Rightarrow>
               andthen (exact_fallbacks net server user_id (es_unkeyed src) by_id) (\<lambda>found.
                 case found of
                   Inl u \<Rightarrow> ret (note_failed (label @ '': Fallback lookup error'') r)
                 | Inr (by_id, states) \<Rightarrow>
                     andthen (exact_items net server user_id include_resume (es_state src) states by_id) (\<lambda>c.
                       ret (record_target label c r)))))"

definition sync_user_playstate_exact ::
  "emby_net \<Rightarrow> servers \<Rightarrow> string \<Rightarrow> string \<Rightarrow> (string \<times> string) list \<Rightarrow> bool \<Rightarrow> sync_result act" where
  "sync_user_playstate_exact net servers source_server_id source_user_id targets include_resume =
     (let source = servers source_server_id in
      if source = [] then ret (error_result ''Source server not found'')
      else andthen (fetch_user_items_for_sync net source source_user_id include_resume) (\<lambda>(items, err).
        if truthy err then ret (error_result (''Failed to fetch source items: '' @ py_str err))
        else andthen
          (for_each (\<lambda>item s. lift (add_exact_item include_resume item s)) items
             \<lparr>es_state = [], es_provider = [], es_fallback = [], es_unkeyed = []\<rparr>)
          (\<lambda>src. for_each (exact_target net servers include_resume src) targets empty_result)))"

subsection \<open>When an item is written\<close>

text \<open>Every helper only appends requests.\<close>

abbreviation appends :: "'a act \<Rightarrow> bool" where
  "appends \<equiv> emits (\<lambda>r. True)"

lemma appends_call [emits_rules]: "appends (call_emby_api net server path m params json)"
  by (rule emits_call) simp

lemma appends_writes [emits_rules]:
  "appends (mark_item_played net server user_id item date)"
  "appends (mark_item_unplayed net server user_id item)"
  "appends (set_item_resume net server user_id item position date preserve)"
  "appends (set_item_hide_from_resume net server user_id item hide)"
  unfolding mark_item_played_def mark_item_unplayed_def set_item_resume_def set_item_hide_from_resume_def missing_ids_def
  by (intro emits_rules; fail)+

lemma appends_item_writes [emits_rules]:
  "appends (play_item net server user_id item date c)"
  "appends (unplay_item net server user_id item c)"
  "appends (resume_item net server user_id item position date preserve c)"
  "appends (hide_item net server user_id item desired ud acc)"
  unfolding play_item_def unplay_item_def resume_item_def hide_item_def apply_hide_from_resume_def
  by (intro emits_rules; fail)+

definition writable :: "pdict \<Rightarrow> string \<Rightarrow> string \<Rightarrow> bool" where
  "writable server user_id item \<longleftrightarrow> reachable server \<and> user_id \<noteq> [] \<and> item \<noteq> []"

lemma sends_item_writes:
  assumes "writable server user_id item"
  shows "sends (unplay_item net server user_id item c)"
    and "sends (play_item net server user_id item date c)"
    and "position \<noteq> PNone \<Longrightarrow> sends (resume_item net server user_id item position date preserve c)"
    and "sends (set_item_hide_from_resume net server user_id item hide)"
proof -
  note rules = sends_first [where P = "\<lambda>r. True"] sends_lift sends_call emits_rules
  have t: "reachable server" "user_id \<noteq> []" "item \<noteq> []" using assms by (simp_all add: writable_def)
  show "sends (unplay_item net server user_id item c)"
    unfolding unplay_item_def mark_item_unplayed_def using t by (auto intro!: rules)
  show "sends (play_item net server user_id item date c)"
    unfolding play_item_def mark_item_played_def using t by (auto intro!: rules)
  show "position \<noteq> PNone \<Longrightarrow> sends (resume_item net server user_id item position date preserve c)"
    unfolding resume_item_def set_item_resume_def using t by (auto intro!: rules)
  show "sends (set_item_hide_from_resume net server user_id item hide)"
    unfolding set_item_hide_from_resume_def using t by (auto intro!: rules)
qed

lemma hide_item_sends_iff:
  assumes "writable server user_id item" "hide_item net server user_id item desired ud acc sent = (Inr r, sent')"
  shows "sent' = sent \<longleftrightarrow> \<not> has_key ''hide_from_resume'' desired
      \<or> hide_from_resume_of ud = Some (truthy (pget desired ''hide_from_resume''))"
    and "sent' = sent \<Longrightarrow> r = acc"
proof -
  obtain changed c where acc: "acc = (changed, c)" by (cases acc)
  let ?idle = "\<not> has_key ''hide_from_resume'' desired
      \<or> hide_from_resume_of ud = Some (truthy (pget desired ''hide_from_resume''))"
  have idle: "sent' = sent \<and> r = acc" if ?idle
    using that assms(2) by (auto simp: hide_item_def acc apply_hide_from_resume_def)
  have busy: "sent' \<noteq> sent" if "\<not> ?idle"
  proof -
    have "sends (hide_item net server user_id item desired ud acc)"
      unfolding hide_item_def acc prod.case apply_hide_from_resume_def Let_def if_not_P [OF that]
      by (intro sends_first [where P = "\<lambda>r. True"] sends_item_writes(4) [OF assms(1)] emits_rules)
    with assms(2) show ?thesis by (rule sendsD [rotated])
  qed
  from idle busy show "sent' = sent \<longleftrightarrow> ?idle" by blast
  from idle busy show "sent' = sent \<Longrightarrow> r = acc" by blast
qed

text \<open>
  The specification of the loop's body: what the target's user data must say for nothing to be
  written.  \<open>desired\<close> and \<open>changed\<close> are the wanted position and whether the wanted date differs.
\<close>

definition hidden_agrees :: "pdict \<Rightarrow> pdict \<Rightarrow> bool" where
  "hidden_agrees m ud \<longleftrightarrow>
     \<not> has_key ''hide_from_resume'' m \<or> hide_from_resume_of ud = Some (truthy (pget m ''hide_from_resume''))"

definition item_agrees :: "bool \<Rightarrow> string list \<Rightarrow> pdict \<Rightarrow> pdict \<Rightarrow> int \<Rightarrow> int \<Rightarrow> bool \<Rightarrow> bool" where
  "item_agrees include_resume keys m ud position desired changed \<longleftrightarrow>
     (let target = truthy (pget ud ''Played''); played = truthy (pget m ''played'') in
      if m = []
      then (target \<longrightarrow> keys = [])
        \<and> (include_resume \<longrightarrow> position = 0 \<and> hide_from_resume_of ud = Some True)
      else target = played \<and> (played \<longrightarrow> \<not> changed)
        \<and> (include_resume \<longrightarrow> position = desired \<and> (\<not> played \<longrightarrow> \<not> changed)
            \<and> (\<not> played \<or> desired > 0 \<longrightarrow> hidden_agrees m ud)))"

lemma andthen_cases:
  assumes "andthen m f sent = (Inr y, sent')"
  obtains x mid where "m sent = (Inr x, mid)" "f x mid = (Inr y, sent')"
  using assms unfolding andthen_Inr_iff by blast

lemma apply_played_iff:
  assumes "writable server user_id item" "apply_played net server user_id item m ud c sent = (Inr r, sent')"
    and "last_played_differs (pget m ''last_played'') (pget ud ''LastPlayedDate'') = Inr changed"
  shows "sent' = sent \<longleftrightarrow> truthy (pget ud ''Played'') = truthy (pget m ''played'')
      \<and> (truthy (pget m ''played'') \<longrightarrow> \<not> changed)"
    and "sent' = sent \<Longrightarrow> r = c"
  using assms(2,3) sends_irrefl [OF sends_item_writes(1) [OF assms(1)]] sends_irrefl [OF sends_item_writes(2) [OF assms(1)]]
  by (auto simp: apply_played_def Let_def split: if_splits)

lemma emits_prefix: "appends m \<Longrightarrow> m sent = (r, sent') \<Longrightarrow> \<exists>rs. sent' = sent @ rs"
  unfolding emits_def by (metis snd_conv)

text \<open>Nothing was sent at the end exactly when no step sent anything.\<close>

lemma sent_nothing:
  assumes "appends m" "appends n" "m sent = (Inr x, mid)" "n mid = (r, sent')"
  shows "sent' = sent \<longleftrightarrow> mid = sent \<and> sent' = mid"
  using emits_prefix [OF assms(1,3)] emits_prefix [OF assms(2,4)] by auto

lemma emits_count_resume [emits_rules]: "appends (andthen m (\<lambda>acc. ret (count_resume acc)))" if "appends m"
  using that by (intro emits_rules)

lemma count_resume_False [simp]: "count_resume (False, c) = c"
  by (simp add: count_resume_def)

text \<open>The resume position and the hidden flag, in the shape both loops' bodies end with.\<close>

lemma resume_then_hide_iff:
  assumes "writable server user_id item" "position \<noteq> PNone"
    and run: "andthen (if write then resume_item net server user_id item position date preserve c else ret (False, c))
      (\<lambda>acc. andthen (if hide then hide_item net server user_id item desired ud acc else ret acc)
        (\<lambda>acc. ret (count_resume acc))) sent = (Inr r, sent')"
  shows "sent' = sent \<longleftrightarrow> \<not> write \<and> (hide \<longrightarrow> hidden_agrees desired ud)"
    and "sent' = sent \<Longrightarrow> r = c"
proof -
  have a: "appends (if write then resume_item net server user_id item position date preserve c else ret (False, c))"
    by (intro emits_rules)
  have b: "appends (andthen (if hide then hide_item net server user_id item desired ud acc else ret acc)
      (\<lambda>acc. ret (count_resume acc)))" for acc
    by (intro emits_rules)
  from run obtain acc mid where first:
      "(if write then resume_item net server user_id item position date preserve c else ret (False, c)) sent = (Inr acc, mid)"
    and last: "andthen (if hide then hide_item net server user_id item desired ud acc else ret acc)
      (\<lambda>acc. ret (count_resume acc)) mid = (Inr r, sent')"
    by (rule andthen_cases)
  from last obtain acc' where hid:
      "(if hide then hide_item net server user_id item desired ud acc else ret acc) mid = (Inr acc', sent')"
    and r: "r = count_resume acc'"
    by (auto simp: andthen_Inr_iff)
  have w: "mid = sent \<longleftrightarrow> \<not> write" "\<not> write \<Longrightarrow> acc = (False, c)"
    using first sends_irrefl [OF sends_item_writes(3) [OF assms(1,2)]] by (cases acc; auto split: if_splits)+
  have h: "sent' = mid \<longleftrightarrow> (hide \<longrightarrow> hidden_agrees desired ud)" "sent' = mid \<Longrightarrow> acc' = acc"
    using hid hide_item_sends_iff [OF assms(1)] by (auto simp: hidden_agrees_def split: if_splits)
  show "sent' = sent \<longleftrightarrow> \<not> write \<and> (hide \<longrightarrow> hidden_agrees desired ud)"
    using sent_nothing [OF a b first last] w(1) h(1) by blast
  show "sent' = sent \<Longrightarrow> r = c"
    using sent_nothing [OF a b first last] w h(2) r by auto
qed

lemma clear_item_iff:
  assumes "writable server user_id item"
    and run: "clear_item net server user_id include_resume item keys ud position c sent = (Inr r, sent')"
  shows "sent' = sent \<longleftrightarrow> item_agrees include_resume keys [] ud position desired changed"
    and "sent' = sent \<Longrightarrow> r = c"
proof -
  let ?first = "if truthy (pget ud ''Played'') \<and> keys \<noteq> [] then unplay_item net server user_id item c else ret c"
  let ?rest = "\<lambda>c. andthen
      (if position \<noteq> 0 then resume_item net server user_id item (PInt 0) PNone False c else ret (False, c))
      (\<lambda>acc. andthen (if True then hide_item net server user_id item [(''hide_from_resume'', PBool True)] ud acc else ret acc)
        (\<lambda>acc. ret (count_resume acc)))"
  have a: "appends ?first" by (intro emits_rules)
  have b: "appends (if \<not> include_resume then ret c else ?rest c)" for c by (intro emits_rules)
  have "andthen ?first (\<lambda>c. if \<not> include_resume then ret c else ?rest c) sent = (Inr r, sent')"
    using run unfolding clear_item_def by (simp only: if_True)
  then obtain c' mid where first: "?first sent = (Inr c', mid)"
    and last: "(if \<not> include_resume then ret c' else ?rest c') mid = (Inr r, sent')"
    by (rule andthen_cases)
  have w: "mid = sent \<longleftrightarrow> \<not> (truthy (pget ud ''Played'') \<and> keys \<noteq> [])" "mid = sent \<Longrightarrow> c' = c"
    using first sends_irrefl [OF sends_item_writes(1) [OF assms(1)]] by (auto split: if_splits)
  have hid: "hidden_agrees [(''hide_from_resume'', PBool True)] ud \<longleftrightarrow> hide_from_resume_of ud = Some True"
    by (simp add: hidden_agrees_def)
  have h: "sent' = mid \<longleftrightarrow> (include_resume \<longrightarrow> position = 0 \<and> hide_from_resume_of ud = Some True)"
      "sent' = mid \<Longrightarrow> r = c'"
  proof -
    have "include_resume \<Longrightarrow> ?rest c' mid = (Inr r, sent')" using last by simp
    note h = resume_then_hide_iff [OF assms(1) _ this, simplified hid]
    show "sent' = mid \<longleftrightarrow> (include_resume \<longrightarrow> position = 0 \<and> hide_from_resume_of ud = Some True)"
      using h(1) last by (cases include_resume) auto
    show "sent' = mid \<Longrightarrow> r = c'"
      using h(2) last by (cases include_resume) auto
  qed
  show "sent' = sent \<longleftrightarrow> item_agrees include_resume keys [] ud position desired changed"
    using sent_nothing [OF a b first last] w(1) h(1) by (auto simp: item_agrees_def Let_def)
  show "sent' = sent \<Longrightarrow> r = c"
    using sent_nothing [OF a b first last] w(2) h(2) by auto
qed

lemma apply_resume_iff:
  assumes "writable server user_id item" "apply_resume net server user_id item m ud position c sent = (Inr r, sent')"
    and "state_position m = Inr desired"
    and "last_played_differs (pget m ''last_played'') (pget ud ''LastPlayedDate'') = Inr changed"
  shows "sent' = sent \<longleftrightarrow> \<not> resume_needed (truthy (pget m ''played'')) position desired changed
      \<and> (\<not> truthy (pget m ''played'') \<or> desired > 0 \<or> position > 0 \<longrightarrow> hidden_agrees m ud)"
    and "sent' = sent \<Longrightarrow> r = c"
proof -
  let ?p = "truthy (pget m ''played'')"
  have run: "andthen (if resume_needed ?p position desired changed
      then resume_item net server user_id item (PInt desired) (pget m ''last_played'') ?p c else ret (False, c))
    (\<lambda>acc. andthen (if \<not> ?p \<or> desired > 0 \<or> position > 0 then hide_item net server user_id item m ud acc else ret acc)
      (\<lambda>acc. ret (count_resume acc))) sent = (Inr r, sent')"
    using assms(2) unfolding apply_resume_def assms(3,4) andthen_lift Let_def .
  show "sent' = sent \<longleftrightarrow> \<not> resume_needed ?p position desired changed
      \<and> (\<not> ?p \<or> desired > 0 \<or> position > 0 \<longrightarrow> hidden_agrees m ud)"
    and "sent' = sent \<Longrightarrow> r = c"
    using resume_then_hide_iff [OF assms(1) _ run] by simp_all
qed

lemma reconcile_item_iff:
  assumes "writable server user_id item"
    and run: "reconcile_item net server user_id include_resume item keys m ud c sent = (Inr r, sent')"
    and pos: "position_ticks ud = Inr position" "state_position m = Inr desired"
    and date: "last_played_differs (pget m ''last_played'') (pget ud ''LastPlayedDate'') = Inr changed"
    and range: "0 \<le> position" "0 \<le> desired"
  shows "(sent' = sent \<longleftrightarrow> item_agrees include_resume keys m ud position desired changed) \<and> (sent' = sent \<longrightarrow> r = c)"
proof (cases "m = []")
  case True
  have "clear_item net server user_id include_resume item keys ud position c sent = (Inr r, sent')"
    using run by (simp add: reconcile_item_def pos True)
  from clear_item_iff [OF assms(1) this] show ?thesis unfolding True by blast
next
  case False
  let ?rest = "\<lambda>c. if include_resume then apply_resume net server user_id item m ud position c else ret c"
  have a: "appends (apply_played net server user_id item m ud c)"
    unfolding apply_played_def by (intro emits_rules)
  have b: "appends (?rest c)" for c
    unfolding apply_resume_def by (intro emits_rules)
  have "andthen (apply_played net server user_id item m ud c) ?rest sent = (Inr r, sent')"
    using run unfolding reconcile_item_def pos andthen_lift by (simp only: False if_False)
  then obtain c' mid where first: "apply_played net server user_id item m ud c sent = (Inr c', mid)"
    and last: "?rest c' mid = (Inr r, sent')"
    by (rule andthen_cases)
  note f = apply_played_iff [OF assms(1) first date]
  have l: "sent' = mid \<longleftrightarrow> (include_resume \<longrightarrow>
      \<not> resume_needed (truthy (pget m ''played'')) position desired changed
      \<and> (\<not> truthy (pget m ''played'') \<or> desired > 0 \<or> position > 0 \<longrightarrow> hidden_agrees m ud))"
    "sent' = mid \<Longrightarrow> r = c'"
    using last apply_resume_iff [OF assms(1) _ pos(2) date] by (auto split: if_splits)
  note none = sent_nothing [OF a b first last]
  have "sent' = sent \<longleftrightarrow> item_agrees include_resume keys m ud position desired changed"
    unfolding none f(1) l(1) using False range by (auto simp: item_agrees_def Let_def resume_needed_def)
  moreover have "sent' = sent \<Longrightarrow> r = c" using none f(2) l(2) by auto
  ultimately show ?thesis by blast
qed

subsection \<open>A target in sync is left alone\<close>

text \<open>What the loop reads of an item: its keys and user data, the match, both positions, and whether
  the dates differ; \<open>None\<close> when one of the conversions raises or a position is negative.\<close>

definition item_facts ::
  "(string, pdict) dict \<Rightarrow> pdict \<Rightarrow> (string list \<times> pdict \<times> pdict \<times> int \<times> int \<times> bool) option" where
  "item_facts wanted item =
     (case (get_item_sync_keys item, user_data_or item) of
        (Inr keys, Inr ud) \<Rightarrow>
          (let m = first_match wanted keys [] in
           case (position_ticks ud, state_position m, last_played_differs (pget m ''last_played'') (pget ud ''LastPlayedDate'')) of
             (Inr position, Inr desired, Inr changed) \<Rightarrow>
               if 0 \<le> position \<and> 0 \<le> desired then Some (keys, ud, m, position, desired, changed) else None
           | _ \<Rightarrow> None)
      | _ \<Rightarrow> None)"

definition in_sync :: "bool \<Rightarrow> (string, pdict) dict \<Rightarrow> pdict \<Rightarrow> bool" where
  "in_sync include_resume wanted item =
     (case item_facts wanted item of
        None \<Rightarrow> False
      | Some (keys, ud, m, position, desired, changed) \<Rightarrow>
          item_agrees include_resume keys m ud position desired changed)"

lemma appends_reconcile [emits_rules]:
  "appends (reconcile_item net server user_id include_resume item keys m ud c)"
  unfolding reconcile_item_def clear_item_def apply_played_def apply_resume_def by (intro emits_rules)

lemma reconcile_with_iff:
  assumes "writable server user_id (item_id item)" "item_facts wanted item \<noteq> None"
    and run: "reconcile_with net server user_id include_resume wanted [] item c sent = (Inr r, sent')"
  shows "(sent' = sent \<longleftrightarrow> in_sync include_resume wanted item) \<and> (sent' = sent \<longrightarrow> r = c)"
proof -
  obtain keys ud m position desired changed
    where f: "item_facts wanted item = Some (keys, ud, m, position, desired, changed)"
    using assms(2) by (cases "item_facts wanted item") (auto simp: prod_cases6)
  then have g: "get_item_sync_keys item = Inr keys" "user_data_or item = Inr ud" "m = first_match wanted keys []"
    "position_ticks ud = Inr position" "state_position m = Inr desired"
    "last_played_differs (pget m ''last_played'') (pget ud ''LastPlayedDate'') = Inr changed"
    "0 \<le> position" "0 \<le> desired"
    by (auto simp: item_facts_def Let_def split: sum.splits if_splits)
  have "reconcile_item net server user_id include_resume (item_id item) keys m ud c sent = (Inr r, sent')"
    using run by (simp add: reconcile_with_def g(1,2,3))
  from reconcile_item_iff [OF assms(1) this g(4-8)] show ?thesis
    by (simp add: in_sync_def f)
qed

lemma for_each_idle:
  assumes "\<And>x s. appends (f x s)"
    and "\<And>x s sent r sent'. x \<in> set xs \<Longrightarrow> f x s sent = (Inr r, sent')
           \<Longrightarrow> (sent' = sent \<longleftrightarrow> Q x) \<and> (sent' = sent \<longrightarrow> r = s)"
  shows "for_each f xs s sent = (Inr r, sent') \<Longrightarrow> (sent' = sent \<longleftrightarrow> list_all Q xs) \<and> (sent' = sent \<longrightarrow> r = s)"
  using assms(2)
proof (induction xs arbitrary: s sent)
  case (Cons x xs)
  from Cons.prems(1) obtain s' mid where first: "f x s sent = (Inr s', mid)"
    and last: "for_each f xs s' mid = (Inr r, sent')"
    by (auto simp: andthen_Inr_iff)
  note none = sent_nothing [OF assms(1) emits_for_each [OF assms(1)] first last]
  show ?case
    using none Cons.prems(2) [OF _ first] Cons.IH [OF last Cons.prems(2)] by auto
qed simp

text \<open>
  C21: applying a state map to the items of a target sends nothing exactly when every item already is
  in the wanted state, and then it counts nothing: an item that differs is always written, and one
  that agrees is never written again.  The hypotheses: the server can be reached, the items have ids,
  positions and dates the code can read, and the loop did not end in an exception.
\<close>

theorem state_writes_iff_out_of_sync:
  assumes "reachable server" "user_id \<noteq> []"
    and "\<forall>item \<in> snd ` set by_id. item_id item \<noteq> [] \<and> item_facts desired_state item \<noteq> None"
    and "state_items net server user_id include_resume desired_state by_id sent = (Inr c, sent')"
  shows "(sent' = sent \<longleftrightarrow> list_all (in_sync include_resume desired_state) (map snd by_id))
    \<and> (sent' = sent \<longrightarrow> c = no_counts)"
proof (rule for_each_idle)
  let ?f = "\<lambda>item c. if item_id item = [] then ret c
    else reconcile_with net server user_id include_resume desired_state [] item c"
  show "for_each ?f (map snd by_id) no_counts sent = (Inr c, sent')"
    using assms(4) by (simp add: state_items_def)
  show "appends (?f item s)" for item s
    unfolding reconcile_with_def by (intro emits_rules)
  fix item s sent r sent'
  assume i: "item \<in> set (map snd by_id)" and run: "?f item s sent = (Inr r, sent')"
  have "writable server user_id (item_id item)" "item_facts desired_state item \<noteq> None"
    using i assms(1-3) by (auto simp: writable_def)
  with run show "(sent' = sent \<longleftrightarrow> in_sync include_resume desired_state item) \<and> (sent' = sent \<longrightarrow> r = s)"
    by (intro reconcile_with_iff) (auto simp: writable_def)
qed

definition watched_film :: "py \<Rightarrow> pdict" where
  "watched_film date =
     [(''Id'', PStr ''5''), (''Type'', PStr ''Movie''), (''ProviderIds'', PDict [(''Tmdb'', PStr ''42'')]),
      (''UserData'', PDict [(''Played'', PBool True), (''LastPlayedDate'', date)])]"

definition watched_state :: "py \<Rightarrow> (string, pdict) dict" where
  "watched_state date = [(''tmdb:42'', [(''played'', PBool True), (''last_played'', date), (''position'', PInt 0)])]"

lemma watched_film_facts:
  "get_item_sync_keys (watched_film date) = Inr [''tmdb:42'']" "item_id (watched_film date) = ''5''"
  "user_data_or (watched_film date) = Inr [(''Played'', PBool True), (''LastPlayedDate'', date)]"
  "first_match (watched_state date') [''tmdb:42''] otherwise
     = [(''played'', PBool True), (''last_played'', date'), (''position'', PInt 0)]"
proof -
  have "provider_ids (watched_film date) ''ProviderIds'' = [(''tmdb'', PStr ''42'')]" by code_simp
  then show "get_item_sync_keys (watched_film date) = Inr [''tmdb:42'']"
    by (simp add: get_item_sync_keys_def first_provider_id_def provider_priority_def watched_film_def item_type_def py_or_def)
  show "item_id (watched_film date) = ''5''" by (simp add: item_id_def watched_film_def)
  show "user_data_or (watched_film date) = Inr [(''Played'', PBool True), (''LastPlayedDate'', date)]"
    by (simp add: user_data_or_def watched_film_def py_or_def as_object_def)
  show "first_match (watched_state date') [''tmdb:42''] otherwise
      = [(''played'', PBool True), (''last_played'', date'), (''position'', PInt 0)]"
    by (simp add: first_match_def watched_state_def dget_default_def)
qed

lemma sample_server_reachable: "strip k \<noteq> [] \<Longrightarrow> reachable (sample_server k)"
proof -
  have "emby_base_url (sample_server k) = Some ''http://emby''"
    by (simp add: emby_base_url_def sample_server_def) (code_simp)
  then show "strip k \<noteq> [] \<Longrightarrow> reachable (sample_server k)" by (simp add: reachable_def sample_server_def)
qed

theorem state_writes_iff_out_of_sync_witness:
  "snd (state_items (library_net (\<lambda>r. [])) (sample_server ''a'') ''u'' False (watched_state PNone)
      [(''5'', watched_film PNone)] []) = []
   \<and> list_all (in_sync False (watched_state PNone)) [watched_film PNone]"
proof -
  have run: "state_items (library_net (\<lambda>r. [])) (sample_server ''a'') ''u'' False (watched_state PNone)
      [(''5'', watched_film PNone)] [] = (Inr no_counts, [])"
    by (simp add: state_items_def watched_film_facts reconcile_with_def reconcile_item_def apply_played_def position_ticks_def
        py_or_def)
  have "strip ''a'' \<noteq> []" by code_simp
  then have server: "reachable (sample_server ''a'')" by (rule sample_server_reachable)
  have "item_facts (watched_state PNone) (watched_film PNone) \<noteq> None"
    by (simp add: item_facts_def watched_film_facts position_ticks_def state_position_def py_or_def)
  with state_writes_iff_out_of_sync [OF server _ _ run] watched_film_facts(2) run show ?thesis by simp
qed

subsection \<open>Dates with a fraction are written for ever\<close>

text \<open>
  a source date with a fraction of a second does not settle.  The played write sends the date to
  the second; if the server then shows that instant as the item's date, applying the same state again
  writes the item again exactly when the source date is not a whole second.  The hypothesis on the
  stored date is Emby's documented handling of \<open>DatePlayed\<close>, with the second sent.
\<close>

theorem fractional_date_rewritten:
  assumes "dated date t" "dated stored (t - t mod 1000000)" "reachable server" "user_id \<noteq> []"
    and "reconcile_with net server user_id False (watched_state date) [] (watched_film stored) c sent = (Inr r, sent')"
  shows "sent' \<noteq> sent \<longleftrightarrow> t mod 1000000 \<noteq> 0"
proof -
  let ?ud = "[(''Played'', PBool True), (''LastPlayedDate'', stored)]"
  let ?m = "[(''played'', PBool True), (''last_played'', date), (''position'', PInt 0)]"
  have run: "reconcile_item net server user_id False ''5'' [''tmdb:42''] ?m ?ud c sent = (Inr r, sent')"
    using assms(5) by (simp add: reconcile_with_def watched_film_facts)
  have w: "writable server user_id ''5''" using assms(3,4) by (simp add: writable_def)
  have d: "last_played_differs (pget ?m ''last_played'') (pget ?ud ''LastPlayedDate'') = Inr (t \<noteq> t - t mod 1000000)"
    using assms(1,2) by (simp add: differs_dated)
  have p: "position_ticks ?ud = Inr 0" "state_position ?m = Inr 0"
    by (simp_all add: position_ticks_def state_position_def py_or_def)
  from reconcile_item_iff [OF w run p d] show ?thesis
    by (auto simp: item_agrees_def Let_def)
qed

theorem fractional_date_rewritten_witness:
  "snd (reconcile_with (library_net (\<lambda>r. [])) (sample_server ''a'') ''u'' False (watched_state (PStr (iso_utc 1500000))) []
      (watched_film (PStr (iso_utc 1000000))) no_counts []) \<noteq> [] \<longleftrightarrow> (1500000 :: int) mod 1000000 \<noteq> 0"
proof -
  have d: "dated (PStr (iso_utc 1500000)) 1500000" "dated (PStr (iso_utc 1000000)) (1500000 - 1500000 mod 1000000)"
    by (simp_all add: dated_iso max_instant_def)
  have "strip ''a'' \<noteq> []" by code_simp
  then have server: "reachable (sample_server ''a'')" by (rule sample_server_reachable)
  let ?run = "reconcile_with (library_net (\<lambda>r. [])) (sample_server ''a'') ''u'' False (watched_state (PStr (iso_utc 1500000))) []
      (watched_film (PStr (iso_utc 1000000))) no_counts []"
  have differs: "last_played_differs (PStr (iso_utc 1500000)) (PStr (iso_utc 1000000)) = Inr True"
    using differs_dated [OF d] by simp
  obtain stamp where stamp: "format_emby_date_played (PStr (iso_utc 1500000)) = Inr (Some stamp)"
    using format_dated [OF d(1)] by blast
  have "\<exists>r. fst ?run = Inr r"
    by (auto simp: reconcile_with_def watched_film_facts reconcile_item_def position_ticks_def py_or_def apply_played_def
        differs play_item_def mark_item_played_def stamp call_emby_api_def send_def andthen_def Let_def ret_def
        split: option.splits prod.splits)
  then obtain r where "?run = (Inr r, snd ?run)" by (metis prod.collapse)
  from fractional_date_rewritten [OF d server _ this] show ?thesis by simp
qed

subsection \<open>An item without keys\<close>

definition clear_resume_request :: "pdict \<Rightarrow> string \<Rightarrow> string \<Rightarrow> emby_request \<Rightarrow> bool" where
  "clear_resume_request server user_id item r \<longleftrightarrow>
     rq_method r = ''POST'' \<and> rq_json r = Some [(''PlaybackPositionTicks'', PInt 0)]
     \<and> (\<exists>base. emby_base_url server = Some base
          \<and> rq_target r = base @ ''/'' @ lstrip_char (CHR ''/'') (id_path user_id (''Items/'' @ item @ ''/UserData'')))"

text \<open>
  with resume positions included, an item of the target that has no sync key, and so cannot be
  looked up in the wanted state, keeps its played flag but loses its resume position: the guard on the
  keys protects only the flag.
\<close>

theorem keyless_item_loses_position:
  assumes "reachable server" "user_id \<noteq> []" "item \<noteq> []" "position_ticks ud = Inr position" "position \<noteq> 0"
  shows "\<exists>r rs. snd (reconcile_item net server user_id True item [] [] ud c sent) = sent @ r # rs
    \<and> clear_resume_request server user_id item r \<and> list_all (\<lambda>r. rq_method r \<noteq> ''DELETE'') (r # rs)"
proof -
  obtain base where base: "emby_base_url server = Some base" "base \<noteq> []"
      "strip (text_or_empty (pget server ''api_key'')) \<noteq> []"
    using assms(1) by (auto simp: reachable_def)
  define r where "r = \<lparr>rq_method = ''POST'',
      rq_target = base @ ''/'' @ lstrip_char (CHR ''/'') (id_path user_id (''Items/'' @ item @ ''/UserData'')),
      rq_token = strip (text_or_empty (pget server ''api_key'')), rq_params = [],
      rq_json = Some [(''PlaybackPositionTicks'', PInt 0)]\<rparr>"
  have "\<exists>acc. resume_item net server user_id item (PInt 0) PNone False c sent = (Inr acc, sent @ [r])"
    using assms(2,3) base
    by (auto simp: resume_item_def set_item_resume_def call_emby_api_def send_def Let_def andthen_def ret_def lift_def r_def
        split: prod.splits)
  then obtain acc where first: "resume_item net server user_id item (PInt 0) PNone False c sent = (Inr acc, sent @ [r])" ..
  have "emits (\<lambda>r. rq_method r \<noteq> ''DELETE'')
      (andthen (hide_item net server user_id item [(''hide_from_resume'', PBool True)] ud acc) (\<lambda>acc. ret (count_resume acc)))"
    unfolding hide_item_def apply_hide_from_resume_def set_item_hide_from_resume_def missing_ids_def
    by (intro emits_rules) simp
  then obtain rs where rs: "snd (andthen (hide_item net server user_id item [(''hide_from_resume'', PBool True)] ud acc)
      (\<lambda>acc. ret (count_resume acc)) (sent @ [r])) = (sent @ [r]) @ rs" "list_all (\<lambda>r. rq_method r \<noteq> ''DELETE'') rs"
    unfolding emits_def by blast
  have "snd (reconcile_item net server user_id True item [] [] ud c sent) = sent @ r # rs"
    using rs(1) first by (simp add: reconcile_item_def clear_item_def assms(4,5) andthen_def)
  moreover have "clear_resume_request server user_id item r"
    using base by (simp add: clear_resume_request_def r_def)
  ultimately show ?thesis using rs(2) by (auto simp: r_def)
qed

theorem keyless_item_loses_position_witness:
  "\<exists>r rs. snd (reconcile_item (library_net (\<lambda>r. [])) (sample_server ''a'') ''u'' True ''17'' [] []
      [(''PlaybackPositionTicks'', PInt 900)] no_counts []) = [] @ r # rs
    \<and> clear_resume_request (sample_server ''a'') ''u'' ''17'' r \<and> list_all (\<lambda>r. rq_method r \<noteq> ''DELETE'') (r # rs)"
proof (rule keyless_item_loses_position)
  have "strip ''a'' \<noteq> []" by code_simp
  then show "reachable (sample_server ''a'')" by (rule sample_server_reachable)
  show "position_ticks [(''PlaybackPositionTicks'', PInt 900)] = Inr 900" by (simp add: position_ticks_def py_or_def)
qed simp_all

end
