(* ===== verification/Play_Merge.thy ===== *)
theory Play_Merge
  imports Play_Sync
begin

text \<open>
  The copies that only add: one source user to targets (\<open>emby_users/playstate_sync.py\<close>) and the
  union of several users applied to all of them (\<open>emby_users/playstate_merge.py\<close>).  Neither clears
  a played flag.  The union is built from all users before anything is written, and is dropped when
  one of them could not be read.  The two share the reading of a target and the body of the item
  loop.
\<close>

subsection \<open>User details\<close>

text \<open>\<open>quote_emby_identifier\<close> of \<open>core/emby_identifiers.py\<close>: the accepted characters need no quoting.\<close>

definition is_ascii_alnum :: "char \<Rightarrow> bool" where
  "is_ascii_alnum c =
     (let n = code c in (48 \<le> n \<and> n \<le> 57) \<or> (65 \<le> n \<and> n \<le> 90) \<or> (97 \<le> n \<and> n \<le> 122))"

definition quote_emby_identifier :: "string \<Rightarrow> string option" where
  "quote_emby_identifier v =
     (let s = strip v in
      if s \<noteq> [] \<and> length s \<le> 128 \<and> is_ascii_alnum (hd s)
         \<and> list_all (\<lambda>c. is_ascii_alnum c \<or> c \<in> set ''._~-'') (tl s) then Some s else None)"

definition fetch_user_details :: "emby_net \<Rightarrow> pdict \<Rightarrow> string \<Rightarrow> (py \<times> py) act" where
  "fetch_user_details net server user_id =
     (case quote_emby_identifier user_id of
        None \<Rightarrow> ret (PNone, PStr ''User ID mancante'')
      | Some uid \<Rightarrow>
          andthen (emby_get net server (''Users/'' @ uid) []) (\<lambda>(success, payload). ret (
            if success then (payload, PNone) else (PNone, payload))))"

subsection \<open>What is collected from the sources\<close>

text \<open>Played dates and resume states by key, the two sets of keys, and the items without a key with
  what is known of them.\<close>

record play_union =
  pu_played :: "(string, pdict) dict"
  pu_resume :: "(string, pdict) dict"
  pu_provider :: "string list"
  pu_fallback :: "string list"
  pu_played_items :: "(pdict \<times> pdict) list"
  pu_resume_items :: "(pdict \<times> pdict) list"

definition empty_union :: play_union where
  "empty_union = \<lparr>pu_played = [], pu_resume = [], pu_provider = [], pu_fallback = [],
     pu_played_items = [], pu_resume_items = []\<rparr>"

definition played_state :: "pdict \<Rightarrow> pdict" where
  "played_state ud = [(''last_played'', pget ud ''LastPlayedDate'')]"

definition has_resume :: "bool \<Rightarrow> pdict \<Rightarrow> bool" where
  "has_resume include_resume ud \<longleftrightarrow> include_resume \<and> truthy (pget ud ''PlaybackPositionTicks'')"

definition add_unkeyed :: "bool \<Rightarrow> pdict \<Rightarrow> pdict \<Rightarrow> play_union \<Rightarrow> play_union" where
  "add_unkeyed include_resume item ud u =
     (if item_type item = PStr ''Episode'' then u
      else
        let u = (if truthy (pget ud ''Played'')
                 then u\<lparr>pu_played_items := pu_played_items u @ [(item, played_state ud)]\<rparr> else u)
        in if has_resume include_resume ud
           then u\<lparr>pu_resume_items := pu_resume_items u @ [(item, resume_state_from_user_data ud)]\<rparr> else u)"

definition add_keys :: "string list \<Rightarrow> play_union \<Rightarrow> play_union" where
  "add_keys keys u =
     (let provider = filter is_provider_key keys in
      if provider \<noteq> [] then u\<lparr>pu_provider := foldl (\<lambda>s k. add_to_set k s) (pu_provider u) provider\<rparr>
      else u\<lparr>pu_fallback := foldl (\<lambda>s k. add_to_set k s) (pu_fallback u) keys\<rparr>)"

text \<open>One item of the source of a one-way copy: later items overwrite.\<close>

definition add_source_item :: "bool \<Rightarrow> pdict \<Rightarrow> play_union \<Rightarrow> exn + play_union" where
  "add_source_item include_resume item u =
     result_bind (user_data_get item) (\<lambda>ud.
     result_bind (get_item_sync_keys item) (\<lambda>keys. Inr (
       if keys = [] then add_unkeyed include_resume item ud u
       else
         let u = add_keys keys u;
             u = (if has_resume include_resume ud
                  then u\<lparr>pu_resume := foldl (\<lambda>d k. dset k (resume_state_from_user_data ud) d) (pu_resume u) keys\<rparr>
                  else u)
         in if truthy (pget ud ''Played'')
            then u\<lparr>pu_played := foldl (\<lambda>d k. dset k (played_state ud) d) (pu_played u) keys\<rparr> else u)))"

text \<open>One item of one source of the union: the oldest date, and the union of the resume states.\<close>

definition merge_resume_key :: "pdict \<Rightarrow> string \<Rightarrow> play_union \<Rightarrow> exn + play_union" where
  "merge_resume_key ud key u =
     result_bind (merge_bootstrap_resume_state (map_of (pu_resume u) key) (resume_state_from_user_data ud))
       (\<lambda>s. Inr (u\<lparr>pu_resume := dset key s (pu_resume u)\<rparr>))"

definition merge_played_key :: "pdict \<Rightarrow> string \<Rightarrow> play_union \<Rightarrow> exn + play_union" where
  "merge_played_key ud key u =
     (let date = pget ud ''LastPlayedDate'' in
      case map_of (pu_played u) key of
        None \<Rightarrow> Inr (u\<lparr>pu_played := dset key [(''last_played'', date)] (pu_played u)\<rparr>)
      | Some s \<Rightarrow>
          result_bind (last_played_is_older date (pget s ''last_played'')) (\<lambda>older. Inr (
            if older then u\<lparr>pu_played := dset key (dset ''last_played'' date s) (pu_played u)\<rparr> else u)))"

definition merge_item_key :: "bool \<Rightarrow> pdict \<Rightarrow> string \<Rightarrow> play_union \<Rightarrow> exn + play_union" where
  "merge_item_key include_resume ud key u =
     result_bind (if truthy (pget ud ''Played'') then merge_played_key ud key u else Inr u) (\<lambda>u.
       if has_resume include_resume ud then merge_resume_key ud key u else Inr u)"

fun merge_keys :: "bool \<Rightarrow> pdict \<Rightarrow> string list \<Rightarrow> play_union \<Rightarrow> exn + play_union" where
  "merge_keys include_resume ud [] u = Inr u"
| "merge_keys include_resume ud (k # ks) u =
     result_bind (merge_item_key include_resume ud k u) (merge_keys include_resume ud ks)"

definition merge_item :: "bool \<Rightarrow> pdict \<Rightarrow> play_union \<Rightarrow> exn + play_union" where
  "merge_item include_resume item u =
     result_bind (user_data_get item) (\<lambda>ud.
     result_bind (get_item_sync_keys item) (\<lambda>keys.
       if keys = [] then Inr (add_unkeyed include_resume item ud u)
       else merge_keys include_resume ud keys (add_keys keys u)))"

fun merge_items :: "bool \<Rightarrow> pdict list \<Rightarrow> play_union \<Rightarrow> exn + play_union" where
  "merge_items include_resume [] u = Inr u"
| "merge_items include_resume (item # items) u =
     result_bind (merge_item include_resume item u) (merge_items include_resume items)"

subsection \<open>Reading a target\<close>

text \<open>The items to process, the ids already among them, and the states found by signature.\<close>

record target_items =
  ti_items :: "pdict list"
  ti_ids :: "string list"
  ti_played :: items_by_id
  ti_resume :: items_by_id
  ti_errors :: "string list"

definition keep_fallback_item :: "string list \<Rightarrow> string list \<Rightarrow> pdict \<Rightarrow> pdict list \<Rightarrow> exn + pdict list" where
  "keep_fallback_item fallback_keys ids item kept =
     (if item_id item \<in> set ids then Inr kept
      else result_bind (get_item_sync_keys item) (\<lambda>keys. Inr (
        if list_ex (\<lambda>k. k \<in> set fallback_keys) keys then kept @ [item] else kept)))"

definition read_target_items ::
  "emby_net \<Rightarrow> pdict \<Rightarrow> string \<Rightarrow> play_union \<Rightarrow> (unit + target_items) act" where
  "read_target_items net server user_id u =
     andthen
       (if pu_provider u = [] then ret ([], PNone)
        else fetch_items_by_provider_ids net server user_id (n_order net (pu_provider u)) False default_item_types)
       (\<lambda>(provider_items, provider_err).
          let ids = filter (\<lambda>i. i \<noteq> []) (map item_id provider_items);
              found = (\<lambda>items. \<lparr>ti_items = items, ti_ids = ids, ti_played = [], ti_resume = [], ti_errors = []\<rparr>) in
          if truthy provider_err \<or> pu_fallback u \<noteq> []
          then andthen (fetch_all_media_for_user net server user_id) (\<lambda>(all_items, err).
            if truthy err then ret (Inl ())
            else if truthy provider_err then ret (Inr (found all_items))
            else andthen (for_each (\<lambda>i k. lift (keep_fallback_item (pu_fallback u) ids i k)) all_items [])
              (\<lambda>kept. ret (Inr (found (provider_items @ kept)))))
          else ret (Inr (found provider_items)))"

definition add_played_match :: "pdict \<Rightarrow> pdict list \<Rightarrow> target_items \<Rightarrow> target_items" where
  "add_played_match state found t =
     foldl (\<lambda>t it. if item_id it = [] \<or> item_id it \<in> set (ti_ids t) then t
       else t\<lparr>ti_played := dset (item_id it) state (ti_played t), ti_ids := ti_ids t @ [item_id it],
              ti_items := ti_items t @ [it]\<rparr>) t found"

definition add_resume_match :: "pdict \<Rightarrow> pdict list \<Rightarrow> target_items \<Rightarrow> target_items" where
  "add_resume_match state found t =
     foldl (\<lambda>t it. if item_id it = [] then t
       else let t = t\<lparr>ti_resume := dset (item_id it) state (ti_resume t)\<rparr> in
         if item_id it \<in> set (ti_ids t) then t
         else t\<lparr>ti_ids := ti_ids t @ [item_id it], ti_items := ti_items t @ [it]\<rparr>) t found"

definition add_signature_matches ::
  "emby_net \<Rightarrow> pdict \<Rightarrow> string \<Rightarrow> string \<Rightarrow> (pdict \<Rightarrow> pdict list \<Rightarrow> target_items \<Rightarrow> target_items)
    \<Rightarrow> (pdict \<times> pdict) list \<Rightarrow> target_items \<Rightarrow> target_items act" where
  "add_signature_matches net server user_id failure add sources t =
     for_each (\<lambda>(source_item, state) t.
         andthen (fetch_items_by_safe_fallback net server user_id source_item) (\<lambda>(found, err). ret (
           if truthy err then t\<lparr>ti_errors := ti_errors t @ [failure]\<rparr> else add state found t)))
       (limit_fallback_items sources) t"

subsection \<open>Writing to a target\<close>

text \<open>\<open>item["Id"]\<close>.\<close>

definition item_id_at :: "pdict \<Rightarrow> exn + string" where
  "item_id_at item = (if has_key ''Id'' item then Inr (item_id item) else Inl (KeyError ''Id''))"

definition add_played ::
  "emby_net \<Rightarrow> pdict \<Rightarrow> string \<Rightarrow> pdict \<Rightarrow> pdict \<Rightarrow> pdict \<Rightarrow> apply_counts \<Rightarrow> apply_counts act" where
  "add_played net server user_id item m ud c =
     (if m = [] then ret c
      else andthen
        (lift (if \<not> truthy (pget ud ''Played'') then Inr True
               else last_played_differs (pget m ''last_played'') (pget ud ''LastPlayedDate'')))
        (\<lambda>needed. if \<not> needed then ret c
           else andthen (lift (item_id_at item)) (\<lambda>i. play_item net server user_id i (pget m ''last_played'') c)))"

definition add_resume ::
  "emby_net \<Rightarrow> pdict \<Rightarrow> string \<Rightarrow> pdict \<Rightarrow> pdict \<Rightarrow> bool \<Rightarrow> pdict \<Rightarrow> apply_counts \<Rightarrow> apply_counts act" where
  "add_resume net server user_id item ud preserve_played r c =
     (if r = [] then ret c
      else andthen (lift (if \<not> preserve_played then Inr True else result_bind (state_position r) (\<lambda>p. Inr (p > 0))))
        (\<lambda>wanted. if \<not> wanted then ret c
           else andthen (lift (item_id_at item)) (\<lambda>i.
             andthen (resume_item net server user_id i (pget r ''position'') (pget r ''last_played'') preserve_played c)
               (\<lambda>acc. andthen (hide_item net server user_id i r ud acc) (\<lambda>acc. ret (count_resume acc))))))"

definition add_item ::
  "emby_net \<Rightarrow> pdict \<Rightarrow> string \<Rightarrow> bool \<Rightarrow> play_union \<Rightarrow> target_items \<Rightarrow> pdict \<Rightarrow> apply_counts \<Rightarrow> apply_counts act" where
  "add_item net server user_id include_resume u t item c =
     andthen (lift (user_data_get item)) (\<lambda>ud.
     andthen (lift (get_item_sync_keys item)) (\<lambda>keys.
       let m = first_match (pu_played u) keys (dget_default (ti_played t) (item_id item) []);
           r = first_match (pu_resume u) keys (dget_default (ti_resume t) (item_id item) []) in
       andthen (add_played net server user_id item m ud c) (\<lambda>c.
         if include_resume then add_resume net server user_id item ud (m \<noteq> []) r c else ret c)))"

definition record_added :: "string \<Rightarrow> apply_counts \<Rightarrow> sync_result \<Rightarrow> sync_result" where
  "record_added label c r =
     (let r = record_target_write_result label (ac_errors c) r
      in r\<lparr>sr_counts := dset label (ac_updated c) (sr_counts r),
           sr_resume_counts := dset label (ac_resume c) (sr_resume_counts r)\<rparr>)"

text \<open>\<open>server['name']\<close> in a failure text.\<close>

definition server_name_at :: "pdict \<Rightarrow> exn + string" where
  "server_name_at server =
     (if has_key ''name'' server then Inr (py_str (pget server ''name'')) else Inl (KeyError ''name''))"

definition add_to_target ::
  "emby_net \<Rightarrow> pdict \<Rightarrow> string \<Rightarrow> bool \<Rightarrow> string \<Rightarrow> play_union \<Rightarrow> sync_result \<Rightarrow> sync_result act" where
  "add_to_target net server user_id include_resume failure_suffix u r =
     andthen (read_target_items net server user_id u) (\<lambda>read.
       case read of
         Inl x \<Rightarrow> andthen (lift (server_name_at server)) (\<lambda>name. ret (note_failed (name @ failure_suffix) r))
       | Inr t \<Rightarrow>
           andthen (add_signature_matches net server user_id ''fallback played lookup failed'' add_played_match
             (pu_played_items u) t) (\<lambda>t.
           andthen (add_signature_matches net server user_id ''fallback resume lookup failed'' add_resume_match
             (pu_resume_items u) t) (\<lambda>t.
           andthen (for_each (add_item net server user_id include_resume u t) (ti_items t)
             (no_counts\<lparr>ac_errors := ti_errors t\<rparr>)) (\<lambda>c.
             ret (record_added (target_label server) c r)))))"

subsection \<open>The one-way copy\<close>

definition one_way_target ::
  "emby_net \<Rightarrow> servers \<Rightarrow> bool \<Rightarrow> play_union \<Rightarrow> string \<times> string \<Rightarrow> sync_result \<Rightarrow> sync_result act" where
  "one_way_target net servers include_resume u target r =
     (case target of (server_id, user_id) \<Rightarrow>
        let server = servers server_id in
        if server = [] then ret (note_failed (''Server '' @ server_id @ '' not found'') r)
        else andthen (fetch_user_details net server user_id) (\<lambda>details.
          add_to_target net server user_id include_resume '': Fetch error'' u r))"

definition sync_user_playstate ::
  "emby_net \<Rightarrow> servers \<Rightarrow> string \<Rightarrow> string \<Rightarrow> (string \<times> string) list \<Rightarrow> bool \<Rightarrow> sync_result act" where
  "sync_user_playstate net servers source_server_id source_user_id targets include_resume =
     (let source = servers source_server_id in
      if source = [] then ret (error_result ''Source server not found'')
      else andthen (fetch_user_details net source source_user_id) (\<lambda>details.
        andthen (fetch_user_items_for_sync net source source_user_id include_resume) (\<lambda>(items, err).
          if truthy err then ret (error_result (''Failed to fetch source items: '' @ py_str err))
          else andthen (for_each (\<lambda>item u. lift (add_source_item include_resume item u)) items empty_union) (\<lambda>u.
            for_each (one_way_target net servers include_resume u) targets empty_result))))"

subsection \<open>The union of all users\<close>

definition merge_source ::
  "emby_net \<Rightarrow> servers \<Rightarrow> bool \<Rightarrow> string \<times> string \<Rightarrow> play_union \<times> string list \<Rightarrow> (play_union \<times> string list) act" where
  "merge_source net servers include_resume source acc =
     (case source of (server_id, user_id) \<Rightarrow> case acc of (u, failures) \<Rightarrow>
        let server = servers server_id in
        if server = [] then ret (u, failures @ [''Server '' @ server_id @ '' not found''])
        else andthen (fetch_user_items_for_sync net server user_id include_resume) (\<lambda>(items, err).
          if truthy err then ret (u, failures @ [target_label server @ '': source fetch failed''])
          else andthen (lift (merge_items include_resume items u)) (\<lambda>u. ret (u, failures))))"

definition merge_target ::
  "emby_net \<Rightarrow> servers \<Rightarrow> bool \<Rightarrow> play_union \<Rightarrow> string \<times> string \<Rightarrow> sync_result \<Rightarrow> sync_result act" where
  "merge_target net servers include_resume u target r =
     (case target of (server_id, user_id) \<Rightarrow>
        if servers server_id = [] then ret r
        else add_to_target net (servers server_id) user_id include_resume [] u r)"

definition incomplete_snapshot :: string where
  "incomplete_snapshot = ''Playstate bootstrap aborted: incomplete source snapshot''"

definition sync_merge_playstate ::
  "emby_net \<Rightarrow> servers \<Rightarrow> (string \<times> string) list \<Rightarrow> bool \<Rightarrow> sync_result act" where
  "sync_merge_playstate net servers targets include_resume =
     andthen (for_each (merge_source net servers include_resume) targets (empty_union, [])) (\<lambda>(u, failures).
       if failures \<noteq> [] then ret ((error_result incomplete_snapshot)\<lparr>sr_failed := failures\<rparr>)
       else for_each (merge_target net servers include_resume u) targets empty_result)"

subsection \<open>Where requests go\<close>

text \<open>A request for a user of a server: its address begins with the server's address and the user's
  path, and it carries the server's key.\<close>

definition for_user :: "pdict \<Rightarrow> string \<Rightarrow> emby_request \<Rightarrow> bool" where
  "for_user server user_id r \<longleftrightarrow>
     (\<exists>base rest. emby_base_url server = Some base \<and> rq_target r = base @ ''/Users/'' @ user_id @ ''/'' @ rest)
     \<and> rq_token r = strip (text_or_empty (pget server ''api_key''))"

definition read_or_for :: "servers \<Rightarrow> (string \<times> string) set \<Rightarrow> emby_request \<Rightarrow> bool" where
  "read_or_for servers targets r \<longleftrightarrow>
     rq_method r = ''GET'' \<or> (\<exists>(server_id, user_id) \<in> targets. for_user (servers server_id) user_id r)"

lemma emits_user_call:
  "emits (\<lambda>r. for_user server user_id r \<and> rq_method r = m) (call_emby_api net server (id_path user_id rest) m params json)"
proof (rule emitsI)
  fix sent
  have "lstrip_char (CHR ''/'') (id_path user_id rest) = id_path user_id rest"
    by (simp add: id_path_def lstrip_char_def)
  then show "\<exists>rs. snd (call_emby_api net server (id_path user_id rest) m params json sent) = sent @ rs
      \<and> list_all (\<lambda>r. for_user server user_id r \<and> rq_method r = m) rs"
    by (auto simp: call_emby_api_def send_def Let_def for_user_def id_path_def split: option.splits)
qed

text \<open>The writes go to the user they are for; only the unplayed write deletes.\<close>

definition adds_for :: "pdict \<Rightarrow> string \<Rightarrow> emby_request \<Rightarrow> bool" where
  "adds_for server user_id r \<longleftrightarrow> for_user server user_id r \<and> rq_method r \<noteq> ''DELETE''"

lemma emits_user_post:
  "emits (adds_for server user_id) (call_emby_api net server (id_path user_id rest) ''POST'' params json)"
  by (rule emits_weaken [OF emits_user_call]) (simp add: adds_for_def)

lemma writes_for_user:
  "emits (for_user server user_id) (mark_item_unplayed net server user_id item)"
  "emits (adds_for server user_id) (mark_item_played net server user_id item date)"
  "emits (adds_for server user_id) (set_item_resume net server user_id item position date preserve)"
  "emits (adds_for server user_id) (set_item_hide_from_resume net server user_id item hide)"
proof -
  show "emits (for_user server user_id) (mark_item_unplayed net server user_id item)"
    unfolding mark_item_unplayed_def missing_ids_def
    by (intro emits_if emits_ret emits_weaken [OF emits_user_call]) simp
  show "emits (adds_for server user_id) (mark_item_played net server user_id item date)"
    "emits (adds_for server user_id) (set_item_resume net server user_id item position date preserve)"
    "emits (adds_for server user_id) (set_item_hide_from_resume net server user_id item hide)"
    unfolding mark_item_played_def set_item_resume_def set_item_hide_from_resume_def missing_ids_def
    by (intro emits_if emits_ret emits_lift emits_andthen emits_user_post; fail)+
qed

lemma item_writes_for_user:
  "emits (for_user server user_id) (unplay_item net server user_id item c)"
  "emits (adds_for server user_id) (play_item net server user_id item date c)"
  "emits (adds_for server user_id) (resume_item net server user_id item position date preserve c)"
  "emits (adds_for server user_id) (hide_item net server user_id item desired ud acc)"
  unfolding unplay_item_def play_item_def resume_item_def hide_item_def apply_hide_from_resume_def
  by (intro emits_rules writes_for_user; fail)+

lemma reconcile_for_user: "emits (for_user server user_id) (reconcile_with net server user_id include_resume wanted otherwise item c)"
proof -
  note adds = item_writes_for_user(2-4) [THEN emits_weaken [where Q = "for_user server user_id"]]
  have *: "adds_for server user_id r \<Longrightarrow> for_user server user_id r" for r by (simp add: adds_for_def)
  show ?thesis
    unfolding reconcile_with_def reconcile_item_def clear_item_def apply_played_def apply_resume_def
    by (intro emits_rules item_writes_for_user(1) adds *) (auto simp: adds_for_def)
qed

lemma add_item_for_user: "emits (adds_for server user_id) (add_item net server user_id include_resume u t item c)"
  unfolding add_item_def add_played_def add_resume_def
  by (intro emits_rules item_writes_for_user)

lemma emits_for_each_in:
  "(\<And>x s. x \<in> set xs \<Longrightarrow> emits P (f x s)) \<Longrightarrow> emits P (for_each f xs s)"
  by (induction xs arbitrary: s) (auto intro!: emits_ret emits_andthen)

definition read_or_adds_for :: "servers \<Rightarrow> (string \<times> string) set \<Rightarrow> emby_request \<Rightarrow> bool" where
  "read_or_adds_for servers targets r \<longleftrightarrow>
     rq_method r = ''GET'' \<or> (\<exists>(server_id, user_id) \<in> targets. adds_for (servers server_id) user_id r)"

lemma reads_stay:
  assumes "reads_only m"
  shows "emits (read_or_for servers targets) m" "emits (read_or_adds_for servers targets) m"
  using assms by (rule emits_weaken; simp add: read_or_for_def read_or_adds_for_def)+

lemma writes_stay:
  assumes "(server_id, user_id) \<in> targets"
  shows "emits (for_user (servers server_id) user_id) m \<Longrightarrow> emits (read_or_for servers targets) m"
    and "emits (adds_for (servers server_id) user_id) m' \<Longrightarrow> emits (read_or_adds_for servers targets) m'"
  using assms by (fastforce elim!: emits_weaken simp: read_or_for_def read_or_adds_for_def)+

lemma reads_only_read_target: "reads_only (read_target net server user_id include_resume provider_keys fallback_keys)"
  unfolding read_target_def by (intro emits_rules)

lemma reads_only_exact_fallbacks: "reads_only (exact_fallbacks net server user_id unkeyed by_id)"
  unfolding exact_fallbacks_def by (intro emits_rules)

lemma reads_only_target_items: "reads_only (read_target_items net server user_id u)"
  unfolding read_target_items_def by (intro emits_rules)

lemma reads_only_signature_matches: "reads_only (add_signature_matches net server user_id failure add sources t)"
  unfolding add_signature_matches_def by (intro emits_rules)

lemma reads_only_user_details: "reads_only (fetch_user_details net server user_id)"
  unfolding fetch_user_details_def by (intro emits_rules)

lemma reads_only_merge_source: "reads_only (merge_source net servers include_resume source acc)"
  unfolding merge_source_def by (intro emits_rules)

lemma state_target_stays:
  assumes "target \<in> targets"
  shows "emits (read_or_for servers targets) (state_target net servers include_resume desired target r)"
proof -
  obtain server_id user_id where t: "target = (server_id, user_id)" by (cases target)
  have items: "emits (read_or_for servers targets)
      (state_items net (servers server_id) user_id include_resume desired by_id)" for by_id
    unfolding state_items_def
    by (intro writes_stay(1) [OF assms [unfolded t]] emits_for_each emits_if emits_ret reconcile_for_user)
  show ?thesis
    unfolding state_target_def t prod.case Let_def
    by (intro emits_if emits_ret emits_andthen emits_case_sum reads_stay(1) reads_only_read_target items)
qed

lemma exact_target_stays:
  assumes "target \<in> targets"
  shows "emits (read_or_for servers targets) (exact_target net servers include_resume src target r)"
proof -
  obtain server_id user_id where t: "target = (server_id, user_id)" by (cases target)
  have items: "emits (read_or_for servers targets)
      (exact_items net (servers server_id) user_id include_resume wanted states by_id)" for wanted states by_id
    unfolding exact_items_def
    by (intro writes_stay(1) [OF assms [unfolded t]] emits_for_each emits_if emits_ret reconcile_for_user)
  show ?thesis
    unfolding exact_target_def t prod.case Let_def
    by (intro emits_if emits_ret emits_andthen emits_case_sum emits_case_prod reads_stay(1) reads_only_read_target
        reads_only_exact_fallbacks items)
qed

lemma add_to_target_stays:
  assumes "(server_id, user_id) \<in> targets"
  shows "emits (read_or_adds_for servers targets)
    (add_to_target net (servers server_id) user_id include_resume failure_suffix u r)"
proof -
  have items: "emits (read_or_adds_for servers targets)
      (for_each (add_item net (servers server_id) user_id include_resume u t) xs c)" for t xs c
    by (intro writes_stay(2) [OF assms] emits_for_each add_item_for_user)
  show ?thesis
    unfolding add_to_target_def
    by (intro emits_ret emits_lift emits_andthen emits_case_sum reads_stay(2) reads_only_target_items
        reads_only_signature_matches items)
qed

text \<open>
  C28: no synchronisation writes anywhere but to its targets.  Every request of the four workflows is a
  read, or is addressed, with the server's own key, to a user in the list of targets; the source is
  only read.  The one-way copy and the union moreover send no deletion: they never clear a played
  flag.
\<close>

theorem sync_writes_stay_in_targets:
  "emits (read_or_for servers (set targets))
     (sync_user_playstate_exact net servers source_server_id source_user_id targets include_resume)
   \<and> emits (read_or_for servers (set targets)) (sync_user_playstate_to_state net servers desired_state targets include_resume)
   \<and> emits (read_or_adds_for servers (set targets))
       (sync_user_playstate net servers source_server_id source_user_id targets include_resume)
   \<and> emits (read_or_adds_for servers (set targets)) (sync_merge_playstate net servers targets include_resume)"
proof (intro conjI)
  show "emits (read_or_for servers (set targets))
     (sync_user_playstate_exact net servers source_server_id source_user_id targets include_resume)"
    unfolding sync_user_playstate_exact_def Let_def
    by (intro emits_if emits_ret emits_lift emits_andthen emits_case_prod reads_stay(1) reads_only_for_sync
        emits_for_each_in exact_target_stays)
  show "emits (read_or_for servers (set targets)) (sync_user_playstate_to_state net servers desired_state targets include_resume)"
    unfolding sync_user_playstate_to_state_def by (intro emits_for_each_in state_target_stays)
  show "emits (read_or_adds_for servers (set targets))
     (sync_user_playstate net servers source_server_id source_user_id targets include_resume)"
    unfolding sync_user_playstate_def one_way_target_def Let_def
    by (intro emits_if emits_ret emits_lift emits_andthen emits_case_prod reads_stay(2) [OF reads_only_for_sync]
        reads_stay(2) [OF reads_only_user_details] emits_for_each_in add_to_target_stays) simp
  show "emits (read_or_adds_for servers (set targets)) (sync_merge_playstate net servers targets include_resume)"
    unfolding sync_merge_playstate_def merge_target_def
    by (intro emits_if emits_ret emits_lift emits_andthen emits_case_prod emits_for_each_in add_to_target_stays
        reads_stay(2) [OF reads_only_merge_source]) simp
qed

subsection \<open>The union is all or nothing\<close>

interpretation play_sources: source_union "merge_source net servers include_resume" "\<lambda>source. servers (fst source) \<noteq> []"
  for net servers include_resume
proof
  show "reads_only (merge_source net servers include_resume source acc)" for source acc
    by (rule reads_only_merge_source)
  show "failures = [] \<and> servers (fst source) \<noteq> []"
    if "merge_source net servers include_resume source (u, failures) sent = (Inr (u', []), sent')"
    for source u failures sent u' sent'
    using that by (auto simp: merge_source_def Let_def andthen_Inr_iff split: prod.splits if_splits)
qed

text \<open>
  the union of several users is applied only when all of them were read.  Otherwise, an unknown
  server included, the run reports the incomplete snapshot with what failed, has sent reads only, and
  counts no success.
\<close>

theorem merge_all_or_nothing:
  assumes "sync_merge_playstate net servers targets include_resume sent = (Inr r, sent')"
  shows "(sr_error r = None \<and> (\<forall>target \<in> set targets. servers (fst target) \<noteq> []))
    \<or> (sr_error r = Some incomplete_snapshot \<and> sr_failed r \<noteq> [] \<and> sr_success r = [] \<and> sr_counts r = []
        \<and> (\<exists>rs. sent' = sent @ rs \<and> list_all (\<lambda>q. rq_method q = ''GET'') rs))"
proof -
  let ?sources = "for_each (merge_source net servers include_resume) targets (empty_union, [])"
  obtain u failures mid where sources: "?sources sent = (Inr (u, failures), mid)"
    and rest: "(if failures \<noteq> [] then ret ((error_result incomplete_snapshot)\<lparr>sr_failed := failures\<rparr>)
       else for_each (merge_target net servers include_resume u) targets empty_result) mid = (Inr r, sent')"
    using assms unfolding sync_merge_playstate_def by (auto simp: andthen_Inr_iff split: prod.splits)
  from play_sources.all_or_nothing [OF sources] obtain rs
    where rs: "mid = sent @ rs" "list_all (\<lambda>q. rq_method q = ''GET'') rs"
    and known: "failures = [] \<longrightarrow> (\<forall>target \<in> set targets. servers (fst target) \<noteq> [])" by blast
  show ?thesis
  proof (cases "failures = []")
    case False
    with rest rs show ?thesis by (auto simp: error_result_def empty_result_def)
  next
    case True
    have "yields (\<lambda>r. sr_error r = None) (for_each (merge_target net servers include_resume u) targets empty_result)"
    proof (rule yields_for_each)
      fix target and s :: sync_result
      assume "sr_error s = None"
      then show "yields (\<lambda>r. sr_error r = None) (merge_target net servers include_resume u target s)"
        unfolding merge_target_def add_to_target_def
        by (intro yields_rules)
           (simp_all add: note_failed_def record_added_def record_target_write_result_def Let_def)
    qed (simp add: empty_result_def)
    from yieldsD [OF this] rest True have "sr_error r = None" by simp
    with known True show ?thesis by auto
  qed
qed

theorem merge_all_or_nothing_witness:
  "\<exists>r. sync_merge_playstate (library_net (\<lambda>r. [])) (\<lambda>k. []) [(''a'', ''u'')] True [] = (Inr r, [])
    \<and> sr_error r = Some incomplete_snapshot \<and> sr_failed r \<noteq> [] \<and> sr_success r = []"
proof -
  have run: "sync_merge_playstate (library_net (\<lambda>r. [])) (\<lambda>k. []) [(''a'', ''u'')] True []
       = (Inr ((error_result incomplete_snapshot)\<lparr>sr_failed := [''Server a not found'']\<rparr>), [])"
    by (simp add: sync_merge_playstate_def merge_source_def)
  from merge_all_or_nothing [OF this] run show ?thesis by auto
qed

subsection \<open>The union keeps the first watch\<close>

text \<open>A date that is absent or can be read; \<open>a\<close> at least as early as \<open>b\<close>, any date being earlier
  than none.\<close>

definition readable_date :: "py \<Rightarrow> bool" where
  "readable_date v \<longleftrightarrow> \<not> truthy v \<or> (\<exists>t. dated v t)"

definition no_later :: "py \<Rightarrow> py \<Rightarrow> bool" where
  "no_later a b \<longleftrightarrow> \<not> truthy b \<or> (\<exists>s t. dated a s \<and> dated b t \<and> s \<le> t)"

definition first_watch :: "play_union \<Rightarrow> string \<Rightarrow> py option" where
  "first_watch u k = map_option (\<lambda>s. pget s ''last_played'') (map_of (pu_played u) k)"

lemma dated_unique: "dated v s \<Longrightarrow> dated v t \<Longrightarrow> s = t"
  by (simp add: dated_def)

lemma no_later_refl: "readable_date v \<Longrightarrow> no_later v v"
  by (auto simp: readable_date_def no_later_def)

lemma no_later_trans: "no_later a b \<Longrightarrow> no_later b c \<Longrightarrow> no_later a c"
  unfolding no_later_def by (metis dated_def dated_unique order_trans)

text \<open>What a part of the union run does to the first watches, \<open>recorded k v\<close> being the dates it saw.\<close>

definition keeps_first :: "(string \<Rightarrow> py \<Rightarrow> bool) \<Rightarrow> play_union \<Rightarrow> play_union \<Rightarrow> bool" where
  "keeps_first recorded u u' \<longleftrightarrow>
     (\<forall>k v. recorded k v \<longrightarrow> (\<exists>a. first_watch u' k = Some a \<and> no_later a v))
     \<and> (\<forall>k b. first_watch u k = Some b \<longrightarrow> (\<exists>a. first_watch u' k = Some a \<and> no_later a b))
     \<and> (\<forall>k a. first_watch u' k = Some a \<longrightarrow> first_watch u k = Some a \<or> recorded k a)"

definition dates_readable :: "play_union \<Rightarrow> bool" where
  "dates_readable u \<longleftrightarrow> (\<forall>k a. first_watch u k = Some a \<longrightarrow> readable_date a)"

lemma keeps_first_same:
  assumes "dates_readable u" "pu_played u' = pu_played u"
  shows "keeps_first (\<lambda>k v. False) u u'"
  using assms no_later_refl by (auto simp: keeps_first_def first_watch_def dates_readable_def)

lemma keeps_first_readable:
  "keeps_first recorded u u' \<Longrightarrow> dates_readable u \<Longrightarrow> (\<And>k v. recorded k v \<Longrightarrow> readable_date v) \<Longrightarrow> dates_readable u'"
  unfolding keeps_first_def dates_readable_def by blast

lemma keeps_first_then:
  assumes "keeps_first p u v" "keeps_first q v w"
  shows "keeps_first (\<lambda>k x. p k x \<or> q k x) u w"
  using assms unfolding keeps_first_def by (meson no_later_trans)

lemma merge_played_key_keeps:
  assumes "merge_played_key ud key u = Inr u'" "dates_readable u" "readable_date (pget ud ''LastPlayedDate'')"
  shows "keeps_first (\<lambda>k v. k = key \<and> v = pget ud ''LastPlayedDate'') u u'"
proof (cases "map_of (pu_played u) key")
  case None
  with assms(1) have u': "first_watch u' = (first_watch u)(key \<mapsto> pget ud ''LastPlayedDate'')"
    by (auto simp: merge_played_key_def Let_def first_watch_def fun_eq_iff)
  have "first_watch u key = None" using None by (simp add: first_watch_def)
  with u' assms(2,3) no_later_refl show ?thesis
    unfolding keeps_first_def dates_readable_def by auto
next
  case (Some s)
  let ?v = "pget ud ''LastPlayedDate''" and ?b = "pget s ''last_played''"
  have b: "readable_date ?b" using assms(2) Some by (auto simp: dates_readable_def first_watch_def)
  obtain older where older: "last_played_is_older ?v ?b = Inr older"
    and u': "u' = (if older then u\<lparr>pu_played := dset key (dset ''last_played'' ?v s) (pu_played u)\<rparr> else u)"
    using assms(1) Some by (auto simp: merge_played_key_def Let_def result_bind_Inr_iff)
  have "(older \<longrightarrow> no_later ?v ?b) \<and> (\<not> older \<longrightarrow> no_later ?b ?v)"
  proof (cases "truthy ?v \<and> truthy ?b")
    case True
    then obtain x y where d: "dated ?v x" "dated ?b y" using assms(3) b by (auto simp: readable_date_def)
    with older have "older = (x < y)" using older_dated [OF d] by simp
    with d show ?thesis unfolding no_later_def by (meson less_imp_le not_le)
  next
    case False
    with older b show ?thesis by (auto simp: last_played_is_older_def no_later_def)
  qed
  moreover have w: "first_watch u' = (if older then (first_watch u)(key \<mapsto> ?v) else first_watch u)"
    by (auto simp: u' first_watch_def fun_eq_iff)
  moreover have "first_watch u key = Some ?b" using Some by (simp add: first_watch_def)
  ultimately show ?thesis
    using assms(2,3) b no_later_refl unfolding keeps_first_def dates_readable_def by auto
qed

lemma merge_resume_key_played: "merge_resume_key ud key u = Inr u' \<Longrightarrow> pu_played u' = pu_played u"
  by (auto simp: merge_resume_key_def result_bind_Inr_iff)

lemma merge_item_key_keeps:
  assumes "merge_item_key include_resume ud key u = Inr u'" "dates_readable u" "readable_date (pget ud ''LastPlayedDate'')"
  shows "keeps_first (\<lambda>k v. truthy (pget ud ''Played'') \<and> k = key \<and> v = pget ud ''LastPlayedDate'') u u'"
proof -
  obtain mid where first: "(if truthy (pget ud ''Played'') then merge_played_key ud key u else Inr u) = Inr mid"
    and last: "(if has_resume include_resume ud then merge_resume_key ud key mid else Inr mid) = Inr u'"
    using assms(1) by (auto simp: merge_item_key_def result_bind_Inr_iff)
  have "pu_played u' = pu_played mid"
    using last merge_resume_key_played by (auto split: if_splits)
  then have same: "first_watch u' = first_watch mid" by (simp add: first_watch_def fun_eq_iff)
  have "keeps_first (\<lambda>k v. truthy (pget ud ''Played'') \<and> k = key \<and> v = pget ud ''LastPlayedDate'') u mid"
  proof (cases "truthy (pget ud ''Played'')")
    case True
    with first merge_played_key_keeps [OF _ assms(2,3)] show ?thesis by simp
  next
    case False
    with first keeps_first_same [OF assms(2)] show ?thesis by simp
  qed
  then show ?thesis unfolding keeps_first_def same .
qed

lemma merge_keys_keeps:
  assumes "merge_keys include_resume ud keys u = Inr u'" "dates_readable u" "readable_date (pget ud ''LastPlayedDate'')"
  shows "keeps_first (\<lambda>k v. truthy (pget ud ''Played'') \<and> k \<in> set keys \<and> v = pget ud ''LastPlayedDate'') u u'"
  using assms(1,2)
proof (induction keys arbitrary: u)
  case Nil
  with keeps_first_same [OF Nil(2)] show ?case by simp
next
  case (Cons key keys)
  obtain mid where first: "merge_item_key include_resume ud key u = Inr mid"
    and last: "merge_keys include_resume ud keys mid = Inr u'"
    using Cons.prems(1) by (auto simp: result_bind_Inr_iff)
  note k = merge_item_key_keeps [OF first Cons.prems(2) assms(3)]
  have "dates_readable mid" using keeps_first_readable [OF k Cons.prems(2)] assms(3) by simp
  from keeps_first_then [OF k Cons.IH [OF last this]]
  show ?case by (rule back_subst [of "\<lambda>p. keeps_first p u u'"]) auto
qed

text \<open>The dates the sources record for a key.\<close>

definition recorded :: "pdict list \<Rightarrow> string \<Rightarrow> py \<Rightarrow> bool" where
  "recorded items k v \<longleftrightarrow>
     (\<exists>item \<in> set items. \<exists>ud keys. user_data_get item = Inr ud \<and> truthy (pget ud ''Played'')
        \<and> get_item_sync_keys item = Inr keys \<and> k \<in> set keys \<and> v = pget ud ''LastPlayedDate'')"

definition dates_known :: "pdict list \<Rightarrow> bool" where
  "dates_known items \<longleftrightarrow>
     list_all (\<lambda>item. case user_data_get item of Inl e \<Rightarrow> True | Inr ud \<Rightarrow> readable_date (pget ud ''LastPlayedDate'')) items"

lemma recorded_Cons: "recorded (item # items) k v \<longleftrightarrow> recorded [item] k v \<or> recorded items k v"
  by (simp add: recorded_def)

lemma recorded_readable: "dates_known items \<Longrightarrow> recorded items k v \<Longrightarrow> readable_date v"
  by (auto simp: recorded_def dates_known_def list_all_iff split: sum.splits)

lemma merge_item_keeps:
  assumes "merge_item include_resume item u = Inr u'" "dates_readable u" "dates_known [item]"
  shows "keeps_first (recorded [item]) u u'"
proof -
  obtain ud keys where ud: "user_data_get item = Inr ud" and keys: "get_item_sync_keys item = Inr keys"
    and run: "(if keys = [] then Inr (add_unkeyed include_resume item ud u)
      else merge_keys include_resume ud keys (add_keys keys u)) = Inr u'"
    using assms(1) by (auto simp: merge_item_def result_bind_Inr_iff)
  have r: "recorded [item] = (\<lambda>k v. truthy (pget ud ''Played'') \<and> k \<in> set keys \<and> v = pget ud ''LastPlayedDate'')"
    by (auto simp: recorded_def fun_eq_iff ud keys)
  show ?thesis
  proof (cases "keys = []")
    case True
    have "pu_played (add_unkeyed include_resume item ud u) = pu_played u"
      by (simp add: add_unkeyed_def Let_def)
    with keeps_first_same [OF assms(2) this] run True show ?thesis by (simp add: r)
  next
    case False
    have "pu_played (add_keys keys u) = pu_played u" by (simp add: add_keys_def Let_def)
    then have same: "first_watch (add_keys keys u) = first_watch u" by (simp add: first_watch_def fun_eq_iff)
    have "keeps_first (recorded [item]) (add_keys keys u) u'"
      unfolding r using False run assms(2,3) same
      by (intro merge_keys_keeps [of include_resume]) (auto simp: dates_known_def ud dates_readable_def)
    then show ?thesis unfolding keeps_first_def same .
  qed
qed

lemma merge_items_keeps:
  assumes "merge_items include_resume items u = Inr u'" "dates_readable u" "dates_known items"
  shows "keeps_first (recorded items) u u'"
  using assms
proof (induction items arbitrary: u)
  case Nil
  then show ?case using keeps_first_same by (simp add: recorded_def)
next
  case (Cons item items)
  obtain mid where first: "merge_item include_resume item u = Inr mid"
    and last: "merge_items include_resume items mid = Inr u'"
    using Cons.prems(1) by (auto simp: result_bind_Inr_iff)
  have d: "dates_known [item]" "dates_known items" using Cons.prems(3) by (simp_all add: dates_known_def)
  note k = merge_item_keeps [OF first Cons.prems(2) d(1)]
  have "dates_readable mid" using keeps_first_readable [OF k Cons.prems(2) recorded_readable [OF d(1)]] .
  from keeps_first_then [OF k Cons.IH [OF last this d(2)]]
  show ?case unfolding recorded_Cons [of item items, abs_def] .
qed

lemma merge_items_append:
  "merge_items include_resume (xs @ ys) u = result_bind (merge_items include_resume xs u) (merge_items include_resume ys)"
proof (induction xs arbitrary: u)
  case (Cons x xs)
  show ?case by (cases "merge_item include_resume x u") (simp_all add: Cons)
qed simp

text \<open>
  the union keeps the first watch.  After the items of all sources were collected, a key that some
  source has as played is marked played, and its date is one that a source recorded for that key, and
  no source recorded an earlier one; an undated watch gives way to a dated one.  The hypothesis is that
  the sources' dates can be read.
\<close>

theorem union_keeps_first_watch:
  assumes "merge_items include_resume items empty_union = Inr u" "dates_known items" "recorded items k v"
  shows "\<exists>a. first_watch u k = Some a \<and> recorded items k a \<and> (\<forall>b. recorded items k b \<longrightarrow> no_later a b)"
proof -
  have "dates_readable empty_union" by (simp add: dates_readable_def first_watch_def empty_union_def)
  from merge_items_keeps [OF assms(1) this assms(2)] have keeps: "keeps_first (recorded items) empty_union u" .
  then obtain a where a: "first_watch u k = Some a" using assms(3) unfolding keeps_first_def by blast
  have "recorded items k a"
    using keeps a unfolding keeps_first_def by (auto simp: first_watch_def empty_union_def)
  moreover have "no_later a b" if "recorded items k b" for b
    using keeps a that unfolding keeps_first_def by fastforce
  ultimately show ?thesis using a by blast
qed

theorem union_keeps_first_watch_witness:
  "\<exists>u a. merge_items False [watched_film (PStr (iso_utc 2000000)), watched_film (PStr (iso_utc 1000000))] empty_union = Inr u
    \<and> first_watch u ''tmdb:42'' = Some a \<and> no_later a (PStr (iso_utc 1000000))"
proof -
  let ?items = "[watched_film (PStr (iso_utc 2000000)), watched_film (PStr (iso_utc 1000000))]"
  have d: "dated (PStr (iso_utc 2000000)) 2000000" "dated (PStr (iso_utc 1000000)) 1000000"
    by (simp_all add: dated_iso max_instant_def)
  have ud: "user_data_get (watched_film v) = Inr [(''Played'', PBool True), (''LastPlayedDate'', v)]" for v
    by (simp add: user_data_get_def watched_film_def as_object_def dget_default_def)
  have older: "last_played_is_older (PStr (iso_utc 1000000)) (PStr (iso_utc 2000000)) = Inr True"
    using older_dated [OF d(2,1)] by simp
  have "\<exists>u. merge_items False ?items empty_union = Inr u"
    using older
    by (simp add: merge_item_def ud watched_film_facts merge_item_key_def merge_played_key_def has_resume_def
        add_keys_def empty_union_def is_provider_key_def Let_def)
  then obtain u where run: "merge_items False ?items empty_union = Inr u" ..
  have known: "dates_known ?items"
    using d by (auto simp: dates_known_def ud readable_date_def)
  have rec: "recorded ?items ''tmdb:42'' (PStr (iso_utc 1000000))"
    using watched_film_facts ud by (auto simp: recorded_def)
  from union_keeps_first_watch [OF run known rec] run rec show ?thesis by blast
qed

subsection \<open>The union of two resume states\<close>

text \<open>
  two users' resume states of one item unite to the farther position, hidden when either user hid
  the item.
\<close>

theorem resume_union:
  assumes "merge_bootstrap_resume_state (Some existing) current = Inr merged" "existing \<noteq> []"
    and "state_position existing = Inr p" "state_position current = Inr q"
  shows "state_position merged = Inr (max p q)
    \<and> (truthy (pget merged ''hide_from_resume'') \<longleftrightarrow>
         truthy (pget existing ''hide_from_resume'') \<or> truthy (pget current ''hide_from_resume''))"
proof -
  obtain base where base: "(if q > p then Inr current else if q = p then newer_date existing current else Inr existing) = Inr base"
    and merged: "merged = merge_hidden existing current base"
    using assms by (auto simp: merge_bootstrap_resume_state_def result_bind_Inr_iff)
  have newer: "newer_date existing current = Inr s \<Longrightarrow>
      pget s ''position'' = pget existing ''position'' \<and> pget s ''hide_from_resume'' = pget existing ''hide_from_resume''" for s
    by (cases "both_instants (pget current ''last_played'') (pget existing ''last_played'')")
       (auto simp: newer_date_def result_bind_Inr_iff split: if_splits option.splits prod.splits)
  have "state_position base = Inr (max p q)"
    using base assms(3,4) newer by (auto simp: state_position_def split: if_splits)
  then have position: "state_position merged = Inr (max p q)"
    by (simp add: merged merge_hidden_def state_position_def)
  have "pget base ''hide_from_resume'' \<in> {pget existing ''hide_from_resume'', pget current ''hide_from_resume''}"
    using base newer by (auto split: if_splits)
  then have "truthy (pget merged ''hide_from_resume'') \<longleftrightarrow>
      truthy (pget existing ''hide_from_resume'') \<or> truthy (pget current ''hide_from_resume'')"
    by (auto simp: merged merge_hidden_def)
  with position show ?thesis by blast
qed

theorem resume_union_witness:
  "\<exists>merged. merge_bootstrap_resume_state (Some [(''position'', PInt 600), (''hide_from_resume'', PBool True)]) [(''position'', PInt 900)]
      = Inr merged
    \<and> state_position merged = Inr (max 600 900) \<and> truthy (pget merged ''hide_from_resume'')"
proof -
  have p: "state_position [(''position'', PInt 600), (''hide_from_resume'', PBool True)] = Inr 600"
    "state_position [(''position'', PInt 900)] = Inr 900"
    by (simp_all add: state_position_def py_or_def)
  then have "\<exists>merged. merge_bootstrap_resume_state (Some [(''position'', PInt 600), (''hide_from_resume'', PBool True)])
      [(''position'', PInt 900)] = Inr merged"
    by (simp add: merge_bootstrap_resume_state_def)
  then show ?thesis using resume_union [OF _ _ p] by auto
qed

end
