(* ===== verification/User_Favorites.thy ===== *)
theory User_Favorites
  imports Play_Merge "HOL-Library.List_Lexorder" "HOL-Library.Char_ord"
begin

text \<open>
  Favourites synchronised between users (\<open>FavoritesManager\<close> in \<open>emby_users/favorites_manager.py\<close>):
  the additive copy, the exact copy, a given set of keys applied to all targets, and the union of
  all users.  A set of keys is its elements in the order of insertion, without repetition; the
  order Python walks a set in is \<open>n_order\<close>.  Logging is left out.  The lookups are those of
  \<open>Emby_Lookup\<close>.
\<close>

subsection \<open>Results\<close>

record favorite_result =
  fv_success :: "string list"
  fv_failed :: "string list"
  fv_counts :: "(string, nat) dict"
  fv_cleared :: "(string, nat) dict"
  fv_missing :: "(string, nat) dict"
  fv_error :: "string option"

definition no_favorites :: favorite_result where
  "no_favorites = \<lparr>fv_success = [], fv_failed = [], fv_counts = [], fv_cleared = [], fv_missing = [], fv_error = None\<rparr>"

definition favorites_error :: "string \<Rightarrow> favorite_result" where
  "favorites_error message = no_favorites\<lparr>fv_error := Some message\<rparr>"

definition fail_favorites :: "string \<Rightarrow> favorite_result \<Rightarrow> favorite_result" where
  "fail_favorites message r = r\<lparr>fv_failed := fv_failed r @ [message]\<rparr>"

definition server_not_found :: "string \<Rightarrow> string" where
  "server_not_found server_id = ''Server '' @ server_id @ '' not found''"

text \<open>\<open>_record_target_outcome\<close>.\<close>

definition record_target_outcome :: "string \<Rightarrow> string list \<Rightarrow> string list \<Rightarrow> favorite_result \<Rightarrow> favorite_result" where
  "record_target_outcome label lookup_errors write_errors r =
     (let r = (if lookup_errors \<noteq> []
               then fail_favorites (label @ '': '' @ str_nat (length lookup_errors) @ '' fallback lookup(s) failed'') r
               else r);
          r = (if write_errors \<noteq> []
               then fail_favorites (label @ '': '' @ str_nat (length write_errors) @ '' update(s) failed'') r else r)
      in if lookup_errors = [] \<and> write_errors = [] then r\<lparr>fv_success := fv_success r @ [label]\<rparr> else r)"

subsection \<open>Keys of the source\<close>

definition collect_source_key :: "pdict \<Rightarrow> string list \<times> pdict list \<Rightarrow> exn + string list \<times> pdict list" where
  "collect_source_key item acc =
     (case acc of (keys, unkeyed) \<Rightarrow>
        result_bind (get_item_sync_keys item) (\<lambda>ks. Inr (
          if ks \<noteq> [] then (foldl (\<lambda>s k. add_to_set k s) keys ks, unkeyed)
          else if item_type item \<noteq> PStr ''Episode'' then (keys, unkeyed @ [item])
          else (keys, unkeyed))))"

fun collect_source_keys :: "pdict list \<Rightarrow> string list \<times> pdict list \<Rightarrow> exn + string list \<times> pdict list" where
  "collect_source_keys [] acc = Inr acc"
| "collect_source_keys (item # items) acc =
     result_bind (collect_source_key item acc) (collect_source_keys items)"

definition favorite_item_types :: string where
  "favorite_item_types = ''Movie,Episode,Series''"

definition is_favorite :: "pdict \<Rightarrow> exn + bool" where
  "is_favorite item = result_bind (user_data_or item) (\<lambda>ud. Inr (truthy (pget ud ''IsFavorite'')))"

subsection \<open>Writes\<close>

record favorite_counts =
  fc_updated :: nat
  fc_cleared :: nat
  fc_errors :: "string list"

definition no_favorite_counts :: favorite_counts where
  "no_favorite_counts = \<lparr>fc_updated = 0, fc_cleared = 0, fc_errors = []\<rparr>"

definition write_favorite ::
  "emby_net \<Rightarrow> pdict \<Rightarrow> string \<Rightarrow> string \<Rightarrow> bool \<Rightarrow> favorite_counts \<Rightarrow> favorite_counts act" where
  "write_favorite net server user_id item favorite c =
     andthen (set_item_favorite net server user_id item favorite) (\<lambda>(success, err). ret (
       if success
       then c\<lparr>fc_updated := fc_updated c + 1, fc_cleared := fc_cleared c + (if favorite then 0 else 1)\<rparr>
       else c\<lparr>fc_errors := fc_errors c @ [write_error item err ''write failed'']\<rparr>))"

subsection \<open>The additive copy\<close>

record favorite_matches =
  fm_items :: "pdict list"
  fm_ids :: "string list"
  fm_errors :: "string list"

definition known_ids :: "pdict list \<Rightarrow> string list" where
  "known_ids items = foldl (\<lambda>s it. if item_id it = [] then s else add_to_set (item_id it) s) [] items"

definition add_match :: "pdict \<Rightarrow> favorite_matches \<Rightarrow> favorite_matches" where
  "add_match item m =
     m\<lparr>fm_items := fm_items m @ [item],
       fm_ids := (if item_id item = [] then fm_ids m else add_to_set (item_id item) (fm_ids m))\<rparr>"

text \<open>An item of the full scan whose keys are wanted.\<close>

definition scan_item :: "string list \<Rightarrow> pdict \<Rightarrow> favorite_matches \<Rightarrow> exn + favorite_matches" where
  "scan_item source_keys item m =
     (if item_id item \<in> set (fm_ids m) then Inr m
      else result_bind (get_item_sync_keys item) (\<lambda>keys. Inr (
        if list_ex (\<lambda>k. k \<in> set source_keys) keys then add_match item m else m)))"

definition add_unkeyed_match ::
  "emby_net \<Rightarrow> pdict \<Rightarrow> string \<Rightarrow> pdict \<Rightarrow> favorite_matches \<Rightarrow> favorite_matches act" where
  "add_unkeyed_match net server user_id source_item m =
     andthen (fetch_items_by_safe_fallback net server user_id source_item) (\<lambda>(found, err). ret (
       if truthy err then m\<lparr>fm_errors := fm_errors m @ [py_str err]\<rparr>
       else foldl (\<lambda>m it. if item_id it \<noteq> [] \<and> item_id it \<notin> set (fm_ids m) then add_match it m else m) m found))"

text \<open>The provider lookup, or the full scan when it fails; \<open>None\<close> when the scan fails too.\<close>

definition match_favorites ::
  "emby_net \<Rightarrow> pdict \<Rightarrow> string \<Rightarrow> string list \<Rightarrow> favorite_matches option act" where
  "match_favorites net server user_id source_keys =
     (let provider_keys = filter is_provider_key source_keys in
      andthen
        (if provider_keys = [] then ret ([], PNone)
         else fetch_items_by_provider_ids net server user_id (n_order net provider_keys) True favorite_item_types)
        (\<lambda>(items, err).
           let m = \<lparr>fm_items = items, fm_ids = known_ids items, fm_errors = []\<rparr> in
           if truthy err
           then andthen (fetch_user_media_items net server user_id) (\<lambda>(all_items, all_err).
             if truthy all_err then ret None
             else andthen (for_each (\<lambda>it m. lift (scan_item source_keys it m)) all_items m) (\<lambda>m. ret (Some m)))
           else ret (Some m)))"

definition add_favorite ::
  "emby_net \<Rightarrow> pdict \<Rightarrow> string \<Rightarrow> pdict \<Rightarrow> favorite_counts \<Rightarrow> favorite_counts act" where
  "add_favorite net server user_id item c =
     (if item_id item = [] then ret c
      else andthen (lift (is_favorite item)) (\<lambda>already.
        if already then ret c else write_favorite net server user_id (item_id item) True c))"

definition favorites_label :: "pdict \<Rightarrow> string \<Rightarrow> string" where
  "favorites_label server server_id =
     py_str (py_or (py_or (py_or (pget server ''alias'') (pget server ''name'')) (pget server ''id'')) (PStr server_id))"

definition add_favorites_target ::
  "emby_net \<Rightarrow> servers \<Rightarrow> nat \<Rightarrow> string list \<Rightarrow> pdict list \<Rightarrow> string \<times> string \<Rightarrow> favorite_result \<Rightarrow> favorite_result act" where
  "add_favorites_target net servers source_count source_keys unkeyed target r =
     (case target of (server_id, user_id) \<Rightarrow>
        let server = servers server_id; label = favorites_label server server_id in
        if server = [] then ret (fail_favorites (server_not_found server_id) r)
        else andthen (match_favorites net server user_id source_keys) (\<lambda>found.
          case found of
            None \<Rightarrow> ret (fail_favorites (label @ '': Fetch error'') r)
          | Some m \<Rightarrow>
              andthen (for_each (add_unkeyed_match net server user_id) unkeyed m) (\<lambda>m.
              andthen (for_each (add_favorite net server user_id) (fm_items m) no_favorite_counts) (\<lambda>c.
                let r = record_target_outcome label (fm_errors m) (fc_errors c) r
                in ret (r\<lparr>fv_counts := dset label (fc_updated c) (fv_counts r),
                          fv_missing := dset label (source_count - length (fm_ids m)) (fv_missing r)\<rparr>)))))"

definition sync_user_favorites ::
  "emby_net \<Rightarrow> servers \<Rightarrow> string \<Rightarrow> string \<Rightarrow> (string \<times> string) list \<Rightarrow> favorite_result act" where
  "sync_user_favorites net servers source_server_id source_user_id targets =
     (let source = servers source_server_id in
      if source = [] then ret (favorites_error ''Source server not found'')
      else andthen (fetch_user_favorite_items net source source_user_id) (\<lambda>(items, err).
        if truthy err then ret (favorites_error (''Failed to fetch source favorites: '' @ py_str err))
        else andthen (lift (collect_source_keys items ([], []))) (\<lambda>(keys, unkeyed).
          for_each (add_favorites_target net servers (length items) keys unkeyed) targets no_favorites)))"

subsection \<open>A set of keys applied to the targets, with removals\<close>

record favorite_pass =
  fp_counts :: favorite_counts
  fp_matched :: "string list"

definition settle_favorite ::
  "emby_net \<Rightarrow> pdict \<Rightarrow> string \<Rightarrow> string list \<Rightarrow> string list \<Rightarrow> pdict \<Rightarrow> favorite_pass \<Rightarrow> favorite_pass act" where
  "settle_favorite net server user_id favorite_keys lookup_keys item p =
     (if item_id item = [] then ret p
      else andthen (lift (get_item_sync_keys item)) (\<lambda>keys.
        if \<not> list_ex (\<lambda>k. k \<in> set lookup_keys) keys then ret p
        else
          let p = p\<lparr>fp_matched := foldl (\<lambda>s k. add_to_set k s) (fp_matched p) (filter (\<lambda>k. k \<in> set favorite_keys) keys)\<rparr>;
              wanted = list_ex (\<lambda>k. k \<in> set favorite_keys) keys in
          andthen (lift (is_favorite item)) (\<lambda>already.
            if wanted = already then ret p
            else andthen (write_favorite net server user_id (item_id item) wanted (fp_counts p)) (\<lambda>c.
              ret (p\<lparr>fp_counts := c\<rparr>)))))"

definition lookup_favorites ::
  "emby_net \<Rightarrow> pdict \<Rightarrow> string \<Rightarrow> string list \<Rightarrow> items_result act" where
  "lookup_favorites net server user_id lookup_keys =
     (if lookup_keys = [] then ret ([], PNone)
      else fetch_items_by_provider_ids net server user_id lookup_keys True favorite_item_types)"

definition keys_target ::
  "emby_net \<Rightarrow> servers \<Rightarrow> string list \<Rightarrow> string \<times> string \<Rightarrow> favorite_result \<Rightarrow> favorite_result act" where
  "keys_target net servers favorite_keys target r =
     (case target of (server_id, user_id) \<Rightarrow>
        let server = servers server_id; label = target_label server in
        if server = [] then ret (fail_favorites (server_not_found server_id) r)
        else andthen (fetch_user_favorite_items net server user_id) (\<lambda>(target_items, target_err).
          if truthy target_err then ret (fail_favorites (label @ '': Fetch error'') r)
          else andthen (lift (collect_source_keys target_items ([], []))) (\<lambda>(target_keys, target_unkeyed).
            let lookup_keys = sort (foldl (\<lambda>s k. add_to_set k s) favorite_keys target_keys) in
            andthen (lookup_favorites net server user_id lookup_keys) (\<lambda>(found, err).
              if truthy err then ret (fail_favorites (label @ '': Provider lookup error'') r)
              else andthen (for_each (settle_favorite net server user_id favorite_keys lookup_keys) found
                \<lparr>fp_counts = no_favorite_counts, fp_matched = []\<rparr>) (\<lambda>p.
                let c = fp_counts p; r = record_target_outcome label [] (fc_errors c) r
                in ret (r\<lparr>fv_counts := dset label (fc_updated c) (fv_counts r),
                          fv_cleared := dset label (fc_cleared c) (fv_cleared r),
                          fv_missing := dset label (length (filter (\<lambda>k. k \<notin> set (fp_matched p)) favorite_keys))
                                          (fv_missing r)\<rparr>))))))"

definition sync_user_favorites_to_keys ::
  "emby_net \<Rightarrow> servers \<Rightarrow> string list \<Rightarrow> (string \<times> string) list \<Rightarrow> favorite_result act" where
  "sync_user_favorites_to_keys net servers favorite_keys targets =
     for_each (keys_target net servers (remdups favorite_keys)) targets no_favorites"

definition sync_user_favorites_exact ::
  "emby_net \<Rightarrow> servers \<Rightarrow> string \<Rightarrow> string \<Rightarrow> (string \<times> string) list \<Rightarrow> favorite_result act" where
  "sync_user_favorites_exact net servers source_server_id source_user_id targets =
     (let source = servers source_server_id in
      if source = [] then ret (favorites_error ''Source server not found'')
      else andthen (fetch_user_favorite_items net source source_user_id) (\<lambda>(items, err).
        if truthy err then ret (favorites_error (''Failed to fetch source favorites: '' @ py_str err))
        else andthen (lift (collect_source_keys items ([], []))) (\<lambda>(keys, unkeyed).
          for_each (keys_target net servers keys) targets no_favorites)))"

subsection \<open>The union of all users\<close>

definition merge_favorite_source ::
  "emby_net \<Rightarrow> servers \<Rightarrow> string \<times> string \<Rightarrow> string list \<times> string list \<Rightarrow> (string list \<times> string list) act" where
  "merge_favorite_source net servers source acc =
     (case source of (server_id, user_id) \<Rightarrow> case acc of (keys, failures) \<Rightarrow>
        let server = servers server_id in
        if server = [] then ret (keys, failures @ [server_not_found server_id])
        else andthen (fetch_user_favorite_items net server user_id) (\<lambda>(items, err).
          if truthy err then ret (keys, failures @ [target_label server @ '': Fetch error''])
          else andthen (lift (collect_source_keys items ([], []))) (\<lambda>(source_keys, unkeyed).
            ret (foldl (\<lambda>s k. add_to_set k s) keys source_keys, failures))))"

definition favorites_aborted :: string where
  "favorites_aborted = ''Favorites bootstrap aborted: incomplete source snapshot''"

definition sync_merge_favorites ::
  "emby_net \<Rightarrow> servers \<Rightarrow> (string \<times> string) list \<Rightarrow> favorite_result act" where
  "sync_merge_favorites net servers targets =
     andthen (for_each (merge_favorite_source net servers) targets ([], [])) (\<lambda>(keys, failures).
       if failures \<noteq> [] then ret ((favorites_error favorites_aborted)\<lparr>fv_failed := failures\<rparr>)
       else andthen (sync_user_favorites_to_keys net servers keys targets) (\<lambda>applied.
         ret (applied\<lparr>fv_cleared := [], fv_error := None\<rparr>)))"

subsection \<open>One write for every item that disagrees\<close>

definition favorite_request :: "pdict \<Rightarrow> string \<Rightarrow> string \<Rightarrow> bool \<Rightarrow> emby_request" where
  "favorite_request server user_id item wanted =
     \<lparr>rq_method = (if wanted then ''POST'' else ''DELETE''),
      rq_target = (case emby_base_url server of None \<Rightarrow> [] | Some base \<Rightarrow> base) @ ''/Users/'' @ user_id @ ''/FavoriteItems/'' @ item,
      rq_token = strip (text_or_empty (pget server ''api_key'')), rq_params = [], rq_json = None\<rparr>"

definition wanted_favorite :: "string list \<Rightarrow> string list \<Rightarrow> pdict \<Rightarrow> bool option" where
  "wanted_favorite favorite_keys lookup_keys item =
     (case get_item_sync_keys item of
        Inr keys \<Rightarrow>
          if item_id item \<noteq> [] \<and> list_ex (\<lambda>k. k \<in> set lookup_keys) keys
          then Some (list_ex (\<lambda>k. k \<in> set favorite_keys) keys) else None
      | Inl e \<Rightarrow> None)"

definition favorite_writes ::
  "pdict \<Rightarrow> string \<Rightarrow> string list \<Rightarrow> string list \<Rightarrow> pdict list \<Rightarrow> emby_request list" where
  "favorite_writes server user_id favorite_keys lookup_keys items =
     List.map_filter (\<lambda>item.
       case wanted_favorite favorite_keys lookup_keys item of
         None \<Rightarrow> None
       | Some wanted \<Rightarrow>
           if is_favorite item = Inr wanted then None
           else Some (favorite_request server user_id (item_id item) wanted)) items"

lemma call_returns: "\<exists>success payload sent'. call_emby_api net server path m params json sent = (Inr (success, payload), sent')"
  by (auto simp: call_emby_api_def send_def Let_def answer_of_def ret_def split: option.splits http_reply.splits)

lemma write_favorite_sends:
  assumes "reachable server" "user_id \<noteq> []" "item \<noteq> []"
    and "write_favorite net server user_id item wanted c sent = (Inr c', sent')"
  shows "sent' = sent @ [favorite_request server user_id item wanted]
    \<and> fc_updated c' + length (fc_errors c') = fc_updated c + length (fc_errors c) + 1"
proof -
  obtain base where "emby_base_url server = Some base" "base \<noteq> []"
    using assms(1) by (auto simp: reachable_def)
  with assms show ?thesis
    by (auto simp: write_favorite_def set_item_favorite_def reachable_def call_emby_api_def send_def Let_def
        id_path_def favorite_request_def lstrip_char_def andthen_def ret_def split: prod.splits if_splits)
qed

lemma settle_favorite_sends:
  assumes "reachable server" "user_id \<noteq> []"
    and "settle_favorite net server user_id favorite_keys lookup_keys item p sent = (Inr p', sent')"
  defines "writes \<equiv> favorite_writes server user_id favorite_keys lookup_keys [item]"
  shows "sent' = sent @ writes
    \<and> fc_updated (fp_counts p') + length (fc_errors (fp_counts p'))
      = fc_updated (fp_counts p) + length (fc_errors (fp_counts p)) + length writes"
proof (cases "item_id item = []")
  case True
  with assms(3) show ?thesis
    by (simp add: settle_favorite_def writes_def favorite_writes_def wanted_favorite_def List.map_filter_def split: sum.splits)
next
  case False
  from assms(3) False obtain keys where keys: "get_item_sync_keys item = Inr keys"
    by (auto simp: settle_favorite_def andthen_Inr_iff)
  show ?thesis
  proof (cases "list_ex (\<lambda>k. k \<in> set lookup_keys) keys")
    case looked: True
    from assms(3) False keys looked obtain already where fav: "is_favorite item = Inr already"
      by (auto simp: settle_favorite_def andthen_Inr_iff Let_def)
    show ?thesis
      using assms(3) False keys looked fav write_favorite_sends [OF assms(1,2) False]
      by (fastforce simp: settle_favorite_def andthen_Inr_iff Let_def writes_def favorite_writes_def
          wanted_favorite_def List.map_filter_def split: if_splits)
  next
    case unlooked: False
    with assms(3) False keys show ?thesis
      by (simp add: settle_favorite_def writes_def favorite_writes_def wanted_favorite_def List.map_filter_def)
  qed
qed

text \<open>
  C22: the exact synchronisation of favourites is minimal and complete on what the lookup found: the
  pass over the found items sends exactly one write for every item whose flag differs from the wanted
  one, in their order, a POST to set it and a DELETE to clear it, and nothing else; every write is
  counted as an update or reported as an error.  The hypotheses: the server can be reached, and the
  pass did not end in an exception.
\<close>

theorem favorite_writes_exactly:
  assumes "reachable server" "user_id \<noteq> []"
    and "for_each (settle_favorite net server user_id favorite_keys lookup_keys) found p sent = (Inr p', sent')"
  shows "sent' = sent @ favorite_writes server user_id favorite_keys lookup_keys found
    \<and> fc_updated (fp_counts p') + length (fc_errors (fp_counts p'))
      = fc_updated (fp_counts p) + length (fc_errors (fp_counts p))
        + length (favorite_writes server user_id favorite_keys lookup_keys found)"
  using assms(3)
proof (induction found arbitrary: p sent)
  case Nil
  then show ?case by (simp add: favorite_writes_def List.map_filter_def)
next
  case (Cons item found)
  then obtain q mid where first: "settle_favorite net server user_id favorite_keys lookup_keys item p sent = (Inr q, mid)"
    and rest: "for_each (settle_favorite net server user_id favorite_keys lookup_keys) found q mid = (Inr p', sent')"
    by (auto simp: andthen_Inr_iff)
  have split: "favorite_writes server user_id favorite_keys lookup_keys (item # found)
    = favorite_writes server user_id favorite_keys lookup_keys [item]
      @ favorite_writes server user_id favorite_keys lookup_keys found"
    by (simp add: favorite_writes_def) (simp add: List.map_filter_def split: option.splits)
  from settle_favorite_sends [OF assms(1,2) first] Cons.IH [OF rest] show ?case
    unfolding split by simp
qed

theorem favorite_writes_exactly_witness:
  "\<exists>p. for_each (settle_favorite (library_net (\<lambda>r. [])) (sample_server ''a'') ''u'' [''tmdb:42''] [''tmdb:42''])
       [watched_film PNone] \<lparr>fp_counts = no_favorite_counts, fp_matched = []\<rparr> []
     = (Inr p, [favorite_request (sample_server ''a'') ''u'' ''5'' True])
   \<and> fc_updated (fp_counts p) + length (fc_errors (fp_counts p)) = 1"
proof -
  let ?p = "\<lparr>fp_counts = no_favorite_counts, fp_matched = []\<rparr>"
  let ?run = "for_each (settle_favorite (library_net (\<lambda>r. [])) (sample_server ''a'') ''u'' [''tmdb:42''] [''tmdb:42''])
    [watched_film PNone] ?p []"
  have flag: "is_favorite (watched_film PNone) = Inr False"
    by (simp add: is_favorite_def watched_film_facts)
  then have writes: "favorite_writes (sample_server ''a'') ''u'' [''tmdb:42''] [''tmdb:42''] [watched_film PNone]
    = [favorite_request (sample_server ''a'') ''u'' ''5'' True]"
    by (simp add: favorite_writes_def wanted_favorite_def watched_film_facts List.map_filter_def)
  have "\<exists>r. write_favorite (library_net (\<lambda>r. [])) (sample_server ''a'') ''u'' ''5'' True c sent = (Inr (fst r), snd r)"
    for c sent
    using call_returns [of "library_net (\<lambda>r. [])" "sample_server ''a''" "id_path ''u'' ''FavoriteItems/5''" "''POST''" "[]" None sent]
    by (auto simp: write_favorite_def set_item_favorite_def andthen_def ret_def split: prod.splits)
  then have "\<exists>p' sent'. ?run = (Inr p', sent')"
    by (auto simp: settle_favorite_def watched_film_facts flag andthen_def split: prod.splits sum.splits)
       (metis Inl_Inr_False prod.inject)
  then obtain p' sent' where run: "?run = (Inr p', sent')" by blast
  have "strip ''a'' \<noteq> []" by code_simp
  then have server: "reachable (sample_server ''a'')" by (rule sample_server_reachable)
  have "(''u''::string) \<noteq> []" by simp
  from favorite_writes_exactly [OF server this run] run show ?thesis
    by (auto simp: writes no_favorite_counts_def)
qed

subsection \<open>Items without provider ids\<close>

text \<open>A title without the bar that separates the parts of a fallback key, and a year as Emby gives it.\<close>

definition plain_item :: "pdict \<Rightarrow> bool" where
  "plain_item item \<longleftrightarrow>
     CHR ''|'' \<notin> set (text_or_empty (pget item ''Name''))
     \<and> (pget item ''ProductionYear'' = PNone \<or> (\<exists>y. pget item ''ProductionYear'' = PInt y))"

lemma lower_char_bar: "lower_char c = CHR ''|'' \<longleftrightarrow> c = CHR ''|''"
proof
  assume h: "lower_char c = CHR ''|''"
  have bar: "code (CHR ''|'') = 124" by (simp add: code_def)
  show "c = CHR ''|''"
  proof (cases "(65 \<le> code c \<and> code c \<le> 90) \<or> (192 \<le> code c \<and> code c \<le> 222 \<and> code c \<noteq> 215)")
    case True
    then have "code (lower_char c) = code c + 32"
      by (auto simp: lower_char_def Let_def)
    with h bar True show ?thesis by auto
  next
    case False
    with h show ?thesis by (simp add: lower_char_def Let_def)
  qed
qed (simp add: lower_char_def code_def)

lemma lower_no_bar: "CHR ''|'' \<notin> set s \<Longrightarrow> CHR ''|'' \<notin> set (lower s)"
  unfolding lower_def set_map by (metis imageE lower_char_bar)

lemma strip_no_bar: "CHR ''|'' \<notin> set s \<Longrightarrow> CHR ''|'' \<notin> set (strip s)"
  using set_strip by blast

lemma fallback_key_part_plain:
  assumes "CHR ''|'' \<notin> set s"
  shows "fallback_key_part (PStr s) = lower (strip s)"
proof -
  have "CHR ''|'' \<notin> set (lower (strip s))"
    using assms by (intro lower_no_bar strip_no_bar)
  moreover have "text_or_empty (PStr s) = s" by (simp add: text_or_empty_def py_str_def)
  ultimately show ?thesis
    by (simp add: fallback_key_part_def normalize_string_def replace_char_absent)
qed

lemma strip_str_int [simp]: "strip (str_int y) = str_int y"
proof -
  have "\<not> is_space (CHR ''-'')" by code_simp
  then have "\<forall>c \<in> set (str_int y). \<not> is_space c"
    using no_space_in_digits [OF str_nat_digits] by (auto simp: str_int_def)
  then show ?thesis unfolding strip_fixed_iff by (auto simp: hd_in_set last_in_set)
qed

lemma str_int_no_bar [simp]: "CHR ''|'' \<notin> set (str_int y)"
  using str_nat_digits by (auto simp: str_int_def list_all_iff is_digit_def code_def) force+

lemma keyless_unsigned:
  assumes "get_item_sync_keys item = Inr []" "item_type item \<noteq> PStr ''Episode''" "plain_item item"
  shows "get_safe_fallback_signature item = Inr None"
proof -
  have keys: "get_safe_fallback_keys item = Inr []"
    using assms(1,2) by (simp add: get_item_sync_keys_def split: option.splits prod.splits)
  then obtain s where s: "get_safe_fallback_signature item = Inr s"
    and none: "(case s of None \<Rightarrow> [] | Some g \<Rightarrow> movie_fallback_keys g) = []"
    using assms(2) by (auto simp: get_safe_fallback_keys_def result_bind_Inr_iff)
  show ?thesis
  proof (cases s)
    case (Some g)
    with s assms(2) obtain runtime where g: "movie_signature item runtime = Some g"
      by (auto simp: get_safe_fallback_signature_def result_bind_Inr_iff split: if_splits)
    let ?name = "text_or_empty (pget item ''Name'')"
    from g assms(3) obtain y where y: "pget item ''ProductionYear'' = PInt y"
      and title: "lower (strip ?name) \<noteq> []"
      and sig: "g = MovieSignature (lower (strip ?name)) (normalize_string (pget item ''OriginalTitle'')) (str_int y) runtime"
      by (auto simp: movie_signature_def plain_item_def Let_def normalize_string_def py_str_def split: if_splits)
    have "CHR ''|'' \<notin> set (lower (strip ?name))"
      using assms(3) by (intro lower_no_bar strip_no_bar) (simp add: plain_item_def)
    then have "fallback_key_part (PStr (lower (strip ?name))) \<noteq> []"
      using title by (simp add: fallback_key_part_plain)
    moreover have "fallback_key_part (PStr (str_int y)) \<noteq> []"
      by (simp add: fallback_key_part_plain)
    ultimately have "movie_fallback_keys g \<noteq> []"
      by (simp add: sig movie_fallback_keys_def Let_def)
    with none Some show ?thesis by simp
  qed (simp add: s)
qed

definition unidentified :: "pdict \<Rightarrow> bool" where
  "unidentified item \<longleftrightarrow>
     plain_item item \<and> (case get_item_sync_keys item of Inr keys \<Rightarrow> \<not> list_ex is_provider_key keys | Inl e \<Rightarrow> False)"

lemma set_add_to_set [simp]: "set (foldl (\<lambda>s k. add_to_set k s) s ks) = set s \<union> set ks"
  by (induction ks arbitrary: s) (auto simp: add_to_set_def)

lemma collect_unidentified:
  assumes "list_all unidentified items" "\<not> list_ex is_provider_key keys"
    and "list_all (\<lambda>it. get_safe_fallback_signature it = Inr None) unkeyed"
  shows "\<exists>keys' unkeyed'. collect_source_keys items (keys, unkeyed) = Inr (keys', unkeyed')
    \<and> \<not> list_ex is_provider_key keys' \<and> list_all (\<lambda>it. get_safe_fallback_signature it = Inr None) unkeyed'"
  using assms
proof (induction items arbitrary: keys unkeyed)
  case (Cons item items)
  from Cons.prems(1) obtain ks where ks: "get_item_sync_keys item = Inr ks" "\<not> list_ex is_provider_key ks"
    and plain: "plain_item item"
    by (auto simp: unidentified_def split: sum.splits)
  obtain keys1 unkeyed1 where step: "collect_source_key item (keys, unkeyed) = Inr (keys1, unkeyed1)"
    and inv: "\<not> list_ex is_provider_key keys1" "list_all (\<lambda>it. get_safe_fallback_signature it = Inr None) unkeyed1"
    using Cons.prems(2,3) ks keyless_unsigned [OF _ _ plain]
    by (cases "ks = []"; cases "item_type item = PStr ''Episode''") (auto simp: collect_source_key_def list_ex_iff)
  from Cons.IH [OF _ inv] Cons.prems(1) step show ?case by simp
qed simp

lemma set_dset_le: "set (dset k v d) \<subseteq> insert (k, v) (set d)"
  by (induction d) (auto simp: dset_def)

lemma unsigned_not_searched:
  assumes "user_id \<noteq> []" "list_all (\<lambda>it. get_safe_fallback_signature it = Inr None) unkeyed"
  shows "for_each (add_unkeyed_match net server user_id) unkeyed m sent = (Inr m, sent)"
  using assms
  by (induction unkeyed) (simp_all add: add_unkeyed_match_def fetch_items_by_safe_fallback_def andthen_def)

lemma add_nothing_target:
  assumes "servers (fst target) \<noteq> []" "snd target \<noteq> []" "\<not> list_ex is_provider_key keys"
    and "list_all (\<lambda>it. get_safe_fallback_signature it = Inr None) unkeyed"
  shows "add_favorites_target net servers n keys unkeyed target r sent
    = (let label = favorites_label (servers (fst target)) (fst target)
       in (Inr (r\<lparr>fv_success := fv_success r @ [label], fv_counts := dset label 0 (fv_counts r),
                  fv_missing := dset label n (fv_missing r)\<rparr>), sent))"
proof -
  have "filter is_provider_key keys = []" using assms(3) by (simp add: list_ex_iff filter_empty_conv)
  then have none: "match_favorites net server user_id keys sent
      = (Inr (Some \<lparr>fm_items = [], fm_ids = [], fm_errors = []\<rparr>), sent)" for server user_id
    by (simp add: match_favorites_def known_ids_def Let_def)
  show ?thesis
    using assms(1,2) unsigned_not_searched [OF assms(2,4)]
    by (cases target) (simp add: add_favorites_target_def none andthen_def record_target_outcome_def no_favorite_counts_def Let_def)
qed

text \<open>
  favourites without provider ids are not copied, and the copy reports success.  When no favourite
  of the source has a provider id, the additive copy, once it has read them, sends no request at all,
  neither a lookup by the fallback keys these items have nor a search by signature; it lists every
  target as successful, with no update, and counts all items as missing.
\<close>

theorem favorites_need_provider_ids:
  assumes "fetch_user_favorite_items net (servers source_server_id) source_user_id sent = (Inr (items, PNone), sent')"
    and "servers source_server_id \<noteq> []" "list_all unidentified items"
    and "\<forall>target \<in> set targets. servers (fst target) \<noteq> [] \<and> snd target \<noteq> []"
  shows "\<exists>r. sync_user_favorites net servers source_server_id source_user_id targets sent = (Inr r, sent')
    \<and> fv_failed r = [] \<and> fv_error r = None
    \<and> fv_success r = map (\<lambda>target. favorites_label (servers (fst target)) (fst target)) targets
    \<and> (\<forall>(label, updated) \<in> set (fv_counts r). updated = 0)"
proof -
  obtain keys unkeyed where source: "collect_source_keys items ([], []) = Inr (keys, unkeyed)"
    "\<not> list_ex is_provider_key keys" "list_all (\<lambda>it. get_safe_fallback_signature it = Inr None) unkeyed"
    using collect_unidentified [OF assms(3), of "[]" "[]"] by auto
  have loop: "\<exists>r'. for_each (add_favorites_target net servers n keys unkeyed) ts r sent' = (Inr r', sent')
      \<and> fv_failed r' = fv_failed r \<and> fv_error r' = fv_error r
      \<and> fv_success r' = fv_success r @ map (\<lambda>target. favorites_label (servers (fst target)) (fst target)) ts
      \<and> (\<forall>(label, updated) \<in> set (fv_counts r'). updated = 0)"
    if "\<forall>target \<in> set ts. servers (fst target) \<noteq> [] \<and> snd target \<noteq> []"
      "\<forall>(label, updated) \<in> set (fv_counts r). updated = 0" for n ts r
    using that
  proof (induction ts arbitrary: r)
    case (Cons target ts)
    let ?label = "favorites_label (servers (fst target)) (fst target)"
    let ?r = "r\<lparr>fv_success := fv_success r @ [?label], fv_counts := dset ?label 0 (fv_counts r),
      fv_missing := dset ?label n (fv_missing r)\<rparr>"
    have "\<forall>(label, updated) \<in> set (fv_counts ?r). updated = 0"
      using Cons.prems(2) set_dset_le [of ?label 0 "fv_counts r"] by auto
    with Cons.IH [of ?r] Cons.prems(1) show ?case
      by (simp add: andthen_def add_nothing_target [OF _ _ source(2,3)] Let_def)
  qed simp
  show ?thesis
    using loop [OF assms(4), of no_favorites "length items"] assms(1,2) source(1)
    by (auto simp: sync_user_favorites_def Let_def no_favorites_def)
qed

lemma fallback_key_not_provider [simp]:
  "\<not> is_provider_key (fallback_movie_key title year)"
  "\<not> is_provider_key (fallback_episode_key series season episode)"
  by (simp_all add: is_provider_key_def fallback_movie_key_def fallback_episode_key_def startswith_def)

lemma sample_film_unidentified: "unidentified sample_film"
proof -
  have n: "normalize_string (PStr ''Stalker'') = ''stalker''" "fallback_key_part (PStr []) = []" by code_simp+
  have f: "pget sample_film ''Name'' = PStr ''Stalker''" "pget sample_film ''OriginalTitle'' = PNone"
    "pget sample_film ''ProductionYear'' = PInt 1979" "item_type sample_film = PStr ''Movie''"
    "runtime_ticks sample_film = Inr 96600000000" "pget sample_film ''ProviderIds'' = PNone"
    by (simp_all add: sample_film_def item_type_def py_or_def runtime_ticks_def)
  have none: "normalize_string PNone = []" by code_simp
  have "get_safe_fallback_signature sample_film = Inr (Some (MovieSignature ''stalker'' [] (str_int 1979) 96600000000))"
    using f n none by (simp add: get_safe_fallback_signature_def movie_signature_def py_str_def)
  then have "get_item_sync_keys sample_film
      = Inr (movie_fallback_keys (MovieSignature ''stalker'' [] (str_int 1979) 96600000000))"
    using f by (simp add: get_item_sync_keys_def provider_ids_def first_provider_id_def provider_priority_def
        get_safe_fallback_keys_def)
  moreover have "\<not> list_ex is_provider_key (movie_fallback_keys (MovieSignature title [] year runtime))" for title year runtime
    using n by (simp add: movie_fallback_keys_def Let_def)
  ultimately show ?thesis
    using f by (auto simp: unidentified_def plain_item_def text_or_empty_def py_str_def)
qed

theorem favorites_need_provider_ids_witness:
  "\<exists>r sent'. sync_user_favorites (library_net (\<lambda>r. [sample_film])) sample_server ''a'' ''u'' [(''b'', ''v'')] [] = (Inr r, sent')
    \<and> fv_success r = [''b''] \<and> (\<forall>(label, updated) \<in> set (fv_counts r). updated = 0)"
proof -
  have s: "strip ''a'' \<noteq> []" by code_simp
  have film: "list_all (\<lambda>it. item_type it \<noteq> PStr ''Episode'') [sample_film]"
    by (simp add: sample_film_def item_type_def py_or_def)
  have "\<exists>sent'. fetch_user_favorite_items (library_net (\<lambda>r. [sample_film])) (sample_server ''a'') ''u'' [] = (Inr ([sample_film], PNone), sent')"
    unfolding fetch_user_favorite_items_def fetch_user_items_def
    using sample_read [OF s _ _ _ film, of "''u''"] by simp
  then obtain sent' where read: "fetch_user_favorite_items (library_net (\<lambda>r. [sample_film])) (sample_server ''a'') ''u'' []
    = (Inr ([sample_film], PNone), sent')" by blast
  have servers: "sample_server ''a'' \<noteq> []" "list_all unidentified [sample_film]"
    "\<forall>target \<in> set [(''b'', ''v'')]. sample_server (fst target) \<noteq> [] \<and> snd target \<noteq> []"
    using sample_film_unidentified by (simp_all add: sample_server_def)
  have "favorites_label (sample_server ''b'') ''b'' = ''b''"
    by (simp add: favorites_label_def sample_server_def py_or_def py_str_def)
  with favorites_need_provider_ids [OF read servers] show ?thesis by auto
qed

subsection \<open>The union is all or nothing\<close>

lemma reads_only_favorites [emits_rules]: "reads_only (fetch_user_favorite_items net server user_id)"
  unfolding fetch_user_favorite_items_def fetch_user_items_def by (intro emits_rules)

interpretation favorite_sources: source_union "merge_favorite_source net servers" "\<lambda>source. servers (fst source) \<noteq> []"
  for net servers
proof
  show "reads_only (merge_favorite_source net servers source acc)" for source acc
    unfolding merge_favorite_source_def by (intro emits_rules)
  show "failures = [] \<and> servers (fst source) \<noteq> []"
    if "merge_favorite_source net servers source (u, failures) sent = (Inr (u', []), sent')"
    for source u failures sent u' sent'
    using that by (auto simp: merge_favorite_source_def Let_def andthen_Inr_iff split: prod.splits if_splits)
qed

lemma merge_favorites_all_or_nothing:
  assumes "sync_merge_favorites net servers targets sent = (Inr r, sent')"
  shows "(fv_error r = None \<and> (\<forall>target \<in> set targets. servers (fst target) \<noteq> []))
    \<or> (fv_error r = Some favorites_aborted \<and> fv_failed r \<noteq> [] \<and> fv_success r = []
        \<and> (\<exists>rs. sent' = sent @ rs \<and> list_all (\<lambda>q. rq_method q = ''GET'') rs))"
proof -
  obtain keys failures mid
    where sources: "for_each (merge_favorite_source net servers) targets ([], []) sent = (Inr (keys, failures), mid)"
      and rest: "(if failures \<noteq> [] then ret ((favorites_error favorites_aborted)\<lparr>fv_failed := failures\<rparr>)
        else andthen (sync_user_favorites_to_keys net servers keys targets) (\<lambda>applied.
          ret (applied\<lparr>fv_cleared := [], fv_error := None\<rparr>))) mid = (Inr r, sent')"
    using assms unfolding sync_merge_favorites_def by (auto simp: andthen_Inr_iff split: prod.splits)
  from favorite_sources.all_or_nothing [OF sources] rest show ?thesis
    by (cases "failures = []") (auto simp: andthen_Inr_iff favorites_error_def no_favorites_def)
qed

end
