(* ===== verification/User_Playlists.thy ===== *)
theory User_Playlists
  imports User_Favorites
begin

text \<open>
  Playlists synchronised between users (\<open>PlaylistsManager\<close> in \<open>emby_users/playlists_manager.py\<close>): the
  additive copy, the exact copy, resolved playlists applied to all targets, and the union of all
  users.  Names and ids are texts.  A playlist to apply has its name and the keys of its items; an
  empty name stands for a missing one.  Logging is left out.
\<close>

subsection \<open>Results\<close>

record playlist_counts =
  pc_playlists :: nat
  pc_deleted :: nat
  pc_added :: nat
  pc_removed :: nat

record playlist_result =
  pl_success :: "string list"
  pl_failed :: "string list"
  pl_counts :: "(string, playlist_counts) dict"
  pl_missing :: "(string, nat) dict"
  pl_not_removed :: "(string, nat) dict"
  pl_error :: "string option"

definition no_playlists :: playlist_result where
  "no_playlists = \<lparr>pl_success = [], pl_failed = [], pl_counts = [], pl_missing = [], pl_not_removed = [], pl_error = None\<rparr>"

definition playlists_error :: "string \<Rightarrow> playlist_result" where
  "playlists_error message = no_playlists\<lparr>pl_error := Some message\<rparr>"

definition fail_playlists :: "string \<Rightarrow> playlist_result \<Rightarrow> playlist_result" where
  "fail_playlists message r = r\<lparr>pl_failed := pl_failed r @ [message]\<rparr>"

text \<open>The loop over the playlists of one target: the target's playlists by name, the counts, and the
  failures it adds to the result.\<close>

record playlist_pass =
  pp_by_name :: "(string, pdict) dict"
  pp_counts :: playlist_counts
  pp_missing :: nat
  pp_not_removed :: nat
  pp_failed :: "string list"

definition fail_pass :: "string \<Rightarrow> playlist_pass \<Rightarrow> playlist_pass" where
  "fail_pass message p = p\<lparr>pp_failed := pp_failed p @ [message]\<rparr>"

definition count_change :: "nat \<Rightarrow> nat \<Rightarrow> nat \<Rightarrow> playlist_pass \<Rightarrow> playlist_pass" where
  "count_change deleted added removed p =
     p\<lparr>pp_counts := (let c = pp_counts p in
       \<lparr>pc_playlists = pc_playlists c + 1, pc_deleted = pc_deleted c + deleted,
        pc_added = pc_added c + added, pc_removed = pc_removed c + removed\<rparr>)\<rparr>"

definition count_missing :: "nat \<Rightarrow> playlist_pass \<Rightarrow> playlist_pass" where
  "count_missing n p = p\<lparr>pp_missing := pp_missing p + n\<rparr>"

text \<open>\<open>_record_target_success\<close> and the counts of the target.\<close>

definition record_playlists :: "string \<Rightarrow> playlist_pass \<Rightarrow> playlist_result \<Rightarrow> playlist_result" where
  "record_playlists label p r =
     r\<lparr>pl_failed := pl_failed r @ pp_failed p,
       pl_success := (if pp_failed p = [] then pl_success r @ [label] else pl_success r),
       pl_counts := dset label (pp_counts p) (pl_counts r),
       pl_missing := dset label (pp_missing p) (pl_missing r),
       pl_not_removed := dset label (pp_not_removed p) (pl_not_removed r)\<rparr>"

subsection \<open>Reading the source\<close>

record playlist_source =
  ps_name :: string
  ps_items :: "pdict list"

definition source_name :: "pdict \<Rightarrow> string" where
  "source_name playlist =
     py_str (py_or (py_or (pget playlist ''Name'') (pget playlist ''SortName'')) (PStr ''Playlist''))"

definition name_key :: "string \<Rightarrow> string" where
  "name_key name = lower (strip name)"

definition quoted :: "string \<Rightarrow> string" where
  "quoted name = CHR 0x27 # name @ [CHR 0x27]"

definition load_playlist ::
  "emby_net \<Rightarrow> pdict \<Rightarrow> string \<Rightarrow> pdict \<Rightarrow> playlist_source list \<Rightarrow> (string + playlist_source list) act" where
  "load_playlist net server user_id playlist payload =
     (if item_id playlist = [] then ret (Inr payload)
      else andthen (fetch_playlist_items net server user_id (item_id playlist)) (\<lambda>(items, err). ret (
        if truthy err
        then Inl (''Failed to read source playlist '' @ quoted (source_name playlist) @ '': '' @ py_str err)
        else Inr (payload @ [\<lparr>ps_name = source_name playlist, ps_items = items\<rparr>]))))"

definition load_source_playlist_payload ::
  "emby_net \<Rightarrow> pdict \<Rightarrow> string \<Rightarrow> pdict list \<Rightarrow> (string + playlist_source list) act" where
  "load_source_playlist_payload net server user_id playlists =
     for_until (load_playlist net server user_id) playlists []"

fun item_keys_in_order :: "pdict list \<Rightarrow> string list \<Rightarrow> exn + string list" where
  "item_keys_in_order [] keys = Inr keys"
| "item_keys_in_order (item # items) keys =
     result_bind (get_item_sync_keys item) (\<lambda>ks. item_keys_in_order items (foldl (\<lambda>s k. add_to_set k s) keys ks))"

definition source_provider_keys :: "playlist_source list \<Rightarrow> exn + string list" where
  "source_provider_keys payload = item_keys_in_order (concat (map ps_items payload)) []"

subsection \<open>Items of the target\<close>

definition set_first :: "string \<Rightarrow> string \<Rightarrow> (string, string) dict \<Rightarrow> (string, string) dict" where
  "set_first k v d = (if k \<in> fst ` set d then d else dset k v d)"

definition map_item :: "pdict \<Rightarrow> (string, string) dict \<Rightarrow> exn + (string, string) dict" where
  "map_item item key_map =
     (if item_id item = [] then Inr key_map
      else result_bind (get_item_sync_keys item) (\<lambda>keys. Inr (foldl (\<lambda>d k. set_first k (item_id item) d) key_map keys)))"

definition build_target_key_map ::
  "emby_net \<Rightarrow> pdict \<Rightarrow> string \<Rightarrow> string list \<Rightarrow> ((string, string) dict \<times> py) act" where
  "build_target_key_map net server user_id provider_keys =
     (if provider_keys = [] then ret ([], PNone)
      else andthen (fetch_items_by_provider_ids net server user_id provider_keys True default_item_types) (\<lambda>(items, err).
        if truthy err then ret ([], err)
        else andthen (for_each (\<lambda>it d. lift (map_item it d)) items []) (\<lambda>d. ret (d, PNone))))"

record resolved_ids =
  ri_ids :: "string list"
  ri_missing :: nat
  ri_errors :: nat

definition resolve_id :: "string \<Rightarrow> resolved_ids \<Rightarrow> resolved_ids" where
  "resolve_id i r =
     (if i = [] then r\<lparr>ri_missing := ri_missing r + 1\<rparr>
      else r\<lparr>ri_ids := add_to_set i (ri_ids r)\<rparr>)"

definition first_mapped :: "(string, string) dict \<Rightarrow> string list \<Rightarrow> string" where
  "first_mapped key_map keys =
     (case filter (\<lambda>k. k \<in> fst ` set key_map) keys of [] \<Rightarrow> [] | k # ks \<Rightarrow> dget_default key_map k [])"

definition resolve_item ::
  "emby_net \<Rightarrow> pdict \<Rightarrow> string \<Rightarrow> (string, string) dict \<Rightarrow> pdict \<Rightarrow> resolved_ids \<Rightarrow> resolved_ids act" where
  "resolve_item net server user_id key_map item r =
     andthen (lift (get_item_sync_keys item)) (\<lambda>keys.
       if first_mapped key_map keys = [] \<and> keys = [] \<and> item_type item \<noteq> PStr ''Episode''
       then andthen (fetch_items_by_safe_fallback net server user_id item) (\<lambda>(found, err). ret (
         if truthy err then resolve_id [] (r\<lparr>ri_errors := ri_errors r + 1\<rparr>)
         else resolve_id (case found of [] \<Rightarrow> [] | it # its \<Rightarrow> item_id it) r))
       else ret (resolve_id (first_mapped key_map keys) r))"

definition resolve_ordered_target_ids ::
  "emby_net \<Rightarrow> pdict \<Rightarrow> string \<Rightarrow> (string, string) dict \<Rightarrow> pdict list \<Rightarrow> resolved_ids act" where
  "resolve_ordered_target_ids net server user_id key_map items =
     for_each (resolve_item net server user_id key_map) items \<lparr>ri_ids = [], ri_missing = 0, ri_errors = 0\<rparr>"

text \<open>The playlists of the target by name.\<close>

definition index_playlists :: "pdict list \<Rightarrow> (string, pdict) dict" where
  "index_playlists playlists =
     foldl (\<lambda>d e. if truthy (pget e ''Name'') then dset (name_key (text_or_empty (pget e ''Name''))) e d else d) [] playlists"

definition start_pass :: "pdict list \<Rightarrow> playlist_pass" where
  "start_pass playlists =
     \<lparr>pp_by_name = index_playlists playlists,
      pp_counts = \<lparr>pc_playlists = 0, pc_deleted = 0, pc_added = 0, pc_removed = 0\<rparr>,
      pp_missing = 0, pp_not_removed = 0, pp_failed = []\<rparr>"

definition playlist_id_of :: "playlist_pass \<Rightarrow> string \<Rightarrow> string" where
  "playlist_id_of p key = item_id (dget_default (pp_by_name p) key [])"

subsection \<open>Writing one playlist\<close>

definition make_playlist ::
  "emby_net \<Rightarrow> pdict \<Rightarrow> string \<Rightarrow> string \<Rightarrow> string list \<Rightarrow> playlist_pass \<Rightarrow> playlist_pass act" where
  "make_playlist net server user_id name ids p =
     andthen (create_playlist net server user_id name ids) (\<lambda>(success, created). ret (
       if \<not> success then fail_pass (target_label server @ '': create '' @ quoted name @ '' failed'') p
       else
         let p = count_change 0 (length ids) 0 p;
             i = (case created of PDict d \<Rightarrow> pget d ''Id'' | _ \<Rightarrow> PNone)
         in if truthy i
            then p\<lparr>pp_by_name := dset (name_key name) [(''Id'', i), (''Name'', PStr name)] (pp_by_name p)\<rparr> else p))"

definition present_ids :: "pdict list \<Rightarrow> string set" where
  "present_ids items = set (map item_id items) - {[]}"

definition add_items ::
  "emby_net \<Rightarrow> pdict \<Rightarrow> string \<Rightarrow> string \<Rightarrow> string \<Rightarrow> string list \<Rightarrow> playlist_pass \<Rightarrow> playlist_pass act" where
  "add_items net server user_id name playlist_id ids p =
     (if ids = [] then ret p
      else andthen (add_playlist_items net server user_id playlist_id ids) (\<lambda>(success, err). ret (
        if success then count_change 0 (length ids) 0 p
        else fail_pass (target_label server @ '': update '' @ quoted name @ '' failed'') p)))"

definition add_to_playlist ::
  "emby_net \<Rightarrow> pdict \<Rightarrow> string \<Rightarrow> string \<Rightarrow> string \<Rightarrow> string list \<Rightarrow> playlist_pass \<Rightarrow> playlist_pass act" where
  "add_to_playlist net server user_id name playlist_id ids p =
     andthen (fetch_playlist_items net server user_id playlist_id) (\<lambda>(existing, err).
       if truthy err then ret (fail_pass (target_label server @ '': read '' @ quoted name @ '' failed'') p)
       else add_items net server user_id name playlist_id (filter (\<lambda>i. i \<notin> present_ids existing) ids) p)"

text \<open>The entries of items that are not wanted, and how many have no entry id.\<close>

definition entry_id :: "pdict \<Rightarrow> string" where
  "entry_id item =
     (let e = py_or (py_or (pget item ''PlaylistItemId'') (pget item ''PlaylistItemIds'')) (pget item ''EntryId'');
          e = (case e of PList (x # xs) \<Rightarrow> x | PList [] \<Rightarrow> PNone | _ \<Rightarrow> e)
      in text_or_empty e)"

definition unwanted :: "string list \<Rightarrow> pdict list \<Rightarrow> pdict list" where
  "unwanted wanted existing = filter (\<lambda>it. item_id it \<noteq> [] \<and> item_id it \<notin> set wanted) existing"

definition entries_to_remove :: "string list \<Rightarrow> pdict list \<Rightarrow> string list" where
  "entries_to_remove wanted existing = filter (\<lambda>e. e \<noteq> []) (map entry_id (unwanted wanted existing))"

definition not_removable :: "string list \<Rightarrow> pdict list \<Rightarrow> nat" where
  "not_removable wanted existing = length (filter (\<lambda>it. entry_id it = []) (unwanted wanted existing))"

text \<open>\<open>_record_incomplete_removal\<close>.\<close>

definition record_incomplete_removal :: "string \<Rightarrow> string \<Rightarrow> nat \<Rightarrow> playlist_pass \<Rightarrow> playlist_pass" where
  "record_incomplete_removal label name n p =
     (if n = 0 then p
      else fail_pass (label @ '': remove '' @ quoted name @ '' incomplete ('' @ str_nat n @ '' item(s))'')
        (p\<lparr>pp_not_removed := pp_not_removed p + n\<rparr>))"

definition remove_entries ::
  "emby_net \<Rightarrow> pdict \<Rightarrow> string \<Rightarrow> string \<Rightarrow> string \<Rightarrow> string list \<Rightarrow> pdict list \<Rightarrow> playlist_pass \<Rightarrow> playlist_pass act" where
  "remove_entries net server user_id name playlist_id wanted existing p =
     (let entries = entries_to_remove wanted existing; kept = not_removable wanted existing in
      if entries = [] then ret (record_incomplete_removal (target_label server) name kept p)
      else andthen (remove_playlist_entries net server user_id playlist_id entries) (\<lambda>(success, err). ret (
        if success
        then record_incomplete_removal (target_label server) name kept (count_change 0 0 (length entries) p)
        else record_incomplete_removal (target_label server) name (kept + length entries) p)))"

definition reconcile_playlist ::
  "emby_net \<Rightarrow> pdict \<Rightarrow> string \<Rightarrow> string \<Rightarrow> string \<Rightarrow> string list \<Rightarrow> playlist_pass \<Rightarrow> playlist_pass act" where
  "reconcile_playlist net server user_id name playlist_id ids p =
     andthen (fetch_playlist_items net server user_id playlist_id) (\<lambda>(existing, err).
       if truthy err then ret (fail_pass (target_label server @ '': read '' @ quoted name @ '' failed'') p)
       else andthen (add_items net server user_id name playlist_id (filter (\<lambda>i. i \<notin> present_ids existing) ids) p)
         (remove_entries net server user_id name playlist_id ids existing))"

definition drop_playlist ::
  "emby_net \<Rightarrow> pdict \<Rightarrow> string \<Rightarrow> string \<Rightarrow> playlist_pass \<Rightarrow> playlist_pass act" where
  "drop_playlist net server user_id key p =
     (if playlist_id_of p key = [] then ret p
      else andthen (delete_playlist net server user_id (playlist_id_of p key)) (\<lambda>(success, err). ret (
        if success then (count_change 1 0 0 p)\<lparr>pp_by_name := dpop key (pp_by_name p)\<rparr>
        else fail_pass (target_label server @ '': delete '' @ quoted key @ '' failed'') p)))"

subsection \<open>One target\<close>

text \<open>A playlist of the source, found on the target or created; \<open>change\<close> writes a found one.\<close>

definition copy_playlist ::
  "emby_net \<Rightarrow> pdict \<Rightarrow> string \<Rightarrow> (string, string) dict
    \<Rightarrow> (string \<Rightarrow> string \<Rightarrow> string list \<Rightarrow> playlist_pass \<Rightarrow> playlist_pass act)
    \<Rightarrow> playlist_source \<Rightarrow> playlist_pass \<Rightarrow> playlist_pass act" where
  "copy_playlist net server user_id key_map change source p =
     andthen (resolve_ordered_target_ids net server user_id key_map (ps_items source)) (\<lambda>r.
       let p = count_missing (ri_missing r) p; name = ps_name source; target = playlist_id_of p (name_key name) in
       if ri_errors r \<noteq> 0 then ret (fail_pass (target_label server @ '': lookup '' @ quoted name @ '' failed'') p)
       else if target = [] then make_playlist net server user_id name (ri_ids r) p
       else change name target (ri_ids r) p)"

definition open_target ::
  "emby_net \<Rightarrow> servers \<Rightarrow> string list
    \<Rightarrow> (pdict \<Rightarrow> string \<Rightarrow> (string, string) dict \<Rightarrow> playlist_pass \<Rightarrow> playlist_pass act)
    \<Rightarrow> string \<times> string \<Rightarrow> playlist_result \<Rightarrow> playlist_result act" where
  "open_target net servers provider_keys work target r =
     (case target of (server_id, user_id) \<Rightarrow>
        let server = servers server_id; label = target_label server in
        if server = [] then ret (fail_playlists (server_not_found server_id) r)
        else andthen (build_target_key_map net server user_id provider_keys) (\<lambda>(key_map, map_err).
          if truthy map_err then ret (fail_playlists (label @ '': Fetch error'') r)
          else andthen (fetch_user_playlists net server user_id) (\<lambda>(playlists, target_err).
            if truthy target_err then ret (fail_playlists (label @ '': Playlist fetch error'') r)
            else andthen (work server user_id key_map (start_pass playlists)) (\<lambda>p.
              ret (record_playlists label p r)))))"

definition copy_playlists ::
  "emby_net \<Rightarrow> playlist_source list \<Rightarrow> pdict \<Rightarrow> string \<Rightarrow> (string, string) dict \<Rightarrow> playlist_pass \<Rightarrow> playlist_pass act" where
  "copy_playlists net payload server user_id key_map p =
     for_each (copy_playlist net server user_id key_map (add_to_playlist net server user_id)) payload p"

definition mirror_playlists ::
  "emby_net \<Rightarrow> playlist_source list \<Rightarrow> pdict \<Rightarrow> string \<Rightarrow> (string, string) dict \<Rightarrow> playlist_pass \<Rightarrow> playlist_pass act" where
  "mirror_playlists net payload server user_id key_map p =
     (let source_names = filter (\<lambda>n. n \<noteq> []) (map (\<lambda>s. name_key (ps_name s)) payload) in
      andthen (for_each (drop_playlist net server user_id)
          (filter (\<lambda>n. n \<notin> set source_names) (map fst (pp_by_name p))) p)
        (for_each (copy_playlist net server user_id key_map (reconcile_playlist net server user_id)) payload))"

definition with_source ::
  "emby_net \<Rightarrow> servers \<Rightarrow> string \<Rightarrow> string \<Rightarrow> (playlist_source list \<Rightarrow> string list \<Rightarrow> playlist_result act)
    \<Rightarrow> playlist_result act" where
  "with_source net servers source_server_id source_user_id work =
     (let source = servers source_server_id in
      if source = [] then ret (playlists_error ''Source server not found'')
      else andthen (fetch_user_playlists net source source_user_id) (\<lambda>(playlists, err).
        if truthy err then ret (playlists_error (''Failed to fetch source playlists: '' @ py_str err))
        else andthen (load_source_playlist_payload net source source_user_id playlists) (\<lambda>loaded.
          case loaded of
            Inl message \<Rightarrow> ret (playlists_error message)
          | Inr payload \<Rightarrow> andthen (lift (source_provider_keys payload)) (work payload))))"

definition sync_user_playlists ::
  "emby_net \<Rightarrow> servers \<Rightarrow> string \<Rightarrow> string \<Rightarrow> (string \<times> string) list \<Rightarrow> playlist_result act" where
  "sync_user_playlists net servers source_server_id source_user_id targets =
     with_source net servers source_server_id source_user_id (\<lambda>payload keys.
       for_each (open_target net servers keys (copy_playlists net payload)) targets no_playlists)"

definition sync_user_playlists_exact ::
  "emby_net \<Rightarrow> servers \<Rightarrow> string \<Rightarrow> string \<Rightarrow> (string \<times> string) list \<Rightarrow> playlist_result act" where
  "sync_user_playlists_exact net servers source_server_id source_user_id targets =
     with_source net servers source_server_id source_user_id (\<lambda>payload keys.
       for_each (open_target net servers keys (mirror_playlists net payload)) targets no_playlists)"

subsection \<open>Resolved playlists\<close>

record wanted_playlist =
  wp_name :: string
  wp_items :: "string list"

type_synonym wanted_playlists = "(string, wanted_playlist) dict"

definition resolve_keys :: "(string, string) dict \<Rightarrow> string list \<Rightarrow> resolved_ids" where
  "resolve_keys key_map keys =
     foldl (\<lambda>r k. resolve_id (dget_default key_map k []) r) \<lparr>ri_ids = [], ri_missing = 0, ri_errors = 0\<rparr> keys"

definition settle_playlist ::
  "emby_net \<Rightarrow> pdict \<Rightarrow> string \<Rightarrow> (string, string) dict \<Rightarrow> string \<times> wanted_playlist \<Rightarrow> playlist_pass \<Rightarrow> playlist_pass act" where
  "settle_playlist net server user_id key_map wanted p =
     (case wanted of (key, playlist) \<Rightarrow>
        let name = (if wp_name playlist = [] then key else wp_name playlist);
            r = resolve_keys key_map (wp_items playlist);
            p = count_missing (ri_missing r) p;
            target = playlist_id_of p (name_key name) in
        if target = [] then make_playlist net server user_id name (ri_ids r) p
        else reconcile_playlist net server user_id name target (ri_ids r) p)"

definition settle_playlists ::
  "emby_net \<Rightarrow> wanted_playlists \<Rightarrow> string list \<Rightarrow> pdict \<Rightarrow> string \<Rightarrow> (string, string) dict \<Rightarrow> playlist_pass \<Rightarrow> playlist_pass act" where
  "settle_playlists net desired deleted server user_id key_map p =
     andthen (for_each (drop_playlist net server user_id) (sort deleted) p)
       (for_each (settle_playlist net server user_id key_map) desired)"

definition deleted_keys :: "string list \<Rightarrow> string list" where
  "deleted_keys names = remdups (filter (\<lambda>n. n \<noteq> []) (map name_key names))"

definition sync_user_playlists_to_payload ::
  "emby_net \<Rightarrow> servers \<Rightarrow> wanted_playlists \<Rightarrow> (string \<times> string) list \<Rightarrow> string list \<Rightarrow> playlist_result act" where
  "sync_user_playlists_to_payload net servers desired targets deleted_names =
     (let provider_keys = foldl (\<lambda>s k. add_to_set k s) [] (concat (map (\<lambda>d. wp_items (snd d)) desired)) in
      for_each (open_target net servers provider_keys (settle_playlists net desired (deleted_keys deleted_names)))
        targets no_playlists)"

subsection \<open>The union of all users\<close>

fun merge_playlist_items :: "pdict list \<Rightarrow> wanted_playlist \<Rightarrow> exn + wanted_playlist" where
  "merge_playlist_items [] w = Inr w"
| "merge_playlist_items (item # items) w =
     result_bind (get_item_sync_keys item) (\<lambda>keys.
       merge_playlist_items items (w\<lparr>wp_items := foldl (\<lambda>s k. add_to_set k s) (wp_items w) keys\<rparr>))"

definition merge_playlist ::
  "emby_net \<Rightarrow> pdict \<Rightarrow> string \<Rightarrow> pdict \<Rightarrow> wanted_playlists \<times> string list \<Rightarrow> (wanted_playlists \<times> string list) act" where
  "merge_playlist net server user_id playlist acc =
     (case acc of (desired, failures) \<Rightarrow>
        let name = strip (source_name playlist) in
        if item_id playlist = [] \<or> name = [] then ret acc
        else andthen (fetch_playlist_items net server user_id (item_id playlist)) (\<lambda>(items, err).
          if truthy err
          then ret (desired, failures @ [target_label server @ '': read '' @ quoted name @ '' failed''])
          else andthen (lift (merge_playlist_items items
              (dget_default desired (lower name) \<lparr>wp_name = name, wp_items = []\<rparr>))) (\<lambda>w.
            ret (dset (lower name) w desired, failures))))"

definition merge_playlist_source ::
  "emby_net \<Rightarrow> servers \<Rightarrow> string \<times> string \<Rightarrow> wanted_playlists \<times> string list \<Rightarrow> (wanted_playlists \<times> string list) act" where
  "merge_playlist_source net servers source acc =
     (case source of (server_id, user_id) \<Rightarrow> case acc of (desired, failures) \<Rightarrow>
        let server = servers server_id in
        if server = [] then ret (desired, failures @ [server_not_found server_id])
        else andthen (fetch_user_playlists net server user_id) (\<lambda>(playlists, err).
          if truthy err then ret (desired, failures @ [target_label server @ '': Playlist fetch error''])
          else for_each (merge_playlist net server user_id) playlists acc))"

definition playlists_aborted :: string where
  "playlists_aborted = ''Playlists bootstrap aborted: incomplete source snapshot''"

definition sync_merge_playlists ::
  "emby_net \<Rightarrow> servers \<Rightarrow> (string \<times> string) list \<Rightarrow> playlist_result act" where
  "sync_merge_playlists net servers targets =
     andthen (for_each (merge_playlist_source net servers) targets ([], [])) (\<lambda>(desired, failures).
       if failures \<noteq> [] then ret ((playlists_error playlists_aborted)\<lparr>pl_failed := failures\<rparr>)
       else andthen (sync_user_playlists_to_payload net servers desired targets []) (\<lambda>applied.
         ret (applied\<lparr>pl_not_removed := [], pl_error := None\<rparr>)))"

subsection \<open>The union is all or nothing\<close>

lemma reads_only_playlists [emits_rules]:
  "reads_only (fetch_user_playlists net server user_id)"
  "reads_only (fetch_playlist_items net server user_id playlist_id)"
  unfolding fetch_user_playlists_def fetch_playlist_items_def fetch_user_items_def failed_read_def
  by (intro emits_rules)+

lemma merge_playlist_fails:
  "for_each (merge_playlist net server user_id) playlists (desired, failures) sent = (Inr (desired', []), sent') \<Longrightarrow> failures = []"
proof (induction playlists arbitrary: desired failures sent)
  case (Cons playlist playlists)
  then obtain d f mid where first: "merge_playlist net server user_id playlist (desired, failures) sent = (Inr (d, f), mid)"
    and last: "for_each (merge_playlist net server user_id) playlists (d, f) mid = (Inr (desired', []), sent')"
    by (auto simp: andthen_Inr_iff)
  from Cons.IH [OF last] have "f = []" .
  with first show ?case
    by (auto simp: merge_playlist_def Let_def andthen_Inr_iff split: prod.splits if_splits)
qed simp

interpretation playlist_sources: source_union "merge_playlist_source net servers" "\<lambda>source. servers (fst source) \<noteq> []"
  for net servers
proof
  show "reads_only (merge_playlist_source net servers source acc)" for source acc
    unfolding merge_playlist_source_def merge_playlist_def by (intro emits_rules)
  show "failures = [] \<and> servers (fst source) \<noteq> []"
    if "merge_playlist_source net servers source (u, failures) sent = (Inr (u', []), sent')"
    for source u failures sent u' sent'
    using that
    by (auto simp: merge_playlist_source_def Let_def andthen_Inr_iff split: prod.splits if_splits dest: merge_playlist_fails)
qed

lemma merge_playlists_all_or_nothing:
  assumes "sync_merge_playlists net servers targets sent = (Inr r, sent')"
  shows "(pl_error r = None \<and> (\<forall>target \<in> set targets. servers (fst target) \<noteq> []))
    \<or> (pl_error r = Some playlists_aborted \<and> pl_failed r \<noteq> [] \<and> pl_success r = []
        \<and> (\<exists>rs. sent' = sent @ rs \<and> list_all (\<lambda>q. rq_method q = ''GET'') rs))"
proof -
  obtain desired failures mid
    where sources: "for_each (merge_playlist_source net servers) targets ([], []) sent = (Inr (desired, failures), mid)"
      and rest: "(if failures \<noteq> [] then ret ((playlists_error playlists_aborted)\<lparr>pl_failed := failures\<rparr>)
        else andthen (sync_user_playlists_to_payload net servers desired targets []) (\<lambda>applied.
          ret (applied\<lparr>pl_not_removed := [], pl_error := None\<rparr>))) mid = (Inr r, sent')"
    using assms unfolding sync_merge_playlists_def by (auto simp: andthen_Inr_iff split: prod.splits)
  from playlist_sources.all_or_nothing [OF sources] rest show ?thesis
    by (cases "failures = []") (auto simp: andthen_Inr_iff playlists_error_def no_playlists_def)
qed

subsection \<open>The additive copies never delete\<close>

abbreviation keeps :: "'a act \<Rightarrow> bool" where
  "keeps \<equiv> emits (\<lambda>r. rq_method r \<noteq> ''DELETE'')"

lemma keeps_reads: "reads_only m \<Longrightarrow> keeps m"
  by (erule emits_weaken) simp

lemma keeps_post [emits_rules]: "keeps (call_emby_api net server path ''POST'' params json)"
  by (rule emits_call) simp

lemma keeps_add_favorites: "keeps (add_favorites_target net servers n keys unkeyed target r)"
proof -
  have adds: "keeps (add_favorite net server user_id item c)" for server user_id item c
    unfolding add_favorite_def write_favorite_def set_item_favorite_def missing_ids_def if_True
    by (intro emits_rules)
  have lookup: "reads_only (match_favorites net server user_id keys)" for server user_id keys
    unfolding match_favorites_def fetch_user_media_items_def fetch_user_items_def by (intro emits_rules)
  have search: "reads_only (add_unkeyed_match net server user_id item m)" for server user_id item m
    unfolding add_unkeyed_match_def by (intro emits_rules)
  show ?thesis
    unfolding add_favorites_target_def
    by (intro emits_rules adds keeps_reads [OF lookup] keeps_reads [OF search])
qed

lemma keeps_with_source:
  assumes "\<And>payload keys. keeps (work payload keys)"
  shows "keeps (with_source net servers server_id user_id work)"
proof -
  have load: "reads_only (load_source_playlist_payload net server user_id playlists)" for server user_id playlists
    unfolding load_source_playlist_payload_def load_playlist_def by (intro emits_rules)
  show ?thesis
    unfolding with_source_def
    by (intro emits_rules keeps_reads [OF load] keeps_reads [OF reads_only_playlists(1)] assms)
qed

lemma reads_only_key_map: "reads_only (build_target_key_map net server user_id keys)"
  unfolding build_target_key_map_def by (intro emits_rules)

lemma reads_only_resolve: "reads_only (resolve_ordered_target_ids net server user_id key_map items)"
  unfolding resolve_ordered_target_ids_def resolve_item_def by (intro emits_rules)

lemma keeps_add_items: "keeps (add_items net server user_id name playlist_id ids p)"
  unfolding add_items_def add_playlist_items_def playlist_items_write_def missing_ids_def or_retry_def
  by (intro emits_rules)

lemma keeps_make_playlist: "keeps (make_playlist net server user_id name ids p)"
  unfolding make_playlist_def create_playlist_def or_retry_def by (intro emits_rules)

lemma keeps_copy_playlists: "keeps (copy_playlists net payload server user_id key_map p)"
  unfolding copy_playlists_def copy_playlist_def add_to_playlist_def
  by (intro emits_rules keeps_reads [OF reads_only_resolve] keeps_reads [OF reads_only_playlists(2)]
      keeps_add_items keeps_make_playlist)

text \<open>
  the additive copies of favourites and of playlists never delete: whatever Emby answers, and
  however they end, they send no DELETE request to any server.
\<close>

theorem additive_copies_never_delete:
  "keeps (sync_user_favorites net servers source_server_id source_user_id targets)
   \<and> keeps (sync_user_playlists net servers source_server_id source_user_id targets)"
proof
  show "keeps (sync_user_favorites net servers source_server_id source_user_id targets)"
    unfolding sync_user_favorites_def
    by (intro emits_rules keeps_reads [OF reads_only_favorites] keeps_add_favorites)
  show "keeps (sync_user_playlists net servers source_server_id source_user_id targets)"
    unfolding sync_user_playlists_def open_target_def
    by (intro keeps_with_source emits_rules keeps_reads [OF reads_only_key_map] keeps_reads [OF reads_only_playlists(1)]
        keeps_copy_playlists)
qed

subsection \<open>One playlist after its pass\<close>

lemma pass_simps [simp]:
  "pp_failed (fail_pass e p) = pp_failed p @ [e]" "pp_failed (count_change d a r p) = pp_failed p"
  "pp_counts (fail_pass e p) = pp_counts p"
  "pc_added (pp_counts (count_change d a r p)) = pc_added (pp_counts p) + a"
  "pc_removed (pp_counts (count_change d a r p)) = pc_removed (pp_counts p) + r"
  by (simp_all add: fail_pass_def count_change_def Let_def)

lemma record_incomplete_simps [simp]:
  "pp_failed (record_incomplete_removal label name n p) = pp_failed p @
     (if n = 0 then [] else [label @ '': remove '' @ quoted name @ '' incomplete ('' @ str_nat n @ '' item(s))''])"
  "pp_counts (record_incomplete_removal label name n p) = pp_counts p"
  by (simp_all add: record_incomplete_removal_def)

text \<open>A write to the items of a playlist as Emby sees it: the ids as parameters and, when that is refused,
  the same ids as a JSON body.\<close>

definition playlist_request :: "pdict \<Rightarrow> string \<Rightarrow> string \<Rightarrow> pdict \<Rightarrow> pdict option \<Rightarrow> emby_request" where
  "playlist_request server playlist_id http_method params json =
     \<lparr>rq_method = http_method,
      rq_target = (case emby_base_url server of None \<Rightarrow> [] | Some base \<Rightarrow> base) @ ''/Playlists/'' @ playlist_id @ ''/Items'',
      rq_token = strip (text_or_empty (pget server ''api_key'')), rq_params = params, rq_json = json\<rparr>"

definition playlist_writes ::
  "emby_net \<Rightarrow> pdict \<Rightarrow> string \<Rightarrow> string \<Rightarrow> string \<Rightarrow> string \<Rightarrow> string list \<Rightarrow> emby_request list \<Rightarrow> emby_request list" where
  "playlist_writes net server user_id playlist_id http_method field ids sent =
     (if ids = [] then []
      else let r = playlist_request server playlist_id http_method [(''UserId'', PStr user_id), (field, PStr (join '','' ids))] None
           in if fst (answer_of (n_reply net sent r)) then [r]
              else [r, playlist_request server playlist_id http_method []
                (Some [(''UserId'', PStr user_id), (field, PList (map PStr ids))])])"

text \<open>Emby took the last of the requests.\<close>

definition accepted_writes :: "emby_net \<Rightarrow> emby_request list \<Rightarrow> emby_request list \<Rightarrow> bool" where
  "accepted_writes net sent rs \<longleftrightarrow> rs = [] \<or> fst (answer_of (n_reply net (sent @ butlast rs) (last rs)))"

text \<open>The item id and the entry id of a row of a playlist; a row without an entry id has none at all.\<close>

definition playlist_row :: "pdict \<Rightarrow> string \<times> string \<Rightarrow> bool" where
  "playlist_row item row \<longleftrightarrow> fst row \<noteq> [] \<and> pget item ''Id'' = PStr (fst row)
     \<and> (if snd row = []
        then pget item ''PlaylistItemId'' = PNone \<and> pget item ''PlaylistItemIds'' = PNone \<and> pget item ''EntryId'' = PNone
        else pget item ''PlaylistItemId'' = PStr (snd row))"

lemma playlist_row_ids: "playlist_row item row \<Longrightarrow> item_id item = fst row" "playlist_row item row \<Longrightarrow> entry_id item = snd row"
  by (auto simp: playlist_row_def item_id_def entry_id_def text_or_empty_def py_or_def py_str_def Let_def split: if_splits)

lemma playlist_rows:
  assumes "list_all2 playlist_row existing rows"
  shows "present_ids existing = fst ` set rows" "[] \<notin> fst ` set rows"
    "map entry_id (unwanted ids existing) = map snd (filter (\<lambda>r. fst r \<notin> set ids) rows)"
    "not_removable ids existing = length (filter (\<lambda>r. fst r \<notin> set ids \<and> snd r = []) rows)"
proof -
  have nonempty: "playlist_row it r \<Longrightarrow> fst r \<noteq> []" for it r by (simp add: playlist_row_def)
  have "map item_id existing = map fst rows" "map entry_id (unwanted ids existing) = map snd (filter (\<lambda>r. fst r \<notin> set ids) rows)"
    "length (filter (\<lambda>it. entry_id it = []) (unwanted ids existing)) = length (filter (\<lambda>r. fst r \<notin> set ids \<and> snd r = []) rows)"
    "[] \<notin> fst ` set rows"
    using assms by (induction rule: list_all2_induct) (auto simp: playlist_row_ids unwanted_def dest: nonempty)
  then show "present_ids existing = fst ` set rows" "[] \<notin> fst ` set rows"
    "map entry_id (unwanted ids existing) = map snd (filter (\<lambda>r. fst r \<notin> set ids) rows)"
    "not_removable ids existing = length (filter (\<lambda>r. fst r \<notin> set ids \<and> snd r = []) rows)"
    by (auto simp: present_ids_def not_removable_def)
qed

lemma playlist_items_write_sends:
  assumes "reachable server" "user_id \<noteq> []" "playlist_id \<noteq> []" "ids \<noteq> []" "[] \<notin> set ids" "m \<noteq> ''GET''"
  shows "\<exists>payload. playlist_items_write m field net server user_id playlist_id ids sent =
    (Inr (accepted_writes net sent (playlist_writes net server user_id playlist_id m field ids sent), payload),
     sent @ playlist_writes net server user_id playlist_id m field ids sent)"
proof -
  obtain base where base: "emby_base_url server = Some base" "base \<noteq> []" "strip (text_or_empty (pget server ''api_key'')) \<noteq> []"
    using assms(1) by (auto simp: reachable_def)
  have ids: "nonempty_ids ids = ids" using assms(5) by (auto simp: nonempty_ids_def intro!: filter_True)
  define path where "path = ''Playlists/'' @ playlist_id @ ''/Items''"
  have "lstrip_char (CHR ''/'') path = path" by (simp add: lstrip_char_def path_def)
  then have call: "call_emby_api net server path m params json sent' =
      (Inr (answer_of (n_reply net sent' (playlist_request server playlist_id m params json))),
       sent' @ [playlist_request server playlist_id m params json])" for params json sent'
    using base assms(6) by (simp add: call_emby_api_def send_def playlist_request_def Let_def path_def)
  define first where "first = playlist_request server playlist_id m [(''UserId'', PStr user_id), (field, PStr (join '','' ids))] None"
  define again where "again = playlist_request server playlist_id m [] (Some [(''UserId'', PStr user_id), (field, PList (map PStr ids))])"
  have "playlist_items_write m field net server user_id playlist_id ids sent =
     (if fst (answer_of (n_reply net sent first)) then (Inr (answer_of (n_reply net sent first)), sent @ [first])
      else (Inr (answer_of (n_reply net (sent @ [first]) again)), (sent @ [first]) @ [again]))"
    unfolding playlist_items_write_def Let_def path_def [symmetric] or_retry_def andthen_def call ids
    using assms(2-4) by (simp add: ret_def first_def again_def)
  moreover have "playlist_writes net server user_id playlist_id m field ids sent =
      (if fst (answer_of (n_reply net sent first)) then [first] else [first, again])"
    using assms(4) by (simp add: playlist_writes_def Let_def first_def again_def)
  ultimately show ?thesis by (simp add: accepted_writes_def) (metis prod.collapse)
qed

text \<open>
  C23: Reconciling a playlist of a target that could be read sends, after the read, the wanted items it
  lacks in their order as one POST to this playlist, and then one DELETE of the entry ids of all
  rows whose item is not wanted, in the order of the rows; each is sent again as a JSON body when
  refused, and nothing at all is sent when there is nothing to add or remove.  The pass records no failure
  exactly when Emby took both and every row to remove has an entry id.
\<close>

theorem playlist_reconciled:
  fixes rows :: "(string \<times> string) list" and ids :: "string list"
  defines "added \<equiv> filter (\<lambda>i. i \<notin> fst ` set rows) ids"
    and "gone \<equiv> filter (\<lambda>r. fst r \<notin> set ids) rows"
  assumes "reachable server" "user_id \<noteq> []" "target \<noteq> []" "[] \<notin> set ids"
    and "fetch_playlist_items net server user_id target sent = (Inr (existing, PNone), mid)"
    and "list_all2 playlist_row existing rows"
  shows "\<exists>p' posted deleted. reconcile_playlist net server user_id name target ids p sent = (Inr p', mid @ posted @ deleted)
    \<and> posted = playlist_writes net server user_id target ''POST'' ''Ids'' added mid
    \<and> deleted = playlist_writes net server user_id target ''DELETE'' ''EntryIds'' (filter (\<lambda>e. e \<noteq> []) (map snd gone)) (mid @ posted)
    \<and> (pp_failed p' = pp_failed p \<longleftrightarrow>
         accepted_writes net mid posted \<and> accepted_writes net (mid @ posted) deleted \<and> (\<forall>r \<in> set gone. snd r \<noteq> []))"
proof -
  define posted where "posted = playlist_writes net server user_id target ''POST'' ''Ids'' added mid"
  define entries where "entries = filter (\<lambda>e. e \<noteq> []) (map snd gone)"
  define deleted where "deleted = playlist_writes net server user_id target ''DELETE'' ''EntryIds'' entries (mid @ posted)"
  have rows: "present_ids existing = fst ` set rows" "entries_to_remove ids existing = entries"
    "not_removable ids existing = 0 \<longleftrightarrow> (\<forall>r \<in> set gone. snd r \<noteq> [])"
    using playlist_rows [OF assms(8)]
    by (auto simp: entries_to_remove_def entries_def gone_def filter_empty_conv)
  have texts: "[] \<notin> set added" "[] \<notin> set entries" using assms(6) by (auto simp: added_def entries_def)
  have "\<exists>q. add_items net server user_id name target added p mid = (Inr q, mid @ posted)
      \<and> (\<exists>fs. pp_failed q = pp_failed p @ fs \<and> (fs = [] \<longleftrightarrow> accepted_writes net mid posted))"
  proof (cases "added = []")
    case True
    then show ?thesis by (simp add: add_items_def posted_def playlist_writes_def accepted_writes_def)
  next
    case False
    obtain payload where "playlist_items_write ''POST'' ''Ids'' net server user_id target added mid =
        (Inr (accepted_writes net mid posted, payload), mid @ posted)"
      using playlist_items_write_sends [OF assms(3-5) False texts(1), of "''POST''" "''Ids''" net mid] unfolding posted_def by auto
    with False show ?thesis by (simp add: add_items_def add_playlist_items_def andthen_def ret_def)
  qed
  then obtain q fs where q: "add_items net server user_id name target added p mid = (Inr q, mid @ posted)"
    "pp_failed q = pp_failed p @ fs" "fs = [] \<longleftrightarrow> accepted_writes net mid posted" by blast
  have "\<exists>p'. remove_entries net server user_id name target ids existing q (mid @ posted) = (Inr p', mid @ posted @ deleted)
      \<and> (\<exists>gs. pp_failed p' = pp_failed q @ gs
         \<and> (gs = [] \<longleftrightarrow> accepted_writes net (mid @ posted) deleted \<and> (\<forall>r \<in> set gone. snd r \<noteq> [])))"
  proof (cases "entries = []")
    case True
    then show ?thesis using rows(3)
      by (simp add: remove_entries_def rows(2) deleted_def playlist_writes_def accepted_writes_def Let_def)
  next
    case False
    obtain payload where "playlist_items_write ''DELETE'' ''EntryIds'' net server user_id target entries (mid @ posted) =
        (Inr (accepted_writes net (mid @ posted) deleted, payload), (mid @ posted) @ deleted)"
      using playlist_items_write_sends [OF assms(3-5) False texts(2), of "''DELETE''" "''EntryIds''" net "mid @ posted"] unfolding deleted_def by auto
    with False show ?thesis using rows(3)
      by (auto simp: remove_entries_def rows(2) remove_playlist_entries_def andthen_def ret_def Let_def)
  qed
  then obtain p' gs where p': "remove_entries net server user_id name target ids existing q (mid @ posted) = (Inr p', mid @ posted @ deleted)"
    "pp_failed p' = pp_failed q @ gs" "gs = [] \<longleftrightarrow> accepted_writes net (mid @ posted) deleted \<and> (\<forall>r \<in> set gone. snd r \<noteq> [])"
    by blast
  have "reconcile_playlist net server user_id name target ids p sent = (Inr p', mid @ posted @ deleted)"
    using assms(7) q(1) p'(1) by (simp add: reconcile_playlist_def andthen_def rows(1) added_def)
  moreover have "pp_failed p' = pp_failed p \<longleftrightarrow>
      accepted_writes net mid posted \<and> accepted_writes net (mid @ posted) deleted \<and> (\<forall>r \<in> set gone. snd r \<noteq> [])"
    using q(2,3) p'(2,3) by auto
  ultimately show ?thesis unfolding posted_def deleted_def entries_def by blast
qed

text \<open>
  the order of a playlist is not synchronised: when the target's playlist holds the wanted items
  in any order, its reconciliation reads it and sends nothing more, and records no failure.
\<close>

theorem playlist_order_ignored:
  assumes "fetch_playlist_items net server user_id target sent = (Inr (existing, PNone), sent')"
    and "present_ids existing = set ids"
  shows "reconcile_playlist net server user_id name target ids p sent = (Inr p, sent')"
proof -
  have "filter (\<lambda>i. i \<notin> present_ids existing) ids = []" using assms(2) by (simp add: filter_empty_conv)
  moreover have "unwanted ids existing = []"
    unfolding unwanted_def filter_empty_conv using assms(2) by (auto simp: present_ids_def)
  ultimately show ?thesis
    using assms(1)
    by (simp add: reconcile_playlist_def andthen_def add_items_def remove_entries_def entries_to_remove_def
        not_removable_def record_incomplete_removal_def)
qed

subsection \<open>Entries that are not found\<close>

lemma set_first_ids: "snd ` set (set_first k v d) \<subseteq> insert v (snd ` set d)"
proof (cases "k \<in> fst ` set d")
  case False
  have "snd ` set (dset k v d) \<subseteq> snd ` insert (k, v) (set d)"
    by (intro image_mono set_dset_le)
  with False show ?thesis by (simp add: set_first_def)
qed (auto simp: set_first_def)

lemma map_item_ids:
  assumes "map_item item d = Inr d'"
  shows "snd ` set d' \<subseteq> insert (item_id item) (snd ` set d)"
proof -
  have fold: "snd ` set (foldl (\<lambda>d k. set_first k i d) d ks) \<subseteq> insert i (snd ` set d)" for i ks d
  proof (induction ks arbitrary: d)
    case (Cons k ks)
    from Cons.IH [of "set_first k i d"] set_first_ids [of k i d] show ?case by auto
  qed auto
  from assms consider "d' = d" | ks where "d' = foldl (\<lambda>d k. set_first k (item_id item) d) d ks"
    by (auto simp: map_item_def result_bind_Inr_iff split: if_splits)
  then show ?thesis
  proof cases
    case 2
    then show ?thesis using fold by simp
  qed blast
qed

lemma key_map_found:
  assumes "fetch_items_by_provider_ids net server user_id keys True default_item_types sent = (Inr (found, PNone), mid)"
    and "build_target_key_map net server user_id keys sent = (Inr (key_map, PNone), sent')"
  shows "snd ` set key_map \<subseteq> item_id ` set found"
proof (cases "keys = []")
  case False
  with assms have run: "for_each (\<lambda>it d. lift (map_item it d)) found [] mid = (Inr key_map, sent')"
    by (auto simp: build_target_key_map_def andthen_Inr_iff)
  have "yields (\<lambda>d. snd ` set d \<subseteq> item_id ` set found) (for_each (\<lambda>it d. lift (map_item it d)) found [])"
  proof (rule yields_for_each)
    show "yields (\<lambda>d. snd ` set d \<subseteq> item_id ` set found) (lift (map_item it d))"
      if "it \<in> set found" "snd ` set d \<subseteq> item_id ` set found" for it d
    proof (rule yields_lift)
      fix d' assume "map_item it d = Inr d'"
      from map_item_ids [OF this] that show "snd ` set d' \<subseteq> item_id ` set found" by blast
    qed
  qed simp
  from yieldsD [OF this run] show ?thesis .
qed (use assms in \<open>simp add: build_target_key_map_def\<close>)

lemma resolve_keys_ids: "set (ri_ids (resolve_keys key_map keys)) \<subseteq> snd ` set key_map"
proof -
  have step: "set (ri_ids (resolve_id (dget_default key_map k []) r)) \<subseteq> set (ri_ids r) \<union> snd ` set key_map" for k r
  proof (cases "map_of key_map k")
    case (Some i)
    then have "i \<in> snd ` set key_map" by (force dest: map_of_SomeD)
    with Some show ?thesis by (auto simp: resolve_id_def dget_default_def add_to_set_def)
  qed (simp add: resolve_id_def dget_default_def)
  have "set (ri_ids (foldl (\<lambda>r k. resolve_id (dget_default key_map k []) r) r keys)) \<subseteq> set (ri_ids r) \<union> snd ` set key_map" for r
  proof (induction keys arbitrary: r)
    case (Cons k keys)
    from Cons.IH [of "resolve_id (dget_default key_map k []) r"] step [of k r] show ?case by auto
  qed simp
  then show ?thesis unfolding resolve_keys_def by (metis (no_types, lifting) list.set(1) resolved_ids.select_convs(1) sup_bot.left_neutral)
qed

definition removes_entry :: "pdict \<Rightarrow> string \<Rightarrow> string \<Rightarrow> emby_request \<Rightarrow> bool" where
  "removes_entry server target entry r \<longleftrightarrow>
     rq_method r = ''DELETE''
     \<and> (\<exists>base. emby_base_url server = Some base \<and> rq_target r = base @ ''/Playlists/'' @ target @ ''/Items'')
     \<and> (\<exists>entries. pget (rq_params r) ''EntryIds'' = PStr (join '','' entries) \<and> entry \<in> set entries)"

lemma remove_entries_sends:
  assumes "reachable server" "user_id \<noteq> []" "target \<noteq> []" "entry \<in> set entries" "[] \<notin> set entries"
  shows "\<exists>r rs. snd (remove_playlist_entries net server user_id target entries sent) = sent @ r # rs
    \<and> removes_entry server target entry r"
proof -
  obtain base where base: "emby_base_url server = Some base" "base \<noteq> []"
    using assms(1) by (auto simp: reachable_def)
  have ids: "nonempty_ids entries = entries" "entries \<noteq> []"
    using assms(4,5) by (auto simp: nonempty_ids_def intro!: filter_True)
  have path: "lstrip_char (CHR ''/'') (''Playlists/'' @ target @ ''/Items'') = ''Playlists/'' @ target @ ''/Items''"
    by (simp add: lstrip_char_def)
  show ?thesis
    using assms(1-4) base ids path
    by (auto simp: remove_playlist_entries_def playlist_items_write_def or_retry_def call_emby_api_def send_def andthen_def
        ret_def Let_def reachable_def removes_entry_def split: prod.splits if_splits)
qed

lemma add_items_returns: "\<exists>p' sent'. add_items net server user_id name target ids p sent = (Inr p', sent')"
proof -
  have "\<exists>r s. playlist_items_write m field net server user_id target ids sent = (Inr r, s)" for m field
  proof -
    let ?path = "''Playlists/'' @ target @ ''/Items''"
    let ?first = "call_emby_api net server ?path m [(''UserId'', PStr user_id), (field, PStr (join '','' (nonempty_ids ids)))] None"
    obtain success payload mid where first: "?first sent = (Inr (success, payload), mid)"
      using call_returns by blast
    obtain success' payload' last
      where "call_emby_api net server ?path m []
        (Some [(''UserId'', PStr user_id), (field, PList (map PStr (nonempty_ids ids)))]) mid = (Inr (success', payload'), last)"
      using call_returns by blast
    with first show ?thesis
      by (auto simp: playlist_items_write_def missing_ids_def or_retry_def andthen_def ret_def Let_def)
  qed
  then obtain r s where "playlist_items_write ''POST'' ''Ids'' net server user_id target ids sent = (Inr r, s)" by blast
  then show ?thesis
    by (cases r) (simp add: add_items_def add_playlist_items_def andthen_def ret_def)
qed

text \<open>
  a playlist entry whose item the provider lookup did not find is removed, even from the playlist
  it was read from: when resolved playlists, and so the union of all users, are applied to a target,
  the pass over a playlist the target has asks Emby to remove every entry with an entry id whose item
  is not among the found ones.
\<close>

theorem unfound_entries_removed:
  assumes "reachable server" "user_id \<noteq> []"
    and "fetch_items_by_provider_ids net server user_id keys True default_item_types sent0 = (Inr (found, PNone), mid0)"
    and "build_target_key_map net server user_id keys sent0 = (Inr (key_map, PNone), sent1)"
    and "wp_name w = name" "name \<noteq> []" "playlist_id_of p (name_key name) = target" "target \<noteq> []"
    and "fetch_playlist_items net server user_id target sent = (Inr (existing, PNone), mid)"
    and "item \<in> set existing" "item_id item \<noteq> []" "item_id item \<notin> item_id ` set found" "entry_id item \<noteq> []"
  shows "\<exists>rs r. r \<in> set rs \<and> snd (settle_playlist net server user_id key_map (key, w) p sent) = mid @ rs
    \<and> removes_entry server target (entry_id item) r"
proof -
  let ?ids = "ri_ids (resolve_keys key_map (wp_items w))"
  have "item_id item \<notin> set ?ids"
    using resolve_keys_ids [of key_map "wp_items w"] key_map_found [OF assms(3,4)] assms(12) by blast
  then have entry: "entry_id item \<in> set (entries_to_remove ?ids existing)"
    using assms(10,11,13) by (auto simp: entries_to_remove_def unwanted_def)
  then have nonempty: "entries_to_remove ?ids existing \<noteq> []" by (metis empty_iff list.set(1))
  have texts: "[] \<notin> set (entries_to_remove ?ids existing)" by (simp add: entries_to_remove_def)
  define q where "q = count_missing (ri_missing (resolve_keys key_map (wp_items w))) p"
  have "playlist_id_of q (name_key name) = target"
    using assms(7) by (simp add: q_def count_missing_def playlist_id_of_def)
  then have run: "settle_playlist net server user_id key_map (key, w) p sent
      = reconcile_playlist net server user_id name target ?ids q sent"
    using assms(5,6,8) by (simp add: settle_playlist_def q_def Let_def)
  let ?added = "filter (\<lambda>i. i \<notin> present_ids existing) ?ids"
  obtain q' added where add: "add_items net server user_id name target ?added q mid = (Inr q', mid @ added)"
  proof -
    have "emits (\<lambda>r. True) (add_items net server user_id name target ?added q)"
      unfolding add_items_def add_playlist_items_def playlist_items_write_def missing_ids_def or_retry_def
      by (intro emits_rules) simp_all
    moreover have "\<exists>q' s. add_items net server user_id name target ?added q mid = (Inr q', s)"
      by (rule add_items_returns)
    ultimately show ?thesis using that unfolding emits_def by (metis snd_conv)
  qed
  obtain r rs where sent: "snd (remove_playlist_entries net server user_id target (entries_to_remove ?ids existing) (mid @ added))
      = (mid @ added) @ r # rs" and r: "removes_entry server target (entry_id item) r"
    using remove_entries_sends [OF assms(1,2,8) entry texts] by blast
  have "snd (remove_entries net server user_id name target ?ids existing q' (mid @ added)) = (mid @ added) @ r # rs"
    using sent nonempty by (auto simp: remove_entries_def andthen_def ret_def Let_def split: prod.splits sum.splits)
  then have "snd (settle_playlist net server user_id key_map (key, w) p sent) = mid @ (added @ r # rs)"
    unfolding run using assms(9) add by (simp add: reconcile_playlist_def andthen_def)
  with r show ?thesis by (intro exI [of _ "added @ r # rs"] exI [of _ r]) simp
qed

subsection \<open>A sample playlist\<close>

definition sample_entry :: pdict where
  "sample_entry = [(''Id'', PStr ''5''), (''Type'', PStr ''Movie''), (''PlaylistItemId'', PStr ''9'')]"

definition playlist_net :: "pdict list \<Rightarrow> emby_net" where
  "playlist_net entries = library_net (\<lambda>r. if has_key ''ParentId'' (rq_params r) then entries else [])"

definition sample_pass :: playlist_pass where
  "sample_pass = (start_pass [])\<lparr>pp_by_name := [(''films'', [(''Id'', PStr ''7'')])]\<rparr>"

lemma sample_entries:
  assumes "entries = [] \<or> entries = [sample_entry]"
  shows "\<exists>sent'. fetch_playlist_items (playlist_net entries) (sample_server ''a'') ''u'' ''7'' sent = (Inr (entries, PNone), sent')"
proof -
  have s: "strip ''a'' \<noteq> []" by code_simp
  have film: "list_all (\<lambda>it. item_type it \<noteq> PStr ''Episode'') entries" "length entries \<le> 100"
    using assms by (auto simp: sample_entry_def item_type_def py_or_def)
  show ?thesis
    unfolding fetch_playlist_items_def fetch_user_items_def playlist_net_def
    using sample_read [OF s _ _ film(2,1)]
    by (simp add: sample_request_def page_params_def has_key_def)
qed

lemma sample_write:
  "\<exists>payload sent'. call_emby_api (playlist_net entries) (sample_server ''a'') path m params json sent = (Inr (True, payload), sent')"
proof -
  have "strip ''a'' \<noteq> []" by code_simp
  then have "reachable (sample_server ''a'')" by (rule sample_server_reachable)
  then show ?thesis
    by (auto simp: reachable_def call_emby_api_def send_def playlist_net_def library_net_def answer_of_def Let_def)
qed

theorem playlist_reconciled_witness:
  "\<exists>mid p' sent'. fetch_playlist_items (playlist_net [sample_entry]) (sample_server ''a'') ''u'' ''7'' [] = (Inr ([sample_entry], PNone), mid)
    \<and> reconcile_playlist (playlist_net [sample_entry]) (sample_server ''a'') ''u'' ''Films'' ''7'' [''6''] sample_pass []
      = (Inr p', mid @ [playlist_request (sample_server ''a'') ''7'' ''POST'' [(''UserId'', PStr ''u''), (''Ids'', PStr ''6'')] None,
          playlist_request (sample_server ''a'') ''7'' ''DELETE'' [(''UserId'', PStr ''u''), (''EntryIds'', PStr ''9'')] None])
    \<and> pp_failed p' = []"
proof -
  let ?net = "playlist_net [sample_entry]"
  have "strip ''a'' \<noteq> []" by code_simp
  then have server: "reachable (sample_server ''a'')" by (rule sample_server_reachable)
  obtain mid where read: "fetch_playlist_items ?net (sample_server ''a'') ''u'' ''7'' [] = (Inr ([sample_entry], PNone), mid)"
    using sample_entries [of "[sample_entry]" "[]"] by auto
  have row: "list_all2 playlist_row [sample_entry] [(''5'', ''9'')]"
    by (simp add: playlist_row_def sample_entry_def)
  have body: "fst (answer_of (n_reply ?net sent r))" for sent r
    by (simp add: playlist_net_def library_net_def answer_of_def Let_def split: http_reply.split)
  have empty: "pp_failed sample_pass = []" by (simp add: sample_pass_def start_pass_def)
  have "(''u''::string) \<noteq> []" "(''7''::string) \<noteq> []" "[] \<notin> set [''6'']" by simp_all
  from playlist_reconciled [OF server this read row, of "''Films''" sample_pass] read empty show ?thesis
    by (auto simp: playlist_writes_def body accepted_writes_def Let_def)
qed

theorem playlist_order_ignored_witness:
  "\<exists>sent'. reconcile_playlist (playlist_net [sample_entry]) (sample_server ''a'') ''u'' ''Films'' ''7'' [''5''] sample_pass []
    = (Inr sample_pass, sent')"
proof -
  obtain mid where read: "fetch_playlist_items (playlist_net [sample_entry]) (sample_server ''a'') ''u'' ''7'' []
      = (Inr ([sample_entry], PNone), mid)"
    using sample_entries [of "[sample_entry]" "[]"] by auto
  have "present_ids [sample_entry] = set [''5'']" by (simp add: present_ids_def sample_entry_def item_id_def)
  from playlist_order_ignored [OF read this] show ?thesis by blast
qed

theorem unfound_entries_removed_witness:
  "\<exists>rs r. r \<in> set rs \<and> removes_entry (sample_server ''a'') ''7'' ''9'' r
    \<and> (\<exists>mid. snd (settle_playlist (playlist_net [sample_entry]) (sample_server ''a'') ''u'' []
        (''films'', \<lparr>wp_name = ''Films'', wp_items = []\<rparr>) sample_pass []) = mid @ rs)"
proof -
  have s: "strip ''a'' \<noteq> []" by code_simp
  then have server: "reachable (sample_server ''a'')" by (rule sample_server_reachable)
  obtain mid where read: "fetch_playlist_items (playlist_net [sample_entry]) (sample_server ''a'') ''u'' ''7'' []
      = (Inr ([sample_entry], PNone), mid)"
    using sample_entries [of "[sample_entry]" "[]"] by auto
  have lookup: "fetch_items_by_provider_ids (playlist_net [sample_entry]) (sample_server ''a'') ''u'' [] True default_item_types []
      = (Inr ([], PNone), [])"
    by (simp add: fetch_items_by_provider_ids_def)
  have key_map: "build_target_key_map (playlist_net [sample_entry]) (sample_server ''a'') ''u'' [] [] = (Inr ([], PNone), [])"
    by (simp add: build_target_key_map_def)
  have "name_key ''Films'' = ''films''" by code_simp
  then have target: "playlist_id_of sample_pass (name_key ''Films'') = ''7''"
    by (simp add: playlist_id_of_def sample_pass_def dget_default_def item_id_def text_or_empty_def py_str_def)
  have entry: "item_id sample_entry = ''5''" "entry_id sample_entry = ''9''"
    by (simp_all add: sample_entry_def item_id_def entry_id_def py_or_def text_or_empty_def py_str_def Let_def)
  show ?thesis
    using unfound_entries_removed [OF server _ lookup key_map _ _ target _ read, of "\<lparr>wp_name = ''Films'', wp_items = []\<rparr>" sample_entry "''films''"]
    by (auto simp: entry)
qed

end
