(* ===== verification/User_Snapshots.thy ===== *)
theory User_Snapshots
  imports User_Playlists Key_Value
begin

text \<open>
  Snapshots of what a user has on a server, kept in the key-value table between synchronisations
  (\<open>UserSyncStateTracker\<close> in \<open>emby_users/state_tracker.py\<close>, \<open>emby_users/sync_results.py\<close>,
  \<open>emby_users/sync_state_refresh.py\<close>).  A tracker reads the stored baseline and the current state from
  Emby, compares them, and advances baselines with a compare-and-set.  The clock, the hash of a
  snapshot and the reading of settings (a constructor argument of the class) are the environment;
  progress reports and logging are left out.  The stored table is the one a run sees while it reads;
  a commit is given the table at its own time.
\<close>

subsection \<open>Equality of JSON values\<close>

text \<open>Python's \<open>==\<close>: numbers by value, dictionaries whatever their order.\<close>

definition number_of :: "py \<Rightarrow> pyfloat option" where
  "number_of v =
     (case v of PBool b \<Rightarrow> Some (Fin (if b then 1 else 0)) | PInt i \<Rightarrow> Some (Fin (of_int i))
      | PFloat f r \<Rightarrow> Some f | _ \<Rightarrow> None)"

fun py_equal :: "py \<Rightarrow> py \<Rightarrow> bool" where
  "py_equal (PList xs) w =
     (case w of PList ys \<Rightarrow> list_all2 (\<lambda>f y. f y) (map py_equal xs) ys | _ \<Rightarrow> False)"
| "py_equal (PDict d) w =
     (case w of
        PDict e \<Rightarrow> length d = length e
          \<and> list_all (\<lambda>(k, f). case map_of e k of None \<Rightarrow> False | Some y \<Rightarrow> f y) (map (\<lambda>(k, x). (k, py_equal x)) d)
      | _ \<Rightarrow> False)"
| "py_equal v w =
     (case number_of v of
        Some f \<Rightarrow> number_of w = Some f \<and> f \<noteq> NaN
      | None \<Rightarrow> v = w)"

subsection \<open>The stored baseline\<close>

record sync_env =
  se_now :: string
  se_digest :: "pdict \<Rightarrow> string"
  se_settings :: "pdict \<Rightarrow> string \<Rightarrow> pdict act"

definition tracker_key :: "string \<Rightarrow> string \<Rightarrow> string \<Rightarrow> exn + string" where
  "tracker_key domain server_id user_id =
     require_key_value_key (''emby_user_sync_state:'' @ domain @ '':'' @ server_id @ '':'' @ user_id)"

definition load_state :: "kv_store \<Rightarrow> string \<Rightarrow> string \<Rightarrow> string \<Rightarrow> exn + pdict option" where
  "load_state st domain server_id user_id =
     result_bind (tracker_key domain server_id user_id) (\<lambda>key.
     result_bind (get_key_value st key) (\<lambda>v. Inr (case v of PDict d \<Rightarrow> Some d | _ \<Rightarrow> None)))"

record item_diff =
  id_added :: "string list"
  id_removed :: "string list"
  id_order_changed :: bool

record snapshot_diff =
  sd_initial :: bool
  sd_added :: "string list"
  sd_removed :: "string list"
  sd_changed :: "string list"
  sd_items :: "(string, item_diff) dict"

record sync_state =
  ss_domain :: string
  ss_server :: string
  ss_user :: string
  ss_hash :: string
  ss_snapshot :: pdict
  ss_origin :: string
  ss_updated_at :: py
  ss_checked_at :: string
  ss_had_previous :: bool
  ss_changed :: bool
  ss_expected :: py
  ss_diff :: snapshot_diff
  ss_previous :: pdict

definition no_diff :: snapshot_diff where
  "no_diff = \<lparr>sd_initial = False, sd_added = [], sd_removed = [], sd_changed = [], sd_items = []\<rparr>"

text \<open>\<open>_build_state\<close>; an empty stored dictionary is false, as a missing one.\<close>

definition build_state ::
  "sync_env \<Rightarrow> string \<Rightarrow> string \<Rightarrow> string \<Rightarrow> pdict \<Rightarrow> pdict option \<Rightarrow> string \<Rightarrow> sync_state" where
  "build_state env domain server_id user_id snapshot previous origin =
     (let digest = se_digest env snapshot;
          old = (case previous of None \<Rightarrow> [] | Some d \<Rightarrow> d);
          changed = (old = [] \<or> pget old ''hash'' \<noteq> PStr digest)
      in \<lparr>ss_domain = domain, ss_server = server_id, ss_user = user_id, ss_hash = digest, ss_snapshot = snapshot,
          ss_origin = origin, ss_updated_at = (if changed then PStr (se_now env) else pget old ''updated_at''),
          ss_checked_at = se_now env, ss_had_previous = (old \<noteq> []), ss_changed = changed,
          ss_expected = (if old \<noteq> [] then pget old ''hash'' else PNone), ss_diff = no_diff, ss_previous = []\<rparr>)"

text \<open>The stored form: everything but the diff, the previous snapshot and the expected hash.\<close>

definition state_payload :: "sync_state \<Rightarrow> py" where
  "state_payload s =
     PDict [(''domain'', PStr (ss_domain s)), (''server_id'', PStr (ss_server s)), (''user_id'', PStr (ss_user s)),
       (''hash'', PStr (ss_hash s)), (''snapshot'', PDict (ss_snapshot s)), (''origin'', PStr (ss_origin s)),
       (''updated_at'', ss_updated_at s), (''checked_at'', PStr (ss_checked_at s)),
       (''had_previous'', PBool (ss_had_previous s)), (''changed'', PBool (ss_changed s))]"

subsection \<open>The current state\<close>

text \<open>\<open>_all_keys\<close> keeps the first occurrence of a key; a dictionary of states by key.\<close>

definition snapshot_item :: "pdict \<Rightarrow> pdict \<Rightarrow> exn + pdict" where
  "snapshot_item item states =
     result_bind (get_item_sync_keys item) (\<lambda>keys.
       if keys = [] then Inr states
       else result_bind (user_data_or item) (\<lambda>ud.
         result_bind (playstate_state_from_user_data ud) (\<lambda>state.
           Inr (foldl (\<lambda>d k. dset k (PDict state) d) states keys))))"

fun snapshot_items :: "pdict list \<Rightarrow> pdict \<Rightarrow> exn + pdict" where
  "snapshot_items [] states = Inr states"
| "snapshot_items (item # items) states = result_bind (snapshot_item item states) (snapshot_items items)"

definition snapshot_playstate :: "pdict list \<Rightarrow> exn + pdict" where
  "snapshot_playstate items = result_bind (snapshot_items items []) (\<lambda>states. Inr [(''items'', PDict states)])"

definition snapshot_playlist ::
  "emby_net \<Rightarrow> pdict \<Rightarrow> string \<Rightarrow> pdict \<Rightarrow> pdict \<Rightarrow> pdict act" where
  "snapshot_playlist net server user_id playlist output =
     (let name = strip (text_or_empty (py_or (pget playlist ''Name'') (pget playlist ''SortName''))) in
      if item_id playlist = [] \<or> name = [] then ret output
      else andthen (fetch_playlist_items net server user_id (item_id playlist)) (\<lambda>(items, err).
        if truthy err
        then lift (Inl (ValueError (''Failed to fetch playlist '' @ quoted name @ '' items: '' @ py_str err)))
        else andthen (lift (item_keys_in_order items [])) (\<lambda>keys.
          ret (dset (lower name) (PDict [(''name'', PStr name), (''items'', PList (map PStr keys))]) output))))"

definition snapshot_playlists :: "emby_net \<Rightarrow> pdict \<Rightarrow> string \<Rightarrow> pdict list \<Rightarrow> pdict act" where
  "snapshot_playlists net server user_id playlists =
     andthen (for_each (snapshot_playlist net server user_id) playlists []) (\<lambda>output.
       ret [(''playlists'', PDict output)])"

definition build_snapshot ::
  "sync_env \<Rightarrow> emby_net \<Rightarrow> servers \<Rightarrow> string \<Rightarrow> string \<Rightarrow> string \<Rightarrow> pdict act" where
  "build_snapshot env net servers domain server_id user_id =
     (let server = servers server_id in
      if server = [] then lift (Inl (ValueError (server_not_found server_id)))
      else if domain = ''settings''
      then andthen (fetch_user_details net server user_id) (\<lambda>(details, err).
        if truthy err \<or> \<not> truthy details
        then lift (Inl (ValueError (''Failed to fetch user settings: '' @ py_str err)))
        else andthen (lift (as_object details)) (\<lambda>d. se_settings env d server_id))
      else if domain = ''playstate''
      then andthen (fetch_user_items_for_sync net server user_id True) (\<lambda>(items, err).
        if truthy err then lift (Inl (ValueError (''Failed to fetch playstate items: '' @ py_str err)))
        else lift (snapshot_playstate items))
      else if domain = ''favorites''
      then andthen (fetch_user_favorite_items net server user_id) (\<lambda>(items, err).
        if truthy err then lift (Inl (ValueError (''Failed to fetch favorites: '' @ py_str err)))
        else andthen (lift (item_keys_in_order items [])) (\<lambda>keys.
          ret [(''favorites'', PList (map PStr (sort keys)))]))
      else if domain = ''playlists''
      then andthen (fetch_user_playlists net server user_id) (\<lambda>(playlists, err).
        if truthy err then lift (Inl (ValueError (''Failed to fetch playlists: '' @ py_str err)))
        else snapshot_playlists net server user_id playlists)
      else lift (Inl (ValueError (''Unsupported sync domain: '' @ domain))))"

subsection \<open>Differences\<close>

text \<open>A list of texts, or nothing, in a stored snapshot; a dictionary, or nothing.\<close>

fun texts :: "py list \<Rightarrow> exn + string list" where
  "texts [] = Inr []"
| "texts (v # vs) =
     (case v of PStr s \<Rightarrow> result_bind (texts vs) (\<lambda>ss. Inr (s # ss)) | _ \<Rightarrow> Inl (TypeError ''not a text''))"

definition text_list :: "py \<Rightarrow> exn + string list" where
  "text_list v = (case py_or v (PList []) of PList vs \<Rightarrow> texts vs | _ \<Rightarrow> Inl (TypeError ''not a list''))"

definition json_dict :: "py \<Rightarrow> exn + pdict" where
  "json_dict v = as_object (py_or v (PDict []))"

definition key_set :: "string list \<Rightarrow> string list" where
  "key_set ks = sort (remdups ks)"

definition diff_sets :: "string list \<Rightarrow> string list \<Rightarrow> snapshot_diff" where
  "diff_sets previous current =
     no_diff\<lparr>sd_added := key_set (filter (\<lambda>k. k \<notin> set previous) current),
             sd_removed := key_set (filter (\<lambda>k. k \<notin> set current) previous)\<rparr>"

definition diff_mapping :: "pdict \<Rightarrow> pdict \<Rightarrow> snapshot_diff" where
  "diff_mapping previous current =
     (diff_sets (dkeys previous) (dkeys current))\<lparr>sd_changed :=
        key_set (filter (\<lambda>k. k \<in> set (dkeys current) \<and> \<not> py_equal (pget previous k) (pget current k)) (dkeys previous))\<rparr>"

definition playlist_items_of :: "py \<Rightarrow> exn + string list" where
  "playlist_items_of v = result_bind (as_object v) (\<lambda>d. text_list (pget d ''items''))"

definition diff_items :: "string list \<Rightarrow> string list \<Rightarrow> item_diff" where
  "diff_items old_items new_items =
     \<lparr>id_added = sd_added (diff_sets old_items new_items), id_removed = sd_removed (diff_sets old_items new_items),
      id_order_changed = (old_items \<noteq> new_items \<and> set old_items = set new_items)\<rparr>"

definition is_changed :: "item_diff \<Rightarrow> bool" where
  "is_changed d \<longleftrightarrow> id_added d \<noteq> [] \<or> id_removed d \<noteq> [] \<or> id_order_changed d"

fun diff_common :: "pdict \<Rightarrow> pdict \<Rightarrow> string list \<Rightarrow> (string, item_diff) dict \<Rightarrow> exn + (string, item_diff) dict" where
  "diff_common previous current [] changed = Inr changed"
| "diff_common previous current (name # names) changed =
     result_bind (playlist_items_of (pget previous name)) (\<lambda>old_items.
     result_bind (playlist_items_of (pget current name)) (\<lambda>new_items.
       diff_common previous current names
         (if is_changed (diff_items old_items new_items) then dset name (diff_items old_items new_items) changed
          else changed)))"

definition diff_playlists :: "pdict \<Rightarrow> pdict \<Rightarrow> exn + snapshot_diff" where
  "diff_playlists previous current =
     result_bind (diff_common previous current
         (key_set (filter (\<lambda>n. n \<in> set (dkeys current)) (dkeys previous))) []) (\<lambda>changed.
       Inr ((diff_sets (dkeys previous) (dkeys current))\<lparr>sd_items := changed\<rparr>))"

text \<open>\<open>diff_snapshots\<close>; settings have no diff by key.\<close>

definition diff_snapshots :: "string \<Rightarrow> pdict \<Rightarrow> pdict \<Rightarrow> exn + snapshot_diff" where
  "diff_snapshots domain previous current =
     (if previous = [] then Inr (no_diff\<lparr>sd_initial := True\<rparr>)
      else if domain = ''playstate''
      then result_bind (json_dict (pget previous ''items'')) (\<lambda>p.
           result_bind (json_dict (pget current ''items'')) (\<lambda>c. Inr (diff_mapping p c)))
      else if domain = ''favorites''
      then result_bind (text_list (pget previous ''favorites'')) (\<lambda>p.
           result_bind (text_list (pget current ''favorites'')) (\<lambda>c. Inr (diff_sets p c)))
      else if domain = ''playlists''
      then result_bind (json_dict (pget previous ''playlists'')) (\<lambda>p.
           result_bind (json_dict (pget current ''playlists'')) (\<lambda>c. diff_playlists p c))
      else Inr (no_diff\<lparr>sd_changed := (if py_equal (PDict previous) (PDict current) then [] else [''settings''])\<rparr>))"

subsection \<open>Observing\<close>

definition observe ::
  "sync_env \<Rightarrow> emby_net \<Rightarrow> servers \<Rightarrow> kv_store \<Rightarrow> string \<Rightarrow> string \<Rightarrow> string \<times> string \<Rightarrow> sync_state act" where
  "observe env net servers st domain origin target =
     (case target of (server_id, user_id) \<Rightarrow>
        andthen (lift (load_state st domain server_id user_id)) (\<lambda>previous.
        andthen (build_snapshot env net servers domain server_id user_id) (\<lambda>snapshot.
          ret (build_state env domain server_id user_id snapshot previous origin))))"

definition refresh_with_diff ::
  "sync_env \<Rightarrow> emby_net \<Rightarrow> servers \<Rightarrow> kv_store \<Rightarrow> string \<Rightarrow> string \<Rightarrow> string \<times> string \<Rightarrow> sync_state act" where
  "refresh_with_diff env net servers st domain origin target =
     (case target of (server_id, user_id) \<Rightarrow>
        andthen (lift (load_state st domain server_id user_id)) (\<lambda>previous.
        andthen (build_snapshot env net servers domain server_id user_id) (\<lambda>snapshot.
          let old = (case previous of None \<Rightarrow> [] | Some d \<Rightarrow> d) in
          andthen (lift (json_dict (pget old ''snapshot''))) (\<lambda>stored.
          andthen (lift (diff_snapshots domain stored snapshot)) (\<lambda>diff.
            ret ((build_state env domain server_id user_id snapshot previous origin)
              \<lparr>ss_diff := diff, ss_previous := stored\<rparr>))))))"

text \<open>\<open>refresh\<close> and \<open>save\<close> store the observed state without a comparison.\<close>

definition save_state ::
  "sync_env \<Rightarrow> kv_store \<Rightarrow> string \<Rightarrow> string \<Rightarrow> string \<Rightarrow> pdict \<Rightarrow> string \<Rightarrow> exn + sync_state \<times> kv_store" where
  "save_state env st domain server_id user_id snapshot origin =
     result_bind (load_state st domain server_id user_id) (\<lambda>previous.
     result_bind (tracker_key domain server_id user_id) (\<lambda>key.
       let s = build_state env domain server_id user_id snapshot previous origin in
       case set_key_value st key (state_payload s) of
         (Inl e, st') \<Rightarrow> Inl e
       | (Inr u, st') \<Rightarrow> Inr (s, st')))"

definition refresh ::
  "sync_env \<Rightarrow> emby_net \<Rightarrow> servers \<Rightarrow> string \<Rightarrow> string \<Rightarrow> string \<times> string \<Rightarrow> kv_store \<Rightarrow> (sync_state \<times> kv_store) act" where
  "refresh env net servers domain origin target st =
     (case target of (server_id, user_id) \<Rightarrow>
        andthen (build_snapshot env net servers domain server_id user_id) (\<lambda>snapshot.
          lift (save_state env st domain server_id user_id snapshot origin)))"

text \<open>\<open>try\<close>: an exception becomes a value.\<close>

definition attempt :: "'a act \<Rightarrow> (exn + 'a) act" where
  "attempt m = (\<lambda>sent. case m sent of (r, sent') \<Rightarrow> (Inr r, sent'))"

type_synonym observed = "string \<times> string + sync_state"

definition observed_as :: "string \<times> string \<Rightarrow> exn + sync_state \<Rightarrow> observed" where
  "observed_as target r = (case r of Inl e \<Rightarrow> Inl target | Inr s \<Rightarrow> Inr s)"

definition collect_many ::
  "(string \<times> string \<Rightarrow> sync_state act) \<Rightarrow> (string \<times> string) list \<Rightarrow> observed list act" where
  "collect_many collector targets =
     for_each (\<lambda>target states. andthen (attempt (collector target)) (\<lambda>r. ret (states @ [observed_as target r])))
       targets []"

definition observe_many ::
  "sync_env \<Rightarrow> emby_net \<Rightarrow> servers \<Rightarrow> kv_store \<Rightarrow> string \<Rightarrow> string \<Rightarrow> (string \<times> string) list \<Rightarrow> observed list act" where
  "observe_many env net servers st domain origin targets = collect_many (observe env net servers st domain origin) targets"

definition refresh_many_with_diff ::
  "sync_env \<Rightarrow> emby_net \<Rightarrow> servers \<Rightarrow> kv_store \<Rightarrow> string \<Rightarrow> (string \<times> string) list \<Rightarrow> observed list act" where
  "refresh_many_with_diff env net servers st domain targets =
     collect_many (refresh_with_diff env net servers st domain ''refresh'') targets"

definition refresh_many ::
  "sync_env \<Rightarrow> emby_net \<Rightarrow> servers \<Rightarrow> string \<Rightarrow> string \<Rightarrow> (string \<times> string) list \<Rightarrow> kv_store
    \<Rightarrow> (observed list \<times> kv_store) act" where
  "refresh_many env net servers domain origin targets st =
     for_each (\<lambda>target (states, st).
         andthen (attempt (refresh env net servers domain origin target st)) (\<lambda>r. ret (
           case r of
             Inl e \<Rightarrow> (states @ [Inl target], st)
           | Inr (s, st') \<Rightarrow> (states @ [Inr s], st'))))
       targets ([], st)"

subsection \<open>Complete snapshots\<close>

definition snapshot_failure_message :: string where
  "snapshot_failure_message = ''Snapshot non disponibile. Verifica i log dell'' @ CHR 0x27 # ''applicazione.''"

definition failed_targets :: "observed list \<Rightarrow> (string \<times> string) list" where
  "failed_targets states = List.map_filter (\<lambda>s. case s of Inl t \<Rightarrow> Some t | Inr s \<Rightarrow> None) states"

definition observed_states :: "observed list \<Rightarrow> sync_state list" where
  "observed_states states = List.map_filter (\<lambda>s. case s of Inl t \<Rightarrow> None | Inr s \<Rightarrow> Some s) states"

definition require_complete_snapshots :: "observed list \<Rightarrow> nat \<Rightarrow> exn + sync_state list" where
  "require_complete_snapshots states expected =
     (if length states \<noteq> expected \<or> failed_targets states \<noteq> []
      then let labels = map (\<lambda>(server, user). server @ ''/'' @ user @ '': '' @ snapshot_failure_message) (failed_targets states)
           in Inl (RuntimeError (''Snapshot incompleto: ''
                @ (if labels = [] then ''snapshot mancanti'' else join ''; '' labels)))
      else Inr (observed_states states))"

subsection \<open>Advancing the baselines\<close>

definition expected_hash :: "sync_state \<Rightarrow> string option" where
  "expected_hash s = (case ss_expected s of PStr h \<Rightarrow> Some h | _ \<Rightarrow> None)"

fun commit_updates ::
  "sync_state list \<Rightarrow> (string, string option \<times> py) dict \<Rightarrow> exn + (string, string option \<times> py) dict" where
  "commit_updates [] updates = Inr updates"
| "commit_updates (s # ss) updates =
     result_bind (tracker_key (ss_domain s) (ss_server s) (ss_user s)) (\<lambda>key.
       commit_updates ss (dset key (expected_hash s, state_payload s) updates))"

definition snapshots_moved :: string where
  "snapshots_moved = ''Snapshot modificati durante la sincronizzazione; riprovare''"

text \<open>\<open>commit_many\<close> on a storage that has the compare-and-set; the states are complete.\<close>

definition commit_many :: "kv_store \<Rightarrow> sync_state list \<Rightarrow> (exn + unit) \<times> kv_store" where
  "commit_many st states =
     (case commit_updates states [] of
        Inl e \<Rightarrow> (Inl e, st)
      | Inr updates \<Rightarrow>
          (case compare_and_set_key_values st updates of
             (Inl e, st') \<Rightarrow> (Inl e, st')
           | (Inr advanced, st') \<Rightarrow> (if advanced then Inr () else Inl (RuntimeError snapshots_moved), st')))"

subsection \<open>The latest change\<close>

definition choose_latest ::
  "sync_env \<Rightarrow> emby_net \<Rightarrow> servers \<Rightarrow> kv_store \<Rightarrow> string \<Rightarrow> (string \<times> string) list \<Rightarrow> (string \<times> string) option
    \<Rightarrow> sync_state option act" where
  "choose_latest env net servers st domain targets preferred =
     andthen (observe_many env net servers st domain ''refresh'' targets) (\<lambda>observed.
     andthen (lift (require_complete_snapshots observed (length targets))) (\<lambda>states.
       let changed = filter (\<lambda>s. ss_had_previous s \<and> ss_changed s) states in
       if states = [] then ret None
       else if length changed > 1
       then lift (Inl (RuntimeError (''Conflitto '' @ domain @ '': pi'' @ CHR 0xF9 # '' partecipanti sono cambiati; nessuna modifica applicata'')))
       else ret (Some (case changed of
              s # _ \<Rightarrow> s
            | [] \<Rightarrow> (case filter (\<lambda>s. Some (ss_server s, ss_user s) = preferred) states of
                       s # _ \<Rightarrow> s | [] \<Rightarrow> hd states)))))"

text \<open>\<open>refresh_sync_states\<close>: the domains that were synchronised, observed and committed together.\<close>

record sync_domains =
  sy_config :: bool
  sy_library_access :: bool
  sy_playstate :: bool
  sy_favorites :: bool
  sy_playlists :: bool

definition snapshot_domains :: "sync_domains \<Rightarrow> string list" where
  "snapshot_domains d =
     (if sy_config d \<or> sy_library_access d then [''settings''] else [])
     @ (if sy_playstate d then [''playstate''] else []) @ (if sy_favorites d then [''favorites''] else [])
     @ (if sy_playlists d then [''playlists''] else [])"

definition checkpoint_states ::
  "sync_env \<Rightarrow> emby_net \<Rightarrow> servers \<Rightarrow> kv_store \<Rightarrow> (string \<times> string) list \<Rightarrow> string \<Rightarrow> sync_domains \<Rightarrow> sync_state list act" where
  "checkpoint_states env net servers st targets origin domains =
     (let unique = rev (remdups (rev targets)) in
      for_each (\<lambda>domain states.
          andthen (observe_many env net servers st domain origin unique) (\<lambda>observed.
          andthen (lift (require_complete_snapshots observed (length unique))) (\<lambda>complete. ret (states @ complete))))
        (snapshot_domains domains) [])"

subsection \<open>Fenced commits\<close>

text \<open>The entry of the table a state stands for, and the hash of a stored baseline.\<close>

definition entry_key :: "sync_state \<Rightarrow> string" where
  "entry_key s = ''emby_user_sync_state:'' @ ss_domain s @ '':'' @ ss_server s @ '':'' @ ss_user s"

definition stored_hash :: "kv_store \<Rightarrow> string \<Rightarrow> py" where
  "stored_hash st key = (case map_of st key of Some (PDict d) \<Rightarrow> pget d ''hash'' | _ \<Rightarrow> PNone)"

lemma commit_updates_Inr:
  assumes "commit_updates states updates = Inr updates'" "distinct (dkeys updates)"
  shows "distinct (dkeys updates')"
    and "map_of updates' key =
      (case map_of (map (\<lambda>s. (entry_key s, (expected_hash s, state_payload s))) (rev states)) key of
         None \<Rightarrow> map_of updates key | Some u \<Rightarrow> Some u)"
  using assms
proof (induction states arbitrary: updates)
  case (Cons s states)
  { case 1
    then show ?case using Cons.IH(1) by (auto simp: result_bind_Inr_iff) }
  { case 2
    then have "commit_updates states (dset (entry_key s) (expected_hash s, state_payload s) updates) = Inr updates'"
      by (auto simp: result_bind_Inr_iff tracker_key_def entry_key_def require_key_value_key_Inr)
    from Cons.IH(2) [OF this] 2 show ?case by (auto simp: map_add_def split: option.splits) }
qed (simp_all)

text \<open>C14: Baselines advance together or not at all.  A commit either raises and leaves the table as it
  is, or every state was taken against the hash that is still stored, every one of them is stored, and
  no other entry changed.\<close>

theorem commit_fenced:
  assumes "distinct (map entry_key states)"
  shows "case commit_many st states of
      (Inl e, st') \<Rightarrow> st' = st
    | (Inr u, st') \<Rightarrow> (\<forall>s \<in> set states. stored_hash st (entry_key s) = (case expected_hash s of None \<Rightarrow> PNone | Some h \<Rightarrow> PStr h)
         \<and> map_of st' (entry_key s) = Some (state_payload s))
       \<and> (\<forall>key. key \<notin> set (map entry_key states) \<longrightarrow> map_of st' key = map_of st key)"
proof (cases "commit_updates states []")
  case (Inr updates)
  let ?new = "map (\<lambda>s. (entry_key s, (expected_hash s, state_payload s))) (rev states)"
  have fresh: "distinct (dkeys updates)" using commit_updates_Inr(1) [OF Inr] by (simp add: dkeys_def)
  have updates: "map_of updates key = map_of ?new key" for key
    using commit_updates_Inr(2) [OF Inr, of key] by (simp add: dkeys_def split: option.splits)
  have distinct: "distinct (map fst ?new)" using assms by (simp add: comp_def rev_map [symmetric])
  have new: "map_of ?new (entry_key s) = Some (expected_hash s, state_payload s)" if "s \<in> set states" for s
    using that distinct by (auto simp: map_of_eq_Some_iff)
  have other: "map_of ?new key = None" if "key \<notin> set (map entry_key states)" for key
    using that by (auto simp: map_of_eq_None_iff)
  have kept: "stored_hash st (entry_key s) = (case expected_hash s of None \<Rightarrow> PNone | Some h \<Rightarrow> PStr h)"
    if "\<not> cas_conflict st updates" "s \<in> set states" for s
  proof -
    have "(entry_key s, expected_hash s, state_payload s) \<in> set updates"
      using new [OF that(2)] updates by (metis map_of_SomeD)
    with that(1) show ?thesis by (auto simp: cas_conflict_iff stored_hash_def)
  qed
  have "cas_conflict st [] = False" by simp
  then have "compare_and_set_key_values st updates = (Inl e, st') \<Longrightarrow> st' = st"
    "compare_and_set_key_values st updates = (Inr False, st') \<Longrightarrow> st' = st"
    "compare_and_set_key_values st updates = (Inr True, st') \<Longrightarrow> \<not> cas_conflict st updates \<and> st' = cas_write st updates" for e st'
    by (auto simp: compare_and_set_key_values_def split: if_splits option.splits)
  then show ?thesis
    using kept new other updates map_of_cas_write [OF fresh [unfolded dkeys_def], of st]
    by (auto simp: commit_many_def Inr split: prod.split sum.split)
qed (simp add: commit_many_def)

definition sample_checkpoint :: "string \<Rightarrow> py \<Rightarrow> sync_state" where
  "sample_checkpoint server expected =
     \<lparr>ss_domain = ''settings'', ss_server = server, ss_user = ''u'', ss_hash = ''new'', ss_snapshot = [(''x'', PInt 1)],
      ss_origin = ''auto-sync'', ss_updated_at = PStr ''t'', ss_checked_at = ''t'', ss_had_previous = (expected \<noteq> PNone),
      ss_changed = True, ss_expected = expected, ss_diff = no_diff, ss_previous = []\<rparr>"

definition sample_table :: kv_store where
  "sample_table = [(''emby_user_sync_state:settings:a:u'', PDict [(''hash'', PStr ''old'')])]"

theorem commit_fenced_witness:
  "map_of (snd (commit_many sample_table [sample_checkpoint ''a'' (PStr ''old''), sample_checkpoint ''b'' PNone]))
     (entry_key (sample_checkpoint ''b'' PNone)) = Some (state_payload (sample_checkpoint ''b'' PNone))"
proof -
  let ?states = "[sample_checkpoint ''a'' (PStr ''old''), sample_checkpoint ''b'' PNone]"
  have "distinct (map entry_key ?states)" by (simp add: entry_key_def sample_checkpoint_def)
  moreover have "fst (commit_many sample_table ?states) = Inr ()" by code_simp
  ultimately show ?thesis
    using commit_fenced [of ?states sample_table] by (auto split: prod.splits)
qed

end
