(* ===== verification/Group_Delta.thy ===== *)
theory Group_Delta
  imports User_Snapshots
begin

text \<open>
  The three-way merges of a synchronised group (\<open>_run_favorites_delta_sync\<close>,
  \<open>_run_playstate_delta_sync\<close>, \<open>_run_playlists_delta_sync\<close> and \<open>_run_latest_wins\<close> of \<open>AutoSyncManager\<close> in
  \<open>emby_users/auto_sync_manager.py\<close>): from the baseline and the current snapshot of every
  participant to what all of them shall have.  The computation of the wanted state is a function of
  the observed states; it is applied by the managers of the other theories.  A stored playlist has a
  name and items, a stored state is a dictionary, as the tracker writes them.  A result dictionary
  has all its fields, empty where the code leaves one out.
\<close>

subsection \<open>Results as dictionaries\<close>

definition counts_dict :: "(string, nat) dict \<Rightarrow> py" where
  "counts_dict d = PDict (map (\<lambda>(k, n). (k, PInt (int n))) d)"

definition text_values :: "string list \<Rightarrow> py" where
  "text_values ts = PList (map PStr ts)"

definition error_entry :: "string option \<Rightarrow> pdict" where
  "error_entry e = (case e of None \<Rightarrow> [] | Some m \<Rightarrow> [(''error'', PStr m)])"

definition sync_result_dict :: "sync_result \<Rightarrow> pdict" where
  "sync_result_dict r =
     [(''success'', text_values (sr_success r)), (''failed'', text_values (sr_failed r)),
      (''counts'', counts_dict (sr_counts r)), (''resume_counts'', counts_dict (sr_resume_counts r)),
      (''cleared_counts'', counts_dict (sr_cleared_counts r))] @ error_entry (sr_error r)"

definition favorite_result_dict :: "favorite_result \<Rightarrow> pdict" where
  "favorite_result_dict r =
     [(''success'', text_values (fv_success r)), (''failed'', text_values (fv_failed r)),
      (''counts'', counts_dict (fv_counts r)), (''cleared_counts'', counts_dict (fv_cleared r)),
      (''missing_counts'', counts_dict (fv_missing r))] @ error_entry (fv_error r)"

definition playlist_counts_dict :: "playlist_counts \<Rightarrow> py" where
  "playlist_counts_dict c =
     PDict [(''playlists'', PInt (int (pc_playlists c))), (''playlists_deleted'', PInt (int (pc_deleted c))),
       (''items_added'', PInt (int (pc_added c))), (''items_removed'', PInt (int (pc_removed c)))]"

definition playlist_result_dict :: "playlist_result \<Rightarrow> pdict" where
  "playlist_result_dict r =
     [(''success'', text_values (pl_success r)), (''failed'', text_values (pl_failed r)),
      (''counts'', PDict (map (\<lambda>(k, c). (k, playlist_counts_dict c)) (pl_counts r))),
      (''missing_counts'', counts_dict (pl_missing r)), (''not_removed_counts'', counts_dict (pl_not_removed r))]
     @ error_entry (pl_error r)"

text \<open>\<open>validate_sync_result\<close>.\<close>

definition validate_sync_result :: "pdict \<Rightarrow> exn + pdict" where
  "validate_sync_result r =
     (if truthy (pget r ''error'') then Inl (RuntimeError (py_str (pget r ''error'')))
      else if pget r ''ok'' = PBool False
      then Inl (RuntimeError (text_or (pget r ''message'') ''Sincronizzazione non riuscita''))
      else if lower (text_or_empty (pget r ''status'')) \<in> {''error'', ''failed'', ''partial''}
      then Inl (RuntimeError (py_str (py_or (pget r ''message'') (pget r ''status''))))
      else if (case pget r ''failed'' of PList xs \<Rightarrow> xs \<noteq> [] | PDict d \<Rightarrow> d \<noteq> [] | _ \<Rightarrow> False)
      then Inl (RuntimeError (''Scritture non riuscite: '' @ py_str (pget r ''failed'')))
      else if truthy (pget r ''skipped'')
      then Inl (RuntimeError (text_or (pget r ''reason'') ''Sincronizzazione saltata''))
      else Inr r)"

definition skipped_result :: "string \<Rightarrow> pdict" where
  "skipped_result reason = [(''skipped'', PBool True), (''reason'', PStr reason)]"

subsection \<open>Favourites\<close>

text \<open>A loop whose body may raise.\<close>

fun each_ok :: "('a \<Rightarrow> 's \<Rightarrow> exn + 's) \<Rightarrow> 'a list \<Rightarrow> 's \<Rightarrow> exn + 's" where
  "each_ok f [] s = Inr s"
| "each_ok f (x # xs) s = result_bind (f x s) (each_ok f xs)"

record favorite_delta =
  fd_baseline :: "string list"
  fd_added :: "string list"
  fd_removed :: "string list"
  fd_initial :: "string list"
  fd_changed :: bool

definition add_all :: "string list \<Rightarrow> string list \<Rightarrow> string list" where
  "add_all ks s = foldl (\<lambda>s k. add_to_set k s) s ks"

definition note_favorites :: "sync_state \<Rightarrow> favorite_delta \<Rightarrow> exn + favorite_delta" where
  "note_favorites s d =
     result_bind (text_list (pget (ss_snapshot s) ''favorites'')) (\<lambda>current.
     result_bind (text_list (pget (ss_previous s) ''favorites'')) (\<lambda>previous. Inr (
       let d = d\<lparr>fd_baseline := add_all previous (fd_baseline d)\<rparr>;
           d = (if sd_initial (ss_diff s) then d\<lparr>fd_initial := add_all current (fd_initial d)\<rparr>
                else d\<lparr>fd_added := add_all (sd_added (ss_diff s)) (fd_added d),
                       fd_removed := add_all (sd_removed (ss_diff s)) (fd_removed d)\<rparr>)
       in d\<lparr>fd_changed := fd_changed d \<or> ss_changed s\<rparr>)))"

definition no_favorite_delta :: favorite_delta where
  "no_favorite_delta = \<lparr>fd_baseline = [], fd_added = [], fd_removed = [], fd_initial = [], fd_changed = False\<rparr>"

definition desired_keys :: "favorite_delta \<Rightarrow> string list" where
  "desired_keys d =
     filter (\<lambda>k. k \<notin> set (fd_removed d)) (add_all (fd_added d) (add_all (fd_initial d) (fd_baseline d)))"

definition favorite_conflicts :: "favorite_delta \<Rightarrow> string list" where
  "favorite_conflicts d = filter (\<lambda>k. k \<in> set (fd_removed d)) (fd_added d)"

text \<open>The keys all participants shall have, with the counts the run reports.\<close>

definition wanted_favorites :: "sync_state list \<Rightarrow> exn + string list \<times> (string \<times> nat) list" where
  "wanted_favorites states =
     result_bind (each_ok note_favorites states no_favorite_delta) (\<lambda>d.
       if favorite_conflicts d \<noteq> [] \<and> fd_changed d
       then Inl (RuntimeError (''Conflitto preferiti su '' @ str_nat (length (favorite_conflicts d))
              @ '' elementi; nessuna modifica applicata''))
       else Inr (desired_keys d,
         [(''baseline'', length (fd_baseline d)), (''added'', length (add_all (fd_initial d) (fd_added d))),
          (''removed'', length (fd_removed d)), (''conflicts'', length (favorite_conflicts d)),
          (''desired'', length (desired_keys d))]))"

subsection \<open>Playback states\<close>

datatype state_op = SetState py | RemoveState

fun same_op :: "state_op \<Rightarrow> state_op \<Rightarrow> bool" where
  "same_op (SetState v) (SetState w) = py_equal v w"
| "same_op RemoveState RemoveState = True"
| "same_op _ _ = False"

definition record_op :: "string \<Rightarrow> ('v \<Rightarrow> 'v \<Rightarrow> bool) \<Rightarrow> 'k \<Rightarrow> 'v \<Rightarrow> ('k, 'v) dict \<Rightarrow> exn + ('k, 'v) dict" where
  "record_op conflict same key op ops =
     (case map_of ops key of
        Some old \<Rightarrow> if same old op then Inr (dset key op ops) else Inl (RuntimeError conflict)
      | None \<Rightarrow> Inr (dset key op ops))"

definition playstate_conflict :: "string \<Rightarrow> string" where
  "playstate_conflict key = ''Conflitto stato riproduzione per '' @ key @ ''; nessuna modifica applicata''"

definition record_state_op :: "string \<times> state_op \<Rightarrow> (string, state_op) dict \<Rightarrow> exn + (string, state_op) dict" where
  "record_state_op entry ops = (case entry of (key, op) \<Rightarrow> record_op (playstate_conflict key) same_op key op ops)"

text \<open>The operations of one participant: what it set, then what it removed.\<close>

definition participant_ops :: "snapshot_diff \<Rightarrow> pdict \<Rightarrow> (string \<times> state_op) list" where
  "participant_ops diff current =
     (if sd_initial diff then map (\<lambda>(k, v). (k, SetState v)) current
      else map (\<lambda>k. (k, SetState (pget current k))) (filter (\<lambda>k. has_key k current) (sd_added diff @ sd_changed diff))
        @ map (\<lambda>k. (k, RemoveState)) (sd_removed diff))"

record playstate_delta =
  yd_desired :: pdict
  yd_ops :: "(string, state_op) dict"
  yd_initial :: nat

definition note_playstate :: "sync_state \<Rightarrow> playstate_delta \<Rightarrow> exn + playstate_delta" where
  "note_playstate s d =
     result_bind (json_dict (pget (ss_snapshot s) ''items'')) (\<lambda>current.
     result_bind (json_dict (pget (ss_previous s) ''items'')) (\<lambda>previous.
     result_bind (each_ok record_state_op (participant_ops (ss_diff s) current) (yd_ops d)) (\<lambda>ops.
       Inr \<lparr>yd_desired = dupdate (yd_desired d) previous, yd_ops = ops,
            yd_initial = (if sd_initial (ss_diff s) then yd_initial d + length current else yd_initial d)\<rparr>)))"

definition no_playstate_delta :: playstate_delta where
  "no_playstate_delta = \<lparr>yd_desired = [], yd_ops = [], yd_initial = 0\<rparr>"

definition apply_op :: "pdict \<Rightarrow> string \<times> state_op \<Rightarrow> pdict" where
  "apply_op desired op =
     (case op of (key, SetState v) \<Rightarrow> dset key v desired | (key, RemoveState) \<Rightarrow> dpop key desired)"

definition wanted_playstates :: "sync_state list \<Rightarrow> exn + pdict \<times> (string \<times> nat) list" where
  "wanted_playstates states =
     result_bind (each_ok note_playstate states no_playstate_delta) (\<lambda>d.
       let desired = foldl apply_op (yd_desired d) (yd_ops d);
           removed = length (filter (\<lambda>p. snd p = RemoveState) (yd_ops d))
       in Inr (desired, [(''set'', length (yd_ops d) - removed), (''removed'', removed), (''initial'', yd_initial d),
            (''desired'', length desired)]))"

text \<open>The states as the manager reads them.\<close>

fun state_dicts :: "pdict \<Rightarrow> exn + (string, pdict) dict" where
  "state_dicts [] = Inr []"
| "state_dicts ((k, v) # todo) =
     result_bind (as_object v) (\<lambda>d. result_bind (state_dicts todo) (\<lambda>ds. Inr ((k, d) # ds)))"

subsection \<open>Playlists\<close>

text \<open>A stored playlist: \<open>{"name": ..., "items": [...]}\<close>.\<close>

definition stored_playlist :: "py \<Rightarrow> exn + wanted_playlist" where
  "stored_playlist v =
     result_bind (as_object v) (\<lambda>d. result_bind (text_list (pget d ''items'')) (\<lambda>items.
       Inr \<lparr>wp_name = text_or_empty (pget d ''name''), wp_items = items\<rparr>))"

fun stored_playlists :: "pdict \<Rightarrow> exn + wanted_playlists" where
  "stored_playlists [] = Inr []"
| "stored_playlists ((name, v) # todo) =
     result_bind (stored_playlist v) (\<lambda>w. result_bind (stored_playlists todo) (\<lambda>ws. Inr ((name, w) # ws)))"

definition playlists_of :: "pdict \<Rightarrow> exn + wanted_playlists" where
  "playlists_of snapshot = result_bind (json_dict (pget snapshot ''playlists'')) stored_playlists"

datatype playlist_op = SetPlaylist wanted_playlist | RemovePlaylist

datatype item_op = AddItem | RemoveItem

record playlist_delta =
  pd_desired :: wanted_playlists
  pd_playlists :: "(string, playlist_op) dict"
  pd_items :: "(string \<times> string, item_op) dict"
  pd_orders :: "(string, string list) dict"

definition playlist_conflict :: "string \<Rightarrow> string \<Rightarrow> string" where
  "playlist_conflict what name = ''Conflitto '' @ what @ '' '' @ quoted name @ ''; nessuna modifica applicata''"

definition record_playlist_op :: "string \<times> playlist_op \<Rightarrow> playlist_delta \<Rightarrow> exn + playlist_delta" where
  "record_playlist_op entry d =
     (case entry of (name, op) \<Rightarrow>
        result_bind (record_op (playlist_conflict ''playlist'' name) (=) name op (pd_playlists d)) (\<lambda>ops.
          Inr (d\<lparr>pd_playlists := ops\<rparr>)))"

definition record_item_op :: "(string \<times> string) \<times> item_op \<Rightarrow> playlist_delta \<Rightarrow> exn + playlist_delta" where
  "record_item_op entry d =
     (case entry of ((name, key), op) \<Rightarrow>
        result_bind (record_op (playlist_conflict ''elemento playlist'' name) (=) (name, key) op (pd_items d)) (\<lambda>ops.
          Inr (d\<lparr>pd_items := ops\<rparr>)))"

definition record_order :: "string \<Rightarrow> wanted_playlist \<Rightarrow> playlist_delta \<Rightarrow> exn + playlist_delta" where
  "record_order name playlist d =
     result_bind (record_op (playlist_conflict ''ordine playlist'' name) (=) name (wp_items playlist) (pd_orders d)) (\<lambda>orders.
       Inr (let d = d\<lparr>pd_orders := orders\<rparr> in
         if wp_name playlist \<noteq> [] \<and> map_of (pd_desired d) name = None
         then d\<lparr>pd_desired := dset name \<lparr>wp_name = wp_name playlist, wp_items = []\<rparr> (pd_desired d)\<rparr> else d))"

definition note_changed_playlist ::
  "wanted_playlists \<Rightarrow> string \<times> item_diff \<Rightarrow> playlist_delta \<Rightarrow> exn + playlist_delta" where
  "note_changed_playlist current entry d =
     (case entry of (name, diff) \<Rightarrow>
        result_bind (each_ok record_item_op
            (map (\<lambda>k. ((name, k), AddItem)) (id_added diff) @ map (\<lambda>k. ((name, k), RemoveItem)) (id_removed diff)) d) (\<lambda>d.
          if id_order_changed diff
          then record_order name (case map_of current name of None \<Rightarrow> \<lparr>wp_name = [], wp_items = []\<rparr> | Some p \<Rightarrow> p) d
          else Inr d))"

definition note_playlists :: "sync_state \<Rightarrow> playlist_delta \<Rightarrow> exn + playlist_delta" where
  "note_playlists s d =
     result_bind (playlists_of (ss_snapshot s)) (\<lambda>current.
     result_bind (playlists_of (ss_previous s)) (\<lambda>previous.
       let d = d\<lparr>pd_desired := dupdate (pd_desired d) previous\<rparr> in
       if sd_initial (ss_diff s) then each_ok record_playlist_op (map (\<lambda>(name, p). (name, SetPlaylist p)) current) d
       else
         result_bind (each_ok record_playlist_op
             (List.map_filter (\<lambda>name. map_option (\<lambda>p. (name, SetPlaylist p)) (map_of current name)) (sd_added (ss_diff s))
              @ map (\<lambda>name. (name, RemovePlaylist)) (sd_removed (ss_diff s))) d)
           (each_ok (note_changed_playlist current) (sd_items (ss_diff s)))))"

definition no_playlist_delta :: playlist_delta where
  "no_playlist_delta = \<lparr>pd_desired = [], pd_playlists = [], pd_items = [], pd_orders = []\<rparr>"

definition apply_playlist_op :: "wanted_playlists \<Rightarrow> string \<times> playlist_op \<Rightarrow> wanted_playlists" where
  "apply_playlist_op desired entry =
     (case entry of (name, RemovePlaylist) \<Rightarrow> dpop name desired | (name, SetPlaylist p) \<Rightarrow> dset name p desired)"

fun index_of :: "'a \<Rightarrow> 'a list \<Rightarrow> nat option" where
  "index_of x [] = None"
| "index_of x (y # ys) = (if x = y then Some 0 else map_option Suc (index_of x ys))"

text \<open>An item is put where the new order has it, else at the end.\<close>

definition insert_item :: "string list \<Rightarrow> string \<Rightarrow> string list \<Rightarrow> string list" where
  "insert_item order key items =
     (case index_of key order of
        None \<Rightarrow> items @ [key]
      | Some i \<Rightarrow> take (min i (length items)) items @ [key] @ drop (min i (length items)) items)"

definition apply_item_op ::
  "(string, string list) dict \<Rightarrow> wanted_playlists \<Rightarrow> (string \<times> string) \<times> item_op \<Rightarrow> wanted_playlists" where
  "apply_item_op orders desired entry =
     (case entry of ((name, key), op) \<Rightarrow>
        let playlist = (case map_of desired name of None \<Rightarrow> \<lparr>wp_name = name, wp_items = []\<rparr> | Some p \<Rightarrow> p);
            items = wp_items playlist;
            items = (if op = RemoveItem then filter (\<lambda>k. k \<noteq> key) items
                     else if key \<notin> set items then insert_item (dget_default orders name []) key items
                     else items)
        in dset name (playlist\<lparr>wp_items := items\<rparr>) desired)"

text \<open>\<open>ordered.extend\<close> adds to the list it looks keys up in while it goes.\<close>

definition reorder :: "string list \<Rightarrow> string list \<Rightarrow> string list" where
  "reorder order items =
     foldl (\<lambda>ordered k. if k \<in> set ordered then ordered else ordered @ [k])
       (filter (\<lambda>k. k \<in> set items) order) items"

definition apply_order :: "wanted_playlists \<Rightarrow> string \<times> string list \<Rightarrow> wanted_playlists" where
  "apply_order desired entry =
     (case entry of (name, order) \<Rightarrow>
        (case map_of desired name of
           None \<Rightarrow> desired
         | Some p \<Rightarrow> dset name (p\<lparr>wp_items := reorder order (wp_items p)\<rparr>) desired))"

definition settle_delta :: "playlist_delta \<Rightarrow> wanted_playlists" where
  "settle_delta d =
     foldl apply_order
       (foldl (apply_item_op (pd_orders d)) (foldl apply_playlist_op (pd_desired d) (pd_playlists d)) (pd_items d))
       (pd_orders d)"

definition deleted_playlists :: "playlist_delta \<Rightarrow> wanted_playlists \<Rightarrow> string list" where
  "deleted_playlists d desired =
     map fst (filter (\<lambda>(name, op). op = RemovePlaylist \<and> map_of desired name = None) (pd_playlists d))"

text \<open>What the playlists shall be, and the names of those to delete.\<close>

definition wanted_group_playlists :: "sync_state list \<Rightarrow> exn + wanted_playlists \<times> string list \<times> (string \<times> nat) list" where
  "wanted_group_playlists states =
     result_bind (each_ok note_playlists states no_playlist_delta) (\<lambda>d.
       let desired = settle_delta d; deleted = deleted_playlists d desired in
       Inr (desired, deleted,
         [(''playlists'', length desired), (''deleted_playlists'', length deleted),
          (''playlist_ops'', length (pd_playlists d)), (''item_ops'', length (pd_items d)),
          (''order_changes'', length (pd_orders d))]))"

subsection \<open>The delta runs\<close>

text \<open>The participants are observed with their differences, and all of them have to be readable.\<close>

record group_env =
  ge_sync :: sync_env
  ge_net :: emby_net
  ge_servers :: servers
  ge_config :: "string \<Rightarrow> string \<Rightarrow> (string \<times> string) list \<Rightarrow> py \<Rightarrow> pdict act"
  ge_library :: "string \<Rightarrow> string \<Rightarrow> (string \<times> string) list \<Rightarrow> pdict act"

definition observed_diffs :: "group_env \<Rightarrow> kv_store \<Rightarrow> string \<Rightarrow> (string \<times> string) list \<Rightarrow> sync_state list act" where
  "observed_diffs g st domain participants =
     andthen (refresh_many_with_diff (ge_sync g) (ge_net g) (ge_servers g) st domain participants) (\<lambda>observed.
       lift (require_complete_snapshots observed (length participants)))"

definition with_delta :: "(string \<times> nat) list \<Rightarrow> pdict \<Rightarrow> pdict" where
  "with_delta counts r = dset ''delta'' (counts_dict counts) r"

definition run_favorites_delta_sync :: "group_env \<Rightarrow> kv_store \<Rightarrow> (string \<times> string) list \<Rightarrow> pdict act" where
  "run_favorites_delta_sync g st participants =
     andthen (observed_diffs g st ''favorites'' participants) (\<lambda>states.
       if states = [] then ret (skipped_result ''favorites snapshots unavailable'')
       else andthen (lift (wanted_favorites states)) (\<lambda>(desired, counts).
         andthen (sync_user_favorites_to_keys (ge_net g) (ge_servers g) desired participants) (\<lambda>r.
           ret (with_delta counts (favorite_result_dict r)))))"

definition run_playstate_delta_sync :: "group_env \<Rightarrow> kv_store \<Rightarrow> (string \<times> string) list \<Rightarrow> bool \<Rightarrow> pdict act" where
  "run_playstate_delta_sync g st participants include_resume =
     andthen (observed_diffs g st ''playstate'' participants) (\<lambda>states.
       if states = [] then ret (skipped_result ''playstate snapshots unavailable'')
       else andthen (lift (wanted_playstates states)) (\<lambda>(desired, counts).
         andthen (lift (state_dicts desired)) (\<lambda>desired_state.
         andthen (sync_user_playstate_to_state (ge_net g) (ge_servers g) desired_state participants include_resume) (\<lambda>r.
           ret (with_delta counts (sync_result_dict r))))))"

definition run_playlists_delta_sync :: "group_env \<Rightarrow> kv_store \<Rightarrow> (string \<times> string) list \<Rightarrow> pdict act" where
  "run_playlists_delta_sync g st participants =
     andthen (observed_diffs g st ''playlists'' participants) (\<lambda>states.
       if states = [] then ret (skipped_result ''playlist snapshots unavailable'')
       else andthen (lift (wanted_group_playlists states)) (\<lambda>(desired, deleted, counts).
         andthen (sync_user_playlists_to_payload (ge_net g) (ge_servers g) desired participants deleted) (\<lambda>r.
           ret (with_delta counts (playlist_result_dict r)))))"

subsection \<open>The latest change wins\<close>

definition latest_source ::
  "group_env \<Rightarrow> kv_store \<Rightarrow> string \<Rightarrow> (string \<times> string) list \<Rightarrow> (string \<times> string) option
    \<Rightarrow> (sync_state option \<times> (string \<times> string) list) act" where
  "latest_source g st domain participants preferred =
     andthen (choose_latest (ge_sync g) (ge_net g) (ge_servers g) st domain participants preferred) (\<lambda>latest. ret (
       case latest of
         None \<Rightarrow> (None, [])
       | Some s \<Rightarrow> (Some s, filter (\<lambda>t. t \<noteq> (ss_server s, ss_user s)) participants)))"

definition latest_dict :: "sync_state \<Rightarrow> py" where
  "latest_dict s =
     PDict [(''server_id'', PStr (ss_server s)), (''user_id'', PStr (ss_user s)), (''updated_at'', ss_updated_at s)]"

definition run_latest_wins ::
  "group_env \<Rightarrow> kv_store \<Rightarrow> string \<Rightarrow> (string \<times> string) list
    \<Rightarrow> (string \<Rightarrow> string \<Rightarrow> (string \<times> string) list \<Rightarrow> pdict act) \<Rightarrow> (string \<times> string) option \<Rightarrow> pdict act" where
  "run_latest_wins g st domain participants sync_func preferred =
     andthen (latest_source g st domain participants preferred) (\<lambda>(latest, targets).
       case latest of
         None \<Rightarrow> ret (skipped_result ''latest source unavailable'')
       | Some s \<Rightarrow>
           if targets = [] then ret (skipped_result ''latest source unavailable'')
           else andthen (sync_func (ss_server s) (ss_user s) targets) (\<lambda>r.
             ret (dset ''latest_source'' (latest_dict s) r)))"

subsection \<open>What the merges promise\<close>

lemma each_ok_collects:
  assumes step: "\<And>x s t. x \<in> set xs \<Longrightarrow> f x s = Inr t \<Longrightarrow> A t = A s \<union> B x"
    and run: "each_ok f xs s = Inr t"
  shows "A t = A s \<union> (\<Union>x\<in>set xs. B x)"
  using assms
proof (induction xs arbitrary: s)
  case (Cons x xs)
  obtain u where u: "f x s = Inr u" "each_ok f xs u = Inr t"
    using Cons.prems(2) by (auto simp: result_bind_Inr_iff)
  have "A t = A u \<union> (\<Union>x\<in>set xs. B x)" using Cons.IH [OF _ u(2)] Cons.prems(1) by auto
  moreover have "A u = A s \<union> B x" using Cons.prems(1) [OF _ u(1)] by simp
  ultimately show ?case by auto
qed simp

lemma each_ok_append: "each_ok f (xs @ ys) s = result_bind (each_ok f xs s) (each_ok f ys)"
proof (induction xs arbitrary: s)
  case (Cons x xs)
  then show ?case by (cases "f x s") simp_all
qed simp

lemma set_add_all [simp]: "set (add_all ks s) = set ks \<union> set s"
  unfolding add_all_def by (induction ks arbitrary: s) (auto simp: add_to_set_def)

lemma set_key_set [simp]: "set (key_set ks) = set ks"
  by (simp add: key_set_def)

text \<open>The difference of a state is the one between its two snapshots.\<close>

definition diffed :: "string \<Rightarrow> sync_state \<Rightarrow> bool" where
  "diffed domain s \<longleftrightarrow> diff_snapshots domain (ss_previous s) (ss_snapshot s) = Inr (ss_diff s)"

definition holds_key :: "string \<Rightarrow> pdict \<Rightarrow> bool" where
  "holds_key k snapshot =
     (case text_list (pget snapshot ''favorites'') of Inl e \<Rightarrow> False | Inr ks \<Rightarrow> k \<in> set ks)"

definition favorite_dropped :: "string \<Rightarrow> sync_state \<Rightarrow> bool" where
  "favorite_dropped k s \<longleftrightarrow> holds_key k (ss_previous s) \<and> \<not> holds_key k (ss_snapshot s)"

definition favorite_gained :: "string \<Rightarrow> sync_state \<Rightarrow> bool" where
  "favorite_gained k s \<longleftrightarrow> ss_previous s \<noteq> [] \<and> holds_key k (ss_snapshot s) \<and> \<not> holds_key k (ss_previous s)"

lemma text_list_nothing [simp]: "text_list PNone = Inr []"
  by (simp add: text_list_def py_or_def)

lemma nothing_held [simp]: "\<not> holds_key k []"
  by (simp add: holds_key_def)

lemma note_favorites_sets:
  assumes "diffed ''favorites'' s" "note_favorites s d = Inr d'"
  shows "set (fd_baseline d') = set (fd_baseline d) \<union> {k. holds_key k (ss_previous s)}"
    and "set (fd_removed d') = set (fd_removed d) \<union> {k. favorite_dropped k s}"
    and "set (fd_added d') = set (fd_added d) \<union> {k. favorite_gained k s}"
    and "set (fd_initial d') = set (fd_initial d) \<union> {k. ss_previous s = [] \<and> holds_key k (ss_snapshot s)}"
    and "fd_changed d' \<longleftrightarrow> fd_changed d \<or> ss_changed s"
proof -
  obtain c p where c: "text_list (pget (ss_snapshot s) ''favorites'') = Inr c"
    and p: "text_list (pget (ss_previous s) ''favorites'') = Inr p"
    using assms(2) by (auto simp: note_favorites_def result_bind_Inr_iff)
  have h: "holds_key k (ss_snapshot s) \<longleftrightarrow> k \<in> set c" "holds_key k (ss_previous s) \<longleftrightarrow> k \<in> set p" for k
    by (simp_all add: holds_key_def c p)
  have diff: "ss_diff s = (if ss_previous s = [] then no_diff\<lparr>sd_initial := True\<rparr> else diff_sets p c)"
    using assms(1) c p by (auto simp: diffed_def diff_snapshots_def split: if_splits)
  have none: "ss_previous s = [] \<Longrightarrow> p = []" using p by simp
  have d': "d' = (let d = d\<lparr>fd_baseline := add_all p (fd_baseline d)\<rparr>;
           d = (if sd_initial (ss_diff s) then d\<lparr>fd_initial := add_all c (fd_initial d)\<rparr>
                else d\<lparr>fd_added := add_all (sd_added (ss_diff s)) (fd_added d),
                       fd_removed := add_all (sd_removed (ss_diff s)) (fd_removed d)\<rparr>)
       in d\<lparr>fd_changed := fd_changed d \<or> ss_changed s\<rparr>)"
    using assms(2) by (simp add: note_favorites_def c p)
  show "set (fd_baseline d') = set (fd_baseline d) \<union> {k. holds_key k (ss_previous s)}"
    "set (fd_removed d') = set (fd_removed d) \<union> {k. favorite_dropped k s}"
    "set (fd_added d') = set (fd_added d) \<union> {k. favorite_gained k s}"
    "set (fd_initial d') = set (fd_initial d) \<union> {k. ss_previous s = [] \<and> holds_key k (ss_snapshot s)}"
    "fd_changed d' \<longleftrightarrow> fd_changed d \<or> ss_changed s"
    using none unfolding d' favorite_dropped_def favorite_gained_def h diff
    by (auto simp: no_diff_def diff_sets_def Let_def)
qed

lemma all_favorites_sets:
  assumes all: "\<forall>s\<in>set states. diffed ''favorites'' s" and run: "each_ok note_favorites states no_favorite_delta = Inr d"
  shows "set (fd_baseline d) = (\<Union>s\<in>set states. {k. holds_key k (ss_previous s)})"
    and "set (fd_removed d) = (\<Union>s\<in>set states. {k. favorite_dropped k s})"
    and "set (fd_added d) = (\<Union>s\<in>set states. {k. favorite_gained k s})"
    and "set (fd_initial d) = (\<Union>s\<in>set states. {k. ss_previous s = [] \<and> holds_key k (ss_snapshot s)})"
  using each_ok_collects [where A = "\<lambda>d. set (fd_baseline d)", OF note_favorites_sets(1) [OF bspec [OF all]] run]
    each_ok_collects [where A = "\<lambda>d. set (fd_removed d)", OF note_favorites_sets(2) [OF bspec [OF all]] run]
    each_ok_collects [where A = "\<lambda>d. set (fd_added d)", OF note_favorites_sets(3) [OF bspec [OF all]] run]
    each_ok_collects [where A = "\<lambda>d. set (fd_initial d)", OF note_favorites_sets(4) [OF bspec [OF all]] run]
  by (simp_all add: no_favorite_delta_def)

lemma favorites_changed:
  assumes "each_ok note_favorites states d = Inr d'"
  shows "fd_changed d' \<longleftrightarrow> fd_changed d \<or> (\<exists>s\<in>set states. ss_changed s)"
  using assms
proof (induction states arbitrary: d)
  case (Cons s states)
  then obtain e where e: "note_favorites s d = Inr e" "each_ok note_favorites states e = Inr d'"
    by (auto simp: result_bind_Inr_iff)
  have "fd_changed e \<longleftrightarrow> fd_changed d \<or> ss_changed s"
    using e(1) by (auto simp: note_favorites_def result_bind_Inr_iff Let_def split: if_splits)
  then show ?case using Cons.IH [OF e(2)] by auto
qed simp

lemma set_desired_keys:
  "set (desired_keys d) = (set (fd_added d) \<union> set (fd_initial d) \<union> set (fd_baseline d)) - set (fd_removed d)"
  by (auto simp: desired_keys_def)

text \<open>C15: The favourites of a group after a delta run are the three-way merge of its participants'
  baselines and current lists: a key stays or is copied to all exactly when some participant has it
  or had it, and none of them dropped it since its baseline.\<close>

theorem favorites_three_way:
  assumes "\<forall>s\<in>set states. diffed ''favorites'' s" "wanted_favorites states = Inr (wanted, counts)"
  shows "k \<in> set wanted \<longleftrightarrow>
     (\<exists>s\<in>set states. holds_key k (ss_snapshot s) \<or> holds_key k (ss_previous s))
     \<and> (\<forall>s\<in>set states. \<not> favorite_dropped k s)"
proof -
  obtain d where d: "each_ok note_favorites states no_favorite_delta = Inr d" "wanted = desired_keys d"
    using assms(2) by (auto simp: wanted_favorites_def result_bind_Inr_iff split: if_splits)
  show ?thesis unfolding d(2) set_desired_keys all_favorites_sets [OF assms(1) d(1)]
    by (auto simp: favorite_gained_def)
qed

definition sample_favorites :: "string list option \<Rightarrow> string list \<Rightarrow> sync_state" where
  "sample_favorites older current =
     (let favs = (\<lambda>ks. [(''favorites'', PList (map PStr ks))]);
          previous = (case older of None \<Rightarrow> [] | Some ks \<Rightarrow> favs ks) in
      \<lparr>ss_domain = ''favorites'', ss_server = ''s'', ss_user = ''u'', ss_hash = ''h'', ss_snapshot = favs current,
       ss_origin = ''refresh'', ss_updated_at = PNone, ss_checked_at = ''t'', ss_had_previous = (older \<noteq> None),
       ss_changed = (older \<noteq> Some current), ss_expected = PNone,
       ss_diff = (case diff_snapshots ''favorites'' previous (favs current) of Inl e \<Rightarrow> no_diff | Inr d \<Rightarrow> d),
       ss_previous = previous\<rparr>)"

lemma favorites_three_way_witness:
  "\<not> (\<exists>s\<in>set [sample_favorites (Some [''a'', ''b'']) [''b''], sample_favorites None [''c'']].
        favorite_dropped ''c'' s)"
proof -
  let ?states = "[sample_favorites (Some [''a'', ''b'']) [''b''], sample_favorites None [''c'']]"
  have d: "\<forall>s\<in>set ?states. diffed ''favorites'' s"
    by (auto simp: sample_favorites_def diffed_def diff_snapshots_def text_list_def py_or_def)
  have "map_sum id fst (wanted_favorites ?states) = Inr [''b'', ''c'']" by code_simp
  then obtain counts where "wanted_favorites ?states = Inr ([''b'', ''c''], counts)"
    by (cases "wanted_favorites ?states") auto
  from favorites_three_way [OF d this, of "''c''"] show ?thesis by simp
qed

subsection \<open>A conflict applies nothing\<close>

lemma attempt_simp [simp]: "m sent = (r, sent') \<Longrightarrow> attempt m sent = (Inr r, sent')"
  by (simp add: attempt_def)

lemma emits_attempt [emits_rules]: "emits P m \<Longrightarrow> emits P (attempt m)"
  by (simp add: emits_def attempt_def split_def)

lemma reads_only_snapshot [emits_rules]:
  assumes "domain \<noteq> ''settings''"
  shows "reads_only (build_snapshot env net servers domain server_id user_id)"
  unfolding build_snapshot_def snapshot_playlists_def snapshot_playlist_def Let_def
  using assms by (auto intro!: emits_rules reads_only_playlists)

lemma reads_only_observed_diffs [emits_rules]:
  assumes "domain \<noteq> ''settings''"
  shows "reads_only (observed_diffs g st domain participants)"
  unfolding observed_diffs_def refresh_many_with_diff_def collect_many_def refresh_with_diff_def Let_def
  using assms by (auto intro!: emits_rules split: prod.splits)

lemma reads_sent:
  assumes "reads_only m" "m sent = (r, mid)"
  shows "\<exists>rs. mid = sent @ rs \<and> list_all (\<lambda>r. rq_method r = ''GET'') rs"
  using assms unfolding emits_def by (metis snd_conv)

lemma collected_states:
  assumes "for_each (\<lambda>target states. andthen (attempt (collector target)) (\<lambda>r. ret (states @ [observed_as target r])))
      targets start sent = (Inr states, sent')"
    and "Inr s \<in> set states"
  shows "Inr s \<in> set start \<or> (\<exists>target before after. collector target before = (Inr s, after))"
  using assms
proof (induction targets arbitrary: start sent)
  case (Cons target targets)
  obtain r mid where r: "collector target sent = (r, mid)" by (cases "collector target sent")
  have "Inr s \<in> set (start @ [observed_as target r])
      \<or> (\<exists>target before after. collector target before = (Inr s, after))"
    by (rule Cons.IH [of _ mid]) (use Cons.prems r in simp_all)
  with r show ?case by (cases r; cases target) (auto simp: observed_as_def)
qed simp

lemma observed_diffs_diffed:
  assumes "observed_diffs g st domain participants sent = (Inr states, sent')"
  shows "\<forall>s\<in>set states. diffed domain s"
proof
  fix s assume "s \<in> set states"
  obtain observed where run: "refresh_many_with_diff (ge_sync g) (ge_net g) (ge_servers g) st domain participants sent
      = (Inr observed, sent')" and complete: "require_complete_snapshots observed (length participants) = Inr states"
    using assms by (auto simp: observed_diffs_def andthen_Inr_iff)
  have "Inr s \<in> set observed"
    using complete \<open>s \<in> set states\<close>
    by (auto simp: require_complete_snapshots_def observed_states_def map_filter_def split: if_splits sum.splits)
  with run obtain target before after where "refresh_with_diff (ge_sync g) (ge_net g) (ge_servers g) st domain ''refresh'' target before
      = (Inr s, after)"
    unfolding refresh_many_with_diff_def collect_many_def by (auto dest: collected_states)
  then show "diffed domain s"
    by (auto simp: refresh_with_diff_def andthen_Inr_iff Let_def diffed_def build_state_def split: prod.splits)
qed

text \<open>When one participant dropped a favourite that another one added since their baselines, the
  run raises and has sent nothing but the reads of its observation.\<close>

theorem favorite_conflict_applies_nothing:
  assumes "observed_diffs g st ''favorites'' participants sent = (Inr states, mid)"
    and "a \<in> set states" "favorite_gained k a" "ss_changed a" "b \<in> set states" "favorite_dropped k b"
  shows "\<exists>e rs. run_favorites_delta_sync g st participants sent = (Inl e, sent @ rs)
      \<and> list_all (\<lambda>r. rq_method r = ''GET'') rs"
proof -
  have "\<exists>e. wanted_favorites states = Inl e"
  proof (cases "each_ok note_favorites states no_favorite_delta")
    case (Inr d)
    have "k \<in> set (fd_added d)" "k \<in> set (fd_removed d)"
      using all_favorites_sets(2,3) [OF observed_diffs_diffed [OF assms(1)] Inr] assms(2-6) by auto
    then have "favorite_conflicts d \<noteq> []" by (auto simp: favorite_conflicts_def filter_empty_conv)
    moreover have "fd_changed d" using favorites_changed [OF Inr] assms(2,4) by auto
    ultimately show ?thesis by (simp add: wanted_favorites_def Inr)
  qed (simp add: wanted_favorites_def)
  then obtain e where "wanted_favorites states = Inl e" by blast
  then have "run_favorites_delta_sync g st participants sent = (Inl e, mid)"
    using assms(1,2) by (auto simp: run_favorites_delta_sync_def)
  moreover have "\<exists>rs. mid = sent @ rs \<and> list_all (\<lambda>r. rq_method r = ''GET'') rs"
    using reads_sent [OF reads_only_observed_diffs assms(1)] by simp
  ultimately show ?thesis by auto
qed

text \<open>Two users, each on a server of its own; the film was dropped by the first and added by the second.\<close>

definition sample_movie :: pdict where
  "sample_movie = [(''Id'', PStr ''5''), (''Type'', PStr ''Movie''), (''ProviderIds'', PDict [(''Imdb'', PStr ''tt1'')])]"

definition sample_env :: sync_env where
  "sample_env = \<lparr>se_now = ''now'', se_digest = (\<lambda>d. case text_list (pget d ''favorites'') of Inl e \<Rightarrow> [] | Inr ks \<Rightarrow> concat ks),
     se_settings = (\<lambda>d server_id. ret d)\<rparr>"

definition sample_group :: "(emby_request \<Rightarrow> pdict list) \<Rightarrow> group_env" where
  "sample_group lib =
     \<lparr>ge_sync = sample_env, ge_net = library_net lib, ge_servers = sample_server,
      ge_config = (\<lambda>server user targets categories. ret []), ge_library = (\<lambda>server user targets. ret [])\<rparr>"

definition sample_baseline :: "string \<Rightarrow> string \<times> string list \<Rightarrow> string \<times> py" where
  "sample_baseline domain p =
     (''emby_user_sync_state:'' @ domain @ '':'' @ fst p @ '':u'',
      PDict [(''hash'', PStr (concat (snd p))), (''snapshot'', PDict [(domain, PList (map PStr (snd p)))])])"

definition conflicting_store :: kv_store where
  "conflicting_store = map (sample_baseline ''favorites'') [(''a'', [''imdb:tt1'']), (''b'', [])]"

definition conflicting_lib :: "emby_request \<Rightarrow> pdict list" where
  "conflicting_lib r = (if rq_token r = ''a'' then [] else [sample_movie])"

definition conflicting_group :: group_env where
  "conflicting_group = sample_group conflicting_lib"

definition sample_current :: "string list \<Rightarrow> pdict" where
  "sample_current keys = [(''favorites'', PList (map PStr keys))]"

lemma sample_refresh:
  assumes "strip k \<noteq> []" "\<And>path params. lib (sample_request k path params) = items"
    and "length items \<le> 100" "list_all (\<lambda>it. item_type it \<noteq> PStr ''Episode'') items"
    and "item_keys_in_order items [] = Inr keys" "load_state st ''favorites'' k ''u'' = Inr (Some old)"
    and "json_dict (pget old ''snapshot'') = Inr previous"
    and "diff_snapshots ''favorites'' previous (sample_current (sort keys)) = Inr diff"
  shows "\<exists>sent'. refresh_with_diff env (library_net lib) sample_server st ''favorites'' origin (k, ''u'') sent
      = (Inr ((build_state env ''favorites'' k ''u'' (sample_current (sort keys)) (Some old) origin)
           \<lparr>ss_diff := diff, ss_previous := previous\<rparr>), sent')"
proof -
  have read: "\<exists>mid. fetch_user_favorite_items (library_net lib) (sample_server k) ''u'' sent = (Inr (items, PNone), mid)"
    unfolding fetch_user_favorite_items_def fetch_user_items_def
    using sample_read [OF assms(1) _ _ assms(3,4), of "''u''" lib] assms(2) by simp
  have "sample_server k \<noteq> []" by (simp add: sample_server_def)
  with read assms(5-8) show ?thesis
    by (auto simp: refresh_with_diff_def build_snapshot_def sample_current_def Let_def)
qed

lemma sample_favorite_keys:
  "json_dict (PDict (sample_current ks)) = Inr (sample_current ks)"
  "holds_key k (sample_current ks) \<longleftrightarrow> k \<in> set ks"
  "diff_snapshots ''favorites'' (sample_current ks) (sample_current ls) = Inr (diff_sets ks ls)"
  "sample_current ks \<noteq> []" "se_digest sample_env (sample_current ks) = concat ks"
proof -
  have "texts (map PStr ks) = Inr ks" for ks by (induction ks) simp_all
  then have "text_list (pget (sample_current ks) ''favorites'') = Inr ks" for ks
    by (cases ks) (simp_all add: text_list_def sample_current_def py_or_def)
  then show "holds_key k (sample_current ks) \<longleftrightarrow> k \<in> set ks"
    "diff_snapshots ''favorites'' (sample_current ks) (sample_current ls) = Inr (diff_sets ks ls)"
    "sample_current ks \<noteq> []" "se_digest sample_env (sample_current ks) = concat ks"
    by (simp_all add: holds_key_def diff_snapshots_def sample_env_def) (simp_all add: sample_current_def)
  show "json_dict (PDict (sample_current ks)) = Inr (sample_current ks)"
    by (simp add: json_dict_def py_or_def sample_current_def as_object_def)
qed

lemma conflicting_states:
  "\<exists>a b mid. observed_diffs conflicting_group conflicting_store ''favorites'' [(''a'', ''u''), (''b'', ''u'')] [] = (Inr [a, b], mid)
    \<and> favorite_dropped ''imdb:tt1'' a \<and> favorite_gained ''imdb:tt1'' b \<and> ss_changed b"
proof -
  let ?refresh = "refresh_with_diff sample_env (library_net conflicting_lib) sample_server conflicting_store ''favorites'' ''refresh''"
  have k: "strip ''a'' \<noteq> []" "strip ''b'' \<noteq> []" "strip ''a'' = ''a''" "strip ''b'' = ''b''" by code_simp+
  have lib: "conflicting_lib (sample_request ''a'' path params) = []"
      "conflicting_lib (sample_request ''b'' path params) = [sample_movie]" for path params
    by (simp_all add: conflicting_lib_def sample_request_def k)
  have movie: "list_all (\<lambda>it. item_type it \<noteq> PStr ''Episode'') [sample_movie]"
    by (simp add: sample_movie_def item_type_def py_or_def)
  have keys: "item_keys_in_order [] [] = Inr []" "item_keys_in_order [sample_movie] [] = Inr [''imdb:tt1'']" by code_simp+
  have load: "load_state conflicting_store ''favorites'' ''a'' ''u''
        = Inr (Some [(''hash'', PStr ''imdb:tt1''), (''snapshot'', PDict (sample_current [''imdb:tt1'']))])"
      "load_state conflicting_store ''favorites'' ''b'' ''u''
        = Inr (Some [(''hash'', PStr []), (''snapshot'', PDict (sample_current []))])" by code_simp+
  have a: "\<exists>s sent'. ?refresh (''a'', ''u'') sent = (Inr s, sent') \<and> favorite_dropped ''imdb:tt1'' s" for sent
    using sample_refresh [where lib = conflicting_lib, OF k(1) lib(1) _ _ keys(1) load(1), where previous = "sample_current [''imdb:tt1'']"]
    by (fastforce simp: sample_favorite_keys favorite_dropped_def build_state_def Let_def)
  have b: "\<exists>s sent'. ?refresh (''b'', ''u'') sent = (Inr s, sent') \<and> favorite_gained ''imdb:tt1'' s \<and> ss_changed s" for sent
    using sample_refresh [where lib = conflicting_lib, OF k(2) lib(2) _ movie keys(2) load(2), where previous = "sample_current []"]
    by (fastforce simp: sample_favorite_keys favorite_gained_def build_state_def Let_def)
  obtain s mid where s: "?refresh (''a'', ''u'') [] = (Inr s, mid)" "favorite_dropped ''imdb:tt1'' s" using a by blast
  obtain t sent' where t: "?refresh (''b'', ''u'') mid = (Inr t, sent')" "favorite_gained ''imdb:tt1'' t" "ss_changed t"
    using b by blast
  show ?thesis using s t
    by (auto simp: observed_diffs_def refresh_many_with_diff_def collect_many_def conflicting_group_def sample_group_def
        observed_as_def require_complete_snapshots_def failed_targets_def observed_states_def map_filter_def)
qed

theorem favorite_conflict_applies_nothing_witness:
  "\<exists>e rs. run_favorites_delta_sync conflicting_group conflicting_store [(''a'', ''u''), (''b'', ''u'')] [] = (Inl e, rs)
    \<and> list_all (\<lambda>r. rq_method r = ''GET'') rs"
proof -
  obtain a b mid where observed: "observed_diffs conflicting_group conflicting_store ''favorites''
      [(''a'', ''u''), (''b'', ''u'')] [] = (Inr [a, b], mid)"
    and diffs: "favorite_dropped ''imdb:tt1'' a" "favorite_gained ''imdb:tt1'' b" "ss_changed b"
    using conflicting_states by blast
  from favorite_conflict_applies_nothing [OF observed _ diffs(2,3) _ diffs(1)] show ?thesis by simp
qed

subsection \<open>The merge of playback states\<close>

text \<open>The stored states of a snapshot, what all participants did to a key in their order, and the
  last baseline that has the key.\<close>

definition items_in :: "pdict \<Rightarrow> pdict" where
  "items_in snapshot = (case json_dict (pget snapshot ''items'') of Inl e \<Rightarrow> [] | Inr d \<Rightarrow> d)"

definition ops_on :: "string \<Rightarrow> (string \<times> state_op) list \<Rightarrow> state_op list" where
  "ops_on key entries = map snd (filter (\<lambda>p. fst p = key) entries)"

definition group_ops :: "sync_state list \<Rightarrow> (string \<times> state_op) list" where
  "group_ops states = concat (map (\<lambda>s. participant_ops (ss_diff s) (items_in (ss_snapshot s))) states)"

definition baseline_state :: "string \<Rightarrow> sync_state list \<Rightarrow> py option" where
  "baseline_state key states =
     foldl (\<lambda>b s. case map_of (rev (items_in (ss_previous s))) key of None \<Rightarrow> b | Some v \<Rightarrow> Some v) None states"

fun outcome_of :: "state_op \<Rightarrow> py option" where
  "outcome_of (SetState v) = Some v"
| "outcome_of RemoveState = None"

lemma ops_on_simps [simp]:
  "ops_on key [] = []"
  "ops_on key (entry # entries) = (if fst entry = key then [snd entry] else []) @ ops_on key entries"
  by (simp_all add: ops_on_def)

lemma same_op_kind: "same_op p q \<Longrightarrow> p = RemoveState \<longleftrightarrow> q = RemoveState"
  by (cases p; cases q) simp_all

lemma record_state_op_Inr:
  assumes "record_state_op entry ops = Inr mid"
  shows "mid = dset (fst entry) (snd entry) ops"
    and "map_of ops (fst entry) = Some old \<Longrightarrow> old = RemoveState \<longleftrightarrow> snd entry = RemoveState"
  using assms by (auto simp: record_state_op_def record_op_def split: option.splits if_splits prod.splits
      dest: same_op_kind)

lemma recorded_value:
  assumes "each_ok record_state_op entries ops = Inr ops'"
  shows "map_of ops' key = (if ops_on key entries = [] then map_of ops key else Some (last (ops_on key entries)))"
  using assms
proof (induction entries arbitrary: ops)
  case (Cons entry entries)
  obtain mid where mid: "record_state_op entry ops = Inr mid" "each_ok record_state_op entries mid = Inr ops'"
    using Cons.prems by (auto simp: result_bind_Inr_iff)
  show ?case using Cons.IH [OF mid(2)] record_state_op_Inr(1) [OF mid(1)] by simp
qed simp

lemma recorded_kinds:
  assumes "each_ok record_state_op entries ops = Inr ops'"
  shows "\<exists>removed. \<forall>op \<in> set (ops_on key entries) \<union> set_option (map_of ops key). (op = RemoveState) = removed"
  using assms
proof (induction entries arbitrary: ops)
  case Nil
  show ?case by (rule exI [of _ "map_of ops key = Some RemoveState"]) (auto simp: elem_set)
next
  case (Cons entry entries)
  obtain mid where mid: "record_state_op entry ops = Inr mid" "each_ok record_state_op entries mid = Inr ops'"
    using Cons.prems by (auto simp: result_bind_Inr_iff)
  obtain removed where removed: "\<forall>op \<in> set (ops_on key entries) \<union> set_option (map_of mid key). (op = RemoveState) = removed"
    using Cons.IH [OF mid(2)] by blast
  have same: "map_of mid key = (if key = fst entry then Some (snd entry) else map_of ops key)"
    using record_state_op_Inr(1) [OF mid(1)] by simp
  have old: "old = RemoveState \<longleftrightarrow> snd entry = RemoveState" if "map_of ops (fst entry) = Some old" for old
    using record_state_op_Inr(2) [OF mid(1) that] .
  have "(op = RemoveState) = removed" if "op \<in> set (ops_on key (entry # entries)) \<union> set_option (map_of ops key)" for op
    using that removed same old [of op] by (cases "fst entry = key") (auto simp: elem_set)
  then show ?case by blast
qed

lemma recorded_distinct:
  "each_ok record_state_op entries ops = Inr ops' \<Longrightarrow> distinct (dkeys ops) \<Longrightarrow> distinct (dkeys ops')"
  by (induction entries arbitrary: ops) (auto simp: result_bind_Inr_iff dest!: record_state_op_Inr(1))

lemma noted_playstates:
  assumes "each_ok note_playstate states d = Inr d'"
  shows "each_ok record_state_op (group_ops states) (yd_ops d) = Inr (yd_ops d')
    \<and> map_of (yd_desired d') key =
        foldl (\<lambda>b s. case map_of (rev (items_in (ss_previous s))) key of None \<Rightarrow> b | Some v \<Rightarrow> Some v)
          (map_of (yd_desired d) key) states"
  using assms
proof (induction states arbitrary: d)
  case (Cons s states)
  obtain e where e: "note_playstate s d = Inr e" "each_ok note_playstate states e = Inr d'"
    using Cons.prems by (auto simp: result_bind_Inr_iff)
  have update: "map_of (dupdate f p) key = (case map_of (rev p) key of None \<Rightarrow> map_of f key | Some v \<Rightarrow> Some v)"
    for f p :: pdict
    by (induction p arbitrary: f) (auto simp: map_add_def split: option.splits)
  have "each_ok record_state_op (participant_ops (ss_diff s) (items_in (ss_snapshot s))) (yd_ops d) = Inr (yd_ops e)"
    "yd_desired e = dupdate (yd_desired d) (items_in (ss_previous s))"
    using e(1) by (auto simp: note_playstate_def items_in_def result_bind_Inr_iff)
  with Cons.IH [OF e(2)] show ?case
    by (simp add: group_ops_def each_ok_append update)
qed (simp add: group_ops_def)

lemma applied_ops:
  assumes "distinct (dkeys ops)"
  shows "map_of (foldl apply_op desired ops) key =
    (case map_of ops key of None \<Rightarrow> map_of desired key | Some op \<Rightarrow> outcome_of op)"
  using assms
proof (induction ops arbitrary: desired)
  case (Cons entry ops)
  obtain k op where entry: "entry = (k, op)" by (cases entry)
  have "map_of (apply_op desired entry) key = (if key = k then outcome_of op else map_of desired key)"
    by (cases op) (simp_all add: entry apply_op_def)
  moreover have "map_of ops k = None" using Cons.prems by (simp add: entry dkeys_def map_of_eq_None_iff)
  moreover have "distinct (dkeys ops)" using Cons.prems by (simp add: entry dkeys_def)
  ultimately show ?case using Cons.IH [of "apply_op desired entry"] by (cases "key = k") (simp_all add: entry split: option.split)
qed simp

text \<open>C16: The playback states of a group after a delta run are a three-way merge: a key no participant
  touched keeps its baseline, a key that some set has the last value set, a key that some removed is
  gone, and no key is set by one participant and removed by another.\<close>

theorem playstates_three_way:
  assumes "wanted_playstates states = Inr (wanted, counts)"
  shows "map_of wanted key =
      (if ops_on key (group_ops states) = [] then baseline_state key states
       else outcome_of (last (ops_on key (group_ops states))))
    \<and> (RemoveState \<in> set (ops_on key (group_ops states)) \<longrightarrow> set (ops_on key (group_ops states)) = {RemoveState})"
proof -
  obtain d where d: "each_ok note_playstate states no_playstate_delta = Inr d"
    and wanted: "wanted = foldl apply_op (yd_desired d) (yd_ops d)"
    using assms by (auto simp: wanted_playstates_def result_bind_Inr_iff Let_def)
  have ops: "each_ok record_state_op (group_ops states) [] = Inr (yd_ops d)"
    and base: "map_of (yd_desired d) key = baseline_state key states"
    using noted_playstates [OF d, of key] by (simp_all add: no_playstate_delta_def baseline_state_def)
  have recorded: "map_of (yd_ops d) key
      = (if ops_on key (group_ops states) = [] then None else Some (last (ops_on key (group_ops states))))"
    using recorded_value [OF ops, of key] by simp
  have "distinct (dkeys (yd_ops d))" using recorded_distinct [OF ops] by (simp add: dkeys_def)
  from applied_ops [OF this, of "yd_desired d" key] recorded base
  have "map_of wanted key = (if ops_on key (group_ops states) = [] then baseline_state key states
       else outcome_of (last (ops_on key (group_ops states))))" unfolding wanted by simp
  then show ?thesis using recorded_kinds [OF ops, of key] by auto
qed

definition sample_playstates :: "pdict option \<Rightarrow> pdict \<Rightarrow> sync_state" where
  "sample_playstates older current =
     (let stored = (\<lambda>d. [(''items'', PDict d)]);
          previous = (case older of None \<Rightarrow> [] | Some d \<Rightarrow> stored d) in
      (sample_favorites None [])\<lparr>ss_domain := ''playstate'', ss_snapshot := stored current, ss_previous := previous,
        ss_diff := (case diff_snapshots ''playstate'' previous (stored current) of Inl e \<Rightarrow> no_diff | Inr d \<Rightarrow> d)\<rparr>)"

theorem playstates_three_way_witness:
  "\<exists>wanted counts. wanted_playstates
      [sample_playstates (Some [(''x'', PBool True), (''y'', PBool True)]) [(''y'', PBool False)],
       sample_playstates (Some [(''x'', PBool True)]) [(''x'', PBool True)]] = Inr (wanted, counts)
    \<and> map_of wanted ''y'' = Some (PBool False)"
proof -
  let ?states = "[sample_playstates (Some [(''x'', PBool True), (''y'', PBool True)]) [(''y'', PBool False)],
       sample_playstates (Some [(''x'', PBool True)]) [(''x'', PBool True)]]"
  have "map_sum id fst (wanted_playstates ?states) = Inr [(''y'', PBool False)]" by code_simp
  then obtain wanted counts where run: "wanted_playstates ?states = Inr (wanted, counts)"
    by (cases "wanted_playstates ?states") auto
  have ops: "ops_on ''y'' (group_ops ?states) = [SetState (PBool False)]" by code_simp
  from playstates_three_way [OF run, of "''y''"] run show ?thesis by (auto simp: ops)
qed

subsection \<open>A playlist removed by one and extended by another\<close>

text \<open>When one participant deleted a playlist and another one added an item to it, the run does not
  stop with a conflict, as it does for favourites and playback states: all participants, the second
  one included, shall have the playlist with that item alone.\<close>

theorem removed_playlist_truncated:
  assumes "playlists_of (ss_previous a) = Inr [(p, w)]" "playlists_of (ss_snapshot a) = Inr []"
    and "ss_diff a = no_diff\<lparr>sd_removed := [p]\<rparr>"
    and "playlists_of (ss_previous b) = Inr [(p, w)]" "playlists_of (ss_snapshot b) = Inr [(p, w\<lparr>wp_items := wp_items w @ [k]\<rparr>)]"
    and "ss_diff b = no_diff\<lparr>sd_items := [(p, \<lparr>id_added = [k], id_removed = [], id_order_changed = False\<rparr>)]\<rparr>"
  shows "map_sum id fst (wanted_group_playlists [a, b]) = Inr [(p, \<lparr>wp_name = p, wp_items = [k]\<rparr>)]"
proof -
  have a: "note_playlists a no_playlist_delta = Inr (no_playlist_delta\<lparr>pd_desired := [(p, w)], pd_playlists := [(p, RemovePlaylist)]\<rparr>)"
    using assms(1-3) by (simp add: note_playlists_def no_playlist_delta_def no_diff_def record_playlist_op_def record_op_def
        dset_def map_filter_def)
  have b: "note_playlists b (no_playlist_delta\<lparr>pd_desired := [(p, w)], pd_playlists := [(p, RemovePlaylist)]\<rparr>)
      = Inr (no_playlist_delta\<lparr>pd_desired := [(p, w)], pd_playlists := [(p, RemovePlaylist)], pd_items := [((p, k), AddItem)]\<rparr>)"
    using assms(4-6) by (simp add: note_playlists_def no_playlist_delta_def no_diff_def note_changed_playlist_def
        record_item_op_def record_op_def dset_def map_filter_def)
  show ?thesis
    using a b by (simp add: wanted_group_playlists_def settle_delta_def no_playlist_delta_def apply_playlist_op_def
        apply_item_op_def insert_item_def dget_default_def dset_def dpop_def Let_def)
qed

definition sample_playlists :: "wanted_playlists \<Rightarrow> wanted_playlists \<Rightarrow> sync_state" where
  "sample_playlists older current =
     (let stored = (\<lambda>ws. [(''playlists'', PDict (map (\<lambda>(name, w).
            (name, PDict [(''name'', PStr (wp_name w)), (''items'', PList (map PStr (wp_items w)))])) ws))]) in
      (sample_favorites None [])\<lparr>ss_domain := ''playlists'', ss_snapshot := stored current, ss_previous := stored older,
        ss_diff := (case diff_snapshots ''playlists'' (stored older) (stored current) of Inl e \<Rightarrow> no_diff | Inr d \<Rightarrow> d)\<rparr>)"

theorem removed_playlist_truncated_witness:
  "map_sum id fst (wanted_group_playlists
     [sample_playlists [(''p'', \<lparr>wp_name = ''P'', wp_items = [''x'', ''y'']\<rparr>)] [],
      sample_playlists [(''p'', \<lparr>wp_name = ''P'', wp_items = [''x'', ''y'']\<rparr>)] [(''p'', \<lparr>wp_name = ''P'', wp_items = [''x'', ''y'', ''z'']\<rparr>)]])
   = Inr [(''p'', \<lparr>wp_name = ''p'', wp_items = [''z'']\<rparr>)]"
  by (rule removed_playlist_truncated [where w = "\<lparr>wp_name = ''P'', wp_items = [''x'', ''y'']\<rparr>"]; code_simp)

end
