(* ===== verification/Group_Sync.thy ===== *)
theory Group_Sync
  imports Group_Delta "HOL-Library.Multiset"
begin

text \<open>
  One synchronisation of a group of users, and the runs over groups (\<open>AutoSyncManager\<close> in
  \<open>emby_users/auto_sync_manager.py\<close>).  A group is one entry of the users dashboard.  The steps of a run
  raise or return a result dictionary; what the run stores about itself is a list of marks, oldest first:
  the group's row (\<open>mark_group_sync_result\<close>, \<open>mark_group_bootstrap_done\<close>) and, if the run belongs to an
  operation, its progress and end.  Each of them is a write that the storage may refuse with an
  exception of its own (\<open>we_refuses\<close>, a parameter that sees what was marked before).  The progress of a
  snapshot is left out: when one of its marks is refused, the snapshot is incomplete and the step raises,
  as \<open>sp_work\<close> may anyway.  The table of baselines is read as it is at the start; what other processes do
  to it until the commit is a parameter.
\<close>

subsection \<open>Groups\<close>

record group_user =
  gu_server :: string
  gu_user :: string
  gu_leader :: bool

record user_group =
  gp_id :: string
  gp_name :: string
  gp_type :: string
  gp_domains :: sync_domains
  gp_resume :: bool
  gp_categories :: py
  gp_playstate_done :: bool
  gp_favorites_done :: bool
  gp_playlists_done :: bool
  gp_users :: "group_user list"
  gp_auto :: bool

datatype group_mark =
    BootstrapDone string
  | SyncResult string string pdict
  | Progress string nat nat
  | OpFinish string
  | OpSkip string
  | OpFail string

record group_outcome =
  go_status :: string
  go_message :: string
  go_reason :: string
  go_results :: pdict

definition sync_failure_message :: string where
  "sync_failure_message = ''Sincronizzazione non completata. Verifica i log dell'' @ CHR 0x27 # ''applicazione.''"

subsection \<open>Marks\<close>

record write_env =
  we_refuses :: "group_mark list \<Rightarrow> group_mark \<Rightarrow> exn option"
  we_tracked :: bool

text \<open>Marks written one after the other; the first refused one raises, and those before it stay.\<close>

fun put_marks :: "write_env \<Rightarrow> group_mark list \<Rightarrow> group_mark list \<Rightarrow> (exn + unit) \<times> group_mark list" where
  "put_marks w [] marks = (Inr (), marks)"
| "put_marks w (m # ms) marks =
     (case we_refuses w marks m of
        Some e \<Rightarrow> (Inl e, marks)
      | None \<Rightarrow> put_marks w ms (marks @ [m]))"

text \<open>\<open>_update_operation\<close> does nothing for a run without an operation.\<close>

definition progress :: "write_env \<Rightarrow> string \<Rightarrow> nat \<Rightarrow> nat \<Rightarrow> group_mark list" where
  "progress w message current steps = (if we_tracked w then [Progress message current steps] else [])"

subsection \<open>Steps\<close>

record sync_step =
  sp_key :: string
  sp_label :: string
  sp_marks :: "pdict \<Rightarrow> group_mark list"
  sp_work :: "pdict act"

definition plain_step :: "string \<Rightarrow> string \<Rightarrow> pdict act \<Rightarrow> sync_step" where
  "plain_step key label work = \<lparr>sp_key = key, sp_label = label, sp_marks = (\<lambda>r. []), sp_work = work\<rparr>"

text \<open>The first merge of a domain is an additive bootstrap; afterwards only differences are merged.\<close>

definition bootstrap_step :: "string \<Rightarrow> string \<Rightarrow> bool \<Rightarrow> pdict act \<Rightarrow> pdict act \<Rightarrow> sync_step" where
  "bootstrap_step key label bootstrap_done delta bootstrap =
     \<lparr>sp_key = key, sp_label = label,
      sp_marks = (\<lambda>r. if \<not> bootstrap_done \<and> pget r ''bootstrap'' = PStr ''additive'' then [BootstrapDone key] else []),
      sp_work = (if bootstrap_done then delta
        else andthen bootstrap (\<lambda>r. ret (dset ''bootstrap'' (PStr ''additive'') r)))\<rparr>"

text \<open>Favourites and playlists also look at what failed.\<close>

definition guarded_step :: "sync_step \<Rightarrow> sync_step" where
  "guarded_step s =
     s\<lparr>sp_marks := (\<lambda>r. if truthy (pget r ''failed'') \<or> truthy (pget r ''error'') then [] else sp_marks s r)\<rparr>"

definition merge_steps :: "group_env \<Rightarrow> kv_store \<Rightarrow> user_group \<Rightarrow> (string \<times> string) list \<Rightarrow> string \<times> string \<Rightarrow> sync_step list" where
  "merge_steps g st grp targets leader =
     (let net = ge_net g; servers = ge_servers g; domains = gp_domains grp in
      (if sy_playstate domains
       then [bootstrap_step ''playstate'' ''visti'' (gp_playstate_done grp)
               (run_playstate_delta_sync g st targets (gp_resume grp))
               (andthen (sync_merge_playstate net servers targets (gp_resume grp)) (\<lambda>r. ret (sync_result_dict r)))] else [])
      @ (if sy_config domains
         then [plain_step ''config'' ''impostazioni'' (run_latest_wins g st ''settings'' targets
                 (\<lambda>server user others. ge_config g server user others (gp_categories grp)) (Some leader))] else [])
      @ (if sy_library_access domains
         then [plain_step ''library_access'' ''librerie''
                 (run_latest_wins g st ''settings'' targets (ge_library g) (Some leader))] else [])
      @ (if sy_favorites domains
         then [guarded_step (bootstrap_step ''favorites'' ''preferiti'' (gp_favorites_done grp)
                 (run_favorites_delta_sync g st targets)
                 (andthen (sync_merge_favorites net servers targets) (\<lambda>r. ret (favorite_result_dict r))))] else [])
      @ (if sy_playlists domains
         then [guarded_step (bootstrap_step ''playlists'' ''playlist'' (gp_playlists_done grp)
                 (run_playlists_delta_sync g st targets)
                 (andthen (sync_merge_playlists net servers targets) (\<lambda>r. ret (playlist_result_dict r))))] else []))"

definition one_way_steps :: "group_env \<Rightarrow> user_group \<Rightarrow> (string \<times> string) list \<Rightarrow> string \<times> string \<Rightarrow> sync_step list" where
  "one_way_steps g grp targets leader =
     (let net = ge_net g; servers = ge_servers g; domains = gp_domains grp;
          dest = filter (\<lambda>t. t \<noteq> leader) targets in
      case leader of (server_id, user_id) \<Rightarrow>
        if dest = [] then []
        else (if sy_playstate domains
              then [plain_step ''playstate'' ''visti''
                      (andthen (sync_user_playstate_exact net servers server_id user_id dest (gp_resume grp)) (\<lambda>r. ret (sync_result_dict r)))] else [])
          @ (if sy_config domains
             then [plain_step ''config'' ''impostazioni'' (ge_config g server_id user_id dest (gp_categories grp))] else [])
          @ (if sy_library_access domains
             then [plain_step ''library_access'' ''librerie'' (ge_library g server_id user_id dest)] else [])
          @ (if sy_favorites domains
             then [plain_step ''favorites'' ''preferiti''
                     (andthen (sync_user_favorites_exact net servers server_id user_id dest) (\<lambda>r. ret (favorite_result_dict r)))] else [])
          @ (if sy_playlists domains
             then [plain_step ''playlists'' ''playlist''
                     (andthen (sync_user_playlists_exact net servers server_id user_id dest) (\<lambda>r. ret (playlist_result_dict r)))] else []))"

text \<open>\<open>_run_sync_step\<close>, one after the other, each between two updates of the progress; the first exception
  ends the run.\<close>

fun run_steps ::
  "write_env \<Rightarrow> nat \<Rightarrow> nat \<Rightarrow> sync_step list \<Rightarrow> pdict \<Rightarrow> group_mark list \<Rightarrow> ((exn + pdict) \<times> group_mark list) act" where
  "run_steps w steps n [] results marks = ret (Inr results, marks)"
| "run_steps w steps n (s # ss) results marks =
     (let message = ''Sincronizzazione '' @ sp_label s in
      case put_marks w (progress w (message @ '' in corso'') n steps
             @ [SyncResult ''running'' (message @ '' in corso'') results]) marks of
        (Inl e, marks) \<Rightarrow> ret (Inl e, marks)
      | (Inr u, marks) \<Rightarrow>
          andthen (attempt (sp_work s)) (\<lambda>r.
            case result_bind r validate_sync_result of
              Inl e \<Rightarrow> ret (Inl e, marks)
            | Inr d \<Rightarrow>
                (case put_marks w (sp_marks s d @ progress w (message @ '' completata'') (n + 1) steps) marks of
                   (Inl e, marks) \<Rightarrow> ret (Inl e, marks)
                 | (Inr u, marks) \<Rightarrow> run_steps w steps (n + 1) ss (dset (sp_key s) (PDict d) results) marks)))"

subsection \<open>One group\<close>

definition enabled_domains :: "sync_domains \<Rightarrow> string list" where
  "enabled_domains d =
     (if sy_playstate d then [''visti''] else []) @ (if sy_config d then [''impostazioni''] else [])
     @ (if sy_library_access d then [''librerie''] else []) @ (if sy_favorites d then [''preferiti''] else [])
     @ (if sy_playlists d then [''playlist''] else [])"

definition group_targets :: "user_group \<Rightarrow> (string \<times> string) list" where
  "group_targets grp = map (\<lambda>u. (gu_server u, gu_user u)) (gp_users grp)"

definition group_leaders :: "user_group \<Rightarrow> (string \<times> string) list" where
  "group_leaders grp = map (\<lambda>u. (gu_server u, gu_user u)) (filter gu_leader (gp_users grp))"

type_synonym group_run = "(exn + group_outcome) \<times> group_mark list \<times> kv_store"

definition or_message :: "string \<Rightarrow> string \<Rightarrow> string" where
  "or_message m d = (if m = [] then d else m)"

text \<open>The last mark of a run; without it the run raises.\<close>

definition concluded ::
  "write_env \<Rightarrow> string \<Rightarrow> string \<Rightarrow> pdict \<Rightarrow> group_mark list \<Rightarrow> kv_store \<Rightarrow> group_run" where
  "concluded w status message results marks st =
     (case put_marks w [SyncResult status message results] marks of
        (Inl e, marks) \<Rightarrow> (Inl e, marks, st)
      | (Inr u, marks) \<Rightarrow>
          (Inr \<lparr>go_status = status, go_message = message, go_reason = [], go_results = results\<rparr>, marks, st))"

text \<open>The handler of \<open>_sync_group\<close>: whatever a step or the checkpoint raised, the run is an error.\<close>

definition failed_run :: "write_env \<Rightarrow> group_mark list \<Rightarrow> kv_store \<Rightarrow> group_run" where
  "failed_run w marks st = concluded w ''error'' sync_failure_message [] marks st"

definition skipped_run :: "write_env \<Rightarrow> string \<Rightarrow> group_mark list \<Rightarrow> kv_store \<Rightarrow> group_run" where
  "skipped_run w message marks st = concluded w ''skipped'' message [] marks st"

definition succeeded_message :: "user_group \<Rightarrow> string" where
  "succeeded_message grp = ''Sincronizzati: '' @ join '', '' (enabled_domains (gp_domains grp))"

definition completed_run :: "write_env \<Rightarrow> nat \<Rightarrow> user_group \<Rightarrow> pdict \<Rightarrow> group_mark list \<Rightarrow> kv_store \<Rightarrow> group_run" where
  "completed_run w steps grp results marks st =
     (case put_marks w (progress w ''Snapshot sync aggiornato'' steps steps) marks of
        (Inl e, marks) \<Rightarrow> failed_run w marks st
      | (Inr u, marks) \<Rightarrow>
          (case concluded w ''success'' (succeeded_message grp) results marks st of
             (Inl e, marks, st) \<Rightarrow> failed_run w marks st
           | (Inr r, marks, st) \<Rightarrow> (Inr r, marks, st)))"

text \<open>The checkpoint: the domains are observed again and their baselines advanced together.\<close>

definition checkpoint ::
  "group_env \<Rightarrow> write_env \<Rightarrow> (kv_store \<Rightarrow> kv_store) \<Rightarrow> kv_store \<Rightarrow> nat \<Rightarrow> user_group \<Rightarrow> pdict \<Rightarrow> group_mark list
    \<Rightarrow> group_run act" where
  "checkpoint g w others st steps grp results marks =
     (let message = ''Aggiornamento snapshot sync'' in
      case put_marks w (SyncResult ''running'' message results # progress w message (steps - 1) steps) marks of
        (Inl e, marks) \<Rightarrow> ret (failed_run w marks (others st))
      | (Inr u, marks) \<Rightarrow>
          andthen (attempt (checkpoint_states (ge_sync g) (ge_net g) (ge_servers g) st (group_targets grp) ''auto-sync'' (gp_domains grp)))
            (\<lambda>r. ret (case r of
                Inl e \<Rightarrow> failed_run w marks (others st)
              | Inr states \<Rightarrow>
                  (case commit_many (others st) states of
                     (Inl e, st') \<Rightarrow> failed_run w marks st'
                   | (Inr u, st') \<Rightarrow> completed_run w steps grp results marks st'))))"

definition preparation :: "user_group \<Rightarrow> string" where
  "preparation grp = ''Preparazione sync gruppo ('' @ gp_type grp @ '')''"

definition preparation_of :: "user_group \<Rightarrow> string" where
  "preparation_of grp = ''Preparazione sync gruppo '' @ or_message (gp_name grp) (gp_id grp) @ '' ('' @ gp_type grp @ '')''"

text \<open>The steps and the checkpoint, inside the handler.\<close>

definition sync_participants ::
  "group_env \<Rightarrow> write_env \<Rightarrow> (kv_store \<Rightarrow> kv_store) \<Rightarrow> kv_store \<Rightarrow> nat \<Rightarrow> user_group \<Rightarrow> string \<times> string \<Rightarrow> group_mark list
    \<Rightarrow> group_run act" where
  "sync_participants g w others st steps grp leader marks =
     (case put_marks w (progress w ''Partecipanti sync verificati'' 1 steps) marks of
        (Inl e, marks) \<Rightarrow> ret (failed_run w marks (others st))
      | (Inr u, marks) \<Rightarrow>
          andthen (run_steps w steps 1
              (if gp_type grp = ''merge'' then merge_steps g st grp (group_targets grp) leader
               else if gp_type grp = ''one_way'' then one_way_steps g grp (group_targets grp) leader
               else []) [] marks) (\<lambda>(r, marks).
            case r of
              Inl e \<Rightarrow> ret (failed_run w marks (others st))
            | Inr results \<Rightarrow> checkpoint g w others st steps grp results marks))"

definition sync_group ::
  "group_env \<Rightarrow> write_env \<Rightarrow> (kv_store \<Rightarrow> kv_store) \<Rightarrow> kv_store \<Rightarrow> user_group \<Rightarrow> group_mark list \<Rightarrow> group_run act" where
  "sync_group g w others st grp marks =
     (if length (gp_users grp) < 2
      then ret (skipped_run w ''Meno di 2 utenti nel gruppo'' marks (others st))
      else if enabled_domains (gp_domains grp) = []
      then ret (skipped_run w ''Nessun dominio selezionato'' marks (others st))
      else
        let steps = length (enabled_domains (gp_domains grp)) + 2 in
        case put_marks w (SyncResult ''running'' (preparation grp) [] # progress w (preparation_of grp) 0 steps) marks of
          (Inl e, marks) \<Rightarrow> ret (Inl e, marks, others st)
        | (Inr u, marks) \<Rightarrow>
            (case group_leaders grp of
               [leader] \<Rightarrow> sync_participants g w others st steps grp leader marks
             | leaders \<Rightarrow>
                 ret (skipped_run w (''Leader non valido: trovati '' @ str_nat (length leaders) @ '' leader'') marks (others st))))"

subsection \<open>One run of a group at a time\<close>

text \<open>The groups a process is working on; \<open>discard\<close> removes a member or nothing.\<close>

definition try_claim_group :: "string \<Rightarrow> string list \<Rightarrow> bool \<times> string list" where
  "try_claim_group group_id active = (if group_id \<in> set active then (False, active) else (True, active @ [group_id]))"

definition release_group :: "string \<Rightarrow> string list \<Rightarrow> string list" where
  "release_group group_id active = filter (\<lambda>i. i \<noteq> group_id) active"

definition busy_message :: string where
  "busy_message = ''Sincronizzazione del gruppo gi'' @ CHR 0xE0 # '' in corso''"

definition busy_outcome :: group_outcome where
  "busy_outcome = \<lparr>go_status = ''skipped'', go_message = busy_message, go_reason = ''already_running'', go_results = []\<rparr>"

definition removed_outcome :: group_outcome where
  "removed_outcome =
     \<lparr>go_status = ''skipped'', go_message = ''Gruppo non pi'' @ CHR 0xF9 # '' disponibile'', go_reason = ''group_removed'', go_results = []\<rparr>"

text \<open>
  What a run finds outside its process: whether the lock shared by all processes is free (the guard,
  the advisory lock of the storage, or none) and can be given back, the dashboard at the time it has
  the lock, what the storage does to its marks, and what others do to the table before the commit.
  The lock and the dashboard may raise.
\<close>

record run_env =
  re_acquired :: "string \<Rightarrow> exn + bool"
  re_released :: "string \<Rightarrow> exn option"
  re_groups :: "string \<Rightarrow> exn + user_group list"
  re_writes :: "string \<Rightarrow> write_env"
  re_others :: "kv_store \<Rightarrow> kv_store"

definition busy_run :: "write_env \<Rightarrow> group_mark list \<Rightarrow> kv_store \<Rightarrow> group_run" where
  "busy_run w marks st =
     (case put_marks w [SyncResult ''skipped'' busy_message []] marks of
        (Inl e, marks) \<Rightarrow> (Inl e, marks, st)
      | (Inr u, marks) \<Rightarrow> (Inr busy_outcome, marks, st))"

text \<open>Leaving the \<open>with\<close> block: an exception of the lock replaces what the run returned or raised.\<close>

definition leave_lock :: "exn option \<Rightarrow> group_run \<Rightarrow> group_run" where
  "leave_lock released run = (case released of None \<Rightarrow> run | Some e \<Rightarrow> (Inl e, snd run))"

definition locked_sync ::
  "group_env \<Rightarrow> run_env \<Rightarrow> kv_store \<Rightarrow> string \<Rightarrow> group_mark list \<Rightarrow> group_run act" where
  "locked_sync g env st group_id marks =
     (let w = re_writes env group_id; released = re_released env group_id in
      case re_acquired env group_id of
        Inl e \<Rightarrow> ret (Inl e, marks, st)
      | Inr acquired \<Rightarrow>
          if \<not> acquired then ret (leave_lock released (busy_run w marks st))
          else case re_groups env group_id of
            Inl e \<Rightarrow> ret (leave_lock released (Inl e, marks, st))
          | Inr groups \<Rightarrow>
              (case filter (\<lambda>x. gp_id x = group_id) groups of
                 [] \<Rightarrow> ret (leave_lock released (Inr removed_outcome, marks, st))
               | current # _ \<Rightarrow>
                   andthen (sync_group g w (re_others env) st current marks) (\<lambda>run. ret (leave_lock released run))))"

definition sync_group_singleflight ::
  "group_env \<Rightarrow> run_env \<Rightarrow> kv_store \<Rightarrow> string list \<Rightarrow> user_group \<Rightarrow> group_mark list \<Rightarrow> (group_run \<times> string list) act" where
  "sync_group_singleflight g env st active grp marks =
     (case try_claim_group (gp_id grp) active of
        (False, active) \<Rightarrow> ret (busy_run (re_writes env (gp_id grp)) marks st, active)
      | (True, active) \<Rightarrow>
          andthen (locked_sync g env st (gp_id grp) marks) (\<lambda>run. ret (run, release_group (gp_id grp) active)))"

subsection \<open>All groups\<close>

record auto_outcome =
  ao_attempted :: bool
  ao_succeeded :: "string list"
  ao_failed :: "string list"
  ao_retryable :: "string list"
  ao_skipped :: "string list"

definition no_attempt :: auto_outcome where
  "no_attempt = \<lparr>ao_attempted = False, ao_succeeded = [], ao_failed = [], ao_retryable = [], ao_skipped = []\<rparr>"

definition ao_ok :: "auto_outcome \<Rightarrow> bool" where
  "ao_ok a \<longleftrightarrow> ao_failed a = [] \<and> ao_retryable a = []"

definition classify_run :: "string \<Rightarrow> group_outcome \<Rightarrow> auto_outcome \<Rightarrow> auto_outcome" where
  "classify_run group_id r a =
     (let a = a\<lparr>ao_attempted := True\<rparr>; status = lower (if go_status r = [] then ''error'' else go_status r) in
      if status = ''success'' then a\<lparr>ao_succeeded := ao_succeeded a @ [group_id]\<rparr>
      else if status = ''skipped'' \<and> go_reason r = ''already_running'' then a\<lparr>ao_retryable := ao_retryable a @ [group_id]\<rparr>
      else if status \<in> {''skipped'', ''ignored''} then a\<lparr>ao_skipped := ao_skipped a @ [group_id]\<rparr>
      else a\<lparr>ao_failed := ao_failed a @ [group_id]\<rparr>)"

text \<open>The groups' marks, in order, with the group they belong to.  A run that raises ends the loop.\<close>

record auto_run =
  ar_outcome :: "exn + auto_outcome"
  ar_marks :: "(string \<times> group_mark list) list"
  ar_store :: kv_store
  ar_active :: "string list"

definition auto_step :: "group_env \<Rightarrow> run_env \<Rightarrow> user_group \<Rightarrow> auto_run \<Rightarrow> auto_run act" where
  "auto_step g env grp r =
     (case ar_outcome r of
        Inl e \<Rightarrow> ret r
      | Inr a \<Rightarrow>
          if \<not> gp_auto grp then ret r
          else andthen (sync_group_singleflight g env (ar_store r) (ar_active r) grp []) (\<lambda>((outcome, marks, st), active). ret
            \<lparr>ar_outcome = (case outcome of Inl e \<Rightarrow> Inl e | Inr q \<Rightarrow> Inr (classify_run (gp_id grp) q a)),
             ar_marks = ar_marks r @ [(gp_id grp, marks)], ar_store = st, ar_active = active\<rparr>))"

definition run_auto_sync ::
  "group_env \<Rightarrow> run_env \<Rightarrow> exn + user_group list \<Rightarrow> kv_store \<Rightarrow> string list \<Rightarrow> auto_run act" where
  "run_auto_sync g env dashboard st active =
     (case dashboard of
        Inl e \<Rightarrow> ret \<lparr>ar_outcome = Inl e, ar_marks = [], ar_store = st, ar_active = active\<rparr>
      | Inr groups \<Rightarrow>
          for_each (auto_step g env) groups
            \<lparr>ar_outcome = Inr no_attempt, ar_marks = [], ar_store = st, ar_active = active\<rparr>)"

subsection \<open>A group on demand\<close>

text \<open>What the run's operation ends with.\<close>

definition op_mark_of :: "group_outcome \<Rightarrow> group_mark" where
  "op_mark_of r =
     (if go_status r = ''success'' then OpFinish (or_message (go_message r) ''Sync completato'')
      else if go_status r = ''skipped'' then OpSkip (or_message (go_message r) ''Sync saltato'')
      else OpFail (or_message (go_message r) ''Sync non riuscito''))"

definition op_marks :: "write_env \<Rightarrow> group_mark \<Rightarrow> group_mark list" where
  "op_marks w m = (if we_tracked w then [m] else [])"

definition unknown_group_message :: string where
  "unknown_group_message = ''Gruppo non trovato o utenti Emby non caricati''"

text \<open>The body of the \<open>try\<close>: an exception on the left, otherwise whether the run succeeded.\<close>

type_synonym demand_run = "(exn + bool) \<times> group_mark list \<times> kv_store \<times> string list"

definition demand_body ::
  "group_env \<Rightarrow> run_env \<Rightarrow> exn + user_group list \<Rightarrow> kv_store \<Rightarrow> string list \<Rightarrow> string \<Rightarrow> demand_run act" where
  "demand_body g env dashboard st active group_id =
     (let w = re_writes env group_id in
      case put_marks w (progress w ''Carico gruppo utenti'' 0 1) [] of
        (Inl e, marks) \<Rightarrow> ret (Inl e, marks, st, active)
      | (Inr u, marks) \<Rightarrow>
          (case dashboard of
             Inl e \<Rightarrow> ret (Inl e, marks, st, active)
           | Inr groups \<Rightarrow>
               (case filter (\<lambda>x. gp_id x = group_id) groups of
                  [] \<Rightarrow>
                    (case put_marks w (SyncResult ''error'' unknown_group_message [] # op_marks w (OpFail unknown_group_message)) marks of
                       (r, marks) \<Rightarrow> ret (map_sum id (\<lambda>u. False) r, marks, st, active))
                | grp # _ \<Rightarrow>
                    andthen (sync_group_singleflight g env st active grp marks) (\<lambda>((outcome, marks, st), active). ret (
                      case outcome of
                        Inl e \<Rightarrow> (Inl e, marks, st, active)
                      | Inr q \<Rightarrow>
                          (case put_marks w (op_marks w (op_mark_of q)) marks of
                             (r, marks) \<Rightarrow> (map_sum id (\<lambda>u. go_status q = ''success'') r, marks, st, active)))))))"

text \<open>The dashboard may raise; a group that is not in it is an error.  The handler marks every exception,
  and raises when its own marks are refused.\<close>

definition run_group_sync ::
  "group_env \<Rightarrow> run_env \<Rightarrow> exn + user_group list \<Rightarrow> kv_store \<Rightarrow> string list \<Rightarrow> string \<Rightarrow> demand_run act" where
  "run_group_sync g env dashboard st active group_id =
     andthen (demand_body g env dashboard st active group_id) (\<lambda>(r, marks, st, active). ret (
       case r of
         Inr ok \<Rightarrow> (Inr ok, marks, st, active)
       | Inl e \<Rightarrow>
           (let w = re_writes env group_id in
            case put_marks w (SyncResult ''error'' sync_failure_message [] # op_marks w (OpFail sync_failure_message)) marks of
              (r, marks) \<Rightarrow> (map_sum id (\<lambda>u. False) r, marks, st, active))))"

subsection \<open>How a run ends\<close>

text \<open>The table holds the baselines of the state observed at the end, by one commit.\<close>

definition baselines_advanced ::
  "group_env \<Rightarrow> (kv_store \<Rightarrow> kv_store) \<Rightarrow> kv_store \<Rightarrow> user_group \<Rightarrow> emby_request list \<Rightarrow> kv_store \<Rightarrow> bool" where
  "baselines_advanced g others st grp sent' st' \<longleftrightarrow>
     (\<exists>states mid. checkpoint_states (ge_sync g) (ge_net g) (ge_servers g) st (group_targets grp)
        ''auto-sync'' (gp_domains grp) mid = (Inr states, sent') \<and> commit_many (others st) states = (Inr (), st'))"

text \<open>The marks after the commit that can still be refused.\<close>

definition closing_mark :: "group_mark \<Rightarrow> bool" where
  "closing_mark m = (case m of SyncResult status message results \<Rightarrow> status = ''success''
     | Progress message current steps \<Rightarrow> message = ''Snapshot sync aggiornato'' | _ \<Rightarrow> False)"

text \<open>The marks written before the \<open>try\<close> and in its handler.\<close>

definition bare_mark :: "user_group \<Rightarrow> group_mark \<Rightarrow> bool" where
  "bare_mark grp m = (case m of SyncResult status message results \<Rightarrow>
       status \<in> {''skipped'', ''error''} \<or> status = ''running'' \<and> message = preparation grp
     | Progress message current steps \<Rightarrow> current = 0 \<and> message = preparation_of grp | _ \<Rightarrow> False)"

definition refused_closing :: "write_env \<Rightarrow> group_mark list \<Rightarrow> bool" where
  "refused_closing w marks \<longleftrightarrow> (\<exists>n m e. closing_mark m \<and> we_refuses w (take n marks) m = Some e)"

text \<open>How a run may end: a status that is the last mark, or an exception of the storage.\<close>

definition well_ended :: "write_env \<Rightarrow> user_group \<Rightarrow> group_run \<Rightarrow> bool" where
  "well_ended w grp run \<longleftrightarrow> (case run of (r, marks, st) \<Rightarrow>
     case r of
       Inl e \<Rightarrow> \<exists>m. bare_mark grp m \<and> we_refuses w marks m = Some e
     | Inr q \<Rightarrow> last marks = SyncResult (go_status q) (go_message q) (go_results q)
         \<and> go_status q \<in> {''success'', ''skipped'', ''error''})"

definition succeeded :: "group_run \<Rightarrow> bool" where
  "succeeded run \<longleftrightarrow> (case fst run of Inl e \<Rightarrow> False | Inr q \<Rightarrow> go_status q = ''success'')"

lemma run_steps_ends: "\<exists>r marks' sent'. run_steps w steps n ss results marks sent = (Inr (r, marks'), sent')"
proof (induction ss arbitrary: n results marks sent)
  case (Cons s ss)
  obtain r mid where "sp_work s sent = (r, mid)" by (cases "sp_work s sent")
  then show ?case using Cons.IH
    by (cases "result_bind r validate_sync_result") (auto simp: Let_def split: prod.split sum.split)
qed simp

lemma put_marks_raises: "put_marks w ms marks = (Inl e, marks') \<Longrightarrow> \<exists>m\<in>set ms. we_refuses w marks' m = Some e"
  by (induction ms arbitrary: marks) (auto split: option.splits)

lemma bare_marks:
  "bare_mark grp (SyncResult ''error'' message results)" "bare_mark grp (SyncResult ''skipped'' message results)"
  "bare_mark grp (SyncResult ''running'' (preparation grp) results)"
  "m \<in> set (progress w (preparation_of grp) 0 steps) \<Longrightarrow> bare_mark grp m"
  by (auto simp: bare_mark_def progress_def split: if_splits)

lemma failed_run_ends:
  "well_ended w grp (failed_run w marks st)" "\<not> succeeded (failed_run w marks st)"
  "snd (snd (failed_run w marks st)) = st" "\<exists>rest. fst (snd (failed_run w marks st)) = marks @ rest"
  by (auto simp: failed_run_def concluded_def well_ended_def succeeded_def split: option.splits intro: bare_marks)

lemma skipped_run_ends:
  "well_ended w grp (skipped_run w message marks st)" "\<not> succeeded (skipped_run w message marks st)"
  "snd (snd (skipped_run w message marks st)) = st"
  by (auto simp: skipped_run_def concluded_def well_ended_def succeeded_def split: option.splits intro: bare_marks)

lemma refused_closing_append:
  assumes "closing_mark m" "we_refuses w marks m = Some e"
  shows "refused_closing w (marks @ rest)"
proof -
  have "take (length marks) (marks @ rest) = marks" by simp
  then show ?thesis using assms unfolding refused_closing_def by metis
qed

lemma failed_run_refused:
  assumes "closing_mark m" "we_refuses w marks m = Some e"
  shows "refused_closing w (fst (snd (failed_run w marks st)))"
proof -
  obtain rest where "fst (snd (failed_run w marks st)) = marks @ rest" using failed_run_ends(4) by blast
  then show ?thesis by (simp add: refused_closing_append [OF assms])
qed

lemma completed_run_ends:
  fixes w steps grp results marks st
  defines "run \<equiv> completed_run w steps grp results marks st"
  shows "well_ended w grp run" "snd (snd run) = st" "succeeded run \<or> refused_closing w (fst (snd run))"
proof -
  let ?update = "Progress ''Snapshot sync aggiornato'' steps steps"
  let ?result = "SyncResult ''success'' (succeeded_message grp) results"
  have closing: "closing_mark ?update" "closing_mark ?result" by (simp_all add: closing_mark_def)
  have "well_ended w grp run \<and> snd (snd run) = st \<and> (succeeded run \<or> refused_closing w (fst (snd run)))"
  proof (cases "we_tracked w \<and> we_refuses w marks ?update \<noteq> None")
    case True
    then obtain e where e: "we_refuses w marks ?update = Some e" by blast
    then have "run = failed_run w marks st" using True by (simp add: run_def completed_run_def progress_def)
    then show ?thesis using failed_run_ends failed_run_refused [OF closing(1) e] by simp
  next
    case False
    define marks' where "marks' = marks @ progress w ''Snapshot sync aggiornato'' steps steps"
    have run: "run = (case concluded w ''success'' (succeeded_message grp) results marks' st of
        (Inl e, marks, st) \<Rightarrow> failed_run w marks st | (Inr r, marks, st) \<Rightarrow> (Inr r, marks, st))"
      using False by (auto simp: run_def completed_run_def progress_def marks'_def)
    show ?thesis
    proof (cases "we_refuses w marks' ?result")
      case None
      then show ?thesis by (simp add: run concluded_def well_ended_def succeeded_def)
    next
      case (Some e)
      then show ?thesis
        using failed_run_ends failed_run_refused [OF closing(2) Some] by (simp add: run concluded_def)
    qed
  qed
  then show "well_ended w grp run" "snd (snd run) = st" "succeeded run \<or> refused_closing w (fst (snd run))" by auto
qed

text \<open>What a run of a group, or its checkpoint, is allowed to leave behind.\<close>

definition ends_rightly ::
  "group_env \<Rightarrow> write_env \<Rightarrow> (kv_store \<Rightarrow> kv_store) \<Rightarrow> kv_store \<Rightarrow> user_group \<Rightarrow> group_run \<Rightarrow> emby_request list \<Rightarrow> bool" where
  "ends_rightly g w others st grp run sent' \<longleftrightarrow>
     well_ended w grp run
     \<and> (\<not> succeeded run \<and> snd (snd run) = others st
        \<or> (succeeded run \<or> refused_closing w (fst (snd run))) \<and> baselines_advanced g others st grp sent' (snd (snd run)))"

lemma failed_ends_rightly: "ends_rightly g w others st grp (failed_run w marks (others st)) sent'"
  using failed_run_ends by (auto simp: ends_rightly_def)

lemma skipped_ends_rightly: "ends_rightly g w others st grp (skipped_run w message marks (others st)) sent'"
  using skipped_run_ends by (auto simp: ends_rightly_def)

lemma refused_commit_moves_nothing: "commit_many st states = (Inl e, st') \<Longrightarrow> st' = st"
  by (auto simp: commit_many_def compare_and_set_key_values_def split: sum.splits prod.splits if_splits option.splits)

lemma checkpoint_ends:
  "\<exists>run sent'. checkpoint g w others st steps grp results marks sent = (Inr run, sent') \<and> ends_rightly g w others st grp run sent'"
proof -
  define message where "message = ''Aggiornamento snapshot sync''"
  obtain p marks1 where p: "put_marks w (SyncResult ''running'' message results # progress w message (steps - 1) steps) marks = (p, marks1)"
    by fastforce
  obtain r mid where r: "checkpoint_states (ge_sync g) (ge_net g) (ge_servers g) st (group_targets grp) ''auto-sync''
      (gp_domains grp) sent = (r, mid)" by fastforce
  show ?thesis
  proof (cases p)
    case (Inl e)
    with p show ?thesis by (simp add: checkpoint_def Let_def failed_ends_rightly flip: message_def)
  next
    case okay: (Inr u)
    show ?thesis
    proof (cases r)
      case (Inl e)
      with p r okay show ?thesis by (simp add: checkpoint_def Let_def failed_ends_rightly flip: message_def)
    next
      case (Inr states)
      obtain c st' where c: "commit_many (others st) states = (c, st')" by fastforce
      show ?thesis
      proof (cases c)
        case (Inl e)
        with p r okay Inr c refused_commit_moves_nothing [of "others st" states e st'] show ?thesis
          by (simp add: checkpoint_def Let_def failed_ends_rightly flip: message_def)
      next
        case committed: (Inr v)
        then have "baselines_advanced g others st grp mid st'"
          using c r Inr by (auto simp: baselines_advanced_def)
        then have "ends_rightly g w others st grp (completed_run w steps grp results marks1 st') mid"
          using completed_run_ends [where w = w and grp = grp and steps = steps and results = results and marks = marks1 and st = st'] by (simp add: ends_rightly_def)
        with p r okay Inr c committed show ?thesis
          by (simp add: checkpoint_def Let_def flip: message_def)
      qed
    qed
  qed
qed

lemma sync_participants_ends:
  "\<exists>run sent'. sync_participants g w others st steps grp leader marks sent = (Inr run, sent')
    \<and> ends_rightly g w others st grp run sent'"
proof -
  obtain p marks1 where p: "put_marks w (progress w ''Partecipanti sync verificati'' 1 steps) marks = (p, marks1)" by fastforce
  show ?thesis
  proof (cases p)
    case (Inl e)
    with p show ?thesis by (simp add: sync_participants_def failed_ends_rightly)
  next
    case (Inr u)
    obtain r marks2 mid where run: "run_steps w steps 1
              (if gp_type grp = ''merge'' then merge_steps g st grp (group_targets grp) leader
               else if gp_type grp = ''one_way'' then one_way_steps g grp (group_targets grp) leader
               else []) [] marks1 sent = (Inr (r, marks2), mid)"
      using run_steps_ends by blast
    show ?thesis
    proof (cases r)
      case (Inl e)
      with p Inr run show ?thesis by (simp add: sync_participants_def failed_ends_rightly)
    next
      case results: (Inr results)
      with p Inr run show ?thesis
        using checkpoint_ends [of g w others st steps grp results marks2 mid] by (simp add: sync_participants_def)
    qed
  qed
qed

lemma preparation_refused:
  assumes "put_marks w (SyncResult ''running'' (preparation grp) [] # progress w (preparation_of grp) 0 steps) marks = (Inl e, marks')"
  shows "ends_rightly g w others st grp (Inl e, marks', others st) sent'"
proof -
  obtain m where "m \<in> set (SyncResult ''running'' (preparation grp) [] # progress w (preparation_of grp) 0 steps)"
    "we_refuses w marks' m = Some e"
    using put_marks_raises [OF assms] by blast
  then show ?thesis by (auto simp: ends_rightly_def well_ended_def succeeded_def intro: bare_marks)
qed

lemma sync_group_ends:
  "\<exists>run sent'. sync_group g w others st grp marks sent = (Inr run, sent') \<and> ends_rightly g w others st grp run sent'"
proof (cases "length (gp_users grp) < 2 \<or> enabled_domains (gp_domains grp) = []")
  case True
  then have "\<exists>message. sync_group g w others st grp marks sent = (Inr (skipped_run w message marks (others st)), sent)"
    unfolding sync_group_def by auto
  then show ?thesis using skipped_ends_rightly by blast
next
  case False
  define steps where "steps = length (enabled_domains (gp_domains grp)) + 2"
  obtain p marks1 where p: "put_marks w (SyncResult ''running'' (preparation grp) [] # progress w (preparation_of grp) 0 steps) marks
      = (p, marks1)" by fastforce
  have eq: "sync_group g w others st grp marks = (case p of
      Inl e \<Rightarrow> ret (Inl e, marks1, others st)
    | Inr u \<Rightarrow> (case group_leaders grp of
               [leader] \<Rightarrow> sync_participants g w others st steps grp leader marks1
             | leaders \<Rightarrow>
                 ret (skipped_run w (''Leader non valido: trovati '' @ str_nat (length leaders) @ '' leader'') marks1 (others st))))"
    using False p unfolding sync_group_def Let_def steps_def by (simp split: sum.split)
  show ?thesis
  proof (cases p)
    case (Inl e)
    then show ?thesis using preparation_refused p by (simp add: eq)
  next
    case (Inr u)
    show ?thesis
    proof (cases "\<exists>leader. group_leaders grp = [leader]")
      case True
      then obtain leader where "group_leaders grp = [leader]" by blast
      then have "sync_group g w others st grp marks = sync_participants g w others st steps grp leader marks1"
        using Inr by (simp add: eq)
      then show ?thesis using sync_participants_ends by simp
    next
      case False
      then have "\<exists>message. sync_group g w others st grp marks sent = (Inr (skipped_run w message marks1 (others st)), sent)"
        using Inr unfolding eq by (auto split: list.split)
      then show ?thesis using skipped_ends_rightly by blast
    qed
  qed
qed

text \<open>C13: A run of a group ends in one of four ways, whatever the servers answer and whichever of its
  marks the storage refuses.  (1) A success, after which the table holds the baselines of the state
  observed at the end, by one commit, and the success is the last mark of the group's row.  (2) A skip or an
  error that is the last mark, and a table as the others left it.  (3) The same outcomes or an exception
  although the commit was done, only if a mark after the commit was refused.  (4) An exception of the
  storage for a mark written before the \<open>try\<close> or in its handler, and nothing else; the table is
  as in (2) or (3).\<close>

theorem group_run_ends:
  "\<exists>r marks' st' sent'. sync_group g w others st grp marks sent = (Inr (r, marks', st'), sent')
    \<and> (case r of
         Inl e \<Rightarrow> \<exists>m. bare_mark grp m \<and> we_refuses w marks' m = Some e
       | Inr q \<Rightarrow> last marks' = SyncResult (go_status q) (go_message q) (go_results q)
           \<and> go_status q \<in> {''success'', ''skipped'', ''error''})
    \<and> (if (case r of Inl e \<Rightarrow> False | Inr q \<Rightarrow> go_status q = ''success'')
       then baselines_advanced g others st grp sent' st'
       else st' = others st \<or> refused_closing w marks' \<and> baselines_advanced g others st grp sent' st')"
proof -
  obtain r marks' st' sent' where run: "sync_group g w others st grp marks sent = (Inr (r, marks', st'), sent')"
    and "ends_rightly g w others st grp (r, marks', st') sent'"
    using sync_group_ends [of g w others st grp marks sent] by (metis prod_cases3)
  then show ?thesis
    by (intro exI [of _ r] exI [of _ marks'] exI [of _ st'] exI [of _ sent'])
       (auto simp: ends_rightly_def well_ended_def succeeded_def split: sum.splits)
qed

text \<open>Case (3) happens: when the storage refuses the mark of a success, the run is reported as an
  error although its baselines have advanced.\<close>

lemma refused_success_is_an_error:
  assumes "we_refuses w marks (SyncResult ''success'' (succeeded_message grp) results) = Some e"
    and "we_refuses w marks (SyncResult ''error'' sync_failure_message []) = None" "\<not> we_tracked w"
  shows "\<exists>q marks'. completed_run w steps grp results marks st = (Inr q, marks', st) \<and> go_status q = ''error''"
  using assms by (simp add: completed_run_def progress_def concluded_def failed_run_def)

text \<open>A storage that refuses nothing.\<close>

definition calm :: "write_env \<Rightarrow> bool" where
  "calm w \<longleftrightarrow> we_refuses w = (\<lambda>marks m. None)"

lemma calm_put_marks: "calm w \<Longrightarrow> put_marks w ms marks = (Inr (), marks @ ms)"
  by (induction ms arbitrary: marks) (simp_all add: calm_def)

lemma calm_failed_run:
  "calm w \<Longrightarrow> failed_run w marks st = (Inr \<lparr>go_status = ''error'', go_message = sync_failure_message, go_reason = [], go_results = []\<rparr>,
     marks @ [SyncResult ''error'' sync_failure_message []], st)"
  by (simp add: failed_run_def concluded_def calm_put_marks del: put_marks.simps)

lemma failed_steps_end:
  fixes grp
  defines "steps \<equiv> length (enabled_domains (gp_domains grp)) + 2"
  assumes "calm w" "length (gp_users grp) \<ge> 2" "enabled_domains (gp_domains grp) \<noteq> []" "group_leaders grp = [leader]"
    and "gp_type grp = ''merge''"
    and "run_steps w steps 1 (merge_steps g st grp (group_targets grp) leader) []
      (SyncResult ''running'' (preparation grp) [] # progress w (preparation_of grp) 0 steps
        @ progress w ''Partecipanti sync verificati'' 1 steps) sent = (Inr (Inl e, marks), sent')"
  shows "sync_group g w others st grp [] sent = (Inr (failed_run w marks (others st)), sent')"
  using assms by (simp add: sync_group_def sync_participants_def Let_def calm_put_marks del: put_marks.simps)

subsection \<open>A first merge that is lost\<close>

text \<open>A result that \<open>validate_sync_result\<close> lets through.\<close>

lemma favorites_validated:
  assumes "fv_failed r = []" "fv_error r = None"
  shows "validate_sync_result (dset ''bootstrap'' (PStr ''additive'') (favorite_result_dict r))
      = Inr (dset ''bootstrap'' (PStr ''additive'') (favorite_result_dict r))"
    and "pget (dset ''bootstrap'' (PStr ''additive'') (favorite_result_dict r)) ''failed'' = PList []"
    and "pget (dset ''bootstrap'' (PStr ''additive'') (favorite_result_dict r)) ''error'' = PNone"
  using assms by (simp_all add: validate_sync_result_def favorite_result_dict_def error_entry_def text_values_def
      text_or_empty_def lower_def)

lemma playlists_rejected:
  assumes "pl_failed r \<noteq> []"
  shows "\<exists>e. validate_sync_result (dset ''bootstrap'' (PStr ''additive'') (playlist_result_dict r)) = Inl e"
  using assms by (auto simp: validate_sync_result_def playlist_result_dict_def error_entry_def text_values_def
      text_or_empty_def lower_def split: option.splits)

text \<open>The row of a group records that a domain had its first merge as soon as its step is over.  When a
  later step of the same run fails, the run is an error, no baseline is stored, and the mark stays: the
  next run merges differences of that domain although no participant has a baseline.\<close>

theorem bootstrap_done_without_baseline:
  assumes "calm w" "gp_type grp = ''merge''" "\<not> gp_favorites_done grp" "\<not> gp_playlists_done grp"
    and "gp_domains grp = \<lparr>sy_config = False, sy_library_access = False, sy_playstate = False, sy_favorites = True, sy_playlists = True\<rparr>"
    and "length (gp_users grp) \<ge> 2" "group_leaders grp = [leader]"
    and "sync_merge_favorites (ge_net g) (ge_servers g) (group_targets grp) sent = (Inr r, mid)" "fv_failed r = []" "fv_error r = None"
    and "sync_merge_playlists (ge_net g) (ge_servers g) (group_targets grp) mid = (Inr q, sent')" "pl_failed q \<noteq> []"
  shows "\<exists>q marks. sync_group g w others st grp [] sent = (Inr (Inr q, marks, others st), sent')
    \<and> go_status q = ''error'' \<and> BootstrapDone ''favorites'' \<in> set marks \<and> BootstrapDone ''playlists'' \<notin> set marks"
proof -
  obtain e where rejected: "validate_sync_result (dset ''bootstrap'' (PStr ''additive'') (playlist_result_dict q)) = Inl e"
    using playlists_rejected [OF assms(12)] by blast
  let ?steps = "length (enabled_domains (gp_domains grp)) + 2"
  let ?start = "SyncResult ''running'' (preparation grp) [] # progress w (preparation_of grp) 0 ?steps
        @ progress w ''Partecipanti sync verificati'' 1 ?steps"
  have "\<exists>marks. run_steps w ?steps 1 (merge_steps g st grp (group_targets grp) leader) [] ?start sent = (Inr (Inl e, marks), sent')
      \<and> BootstrapDone ''favorites'' \<in> set marks \<and> BootstrapDone ''playlists'' \<notin> set marks"
    using assms(3-5,8,11) rejected favorites_validated [OF assms(9,10)]
    by (auto simp add: merge_steps_def guarded_step_def bootstrap_step_def Let_def calm_put_marks [OF assms(1)] progress_def
        simp del: put_marks.simps)
  then show ?thesis
    using failed_steps_end [OF assms(1), of grp leader g st sent e] assms(1,2,5-7)
    by (auto simp: calm_failed_run enabled_domains_def)
qed

definition sample_users :: "group_user list" where
  "sample_users = [\<lparr>gu_server = ''a'', gu_user = ''u'', gu_leader = True\<rparr>, \<lparr>gu_server = ''b'', gu_user = ''u'', gu_leader = False\<rparr>]"

definition new_group :: "sync_domains \<Rightarrow> user_group" where
  "new_group domains =
     \<lparr>gp_id = ''g'', gp_name = ''family'', gp_type = ''merge'', gp_domains = domains, gp_resume = False, gp_categories = PNone,
      gp_playstate_done = False, gp_favorites_done = False, gp_playlists_done = False, gp_users = sample_users, gp_auto = True\<rparr>"

text \<open>Servers without favourites, whose playlists cannot be read.\<close>

definition no_playlists_net :: emby_net where
  "no_playlists_net = (library_net (\<lambda>r. []))\<lparr>n_reply :=
     (\<lambda>sent r. if pget (rq_params r) ''IncludeItemTypes'' = PStr ''Playlist'' then HttpStatus 500
       else n_reply (library_net (\<lambda>r. [])) sent r)\<rparr>"

definition no_playlists_group :: group_env where
  "no_playlists_group = (sample_group (\<lambda>r. []))\<lparr>ge_net := no_playlists_net\<rparr>"

lemma sample_call:
  assumes "strip k \<noteq> []"
  shows "emby_get net (sample_server k) path params sent
      = (Inr (answer_of (n_reply net sent (sample_request k path params))), sent @ [sample_request k path params])"
proof -
  have "emby_base_url (sample_server k) = Some ''http://emby''" by code_simp
  moreover have "strip [] = []" by code_simp
  then have "k \<noteq> []" using assms by auto
  ultimately show ?thesis using assms
    by (simp add: call_emby_api_def send_def sample_request_def sample_server_def text_or_empty_def Let_def)
qed

lemma no_favorites_read:
  assumes "strip k \<noteq> []"
  shows "\<exists>sent'. fetch_user_favorite_items no_playlists_net (sample_server k) ''u'' sent = (Inr ([], PNone), sent')"
proof -
  have "\<exists>sent'. fetch_pages no_playlists_net (sample_server k) (user_items_path ''u'')
      (page_params 200 (item_query ''Movie,Episode,Series'' @ [(''Filters'', PStr ''IsFavorite'')]))
      (emby_items_page_complete 200) 0 (new_guard max_emby_pages max_emby_items) [] sent = (Inr ([], PNone), sent')"
    by (subst fetch_pages.simps)
       (simp add: fetch_page_def sample_call [OF assms] no_playlists_net_def library_net_def sample_request_def answer_of_def
          items_of_def py_or_def object_list_def observe_page_def new_guard_def max_emby_pages_def Let_def
          emby_items_page_complete_def item_query_def page_params_def andthen_def)
  then show ?thesis
    by (auto simp: fetch_user_favorite_items_def fetch_user_items_def fetch_items_paged_def attach_series_provider_ids_def)
qed

lemma no_playlists_read:
  assumes "strip k \<noteq> []"
  shows "\<exists>sent' e. fetch_user_playlists no_playlists_net (sample_server k) ''u'' sent = (Inr ([], PStr e), sent') \<and> e \<noteq> []"
proof -
  have "\<exists>sent'. fetch_pages no_playlists_net (sample_server k) (user_items_path ''u'')
      (page_params 200 [(''Recursive'', PStr ''true''), (''IncludeItemTypes'', PStr ''Playlist''),
        (''Fields'', PStr ''ProviderIds,UserData,Name,SortName'')])
      (emby_items_page_complete 200) 0 (new_guard max_emby_pages max_emby_items) [] sent
      = (Inr ([], PStr (''Errore Emby HTTP '' @ str_nat 500)), sent')"
    by (subst fetch_pages.simps)
       (simp add: fetch_page_def sample_call [OF assms] no_playlists_net_def sample_request_def answer_of_def
          page_params_def andthen_def)
  then show ?thesis
    by (auto simp: fetch_user_playlists_def fetch_user_items_def fetch_items_paged_def)
qed

definition calm_env :: write_env where
  "calm_env = \<lparr>we_refuses = (\<lambda>marks m. None), we_tracked = False\<rparr>"

lemma calm_calm_env: "calm calm_env"
  by (simp add: calm_def calm_env_def)

theorem bootstrap_done_without_baseline_witness:
  "\<exists>r marks sent'. sync_group no_playlists_group calm_env (\<lambda>st. st) []
      (new_group \<lparr>sy_config = False, sy_library_access = False, sy_playstate = False, sy_favorites = True, sy_playlists = True\<rparr>) [] []
      = (Inr (Inr r, marks, []), sent')
    \<and> go_status r = ''error'' \<and> BootstrapDone ''favorites'' \<in> set marks"
proof -
  let ?grp = "new_group \<lparr>sy_config = False, sy_library_access = False, sy_playstate = False, sy_favorites = True, sy_playlists = True\<rparr>"
  have k: "strip ''a'' \<noteq> []" "strip ''b'' \<noteq> []" by code_simp+
  have env: "ge_net no_playlists_group = no_playlists_net" "ge_servers no_playlists_group = sample_server"
    "group_targets ?grp = [(''a'', ''u''), (''b'', ''u'')]" "sample_server k \<noteq> []" for k
    by (simp_all add: no_playlists_group_def sample_group_def group_targets_def new_group_def sample_users_def sample_server_def)
  have reads: "\<exists>mid. fetch_user_favorite_items no_playlists_net (sample_server k) ''u'' sent = (Inr ([], PNone), mid)"
    if "k = ''a'' \<or> k = ''b''" for k sent using that k no_favorites_read by auto
  have source: "\<exists>mid. merge_favorite_source no_playlists_net sample_server (k, ''u'') ([], []) sent = (Inr ([], []), mid)"
    if "k = ''a'' \<or> k = ''b''" for k sent
    using reads [OF that, of sent] env(4) by (auto simp: merge_favorite_source_def Let_def)
  have target: "\<exists>r' mid. keys_target no_playlists_net sample_server [] (k, ''u'') r sent = (Inr r', mid)
      \<and> fv_failed r' = fv_failed r \<and> fv_error r' = fv_error r"
    if "k = ''a'' \<or> k = ''b''" for k sent r
    using reads [OF that, of sent] env(4) by (auto simp: keys_target_def lookup_favorites_def record_target_outcome_def
        no_favorite_counts_def Let_def)
  have fail: "\<exists>mid. merge_playlist_source no_playlists_net sample_server (k, ''u'') ([], failures) sent
      = (Inr ([], failures @ [target_label (sample_server k) @ '': Playlist fetch error'']), mid)"
    if "k = ''a'' \<or> k = ''b''" for k sent failures
    using that k no_playlists_read [of k sent] env(4) by (auto simp: merge_playlist_source_def Let_def)
  obtain m1 where m1: "merge_favorite_source no_playlists_net sample_server (''a'', ''u'') ([], []) [] = (Inr ([], []), m1)"
    using source [of "''a''"] by auto
  obtain m2 where m2: "merge_favorite_source no_playlists_net sample_server (''b'', ''u'') ([], []) m1 = (Inr ([], []), m2)"
    using source [of "''b''"] by auto
  obtain r1 m3 where r1: "keys_target no_playlists_net sample_server [] (''a'', ''u'') no_favorites m2 = (Inr r1, m3)"
    "fv_failed r1 = []" "fv_error r1 = None"
    using target [of "''a''" no_favorites m2] by (auto simp: no_favorites_def)
  obtain r2 mid where r2: "keys_target no_playlists_net sample_server [] (''b'', ''u'') r1 m3 = (Inr r2, mid)" "fv_failed r2 = []"
    using target [of "''b''" r1 m3] r1(2) by auto
  have favs: "sync_merge_favorites no_playlists_net sample_server [(''a'', ''u''), (''b'', ''u'')] []
      = (Inr (r2\<lparr>fv_cleared := [], fv_error := None\<rparr>), mid)"
    using m1 m2 r1(1) r2(1) by (simp add: sync_merge_favorites_def sync_user_favorites_to_keys_def)
  obtain m4 where m4: "merge_playlist_source no_playlists_net sample_server (''a'', ''u'') ([], []) mid
      = (Inr ([], [target_label (sample_server ''a'') @ '': Playlist fetch error'']), m4)"
    using fail [of "''a''" "[]" mid] by auto
  obtain f sent' where m5: "merge_playlist_source no_playlists_net sample_server (''b'', ''u'')
        ([], [target_label (sample_server ''a'') @ '': Playlist fetch error'']) m4 = (Inr ([], f), sent')" "f \<noteq> []"
    using fail [of "''b''" _ m4] by fastforce
  have lists: "sync_merge_playlists no_playlists_net sample_server [(''a'', ''u''), (''b'', ''u'')] mid
      = (Inr ((playlists_error playlists_aborted)\<lparr>pl_failed := f\<rparr>), sent')"
    using m4 m5 by (simp add: sync_merge_playlists_def)
  have "gp_type ?grp = ''merge''" "\<not> gp_favorites_done ?grp" "\<not> gp_playlists_done ?grp" "length (gp_users ?grp) \<ge> 2"
    "gp_domains ?grp = \<lparr>sy_config = False, sy_library_access = False, sy_playstate = False, sy_favorites = True, sy_playlists = True\<rparr>"
    "group_leaders ?grp = [(''a'', ''u'')]"
    by (simp_all add: new_group_def group_leaders_def sample_users_def)
  from bootstrap_done_without_baseline [OF calm_calm_env this(1-3,5,4,6) favs [folded env(1-3)] _ _ lists [folded env(1-3)],
      of "\<lambda>st. st" "[]"] r2(2) m5(2)
  show ?thesis by auto
qed

subsection \<open>Settings and library access in one group\<close>

definition moved :: "sync_state \<Rightarrow> bool" where
  "moved s \<longleftrightarrow> ss_had_previous s \<and> ss_changed s"

lemma two_moved_conflict:
  assumes "observe_many (ge_sync g) (ge_net g) (ge_servers g) st domain ''refresh'' targets sent = (Inr observed, sent')"
    and "require_complete_snapshots observed (length targets) = Inr states" "length (filter moved states) > 1"
  shows "\<exists>e. run_latest_wins g st domain targets f preferred sent = (Inl e, sent')"
proof -
  have "states \<noteq> []" using assms(3) by auto
  moreover have "length (filter (\<lambda>s. ss_had_previous s \<and> ss_changed s) states) > 1"
    using assms(3) by (simp add: moved_def [abs_def])
  ultimately show ?thesis using assms(1,2)
    by (simp add: run_latest_wins_def latest_source_def choose_latest_def Let_def)
qed

text \<open>A merged group that synchronises both settings and library access runs the same
  \<open>settings\<close> observation twice against the same baselines.  When the first of the two steps brings one
  participant's change to another, the second one sees two participants that moved: the run ends as an
  error and stores no baseline, so that the next run finds them moved again.\<close>

theorem settings_copied_then_conflict:
  assumes "calm w" "gp_type grp = ''merge''" "length (gp_users grp) \<ge> 2" "group_leaders grp = [leader]"
    and "gp_domains grp = \<lparr>sy_config = True, sy_library_access = True, sy_playstate = False, sy_favorites = False, sy_playlists = False\<rparr>"
    and "run_latest_wins g st ''settings'' (group_targets grp)
           (\<lambda>server user others. ge_config g server user others (gp_categories grp)) (Some leader) sent = (Inr r, mid)"
    and "validate_sync_result r = Inr r"
    and "observe_many (ge_sync g) (ge_net g) (ge_servers g) st ''settings'' ''refresh'' (group_targets grp) mid = (Inr observed, sent')"
    and "require_complete_snapshots observed (length (group_targets grp)) = Inr states" "length (filter moved states) > 1"
  shows "\<exists>r marks. sync_group g w others st grp [] sent = (Inr (Inr r, marks, others st), sent') \<and> go_status r = ''error''"
proof -
  obtain e where conflict: "run_latest_wins g st ''settings'' (group_targets grp) (ge_library g) (Some leader) mid = (Inl e, sent')"
    using two_moved_conflict [OF assms(8-10)] by blast
  let ?steps = "length (enabled_domains (gp_domains grp)) + 2"
  let ?start = "SyncResult ''running'' (preparation grp) [] # progress w (preparation_of grp) 0 ?steps
        @ progress w ''Partecipanti sync verificati'' 1 ?steps"
  have "\<exists>marks. run_steps w ?steps 1 (merge_steps g st grp (group_targets grp) leader) [] ?start sent = (Inr (Inl e, marks), sent')"
    using assms(5-7) conflict
    by (simp add: merge_steps_def plain_step_def Let_def calm_put_marks [OF assms(1)] del: put_marks.simps)
  then show ?thesis
    using failed_steps_end [OF assms(1), of grp leader g st sent e] assms(1-5)
    by (auto simp: calm_failed_run enabled_domains_def)
qed

text \<open>Two servers: the first user's settings are new, the second one's become new with the first write.\<close>

definition settings_net :: emby_net where
  "settings_net = (library_net (\<lambda>r. []))\<lparr>n_reply := (\<lambda>sent r. Body (PDict [(''v'', PStr
     (if rq_token r = ''a'' \<or> list_ex (\<lambda>q. rq_method q = ''POST'') sent then ''new'' else ''old''))]))\<rparr>"

definition settings_group :: group_env where
  "settings_group = (sample_group (\<lambda>r. []))\<lparr>ge_net := settings_net,
     ge_sync := \<lparr>se_now = ''now'', se_digest = (\<lambda>d. py_str (pget d ''v'')), se_settings = (\<lambda>d server_id. ret d)\<rparr>,
     ge_config := (\<lambda>server user targets categories.
       andthen (call_emby_api settings_net (sample_server ''b'') ''Users/u/Policy'' ''POST'' [] None) (\<lambda>answer. ret []))\<rparr>"

definition settings_store :: kv_store where
  "settings_store = map (\<lambda>k. (''emby_user_sync_state:settings:'' @ k @ '':u'',
     PDict [(''hash'', PStr ''old''), (''snapshot'', PDict [(''v'', PStr ''old'')])])) [''a'', ''b'']"

theorem settings_copied_then_conflict_witness:
  "\<exists>r marks sent'. sync_group settings_group calm_env (\<lambda>st. st) settings_store
      (new_group \<lparr>sy_config = True, sy_library_access = True, sy_playstate = False, sy_favorites = False, sy_playlists = False\<rparr>) [] []
      = (Inr (Inr r, marks, settings_store), sent')
    \<and> go_status r = ''error''"
proof -
  let ?grp = "new_group \<lparr>sy_config = True, sy_library_access = True, sy_playstate = False, sy_favorites = False, sy_playlists = False\<rparr>"
  let ?run = "run_latest_wins settings_group settings_store ''settings'' (group_targets ?grp)
      (\<lambda>server user others. ge_config settings_group server user others (gp_categories ?grp)) (Some (''a'', ''u'')) []"
  let ?again = "observe_many (ge_sync settings_group) (ge_net settings_group) (ge_servers settings_group) settings_store
      ''settings'' ''refresh'' (group_targets ?grp) (snd ?run)"
  have copied: "case fst ?run of Inl e \<Rightarrow> False | Inr r \<Rightarrow> validate_sync_result r = Inr r"
    by code_simp
  have observed: "case fst ?again of Inl e \<Rightarrow> False
      | Inr observed \<Rightarrow> (case require_complete_snapshots observed (length (group_targets ?grp)) of
          Inl e \<Rightarrow> False | Inr states \<Rightarrow> 1 < length (filter moved states))"
    by code_simp
  obtain r mid where r: "?run = (Inr r, mid)" "validate_sync_result r = Inr r"
    using copied by (cases ?run) (auto split: sum.splits)
  obtain observed sent' where o: "?again = (Inr observed, sent')" using observed by (cases ?again) (auto split: sum.splits)
  then obtain states where s: "require_complete_snapshots observed (length (group_targets ?grp)) = Inr states"
    "1 < length (filter moved states)" using observed by (auto split: sum.splits)
  have again: "observe_many (ge_sync settings_group) (ge_net settings_group) (ge_servers settings_group) settings_store
      ''settings'' ''refresh'' (group_targets ?grp) mid = (Inr observed, sent')"
    using o r(1) by simp
  have "gp_type ?grp = ''merge''" "length (gp_users ?grp) \<ge> 2" "group_leaders ?grp = [(''a'', ''u'')]"
    "gp_domains ?grp = \<lparr>sy_config = True, sy_library_access = True, sy_playstate = False, sy_favorites = False, sy_playlists = False\<rparr>"
    by (simp_all add: new_group_def group_leaders_def sample_users_def)
  from settings_copied_then_conflict [OF calm_calm_env this r again s, of "\<lambda>st. st"] show ?thesis by auto
qed

subsection \<open>All groups are accounted for\<close>

lemma singleflight_ends:
  "\<exists>run sent'. sync_group_singleflight g env st active grp marks sent = (Inr (run, active), sent')"
proof (cases "gp_id grp \<in> set active")
  case True
  then have "sync_group_singleflight g env st active grp marks sent = (Inr (busy_run (re_writes env (gp_id grp)) marks st, active), sent)"
    by (simp add: sync_group_singleflight_def try_claim_group_def)
  then show ?thesis by blast
next
  case False
  have "\<exists>run sent'. locked_sync g env st (gp_id grp) marks sent = (Inr run, sent')"
  proof (cases "\<exists>groups current rest. re_acquired env (gp_id grp) = Inr True \<and> re_groups env (gp_id grp) = Inr groups
      \<and> filter (\<lambda>x. gp_id x = gp_id grp) groups = current # rest")
    case True
    then obtain groups current rest where found: "re_acquired env (gp_id grp) = Inr True" "re_groups env (gp_id grp) = Inr groups"
      "filter (\<lambda>x. gp_id x = gp_id grp) groups = current # rest" by blast
    obtain run sent' where "sync_group g (re_writes env (gp_id grp)) (re_others env) st current marks sent = (Inr run, sent')"
      using sync_group_ends by blast
    with found have "locked_sync g env st (gp_id grp) marks sent = (Inr (leave_lock (re_released env (gp_id grp)) run), sent')"
      by (simp add: locked_sync_def Let_def)
    then show ?thesis by blast
  next
    case False
    then have "\<exists>run. locked_sync g env st (gp_id grp) marks = ret run"
      unfolding locked_sync_def Let_def by (auto split: sum.split list.split simp del: split_paired_Ex)
    then show ?thesis by auto
  qed
  moreover have "release_group (gp_id grp) (active @ [gp_id grp]) = active"
    using False by (auto simp: release_group_def filter_id_conv)
  ultimately show ?thesis using False
    by (auto simp: sync_group_singleflight_def try_claim_group_def)
qed

definition accounted :: "auto_outcome \<Rightarrow> string multiset" where
  "accounted a = mset (ao_succeeded a @ ao_failed a @ ao_retryable a @ ao_skipped a)"

text \<open>Every group with automatic synchronisation that an automatic run reached ends in exactly one of the four
  lists, as often as it is listed: all of them, unless one raised.  No claim on a group is left behind,
  even then.\<close>

theorem auto_run_accounts_for_all:
  "\<exists>r sent'. run_auto_sync g env (Inr groups) st active sent = (Inr r, sent') \<and> ar_active r = active
    \<and> (case ar_outcome r of Inl e \<Rightarrow> True | Inr a \<Rightarrow> accounted a = mset (map gp_id (filter gp_auto groups)))"
proof -
  have stop: "ar_outcome r = Inl e \<Longrightarrow> for_each (auto_step g env) grps r sent = (Inr r, sent)" for r e grps sent
    by (induction grps) (simp_all add: auto_step_def)
  have "ar_outcome r = Inr a \<Longrightarrow> \<exists>r' sent'. for_each (auto_step g env) groups r sent = (Inr r', sent') \<and> ar_active r' = ar_active r
      \<and> (case ar_outcome r' of Inl e \<Rightarrow> True | Inr b \<Rightarrow> accounted b = accounted a + mset (map gp_id (filter gp_auto groups)))" for r a sent
  proof (induction groups arbitrary: r a sent)
    case (Cons grp groups)
    show ?case
    proof (cases "gp_auto grp")
      case True
      obtain q marks st' sent' where run: "sync_group_singleflight g env (ar_store r) (ar_active r) grp [] sent
          = (Inr ((q, marks, st'), ar_active r), sent')"
        using singleflight_ends by (metis prod_cases3)
      have counted: "accounted (classify_run k o' b) = add_mset k (accounted b)" for k o' b
        by (simp add: classify_run_def accounted_def Let_def)
      define r1 where "r1 = \<lparr>ar_outcome = (case q of Inl e \<Rightarrow> Inl e | Inr o' \<Rightarrow> Inr (classify_run (gp_id grp) o' a)),
             ar_marks = ar_marks r @ [(gp_id grp, marks)], ar_store = st', ar_active = ar_active r\<rparr>"
      have step: "auto_step g env grp r sent = (Inr r1, sent')"
        using Cons.prems True run by (simp add: auto_step_def r1_def)
      show ?thesis
      proof (cases q)
        case (Inl e)
        then show ?thesis using step stop [of r1 e groups sent'] by (simp add: r1_def)
      next
        case (Inr o')
        then have "ar_outcome r1 = Inr (classify_run (gp_id grp) o' a)" by (simp add: r1_def)
        from Cons.IH [OF this, of sent'] step True show ?thesis
          by (auto simp: counted r1_def split: sum.splits)
      qed
    next
      case False
      then have "auto_step g env grp r sent = (Inr r, sent)" using Cons.prems by (simp add: auto_step_def)
      then have "for_each (auto_step g env) (grp # groups) r sent = for_each (auto_step g env) groups r sent" by simp
      moreover have "filter gp_auto (grp # groups) = filter gp_auto groups" using False by simp
      ultimately show ?thesis using Cons.IH [OF Cons.prems, of sent] by metis
    qed
  qed simp
  from this [of "\<lparr>ar_outcome = Inr no_attempt, ar_marks = [], ar_store = st, ar_active = active\<rparr>" no_attempt sent]
  moreover have "accounted no_attempt + m = m" for m by (simp add: accounted_def no_attempt_def)
  ultimately show ?thesis by (simp add: run_auto_sync_def cong: sum.case_cong)
qed

text \<open>A group on demand never leaves a claim behind, and it raises only when its handler cannot mark the
  failure.\<close>

lemma demand_body_ends:
  "\<exists>r marks st' sent'. demand_body g env dashboard st active group_id sent = (Inr (r, marks, st', active), sent')"
proof -
  define w where "w = re_writes env group_id"
  obtain p marks1 where p: "put_marks w (progress w ''Carico gruppo utenti'' 0 1) [] = (p, marks1)" by fastforce
  show ?thesis
  proof (cases "\<exists>u groups grp rest. p = Inr u \<and> dashboard = Inr groups \<and> filter (\<lambda>x. gp_id x = group_id) groups = grp # rest")
    case True
    then obtain groups grp rest where grp: "dashboard = Inr groups" "filter (\<lambda>x. gp_id x = group_id) groups = grp # rest" "p = Inr ()"
      by auto
    obtain q marks2 st' sent' where run: "sync_group_singleflight g env st active grp marks1 sent = (Inr ((q, marks2, st'), active), sent')"
      using singleflight_ends by (metis prod_cases3)
    with grp p show ?thesis
      by (simp add: demand_body_def Let_def flip: w_def split: sum.split prod.split)
  next
    case False
    with p show ?thesis
      by (auto simp: demand_body_def Let_def simp flip: w_def split: sum.split prod.split list.split)
  qed
qed

theorem run_on_demand_ends:
  "\<exists>r marks st' sent'. run_group_sync g env dashboard st active group_id sent = (Inr (r, marks, st', active), sent')
    \<and> (case r of Inr ok \<Rightarrow> True
       | Inl e \<Rightarrow> \<exists>m\<in>{SyncResult ''error'' sync_failure_message [], OpFail sync_failure_message}.
           we_refuses (re_writes env group_id) marks m = Some e)"
proof -
  define w where "w = re_writes env group_id"
  define closing where "closing = SyncResult ''error'' sync_failure_message [] # op_marks w (OpFail sync_failure_message)"
  obtain r marks st' sent' where body: "demand_body g env dashboard st active group_id sent = (Inr (r, marks, st', active), sent')"
    using demand_body_ends by blast
  obtain p marks1 where p: "put_marks w closing marks = (p, marks1)" by fastforce
  have sub: "set closing \<subseteq> {SyncResult ''error'' sync_failure_message [], OpFail sync_failure_message}"
    by (auto simp: closing_def op_marks_def)
  show ?thesis
  proof (cases r)
    case (Inr x)
    with body show ?thesis by (simp add: run_group_sync_def)
  next
    case (Inl e)
    have run: "run_group_sync g env dashboard st active group_id sent = (Inr (map_sum id (\<lambda>u. False) p, marks1, st', active), sent')"
      using body Inl p by (simp add: run_group_sync_def Let_def del: put_marks.simps flip: w_def closing_def)
    show ?thesis
    proof (cases p)
      case raised: (Inl e')
      with p put_marks_raises obtain m where "m \<in> set closing" "we_refuses w marks1 m = Some e'" by metis
      with run raised sub show ?thesis by (auto simp flip: w_def)
    qed (use run in simp)
  qed
qed

end
