(* ===== verification/Change_Feed.thy ===== *)
theory Change_Feed
  imports Py_Time
begin

text \<open>
  The change journal external clients poll (\<open>realtime/external_change_feed.py\<close>).  A process keeps
  the last 250 events and the cursor of the newest; both are reached under one lock only, so
  publishing and reading are steps of the model.  A client keeps the cursor of its last page.
  The facts follow the journal of all events ever published: what the deque holds is its end,
  cursors number it from one, and a client that is never told to reset has read exactly the
  beginning of it.
\<close>

subsection \<open>The journal\<close>

definition EXTERNAL_CHANGE_RETENTION :: nat where
  "EXTERNAL_CHANGE_RETENTION = 250"

record external_change =
  chg_cursor :: int
  chg_occurred_at :: string
  chg_topic :: string
  chg_message_type :: string
  chg_server_id :: "string option"
  chg_details :: "(string, string) dict"

record change_feed =
  fd_changes :: "external_change list"
  fd_latest :: int

definition topics_by_message_type :: "(string, string) dict" where
  "topics_by_message_type =
     [(''ConnectionClosed'', ''emby.connection''),
      (''ConnectionEstablished'', ''emby.connection''),
      (''LibraryChanged'', ''libraries''),
      (''OctoHubsCollectionsUpdated'', ''collections''),
      (''OctoHubsConfigurationUpdated'', ''configuration''),
      (''OctoHubsEventBridgeUpdated'', ''event_bridge''),
      (''OctoHubsLatestUpdated'', ''publications''),
      (''OctoHubsUsersUpdated'', ''users''),
      (''RefreshProgress'', ''libraries.scan''),
      (''ScheduledTasksInfoStart'', ''libraries.scan''),
      (''ScheduledTasksInfoStop'', ''libraries.scan''),
      (''Sessions'', ''emby.streams''),
      (''SessionsUpdate'', ''emby.streams''),
      (''UserPolicyUpdated'', ''users'')]"

definition topic_for_message :: "string \<Rightarrow> string" where
  "topic_for_message m = dget_default topics_by_message_type m ''application''"

definition safe_details :: "string \<Rightarrow> py \<Rightarrow> (string, string) dict" where
  "safe_details m data =
     (case data of
        PDict d \<Rightarrow>
          if m = ''OctoHubsConfigurationUpdated''
          then (let scope = strip (text_or_empty (pget d ''scope''))
                in if scope \<noteq> [] then [(''scope'', scope)] else [])
          else []
      | _ \<Rightarrow> [])"

text \<open>\<open>deque(maxlen=n).append\<close>: the oldest element leaves when the deque is full.\<close>

definition append_bounded :: "nat \<Rightarrow> 'a list \<Rightarrow> 'a \<Rightarrow> 'a list" where
  "append_bounded n xs x = drop (Suc (length xs) - n) (xs @ [x])"

text \<open>The event a message of the shared emitter stands for, at the cursor it gets.\<close>

definition change_of :: "pdict \<Rightarrow> int \<Rightarrow> int \<Rightarrow> external_change" where
  "change_of event now cursor =
     (let m = strip (text_or (pget event ''MessageType'') ''ApplicationUpdated'');
          m' = (if m = [] then ''ApplicationUpdated'' else m);
          server = strip (text_or_empty (pget event ''server_id''))
      in \<lparr>chg_cursor = cursor, chg_occurred_at = iso_utc now,
          chg_topic = topic_for_message m', chg_message_type = m',
          chg_server_id = (if server = [] then None else Some server),
          chg_details = safe_details m' (pget event ''Data'')\<rparr>)"

definition publish_external_change :: "pdict \<Rightarrow> int \<Rightarrow> change_feed \<Rightarrow> change_feed" where
  "publish_external_change event now fd =
     (let latest = fd_latest fd + 1
      in \<lparr>fd_changes = append_bounded EXTERNAL_CHANGE_RETENTION (fd_changes fd) (change_of event now latest),
          fd_latest = latest\<rparr>)"

record change_page =
  pg_events :: "external_change list"
  pg_next_cursor :: int
  pg_latest_cursor :: int
  pg_oldest_cursor :: int
  pg_has_more :: bool
  pg_reset_required :: bool
  pg_retention :: int

definition read_external_changes :: "int \<Rightarrow> int \<Rightarrow> change_feed \<Rightarrow> change_page" where
  "read_external_changes after limit fd =
     (let requested_after = max 0 after;
          requested_limit = max 1 (min limit (int EXTERNAL_CHANGE_RETENTION));
          latest = fd_latest fd;
          oldest = (case fd_changes fd of [] \<Rightarrow> latest + 1 | c # _ \<Rightarrow> chg_cursor c);
          reset = (requested_after > latest \<or> (fd_changes fd \<noteq> [] \<and> requested_after < oldest - 1));
          effective = (if reset then oldest - 1 else requested_after);
          matching = filter (\<lambda>c. chg_cursor c > effective) (fd_changes fd);
          events = take (nat requested_limit) matching
      in \<lparr>pg_events = events,
          pg_next_cursor = (if events = [] then effective else chg_cursor (last events)),
          pg_latest_cursor = latest, pg_oldest_cursor = oldest,
          pg_has_more = (length matching > length events), pg_reset_required = reset,
          pg_retention = int EXTERNAL_CHANGE_RETENTION\<rparr>)"

text \<open>The module as it is loaded by a process, and what the reset for tests restores.\<close>

definition reset_external_change_feed :: change_feed where
  "reset_external_change_feed = \<lparr>fd_changes = [], fd_latest = 0\<rparr>"

subsection \<open>The journal it abstracts\<close>

text \<open>
  \<open>journal_of\<close> is the list of all events a sequence of messages publishes, numbered from one;
  the feed represents a journal when its deque is the last 250 events of it.
\<close>

definition journal_of :: "(pdict \<times> int) list \<Rightarrow> external_change list" where
  "journal_of ms = map (\<lambda>i. change_of (fst (ms ! i)) (snd (ms ! i)) (int i + 1)) [0..<length ms]"

definition feed_of :: "external_change list \<Rightarrow> change_feed" where
  "feed_of js = \<lparr>fd_changes = drop (length js - EXTERNAL_CHANGE_RETENTION) js, fd_latest = int (length js)\<rparr>"

definition publish_all :: "(pdict \<times> int) list \<Rightarrow> change_feed \<Rightarrow> change_feed" where
  "publish_all ms fd = foldl (\<lambda>fd m. publish_external_change (fst m) (snd m) fd) fd ms"

lemma append_bounded_drop:
  "append_bounded n (drop (length js - n) js) x = drop (Suc (length js) - n) (js @ [x])"
proof (cases "length js \<le> n")
  case False
  then have "length js - (length js - n) = n" by simp
  with False show ?thesis
    by (simp add: append_bounded_def Suc_diff_le del: drop_append) (simp add: Suc_diff_le)
qed (simp add: append_bounded_def)

lemma journal_snoc:
  "journal_of (ms @ [m]) = journal_of ms @ [change_of (fst m) (snd m) (int (length ms) + 1)]"
  by (simp add: journal_of_def nth_append)

lemma length_journal [simp]: "length (journal_of ms) = length ms"
  by (simp add: journal_of_def)

lemma change_of_cursor [simp]: "chg_cursor (change_of e t c) = c"
  by (simp add: change_of_def Let_def)

lemma journal_cursor: "i < length ms \<Longrightarrow> chg_cursor (journal_of ms ! i) = int i + 1"
  by (simp add: journal_of_def)

lemma publish_all_feed: "publish_all ms reset_external_change_feed = feed_of (journal_of ms)"
proof (induction ms rule: rev_induct)
  case Nil
  show ?case by (simp add: publish_all_def reset_external_change_feed_def feed_of_def journal_of_def)
next
  case (snoc m ms)
  then show ?case
    by (simp add: publish_all_def publish_external_change_def Let_def feed_of_def journal_snoc
        append_bounded_drop [where js = "journal_of ms", simplified])
qed

text \<open>Cursors above a bound are a suffix of the journal.\<close>

definition numbered :: "external_change list \<Rightarrow> bool" where
  "numbered js \<longleftrightarrow> (\<forall>i < length js. chg_cursor (js ! i) = int i + 1)"

lemma numbered_journal: "numbered (journal_of ms)"
  by (simp add: numbered_def journal_cursor)

lemma filter_increasing:
  assumes "\<forall>i < length xs. f (xs ! i) = (b::int) + int i"
  shows "filter (\<lambda>x. f x > a) xs = drop (nat (a - b + 1)) xs"
  using assms
proof (induction xs arbitrary: b)
  case (Cons x xs)
  have step: "\<forall>i < length xs. f (xs ! i) = (b + 1) + int i"
  proof (intro allI impI)
    fix i assume "i < length xs"
    then show "f (xs ! i) = (b + 1) + int i" using Cons.prems [rule_format, of "Suc i"] by simp
  qed
  have x: "f x = b" using Cons.prems by force
  show ?case
  proof (cases "a < b")
    case True
    then have "nat (a - (b + 1) + 1) = 0" "nat (a - b + 1) = 0" by simp_all
    with Cons.IH [OF step] x True show ?thesis by simp
  next
    case False
    then have "nat (a - b + 1) = Suc (nat (a - (b + 1) + 1))" by simp
    with Cons.IH [OF step] x False show ?thesis by simp
  qed
qed simp

lemma numbered_suffix:
  assumes "numbered js" "int k \<le> a" "k \<le> length js"
  shows "filter (\<lambda>c. chg_cursor c > a) (drop k js) = drop (nat a) js"
proof -
  have "filter (\<lambda>c. chg_cursor c > a) (drop k js) = drop (nat (a - (int k + 1) + 1)) (drop k js)"
    using assms by (intro filter_increasing) (auto simp: numbered_def)
  also have "nat (a - (int k + 1) + 1) + k = nat a" using assms(2) by simp
  then have "drop (nat (a - (int k + 1) + 1)) (drop k js) = drop (nat a) js" by (simp del: int_nat_eq)
  finally show ?thesis .
qed

subsection \<open>Pages\<close>

text \<open>A client is told to reset exactly when its cursor is not one of this journal or an event after it was evicted.\<close>

definition must_reset :: "int \<Rightarrow> nat \<Rightarrow> bool" where
  "must_reset after n \<longleftrightarrow> max 0 after > int n \<or> max 0 after + int EXTERNAL_CHANGE_RETENTION < int n"

definition page_start :: "int \<Rightarrow> nat \<Rightarrow> nat" where
  "page_start after n = (if must_reset after n then n - EXTERNAL_CHANGE_RETENTION else nat after)"

definition page_size :: "int \<Rightarrow> nat" where
  "page_size limit = nat (max 1 (min limit (int EXTERNAL_CHANGE_RETENTION)))"

lemma feed_oldest:
  assumes "numbered js" "js \<noteq> []"
  obtains c cs where "drop (length js - EXTERNAL_CHANGE_RETENTION) js = c # cs"
    "chg_cursor c = int (length js - EXTERNAL_CHANGE_RETENTION) + 1"
proof -
  have lt: "length js - EXTERNAL_CHANGE_RETENTION < length js"
    using assms(2) by (simp add: EXTERNAL_CHANGE_RETENTION_def)
  then obtain c cs where d: "drop (length js - EXTERNAL_CHANGE_RETENTION) js = c # cs"
    by (metis Cons_nth_drop_Suc)
  then have "c = js ! (length js - EXTERNAL_CHANGE_RETENTION)"
    by (metis lt Cons_nth_drop_Suc list.inject)
  with assms(1) lt d that show ?thesis by (auto simp: numbered_def)
qed

lemma page_of_feed:
  assumes "numbered js"
  shows "pg_reset_required (read_external_changes after limit (feed_of js)) = must_reset after (length js)"
    and "pg_events (read_external_changes after limit (feed_of js)) =
           take (page_size limit) (drop (page_start after (length js)) js)"
    and "pg_next_cursor (read_external_changes after limit (feed_of js)) =
           int (min (page_start after (length js) + page_size limit) (length js))"
    and "pg_has_more (read_external_changes after limit (feed_of js)) \<longleftrightarrow>
           page_start after (length js) + page_size limit < length js"
    and "pg_latest_cursor (read_external_changes after limit (feed_of js)) = int (length js)"
proof -
  let ?n = "length js" and ?k = "length js - EXTERNAL_CHANGE_RETENTION"
  let ?p = "read_external_changes after limit (feed_of js)"
  let ?s = "page_start after ?n"
  have size: "0 < page_size limit" by (simp add: page_size_def)
  have s: "?s \<le> ?n" by (auto simp: page_start_def must_reset_def)
  have old: "(case fd_changes (feed_of js) of [] \<Rightarrow> fd_latest (feed_of js) + 1 | c # _ \<Rightarrow> chg_cursor c)
     = int ?k + 1"
  proof (cases "js = []")
    case False
    from feed_oldest [OF assms False] obtain c cs where "drop ?k js = c # cs" "chg_cursor c = int ?k + 1" .
    then show ?thesis by (simp add: feed_of_def)
  qed (simp add: feed_of_def)
  have empty: "fd_changes (feed_of js) \<noteq> [] \<longleftrightarrow> js \<noteq> []"
    by (simp add: feed_of_def EXTERNAL_CHANGE_RETENTION_def) (cases js; simp)
  have reset: "(max 0 after > int ?n \<or> (js \<noteq> [] \<and> max 0 after < int ?k + 1 - 1)) = must_reset after ?n"
    by (cases "js = []") (auto simp: must_reset_def EXTERNAL_CHANGE_RETENTION_def)
  have eff: "(if must_reset after ?n then int ?k + 1 - 1 else max 0 after) = int ?s"
    by (simp add: page_start_def)
  have le: "?k \<le> ?s" by (auto simp: page_start_def must_reset_def)
  have matching: "filter (\<lambda>c. chg_cursor c > int ?s) (drop ?k js) = drop ?s js"
    using numbered_suffix [OF assms, of ?k "int ?s"] le by simp
  note page = read_external_changes_def Let_def old empty reset eff
  have fl: "fd_latest (feed_of js) = int ?n" "fd_changes (feed_of js) = drop ?k js"
    by (simp_all add: feed_of_def)
  have p: "?p = \<lparr>pg_events = take (page_size limit) (drop ?s js),
          pg_next_cursor = (if take (page_size limit) (drop ?s js) = [] then int ?s
            else chg_cursor (last (take (page_size limit) (drop ?s js)))),
          pg_latest_cursor = int ?n, pg_oldest_cursor = int ?k + 1,
          pg_has_more = (length (drop ?s js) > length (take (page_size limit) (drop ?s js))),
          pg_reset_required = must_reset after ?n, pg_retention = int EXTERNAL_CHANGE_RETENTION\<rparr>"
    unfolding read_external_changes_def Let_def old
    by (simp only: fl old [unfolded fl] empty [unfolded fl] reset eff matching page_size_def)
  show "pg_reset_required ?p = must_reset after ?n" by (simp add: p)
  show "pg_events ?p = take (page_size limit) (drop ?s js)" by (simp add: p)
  show "pg_latest_cursor ?p = int ?n" by (simp add: p)
  show "pg_has_more ?p \<longleftrightarrow> ?s + page_size limit < ?n"
    using s by (auto simp: p min_def)
  show "pg_next_cursor ?p = int (min (?s + page_size limit) ?n)"
  proof (cases "?s < ?n")
    case True
    let ?e = "take (page_size limit) (drop ?s js)"
    let ?i = "min (page_size limit) (?n - ?s) - 1"
    have ne: "?e \<noteq> []" using True size by simp
    have "last ?e = ?e ! (length ?e - 1)" using ne by (rule last_conv_nth)
    also have "length ?e - 1 = ?i" by (simp add: min.commute)
    also have "?e ! ?i = js ! (?s + ?i)" using True size by (auto simp: min_def)
    finally have "chg_cursor (last ?e) = int (?s + ?i) + 1"
      using assms True size by (auto simp: numbered_def min_def)
    with ne True size show ?thesis by (simp add: p)
  next
    case False
    with s show ?thesis by (simp add: p)
  qed
qed

subsection \<open>A polling client\<close>

text \<open>
  A client keeps the cursor of its last page and the events it was given; \<open>cl_reset\<close> tells
  whether it was ever told that it lost events.  Messages and polls interleave in any order.
\<close>

datatype feed_action = Publish pdict int | Poll int

record feed_client =
  cl_after :: int
  cl_seen :: "external_change list"
  cl_reset :: bool

definition poll_changes :: "int \<Rightarrow> change_feed \<Rightarrow> feed_client \<Rightarrow> feed_client" where
  "poll_changes limit fd cl =
     (let page = read_external_changes (cl_after cl) limit fd
      in \<lparr>cl_after = pg_next_cursor page, cl_seen = cl_seen cl @ pg_events page,
          cl_reset = (cl_reset cl \<or> pg_reset_required page)\<rparr>)"

fun feed_act :: "change_feed \<times> feed_client \<Rightarrow> feed_action \<Rightarrow> change_feed \<times> feed_client" where
  "feed_act (fd, cl) (Publish e t) = (publish_external_change e t fd, cl)"
| "feed_act (fd, cl) (Poll limit) = (fd, poll_changes limit fd cl)"

definition new_client :: feed_client where
  "new_client = \<lparr>cl_after = 0, cl_seen = [], cl_reset = False\<rparr>"

definition run_feed :: "feed_action list \<Rightarrow> change_feed \<times> feed_client" where
  "run_feed acts = foldl feed_act (reset_external_change_feed, new_client) acts"

fun published :: "feed_action list \<Rightarrow> (pdict \<times> int) list" where
  "published [] = []"
| "published (Publish e t # acts) = (e, t) # published acts"
| "published (Poll limit # acts) = published acts"

lemma published_append [simp]: "published (xs @ ys) = published xs @ published ys"
  by (induction xs rule: published.induct) simp_all

lemma publish_all_snoc [simp]:
  "publish_all (ms @ [m]) fd = publish_external_change (fst m) (snd m) (publish_all ms fd)"
  by (simp add: publish_all_def)

lemma run_feed_fst: "fst (run_feed acts) = feed_of (journal_of (published acts))"
proof -
  have "fst (run_feed acts) = publish_all (published acts) reset_external_change_feed"
  proof (induction acts rule: rev_induct)
    case Nil
    show ?case by (simp add: run_feed_def publish_all_def)
  next
    case (snoc a acts)
    then show ?case
      by (cases a; cases "run_feed acts") (simp_all add: run_feed_def)
  qed
  then show ?thesis by (simp add: publish_all_feed)
qed

text \<open>What a poll gives a client that has read the beginning of the journal.\<close>

definition in_step :: "external_change list \<Rightarrow> feed_client \<Rightarrow> bool" where
  "in_step js cl \<longleftrightarrow>
     0 \<le> cl_after cl \<and> cl_after cl \<le> int (length js)
     \<and> (\<not> cl_reset cl \<longrightarrow> cl_seen cl = take (nat (cl_after cl)) js)"

lemma in_step_poll:
  assumes "numbered js" "in_step js cl"
  shows "in_step js (poll_changes limit (feed_of js) cl)"
proof -
  let ?s = "page_start (cl_after cl) (length js)"
  let ?n = "min (?s + page_size limit) (length js)"
  have "?s \<le> length js" using assms(2) by (auto simp: page_start_def in_step_def)
  moreover have "take ?n js = take ?s js @ take (page_size limit) (drop ?s js)"
    by (metis take_add min.commute take_take take_all_iff length_take order_refl)
  ultimately show ?thesis
    using assms(2)
    by (auto simp: in_step_def poll_changes_def Let_def page_of_feed [OF assms(1)] page_start_def
        nat_int simp del: of_nat_min of_nat_add)
qed

lemma in_step_publish: "in_step js cl \<Longrightarrow> in_step (js @ [j]) cl"
  by (auto simp: in_step_def)

lemma run_feed_in_step: "in_step (journal_of (published acts)) (snd (run_feed acts))"
proof (induction acts rule: rev_induct)
  case Nil
  show ?case by (simp add: run_feed_def new_client_def in_step_def)
next
  case (snoc a acts)
  obtain fd cl where r: "run_feed acts = (fd, cl)" by (cases "run_feed acts")
  have fd: "fd = feed_of (journal_of (published acts))" using run_feed_fst [of acts] r by simp
  from r have "foldl feed_act (reset_external_change_feed, new_client) acts = (fd, cl)"
    by (simp add: run_feed_def)
  with snoc r show ?case
    by (cases a) (simp_all add: run_feed_def journal_snoc in_step_publish fd in_step_poll numbered_journal)
qed

subsection \<open>Properties\<close>

text \<open>
  Whatever messages were published since the process started, a page holds the events
  of the full journal that follow the client's cursor, at most the clamped limit of them; it asks
  for a reset exactly when the cursor is not of this journal or an event after it has left the
  250 retained ones, and then starts at the oldest retained event; it has more exactly when
  events are left beyond it.
\<close>

theorem page_refines_journal:
  fixes ms :: "(pdict \<times> int) list" and after limit :: int
  defines "fd \<equiv> publish_all ms reset_external_change_feed"
    and "start \<equiv> page_start after (length ms)"
  shows "pg_events (read_external_changes after limit fd) = take (page_size limit) (drop start (journal_of ms))
     \<and> pg_next_cursor (read_external_changes after limit fd) = int (min (start + page_size limit) (length ms))
     \<and> pg_reset_required (read_external_changes after limit fd) = must_reset after (length ms)
     \<and> pg_has_more (read_external_changes after limit fd) = (start + page_size limit < length ms)
     \<and> pg_latest_cursor (read_external_changes after limit fd) = int (length ms)
     \<and> length (fd_changes fd) = min (length ms) EXTERNAL_CHANGE_RETENTION"
proof -
  have fd: "fd = feed_of (journal_of ms)" unfolding fd_def by (rule publish_all_feed)
  show ?thesis
    unfolding fd start_def using page_of_feed [OF numbered_journal [of ms]]
    by (simp add: feed_of_def)
qed

text \<open>
  C12: However messages and polls with any limits interleave, a client that was never told
  to reset has been given exactly the first events of the journal up to its cursor: none missed,
  none twice, none out of order.  When its last page had no more, it has all of them.
\<close>

theorem client_misses_nothing:
  assumes "\<not> cl_reset (snd (run_feed acts))"
  shows "cl_seen (snd (run_feed acts)) = take (nat (cl_after (snd (run_feed acts)))) (journal_of (published acts))
    \<and> (\<not> pg_has_more (read_external_changes (cl_after (snd (run_feed acts))) limit (fst (run_feed acts)))
      \<and> \<not> pg_reset_required (read_external_changes (cl_after (snd (run_feed acts))) limit (fst (run_feed acts)))
      \<longrightarrow> cl_seen (snd (run_feed (acts @ [Poll limit]))) = journal_of (published acts))"
proof (intro conjI impI)
  let ?js = "journal_of (published acts)" and ?cl = "snd (run_feed acts)"
  have st: "in_step ?js ?cl" by (rule run_feed_in_step)
  then show seen: "cl_seen ?cl = take (nat (cl_after ?cl)) ?js"
    using assms by (simp add: in_step_def)
  assume last: "\<not> pg_has_more (read_external_changes (cl_after ?cl) limit (fst (run_feed acts)))
      \<and> \<not> pg_reset_required (read_external_changes (cl_after ?cl) limit (fst (run_feed acts)))"
  note pages = page_of_feed [OF numbered_journal [of "published acts"]]
  have start: "page_start (cl_after ?cl) (length (published acts)) = nat (cl_after ?cl)"
    using last by (simp add: run_feed_fst pages page_start_def)
  have le: "length (published acts) - nat (cl_after ?cl) \<le> page_size limit"
    using last start by (simp add: run_feed_fst pages) arith
  obtain fd cl where r: "run_feed acts = (fd, cl)" by (cases "run_feed acts")
  then have fd: "fd = feed_of ?js" using run_feed_fst [of acts] by simp
  from r have "foldl feed_act (reset_external_change_feed, new_client) acts = (fd, cl)"
    by (simp add: run_feed_def)
  then have "cl_seen (snd (run_feed (acts @ [Poll limit]))) = cl_seen ?cl @ drop (nat (cl_after ?cl)) ?js"
    using last start le r by (simp add: run_feed_def poll_changes_def Let_def fd pages)
  with seen show "cl_seen (snd (run_feed (acts @ [Poll limit]))) = ?js" by simp
qed

text \<open>
  The cursors of a process start at one again, and a page carries no mark of the process: a client
  whose cursor the new process has already reached is not told to reset, and never sees the
  first events of the new process.
\<close>

lemma restart_hides_events:
  assumes "0 < after" "nat after \<le> length ms" "length ms \<le> EXTERNAL_CHANGE_RETENTION"
  shows "\<not> pg_reset_required (read_external_changes after limit (publish_all ms reset_external_change_feed))"
    and "\<forall>c \<in> set (pg_events (read_external_changes after limit (publish_all ms reset_external_change_feed))).
           after < chg_cursor c"
proof -
  note pages = page_of_feed [OF numbered_journal [of ms], of after limit]
  show reset: "\<not> pg_reset_required (read_external_changes after limit (publish_all ms reset_external_change_feed))"
    using assms by (simp add: publish_all_feed pages must_reset_def)
  show "\<forall>c \<in> set (pg_events (read_external_changes after limit (publish_all ms reset_external_change_feed))).
           after < chg_cursor c"
  proof
    fix c assume "c \<in> set (pg_events (read_external_changes after limit (publish_all ms reset_external_change_feed)))"
    then have "c \<in> set (drop (nat after) (journal_of ms))"
      using reset by (auto simp: publish_all_feed pages page_start_def dest: in_set_takeD)
    then obtain i where "i < length ms - nat after" "c = journal_of ms ! (nat after + i)"
      by (auto simp: in_set_conv_nth)
    then show "after < chg_cursor c" using assms(1) by (simp add: journal_cursor)
  qed
qed

subsection \<open>Witnesses\<close>

definition scan_message :: pdict where
  "scan_message = [(''MessageType'', PStr ''RefreshProgress''), (''server_id'', PStr '' s1 '')]"

lemmas witness_defs = run_feed_def new_client_def reset_external_change_feed_def
  publish_external_change_def poll_changes_def read_external_changes_def Let_def append_bounded_def
  EXTERNAL_CHANGE_RETENTION_def

lemma client_misses_nothing_witness:
  "\<not> cl_reset (snd (run_feed [Publish scan_message 0, Poll 1, Publish scan_message 5, Poll 9]))
   \<and> cl_seen (snd (run_feed [Publish scan_message 0, Poll 1, Publish scan_message 5, Poll 9, Poll 9]))
       = journal_of [(scan_message, 0), (scan_message, 5)]"
proof -
  have r: "\<not> cl_reset (snd (run_feed [Publish scan_message 0, Poll 1, Publish scan_message 5, Poll 9]))"
    by (simp add: witness_defs)
  have l: "\<not> pg_has_more (read_external_changes
              (cl_after (snd (run_feed [Publish scan_message 0, Poll 1, Publish scan_message 5, Poll 9]))) 9
              (fst (run_feed [Publish scan_message 0, Poll 1, Publish scan_message 5, Poll 9])))
      \<and> \<not> pg_reset_required (read_external_changes
              (cl_after (snd (run_feed [Publish scan_message 0, Poll 1, Publish scan_message 5, Poll 9]))) 9
              (fst (run_feed [Publish scan_message 0, Poll 1, Publish scan_message 5, Poll 9])))"
    by (simp add: witness_defs)
  show ?thesis using client_misses_nothing [OF r] l r by auto
qed

end
