(* ===== verification/Text_Limits.thy ===== *)
theory Text_Limits
  imports Py_Values
begin

text \<open>
  The text limits every storage operation applies to its inputs before they reach a bounded SQL
  column: \<open>core/storage/field_limits.py\<close>, \<open>core/persisted_text.py\<close> and the identifier pattern of
  \<open>core/emby_identifiers.py\<close>.  Identities are validated (an unacceptable one raises), descriptions
  are projected (shortened, their NUL characters dropped).
\<close>

definition require_bounded_text :: "py \<Rightarrow> string \<Rightarrow> nat \<Rightarrow> bool \<Rightarrow> exn + string" where
  "require_bounded_text value field max_length allow_empty =
     (let normalized = strip (text_or_empty value)
      in if normalized = [] \<and> \<not> allow_empty then Inl (ValueError (field @ '' is required''))
         else if CHR 0x00 \<in> set normalized then Inl (ValueError (field @ '' contains a NUL character''))
         else if length normalized > max_length
         then Inl (ValueError (field @ '' exceeds '' @ str_nat max_length @ '' characters''))
         else Inr normalized)"

definition ascii_alnum :: "char \<Rightarrow> bool" where
  "ascii_alnum c =
     (let n = code c in (48 \<le> n \<and> n \<le> 57) \<or> (65 \<le> n \<and> n \<le> 90) \<or> (97 \<le> n \<and> n \<le> 122))"

text \<open>The pattern \<open>[A-Za-z0-9][A-Za-z0-9._~-]{0,127}\<close>, matched against the whole text.\<close>

definition emby_identifier_pattern :: "string \<Rightarrow> bool" where
  "emby_identifier_pattern s \<longleftrightarrow>
     s \<noteq> [] \<and> length s \<le> 128 \<and> ascii_alnum (hd s)
     \<and> list_all (\<lambda>c. ascii_alnum c \<or> c \<in> set ''._~-'') (tl s)"

definition normalize_emby_identifier :: "py \<Rightarrow> string option" where
  "normalize_emby_identifier v =
     (case v of
        PStr s \<Rightarrow> if emby_identifier_pattern (strip s) then Some (strip s) else None
      | _ \<Rightarrow> None)"

definition require_emby_identifier :: "py \<Rightarrow> string \<Rightarrow> exn + string" where
  "require_emby_identifier value field =
     result_bind (require_bounded_text value field 128 False) (\<lambda>normalized_input.
       if normalize_emby_identifier (PStr normalized_input) \<noteq> Some normalized_input
       then Inl (ValueError (field @ '' is not a valid Emby identifier''))
       else Inr normalized_input)"

definition optional_emby_identifier :: "py \<Rightarrow> string \<Rightarrow> exn + string option" where
  "optional_emby_identifier value field =
     (if value = PNone \<or> value = PStr [] then Inr None
      else result_bind (require_emby_identifier value field) (\<lambda>s. Inr (Some s)))"

definition project_persisted_text :: "py \<Rightarrow> nat option \<Rightarrow> bool \<Rightarrow> string option" where
  "project_persisted_text value max_length empty_as_none =
     (if value = PNone then None
      else let projected = filter (\<lambda>c. c \<noteq> CHR 0x00) (py_str value);
               bounded = (case max_length of None \<Rightarrow> projected | Some n \<Rightarrow> take n projected)
           in if bounded = [] \<and> empty_as_none then None else Some bounded)"

definition require_persisted_text :: "py \<Rightarrow> string \<Rightarrow> exn + string" where
  "require_persisted_text value field =
     (let normalized = strip (text_or_empty value)
      in if normalized = [] then Inl (ValueError (field @ '' is required''))
         else if CHR 0x00 \<in> set normalized then Inl (ValueError (field @ '' contains a NUL character''))
         else Inr normalized)"

text \<open>A nullable text column as a value.\<close>

definition opt_text :: "string option \<Rightarrow> py" where
  "opt_text v = (case v of None \<Rightarrow> PNone | Some s \<Rightarrow> PStr s)"

lemma opt_text_simps [simp]: "opt_text None = PNone" "opt_text (Some s) = PStr s"
  by (simp_all add: opt_text_def)

subsection \<open>What a validated text satisfies\<close>

lemma dropWhile_idem: "dropWhile P (dropWhile P xs) = dropWhile P xs"
  by (induction xs) auto

lemma require_bounded_text_Inr:
  "require_bounded_text v field n False = Inr s \<Longrightarrow>
     s = strip (text_or_empty v) \<and> s \<noteq> [] \<and> CHR 0x00 \<notin> set s \<and> length s \<le> n"
  by (auto simp: require_bounded_text_def Let_def split: if_splits)

lemma require_bounded_text_again:
  assumes "require_bounded_text v field n False = Inr s"
  shows "require_bounded_text (PStr s) field n False = Inr s"
proof -
  have "s = strip (text_or_empty v)" "s \<noteq> []" "CHR 0x00 \<notin> set s" "length s \<le> n"
    using require_bounded_text_Inr [OF assms] by blast+
  moreover from this(1) have "strip s = s" by simp
  ultimately show ?thesis by (simp add: require_bounded_text_def Let_def)
qed

lemma require_emby_identifier_iff:
  "require_emby_identifier v field = Inr s \<longleftrightarrow>
     require_bounded_text v field 128 False = Inr s \<and> normalize_emby_identifier (PStr s) = Some s"
  by (auto simp: require_emby_identifier_def result_bind_Inr_iff split: if_splits)

lemma require_emby_identifier_Inr:
  assumes "require_emby_identifier v field = Inr s"
  shows "s = strip (text_or_empty v)" and "emby_identifier_pattern s"
proof -
  from assms have b: "require_bounded_text v field 128 False = Inr s"
    and n: "normalize_emby_identifier (PStr s) = Some s"
    by (simp_all add: require_emby_identifier_iff)
  show "s = strip (text_or_empty v)" using require_bounded_text_Inr [OF b] by simp
  show "emby_identifier_pattern s"
    using n by (simp add: normalize_emby_identifier_def split: if_splits)
qed

lemma require_emby_identifier_again:
  "require_emby_identifier v field = Inr s \<Longrightarrow> require_emby_identifier (PStr s) field = Inr s"
  by (auto simp: require_emby_identifier_iff intro: require_bounded_text_again)

lemma optional_emby_identifier_again:
  assumes "optional_emby_identifier v field = Inr m"
  shows "optional_emby_identifier (opt_text m) field = Inr m"
proof (cases m)
  case (Some s)
  with assms have r: "require_emby_identifier v field = Inr s"
    by (auto simp: optional_emby_identifier_def result_bind_Inr_iff split: if_splits)
  then have "s \<noteq> []" using require_emby_identifier_Inr(2) by (auto simp: emby_identifier_pattern_def)
  with Some r show ?thesis
    by (simp add: optional_emby_identifier_def require_emby_identifier_again)
qed (simp add: optional_emby_identifier_def)

end
