(* ===== verification/Probe_Store.thy ===== *)
theory Probe_Store
  imports Text_Limits
begin

text \<open>
  The Probe tables of \<open>core/storage/storage_probe.py\<close>: rows, their normalisation and filters, the
  blacklist and the history.  A table is the list of its rows in the order they were inserted, with
  the next value of its id sequence; each method is one transaction, so one step, and an
  exception leaves the tables as they were (rollback).  Failures of the database itself are not
  modelled, and integer columns are taken to hold what is written to them.  Instants are
  microseconds; \<open>stamp\<close> is the text the driver's timestamp has as \<open>isoformat()\<close>.  Where the code
  branches on the SQL dialect the model is PostgreSQL, the production backend: its unique index
  treats two missing media source ids as equal.
\<close>

subsection \<open>Rows\<close>

record probe_entry =
  qe_id :: int
  qe_server_id :: string
  qe_item_id :: string
  qe_scope :: "string option"
  qe_media_source_id :: "string option"
  qe_columns :: pdict
  qe_added_at :: int
  qe_claim_token :: "string option"
  qe_claimed_at :: "int option"

record black_entry =
  be_id :: int
  be_server_id :: string
  be_item_id :: string
  be_scope :: "string option"
  be_media_source_id :: "string option"
  be_library_id :: "string option"
  be_library_name :: "string option"
  be_item_name :: string
  be_reason :: string
  be_retry_count :: int
  be_error_type :: "string option"
  be_failed_at :: int

record history_entry =
  he_id :: int
  he_server_id :: string
  he_item_id :: string
  he_scope :: "string option"
  he_media_source_id :: "string option"
  he_name :: "string option"
  he_library_name :: "string option"
  he_processed_at :: int
  he_status :: "string option"
  he_error_details :: "string option"
  he_duration_ms :: py

record probe_db =
  pd_queue :: "probe_entry list"
  pd_next_queue :: int
  pd_black :: "black_entry list"
  pd_next_black :: int
  pd_history :: "history_entry list"
  pd_next_history :: int

text \<open>What a row is about; in the three tables the same four columns.\<close>

record probe_identity =
  pi_server :: string
  pi_item :: string
  pi_scope :: "string option"
  pi_media :: "string option"

definition queue_identity :: "probe_entry \<Rightarrow> probe_identity" where
  "queue_identity e = \<lparr>pi_server = qe_server_id e, pi_item = qe_item_id e, pi_scope = qe_scope e,
     pi_media = qe_media_source_id e\<rparr>"

definition black_identity :: "black_entry \<Rightarrow> probe_identity" where
  "black_identity e = \<lparr>pi_server = be_server_id e, pi_item = be_item_id e, pi_scope = be_scope e,
     pi_media = be_media_source_id e\<rparr>"

definition history_identity :: "history_entry \<Rightarrow> probe_identity" where
  "history_identity e = \<lparr>pi_server = he_server_id e, pi_item = he_item_id e, pi_scope = he_scope e,
     pi_media = he_media_source_id e\<rparr>"

definition seconds_span :: "int \<Rightarrow> int" where
  "seconds_span n = n * 1000000"

definition PROBE_HISTORY_RETENTION :: int where
  "PROBE_HISTORY_RETENTION = seconds_span (90 * 86400)"

definition PROBE_QUEUE_LEASE_SECONDS :: int where
  "PROBE_QUEUE_LEASE_SECONDS = 300"

subsection \<open>Scopes, sources and filters\<close>

text \<open>A scope a caller passes as \<open>Optional[str]\<close>, and one read from a dictionary, where another
  type has no \<open>strip\<close>.\<close>

definition normalize_probe_scope :: "string option \<Rightarrow> string" where
  "normalize_probe_scope scope =
     (let v = lower (strip (case scope of None \<Rightarrow> [] | Some s \<Rightarrow> s))
      in if v = ''recent'' \<or> v = ''libraries'' then v else ''libraries'')"

definition scope_value :: "py \<Rightarrow> exn + string option" where
  "scope_value v =
     (if \<not> truthy v then Inr None
      else case v of PStr s \<Rightarrow> Inr (Some s)
         | _ \<Rightarrow> Inl (AttributeError ''object has no attribute strip''))"

definition scope_filter :: "string option \<Rightarrow> string option \<Rightarrow> bool" where
  "scope_filter scope row_scope =
     (if scope = None \<or> scope = Some [] then True
      else let normalized = normalize_probe_scope scope
           in if normalized = ''libraries'' then row_scope = Some normalized \<or> row_scope = None
              else row_scope = Some normalized)"

definition normalize_probe_media_source_id :: "py \<Rightarrow> exn + string option" where
  "normalize_probe_media_source_id v = optional_emby_identifier v ''media_source_id''"

definition normalize_probe_server_id :: "py \<Rightarrow> exn + string" where
  "normalize_probe_server_id v = require_bounded_text v ''server_id'' 36 False"

definition media_filter :: "string option \<Rightarrow> string option \<Rightarrow> bool" where
  "media_filter normalized row_media =
     (case normalized of
        None \<Rightarrow> row_media = None \<or> row_media = Some []
      | Some m \<Rightarrow> row_media = Some m)"

text \<open>The rows of one item, in the scope and of the media source that are asked for.\<close>

definition row_matches :: "string \<Rightarrow> string \<Rightarrow> string option \<Rightarrow> string option \<Rightarrow> probe_identity \<Rightarrow> bool" where
  "row_matches server_id item_id scope media r \<longleftrightarrow>
     pi_server r = server_id \<and> pi_item r = item_id \<and> scope_filter scope (pi_scope r)
     \<and> media_filter media (pi_media r)"

definition project_probe_text :: "py \<Rightarrow> nat option \<Rightarrow> string option" where
  "project_probe_text v max_length = project_persisted_text v max_length True"

definition text_else :: "string option \<Rightarrow> string \<Rightarrow> string" where
  "text_else v d = (case v of None \<Rightarrow> d | Some s \<Rightarrow> if s = [] then d else s)"

subsection \<open>Normalisation of inputs\<close>

definition unknown_name :: py where
  "unknown_name = PStr ''Sconosciuto''"

definition normalize_probe_history_data :: "pdict \<Rightarrow> exn + pdict" where
  "normalize_probe_history_data data =
     result_bind (normalize_probe_server_id (pget data ''server_id'')) (\<lambda>server.
     let d1 = dset ''server_id'' (PStr server) data in
     result_bind (require_emby_identifier (pget d1 ''item_id'') ''item_id'') (\<lambda>item.
     let d2 = dset ''item_id'' (PStr item) d1 in
     result_bind (normalize_probe_media_source_id (pget d2 ''media_source_id'')) (\<lambda>media.
     let d3 = dset ''media_source_id'' (opt_text media) d2;
         d4 = dset ''name'' (opt_text (project_probe_text (py_or (pget d3 ''name'') unknown_name) (Some 500))) d3;
         d5 = dset ''library_name'' (opt_text (project_probe_text (pget d4 ''library_name'') (Some 500))) d4;
         d6 = dset ''status'' (opt_text (project_probe_text (py_or (pget d5 ''status'') (PStr ''UNKNOWN'')) (Some 20))) d5;
         d7 = dset ''error_details'' (opt_text (project_probe_text (pget d6 ''error_details'') None)) d6
     in Inr d7)))"

definition normalize_queue_item :: "pdict \<Rightarrow> exn + pdict" where
  "normalize_queue_item data =
     result_bind (normalize_probe_server_id (pget data ''server_id'')) (\<lambda>server.
     let d1 = dset ''server_id'' (PStr server) data in
     result_bind (require_emby_identifier (pget d1 ''item_id'') ''item_id'') (\<lambda>item.
     let d2 = dset ''item_id'' (PStr item) d1 in
     result_bind (normalize_probe_media_source_id (pget d2 ''media_source_id'')) (\<lambda>media.
     let d3 = dset ''media_source_id'' (opt_text media) d2 in
     result_bind (optional_emby_identifier (pget d3 ''library_id'') ''library_id'') (\<lambda>library.
     let d4 = dset ''library_id'' (opt_text library) d3;
         d5 = dset ''library_name'' (opt_text (project_probe_text (pget d4 ''library_name'') (Some 500))) d4;
         d6 = dset ''name'' (opt_text (project_probe_text (py_or (pget d5 ''name'') unknown_name) (Some 500))) d5;
         d7 = dset ''title'' (opt_text (project_probe_text (pget d6 ''title'') (Some 500))) d6;
         d8 = dset ''series_name'' (opt_text (project_probe_text (pget d7 ''series_name'') (Some 500))) d7 in
     result_bind (optional_emby_identifier (pget d8 ''series_id'') ''series_id'') (\<lambda>series.
     let d9 = dset ''series_id'' (opt_text series) d8;
         d10 = dset ''media_type'' (opt_text (project_probe_text (pget d9 ''media_type'') (Some 50))) d9;
         d11 = dset ''path'' (opt_text (project_probe_text (pget d10 ''path'') None)) d10
     in Inr d11)))))"

fun normalize_probe_queue_items :: "py list \<Rightarrow> exn + pdict list" where
  "normalize_probe_queue_items [] = Inr []"
| "normalize_probe_queue_items (x # xs) =
     (case x of
        PDict d \<Rightarrow>
          if \<not> truthy (pget d ''server_id'') \<or> \<not> truthy (pget d ''item_id'')
          then normalize_probe_queue_items xs
          else result_bind (normalize_queue_item d) (\<lambda>item.
                 result_bind (normalize_probe_queue_items xs) (\<lambda>items. Inr (item # items)))
      | _ \<Rightarrow> normalize_probe_queue_items xs)"

text \<open>The row as the dictionary callers work with.\<close>

definition probe_queue_payload :: "(int \<Rightarrow> string) \<Rightarrow> probe_entry \<Rightarrow> pdict" where
  "probe_queue_payload stamp e =
     (let col = (\<lambda>k. (k, pget (qe_columns e) k))
      in [(''id'', PInt (qe_id e)), (''server_id'', PStr (qe_server_id e)),
          (''item_id'', PStr (qe_item_id e)), (''scope'', opt_text (qe_scope e)),
          (''media_source_id'', opt_text (qe_media_source_id e)),
          col ''library_id'', col ''library_name'', col ''name'', col ''title'', col ''series_name'',
          col ''series_id'',
          (''series_year_resolved'', PBool (truthy (pget (qe_columns e) ''series_year_resolved''))),
          col ''season_number'', col ''episode_number'', col ''year'', col ''media_type'', col ''path'',
          (''added_at'', PStr (stamp (qe_added_at e))),
          (''claim_token'', opt_text (qe_claim_token e)),
          (''claimed_at'', case qe_claimed_at e of None \<Rightarrow> PNone | Some t \<Rightarrow> PStr (stamp t))])"

subsection \<open>The blacklist\<close>

text \<open>
  \<open>_update_probe_blacklist_in_session\<close>: an \<open>INSERT ... ON CONFLICT DO UPDATE\<close> on the identity.  An
  error type is only replaced by one that is given.
\<close>

definition blacklist_upsert :: "black_entry \<Rightarrow> bool \<Rightarrow> probe_db \<Rightarrow> int \<times> probe_db" where
  "blacklist_upsert e increment db =
     (case filter (\<lambda>b. black_identity b = black_identity e) (pd_black db) of
        [] \<Rightarrow>
          (be_retry_count e,
           db\<lparr>pd_black := pd_black db @ [e\<lparr>be_id := pd_next_black db\<rparr>], pd_next_black := pd_next_black db + 1\<rparr>)
      | old # _ \<Rightarrow>
          (let count = (if increment then be_retry_count old + 1 else be_retry_count old)
           in (count,
               db\<lparr>pd_black := update_first (\<lambda>b. black_identity b = black_identity e)
                    (\<lambda>b. e\<lparr>be_id := be_id b, be_retry_count := count,
                           be_error_type := (case be_error_type e of None \<Rightarrow> be_error_type b | Some t \<Rightarrow> Some t)\<rparr>)
                    (pd_black db),
                  pd_next_black := pd_next_black db + 1\<rparr>)))"

record blacklist_update =
  bu_server_id :: py
  bu_item_id :: py
  bu_name :: py
  bu_reason :: py
  bu_media_source_id :: py
  bu_increment_retry :: bool
  bu_error_type :: py
  bu_scope :: "string option"
  bu_library_id :: py
  bu_library_name :: py

definition update_blacklist_in_session :: "blacklist_update \<Rightarrow> int \<Rightarrow> probe_db \<Rightarrow> exn + int \<times> probe_db" where
  "update_blacklist_in_session u now db =
     result_bind (normalize_probe_server_id (bu_server_id u)) (\<lambda>server.
     result_bind (require_emby_identifier (bu_item_id u) ''item_id'') (\<lambda>item.
     result_bind (normalize_probe_media_source_id (bu_media_source_id u)) (\<lambda>media.
     result_bind (optional_emby_identifier (bu_library_id u) ''library_id'') (\<lambda>library.
     Inr (blacklist_upsert
       \<lparr>be_id = 0, be_server_id = server, be_item_id = item,
        be_scope = Some (normalize_probe_scope (bu_scope u)), be_media_source_id = media,
        be_library_id = library,
        be_library_name = project_probe_text (bu_library_name u) (Some 500),
        be_item_name = text_else (project_probe_text (py_or (bu_name u) unknown_name) (Some 500)) ''Sconosciuto'',
        be_reason = text_else (project_probe_text (bu_reason u) None) ''Errore probe'',
        be_retry_count = (if bu_increment_retry u then 1 else 0),
        be_error_type = project_probe_text (bu_error_type u) (Some 20),
        be_failed_at = now\<rparr>
       (bu_increment_retry u) db)))))"

text \<open>The public method normalises its arguments first, then the shared part does it again.\<close>

definition update_probe_blacklist :: "blacklist_update \<Rightarrow> int \<Rightarrow> probe_db \<Rightarrow> exn + int \<times> probe_db" where
  "update_probe_blacklist u now db =
     result_bind (normalize_probe_server_id (bu_server_id u)) (\<lambda>server.
     result_bind (require_emby_identifier (bu_item_id u) ''item_id'') (\<lambda>item.
     result_bind (normalize_probe_media_source_id (bu_media_source_id u)) (\<lambda>media.
     result_bind (optional_emby_identifier (bu_library_id u) ''library_id'') (\<lambda>library.
     update_blacklist_in_session
       \<lparr>bu_server_id = PStr server, bu_item_id = PStr item,
        bu_name = PStr (text_else (project_probe_text (py_or (bu_name u) unknown_name) (Some 500)) ''Sconosciuto''),
        bu_reason = PStr (text_else (project_probe_text (bu_reason u) None) ''Errore probe''),
        bu_media_source_id = opt_text media, bu_increment_retry = bu_increment_retry u,
        bu_error_type = opt_text (project_probe_text (bu_error_type u) (Some 20)),
        bu_scope = bu_scope u, bu_library_id = opt_text library,
        bu_library_name = opt_text (project_probe_text (bu_library_name u) (Some 500))\<rparr> now db))))"

definition drop_black :: "(black_entry \<Rightarrow> bool) \<Rightarrow> probe_db \<Rightarrow> probe_db" where
  "drop_black P db = db\<lparr>pd_black := filter (\<lambda>b. \<not> P b) (pd_black db)\<rparr>"

definition remove_from_probe_blacklist ::
  "string \<Rightarrow> string \<Rightarrow> py \<Rightarrow> string option \<Rightarrow> probe_db \<Rightarrow> exn + probe_db" where
  "remove_from_probe_blacklist server_id item_id media scope db =
     result_bind (normalize_probe_media_source_id media) (\<lambda>m.
       Inr (drop_black (\<lambda>b. row_matches server_id item_id (Some (normalize_probe_scope scope)) m (black_identity b)) db))"

text \<open>An entry without an error type is classified by its reason.\<close>

definition inferred_error_type :: "black_entry \<Rightarrow> string" where
  "inferred_error_type e =
     (let t = (case be_error_type e of None \<Rightarrow> [] | Some t \<Rightarrow> t)
      in if t \<noteq> [] then t
         else if contains_any [''mediainfo'', ''metadati'', ''metadata''] (lower (be_reason e))
         then ''INCOMPLETE'' else ''ERROR'')"

text \<open>\<open>error_type.upper()\<close>: what \<open>upper\<close> does to a text is a parameter (\<open>upper\<close>).\<close>

definition clear_probe_blacklist ::
  "(string \<Rightarrow> string) \<Rightarrow> string \<Rightarrow> string option \<Rightarrow> string option \<Rightarrow> probe_db \<Rightarrow> probe_db" where
  "clear_probe_blacklist upper server_id error_type scope db =
     (let selected = (\<lambda>b. be_server_id b = server_id \<and> scope_filter scope (be_scope b))
      in case error_type of
           None \<Rightarrow> drop_black selected db
         | Some t \<Rightarrow>
             if t = [] then drop_black selected db
             else drop_black (\<lambda>b. selected b \<and> inferred_error_type b = upper t) db)"

definition load_probe_blacklist ::
  "(int \<Rightarrow> py) \<Rightarrow> string \<Rightarrow> string option \<Rightarrow> probe_db \<Rightarrow> (string, pdict) dict" where
  "load_probe_blacklist failed_at server_id scope db =
     foldl (\<lambda>d e. dset (be_item_id e @ '':'' @ (case be_media_source_id e of None \<Rightarrow> [] | Some m \<Rightarrow> m))
         [(''item_id'', PStr (be_item_id e)), (''media_source_id'', opt_text (be_media_source_id e)),
          (''library_id'', opt_text (be_library_id e)), (''library_name'', opt_text (be_library_name e)),
          (''item_name'', PStr (be_item_name e)), (''failed_at'', failed_at (be_failed_at e)),
          (''reason'', PStr (be_reason e)), (''retry_count'', PInt (be_retry_count e)),
          (''error_type'', PStr (text_else (be_error_type e) ''ERROR''))] d)
       [] (filter (\<lambda>e. be_server_id e = server_id \<and> scope_filter scope (be_scope e)) (pd_black db))"

subsection \<open>The history\<close>

definition prune_history :: "int \<Rightarrow> probe_db \<Rightarrow> probe_db" where
  "prune_history now db =
     db\<lparr>pd_history := filter (\<lambda>h. \<not> he_processed_at h < now - PROBE_HISTORY_RETENTION) (pd_history db)\<rparr>"

definition append_history :: "pdict \<Rightarrow> int \<Rightarrow> probe_db \<Rightarrow> exn + probe_db" where
  "append_history data now db =
     result_bind (scope_value (pget data ''scope'')) (\<lambda>scope.
     result_bind (normalize_probe_media_source_id (pget data ''media_source_id'')) (\<lambda>media.
     let text_of = (\<lambda>v. case v of PStr s \<Rightarrow> Some s | _ \<Rightarrow> None) in
     Inr (prune_history now
       (db\<lparr>pd_history := pd_history db @
            [\<lparr>he_id = pd_next_history db, he_server_id = py_str (pget data ''server_id''),
              he_item_id = py_str (pget data ''item_id''),
              he_scope = Some (normalize_probe_scope scope), he_media_source_id = media,
              he_name = text_of (pget data ''name''), he_library_name = text_of (pget data ''library_name''),
              he_processed_at = now, he_status = text_of (pget data ''status''),
              he_error_details = text_of (pget data ''error_details''),
              he_duration_ms = pget data ''duration_ms''\<rparr>],
           pd_next_history := pd_next_history db + 1\<rparr>))))"

definition add_probe_history :: "pdict \<Rightarrow> int \<Rightarrow> probe_db \<Rightarrow> exn + probe_db" where
  "add_probe_history data now db =
     result_bind (normalize_probe_history_data data) (\<lambda>d. append_history d now db)"

definition drop_history :: "(history_entry \<Rightarrow> bool) \<Rightarrow> probe_db \<Rightarrow> probe_db" where
  "drop_history P db = db\<lparr>pd_history := filter (\<lambda>h. \<not> P h) (pd_history db)\<rparr>"

definition remove_from_probe_history ::
  "string \<Rightarrow> string \<Rightarrow> py \<Rightarrow> string option \<Rightarrow> probe_db \<Rightarrow> exn + probe_db" where
  "remove_from_probe_history server_id item_id media scope db =
     result_bind (normalize_probe_media_source_id media) (\<lambda>m.
       Inr (drop_history (\<lambda>h. row_matches server_id item_id scope m (history_identity h)) db))"

definition clear_probe_history :: "string \<Rightarrow> string option \<Rightarrow> probe_db \<Rightarrow> probe_db" where
  "clear_probe_history server_id scope db =
     drop_history (\<lambda>h. he_server_id h = server_id \<and> scope_filter scope (he_scope h)) db"

text \<open>One page of the history: by id below a cursor, or newest first from an offset.\<close>

definition get_probe_history ::
  "string option \<Rightarrow> nat \<Rightarrow> string option \<Rightarrow> nat \<Rightarrow> int option \<Rightarrow> probe_db \<Rightarrow> history_entry list" where
  "get_probe_history server_id limit scope offset cursor_id db =
     (let rows = filter (\<lambda>h. (case server_id of None \<Rightarrow> True | Some s \<Rightarrow> s = [] \<or> he_server_id h = s)
                   \<and> scope_filter scope (he_scope h)) (pd_history db)
      in case cursor_id of
           Some c \<Rightarrow> take limit (sort_desc he_id (if c > 0 then filter (\<lambda>h. he_id h < c) rows else rows))
         | None \<Rightarrow> take limit (drop offset (sort_desc he_processed_at (sort_desc he_id rows))))"

subsection \<open>Facts\<close>

lemma normalize_probe_scope_cases: "normalize_probe_scope s = ''recent'' \<or> normalize_probe_scope s = ''libraries''"
  by (simp add: normalize_probe_scope_def Let_def)

lemma blacklist_upsert_frame [simp]:
  "pd_queue (snd (blacklist_upsert e inc db)) = pd_queue db"
  "pd_next_queue (snd (blacklist_upsert e inc db)) = pd_next_queue db"
  "pd_history (snd (blacklist_upsert e inc db)) = pd_history db"
  "pd_next_history (snd (blacklist_upsert e inc db)) = pd_next_history db"
  by (auto simp: blacklist_upsert_def Let_def split: list.splits)

lemma drop_black_frame [simp]:
  "pd_queue (drop_black P db) = pd_queue db" "pd_next_queue (drop_black P db) = pd_next_queue db"
  "pd_history (drop_black P db) = pd_history db" "pd_black (drop_black P db) = filter (\<lambda>b. \<not> P b) (pd_black db)"
  by (simp_all add: drop_black_def)

lemma drop_history_frame [simp]:
  "pd_queue (drop_history P db) = pd_queue db" "pd_next_queue (drop_history P db) = pd_next_queue db"
  "pd_black (drop_history P db) = pd_black db"
  "pd_history (drop_history P db) = filter (\<lambda>h. \<not> P h) (pd_history db)"
  by (simp_all add: drop_history_def)

lemma append_history_frame:
  assumes "append_history data now db = Inr db'"
  shows "pd_queue db' = pd_queue db" "pd_next_queue db' = pd_next_queue db" "pd_black db' = pd_black db"
  using assms by (auto simp: append_history_def result_bind_Inr_iff prune_history_def Let_def)

end
