(* ===== verification/Probe_Queue.thy ===== *)
theory Probe_Queue
  imports Probe_Store
begin

text \<open>
  The leased work queue of the Probe (\<open>core/storage/storage_probe.py\<close>).  A row is free, or carries
  the opaque token of the worker that claimed it and the instant of the claim; a claim lapses
  after five minutes unless it is renewed.  Everything a worker does with its row is matched by id
  and token in the same transaction.  \<open>locked\<close> are the ids of rows another transaction holds at
  that moment (\<open>FOR UPDATE SKIP LOCKED\<close>), and \<open>token\<close> the text of a fresh UUID.
\<close>

subsection \<open>Adding rows\<close>

definition probe_queue_claim_is_active :: "probe_entry \<Rightarrow> int \<Rightarrow> bool" where
  "probe_queue_claim_is_active e now =
     (case qe_claim_token e of
        None \<Rightarrow> False
      | Some token \<Rightarrow>
          token \<noteq> [] \<and>
          (case qe_claimed_at e of
             None \<Rightarrow> False
           | Some claimed \<Rightarrow> claimed \<ge> now - seconds_span PROBE_QUEUE_LEASE_SECONDS))"

definition drop_queue :: "(probe_entry \<Rightarrow> bool) \<Rightarrow> probe_db \<Rightarrow> probe_db" where
  "drop_queue P db = db\<lparr>pd_queue := filter (\<lambda>e. \<not> P e) (pd_queue db)\<rparr>"

definition prepare_concrete_probe_queue_entry ::
  "string \<Rightarrow> string \<Rightarrow> string option \<Rightarrow> string \<Rightarrow> int \<Rightarrow> probe_db \<Rightarrow> bool \<times> probe_db" where
  "prepare_concrete_probe_queue_entry server_id item_id media scope now db =
     (if media = None then (True, db)
      else case filter (\<lambda>e. qe_server_id e = server_id \<and> qe_item_id e = item_id
                  \<and> qe_media_source_id e = None \<and> scope_filter (Some scope) (qe_scope e)) (pd_queue db) of
             [] \<Rightarrow> (True, db)
           | generic # _ \<Rightarrow>
               if probe_queue_claim_is_active generic now then (False, db)
               else (True, drop_queue (\<lambda>e. qe_id e = qe_id generic) db))"

definition queue_columns :: "pdict \<Rightarrow> pdict" where
  "queue_columns item =
     (let col = (\<lambda>k. (k, pget item k))
      in [col ''library_id'', col ''library_name'',
          (''name'', dget_default item ''name'' unknown_name), col ''title'', col ''series_name'',
          col ''series_id'', (''series_year_resolved'', PBool (truthy (pget item ''series_year_resolved''))),
          col ''season_number'', col ''episode_number'', col ''year'', col ''media_type'', col ''path''])"

text \<open>\<open>INSERT ... ON CONFLICT DO NOTHING\<close> on the identity; the answer tells whether a row was added.\<close>

definition insert_queue_row :: "probe_entry \<Rightarrow> probe_db \<Rightarrow> bool \<times> probe_db" where
  "insert_queue_row e db =
     (if \<exists>r \<in> set (pd_queue db). queue_identity r = queue_identity e
      then (False, db\<lparr>pd_next_queue := pd_next_queue db + 1\<rparr>)
      else (True, db\<lparr>pd_queue := pd_queue db @ [e\<lparr>qe_id := pd_next_queue db\<rparr>],
                     pd_next_queue := pd_next_queue db + 1\<rparr>))"

definition text_value :: "py \<Rightarrow> string option" where
  "text_value v = (case v of PStr s \<Rightarrow> Some s | _ \<Rightarrow> None)"

definition add_queue_item :: "pdict \<Rightarrow> int \<Rightarrow> probe_db \<Rightarrow> exn + bool \<times> probe_db" where
  "add_queue_item item now db =
     result_bind (scope_value (pget item ''scope'')) (\<lambda>scope_text.
       let server_id = pget item ''server_id''; item_id = pget item ''item_id'';
           media = text_value (pget item ''media_source_id'');
           scope = normalize_probe_scope scope_text
       in if \<not> truthy server_id \<or> \<not> truthy item_id then Inr (False, db)
          else case prepare_concrete_probe_queue_entry (py_str server_id) (py_str item_id) media scope now db of
                 (False, db') \<Rightarrow> Inr (False, db')
               | (True, db') \<Rightarrow>
                   Inr (insert_queue_row
                     \<lparr>qe_id = 0, qe_server_id = py_str server_id, qe_item_id = py_str item_id,
                      qe_scope = Some scope, qe_media_source_id = media, qe_columns = queue_columns item,
                      qe_added_at = now, qe_claim_token = None, qe_claimed_at = None\<rparr> db'))"

fun add_queue_items :: "pdict list \<Rightarrow> int \<Rightarrow> int \<Rightarrow> probe_db \<Rightarrow> exn + int \<times> probe_db" where
  "add_queue_items [] now queued db = Inr (queued, db)"
| "add_queue_items (item # items) now queued db =
     result_bind (add_queue_item item now db) (\<lambda>(inserted, db').
       add_queue_items items now (if inserted then queued + 1 else queued) db')"

definition add_items_in_session :: "py list \<Rightarrow> int \<Rightarrow> probe_db \<Rightarrow> exn + int \<times> probe_db" where
  "add_items_in_session items now db =
     result_bind (normalize_probe_queue_items items) (\<lambda>normalized. add_queue_items normalized now 0 db)"

definition add_to_probe_queue :: "py list \<Rightarrow> int \<Rightarrow> probe_db \<Rightarrow> exn + probe_db" where
  "add_to_probe_queue items now db =
     result_bind (normalize_probe_queue_items items) (\<lambda>normalized.
     result_bind (add_items_in_session (map PDict normalized) now db) (\<lambda>(queued, db'). Inr db'))"

definition retry_probe_items ::
  "py list \<Rightarrow> string \<Rightarrow> string \<Rightarrow> py \<Rightarrow> string option \<Rightarrow> int \<Rightarrow> probe_db \<Rightarrow> exn + int \<times> probe_db" where
  "retry_probe_items items server_id item_id media scope now db =
     result_bind (add_items_in_session items now db) (\<lambda>(queued, db').
       if queued = 0 then Inl (RuntimeError ''Nessuna sorgente Probe valida da accodare'')
       else result_bind (normalize_probe_media_source_id media) (\<lambda>m.
         let selected = row_matches server_id item_id scope m
         in Inr (queued, drop_history (\<lambda>h. selected (history_identity h))
                           (drop_black (\<lambda>b. selected (black_identity b)) db'))))"

definition remove_probe_item_state ::
  "string \<Rightarrow> string \<Rightarrow> py \<Rightarrow> string option \<Rightarrow> probe_db \<Rightarrow> exn + probe_db" where
  "remove_probe_item_state server_id item_id media scope db =
     result_bind (normalize_probe_media_source_id media) (\<lambda>m.
       let selected = row_matches server_id item_id scope m
       in Inr (drop_history (\<lambda>h. selected (history_identity h))
                (drop_black (\<lambda>b. selected (black_identity b))
                  (drop_queue (\<lambda>e. selected (queue_identity e)) db))))"

subsection \<open>Leases\<close>

definition claimable :: "int list \<Rightarrow> int \<Rightarrow> int list \<Rightarrow> probe_entry \<Rightarrow> bool" where
  "claimable entry_ids stale_before locked e \<longleftrightarrow>
     qe_id e \<in> set entry_ids \<and> qe_id e \<notin> set locked
     \<and> (qe_claim_token e = None \<or> qe_claimed_at e = None
        \<or> (case qe_claimed_at e of None \<Rightarrow> False | Some c \<Rightarrow> c < stale_before))"

definition claim_probe_queue_items ::
  "(int \<Rightarrow> string) \<Rightarrow> int list \<Rightarrow> int \<Rightarrow> string \<Rightarrow> int list \<Rightarrow> int \<Rightarrow> probe_db \<Rightarrow> pdict list \<times> probe_db" where
  "claim_probe_queue_items stamp entry_ids lease_seconds token locked now db =
     (if entry_ids = [] then ([], db)
      else
        let stale_before = now - seconds_span (max 30 lease_seconds);
            sel = claimable entry_ids stale_before locked;
            take_it = (\<lambda>e. e\<lparr>qe_claim_token := Some token, qe_claimed_at := Some now\<rparr>);
            claimed = map (\<lambda>e. (qe_id e, probe_queue_payload stamp (take_it e))) (filter sel (pd_queue db))
        in (concat (map (\<lambda>i. case map_of claimed i of None \<Rightarrow> [] | Some p \<Rightarrow> [p]) entry_ids),
            db\<lparr>pd_queue := map (\<lambda>e. if sel e then take_it e else e) (pd_queue db)\<rparr>))"

definition owned_row :: "int \<Rightarrow> string \<Rightarrow> probe_entry \<Rightarrow> bool" where
  "owned_row entry_id token e \<longleftrightarrow> qe_id e = entry_id \<and> qe_claim_token e = Some token"

definition update_owned :: "int \<Rightarrow> string \<Rightarrow> (probe_entry \<Rightarrow> probe_entry) \<Rightarrow> probe_db \<Rightarrow> bool \<times> probe_db" where
  "update_owned entry_id token f db =
     (length (filter (owned_row entry_id token) (pd_queue db)) = 1,
      db\<lparr>pd_queue := map (\<lambda>e. if owned_row entry_id token e then f e else e) (pd_queue db)\<rparr>)"

definition renew_probe_queue_claim :: "int \<Rightarrow> string \<Rightarrow> int \<Rightarrow> probe_db \<Rightarrow> bool \<times> probe_db" where
  "renew_probe_queue_claim entry_id token now db =
     update_owned entry_id token (\<lambda>e. e\<lparr>qe_claimed_at := Some now\<rparr>) db"

definition release_probe_queue_claim :: "int \<Rightarrow> string \<Rightarrow> probe_db \<Rightarrow> bool \<times> probe_db" where
  "release_probe_queue_claim entry_id token db =
     update_owned entry_id token (\<lambda>e. e\<lparr>qe_claim_token := None, qe_claimed_at := None\<rparr>) db"

definition complete_probe_queue_claim :: "int \<Rightarrow> string \<Rightarrow> probe_db \<Rightarrow> bool \<times> probe_db" where
  "complete_probe_queue_claim entry_id token db =
     (length (filter (owned_row entry_id token) (pd_queue db)) = 1, drop_queue (owned_row entry_id token) db)"

text \<open>
  \<open>commit_probe_queue_result\<close>: blacklist, history and the queue row in one transaction.  The
  answer \<open>None\<close> is a commit refused because the token no longer matches, otherwise the retry count
  and whether the row was freed for another attempt.
\<close>

definition failure_fields :: "pdict \<Rightarrow> exn + pdict" where
  "failure_fields failure =
     result_bind (optional_emby_identifier (pget failure ''library_id'') ''library_id'') (\<lambda>library.
     let f1 = dset ''library_id'' (opt_text library) failure
     in Inr (dset ''error_type''
          (opt_text (project_probe_text (py_or (pget f1 ''error_type'') (PStr ''ERROR'')) (Some 20))) f1))"

definition commit_blacklist :: "pdict \<Rightarrow> pdict option \<Rightarrow> int \<Rightarrow> probe_db \<Rightarrow> exn + int \<times> probe_db" where
  "commit_blacklist history failure now db =
     result_bind (scope_value (pget history ''scope'')) (\<lambda>scope.
     case failure of
       None \<Rightarrow>
         result_bind (normalize_probe_media_source_id (pget history ''media_source_id'')) (\<lambda>m.
         Inr (0, drop_black (\<lambda>b. row_matches (py_str (pget history ''server_id''))
                   (py_str (pget history ''item_id'')) scope m (black_identity b)) db))
     | Some f \<Rightarrow>
         update_blacklist_in_session
           \<lparr>bu_server_id = PStr (text_or_empty (pget history ''server_id'')),
            bu_item_id = PStr (text_or_empty (pget history ''item_id'')),
            bu_name = PStr (text_or (pget history ''name'') ''Sconosciuto''),
            bu_reason = PStr (text_or (pget f ''reason'') ''Errore probe''),
            bu_media_source_id = pget history ''media_source_id'', bu_increment_retry = True,
            bu_error_type = PStr (text_or (pget f ''error_type'') ''ERROR''),
            bu_scope = scope, bu_library_id = pget f ''library_id'',
            bu_library_name = pget history ''library_name''\<rparr> now db)"

definition free_row :: "probe_entry \<Rightarrow> probe_entry" where
  "free_row e = e\<lparr>qe_claim_token := None, qe_claimed_at := None\<rparr>"

definition finish_row :: "int \<Rightarrow> string \<Rightarrow> bool \<Rightarrow> probe_db \<Rightarrow> probe_db" where
  "finish_row entry_id token requeued db =
     (if requeued
      then db\<lparr>pd_queue := map (\<lambda>e. if owned_row entry_id token e then free_row e else e) (pd_queue db)\<rparr>
      else drop_queue (owned_row entry_id token) db)"

definition commit_probe_queue_result ::
  "int \<Rightarrow> string \<Rightarrow> pdict \<Rightarrow> pdict option \<Rightarrow> int \<Rightarrow> bool \<Rightarrow> int \<Rightarrow> probe_db
     \<Rightarrow> exn + (int \<times> bool) option \<times> probe_db" where
  "commit_probe_queue_result entry_id token history failure max_retries allow_requeue now db =
     (if token = [] then Inr (None, db)
      else
        result_bind (normalize_probe_history_data history) (\<lambda>h.
        result_bind (case failure of None \<Rightarrow> Inr None
                     | Some f \<Rightarrow> result_bind (failure_fields f) (\<lambda>f'. Inr (Some f'))) (\<lambda>f.
        if filter (owned_row entry_id token) (pd_queue db) = [] then Inr (None, db)
        else
          result_bind (commit_blacklist h f now db) (\<lambda>(retry_count, db1).
          result_bind (append_history h now db1) (\<lambda>db2.
          let requeued = (f \<noteq> None \<and> allow_requeue \<and> retry_count < max 1 max_retries)
          in Inr (Some (retry_count, requeued), finish_row entry_id token requeued db2))))))"

subsection \<open>Reading and clearing\<close>

definition in_libraries :: "string list option \<Rightarrow> probe_entry \<Rightarrow> bool" where
  "in_libraries library_ids e =
     (case library_ids of
        None \<Rightarrow> True
      | Some ls \<Rightarrow> ls = [] \<or> (case pget (qe_columns e) ''library_id'' of PStr l \<Rightarrow> l \<in> set ls | _ \<Rightarrow> False))"

definition queue_rows :: "string option \<Rightarrow> string list option \<Rightarrow> string option \<Rightarrow> probe_db \<Rightarrow> probe_entry list" where
  "queue_rows server_id library_ids scope db =
     filter (\<lambda>e. (case server_id of None \<Rightarrow> True | Some s \<Rightarrow> s = [] \<or> qe_server_id e = s)
               \<and> scope_filter scope (qe_scope e) \<and> in_libraries library_ids e) (pd_queue db)"

text \<open>By id above a cursor, by age for recent items, otherwise in the order the database gives its
  collated titles, which is a parameter (\<open>by_title\<close>).\<close>

definition get_probe_queue ::
  "(probe_entry list \<Rightarrow> probe_entry list) \<Rightarrow> (int \<Rightarrow> string) \<Rightarrow> string option \<Rightarrow> string list option
     \<Rightarrow> string option \<Rightarrow> nat option \<Rightarrow> nat \<Rightarrow> int option \<Rightarrow> bool \<Rightarrow> probe_db \<Rightarrow> pdict list" where
  "get_probe_queue by_title stamp server_id library_ids scope limit offset cursor_id processing_order db =
     (let rows = queue_rows server_id library_ids scope db;
          ordered =
            (case (cursor_id, processing_order) of
               (Some c, False) \<Rightarrow> sort_key qe_id (filter (\<lambda>e. qe_id e > c) rows)
             | _ \<Rightarrow> drop offset
                  (if normalize_probe_scope scope = ''recent''
                   then sort_key qe_added_at (sort_key qe_id rows) else by_title rows))
      in map (probe_queue_payload stamp) (case limit of None \<Rightarrow> ordered | Some n \<Rightarrow> take n ordered))"

definition count_probe_queue :: "string option \<Rightarrow> string list option \<Rightarrow> string option \<Rightarrow> probe_db \<Rightarrow> nat" where
  "count_probe_queue server_id library_ids scope db = length (queue_rows server_id library_ids scope db)"

definition remove_from_probe_queue ::
  "string \<Rightarrow> string \<Rightarrow> py \<Rightarrow> string option \<Rightarrow> probe_db \<Rightarrow> exn + bool \<times> probe_db" where
  "remove_from_probe_queue server_id item_id media scope db =
     result_bind (normalize_probe_media_source_id media) (\<lambda>m.
       let sel = (\<lambda>e. row_matches server_id item_id scope m (queue_identity e) \<and> qe_claim_token e = None)
       in Inr (length (filter sel (pd_queue db)) = 1, drop_queue sel db))"

definition clear_probe_queue :: "string \<Rightarrow> string option \<Rightarrow> probe_db \<Rightarrow> nat \<times> probe_db" where
  "clear_probe_queue server_id scope db =
     (let sel = (\<lambda>e. qe_server_id e = server_id \<and> scope_filter scope (qe_scope e) \<and> qe_claim_token e = None)
      in (length (filter sel (pd_queue db)), drop_queue sel db))"

subsection \<open>Operations as steps\<close>

datatype probe_op =
    Add "py list"
  | Retry "py list" string string py "string option"
  | Remove_State string string py "string option"
  | Claim "int list" int string "int list"
  | Renew int string
  | Commit int string pdict "pdict option" int bool
  | Complete int string
  | Release int string
  | Remove_Row string string py "string option"
  | Clear_Rows string "string option"

definition state_of :: "probe_db \<Rightarrow> exn + 'a \<times> probe_db \<Rightarrow> probe_db" where
  "state_of db r = (case r of Inl e \<Rightarrow> db | Inr (a, db') \<Rightarrow> db')"

definition state_of_unit :: "probe_db \<Rightarrow> exn + probe_db \<Rightarrow> probe_db" where
  "state_of_unit db r = (case r of Inl e \<Rightarrow> db | Inr db' \<Rightarrow> db')"

primrec probe_step :: "probe_op \<Rightarrow> int \<Rightarrow> probe_db \<Rightarrow> probe_db" where
  "probe_step (Add items) now db = state_of_unit db (add_to_probe_queue items now db)"
| "probe_step (Retry items s i m sc) now db = state_of db (retry_probe_items items s i m sc now db)"
| "probe_step (Remove_State s i m sc) now db = state_of_unit db (remove_probe_item_state s i m sc db)"
| "probe_step (Claim ids lease token locked) now db =
     snd (claim_probe_queue_items (\<lambda>t. []) ids lease token locked now db)"
| "probe_step (Renew i token) now db = snd (renew_probe_queue_claim i token now db)"
| "probe_step (Commit i token h f n allow) now db =
     state_of db (commit_probe_queue_result i token h f n allow now db)"
| "probe_step (Complete i token) now db = snd (complete_probe_queue_claim i token db)"
| "probe_step (Release i token) now db = snd (release_probe_queue_claim i token db)"
| "probe_step (Remove_Row s i m sc) now db = state_of db (remove_from_probe_queue s i m sc db)"
| "probe_step (Clear_Rows s sc) now db = snd (clear_probe_queue s sc db)"

definition probe_run :: "(int \<times> probe_op) list \<Rightarrow> probe_db \<Rightarrow> probe_db" where
  "probe_run ops db = foldl (\<lambda>db p. probe_step (snd p) (fst p) db) db ops"

subsection \<open>The invariant of the queue\<close>

text \<open>Ids come from the sequence and are distinct, and no two rows have one identity.\<close>

definition queue_wf :: "probe_db \<Rightarrow> bool" where
  "queue_wf db \<longleftrightarrow>
     distinct (map qe_id (pd_queue db)) \<and> distinct (map queue_identity (pd_queue db))
     \<and> list_all (\<lambda>e. qe_id e < pd_next_queue db) (pd_queue db)"

lemma queue_wf_cong:
  "pd_queue db' = pd_queue db \<Longrightarrow> pd_next_queue db' = pd_next_queue db \<Longrightarrow> queue_wf db' = queue_wf db"
  by (simp add: queue_wf_def)

lemma drop_queue_frame [simp]:
  "pd_queue (drop_queue P db) = filter (\<lambda>e. \<not> P e) (pd_queue db)"
  "pd_next_queue (drop_queue P db) = pd_next_queue db"
  "pd_black (drop_queue P db) = pd_black db" "pd_history (drop_queue P db) = pd_history db"
  by (simp_all add: drop_queue_def)

lemma queue_wf_drop [simp, intro]: "queue_wf db \<Longrightarrow> queue_wf (drop_queue P db)"
  by (auto simp: queue_wf_def distinct_map_filter list_all_iff)

lemma queue_wf_map:
  assumes "queue_wf db" "\<And>e. qe_id (f e) = qe_id e" "\<And>e. queue_identity (f e) = queue_identity e"
  shows "queue_wf (db\<lparr>pd_queue := map f (pd_queue db)\<rparr>)"
proof -
  have "map qe_id (map f (pd_queue db)) = map qe_id (pd_queue db)"
    "map queue_identity (map f (pd_queue db)) = map queue_identity (pd_queue db)"
    using assms(2,3) by simp_all
  with assms(1,2) show ?thesis
    unfolding queue_wf_def by (auto simp: list_all_iff simp del: map_map)
qed

lemma queue_wf_insert:
  assumes "queue_wf db"
  shows "queue_wf (snd (insert_queue_row e db))"
proof -
  have lt: "qe_id x < pd_next_queue db" if "x \<in> set (pd_queue db)" for x
    using assms that by (simp add: queue_wf_def list_all_iff)
  have le: "qe_id x < pd_next_queue db + 1" "qe_id x \<noteq> pd_next_queue db" if "x \<in> set (pd_queue db)" for x
    using lt [OF that] by simp_all
  have "queue_identity (e\<lparr>qe_id := n\<rparr>) = queue_identity e" for n
    by (simp add: queue_identity_def)
  then show ?thesis
    using assms by (auto simp: insert_queue_row_def queue_wf_def list_all_iff dest: le(2) lt)
qed

lemma queue_wf_prepare:
  "queue_wf db \<Longrightarrow> queue_wf (snd (prepare_concrete_probe_queue_entry s i m sc now db))"
  by (auto simp: prepare_concrete_probe_queue_entry_def split: list.splits)

text \<open>What adding rows keeps: the invariant, and every row that is actively leased.\<close>

definition keeps_leased :: "int \<Rightarrow> probe_db \<Rightarrow> probe_db \<Rightarrow> bool" where
  "keeps_leased now db db' \<longleftrightarrow>
     (queue_wf db \<longrightarrow> queue_wf db' \<and>
       (\<forall>e \<in> set (pd_queue db). probe_queue_claim_is_active e now \<longrightarrow> e \<in> set (pd_queue db')))"

lemma keeps_leased_refl: "keeps_leased now db db"
  by (simp add: keeps_leased_def)

lemma keeps_leased_trans: "keeps_leased now a b \<Longrightarrow> keeps_leased now b c \<Longrightarrow> keeps_leased now a c"
  by (auto simp: keeps_leased_def)

lemma keeps_leased_insert: "keeps_leased now db (snd (insert_queue_row e db))"
  by (simp add: keeps_leased_def queue_wf_insert) (auto simp: insert_queue_row_def)

lemma keeps_leased_prepare: "keeps_leased now db (snd (prepare_concrete_probe_queue_entry s i m sc now db))"
proof -
  have "e \<in> set (pd_queue (snd (prepare_concrete_probe_queue_entry s i m sc now db)))"
    if wf: "queue_wf db" and e: "e \<in> set (pd_queue db)" "probe_queue_claim_is_active e now" for e
  proof -
    let ?g = "filter (\<lambda>e. qe_server_id e = s \<and> qe_item_id e = i
                  \<and> qe_media_source_id e = None \<and> scope_filter (Some sc) (qe_scope e)) (pd_queue db)"
    show ?thesis
    proof (cases ?g)
      case (Cons g gs)
      then have "g \<in> set ?g" by simp
      then have g: "g \<in> set (pd_queue db)" by simp
      have "qe_id e = qe_id g \<Longrightarrow> e = g"
        using wf e(1) g by (auto simp: queue_wf_def distinct_map inj_on_def)
      with e Cons show ?thesis by (auto simp: prepare_concrete_probe_queue_entry_def)
    qed (simp add: prepare_concrete_probe_queue_entry_def e)
  qed
  then show ?thesis by (simp add: keeps_leased_def queue_wf_prepare)
qed

lemma keeps_leased_item: "add_queue_item item now db = Inr (b, db') \<Longrightarrow> keeps_leased now db db'"
  unfolding add_queue_item_def result_bind_Inr_iff Let_def
proof (elim exE conjE)
  fix sc
  let ?p = "prepare_concrete_probe_queue_entry (py_str (pget item ''server_id''))
     (py_str (pget item ''item_id'')) (text_value (pget item ''media_source_id''))
     (normalize_probe_scope sc) now db"
  assume r: "(if \<not> truthy (pget item ''server_id'') \<or> \<not> truthy (pget item ''item_id'') then Inr (False, db)
     else case ?p of
         (True, db') \<Rightarrow> Inr (insert_queue_row
             \<lparr>qe_id = 0, qe_server_id = py_str (pget item ''server_id''),
              qe_item_id = py_str (pget item ''item_id''), qe_scope = Some (normalize_probe_scope sc),
              qe_media_source_id = text_value (pget item ''media_source_id''),
              qe_columns = queue_columns item, qe_added_at = now, qe_claim_token = None,
              qe_claimed_at = None\<rparr> db')
       | (False, db') \<Rightarrow> Inr (False, db')) = Inr (b, db')"
  have p: "keeps_leased now db (snd ?p)" by (rule keeps_leased_prepare)
  show "keeps_leased now db db'"
  proof (cases "\<not> truthy (pget item ''server_id'') \<or> \<not> truthy (pget item ''item_id'')")
    case True
    with r show ?thesis by (simp add: keeps_leased_refl)
  next
    case False
    obtain ok d where d: "?p = (ok, d)" by (cases ?p)
    with p have "keeps_leased now db d" by simp
    moreover from this have "keeps_leased now db (snd (insert_queue_row e d))" for e
      by (rule keeps_leased_trans [OF _ keeps_leased_insert])
    moreover have "db' = d \<or> (\<exists>e. db' = snd (insert_queue_row e d))"
      using r False by (cases ok) (simp add: d, metis snd_conv, simp add: d)
    ultimately show ?thesis by auto
  qed
qed

lemma keeps_leased_items:
  "add_queue_items items now q db = Inr (n, db') \<Longrightarrow> keeps_leased now db db'"
proof (induction items arbitrary: q db)
  case (Cons item items)
  then obtain b d where "add_queue_item item now db = Inr (b, d)"
    "add_queue_items items now (if b then q + 1 else q) d = Inr (n, db')"
    by (auto simp: result_bind_Inr_iff)
  with Cons.IH show ?case by (meson keeps_leased_item keeps_leased_trans)
qed (simp add: keeps_leased_refl)

lemma keeps_leased_session: "add_items_in_session items now db = Inr (n, db') \<Longrightarrow> keeps_leased now db db'"
  by (auto simp: add_items_in_session_def result_bind_Inr_iff intro: keeps_leased_items)

lemma keeps_leased_add: "keeps_leased now db (probe_step (Add items) now db)"
  by (auto simp: state_of_unit_def add_to_probe_queue_def result_bind_Inr_iff keeps_leased_refl
      split: sum.splits intro: keeps_leased_session)

lemma keeps_leased_cong:
  "pd_queue b = pd_queue c \<Longrightarrow> pd_next_queue b = pd_next_queue c \<Longrightarrow> keeps_leased now a b \<Longrightarrow> keeps_leased now a c"
  by (simp add: keeps_leased_def queue_wf_def)

lemma keeps_leased_retry: "keeps_leased now db (probe_step (Retry items s i m sc) now db)"
proof (cases "retry_probe_items items s i m sc now db")
  case (Inr p)
  then obtain n db1 db2 where db2: "p = (n, db2)" "add_items_in_session items now db = Inr (n, db1)"
    "pd_queue db2 = pd_queue db1" "pd_next_queue db2 = pd_next_queue db1"
    by (auto simp: retry_probe_items_def result_bind_Inr_iff Let_def drop_history_def drop_black_def
        split: if_splits)
  then have "keeps_leased now db db2"
    by (intro keeps_leased_cong [OF _ _ keeps_leased_session [OF db2(2)]]) simp_all
  with Inr db2(1) show ?thesis by (simp add: state_of_def)
qed (simp add: state_of_def keeps_leased_refl)

text \<open>A commit is refused without the token, otherwise its parts run in this order.\<close>

lemma commit_refused:
  assumes "commit_probe_queue_result i k h f n allow now db = Inr (r, db')"
    "k = [] \<or> filter (owned_row i k) (pd_queue db) = []"
  shows "r = None \<and> db' = db"
  using assms by (auto simp: commit_probe_queue_result_def result_bind_Inr_iff split: if_splits)

definition checked_failure :: "pdict option \<Rightarrow> exn + pdict option" where
  "checked_failure f = (case f of None \<Rightarrow> Inr None | Some f \<Rightarrow> result_bind (failure_fields f) (\<lambda>f'. Inr (Some f')))"

lemma commit_parts:
  assumes "commit_probe_queue_result i k h f n allow now db = Inr (r, db')"
    "k \<noteq> []" "filter (owned_row i k) (pd_queue db) \<noteq> []"
  obtains hh ff c db1 db2 where
    "normalize_probe_history_data h = Inr hh" "checked_failure f = Inr ff"
    "commit_blacklist hh ff now db = Inr (c, db1)" "append_history hh now db1 = Inr db2"
    "r = Some (c, ff \<noteq> None \<and> allow \<and> c < max 1 n)"
    "db' = finish_row i k (ff \<noteq> None \<and> allow \<and> c < max 1 n) db2"
proof -
  from assms(1) obtain hh ff c db1 db2 where
    "normalize_probe_history_data h = Inr hh" "checked_failure f = Inr ff"
    "commit_blacklist hh ff now db = Inr (c, db1)" "append_history hh now db1 = Inr db2"
    "Inr (Some (c, ff \<noteq> None \<and> allow \<and> c < max 1 n), finish_row i k (ff \<noteq> None \<and> allow \<and> c < max 1 n) db2)
       = (Inr (r, db') :: exn + (int \<times> bool) option \<times> probe_db)"
    using assms(2,3)
    unfolding commit_probe_queue_result_def result_bind_Inr_iff checked_failure_def [symmetric] Let_def
    by (simp only: if_False result_bind_Inr_iff split_paired_Ex prod.case) blast
  then show thesis using that by simp
qed

lemma commit_blacklist_frame:
  assumes "commit_blacklist hh ff now db = Inr (c, db1)"
  shows "pd_queue db1 = pd_queue db" "pd_next_queue db1 = pd_next_queue db" "pd_history db1 = pd_history db"
proof -
  from assms consider P where "db1 = drop_black P db" | e where "blacklist_upsert e True db = (c, db1)"
    by (auto simp: commit_blacklist_def update_blacklist_in_session_def result_bind_Inr_iff split: option.splits)
  then show "pd_queue db1 = pd_queue db" "pd_next_queue db1 = pd_next_queue db" "pd_history db1 = pd_history db"
    by (cases; metis drop_black_frame blacklist_upsert_frame snd_conv)+
qed

text \<open>What a commit does to the queue: one owned row is freed or removed, or nothing happens.\<close>

lemma commit_queue:
  assumes "commit_probe_queue_result i k h f n allow now db = Inr (r, db')"
  shows "pd_next_queue db' = pd_next_queue db
    \<and> (case r of None \<Rightarrow> db' = db
       | Some (c, requeued) \<Rightarrow>
           pd_queue db' = (if requeued then map (\<lambda>e. if owned_row i k e then free_row e else e) (pd_queue db)
                           else filter (\<lambda>e. \<not> owned_row i k e) (pd_queue db)))"
proof (cases "k = [] \<or> filter (owned_row i k) (pd_queue db) = []")
  case True
  then show ?thesis using commit_refused [OF assms] by simp
next
  case False
  then have k: "k \<noteq> []" "filter (owned_row i k) (pd_queue db) \<noteq> []" by simp_all
  obtain hh ff c db1 db2 rq where
    b: "commit_blacklist hh ff now db = Inr (c, db1)" and a: "append_history hh now db1 = Inr db2"
    and r: "r = Some (c, rq)" and q: "db' = finish_row i k rq db2"
    by (rule commit_parts [OF assms k])
  from commit_blacklist_frame [OF b] append_history_frame [OF a] show ?thesis
    by (simp add: r q finish_row_def)
qed

lemma claim_queue:
  "pd_queue (snd (claim_probe_queue_items stamp ids lease k locked now db)) =
     map (\<lambda>e. if ids \<noteq> [] \<and> claimable ids (now - seconds_span (max 30 lease)) locked e
              then e\<lparr>qe_claim_token := Some k, qe_claimed_at := Some now\<rparr> else e) (pd_queue db)"
  by (simp add: claim_probe_queue_items_def Let_def cong: if_cong)

lemma probe_step_wf: "queue_wf db \<Longrightarrow> queue_wf (probe_step op now db)"
proof (cases op)
  case (Add items)
  assume "queue_wf db"
  then show ?thesis using keeps_leased_add [of now db items] by (simp add: Add keeps_leased_def)
next
  case (Retry items s i m sc)
  assume "queue_wf db"
  then show ?thesis using keeps_leased_retry [of now db items s i m sc] by (simp add: Retry keeps_leased_def)
next
  case (Remove_State s i m sc)
  assume wf: "queue_wf db"
  then show ?thesis
    by (auto simp: Remove_State state_of_unit_def remove_probe_item_state_def result_bind_Inr_iff Let_def
        split: sum.splits intro!: queue_wf_cong [THEN iffD2, OF _ _ queue_wf_drop [OF wf]])
next
  case (Claim ids lease k locked)
  assume "queue_wf db"
  then show ?thesis
    by (auto simp: Claim claim_probe_queue_items_def Let_def queue_identity_def intro: queue_wf_map)
next
  case (Renew i k)
  assume "queue_wf db"
  then show ?thesis
    by (auto simp: Renew renew_probe_queue_claim_def update_owned_def queue_identity_def intro: queue_wf_map)
next
  case (Commit i k h f n allow)
  assume wf: "queue_wf db"
  show ?thesis
  proof (cases "commit_probe_queue_result i k h f n allow now db")
    case (Inr p)
    obtain r db' where p: "p = (r, db')" by (cases p)
    have freed: "queue_wf (db\<lparr>pd_queue := map (\<lambda>e. if owned_row i k e then free_row e else e) (pd_queue db)\<rparr>)"
      using wf by (intro queue_wf_map) (simp_all add: free_row_def queue_identity_def)
    from commit_queue [OF Inr [unfolded p]] wf freed queue_wf_drop [OF wf, of "owned_row i k"]
    have "queue_wf db'"
      by (cases r) (auto simp: queue_wf_def split: if_splits)
    then show ?thesis by (simp add: Commit Inr p state_of_def)
  qed (simp add: Commit state_of_def wf)
next
  case (Complete i k)
  assume "queue_wf db"
  then show ?thesis by (simp add: Complete complete_probe_queue_claim_def)
next
  case (Release i k)
  assume "queue_wf db"
  then show ?thesis
    by (auto simp: Release release_probe_queue_claim_def update_owned_def queue_identity_def intro: queue_wf_map)
next
  case (Remove_Row s i m sc)
  assume "queue_wf db"
  then show ?thesis
    by (auto simp: Remove_Row state_of_def remove_from_probe_queue_def result_bind_Inr_iff Let_def
        split: sum.splits)
next
  case (Clear_Rows s sc)
  assume "queue_wf db"
  then show ?thesis by (simp add: Clear_Rows clear_probe_queue_def Let_def)
qed

lemma probe_run_wf: "queue_wf db \<Longrightarrow> queue_wf (probe_run ops db)"
  by (induction ops arbitrary: db) (simp_all add: probe_run_def probe_step_wf)

lemma probe_run_Cons: "probe_run (p # ops) db = probe_run ops (probe_step (snd p) (fst p) db)"
  by (simp add: probe_run_def)

subsection \<open>A live claim\<close>

text \<open>
  The steps of others while a claim of row \<open>i\<close> with token \<open>k\<close>, taken at \<open>c\<close>, is live: nobody else knows
  the token, no worker asks for a shorter lease than the default, and nobody removes the state of
  that item explicitly.
\<close>

definition rival_step :: "int \<Rightarrow> string \<Rightarrow> int \<Rightarrow> string \<Rightarrow> string \<Rightarrow> int \<times> probe_op \<Rightarrow> bool" where
  "rival_step i k c server item p \<longleftrightarrow>
     fst p \<le> c + seconds_span PROBE_QUEUE_LEASE_SECONDS \<and>
     (case snd p of
        Claim ids lease token locked \<Rightarrow> token \<noteq> k \<and> PROBE_QUEUE_LEASE_SECONDS \<le> lease
      | Renew j token \<Rightarrow> token \<noteq> k
      | Commit j token h f n allow \<Rightarrow> token \<noteq> k
      | Complete j token \<Rightarrow> token \<noteq> k
      | Release j token \<Rightarrow> token \<noteq> k
      | Remove_State s it m sc \<Rightarrow> s \<noteq> server \<or> it \<noteq> item
      | _ \<Rightarrow> True)"

lemma live_claim_not_claimable:
  assumes "qe_claim_token e = Some k" "qe_claimed_at e = Some c"
    "t \<le> c + seconds_span PROBE_QUEUE_LEASE_SECONDS" "PROBE_QUEUE_LEASE_SECONDS \<le> lease"
  shows "\<not> claimable ids (t - seconds_span (max 30 lease)) locked e"
  using assms by (simp add: claimable_def seconds_span_def PROBE_QUEUE_LEASE_SECONDS_def)

lemma owned_row_token: "qe_claim_token e = Some k \<Longrightarrow> token \<noteq> k \<Longrightarrow> \<not> owned_row j token e"
  by (simp add: owned_row_def)

lemma rival_keeps_row:
  assumes wf: "queue_wf db" and e: "e \<in> set (pd_queue db)" "qe_id e = i" "qe_claim_token e = Some k"
    "qe_claimed_at e = Some c" "k \<noteq> []"
    and rival: "rival_step i k c (qe_server_id e) (qe_item_id e) (t, op)"
  shows "e \<in> set (pd_queue (probe_step op t db))"
proof -
  have t: "t \<le> c + seconds_span PROBE_QUEUE_LEASE_SECONDS" using rival by (simp add: rival_step_def)
  then have active: "probe_queue_claim_is_active e t"
    using e by (simp add: probe_queue_claim_is_active_def)
  show ?thesis
  proof (cases op)
    case (Add items)
    show ?thesis using keeps_leased_add [of t db items] wf e active by (simp add: Add keeps_leased_def)
  next
    case (Retry items s it m sc)
    show ?thesis using keeps_leased_retry [of t db items s it m sc] wf e active
      by (simp add: Retry keeps_leased_def)
  next
    case (Remove_State s it m sc)
    with rival have "s \<noteq> qe_server_id e \<or> it \<noteq> qe_item_id e" by (simp add: rival_step_def)
    with e(1) show ?thesis
      by (auto simp: Remove_State state_of_unit_def remove_probe_item_state_def result_bind_Inr_iff Let_def
          row_matches_def queue_identity_def split: sum.splits)
  next
    case (Claim ids lease token locked)
    with rival have "PROBE_QUEUE_LEASE_SECONDS \<le> lease" by (simp add: rival_step_def)
    from live_claim_not_claimable [OF e(3,4) t this] e(1) show ?thesis
      by (force simp: Claim claim_queue image_iff)
  next
    case (Commit j token h f n allow)
    with rival have no: "\<not> owned_row j token e" by (intro owned_row_token [OF e(3)]) (simp add: rival_step_def)
    show ?thesis
    proof (cases "commit_probe_queue_result j token h f n allow t db")
      case (Inr p)
      obtain r db' where p: "p = (r, db')" by (cases p)
      from commit_queue [OF Inr [unfolded p]] no e(1) show ?thesis
        by (cases r) (force simp: Commit Inr p state_of_def image_iff split: if_splits)+
    qed (simp add: Commit state_of_def e(1))
  qed (use rival e(1,3) in \<open>force simp: rival_step_def renew_probe_queue_claim_def release_probe_queue_claim_def
        update_owned_def complete_probe_queue_claim_def owned_row_def image_iff
        remove_from_probe_queue_def clear_probe_queue_def state_of_def result_bind_Inr_iff Let_def
        split: sum.splits\<close>)+
qed

lemma rivals_keep_row:
  assumes "queue_wf db" "e \<in> set (pd_queue db)" "qe_id e = i" "qe_claim_token e = Some k"
    "qe_claimed_at e = Some c" "k \<noteq> []"
    and "\<forall>p \<in> set ops. rival_step i k c (qe_server_id e) (qe_item_id e) p"
  shows "e \<in> set (pd_queue (probe_run ops db))"
  using assms(1,2,7)
proof (induction ops arbitrary: db)
  case (Cons p ops)
  obtain t op where p: "p = (t, op)" by (cases p)
  from Cons.prems p have "e \<in> set (pd_queue (probe_step op t db))"
    by (intro rival_keeps_row [OF _ _ assms(3-6)]) simp_all
  with Cons p show ?case by (simp add: probe_run_Cons probe_step_wf)
qed (simp add: probe_run_def)

subsection \<open>What a claim returns\<close>

definition claimed_id :: "pdict \<Rightarrow> py" where
  "claimed_id p = pget p ''id''"

definition claimed_item :: "pdict \<Rightarrow> py \<times> py" where
  "claimed_item p = (pget p ''server_id'', pget p ''item_id'')"

lemma claim_returns:
  assumes "p \<in> set (fst (claim_probe_queue_items stamp ids lease k locked now db))"
  obtains e where "e \<in> set (pd_queue db)" "claimable ids (now - seconds_span (max 30 lease)) locked e"
    "ids \<noteq> []" "claimed_id p = PInt (qe_id e)" "claimed_item p = (PStr (qe_server_id e), PStr (qe_item_id e))"
proof -
  from assms obtain i where "ids \<noteq> []" "map_of (map (\<lambda>e. (qe_id e, probe_queue_payload stamp
      (e\<lparr>qe_claim_token := Some k, qe_claimed_at := Some now\<rparr>)))
      (filter (claimable ids (now - seconds_span (max 30 lease)) locked) (pd_queue db))) i = Some p"
    by (auto simp: claim_probe_queue_items_def Let_def split: if_splits option.splits)
  then show thesis
    using that by (auto dest!: map_of_SomeD simp: claimed_id_def claimed_item_def probe_queue_payload_def Let_def)
qed

lemma claim_returns_row:
  assumes "queue_wf db" "p \<in> set (fst (claim_probe_queue_items stamp ids lease k locked now db))"
    "claimed_id p = PInt i"
  obtains e where "e \<in> set (pd_queue (snd (claim_probe_queue_items stamp ids lease k locked now db)))"
    "qe_id e = i" "qe_claim_token e = Some k" "qe_claimed_at e = Some now"
    "claimed_item p = (PStr (qe_server_id e), PStr (qe_item_id e))"
proof -
  from assms(2) obtain e where e: "e \<in> set (pd_queue db)"
    "claimable ids (now - seconds_span (max 30 lease)) locked e" "ids \<noteq> []" "claimed_id p = PInt (qe_id e)"
    "claimed_item p = (PStr (qe_server_id e), PStr (qe_item_id e))"
    by (rule claim_returns)
  let ?e = "e\<lparr>qe_claim_token := Some k, qe_claimed_at := Some now\<rparr>"
  have "?e \<in> set (pd_queue (snd (claim_probe_queue_items stamp ids lease k locked now db)))"
    using e(1-3) by (force simp: claim_queue)
  moreover have "qe_id ?e = i" using e(4) assms(3) by simp
  ultimately show thesis by (rule that) (simp_all add: e(5))
qed

lemma claim_wf: "queue_wf db \<Longrightarrow> queue_wf (snd (claim_probe_queue_items stamp ids lease k locked now db))"
  using probe_step_wf [of db "Claim ids lease k locked" now]
  by (auto simp: queue_wf_def claim_queue claim_probe_queue_items_def Let_def cong: if_cong)

lemma only_owner:
  assumes "queue_wf db" "e \<in> set (pd_queue db)" "owned_row i k e"
  shows "filter (owned_row i k) (pd_queue db) = [e]"
proof -
  have d: "distinct (map qe_id (pd_queue db))" using assms(1) by (simp add: queue_wf_def)
  from assms(2) obtain xs ys where q: "pd_queue db = xs @ e # ys" by (auto dest: split_list)
  have "\<not> owned_row i k x" if "x \<in> set xs \<union> set ys" for x
    using d q that assms(3) by (auto simp: owned_row_def) (metis imageI)+
  then show ?thesis using assms(3) by (simp add: q filter_empty_conv)
qed

text \<open>A row that carries another token is lost for \<open>k\<close>, for as long as \<open>k\<close> is not claimed with again.\<close>

definition lost :: "int \<Rightarrow> string \<Rightarrow> probe_db \<Rightarrow> bool" where
  "lost i k db \<longleftrightarrow> filter (owned_row i k) (pd_queue db) = []"

definition claims_with :: "string \<Rightarrow> probe_op \<Rightarrow> bool" where
  "claims_with k op = (case op of Claim ids lease token locked \<Rightarrow> token = k | _ \<Rightarrow> False)"

lemma lost_iff: "lost i k db \<longleftrightarrow> (\<forall>e \<in> set (pd_queue db). \<not> owned_row i k e)"
  by (auto simp: lost_def filter_empty_conv)

lemma add_queue_item_new:
  assumes "add_queue_item item now db = Inr (b, db')" "e \<in> set (pd_queue db')"
  shows "e \<in> set (pd_queue db) \<or> qe_claim_token e = None"
proof -
  have ins: "e \<in> set (pd_queue (snd (insert_queue_row r d))) \<Longrightarrow> e \<in> set (pd_queue d) \<or> qe_claim_token e = qe_claim_token r"
    for r d by (auto simp: insert_queue_row_def split: if_splits)
  have prep: "set (pd_queue (snd (prepare_concrete_probe_queue_entry s i m sc now d))) \<subseteq> set (pd_queue d)"
    for s i m sc d by (auto simp: prepare_concrete_probe_queue_entry_def split: list.splits if_splits)
  from assms(1) obtain s i m sc ok d where d: "prepare_concrete_probe_queue_entry s i m sc now db = (ok, d)"
    "db' = db \<or> db' = d \<or> (\<exists>r. qe_claim_token r = None \<and> db' = snd (insert_queue_row r d))"
    by (auto simp: add_queue_item_def result_bind_Inr_iff Let_def split: if_splits prod.splits bool.splits)
       (metis probe_entry.select_convs(8) snd_conv)+
  with prep [of s i m sc db] assms(2) show ?thesis by (auto simp: d(1) dest!: ins)
qed

lemma add_queue_items_new:
  "add_queue_items items now q db = Inr (n, db') \<Longrightarrow> e \<in> set (pd_queue db') \<Longrightarrow>
     e \<in> set (pd_queue db) \<or> qe_claim_token e = None"
proof (induction items arbitrary: q db)
  case (Cons item items)
  then show ?case by (auto simp: result_bind_Inr_iff dest!: Cons.IH add_queue_item_new)
qed simp

lemma add_items_new:
  assumes "add_items_in_session items now db = Inr (n, db')" "e \<in> set (pd_queue db')"
  shows "e \<in> set (pd_queue db) \<or> qe_claim_token e = None"
  using assms by (auto simp: add_items_in_session_def result_bind_Inr_iff dest: add_queue_items_new)

lemma lost_step:
  assumes "lost i k db" "\<not> claims_with k op"
  shows "lost i k (probe_step op t db)"
proof -
  note defs = lost_iff owned_row_def state_of_def state_of_unit_def result_bind_Inr_iff Let_def
  show ?thesis
  proof (cases op)
    case (Add items)
    with assms(1) show ?thesis
      by (auto simp: defs add_to_probe_queue_def split: sum.splits dest!: add_items_new)
  next
    case (Retry items s it m sc)
    with assms(1) show ?thesis
      by (auto simp: defs retry_probe_items_def split: sum.splits if_splits dest!: add_items_new)
  next
    case (Claim ids lease token locked)
    with assms show ?thesis by (auto simp: defs claim_queue claims_with_def)
  next
    case (Commit j token h f n allow)
    show ?thesis
    proof (cases "commit_probe_queue_result j token h f n allow t db")
      case (Inr p)
      obtain r db' where p: "p = (r, db')" by (cases p)
      from commit_queue [OF Inr [unfolded p]] assms(1) show ?thesis
        by (cases r) (auto simp: defs Commit Inr p free_row_def split: if_splits)
    qed (simp add: Commit state_of_def assms(1))
  qed (use assms(1) in \<open>auto simp: defs renew_probe_queue_claim_def release_probe_queue_claim_def
        update_owned_def complete_probe_queue_claim_def remove_probe_item_state_def
        remove_from_probe_queue_def clear_probe_queue_def split: sum.splits if_splits\<close>)
qed

lemma lost_run: "lost i k db \<Longrightarrow> \<forall>p \<in> set ops. \<not> claims_with k (snd p) \<Longrightarrow> lost i k (probe_run ops db)"
proof (induction ops arbitrary: db)
  case (Cons p ops)
  then show ?case by (simp add: probe_run_Cons lost_step)
qed (simp add: probe_run_def)

lemma lost_refused:
  assumes "lost i k db"
  shows "renew_probe_queue_claim i k t db = (False, db)"
    and "complete_probe_queue_claim i k db = (False, db)"
    and "release_probe_queue_claim i k db = (False, db)"
    and "state_of db (commit_probe_queue_result i k h f n allow t db) = db"
    and "commit_probe_queue_result i k h f n allow t db = Inr (r, db') \<Longrightarrow> r = None"
proof -
  have nil: "filter (owned_row i k) (pd_queue db) = []" and no: "\<And>e. e \<in> set (pd_queue db) \<Longrightarrow> \<not> owned_row i k e"
    using assms by (auto simp: lost_def filter_empty_conv)
  have id: "map (\<lambda>e. if owned_row i k e then g e else e) (pd_queue db) = pd_queue db" for g
    using no by (intro map_idI) simp
  have keep: "filter (\<lambda>e. \<not> owned_row i k e) (pd_queue db) = pd_queue db"
    using no by (simp add: filter_id_conv)
  show "renew_probe_queue_claim i k t db = (False, db)" "release_probe_queue_claim i k db = (False, db)"
    by (simp_all add: renew_probe_queue_claim_def release_probe_queue_claim_def update_owned_def nil id)
  show "complete_probe_queue_claim i k db = (False, db)"
    by (simp add: complete_probe_queue_claim_def drop_queue_def nil keep)
  show "commit_probe_queue_result i k h f n allow t db = Inr (r, db') \<Longrightarrow> r = None"
    using commit_refused nil by blast
  show "state_of db (commit_probe_queue_result i k h f n allow t db) = db"
    using commit_refused [of i k h f n allow t db] nil by (auto simp: state_of_def split: sum.splits)
qed

subsection \<open>Properties of the leases\<close>

text \<open>
  C10: While the claim of a row is live, whatever other workers and users do (short of removing
  the state of that item), nobody is given the row again, and its holder can still renew and
  complete it.
\<close>

theorem claim_is_exclusive:
  fixes stamp :: "int \<Rightarrow> string"
  assumes wf: "queue_wf db" and k: "k \<noteq> []"
    and p: "p \<in> set (fst (claim_probe_queue_items stamp ids lease k locked c db))" "claimed_id p = PInt i"
      "claimed_item p = (PStr server, PStr item)"
    and rivals: "\<forall>p \<in> set ops. rival_step i k c server item p"
    and rival: "rival_step i k c server item (t, Claim ids' lease' token locked')"
  defines "db' \<equiv> probe_run ops (snd (claim_probe_queue_items stamp ids lease k locked c db))"
  shows "PInt i \<notin> claimed_id ` set (fst (claim_probe_queue_items stamp ids' lease' token locked' t db'))
    \<and> fst (renew_probe_queue_claim i k t db') \<and> fst (complete_probe_queue_claim i k db')"
proof -
  let ?d = "snd (claim_probe_queue_items stamp ids lease k locked c db)"
  obtain e where e: "e \<in> set (pd_queue ?d)" "qe_id e = i" "qe_claim_token e = Some k"
    "qe_claimed_at e = Some c" and item: "claimed_item p = (PStr (qe_server_id e), PStr (qe_item_id e))"
    by (rule claim_returns_row [OF wf p(1,2)])
  have e56: "qe_server_id e = server" "qe_item_id e = item" using item p(3) by simp_all
  have wf': "queue_wf db'" unfolding db'_def by (rule probe_run_wf [OF claim_wf [OF wf]])
  have e': "e \<in> set (pd_queue db')"
    unfolding db'_def using e56 rivals by (intro rivals_keep_row [OF claim_wf [OF wf] e(1-4) k]) simp
  have own: "filter (owned_row i k) (pd_queue db') = [e]"
    using wf' e' by (rule only_owner) (simp add: owned_row_def e(2,3))
  have "claimed_id q \<noteq> PInt i"
    if q: "q \<in> set (fst (claim_probe_queue_items stamp ids' lease' token locked' t db'))" for q
  proof
    assume "claimed_id q = PInt i"
    with q obtain g where g: "g \<in> set (pd_queue db')" "qe_id g = i"
      "claimable ids' (t - seconds_span (max 30 lease')) locked' g"
      by (auto elim: claim_returns)
    have "g = e" using wf' g(1,2) e' e(2) by (auto simp: queue_wf_def distinct_map inj_on_def)
    with g(3) live_claim_not_claimable [OF e(3,4)] rival show False by (simp add: rival_step_def)
  qed
  then have "PInt i \<notin> claimed_id ` set (fst (claim_probe_queue_items stamp ids' lease' token locked' t db'))"
    by (metis imageE)
  with own show ?thesis
    by (simp add: renew_probe_queue_claim_def update_owned_def complete_probe_queue_claim_def)
qed

text \<open>
  C11: Once another worker has been given the row, nothing a stale worker does with its old
  token changes any table: its renewals, completions and releases answer no, and its result is
  refused whole, whatever happened in between.
\<close>

theorem stale_worker_fenced:
  fixes stamp :: "int \<Rightarrow> string"
  assumes wf: "queue_wf db"
    and p: "p \<in> set (fst (claim_probe_queue_items stamp ids lease k' locked c db))" "claimed_id p = PInt i" "k' \<noteq> k"
    and ops: "\<forall>p \<in> set ops. \<not> claims_with k (snd p)"
  defines "db' \<equiv> probe_run ops (snd (claim_probe_queue_items stamp ids lease k' locked c db))"
  shows "renew_probe_queue_claim i k t db' = (False, db')
    \<and> complete_probe_queue_claim i k db' = (False, db')
    \<and> release_probe_queue_claim i k db' = (False, db')
    \<and> state_of db' (commit_probe_queue_result i k h f n allow t db') = db'
    \<and> (case commit_probe_queue_result i k h f n allow t db' of Inl e \<Rightarrow> True | Inr (r, d) \<Rightarrow> r = None)"
proof -
  let ?d = "snd (claim_probe_queue_items stamp ids lease k' locked c db)"
  obtain e where e: "e \<in> set (pd_queue ?d)" "qe_id e = i" "qe_claim_token e = Some k'"
    by (rule claim_returns_row [OF wf p(1,2)])
  have "lost i k ?d"
    unfolding lost_iff
  proof
    fix g assume g: "g \<in> set (pd_queue ?d)"
    have "g = e" if "qe_id g = i"
      using claim_wf [OF wf] g e(1,2) that by (auto simp: queue_wf_def distinct_map inj_on_def)
    then show "\<not> owned_row i k g" using e(3) p(3) by (auto simp: owned_row_def)
  qed
  then have "lost i k db'" unfolding db'_def using ops by (rule lost_run)
  note refused = lost_refused [OF this]
  show ?thesis
    using refused(1-4) refused(5) [where h = h and f = f and n = n and allow = allow and t = t]
    by (auto split: sum.splits)
qed

definition empty_probe_db :: probe_db where
  "empty_probe_db = \<lparr>pd_queue = [], pd_next_queue = 1, pd_black = [], pd_next_black = 1,
     pd_history = [], pd_next_history = 1\<rparr>"

text \<open>
  From the empty tables on, no two rows of the queue ever have one id or one identity
  (server, item, scope and media source), whatever sequence of operations runs.
\<close>

theorem queue_rows_unique:
  "distinct (map qe_id (pd_queue (probe_run ops empty_probe_db)))
   \<and> distinct (map queue_identity (pd_queue (probe_run ops empty_probe_db)))"
proof -
  have "queue_wf empty_probe_db" by (simp add: queue_wf_def empty_probe_db_def)
  then have "queue_wf (probe_run ops empty_probe_db)" by (rule probe_run_wf)
  then show ?thesis by (simp add: queue_wf_def)
qed

subsection \<open>Retries\<close>

definition black_count :: "probe_identity \<Rightarrow> probe_db \<Rightarrow> int" where
  "black_count r db =
     (case filter (\<lambda>b. black_identity b = r) (pd_black db) of [] \<Rightarrow> 0 | b # _ \<Rightarrow> be_retry_count b)"

text \<open>The identity a normalised history entry is about.\<close>

definition result_identity :: "pdict \<Rightarrow> string option \<Rightarrow> probe_identity" where
  "result_identity h scope =
     \<lparr>pi_server = py_str (pget h ''server_id''), pi_item = py_str (pget h ''item_id''),
      pi_scope = Some (normalize_probe_scope scope), pi_media = text_value (pget h ''media_source_id'')\<rparr>"

lemma filter_update_first:
  assumes "\<And>x. P x \<Longrightarrow> P (f x)" "filter P xs = y # ys" "\<And>x. Q x = P x"
  shows "filter P (update_first Q f xs) = f y # ys"
  using assms(2)
proof (induction xs)
  case (Cons x xs)
  show ?case
  proof (cases "P x")
    case True
    with Cons.prems assms(1,3) show ?thesis by simp
  next
    case False
    with Cons assms(3) show ?thesis by simp
  qed
qed simp

lemma filter_update_first_other:
  assumes "\<And>x. Q x \<Longrightarrow> \<not> P x" "\<And>x. Q x \<Longrightarrow> \<not> P (f x)"
  shows "filter P (update_first Q f xs) = filter P xs"
  using assms by (induction xs) auto

lemma upsert_count:
  assumes "be_retry_count e = 1"
  shows "fst (blacklist_upsert e True db) = black_count (black_identity e) db + 1"
    and "black_count r (snd (blacklist_upsert e True db)) =
           (if r = black_identity e then black_count r db + 1 else black_count r db)"
proof -
  let ?P = "\<lambda>b. black_identity b = black_identity e"
  have ident: "black_identity (e\<lparr>be_id := i, be_retry_count := n, be_error_type := t\<rparr>) = black_identity e"
    "black_identity (e\<lparr>be_id := i\<rparr>) = black_identity e" for i n t
    by (simp_all add: black_identity_def)
  show "fst (blacklist_upsert e True db) = black_count (black_identity e) db + 1"
    by (auto simp: blacklist_upsert_def black_count_def Let_def assms split: list.splits)
  show "black_count r (snd (blacklist_upsert e True db)) =
           (if r = black_identity e then black_count r db + 1 else black_count r db)"
  proof (cases "filter ?P (pd_black db)")
    case Nil
    then show ?thesis
      by (auto simp: blacklist_upsert_def black_count_def ident assms split: list.splits)
  next
    case (Cons old rest)
    show ?thesis
    proof (cases "r = black_identity e")
      case True
      with Cons show ?thesis
        by (simp add: blacklist_upsert_def black_count_def Let_def filter_update_first [OF _ Cons] ident)
    next
      case False
      then have "filter (\<lambda>b. black_identity b = r) (update_first ?P g (pd_black db))
          = filter (\<lambda>b. black_identity b = r) (pd_black db)"
        if "\<And>x. black_identity (g x) = black_identity e" for g
        using that by (intro filter_update_first_other) auto
      with Cons False ident show ?thesis
        by (simp add: blacklist_upsert_def black_count_def Let_def)
    qed
  qed
qed

lemma normalized_history_identity:
  assumes "normalize_probe_history_data h = Inr hh"
  obtains server item media where
    "pget hh ''server_id'' = PStr server" "require_bounded_text (PStr server) ''server_id'' 36 False = Inr server"
    "pget hh ''item_id'' = PStr item" "require_emby_identifier (PStr item) ''item_id'' = Inr item"
    "pget hh ''media_source_id'' = opt_text media"
    "normalize_probe_media_source_id (opt_text media) = Inr media"
    "server \<noteq> []" "item \<noteq> []"
proof -
  from assms obtain server item media where
    r: "require_bounded_text (pget h ''server_id'') ''server_id'' 36 False = Inr server"
      "require_emby_identifier (pget h ''item_id'') ''item_id'' = Inr item"
      "normalize_probe_media_source_id (pget h ''media_source_id'') = Inr media"
    and hh: "pget hh ''server_id'' = PStr server" "pget hh ''item_id'' = PStr item"
      "pget hh ''media_source_id'' = opt_text media"
    by (auto simp: normalize_probe_history_data_def normalize_probe_server_id_def result_bind_Inr_iff Let_def)
  have "item \<noteq> []"
    using require_emby_identifier_Inr(2) [OF r(2)] by (auto simp: emby_identifier_pattern_def)
  moreover have "server \<noteq> []" using require_bounded_text_Inr [OF r(1)] by blast
  moreover have "normalize_probe_media_source_id (opt_text media) = Inr media"
    using r(3) by (simp add: normalize_probe_media_source_id_def optional_emby_identifier_again)
  ultimately show thesis
    by (intro that [of server item media]) (simp_all add: hh require_bounded_text_again [OF r(1)] require_emby_identifier_again [OF r(2)])
qed

lemma failure_counts:
  assumes "normalize_probe_history_data h = Inr hh" "commit_blacklist hh (Some f) now db = Inr (c, db1)"
  obtains scope where "scope_value (pget hh ''scope'') = Inr scope"
    "c = black_count (result_identity hh scope) db + 1"
    "\<And>r. black_count r db1 = (if r = result_identity hh scope then c else black_count r db)"
proof -
  from assms(1) obtain server item media where n:
    "pget hh ''server_id'' = PStr server" "require_bounded_text (PStr server) ''server_id'' 36 False = Inr server"
    "pget hh ''item_id'' = PStr item" "require_emby_identifier (PStr item) ''item_id'' = Inr item"
    "pget hh ''media_source_id'' = opt_text media"
    "normalize_probe_media_source_id (opt_text media) = Inr media" "server \<noteq> []" "item \<noteq> []"
    by (rule normalized_history_identity)
  from assms(2) n obtain scope e where sc: "scope_value (pget hh ''scope'') = Inr scope"
    and e: "blacklist_upsert e True db = (c, db1)" "be_retry_count e = 1"
      "black_identity e = \<lparr>pi_server = server, pi_item = item, pi_scope = Some (normalize_probe_scope scope), pi_media = media\<rparr>"
    by (auto simp: commit_blacklist_def update_blacklist_in_session_def result_bind_Inr_iff
        normalize_probe_server_id_def black_identity_def)
  have "text_value (opt_text media) = media" by (cases media) (simp_all add: text_value_def)
  then have i: "black_identity e = result_identity hh scope"
    by (simp add: e(3) result_identity_def n)
  show thesis
    using that [OF sc] upsert_count [OF e(2), where db = db] by (simp add: e(1) i)
qed

text \<open>How often an item is freed for another attempt along a run, when nobody resets its count.\<close>

definition commit_identity :: "pdict \<Rightarrow> probe_identity option" where
  "commit_identity h =
     (case normalize_probe_history_data h of
        Inl e \<Rightarrow> None
      | Inr hh \<Rightarrow> (case scope_value (pget hh ''scope'') of Inl e \<Rightarrow> None | Inr sc \<Rightarrow> Some (result_identity hh sc)))"

definition requeued_by :: "probe_identity \<Rightarrow> int \<Rightarrow> probe_op \<Rightarrow> probe_db \<Rightarrow> bool" where
  "requeued_by r t op db =
     (case op of
        Commit i k h f n allow \<Rightarrow>
          commit_identity h = Some r \<and>
          (case commit_probe_queue_result i k h f n allow t db of
             Inr (Some (c, rq), d) \<Rightarrow> rq
           | _ \<Rightarrow> False)
      | _ \<Rightarrow> False)"

fun requeues :: "probe_identity \<Rightarrow> (int \<times> probe_op) list \<Rightarrow> probe_db \<Rightarrow> nat" where
  "requeues r [] db = 0"
| "requeues r (p # ops) db =
     (if requeued_by r (fst p) (snd p) db then 1 else 0) + requeues r ops (probe_step (snd p) (fst p) db)"

definition failing_step :: "int \<Rightarrow> probe_op \<Rightarrow> bool" where
  "failing_step n op =
     (case op of
        Commit i k h f m allow \<Rightarrow> f \<noteq> None \<and> m = n
      | Retry items s i m sc \<Rightarrow> False
      | Remove_State s i m sc \<Rightarrow> False
      | _ \<Rightarrow> True)"

lemma black_count_cong: "pd_black db' = pd_black db \<Longrightarrow> black_count r db' = black_count r db"
  by (simp add: black_count_def)

lemma add_queue_item_black: "add_queue_item item now db = Inr (b, db') \<Longrightarrow> pd_black db' = pd_black db"
  by (auto simp: add_queue_item_def result_bind_Inr_iff Let_def insert_queue_row_def
      prepare_concrete_probe_queue_entry_def split: if_splits list.splits prod.splits bool.splits)

lemma add_queue_items_black: "add_queue_items items now q db = Inr (n, db') \<Longrightarrow> pd_black db' = pd_black db"
proof (induction items arbitrary: q db)
  case (Cons item items)
  then show ?case by (auto simp: result_bind_Inr_iff dest!: Cons.IH add_queue_item_black)
qed simp

definition is_commit :: "probe_op \<Rightarrow> bool" where
  "is_commit op = (case op of Commit i k h f m allow \<Rightarrow> True | _ \<Rightarrow> False)"

lemma failing_step_black:
  assumes "failing_step n op" "\<not> is_commit op"
  shows "pd_black (probe_step op t db) = pd_black db"
  using assms
  by (cases op)
     (auto simp: failing_step_def is_commit_def state_of_def state_of_unit_def result_bind_Inr_iff Let_def
        add_to_probe_queue_def add_items_in_session_def claim_probe_queue_items_def
        renew_probe_queue_claim_def release_probe_queue_claim_def update_owned_def
        complete_probe_queue_claim_def remove_from_probe_queue_def clear_probe_queue_def
        split: sum.splits dest!: add_queue_items_black)

lemma commit_counts:
  assumes "commit_probe_queue_result i k h (Some f) n allow t db = Inr (Some (c, rq), db')"
  obtains r where "commit_identity h = Some r" "c = black_count r db + 1" "rq = (allow \<and> c < max 1 n)"
    "\<And>r'. black_count r' db' = (if r' = r then c else black_count r' db)"
proof -
  have own: "k \<noteq> []" "filter (owned_row i k) (pd_queue db) \<noteq> []"
    using commit_refused [OF assms] by auto
  obtain hh ff c' db1 db2 where h: "normalize_probe_history_data h = Inr hh"
    and ff: "checked_failure (Some f) = Inr ff"
    and b: "commit_blacklist hh ff t db = Inr (c', db1)" and a: "append_history hh t db1 = Inr db2"
    and r: "Some (c, rq) = Some (c', ff \<noteq> None \<and> allow \<and> c' < max 1 n)"
    and q: "db' = finish_row i k (ff \<noteq> None \<and> allow \<and> c' < max 1 n) db2"
    by (rule commit_parts [OF assms own])
  from ff obtain f' where f': "ff = Some f'" by (auto simp: checked_failure_def result_bind_Inr_iff)
  from failure_counts [OF h b [unfolded f']] obtain scope where
    s: "scope_value (pget hh ''scope'') = Inr scope" "c' = black_count (result_identity hh scope) db + 1"
    "\<And>r. black_count r db1 = (if r = result_identity hh scope then c' else black_count r db)"
    by blast
  have "pd_black db' = pd_black db1"
    using append_history_frame(3) [OF a] by (simp add: q finish_row_def)
  then have "black_count r' db' = black_count r' db1" for r' by (rule black_count_cong)
  with s r f' h show thesis
    by (intro that [of "result_identity hh scope"]) (auto simp: commit_identity_def)
qed

lemma requeues_bound:
  "\<forall>p \<in> set ops. failing_step n (snd p) \<Longrightarrow>
     int (requeues r ops db) \<le> max 0 (max 1 n - 1 - black_count r db)"
proof (induction ops arbitrary: db)
  case (Cons p ops)
  obtain t op where p: "p = (t, op)" by (cases p)
  have IH: "int (requeues r ops (probe_step op t db)) \<le> max 0 (max 1 n - 1 - black_count r (probe_step op t db))"
    using Cons by simp
  show ?case
  proof (cases "is_commit op")
    case False
    then have "black_count r (probe_step op t db) = black_count r db"
      using Cons.prems p by (intro black_count_cong failing_step_black [of n]) auto
    moreover have "\<not> requeued_by r t op db"
      using False by (auto simp: requeued_by_def is_commit_def split: probe_op.splits)
    ultimately show ?thesis using IH by (simp add: p)
  next
    case True
    with Cons.prems p obtain i k h f allow where op: "op = Commit i k h (Some f) n allow"
      by (auto simp: failing_step_def is_commit_def split: probe_op.splits)
    consider (ok) c rq db' where "commit_probe_queue_result i k h (Some f) n allow t db = Inr (Some (c, rq), db')"
      | (refused) db' where "commit_probe_queue_result i k h (Some f) n allow t db = Inr (None, db')"
      | (raised) e where "commit_probe_queue_result i k h (Some f) n allow t db = Inl e"
      by (metis option.exhaust prod.exhaust sum.exhaust)
    then show ?thesis
    proof cases
      case ok
      obtain q where q: "commit_identity h = Some q" "c = black_count q db + 1"
        "rq = (allow \<and> c < max 1 n)" "\<And>r'. black_count r' db' = (if r' = q then c else black_count r' db)"
        by (rule commit_counts [OF ok]) blast
      have "probe_step op t db = db'" by (simp add: op ok state_of_def)
      with IH have IH': "int (requeues r ops db') \<le> max 0 (max 1 n - 1 - (if r = q then c else black_count r db))"
        by (simp add: q(4))
      have "requeued_by r t op db = (r = q \<and> rq)" by (auto simp: requeued_by_def op ok q(1))
      then have "int (requeues r (p # ops) db) = (if r = q \<and> rq then 1 else 0) + int (requeues r ops db')"
        using \<open>probe_step op t db = db'\<close> by (simp add: p)
      with IH' q(2,3) show ?thesis by (cases "r = q"; cases rq) simp_all
    next
      case refused
      from commit_queue [OF refused] have "probe_step op t db = db"
        by (simp add: op refused state_of_def)
      with IH refused show ?thesis by (simp add: p op requeued_by_def)
    next
      case raised
      then have "probe_step op t db = db" by (simp add: op state_of_def)
      with IH raised show ?thesis by (simp add: p op requeued_by_def)
    qed
  qed
qed simp


subsection \<open>Witnesses\<close>

definition sample_row :: probe_entry where
  "sample_row = \<lparr>qe_id = 7, qe_server_id = ''s'', qe_item_id = ''a'', qe_scope = Some ''libraries'',
     qe_media_source_id = None, qe_columns = [], qe_added_at = 0, qe_claim_token = None, qe_claimed_at = None\<rparr>"

definition sample_db :: probe_db where
  "sample_db = empty_probe_db\<lparr>pd_queue := [sample_row], pd_next_queue := 8\<rparr>"

lemma sample_wf: "queue_wf sample_db"
  by (simp add: queue_wf_def sample_db_def sample_row_def empty_probe_db_def)

lemma sample_claim:
  "fst (claim_probe_queue_items (\<lambda>t. []) [7] 300 k [] c sample_db) =
     [probe_queue_payload (\<lambda>t. []) (sample_row\<lparr>qe_claim_token := Some k, qe_claimed_at := Some c\<rparr>)]"
  by (simp add: claim_probe_queue_items_def sample_db_def empty_probe_db_def claimable_def Let_def)
     (simp add: sample_row_def)

lemma sample_claimed:
  "claimed_id (probe_queue_payload (\<lambda>t. []) (sample_row\<lparr>qe_claim_token := Some k, qe_claimed_at := Some c\<rparr>)) = PInt 7"
  "claimed_item (probe_queue_payload (\<lambda>t. []) (sample_row\<lparr>qe_claim_token := Some k, qe_claimed_at := Some c\<rparr>))
     = (PStr ''s'', PStr ''a'')"
  by (simp_all add: claimed_id_def claimed_item_def probe_queue_payload_def Let_def sample_row_def)

lemma claim_is_exclusive_witness:
  "PInt 7 \<notin> claimed_id ` set (fst (claim_probe_queue_items (\<lambda>t. []) [7] 300 ''w2'' [] 9
     (probe_run [(5, Clear_Rows ''s'' None), (8, Release 7 ''w2'')]
       (snd (claim_probe_queue_items (\<lambda>t. []) [7] 300 ''w1'' [] 0 sample_db)))))"
proof -
  have "\<forall>p \<in> set [(5, Clear_Rows ''s'' None), (8, Release 7 ''w2'')]. rival_step 7 ''w1'' 0 ''s'' ''a'' p"
    by (simp add: rival_step_def seconds_span_def PROBE_QUEUE_LEASE_SECONDS_def)
  moreover have "rival_step 7 ''w1'' 0 ''s'' ''a'' (9, Claim [7] 300 ''w2'' [])"
    by (simp add: rival_step_def seconds_span_def PROBE_QUEUE_LEASE_SECONDS_def)
  ultimately show ?thesis
    using claim_is_exclusive [OF sample_wf, where stamp = "\<lambda>t. []" and ids = "[7]" and lease = 300
        and k = "''w1''" and locked = "[]" and c = 0 and i = 7 and server = "''s''" and item = "''a''"
        and ids' = "[7]" and lease' = 300 and token = "''w2''" and locked' = "[]" and t = 9]
    by (simp add: sample_claim sample_claimed)
qed

text \<open>
  The same row, claimed at 0 by a first worker and, when its lease lapsed, by a second one.  A
  worker that was given several rows renews only the one it is working on, so this is what
  happens to the others when it is paused for five minutes.
\<close>

lemma stale_worker_fenced_witness:
  "renew_probe_queue_claim 7 ''w1'' 400000002
     (probe_run [] (snd (claim_probe_queue_items (\<lambda>t. []) [7] 300 ''w2'' [] 400000001
        (snd (claim_probe_queue_items (\<lambda>t. []) [7] 300 ''w1'' [] 0 sample_db)))))
   = (False, probe_run [] (snd (claim_probe_queue_items (\<lambda>t. []) [7] 300 ''w2'' [] 400000001
        (snd (claim_probe_queue_items (\<lambda>t. []) [7] 300 ''w1'' [] 0 sample_db)))))"
proof -
  let ?d = "snd (claim_probe_queue_items (\<lambda>t. []) [7] 300 ''w1'' [] 0 sample_db)"
  let ?p = "probe_queue_payload (\<lambda>t. []) (sample_row\<lparr>qe_claim_token := Some ''w2'', qe_claimed_at := Some 400000001\<rparr>)"
  have q: "pd_queue ?d = [sample_row\<lparr>qe_claim_token := Some ''w1'', qe_claimed_at := Some 0\<rparr>]"
    by (simp add: claim_queue sample_db_def empty_probe_db_def claimable_def) (simp add: sample_row_def)
  have "?p \<in> set (fst (claim_probe_queue_items (\<lambda>t. []) [7] 300 ''w2'' [] 400000001 ?d))"
    by (simp add: claim_probe_queue_items_def [of _ _ _ _ _ 400000001] Let_def q claimable_def
        seconds_span_def) (simp add: sample_row_def)
  from stale_worker_fenced [OF claim_wf [OF sample_wf] this sample_claimed(1), where k = "''w1''" and ops = "[]"]
  show ?thesis by simp
qed


end
