(* ===== verification/Probe_Worker.thy ===== *)
theory Probe_Worker
  imports Probe_Queue
begin

text \<open>
  A Probe worker at work on the rows it claimed (\<open>emby_probe/queue_leases.py\<close>,
  \<open>emby_probe/library_probe_execution.py\<close> and the recent-items worker of \<open>emby_probe/recent.py\<close>).
  A row is handled while a renewal thread runs beside it, other workers use the tables, and the
  user may press stop: between two steps of the handler any number of such events
  (\<open>background\<close>) happen.  What Emby answers is part of the script of the run.  The storage is
  the one that offers leases and the atomic commit; the fallbacks for another storage, status
  texts and counters are left out.
\<close>

subsection \<open>Claims\<close>

definition claim_identity :: "pdict \<Rightarrow> exn + (int \<times> string) option" where
  "claim_identity item =
     (if pget item ''id'' = PNone \<or> \<not> truthy (pget item ''claim_token'') then Inr None
      else result_bind (py_int (pget item ''id'')) (\<lambda>i. Inr (Some (i, py_str (pget item ''claim_token'')))))"

text \<open>The rows a claim hands out carry the id and the token.\<close>

lemma claimed_row_identity:
  "k \<noteq> [] \<Longrightarrow> claim_identity (probe_queue_payload stamp (e\<lparr>qe_claim_token := Some k, qe_claimed_at := Some c\<rparr>)) =
     Inr (Some (qe_id e, k))"
  by (simp add: claim_identity_def probe_queue_payload_def Let_def py_str_def)

text \<open>
  The state of one run: the tables, the stop flag of the worker, whether the claim was finished,
  whether the renewal thread found it lost, and whether that thread still runs.
\<close>

record probe_work =
  wk_db :: probe_db
  wk_stop :: bool
  wk_finished :: bool
  wk_lost :: bool
  wk_alive :: bool

datatype background =
    Renewal_Due int
  | Renewal_Raises
  | Elsewhere int probe_op
  | Stop_Pressed

text \<open>\<open>_mark_claim_lost\<close>, whose callback sets the stop flag of the worker.\<close>

definition mark_claim_lost :: "probe_work \<Rightarrow> probe_work" where
  "mark_claim_lost w = (if wk_lost w then w else w\<lparr>wk_lost := True, wk_stop := True\<rparr>)"

text \<open>One turn of the renewal loop, taken under the lock that a commit holds as well.\<close>

definition renewal_tick :: "int \<Rightarrow> string \<Rightarrow> int option \<Rightarrow> probe_work \<Rightarrow> probe_work" where
  "renewal_tick i k due w =
     (if \<not> wk_alive w then w
      else if wk_finished w then w\<lparr>wk_alive := False\<rparr>
      else case due of
             None \<Rightarrow> (mark_claim_lost w)\<lparr>wk_alive := False\<rparr>
           | Some now \<Rightarrow>
               (case renew_probe_queue_claim i k now (wk_db w) of
                  (renewed, db) \<Rightarrow>
                    if renewed then w\<lparr>wk_db := db\<rparr>
                    else (mark_claim_lost (w\<lparr>wk_db := db\<rparr>))\<lparr>wk_alive := False\<rparr>))"

primrec background_step :: "int \<Rightarrow> string \<Rightarrow> background \<Rightarrow> probe_work \<Rightarrow> probe_work" where
  "background_step i k (Renewal_Due now) w = renewal_tick i k (Some now) w"
| "background_step i k Renewal_Raises w = renewal_tick i k None w"
| "background_step i k (Elsewhere now op) w = w\<lparr>wk_db := probe_step op now (wk_db w)\<rparr>"
| "background_step i k Stop_Pressed w = w\<lparr>wk_stop := True\<rparr>"

definition meanwhile :: "int \<Rightarrow> string \<Rightarrow> background list \<Rightarrow> probe_work \<Rightarrow> probe_work" where
  "meanwhile i k evs w = foldl (\<lambda>w ev. background_step i k ev w) w evs"

subsection \<open>The script of one item\<close>

record probe_script =
  ps_paused :: bool
  ps_smart :: bool
  ps_probe :: bool
  ps_verify :: "nat \<Rightarrow> bool \<times> string option"
  ps_duration :: int
  ps_pausing :: "background list"
  ps_waiting :: "background list"
  ps_probing :: "background list"
  ps_polling :: "nat \<Rightarrow> background list"
  ps_renewing :: "background list"
  ps_renew_at :: int
  ps_committing :: "background list"
  ps_commit_at :: int
  ps_ending :: "background list"

record probe_result =
  pr_status :: string
  pr_error_details :: "string option"

text \<open>\<open>_poll_metadata\<close>: up to fifteen checks, a second apart, until one succeeds or stop is pressed.\<close>

fun poll_metadata ::
  "int \<Rightarrow> string \<Rightarrow> probe_script \<Rightarrow> nat \<Rightarrow> nat \<Rightarrow> string option \<Rightarrow> probe_work \<Rightarrow> (bool \<times> string option) \<times> probe_work" where
  "poll_metadata i k sc 0 attempt err w = ((False, err), w)"
| "poll_metadata i k sc (Suc left) attempt err w =
     (let w' = meanwhile i k (ps_polling sc attempt) w
      in if wk_stop w' then ((False, err), w')
         else case ps_verify sc attempt of
                (True, e) \<Rightarrow> ((True, e), w')
              | (False, e) \<Rightarrow> poll_metadata i k sc left (attempt + 1) e w')"

definition poll_attempts :: nat where
  "poll_attempts = 15"

definition incomplete_result :: "string option \<Rightarrow> probe_result" where
  "incomplete_result err =
     \<lparr>pr_status = ''INCOMPLETE'',
      pr_error_details = Some (text_else err ''Mediainfo non scritto dopo polling'')\<rparr>"

definition probe_item :: "int \<Rightarrow> string \<Rightarrow> probe_script \<Rightarrow> probe_work \<Rightarrow> probe_result option \<times> probe_work" where
  "probe_item i k sc w =
     (let w1 = meanwhile i k (ps_probing sc) w
      in if wk_stop w1 then (None, w1)
         else if \<not> ps_probe sc
         then (Some \<lparr>pr_status = ''ERROR'', pr_error_details = Some ''Timeout o errore API''\<rparr>, w1)
         else case poll_metadata i k sc poll_attempts 0 None w1 of
                ((True, e), w2) \<Rightarrow> (Some \<lparr>pr_status = ''SUCCESS'', pr_error_details = None\<rparr>, w2)
              | ((False, e), w2) \<Rightarrow> (Some (incomplete_result e), w2))"

definition history_payload :: "(pdict \<Rightarrow> string) \<Rightarrow> string \<Rightarrow> string \<Rightarrow> pdict \<Rightarrow> int \<Rightarrow> probe_result \<Rightarrow> pdict" where
  "history_payload display server_id scope item duration r =
     [(''server_id'', PStr server_id), (''item_id'', pget item ''item_id''),
      (''media_source_id'', pget item ''media_source_id''), (''scope'', PStr scope),
      (''name'', PStr (display item)), (''library_name'', pget item ''library_name''),
      (''status'', PStr (pr_status r)), (''error_details'', opt_text (pr_error_details r)),
      (''duration_ms'', PInt duration)]"

definition failure_payload :: "pdict \<Rightarrow> probe_result \<Rightarrow> pdict option" where
  "failure_payload item r =
     (if pr_status r = ''SUCCESS'' then None
      else Some [(''reason'', PStr (text_else (pr_error_details r) ''Errore probe'')),
                 (''error_type'', PStr (if pr_status r = ''INCOMPLETE'' then ''INCOMPLETE'' else ''ERROR'')),
                 (''library_id'', pget item ''library_id'')])"

subsection \<open>Commit and release\<close>

datatype outcome = Returned bool | Claim_Lost | Raised exn

text \<open>\<open>commit_claimed_result\<close> with the result persisted under the write lock; \<open>Claim_Lost\<close> is the
  exception \<open>ProbeClaimLost\<close>.\<close>

definition commit_claimed_result ::
  "int \<Rightarrow> string \<Rightarrow> pdict \<Rightarrow> pdict option \<Rightarrow> int \<Rightarrow> bool \<Rightarrow> int \<Rightarrow> probe_work \<Rightarrow> (outcome + int \<times> bool) \<times> probe_work" where
  "commit_claimed_result i k history failure max_retries allow_requeue now w =
     (case commit_probe_queue_result i k history failure max_retries allow_requeue now (wk_db w) of
        Inl e \<Rightarrow> (Inl (Raised e), w)
      | Inr (None, db) \<Rightarrow> (Inl Claim_Lost, w\<lparr>wk_db := db\<rparr>)
      | Inr (Some r, db) \<Rightarrow> (Inr r, w\<lparr>wk_db := db, wk_finished := True\<rparr>))"

text \<open>The library worker takes a release as the end of the claim whatever it answers.\<close>

definition release_claim :: "int \<Rightarrow> string \<Rightarrow> probe_work \<Rightarrow> bool \<times> probe_work" where
  "release_claim i k w =
     (case release_probe_queue_claim i k (wk_db w) of (ok, db) \<Rightarrow> (ok, w\<lparr>wk_db := db\<rparr>))"

definition release_library_claim :: "int \<Rightarrow> string \<Rightarrow> probe_work \<Rightarrow> probe_work" where
  "release_library_claim i k w = (snd (release_claim i k w))\<lparr>wk_finished := True\<rparr>"

subsection \<open>The library worker\<close>

definition commit_result_atomically ::
  "int \<Rightarrow> string \<Rightarrow> pdict \<Rightarrow> pdict option \<Rightarrow> int \<Rightarrow> probe_work \<Rightarrow> (outcome + int \<times> bool) \<times> probe_work" where
  "commit_result_atomically i k history failure now w =
     (case commit_claimed_result i k history failure 3 (\<not> wk_stop w) now w of
        (Inl Claim_Lost, w') \<Rightarrow> (Inl Claim_Lost, w'\<lparr>wk_stop := True\<rparr>)
      | r \<Rightarrow> r)"

definition record_result ::
  "(pdict \<Rightarrow> string) \<Rightarrow> string \<Rightarrow> string \<Rightarrow> int \<Rightarrow> string \<Rightarrow> pdict \<Rightarrow> probe_script \<Rightarrow> probe_result \<Rightarrow> probe_work
     \<Rightarrow> outcome \<times> probe_work" where
  "record_result display server_id scope i k item sc r w =
     (let w1 = meanwhile i k (ps_renewing sc) w
      in case renew_probe_queue_claim i k (ps_renew_at sc) (wk_db w1) of
           (renewed, db) \<Rightarrow>
             let w2 = w1\<lparr>wk_db := db\<rparr>
             in if \<not> renewed then (Returned False, w2\<lparr>wk_stop := True\<rparr>)
                else case commit_result_atomically i k
                            (history_payload display server_id scope item (ps_duration sc) r)
                            (failure_payload item r) (ps_commit_at sc)
                            (meanwhile i k (ps_committing sc) w2) of
                       (Inl e, w3) \<Rightarrow> (e, w3)
                     | (Inr c, w3) \<Rightarrow>
                         (let w4 = meanwhile i k (ps_ending sc) w3 in (Returned (\<not> wk_stop w4), w4)))"

definition handle_claimed_queue_item ::
  "(pdict \<Rightarrow> string) \<Rightarrow> string \<Rightarrow> string \<Rightarrow> int \<Rightarrow> string \<Rightarrow> pdict \<Rightarrow> probe_script \<Rightarrow> probe_work
     \<Rightarrow> outcome \<times> probe_work" where
  "handle_claimed_queue_item display server_id scope i k item sc w =
     (if wk_stop w then (Returned False, w)
      else
        let w1 = (if ps_paused sc then meanwhile i k (ps_pausing sc) w else w)
        in if ps_paused sc \<and> wk_stop w1 then (Returned False, w1)
           else
             let w2 = (if ps_smart sc then meanwhile i k (ps_waiting sc) w1 else w1)
             in if ps_smart sc \<and> wk_stop w2 then (Returned False, w2)
                else case probe_item i k sc w2 of
                       (None, w3) \<Rightarrow> (Returned False, release_library_claim i k w3)
                     | (Some r, w3) \<Rightarrow> record_result display server_id scope i k item sc r w3)"

text \<open>\<open>run_with_claim_renewal\<close>: the renewal thread is joined, then a lost claim overrides the result.\<close>

definition run_with_claim_renewal :: "(probe_work \<Rightarrow> outcome \<times> probe_work) \<Rightarrow> probe_work \<Rightarrow> outcome \<times> probe_work" where
  "run_with_claim_renewal callback w =
     (case callback (w\<lparr>wk_finished := False, wk_lost := False, wk_alive := True\<rparr>) of
        (Returned b, w') \<Rightarrow>
          ((if wk_lost w' then Claim_Lost else Returned b), w'\<lparr>wk_alive := False\<rparr>)
      | (r, w') \<Rightarrow> (r, w'\<lparr>wk_alive := False\<rparr>))"

definition handle_queue_item ::
  "(pdict \<Rightarrow> string) \<Rightarrow> string \<Rightarrow> string \<Rightarrow> int \<Rightarrow> string \<Rightarrow> pdict \<Rightarrow> probe_script \<Rightarrow> probe_work
     \<Rightarrow> outcome \<times> probe_work" where
  "handle_queue_item display server_id scope i k item sc w =
     (case run_with_claim_renewal (handle_claimed_queue_item display server_id scope i k item sc) w of
        (r, w') \<Rightarrow>
          ((case r of Claim_Lost \<Rightarrow> Returned False | _ \<Rightarrow> r),
           if wk_finished w' then w' else release_library_claim i k w'))"

text \<open>
  \<open>_handle_queue_items\<close> of a worker without parallelism: at the first item that does not go on, the
  rows not started yet are released; an exception leaves the loop at once.
\<close>

type_synonym batch = "(int \<times> string \<times> pdict \<times> probe_script) list"

fun release_unstarted_claims :: "batch \<Rightarrow> probe_work \<Rightarrow> probe_work" where
  "release_unstarted_claims [] w = w"
| "release_unstarted_claims ((i, k, item, sc) # rest) w =
     release_unstarted_claims rest (snd (release_claim i k w))"

fun handle_queue_items ::
  "(pdict \<Rightarrow> string) \<Rightarrow> string \<Rightarrow> string \<Rightarrow> batch \<Rightarrow> probe_work \<Rightarrow> outcome \<times> probe_work" where
  "handle_queue_items display server_id scope [] w = (Returned True, w)"
| "handle_queue_items display server_id scope ((i, k, item, sc) # rest) w =
     (case handle_queue_item display server_id scope i k item sc w of
        (Returned True, w') \<Rightarrow> handle_queue_items display server_id scope rest w'
      | (Returned False, w') \<Rightarrow> (Returned False, release_unstarted_claims rest w')
      | (r, w') \<Rightarrow> (r, w'))"

subsection \<open>The worker of recent items\<close>

text \<open>Here a refused release raises, stop is read again after polling, and failures are never freed for a retry.\<close>

definition release_recent_claim :: "int \<Rightarrow> string \<Rightarrow> probe_work \<Rightarrow> outcome \<times> probe_work" where
  "release_recent_claim i k w =
     (case release_claim i k w of
        (True, w') \<Rightarrow> (Returned False, w'\<lparr>wk_finished := True\<rparr>)
      | (False, w') \<Rightarrow> (Claim_Lost, w'))"

definition probe_recent_and_commit ::
  "string \<Rightarrow> string \<Rightarrow> string \<Rightarrow> int \<Rightarrow> string \<Rightarrow> pdict \<Rightarrow> probe_script \<Rightarrow> probe_work \<Rightarrow> outcome \<times> probe_work" where
  "probe_recent_and_commit name server_id scope i k item sc w =
     (case probe_item i k sc w of
        (None, w1) \<Rightarrow> release_recent_claim i k w1
      | (Some r, w1) \<Rightarrow>
          (let w2 = meanwhile i k (ps_renewing sc) w1
           in if wk_stop w2 then release_recent_claim i k w2
              else case commit_claimed_result i k
                          (history_payload (\<lambda>d. name) server_id scope item (ps_duration sc) r)
                          (failure_payload item r) 3 False (ps_commit_at sc)
                          (meanwhile i k (ps_committing sc) w2) of
                     (Inl e, w3) \<Rightarrow> (e, w3)
                   | (Inr c, w3) \<Rightarrow> (Returned True, w3)))"

definition probe_claimed_recent_item ::
  "string \<Rightarrow> string \<Rightarrow> string \<Rightarrow> int \<Rightarrow> string \<Rightarrow> pdict \<Rightarrow> probe_script \<Rightarrow> probe_work \<Rightarrow> outcome \<times> probe_work" where
  "probe_claimed_recent_item name server_id scope i k item sc w =
     (case run_with_claim_renewal (probe_recent_and_commit name server_id scope i k item sc) w of
        (Claim_Lost, w') \<Rightarrow> (Returned False, w'\<lparr>wk_stop := True\<rparr>)
      | r \<Rightarrow> r)"

subsection \<open>What a run keeps and what it gives back\<close>

text \<open>Nobody else claims with the token \<open>k\<close> while the item is handled: tokens are fresh.\<close>

definition fresh_events :: "string \<Rightarrow> background list \<Rightarrow> bool" where
  "fresh_events k evs \<longleftrightarrow>
     (\<forall>ev \<in> set evs. case ev of Elsewhere t op \<Rightarrow> \<not> claims_with k op | _ \<Rightarrow> True)"

definition fresh_script :: "string \<Rightarrow> probe_script \<Rightarrow> bool" where
  "fresh_script k sc \<longleftrightarrow>
     fresh_events k (ps_pausing sc) \<and> fresh_events k (ps_waiting sc) \<and> fresh_events k (ps_probing sc)
     \<and> (\<forall>n. fresh_events k (ps_polling sc n)) \<and> fresh_events k (ps_renewing sc)
     \<and> fresh_events k (ps_committing sc) \<and> fresh_events k (ps_ending sc)"

text \<open>
  What holds along a run about row \<open>i\<close> and token \<open>k\<close>: a lost row stays lost, and (\<open>own\<close>, for the row
  being handled) a finished claim is a lost one.
\<close>

definition safe_move :: "bool \<Rightarrow> int \<Rightarrow> string \<Rightarrow> probe_work \<Rightarrow> probe_work \<Rightarrow> bool" where
  "safe_move own i k w w' \<longleftrightarrow>
     (lost i k (wk_db w) \<longrightarrow> lost i k (wk_db w'))
     \<and> (own \<longrightarrow> (wk_finished w \<longrightarrow> lost i k (wk_db w)) \<longrightarrow> (wk_finished w' \<longrightarrow> lost i k (wk_db w')))"

lemma safe_move_refl [simp]: "safe_move own i k w w"
  by (simp add: safe_move_def)

lemma safe_move_trans: "safe_move own i k a b \<Longrightarrow> safe_move own i k b c \<Longrightarrow> safe_move own i k a c"
  by (auto simp: safe_move_def)

lemma safe_move_flags:
  "wk_db w' = wk_db w \<Longrightarrow> wk_finished w' = wk_finished w \<Longrightarrow> safe_move own i k w w'"
  by (simp add: safe_move_def)

lemma safe_move_db:
  "wk_finished w' = wk_finished w \<Longrightarrow> (lost i k (wk_db w) \<Longrightarrow> lost i k (wk_db w')) \<Longrightarrow> safe_move own i k w w'"
  by (auto simp: safe_move_def)

lemma renewed_lost:
  "lost i k db \<Longrightarrow> lost i k (snd (renew_probe_queue_claim j l t db))"
  using lost_step [of i k db "Renew j l" t] by (simp add: claims_with_def)

lemma mark_claim_lost_frame [simp]:
  "wk_db (mark_claim_lost w) = wk_db w" "wk_finished (mark_claim_lost w) = wk_finished w"
  by (simp_all add: mark_claim_lost_def)

lemma renewal_tick_frame:
  "wk_finished (renewal_tick j l due w) = wk_finished w"
  "lost i k (wk_db w) \<Longrightarrow> lost i k (wk_db (renewal_tick j l due w))"
  using renewed_lost [of i k "wk_db w" j l]
  by (auto simp: renewal_tick_def split: option.splits prod.splits) (metis snd_conv)+

lemma background_safe:
  "fresh_events k [ev] \<Longrightarrow> safe_move own i k w (background_step j l ev w)"
  by (cases ev) (auto simp: fresh_events_def renewal_tick_frame lost_step intro!: safe_move_db)

lemma meanwhile_Cons: "meanwhile j l (ev # evs) w = meanwhile j l evs (background_step j l ev w)"
  by (simp add: meanwhile_def)

lemma meanwhile_Nil [simp]: "meanwhile j l [] w = w"
  by (simp add: meanwhile_def)

lemma meanwhile_safe: "fresh_events k evs \<Longrightarrow> safe_move own i k w (meanwhile j l evs w)"
proof (induction evs arbitrary: w)
  case (Cons ev evs)
  then have "fresh_events k [ev]" "fresh_events k evs" by (simp_all add: fresh_events_def)
  with Cons.IH show ?case by (auto simp: meanwhile_Cons intro: safe_move_trans background_safe)
qed simp

lemma poll_safe:
  assumes "\<And>n. fresh_events k (ps_polling sc n)"
  shows "safe_move own i k w (snd (poll_metadata j l sc left n err w))"
proof (induction j l sc left n err w rule: poll_metadata.induct [where P = "\<lambda>j l sc' left n err w.
    sc' = sc \<longrightarrow> safe_move own i k w (snd (poll_metadata j l sc' left n err w))", rule_format])
  case (2 j l sc' left n err w)
  have m: "safe_move own i k w (meanwhile j l (ps_polling sc n) w)" by (rule meanwhile_safe [OF assms])
  with 2 show ?case
    by (auto simp: Let_def split: prod.splits bool.splits intro: safe_move_trans)
qed simp_all

lemma probe_item_safe:
  assumes "fresh_script k sc"
  shows "safe_move own i k w (snd (probe_item j l sc w))"
proof -
  have m: "safe_move own i k w (meanwhile j l (ps_probing sc) w)"
    using assms by (intro meanwhile_safe) (simp add: fresh_script_def)
  have p: "safe_move own i k v (snd (poll_metadata j l sc n a err v))" for v n a err
    using assms by (intro poll_safe) (simp add: fresh_script_def)
  define w1 where "w1 = meanwhile j l (ps_probing sc) w"
  obtain q w2 where q: "poll_metadata j l sc poll_attempts 0 None w1 = (q, w2)" by (metis surj_pair)
  have 2: "safe_move own i k w w2"
    using safe_move_trans [OF m p, of poll_attempts 0 None] q by (simp add: w1_def)
  have "snd (probe_item j l sc w) \<in> {w1, w2}"
    using q by (cases q) (auto simp: probe_item_def w1_def [symmetric] Let_def split: bool.splits)
  with m 2 show ?thesis by (auto simp: w1_def)
qed

lemma not_owned_freed [simp]:
  "\<not> owned_row i k (free_row e)" "\<not> owned_row i k (e\<lparr>qe_claim_token := None, qe_claimed_at := t\<rparr>)"
  by (simp_all add: owned_row_def free_row_def)

lemma released_lost: "lost i k (snd (release_probe_queue_claim i k db))"
  by (auto simp: lost_iff release_probe_queue_claim_def update_owned_def)

lemma release_keeps_lost: "lost i k db \<Longrightarrow> lost i k (snd (release_probe_queue_claim j l db))"
  using lost_step [of i k db "Release j l" 0] by (simp add: claims_with_def)

lemma release_claim_db: "wk_db (snd (release_claim i k w)) = snd (release_probe_queue_claim i k (wk_db w))"
  "wk_finished (snd (release_claim i k w)) = wk_finished w"
  by (simp_all add: release_claim_def split: prod.splits)

lemma committed_lost:
  assumes "commit_probe_queue_result i k h f n allow t db = Inr (Some r, db')"
  shows "lost i k db'"
  using commit_queue [OF assms] by (cases r) (auto simp: lost_iff)

lemma commit_claimed_safe:
  assumes "own \<Longrightarrow> j = i \<and> l = k"
  shows "safe_move own i k w (snd (commit_claimed_result j l h f n allow t w))"
proof -
  have "lost i k (wk_db w) \<Longrightarrow> lost i k (state_of (wk_db w) (commit_probe_queue_result j l h f n allow t (wk_db w)))"
    using lost_step [of i k "wk_db w" "Commit j l h f n allow" t] by (simp add: claims_with_def)
  moreover have "own \<Longrightarrow> commit_probe_queue_result j l h f n allow t (wk_db w) = Inr (Some r, db') \<Longrightarrow> lost i k db'" for r db'
    using assms committed_lost by blast
  moreover have "commit_probe_queue_result j l h f n allow t (wk_db w) = Inr (None, db') \<Longrightarrow> db' = wk_db w" for db'
    using commit_queue [of j l h f n allow t "wk_db w" None db'] by simp
  ultimately show ?thesis
    by (auto simp: safe_move_def commit_claimed_result_def state_of_def split: sum.splits option.splits)
qed

lemma commit_atomically_safe:
  assumes "own \<Longrightarrow> j = i \<and> l = k"
  shows "safe_move own i k w (snd (commit_result_atomically j l h f t w))"
proof -
  obtain r w' where c: "commit_claimed_result j l h f 3 (\<not> wk_stop w) t w = (r, w')" by (metis surj_pair)
  then have "safe_move own i k w w'"
    using commit_claimed_safe [where own = own and i = i and k = k and w = w and h = h and f = f
        and n = 3 and allow = "\<not> wk_stop w" and t = t, OF assms] by simp
  moreover have "safe_move own i k w' (w'\<lparr>wk_stop := b\<rparr>)" for b by (rule safe_move_flags) simp_all
  ultimately show ?thesis
    by (auto simp: commit_result_atomically_def c split: sum.splits outcome.splits intro: safe_move_trans)
qed

lemma record_result_safe:
  assumes "own \<Longrightarrow> j = i \<and> l = k" "fresh_script k sc"
  shows "safe_move own i k w (snd (record_result display server scope j l item sc r w))"
proof -
  define w1 where "w1 = meanwhile j l (ps_renewing sc) w"
  obtain renewed db where rn: "renew_probe_queue_claim j l (ps_renew_at sc) (wk_db w1) = (renewed, db)"
    by (metis surj_pair)
  define w2 where "w2 = w1\<lparr>wk_db := db\<rparr>"
  define w2' where "w2' = meanwhile j l (ps_committing sc) w2"
  obtain q w3 where c: "commit_result_atomically j l (history_payload display server scope item (ps_duration sc) r)
      (failure_payload item r) (ps_commit_at sc) w2' = (q, w3)" by (metis surj_pair)
  have 1: "safe_move own i k w w1"
    unfolding w1_def using assms(2) by (intro meanwhile_safe) (simp add: fresh_script_def)
  have 2: "safe_move own i k w1 w2"
    using renewed_lost [of i k "wk_db w1" j l "ps_renew_at sc"] rn
    by (intro safe_move_db) (simp_all add: w2_def)
  have 3: "safe_move own i k w2 (w2\<lparr>wk_stop := True\<rparr>)" by (rule safe_move_flags) simp_all
  have 4: "safe_move own i k w2 w2'"
    unfolding w2'_def using assms(2) by (intro meanwhile_safe) (simp add: fresh_script_def)
  have 5: "safe_move own i k w2' w3"
    using commit_atomically_safe [where own = own and i = i and k = k and w = w2', OF assms(1)] c by (metis snd_conv)
  have 6: "safe_move own i k w3 (meanwhile j l (ps_ending sc) w3)"
    using assms(2) by (intro meanwhile_safe) (simp add: fresh_script_def)
  note ways = safe_move_trans [OF safe_move_trans [OF 1 2] 3]
    safe_move_trans [OF safe_move_trans [OF safe_move_trans [OF 1 2] 4] 5]
  have "snd (record_result display server scope j l item sc r w) \<in>
      {w2\<lparr>wk_stop := True\<rparr>, w3, meanwhile j l (ps_ending sc) w3}"
    using rn c by (auto simp: record_result_def w1_def [symmetric] w2_def [symmetric] w2'_def [symmetric] Let_def
        split: sum.splits)
  with ways safe_move_trans [OF ways(2) 6] show ?thesis by auto
qed

lemma handle_claimed_safe:
  assumes "own \<Longrightarrow> j = i \<and> l = k" "fresh_script k sc"
  shows "safe_move own i k w (snd (handle_claimed_queue_item display server scope j l item sc w))"
proof -
  define w1 where "w1 = (if ps_paused sc then meanwhile j l (ps_pausing sc) w else w)"
  define w2 where "w2 = (if ps_smart sc then meanwhile j l (ps_waiting sc) w1 else w1)"
  obtain r w3 where p: "probe_item j l sc w2 = (r, w3)" by (metis surj_pair)
  have f: "fresh_events k (ps_pausing sc)" "fresh_events k (ps_waiting sc)"
    using assms(2) by (simp_all add: fresh_script_def)
  have 1: "safe_move own i k w w1" using meanwhile_safe [OF f(1)] by (simp add: w1_def)
  have 2: "safe_move own i k w w2"
    using safe_move_trans [OF 1 meanwhile_safe [OF f(2)]] 1 by (simp add: w2_def)
  have 3: "safe_move own i k w w3"
    using safe_move_trans [OF 2] probe_item_safe [OF assms(2), of own i w2 j l] p by simp
  have rel: "safe_move own i k w3 (release_library_claim j l w3)"
    using assms(1) released_lost [of i k "wk_db w3"] release_keeps_lost [of i k "wk_db w3" j l]
    by (auto simp: safe_move_def release_library_claim_def release_claim_db)
  have rec: "safe_move own i k w3 (snd (record_result display server scope j l item sc x w3))" for x
    using assms by (rule record_result_safe)
  have "snd (handle_claimed_queue_item display server scope j l item sc w) \<in>
      {w, w1, w2, release_library_claim j l w3} \<union> range (\<lambda>x. snd (record_result display server scope j l item sc x w3))"
    using p by (auto simp: handle_claimed_queue_item_def w1_def [symmetric] w2_def [symmetric] Let_def
        split: option.splits)
  with 1 2 safe_move_trans [OF 3 rel] safe_move_trans [OF 3 rec] show ?thesis by auto
qed

lemma handle_queue_item_db:
  obtains w' where
    "w' = snd (handle_claimed_queue_item display server scope i k item sc
       (w\<lparr>wk_finished := False, wk_lost := False, wk_alive := True\<rparr>))"
    "wk_db (snd (handle_queue_item display server scope i k item sc w)) =
       (if wk_finished w' then wk_db w' else snd (release_probe_queue_claim i k (wk_db w')))"
proof -
  obtain r w' where c: "handle_claimed_queue_item display server scope i k item sc
       (w\<lparr>wk_finished := False, wk_lost := False, wk_alive := True\<rparr>) = (r, w')" by (metis surj_pair)
  show thesis
    by (rule that [of w'])
       (cases r; simp add: c handle_queue_item_def run_with_claim_renewal_def release_library_claim_def
          release_claim_db)+
qed

text \<open>However the handling of a row ends, its token no longer owns it; and it gives nothing back to a
  token that had lost its row.\<close>

lemma handled_lost:
  assumes "fresh_script k sc"
  shows "lost i k (wk_db (snd (handle_queue_item display server scope i k item sc w)))"
proof -
  let ?w = "w\<lparr>wk_finished := False, wk_lost := False, wk_alive := True\<rparr>"
  obtain w' where w': "w' = snd (handle_claimed_queue_item display server scope i k item sc ?w)"
    "wk_db (snd (handle_queue_item display server scope i k item sc w)) =
       (if wk_finished w' then wk_db w' else snd (release_probe_queue_claim i k (wk_db w')))"
    by (rule handle_queue_item_db)
  have "safe_move True i k ?w w'"
    unfolding w'(1) using assms by (intro handle_claimed_safe) simp_all
  then have "wk_finished w' \<longrightarrow> lost i k (wk_db w')" by (simp add: safe_move_def)
  with released_lost [of i k "wk_db w'"] w'(2) show ?thesis by simp
qed

lemma handled_keeps_lost:
  assumes "fresh_script k sc" "lost i k (wk_db w)"
  shows "lost i k (wk_db (snd (handle_queue_item display server scope j l item sc w)))"
proof -
  let ?w = "w\<lparr>wk_finished := False, wk_lost := False, wk_alive := True\<rparr>"
  obtain w' where w': "w' = snd (handle_claimed_queue_item display server scope j l item sc ?w)"
    "wk_db (snd (handle_queue_item display server scope j l item sc w)) =
       (if wk_finished w' then wk_db w' else snd (release_probe_queue_claim j l (wk_db w')))"
    by (rule handle_queue_item_db)
  have "safe_move False i k ?w w'"
    unfolding w'(1) using assms(1) by (intro handle_claimed_safe) simp_all
  then have "lost i k (wk_db w')" using assms(2) by (simp add: safe_move_def)
  with release_keeps_lost [of i k "wk_db w'" j l] w'(2) show ?thesis by simp
qed

subsection \<open>Batches\<close>

definition fresh_batch :: "string \<Rightarrow> batch \<Rightarrow> bool" where
  "fresh_batch k bs \<longleftrightarrow> (\<forall>x \<in> set bs. fresh_script k (snd (snd (snd x))))"

lemma unstarted_keep_lost: "lost i k (wk_db w) \<Longrightarrow> lost i k (wk_db (release_unstarted_claims bs w))"
  by (induction bs w rule: release_unstarted_claims.induct) (simp_all add: release_claim_db release_keeps_lost)

lemma unstarted_lost:
  "(i, k, item, sc) \<in> set bs \<Longrightarrow> lost i k (wk_db (release_unstarted_claims bs w))"
proof (induction bs w rule: release_unstarted_claims.induct)
  case (2 j l it s rest w)
  show ?case
  proof (cases "(i, k, item, sc) = (j, l, it, s)")
    case True
    then show ?thesis
      by (simp add: release_claim_db released_lost unstarted_keep_lost)
  next
    case False
    with 2(2) have "(i, k, item, sc) \<in> set rest" by auto
    with 2(1) show ?thesis by simp
  qed
qed simp

lemma batch_keeps_lost:
  "fresh_batch k bs \<Longrightarrow> lost i k (wk_db w) \<Longrightarrow>
     lost i k (wk_db (snd (handle_queue_items display server scope bs w)))"
proof (induction display server scope bs w rule: handle_queue_items.induct)
  case (2 display server scope j l item sc rest w)
  obtain r w' where r: "handle_queue_item display server scope j l item sc w = (r, w')" by (metis surj_pair)
  have "lost i k (wk_db w')"
    using handled_keeps_lost [of k sc i w display server scope j l item] 2 r by (simp add: fresh_batch_def)
  with 2 r show ?case
    by (cases r) (auto simp: fresh_batch_def unstarted_keep_lost split: bool.splits)
qed simp

lemma batch_lost:
  "(i, k, item, sc) \<in> set bs \<Longrightarrow> fresh_batch k bs \<Longrightarrow>
   \<forall>e. fst (handle_queue_items display server scope bs w) \<noteq> Raised e \<Longrightarrow>
     lost i k (wk_db (snd (handle_queue_items display server scope bs w)))"
proof (induction display server scope bs w rule: handle_queue_items.induct)
  case (2 display server scope j l it s rest w)
  obtain r w' where r: "handle_queue_item display server scope j l it s w = (r, w')" by (metis surj_pair)
  have nl: "r \<noteq> Claim_Lost" using r by (auto simp: handle_queue_item_def split: prod.splits outcome.splits)
  have rest: "fresh_batch k rest" using 2 by (simp add: fresh_batch_def)
  show ?case
  proof (cases "(i, k, item, sc) = (j, l, it, s)")
    case True
    with 2 have "fresh_script k s" by (simp add: fresh_batch_def)
    from handled_lost [OF this, of i display server scope it w] True r have l: "lost i k (wk_db w')" by simp
    with rest r 2 nl show ?thesis
      by (cases r) (auto simp: unstarted_keep_lost batch_keeps_lost split: bool.splits)
  next
    case False
    with 2 rest r nl show ?thesis
      by (cases r) (auto simp: unstarted_lost split: bool.splits)
  qed
qed simp


subsection \<open>Stop during polling\<close>

text \<open>What happened by the \<open>n\<close>th look at the stop flag in the polling loop.\<close>

definition poll_events :: "probe_script \<Rightarrow> nat \<Rightarrow> background list" where
  "poll_events sc n = ps_probing sc @ concat (map (ps_polling sc) [0..<n])"

definition started_work :: "probe_work \<Rightarrow> probe_work" where
  "started_work w = w\<lparr>wk_finished := False, wk_lost := False, wk_alive := True\<rparr>"

text \<open>The stop flag is set at the check number \<open>n\<close> and not before; no check succeeded until then.\<close>

definition stopped_at_poll :: "nat \<Rightarrow> int \<Rightarrow> string \<Rightarrow> probe_script \<Rightarrow> probe_work \<Rightarrow> bool" where
  "stopped_at_poll n i k sc w \<longleftrightarrow>
     n < poll_attempts \<and> ps_probe sc \<and> (\<forall>j < n. \<not> fst (ps_verify sc j))
     \<and> \<not> wk_stop (meanwhile i k (poll_events sc n) (started_work w))
     \<and> wk_stop (meanwhile i k (poll_events sc (n + 1)) (started_work w))"

lemma meanwhile_append [simp]: "meanwhile i k (xs @ ys) w = meanwhile i k ys (meanwhile i k xs w)"
  by (simp add: meanwhile_def)

lemma background_keeps_stop: "wk_stop w \<Longrightarrow> wk_stop (background_step i k ev w)"
  by (cases ev) (auto simp: renewal_tick_def mark_claim_lost_def split: option.splits prod.splits)

lemma meanwhile_keeps_stop: "wk_stop w \<Longrightarrow> wk_stop (meanwhile i k evs w)"
  by (induction evs arbitrary: w) (simp_all add: meanwhile_Cons background_keeps_stop)

lemma poll_stopped:
  assumes "n < left" "\<forall>j < n. \<not> fst (ps_verify sc (a + j))"
    and "\<not> wk_stop (meanwhile i k (concat (map (ps_polling sc) [a..<a + n])) w)"
    and "wk_stop (meanwhile i k (concat (map (ps_polling sc) [a..<a + n + 1])) w)"
  shows "\<exists>e. poll_metadata i k sc left a err w = ((False, e), meanwhile i k (concat (map (ps_polling sc) [a..<a + n + 1])) w)"
  using assms
proof (induction n arbitrary: left a err w)
  case 0
  then obtain left' where "left = Suc left'" by (cases left) auto
  with 0 show ?case by (simp add: Let_def)
next
  case (Suc n)
  then obtain left' where left: "left = Suc left'" by (cases left) auto
  let ?w = "meanwhile i k (ps_polling sc a) w"
  have split: "[a..<a + Suc m] = a # [Suc a..<Suc a + m]" for m by (simp add: upt_conv_Cons del: upt_Suc)
  have more: "\<not> wk_stop (meanwhile i k (concat (map (ps_polling sc) [Suc a..<Suc a + n])) ?w)"
    "wk_stop (meanwhile i k (concat (map (ps_polling sc) [Suc a..<Suc a + n + 1])) ?w)"
    using Suc.prems(3,4) split [of n] split [of "Suc n"] by (simp_all del: upt_Suc)
  then have "\<not> wk_stop ?w" using meanwhile_keeps_stop by blast
  moreover obtain e where "ps_verify sc a = (False, e)" using Suc.prems(2) by (cases "ps_verify sc a") force
  moreover have "\<forall>j < n. \<not> fst (ps_verify sc (Suc a + j))" using Suc.prems(2) by force
  with Suc.IH [of left' "Suc a" ?w e] more Suc.prems(1) left
  have "\<exists>e'. poll_metadata i k sc left' (Suc a) e ?w
      = ((False, e'), meanwhile i k (concat (map (ps_polling sc) [Suc a..<Suc a + n + 1])) ?w)" by simp
  ultimately show ?case using split [of "Suc n"] by (auto simp: left Let_def simp del: upt_Suc)
qed

lemma probe_item_stopped:
  assumes "stopped_at_poll n i k sc w"
  shows "\<exists>e. probe_item i k sc (started_work w) = (Some (incomplete_result e), meanwhile i k (poll_events sc (n + 1)) (started_work w))"
proof -
  let ?w = "meanwhile i k (ps_probing sc) (started_work w)"
  have "\<not> wk_stop ?w"
    using assms meanwhile_keeps_stop [of ?w] by (auto simp: stopped_at_poll_def poll_events_def)
  moreover obtain e where "poll_metadata i k sc poll_attempts 0 None ?w
      = ((False, e), meanwhile i k (concat (map (ps_polling sc) [0..<0 + n + 1])) ?w)"
    using poll_stopped [of n poll_attempts sc 0 i k ?w None] assms
    by (auto simp: stopped_at_poll_def poll_events_def simp del: upt_Suc)
  ultimately show ?thesis using assms
    by (auto simp: probe_item_def stopped_at_poll_def poll_events_def Let_def simp del: upt_Suc)
qed

lemma release_frees: "snd (release_probe_queue_claim i k db) =
    db\<lparr>pd_queue := map (\<lambda>r. if owned_row i k r then free_row r else r) (pd_queue db)\<rparr>"
  by (simp add: release_probe_queue_claim_def update_owned_def free_row_def cong: if_cong)

text \<open>
  C20: Stop set at any check of the polling loop, from outside or because a renewal lost the claim:
  the worker of recent items frees the row, if it still has it, and touches nothing else.  Queue,
  blacklist and history are as the other workers left them.
\<close>

theorem stop_while_polling:
  fixes n i k sc w name server scope item
  defines "db \<equiv> wk_db (meanwhile i k (poll_events sc (n + 1) @ ps_renewing sc) (started_work w))"
  assumes "stopped_at_poll n i k sc w"
  shows "wk_db (snd (probe_claimed_recent_item name server scope i k item sc w)) =
    db\<lparr>pd_queue := map (\<lambda>r. if owned_row i k r then free_row r else r) (pd_queue db)\<rparr>"
proof -
  let ?w = "meanwhile i k (poll_events sc (n + 1) @ ps_renewing sc) (started_work w)"
  obtain e where probe: "probe_item i k sc (started_work w)
      = (Some (incomplete_result e), meanwhile i k (poll_events sc (n + 1)) (started_work w))"
    using probe_item_stopped [OF assms(2)] by blast
  have "wk_stop ?w" using assms(2) by (simp add: stopped_at_poll_def meanwhile_keeps_stop)
  then have run: "probe_recent_and_commit name server scope i k item sc (started_work w) = release_recent_claim i k ?w"
    by (simp add: probe_recent_and_commit_def probe Let_def)
  obtain r w' where r: "release_recent_claim i k ?w = (r, w')" by fastforce
  then have db: "wk_db w' = snd (release_probe_queue_claim i k (wk_db ?w))"
    by (auto simp: release_recent_claim_def release_claim_def split: prod.splits bool.splits)
  have "wk_db (snd (probe_claimed_recent_item name server scope i k item sc w)) = wk_db w'"
    using run r by (auto simp: probe_claimed_recent_item_def run_with_claim_renewal_def started_work_def split: outcome.splits prod.splits)
  then show ?thesis by (simp add: db release_frees db_def)
qed

lemma commit_answers:
  assumes "commit_probe_queue_result i k h f n allow t db = Inr (None, db')"
  shows "k = [] \<or> filter (owned_row i k) (pd_queue db) = []"
  using assms by (auto simp: commit_probe_queue_result_def result_bind_Inr_iff Let_def split: if_splits)

text \<open>
  The library worker in the same place, with its claim still its own: it records a failure that no
  check observed when stop comes before the first one, and removes the row from the queue, because a
  stopped worker frees no row for a retry.
\<close>

theorem library_stop_records_failure:
  fixes n i k sc w display server scope item
  defines "db \<equiv> wk_db (meanwhile i k (poll_events sc (n + 1)) (started_work w))"
  assumes sc: "stopped_at_poll n i k sc w" "\<not> wk_stop w" "\<not> ps_paused sc" "\<not> ps_smart sc"
      "ps_renewing sc = []" "ps_committing sc = []" "ps_ending sc = []"
    and e: "queue_wf db" "e \<in> set (pd_queue db)" "owned_row i k e" "k \<noteq> []"
    and ok: "\<forall>x. fst (handle_queue_item display server scope i k item sc w) \<noteq> Raised x"
  shows "pd_queue (wk_db (snd (handle_queue_item display server scope i k item sc w))) =
           filter (\<lambda>r. \<not> owned_row i k r) (pd_queue db)
         \<and> (\<exists>err r. commit_identity (history_payload display server scope item (ps_duration sc) (incomplete_result err)) = Some r
              \<and> black_count r (wk_db (snd (handle_queue_item display server scope i k item sc w))) = black_count r db + 1)"
proof -
  define v where "v = meanwhile i k (poll_events sc (n + 1)) (started_work w)"
  let ?own = "\<lambda>r. if owned_row i k r then r\<lparr>qe_claimed_at := Some (ps_renew_at sc)\<rparr> else r"
  obtain err where probe: "probe_item i k sc (started_work w) = (Some (incomplete_result err), v)"
    unfolding v_def using probe_item_stopped [OF sc(1)] by blast
  let ?h = "history_payload display server scope item (ps_duration sc) (incomplete_result err)"
  let ?f = "failure_payload item (incomplete_result err)"
  have own: "filter (owned_row i k) (pd_queue db) = [e]" by (rule only_owner [OF e(1-3)])
  have stop: "wk_stop v" "\<not> wk_stop (started_work w)" using sc(1,2) by (simp_all add: stopped_at_poll_def started_work_def v_def)
  define db1 where "db1 = db\<lparr>pd_queue := map ?own (pd_queue db)\<rparr>"
  have renew: "renew_probe_queue_claim i k (ps_renew_at sc) (wk_db v) = (True, db1)"
    using own by (simp add: renew_probe_queue_claim_def update_owned_def db1_def db_def v_def)
  have owned: "owned_row i k (?own r) = owned_row i k r" for r by (simp add: owned_row_def)
  have own': "filter (owned_row i k) (pd_queue db1) \<noteq> []"
    by (simp add: db1_def filter_map comp_def owned own)
  have gone: "filter (\<lambda>r. \<not> owned_row i k r) (map ?own xs) = filter (\<lambda>r. \<not> owned_row i k r) xs" for xs
    by (induction xs) (simp_all add: owned_row_def)
  let ?c = "commit_probe_queue_result i k ?h ?f 3 False (ps_commit_at sc) db1"
  have handled: "handle_claimed_queue_item display server scope i k item sc (started_work w) =
     (case ?c of
        Inl x \<Rightarrow> (Raised x, v\<lparr>wk_db := db1\<rparr>)
      | Inr (None, d) \<Rightarrow> (Claim_Lost, v\<lparr>wk_db := d, wk_stop := True\<rparr>)
      | Inr (Some r, d) \<Rightarrow> (Returned False, v\<lparr>wk_db := d, wk_finished := True\<rparr>))"
    using sc(3-7) stop by (simp add: handle_claimed_queue_item_def Let_def probe record_result_def renew
        commit_result_atomically_def commit_claimed_result_def split: sum.splits option.splits)
  have item: "handle_queue_item display server scope i k item sc w =
    (case run_with_claim_renewal (handle_claimed_queue_item display server scope i k item sc) w of
        (r, w') \<Rightarrow> ((case r of Claim_Lost \<Rightarrow> Returned False | _ \<Rightarrow> r),
           if wk_finished w' then w' else release_library_claim i k w'))"
    by (simp add: handle_queue_item_def)
  have c: "\<exists>n' rq d. ?c = Inr (Some (n', rq), d)"
  proof (cases ?c)
    case (Inl x)
    with ok show ?thesis unfolding item run_with_claim_renewal_def handled [unfolded started_work_def] by simp
  next
    case (Inr p)
    obtain r d where p: "p = (r, d)" by fastforce
    have "r \<noteq> None"
    proof
      assume "r = None"
      with Inr p have "?c = Inr (None, d)" by simp
      from commit_answers [OF this] e(4) own' show False by simp
    qed
    then show ?thesis using Inr p by (cases r) auto
  qed
  then obtain n' rq d where c: "?c = Inr (Some (n', rq), d)" by blast
  obtain f where f: "?f = Some f" by (simp add: failure_payload_def incomplete_result_def)
  from c have c': "commit_probe_queue_result i k ?h (Some f) 3 False (ps_commit_at sc) db1 = Inr (Some (n', rq), d)"
    by (simp add: f)
  obtain q where q: "commit_identity ?h = Some q" "n' = black_count q db1 + 1" "rq = (False \<and> n' < max 1 3)"
    "\<And>r'. black_count r' d = (if r' = q then n' else black_count r' db1)"
    by (rule commit_counts [OF c']) blast
  have "pd_queue d = filter (\<lambda>r. \<not> owned_row i k r) (pd_queue db)"
    using commit_queue [OF c'] q(3) gone by (simp add: db1_def)
  moreover have "black_count q db1 = black_count q db" by (rule black_count_cong) (simp add: db1_def)
  moreover have "wk_db (snd (handle_queue_item display server scope i k item sc w)) = d"
    unfolding item run_with_claim_renewal_def handled [unfolded started_work_def] c by simp
  ultimately show ?thesis using q(1,2,4) by auto
qed

subsection \<open>Witnesses\<close>

definition quiet_script :: probe_script where
  "quiet_script = \<lparr>ps_paused = False, ps_smart = False, ps_probe = True, ps_verify = (\<lambda>n. (True, None)),
     ps_duration = 5, ps_pausing = [], ps_waiting = [], ps_probing = [],
     ps_polling = (\<lambda>n. [Stop_Pressed]), ps_renewing = [], ps_renew_at = 3, ps_committing = [],
     ps_commit_at = 4, ps_ending = []\<rparr>"

definition sample_work :: probe_work where
  "sample_work = \<lparr>wk_db = sample_db\<lparr>pd_queue := [sample_row\<lparr>qe_claim_token := Some ''w'', qe_claimed_at := Some 0\<rparr>]\<rparr>,
     wk_stop = False, wk_finished = False, wk_lost = False, wk_alive = False\<rparr>"


text \<open>A row without an item id makes the commit raise, so the witness has one.\<close>

definition sample_item :: pdict where
  "sample_item = [(''item_id'', PStr ''a''), (''library_id'', PNone)]"

lemma quiet_stop: "stopped_at_poll 0 7 k quiet_script sample_work"
  by (simp add: stopped_at_poll_def poll_attempts_def poll_events_def quiet_script_def sample_work_def started_work_def
      meanwhile_Cons)

lemma stop_while_polling_witness:
  "pd_history (wk_db (snd (probe_claimed_recent_item ''n'' ''s'' ''recent'' 7 ''w'' sample_item quiet_script sample_work))) = []
   \<and> pd_black (wk_db (snd (probe_claimed_recent_item ''n'' ''s'' ''recent'' 7 ''w'' sample_item quiet_script sample_work))) = []"
  using stop_while_polling [OF quiet_stop, where name = "''n''" and server = "''s''" and scope = "''recent''" and item = sample_item]
  by (simp add: poll_events_def quiet_script_def sample_work_def started_work_def meanwhile_Cons sample_db_def empty_probe_db_def)

lemma library_stop_records_failure_witness:
  "pd_queue (wk_db (snd (handle_queue_item (\<lambda>d. ''n'') ''s'' ''libraries'' 7 ''w'' sample_item quiet_script sample_work))) = []"
proof -
  let ?e = "sample_row\<lparr>qe_claim_token := Some ''w'', qe_claimed_at := Some 0\<rparr>"
  have db: "wk_db (meanwhile 7 ''w'' (poll_events quiet_script (0 + 1)) (started_work sample_work)) = wk_db sample_work"
    by (simp add: poll_events_def quiet_script_def started_work_def meanwhile_Cons)
  have wf: "queue_wf (wk_db sample_work)"
    by (simp add: queue_wf_def sample_work_def sample_db_def sample_row_def empty_probe_db_def)
  have e: "?e \<in> set (pd_queue (wk_db sample_work))" "owned_row 7 ''w'' ?e"
    by (simp_all add: sample_work_def sample_row_def owned_row_def)
  have sc: "\<not> wk_stop sample_work" "\<not> ps_paused quiet_script" "\<not> ps_smart quiet_script"
    "ps_renewing quiet_script = []" "ps_committing quiet_script = []" "ps_ending quiet_script = []"
    by (simp_all add: quiet_script_def sample_work_def)
  have "fst (handle_queue_item (\<lambda>d. ''n'') ''s'' ''libraries'' 7 ''w'' sample_item quiet_script sample_work) = Returned False"
    by code_simp
  then have ok: "\<forall>x. fst (handle_queue_item (\<lambda>d. ''n'') ''s'' ''libraries'' 7 ''w'' sample_item quiet_script sample_work) \<noteq> Raised x"
    by simp
  from library_stop_records_failure [OF quiet_stop sc, where k = "''w''", unfolded db, OF wf e _ ok] show ?thesis
    by (simp add: sample_work_def sample_row_def owned_row_def)
qed

end
