(* ===== verification/Notification_Ledger.thy ===== *)
theory Notification_Ledger
  imports Text_Limits
begin

text \<open>
  The ledger of notification deliveries (\<open>core/storage/storage_latest_notifications.py\<close>): one row
  per delivery key, with the token of the dispatch that claimed it.  A method is one transaction,
  except a claim, which commits up to three times; its parts are steps of their own
  (\<open>ledger_step\<close>), so that other processes may run between them.  Each transaction reads the clock
  once; an advisory lock taken by the first part of a claim ends with that part's commit.
  Whether the server of a delivery still exists is read from the settings by another component and
  is an argument.
\<close>

record delivery_row =
  dl_server_id :: string
  dl_publication_key :: string
  dl_destination_key :: string
  dl_status :: string
  dl_claim_token :: string
  dl_claimed_at :: int
  dl_sent_at :: "int option"
  dl_failed_at :: "int option"
  dl_last_error :: "string option"
  dl_created_at :: int
  dl_updated_at :: int

type_synonym ledger = "(string, delivery_row) dict"

definition minutes_span :: "int \<Rightarrow> int" where
  "minutes_span n = n * 60 * 1000000"

definition days_span :: "int \<Rightarrow> int" where
  "days_span n = n * 86400 * 1000000"

definition NOTIFICATION_CLAIM_LEASE :: int where
  "NOTIFICATION_CLAIM_LEASE = minutes_span 15"

definition NOTIFICATION_RETENTION :: int where
  "NOTIFICATION_RETENTION = days_span 90"

definition NOTIFICATION_UNKNOWN_RETENTION :: int where
  "NOTIFICATION_UNKNOWN_RETENTION = days_span 365"

subsection \<open>Pruning and reset\<close>

definition outlived :: "int \<Rightarrow> delivery_row \<Rightarrow> bool" where
  "outlived now r \<longleftrightarrow>
     (dl_status r \<in> {''sent'', ''failed''} \<and> dl_updated_at r < now - NOTIFICATION_RETENTION)
     \<or> (dl_status r = ''unknown'' \<and> dl_updated_at r < now - NOTIFICATION_UNKNOWN_RETENTION)"

definition prune_latest_notification_deliveries :: "int \<Rightarrow> ledger \<Rightarrow> nat \<times> ledger" where
  "prune_latest_notification_deliveries now l =
     (length (filter (\<lambda>p. outlived now (snd p)) l), filter (\<lambda>p. \<not> outlived now (snd p)) l)"

definition reset_latest_notification_deliveries :: "ledger \<Rightarrow> nat \<times> ledger" where
  "reset_latest_notification_deliveries l = (length l, [])"

subsection \<open>The parts of a claim\<close>

record delivery_claim_request =
  rq_delivery_key :: string
  rq_server_id :: string
  rq_publication_key :: string
  rq_destination_key :: string
  rq_claim_token :: string

definition checked_request :: "py \<Rightarrow> py \<Rightarrow> py \<Rightarrow> py \<Rightarrow> py \<Rightarrow> exn + delivery_claim_request" where
  "checked_request delivery_key server_id publication_key destination_key claim_token =
     result_bind (require_bounded_text delivery_key ''delivery_key'' 64 False) (\<lambda>k.
     result_bind (require_bounded_text server_id ''server_id'' 36 False) (\<lambda>s.
     result_bind (require_bounded_text destination_key ''destination_key'' 257 False) (\<lambda>d.
     result_bind (require_bounded_text claim_token ''claim_token'' 32 False) (\<lambda>t.
     result_bind (require_persisted_text publication_key ''publication_key'') (\<lambda>p.
     Inr \<lparr>rq_delivery_key = k, rq_server_id = s, rq_publication_key = p, rq_destination_key = d,
          rq_claim_token = t\<rparr>)))))"

text \<open>
  First part: prune and insert.  A row with the key makes the insert fail, and the rollback undoes
  the pruning too.
\<close>

definition new_delivery :: "delivery_claim_request \<Rightarrow> int \<Rightarrow> delivery_row" where
  "new_delivery q now =
     \<lparr>dl_server_id = rq_server_id q, dl_publication_key = rq_publication_key q,
      dl_destination_key = rq_destination_key q, dl_status = ''claimed'',
      dl_claim_token = rq_claim_token q, dl_claimed_at = now, dl_sent_at = None, dl_failed_at = None,
      dl_last_error = None, dl_created_at = now, dl_updated_at = now\<rparr>"

definition claim_insert :: "delivery_claim_request \<Rightarrow> int \<Rightarrow> ledger \<Rightarrow> bool \<times> ledger" where
  "claim_insert q now l =
     (let pruned = snd (prune_latest_notification_deliveries now l)
      in case map_of pruned (rq_delivery_key q) of
           Some r \<Rightarrow> (False, l)
         | None \<Rightarrow> (True, dset (rq_delivery_key q) (new_delivery q now) pruned))"

text \<open>Second part: a claim older than its lease becomes an unknown outcome.\<close>

definition claim_mark_stale :: "string \<Rightarrow> int \<Rightarrow> ledger \<Rightarrow> ledger" where
  "claim_mark_stale k now l =
     (case map_of l k of
        None \<Rightarrow> l
      | Some r \<Rightarrow>
          if dl_status r = ''claimed'' \<and> dl_claimed_at r < now - NOTIFICATION_CLAIM_LEASE
          then dset k (r\<lparr>dl_status := ''unknown'',
                 dl_last_error := Some ''Esito consegna sconosciuto dopo interruzione del worker'',
                 dl_updated_at := now\<rparr>) l
          else l)"

text \<open>Third part: a failed delivery is claimed again.\<close>

definition claim_failed :: "string \<Rightarrow> string \<Rightarrow> int \<Rightarrow> ledger \<Rightarrow> bool \<times> ledger" where
  "claim_failed k token now l =
     (case map_of l k of
        None \<Rightarrow> (False, l)
      | Some r \<Rightarrow>
          if dl_status r = ''failed''
          then (True, dset k (r\<lparr>dl_status := ''claimed'', dl_claim_token := token, dl_claimed_at := now,
                  dl_failed_at := None, dl_last_error := None, dl_updated_at := now\<rparr>) l)
          else (False, l))"

definition claim_answer :: "string \<Rightarrow> ledger \<Rightarrow> string" where
  "claim_answer k l =
     (case map_of l k of
        Some r \<Rightarrow> if dl_status r \<in> {''sent'', ''unknown''} then dl_status r else ''in_progress''
      | None \<Rightarrow> ''in_progress'')"

text \<open>The whole method; \<open>others\<close> are what other processes do to the ledger after each commit.\<close>

definition claim_latest_notification_delivery ::
  "(nat \<Rightarrow> ledger \<Rightarrow> ledger) \<Rightarrow> bool \<Rightarrow> delivery_claim_request \<Rightarrow> int \<Rightarrow> ledger \<Rightarrow> string \<times> ledger" where
  "claim_latest_notification_delivery others server_exists q now l =
     (if \<not> server_exists then (''server_deleted'', l)
      else case claim_insert q now l of
             (True, l1) \<Rightarrow> (''acquired'', l1)
           | (False, l1) \<Rightarrow>
               (case claim_failed (rq_delivery_key q) (rq_claim_token q) now
                       (others 1 (claim_mark_stale (rq_delivery_key q) now (others 0 l1))) of
                  (True, l2) \<Rightarrow> (''acquired'', l2)
                | (False, l2) \<Rightarrow> (let l3 = others 2 l2 in (claim_answer (rq_delivery_key q) l3, l3))))"

subsection \<open>The end of a claim\<close>

definition owned_delivery :: "string \<Rightarrow> delivery_row \<Rightarrow> bool" where
  "owned_delivery token r \<longleftrightarrow> dl_status r = ''claimed'' \<and> dl_claim_token r = token"

definition update_owned_delivery ::
  "string \<Rightarrow> string \<Rightarrow> (delivery_row \<Rightarrow> delivery_row) \<Rightarrow> ledger \<Rightarrow> bool \<times> ledger" where
  "update_owned_delivery k token f l =
     (case map_of l k of
        None \<Rightarrow> (False, l)
      | Some r \<Rightarrow> if owned_delivery token r then (True, dset k (f r) l) else (False, l))"

definition sent_row :: "int \<Rightarrow> delivery_row \<Rightarrow> delivery_row" where
  "sent_row now r = r\<lparr>dl_status := ''sent'', dl_sent_at := Some now, dl_updated_at := now\<rparr>"

definition failed_row :: "string option \<Rightarrow> int \<Rightarrow> delivery_row \<Rightarrow> delivery_row" where
  "failed_row message now r =
     r\<lparr>dl_status := ''failed'', dl_failed_at := Some now, dl_last_error := message, dl_updated_at := now\<rparr>"

definition complete_latest_notification_delivery :: "py \<Rightarrow> py \<Rightarrow> int \<Rightarrow> ledger \<Rightarrow> exn + bool \<times> ledger" where
  "complete_latest_notification_delivery delivery_key claim_token now l =
     result_bind (require_bounded_text delivery_key ''delivery_key'' 64 False) (\<lambda>k.
     result_bind (require_bounded_text claim_token ''claim_token'' 32 False) (\<lambda>token.
     Inr (update_owned_delivery k token (sent_row now) l)))"

definition fail_latest_notification_delivery :: "py \<Rightarrow> py \<Rightarrow> py \<Rightarrow> int \<Rightarrow> ledger \<Rightarrow> exn + bool \<times> ledger" where
  "fail_latest_notification_delivery delivery_key claim_token error now l =
     result_bind (require_bounded_text delivery_key ''delivery_key'' 64 False) (\<lambda>k.
     result_bind (require_bounded_text claim_token ''claim_token'' 32 False) (\<lambda>token.
     let message = project_persisted_text error (Some 2000) True
     in Inr (update_owned_delivery k token (failed_row message now) l)))"

subsection \<open>Steps\<close>

datatype ledger_step =
    Insert delivery_claim_request int
  | Mark_Stale string int
  | Take_Failed string string int
  | Complete string string int
  | Fail string string py int
  | Prune int
  | Reset

definition ledger_of :: "ledger \<Rightarrow> exn + bool \<times> ledger \<Rightarrow> ledger" where
  "ledger_of l r = (case r of Inl e \<Rightarrow> l | Inr (b, l') \<Rightarrow> l')"

primrec ledger_exec :: "ledger_step \<Rightarrow> ledger \<Rightarrow> ledger" where
  "ledger_exec (Insert q now) l = snd (claim_insert q now l)"
| "ledger_exec (Mark_Stale k now) l = claim_mark_stale k now l"
| "ledger_exec (Take_Failed k token now) l = snd (claim_failed k token now l)"
| "ledger_exec (Complete k token now) l =
     ledger_of l (complete_latest_notification_delivery (PStr k) (PStr token) now l)"
| "ledger_exec (Fail k token e now) l =
     ledger_of l (fail_latest_notification_delivery (PStr k) (PStr token) e now l)"
| "ledger_exec (Prune now) l = snd (prune_latest_notification_deliveries now l)"
| "ledger_exec Reset l = snd (reset_latest_notification_deliveries l)"

definition ledger_run :: "ledger_step list \<Rightarrow> ledger \<Rightarrow> ledger" where
  "ledger_run steps l = foldl (\<lambda>l s. ledger_exec s l) l steps"

text \<open>What a step does to the delivery with key \<open>k\<close>: it is given out, reported as failed, or forgotten.\<close>

definition gives_out :: "string \<Rightarrow> ledger_step \<Rightarrow> ledger \<Rightarrow> bool" where
  "gives_out k s l =
     (case s of
        Insert q now \<Rightarrow> rq_delivery_key q = k \<and> fst (claim_insert q now l)
      | Take_Failed k' token now \<Rightarrow> k' = k \<and> fst (claim_failed k' token now l)
      | _ \<Rightarrow> False)"

definition reports_failure :: "string \<Rightarrow> ledger_step \<Rightarrow> ledger \<Rightarrow> bool" where
  "reports_failure k s l =
     (case s of
        Fail k' token e now \<Rightarrow>
          strip k' = k \<and>
          (case fail_latest_notification_delivery (PStr k') (PStr token) e now l of
             Inl x \<Rightarrow> False | Inr (b, l') \<Rightarrow> b)
      | _ \<Rightarrow> False)"

definition forgets :: "string \<Rightarrow> ledger_step \<Rightarrow> ledger \<Rightarrow> bool" where
  "forgets k s l =
     (case s of
        Insert q now \<Rightarrow> (\<exists>r. map_of l k = Some r \<and> outlived now r) \<and> fst (claim_insert q now l)
      | Prune now \<Rightarrow> (case map_of l k of None \<Rightarrow> False | Some r \<Rightarrow> outlived now r)
      | Reset \<Rightarrow> map_of l k \<noteq> None
      | _ \<Rightarrow> False)"

fun count_steps :: "(ledger_step \<Rightarrow> ledger \<Rightarrow> bool) \<Rightarrow> ledger_step list \<Rightarrow> ledger \<Rightarrow> nat" where
  "count_steps P [] l = 0"
| "count_steps P (s # ss) l = (if P s l then 1 else 0) + count_steps P ss (ledger_exec s l)"

text \<open>A delivery can be given out while it has no row or a failed one.\<close>

definition available :: "string \<Rightarrow> ledger \<Rightarrow> bool" where
  "available k l = (case map_of l k of None \<Rightarrow> True | Some r \<Rightarrow> dl_status r = ''failed'')"

definition ledger_wf :: "ledger \<Rightarrow> bool" where
  "ledger_wf l \<longleftrightarrow> distinct (dkeys l)"

lemma map_of_pruned:
  assumes "ledger_wf l"
  shows "map_of (snd (prune_latest_notification_deliveries now l)) k =
    (case map_of l k of None \<Rightarrow> None | Some r \<Rightarrow> if outlived now r then None else Some r)"
  using assms
  by (auto simp: prune_latest_notification_deliveries_def ledger_wf_def map_of_filter_distinct split: option.splits)

lemma ledger_wf_pruned: "ledger_wf l \<Longrightarrow> ledger_wf (snd (prune_latest_notification_deliveries now l))"
  by (simp add: ledger_wf_def prune_latest_notification_deliveries_def distinct_dkeys_filter)

lemma ledger_wf_dset: "ledger_wf l \<Longrightarrow> ledger_wf (dset k r l)"
  by (simp add: ledger_wf_def)

lemma ledger_wf_update: "ledger_wf l \<Longrightarrow> ledger_wf (snd (update_owned_delivery k token f l))"
  by (auto simp: update_owned_delivery_def ledger_wf_dset split: option.splits)

text \<open>A completion or a failure report updates the row when it is owned, and does nothing otherwise.\<close>

lemma complete_exec:
  "complete_latest_notification_delivery (PStr k) (PStr token) now l =
     Inr (update_owned_delivery (strip k) (strip token) (sent_row now) l)
   \<or> (\<exists>e. complete_latest_notification_delivery (PStr k) (PStr token) now l = Inl e)"
proof (cases "require_bounded_text (PStr k) ''delivery_key'' 64 False")
  case k: (Inr a)
  show ?thesis
  proof (cases "require_bounded_text (PStr token) ''claim_token'' 32 False")
    case (Inr b)
    have "a = strip k" "b = strip token"
      using require_bounded_text_Inr [OF k] require_bounded_text_Inr [OF Inr] by simp_all
    with k Inr show ?thesis by (simp add: complete_latest_notification_delivery_def)
  qed (simp add: complete_latest_notification_delivery_def k)
qed (simp add: complete_latest_notification_delivery_def)

lemma fail_exec:
  "fail_latest_notification_delivery (PStr k) (PStr token) e now l =
     Inr (update_owned_delivery (strip k) (strip token) (failed_row (project_persisted_text e (Some 2000) True) now) l)
   \<or> (\<exists>x. fail_latest_notification_delivery (PStr k) (PStr token) e now l = Inl x)"
proof (cases "require_bounded_text (PStr k) ''delivery_key'' 64 False")
  case k: (Inr a)
  show ?thesis
  proof (cases "require_bounded_text (PStr token) ''claim_token'' 32 False")
    case (Inr b)
    have "a = strip k" "b = strip token"
      using require_bounded_text_Inr [OF k] require_bounded_text_Inr [OF Inr] by simp_all
    with k Inr show ?thesis by (simp add: fail_latest_notification_delivery_def Let_def)
  qed (simp add: fail_latest_notification_delivery_def k)
qed (simp add: fail_latest_notification_delivery_def)

lemma ledger_wf_exec: "ledger_wf l \<Longrightarrow> ledger_wf (ledger_exec s l)"
proof (cases s)
  case (Insert q now)
  assume "ledger_wf l"
  with ledger_wf_pruned [OF this, of now] show ?thesis
    by (auto simp: Insert claim_insert_def Let_def ledger_wf_dset split: option.splits)
next
  case (Prune now)
  assume "ledger_wf l"
  then show ?thesis by (simp add: Prune ledger_wf_pruned)
next
  case (Complete k token now)
  assume "ledger_wf l"
  then show ?thesis using complete_exec [of k token now l]
    by (auto simp: Complete ledger_of_def ledger_wf_update split: prod.splits) (metis ledger_wf_update snd_conv)
next
  case (Fail k token e now)
  assume "ledger_wf l"
  then show ?thesis using fail_exec [of k token e now l]
    by (auto simp: Fail ledger_of_def split: prod.splits) (metis ledger_wf_update snd_conv)
next
  case Reset
  then show ?thesis by (simp add: reset_latest_notification_deliveries_def ledger_wf_def dkeys_def)
qed (auto simp: claim_mark_stale_def claim_failed_def ledger_wf_dset split: option.splits)

subsection \<open>Accounting\<close>

lemma update_owned_row:
  "map_of (snd (update_owned_delivery k' token f l)) k =
     (case map_of l k of
        None \<Rightarrow> None
      | Some r \<Rightarrow> Some (if k = k' \<and> owned_delivery token r then f r else r))"
  by (auto simp: update_owned_delivery_def split: option.splits)

lemma complete_state:
  "ledger_exec (Complete k token now) l = l
   \<or> ledger_exec (Complete k token now) l = snd (update_owned_delivery (strip k) (strip token) (sent_row now) l)"
  using complete_exec [of k token now l] by (auto simp: ledger_of_def split: prod.splits)

lemma fail_state:
  "(ledger_exec (Fail k token e now) l = l \<and> \<not> reports_failure k' (Fail k token e now) l)
   \<or> (ledger_exec (Fail k token e now) l =
        snd (update_owned_delivery (strip k) (strip token) (failed_row (project_persisted_text e (Some 2000) True) now) l)
      \<and> reports_failure k' (Fail k token e now) l =
        (strip k = k' \<and> (case map_of l k' of None \<Rightarrow> False | Some r \<Rightarrow> owned_delivery (strip token) r)))"
proof -
  let ?f = "failed_row (project_persisted_text e (Some 2000) True) now"
  from fail_exec [of k token e now l] show ?thesis
  proof
    assume f: "fail_latest_notification_delivery (PStr k) (PStr token) e now l =
      Inr (update_owned_delivery (strip k) (strip token) ?f l)"
    obtain b l' where u: "update_owned_delivery (strip k) (strip token) ?f l = (b, l')" by (metis surj_pair)
    have "b = (case map_of l (strip k) of None \<Rightarrow> False | Some r \<Rightarrow> owned_delivery (strip token) r)"
      using u by (auto simp: update_owned_delivery_def split: option.splits if_splits)
    with f u show ?thesis by (auto simp: ledger_of_def reports_failure_def)
  next
    assume "\<exists>x. fail_latest_notification_delivery (PStr k) (PStr token) e now l = Inl x"
    then show ?thesis by (auto simp: ledger_of_def reports_failure_def)
  qed
qed

lemma ledger_accounting_step:
  assumes wf: "ledger_wf l"
  shows "of_bool (gives_out k s l) + of_bool (available k (ledger_exec s l))
     \<le> (of_bool (available k l) + of_bool (reports_failure k s l) + of_bool (forgets k s l) :: nat)"
proof (cases s)
  case (Insert q now)
  note pruned = map_of_pruned [OF wf, of now]
  show ?thesis
  proof (cases "fst (claim_insert q now l)")
    case True
    then have none: "map_of (snd (prune_latest_notification_deliveries now l)) (rq_delivery_key q) = None"
      and ex: "ledger_exec s l = dset (rq_delivery_key q) (new_delivery q now) (snd (prune_latest_notification_deliveries now l))"
      by (auto simp: Insert claim_insert_def Let_def split: option.splits)
    show ?thesis
    proof (cases "rq_delivery_key q = k")
      case same: True
      have "\<not> available k (ledger_exec s l)"
        using ex same by (simp add: available_def new_delivery_def)
      moreover have "available k l \<or> forgets k s l"
        using none True same by (auto simp: available_def forgets_def Insert pruned split: option.splits if_splits)
      ultimately show ?thesis by auto
    next
      case False
      then have "\<not> gives_out k s l" by (simp add: gives_out_def Insert)
      moreover have "available k (ledger_exec s l) \<Longrightarrow> available k l \<or> forgets k s l"
        using ex False True by (auto simp: available_def forgets_def Insert pruned split: option.splits if_splits)
      ultimately show ?thesis by auto
    qed
  next
    case False
    then have "ledger_exec s l = l" by (auto simp: Insert claim_insert_def Let_def split: option.splits)
    with False show ?thesis by (simp add: gives_out_def Insert)
  qed
next
  case (Mark_Stale k' now)
  then show ?thesis
    by (auto simp: gives_out_def available_def claim_mark_stale_def split: option.splits)
next
  case (Take_Failed k' token now)
  then show ?thesis
    by (auto simp: gives_out_def available_def claim_failed_def split: option.splits)
next
  case (Complete k' token now)
  have "available k (ledger_exec s l) \<Longrightarrow> available k l"
    using complete_state [of k' token now l]
    by (auto simp: Complete available_def update_owned_row sent_row_def owned_delivery_def split: option.splits if_splits)
  then show ?thesis by (auto simp: gives_out_def Complete)
next
  case (Fail k' token e now)
  have "available k (ledger_exec s l) \<Longrightarrow> available k l \<or> reports_failure k s l"
    using fail_state [of k' token e now l k]
    by (auto simp: Fail available_def update_owned_row split: option.splits if_splits)
  then show ?thesis by (auto simp: gives_out_def Fail)
next
  case (Prune now)
  then show ?thesis
    by (auto simp: gives_out_def available_def forgets_def map_of_pruned [OF wf] split: option.splits)
next
  case Reset
  then show ?thesis
    by (auto simp: gives_out_def available_def forgets_def reset_latest_notification_deliveries_def
        split: option.splits)
qed

lemma ledger_accounting:
  "ledger_wf l \<Longrightarrow>
   count_steps (gives_out k) steps l + of_bool (available k (ledger_run steps l))
     \<le> of_bool (available k l) + count_steps (reports_failure k) steps l + count_steps (forgets k) steps l"
proof (induction steps arbitrary: l)
  case (Cons s steps)
  have c: "count_steps P (s # steps) l = of_bool (P s l) + count_steps P steps (ledger_exec s l)" for P
    by simp
  have r: "ledger_run (s # steps) l = ledger_run steps (ledger_exec s l)" by (simp add: ledger_run_def)
  show ?case
    unfolding c r
    using Cons.IH [OF ledger_wf_exec [OF Cons.prems, of s]] ledger_accounting_step [OF Cons.prems, of k s]
    by linarith
qed (simp add: ledger_run_def)

text \<open>
  C17: However the steps of any number of dispatches interleave, a delivery is given out to
  be sent at most once more than its failures were reported by the dispatch that held it and its
  row was forgotten (pruned after its retention, or reset).
\<close>

theorem deliveries_given_out:
  "count_steps (gives_out k) steps []
     \<le> 1 + count_steps (reports_failure k) steps [] + count_steps (forgets k) steps []"
  using ledger_accounting [of "[]" k steps] by (simp add: ledger_wf_def dkeys_def available_def)

text \<open>A settled row: sent, or unknown because its claim was abandoned.\<close>

lemma settled_step:
  assumes wf: "ledger_wf l" and r: "map_of l k = Some r" "dl_status r \<in> {''sent'', ''unknown''}"
    and keep: "\<not> forgets k s l"
  shows "map_of (ledger_exec s l) k = Some r" and "\<not> gives_out k s l"
proof -
  have "map_of (ledger_exec s l) k = Some r \<and> \<not> gives_out k s l"
  proof (cases s)
    case (Insert q now)
    with r keep show ?thesis
      by (auto simp: gives_out_def forgets_def claim_insert_def Let_def map_of_pruned [OF wf] split: option.splits)
  next
    case (Complete k' token now)
    with r complete_state [of k' token now l] show ?thesis
      by (auto simp: gives_out_def update_owned_row owned_delivery_def)
  next
    case (Fail k' token e now)
    with r fail_state [of k' token e now l k] show ?thesis
      by (auto simp: gives_out_def update_owned_row owned_delivery_def)
  next
    case (Prune now)
    with r keep show ?thesis by (simp add: gives_out_def forgets_def map_of_pruned [OF wf])
  qed (use r keep in \<open>auto simp: gives_out_def forgets_def claim_mark_stale_def claim_failed_def
        reset_latest_notification_deliveries_def split: option.splits\<close>)
  then show "map_of (ledger_exec s l) k = Some r" "\<not> gives_out k s l" by auto
qed

lemma settled_run:
  "ledger_wf l \<Longrightarrow> map_of l k = Some r \<Longrightarrow> dl_status r \<in> {''sent'', ''unknown''} \<Longrightarrow>
   count_steps (forgets k) steps l = 0 \<Longrightarrow>
     map_of (ledger_run steps l) k = Some r \<and> count_steps (gives_out k) steps l = 0"
proof (induction steps arbitrary: l)
  case (Cons s steps)
  then have "\<not> forgets k s l" by (auto split: if_splits)
  from settled_step [OF Cons.prems(1-3) this] Cons.prems(4) Cons.IH [OF ledger_wf_exec [OF Cons.prems(1)]] Cons.prems(3)
  show ?case by (auto simp: ledger_run_def split: if_splits)
qed (simp add: ledger_run_def)

text \<open>
  A claim held for more than fifteen minutes is given up the next time the delivery is
  asked for: the answer is unknown, not acquired, the former holder can no longer complete or fail
  it, and nobody is given the delivery again until its row is forgotten.
\<close>

theorem abandoned_claim_is_unknown:
  assumes wf: "ledger_wf l" and r: "map_of l (rq_delivery_key q) = Some r" "dl_status r = ''claimed''"
    and late: "dl_claimed_at r < now - NOTIFICATION_CLAIM_LEASE"
    and key: "strip (rq_delivery_key q) = rq_delivery_key q"
  defines "l' \<equiv> snd (claim_latest_notification_delivery (\<lambda>i. id) True q now l)"
  shows "fst (claim_latest_notification_delivery (\<lambda>i. id) True q now l) = ''unknown''
    \<and> ledger_exec (Complete (rq_delivery_key q) token t) l' = l'
    \<and> ledger_exec (Fail (rq_delivery_key q) token e t) l' = l'
    \<and> (count_steps (forgets (rq_delivery_key q)) steps l' = 0
        \<longrightarrow> count_steps (gives_out (rq_delivery_key q)) steps l' = 0)"
proof -
  let ?k = "rq_delivery_key q"
  let ?r = "r\<lparr>dl_status := ''unknown'',
      dl_last_error := Some ''Esito consegna sconosciuto dopo interruzione del worker'', dl_updated_at := now\<rparr>"
  have "\<not> outlived now r" using r(2) by (simp add: outlived_def)
  then have ins: "claim_insert q now l = (False, l)"
    by (simp add: claim_insert_def Let_def map_of_pruned [OF wf] r(1))
  have claim: "claim_latest_notification_delivery (\<lambda>i. id) True q now l = (''unknown'', dset ?k ?r l)"
    by (simp add: claim_latest_notification_delivery_def ins claim_mark_stale_def r late claim_failed_def
        claim_answer_def Let_def)
  then have l': "l' = dset ?k ?r l" by (simp add: l'_def)
  have wf': "ledger_wf l'" using wf by (simp add: l' ledger_wf_dset)
  have row: "map_of l' ?k = Some ?r" by (simp add: l')
  have same: "update_owned_delivery k' token' f l' = (False, l')"
    if "k' = ?k" for k' token' f using that row by (simp add: update_owned_delivery_def owned_delivery_def)
  have "ledger_exec (Complete ?k token t) l' = l'"
    using complete_state [of ?k token t l'] by (simp add: same key)
  moreover have "ledger_exec (Fail ?k token e t) l' = l'"
    using fail_state [of ?k token e t l' ?k] by (auto simp: same key)
  moreover have "count_steps (forgets ?k) steps l' = 0 \<longrightarrow> count_steps (gives_out ?k) steps l' = 0"
    using settled_run [OF wf' row] by simp
  ultimately show ?thesis by (simp add: claim)
qed

subsection \<open>Witnesses\<close>

definition sample_request :: delivery_claim_request where
  "sample_request = \<lparr>rq_delivery_key = ''k'', rq_server_id = ''s'', rq_publication_key = ''p'',
     rq_destination_key = ''d'', rq_claim_token = ''w2''\<rparr>"

lemma abandoned_claim_is_unknown_witness:
  "fst (claim_latest_notification_delivery (\<lambda>i. id) True sample_request 1000000000
      [(''k'', new_delivery (sample_request\<lparr>rq_claim_token := ''w1''\<rparr>) 0)]) = ''unknown''"
  using abandoned_claim_is_unknown [where q = sample_request and now = 1000000000
      and l = "[(''k'', new_delivery (sample_request\<lparr>rq_claim_token := ''w1''\<rparr>) 0)]"
      and r = "new_delivery (sample_request\<lparr>rq_claim_token := ''w1''\<rparr>) 0"]
  by (simp add: ledger_wf_def dkeys_def sample_request_def new_delivery_def NOTIFICATION_CLAIM_LEASE_def
      minutes_span_def strip_def lstrip_def rstrip_def is_space_def code_def)

end
