(* ===== verification/Notification_Delivery.thy ===== *)
theory Notification_Delivery
  imports Notification_Ledger
begin

text \<open>
  The delivery phase of a notification dispatch (\<open>emby_latest/notification_delivery_workflow.py\<close>
  with the identities of \<open>notification_dispatcher.py\<close>, the claims of \<open>notification_delivery.py\<close> and
  the Telegram request of \<open>notifications.py\<close>): rule runs, items, recipients.  An action changes the
  ledger and the list of the Telegram requests sent so far, and may raise.  What is outside is the
  script of the run: the clock and the fresh tokens by a running number, what other processes do
  between the parts of a claim, the SHA-256 text, the message of an item, the prepared photo, the
  state known of an item, the order of items, and for each request whether Telegram took the message and
  what the caller was told.  Throttling, sleeping and logging are left out.
\<close>

subsection \<open>Identities\<close>

definition item_signature :: "pdict \<Rightarrow> string" where
  "item_signature item =
     (let server_id = text_or_empty (pget item ''server_id''); item_id = text_or_empty (pget item ''item_id'')
      in if server_id \<noteq> [] \<and> item_id \<noteq> [] then server_id @ '':'' @ item_id else [])"

definition publication_state_key :: "pdict \<Rightarrow> string" where
  "publication_state_key item =
     (let batch_id = strip (text_or_empty (pget item ''batch_id'')) in
      if batch_id \<noteq> [] then batch_id
      else let added_at = strip (text_or_empty (pget item ''added_at''));
               update_type = strip (text_or_empty (pget item ''update_type''));
               update_label = strip (text_or_empty (pget item ''update_label''))
           in if added_at \<noteq> [] \<or> update_type \<noteq> [] \<or> update_label \<noteq> []
              then update_type @ '':'' @ update_label @ '':'' @ added_at
              else item_signature item)"

definition publication_signature :: "pdict \<Rightarrow> string" where
  "publication_signature item =
     (let signature = item_signature item; key = publication_state_key item
      in if signature = [] then [] else if key \<noteq> [] then signature @ '':'' @ key else signature)"

definition build_telegram_destination_key :: "py \<Rightarrow> py \<Rightarrow> exn + string" where
  "build_telegram_destination_key bot_id chat_id =
     result_bind (require_bounded_text bot_id ''bot_id'' 128 False) (\<lambda>bot.
     result_bind (require_bounded_text chat_id ''chat_id'' 128 False) (\<lambda>chat.
     require_bounded_text (PStr (bot @ '':'' @ chat)) ''destination_key'' 257 False))"

definition delivery_key :: "(string \<Rightarrow> string) \<Rightarrow> string \<Rightarrow> string \<Rightarrow> string" where
  "delivery_key hash signature destination = hash (utf8_encode (signature @ [CHR 0x00] @ destination))"

text \<open>What the stored state says of a destination (\<open>_destination_notified\<close>).\<close>

definition publication_state :: "py \<Rightarrow> pdict \<Rightarrow> pdict option" where
  "publication_state entry item =
     (case entry of
        PDict e \<Rightarrow>
          (case pget e ''notified_publications'' of
             PDict publications \<Rightarrow>
               (case pget publications (publication_state_key item) of PDict s \<Rightarrow> Some s | _ \<Rightarrow> None)
           | _ \<Rightarrow> None)
      | _ \<Rightarrow> None)"

definition destination_notified :: "py \<Rightarrow> pdict \<Rightarrow> string \<Rightarrow> bool" where
  "destination_notified entry item key =
     (case publication_state entry item of
        None \<Rightarrow> False
      | Some publication \<Rightarrow>
          (case pget publication ''notified_destinations'' of
             PDict destinations \<Rightarrow> has_key key destinations
           | _ \<Rightarrow> truthy (pget publication ''notified'')))"

subsection \<open>Telegram\<close>

text \<open>What the HTTP library reports: an exception, a response without a readable body, or its JSON object.\<close>

datatype telegram_reply = Request_Failed | Unreadable_Body | Telegram_Payload pdict

definition telegram_api_request :: "py \<Rightarrow> telegram_reply \<Rightarrow> bool \<times> string \<times> py" where
  "telegram_api_request token reply =
     (if \<not> truthy token then (False, ''Bot token mancante.'', PDict [])
      else case reply of
             Request_Failed \<Rightarrow> (False, ''Errore richiesta Telegram.'', PDict [])
           | Unreadable_Body \<Rightarrow> (False, ''Errore Telegram.'', PDict [])
           | Telegram_Payload payload \<Rightarrow>
               if \<not> truthy (pget payload ''ok'')
               then (False, ''Errore Telegram.'', py_or (pget payload ''parameters'') (PDict []))
               else (True, ''OK'', py_or (pget payload ''result'') (PDict [])))"

record prepared_photo =
  ph_url :: string
  ph_error :: string

text \<open>A request that was sent; \<open>at_key\<close> (the delivery it is for) and \<open>at_accepted\<close> are for the properties.\<close>

record attempt =
  at_key :: string
  at_chat :: py
  at_method :: string
  at_message :: string
  at_accepted :: bool

record notify_world =
  nw_ledger :: ledger
  nw_attempts :: "attempt list"
  nw_ticks :: nat

datatype message_result = No_Message | Message string string "string option"

record notify_script =
  ns_now :: "nat \<Rightarrow> int"
  ns_token :: "nat \<Rightarrow> string"
  ns_others :: "nat \<Rightarrow> nat \<Rightarrow> ledger \<Rightarrow> ledger"
  ns_server_exists :: "nat \<Rightarrow> string \<Rightarrow> bool"
  ns_reply :: "nat \<Rightarrow> bool \<times> telegram_reply"
  ns_hash :: "string \<Rightarrow> string"
  ns_message :: "pdict \<Rightarrow> string \<Rightarrow> message_result"
  ns_photo :: "string \<Rightarrow> pdict \<Rightarrow> prepared_photo"
  ns_state_entry :: "pdict \<Rightarrow> py"
  ns_order :: "pdict list \<Rightarrow> pdict list"
  ns_clean :: "string \<Rightarrow> string"

type_synonym 'a notify = "notify_world \<Rightarrow> (exn + 'a) \<times> notify_world"

definition nret :: "'a \<Rightarrow> 'a notify" where
  "nret x = (\<lambda>w. (Inr x, w))"

definition nraise :: "exn \<Rightarrow> 'a notify" where
  "nraise e = (\<lambda>w. (Inl e, w))"

definition nbind :: "'a notify \<Rightarrow> ('a \<Rightarrow> 'b notify) \<Rightarrow> 'b notify" where
  "nbind m f = (\<lambda>w. case m w of (Inl e, w') \<Rightarrow> (Inl e, w') | (Inr x, w') \<Rightarrow> f x w')"

text \<open>\<open>try: m except Exception: h\<close>.\<close>

definition ncatch :: "'a notify \<Rightarrow> 'a notify \<Rightarrow> 'a notify" where
  "ncatch m h = (\<lambda>w. case m w of (Inl e, w') \<Rightarrow> h w' | (Inr x, w') \<Rightarrow> (Inr x, w'))"

primrec neach :: "('a \<Rightarrow> 's \<Rightarrow> 's notify) \<Rightarrow> 'a list \<Rightarrow> 's \<Rightarrow> 's notify" where
  "neach f [] s = nret s"
| "neach f (x # xs) s = nbind (f x s) (neach f xs)"

subsection \<open>Claims\<close>

record delivery_claim =
  dc_delivery_key :: string
  dc_claim_token :: string
  dc_status :: string

definition acquired :: "delivery_claim \<Rightarrow> bool" where
  "acquired c \<longleftrightarrow> dc_status c = ''acquired''"

definition tick :: "(nat \<Rightarrow> ledger \<Rightarrow> (exn + 'a) \<times> ledger) \<Rightarrow> 'a notify" where
  "tick f = (\<lambda>w. case f (nw_ticks w) (nw_ledger w) of
     (r, l) \<Rightarrow> (r, w\<lparr>nw_ledger := l, nw_ticks := nw_ticks w + 1\<rparr>))"

definition claim_delivery :: "notify_script \<Rightarrow> string \<Rightarrow> string \<Rightarrow> string \<Rightarrow> delivery_claim notify" where
  "claim_delivery sc signature destination server_id =
     tick (\<lambda>n l.
       let k = delivery_key (ns_hash sc) signature destination; token = ns_token sc n
       in case checked_request (PStr k) (PStr server_id) (PStr signature) (PStr destination) (PStr token) of
            Inl e \<Rightarrow> (Inl e, l)
          | Inr q \<Rightarrow>
              (case claim_latest_notification_delivery (ns_others sc n) (ns_server_exists sc n server_id) q (ns_now sc n) l of
                 (status, l') \<Rightarrow> (Inr \<lparr>dc_delivery_key = k, dc_claim_token = token, dc_status = status\<rparr>, l')))"

definition complete_delivery :: "notify_script \<Rightarrow> delivery_claim \<Rightarrow> unit notify" where
  "complete_delivery sc c =
     tick (\<lambda>n l.
       case complete_latest_notification_delivery (PStr (dc_delivery_key c)) (PStr (dc_claim_token c)) (ns_now sc n) l of
         Inl e \<Rightarrow> (Inl e, l)
       | Inr (ok, l') \<Rightarrow> ((if ok then Inr () else Inl (RuntimeError ''Claim notifica non completato'')), l'))"

definition fail_delivery :: "notify_script \<Rightarrow> delivery_claim \<Rightarrow> string \<Rightarrow> unit notify" where
  "fail_delivery sc c error =
     tick (\<lambda>n l.
       case fail_latest_notification_delivery (PStr (dc_delivery_key c)) (PStr (dc_claim_token c)) (PStr error)
              (ns_now sc n) l of
         Inl e \<Rightarrow> (Inl e, l)
       | Inr (ok, l') \<Rightarrow> ((if ok then Inr () else Inl (RuntimeError ''Claim notifica non rilasciato'')), l'))"

subsection \<open>Outcome\<close>

record delivery_update =
  du_item :: pdict
  du_publication_key :: string
  du_delivered :: "(string, string \<times> string) dict"
  du_required :: "string list"

record delivery_outcome =
  oc_errors :: "string list"
  oc_sent :: nat
  oc_failed :: nat
  oc_claim_skips :: nat
  oc_updates :: "(string, delivery_update) dict"
  oc_signatures :: "(string \<times> string \<times> string) list"

record dispatch_result =
  dr_success :: bool
  dr_status :: string
  dr_message :: string
  dr_sent :: nat
  dr_failed :: nat
  dr_errors :: "string list"

definition outcome_result :: "delivery_outcome \<Rightarrow> dispatch_result" where
  "outcome_result oc =
     (let summary = (if oc_sent oc > 0 then ''Notifiche inviate: '' @ str_nat (oc_sent oc) @ ''.''
                     else ''Nessuna notifica inviata.'');
          summary1 = (if oc_claim_skips oc > 0 \<and> oc_sent oc = 0 \<and> oc_failed oc = 0 \<and> oc_errors oc = []
                      then ''Nessuna notifica da inviare: consegne gi'' @ [CHR 0xE0] @ '' registrate o in corso.''
                      else summary);
          summary2 = (if oc_failed oc > 0 then summary1 @ '' Errori: '' @ str_nat (oc_failed oc) @ ''.'' else summary1);
          summary3 = (if oc_errors oc \<noteq> [] then summary2 @ '' Avvisi: '' @ str_nat (length (oc_errors oc)) @ ''.''
                      else summary2);
          complete = (oc_failed oc = 0 \<and> oc_errors oc = []);
          success = (complete \<and> (oc_sent oc > 0 \<or> oc_claim_skips oc > 0))
      in \<lparr>dr_success = success,
          dr_status = (if success then ''success''
                       else if oc_sent oc > 0 \<or> oc_claim_skips oc > 0 then ''partial'' else ''error''),
          dr_message = summary3, dr_sent = oc_sent oc, dr_failed = oc_failed oc, dr_errors = oc_errors oc\<rparr>)"

definition add_error :: "string \<Rightarrow> delivery_outcome \<Rightarrow> delivery_outcome" where
  "add_error e oc = oc\<lparr>oc_errors := oc_errors oc @ [e]\<rparr>"

definition add_failure :: "string \<Rightarrow> delivery_outcome \<Rightarrow> delivery_outcome" where
  "add_failure e oc = add_error e (oc\<lparr>oc_failed := oc_failed oc + 1\<rparr>)"

definition change_update :: "string \<Rightarrow> (delivery_update \<Rightarrow> delivery_update) \<Rightarrow> delivery_outcome \<Rightarrow> delivery_outcome" where
  "change_update signature f oc =
     (case map_of (oc_updates oc) signature of
        None \<Rightarrow> oc
      | Some u \<Rightarrow> oc\<lparr>oc_updates := dset signature (f u) (oc_updates oc)\<rparr>)"

subsection \<open>One recipient\<close>

text \<open>The photo of an item is prepared once, for the first recipient that needs it.\<close>

type_synonym photo_state = "prepared_photo option"

definition recipient_values :: "py \<Rightarrow> exn + (py \<times> py \<times> py \<times> string) option" where
  "recipient_values recipient =
     (case recipient of
        PDict r \<Rightarrow>
          (let token = pget r ''token''; bot_id = pget r ''bot_id''; chat_id = pget r ''chat_id''; given = pget r ''destination_key''
           in result_bind (if truthy given then Inr (py_str given) else build_telegram_destination_key bot_id chat_id)
                (\<lambda>key. Inr (if truthy token \<and> truthy chat_id \<and> key \<noteq> [] then Some (token, bot_id, chat_id, key) else None)))
      | _ \<Rightarrow> Inr None)"

definition item_title :: "pdict \<Rightarrow> string" where
  "item_title item =
     py_str (py_or (pget item ''title'') (py_or (pget item ''series_name'') (py_or (pget item ''item_id'') (PStr ''contenuto''))))"

definition fail_claim :: "notify_script \<Rightarrow> delivery_claim \<Rightarrow> string \<Rightarrow> delivery_outcome \<Rightarrow> delivery_outcome notify" where
  "fail_claim sc c error oc =
     ncatch (nbind (fail_delivery sc c error) (\<lambda>u. nret oc))
       (nret (add_error ''Errore rilascio claim notifica'' oc))"

definition send_once :: "notify_script \<Rightarrow> string \<Rightarrow> py \<Rightarrow> py \<Rightarrow> string \<Rightarrow> photo_state \<Rightarrow> (bool \<times> string \<times> py) notify" where
  "send_once sc key token chat_id message photo =
     (\<lambda>w. if \<not> truthy token then (Inr (telegram_api_request token Request_Failed), w)
          else case ns_reply sc (length (nw_attempts w)) of
             (accepted, reply) \<Rightarrow>
               (Inr (telegram_api_request token reply),
                w\<lparr>nw_attempts := nw_attempts w @
                   [\<lparr>at_key = key, at_chat = chat_id,
                     at_method = (if photo = None then ''sendMessage'' else ''sendPhoto''),
                     at_message = (if photo = None then message else take 1024 (strip message)),
                     at_accepted = accepted\<rparr>]\<rparr>))"

definition positive_number :: "py \<Rightarrow> bool" where
  "positive_number v =
     (case v of
        PInt n \<Rightarrow> n > 0
      | PBool b \<Rightarrow> b
      | PFloat f r \<Rightarrow> (case f of Fin q \<Rightarrow> q > 0 | PosInf \<Rightarrow> True | _ \<Rightarrow> False)
      | _ \<Rightarrow> False)"

definition send_telegram ::
  "notify_script \<Rightarrow> string \<Rightarrow> py \<Rightarrow> py \<Rightarrow> string \<Rightarrow> photo_state \<Rightarrow> (bool \<times> string) notify" where
  "send_telegram sc key token chat_id message photo =
     nbind (send_once sc key token chat_id message photo) (\<lambda>(ok, error, params).
       let retry_after = (if \<not> ok then (case params of PDict p \<Rightarrow> pget p ''retry_after'' | _ \<Rightarrow> PNone) else PNone)
       in if positive_number retry_after
          then nbind (send_once sc key token chat_id message photo) (\<lambda>(ok', error', p'). nret (ok', error'))
          else nret (ok, error))"

definition record_delivery ::
  "notify_script \<Rightarrow> string \<Rightarrow> bool \<Rightarrow> delivery_claim \<Rightarrow> string \<Rightarrow> py \<Rightarrow> py \<Rightarrow> delivery_outcome \<Rightarrow> delivery_outcome notify" where
  "record_delivery sc signature ok c key bot_id chat_id oc =
     (if \<not> ok
      then nbind (fail_claim sc c ''Errore invio Telegram'' oc)
             (\<lambda>oc'. nret (add_failure ''Errore invio Telegram'' oc'))
      else nbind (ncatch (nbind (complete_delivery sc c) (\<lambda>u. nret oc))
                    (nret (add_error ''Notifica inviata ma claim non completato'' oc)))
             (\<lambda>oc'. nret
                ((change_update signature
                    (\<lambda>u. u\<lparr>du_delivered := dset key (py_str bot_id, py_str chat_id) (du_delivered u)\<rparr>) oc')
                 \<lparr>oc_sent := oc_sent oc' + 1,
                  oc_signatures := oc_signatures oc' @ [(signature, py_str bot_id, py_str chat_id)]\<rparr>)))"

text \<open>The photo, the request and its record for a delivery that was claimed.\<close>

definition deliver_claimed ::
  "notify_script \<Rightarrow> pdict \<Rightarrow> string \<Rightarrow> string \<Rightarrow> string \<Rightarrow> py \<Rightarrow> py \<Rightarrow> py \<Rightarrow> string \<Rightarrow> photo_state
     \<Rightarrow> delivery_claim option \<times> delivery_outcome \<Rightarrow> (delivery_outcome \<times> photo_state) notify" where
  "deliver_claimed sc item signature message image_url token bot_id chat_id key photo = (\<lambda>(claim, oc).
     case claim of
       None \<Rightarrow> nret (oc, photo)
     | Some c \<Rightarrow>
         (let photo' = (if image_url \<noteq> [] \<and> photo = None then Some (ns_photo sc image_url item) else photo)
          in if photo' \<noteq> None \<and> ph_error (the photo') \<noteq> []
             then (let error = ''Immagine non disponibile per '' @ [CHR 0x27]
                         @ ns_clean sc (item_title item) @ [CHR 0x27]
                   in nbind (fail_claim sc c error oc) (\<lambda>oc'. nret (add_failure error oc', photo')))
             else nbind (send_telegram sc (dc_delivery_key c) token chat_id message photo') (\<lambda>(ok, error).
                  nbind (record_delivery sc signature ok c key bot_id chat_id oc) (\<lambda>oc'.
                  nret (oc', photo')))))"

definition deliver_recipient ::
  "notify_script \<Rightarrow> pdict \<Rightarrow> string \<Rightarrow> string \<Rightarrow> string \<Rightarrow> py \<Rightarrow> py \<Rightarrow> delivery_outcome \<times> photo_state
     \<Rightarrow> (delivery_outcome \<times> photo_state) notify" where
  "deliver_recipient sc item signature message image_url state_entry recipient = (\<lambda>(oc, photo).
     case recipient_values recipient of
       Inl e \<Rightarrow> nraise e
     | Inr None \<Rightarrow> nret (oc, photo)
     | Inr (Some (token, bot_id, chat_id, key)) \<Rightarrow>
         (let oc1 = change_update signature (\<lambda>u. u\<lparr>du_required := List.insert key (du_required u)\<rparr>) oc
          in if destination_notified state_entry item key
                \<or> (signature, py_str bot_id, py_str chat_id) \<in> set (oc_signatures oc1)
             then nret (oc1, photo)
             else nbind
               (ncatch (nbind (claim_delivery sc signature key (text_or_empty (pget item ''server_id'')))
                          (\<lambda>c. nret (if acquired c then (Some c, oc1)
                                     else (None, oc1\<lparr>oc_claim_skips := oc_claim_skips oc1 + 1\<rparr>))))
                  (nret (None, add_failure ''Errore prenotazione notifica'' oc1)))
               (deliver_claimed sc item signature message image_url token bot_id chat_id key photo)))"

subsection \<open>Items and rules\<close>

definition deliver_item ::
  "notify_script \<Rightarrow> string \<Rightarrow> string \<Rightarrow> py list \<Rightarrow> pdict \<Rightarrow> delivery_outcome \<Rightarrow> delivery_outcome notify" where
  "deliver_item sc rule_name template recipients item oc =
     (let signature = publication_signature item in
      if signature = [] then nret oc
      else case ns_message sc item template of
             No_Message \<Rightarrow> nret oc
           | Message message image_url template_error \<Rightarrow>
               (case template_error of
                  Some e \<Rightarrow>
                    nret (add_failure (''Errore template regola '' @ [CHR 0x27] @ ns_clean sc rule_name @ [CHR 0x27]
                      @ '' per '' @ [CHR 0x27] @ ns_clean sc (item_title item) @ [CHR 0x27]) oc)
                | None \<Rightarrow>
                    if message = [] \<and> image_url = [] then nret oc
                    else
                      let oc1 = (if map_of (oc_updates oc) signature = None
                                 then oc\<lparr>oc_updates := dset signature
                                        \<lparr>du_item = item, du_publication_key = publication_state_key item,
                                         du_delivered = [], du_required = []\<rparr> (oc_updates oc)\<rparr>
                                 else oc)
                      in nbind (neach (deliver_recipient sc item signature message image_url (ns_state_entry sc item))
                                  recipients (oc1, None))
                           (\<lambda>(oc2, photo). nret oc2)))"

record rule_run =
  rr_name :: string
  rr_template :: string
  rr_items :: "pdict list"
  rr_recipients :: "py list"

definition deliver_rule_runs :: "notify_script \<Rightarrow> rule_run list \<Rightarrow> delivery_outcome \<Rightarrow> delivery_outcome notify" where
  "deliver_rule_runs sc runs oc =
     neach (\<lambda>r oc. neach (deliver_item sc (rr_name r) (rr_template r) (rr_recipients r)) (ns_order sc (rr_items r)) oc)
       runs oc"

definition new_outcome :: "string list \<Rightarrow> delivery_outcome" where
  "new_outcome errors =
     \<lparr>oc_errors = errors, oc_sent = 0, oc_failed = 0, oc_claim_skips = 0, oc_updates = [], oc_signatures = []\<rparr>"

subsection \<open>Reasoning about a run\<close>

definition holds_after :: "(notify_world \<Rightarrow> bool) \<Rightarrow> 'a notify \<Rightarrow> ('a \<Rightarrow> notify_world \<Rightarrow> bool) \<Rightarrow> (notify_world \<Rightarrow> bool) \<Rightarrow> bool" where
  "holds_after P m Q E \<longleftrightarrow>
     (\<forall>w. P w \<longrightarrow> (case m w of (Inr x, w') \<Rightarrow> Q x w' | (Inl e, w') \<Rightarrow> E w'))"

named_theorems notify_rules \<open>rules for the actions of a run\<close>

lemma ha_ret [notify_rules]: "(\<And>w. P w \<Longrightarrow> Q x w) \<Longrightarrow> holds_after P (nret x) Q E"
  by (simp add: holds_after_def nret_def)

lemma ha_raise [notify_rules]: "(\<And>w. P w \<Longrightarrow> E w) \<Longrightarrow> holds_after P (nraise e) Q E"
  by (simp add: holds_after_def nraise_def)

lemma ha_bind [notify_rules]:
  assumes "holds_after P m R E" "\<And>x. holds_after (R x) (f x) Q E"
  shows "holds_after P (nbind m f) Q E"
  unfolding holds_after_def
proof (intro allI impI)
  fix w assume P: "P w"
  obtain r w' where m: "m w = (r, w')" by (metis surj_pair)
  show "case nbind m f w of (Inr x, w') \<Rightarrow> Q x w' | (Inl e, w') \<Rightarrow> E w'"
    using assms P m by (cases r) (force simp: holds_after_def nbind_def)+
qed

lemma ha_catch [notify_rules]:
  assumes "holds_after P m Q R" "holds_after R h Q E"
  shows "holds_after P (ncatch m h) Q E"
  unfolding holds_after_def
proof (intro allI impI)
  fix w assume P: "P w"
  obtain r w' where m: "m w = (r, w')" by (metis surj_pair)
  show "case ncatch m h w of (Inr x, w') \<Rightarrow> Q x w' | (Inl e, w') \<Rightarrow> E w'"
    using assms P m by (cases r) (force simp: holds_after_def ncatch_def)+
qed

lemma ha_each:
  assumes "\<And>x s. x \<in> set xs \<Longrightarrow> holds_after I (f x s) (\<lambda>s'. I) I"
  shows "holds_after I (neach f xs s) (\<lambda>s'. I) I"
  using assms
proof (induction xs arbitrary: s)
  case Nil
  show ?case by (simp add: holds_after_def nret_def)
next
  case (Cons x xs)
  have "holds_after I (f x s) (\<lambda>s'. I) I" by (rule Cons.prems) simp
  moreover have "holds_after I (neach f xs s') (\<lambda>s'. I) I" for s' using Cons by simp
  ultimately show ?case by (simp add: ha_bind)
qed

lemma ha_weaken:
  assumes "holds_after P m Q E" "\<And>w. P' w \<Longrightarrow> P w" "\<And>x w. Q x w \<Longrightarrow> Q' x w" "\<And>w. E w \<Longrightarrow> E' w"
  shows "holds_after P' m Q' E'"
  unfolding holds_after_def
proof (intro allI impI)
  fix w assume "P' w"
  then have "P w" by (rule assms(2))
  with assms(1) have "case m w of (Inr x, w') \<Rightarrow> Q x w' | (Inl e, w') \<Rightarrow> E w'" by (simp add: holds_after_def)
  then show "case m w of (Inr x, w') \<Rightarrow> Q' x w' | (Inl e, w') \<Rightarrow> E' w'"
    using assms(3,4) by (auto split: prod.splits sum.splits)
qed

subsection \<open>The ledger during a run\<close>

text \<open>Within the retention no row is old enough to be pruned.\<close>

definition ledger_recent :: "int \<Rightarrow> ledger \<Rightarrow> bool" where
  "ledger_recent T l \<longleftrightarrow> ledger_wf l \<and> (\<forall>p \<in> set l. T \<le> dl_updated_at (snd p))"

definition in_retention :: "int \<Rightarrow> int \<Rightarrow> bool" where
  "in_retention T now \<longleftrightarrow> T \<le> now \<and> now \<le> T + NOTIFICATION_RETENTION"

lemma ledger_recent_wf: "ledger_recent T l \<Longrightarrow> ledger_wf l"
  by (simp add: ledger_recent_def)

lemma ledger_recent_dset:
  "ledger_recent T l \<Longrightarrow> T \<le> dl_updated_at r \<Longrightarrow> ledger_recent T (dset k r l)"
  unfolding ledger_recent_def ledger_wf_def
  by (auto intro: dset_all [where P = "\<lambda>r. T \<le> dl_updated_at r", rule_format])

lemma nothing_pruned:
  assumes "ledger_recent T l" "in_retention T now"
  shows "snd (prune_latest_notification_deliveries now l) = l"
proof -
  have "\<not> outlived now (snd p)" if "p \<in> set l" for p
    using assms that
    by (auto simp: ledger_recent_def in_retention_def outlived_def NOTIFICATION_RETENTION_def
        NOTIFICATION_UNKNOWN_RETENTION_def days_span_def)
  then show ?thesis by (simp add: prune_latest_notification_deliveries_def filter_id_conv)
qed

lemma claim_effect:
  assumes "ledger_recent T l" "in_retention T now"
    "claim_latest_notification_delivery (\<lambda>i. id) ex q now l = (status, l')"
  shows "ledger_recent T l' \<and> (\<forall>k. \<not> available k l \<longrightarrow> \<not> available k l')
    \<and> (status = ''acquired'' \<longrightarrow> available (rq_delivery_key q) l \<and> \<not> available (rq_delivery_key q) l')"
proof (cases "ex")
  case True
  note ins = claim_insert_def Let_def nothing_pruned [OF assms(1,2)]
  have T: "T \<le> now" using assms(2) by (simp add: in_retention_def)
  show ?thesis
  proof (cases "map_of l (rq_delivery_key q)")
    case None
    with True assms(3) have "status = ''acquired''" "l' = dset (rq_delivery_key q) (new_delivery q now) l"
      by (simp_all add: claim_latest_notification_delivery_def ins)
    with None T assms(1) show ?thesis
      by (auto simp: available_def new_delivery_def intro!: ledger_recent_dset)
  next
    case (Some r)
    let ?m = "claim_mark_stale (rq_delivery_key q) now l"
    have m: "ledger_recent T ?m" using assms(1) T
      by (auto simp: claim_mark_stale_def split: option.splits intro: ledger_recent_dset)
    have av: "available k ?m = available k l" for k
      by (auto simp: claim_mark_stale_def available_def Some)
    obtain b l2 where f: "claim_failed (rq_delivery_key q) (rq_claim_token q) now ?m = (b, l2)" by (metis surj_pair)
    have "ledger_recent T l2" using f m T
      by (auto simp: claim_failed_def split: option.splits if_splits intro: ledger_recent_dset)
    moreover have "(\<forall>k. \<not> available k ?m \<longrightarrow> \<not> available k l2)
        \<and> (b \<longrightarrow> available (rq_delivery_key q) ?m \<and> \<not> available (rq_delivery_key q) l2)"
      using f by (auto simp: claim_failed_def available_def split: option.splits if_splits)
    moreover have "l' = l2" "status = ''acquired'' \<longrightarrow> b"
      using assms(3) True Some f
      by (auto simp: claim_latest_notification_delivery_def ins claim_answer_def split: bool.splits option.splits if_splits)
    ultimately show ?thesis by (simp add: av)
  qed
next
  case False
  with assms(3) have "status = ''server_deleted''" "l' = l"
    by (simp_all add: claim_latest_notification_delivery_def)
  with assms(1) show ?thesis by simp
qed

lemma update_owned_recent:
  assumes "ledger_recent T l" "\<And>r. T \<le> dl_updated_at (f r)"
  shows "ledger_recent T (snd (update_owned_delivery k token f l))"
  using assms by (auto simp: update_owned_delivery_def split: option.splits intro: ledger_recent_dset)

subsection \<open>At most once\<close>

text \<open>The requests for a delivery that Telegram took.\<close>

definition accepted_for :: "string \<Rightarrow> attempt list \<Rightarrow> nat" where
  "accepted_for k attempts = length (filter (\<lambda>a. at_accepted a \<and> strip (at_key a) = k) attempts)"

definition delivered_once :: "int \<Rightarrow> notify_world \<Rightarrow> bool" where
  "delivered_once T w \<longleftrightarrow> ledger_recent T (nw_ledger w) \<and>
     (\<forall>k. accepted_for k (nw_attempts w) = 0
        \<or> accepted_for k (nw_attempts w) = 1 \<and> \<not> available k (nw_ledger w))"

text \<open>The state in which a claimed delivery has not been taken by Telegram, and the one after a request.\<close>

definition unsent :: "int \<Rightarrow> string \<Rightarrow> notify_world \<Rightarrow> bool" where
  "unsent T k w \<longleftrightarrow> delivered_once T w \<and> accepted_for k (nw_attempts w) = 0 \<and> \<not> available k (nw_ledger w)"

definition attempted :: "int \<Rightarrow> string \<Rightarrow> bool \<Rightarrow> notify_world \<Rightarrow> bool" where
  "attempted T k ok w \<longleftrightarrow> delivered_once T w \<and> \<not> available k (nw_ledger w) \<and> (ok \<or> accepted_for k (nw_attempts w) = 0)"

text \<open>When Telegram took a message, the caller is told so.\<close>

definition truthful :: "bool \<times> telegram_reply \<Rightarrow> bool" where
  "truthful r \<longleftrightarrow> (fst r \<longrightarrow> (case snd r of Telegram_Payload p \<Rightarrow> truthy (pget p ''ok'') | _ \<Rightarrow> False))"

definition quiet_script :: "int \<Rightarrow> notify_script \<Rightarrow> bool" where
  "quiet_script T sc \<longleftrightarrow>
     (\<forall>n. in_retention T (ns_now sc n) \<and> truthful (ns_reply sc n) \<and> ns_others sc n = (\<lambda>i. id))"

lemma delivered_once_change:
  assumes once: "delivered_once T w" and l': "ledger_recent T l'"
    and keep: "\<And>k. accepted_for k (nw_attempts w) \<noteq> 0 \<Longrightarrow> \<not> available k (nw_ledger w) \<Longrightarrow> \<not> available k l'"
  shows "delivered_once T (w\<lparr>nw_ledger := l', nw_ticks := n\<rparr>)"
  unfolding delivered_once_def
proof (intro conjI allI)
  fix k
  have "accepted_for k (nw_attempts w) = 0 \<or> accepted_for k (nw_attempts w) = 1 \<and> \<not> available k (nw_ledger w)"
    using once by (simp add: delivered_once_def)
  then show "accepted_for k (nw_attempts (w\<lparr>nw_ledger := l', nw_ticks := n\<rparr>)) = 0
    \<or> accepted_for k (nw_attempts (w\<lparr>nw_ledger := l', nw_ticks := n\<rparr>)) = 1
      \<and> \<not> available k (nw_ledger (w\<lparr>nw_ledger := l', nw_ticks := n\<rparr>))"
    using keep [of k] by (cases "accepted_for k (nw_attempts w) = 0") simp_all
qed (simp add: l')

lemma delivered_once_available:
  "delivered_once T w \<Longrightarrow> available k (nw_ledger w) \<Longrightarrow> accepted_for k (nw_attempts w) = 0"
  by (auto simp: delivered_once_def)

lemma checked_request_key:
  assumes "checked_request (PStr k) s p d t = Inr q"
  shows "rq_delivery_key q = strip k"
  using assms by (auto simp: checked_request_def result_bind_Inr_iff dest!: require_bounded_text_Inr)

lemma claim_keeps_once:
  assumes sc: "quiet_script T sc"
  shows "holds_after (delivered_once T) (claim_delivery sc signature destination server_id)
    (\<lambda>c w. delivered_once T w \<and> (acquired c \<longrightarrow> unsent T (strip (dc_delivery_key c)) w)) (delivered_once T)"
  unfolding holds_after_def
proof (intro allI impI)
  fix w assume inv: "delivered_once T w"
  let ?n = "nw_ticks w"
  let ?k = "delivery_key (ns_hash sc) signature destination"
  let ?l = "nw_ledger w"
  show "case claim_delivery sc signature destination server_id w of
      (Inl e, w') \<Rightarrow> delivered_once T w'
    | (Inr c, w') \<Rightarrow> delivered_once T w' \<and> (acquired c \<longrightarrow> unsent T (strip (dc_delivery_key c)) w')"
  proof (cases "checked_request (PStr ?k) (PStr server_id) (PStr signature) (PStr destination) (PStr (ns_token sc ?n))")
    case (Inl e)
    with inv show ?thesis by (simp add: claim_delivery_def tick_def Let_def delivered_once_def)
  next
    case (Inr q)
    obtain status l' where c: "claim_latest_notification_delivery (\<lambda>i. id) (ns_server_exists sc ?n server_id) q (ns_now sc ?n) ?l
        = (status, l')" by (metis surj_pair)
    have rec: "ledger_recent T ?l" and now: "in_retention T (ns_now sc ?n)" and others: "ns_others sc ?n = (\<lambda>i. id)"
      using inv sc by (simp_all add: delivered_once_def quiet_script_def)
    note eff = claim_effect [OF rec now c]
    have "delivered_once T (w\<lparr>nw_ledger := l', nw_ticks := ?n + 1\<rparr>)"
      by (rule delivered_once_change [OF inv]) (use eff in auto)
    moreover have "status = ''acquired'' \<Longrightarrow> accepted_for (rq_delivery_key q) (nw_attempts w) = 0"
      by (rule delivered_once_available [OF inv]) (use eff in simp)
    ultimately show ?thesis
      using eff c others Inr checked_request_key [OF Inr]
      by (simp add: claim_delivery_def tick_def Let_def acquired_def unsent_def)
  qed
qed

text \<open>The end of a claim, as the ledger step it is.\<close>

definition ends_claim :: "string \<Rightarrow> (delivery_row \<Rightarrow> delivery_row) \<Rightarrow> ledger \<Rightarrow> ledger \<Rightarrow> bool" where
  "ends_claim k f l l' \<longleftrightarrow> l' = l \<or> (\<exists>token. l' = snd (update_owned_delivery k token f l))"

lemma ends_claim_once:
  assumes "delivered_once T w" "ends_claim k f (nw_ledger w) l'" "\<And>r. T \<le> dl_updated_at (f r)"
    "\<And>r. dl_status (f r) \<noteq> ''failed'' \<or> accepted_for k (nw_attempts w) = 0"
  shows "delivered_once T (w\<lparr>nw_ledger := l', nw_ticks := n\<rparr>)"
proof (cases "l' = nw_ledger w")
  case True
  with assms(1) show ?thesis by (simp add: delivered_once_def)
next
  case False
  with assms(2) obtain token where l': "l' = snd (update_owned_delivery k token f (nw_ledger w))"
    by (auto simp: ends_claim_def)
  have "ledger_recent T l'"
    using assms(1,3) by (simp add: l' delivered_once_def update_owned_recent)
  then show ?thesis
  proof (rule delivered_once_change [OF assms(1)])
    fix s assume "accepted_for s (nw_attempts w) \<noteq> 0" "\<not> available s (nw_ledger w)"
    then show "\<not> available s l'"
      using assms(4) by (auto simp: l' available_def update_owned_row split: option.splits)
  qed
qed

lemma ends_claim_update: "update_owned_delivery k token f l = (b, l') \<Longrightarrow> ends_claim k f l l'"
  unfolding ends_claim_def by (metis snd_conv)

lemma complete_ends:
  "complete_latest_notification_delivery (PStr k) (PStr token) now l = Inr (b, l')
     \<Longrightarrow> ends_claim (strip k) (sent_row now) l l'"
  using complete_exec [of k token now l] by (auto intro: ends_claim_update [OF sym])

lemma fail_ends:
  "fail_latest_notification_delivery (PStr k) (PStr token) e now l = Inr (b, l')
     \<Longrightarrow> ends_claim (strip k) (failed_row (project_persisted_text e (Some 2000) True) now) l l'"
  using fail_exec [of k token e now l] by (auto intro: ends_claim_update [OF sym])

lemma complete_keeps_once:
  assumes sc: "quiet_script T sc"
  shows "holds_after (delivered_once T) (complete_delivery sc c) (\<lambda>u. delivered_once T) (delivered_once T)"
  unfolding holds_after_def
proof (intro allI impI)
  fix w assume inv: "delivered_once T w"
  let ?r = "complete_latest_notification_delivery (PStr (dc_delivery_key c)) (PStr (dc_claim_token c))
    (ns_now sc (nw_ticks w)) (nw_ledger w)"
  have T: "T \<le> ns_now sc (nw_ticks w)" using sc by (simp add: quiet_script_def in_retention_def)
  show "case complete_delivery sc c w of (Inl e, w') \<Rightarrow> delivered_once T w' | (Inr u, w') \<Rightarrow> delivered_once T w'"
  proof (cases ?r)
    case (Inl e)
    with inv show ?thesis by (simp add: complete_delivery_def tick_def delivered_once_def)
  next
    case (Inr p)
    obtain ok l' where p: "p = (ok, l')" by (metis surj_pair)
    have "delivered_once T (w\<lparr>nw_ledger := l', nw_ticks := n\<rparr>)" for n
      by (rule ends_claim_once [OF inv complete_ends [OF Inr [unfolded p]]])
        (simp_all add: sent_row_def T)
    then show ?thesis using Inr p by (auto simp: complete_delivery_def tick_def split: prod.splits sum.splits)
  qed
qed

lemma fail_keeps_once:
  assumes sc: "quiet_script T sc"
  shows "holds_after (attempted T (strip (dc_delivery_key c)) False) (fail_delivery sc c error)
    (\<lambda>u. delivered_once T) (delivered_once T)"
  unfolding holds_after_def
proof (intro allI impI)
  fix w assume pre: "attempted T (strip (dc_delivery_key c)) False w"
  then have inv: "delivered_once T w" and none: "accepted_for (strip (dc_delivery_key c)) (nw_attempts w) = 0"
    by (simp_all add: attempted_def)
  let ?r = "fail_latest_notification_delivery (PStr (dc_delivery_key c)) (PStr (dc_claim_token c)) (PStr error)
    (ns_now sc (nw_ticks w)) (nw_ledger w)"
  have T: "T \<le> ns_now sc (nw_ticks w)" using sc by (simp add: quiet_script_def in_retention_def)
  show "case fail_delivery sc c error w of (Inl e, w') \<Rightarrow> delivered_once T w' | (Inr u, w') \<Rightarrow> delivered_once T w'"
  proof (cases ?r)
    case (Inl e)
    with inv show ?thesis by (simp add: fail_delivery_def tick_def delivered_once_def)
  next
    case (Inr p)
    obtain ok l' where p: "p = (ok, l')" by (metis surj_pair)
    have "delivered_once T (w\<lparr>nw_ledger := l', nw_ticks := n\<rparr>)" for n
      by (rule ends_claim_once [OF inv fail_ends [OF Inr [unfolded p]]])
        (simp_all add: failed_row_def T none)
    then show ?thesis using Inr p by (auto simp: fail_delivery_def tick_def split: prod.splits sum.splits)
  qed
qed

lemma send_once_attempted:
  assumes sc: "quiet_script T sc"
  shows "holds_after (attempted T (strip key) False) (send_once sc key token chat_id message photo)
    (\<lambda>(ok, error, params). attempted T (strip key) ok) (\<lambda>w. False)"
  unfolding holds_after_def
proof (intro allI impI)
  fix w assume pre: "attempted T (strip key) False w"
  obtain accepted reply where r: "ns_reply sc (length (nw_attempts w)) = (accepted, reply)" by (metis surj_pair)
  have "truthful (ns_reply sc (length (nw_attempts w)))" using sc by (simp add: quiet_script_def)
  then have tr: "accepted \<Longrightarrow> \<exists>p. reply = Telegram_Payload p \<and> truthy (pget p ''ok'')"
    by (cases reply) (simp_all add: r truthful_def)
  let ?a = "\<lparr>at_key = key, at_chat = chat_id, at_method = (if photo = None then ''sendMessage'' else ''sendPhoto''),
      at_message = (if photo = None then message else take 1024 (strip message)), at_accepted = accepted\<rparr>"
  have count: "accepted_for s (nw_attempts w @ [?a]) = accepted_for s (nw_attempts w) + of_bool (accepted \<and> strip key = s)" for s
    by (simp add: accepted_for_def)
  have after: "attempted T (strip key) ok (w\<lparr>nw_attempts := nw_attempts w @ [?a]\<rparr>)" if "accepted \<longrightarrow> ok" for ok
    using pre that by (auto simp: attempted_def delivered_once_def count)
  show "case send_once sc key token chat_id message photo w of
      (Inl e, w') \<Rightarrow> False | (Inr x, w') \<Rightarrow> (case x of (ok, error, params) \<Rightarrow> attempted T (strip key) ok) w'"
  proof (cases "truthy token")
    case False
    with pre show ?thesis by (simp add: send_once_def telegram_api_request_def)
  next
    case True
    show ?thesis
    proof (cases "telegram_api_request token reply")
      case (fields ok error params)
      have "accepted \<longrightarrow> ok" using tr fields True by (auto simp: telegram_api_request_def)
      from after [OF this] show ?thesis using True r fields by (simp add: send_once_def)
    qed
  qed
qed

lemma attempted_not_ok: "attempted T k False w \<Longrightarrow> attempted T k ok w"
  by (simp add: attempted_def)

lemma send_telegram_attempted:
  assumes sc: "quiet_script T sc"
  shows "holds_after (attempted T (strip key) False) (send_telegram sc key token chat_id message photo)
    (\<lambda>(ok, error). attempted T (strip key) ok) (\<lambda>w. False)"
  unfolding send_telegram_def
proof (rule ha_bind [OF send_once_attempted [OF sc]])
  fix x :: "bool \<times> string \<times> py"
  obtain ok error params where x: "x = (ok, error, params)" by (cases x)
  let ?retry = "if \<not> ok then (case params of PDict p \<Rightarrow> pget p ''retry_after'' | _ \<Rightarrow> PNone) else PNone"
  have second: "holds_after (attempted T (strip key) False)
      (nbind (send_once sc key token chat_id message photo) (\<lambda>(ok', error', p'). nret (ok', error')))
      (\<lambda>(ok, error). attempted T (strip key) ok) (\<lambda>w. False)"
    by (rule ha_bind [OF send_once_attempted [OF sc]]) (auto simp: holds_after_def nret_def)
  show "holds_after (case x of (ok, error, params) \<Rightarrow> attempted T (strip key) ok)
      (case x of (ok, error, params) \<Rightarrow>
         let retry_after = (if \<not> ok then (case params of PDict p \<Rightarrow> pget p ''retry_after'' | _ \<Rightarrow> PNone) else PNone)
         in if positive_number retry_after
            then nbind (send_once sc key token chat_id message photo) (\<lambda>(ok', error', p'). nret (ok', error'))
            else nret (ok, error))
      (\<lambda>(ok, error). attempted T (strip key) ok) (\<lambda>w. False)"
  proof (cases "positive_number ?retry")
    case True
    then have "\<not> ok" by (auto simp: positive_number_def)
    with True second show ?thesis by (simp add: x Let_def)
  next
    case False
    then show ?thesis by (simp add: x Let_def holds_after_def nret_def)
  qed
qed

lemma fail_claim_once:
  assumes sc: "quiet_script T sc"
  shows "holds_after (attempted T (strip (dc_delivery_key c)) False) (fail_claim sc c error oc)
    (\<lambda>oc'. delivered_once T) (delivered_once T)"
  unfolding fail_claim_def
  by (rule ha_catch [where R = "delivered_once T"], rule ha_bind [OF fail_keeps_once [OF sc]])
    (simp_all add: ha_ret)

lemma record_delivery_once:
  assumes sc: "quiet_script T sc"
  shows "holds_after (attempted T (strip (dc_delivery_key c)) ok) (record_delivery sc signature ok c key bot_id chat_id oc)
    (\<lambda>oc'. delivered_once T) (delivered_once T)"
proof (cases ok)
  case False
  then show ?thesis unfolding record_delivery_def
    by simp (rule ha_bind [OF fail_claim_once [OF sc]], simp add: ha_ret)
next
  case True
  have "holds_after (attempted T (strip (dc_delivery_key c)) True)
      (ncatch (nbind (complete_delivery sc c) (\<lambda>u. nret oc)) (nret (add_error ''Notifica inviata ma claim non completato'' oc)))
      (\<lambda>oc'. delivered_once T) (delivered_once T)"
    by (rule ha_catch [where R = "delivered_once T"], rule ha_bind [where R = "\<lambda>u. delivered_once T"],
        rule ha_weaken [OF complete_keeps_once [OF sc]]) (simp_all add: ha_ret attempted_def)
  with True show ?thesis unfolding record_delivery_def
    by simp (rule ha_bind, assumption, simp add: ha_ret)
qed

text \<open>The state after a claim: the delivery is held and unsent, or there is nothing to send.\<close>

definition held :: "int \<Rightarrow> delivery_claim option \<Rightarrow> notify_world \<Rightarrow> bool" where
  "held T claim w \<longleftrightarrow> delivered_once T w \<and>
     (case claim of None \<Rightarrow> True | Some c \<Rightarrow> attempted T (strip (dc_delivery_key c)) False w)"

lemma claim_held:
  assumes sc: "quiet_script T sc"
  shows "holds_after (delivered_once T)
    (ncatch (nbind (claim_delivery sc signature destination server_id)
        (\<lambda>c. nret (if acquired c then (Some c, oc1) else (None, oc2)))) (nret (None, oc3)))
    (\<lambda>(claim, oc). held T claim) (delivered_once T)"
  by (rule ha_catch [where R = "delivered_once T"], rule ha_bind [OF claim_keeps_once [OF sc]])
    (auto intro!: ha_ret simp: held_def attempted_def unsent_def)

lemma deliver_claimed_once:
  assumes sc: "quiet_script T sc"
  shows "holds_after (held T (fst s))
    (deliver_claimed sc item signature message image_url token bot_id chat_id key photo s)
    (\<lambda>s'. delivered_once T) (delivered_once T)"
proof -
  obtain claim oc where s: "s = (claim, oc)" by (cases s)
  show ?thesis
  proof (cases claim)
    case None
    then show ?thesis by (auto intro!: ha_ret simp: held_def s deliver_claimed_def)
  next
    case (Some c)
    have fails: "holds_after (held T (Some c)) (nbind (fail_claim sc c error oc) (\<lambda>oc'. nret (f oc', p)))
        (\<lambda>s'. delivered_once T) (delivered_once T)" for error f and p :: photo_state
      by (rule ha_bind [where R = "\<lambda>x. delivered_once T"], rule ha_weaken [OF fail_claim_once [OF sc]])
        (auto simp: held_def intro: ha_ret)
    have sends: "holds_after (held T (Some c))
        (nbind (send_telegram sc (dc_delivery_key c) token chat_id message p) (\<lambda>(ok, error).
          nbind (record_delivery sc signature ok c key bot_id chat_id oc) (\<lambda>oc'. nret (oc', p))))
        (\<lambda>s'. delivered_once T) (delivered_once T)" for p :: photo_state
    proof (rule ha_bind)
      show "holds_after (held T (Some c)) (send_telegram sc (dc_delivery_key c) token chat_id message p)
          (\<lambda>x. attempted T (strip (dc_delivery_key c)) (fst x)) (delivered_once T)"
        by (rule ha_weaken [OF send_telegram_attempted [OF sc]]) (auto simp: held_def)
      show "holds_after (attempted T (strip (dc_delivery_key c)) (fst x))
          (case x of (ok, error) \<Rightarrow>
            nbind (record_delivery sc signature ok c key bot_id chat_id oc) (\<lambda>oc'. nret (oc', p)))
          (\<lambda>s'. delivered_once T) (delivered_once T)" for x :: "bool \<times> string"
        by (cases x, simp, rule ha_bind [OF record_delivery_once [OF sc]]) (simp add: ha_ret)
    qed
    show ?thesis using fails sends by (auto simp: s Some deliver_claimed_def Let_def)
  qed
qed

lemma deliver_recipient_once:
  assumes sc: "quiet_script T sc"
  shows "holds_after (delivered_once T) (deliver_recipient sc item signature message image_url entry recipient s)
    (\<lambda>s'. delivered_once T) (delivered_once T)"
proof -
  obtain oc photo where s: "s = (oc, photo)" by (cases s)
  have claims: "holds_after (delivered_once T)
      (nbind (ncatch (nbind (claim_delivery sc signature key server_id)
          (\<lambda>c. nret (if acquired c then (Some c, oc1) else (None, oc2)))) (nret (None, oc3)))
        (deliver_claimed sc item signature message image_url token bot_id chat_id key photo))
      (\<lambda>s'. delivered_once T) (delivered_once T)" for token bot_id chat_id key server_id oc1 oc2 oc3
    by (rule ha_bind [OF claim_held [OF sc]], rule ha_weaken [OF deliver_claimed_once [OF sc]]) (auto split: prod.splits)
  show ?thesis
    unfolding deliver_recipient_def s
    by (auto simp: Let_def claims intro!: ha_ret ha_raise split: sum.split option.split)
qed

lemma deliver_item_once:
  assumes sc: "quiet_script T sc"
  shows "holds_after (delivered_once T) (deliver_item sc rule_name template recipients item oc)
    (\<lambda>oc'. delivered_once T) (delivered_once T)"
proof -
  have each: "holds_after (delivered_once T)
      (nbind (neach (deliver_recipient sc item signature message image_url entry) recipients s) (\<lambda>(oc2, photo). nret oc2))
      (\<lambda>oc'. delivered_once T) (delivered_once T)" for signature message image_url entry s
    by (rule ha_bind [OF ha_each [OF deliver_recipient_once [OF sc]]]) (auto intro: ha_ret)
  show ?thesis
    by (auto simp: deliver_item_def Let_def each intro!: ha_ret split: message_result.splits option.splits)
qed

lemma deliver_rule_runs_once:
  "quiet_script T sc \<Longrightarrow>
   holds_after (delivered_once T) (deliver_rule_runs sc runs oc) (\<lambda>oc'. delivered_once T) (delivered_once T)"
  unfolding deliver_rule_runs_def by (intro ha_each deliver_item_once)

text \<open>Dispatches one after the other, each with its own script; one that raises leaves what it did.\<close>

definition dispatches :: "(notify_script \<times> rule_run list) list \<Rightarrow> notify_world \<Rightarrow> notify_world" where
  "dispatches ds w = foldl (\<lambda>w d. snd (deliver_rule_runs (fst d) (snd d) (new_outcome []) w)) w ds"

definition no_notifications :: notify_world where
  "no_notifications = \<lparr>nw_ledger = [], nw_attempts = [], nw_ticks = 0\<rparr>"

lemma dispatches_once:
  assumes "\<And>d. d \<in> set ds \<Longrightarrow> quiet_script T (fst d)" "delivered_once T w"
  shows "delivered_once T (dispatches ds w)"
  using assms
proof (induction ds arbitrary: w)
  case (Cons d ds)
  have "delivered_once T (snd (deliver_rule_runs (fst d) (snd d) (new_outcome []) w))"
    using deliver_rule_runs_once [OF Cons.prems(1) [of d], of "snd d" "new_outcome []"] Cons.prems(2)
    by (cases "deliver_rule_runs (fst d) (snd d) (new_outcome []) w") (auto simp: holds_after_def split: sum.splits)
  with Cons show ?case by (simp add: dispatches_def)
qed (simp add: dispatches_def)

text \<open>
  C1: While Telegram's acceptance of a message always reaches the caller and the dispatches
  follow one another within the retention of the ledger, Telegram takes a notification for a
  destination at most once, whatever the rules, the items, the recipients, the refusals and
  the retries, and whatever a dispatch raised.
\<close>

theorem telegram_at_most_once:
  assumes "\<forall>d \<in> set ds. quiet_script T (fst d)"
  shows "accepted_for k (nw_attempts (dispatches ds no_notifications)) \<le> 1"
proof -
  have "delivered_once T no_notifications"
    by (simp add: delivered_once_def no_notifications_def ledger_recent_def ledger_wf_def dkeys_def accepted_for_def)
  with assms have "delivered_once T (dispatches ds no_notifications)" by (intro dispatches_once) auto
  then have "accepted_for k (nw_attempts (dispatches ds no_notifications)) = 0
    \<or> accepted_for k (nw_attempts (dispatches ds no_notifications)) = 1" by (auto simp: delivered_once_def)
  then show ?thesis by auto
qed

subsection \<open>Samples\<close>

definition sample_script :: "(nat \<Rightarrow> bool \<times> telegram_reply) \<Rightarrow> notify_script" where
  "sample_script replies =
     \<lparr>ns_now = (\<lambda>n. 0), ns_token = (\<lambda>n. ''t''), ns_others = (\<lambda>n i. id), ns_server_exists = (\<lambda>n s. True),
      ns_reply = replies, ns_hash = (\<lambda>s. ''h''), ns_message = (\<lambda>i t. Message ''m'' [] None),
      ns_photo = (\<lambda>u i. \<lparr>ph_url = u, ph_error = []\<rparr>), ns_state_entry = (\<lambda>i. PNone),
      ns_order = (\<lambda>is. is), ns_clean = (\<lambda>s. s)\<rparr>"

definition sample_item :: pdict where
  "sample_item = [(''server_id'', PStr ''s''), (''item_id'', PStr ''i''), (''batch_id'', PStr ''b'')]"

definition sample_runs :: "rule_run list" where
  "sample_runs = [\<lparr>rr_name = ''r'', rr_template = ''t'', rr_items = [sample_item],
     rr_recipients = [PDict [(''token'', PStr ''x''), (''bot_id'', PStr ''1''), (''chat_id'', PStr ''2'')]]\<rparr>]"

definition taken :: "nat \<Rightarrow> bool \<times> telegram_reply" where
  "taken n = (True, Telegram_Payload [(''ok'', PBool True)])"

lemma telegram_at_most_once_witness:
  "accepted_for ''h'' (nw_attempts (dispatches [(sample_script taken, sample_runs), (sample_script taken, sample_runs)] no_notifications)) \<le> 1"
  by (rule telegram_at_most_once [where T = 0])
    (simp add: quiet_script_def sample_script_def in_retention_def truthful_def taken_def NOTIFICATION_RETENTION_def
      days_span_def pget_def dget_default_def)

text \<open>
  Without the truthful replies it is not so: a request that timed out after Telegram took the
  message, and an unreadable answer, count as failures, and the next dispatch sends again.
\<close>

definition reply_lost :: "nat \<Rightarrow> bool \<times> telegram_reply" where
  "reply_lost n = (True, Request_Failed)"

definition body_lost :: "nat \<Rightarrow> bool \<times> telegram_reply" where
  "body_lost n = (True, Unreadable_Body)"

lemma lost_reply_sends_again:
  "accepted_for ''h'' (nw_attempts (dispatches [(sample_script reply_lost, sample_runs), (sample_script reply_lost, sample_runs)] no_notifications)) = 2"
  "accepted_for ''h'' (nw_attempts (dispatches [(sample_script body_lost, sample_runs), (sample_script body_lost, sample_runs)] no_notifications)) = 2"
  by code_simp+

end
