(* ===== verification/Publication_History.thy ===== *)
theory Publication_History
  imports Py_Time "HOL-Library.List_Lexorder" "HOL-Library.Char_ord"
begin

text \<open>
  The history of published items (\<open>emby_latest/publication_history.py\<close>, with \<open>_parse_date_value\<close> of
  \<open>core/utils.py\<close>): which entries belong to one film, and the union of what they say of versions and
  of notifications.  Entries are JSON objects; an argument that is \<open>None\<close> is left out of the list of
  entries.  Keys of objects are texts.
\<close>

subsection \<open>Dates\<close>

definition digits_at :: "nat list \<Rightarrow> string \<Rightarrow> bool" where
  "digits_at ns s \<longleftrightarrow> (\<forall>n \<in> set ns. is_digit (s ! n))"

definition date_base :: "string \<Rightarrow> bool" where
  "date_base s \<longleftrightarrow> length s = 19 \<and> digits_at [0, 1, 2, 3, 5, 6, 8, 9, 11, 12, 14, 15, 17, 18] s
     \<and> s ! 4 = CHR ''-'' \<and> s ! 7 = CHR ''-'' \<and> s ! 10 = CHR ''T'' \<and> s ! 13 = CHR '':'' \<and> s ! 16 = CHR '':''"

definition date_zone :: "string \<Rightarrow> bool" where
  "date_zone s \<longleftrightarrow> s = [] \<or>
     length s = 6 \<and> s ! 0 \<in> {CHR ''+'', CHR ''-''} \<and> digits_at [1, 2, 4, 5] s \<and> s ! 3 = CHR '':''"

text \<open>The fraction of a second is cut to six digits.\<close>

definition normalized_date :: "string \<Rightarrow> string" where
  "normalized_date text' =
     (let n = replace_char (CHR ''Z'') ''+00:00'' text' in
      if CHR ''.'' \<notin> set n then n
      else let base = take 19 n; rest = drop 19 n;
               fraction = (if startswith rest ''.'' then takeWhile is_digit (drop 1 rest) else []);
               zone = (if fraction = [] then rest else drop (1 + length fraction) rest)
           in if date_base base \<and> date_zone zone
              then (if fraction = [] then base @ zone else base @ ''.'' @ take 6 fraction @ zone)
              else n)"

text \<open>\<open>datetime.strptime(s, "%Y-%m-%d")\<close>: the month and the day may have one digit, the day a space.\<close>

definition strptime_day :: "string \<Rightarrow> int option" where
  "strptime_day s =
     (case split_char (CHR ''-'') s of
        [y, m, d] \<Rightarrow>
          (let day = (if length d = 2 \<and> hd d = CHR '' '' then tl d else d) in
           if length y = 4 \<and> list_all is_digit y
              \<and> length m \<in> {1, 2} \<and> list_all is_digit m \<and> 1 \<le> digits_val m \<and> digits_val m \<le> 12
              \<and> length day \<in> {1, 2} \<and> list_all is_digit day \<and> 1 \<le> digits_val day
              \<and> valid_fields (digits_val y) (digits_val m) (digits_val day) 0 0 0 0
           then Some (instant_of (digits_val y) (digits_val m) (digits_val day) 0 0 0 0)
           else None)
      | _ \<Rightarrow> None)"

definition parse_date_value :: "py \<Rightarrow> exn + int option" where
  "parse_date_value value' =
     (let text' = strip (text_or_empty value') in
      if text' = [] then Inr None
      else case from_iso (normalized_date text') of
             Some p \<Rightarrow> result_bind (to_utc p) (\<lambda>t. Inr (Some t))
           | None \<Rightarrow> Inr (strptime_day (take 10 text')))"

subsection \<open>Sections and entries\<close>

definition HISTORY_SECTIONS :: "string list" where
  "HISTORY_SECTIONS = [''movies'', ''series'', ''episodes'']"

definition as_dict :: "py \<Rightarrow> pdict" where
  "as_dict v = (case v of PDict d \<Rightarrow> d | _ \<Rightarrow> [])"

definition is_dict :: "py \<Rightarrow> bool" where
  "is_dict v = (case v of PDict d \<Rightarrow> True | _ \<Rightarrow> False)"

definition ensure_section :: "string \<Rightarrow> pdict \<Rightarrow> pdict" where
  "ensure_section s history = (if is_dict (pget history s) then history else dset s (PDict []) history)"

definition ensure_history :: "pdict \<Rightarrow> pdict \<times> pdict" where
  "ensure_history server_state =
     (let history = foldl (\<lambda>h s. ensure_section s h) (as_dict (pget server_state ''history'')) HISTORY_SECTIONS
      in (history, dset ''history'' (PDict history) server_state))"

definition get_history_entry :: "pdict \<Rightarrow> string \<Rightarrow> py \<Rightarrow> pdict option" where
  "get_history_entry history s key =
     (if s \<notin> set HISTORY_SECTIONS \<or> \<not> is_dict (pget history s) \<or> strip (text_or_empty key) = [] then None
      else case pget (as_dict (pget history s)) (strip (text_or_empty key)) of PDict e \<Rightarrow> Some e | _ \<Rightarrow> None)"

subsection \<open>The entries of one film\<close>

type_synonym identity_token = "string \<times> string"
type_synonym identity_row = "string \<times> pdict \<times> identity_token list"

definition text_token :: "string \<Rightarrow> py \<Rightarrow> identity_token list" where
  "text_token kind v = (let t = strip (text_or_empty v) in if t = [] then [] else [(kind, t)])"

definition movie_identity_tokens :: "py \<Rightarrow> pdict option \<Rightarrow> identity_token list" where
  "movie_identity_tokens key entry =
     text_token ''key'' key @
     (case entry of None \<Rightarrow> [] | Some e \<Rightarrow> text_token ''item'' (pget e ''item_id'') @ text_token ''signature'' (pget e ''signature''))"

text \<open>One pass of the loop: what it matched, the tokens known now, and what is left.\<close>

fun alias_pass ::
  "identity_token list \<Rightarrow> identity_row list \<Rightarrow> (string \<times> pdict) list \<times> identity_token list \<times> identity_row list" where
  "alias_pass known [] = ([], known, [])"
| "alias_pass known ((k, e, ts) # rows) =
     (if \<exists>t \<in> set ts. t \<in> set known
      then (case alias_pass (ts @ known) rows of (m, c, p) \<Rightarrow> ((k, e) # m, c, p))
      else (case alias_pass known rows of (m, c, p) \<Rightarrow> (m, c, (k, e, ts) # p)))"

lemma alias_pass_length:
  "alias_pass known rows = (m, c, p) \<Longrightarrow> length p + length m = length rows"
  by (induction known rows arbitrary: m c p rule: alias_pass.induct) (auto split: if_splits prod.splits)

lemma alias_pass_shorter:
  "(m, c, p) = alias_pass known rows \<Longrightarrow> m \<noteq> [] \<Longrightarrow> length p < length rows"
  using alias_pass_length [of known rows m c p] by (cases m) auto

function consume_connected_movie_aliases :: "identity_token list \<Rightarrow> identity_row list \<Rightarrow> (string \<times> pdict) list" where
  "consume_connected_movie_aliases known rows =
     (case alias_pass known rows of
        (m, c, p) \<Rightarrow> if m = [] then [] else m @ consume_connected_movie_aliases c p)"
  by pat_completeness auto
termination
  by (relation "measure (length \<circ> snd)") (auto intro: alias_pass_shorter)

declare consume_connected_movie_aliases.simps [simp del]

definition identity_rows :: "py \<Rightarrow> identity_row list" where
  "identity_rows entries =
     concat (map (\<lambda>p. case snd p of
        PDict e \<Rightarrow> [(fst p, e, movie_identity_tokens (PStr (fst p)) (Some e))] | _ \<Rightarrow> []) (as_dict entries))"

definition identity_tokens :: "py \<Rightarrow> py \<Rightarrow> py \<Rightarrow> identity_token list" where
  "identity_tokens state_key item_id signature =
     movie_identity_tokens state_key None @ text_token ''item'' item_id @ text_token ''signature'' signature"

definition matching_movie_identity_entries :: "py \<Rightarrow> py \<Rightarrow> py \<Rightarrow> py \<Rightarrow> (string \<times> pdict) list" where
  "matching_movie_identity_entries entries state_key item_id signature =
     consume_connected_movie_aliases (identity_tokens state_key item_id signature) (identity_rows entries)"

text \<open>What the loop is to compute: the rows linked to the tokens, directly or through other rows.\<close>

inductive linked :: "identity_token list \<Rightarrow> identity_row list \<Rightarrow> identity_row \<Rightarrow> bool" for ts rows where
  direct: "row \<in> set rows \<Longrightarrow> t \<in> set (snd (snd row)) \<Longrightarrow> t \<in> set ts \<Longrightarrow> linked ts rows row"
| through: "linked ts rows row \<Longrightarrow> row' \<in> set rows \<Longrightarrow> t \<in> set (snd (snd row)) \<Longrightarrow> t \<in> set (snd (snd row')) \<Longrightarrow>
     linked ts rows row'"

lemma linked_row: "linked ts rows row \<Longrightarrow> row \<in> set rows"
  by (induction rule: linked.induct)

lemma alias_pass_rows:
  "alias_pass known rows = (m, c, p) \<Longrightarrow>
     (\<exists>found. (\<forall>row. row \<in> set rows \<longleftrightarrow> row \<in> set found \<or> row \<in> set p) \<and>
        m = map (\<lambda>r. (fst r, fst (snd r))) found \<and>
        set c = set known \<union> (\<Union>r \<in> set found. set (snd (snd r))) \<and>
        (\<forall>r \<in> set found. linked known rows r))"
proof (induction known rows arbitrary: m c p rule: alias_pass.induct)
  case (1 known)
  then show ?case by (intro exI [of _ "[]"]) auto
next
  case (2 known k e ts rows)
  show ?case
  proof (cases "\<exists>t \<in> set ts. t \<in> set known")
    case True
    obtain m' c' p' where rec: "alias_pass (ts @ known) rows = (m', c', p')" by (metis prod_cases3)
    from 2(1) [OF True rec] obtain found where found:
      "\<forall>row. row \<in> set rows \<longleftrightarrow> row \<in> set found \<or> row \<in> set p'"
      "m' = map (\<lambda>r. (fst r, fst (snd r))) found"
      "set c' = set (ts @ known) \<union> (\<Union>r \<in> set found. set (snd (snd r)))"
      "\<forall>r \<in> set found. linked (ts @ known) rows r" by blast
    have out: "m = (k, e) # m'" "c = c'" "p = p'" using 2(3) True rec by auto
    have new: "linked known ((k, e, ts) # rows) (k, e, ts)"
      using True by (auto intro: linked.direct)
    have old: "linked known ((k, e, ts) # rows) r" if "linked (ts @ known) rows r" for r
      using that
    proof (induction rule: linked.induct)
      case (direct row t)
      show ?case
      proof (cases "t \<in> set known")
        case True
        with direct show ?thesis by (intro linked.direct [of row _ t]) auto
      next
        case False
        with direct show ?thesis by (intro linked.through [OF new, of row t]) auto
      qed
    next
      case (through row row' t)
      then show ?case by (intro linked.through [of _ _ row row' t]) auto
    qed
    show ?thesis
      by (rule exI [of _ "(k, e, ts) # found"]) (use found out new old in auto)
  next
    case False
    obtain m' c' p' where rec: "alias_pass known rows = (m', c', p')" by (metis prod_cases3)
    from 2(2) [OF False rec] obtain found where found:
      "\<forall>row. row \<in> set rows \<longleftrightarrow> row \<in> set found \<or> row \<in> set p'"
      "m' = map (\<lambda>r. (fst r, fst (snd r))) found"
      "set c' = set known \<union> (\<Union>r \<in> set found. set (snd (snd r)))"
      "\<forall>r \<in> set found. linked known rows r" by blast
    have out: "m = m'" "c = c'" "p = (k, e, ts) # p'" using 2(3) False rec by auto
    have old: "linked known ((k, e, ts) # rows) r" if "linked known rows r" for r
      using that
    proof (induction rule: linked.induct)
      case (direct row t)
      then show ?case by (intro linked.direct [of row _ t]) auto
    next
      case (through row row' t)
      then show ?case by (intro linked.through [of _ _ row row' t]) auto
    qed
    show ?thesis
      by (rule exI [of _ found]) (use found out old in auto)
  qed
qed

lemma alias_pass_none:
  "alias_pass known rows = ([], c, p) \<Longrightarrow> row \<in> set rows \<Longrightarrow> t \<in> set (snd (snd row)) \<Longrightarrow> t \<notin> set known"
  by (induction known rows arbitrary: c p rule: alias_pass.induct) (auto split: if_splits prod.splits)

lemma linked_after_pass:
  assumes rows: "\<forall>row. row \<in> set rows \<longleftrightarrow> row \<in> set found \<or> row \<in> set p"
    and c: "set c = set known \<union> (\<Union>r \<in> set found. set (snd (snd r)))"
    and found: "\<forall>r \<in> set found. linked known rows r"
  shows "linked known rows row \<longleftrightarrow> row \<in> set found \<or> linked c p row"
proof
  show "linked known rows row \<Longrightarrow> row \<in> set found \<or> linked c p row"
  proof (induction rule: linked.induct)
    case (direct row t)
    then show ?case using rows c by (auto intro: linked.direct [of row p t c])
  next
    case (through row row' t)
    then show ?case
    proof (cases "row' \<in> set found")
      case False
      then have p': "row' \<in> set p" using through.hyps rows by auto
      from through.IH show ?thesis
      proof
        assume "row \<in> set found"
        then have "t \<in> set c" using through.hyps c by auto
        with p' through.hyps show ?thesis by (auto intro: linked.direct [of row' p t c])
      next
        assume "linked c p row"
        with p' through.hyps show ?thesis by (auto intro: linked.through [of c p row row' t])
      qed
    qed simp
  qed
  assume "row \<in> set found \<or> linked c p row"
  then show "linked known rows row"
  proof
    assume "linked c p row"
    then show ?thesis
    proof (induction rule: linked.induct)
      case (direct row t)
      then have row: "row \<in> set rows" using rows by blast
      show ?case
      proof (cases "t \<in> set known")
        case True
        with row direct show ?thesis by (intro linked.direct [of row _ t])
      next
        case False
        then obtain r where "r \<in> set found" "t \<in> set (snd (snd r))" using direct c by auto
        with found row direct show ?thesis by (intro linked.through [of _ _ r row t]) auto
      qed
    next
      case (through row row' t)
      then have "row' \<in> set rows" using rows by blast
      with through show ?case by (intro linked.through [of _ _ row row' t])
    qed
  qed (use found in simp)
qed

lemma consume_rows:
  "\<exists>found. consume_connected_movie_aliases known rows = map (\<lambda>r. (fst r, fst (snd r))) found
     \<and> (\<forall>row. row \<in> set found \<longleftrightarrow> linked known rows row)"
proof (induction known rows rule: consume_connected_movie_aliases.induct)
  case (1 known rows)
  obtain m c p where pass: "alias_pass known rows = (m, c, p)" by (metis prod_cases3)
  show ?case
  proof (cases "m = []")
    case True
    have "\<not> linked known rows row" for row
    proof
      assume "linked known rows row"
      then show False by (induction rule: linked.induct) (use alias_pass_none [OF pass [unfolded True]] in auto)
    qed
    with True pass show ?thesis
      by (intro exI [of _ "[]"]) (simp add: consume_connected_movie_aliases.simps [of known rows])
  next
    case False
    from alias_pass_rows [OF pass] obtain found where found:
      "\<forall>row. row \<in> set rows \<longleftrightarrow> row \<in> set found \<or> row \<in> set p"
      "m = map (\<lambda>r. (fst r, fst (snd r))) found"
      "set c = set known \<union> (\<Union>r \<in> set found. set (snd (snd r)))"
      "\<forall>r \<in> set found. linked known rows r" by blast
    from 1 [OF pass [symmetric] refl False] obtain rest where rest:
      "consume_connected_movie_aliases c p = map (\<lambda>r. (fst r, fst (snd r))) rest"
      "\<forall>row. row \<in> set rest \<longleftrightarrow> linked c p row" by blast
    have "consume_connected_movie_aliases known rows = map (\<lambda>r. (fst r, fst (snd r))) (found @ rest)"
      using False pass found(2) rest(1) by (simp add: consume_connected_movie_aliases.simps [of known rows])
    moreover have "row \<in> set (found @ rest) \<longleftrightarrow> linked known rows row" for row
      using linked_after_pass [OF found(1,3,4), of row] rest(2) by (metis set_append Un_iff)
    ultimately show ?thesis by blast
  qed
qed

lemma matching_iff:
  "(k, e) \<in> set (matching_movie_identity_entries entries state_key item_id signature) \<longleftrightarrow>
     (\<exists>ts. linked (identity_tokens state_key item_id signature) (identity_rows entries) (k, e, ts))"
proof -
  obtain found where found: "matching_movie_identity_entries entries state_key item_id signature
      = map (\<lambda>r. (fst r, fst (snd r))) found"
    "\<forall>row. row \<in> set found \<longleftrightarrow> linked (identity_tokens state_key item_id signature) (identity_rows entries) row"
    using consume_rows unfolding matching_movie_identity_entries_def by blast
  show ?thesis unfolding found(1) using found(2) by force
qed

text \<open>
  C6: The entries found for a film are exactly those linked to its key, its identifier or its
  signature, directly or through any chain of entries that share one: the loop computes the
  connected component.
\<close>

theorem aliases_are_the_component:
  "(k, e) \<in> set (matching_movie_identity_entries entries state_key item_id signature) \<longleftrightarrow>
     (\<exists>ts. linked (identity_tokens state_key item_id signature) (identity_rows entries) (k, e, ts))"
  by (rule matching_iff)

subsection \<open>Versions\<close>

text \<open>Iterating over a value: a list, the characters of a text, the keys of an object.\<close>

definition py_elements :: "py \<Rightarrow> exn + py list" where
  "py_elements v =
     (case v of
        PList xs \<Rightarrow> Inr xs
      | PStr s \<Rightarrow> Inr (map (\<lambda>c. PStr [c]) s)
      | PDict d \<Rightarrow> Inr (map (\<lambda>p. PStr (fst p)) d)
      | _ \<Rightarrow> Inl (TypeError ''object is not iterable''))"

definition stripped_texts :: "py list \<Rightarrow> string list" where
  "stripped_texts vs = filter (\<lambda>t. t \<noteq> []) (map (\<lambda>v. strip (text_or_empty v)) vs)"

definition sorted_set :: "string list \<Rightarrow> string list" where
  "sorted_set xs = sort (remdups xs)"

definition media_source_key_set :: "pdict list \<Rightarrow> string list" where
  "media_source_key_set entries =
     concat (map (\<lambda>e. case pget e ''media_source_keys'' of PList vs \<Rightarrow> stripped_texts vs | _ \<Rightarrow> []) entries)"

primrec mediainfo_keys :: "pdict list \<Rightarrow> exn + string list" where
  "mediainfo_keys [] = Inr []"
| "mediainfo_keys (e # es) =
     result_bind (py_elements (py_or (pget e ''mediainfo_source_keys'') (PList []))) (\<lambda>vs.
     result_bind (mediainfo_keys es) (\<lambda>r. Inr (stripped_texts vs @ r)))"

definition mediainfo_snapshot :: "pdict list \<Rightarrow> exn + pdict" where
  "mediainfo_snapshot entries =
     result_bind (mediainfo_keys entries) (\<lambda>info.
       let sources = media_source_key_set entries in
       Inr [(''media_source_keys'', PList (map PStr (sorted_set sources))),
            (''mediainfo_source_keys'', PList (map PStr (sorted_set info))),
            (''mediainfo_complete'', PBool (sources \<noteq> [] \<and> set sources \<subseteq> set info))])"

definition add_new_texts :: "string list \<Rightarrow> string list \<Rightarrow> string list" where
  "add_new_texts ts out = foldl (\<lambda>out t. if t \<in> set out then out else out @ [t]) out ts"

definition merge_key_lists :: "py list \<Rightarrow> py list \<Rightarrow> py list \<Rightarrow> int \<Rightarrow> string list" where
  "merge_key_lists primary existing fallback max_count =
     (let out = add_new_texts (stripped_texts existing) (add_new_texts (stripped_texts primary) []);
          out1 = (if out = [] then add_new_texts (stripped_texts fallback) out else out)
      in if max_count > 0 then take (nat max_count) out1 else out1)"

subsection \<open>Notifications\<close>

definition later_timestamp :: "string \<Rightarrow> py \<Rightarrow> exn + string" where
  "later_timestamp current candidate =
     (let candidate_text = strip (text_or_empty candidate) in
      if candidate_text = [] then Inr current
      else result_bind (parse_date_value (PStr current)) (\<lambda>c.
           result_bind (parse_date_value (PStr candidate_text)) (\<lambda>d.
           Inr (case (c, d) of
                  (None, _) \<Rightarrow> candidate_text
                | (Some x, Some y) \<Rightarrow> if y > x then candidate_text else current
                | (Some x, None) \<Rightarrow> current))))"

definition merged_destinations :: "pdict \<Rightarrow> pdict \<Rightarrow> pdict" where
  "merged_destinations current publication =
     dupdate (dupdate [] (as_dict (pget current ''notified_destinations''))) (as_dict (pget publication ''notified_destinations''))"

definition merge_publication :: "pdict \<Rightarrow> pdict \<Rightarrow> exn + pdict" where
  "merge_publication current publication =
     (let merged = dupdate current publication;
          destinations = merged_destinations current publication;
          merged1 = (if destinations \<noteq> [] then dset ''notified_destinations'' (PDict destinations) merged else merged);
          merged2 = dset ''notified'' (PBool (truthy (pget current ''notified'') \<or> truthy (pget publication ''notified''))) merged1
      in result_bind (later_timestamp (text_or_empty (pget current ''notified_at'')) (pget publication ''notified_at''))
           (\<lambda>t. Inr (dset ''notified_at'' (PStr t) merged2)))"

primrec merge_publication_notifications :: "pdict \<Rightarrow> (string \<times> py) list \<Rightarrow> exn + pdict" where
  "merge_publication_notifications publications [] = Inr publications"
| "merge_publication_notifications publications (p # ps) =
     (case snd p of
        PDict publication \<Rightarrow>
          result_bind (merge_publication (as_dict (pget publications (fst p))) publication) (\<lambda>merged.
          merge_publication_notifications (dset (fst p) (PDict merged) publications) ps)
      | _ \<Rightarrow> merge_publication_notifications publications ps)"

record notification_evidence =
  ne_notified :: bool
  ne_notified_at :: string
  ne_destinations :: pdict
  ne_publications :: pdict

primrec collect_evidence :: "pdict list \<Rightarrow> notification_evidence \<Rightarrow> exn + notification_evidence" where
  "collect_evidence [] ev = Inr ev"
| "collect_evidence (e # es) ev =
     result_bind (later_timestamp (ne_notified_at ev) (pget e ''notified_at'')) (\<lambda>t.
     result_bind (merge_publication_notifications (ne_publications ev) (as_dict (pget e ''notified_publications''))) (\<lambda>pubs.
     collect_evidence es
       \<lparr>ne_notified = (ne_notified ev \<or> truthy (pget e ''notified'')), ne_notified_at = t,
        ne_destinations = dupdate (ne_destinations ev) (as_dict (pget e ''notified_destinations'')),
        ne_publications = pubs\<rparr>))"

definition notification_snapshot :: "pdict list \<Rightarrow> exn + pdict" where
  "notification_snapshot entries =
     result_bind (collect_evidence entries
         \<lparr>ne_notified = False, ne_notified_at = [], ne_destinations = [], ne_publications = []\<rparr>) (\<lambda>ev.
       Inr ([(''notified'', PBool (ne_notified ev)), (''notified_at'', PStr (ne_notified_at ev))]
         @ (if ne_destinations ev \<noteq> [] then [(''notified_destinations'', PDict (ne_destinations ev))] else [])
         @ (if ne_publications ev \<noteq> [] then [(''notified_publications'', PDict (ne_publications ev))] else [])))"

definition is_notified :: "pdict list \<Rightarrow> bool" where
  "is_notified entries \<longleftrightarrow> (\<exists>e \<in> set entries. truthy (pget e ''notified''))"

subsection \<open>The entry of a film\<close>

definition alias_preference :: "py \<Rightarrow> string \<times> pdict \<Rightarrow> nat" where
  "alias_preference state_key m =
     4 * of_bool (truthy (pget (snd m) ''notified''))
     + 2 * of_bool (is_dict (pget (snd m) ''notified_publications'') \<or> is_dict (pget (snd m) ''notified_destinations''))
     + of_bool (fst m = strip (text_or_empty state_key))"

text \<open>\<open>max\<close> keeps the first of equal elements; the triple of zeros and ones is compared as a number.\<close>

definition first_best :: "('a \<Rightarrow> nat) \<Rightarrow> 'a \<Rightarrow> 'a list \<Rightarrow> 'a" where
  "first_best f x xs = foldl (\<lambda>best y. if f best < f y then y else best) x xs"

definition find_movie_identity_entry :: "py \<Rightarrow> py \<Rightarrow> py \<Rightarrow> py \<Rightarrow> exn + (string \<times> pdict) option" where
  "find_movie_identity_entry entries state_key item_id signature =
     (case matching_movie_identity_entries entries state_key item_id signature of
        [] \<Rightarrow> Inr None
      | m # ms \<Rightarrow>
          (let best = first_best (alias_preference state_key) m ms; found = map snd (m # ms)
           in result_bind (mediainfo_snapshot found) (\<lambda>info.
              result_bind (notification_snapshot found) (\<lambda>notes.
              Inr (Some (fst best, dupdate (dupdate (snd best) info) notes))))))"

definition find_history_movie_entry :: "pdict \<Rightarrow> py \<Rightarrow> py \<Rightarrow> py \<Rightarrow> exn + (string \<times> pdict) option" where
  "find_history_movie_entry history state_key item_id signature =
     find_movie_identity_entry (pget history ''movies'') state_key item_id signature"

subsection \<open>Updating an entry\<close>

primrec integers_of :: "py list \<Rightarrow> exn + int list" where
  "integers_of [] = Inr []"
| "integers_of (v # vs) =
     result_bind (try_int v) (\<lambda>i. result_bind (integers_of vs) (\<lambda>is.
       Inr (case i of None \<Rightarrow> is | Some n \<Rightarrow> n # is)))"

definition elements_or_none :: "py \<Rightarrow> exn + py list" where
  "elements_or_none v = py_elements (py_or v (PList []))"

definition update_history_entry :: "pdict \<Rightarrow> string \<Rightarrow> py \<Rightarrow> pdict \<Rightarrow> exn + pdict \<times> pdict" where
  "update_history_entry history s key payload =
     (if s \<notin> set HISTORY_SECTIONS then Inl (ValueError (''Unsupported history section: '' @ s))
      else
        let history1 = ensure_section s history; text_key = strip (text_or_empty key)
        in if text_key = [] then Inr ([], history1)
           else
             let entries = as_dict (pget history1 s); existing = as_dict (pget entries text_key);
                 merged = dupdate existing payload
             in result_bind
                  (if has_key ''media_source_keys'' existing \<or> has_key ''media_source_keys'' payload
                   then result_bind (elements_or_none (pget payload ''media_source_keys'')) (\<lambda>new.
                        result_bind (elements_or_none (pget existing ''media_source_keys'')) (\<lambda>old.
                        Inr (dset ''media_source_keys'' (PList (map PStr (merge_key_lists new old [] 0))) merged)))
                   else Inr merged) (\<lambda>merged1.
                result_bind
                  (if has_key ''seasons'' existing \<or> has_key ''seasons'' payload
                   then result_bind (elements_or_none (pget existing ''seasons'')) (\<lambda>old.
                        result_bind (elements_or_none (pget payload ''seasons'')) (\<lambda>new.
                        result_bind (integers_of (old @ new)) (\<lambda>is.
                        Inr (dset ''seasons'' (PList (map PInt (sort (remdups is)))) merged1))))
                   else Inr merged1) (\<lambda>merged2.
                result_bind (notification_snapshot [existing, payload]) (\<lambda>notes.
                let merged3 = dupdate merged2 notes
                in Inr (merged3, dset s (PDict (dset text_key (PDict merged3) entries)) history1)))))"

end
