(* ===== verification/Notification_State.thy ===== *)
theory Notification_State
  imports Publication_History
begin

text \<open>
  Merging of notification checkpoints into the collector's state
  (\<open>core/storage/storage_latest_state_merge.py\<close>).  The recursion over nested publications terminates by
  the weight of the source.  \<open>named\<close>: an entry names a destination of a publication as notified.
\<close>

subsection \<open>Weights\<close>

fun weight :: "py \<Rightarrow> nat" where
  "weight (PList xs) = Suc (sum_list (map weight xs))"
| "weight (PDict d) = Suc (sum_list (map (\<lambda>p. weight (snd p)) d))"
| "weight v = 1"

definition dict_weight :: "(string \<times> py) list \<Rightarrow> nat" where
  "dict_weight d = sum_list (map (\<lambda>p. weight (snd p)) d)"

lemma weight_PDict: "weight (PDict d) = Suc (dict_weight d)"
  by (simp add: dict_weight_def)

lemma weight_pos: "0 < weight v"
  by (cases v) auto

lemma weight_member: "(k, v) \<in> set d \<Longrightarrow> weight v \<le> dict_weight d"
  by (induction d) (auto simp: dict_weight_def)

lemma weight_pget: "pget d k = PDict e \<Longrightarrow> dict_weight e < dict_weight d"
proof -
  assume "pget d k = PDict e"
  then have "(k, PDict e) \<in> set d"
    by (auto simp: pget_def dget_default_def dest: map_of_SomeD split: option.splits)
  from weight_member [OF this] show ?thesis by (simp add: weight_PDict del: weight.simps)
qed

subsection \<open>Merging one entry\<close>

definition merge_flags :: "pdict \<Rightarrow> pdict \<Rightarrow> pdict" where
  "merge_flags target source =
     (let t1 = dset ''notified'' (PBool (truthy (pget target ''notified'') \<or> truthy (pget source ''notified''))) target
      in if truthy (pget source ''notified_at'') \<and> (truthy (pget source ''notified'') \<or> \<not> truthy (pget t1 ''notified_at''))
         then dset ''notified_at'' (pget source ''notified_at'') t1 else t1)"

definition merge_destinations :: "pdict \<Rightarrow> pdict \<Rightarrow> pdict" where
  "merge_destinations target source =
     (case pget source ''notified_destinations'' of
        PDict d \<Rightarrow> dset ''notified_destinations'' (PDict (dupdate (as_dict (pget target ''notified_destinations'')) d)) target
      | _ \<Rightarrow> target)"

lemma weight_nested: "snd x = PDict s \<Longrightarrow> dict_weight s < dict_weight (x # xs)"
  by (simp add: dict_weight_def)

lemma weight_rest: "dict_weight xs < dict_weight (x # xs)"
  by (simp add: dict_weight_def weight_pos)

function merge_notification_metadata :: "pdict \<Rightarrow> pdict \<Rightarrow> pdict"
  and merge_publications :: "pdict \<Rightarrow> (string \<times> py) list \<Rightarrow> pdict" where
  "merge_notification_metadata target source =
     (let t = merge_destinations (merge_flags target source) source
      in case pget source ''notified_publications'' of
           PDict p \<Rightarrow> dset ''notified_publications''
                        (PDict (merge_publications (as_dict (pget t ''notified_publications'')) p)) t
         | _ \<Rightarrow> t)"
| "merge_publications publications [] = publications"
| "merge_publications publications (x # xs) =
     (case snd x of
        PDict s \<Rightarrow> merge_publications
          (dset (fst x) (PDict (merge_notification_metadata (as_dict (pget publications (fst x))) s)) publications) xs
      | _ \<Rightarrow> merge_publications publications xs)"
  by pat_completeness auto
termination
  by (relation "measure (case_sum (\<lambda>p. dict_weight (snd p)) (\<lambda>p. dict_weight (snd p)))")
    (simp_all add: weight_pget weight_nested weight_rest)

declare merge_notification_metadata.simps [simp del]

definition has_notification_metadata :: "pdict \<Rightarrow> bool" where
  "has_notification_metadata entry \<longleftrightarrow>
     truthy (pget entry ''notified'') \<or> truthy (pget entry ''notified_at'')
     \<or> is_dict (pget entry ''notified_destinations'') \<or> is_dict (pget entry ''notified_publications'')"

subsection \<open>Merging a state\<close>

definition merge_entry :: "pdict \<Rightarrow> string \<times> py \<Rightarrow> pdict" where
  "merge_entry items x =
     (case snd x of
        PDict source \<Rightarrow>
          (case pget items (fst x) of
             PDict target \<Rightarrow> dset (fst x) (PDict (merge_notification_metadata target source)) items
           | _ \<Rightarrow> if has_notification_metadata source then dset (fst x) (PDict source) items else items)
      | _ \<Rightarrow> items)"

definition merge_entries :: "pdict \<Rightarrow> (string \<times> py) list \<Rightarrow> pdict" where
  "merge_entries items source_items = foldl merge_entry items source_items"

definition merge_section_notifications :: "pdict \<Rightarrow> pdict \<Rightarrow> string \<Rightarrow> pdict" where
  "merge_section_notifications target_server source_server s =
     (case pget (as_dict (pget source_server s)) ''items'' of
        PDict source_items \<Rightarrow>
          (let target_section = as_dict (pget target_server s);
               items = merge_entries (as_dict (pget target_section ''items'')) source_items
           in dset s (PDict (dset ''items'' (PDict items) target_section)) target_server)
      | _ \<Rightarrow> target_server)"

definition merge_history_section :: "pdict \<Rightarrow> string \<times> py \<Rightarrow> pdict" where
  "merge_history_section target_history x =
     (case snd x of
        PDict source_entries \<Rightarrow>
          dset (fst x) (PDict (merge_entries (as_dict (pget target_history (fst x))) source_entries)) target_history
      | _ \<Rightarrow> target_history)"

definition merge_history_notifications :: "pdict \<Rightarrow> pdict \<Rightarrow> pdict" where
  "merge_history_notifications target_server source_server =
     (case pget source_server ''history'' of
        PDict source_history \<Rightarrow>
          dset ''history'' (PDict (foldl merge_history_section (as_dict (pget target_server ''history'')) source_history))
            target_server
      | _ \<Rightarrow> target_server)"

definition merge_server :: "pdict \<Rightarrow> string \<times> py \<Rightarrow> pdict" where
  "merge_server merged x =
     (case snd x of
        PDict source_server \<Rightarrow>
          dset (fst x)
            (PDict (merge_history_notifications
              (merge_section_notifications
                (merge_section_notifications (as_dict (pget merged (fst x))) source_server ''movies'')
                source_server ''series'')
              source_server)) merged
      | _ \<Rightarrow> merged)"

definition merge_notification_updates :: "pdict \<Rightarrow> pdict \<Rightarrow> pdict" where
  "merge_notification_updates current_state notification_state = foldl merge_server current_state notification_state"

subsection \<open>Named destinations\<close>

definition destinations_of :: "pdict \<Rightarrow> pdict" where
  "destinations_of e = as_dict (pget e ''notified_destinations'')"

definition publication_of :: "pdict \<Rightarrow> string \<Rightarrow> pdict" where
  "publication_of e pk = as_dict (pget (as_dict (pget e ''notified_publications'')) pk)"

definition named :: "pdict \<Rightarrow> string \<Rightarrow> string \<Rightarrow> bool" where
  "named e pk dk \<longleftrightarrow> has_key dk (destinations_of (publication_of e pk))"

lemma has_key_dupdate [simp]: "has_key k (dupdate d e) \<longleftrightarrow> has_key k d \<or> has_key k e"
proof (induction e arbitrary: d)
  case (Cons p e)
  obtain a b where p: "p = (a, b)" by (cases p)
  have "has_key k (dupdate d (p # e)) \<longleftrightarrow> has_key k (dset a b d) \<or> has_key k e" by (simp only: p dupdate_Cons Cons fst_conv snd_conv)
  then show ?case unfolding p has_key_simps by blast
qed simp

lemma as_dict_simps [simp]:
  "as_dict (PDict d) = d" "as_dict PNone = []" "as_dict (PBool b) = []" "as_dict (PInt i) = []"
  "as_dict (PFloat f r) = []" "as_dict (PStr s) = []" "as_dict (PList xs) = []"
  by (simp_all add: as_dict_def)

lemma is_dict_simps [simp]:
  "is_dict (PDict d)" "\<not> is_dict PNone" "\<not> is_dict (PBool b)" "\<not> is_dict (PInt i)"
  "\<not> is_dict (PFloat f r)" "\<not> is_dict (PStr s)" "\<not> is_dict (PList xs)"
  by (simp_all add: is_dict_def)


lemma as_dict_cases: obtains (dict) d where "v = PDict d" | (other) "\<not> is_dict v" "as_dict v = []"
  by (cases v) auto

lemma pget_member: "pget d k = PDict e \<Longrightarrow> (k, PDict e) \<in> set d"
  by (auto simp: pget_def dget_default_def dest: map_of_SomeD split: option.splits)

lemma pget_flags: "k \<noteq> ''notified'' \<Longrightarrow> k \<noteq> ''notified_at'' \<Longrightarrow> pget (merge_flags t s) k = pget t k"
  by (simp add: merge_flags_def Let_def)

lemma pget_destinations: "k \<noteq> ''notified_destinations'' \<Longrightarrow> pget (merge_destinations t s) k = pget t k"
  by (simp add: merge_destinations_def split: py.splits)

lemma merge_metadata_publications:
  "as_dict (pget (merge_notification_metadata t s) ''notified_publications'') =
     merge_publications (as_dict (pget t ''notified_publications'')) (as_dict (pget s ''notified_publications''))"
  by (cases "pget s ''notified_publications''")
    (simp_all add: merge_notification_metadata.simps Let_def pget_flags pget_destinations)

lemma merge_metadata_destinations:
  "has_key k (destinations_of (merge_notification_metadata t s)) \<longleftrightarrow> has_key k (destinations_of t) \<or> has_key k (destinations_of s)"
proof -
  have "pget (merge_notification_metadata t s) ''notified_destinations'' =
      pget (merge_destinations (merge_flags t s) s) ''notified_destinations''"
    by (simp add: merge_notification_metadata.simps Let_def split: py.splits)
  then show ?thesis
    by (cases "pget s ''notified_destinations''") (simp_all add: destinations_of_def merge_destinations_def pget_flags)
qed

text \<open>Other fields of the entry are left alone.\<close>

definition notification_fields :: "string set" where
  "notification_fields = {''notified'', ''notified_at'', ''notified_destinations'', ''notified_publications''}"

lemma merge_metadata_others: "f \<notin> notification_fields \<Longrightarrow> pget (merge_notification_metadata t s) f = pget t f"
  by (simp add: merge_notification_metadata.simps Let_def pget_flags pget_destinations notification_fields_def split: py.splits)

lemma merge_publications_named:
  "has_key dk (destinations_of (as_dict (pget pubs pk))) \<or>
     (\<exists>s. (pk, PDict s) \<in> set xs \<and> has_key dk (destinations_of s)) \<Longrightarrow>
   has_key dk (destinations_of (as_dict (pget (merge_publications pubs xs) pk)))"
proof (induction xs arbitrary: pubs)
  case (Cons x xs)
  obtain k v where x: "x = (k, v)" by (cases x)
  show ?case
  proof (cases v rule: as_dict_cases)
    case (dict s)
    have "has_key dk (destinations_of (as_dict (pget (dset k (PDict (merge_notification_metadata (as_dict (pget pubs k)) s)) pubs) pk)))
      \<or> (\<exists>s. (pk, PDict s) \<in> set xs \<and> has_key dk (destinations_of s))"
      using Cons.prems x dict by (auto simp: merge_metadata_destinations)
    from Cons.IH [OF this] show ?thesis by (simp add: x dict merge_notification_metadata.simps)
  next
    case other
    then have "merge_publications pubs (x # xs) = merge_publications pubs xs"
      by (cases v) (simp_all add: x merge_notification_metadata.simps)
    with Cons other x show ?thesis by auto
  qed
qed (simp add: merge_notification_metadata.simps)

lemma merge_metadata_named:
  "named t pk dk \<or> named s pk dk \<Longrightarrow> named (merge_notification_metadata t s) pk dk"
  unfolding named_def publication_of_def merge_metadata_publications
proof (rule merge_publications_named, elim disjE)
  assume h: "has_key dk (destinations_of (as_dict (pget (as_dict (pget s ''notified_publications'')) pk)))"
  then obtain p where "pget (as_dict (pget s ''notified_publications'')) pk = PDict p"
    by (cases "pget (as_dict (pget s ''notified_publications'')) pk") (simp_all add: destinations_of_def)
  with h pget_member [OF this]
  show "has_key dk (destinations_of (as_dict (pget (as_dict (pget t ''notified_publications'')) pk))) \<or>
    (\<exists>p. (pk, PDict p) \<in> set (as_dict (pget s ''notified_publications'')) \<and> has_key dk (destinations_of p))"
    by auto
qed simp

subsection \<open>What a merge keeps\<close>

lemma named_has_metadata: "named s pk dk \<Longrightarrow> has_notification_metadata s"
  by (cases "pget s ''notified_publications''")
    (auto simp: named_def publication_of_def destinations_of_def has_notification_metadata_def)

definition entry_names :: "py \<Rightarrow> string \<Rightarrow> string \<Rightarrow> bool" where
  "entry_names v pk dk \<longleftrightarrow> named (as_dict v) pk dk"

lemma entry_names_dict: "entry_names v pk dk \<Longrightarrow> \<exists>e. v = PDict e \<and> named e pk dk"
  by (cases v) (simp_all add: entry_names_def named_def publication_of_def destinations_of_def)

lemma merge_entry_names:
  "entry_names (pget items k) pk dk \<or> k = fst x \<and> entry_names (snd x) pk dk \<Longrightarrow>
     entry_names (pget (merge_entry items x) k) pk dk"
proof -
  assume h: "entry_names (pget items k) pk dk \<or> k = fst x \<and> entry_names (snd x) pk dk"
  show ?thesis
  proof (cases "snd x" rule: as_dict_cases)
    case (dict s)
    show ?thesis
    proof (cases "pget items (fst x)" rule: as_dict_cases)
      case target: (dict t)
      with h dict show ?thesis by (auto simp: merge_entry_def entry_names_def merge_metadata_named)
    next
      case other
      have "merge_entry items x = (if has_notification_metadata s then dset (fst x) (PDict s) items else items)"
        using other(1) by (cases "pget items (fst x)") (simp_all add: merge_entry_def dict)
      moreover have "\<not> entry_names (pget items (fst x)) pk dk" using other(1) entry_names_dict by fastforce
      ultimately show ?thesis using h dict named_has_metadata by (auto simp: entry_names_def)
    qed
  next
    case other
    then have "merge_entry items x = items" by (cases "snd x") (simp_all add: merge_entry_def)
    moreover have "\<not> entry_names (snd x) pk dk" using other(1) entry_names_dict by fastforce
    ultimately show ?thesis using h by simp
  qed
qed

lemma merge_entries_names:
  "entry_names (pget items k) pk dk \<or> (\<exists>v. (k, v) \<in> set xs \<and> entry_names v pk dk) \<Longrightarrow>
     entry_names (pget (merge_entries items xs) k) pk dk"
proof (induction xs arbitrary: items)
  case (Cons x xs)
  have "entry_names (pget (merge_entry items x) k) pk dk \<or> (\<exists>v. (k, v) \<in> set xs \<and> entry_names v pk dk)"
    using Cons.prems merge_entry_names [of items k pk dk x] by (cases x) auto
  from Cons.IH [OF this] show ?case by (simp add: merge_entries_def)
qed (simp add: merge_entries_def)

lemma entry_names_member: "entry_names (pget d k) pk dk \<Longrightarrow> \<exists>v. (k, v) \<in> set d \<and> entry_names v pk dk"
  using entry_names_dict [of "pget d k" pk dk] pget_member [of d k] by fastforce

text \<open>The entry at a server, a section and a key.\<close>

definition server_entry :: "pdict \<Rightarrow> string \<Rightarrow> string \<Rightarrow> py" where
  "server_entry server s k = pget (as_dict (pget (as_dict (pget server s)) ''items'')) k"

definition entry_at :: "pdict \<Rightarrow> string \<Rightarrow> string \<Rightarrow> string \<Rightarrow> py" where
  "entry_at state srv s k = server_entry (as_dict (pget state srv)) s k"

lemma pget_section: "s' \<noteq> s \<Longrightarrow> pget (merge_section_notifications t source s) s' = pget t s'"
  by (simp add: merge_section_notifications_def Let_def split: py.splits)

lemma pget_history: "s' \<noteq> ''history'' \<Longrightarrow> pget (merge_history_notifications t source) s' = pget t s'"
  by (simp add: merge_history_notifications_def split: py.splits)

lemma section_entry:
  "server_entry (merge_section_notifications t source s) s k =
     pget (merge_entries (as_dict (pget (as_dict (pget t s)) ''items''))
            (as_dict (pget (as_dict (pget source s)) ''items''))) k"
  by (cases "pget (as_dict (pget source s)) ''items''")
    (simp_all add: merge_section_notifications_def Let_def server_entry_def merge_entries_def)

definition merged_server :: "pdict \<Rightarrow> pdict \<Rightarrow> pdict" where
  "merged_server target source =
     merge_history_notifications
       (merge_section_notifications (merge_section_notifications target source ''movies'') source ''series'') source"

lemma merge_server_dict: "merge_server merged (srv, PDict source) = dset srv (PDict (merged_server (as_dict (pget merged srv)) source)) merged"
  by (simp add: merge_server_def merged_server_def)

lemma merge_server_other: "\<not> is_dict v \<Longrightarrow> merge_server merged (srv, v) = merged"
  by (cases v) (simp_all add: merge_server_def)

lemma merged_server_entry:
  assumes "s \<in> {''movies'', ''series''}"
  shows "server_entry (merged_server t source) s k =
     pget (merge_entries (as_dict (pget (as_dict (pget t s)) ''items''))
            (as_dict (pget (as_dict (pget source s)) ''items''))) k"
proof -
  have sections: "server_entry (merge_section_notifications (merge_section_notifications t source ''movies'') source ''series'') s k =
      server_entry (merge_section_notifications t source s) s k"
  proof (cases "s = ''movies''")
    case True
    then show ?thesis by (simp add: server_entry_def pget_section)
  next
    case False
    with assms have "s = ''series''" by simp
    then show ?thesis by (simp add: section_entry pget_section)
  qed
  have "server_entry (merged_server t source) s k =
      server_entry (merge_section_notifications (merge_section_notifications t source ''movies'') source ''series'') s k"
    using assms by (auto simp: server_entry_def merged_server_def pget_history)
  with sections show ?thesis by (simp add: section_entry)
qed

lemma merge_server_names:
  assumes "s \<in> {''movies'', ''series''}"
    and "entry_names (entry_at merged srv s k) pk dk \<or>
      srv = fst x \<and> is_dict (snd x) \<and> entry_names (server_entry (as_dict (snd x)) s k) pk dk"
  shows "entry_names (entry_at (merge_server merged x) srv s k) pk dk"
proof -
  obtain srv' v where x: "x = (srv', v)" by (cases x)
  show ?thesis
  proof (cases v rule: as_dict_cases)
    case (dict source)
    show ?thesis
    proof (cases "srv = srv'")
      case True
      have "entry_names (pget (as_dict (pget (as_dict (pget (as_dict (pget merged srv)) s)) ''items'')) k) pk dk
        \<or> (\<exists>v. (k, v) \<in> set (as_dict (pget (as_dict (pget source s)) ''items'')) \<and> entry_names v pk dk)"
        using assms(2) x dict True by (auto simp: entry_at_def server_entry_def dest: entry_names_member)
      from merge_entries_names [OF this] True show ?thesis
        by (simp add: x dict merge_server_dict entry_at_def merged_server_entry [OF assms(1)])
    next
      case False
      with assms(2) x show ?thesis by (simp add: dict merge_server_dict entry_at_def)
    qed
  next
    case other
    with assms(2) x show ?thesis by (simp add: merge_server_other)
  qed
qed

lemma merge_updates_names:
  assumes "s \<in> {''movies'', ''series''}"
    and "entry_names (entry_at current srv s k) pk dk \<or> entry_names (entry_at checkpoint' srv s k) pk dk"
  shows "entry_names (entry_at (merge_notification_updates current checkpoint') srv s k) pk dk"
proof -
  have "entry_names (entry_at (foldl merge_server current xs) srv s k) pk dk"
    if "entry_names (entry_at current srv s k) pk dk \<or>
      (\<exists>v. (srv, v) \<in> set xs \<and> is_dict v \<and> entry_names (server_entry (as_dict v) s k) pk dk)" for xs
    using that
  proof (induction xs arbitrary: current)
    case (Cons x xs)
    have "entry_names (entry_at (merge_server current x) srv s k) pk dk \<or>
        (\<exists>v. (srv, v) \<in> set xs \<and> is_dict v \<and> entry_names (server_entry (as_dict v) s k) pk dk)"
      using Cons.prems merge_server_names [OF assms(1), of current srv k pk dk x] by (cases x) auto
    from Cons.IH [OF this] show ?case by simp
  qed simp
  moreover have "\<exists>v. (srv, v) \<in> set checkpoint' \<and> is_dict v \<and> entry_names (server_entry (as_dict v) s k) pk dk"
    if "entry_names (entry_at checkpoint' srv s k) pk dk"
  proof (cases "pget checkpoint' srv" rule: as_dict_cases)
    case (dict d)
    with that pget_member [OF dict] show ?thesis by (intro exI [of _ "PDict d"]) (simp add: entry_at_def)
  next
    case other
    with that show ?thesis
      by (simp add: entry_at_def server_entry_def entry_names_def named_def publication_of_def destinations_of_def)
  qed
  ultimately show ?thesis using assms(2) by (auto simp: merge_notification_updates_def)
qed

text \<open>
  C5: A merge forgets no delivery: a destination that either state names as notified for a
  publication of a film or a series is named by the merged state, at the same server and key.
\<close>

theorem merge_forgets_nothing:
  assumes "s \<in> {''movies'', ''series''}"
    and "entry_names (entry_at current srv s k) pk dk \<or> entry_names (entry_at checkpoint' srv s k) pk dk"
  shows "entry_names (entry_at (merge_notification_updates current checkpoint') srv s k) pk dk"
  by (rule merge_updates_names [OF assms])

text \<open>What the collector owns: entries of the current state keep every other field.\<close>

definition same_others :: "py \<Rightarrow> py \<Rightarrow> bool" where
  "same_others v w \<longleftrightarrow> is_dict v \<longrightarrow> is_dict w \<and> (\<forall>f. f \<notin> notification_fields \<longrightarrow> pget (as_dict w) f = pget (as_dict v) f)"

lemma same_others_refl: "same_others v v"
  by (simp add: same_others_def)

lemma same_others_trans: "same_others u v \<Longrightarrow> same_others v w \<Longrightarrow> same_others u w"
  by (simp add: same_others_def)

lemma merge_entry_others: "same_others (pget items k) (pget (merge_entry items x) k)"
proof (cases "snd x" rule: as_dict_cases)
  case (dict s)
  then show ?thesis
    by (cases "pget items (fst x)") (auto simp: merge_entry_def same_others_def merge_metadata_others)
next
  case other
  then have "merge_entry items x = items" by (cases "snd x") (simp_all add: merge_entry_def)
  then show ?thesis by (simp add: same_others_refl)
qed

lemma merge_entries_others: "same_others (pget items k) (pget (merge_entries items xs) k)"
proof (induction xs arbitrary: items)
  case (Cons x xs)
  have "merge_entries items (x # xs) = merge_entries (merge_entry items x) xs" by (simp add: merge_entries_def)
  then show ?case by (simp only:) (rule same_others_trans [OF merge_entry_others Cons.IH])
qed (simp add: merge_entries_def same_others_refl)

lemma merge_server_others:
  assumes "s \<in> {''movies'', ''series''}"
  shows "same_others (entry_at merged srv s k) (entry_at (merge_server merged x) srv s k)"
proof -
  obtain srv' v where x: "x = (srv', v)" by (cases x)
  show ?thesis
  proof (cases v rule: as_dict_cases)
    case (dict source)
    show ?thesis
    proof (cases "srv = srv'")
      case True
      then show ?thesis
        using merge_entries_others by (simp add: x dict merge_server_dict entry_at_def merged_server_entry [OF assms]) (simp add: server_entry_def)
    next
      case False
      then show ?thesis by (simp add: x dict merge_server_dict entry_at_def same_others_refl)
    qed
  next
    case other
    then show ?thesis by (simp add: x merge_server_other same_others_refl)
  qed
qed

text \<open>
  C40: A merge changes nothing else of an entry that the collector has: it stays, with every
  field but the four of notifications.
\<close>

theorem merge_keeps_collector_fields:
  assumes "s \<in> {''movies'', ''series''}" "entry_at current srv s k = PDict e" "f \<notin> notification_fields"
  shows "\<exists>e'. entry_at (merge_notification_updates current checkpoint') srv s k = PDict e' \<and> pget e' f = pget e f"
proof -
  have "same_others (entry_at current srv s k) (entry_at (foldl merge_server current xs) srv s k)" for xs
  proof (induction xs arbitrary: current)
    case (Cons x xs)
    show ?case using same_others_trans [OF merge_server_others [OF assms(1)] Cons.IH] by simp
  qed (simp add: same_others_refl)
  from this [of checkpoint'] assms(2,3) show ?thesis
    by (cases "entry_at (merge_notification_updates current checkpoint') srv s k")
      (auto simp: merge_notification_updates_def same_others_def)
qed

subsection \<open>Witnesses\<close>

definition collector_state :: pdict where
  "collector_state = [(''s'', PDict [(''movies'', PDict [(''items'', PDict [(''k'', PDict [(''title'', PStr ''T'')])])])])]"

definition checkpoint_state :: pdict where
  "checkpoint_state = [(''s'', PDict [(''movies'', PDict [(''items'', PDict [(''k'', PDict
     [(''title'', PStr ''old''), (''notified_publications'', PDict [(''b'', PDict
        [(''notified_destinations'', PDict [(''1:2'', PDict [])])])])])])])])]"

text \<open>An entry that the collector dropped comes back whole, not only with its notification fields.\<close>

lemma merge_restores_whole_entry:
  "entry_at (merge_notification_updates [] checkpoint_state) ''s'' ''movies'' ''k''
     = entry_at checkpoint_state ''s'' ''movies'' ''k''
   \<and> pget (as_dict (entry_at (merge_notification_updates [] checkpoint_state) ''s'' ''movies'' ''k'')) ''title'' = PStr ''old''"
  by code_simp

lemma merge_forgets_nothing_witness:
  "entry_names (entry_at (merge_notification_updates collector_state checkpoint_state) ''s'' ''movies'' ''k'') ''b'' ''1:2''"
proof -
  have "entry_names (entry_at checkpoint_state ''s'' ''movies'' ''k'') ''b'' ''1:2''" by code_simp
  then show ?thesis by (intro merge_forgets_nothing) simp_all
qed

lemma merge_keeps_collector_fields_witness:
  "\<exists>e'. entry_at (merge_notification_updates collector_state checkpoint_state) ''s'' ''movies'' ''k'' = PDict e'
     \<and> pget e' ''title'' = PStr ''T''"
proof -
  have "entry_at collector_state ''s'' ''movies'' ''k'' = PDict [(''title'', PStr ''T'')]" by code_simp
  from merge_keeps_collector_fields [OF _ this, of "''title''" checkpoint_state] show ?thesis
    by (simp add: notification_fields_def)
qed

end
