(* ===== verification/Notification_Checkpoint.thy ===== *)
theory Notification_Checkpoint
  imports Notification_State Notification_Delivery
begin

text \<open>
  The checkpoint of a dispatch (\<open>emby_latest/notification_checkpoint.py\<close>) and the lookups with which
  the next dispatch reads it back (\<open>notification_dispatcher.py\<close>).  The state is a JSON object; what the
  code changes in place is returned.  An exception leaves the stored state as it was, since only the
  whole result is saved.
\<close>

subsection \<open>Destinations of an entry\<close>

definition delivered_entries :: "(string, string \<times> string) dict \<Rightarrow> string \<Rightarrow> pdict" where
  "delivered_entries delivered t =
     map (\<lambda>p. (fst p, PDict [(''bot_id'', PStr (fst (snd p))), (''chat_id'', PStr (snd (snd p))), (''notified_at'', PStr t)]))
       delivered"

definition apply_destination_state ::
  "pdict \<Rightarrow> string \<Rightarrow> (string, string \<times> string) dict \<Rightarrow> string list \<Rightarrow> string \<Rightarrow> pdict" where
  "apply_destination_state entry publication_key delivered required t =
     (let publications = as_dict (pget entry ''notified_publications'');
          publication = as_dict (pget publications publication_key);
          destinations = dupdate (as_dict (pget publication ''notified_destinations'')) (delivered_entries delivered t);
          notified = (required \<noteq> [] \<and> (\<forall>k \<in> set required. has_key k destinations));
          publication1 = dset ''notified'' (PBool notified) (dset ''notified_destinations'' (PDict destinations) publication);
          publication2 = (if notified then dset ''notified_at'' (PStr t) publication1 else publication1);
          entry1 = dset ''notified_publications'' (PDict (dset publication_key (PDict publication2) publications)) entry;
          entry2 = dset ''notified_destinations''
                     (PDict (dupdate (as_dict (pget entry ''notified_destinations'')) destinations)) entry1;
          entry3 = dset ''notified'' (PBool (truthy (pget entry ''notified'') \<or> notified)) entry2
      in if notified then dset ''notified_at'' (PStr t) entry3 else entry3)"

subsection \<open>Sections\<close>

definition ensure_media_state :: "pdict \<Rightarrow> pdict" where
  "ensure_media_state server_state =
     (let s1 = (if is_dict (pget server_state ''movies'') then server_state
                else dset ''movies'' (PDict [(''items'', PDict [])]) server_state)
      in if is_dict (pget s1 ''series'') then s1 else dset ''series'' (PDict [(''items'', PDict [])]) s1)"

text \<open>\<open>section.setdefault("items", {})\<close>, and the section with other items.\<close>

definition section_items :: "pdict \<Rightarrow> string \<Rightarrow> py" where
  "section_items server_state s =
     (let sec = as_dict (pget server_state s) in if has_key ''items'' sec then pget sec ''items'' else PDict [])"

definition put_items :: "string \<Rightarrow> py \<Rightarrow> pdict \<Rightarrow> pdict" where
  "put_items s items server_state =
     dset s (PDict (dset ''items'' items (as_dict (pget server_state s)))) server_state"

definition text_or_none :: "string \<Rightarrow> py" where
  "text_or_none t = (if t = [] then PNone else PStr t)"

definition or_empty_text :: "py \<Rightarrow> py" where
  "or_empty_text v = py_or v (PStr [])"

definition or_empty_list :: "py \<Rightarrow> py" where
  "or_empty_list v = py_or v (PList [])"

definition drop_aliases :: "string \<Rightarrow> (string \<times> pdict) list \<Rightarrow> pdict \<Rightarrow> pdict" where
  "drop_aliases state_key aliases items =
     foldl (\<lambda>d m. if fst m \<noteq> state_key then dpop (fst m) d else d) items aliases"

subsection \<open>Films\<close>

definition movie_state_key :: "pdict \<Rightarrow> string" where
  "movie_state_key item =
     (let signature = text_or_empty (pget item ''signature'')
      in if signature \<noteq> [] then signature else text_or_empty (pget item ''item_id''))"

definition new_movie_entry :: "pdict \<Rightarrow> pdict" where
  "new_movie_entry item =
     [(''item_id'', text_or_none (text_or_empty (pget item ''item_id''))),
      (''signature'', text_or_none (text_or_empty (pget item ''signature''))),
      (''title'', or_empty_text (pget item ''title'')), (''year'', pget item ''year''),
      (''last_seen_at'', or_empty_text (pget item ''added_at'')), (''media_source_keys'', PList []),
      (''notified'', PBool False), (''notified_at'', PStr [])]"

definition refresh_movie_entry :: "pdict \<Rightarrow> pdict \<Rightarrow> pdict" where
  "refresh_movie_entry item entry =
     (let item_id = text_or_empty (pget item ''item_id''); signature = text_or_empty (pget item ''signature'');
          e1 = dset ''item_id'' (if item_id \<noteq> [] then PStr item_id else pget entry ''item_id'') entry;
          e2 = dset ''signature'' (if signature \<noteq> [] then PStr signature else pget entry ''signature'') e1;
          e3 = (if truthy (pget item ''title'') then dset ''title'' (pget item ''title'') e2 else e2)
      in if pget item ''year'' \<noteq> PNone then dset ''year'' (pget item ''year'') e3 else e3)"

definition movie_aliases :: "py \<Rightarrow> pdict \<Rightarrow> (string \<times> pdict) list" where
  "movie_aliases items item =
     matching_movie_identity_entries items (PStr (movie_state_key item))
       (PStr (text_or_empty (pget item ''item_id''))) (PStr (text_or_empty (pget item ''signature'')))"

definition find_movie :: "py \<Rightarrow> pdict \<Rightarrow> exn + (string \<times> pdict) option" where
  "find_movie items item =
     find_movie_identity_entry items (PStr (movie_state_key item))
       (PStr (text_or_empty (pget item ''item_id''))) (PStr (text_or_empty (pget item ''signature'')))"

text \<open>The entry of the film, put under its key in place of its aliases.\<close>

definition movie_entry :: "pdict \<Rightarrow> pdict \<Rightarrow> exn + pdict option \<times> pdict" where
  "movie_entry server_state item =
     (let items = section_items server_state ''movies''; key = movie_state_key item;
          server_state1 = put_items ''movies'' items server_state
      in result_bind (find_movie items item) (\<lambda>found.
         case (case found of Some m \<Rightarrow> Some (snd m) | None \<Rightarrow> if key \<noteq> [] then Some (new_movie_entry item) else None) of
           None \<Rightarrow> Inr (None, server_state1)
         | Some entry \<Rightarrow>
             if key = [] then Inr (Some entry, server_state1)
             else (case items of
                     PDict d \<Rightarrow>
                       (let entry1 = refresh_movie_entry item entry; d1 = dset key (PDict entry1) d;
                            d2 = drop_aliases key (movie_aliases (PDict d1) item) d1
                        in Inr (Some entry1, put_items ''movies'' (PDict d2) server_state1))
                   | _ \<Rightarrow> Inl (TypeError ''object does not support item assignment''))))"

definition movie_history_payload :: "pdict \<Rightarrow> pdict \<Rightarrow> pdict \<Rightarrow> pdict" where
  "movie_history_payload item entry notes =
     dupdate
       [(''item_id'', text_or_none (text_or_empty (pget item ''item_id''))),
        (''signature'', text_or_none (text_or_empty (pget item ''signature''))),
        (''title'', or_empty_text (pget item ''title'')), (''year'', pget item ''year''),
        (''last_seen_at'', or_empty_text (pget item ''added_at'')),
        (''media_source_keys'', or_empty_list (pget entry ''media_source_keys'')),
        (''mediainfo_source_keys'', or_empty_list (pget entry ''mediainfo_source_keys'')),
        (''mediainfo_complete'', PBool (truthy (pget entry ''mediainfo_complete'')))] notes"

definition with_history :: "pdict \<Rightarrow> pdict option \<Rightarrow> exn + pdict" where
  "with_history entry h =
     (case h of
        None \<Rightarrow> Inr entry
      | Some he \<Rightarrow>
          result_bind (mediainfo_snapshot [entry, he]) (\<lambda>info.
          let entry1 = dupdate entry info in
          result_bind (notification_snapshot [entry1, he]) (\<lambda>notes. Inr (dupdate entry1 notes))))"

definition persist_movie ::
  "pdict \<Rightarrow> pdict \<Rightarrow> pdict \<Rightarrow> string \<Rightarrow> (string, string \<times> string) dict \<Rightarrow> string list \<Rightarrow> string \<Rightarrow> exn + pdict \<times> pdict" where
  "persist_movie server_state history item publication_key delivered required t =
     result_bind (movie_entry server_state item) (\<lambda>(found, server_state1).
       case found of
         None \<Rightarrow> Inr (server_state1, history)
       | Some entry \<Rightarrow>
           let key = movie_state_key item; ident = pget item ''item_id''; signature = pget item ''signature'';
               history1 = ensure_section ''movies'' history
           in result_bind (find_movie_identity_entry (pget history1 ''movies'') (PStr key) ident signature) (\<lambda>h.
              let he = map_option snd h in
              result_bind (with_history entry he) (\<lambda>entry1.
              let entry2 = apply_destination_state entry1 publication_key delivered required t in
              result_bind (notification_snapshot (entry2 # (case he of None \<Rightarrow> [] | Some e \<Rightarrow> [e]))) (\<lambda>notes.
              result_bind (update_history_entry history1 ''movies'' (PStr key) (movie_history_payload item entry2 notes))
                (\<lambda>(merged, history2).
                  let rows = as_dict (pget history2 ''movies'');
                      rows1 = drop_aliases key (matching_movie_identity_entries (PDict rows) (PStr key) ident signature) rows;
                      server_state2 = (if key = [] then server_state1
                                       else put_items ''movies''
                                              (PDict (dset key (PDict entry2) (as_dict (section_items server_state1 ''movies''))))
                                              server_state1)
                  in Inr (server_state2, dset ''movies'' (PDict rows1) history2))))))"

subsection \<open>Series\<close>

definition series_state_key :: "pdict \<Rightarrow> string" where
  "series_state_key item = text_or_empty (py_or (pget item ''item_id'') (pget item ''series_id''))"

definition new_series_entry :: "pdict \<Rightarrow> pdict" where
  "new_series_entry item =
     (let key = series_state_key item in
      [(''series_id'', PStr key), (''item_id'', PStr key), (''title'', or_empty_text (pget item ''title'')),
       (''year'', pget item ''year''), (''last_seen_at'', or_empty_text (pget item ''added_at'')),
       (''episodes'', PDict []), (''seasons'', PList []), (''last_changes'', PList []),
       (''notified'', PBool False), (''notified_at'', PStr [])])"

definition series_entry :: "pdict \<Rightarrow> pdict \<Rightarrow> exn + py" where
  "series_entry server_state item =
     (let key = series_state_key item in
      if key = [] then Inr PNone
      else case section_items server_state ''series'' of
             PDict d \<Rightarrow> Inr (if pget d key = PNone then PDict (new_series_entry item) else pget d key)
           | _ \<Rightarrow> Inl (AttributeError ''get''))"

definition build_episode_signature :: "py \<Rightarrow> py \<Rightarrow> py \<Rightarrow> py \<Rightarrow> py \<Rightarrow> string" where
  "build_episode_signature series_id season_number episode_number episode_id episode_name =
     (let series_key = strip (text_or_empty series_id) in
      if series_key = [] then strip (text_or_empty episode_id)
      else if season_number = PNone \<or> episode_number = PNone
      then let suffix = strip (text_or_empty (py_or episode_id episode_name))
           in if suffix \<noteq> [] then series_key @ '':'' @ suffix else series_key
      else series_key @ '':S'' @ py_str season_number @ '':E'' @ py_str episode_number)"

primrec persist_episodes :: "pdict \<Rightarrow> string \<Rightarrow> pdict \<Rightarrow> pdict \<Rightarrow> py list \<Rightarrow> exn + pdict" where
  "persist_episodes history series_key item notes [] = Inr history"
| "persist_episodes history series_key item notes (c # cs) =
     (case c of
        PDict change \<Rightarrow>
          (let key = build_episode_signature (PStr series_key) (pget change ''season_number'') (pget change ''episode_number'')
                       PNone (or_empty_text (pget change ''episode_title''))
           in if key = [] then persist_episodes history series_key item notes cs
              else result_bind (update_history_entry history ''episodes'' (PStr key)
                     (dupdate [(''series_id'', PStr series_key), (''season'', pget change ''season_number''),
                        (''episode'', pget change ''episode_number''), (''title'', or_empty_text (pget change ''episode_title'')),
                        (''last_seen_at'', py_or (pget change ''added_at'') (or_empty_text (pget item ''added_at'')))] notes))
                     (\<lambda>(merged, history1). persist_episodes history1 series_key item notes cs))
      | _ \<Rightarrow> persist_episodes history series_key item notes cs)"

definition series_history_payload :: "pdict \<Rightarrow> pdict \<Rightarrow> pdict \<Rightarrow> pdict" where
  "series_history_payload item entry notes =
     (let key = series_state_key item in
      dupdate
        [(''series_id'', PStr key), (''item_id'', PStr key), (''title'', or_empty_text (pget item ''title'')),
         (''year'', pget item ''year''), (''last_seen_at'', or_empty_text (pget item ''added_at'')),
         (''seasons'', or_empty_list (pget entry ''seasons'')),
         (''last_changes'', py_or (pget entry ''last_changes'') (or_empty_list (pget item ''changes'')))] notes)"

definition persist_series ::
  "pdict \<Rightarrow> pdict \<Rightarrow> pdict \<Rightarrow> string \<Rightarrow> (string, string \<times> string) dict \<Rightarrow> string list \<Rightarrow> string \<Rightarrow> exn + pdict \<times> pdict" where
  "persist_series server_state history item publication_key delivered required t =
     result_bind (series_entry server_state item) (\<lambda>found.
       case found of
         PDict entry \<Rightarrow>
           (let key = series_state_key item;
                entry1 = apply_destination_state entry publication_key delivered required t;
                server_state1 = put_items ''series''
                  (PDict (dset key (PDict entry1) (as_dict (section_items server_state ''series'')))) server_state
            in result_bind (notification_snapshot [entry1]) (\<lambda>notes.
               result_bind (update_history_entry history ''series'' (PStr key) (series_history_payload item entry1 notes))
                 (\<lambda>(merged, history1).
               result_bind (py_elements (or_empty_list (pget item ''changes''))) (\<lambda>changes.
               result_bind (persist_episodes history1 key item notes changes) (\<lambda>history2.
               Inr (server_state1, history2))))))
       | _ \<Rightarrow> Inr (put_items ''series'' (section_items server_state ''series'') server_state, history))"

subsection \<open>A checkpoint\<close>

definition persist_one_update :: "string \<Rightarrow> delivery_update \<Rightarrow> pdict \<Rightarrow> exn + pdict" where
  "persist_one_update t u state =
     (let item = du_item u; server_id = text_or_empty (pget item ''server_id'') in
      if server_id = [] then Inr state
      else if has_key server_id state \<and> \<not> is_dict (pget state server_id) then Inl (AttributeError ''get'')
      else
        let server_state = ensure_media_state (as_dict (pget state server_id));
            (history, server_state1) = ensure_history server_state;
            item_type = lower (text_or_empty (pget item ''item_type''));
            given = strip (du_publication_key u);
            publication_key = (if given \<noteq> [] then given else publication_state_key item);
            save = (\<lambda>(s, h). dset server_id (PDict (dset ''history'' (PDict h) s)) state)
        in if item_type = ''movie''
           then result_bind (persist_movie server_state1 history item publication_key (du_delivered u) (du_required u) t)
                  (\<lambda>r. Inr (save r))
           else if item_type \<in> {''series'', ''episode''}
           then result_bind (persist_series server_state1 history item publication_key (du_delivered u) (du_required u) t)
                  (\<lambda>r. Inr (save r))
           else Inr (save (server_state1, history)))"

primrec persist_updates :: "string \<Rightarrow> delivery_update list \<Rightarrow> pdict \<Rightarrow> exn + pdict" where
  "persist_updates t [] state = Inr state"
| "persist_updates t (u # us) state = result_bind (persist_one_update t u state) (persist_updates t us)"

text \<open>The state as loaded, and as it is when the checkpoint is saved: others may have written in between.\<close>

definition persist_delivery_updates :: "string \<Rightarrow> (string, delivery_update) dict \<Rightarrow> pdict \<Rightarrow> pdict \<Rightarrow> exn + pdict" where
  "persist_delivery_updates t updates loaded current =
     (let us = filter (\<lambda>u. du_delivered u \<noteq> []) (map snd updates) in
      if us = [] then Inr current
      else result_bind (persist_updates t us loaded) (\<lambda>state. Inr (merge_notification_updates current state)))"

subsection \<open>Reading it back\<close>

definition movie_state_entry :: "pdict \<Rightarrow> pdict \<Rightarrow> exn + py" where
  "movie_state_entry server_state item =
     (case pget (as_dict (pget server_state ''movies'')) ''items'' of
        PDict d \<Rightarrow> result_bind (find_movie (PDict d) item) (\<lambda>found.
          Inr (case found of None \<Rightarrow> PNone | Some m \<Rightarrow> PDict (snd m)))
      | _ \<Rightarrow> Inr PNone)"

definition series_state_entry :: "pdict \<Rightarrow> pdict \<Rightarrow> py" where
  "series_state_entry server_state item =
     (let key = series_state_key item; v = pget (as_dict (pget (as_dict (pget server_state ''series'')) ''items'')) key
      in if key \<noteq> [] \<and> is_dict v then v else PNone)"

definition item_state_entry :: "pdict \<Rightarrow> pdict \<Rightarrow> exn + py" where
  "item_state_entry latest_state item =
     (let server_id = text_or_empty (pget item ''server_id'');
          item_type = lower (text_or_empty (pget item ''item_type''))
      in if server_id = [] then Inr PNone
         else case pget latest_state server_id of
                PDict server_state \<Rightarrow>
                  if item_type = ''movie'' then movie_state_entry server_state item
                  else if item_type \<in> {''series'', ''episode''} then Inr (series_state_entry server_state item)
                  else Inr PNone
              | _ \<Rightarrow> Inr PNone)"

subsection \<open>What is delivered is named\<close>

lemma has_key_delivered [simp]: "has_key k (delivered_entries delivered t) \<longleftrightarrow> k \<in> fst ` set delivered"
  by (force simp: delivered_entries_def has_key_def map_of_eq_None_iff)

lemma apply_names:
  "dk \<in> fst ` set delivered \<Longrightarrow> named (apply_destination_state e pk delivered required t) pk dk"
  by (simp add: apply_destination_state_def Let_def named_def publication_of_def destinations_of_def)

lemma merge_publication_names:
  assumes "merge_publication c p = Inr m" "has_key dk (destinations_of c) \<or> has_key dk (destinations_of p)"
  shows "has_key dk (destinations_of m)"
proof -
  have d: "has_key dk (merged_destinations c p)" using assms(2) by (simp add: merged_destinations_def destinations_of_def)
  then have "merged_destinations c p \<noteq> []" by auto
  with assms(1) d show ?thesis
    by (auto simp: merge_publication_def Let_def result_bind_Inr_iff destinations_of_def)
qed

lemma merge_notifications_names:
  "merge_publication_notifications pubs ps = Inr r \<Longrightarrow>
   has_key dk (destinations_of (as_dict (pget pubs pk))) \<or>
     (\<exists>s. (pk, PDict s) \<in> set ps \<and> has_key dk (destinations_of s)) \<Longrightarrow>
   has_key dk (destinations_of (as_dict (pget r pk)))"
proof (induction ps arbitrary: pubs)
  case (Cons p ps)
  obtain k v where p: "p = (k, v)" by (cases p)
  show ?case
  proof (cases v rule: as_dict_cases)
    case (dict s)
    with Cons.prems(1) p obtain m where m: "merge_publication (as_dict (pget pubs k)) s = Inr m"
      and rest: "merge_publication_notifications (dset k (PDict m) pubs) ps = Inr r"
      by (auto simp: result_bind_Inr_iff)
    show ?thesis
      by (rule Cons.IH [OF rest]) (use Cons.prems(2) p dict merge_publication_names [OF m] in auto)
  next
    case other
    then have "merge_publication_notifications pubs ps = Inr r" using Cons.prems(1) by (cases v) (simp_all add: p)
    moreover have "(pk, PDict s) \<in> set (p # ps) \<Longrightarrow> (pk, PDict s) \<in> set ps" for s using other p by auto
    ultimately show ?thesis using Cons.IH Cons.prems(2) by blast
  qed
qed simp

lemma collect_names:
  "collect_evidence es ev = Inr ev' \<Longrightarrow>
   has_key dk (destinations_of (as_dict (pget (ne_publications ev) pk))) \<or> (\<exists>e \<in> set es. named e pk dk) \<Longrightarrow>
   has_key dk (destinations_of (as_dict (pget (ne_publications ev') pk)))"
proof (induction es arbitrary: ev)
  case (Cons e es)
  from Cons.prems(1) obtain t pubs where pubs:
    "merge_publication_notifications (ne_publications ev) (as_dict (pget e ''notified_publications'')) = Inr pubs"
    and rest: "collect_evidence es
       \<lparr>ne_notified = (ne_notified ev \<or> truthy (pget e ''notified'')), ne_notified_at = t,
        ne_destinations = dupdate (ne_destinations ev) (as_dict (pget e ''notified_destinations'')), ne_publications = pubs\<rparr>
       = Inr ev'" by (auto simp: result_bind_Inr_iff)
  have "\<exists>s. (pk, PDict s) \<in> set (as_dict (pget e ''notified_publications'')) \<and> has_key dk (destinations_of s)"
    if n: "named e pk dk"
  proof (cases "pget (as_dict (pget e ''notified_publications'')) pk" rule: as_dict_cases)
    case (dict s)
    with n pget_member [OF dict] show ?thesis by (auto simp: named_def publication_of_def)
  next
    case other
    with n show ?thesis by (simp add: named_def publication_of_def destinations_of_def)
  qed
  with Cons.prems(2) merge_notifications_names [OF pubs, of dk pk] Cons.IH [OF rest] show ?case by auto
qed simp

lemma snapshot_names:
  assumes "notification_snapshot es = Inr notes" "e \<in> set es" "named e pk dk"
  shows "named (dupdate x notes) pk dk"
proof -
  obtain ev where ev: "collect_evidence es
      \<lparr>ne_notified = False, ne_notified_at = [], ne_destinations = [], ne_publications = []\<rparr> = Inr ev"
    and snap: "notes = [(''notified'', PBool (ne_notified ev)), (''notified_at'', PStr (ne_notified_at ev))]
         @ (if ne_destinations ev \<noteq> [] then [(''notified_destinations'', PDict (ne_destinations ev))] else [])
         @ (if ne_publications ev \<noteq> [] then [(''notified_publications'', PDict (ne_publications ev))] else [])"
    using assms(1) by (auto simp: notification_snapshot_def result_bind_Inr_iff)
  have k: "has_key dk (destinations_of (as_dict (pget (ne_publications ev) pk)))"
    using collect_names [OF ev, of dk pk] assms(2,3) by auto
  then have "ne_publications ev \<noteq> []" by (auto simp: destinations_of_def)
  with snap have "pget (dupdate x notes) ''notified_publications'' = PDict (ne_publications ev)" by simp
  with k show ?thesis by (simp add: named_def publication_of_def)
qed

lemma find_names:
  assumes "find_movie_identity_entry items sk ident sg = Inr r"
    and "(k, e) \<in> set (matching_movie_identity_entries items sk ident sg)" "named e pk dk"
  shows "\<exists>k' e'. r = Some (k', e') \<and> named e' pk dk"
proof -
  obtain m ms where ms: "matching_movie_identity_entries items sk ident sg = m # ms"
    using assms(2) by (cases "matching_movie_identity_entries items sk ident sg") auto
  with assms(1) obtain info nts where snap: "notification_snapshot (map snd (m # ms)) = Inr nts"
    and r: "r = Some (fst (first_best (alias_preference sk) m ms),
      dupdate (dupdate (snd (first_best (alias_preference sk) m ms)) info) nts)"
    by (auto simp: find_movie_identity_entry_def Let_def result_bind_Inr_iff)
  have "e \<in> set (map snd (m # ms))" using assms(2) ms by force
  from snapshot_names [OF snap this assms(3)] r show ?thesis by blast
qed

text \<open>The entry under the key of a film is one of its entries.\<close>

lemma own_key_matches:
  assumes "pget d (movie_state_key item) = PDict e" "strip (movie_state_key item) \<noteq> []"
  shows "(movie_state_key item, e) \<in> set (movie_aliases (PDict d) item)"
proof -
  let ?k = "movie_state_key item"
  have "(?k, e, movie_identity_tokens (PStr ?k) (Some e)) \<in> set (identity_rows (PDict d))"
    using pget_member [OF assms(1)] by (force simp: identity_rows_def)
  moreover have "(''key'', strip ?k) \<in> set (movie_identity_tokens (PStr ?k) (Some e))"
    using assms(2) by (simp add: movie_identity_tokens_def text_token_def Let_def)
  moreover have "(''key'', strip ?k) \<in> set (identity_tokens (PStr ?k) i g)" for i g
    using assms(2) by (simp add: identity_tokens_def movie_identity_tokens_def text_token_def Let_def)
  ultimately show ?thesis
    unfolding movie_aliases_def matching_iff by (fastforce intro: linked.direct)
qed

subsection \<open>The checkpoint and the lookup\<close>

lemma put_items_entry [simp]: "server_entry (put_items s (PDict d) server_state) s k = pget d k"
  by (simp add: server_entry_def put_items_def)

lemma persist_movie_names:
  assumes r: "persist_movie ss h item pk delivered required t = Inr (ss', h')"
    and key: "movie_state_key item \<noteq> []" and dk: "dk \<in> fst ` set delivered"
  shows "entry_names (server_entry ss' ''movies'' (movie_state_key item)) pk dk"
proof -
  obtain found ss1 where m: "movie_entry ss item = Inr (found, ss1)"
    using r by (auto simp: persist_movie_def result_bind_Inr_iff)
  then obtain entry where f: "found = Some entry"
    using key by (auto simp: movie_entry_def Let_def result_bind_Inr_iff split: option.splits py.splits)
  from r m f key obtain entry1 where
    "ss' = put_items ''movies'' (PDict (dset (movie_state_key item)
        (PDict (apply_destination_state entry1 pk delivered required t)) (as_dict (section_items ss1 ''movies'')))) ss1"
    by (auto simp: persist_movie_def Let_def result_bind_Inr_iff)
  then show ?thesis using apply_names [OF dk] by (simp add: entry_names_def)
qed

definition series_slot :: "pdict \<Rightarrow> pdict \<Rightarrow> py" where
  "series_slot server_state item = server_entry server_state ''series'' (series_state_key item)"

lemma persist_series_names:
  assumes r: "persist_series ss h item pk delivered required t = Inr (ss', h')"
    and key: "series_state_key item \<noteq> []" and slot: "series_slot ss item = PNone \<or> is_dict (series_slot ss item)"
    and dk: "dk \<in> fst ` set delivered"
  shows "entry_names (server_entry ss' ''series'' (series_state_key item)) pk dk"
proof -
  obtain found where s: "series_entry ss item = Inr found"
    using r by (auto simp: persist_series_def result_bind_Inr_iff)
  obtain d where d: "section_items ss ''series'' = PDict d" "found = (if pget d (series_state_key item) = PNone
      then PDict (new_series_entry item) else pget d (series_state_key item))"
    using s key by (auto simp: series_entry_def Let_def split: py.splits)
  have "pget d (series_state_key item) = series_slot ss item"
    using d(1) by (auto simp: series_slot_def server_entry_def section_items_def Let_def has_key_def pget_def
        dget_default_def split: if_splits option.splits)
  then obtain entry where f: "found = PDict entry" using d(2) slot by (cases "series_slot ss item") auto
  from r s f have "ss' = put_items ''series'' (PDict (dset (series_state_key item)
      (PDict (apply_destination_state entry pk delivered required t)) (as_dict (section_items ss ''series'')))) ss"
    by (auto simp: persist_series_def Let_def result_bind_Inr_iff)
  then show ?thesis using apply_names [OF dk] by (simp add: entry_names_def)
qed

text \<open>The item has a server and a key, and its series is not taken by something that is no entry.\<close>

definition item_kind :: "pdict \<Rightarrow> string" where
  "item_kind item = lower (text_or_empty (pget item ''item_type''))"

definition item_server :: "pdict \<Rightarrow> string" where
  "item_server item = text_or_empty (pget item ''server_id'')"

definition checkpointable :: "pdict \<Rightarrow> pdict \<Rightarrow> bool" where
  "checkpointable state item \<longleftrightarrow> item_server item \<noteq> [] \<and>
     (item_kind item = ''movie'' \<and> strip (movie_state_key item) \<noteq> []
      \<or> item_kind item \<in> {''series'', ''episode''} \<and> series_state_key item \<noteq> []
        \<and> (let slot = entry_at state (item_server item) ''series'' (series_state_key item) in slot = PNone \<or> is_dict slot))"

definition item_section :: "pdict \<Rightarrow> string" where
  "item_section item = (if item_kind item = ''movie'' then ''movies'' else ''series'')"

definition item_key :: "pdict \<Rightarrow> string" where
  "item_key item = (if item_kind item = ''movie'' then movie_state_key item else series_state_key item)"

lemma ensured_series: "server_entry (snd (ensure_history (ensure_media_state ss))) ''series'' k = PNone \<or>
    server_entry (snd (ensure_history (ensure_media_state ss))) ''series'' k = server_entry ss ''series'' k"
  by (auto simp: ensure_history_def ensure_media_state_def server_entry_def Let_def)

lemma persist_one_names:
  assumes p: "persist_one_update t u state = Inr state'" and ok: "checkpointable state (du_item u)"
    and dk: "dk \<in> fst ` set (du_delivered u)"
    and pk: "du_publication_key u = pk" "strip pk = pk" "pk = publication_state_key (du_item u)"
  shows "entry_names (entry_at state' (item_server (du_item u)) (item_section (du_item u)) (item_key (du_item u))) pk dk"
proof -
  let ?item = "du_item u" and ?srv = "item_server (du_item u)"
  have key: "(if strip (du_publication_key u) \<noteq> [] then strip (du_publication_key u) else publication_state_key ?item) = pk"
    using pk by simp
  have srv: "?srv \<noteq> []" using ok by (simp add: checkpointable_def)
  obtain history ss1 where h: "ensure_history (ensure_media_state (as_dict (pget state ?srv))) = (history, ss1)"
    by (metis surj_pair)
  have save: "entry_at (dset ?srv (PDict (dset ''history'' (PDict h') ss')) state) ?srv s k = server_entry ss' s k"
    if "s \<noteq> ''history''" for ss' h' s k
    using that by (simp add: entry_at_def server_entry_def)
  show ?thesis
  proof (cases "item_kind ?item = ''movie''")
    case True
    from p srv True h obtain ss' h' where r:
      "persist_movie ss1 history ?item pk (du_delivered u) (du_required u) t = Inr (ss', h')"
      and state': "state' = dset ?srv (PDict (dset ''history'' (PDict h') ss')) state"
      by (auto simp: persist_one_update_def Let_def item_server_def item_kind_def key [unfolded item_server_def]
          result_bind_Inr_iff split: if_splits)
    have "movie_state_key ?item \<noteq> []" using ok True by (auto simp: checkpointable_def)
    from persist_movie_names [OF r this dk] True show ?thesis
      by (simp add: state' save item_section_def item_key_def)
  next
    case False
    with ok have kind: "item_kind ?item \<in> {''series'', ''episode''}" and k: "series_state_key ?item \<noteq> []"
      and slot: "entry_at state ?srv ''series'' (series_state_key ?item) = PNone
        \<or> is_dict (entry_at state ?srv ''series'' (series_state_key ?item))"
      by (auto simp: checkpointable_def Let_def)
    from p srv False kind h obtain ss' h' where r:
      "persist_series ss1 history ?item pk (du_delivered u) (du_required u) t = Inr (ss', h')"
      and state': "state' = dset ?srv (PDict (dset ''history'' (PDict h') ss')) state"
      by (auto simp: persist_one_update_def Let_def item_server_def item_kind_def key [unfolded item_server_def]
          result_bind_Inr_iff split: if_splits)
    have "series_slot ss1 ?item = PNone \<or> is_dict (series_slot ss1 ?item)"
      using ensured_series [of "as_dict (pget state ?srv)" "series_state_key ?item"] slot h
      by (auto simp: series_slot_def entry_at_def)
    from persist_series_names [OF r k this dk] False show ?thesis
      by (simp add: state' save item_section_def item_key_def)
  qed
qed

lemma named_notified:
  assumes "named e (publication_state_key item) dk"
  shows "destination_notified (PDict e) item dk"
proof -
  let ?pk = "publication_state_key item"
  from assms have k: "has_key dk (destinations_of (as_dict (pget (as_dict (pget e ''notified_publications'')) ?pk)))"
    by (simp add: named_def publication_of_def)
  then obtain p where p: "pget e ''notified_publications'' = PDict p"
    by (cases "pget e ''notified_publications''") (simp_all add: destinations_of_def)
  with k obtain s where s: "pget p ?pk = PDict s" by (cases "pget p ?pk") (simp_all add: destinations_of_def)
  with k p obtain d where "pget s ''notified_destinations'' = PDict d" "has_key dk d"
    by (cases "pget s ''notified_destinations''") (simp_all add: destinations_of_def)
  with p s show ?thesis by (simp add: destination_notified_def publication_state_def)
qed

lemma looked_up_named:
  assumes look: "item_state_entry state item = Inr entry" and ok: "checkpointable st item"
    and n: "entry_names (entry_at state (item_server item) (item_section item) (item_key item)) pk dk"
  shows "\<exists>e. entry = PDict e \<and> named e pk dk"
proof -
  obtain e where e: "entry_at state (item_server item) (item_section item) (item_key item) = PDict e" "named e pk dk"
    using entry_names_dict [OF n] by blast
  obtain ss where ss: "pget state (item_server item) = PDict ss"
    using e(1) by (cases "pget state (item_server item)") (simp_all add: entry_at_def server_entry_def)
  with e have at: "server_entry ss (item_section item) (item_key item) = PDict e" by (simp add: entry_at_def)
  have srv: "item_server item \<noteq> []" using ok by (simp add: checkpointable_def)
  show ?thesis
  proof (cases "item_kind item = ''movie''")
    case True
    obtain d where d: "pget (as_dict (pget ss ''movies'')) ''items'' = PDict d" "pget d (movie_state_key item) = PDict e"
      using at True by (cases "pget (as_dict (pget ss ''movies'')) ''items''")
        (simp_all add: server_entry_def item_section_def item_key_def)
    have "strip (movie_state_key item) \<noteq> []" using ok True by (auto simp: checkpointable_def)
    from own_key_matches [OF d(2) this] have m: "(movie_state_key item, e) \<in> set (movie_aliases (PDict d) item)" .
    from look srv ss True d obtain found where f: "find_movie (PDict d) item = Inr found"
      and entry: "entry = (case found of None \<Rightarrow> PNone | Some m \<Rightarrow> PDict (snd m))"
      by (auto simp: item_state_entry_def Let_def item_server_def item_kind_def movie_state_entry_def result_bind_Inr_iff)
    from find_names [OF f [unfolded find_movie_def] m [unfolded movie_aliases_def] e(2)] entry show ?thesis by auto
  next
    case False
    with ok have kind: "item_kind item \<in> {''series'', ''episode''}" and k: "series_state_key item \<noteq> []"
      by (auto simp: checkpointable_def)
    have "entry = series_state_entry ss item"
      using look srv ss False kind by (auto simp: item_state_entry_def Let_def item_server_def item_kind_def)
    then have "entry = PDict e"
      using at k False by (simp add: series_state_entry_def server_entry_def Let_def item_section_def item_key_def)
    with e(2) show ?thesis by blast
  qed
qed

text \<open>
  C2: A destination to which a film or a series was delivered is known as notified once the
  checkpoint is saved, whatever other writers made of the state in between: the lookup of the next
  dispatch finds the publication through any alias of the item, and skips the destination.
\<close>

theorem checkpoint_silences_delivered:
  assumes "persist_one_update t u loaded = Inr state" "checkpointable loaded (du_item u)"
    and "dk \<in> fst ` set (du_delivered u)"
    and "du_publication_key u = publication_state_key (du_item u)"
    and "strip (publication_state_key (du_item u)) = publication_state_key (du_item u)"
    and "item_state_entry (merge_notification_updates current state) (du_item u) = Inr entry"
  shows "destination_notified entry (du_item u) dk"
proof -
  have "entry_names (entry_at (merge_notification_updates current state) (item_server (du_item u))
      (item_section (du_item u)) (item_key (du_item u))) (publication_state_key (du_item u)) dk"
    using persist_one_names [OF assms(1-4) assms(5) refl]
    by (intro merge_updates_names) (simp_all add: item_section_def)
  from looked_up_named [OF assms(6,2) this] show ?thesis by (auto intro: named_notified)
qed

subsection \<open>Witnesses\<close>

definition film_item :: pdict where
  "film_item = [(''server_id'', PStr ''s''), (''item_id'', PStr ''i''), (''item_type'', PStr ''Movie''), (''batch_id'', PStr '' b '')]"

definition film_update :: delivery_update where
  "film_update = \<lparr>du_item = film_item, du_publication_key = ''b'', du_delivered = [(''1:2'', (''1'', ''2''))],
     du_required = [''1:2'']\<rparr>"

definition film_time :: string where
  "film_time = ''t''"

lemma film_run:
  "case persist_one_update film_time film_update [] of
     Inl e \<Rightarrow> False
   | Inr state \<Rightarrow> (case item_state_entry (merge_notification_updates [] state) film_item of Inl e \<Rightarrow> False | Inr entry \<Rightarrow> True)"
  by code_simp

lemma checkpoint_silences_delivered_witness:
  "\<exists>state entry. persist_one_update film_time film_update [] = Inr state
     \<and> item_state_entry (merge_notification_updates [] state) film_item = Inr entry
     \<and> destination_notified entry film_item ''1:2''"
proof -
  obtain state entry where r: "persist_one_update film_time film_update [] = Inr state"
    "item_state_entry (merge_notification_updates [] state) film_item = Inr entry"
    using film_run by (auto split: sum.splits)
  have item: "du_item film_update = film_item" by (simp add: film_update_def)
  have ok: "checkpointable [] film_item" by code_simp
  have key: "publication_state_key film_item = ''b''" by code_simp
  have strip_key: "strip ''b'' = ''b''" by code_simp
  have "destination_notified entry film_item ''1:2''"
    using checkpoint_silences_delivered [of film_time film_update "[]" state "''1:2''" "[]" entry]
      r ok key strip_key by (simp add: film_update_def)
  with r show ?thesis by blast
qed

end
