(* ===== verification/Dispatch_Tickets.thy ===== *)
theory Dispatch_Tickets
  imports Py_Values "HOL-Library.Multiset"
begin

text \<open>
  The single flight of notification dispatches (\<open>emby_latest/notification_delivery.py\<close> and the frame of
  \<open>send_notifications\<close> in \<open>notifications.py\<close>): the first caller with a key owns a new generation, the
  others wait for its outcome.  Each region under the condition's lock is one function; a wait is a
  sequence of turns, one for each time the waiting thread holds the lock.  \<open>ticket_exec\<close> runs the
  regions of any number of threads in any order; a held ticket stands for the thread that holds it.
\<close>

record dispatch_table =
  dt_generation :: nat
  dt_active :: "(string, nat) dict"
  dt_outcomes :: "(nat, pdict) dict"
  dt_waiters :: "(nat, nat) dict"

record dispatch_ticket =
  tk_generation :: nat
  tk_owner :: bool
  tk_key :: string

definition no_dispatches :: dispatch_table where
  "no_dispatches = \<lparr>dt_generation = 0, dt_active = [], dt_outcomes = [], dt_waiters = []\<rparr>"

definition begin_notification_dispatch :: "string \<Rightarrow> dispatch_table \<Rightarrow> dispatch_ticket \<times> dispatch_table" where
  "begin_notification_dispatch dispatch_key d =
     (let key = (if dispatch_key = [] then ''default'' else dispatch_key) in
      case map_of (dt_active d) key of
        Some g \<Rightarrow>
          (\<lparr>tk_generation = g, tk_owner = False, tk_key = key\<rparr>,
           d\<lparr>dt_waiters := dset g (dget_default (dt_waiters d) g 0 + 1) (dt_waiters d)\<rparr>)
      | None \<Rightarrow>
          let g = dt_generation d + 1
          in (\<lparr>tk_generation = g, tk_owner = True, tk_key = key\<rparr>,
              d\<lparr>dt_generation := g, dt_active := dset key g (dt_active d)\<rparr>))"

definition complete_notification_dispatch :: "dispatch_ticket \<Rightarrow> pdict \<Rightarrow> dispatch_table \<Rightarrow> exn + dispatch_table" where
  "complete_notification_dispatch ticket result d =
     (if \<not> tk_owner ticket
      then Inl (RuntimeError (''Solo il proprietario pu'' @ [CHR 0xF2] @ '' completare l'' @ [CHR 0x27] @ ''invio notifiche''))
      else if map_of (dt_active d) (tk_key ticket) \<noteq> Some (tk_generation ticket)
      then Inl (RuntimeError ''Generazione invio notifiche obsoleta'')
      else Inr (d\<lparr>dt_outcomes := (if dget_default (dt_waiters d) (tk_generation ticket) 0 > 0
                                  then dset (tk_generation ticket) result (dt_outcomes d) else dt_outcomes d),
                 dt_active := dpop (tk_key ticket) (dt_active d)\<rparr>))"

text \<open>The \<open>finally\<close> of a wait, and one turn of it: \<open>None\<close> waits on.\<close>

definition leave_wait :: "dispatch_ticket \<Rightarrow> dispatch_table \<Rightarrow> dispatch_table" where
  "leave_wait ticket d =
     (let g = tk_generation ticket; remaining = int (dget_default (dt_waiters d) g 0) - 1
      in if remaining \<le> 0
         then d\<lparr>dt_waiters := dpop g (dt_waiters d), dt_outcomes := dpop g (dt_outcomes d)\<rparr>
         else d\<lparr>dt_waiters := dset g (nat remaining) (dt_waiters d)\<rparr>)"

definition wait_turn :: "bool \<Rightarrow> dispatch_ticket \<Rightarrow> dispatch_table \<Rightarrow> pdict option option \<times> dispatch_table" where
  "wait_turn timed_out ticket d =
     (case map_of (dt_outcomes d) (tk_generation ticket) of
        Some r \<Rightarrow> (Some (Some r), leave_wait ticket d)
      | None \<Rightarrow> if timed_out then (Some None, leave_wait ticket d) else (None, d))"

text \<open>What \<open>send_notifications\<close> answers: a waiter's outcome, or an owner's, whose exception is published too.\<close>

definition dispatch_busy :: pdict where
  "dispatch_busy = [(''success'', PBool False), (''status'', PStr ''busy''),
     (''message'', PStr ''Invio notifiche ancora in corso: timeout di attesa.''), (''sent'', PInt 0), (''failed'', PInt 0),
     (''errors'', PList [PStr ''Timeout attesa invio notifiche''])]"

definition dispatch_failed :: pdict where
  "dispatch_failed = [(''success'', PBool False), (''status'', PStr ''error''),
     (''message'', PStr ''Invio notifiche non completato.''), (''sent'', PInt 0), (''failed'', PInt 0),
     (''errors'', PList [PStr ''Invio notifiche non completato''])]"

definition waiter_answer :: "pdict option \<Rightarrow> pdict" where
  "waiter_answer outcome = (case outcome of Some r \<Rightarrow> r | None \<Rightarrow> dispatch_busy)"

definition published_outcome :: "exn + pdict \<Rightarrow> pdict" where
  "published_outcome run = (case run of Inl e \<Rightarrow> dispatch_failed | Inr r \<Rightarrow> r)"

definition owner_answer :: "dispatch_ticket \<Rightarrow> exn + pdict \<Rightarrow> dispatch_table \<Rightarrow> (exn + pdict) \<times> dispatch_table" where
  "owner_answer ticket run d =
     (case complete_notification_dispatch ticket (published_outcome run) d of
        Inl e \<Rightarrow> (Inl e, d)
      | Inr d' \<Rightarrow> (run, d'))"

subsection \<open>Threads\<close>

record dispatch_system =
  ds_table :: dispatch_table
  ds_held :: "dispatch_ticket list"
  ds_published :: "(nat \<times> string \<times> pdict) list"
  ds_answers :: "(dispatch_ticket \<times> pdict option) list"

definition new_dispatches :: dispatch_system where
  "new_dispatches = \<lparr>ds_table = no_dispatches, ds_held = [], ds_published = [], ds_answers = []\<rparr>"

datatype ticket_step = Begin string | End_Run dispatch_ticket "exn + pdict" | Turn dispatch_ticket bool

fun ticket_exec :: "ticket_step \<Rightarrow> dispatch_system \<Rightarrow> dispatch_system" where
  "ticket_exec (Begin key) s =
     (case begin_notification_dispatch key (ds_table s) of
        (ticket, d) \<Rightarrow> s\<lparr>ds_table := d, ds_held := ticket # ds_held s\<rparr>)"
| "ticket_exec (End_Run ticket run) s =
     (if ticket \<in> set (ds_held s) \<and> tk_owner ticket
      then (case owner_answer ticket run (ds_table s) of
              (answer, d) \<Rightarrow> s\<lparr>ds_table := d, ds_held := remove1 ticket (ds_held s),
                ds_published := (tk_generation ticket, tk_key ticket, published_outcome run) # ds_published s\<rparr>)
      else s)"
| "ticket_exec (Turn ticket timed_out) s =
     (if ticket \<in> set (ds_held s) \<and> \<not> tk_owner ticket
      then (case wait_turn timed_out ticket (ds_table s) of
              (None, d) \<Rightarrow> s\<lparr>ds_table := d\<rparr>
            | (Some outcome, d) \<Rightarrow>
                s\<lparr>ds_table := d, ds_held := remove1 ticket (ds_held s), ds_answers := (ticket, outcome) # ds_answers s\<rparr>)
      else s)"

definition ticket_run :: "ticket_step list \<Rightarrow> dispatch_system" where
  "ticket_run steps = foldl (\<lambda>s a. ticket_exec a s) new_dispatches steps"

lemma ticket_run_induct [case_names start step]:
  assumes "P new_dispatches" "\<And>steps a. P (ticket_run steps) \<Longrightarrow> P (ticket_exec a (ticket_run steps))"
  shows "P (ticket_run steps)"
  using assms by (induction steps rule: rev_induct) (simp_all add: ticket_run_def)

subsection \<open>Invariant\<close>

definition waiting :: "nat \<Rightarrow> dispatch_ticket list \<Rightarrow> nat" where
  "waiting g ts = length (filter (\<lambda>t. \<not> tk_owner t \<and> tk_generation t = g) ts)"

definition owns :: "string \<Rightarrow> nat \<Rightarrow> dispatch_ticket list \<Rightarrow> nat" where
  "owns k g ts = length (filter (\<lambda>t. tk_owner t \<and> tk_generation t = g \<and> tk_key t = k) ts)"

lemma waiting_Nil [simp]: "waiting g [] = 0"
  by (simp add: waiting_def)

lemma waiting_Cons [simp]: "waiting g (t # ts) = of_bool (\<not> tk_owner t \<and> tk_generation t = g) + waiting g ts"
  by (simp add: waiting_def)

lemma owns_Nil [simp]: "owns k g [] = 0"
  by (simp add: owns_def)

lemma owns_Cons [simp]:
  "owns k g (t # ts) = of_bool (tk_owner t \<and> tk_generation t = g \<and> tk_key t = k) + owns k g ts"
  by (simp add: owns_def)

lemma length_filter_remove1:
  "x \<in> set xs \<Longrightarrow> length (filter P (remove1 x xs)) = length (filter P xs) - of_bool (P x)"
  by (simp add: filter_remove1 length_remove1)

lemma waiting_remove1:
  "t \<in> set ts \<Longrightarrow> waiting g (remove1 t ts) = waiting g ts - of_bool (\<not> tk_owner t \<and> tk_generation t = g)"
  by (simp only: waiting_def length_filter_remove1)

lemma owns_remove1:
  "t \<in> set ts \<Longrightarrow> owns k g (remove1 t ts) = owns k g ts - of_bool (tk_owner t \<and> tk_generation t = g \<and> tk_key t = k)"
  by (simp only: owns_def length_filter_remove1)

lemma waiting_pos: "t \<in> set ts \<Longrightarrow> \<not> tk_owner t \<Longrightarrow> waiting (tk_generation t) ts > 0"
  by (force simp: waiting_def length_greater_0_conv filter_empty_conv simp del: length_greater_0_conv)

lemma owns_pos: "t \<in> set ts \<Longrightarrow> tk_owner t \<Longrightarrow> owns (tk_key t) (tk_generation t) ts > 0"
  by (force simp: owns_def length_greater_0_conv filter_empty_conv simp del: length_greater_0_conv)

text \<open>The active generations and their owners, the counted waiters, and the published outcomes.\<close>

definition active_ok :: "dispatch_table \<Rightarrow> dispatch_ticket list \<Rightarrow> bool" where
  "active_ok d ts \<longleftrightarrow>
     (\<forall>k g. map_of (dt_active d) k = Some g \<longrightarrow> g \<le> dt_generation d \<and> map_of (dt_outcomes d) g = None) \<and>
     (\<forall>k k' g. map_of (dt_active d) k = Some g \<and> map_of (dt_active d) k' = Some g \<longrightarrow> k = k') \<and>
     (\<forall>k g. owns k g ts = of_bool (map_of (dt_active d) k = Some g))"

definition waiters_ok :: "dispatch_table \<Rightarrow> dispatch_ticket list \<Rightarrow> bool" where
  "waiters_ok d ts \<longleftrightarrow>
     (\<forall>g. map_of (dt_waiters d) g = (if waiting g ts = 0 then None else Some (waiting g ts))) \<and>
     (\<forall>g r. map_of (dt_outcomes d) g = Some r \<longrightarrow> waiting g ts > 0 \<and> g \<le> dt_generation d)"

definition outcome_known :: "dispatch_table \<Rightarrow> (nat \<times> string \<times> pdict) list \<Rightarrow> dispatch_ticket \<Rightarrow> bool" where
  "outcome_known d published t \<longleftrightarrow>
     (\<exists>r. map_of (dt_outcomes d) (tk_generation t) = Some r \<and> (tk_generation t, tk_key t, r) \<in> set published)"

definition published_ok :: "dispatch_system \<Rightarrow> bool" where
  "published_ok s \<longleftrightarrow>
     (\<forall>t \<in> set (ds_held s). \<not> tk_owner t \<longrightarrow>
        map_of (dt_active (ds_table s)) (tk_key t) = Some (tk_generation t)
        \<or> outcome_known (ds_table s) (ds_published s) t) \<and>
     distinct (map fst (ds_published s)) \<and>
     (\<forall>(g, k, r) \<in> set (ds_published s).
        g \<le> dt_generation (ds_table s) \<and> (\<forall>k'. map_of (dt_active (ds_table s)) k' \<noteq> Some g)) \<and>
     (\<forall>(t, answer) \<in> set (ds_answers s). \<forall>r. answer = Some r \<longrightarrow>
        (tk_generation t, tk_key t, r) \<in> set (ds_published s))"

definition tickets_ok :: "dispatch_system \<Rightarrow> bool" where
  "tickets_ok s \<longleftrightarrow> active_ok (ds_table s) (ds_held s) \<and> waiters_ok (ds_table s) (ds_held s) \<and> published_ok s"

lemma waiters_count: "waiters_ok d ts \<Longrightarrow> dget_default (dt_waiters d) g 0 = waiting g ts"
  by (simp add: waiters_ok_def dget_default_def)

lemma owner_is_active:
  assumes "active_ok d ts" "t \<in> set ts" "tk_owner t"
  shows "map_of (dt_active d) (tk_key t) = Some (tk_generation t)"
  using assms owns_pos [OF assms(2,3)] by (auto simp: active_ok_def split: if_splits)

lemma begin_ok:
  assumes ok: "tickets_ok s"
  shows "tickets_ok (ticket_exec (Begin key) s)"
proof -
  let ?d = "ds_table s"
  let ?key = "if key = [] then ''default'' else key"
  have act: "active_ok ?d (ds_held s)" and wait: "waiters_ok ?d (ds_held s)" and pub: "published_ok s"
    using ok by (simp_all add: tickets_ok_def)
  show ?thesis
  proof (cases "map_of (dt_active ?d) ?key")
    case (Some g)
    have "g \<le> dt_generation ?d" using act Some by (auto simp: active_ok_def)
    with Some act wait pub show ?thesis
      by (auto simp: tickets_ok_def active_ok_def waiters_ok_def published_ok_def outcome_known_def
          begin_notification_dispatch_def Let_def waiters_count [OF wait])
  next
    case None
    have fresh: "map_of (dt_outcomes ?d) (Suc (dt_generation ?d)) = None"
      using wait by (cases "map_of (dt_outcomes ?d) (Suc (dt_generation ?d))") (fastforce simp: waiters_ok_def)+
    have bound: "map_of (dt_active ?d) k = Some g \<Longrightarrow> g \<le> dt_generation ?d" for k g
      using act by (auto simp: active_ok_def)
    show ?thesis
      unfolding tickets_ok_def
    proof (intro conjI)
      show "active_ok (ds_table (ticket_exec (Begin key) s)) (ds_held (ticket_exec (Begin key) s))"
        using act None fresh bound
        by (fastforce simp: active_ok_def begin_notification_dispatch_def Let_def)
      show "waiters_ok (ds_table (ticket_exec (Begin key) s)) (ds_held (ticket_exec (Begin key) s))"
        using wait None by (fastforce simp: waiters_ok_def begin_notification_dispatch_def Let_def)
      show "published_ok (ticket_exec (Begin key) s)"
        using pub None by (fastforce simp: published_ok_def outcome_known_def begin_notification_dispatch_def Let_def)
    qed
  qed
qed

lemma end_run_table:
  assumes ok: "tickets_ok s" and t: "t \<in> set (ds_held s)" "tk_owner t"
  shows "owner_answer t run (ds_table s) = (run,
    (ds_table s)\<lparr>dt_outcomes := (if waiting (tk_generation t) (ds_held s) > 0
                              then dset (tk_generation t) (published_outcome run) (dt_outcomes (ds_table s))
                              else dt_outcomes (ds_table s)),
               dt_active := dpop (tk_key t) (dt_active (ds_table s))\<rparr>)"
proof -
  have "active_ok (ds_table s) (ds_held s)" "waiters_ok (ds_table s) (ds_held s)"
    using ok by (simp_all add: tickets_ok_def)
  with t owner_is_active show ?thesis
    by (simp add: owner_answer_def complete_notification_dispatch_def waiters_count)
qed

lemma end_run_ok:
  assumes ok: "tickets_ok s"
  shows "tickets_ok (ticket_exec (End_Run t run) s)"
proof (cases "t \<in> set (ds_held s) \<and> tk_owner t")
  case True
  then have held: "t \<in> set (ds_held s)" "tk_owner t" by simp_all
  let ?d = "ds_table s" and ?ts = "ds_held s" and ?g = "tk_generation t" and ?k = "tk_key t"
  let ?r = "published_outcome run"
  have act: "active_ok ?d ?ts" and wait: "waiters_ok ?d ?ts" and pub: "published_ok s"
    using ok by (simp_all add: tickets_ok_def)
  have mine: "map_of (dt_active ?d) ?k = Some ?g" by (rule owner_is_active [OF act held])
  then have le: "?g \<le> dt_generation ?d" and none: "map_of (dt_outcomes ?d) ?g = None"
    and only: "map_of (dt_active ?d) k' = Some ?g \<Longrightarrow> k' = ?k" for k'
    using act by (auto simp: active_ok_def)
  let ?d' = "?d\<lparr>dt_outcomes := (if waiting ?g ?ts > 0 then dset ?g ?r (dt_outcomes ?d) else dt_outcomes ?d),
      dt_active := dpop ?k (dt_active ?d)\<rparr>"
  let ?s' = "s\<lparr>ds_table := ?d', ds_held := remove1 t ?ts, ds_published := (?g, ?k, ?r) # ds_published s\<rparr>"
  have s': "ticket_exec (End_Run t run) s = ?s'"
    using held by (simp add: end_run_table [OF ok held])
  have waiting': "waiting g (remove1 t ?ts) = waiting g ?ts" for g
    using held by (simp add: waiting_remove1)
  have "active_ok ?d' (remove1 t ?ts)"
    unfolding active_ok_def
  proof (intro conjI allI impI)
    fix k g assume k: "map_of (dt_active ?d') k = Some g"
    then have a: "map_of (dt_active ?d) k = Some g" "k \<noteq> ?k" by (auto split: if_splits)
    then have "g \<noteq> ?g" using only by auto
    with a act show "g \<le> dt_generation ?d'" "map_of (dt_outcomes ?d') g = None" by (auto simp: active_ok_def)
  next
    fix k k' g assume "map_of (dt_active ?d') k = Some g \<and> map_of (dt_active ?d') k' = Some g"
    then show "k = k'" using act by (auto simp: active_ok_def split: if_splits)
  next
    fix k g
    have "owns k g ?ts = of_bool (map_of (dt_active ?d) k = Some g)" using act by (simp add: active_ok_def)
    then show "owns k g (remove1 t ?ts) = of_bool (map_of (dt_active ?d') k = Some g)"
      using mine held by (auto simp: owns_remove1)
  qed
  moreover have "waiters_ok ?d' (remove1 t ?ts)"
    using wait le by (auto simp: waiters_ok_def waiting' split: if_splits)
  moreover have "published_ok ?s'"
    unfolding published_ok_def
  proof (intro conjI)
    show "\<forall>u \<in> set (ds_held ?s'). \<not> tk_owner u \<longrightarrow>
        map_of (dt_active (ds_table ?s')) (tk_key u) = Some (tk_generation u)
        \<or> outcome_known (ds_table ?s') (ds_published ?s') u"
    proof (intro ballI impI)
      fix u assume "u \<in> set (ds_held ?s')" and no: "\<not> tk_owner u"
      then have u: "u \<in> set ?ts" by simp (meson set_remove1_subset subsetD)
      with pub no consider "map_of (dt_active ?d) (tk_key u) = Some (tk_generation u)"
        | "outcome_known ?d (ds_published s) u" by (auto simp: published_ok_def)
      then show "map_of (dt_active (ds_table ?s')) (tk_key u) = Some (tk_generation u)
        \<or> outcome_known (ds_table ?s') (ds_published ?s') u"
      proof cases
        case 1
        show ?thesis
        proof (cases "tk_key u = ?k")
          case True
          with 1 mine have "tk_generation u = ?g" by simp
          with True waiting_pos [OF u no] show ?thesis by (simp add: outcome_known_def)
        next
          case False
          with 1 show ?thesis by simp
        qed
      next
        case 2
        then have "tk_generation u \<noteq> ?g" using none by (auto simp: outcome_known_def)
        with 2 show ?thesis by (auto simp: outcome_known_def)
      qed
    qed
    have fresh: "?g \<notin> fst ` set (ds_published s)" using pub mine by (force simp: published_ok_def)
    show "distinct (map fst (ds_published ?s'))" using pub fresh by (simp add: published_ok_def)
    show "\<forall>(g, k, r) \<in> set (ds_published ?s').
        g \<le> dt_generation (ds_table ?s') \<and> (\<forall>k'. map_of (dt_active (ds_table ?s')) k' \<noteq> Some g)"
      using pub le only by (auto simp: published_ok_def)
    show "\<forall>(u, answer) \<in> set (ds_answers ?s'). \<forall>r. answer = Some r \<longrightarrow>
        (tk_generation u, tk_key u, r) \<in> set (ds_published ?s')"
      using pub by (auto simp: published_ok_def)
  qed
  ultimately show ?thesis unfolding s' tickets_ok_def by simp
qed (use ok in auto)

lemma leave_wait_table:
  assumes "waiters_ok d ts" "t \<in> set ts" "\<not> tk_owner t"
  shows "dt_generation (leave_wait t d) = dt_generation d" "dt_active (leave_wait t d) = dt_active d"
    and "map_of (dt_waiters (leave_wait t d)) g =
      (if waiting g (remove1 t ts) = 0 then None else Some (waiting g (remove1 t ts)))"
    and "map_of (dt_outcomes (leave_wait t d)) g =
      (if waiting g (remove1 t ts) = 0 then None else map_of (dt_outcomes d) g)"
proof -
  let ?g = "tk_generation t"
  have pos: "waiting ?g ts > 0" by (rule waiting_pos [OF assms(2,3)])
  have count: "dget_default (dt_waiters d) ?g 0 = waiting ?g ts" by (rule waiters_count [OF assms(1)])
  have W: "map_of (dt_waiters d) g = (if waiting g ts = 0 then None else Some (waiting g ts))" for g
    using assms(1) by (simp add: waiters_ok_def)
  have O: "waiting g ts = 0 \<Longrightarrow> map_of (dt_outcomes d) g = None" for g
    using assms(1) by (cases "map_of (dt_outcomes d) g") (auto simp: waiters_ok_def)
  have rem: "waiting g (remove1 t ts) = (if g = ?g then waiting g ts - 1 else waiting g ts)" for g
    using assms(2,3) by (auto simp: waiting_remove1)
  show "dt_generation (leave_wait t d) = dt_generation d" "dt_active (leave_wait t d) = dt_active d"
    by (simp_all add: leave_wait_def Let_def)
  show "map_of (dt_waiters (leave_wait t d)) g =
      (if waiting g (remove1 t ts) = 0 then None else Some (waiting g (remove1 t ts)))"
    using pos by (auto simp: leave_wait_def Let_def count rem W)
  show "map_of (dt_outcomes (leave_wait t d)) g =
      (if waiting g (remove1 t ts) = 0 then None else map_of (dt_outcomes d) g)"
    using pos by (auto simp: leave_wait_def Let_def count rem O)
qed

lemma leave_ok:
  assumes ok: "tickets_ok s" and t: "t \<in> set (ds_held s)" "\<not> tk_owner t"
    and outcome: "\<And>r. outcome = Some r \<Longrightarrow> map_of (dt_outcomes (ds_table s)) (tk_generation t) = Some r"
  shows "tickets_ok (s\<lparr>ds_table := leave_wait t (ds_table s), ds_held := remove1 t (ds_held s),
      ds_answers := (t, outcome) # ds_answers s\<rparr>)" (is "tickets_ok ?s'")
proof -
  let ?d = "ds_table s" and ?ts = "ds_held s"
  have act: "active_ok ?d ?ts" and wait: "waiters_ok ?d ?ts" and pub: "published_ok s"
    using ok by (simp_all add: tickets_ok_def)
  note table = leave_wait_table [OF wait t]
  have owns': "owns k g (remove1 t ?ts) = owns k g ?ts" for k g using t by (simp add: owns_remove1)
  have "active_ok (leave_wait t ?d) (remove1 t ?ts)"
    using act by (auto simp: active_ok_def table owns')
  moreover have "waiters_ok (leave_wait t ?d) (remove1 t ?ts)"
    using wait by (auto simp: waiters_ok_def table split: if_splits)
  moreover have "published_ok ?s'"
    unfolding published_ok_def
  proof (intro conjI)
    show "\<forall>u \<in> set (ds_held ?s'). \<not> tk_owner u \<longrightarrow>
        map_of (dt_active (ds_table ?s')) (tk_key u) = Some (tk_generation u)
        \<or> outcome_known (ds_table ?s') (ds_published ?s') u"
    proof (intro ballI impI)
      fix u assume "u \<in> set (ds_held ?s')" and no: "\<not> tk_owner u"
      then have u: "u \<in> set (remove1 t ?ts)" by simp
      have pos: "waiting (tk_generation u) (remove1 t ?ts) > 0" by (rule waiting_pos [OF u no])
      from u have "u \<in> set ?ts" by (meson set_remove1_subset subsetD)
      with pub no have "map_of (dt_active ?d) (tk_key u) = Some (tk_generation u) \<or> outcome_known ?d (ds_published s) u"
        by (auto simp: published_ok_def)
      with pos show "map_of (dt_active (ds_table ?s')) (tk_key u) = Some (tk_generation u)
        \<or> outcome_known (ds_table ?s') (ds_published ?s') u"
        by (auto simp: outcome_known_def table)
    qed
    show "distinct (map fst (ds_published ?s'))" using pub by (simp add: published_ok_def)
    show "\<forall>(g, k, r) \<in> set (ds_published ?s').
        g \<le> dt_generation (ds_table ?s') \<and> (\<forall>k'. map_of (dt_active (ds_table ?s')) k' \<noteq> Some g)"
      using pub by (auto simp: published_ok_def table)
    have mine: "(tk_generation t, tk_key t, r) \<in> set (ds_published s)" if "outcome = Some r" for r
    proof -
      have known: "map_of (dt_outcomes ?d) (tk_generation t) = Some r" by (rule outcome [OF that])
      then have "map_of (dt_active ?d) (tk_key t) \<noteq> Some (tk_generation t)" using act by (auto simp: active_ok_def)
      with pub t have "outcome_known ?d (ds_published s) t" by (auto simp: published_ok_def)
      with known show ?thesis by (auto simp: outcome_known_def)
    qed
    show "\<forall>(u, answer) \<in> set (ds_answers ?s'). \<forall>r. answer = Some r \<longrightarrow>
        (tk_generation u, tk_key u, r) \<in> set (ds_published ?s')"
      using pub mine by (auto simp: published_ok_def)
  qed
  ultimately show ?thesis by (simp add: tickets_ok_def)
qed

lemma turn_ok:
  assumes ok: "tickets_ok s"
  shows "tickets_ok (ticket_exec (Turn t timed_out) s)"
proof (cases "t \<in> set (ds_held s) \<and> \<not> tk_owner t")
  case True
  then have t: "t \<in> set (ds_held s)" "\<not> tk_owner t" by simp_all
  show ?thesis
  proof (cases "map_of (dt_outcomes (ds_table s)) (tk_generation t)")
    case None
    show ?thesis
    proof (cases timed_out)
      case True
      then show ?thesis using t leave_ok [OF ok t, of None] None by (simp add: wait_turn_def)
    next
      case False
      with t None ok show ?thesis by (simp add: wait_turn_def tickets_ok_def published_ok_def)
    qed
  next
    case (Some r)
    then show ?thesis using t leave_ok [OF ok t, of "Some r"] by (simp add: wait_turn_def)
  qed
qed (use ok in auto)

lemma tickets_ok_run: "tickets_ok (ticket_run steps)"
proof (induction rule: ticket_run_induct)
  case start
  show ?case by (simp add: tickets_ok_def active_ok_def waiters_ok_def published_ok_def new_dispatches_def no_dispatches_def)
next
  case (step steps a)
  then show ?case by (cases a) (simp_all only: begin_ok end_run_ok turn_ok)
qed

subsection \<open>Properties\<close>

text \<open>
  C37: Whatever callers begin, end and wait in whatever order, at most one of them owns the
  dispatch of a key, and its end is never refused as obsolete.
\<close>

theorem one_owner_per_key:
  "length (filter (\<lambda>t. tk_owner t \<and> tk_key t = k) (ds_held (ticket_run steps))) \<le> 1
   \<and> (\<forall>t run. t \<in> set (ds_held (ticket_run steps)) \<and> tk_owner t \<longrightarrow>
        fst (owner_answer t run (ds_table (ticket_run steps))) = run)"
proof
  let ?s = "ticket_run steps"
  have ok: "tickets_ok ?s" by (rule tickets_ok_run)
  then have act: "active_ok (ds_table ?s) (ds_held ?s)" by (simp add: tickets_ok_def)
  show "length (filter (\<lambda>t. tk_owner t \<and> tk_key t = k) (ds_held ?s)) \<le> 1"
  proof (cases "map_of (dt_active (ds_table ?s)) k")
    case None
    then have "filter (\<lambda>t. tk_owner t \<and> tk_key t = k) (ds_held ?s) = []"
      using owner_is_active [OF act] by (auto simp: filter_empty_conv)
    then show ?thesis by simp
  next
    case (Some g)
    have "filter (\<lambda>t. tk_owner t \<and> tk_key t = k) (ds_held ?s)
        = filter (\<lambda>t. tk_owner t \<and> tk_generation t = g \<and> tk_key t = k) (ds_held ?s)"
      using owner_is_active [OF act] Some by (intro filter_cong) auto
    then have "length (filter (\<lambda>t. tk_owner t \<and> tk_key t = k) (ds_held ?s)) = owns k g (ds_held ?s)"
      by (simp add: owns_def)
    also have "owns k g (ds_held ?s) \<le> 1" using act by (auto simp: active_ok_def)
    finally show ?thesis .
  qed
  show "\<forall>t run. t \<in> set (ds_held ?s) \<and> tk_owner t \<longrightarrow> fst (owner_answer t run (ds_table ?s)) = run"
    using end_run_table [OF ok] by simp
qed

lemma filter_one_key: "p \<in> set ps \<Longrightarrow> distinct (map fst ps) \<Longrightarrow> filter (\<lambda>q. fst q = fst p) ps = [p]"
  by (induction ps) (auto simp: filter_empty_conv rev_image_eqI)

text \<open>
  C7: An answer other than a timeout is the outcome that the owner of the waiter's own generation and key
  published, and that generation published nothing else; in any run, however many threads still
  wait.
\<close>

theorem waiter_gets_its_outcome:
  assumes "(t, Some r) \<in> set (ds_answers (ticket_run steps))"
  shows "filter (\<lambda>p. fst p = tk_generation t) (ds_published (ticket_run steps)) = [(tk_generation t, tk_key t, r)]"
proof -
  have pub: "published_ok (ticket_run steps)" using tickets_ok_run by (simp add: tickets_ok_def)
  have mine: "(tk_generation t, tk_key t, r) \<in> set (ds_published (ticket_run steps))"
    using pub assms by (auto simp: published_ok_def)
  moreover have "distinct (map fst (ds_published (ticket_run steps)))" using pub by (simp add: published_ok_def)
  ultimately show ?thesis using filter_one_key [of _ "ds_published (ticket_run steps)"] by fastforce
qed

text \<open>
  C8: As soon as the owner of a waiter's generation has ended, the next turn of that waiter answers it with
  the outcome the owner published, even when its time is over; it never reports a timeout then.
\<close>

theorem ended_owner_answers_waiter:
  fixes steps :: "ticket_step list"
  defines "s \<equiv> ticket_run steps"
  assumes "u \<in> set (ds_held s)" "\<not> tk_owner u" "map_of (dt_active (ds_table s)) (tk_key u) \<noteq> Some (tk_generation u)"
  shows "\<exists>r. ds_answers (ticket_exec (Turn u timed_out) s) = (u, Some r) # ds_answers s
    \<and> (tk_generation u, tk_key u, r) \<in> set (ds_published s)"
proof -
  have "published_ok s" using tickets_ok_run [of steps] by (simp add: s_def tickets_ok_def)
  then have "outcome_known (ds_table s) (ds_published s) u"
    using assms(2-4) by (auto simp: published_ok_def)
  then show ?thesis
    using assms(2,3) by (auto simp: outcome_known_def wait_turn_def)
qed

text \<open>
  C38: When nobody holds a ticket any more, no active dispatch, outcome or waiter count is left.
\<close>

theorem dispatch_tables_drain:
  assumes "ds_held (ticket_run steps) = []"
  shows "dt_active (ds_table (ticket_run steps)) = [] \<and> dt_outcomes (ds_table (ticket_run steps)) = []
    \<and> dt_waiters (ds_table (ticket_run steps)) = []"
proof -
  have none: "(\<And>k. map_of d k = None) \<Longrightarrow> d = []" for d :: "('k \<times> 'v) list"
    by (metis empty_eq_map_of_iff ext)
  have act: "active_ok (ds_table (ticket_run steps)) []" and wait: "waiters_ok (ds_table (ticket_run steps)) []"
    using tickets_ok_run [of steps] assms by (simp_all add: tickets_ok_def)
  show ?thesis
  proof (intro conjI)
    show "dt_active (ds_table (ticket_run steps)) = []"
      by (rule none) (use act in \<open>auto simp: active_ok_def option.expand\<close>)
    show "dt_outcomes (ds_table (ticket_run steps)) = []"
      by (rule none) (use wait in \<open>auto simp: waiters_ok_def option.expand\<close>)
    show "dt_waiters (ds_table (ticket_run steps)) = []"
      by (rule none) (use wait in \<open>auto simp: waiters_ok_def\<close>)
  qed
qed

subsection \<open>Witnesses\<close>

definition owner_one :: dispatch_ticket where
  "owner_one = \<lparr>tk_generation = 1, tk_owner = True, tk_key = ''default''\<rparr>"

definition waiter_one :: dispatch_ticket where
  "waiter_one = \<lparr>tk_generation = 1, tk_owner = False, tk_key = ''default''\<rparr>"

definition joined_steps :: "ticket_step list" where
  "joined_steps = [Begin [], Begin [], Begin ''default'', End_Run owner_one (Inr [(''sent'', PInt 2)]), Turn waiter_one True]"

lemma one_owner_per_key_witness:
  "owner_one \<in> set (ds_held (ticket_run [Begin [], Begin []])) \<and>
   fst (owner_answer owner_one (Inr []) (ds_table (ticket_run [Begin [], Begin []]))) = Inr []"
proof -
  have h: "owner_one \<in> set (ds_held (ticket_run [Begin [], Begin []])) \<and> tk_owner owner_one"
    by (simp add: ticket_run_def new_dispatches_def no_dispatches_def begin_notification_dispatch_def Let_def
        owner_one_def dget_default_def)
  with one_owner_per_key [where k = "''default''" and steps = "[Begin [], Begin []]"] show ?thesis by blast
qed

lemma joined_run:
  "ticket_run joined_steps =
     \<lparr>ds_table = \<lparr>dt_generation = 1, dt_active = [], dt_outcomes = [(1, [(''sent'', PInt 2)])], dt_waiters = [(1, 1)]\<rparr>,
      ds_held = [waiter_one], ds_published = [(1, ''default'', [(''sent'', PInt 2)])],
      ds_answers = [(waiter_one, Some [(''sent'', PInt 2)])]\<rparr>"
  by (simp add: ticket_run_def joined_steps_def new_dispatches_def no_dispatches_def begin_notification_dispatch_def
      Let_def owner_one_def waiter_one_def dget_default_def owner_answer_def published_outcome_def
      complete_notification_dispatch_def wait_turn_def leave_wait_def dpop_def dset_def)

lemma waiter_gets_its_outcome_witness:
  "filter (\<lambda>p. fst p = 1) (ds_published (ticket_run joined_steps)) = [(1, ''default'', [(''sent'', PInt 2)])]"
proof -
  have "(waiter_one, Some [(''sent'', PInt 2)]) \<in> set (ds_answers (ticket_run joined_steps))"
    by (simp add: joined_run)
  from waiter_gets_its_outcome [OF this] show ?thesis by (simp add: waiter_one_def)
qed

lemma ended_owner_answers_waiter_witness:
  "\<exists>r. (waiter_one, Some r) \<in> set (ds_answers (ticket_exec (Turn waiter_one True) (ticket_run joined_steps)))"
proof -
  have "waiter_one \<in> set (ds_held (ticket_run joined_steps))" "\<not> tk_owner waiter_one"
    "map_of (dt_active (ds_table (ticket_run joined_steps))) (tk_key waiter_one) \<noteq> Some (tk_generation waiter_one)"
    by (simp_all add: joined_run waiter_one_def)
  from ended_owner_answers_waiter [OF this, of True] show ?thesis by (metis list.set_intros(1))
qed

lemma dispatch_tables_drain_witness:
  "dt_waiters (ds_table (ticket_run (joined_steps @ [Turn waiter_one False]))) = []"
proof -
  have "ds_held (ticket_run (joined_steps @ [Turn waiter_one False])) = []"
    using joined_run by (simp add: ticket_run_def wait_turn_def leave_wait_def dpop_def waiter_one_def Let_def dget_default_def)
  from dispatch_tables_drain [OF this] show ?thesis by simp
qed

end
