(* ===== verification/Mutation_Locks.thy ===== *)
theory Mutation_Locks
  imports Py_Values "HOL-Library.Multiset" "HOL-Library.List_Lexorder" "HOL-Library.Char_ord"
begin

text \<open>
  The fences around mutations of users (\<open>emby_users/mutation_coordinator.py\<close>): a table of counted
  re-entrant locks, one for each key in use, and the advisory locks of the database.  An entry of the
  table is known by a number; its lock has an owner and a depth.  A guard that some thread has
  entered is an \<open>activation\<close>; \<open>advance\<close> is its next region, each region under \<open>_LOCKS_GUARD\<close>, each
  operation of a lock and each database call being one.  Guards of a thread end in the reverse order
  of their entries (they are \<open>with\<close> blocks), and the body of a guard that was refused enters no other:
  its callers return.
\<close>

subsection \<open>Keys\<close>

definition group_sync_key :: "string \<Rightarrow> string" where
  "group_sync_key group_id = ''user-sync:'' @ strip group_id"

definition server_mutation_key :: "string \<Rightarrow> string" where
  "server_mutation_key server_id = ''emby-server-mutation:'' @ strip server_id"

definition user_mutation_key :: "string \<Rightarrow> string \<Rightarrow> string" where
  "user_mutation_key server_id user_id = ''emby-user-mutation:'' @ strip server_id @ '':'' @ strip user_id"

definition user_mutation_keys :: "string \<Rightarrow> string \<Rightarrow> string list" where
  "user_mutation_keys server_id user_id = [server_mutation_key server_id, user_mutation_key server_id user_id]"

definition ordered_keys :: "string list \<Rightarrow> string list" where
  "ordered_keys keys = sort (remdups (filter (\<lambda>k. k \<noteq> []) (map strip keys)))"

definition is_sync_key :: "string \<Rightarrow> bool" where
  "is_sync_key key \<longleftrightarrow> take 10 key = ''user-sync:''"

subsection \<open>The shared state\<close>

datatype fence_owner = Ours | Foreign

record lock_table =
  lt_entry :: "string \<Rightarrow> nat option"
  lt_next :: nat
  lt_references :: "nat \<Rightarrow> nat"
  lt_lock :: "nat \<Rightarrow> (nat \<times> nat) option"
  lt_counts :: "nat \<Rightarrow> string \<Rightarrow> nat"
  lt_fence :: "int \<Rightarrow> fence_owner option"

definition no_locks :: lock_table where
  "no_locks = \<lparr>lt_entry = (\<lambda>k. None), lt_next = 0, lt_references = (\<lambda>i. 0), lt_lock = (\<lambda>i. None),
     lt_counts = (\<lambda>t k. 0), lt_fence = (\<lambda>h. None)\<rparr>"

text \<open>The four regions of \<open>_local_lock\<close>.\<close>

definition register_lock :: "string \<Rightarrow> lock_table \<Rightarrow> nat \<times> lock_table" where
  "register_lock k l =
     (case lt_entry l k of
        None \<Rightarrow> (lt_next l, l\<lparr>lt_entry := (lt_entry l)(k \<mapsto> lt_next l), lt_next := lt_next l + 1,
                            lt_references := (lt_references l)(lt_next l := 1),
                            lt_lock := (lt_lock l)(lt_next l := None)\<rparr>)
      | Some i \<Rightarrow> (i, l\<lparr>lt_references := (lt_references l)(i := lt_references l i + 1)\<rparr>))"

definition unregister_lock :: "string \<Rightarrow> nat \<Rightarrow> lock_table \<Rightarrow> lock_table" where
  "unregister_lock k i l =
     l\<lparr>lt_references := (lt_references l)(i := lt_references l i - 1),
       lt_entry := (if lt_references l i - 1 = 0 \<and> lt_entry l k = Some i then (lt_entry l)(k := None) else lt_entry l)\<rparr>"

text \<open>A lock that was taken is counted for the thread; the second result says whether it is outermost.\<close>

definition acquire_lock :: "nat \<Rightarrow> string \<Rightarrow> nat \<Rightarrow> lock_table \<Rightarrow> (bool \<times> lock_table) option" where
  "acquire_lock t k i l =
     (case (case lt_lock l i of None \<Rightarrow> Some 1 | Some (t', n) \<Rightarrow> if t' = t then Some (n + 1) else None) of
        None \<Rightarrow> None
      | Some n \<Rightarrow>
          Some (lt_counts l t k = 0,
            l\<lparr>lt_lock := (lt_lock l)(i \<mapsto> (t, n)),
              lt_counts := (lt_counts l)(t := (lt_counts l t)(k := lt_counts l t k + 1))\<rparr>))"

definition release_lock :: "nat \<Rightarrow> string \<Rightarrow> nat \<Rightarrow> lock_table \<Rightarrow> lock_table" where
  "release_lock t k i l =
     l\<lparr>lt_counts := (lt_counts l)(t := (lt_counts l t)(k := lt_counts l t k - 1)),
       lt_lock := (case lt_lock l i of
                     Some (t', n) \<Rightarrow> (lt_lock l)(i := (if n \<le> 1 then None else Some (t', n - 1)))
                   | None \<Rightarrow> lt_lock l)\<rparr>"

subsection \<open>Guards\<close>

datatype stage =
    Take "string list"
  | Registered string nat "string list"
  | Refusing string nat
  | Fence "string list"
  | Inside bool
  | Unwind
  | Dropping string nat

record activation =
  ac_thread :: nat
  ac_keys :: "string list"
  ac_held :: "(string \<times> nat) list"
  ac_outer :: "string list"
  ac_fenced :: "string list"
  ac_stage :: stage

definition new_activation :: "nat \<Rightarrow> string list \<Rightarrow> activation" where
  "new_activation t keys = \<lparr>ac_thread = t, ac_keys = ordered_keys keys, ac_held = [], ac_outer = [], ac_fenced = [],
     ac_stage = Take (ordered_keys keys)\<rparr>"

text \<open>
  The next region of an activation; \<open>None\<close> when the guard has ended.  \<open>fenced\<close>: the storage has
  advisory locks; \<open>h\<close> is the database's hash of a key.
\<close>

fun advance :: "bool \<Rightarrow> (string \<Rightarrow> int) \<Rightarrow> lock_table \<Rightarrow> activation \<Rightarrow> lock_table \<times> activation option" where
  "advance fenced h l a =
     (case ac_stage a of
        Take [] \<Rightarrow> (l, Some (a\<lparr>ac_stage := (if fenced then Fence (ac_outer a) else Inside True)\<rparr>))
      | Take (k # ks) \<Rightarrow>
          (case register_lock k l of (i, l') \<Rightarrow> (l', Some (a\<lparr>ac_stage := Registered k i ks\<rparr>)))
      | Registered k i ks \<Rightarrow>
          (case acquire_lock (ac_thread a) k i l of
             None \<Rightarrow> (l, Some (a\<lparr>ac_stage := Refusing k i\<rparr>))
           | Some (outermost, l') \<Rightarrow>
               (l', Some (a\<lparr>ac_held := (k, i) # ac_held a,
                           ac_outer := (if outermost then ac_outer a @ [k] else ac_outer a),
                           ac_stage := (if \<not> outermost \<and> is_sync_key k then Inside False else Take ks)\<rparr>)))
      | Refusing k i \<Rightarrow> (unregister_lock k i l, Some (a\<lparr>ac_stage := Inside False\<rparr>))
      | Fence [] \<Rightarrow> (l, Some (a\<lparr>ac_stage := Inside True\<rparr>))
      | Fence (k # ks) \<Rightarrow>
          (case lt_fence l (h k) of
             None \<Rightarrow> (l\<lparr>lt_fence := (lt_fence l)(h k \<mapsto> Ours)\<rparr>,
                      Some (a\<lparr>ac_fenced := k # ac_fenced a, ac_stage := Fence ks\<rparr>))
           | Some owner \<Rightarrow> (l, Some (a\<lparr>ac_stage := Inside False\<rparr>)))
      | Inside b \<Rightarrow> (l, Some (a\<lparr>ac_stage := Unwind\<rparr>))
      | Unwind \<Rightarrow>
          (case ac_fenced a of
             k # ks \<Rightarrow> (l\<lparr>lt_fence := (lt_fence l)(h k := None)\<rparr>, Some (a\<lparr>ac_fenced := ks\<rparr>))
           | [] \<Rightarrow>
               (case ac_held a of
                  (k, i) # r \<Rightarrow> (release_lock (ac_thread a) k i l, Some (a\<lparr>ac_held := r, ac_stage := Dropping k i\<rparr>))
                | [] \<Rightarrow> (l, None)))
      | Dropping k i \<Rightarrow> (unregister_lock k i l, Some (a\<lparr>ac_stage := Unwind\<rparr>)))"

declare advance.simps [simp del]

record lock_system =
  ls_table :: lock_table
  ls_active :: "activation list"

text \<open>The innermost guard of a thread is its first activation.\<close>

fun advance_innermost :: "bool \<Rightarrow> (string \<Rightarrow> int) \<Rightarrow> nat \<Rightarrow> lock_table \<Rightarrow> activation list \<Rightarrow> lock_table \<times> activation list" where
  "advance_innermost fenced h t l [] = (l, [])"
| "advance_innermost fenced h t l (a # as) =
     (if ac_thread a = t
      then (case advance fenced h l a of (l', None) \<Rightarrow> (l', as) | (l', Some a') \<Rightarrow> (l', a' # as))
      else (case advance_innermost fenced h t l as of (l', as') \<Rightarrow> (l', a # as')))"

definition may_enter :: "nat \<Rightarrow> activation list \<Rightarrow> bool" where
  "may_enter t acts = (case filter (\<lambda>a. ac_thread a = t) acts of [] \<Rightarrow> True | a # as \<Rightarrow> ac_stage a = Inside True)"

datatype lock_step = Enter nat "string list" | Advance nat | Foreign_Takes int | Foreign_Frees int

fun lock_exec :: "bool \<Rightarrow> (string \<Rightarrow> int) \<Rightarrow> lock_step \<Rightarrow> lock_system \<Rightarrow> lock_system" where
  "lock_exec fenced h (Enter t keys) s =
     (if may_enter t (ls_active s) then s\<lparr>ls_active := new_activation t keys # ls_active s\<rparr> else s)"
| "lock_exec fenced h (Advance t) s =
     (case advance_innermost fenced h t (ls_table s) (ls_active s) of (l, acts) \<Rightarrow> \<lparr>ls_table = l, ls_active = acts\<rparr>)"
| "lock_exec fenced h (Foreign_Takes n) s =
     (if lt_fence (ls_table s) n = None
      then s\<lparr>ls_table := (ls_table s)\<lparr>lt_fence := (lt_fence (ls_table s))(n \<mapsto> Foreign)\<rparr>\<rparr> else s)"
| "lock_exec fenced h (Foreign_Frees n) s =
     (if lt_fence (ls_table s) n = Some Foreign
      then s\<lparr>ls_table := (ls_table s)\<lparr>lt_fence := (lt_fence (ls_table s))(n := None)\<rparr>\<rparr> else s)"

definition lock_run :: "bool \<Rightarrow> (string \<Rightarrow> int) \<Rightarrow> lock_step list \<Rightarrow> lock_system" where
  "lock_run fenced h steps = foldl (\<lambda>s a. lock_exec fenced h a s) \<lparr>ls_table = no_locks, ls_active = []\<rparr> steps"

subsection \<open>The table and what refers to it\<close>

text \<open>\<open>E\<close>: the references to entries; \<open>H t\<close>: the locks thread \<open>t\<close> holds.\<close>

definition refs_ok :: "(nat \<Rightarrow> nat) \<Rightarrow> (string \<times> nat) multiset \<Rightarrow> bool" where
  "refs_ok refs E \<longleftrightarrow> (\<forall>i. refs i = count (image_mset snd E) i)"

definition entries_ok :: "nat \<Rightarrow> (string \<Rightarrow> nat option) \<Rightarrow> (string \<times> nat) multiset \<Rightarrow> bool" where
  "entries_ok next entry E \<longleftrightarrow>
     (\<forall>k i. (k, i) \<in># E \<longleftrightarrow> entry k = Some i) \<and> (\<forall>k i. entry k = Some i \<longrightarrow> i < next) \<and>
     (\<forall>k k' i. entry k = Some i \<and> entry k' = Some i \<longrightarrow> k = k')"

definition lock_depth :: "(nat \<times> nat) option \<Rightarrow> nat \<Rightarrow> nat" where
  "lock_depth lock t = (case lock of None \<Rightarrow> 0 | Some (t', n) \<Rightarrow> if t' = t then n else 0)"

definition locks_ok :: "(nat \<Rightarrow> (nat \<times> nat) option) \<Rightarrow> (nat \<Rightarrow> (string \<times> nat) multiset) \<Rightarrow> bool" where
  "locks_ok lock H \<longleftrightarrow>
     (\<forall>i t. count (image_mset snd (H t)) i = lock_depth (lock i) t) \<and> (\<forall>i t n. lock i = Some (t, n) \<longrightarrow> n > 0)"

definition counts_ok :: "(nat \<Rightarrow> string \<Rightarrow> nat) \<Rightarrow> (nat \<Rightarrow> (string \<times> nat) multiset) \<Rightarrow> bool" where
  "counts_ok counts H \<longleftrightarrow> (\<forall>t k. counts t k = count (image_mset fst (H t)) k)"

definition table_ok :: "lock_table \<Rightarrow> (string \<times> nat) multiset \<Rightarrow> (nat \<Rightarrow> (string \<times> nat) multiset) \<Rightarrow> bool" where
  "table_ok l E H \<longleftrightarrow>
     refs_ok (lt_references l) E \<and> entries_ok (lt_next l) (lt_entry l) E \<and>
     (\<forall>i \<ge> lt_next l. lt_lock l i = None) \<and> locks_ok (lt_lock l) H \<and> counts_ok (lt_counts l) H"

lemma entries_count_zero:
  assumes "entries_ok next entry E" "\<And>k. entry k \<noteq> Some i"
  shows "count (image_mset snd E) i = 0"
proof -
  have "i \<notin># image_mset snd E" using assms by (auto simp: entries_ok_def)
  then show ?thesis by (simp only: not_in_iff)
qed

lemma table_ok_register:
  assumes ok: "table_ok l E H" and r: "register_lock k l = (i, l')"
  shows "table_ok l' (add_mset (k, i) E) H"
proof (cases "lt_entry l k")
  case None
  have ent: "entries_ok (lt_next l) (lt_entry l) E" using ok by (simp add: table_ok_def)
  have zero: "count (image_mset snd E) (lt_next l) = 0"
    by (rule entries_count_zero [OF ent]) (use ent in \<open>auto simp: entries_ok_def\<close>)
  have l': "i = lt_next l"
      "l' = l\<lparr>lt_entry := (lt_entry l)(k \<mapsto> i), lt_next := i + 1,
             lt_references := (lt_references l)(i := 1), lt_lock := (lt_lock l)(i := None)\<rparr>"
    using r None by (auto simp: register_lock_def)
  have "refs_ok (lt_references l') (add_mset (k, i) E)"
    using ok zero by (simp add: table_ok_def refs_ok_def l')
  moreover have "entries_ok (lt_next l') (lt_entry l') (add_mset (k, i) E)"
    using ent None unfolding entries_ok_def l' by (simp add: less_Suc_eq) blast
  moreover have "lt_lock l' = lt_lock l" using ok by (auto simp: table_ok_def l')
  ultimately show ?thesis using ok by (simp add: table_ok_def l')
next
  case (Some j)
  have "refs_ok ((lt_references l)(j := lt_references l j + 1)) (add_mset (k, j) E)"
    using ok by (simp add: table_ok_def refs_ok_def)
  moreover have "entries_ok (lt_next l) (lt_entry l) (add_mset (k, j) E)"
    using ok Some by (auto simp: table_ok_def entries_ok_def)
  ultimately show ?thesis using ok r Some by (auto simp: table_ok_def register_lock_def)
qed

lemma table_ok_unregister:
  assumes ok: "table_ok l E H" and e: "(k, i) \<in># E"
  shows "table_ok (unregister_lock k i l) (E - {#(k, i)#}) H"
proof -
  obtain E' where E: "E = add_mset (k, i) E'" using e by (metis insert_DiffM)
  have ent: "entries_ok (lt_next l) (lt_entry l) E" using ok by (simp add: table_ok_def)
  then have entry: "lt_entry l k = Some i" using e by (simp add: entries_ok_def)
  have refs: "lt_references l j = count (image_mset snd E') j + of_bool (j = i)" for j
    using ok by (simp add: table_ok_def refs_ok_def E)
  have only: "k' = k" if "(k', i) \<in># E'" for k'
  proof -
    have "lt_entry l k' = Some i" using ent that by (auto simp: entries_ok_def E)
    with ent entry show ?thesis unfolding entries_ok_def by blast
  qed
  have last: "count (image_mset snd E') i = 0 \<longleftrightarrow> (k, i) \<notin># E'"
    using only by (force simp: not_in_iff [symmetric])
  have "entries_ok (lt_next l) (lt_entry (unregister_lock k i l)) E'"
  proof (cases "(k, i) \<in># E'")
    case True
    then have "count (image_mset snd E') i \<noteq> 0" using last by blast
    then have "lt_entry (unregister_lock k i l) = lt_entry l" using refs [of i]
      by (simp add: unregister_lock_def count_eq_zero_iff)
    moreover have "(k', i') \<in># E' \<longleftrightarrow> (k', i') \<in># E" for k' i' using True by (auto simp: E)
    ultimately show ?thesis using ent by (simp add: entries_ok_def)
  next
    case False
    have same: "(k', i') \<in># E' \<longleftrightarrow> lt_entry l k' = Some i' \<and> (k', i') \<noteq> (k, i)" for k' i'
      using ent False by (auto simp: entries_ok_def E)
    have "lt_entry (unregister_lock k i l) = (lt_entry l)(k := None)"
      using last False refs [of i] entry by (simp add: unregister_lock_def)
    then show ?thesis using ent entry by (auto simp: entries_ok_def same)
  qed
  moreover have "refs_ok (lt_references (unregister_lock k i l)) E'"
    by (simp add: refs_ok_def unregister_lock_def refs)
  ultimately show ?thesis using ok by (simp add: table_ok_def unregister_lock_def E)
qed

lemma table_ok_acquire:
  assumes ok: "table_ok l E H" and a: "acquire_lock t k i l = Some (outermost, l')" and e: "(k, i) \<in># E"
  shows "table_ok l' E (H(t := add_mset (k, i) (H t)))"
proof -
  let ?H = "H(t := add_mset (k, i) (H t))"
  have i: "i < lt_next l" using ok e by (auto simp: table_ok_def entries_ok_def)
  define n where "n = lock_depth (lt_lock l i) t + 1"
  have n: "lock_depth (lt_lock l i) t' = (if t' = t then n - 1 else 0)" "n > 0" for t'
    using a by (auto simp: n_def acquire_lock_def lock_depth_def split: option.splits if_splits prod.splits)
  have l': "l' = l\<lparr>lt_lock := (lt_lock l)(i \<mapsto> (t, n)),
        lt_counts := (lt_counts l)(t := (lt_counts l t)(k := lt_counts l t k + 1))\<rparr>"
    using a by (auto simp: n_def acquire_lock_def lock_depth_def split: option.splits if_splits prod.splits)
  have locks: "count (image_mset snd (H t')) j = lock_depth (lt_lock l j) t'" for t' j
    using ok by (simp add: table_ok_def locks_ok_def)
  have "locks_ok (lt_lock l') ?H"
    unfolding locks_ok_def
  proof (intro conjI allI impI)
    fix j t'
    show "count (image_mset snd (?H t')) j = lock_depth (lt_lock l' j) t'"
      using n by (auto simp: l' locks lock_depth_def)
  next
    fix j t' m assume "lt_lock l' j = Some (t', m)"
    then show "m > 0" using ok n by (auto simp: l' table_ok_def locks_ok_def split: if_splits)
  qed
  moreover have "counts_ok (lt_counts l') ?H" using ok by (simp add: table_ok_def counts_ok_def l')
  ultimately show ?thesis using ok i by (simp add: table_ok_def l')
qed

lemma table_ok_release:
  assumes ok: "table_ok l E H" and h: "(k, i) \<in># H t"
  shows "table_ok (release_lock t k i l) E (H(t := H t - {#(k, i)#}))"
proof -
  obtain H' where H: "H t = add_mset (k, i) H'" using h by (metis insert_DiffM)
  let ?H = "H(t := H')"
  have locks: "count (image_mset snd (H t')) j = lock_depth (lt_lock l j) t'" for t' j
    using ok by (simp add: table_ok_def locks_ok_def)
  define c where "c = count (image_mset snd H') i"
  have "lock_depth (lt_lock l i) t = c + 1" using locks [of t i] H by (simp add: c_def)
  then have lock: "lt_lock l i = Some (t, c + 1)"
    by (auto simp: lock_depth_def split: option.splits if_splits)
  have lock': "lt_lock (release_lock t k i l) = (lt_lock l)(i := (if c = 0 then None else Some (t, c)))"
    using lock by (simp add: release_lock_def)
  have "locks_ok (lt_lock (release_lock t k i l)) ?H"
    unfolding locks_ok_def
  proof (intro conjI allI impI)
    fix j t'
    show "count (image_mset snd (?H t')) j = lock_depth (lt_lock (release_lock t k i l) j) t'"
      using locks [of t' j] H lock c_def by (auto simp: lock' lock_depth_def)
  next
    fix j t' m assume "lt_lock (release_lock t k i l) j = Some (t', m)"
    then show "m > 0" using ok by (auto simp: lock' table_ok_def locks_ok_def split: if_splits)
  qed
  moreover have "counts_ok (lt_counts (release_lock t k i l)) ?H"
    using ok H by (simp add: table_ok_def counts_ok_def release_lock_def)
  moreover have "\<forall>j \<ge> lt_next l. lt_lock (release_lock t k i l) j = None"
    using ok lock by (auto simp: table_ok_def lock')
  ultimately show ?thesis using ok by (simp add: table_ok_def H) (simp add: release_lock_def)
qed

subsection \<open>Activations\<close>

definition pending :: "stage \<Rightarrow> (string \<times> nat) multiset" where
  "pending st = (case st of Registered k i ks \<Rightarrow> {#(k, i)#} | Refusing k i \<Rightarrow> {#(k, i)#} | Dropping k i \<Rightarrow> {#(k, i)#} | _ \<Rightarrow> {#})"

lemma pending_simps [simp]:
  "pending (Take ks) = {#}" "pending (Registered k i ks) = {#(k, i)#}" "pending (Refusing k i) = {#(k, i)#}"
  "pending (Fence ks) = {#}" "pending (Inside b) = {#}" "pending Unwind = {#}" "pending (Dropping k i) = {#(k, i)#}"
  by (simp_all add: pending_def)

definition references :: "activation list \<Rightarrow> (string \<times> nat) multiset" where
  "references acts = sum_list (map (\<lambda>a. mset (ac_held a) + pending (ac_stage a)) acts)"

definition held_by :: "activation list \<Rightarrow> nat \<Rightarrow> (string \<times> nat) multiset" where
  "held_by acts t = sum_list (map (\<lambda>a. if ac_thread a = t then mset (ac_held a) else {#}) acts)"

definition fenced_hashes :: "(string \<Rightarrow> int) \<Rightarrow> activation list \<Rightarrow> int multiset" where
  "fenced_hashes h acts = sum_list (map (\<lambda>a. mset (map h (ac_fenced a))) acts)"

lemma references_simps [simp]:
  "references [] = {#}" "references (a # as) = mset (ac_held a) + pending (ac_stage a) + references as"
  "references (as @ bs) = references as + references bs"
  by (simp_all add: references_def)

lemma held_by_simps [simp]:
  "held_by [] t = {#}" "held_by (a # as) t = (if ac_thread a = t then mset (ac_held a) else {#}) + held_by as t"
  "held_by (as @ bs) t = held_by as t + held_by bs t"
  by (simp_all add: held_by_def)

lemma fenced_hashes_simps [simp]:
  "fenced_hashes h [] = {#}" "fenced_hashes h (a # as) = mset (map h (ac_fenced a)) + fenced_hashes h as"
  "fenced_hashes h (as @ bs) = fenced_hashes h as + fenced_hashes h bs"
  by (simp_all add: fenced_hashes_def)

text \<open>What an activation says of its own keys.\<close>

definition activation_ok :: "bool \<Rightarrow> activation \<Rightarrow> bool" where
  "activation_ok fenced a \<longleftrightarrow>
     distinct (ac_keys a) \<and>
     (ac_stage a \<noteq> Inside False \<and> ac_stage a \<noteq> Unwind \<and> (\<forall>k i. ac_stage a \<noteq> Refusing k i \<and> ac_stage a \<noteq> Dropping k i) \<longrightarrow>
        (\<forall>x \<in> set (ac_held a). is_sync_key (fst x) \<longrightarrow> fst x \<in> set (ac_outer a))) \<and>
     (case ac_stage a of
        Take ks \<Rightarrow> rev (map fst (ac_held a)) @ ks = ac_keys a \<and> ac_fenced a = []
      | Registered k i ks \<Rightarrow> rev (map fst (ac_held a)) @ k # ks = ac_keys a \<and> ac_fenced a = []
      | Fence ks \<Rightarrow> rev (map fst (ac_held a)) = ac_keys a \<and> rev (ac_fenced a) @ ks = ac_outer a
      | Inside b \<Rightarrow> b \<longrightarrow> rev (map fst (ac_held a)) = ac_keys a \<and> (fenced \<longrightarrow> rev (ac_fenced a) = ac_outer a)
      | _ \<Rightarrow> True)"

definition fences_ok :: "(string \<Rightarrow> int) \<Rightarrow> lock_table \<Rightarrow> activation list \<Rightarrow> bool" where
  "fences_ok h l acts \<longleftrightarrow> (\<forall>n. count (fenced_hashes h acts) n = of_bool (lt_fence l n = Some Ours))"

definition table_for :: "lock_table \<Rightarrow> activation list \<Rightarrow> bool" where
  "table_for l acts \<longleftrightarrow> table_ok l (references acts) (held_by acts)"

text \<open>One region of the activation \<open>a\<close> among the others.\<close>

abbreviation remaining :: "activation option \<Rightarrow> activation list" where
  "remaining r \<equiv> (case r of None \<Rightarrow> [] | Some a \<Rightarrow> [a])"

lemma advance_thread: "advance fenced h l a = (l', Some a') \<Longrightarrow> ac_thread a' = ac_thread a \<and> ac_keys a' = ac_keys a"
  by (auto simp: advance.simps Let_def split: stage.splits list.splits option.splits prod.splits)

lemma held_by_advance:
  assumes "ac_thread a = t"
  shows "held_by (pre @ a # post) = (held_by (pre @ post))(t := mset (ac_held a) + held_by (pre @ post) t)"
  using assms by auto

lemma table_for_advance:
  assumes ok: "table_for l (pre @ a # post)" and adv: "advance fenced h l a = (l', r)"
  shows "table_for l' (pre @ remaining r @ post)"
proof -
  let ?E = "references (pre @ post)" and ?H = "held_by (pre @ post)" and ?t = "ac_thread a"
  have ok': "table_ok l (mset (ac_held a) + pending (ac_stage a) + ?E) (?H(?t := mset (ac_held a) + ?H ?t))"
    using ok by (simp only: table_for_def held_by_advance [OF refl]) (simp add: ac_simps)
  have goal: "table_for l2 (pre @ a' # post)"
    if "table_ok l2 (mset (ac_held a') + pending (ac_stage a') + ?E) (?H(?t := mset (ac_held a') + ?H ?t))"
      "ac_thread a' = ?t" for a' l2
    using that held_by_advance [of a' ?t pre post] by (simp only: table_for_def) (simp add: ac_simps)
  have fence: "table_ok (l\<lparr>lt_fence := f\<rparr>) E H = table_ok l E H" for f E H by (simp add: table_ok_def)
  show ?thesis
  proof (cases "ac_stage a")
    case (Take ks)
    show ?thesis
    proof (cases ks)
      case Nil
      with Take adv ok' show ?thesis by (auto simp: advance.simps intro!: goal split: if_splits)
    next
      case (Cons k ks')
      obtain i l1 where reg: "register_lock k l = (i, l1)" by (cases "register_lock k l")
      from table_ok_register [OF ok' reg] adv Take Cons reg show ?thesis
        by (auto simp: advance.simps intro!: goal)
    qed
  next
    case (Registered k i ks)
    show ?thesis
    proof (cases "acquire_lock ?t k i l")
      case None
      with Registered adv ok' show ?thesis by (auto simp: advance.simps intro!: goal)
    next
      case (Some p)
      obtain outermost l1 where p: "p = (outermost, l1)" by (cases p)
      from table_ok_acquire [OF ok' Some [unfolded p]] Some p Registered adv show ?thesis
        by (auto simp: advance.simps Let_def intro!: goal)
    qed
  next
    case (Refusing k i)
    from table_ok_unregister [OF ok', of k i] Refusing adv show ?thesis
      by (auto simp: advance.simps intro!: goal)
  next
    case (Fence ks)
    with adv ok' show ?thesis
      by (cases ks) (auto simp: advance.simps fence intro!: goal split: option.splits)
  next
    case (Inside b)
    with adv ok' show ?thesis by (auto simp: advance.simps intro!: goal)
  next
    case Unwind
    show ?thesis
    proof (cases "ac_fenced a")
      case (Cons k ks)
      with Unwind adv ok' show ?thesis by (auto simp: advance.simps fence intro!: goal)
    next
      case Nil
      show ?thesis
      proof (cases "ac_held a")
        case none: Nil
        have "table_for l (pre @ post)"
          using ok' none Unwind by (simp add: table_for_def fun_upd_idem)
        with Nil none Unwind adv show ?thesis by (auto simp: advance.simps)
      next
        case (Cons x held)
        obtain k i where x: "x = (k, i)" by (cases x)
        from table_ok_release [OF ok', of k i ?t] Nil Cons x Unwind adv show ?thesis
          by (auto simp: advance.simps intro!: goal)
      qed
    qed
  next
    case (Dropping k i)
    from table_ok_unregister [OF ok', of k i] Dropping adv show ?thesis
      by (auto simp: advance.simps intro!: goal)
  qed
qed

text \<open>The fences of the database: those of this process belong to the activations.\<close>

lemma fences_advance:
  assumes ok: "fences_ok h l (pre @ a # post)" and adv: "advance fenced h l a = (l', r)"
  shows "fences_ok h l' (pre @ remaining r @ post)"
proof -
  let ?F = "fenced_hashes h (pre @ post)"
  have ok': "count (mset (map h (ac_fenced a)) + ?F) n = of_bool (lt_fence l n = Some Ours)" for n
    using ok by (simp add: fences_ok_def ac_simps)
  have goal: "fences_ok h l2 (pre @ a' # post)"
    if "\<And>n. count (mset (map h (ac_fenced a')) + ?F) n = of_bool (lt_fence l2 n = Some Ours)" for a' l2
    using that by (simp add: fences_ok_def ac_simps)
  have keep: "fences_ok h l2 (pre @ a' # post)" if "lt_fence l2 = lt_fence l" "ac_fenced a' = ac_fenced a" for a' l2
    by (rule goal) (use ok' that in simp)
  have tables: "lt_fence (snd (register_lock k l)) = lt_fence l" "lt_fence (unregister_lock k i l) = lt_fence l"
    "lt_fence (release_lock t k i l) = lt_fence l" for k i t
    by (simp_all add: register_lock_def unregister_lock_def release_lock_def split: option.splits)
  have acq: "acquire_lock t k i l = Some (out, l2) \<Longrightarrow> lt_fence l2 = lt_fence l" for t k i out l2
    by (auto simp: acquire_lock_def split: option.splits)
  show ?thesis
  proof (cases "ac_stage a")
    case (Take ks)
    with adv show ?thesis
      using tables(1) by (cases ks) (auto simp: advance.simps intro!: keep split: prod.splits if_splits, metis snd_conv)
  next
    case (Registered k i ks)
    with adv show ?thesis by (auto simp: advance.simps Let_def intro!: keep dest: acq split: option.splits prod.splits)
  next
    case (Fence ks)
    show ?thesis
    proof (cases ks)
      case Nil
      with Fence adv show ?thesis by (auto simp: advance.simps intro!: keep)
    next
      case (Cons k ks')
      show ?thesis
      proof (cases "lt_fence l (h k)")
        case None
        have "count (mset (map h (k # ac_fenced a)) + ?F) n = of_bool (((lt_fence l)(h k \<mapsto> Ours)) n = Some Ours)" for n
          using ok' [of n] None by auto
        with Fence Cons None adv show ?thesis by (auto simp: advance.simps intro!: goal)
      next
        case (Some owner)
        with Fence Cons adv show ?thesis by (auto simp: advance.simps intro!: keep)
      qed
    qed
  next
    case Unwind
    show ?thesis
    proof (cases "ac_fenced a")
      case (Cons k ks)
      have "count (mset (map h ks) + ?F) n = of_bool (((lt_fence l)(h k := None)) n = Some Ours)" for n
        using ok' [of n] Cons by (cases "lt_fence l n = Some Ours"; cases "n = h k") auto
      with Unwind Cons adv show ?thesis by (auto simp: advance.simps intro!: goal)
    next
      case Nil
      have "fences_ok h l (pre @ post)" using ok Nil by (simp add: fences_ok_def)
      with Unwind Nil adv show ?thesis
        using tables(3) by (auto simp: advance.simps intro!: keep split: list.splits)
    qed
  qed (use adv tables in \<open>auto simp: advance.simps intro!: keep\<close>)
qed

lemma activation_advance:
  assumes "activation_ok fenced a" "advance fenced h l a = (l', Some a')"
  shows "activation_ok fenced a'"
  using assms
  by (cases "ac_stage a")
    (auto simp: activation_ok_def advance.simps Let_def split: list.splits option.splits prod.splits if_splits)

lemma activation_new: "activation_ok fenced (new_activation t keys)"
  by (simp add: activation_ok_def new_activation_def ordered_keys_def distinct_sort)

lemma advance_innermost_cases:
  assumes "advance_innermost fenced h t l acts = (l', acts')"
  obtains (idle) "l' = l" "acts' = acts" "\<And>a. a \<in> set acts \<Longrightarrow> ac_thread a \<noteq> t"
  | (step) pre a post r where "acts = pre @ a # post" "ac_thread a = t" "\<And>b. b \<in> set pre \<Longrightarrow> ac_thread b \<noteq> t"
      "advance fenced h l a = (l', r)" "acts' = pre @ remaining r @ post"
  using assms
proof (induction acts arbitrary: acts' thesis)
  case Nil
  then show ?case by simp
next
  case (Cons a as)
  show ?case
  proof (cases "ac_thread a = t")
    case True
    obtain l1 r where adv: "advance fenced h l a = (l1, r)" by (cases "advance fenced h l a")
    with True Cons.prems(3) have "l1 = l'" "acts' = remaining r @ as"
      by (auto split: option.splits)
    with True adv show ?thesis using Cons.prems(2) [of "[]" a as r] by simp
  next
    case False
    obtain as' where rec: "advance_innermost fenced h t l as = (l', as')" and acts': "acts' = a # as'"
      using False Cons.prems(3) by (auto split: prod.splits)
    show ?thesis
    proof (rule Cons.IH [OF _ _ rec])
      assume "l' = l" "as' = as" "\<And>b. b \<in> set as \<Longrightarrow> ac_thread b \<noteq> t"
      with False acts' show ?thesis using Cons.prems(1) by auto
    next
      fix pre b post r
      assume "as = pre @ b # post" "ac_thread b = t" "\<And>c. c \<in> set pre \<Longrightarrow> ac_thread c \<noteq> t"
        "advance fenced h l b = (l', r)" "as' = pre @ remaining r @ post"
      with False acts' show ?thesis using Cons.prems(2) [of "a # pre" b post r] by auto
    qed
  qed
qed

text \<open>How the guards of one thread nest.\<close>

definition holds_key :: "string \<Rightarrow> activation \<Rightarrow> bool" where
  "holds_key k a \<longleftrightarrow> k \<in> fst ` set (ac_held a)"

primrec nest_ok :: "activation list \<Rightarrow> bool" where
  "nest_ok [] = True"
| "nest_ok (a # as) =
     (nest_ok as \<and>
      (let mine = filter (\<lambda>b. ac_thread b = ac_thread a) as in
         (\<forall>b \<in> set mine. ac_stage b = Inside True) \<and>
         (\<forall>k. holds_key k a \<longrightarrow> (\<exists>b \<in> set (a # mine). k \<in> set (ac_outer b))) \<and>
         (\<forall>k \<in> set (ac_outer a). \<forall>b \<in> set mine. \<not> holds_key k b)))"

lemma nest_ok_suffix: "nest_ok (pre @ as) \<Longrightarrow> nest_ok as"
  by (induction pre) auto

lemma nest_ok_outer:
  "nest_ok as \<Longrightarrow> b \<in> set as \<Longrightarrow> holds_key k b \<Longrightarrow> \<exists>c \<in> set as. ac_thread c = ac_thread b \<and> k \<in> set (ac_outer c)"
  by (induction as) (auto simp: Let_def)

lemma nest_ok_replace:
  assumes "nest_ok (pre @ a # post)" "\<And>b. b \<in> set pre \<Longrightarrow> ac_thread b \<noteq> ac_thread a"
    "nest_ok (remaining r @ post)" "\<And>a'. r = Some a' \<Longrightarrow> ac_thread a' = ac_thread a"
  shows "nest_ok (pre @ remaining r @ post)"
  using assms(1,2)
proof (induction pre)
  case Nil
  with assms(3) show ?case by simp
next
  case (Cons b pre)
  have other: "ac_thread a \<noteq> ac_thread b" using Cons.prems(2) [of b] by auto
  have "filter (\<lambda>c. ac_thread c = ac_thread b) (pre @ remaining r @ post)
      = filter (\<lambda>c. ac_thread c = ac_thread b) (pre @ a # post)"
  proof (cases r)
    case (Some a')
    with assms(4) [OF Some] other show ?thesis by simp
  qed (use other in simp)
  moreover have "nest_ok (pre @ remaining r @ post)" using Cons by simp
  ultimately show ?case using Cons.prems(1) by (simp only: append_Cons nest_ok.simps)
qed

lemma may_enter_inside:
  "nest_ok acts \<Longrightarrow> may_enter t acts \<Longrightarrow> b \<in> set acts \<Longrightarrow> ac_thread b = t \<Longrightarrow> ac_stage b = Inside True"
  by (induction acts) (auto simp: may_enter_def Let_def split: if_splits)

lemma held_key_count:
  "count (image_mset fst (held_by acts t)) k = 0 \<longleftrightarrow> (\<forall>b \<in> set acts. ac_thread b = t \<longrightarrow> \<not> holds_key k b)"
  by (induction acts) (auto simp: holds_key_def count_eq_zero_iff)

lemma nest_advance:
  assumes nest: "nest_ok (pre @ a # post)" and pre: "\<And>b. b \<in> set pre \<Longrightarrow> ac_thread b \<noteq> ac_thread a"
    and act: "activation_ok fenced a" and table: "table_for l (pre @ a # post)"
    and adv: "advance fenced h l a = (l', r)"
  shows "nest_ok (pre @ remaining r @ post)"
proof (rule nest_ok_replace [OF nest pre])
  show "ac_thread a' = ac_thread a" if "r = Some a'" for a'
    using advance_thread [OF adv [unfolded that]] by simp
  have nest': "nest_ok (a # post)" by (rule nest_ok_suffix [OF nest])
  have keep: "nest_ok (a' # post)"
    if "ac_thread a' = ac_thread a" "set (ac_held a') \<subseteq> set (ac_held a)" "ac_outer a' = ac_outer a" for a'
    using nest' that by (auto simp: holds_key_def Let_def)
  show "nest_ok (remaining r @ post)"
  proof (cases "ac_stage a")
    case (Registered k i ks)
    show ?thesis
    proof (cases "acquire_lock (ac_thread a) k i l")
      case None
      with Registered adv show ?thesis by (auto simp: advance.simps simp del: nest_ok.simps intro!: keep)
    next
      case (Some p)
      obtain outermost l1 where p: "p = (outermost, l1)" by (cases p)
      have out: "outermost \<longleftrightarrow> lt_counts l (ac_thread a) k = 0"
        using Some p by (auto simp: acquire_lock_def split: option.splits)
      have counts: "lt_counts l (ac_thread a) k = count (image_mset fst (held_by (pre @ a # post) (ac_thread a))) k"
        using table by (simp add: table_for_def table_ok_def counts_ok_def)
      have "distinct (rev (map fst (ac_held a)) @ k # ks)" using act Registered by (simp add: activation_ok_def)
      then have mine: "\<not> holds_key k a" by (simp add: holds_key_def)
      have outer: "outermost \<longleftrightarrow> (\<forall>b \<in> set post. ac_thread b = ac_thread a \<longrightarrow> \<not> holds_key k b)"
        unfolding out counts held_key_count using mine pre by auto
      let ?a = "a\<lparr>ac_held := (k, i) # ac_held a, ac_outer := (if outermost then ac_outer a @ [k] else ac_outer a),
          ac_stage := (if \<not> outermost \<and> is_sync_key k then Inside False else Take ks)\<rparr>"
      have r: "r = Some ?a" using adv Registered Some p by (simp add: advance.simps Let_def)
      let ?mine = "filter (\<lambda>b. ac_thread b = ac_thread a) post"
      have "\<exists>b \<in> set (?a # ?mine). k' \<in> set (ac_outer b)" if k': "holds_key k' ?a" for k'
      proof (cases "k' = k \<and> \<not> outermost")
        case True
        then obtain b where "b \<in> set post" "ac_thread b = ac_thread a" "holds_key k b" using outer by blast
        with nest_ok_outer [of post b k] nest' True show ?thesis by auto
      next
        case False
        show ?thesis
        proof (cases "k' = k")
          case False
          with k' have "holds_key k' a" by (simp add: holds_key_def)
          with nest' show ?thesis by (auto simp: Let_def)
        qed (use False in simp)
      qed
      moreover have "\<not> holds_key k' b" if "k' \<in> set (ac_outer ?a)" "b \<in> set ?mine" for k' b
        using that nest' outer by (auto simp: Let_def split: if_splits)
      ultimately have "nest_ok (?a # post)" using nest' by (auto simp: Let_def)
      with r show ?thesis by simp
    qed
  next
    case Unwind
    moreover have "nest_ok post" using nest' by simp
    ultimately show ?thesis using adv
      by (auto simp: advance.simps simp del: nest_ok.simps intro!: keep split: list.splits)
  qed (use adv in \<open>auto simp: advance.simps simp del: nest_ok.simps intro!: keep split: list.splits prod.splits option.splits\<close>)
qed

subsection \<open>Every run\<close>

definition lock_inv :: "bool \<Rightarrow> (string \<Rightarrow> int) \<Rightarrow> lock_system \<Rightarrow> bool" where
  "lock_inv fenced h s \<longleftrightarrow>
     table_for (ls_table s) (ls_active s) \<and> fences_ok h (ls_table s) (ls_active s) \<and>
     (\<forall>a \<in> set (ls_active s). activation_ok fenced a) \<and> nest_ok (ls_active s)"

lemma lock_inv_exec:
  assumes inv: "lock_inv fenced h s"
  shows "lock_inv fenced h (lock_exec fenced h x s)"
proof (cases x)
  case (Enter t keys)
  have held: "ac_held (new_activation t keys) = []" "ac_outer (new_activation t keys) = []"
    "ac_fenced (new_activation t keys) = []" "ac_thread (new_activation t keys) = t"
    "ac_stage (new_activation t keys) = Take (ordered_keys keys)" for t keys
    by (simp_all add: new_activation_def)
  have same: "held_by (new_activation t keys # ls_active s) = held_by (ls_active s)"
    by (rule ext) (simp add: held)
  with inv show ?thesis
    using may_enter_inside [of "ls_active s" t] activation_new [of fenced t keys]
    by (auto simp: Enter lock_inv_def table_for_def fences_ok_def held same holds_key_def Let_def)
next
  case (Advance t)
  obtain l' acts' where adv: "advance_innermost fenced h t (ls_table s) (ls_active s) = (l', acts')" by (metis surj_pair)
  then have s': "lock_exec fenced h x s = \<lparr>ls_table = l', ls_active = acts'\<rparr>" by (simp add: Advance)
  from adv show ?thesis
  proof (cases rule: advance_innermost_cases)
    case idle
    with inv show ?thesis by (simp add: s' lock_inv_def)
  next
    case (step pre a post r)
    have act: "activation_ok fenced a" using inv step(1) by (simp add: lock_inv_def)
    have "table_for l' acts'"
      using table_for_advance [OF _ step(4)] inv step(1,5) by (simp add: lock_inv_def)
    moreover have "fences_ok h l' acts'"
      using fences_advance [OF _ step(4)] inv step(1,5) by (simp add: lock_inv_def)
    moreover have "\<forall>b \<in> set acts'. activation_ok fenced b"
      using inv step(1,5) activation_advance [OF act] step(4) by (auto simp: lock_inv_def split: option.splits)
    moreover have "nest_ok acts'"
      unfolding step(5)
      by (rule nest_advance [OF _ _ act _ step(4)]) (use inv step in \<open>auto simp: lock_inv_def\<close>)
    ultimately show ?thesis by (simp add: s' lock_inv_def)
  qed
next
  case (Foreign_Takes n)
  with inv show ?thesis by (auto simp: lock_inv_def table_for_def table_ok_def fences_ok_def)
next
  case (Foreign_Frees n)
  with inv show ?thesis by (auto simp: lock_inv_def table_for_def table_ok_def fences_ok_def)
qed

lemma lock_inv_run: "lock_inv fenced h (lock_run fenced h steps)"
proof (induction steps rule: rev_induct)
  case Nil
  show ?case
    by (simp add: lock_run_def lock_inv_def table_for_def table_ok_def refs_ok_def entries_ok_def locks_ok_def
        counts_ok_def fences_ok_def no_locks_def lock_depth_def)
next
  case (snoc x steps)
  then show ?case using lock_inv_exec by (simp add: lock_run_def)
qed

lemma inside_holds:
  assumes "lock_inv fenced h s" "a \<in> set (ls_active s)" "ac_stage a = Inside True" "k \<in> set (ac_keys a)"
  obtains i where "(k, i) \<in> set (ac_held a)" "is_sync_key k \<Longrightarrow> k \<in> set (ac_outer a)"
    "fenced \<Longrightarrow> set (ac_outer a) = set (ac_fenced a)"
proof -
  have ok: "activation_ok fenced a" using assms by (simp add: lock_inv_def)
  with assms(3) have "rev (map fst (ac_held a)) = ac_keys a" by (simp add: activation_ok_def)
  with assms(4) have "k \<in> set (map fst (ac_held a))" by (metis set_rev)
  then obtain i where i: "(k, i) \<in> set (ac_held a)" by auto
  have "fenced \<Longrightarrow> set (ac_outer a) = set (ac_fenced a)"
    using ok assms(3) by (simp add: activation_ok_def) (metis set_rev)
  with i ok assms(3) show thesis by (intro that [OF i]) (auto simp: activation_ok_def)
qed

lemma held_reference: "a \<in> set acts \<Longrightarrow> (k, i) \<in> set (ac_held a) \<Longrightarrow> (k, i) \<in># references acts"
  by (induction acts) auto

lemma held_member: "a \<in> set acts \<Longrightarrow> (k, i) \<in> set (ac_held a) \<Longrightarrow> (k, i) \<in># held_by acts (ac_thread a)"
  by (induction acts) auto

lemma fenced_member: "a \<in> set acts \<Longrightarrow> k \<in> set (ac_fenced a) \<Longrightarrow> h k \<in># fenced_hashes h acts"
  by (induction acts) auto

lemma same_thread:
  assumes "table_for l acts" "a \<in> set acts" "b \<in> set acts" "(k, i) \<in> set (ac_held a)" "(k, j) \<in> set (ac_held b)"
  shows "ac_thread a = ac_thread b"
proof -
  have ent: "entries_ok (lt_next l) (lt_entry l) (references acts)" and locks: "locks_ok (lt_lock l) (held_by acts)"
    using assms(1) by (simp_all add: table_for_def table_ok_def)
  have "lt_entry l k = Some i" "lt_entry l k = Some j"
    using ent held_reference [OF assms(2,4)] held_reference [OF assms(3,5)] by (auto simp: entries_ok_def)
  then have "j = i" by simp
  have "lock_depth (lt_lock l i) (ac_thread c) \<noteq> 0" if "c \<in> set acts" "(k, i) \<in> set (ac_held c)" for c
  proof -
    have "(k, i) \<in># held_by acts (ac_thread c)" by (rule held_member [OF that])
    then have "count (image_mset snd (held_by acts (ac_thread c))) i \<noteq> 0" by (force simp: count_eq_zero_iff)
    with locks show ?thesis by (simp add: locks_ok_def)
  qed
  from this [OF assms(2,4)] this [OF assms(3) assms(5) [unfolded \<open>j = i\<close>]] show ?thesis
    by (auto simp: lock_depth_def split: option.splits if_splits)
qed

subsection \<open>Properties\<close>

text \<open>
  C3: Two guards with a key in common are never both inside their bodies on two threads; and
  two guards of one group synchronisation never are at all, not even nested on one thread.
\<close>

theorem fences_exclude:
  assumes "ls_active (lock_run fenced h steps) = pre @ a # mid @ b # post"
    and "ac_stage a = Inside True" "ac_stage b = Inside True" "k \<in> set (ac_keys a)" "k \<in> set (ac_keys b)"
  shows "ac_thread a = ac_thread b \<and> \<not> is_sync_key k"
proof -
  let ?s = "lock_run fenced h steps"
  have inv: "lock_inv fenced h ?s" by (rule lock_inv_run)
  have in_a: "a \<in> set (ls_active ?s)" and in_b: "b \<in> set (ls_active ?s)" using assms(1) by simp_all
  obtain i where i: "(k, i) \<in> set (ac_held a)" "is_sync_key k \<Longrightarrow> k \<in> set (ac_outer a)"
    by (rule inside_holds [OF inv in_a assms(2,4)]) (blast intro: that)
  obtain j where j: "(k, j) \<in> set (ac_held b)" by (rule inside_holds [OF inv in_b assms(3,5)]) (blast intro: that)
  have thread: "ac_thread a = ac_thread b"
    by (rule same_thread [OF _ in_a in_b i(1) j, of "ls_table ?s"]) (use inv in \<open>simp add: lock_inv_def\<close>)
  have "nest_ok (a # mid @ b # post)"
    using inv assms(1) nest_ok_suffix [of pre "a # mid @ b # post"] by (simp add: lock_inv_def del: nest_ok.simps)
  then have "k \<in> set (ac_outer a) \<Longrightarrow> \<not> holds_key k b" using thread by (auto simp: Let_def)
  then have "\<not> is_sync_key k" using i(2) j by (force simp: holds_key_def)
  with thread show ?thesis by simp
qed

text \<open>
  C4: While a guard is inside its body, this process holds the advisory lock of each of its
  keys, also of those a guard around it took: so no other process is inside a guard with the key.
\<close>

theorem fences_cover_database:
  assumes "a \<in> set (ls_active (lock_run True h steps))" "ac_stage a = Inside True" "k \<in> set (ac_keys a)"
  shows "lt_fence (ls_table (lock_run True h steps)) (h k) = Some Ours"
proof -
  let ?s = "lock_run True h steps"
  have inv: "lock_inv True h ?s" by (rule lock_inv_run)
  obtain i where i: "(k, i) \<in> set (ac_held a)" by (rule inside_holds [OF inv assms]) (blast intro: that)
  obtain pre post where acts: "ls_active ?s = pre @ a # post" using assms(1) by (meson split_list)
  have nest: "nest_ok (a # post)"
    using inv acts nest_ok_suffix [of pre "a # post"] by (simp add: lock_inv_def del: nest_ok.simps)
  have "holds_key k a" using i by (force simp: holds_key_def)
  with nest obtain b where b: "b \<in> set (a # post)" "b = a \<or> ac_thread b = ac_thread a" "k \<in> set (ac_outer b)"
    unfolding nest_ok.simps Let_def by fastforce
  have in_b: "b \<in> set (ls_active ?s)" using b(1) acts by auto
  have inside: "ac_stage b = Inside True" using nest b(1,2) assms(2) by (auto simp: Let_def)
  have "activation_ok True b" using inv in_b by (simp add: lock_inv_def)
  then have "set (ac_fenced b) = set (ac_outer b)" using inside by (simp add: activation_ok_def) (metis set_rev)
  with b(3) have "k \<in> set (ac_fenced b)" by simp
  then have "h k \<in># fenced_hashes h (ls_active ?s)" by (rule fenced_member [OF in_b])
  moreover have "count (fenced_hashes h (ls_active ?s)) (h k) = of_bool (lt_fence (ls_table ?s) (h k) = Some Ours)"
    using inv by (simp add: lock_inv_def fences_ok_def)
  ultimately show ?thesis by (cases "lt_fence (ls_table ?s) (h k) = Some Ours") (simp_all add: count_eq_zero_iff)
qed

text \<open>
  C39: When no guard is active, the table of locks is empty, no lock is held, no thread counts
  a key, and this process holds no advisory lock.
\<close>

theorem locks_drain:
  assumes "ls_active (lock_run fenced h steps) = []"
  shows "(\<forall>k. lt_entry (ls_table (lock_run fenced h steps)) k = None)
    \<and> (\<forall>i. lt_lock (ls_table (lock_run fenced h steps)) i = None)
    \<and> (\<forall>t k. lt_counts (ls_table (lock_run fenced h steps)) t k = 0)
    \<and> (\<forall>n. lt_fence (ls_table (lock_run fenced h steps)) n \<noteq> Some Ours)"
proof -
  let ?l = "ls_table (lock_run fenced h steps)"
  have ok: "table_ok ?l {#} (held_by [])" and fences: "fences_ok h ?l []"
    using lock_inv_run [of fenced h steps] assms by (simp_all add: lock_inv_def table_for_def)
  have "lt_entry ?l k = None" for k
    using ok by (cases "lt_entry ?l k") (auto simp: table_ok_def entries_ok_def)
  moreover have "lt_lock ?l i = None" for i
  proof (cases "lt_lock ?l i")
    case (Some p)
    then obtain t n where "lt_lock ?l i = Some (t, n)" by (cases p) auto
    moreover have "lock_depth (lt_lock ?l i) t = 0" "\<And>t n. lt_lock ?l i = Some (t, n) \<Longrightarrow> n > 0"
      using ok by (auto simp: table_ok_def locks_ok_def)
    ultimately show ?thesis by (auto simp: lock_depth_def)
  qed simp
  moreover have "lt_counts ?l t k = 0" for t k using ok by (simp add: table_ok_def counts_ok_def)
  moreover have "lt_fence ?l n \<noteq> Some Ours" for n using fences by (auto simp: fences_ok_def)
  ultimately show ?thesis by blast
qed

subsection \<open>Witnesses\<close>

text \<open>A guard of two keys, and one nested in it; another thread is refused.\<close>

definition sample_hash :: "string \<Rightarrow> int" where
  "sample_hash k = int (length k)"

definition nested_steps :: "lock_step list" where
  "nested_steps = Enter 1 ['' b'', ''aa'', [], ''b''] # replicate 8 (Advance 1) @ Enter 1 [''b''] # replicate 4 (Advance 1)
     @ Enter 2 [''aa''] # replicate 3 (Advance 2)"

definition outer_guard :: activation where
  "outer_guard = \<lparr>ac_thread = 1, ac_keys = [''aa'', ''b''], ac_held = [(''b'', 1), (''aa'', 0)],
     ac_outer = [''aa'', ''b''], ac_fenced = [''b'', ''aa''], ac_stage = Inside True\<rparr>"

definition inner_guard :: activation where
  "inner_guard = \<lparr>ac_thread = 1, ac_keys = [''b''], ac_held = [(''b'', 1)], ac_outer = [], ac_fenced = [],
     ac_stage = Inside True\<rparr>"

definition refused_guard :: activation where
  "refused_guard = \<lparr>ac_thread = 2, ac_keys = [''aa''], ac_held = [], ac_outer = [], ac_fenced = [],
     ac_stage = Inside False\<rparr>"

lemma nested_run: "ls_active (lock_run True sample_hash nested_steps) = [refused_guard, inner_guard, outer_guard]"
  by code_simp

lemma fences_exclude_witness: "ac_thread inner_guard = ac_thread outer_guard \<and> \<not> is_sync_key ''b''"
  by (rule fences_exclude [where fenced = True and h = sample_hash and steps = nested_steps
        and pre = "[refused_guard]" and mid = "[]" and post = "[]"])
    (simp_all add: nested_run inner_guard_def outer_guard_def)

lemma fences_cover_database_witness:
  "lt_fence (ls_table (lock_run True sample_hash nested_steps)) (sample_hash ''b'') = Some Ours"
  by (rule fences_cover_database [where a = inner_guard]) (simp_all add: nested_run inner_guard_def)

definition ended_steps :: "lock_step list" where
  "ended_steps = nested_steps @ replicate 2 (Advance 2) @ replicate 12 (Advance 1)"

lemma ended_run: "ls_active (lock_run True sample_hash ended_steps) = []"
  by code_simp

lemma locks_drain_witness: "lt_entry (ls_table (lock_run True sample_hash ended_steps)) ''b'' = None"
  using locks_drain [OF ended_run] by simp

end
