(* ===== verification/Check_Guard.thy ===== *)
theory Check_Guard
  imports Py_Values
begin

text \<open>
  The coordinator of the checks of the connected services (\<open>services/connection_check_guard.py\<close>): one
  check at a time, a recent result is reused.  Each region under the lock is one function; the
  callable that checks is known by a number (its identity), and what it returns or that it raised is
  the parameter of the step that ends it.  \<open>check_exec\<close> runs the regions of any number of threads in any
  order.
\<close>

type_synonym check_result = "pdict \<times> int"

record coordinator =
  ck_running :: bool
  ck_cached :: "check_result option"
  ck_completed_at :: rat
  ck_builder :: "nat option"
  ck_generation :: nat

definition new_coordinator :: coordinator where
  "new_coordinator = \<lparr>ck_running = False, ck_cached = None, ck_completed_at = 0, ck_builder = None, ck_generation = 0\<rparr>"

text \<open>\<open>max(1.0, min(configured, 300.0))\<close>; a text that is no number is a \<open>ValueError\<close>.\<close>

definition cooldown_seconds :: "exn + pyfloat \<Rightarrow> rat" where
  "cooldown_seconds configured =
     (case (case configured of Inl e \<Rightarrow> Fin 10 | Inr f \<Rightarrow> f) of
        Fin q \<Rightarrow> (let m = (if 300 < q then 300 else q) in if m > 1 then m else 1)
      | PosInf \<Rightarrow> 300
      | NegInf \<Rightarrow> 1
      | NaN \<Rightarrow> 1)"

definition check_busy :: check_result where
  "check_busy = ([(''success'', PBool False),
     (''message'', PStr (''Verifica dei servizi gi'' @ [CHR 0xE0] @ '' in corso''))], 409)"

datatype check_entry = Answer check_result | Start nat

definition enter_check :: "exn + pyfloat \<Rightarrow> rat \<Rightarrow> nat \<Rightarrow> coordinator \<Rightarrow> check_entry \<times> coordinator" where
  "enter_check configured now builder c =
     (let same = (ck_builder c = Some builder) in
      case (if same \<and> now - ck_completed_at c < cooldown_seconds configured then ck_cached c else None) of
        Some r \<Rightarrow> (Answer r, c)
      | None \<Rightarrow>
          if ck_running c
          then (case (if same then ck_cached c else None) of
                  Some r \<Rightarrow> (Answer r, c)
                | None \<Rightarrow> (Answer check_busy, c))
          else let c1 = (if same then c else c\<lparr>ck_cached := None, ck_completed_at := 0\<rparr>)
               in (Start (ck_generation c), c1\<lparr>ck_running := True, ck_builder := Some builder\<rparr>))"

definition leave_check :: "nat \<Rightarrow> coordinator \<Rightarrow> coordinator" where
  "leave_check g c = (if g = ck_generation c then c\<lparr>ck_running := False\<rparr> else c)"

definition cache_check :: "nat \<Rightarrow> check_result \<Rightarrow> rat \<Rightarrow> coordinator \<Rightarrow> coordinator" where
  "cache_check g r now c = (if g = ck_generation c then c\<lparr>ck_cached := Some r, ck_completed_at := now\<rparr> else c)"

definition reset_checks :: "coordinator \<Rightarrow> coordinator" where
  "reset_checks c = \<lparr>ck_running = False, ck_cached = None, ck_completed_at = 0, ck_builder = None,
     ck_generation = ck_generation c + 1\<rparr>"

text \<open>The whole method; \<open>others\<close> are what other threads do while the check runs and before its result is kept.\<close>

definition run_check ::
  "(nat \<Rightarrow> coordinator \<Rightarrow> coordinator) \<Rightarrow> exn + pyfloat \<Rightarrow> rat \<Rightarrow> nat \<Rightarrow> exn + check_result \<Rightarrow> rat \<Rightarrow> coordinator
     \<Rightarrow> (exn + check_result) \<times> coordinator" where
  "run_check others configured now builder result finished c =
     (case enter_check configured now builder c of
        (Answer r, c1) \<Rightarrow> (Inr r, c1)
      | (Start g, c1) \<Rightarrow>
          let c2 = leave_check g (others 0 c1)
          in case result of
               Inl e \<Rightarrow> (Inl e, c2)
             | Inr r \<Rightarrow> (Inr r, cache_check g r finished (others 1 c2)))"

subsection \<open>Threads\<close>

datatype phase = Idle | Building nat nat | Caching nat nat check_result

record check_system =
  cs_guard :: coordinator
  cs_phase :: "nat \<Rightarrow> phase"
  cs_answers :: "(nat \<times> check_result) list"
  cs_built :: "(nat \<times> check_result) list"

definition new_system :: check_system where
  "new_system = \<lparr>cs_guard = new_coordinator, cs_phase = (\<lambda>t. Idle), cs_answers = [], cs_built = []\<rparr>"

text \<open>
  A thread enters with a builder; its check ends with a result or an exception; its result is kept;
  the coordinator is reset.  A step of a thread that is not in the phase for it does nothing.
\<close>

datatype check_step = Enter nat "exn + pyfloat" rat nat | Finish nat "check_result option" | Keep nat rat | Reset_Checks

fun check_exec :: "check_step \<Rightarrow> check_system \<Rightarrow> check_system" where
  "check_exec (Enter t configured now builder) s =
     (case cs_phase s t of
        Idle \<Rightarrow>
          (case enter_check configured now builder (cs_guard s) of
             (Answer r, c) \<Rightarrow> s\<lparr>cs_guard := c, cs_answers := (builder, r) # cs_answers s\<rparr>
           | (Start g, c) \<Rightarrow> s\<lparr>cs_guard := c, cs_phase := (cs_phase s)(t := Building builder g)\<rparr>)
      | _ \<Rightarrow> s)"
| "check_exec (Finish t result) s =
     (case cs_phase s t of
        Building builder g \<Rightarrow>
          s\<lparr>cs_guard := leave_check g (cs_guard s),
            cs_phase := (cs_phase s)(t := (case result of None \<Rightarrow> Idle | Some r \<Rightarrow> Caching builder g r)),
            cs_built := (case result of None \<Rightarrow> cs_built s | Some r \<Rightarrow> (builder, r) # cs_built s)\<rparr>
      | _ \<Rightarrow> s)"
| "check_exec (Keep t now) s =
     (case cs_phase s t of
        Caching builder g r \<Rightarrow>
          s\<lparr>cs_guard := cache_check g r now (cs_guard s), cs_phase := (cs_phase s)(t := Idle),
            cs_answers := (builder, r) # cs_answers s\<rparr>
      | _ \<Rightarrow> s)"
| "check_exec Reset_Checks s = s\<lparr>cs_guard := reset_checks (cs_guard s)\<rparr>"

definition check_run :: "check_step list \<Rightarrow> check_system" where
  "check_run steps = foldl (\<lambda>s a. check_exec a s) new_system steps"

lemma check_run_induct [case_names start step]:
  assumes "P new_system" "\<And>steps a. P (check_run steps) \<Longrightarrow> P (check_exec a (check_run steps))"
  shows "P (check_run steps)"
  using assms by (induction steps rule: rev_induct) (simp_all add: check_run_def)

subsection \<open>One check at a time\<close>

definition single_check :: "check_system \<Rightarrow> bool" where
  "single_check s \<longleftrightarrow>
     (\<forall>t b g. cs_phase s t = Building b g \<longrightarrow> g \<le> ck_generation (cs_guard s)) \<and>
     (\<forall>t b. cs_phase s t = Building b (ck_generation (cs_guard s)) \<longrightarrow>
        ck_running (cs_guard s) \<and>
        (\<forall>t' b'. cs_phase s t' = Building b' (ck_generation (cs_guard s)) \<longrightarrow> t' = t))"

lemma enter_check_cases:
  obtains (answer) r where "enter_check configured now builder c = (Answer r, c)"
      "r = check_busy \<or> ck_cached c = Some r \<and> ck_builder c = Some builder"
  | (start) c' where "enter_check configured now builder c = (Start (ck_generation c), c')"
      "\<not> ck_running c" "ck_running c'" "ck_builder c' = Some builder" "ck_generation c' = ck_generation c"
      "ck_cached c' = None \<or> ck_builder c = Some builder \<and> ck_cached c' = ck_cached c"
proof (cases "ck_builder c = Some builder")
  case True
  then show ?thesis
    using that by (cases "ck_cached c"; cases "now - ck_completed_at c < cooldown_seconds configured"; cases "ck_running c")
      (simp_all add: enter_check_def)
next
  case False
  then show ?thesis using that by (cases "ck_running c") (simp_all add: enter_check_def Let_def)
qed

lemma single_check_exec:
  assumes inv: "single_check s"
  shows "single_check (check_exec a s)"
proof (cases a)
  case (Enter t configured now builder)
  show ?thesis
  proof (cases "cs_phase s t")
    case Idle
    show ?thesis
    proof (cases rule: enter_check_cases [of configured now builder "cs_guard s"])
      case (answer r)
      with inv show ?thesis by (simp add: Enter Idle single_check_def)
    next
      case (start c')
      with inv Idle show ?thesis by (auto simp: Enter single_check_def)
    qed
  qed (use inv Enter in simp_all)
next
  case (Finish t result)
  with inv show ?thesis
    by (cases "cs_phase s t"; cases result) (auto simp: single_check_def leave_check_def split: if_splits)
next
  case (Keep t now)
  with inv show ?thesis
    by (cases "cs_phase s t") (auto simp: single_check_def cache_check_def split: if_splits)
next
  case Reset_Checks
  have "g \<le> ck_generation (cs_guard s)" if "cs_phase s t = Building b g" for t b g
    using inv that by (auto simp: single_check_def)
  then show ?thesis by (fastforce simp: Reset_Checks single_check_def reset_checks_def)
qed

lemma single_check_run: "single_check (check_run steps)"
proof (induction rule: check_run_induct)
  case start
  show ?case by (simp add: single_check_def new_system_def)
next
  case (step steps a)
  then show ?case by (rule single_check_exec)
qed

text \<open>
  C9: Whatever threads enter, finish and keep results in whatever order, at most one check
  runs since the last reset, and while it runs every caller is answered without starting another.
\<close>

theorem one_check_at_a_time:
  assumes "cs_phase (check_run steps) t = Building b (ck_generation (cs_guard (check_run steps)))"
  shows "(\<forall>t' b'. cs_phase (check_run steps) t' = Building b' (ck_generation (cs_guard (check_run steps))) \<longrightarrow> t' = t)
    \<and> (\<exists>r. enter_check configured now builder (cs_guard (check_run steps)) = (Answer r, cs_guard (check_run steps)))"
proof -
  have run: "ck_running (cs_guard (check_run steps))"
    and one: "\<forall>t' b'. cs_phase (check_run steps) t' = Building b' (ck_generation (cs_guard (check_run steps))) \<longrightarrow> t' = t"
    using single_check_run [of steps] assms by (auto simp: single_check_def)
  have "\<exists>r. enter_check configured now builder (cs_guard (check_run steps)) = (Answer r, cs_guard (check_run steps))"
    by (cases rule: enter_check_cases [of configured now builder "cs_guard (check_run steps)"]) (use run in auto)
  with one show ?thesis by blast
qed

subsection \<open>Where answers come from\<close>

primrec uses_builder :: "nat \<Rightarrow> check_step \<Rightarrow> bool" where
  "uses_builder b (Enter t configured now builder) \<longleftrightarrow> builder = b"
| "uses_builder b (Finish t result) \<longleftrightarrow> True"
| "uses_builder b (Keep t now) \<longleftrightarrow> True"
| "uses_builder b Reset_Checks \<longleftrightarrow> True"

definition from_builder :: "nat \<Rightarrow> check_system \<Rightarrow> bool" where
  "from_builder b s \<longleftrightarrow>
     (\<forall>r. ck_cached (cs_guard s) = Some r \<longrightarrow> (b, r) \<in> set (cs_built s)) \<and>
     (\<forall>t b' g. cs_phase s t = Building b' g \<longrightarrow> b' = b) \<and>
     (\<forall>t b' g r. cs_phase s t = Caching b' g r \<longrightarrow> b' = b \<and> (b', r) \<in> set (cs_built s)) \<and>
     (\<forall>(b', r) \<in> set (cs_answers s). b' = b \<and> (r = check_busy \<or> (b', r) \<in> set (cs_built s)))"

lemma from_builder_exec:
  assumes inv: "from_builder b s" and uses: "uses_builder b a"
  shows "from_builder b (check_exec a s)"
proof (cases a)
  case (Enter t configured now builder)
  with uses have a: "a = Enter t configured now b" by simp
  show ?thesis
  proof (cases "cs_phase s t")
    case Idle
    show ?thesis
    proof (cases rule: enter_check_cases [of configured now b "cs_guard s"])
      case (answer r)
      have "r = check_busy \<or> (b, r) \<in> set (cs_built s)"
        using inv answer(2) by (auto simp: from_builder_def simp del: split_paired_All)
      moreover have "check_exec a s = s\<lparr>cs_answers := (b, r) # cs_answers s\<rparr>" by (simp add: a Idle answer(1))
      ultimately show ?thesis using inv by (simp add: from_builder_def)
    next
      case (start c')
      with inv Idle show ?thesis by (auto simp: a from_builder_def simp del: split_paired_All)
    qed
  qed (use inv Enter in simp_all)
next
  case (Finish t result)
  show ?thesis
  proof (cases "cs_phase s t")
    case (Building b' g)
    have c: "ck_cached (leave_check g (cs_guard s)) = ck_cached (cs_guard s)" by (simp add: leave_check_def)
    have "b' = b" using inv Building unfolding from_builder_def by blast
    with inv Building show ?thesis by (cases result) (auto simp: Finish from_builder_def c)
  qed (use inv Finish in simp_all)
next
  case (Keep t now)
  show ?thesis
  proof (cases "cs_phase s t")
    case (Caching b' g r)
    have b': "b' = b \<and> (b', r) \<in> set (cs_built s)" using inv Caching unfolding from_builder_def by blast
    have c: "ck_cached (cache_check g r now (cs_guard s)) \<in> {Some r, ck_cached (cs_guard s)}" by (simp add: cache_check_def)
    show ?thesis using inv Caching b' c by (auto simp: Keep from_builder_def)
  qed (use inv Keep in simp_all)
next
  case Reset_Checks
  with inv show ?thesis by (auto simp: from_builder_def reset_checks_def)
qed

text \<open>
  While all callers pass one callable, everybody is answered with a result that a
  check of it returned, or told that a check is running; a check that raised leaves no answer.
\<close>

theorem answers_were_built:
  assumes "\<forall>a \<in> set steps. uses_builder b a" "(b', r) \<in> set (cs_answers (check_run steps))"
  shows "r = check_busy \<or> (b, r) \<in> set (cs_built (check_run steps))"
proof -
  have "from_builder b (check_run steps)" using assms(1)
  proof (induction steps rule: rev_induct)
    case Nil
    show ?case by (simp add: from_builder_def check_run_def new_system_def new_coordinator_def)
  next
    case (snoc a steps)
    then have "from_builder b (check_exec a (check_run steps))" by (intro from_builder_exec) auto
    then show ?case by (simp add: check_run_def)
  qed
  with assms(2) show ?thesis by (auto simp: from_builder_def)
qed

text \<open>
  With two callables it is not so, although a comment says that a replaced one never inherits a
  response: between the two regions that end a check another callable may start, and the
  result of the first is then kept under the identity of the second.
\<close>

definition sample_result :: check_result where
  "sample_result = ([(''success'', PBool True)], 200)"

definition swap_steps :: "check_step list" where
  "swap_steps = [Enter 0 (Inr (Fin 10)) 0 1, Finish 0 (Some sample_result), Enter 1 (Inr (Fin 10)) 1 2, Keep 0 2,
     Finish 1 None, Enter 2 (Inr (Fin 10)) 3 2]"

lemma swapped_builder_inherits:
  "(2, sample_result) \<in> set (cs_answers (check_run swap_steps)) \<and> (2, sample_result) \<notin> set (cs_built (check_run swap_steps))"
  by (simp add: check_run_def swap_steps_def new_system_def new_coordinator_def enter_check_def leave_check_def
      cache_check_def cooldown_seconds_def sample_result_def Let_def)

subsection \<open>Witnesses\<close>

lemma one_check_at_a_time_witness:
  "\<exists>r. enter_check (Inr NaN) 5 7 (cs_guard (check_run [Enter 0 (Inr (Fin 10)) 0 1]))
     = (Answer r, cs_guard (check_run [Enter 0 (Inr (Fin 10)) 0 1]))"
proof -
  have "cs_phase (check_run [Enter 0 (Inr (Fin 10)) 0 1]) 0
      = Building 1 (ck_generation (cs_guard (check_run [Enter 0 (Inr (Fin 10)) 0 1])))"
    by (simp add: check_run_def new_system_def new_coordinator_def enter_check_def Let_def)
  from one_check_at_a_time [OF this] show ?thesis by blast
qed

definition reuse_steps :: "check_step list" where
  "reuse_steps = [Enter 0 (Inr (Fin 10)) 0 1, Enter 1 (Inr (Fin 10)) 1 1, Finish 0 (Some sample_result), Keep 0 2,
     Enter 1 (Inr (Fin 10)) 3 1]"

lemma answers_were_built_witness:
  "(1, sample_result) \<in> set (cs_answers (check_run reuse_steps))
   \<and> (sample_result = check_busy \<or> (1, sample_result) \<in> set (cs_built (check_run reuse_steps)))"
proof -
  have a: "(1, sample_result) \<in> set (cs_answers (check_run reuse_steps))"
    by (simp add: check_run_def reuse_steps_def new_system_def new_coordinator_def enter_check_def leave_check_def
        cache_check_def cooldown_seconds_def Let_def)
  have u: "\<forall>a \<in> set reuse_steps. uses_builder 1 a" by (simp add: reuse_steps_def)
  from a answers_were_built [OF u a] show ?thesis by blast
qed

end
