(* ===== verification/Spec2Isabelle.thy ===== *)
theory Spec2Isabelle
  imports Prelude Py_Strings Py_Values Py_Time Key_Value Occurrences Login_Limiter Api_Token_Limiter Bridge_Ingress Bridge_Payload Leases Subscribers Operations
    Guard_Classify Guard_Streams Guard_Rows Guard_History Guard_Enforcement Guard_Playback Guard_Control Guard_Scan Guard_Stats
    Item_Matching Emby_Calls Emby_Dates Emby_Items Emby_Lookup Play_State Play_Sync Play_Merge
    User_Favorites User_Playlists User_Snapshots Group_Delta Group_Sync
    Change_Feed Text_Limits Probe_Store Probe_Queue Probe_Worker Notification_Ledger Notification_Delivery
    Publication_History Notification_State Notification_Checkpoint Dispatch_Tickets Mutation_Locks Check_Guard
begin

text \<open>
  Verification library of OctoHubs, a FastAPI application that orchestrates Emby media servers.

  \<^bold>\<open>The program.\<close>  A web process serves the interface and the API (\<open>web/\<close>, \<open>core/\<close>), keeps its
  state in one database behind a key-value storage (\<open>core/storage/\<close>), runs background work on
  threads (\<open>services/\<close>, \<open>core/operations.py\<close>), talks to Emby servers over HTTP and WebSocket
  (\<open>emby_runtime/\<close>), receives events from a plugin on those servers (the Event Bridge), pushes
  changes to browsers (\<open>realtime/\<close>), and enforces a policy on the streams it sees (the Transcode
  Guard).  The parts modelled here are those that decide something under concurrency, limits or
  untrusted input; each is pure Python over dictionaries, so that it can be translated as it is.

  \<^bold>\<open>Foundations.\<close>
  \<^item> \<open>Prelude\<close>: ordered dictionaries, stable sorting, exceptions as values (\<open>exn + 'a\<close> with
    \<open>result_bind\<close>), and the \<open>named_theorems\<close> collections.
  \<^item> \<open>Py_Strings\<close>, \<open>Py_Values\<close>, \<open>Py_Time\<close>: the Python library the code rests on.  A string is a list of
    Latin-1 code points; a JSON value is the datatype \<open>py\<close>; a float is an exact rational (or an
    infinity or NaN) with the text \<open>repr\<close> gives it; \<open>datetime\<close> texts are parsed and printed as in
    \<open>Lib/datetime.py\<close>, an instant being its microseconds since year 1.

  \<^bold>\<open>Components.\<close>
  \<^item> \<open>Key_Value\<close>: the atomic update of a stored value (\<open>core/storage/storage_collections.py\<close>), the
    locale \<open>atomic_store\<close> its clients rely on.
  \<^item> \<open>Occurrences\<close>: claims of scheduled occurrences by rival coordinators and the lease that renews
    one (\<open>services/scheduler_occurrences.py\<close>).  Every transaction is a state transformer; rivals are
    lists of operations.  Lemmas: exclusiveness, finality, fencing, single completion.
  \<^item> \<open>Window_Limiter\<close>, \<open>Login_Limiter\<close>, \<open>Api_Token_Limiter\<close>: sliding windows.  The locale proves the bound
    over any window of any trace once; login throttling with the constant-work password check
    (\<open>web/login_security.py\<close>; over runs of attempts and of successful logins, which clear a bucket) and the API token quotas (\<open>web/api_token_rate_limit.py\<close>) interpret it.
  \<^item> \<open>Token_Bucket\<close>, \<open>Bridge_Ingress\<close>: token buckets, with the conformance bound (admitted cost is at most
    burst plus rate times time) in a locale, interpreted on the message, event and byte quotas of
    \<open>emby_runtime/event_bridge_limits.py\<close>.
  \<^item> \<open>Bridge_Payload\<close>: the shape and the cost of a plugin payload, bounded traversal of JSON
    (\<open>event_bridge_limits.py\<close>, \<open>event_bridge_payloads.py\<close>).
  \<^item> \<open>Leases\<close>: counted connection leases (\<open>event_bridge_connection_limits.py\<close>,
    \<open>realtime/connection_limits.py\<close>).  \<open>Subscribers\<close>: the bounded queues of \<open>realtime/subscribers.py\<close>.
  \<^item> \<open>Operations\<close>: the registry of background operations with owners, heartbeats and pruning
    (\<open>core/operations.py\<close>).
  \<^item> The Transcode Guard (\<open>emby_runtime/transcode_guard_*.py\<close>), bottom up: \<open>Guard_Values\<close> and
    \<open>Guard_Validation\<close> (reading values, limits of a settings payload), \<open>Guard_Rules\<close> and \<open>Guard_Settings\<close>
    (normal rules, groups flattened into rules, normal settings), \<open>Guard_Classify\<close> (which rule decides
    a stream), \<open>Guard_Streams\<close> and \<open>Guard_Rows\<close> (keys, tags and rows of the logs), \<open>Guard_History\<close> (the
    event, stream and playback logs), \<open>Guard_Enforcement\<close> (warnings and stops), \<open>Guard_Playback\<close> (the
    events Emby sends), \<open>Guard_Control\<close> (servers, settings, event handlers), \<open>Guard_Scan\<close> (the scan and
    its interleavings) and \<open>Guard_Stats\<close> (statistics).
  \<^item> The synchronisation of users between Emby servers (\<open>emby_users/\<close>): \<open>Item_Matching\<close> (the keys and
    signatures by which an item is found on another server, \<open>item_matching.py\<close>), \<open>Emby_Calls\<close> (one
    request, the paging loop and its guard, \<open>emby_runtime/api_clients_emby.py\<close>, \<open>core/pagination.py\<close>),
    \<open>Emby_Dates\<close> (reading, comparing and sending dates), \<open>Emby_Items\<close> and \<open>Emby_Lookup\<close> (the calls of
    \<open>api_client_items.py\<close>), \<open>Play_State\<close> (\<open>playstate_support.py\<close>), \<open>Play_Sync\<close> (targets brought to a
    state or to an exact source, \<open>playstate_state.py\<close>, \<open>playstate_exact.py\<close>) and \<open>Play_Merge\<close> (the one-way
    copy and the union of all users, \<open>playstate_sync.py\<close>, \<open>playstate_merge.py\<close>), \<open>User_Favorites\<close> and
    \<open>User_Playlists\<close> (\<open>favorites_manager.py\<close>, \<open>playlists_manager.py\<close>), \<open>User_Snapshots\<close> (what a user had
    at the last synchronisation, what changed since, and the fenced commit, \<open>state_tracker.py\<close>),
    \<open>Group_Delta\<close> and \<open>Group_Sync\<close> (the three-way merges and the runs over groups,
    \<open>auto_sync_manager.py\<close>).  The unions of all sources share the locale \<open>source_union\<close>.  An operation that talks
    to Emby is an \<open>act\<close>: it extends the list of requests sent and returns a value or an exception; what
    Emby answers is a function of the requests sent so far.  Two small calculi, \<open>emits\<close> (every request
    satisfies a predicate) and \<open>yields\<close> (every result does), carry the properties over the loops.

  \<^item> \<open>Change_Feed\<close>: the journal of changes that external clients poll (\<open>realtime/external_change_feed.py\<close>),
    refined by the full journal of which a page is a slice.
  \<^item> \<open>Text_Limits\<close>: validation and projection of texts that are stored (\<open>core/storage/field_limits.py\<close>,
    \<open>core/persisted_text.py\<close>, \<open>core/emby_identifiers.py\<close>).
  \<^item> The probe of media files: \<open>Probe_Store\<close> and \<open>Probe_Queue\<close> are the queue, blacklist and history
    tables with their operations (\<open>core/storage/storage_probe.py\<close>), \<open>Probe_Worker\<close> the workers that claim,
    renew, probe and commit (\<open>emby_probe/queue_leases.py\<close>, \<open>library_probe_execution.py\<close>, \<open>recent.py\<close>).
    A claim is a token on a row; every write of a worker is fenced by it.
  \<^item> The notification of new items: \<open>Notification_Ledger\<close> is the ledger of deliveries with the parts of
    a claim as steps (\<open>core/storage/storage_latest_notifications.py\<close>), \<open>Notification_Delivery\<close> the
    delivery phase of a dispatch (\<open>emby_latest/notification_delivery*.py\<close>).  A small Hoare calculus
    (\<open>holds_after\<close>) carries the invariant of the ledger and the sent requests through the dispatch.
    \<open>Publication_History\<close> is the memory of what was published, with the aliases of a film
    (\<open>emby_latest/publication_history.py\<close>; the alias loop is refined by an inductive component),
    \<open>Notification_State\<close> the merge of that memory with what the collector wrote meanwhile
    (\<open>core/storage/storage_latest_state_merge.py\<close>), \<open>Notification_Checkpoint\<close> what a dispatch saves
    and what the next one looks up (\<open>emby_latest/notification_checkpoint.py\<close>), \<open>Dispatch_Tickets\<close> the
    single flight of dispatches (\<open>emby_latest/notification_delivery.py\<close>).
  \<^item> \<open>Mutation_Locks\<close>: the counted, re-entrant locks and the advisory locks that fence mutations of users
    (\<open>emby_users/mutation_coordinator.py\<close>); every region of every guard is a step.  An invariant over
    the nesting of guards gives exclusion, coverage by the database and an empty table at the end.
  \<^item> \<open>Check_Guard\<close>: at most one connection check and its cooldown (\<open>services/connection_check_guard.py\<close>).

  \<^bold>\<open>How they interact.\<close>  A scan (\<open>Guard_Scan.check_once\<close>) loads the settings, fetches the sessions of
  each server without the lock, classifies each stream (\<open>classify_stream\<close>), records it in the logs
  (\<open>record_stream_observation\<close>) and hands an enforced one to \<open>handle_violation\<close>, which calls Emby
  and writes the event log; what is not seen any more is settled at the end.  Administration
  (\<open>allow_server\<close>, \<open>forget_server\<close>, \<open>save_settings\<close>) and playback events run between these steps:
  \<open>guard_step\<close> is the step relation of them all, and the properties on deleted servers hold for
  every sequence of steps.  The abstract policy of a rule (\<open>policy_step\<close> in \<open>Guard_Enforcement\<close>) is
  refined by \<open>handle_violation\<close>: the bounds on warnings and the order of warning and stop are proved
  on the policy and carried over.

  A run of a group (\<open>sync_group\<close>) takes the baselines from the key-value table, lets each domain's step
  observe all participants and bring them to the merged state through the managers of favourites,
  playlists and playback states, observes them once more and commits the new baselines with
  \<open>compare_and_set_key_values\<close>; \<open>run_steps\<close> turns the first exception into the end of the run.  What a run
  writes about itself, in the group's row and in its operation, is a list of marks; the storage may
  refuse any of them with an exception (\<open>we_refuses\<close>), before, inside and after the \<open>try\<close> of the code.

  \<^bold>\<open>Conventions.\<close>  A method is a function from its arguments and the state to its result and the
  new state, one lock region per function; an exception is a value, next to the state it leaves
  when the state was changed before.  A clock is an argument.  Float arithmetic is exact.  Hashes,
  password checks, JSON decoding, \<open>ipaddress\<close>, \<open>str.format\<close>, the text of a float and the answers of
  Emby are parameters: arguments of the definitions that use them.  Loops are recursive functions;
  the walks over nested JSON and over rule trees (\<open>walk_rules\<close>) terminate by a size measure and no
  fuel is used anywhere.

  \<^bold>\<open>Not modelled.\<close>  Threads and their start, stop and wake-up (\<open>core/thread_lifecycle.py\<close>, the guard's
  run loop), SQLAlchemy sessions and migrations, HTTP and WebSocket clients and routes, Telegram,
  search and torrent clients, the synchronisation of libraries and collections between servers, the
  creation and the settings of users, the choice of the files to probe and the requests of a probe, the
  collection of new items, notification rules, templates and the front end: they are input and output, or large enough to be separate developments.
  Strings outside Latin-1 and the rounding of floats are
  outside the model.
\<close>

end
